(* ===== verification/Tachi_Prelude.thy ===== *)
theory Tachi_Prelude
  imports
    Main
    "HOL-Library.Multiset"
    "HOL-Library.Word"
    "HOL-Library.List_Lexorder"
    "HOL-Library.Char_ord"
    "HOL-Library.Product_Lexorder"
    "HOL-Library.Option_ord"
begin

text \<open>
  Prelude of the development: the part of Rust's standard library the modelled code
  uses, with the lemmas the components share.

  A Rust \<open>String\<close> is its list of UTF-8 bytes, a HOL \<^typ>\<open>string\<close>: \<open>len\<close> is
  \<^const>\<open>length\<close>, the derived order is the lexicographic order of the bytes. Structs
  that Rust orders or uses as map keys are datatypes with one constructor, so that they
  are instances of \<open>linorder\<close>; the others are records. \<open>Result<T, E>\<close> is
  \<open>'e + 't\<close> with \<^const>\<open>Inl\<close> for \<open>Err\<close>. A \<open>BTreeMap\<close> is an association
  list with strictly ascending keys, so iteration in key order is the list itself.
\<close>

named_theorems wire_simps \<open>spelling tables of the closed vocabularies\<close>
named_theorems bt_simps \<open>lookup and key facts of the ordered maps\<close>

section \<open>Results\<close>

type_synonym ('t, 'e) result = "'e + 't"

abbreviation Ok :: "'t \<Rightarrow> ('t, 'e) result" where "Ok \<equiv> Inr"
abbreviation Err :: "'e \<Rightarrow> ('t, 'e) result" where "Err \<equiv> Inl"

definition and_then :: "('t, 'e) result \<Rightarrow> ('t \<Rightarrow> ('u, 'e) result) \<Rightarrow> ('u, 'e) result" where
  "and_then r f = (case r of Inl e \<Rightarrow> Inl e | Inr t \<Rightarrow> f t)"

lemma and_then_simps [simp]:
  "and_then (Inl e) f = Inl e"
  "and_then (Inr t) f = f t"
  by (simp_all add: and_then_def)

lemma and_then_Inr_iff: "and_then r f = Inr u \<longleftrightarrow> (\<exists>t. r = Inr t \<and> f t = Inr u)"
  by (cases r) simp_all

lemma guard_Inr: "(if c then Inl e else r) = Inr t \<longleftrightarrow> \<not> c \<and> r = Inr t"
  by simp

section \<open>Instants\<close>

text \<open>The RFC 3339 parser of the \<open>chrono\<close> crate and its minimal instant, in nanoseconds.\<close>

record chrono =
  parse_from_rfc3339 :: "string \<Rightarrow> int option"
  MIN_UTC :: int

definition second :: int where
  "second = 1000000000"

text \<open>\<open>Duration::num_seconds\<close> truncates towards zero.\<close>

definition num_seconds :: "int \<Rightarrow> int" where
  "num_seconds d = (if 0 \<le> d then d div second else - ((- d) div second))"

section \<open>Strings\<close>

text \<open>
  \<open>str::trim\<close> strips the characters of Unicode's White\_Space property.
  \<open>ws_head\<close> is the number of bytes the white-space character at the head of a
  valid UTF-8 string takes, 0 if there is none: U+0009 to U+000D and U+0020 take one
  byte, U+0085 and U+00A0 two, the others three.
\<close>

definition ws3 :: "nat \<Rightarrow> nat \<Rightarrow> nat \<Rightarrow> bool" where
  "ws3 a b c \<longleftrightarrow>
     a = 225 \<and> b = 154 \<and> c = 128
   \<or> a = 226 \<and> b = 128 \<and> (128 \<le> c \<and> c \<le> 138 \<or> c = 168 \<or> c = 169 \<or> c = 175)
   \<or> a = 226 \<and> b = 129 \<and> c = 159
   \<or> a = 227 \<and> b = 128 \<and> c = 128"

definition ws2 :: "nat \<Rightarrow> nat \<Rightarrow> bool" where
  "ws2 a b \<longleftrightarrow> a = 194 \<and> (b = 133 \<or> b = 160)"

definition ws1 :: "nat \<Rightarrow> bool" where
  "ws1 a \<longleftrightarrow> 9 \<le> a \<and> a \<le> 13 \<or> a = 32"

fun ws_head :: "nat list \<Rightarrow> nat" where
  "ws_head (a # b # c # _) = (if ws1 a then 1 else if ws2 a b then 2 else if ws3 a b c then 3 else 0)"
| "ws_head [a, b] = (if ws1 a then 1 else if ws2 a b then 2 else 0)"
| "ws_head [a] = (if ws1 a then 1 else 0)"
| "ws_head [] = 0"

text \<open>The same for the last character, read from the reversed bytes.\<close>

fun ws_last :: "nat list \<Rightarrow> nat" where
  "ws_last (c # b # a # _) = (if ws1 c then 1 else if ws2 b c then 2 else if ws3 a b c then 3 else 0)"
| "ws_last [c, b] = (if ws1 c then 1 else if ws2 b c then 2 else 0)"
| "ws_last [c] = (if ws1 c then 1 else 0)"
| "ws_last [] = 0"

abbreviation bytes_of :: "string \<Rightarrow> nat list" where
  "bytes_of s \<equiv> map of_char s"

function strip :: "(nat list \<Rightarrow> nat) \<Rightarrow> string \<Rightarrow> string" where
  "strip w s = (let n = w (bytes_of s) in if n = 0 \<or> s = [] then s else strip w (drop n s))"
  by pat_completeness auto
termination
  by (relation "measure (\<lambda>(w, s). length s)") auto

declare strip.simps [simp del]

definition trim_start :: "string \<Rightarrow> string" where
  "trim_start s = strip ws_head s"

definition trim_end :: "string \<Rightarrow> string" where
  "trim_end s = rev (strip ws_last (rev s))"

definition trim :: "string \<Rightarrow> string" where
  "trim s = trim_end (trim_start s)"

lemma strip_Nil [simp]: "strip w [] = []"
  by (simp add: strip.simps)

lemma strip_stop: "w (bytes_of s) = 0 \<Longrightarrow> strip w s = s"
  by (simp add: strip.simps)

lemma trim_Nil [simp]: "trim [] = []"
  by (simp add: trim_def trim_start_def trim_end_def)

definition blank :: "string \<Rightarrow> bool" where
  "blank s \<longleftrightarrow> trim s = []"

lemma blank_Nil [simp]: "blank []"
  by (simp add: blank_def)

text \<open>ASCII digits, decimal printing and \<open>str::parse::<u64>\<close>.\<close>

definition is_ascii_digit :: "char \<Rightarrow> bool" where
  "is_ascii_digit c \<longleftrightarrow> 48 \<le> (of_char c :: nat) \<and> (of_char c :: nat) \<le> 57"

definition digit_value :: "char \<Rightarrow> nat" where
  "digit_value c = of_char c - 48"

definition digit_char :: "nat \<Rightarrow> char" where
  "digit_char d = char_of (48 + d)"

fun show_nat :: "nat \<Rightarrow> string" where
  "show_nat n = (if n < 10 then [digit_char n] else show_nat (n div 10) @ [digit_char (n mod 10)])"

declare show_nat.simps [simp del]

definition decimal :: "string \<Rightarrow> nat" where
  "decimal s = foldl (\<lambda>n c. 10 * n + digit_value c) 0 s"

definition strip_plus :: "string \<Rightarrow> string" where
  "strip_plus s = (case s of c # d # cs \<Rightarrow> if c = CHR ''+'' then d # cs else s | _ \<Rightarrow> s)"

definition parse_u64 :: "string \<Rightarrow> nat option" where
  "parse_u64 s =
     (let ds = strip_plus s
      in if ds \<noteq> [] \<and> list_all is_ascii_digit ds \<and> decimal ds < 2 ^ 64
         then Some (decimal ds) else None)"

lemma is_ascii_digit_digit_char [simp]: "d < 10 \<Longrightarrow> is_ascii_digit (digit_char d)"
  by (simp add: is_ascii_digit_def digit_char_def)

lemma digit_value_digit_char [simp]: "d < 10 \<Longrightarrow> digit_value (digit_char d) = d"
  by (simp add: digit_value_def digit_char_def)

lemma digits_show_nat: "list_all is_ascii_digit (show_nat n)"
  by (induction n rule: show_nat.induct) (subst show_nat.simps, simp)

lemma show_nat_nonempty [simp]: "show_nat n \<noteq> []"
  by (subst show_nat.simps) simp

lemma decimal_snoc: "decimal (s @ [c]) = 10 * decimal s + digit_value c"
  by (simp add: decimal_def)

lemma decimal_show_nat [simp]: "decimal (show_nat n) = n"
proof (induction n rule: show_nat.induct)
  case (1 n)
  show ?case
  proof (cases "n < 10")
    case True
    then show ?thesis by (simp add: show_nat.simps [of n] decimal_def)
  next
    case False
    with 1 have "decimal (show_nat n) = 10 * (n div 10) + n mod 10"
      by (simp add: show_nat.simps [of n] decimal_snoc)
    then show ?thesis by simp
  qed
qed

lemma show_nat_inject [simp]: "show_nat m = show_nat n \<longleftrightarrow> m = n"
  by (metis decimal_show_nat)

lemma not_digit_plus [simp]: "\<not> is_ascii_digit (CHR ''+'')"
  by (simp add: is_ascii_digit_def)

lemma strip_plus_digits: "list_all is_ascii_digit s \<Longrightarrow> strip_plus s = s"
  by (auto simp: strip_plus_def split: list.split)

lemma parse_u64_show_nat [simp]: "n < 2 ^ 64 \<Longrightarrow> parse_u64 (show_nat n) = Some n"
  by (simp add: parse_u64_def Let_def strip_plus_digits digits_show_nat)

definition lower_ascii :: "char \<Rightarrow> char" where
  "lower_ascii c = (if 65 \<le> (of_char c :: nat) \<and> (of_char c :: nat) \<le> 90 then char_of (of_char c + 32 :: nat) else c)"

definition to_ascii_lowercase :: "string \<Rightarrow> string" where
  "to_ascii_lowercase s = map lower_ascii s"

text \<open>SQLite's \<open>COLLATE NOCASE\<close> folds the 26 ASCII upper-case letters, as
  \<open>eq_ignore_ascii_case\<close> does.\<close>

definition eq_ignore_ascii_case :: "string \<Rightarrow> string \<Rightarrow> bool" where
  "eq_ignore_ascii_case s t \<longleftrightarrow> to_ascii_lowercase s = to_ascii_lowercase t"

lemma lower_ascii_idem [simp]: "lower_ascii (lower_ascii c) = lower_ascii c"
  by (auto simp: lower_ascii_def)

lemma to_ascii_lowercase_idem [simp]: "to_ascii_lowercase (to_ascii_lowercase s) = to_ascii_lowercase s"
  by (simp add: to_ascii_lowercase_def)

lemma eq_ignore_ascii_case_refl [simp]: "eq_ignore_ascii_case s s"
  by (simp add: eq_ignore_ascii_case_def)

lemma eq_ignore_ascii_case_lower [simp]:
  "eq_ignore_ascii_case (to_ascii_lowercase s) t \<longleftrightarrow> eq_ignore_ascii_case s t"
  "eq_ignore_ascii_case s (to_ascii_lowercase t) \<longleftrightarrow> eq_ignore_ascii_case s t"
  by (simp_all add: eq_ignore_ascii_case_def)

text \<open>\<open>str::split_once\<close> and \<open>str::split\<close> on ASCII patterns.\<close>

fun split_once :: "string \<Rightarrow> string \<Rightarrow> (string \<times> string) option" where
  "split_once pat [] = (if pat = [] then Some ([], []) else None)"
| "split_once pat (c # cs) =
     (if take (length pat) (c # cs) = pat then Some ([], drop (length pat) (c # cs))
      else map_option (\<lambda>(a, b). (c # a, b)) (split_once pat cs))"

fun split_on :: "(char \<Rightarrow> bool) \<Rightarrow> string \<Rightarrow> string list" where
  "split_on p [] = [[]]"
| "split_on p (c # cs) =
     (if p c then [] # split_on p cs
      else case split_on p cs of [] \<Rightarrow> [[c]] | w # ws \<Rightarrow> (c # w) # ws)"

lemma split_on_nonempty [simp]: "split_on p s \<noteq> []"
  by (induction s) (auto split: list.split)

section \<open>Sorting, deduplication, maxima\<close>

text \<open>
  Rust's \<open>sort_by_key\<close> is stable, as \<^const>\<open>sort_key\<close> is. \<open>sort_by\<close> takes a
  comparator, here as \<open>le x y\<close> for "\<open>cmp x y\<close> is not \<open>Greater\<close>".
\<close>

fun insert_by :: "('a \<Rightarrow> 'a \<Rightarrow> bool) \<Rightarrow> 'a \<Rightarrow> 'a list \<Rightarrow> 'a list" where
  "insert_by le x [] = [x]"
| "insert_by le x (y # ys) = (if le x y then x # y # ys else y # insert_by le x ys)"

definition sort_by :: "('a \<Rightarrow> 'a \<Rightarrow> bool) \<Rightarrow> 'a list \<Rightarrow> 'a list" where
  "sort_by le xs = foldr (insert_by le) xs []"

lemma mset_insert_by [simp]: "mset (insert_by le x xs) = add_mset x (mset xs)"
  by (induction xs) auto

lemma mset_sort_by [simp]: "mset (sort_by le xs) = mset xs"
  by (induction xs) (simp_all add: sort_by_def)

lemma set_sort_by [simp]: "set (sort_by le xs) = set xs"
  by (metis mset_sort_by set_mset_mset)

lemma set_insert_by [simp]: "set (insert_by le x xs) = insert x (set xs)"
  by (metis mset_insert_by set_mset_add_mset_insert set_mset_mset)

lemma sorted_insert_by:
  assumes tot: "\<And>a b. le a b \<or> le b a"
    and tr: "\<And>a b c. le a b \<Longrightarrow> le b c \<Longrightarrow> le a c"
  shows "sorted_wrt le ys \<Longrightarrow> sorted_wrt le (insert_by le x ys)"
proof (induction ys)
  case Nil
  show ?case by simp
next
  case (Cons y ys)
  show ?case
  proof (cases "le x y")
    case True
    with Cons.prems show ?thesis by (auto intro: tr)
  next
    case False
    with tot have "le y x" by blast
    with Cons False show ?thesis by auto
  qed
qed

lemma sorted_sort_by:
  assumes "\<And>a b. le a b \<or> le b a" "\<And>a b c. le a b \<Longrightarrow> le b c \<Longrightarrow> le a c"
  shows "sorted_wrt le (sort_by le xs)"
  by (induction xs) (simp_all add: sort_by_def sorted_insert_by [OF assms])

text \<open>\<open>dedup_by_key\<close> keeps the first element of every run of equal keys;
  \<open>max_by_key\<close> returns the last of the maximal elements.\<close>

fun dedup_by_key :: "('a \<Rightarrow> 'k) \<Rightarrow> 'a list \<Rightarrow> 'a list" where
  "dedup_by_key f (x # y # xs) =
     (if f x = f y then dedup_by_key f (x # xs) else x # dedup_by_key f (y # xs))"
| "dedup_by_key f xs = xs"

fun max_by_key :: "('a \<Rightarrow> 'k::linorder) \<Rightarrow> 'a list \<Rightarrow> 'a option" where
  "max_by_key f [] = None"
| "max_by_key f (x # xs) =
     (case max_by_key f xs of None \<Rightarrow> Some x | Some y \<Rightarrow> if f y < f x then Some x else Some y)"

lemma max_by_key_None [simp]: "max_by_key f xs = None \<longleftrightarrow> xs = []"
  by (cases xs) (auto split: option.splits)

lemma max_by_key_Some: "max_by_key f xs = Some y \<Longrightarrow> y \<in> set xs \<and> (\<forall>x\<in>set xs. f x \<le> f y)"
  by (induction xs arbitrary: y) (fastforce split: option.splits if_splits)+

text \<open>\<open>iter().max()\<close> of keys.\<close>

definition iter_max :: "'k::linorder list \<Rightarrow> 'k option" where
  "iter_max ks = (if ks = [] then None else Some (Max (set ks)))"

lemma iter_max_Some_iff: "iter_max ks = Some m \<longleftrightarrow> m \<in> set ks \<and> (\<forall>k\<in>set ks. k \<le> m)"
  by (cases "ks = []") (auto simp: iter_max_def Max_eq_iff)

text \<open>A list sorted by a key that is injective on it is determined by its set.\<close>

lemma sorted_distinct_key_unique:
  assumes "sorted (map f xs)" "distinct (map f xs)" "sorted (map f ys)" "distinct (map f ys)"
    and "set xs = set ys"
  shows "xs = ys"
proof -
  have "map f xs = map f ys"
    using assms by (intro sorted_distinct_set_unique) auto
  moreover have "inj_on f (set xs \<union> set ys)"
    using assms by (simp add: distinct_map)
  ultimately show ?thesis by (rule map_inj_on)
qed

lemma sort_key_perm:
  assumes "mset xs = mset ys" "inj_on f (set xs)"
  shows "sort_key f xs = sort_key f ys"
  using assms by (intro sort_key_inj_key_eq) simp_all

lemma distinct_remdups_adj_sorted: "sorted xs \<Longrightarrow> distinct (remdups_adj xs)"
  by (induction xs rule: remdups_adj.induct) (auto simp: antisym)

lemma sorted_dedup_unique: "set xs = set ys \<Longrightarrow> remdups_adj (sort xs) = remdups_adj (sort (ys :: 'a::linorder list))"
  by (rule sorted_distinct_set_unique) (auto intro: sorted_remdups_adj distinct_remdups_adj_sorted)

lemma dedup_subset: "set (dedup_by_key f xs) \<subseteq> set xs"
  by (induction f xs rule: dedup_by_key.induct) auto

lemma dedup_strict: "sorted (map f xs) \<Longrightarrow> sorted_wrt (<) (map f (dedup_by_key f xs))"
proof (induction f xs rule: dedup_by_key.induct)
  case (1 f x y xs)
  show ?case
  proof (cases "f x = f y")
    case False
    then have "\<forall>c\<in>set (dedup_by_key f (y # xs)). f x < f c"
      using "1.prems" dedup_subset [of f "y # xs"] by fastforce
    with False 1 show ?thesis by simp
  qed (use 1 in simp)
qed simp_all

lemma dedup_first:
  assumes "sorted_wrt le xs" "x \<in> set xs"
    and tr: "\<And>a b c. le a b \<Longrightarrow> le b c \<Longrightarrow> le a c"
  shows "\<exists>y\<in>set (dedup_by_key f xs). f y = f x \<and> (y = x \<or> le y x)"
  using assms(1,2)
proof (induction f xs arbitrary: x rule: dedup_by_key.induct)
  case (1 f a b xs)
  show ?case
  proof (cases "f a = f b")
    case False
    show ?thesis
    proof (cases "x = a")
      case True
      then show ?thesis using False by simp
    next
      case neq: False
      from "1.IH"(2) [OF False _, of x] neq "1.prems" show ?thesis
        using False by auto
    qed
  next
    case True
    have srt: "sorted_wrt le (a # xs)" using "1.prems"(1) by simp
    have ab: "le a b" using "1.prems"(1) by simp
    define z where "z = (if x = b then a else x)"
    have "z \<in> set (a # xs)" using "1.prems"(2) by (auto simp: z_def)
    from "1.IH"(1) [OF True srt this] obtain y where
      y: "y \<in> set (dedup_by_key f (a # xs))" "f y = f z" "y = z \<or> le y z" by blast
    then have "f y = f x \<and> (y = x \<or> le y x)"
      using True ab tr [of y a b] by (auto simp: z_def split: if_splits)
    then show ?thesis using y(1) True by auto
  qed
qed simp_all

lemma map_dedup: "map g (dedup_by_key (h \<circ> g) xs) = dedup_by_key h (map g xs)"
  by (induction "h \<circ> g" xs rule: dedup_by_key.induct) simp_all

lemma sorted_wrt_mset_unique:
  assumes "sorted_wrt P xs" "sorted_wrt P ys" "mset xs = mset ys"
    and "\<And>a b. P a b \<Longrightarrow> P b a \<Longrightarrow> a = b"
  shows "xs = ys"
  using assms(1-3)
proof (induction xs arbitrary: ys)
  case (Cons x xs)
  then obtain y zs where ys: "ys = y # zs" by (cases ys) auto
  have "x \<in> set ys" "y \<in> set (x # xs)"
    using mset_eq_setD [OF Cons.prems(3)] ys by auto
  then have "x = y"
    using Cons.prems(1,2) assms(4) [of x y] by (auto simp: ys)
  then show ?case using Cons ys by simp
qed simp
section \<open>Ordered maps\<close>

text \<open>
  What the code relies on from a \<open>BTreeMap\<close>: an update through \<open>entry(k).or_insert(d)\<close>
  touches the value of \<open>k\<close> only, and a map is determined by its lookups (iteration is in
  key order, whatever the order of the insertions). The lemmas proved from it say that a
  map filled by one pass over a list holds, per key, the fold over that key's elements.
\<close>

locale ordered_map =
  fixes empty :: "'m"
    and lookup :: "'m \<Rightarrow> 'k \<Rightarrow> 'v option"
    and upsert :: "'k \<Rightarrow> 'v \<Rightarrow> ('v \<Rightarrow> 'v) \<Rightarrow> 'm \<Rightarrow> 'm"
    and inv :: "'m \<Rightarrow> bool"
  assumes inv_empty: "inv empty"
    and inv_upsert: "inv m \<Longrightarrow> inv (upsert k d f m)"
    and lookup_empty: "lookup empty k = None"
    and lookup_upsert: "inv m \<Longrightarrow> lookup (upsert k d f m) j =
          (if j = k then Some (f (case lookup m k of None \<Rightarrow> d | Some v \<Rightarrow> v)) else lookup m j)"
    and ext: "inv m \<Longrightarrow> inv n \<Longrightarrow> (\<And>k. lookup m k = lookup n k) \<Longrightarrow> m = n"
begin

definition collect :: "('a \<Rightarrow> 'k) \<Rightarrow> ('a \<Rightarrow> 'v) \<Rightarrow> ('a \<Rightarrow> 'v \<Rightarrow> 'v) \<Rightarrow> 'a list \<Rightarrow> 'm" where
  "collect key d g xs = fold (\<lambda>x. upsert (key x) (d x) (g x)) xs empty"

lemma inv_fold: "inv m \<Longrightarrow> inv (fold (\<lambda>x. upsert (key x) (d x) (g x)) xs m)"
  by (induction xs arbitrary: m) (simp_all add: inv_upsert)

lemma inv_collect: "inv (collect key d g xs)"
  by (simp add: collect_def inv_fold inv_empty)

lemma lookup_collect:
  "lookup (collect key d g xs) k =
     (let ys = filter (\<lambda>x. key x = k) xs
      in if ys = [] then None else Some (fold g ys (d (hd ys))))"
proof (induction xs rule: rev_induct)
  case Nil
  show ?case by (simp add: collect_def lookup_empty)
next
  case (snoc x xs)
  have "collect key d g (xs @ [x]) = upsert (key x) (d x) (g x) (collect key d g xs)"
    by (simp add: collect_def)
  then show ?case
    using snoc by (auto simp: lookup_upsert inv_collect Let_def)
qed

lemma upsert_commute:
  assumes "inv m" "k \<noteq> j"
  shows "upsert k d f (upsert j e g m) = upsert j e g (upsert k d f m)"
  using assms by (intro ext) (auto simp: inv_upsert lookup_upsert)

lemma collect_eqI:
  assumes "\<And>k. filter (\<lambda>x. key x = k) xs = filter (\<lambda>x. key x = k) ys"
  shows "collect key d g xs = collect key d g ys"
  by (intro ext) (simp_all add: inv_collect lookup_collect assms)

end

fun bt_upsert :: "'k::linorder \<Rightarrow> 'v \<Rightarrow> ('v \<Rightarrow> 'v) \<Rightarrow> ('k \<times> 'v) list \<Rightarrow> ('k \<times> 'v) list" where
  "bt_upsert k d f [] = [(k, f d)]"
| "bt_upsert k d f ((j, w) # m) =
     (if k < j then (k, f d) # (j, w) # m
      else if k = j then (k, f w) # m
      else (j, w) # bt_upsert k d f m)"

definition bt_insert :: "'k::linorder \<Rightarrow> 'v \<Rightarrow> ('k \<times> 'v) list \<Rightarrow> ('k \<times> 'v) list" where
  "bt_insert k v = bt_upsert k v (\<lambda>_. v)"

definition bt_wf :: "('k::linorder \<times> 'v) list \<Rightarrow> bool" where
  "bt_wf m \<longleftrightarrow> sorted_wrt (<) (map fst m)"

lemma bt_wf_simps [simp]:
  "bt_wf []"
  "bt_wf ((k, v) # m) \<longleftrightarrow> (\<forall>j\<in>fst ` set m. k < j) \<and> bt_wf m"
  by (auto simp: bt_wf_def)

lemma keys_bt_upsert [bt_simps]: "fst ` set (bt_upsert k d f m) = insert k (fst ` set m)"
  by (induction m rule: bt_upsert.induct [of _ k d f]) auto

lemma bt_wf_upsert [bt_simps]: "bt_wf m \<Longrightarrow> bt_wf (bt_upsert k d f m)"
  by (induction m rule: bt_upsert.induct [of _ k d f]) (auto simp: keys_bt_upsert)

lemma map_of_None_below: "\<forall>j\<in>fst ` set m. (k :: 'k::linorder) < j \<Longrightarrow> map_of m k = None"
proof (rule ccontr)
  assume *: "\<forall>j\<in>fst ` set m. (k :: 'k::linorder) < j" and "map_of m k \<noteq> None"
  then have "k \<in> fst ` set m" by (simp add: map_of_eq_None_iff)
  with * have "k < k" by (rule bspec)
  then show False by simp
qed

lemma map_of_bt_upsert [bt_simps]:
  "bt_wf m \<Longrightarrow> map_of (bt_upsert k d f m) j =
     (if j = k then Some (f (case map_of m k of None \<Rightarrow> d | Some v \<Rightarrow> v)) else map_of m j)"
proof (induction m)
  case (Cons p m)
  obtain i w where p: "p = (i, w)" by (cases p)
  have "k < i \<Longrightarrow> map_of m k = None"
    using Cons.prems by (intro map_of_None_below) (auto simp: p)
  then show ?case
    using Cons by (auto simp: p)
qed simp

lemma bt_wf_distinct: "bt_wf m \<Longrightarrow> distinct (map fst m)"
  by (simp add: bt_wf_def strict_sorted_iff)

lemma bt_ext:
  assumes "bt_wf m" "bt_wf n" "\<And>k. map_of m k = map_of n k"
  shows "m = n"
proof -
  have "map_of m = map_of n" using assms(3) by (rule ext)
  then have "set m = set n"
    using assms(1,2) by (metis bt_wf_distinct map_of_inject_set)
  moreover have "sorted (map fst m)" "sorted (map fst n)"
    using assms by (simp_all add: bt_wf_def strict_sorted_iff)
  ultimately show ?thesis
    using assms(1,2) bt_wf_distinct by (intro sorted_distinct_key_unique [of fst]) auto
qed

interpretation bt: ordered_map "[]" map_of bt_upsert bt_wf
  by unfold_locales (auto simp: bt_simps intro: bt_ext)

lemma map_of_bt_insert [bt_simps]: "bt_wf m \<Longrightarrow> map_of (bt_insert k v m) = (map_of m)(k \<mapsto> v)"
  by (auto simp: bt_insert_def bt_simps)

lemma bt_wf_insert [bt_simps]: "bt_wf m \<Longrightarrow> bt_wf (bt_insert k v m)"
  by (simp add: bt_insert_def bt_simps)

text \<open>\<open>UPDATE ... WHERE key = k\<close>.\<close>

definition update_row :: "'k \<Rightarrow> ('r \<Rightarrow> 'r) \<Rightarrow> ('k \<times> 'r) list \<Rightarrow> ('k \<times> 'r) list" where
  "update_row k f m = map (\<lambda>(j, r). (j, if j = k then f r else r)) m"

lemma map_of_update_row [simp]:
  "map_of (update_row k f m) j = (if j = k then map_option f (map_of m k) else map_of m j)"
  by (induction m) (auto simp: update_row_def)

lemma bt_wf_update_row [simp]: "bt_wf (update_row k f m) \<longleftrightarrow> bt_wf m"
  by (simp add: bt_wf_def update_row_def comp_def case_prod_unfold)

section \<open>Runs over a keyed store\<close>

text \<open>
  The contract of a store whose writes move each row along the edges of a documented state
  machine: from a well-formed store, a step keeps it well-formed and takes what the store
  holds under a key along a sequence of edges. Then so does every run, and whatever the
  edges keep, a run keeps.
\<close>

locale row_machine =
  fixes step :: "'db \<Rightarrow> 'db \<Rightarrow> bool"
    and good :: "'db \<Rightarrow> bool"
    and row :: "'db \<Rightarrow> 'id \<Rightarrow> 'row option"
    and edge :: "'row \<Rightarrow> 'row \<Rightarrow> bool"
  assumes step_good: "good db \<Longrightarrow> step db db' \<Longrightarrow> good db'"
    and step_row: "good db \<Longrightarrow> step db db' \<Longrightarrow> row db i = Some r \<Longrightarrow> \<exists>r'. row db' i = Some r' \<and> edge\<^sup>*\<^sup>* r r'"
begin

lemma run_good: "step\<^sup>*\<^sup>* db db' \<Longrightarrow> good db \<Longrightarrow> good db'"
  by (induction rule: rtranclp_induct) (auto intro: step_good)

lemma run_row: "step\<^sup>*\<^sup>* db db' \<Longrightarrow> good db \<Longrightarrow> row db i = Some r \<Longrightarrow> \<exists>r'. row db' i = Some r' \<and> edge\<^sup>*\<^sup>* r r'"
proof (induction rule: rtranclp_induct)
  case (step db1 db2)
  then obtain r1 where "row db1 i = Some r1" "edge\<^sup>*\<^sup>* r r1" by auto
  then show ?case using step_row [of db1 db2 i r1] run_good step by (meson rtranclp_trans)
qed auto

lemma run_keeps:
  assumes "step\<^sup>*\<^sup>* db db'" "good db" "row db i = Some r" "\<And>r r'. keeps r \<Longrightarrow> edge r r' \<Longrightarrow> keeps r'" "keeps r"
  shows "\<exists>r'. row db' i = Some r' \<and> keeps r'"
proof -
  obtain r' where "row db' i = Some r'" "edge\<^sup>*\<^sup>* r r'" using run_row assms(1-3) by blast
  moreover have "keeps r'" using \<open>edge\<^sup>*\<^sup>* r r'\<close> assms(4,5) by (induction rule: rtranclp_induct) auto
  ultimately show ?thesis by blast
qed

lemma run_mono:
  assumes "step\<^sup>*\<^sup>* db db'" "good db" "row db i = Some r" "\<And>r r'. edge r r' \<Longrightarrow> (m r :: 'k::preorder) \<le> m r'"
  shows "\<exists>r'. row db' i = Some r' \<and> m r \<le> m r'"
  using run_keeps [OF assms(1-3), of "\<lambda>r'. m r \<le> m r'"] assms(4) order_trans by blast

end

section \<open>Closed vocabularies\<close>

text \<open>
  Every closed vocabulary of the code is an enum with an \<open>as_str\<close> spelling, a reader of
  that spelling, and an enumeration of its variants. A vocabulary whose spellings are
  distinct round-trips, and its reader accepts the spellings and nothing else.
\<close>

locale wire_vocabulary =
  fixes spell :: "'v \<Rightarrow> string"
    and parse :: "string \<Rightarrow> 'v option"
    and all :: "'v list"
  assumes all_complete: "v \<in> set all"
    and spell_distinct: "distinct (map spell all)"
    and parse_find: "parse s = find (\<lambda>v. spell v = s) all"
begin

lemma spell_inject: "spell v = spell w \<longleftrightarrow> v = w"
  using spell_distinct all_complete by (metis distinct_map inj_on_eq_iff)

lemma parse_spell: "parse (spell v) = Some v"
proof -
  have "v \<in> set xs \<Longrightarrow> find (\<lambda>w. w = v) xs = Some v" for xs
    by (induction xs) auto
  then show ?thesis
    by (simp add: parse_find spell_inject all_complete)
qed

lemma parse_iff: "parse s = Some v \<longleftrightarrow> s = spell v"
proof
  assume "parse s = Some v"
  then show "s = spell v" by (auto simp: parse_find find_Some_iff)
qed (simp add: parse_spell)

lemma parse_None_iff: "parse s = None \<longleftrightarrow> s \<notin> range spell"
  using parse_iff by (metis option.exhaust rangeE rangeI option.distinct(1))

end

end
