(* ===== verification/Truth_Types.thy ===== *)
theory Truth_Types
  imports Tachi_Prelude
begin

text \<open>
  The typed assertion vocabulary of CurrentTruth,
  \<open>crates/tachi-params/src/current_truth/types.rs\<close>: typed subjects, the closed
  predicate, value, authority, review and visibility vocabularies, the assertion, its
  order, lineage and ingestion keys, and the evidence head.

  Field \<open>f\<close> of \<open>AssertionV1\<close> is \<open>a_f\<close>, of \<open>EvidenceHeadV1\<close> is \<open>h_f\<close>, of
  \<open>AssertionIngestionKey\<close> is \<open>k_f\<close>. The derived \<open>Ord\<close> of an enum is the order of its
  variants, of a struct the lexicographic order of its fields. The RFC 3339 parser of
  the \<open>chrono\<close> crate is a parameter: the record \<open>chrono\<close> of the prelude holds it and the minimal instant;
  an instant is its integer number of nanoseconds.
\<close>

section \<open>Typed subjects\<close>

datatype github_object_ref = Issue nat | PullRequest nat | Commit string

fun object_key :: "github_object_ref \<Rightarrow> nat \<times> nat \<times> string" where
  "object_key (Issue n) = (0, n, [])"
| "object_key (PullRequest n) = (1, n, [])"
| "object_key (Commit sha) = (2, 0, sha)"

lemma object_key_inject: "object_key x = object_key y \<longleftrightarrow> x = y"
  by (cases x; cases y) auto

instantiation github_object_ref :: linorder
begin

definition less_eq_github_object_ref :: "github_object_ref \<Rightarrow> github_object_ref \<Rightarrow> bool" where
  "less_eq_github_object_ref x y \<longleftrightarrow> object_key x \<le> object_key y"

definition less_github_object_ref :: "github_object_ref \<Rightarrow> github_object_ref \<Rightarrow> bool" where
  "less_github_object_ref x y \<longleftrightarrow> object_key x < object_key y"

instance
  by standard
    (auto simp: less_eq_github_object_ref_def less_github_object_ref_def object_key_inject
      less_le_not_le intro: order_trans dest: antisym)

end

fun object_as_token :: "github_object_ref \<Rightarrow> string" where
  "object_as_token (Issue n) = ''issue:'' @ show_nat n"
| "object_as_token (PullRequest n) = ''pull_request:'' @ show_nat n"
| "object_as_token (Commit sha) = ''commit:'' @ sha"

lemma object_as_token_inject: "object_as_token x = object_as_token y \<longleftrightarrow> x = y"
  by (cases x; cases y) auto

datatype subject_ref = SubjectRef (s_repo: string) (s_object: github_object_ref)

instantiation subject_ref :: linorder
begin

definition less_eq_subject_ref :: "subject_ref \<Rightarrow> subject_ref \<Rightarrow> bool" where
  "less_eq_subject_ref x y \<longleftrightarrow> (s_repo x, s_object x) \<le> (s_repo y, s_object y)"

definition less_subject_ref :: "subject_ref \<Rightarrow> subject_ref \<Rightarrow> bool" where
  "less_subject_ref x y \<longleftrightarrow> (s_repo x, s_object x) < (s_repo y, s_object y)"

instance
proof
  fix x y z :: subject_ref
  show "x < y \<longleftrightarrow> x \<le> y \<and> \<not> y \<le> x"
    by (simp only: less_eq_subject_ref_def less_subject_ref_def less_le_not_le)
  show "x \<le> x" by (simp only: less_eq_subject_ref_def order_refl)
  show "x \<le> y \<Longrightarrow> y \<le> z \<Longrightarrow> x \<le> z"
    unfolding less_eq_subject_ref_def by (rule order_trans)
  show "x \<le> y \<Longrightarrow> y \<le> x \<Longrightarrow> x = y"
    unfolding less_eq_subject_ref_def by (drule (1) antisym) (simp add: subject_ref.expand)
  show "x \<le> y \<or> y \<le> x" unfolding less_eq_subject_ref_def by (rule linear)
qed

end

definition as_token :: "subject_ref \<Rightarrow> string" where
  "as_token s = s_repo s @ ''#'' @ object_as_token (s_object s)"

section \<open>Predicates, values, authority, review\<close>

datatype predicate =
    IssueOpen | IssueClosed | ImplementationPrLinked | PrOpen | PrMerged | PrClosedUnmerged
  | MergeReverted | IssueReopened | ImplementationPresent | OwnerAcceptancePresent
  | HandoffCurrent | HandoffStale | OpenAction

fun predicate_index :: "predicate \<Rightarrow> nat" where
  "predicate_index IssueOpen = 0" | "predicate_index IssueClosed = 1"
| "predicate_index ImplementationPrLinked = 2" | "predicate_index PrOpen = 3"
| "predicate_index PrMerged = 4" | "predicate_index PrClosedUnmerged = 5"
| "predicate_index MergeReverted = 6" | "predicate_index IssueReopened = 7"
| "predicate_index ImplementationPresent = 8" | "predicate_index OwnerAcceptancePresent = 9"
| "predicate_index HandoffCurrent = 10" | "predicate_index HandoffStale = 11"
| "predicate_index OpenAction = 12"

lemma predicate_index_inject: "predicate_index p = predicate_index q \<longleftrightarrow> p = q"
  by (cases p; cases q) simp_all

instantiation predicate :: linorder
begin

definition less_eq_predicate :: "predicate \<Rightarrow> predicate \<Rightarrow> bool" where
  "less_eq_predicate p q \<longleftrightarrow> predicate_index p \<le> predicate_index q"

definition less_predicate :: "predicate \<Rightarrow> predicate \<Rightarrow> bool" where
  "less_predicate p q \<longleftrightarrow> predicate_index p < predicate_index q"

instance
  by standard (auto simp: less_eq_predicate_def less_predicate_def predicate_index_inject)

end

fun predicate_as_str :: "predicate \<Rightarrow> string" where
  "predicate_as_str IssueOpen = ''issue_open''"
| "predicate_as_str IssueClosed = ''issue_closed''"
| "predicate_as_str ImplementationPrLinked = ''implementation_pr_linked''"
| "predicate_as_str PrOpen = ''pr_open''"
| "predicate_as_str PrMerged = ''pr_merged''"
| "predicate_as_str PrClosedUnmerged = ''pr_closed_unmerged''"
| "predicate_as_str MergeReverted = ''merge_reverted''"
| "predicate_as_str IssueReopened = ''issue_reopened''"
| "predicate_as_str ImplementationPresent = ''implementation_present''"
| "predicate_as_str OwnerAcceptancePresent = ''owner_acceptance_present''"
| "predicate_as_str HandoffCurrent = ''handoff_current''"
| "predicate_as_str HandoffStale = ''handoff_stale''"
| "predicate_as_str OpenAction = ''open_action''"

definition is_source_predicate :: "predicate \<Rightarrow> bool" where
  "is_source_predicate p \<longleftrightarrow> p \<notin> {HandoffCurrent, HandoffStale, OpenAction}"

datatype open_action_kind =
    AwaitImplementation | ReviewPr | RunVerification | AwaitOwnerAcceptance
  | RepairRevertOrReopen | RefreshUnavailableSource | ResolveConflict | NoOpenAction

fun open_action_as_str :: "open_action_kind \<Rightarrow> string" where
  "open_action_as_str AwaitImplementation = ''await_implementation''"
| "open_action_as_str ReviewPr = ''review_pr''"
| "open_action_as_str RunVerification = ''run_verification''"
| "open_action_as_str AwaitOwnerAcceptance = ''await_owner_acceptance''"
| "open_action_as_str RepairRevertOrReopen = ''repair_revert_or_reopen''"
| "open_action_as_str RefreshUnavailableSource = ''refresh_unavailable_source''"
| "open_action_as_str ResolveConflict = ''resolve_conflict''"
| "open_action_as_str NoOpenAction = ''no_open_action''"

datatype assertion_value =
    Unit | ObjectRef github_object_ref | ObjectRefs "github_object_ref list"
  | CommitSha string | HandoffId string | Action open_action_kind

datatype authority_class = GitHubTypedObject | OwnerDecision | ReviewedDisposition | ModelProse

fun authority_index :: "authority_class \<Rightarrow> nat" where
  "authority_index GitHubTypedObject = 0" | "authority_index OwnerDecision = 1"
| "authority_index ReviewedDisposition = 2" | "authority_index ModelProse = 3"

lemma authority_index_inject: "authority_index p = authority_index q \<longleftrightarrow> p = q"
  by (cases p; cases q) simp_all

instantiation authority_class :: linorder
begin

definition less_eq_authority_class :: "authority_class \<Rightarrow> authority_class \<Rightarrow> bool" where
  "less_eq_authority_class p q \<longleftrightarrow> authority_index p \<le> authority_index q"

definition less_authority_class :: "authority_class \<Rightarrow> authority_class \<Rightarrow> bool" where
  "less_authority_class p q \<longleftrightarrow> authority_index p < authority_index q"

instance
  by standard
    (auto simp: less_eq_authority_class_def less_authority_class_def authority_index_inject)

end

fun may_establish :: "authority_class \<Rightarrow> predicate \<Rightarrow> bool" where
  "may_establish GitHubTypedObject p \<longleftrightarrow> is_source_predicate p \<and> p \<noteq> OwnerAcceptancePresent"
| "may_establish OwnerDecision p \<longleftrightarrow> p \<in> {OwnerAcceptancePresent, IssueClosed, IssueReopened}"
| "may_establish ReviewedDisposition p \<longleftrightarrow> p \<in> {ImplementationPrLinked, ImplementationPresent}"
| "may_establish ModelProse p \<longleftrightarrow> False"

datatype review_state = Observed | Candidate | Reviewed | Rejected

definition is_admitted :: "review_state \<Rightarrow> bool" where
  "is_admitted r \<longleftrightarrow> r \<in> {Observed, Reviewed}"

datatype visibility = Public | Private

fun is_pull_request :: "github_object_ref \<Rightarrow> bool" where
  "is_pull_request (PullRequest _) = True"
| "is_pull_request _ = False"

text \<open>\<open>windows(2).all(|pair| pair[0] < pair[1])\<close>.\<close>

fun ascending :: "'a::linorder list \<Rightarrow> bool" where
  "ascending (x # y # xs) \<longleftrightarrow> x < y \<and> ascending (y # xs)"
| "ascending _ \<longleftrightarrow> True"

lemma ascending_iff: "ascending xs \<longleftrightarrow> sorted_wrt (<) xs"
  by (induction xs rule: ascending.induct) (auto dest: less_trans)

lemma ascending_sort_dedup [simp]: "ascending (remdups_adj (sort xs))"
  by (simp add: ascending_iff strict_sorted_iff distinct_remdups_adj_sorted)

lemma sort_dedup_ascending: "ascending xs \<Longrightarrow> remdups_adj (sort xs) = xs"
  by (simp add: ascending_iff strict_sorted_iff sorted_sort_id remdups_adj_distinct)

fun sha_or_gap :: "assertion_value \<Rightarrow> bool" where
  "sha_or_gap (CommitSha sha) \<longleftrightarrow> sha \<noteq> []"
| "sha_or_gap Unit \<longleftrightarrow> True"
| "sha_or_gap _ \<longleftrightarrow> False"

fun pr_relation :: "assertion_value \<Rightarrow> bool" where
  "pr_relation (ObjectRefs objects) \<longleftrightarrow> list_all is_pull_request objects \<and> ascending objects"
| "pr_relation (ObjectRef object) \<longleftrightarrow> is_pull_request object"
| "pr_relation _ \<longleftrightarrow> False"

fun admits_value :: "predicate \<Rightarrow> assertion_value \<Rightarrow> bool" where
  "admits_value IssueOpen v \<longleftrightarrow> v = Unit"
| "admits_value IssueClosed v \<longleftrightarrow> v = Unit"
| "admits_value IssueReopened v \<longleftrightarrow> v = Unit"
| "admits_value PrOpen v \<longleftrightarrow> v = Unit"
| "admits_value PrClosedUnmerged v \<longleftrightarrow> v = Unit"
| "admits_value OwnerAcceptancePresent v \<longleftrightarrow> v = Unit"
| "admits_value ImplementationPrLinked v \<longleftrightarrow> pr_relation v"
| "admits_value PrMerged v \<longleftrightarrow> sha_or_gap v"
| "admits_value ImplementationPresent v \<longleftrightarrow> sha_or_gap v"
| "admits_value MergeReverted v \<longleftrightarrow> sha_or_gap v"
| "admits_value HandoffCurrent v \<longleftrightarrow> (case v of HandoffId _ \<Rightarrow> True | _ \<Rightarrow> False)"
| "admits_value HandoffStale v \<longleftrightarrow> (case v of HandoffId _ \<Rightarrow> True | _ \<Rightarrow> False)"
| "admits_value OpenAction v \<longleftrightarrow> (case v of Action _ \<Rightarrow> True | _ \<Rightarrow> False)"

section \<open>Assertions\<close>

record source_ref =
  sr_source :: string
  sr_revision :: string

record assertion =
  a_assertion_id :: string
  a_subject :: subject_ref
  a_predicate :: predicate
  a_value :: assertion_value
  a_issuer :: string
  a_authority_class :: authority_class
  a_source_ref :: source_ref
  a_observed_at :: string
  a_effective_at :: string
  a_supersedes_assertion_id :: "string option"
  a_evidence_refs :: "string list"
  a_review_state :: review_state
  a_visibility :: visibility

definition ordering_instant :: "chrono \<Rightarrow> string \<Rightarrow> int" where
  "ordering_instant ch observed_at =
     (case parse_from_rfc3339 ch observed_at of Some t \<Rightarrow> t | None \<Rightarrow> MIN_UTC ch)"

type_synonym order_key = "int \<times> string \<times> string"

definition assertion_order_key :: "chrono \<Rightarrow> assertion \<Rightarrow> order_key" where
  "assertion_order_key ch a =
     (ordering_instant ch (a_observed_at a), sr_revision (a_source_ref a), a_assertion_id a)"

definition lineage_key ::
  "assertion \<Rightarrow> string \<times> predicate \<times> authority_class \<times> string \<times> string" where
  "lineage_key a =
     (as_token (a_subject a), a_predicate a, a_authority_class a, a_issuer a,
      sr_source (a_source_ref a))"

record ingestion_key =
  k_subject_token :: string
  k_predicate :: predicate
  k_authority_class :: authority_class
  k_issuer :: string
  k_source :: string
  k_source_revision :: string

definition assertion_ingestion_key :: "assertion \<Rightarrow> ingestion_key" where
  "assertion_ingestion_key a =
     \<lparr> k_subject_token = as_token (a_subject a), k_predicate = a_predicate a,
       k_authority_class = a_authority_class a, k_issuer = a_issuer a,
       k_source = sr_source (a_source_ref a),
       k_source_revision = sr_revision (a_source_ref a) \<rparr>"

datatype reduction_status = Current | Superseded | Conflicted | Unknown

record evidence_head =
  h_assertion_id :: string
  h_source :: string
  h_source_revision :: string
  h_observed_at :: string

definition head_of :: "assertion \<Rightarrow> evidence_head" where
  "head_of a =
     \<lparr> h_assertion_id = a_assertion_id a, h_source = sr_source (a_source_ref a),
       h_source_revision = sr_revision (a_source_ref a), h_observed_at = a_observed_at a \<rparr>"

definition head_order_key :: "chrono \<Rightarrow> evidence_head \<Rightarrow> order_key" where
  "head_order_key ch h =
     (ordering_instant ch (h_observed_at h), h_source_revision h, h_assertion_id h)"

lemma head_of_sel [simp]:
  "h_assertion_id (head_of a) = a_assertion_id a"
  "h_source (head_of a) = sr_source (a_source_ref a)"
  "h_source_revision (head_of a) = sr_revision (a_source_ref a)"
  "h_observed_at (head_of a) = a_observed_at a"
  by (simp_all add: head_of_def)

lemma head_order_key_of [simp]: "head_order_key ch (head_of a) = assertion_order_key ch a"
  by (simp add: head_order_key_def assertion_order_key_def)

section \<open>Facts of the vocabulary\<close>

definition all_predicates :: "predicate list" where
  "all_predicates =
     [IssueOpen, IssueClosed, ImplementationPrLinked, PrOpen, PrMerged, PrClosedUnmerged,
      MergeReverted, IssueReopened, ImplementationPresent, OwnerAcceptancePresent,
      HandoffCurrent, HandoffStale, OpenAction]"

definition all_open_actions :: "open_action_kind list" where
  "all_open_actions =
     [AwaitImplementation, ReviewPr, RunVerification, AwaitOwnerAcceptance,
      RepairRevertOrReopen, RefreshUnavailableSource, ResolveConflict, NoOpenAction]"

text \<open>A subject token determines the subject once the repository name has no \<open>#\<close>.\<close>

lemma append_hash_inject:
  assumes "r @ CHR ''#'' # u = r' @ CHR ''#'' # u'" "CHR ''#'' \<notin> set r" "CHR ''#'' \<notin> set r'"
  shows "r = r' \<and> u = u'"
  using assms
proof (induction r arbitrary: r')
  case Nil
  then show ?case by (cases r') auto
next
  case (Cons c r)
  then show ?case by (cases r') auto
qed

lemma as_token_inject_plain:
  assumes "as_token s = as_token t" "CHR ''#'' \<notin> set (s_repo s)" "CHR ''#'' \<notin> set (s_repo t)"
  shows "s = t"
  using append_hash_inject [OF _ assms(2,3), of "object_as_token (s_object s)" "object_as_token (s_object t)"]
    assms(1)
  by (simp add: as_token_def object_as_token_inject subject_ref.expand)

lemma may_establish_source: "may_establish c p \<Longrightarrow> is_source_predicate p"
  by (cases c) (auto simp: is_source_predicate_def)

end
