(* ===== verification/Truth_Reducer.thy ===== *)
theory Truth_Reducer
  imports Truth_Types
begin

text \<open>
  The reduction law, \<open>crates/tachi-params/src/current_truth/reducer.rs\<close>: \<open>reduce\<close>
  with its admission gate, identity-collision bookkeeping, grouping and per-lineage
  supersession, and the lookups on its result. The lemmas describe each pass by what it
  holds per key, then the reduction of one group by the newest rows of its lineages.
  Field \<open>f\<close> of \<open>ReducedPredicateV1\<close> is \<open>r_f\<close>.
\<close>

section \<open>The reduction\<close>

record reduced_predicate =
  r_subject :: subject_ref
  r_predicate :: predicate
  r_status :: reduction_status
  r_values :: "assertion_value list"
  r_current_heads :: "evidence_head list"
  r_superseded_heads :: "evidence_head list"

type_synonym group_key = "string \<times> predicate"
type_synonym lineage = "authority_class \<times> string \<times> string"
type_synonym reduction = "(group_key \<times> reduced_predicate) list"

definition unknown_reduced :: "subject_ref \<Rightarrow> predicate \<Rightarrow> reduced_predicate" where
  "unknown_reduced s p =
     \<lparr> r_subject = s, r_predicate = p, r_status = Unknown, r_values = [],
       r_current_heads = [], r_superseded_heads = [] \<rparr>"

definition reduction_get :: "reduction \<Rightarrow> subject_ref \<Rightarrow> predicate \<Rightarrow> reduced_predicate" where
  "reduction_get red s p =
     (case map_of red (as_token s, p) of Some r \<Rightarrow> r | None \<Rightarrow> unknown_reduced s p)"

definition reduction_all :: "reduction \<Rightarrow> reduced_predicate list" where
  "reduction_all red = map snd red"

definition reduction_subjects :: "reduction \<Rightarrow> subject_ref list" where
  "reduction_subjects red = remdups_adj (sort (map (r_subject \<circ> snd) red))"

record reduction_health =
  conflicted_predicates :: nat
  superseded_heads :: nat

definition health_counts :: "reduction \<Rightarrow> reduction_health" where
  "health_counts red =
     \<lparr> conflicted_predicates = length (filter (\<lambda>r. r_status r = Conflicted) (map snd red)),
       superseded_heads = sum_list (map (length \<circ> r_superseded_heads) (map snd red)) \<rparr>"

definition assertion_status :: "reduction \<Rightarrow> assertion \<Rightarrow> reduction_status" where
  "assertion_status red a =
     (case map_of red (as_token (a_subject a), a_predicate a) of
        None \<Rightarrow> Unknown
      | Some r \<Rightarrow>
          let is_head = list_ex (\<lambda>h. h_assertion_id h = a_assertion_id a) (r_current_heads r);
              is_superseded = list_ex (\<lambda>h. h_assertion_id h = a_assertion_id a) (r_superseded_heads r)
          in case r_status r of
               Current \<Rightarrow> if is_head then Current else if is_superseded then Superseded else Unknown
             | Conflicted \<Rightarrow> if is_head then Conflicted else if is_superseded then Superseded else Unknown
             | _ \<Rightarrow> Unknown)"

definition admitted_input :: "assertion list \<Rightarrow> assertion list" where
  "admitted_input as =
     filter (\<lambda>a. admits_value (a_predicate a) (a_value a))
       (filter (\<lambda>a. may_establish (a_authority_class a) (a_predicate a))
         (filter (\<lambda>a. is_admitted (a_review_state a)) as))"

definition group_key_of :: "assertion \<Rightarrow> group_key" where
  "group_key_of a = (as_token (a_subject a), a_predicate a)"

definition lineage_key_of :: "assertion \<Rightarrow> lineage" where
  "lineage_key_of a = (a_authority_class a, a_issuer a, sr_source (a_source_ref a))"

type_synonym id_buckets = "(string \<times> assertion list) list"
type_synonym marks = "(group_key \<times> unit) list"

definition bucket_of :: "id_buckets \<Rightarrow> string \<Rightarrow> assertion list" where
  "bucket_of m i = (case map_of m i of None \<Rightarrow> [] | Some b \<Rightarrow> b)"

definition note_by_id :: "assertion \<Rightarrow> id_buckets \<times> marks \<Rightarrow> id_buckets \<times> marks" where
  "note_by_id a st =
     (let (by_id, collided) = st;
          bucket = bucket_of by_id (a_assertion_id a)
      in if a \<in> set bucket then (by_id, collided)
         else (bt_upsert (a_assertion_id a) [] (\<lambda>b. b @ [a]) by_id,
               if bucket = [] then collided
               else fold (\<lambda>e. bt_insert (group_key_of e) ()) (a # bucket) collided))"

definition collect_by_id :: "assertion list \<Rightarrow> id_buckets \<times> marks" where
  "collect_by_id as = fold note_by_id as ([], [])"

type_synonym lineages = "(lineage \<times> assertion list) list"

definition note_lineage :: "assertion \<Rightarrow> lineages \<Rightarrow> lineages" where
  "note_lineage a = bt_upsert (lineage_key_of a) [] (\<lambda>rows. rows @ [a])"

definition group_rows :: "assertion list \<Rightarrow> (group_key \<times> subject_ref \<times> lineages) list" where
  "group_rows as =
     fold (\<lambda>a. bt_upsert (group_key_of a) (a_subject a, []) (\<lambda>(s, ls). (s, note_lineage a ls))) as []"

text \<open>Semantic agreement of two values: as sets of references where they are references.\<close>

fun canonical_value :: "assertion_value \<Rightarrow> assertion_value" where
  "canonical_value (ObjectRef object) = ObjectRefs [object]"
| "canonical_value (ObjectRefs objects) = ObjectRefs (remdups_adj (sort objects))"
| "canonical_value v = v"

definition values_agree :: "assertion_value \<Rightarrow> assertion_value \<Rightarrow> bool" where
  "values_agree l r \<longleftrightarrow> canonical_value l = canonical_value r"

definition sort_heads :: "chrono \<Rightarrow> evidence_head list \<Rightarrow> evidence_head list" where
  "sort_heads ch = sort_key (head_order_key ch)"

text \<open>
  One lineage: the current heads, superseded heads, values and the malformed flag are the
  loop's accumulators.
\<close>

type_synonym group_acc = "evidence_head list \<times> evidence_head list \<times> assertion_value list \<times> bool"

definition contradicting_edge :: "chrono \<Rightarrow> assertion list \<Rightarrow> bool" where
  "contradicting_edge ch rows \<longleftrightarrow>
     list_ex (\<lambda>a. case a_supersedes_assertion_id a of
         None \<Rightarrow> False
       | Some t \<Rightarrow> list_ex (\<lambda>b. a_assertion_id b = t
                        \<and> assertion_order_key ch b > assertion_order_key ch a) rows) rows"

definition same_revision_clash :: "assertion list \<Rightarrow> assertion \<Rightarrow> bool" where
  "same_revision_clash older head \<longleftrightarrow>
     list_ex (\<lambda>r. sr_revision (a_source_ref r) = sr_revision (a_source_ref head)
                  \<and> \<not> values_agree (a_value r) (a_value head)) older"

definition add_value :: "assertion_value \<Rightarrow> assertion_value list \<Rightarrow> assertion_value list" where
  "add_value v vs = (if list_ex (\<lambda>w. values_agree w v) vs then vs else vs @ [v])"

definition reduce_lineage :: "chrono \<Rightarrow> assertion list \<Rightarrow> group_acc \<Rightarrow> group_acc" where
  "reduce_lineage ch rows acc =
     (let (cur, sups, vals, malformed) = acc;
          lin = sort_key (assertion_order_key ch) rows;
          malformed = (malformed \<or> contradicting_edge ch lin)
      in if lin = [] then (cur, sups, vals, malformed)
         else let head = last lin; older = butlast lin
              in (cur @ [head_of head], sups @ map head_of older, add_value (a_value head) vals,
                  malformed \<or> same_revision_clash older head))"

definition reduce_group ::
  "chrono \<Rightarrow> bool \<Rightarrow> group_key \<Rightarrow> subject_ref \<times> lineages \<Rightarrow> reduced_predicate" where
  "reduce_group ch collided k g =
     (let (cur, sups, vals, malformed) = fold (reduce_lineage ch \<circ> snd) (snd g) ([], [], [], collided);
          conflicted = (malformed \<or> length vals > 1)
      in \<lparr> r_subject = fst g, r_predicate = snd k,
           r_status = (if conflicted then Conflicted else Current),
           r_values = (if conflicted then [] else vals),
           r_current_heads = sort_heads ch cur, r_superseded_heads = sort_heads ch sups \<rparr>)"

definition reduce :: "chrono \<Rightarrow> assertion list \<Rightarrow> reduction" where
  "reduce ch as =
     (let (by_id, collided) = collect_by_id (admitted_input as);
          admitted = concat (map snd by_id)
      in fold (\<lambda>(k, g). bt_insert k (reduce_group ch (k \<in> fst ` set collided) k g))
           (group_rows admitted) [])"

section \<open>What each pass holds\<close>

text \<open>Rows of the admitted input that reduction looks at, by set.\<close>

abbreviation admissible :: "assertion list \<Rightarrow> assertion set" where
  "admissible as \<equiv> set (admitted_input as)"

definition by_id_of :: "assertion list \<Rightarrow> assertion list" where
  "by_id_of as = concat (map snd (fst (collect_by_id (admitted_input as))))"

definition marked :: "assertion list \<Rightarrow> group_key \<Rightarrow> bool" where
  "marked as k \<longleftrightarrow> k \<in> fst ` set (snd (collect_by_id (admitted_input as)))"

text \<open>Two different admitted rows share an identity, one of them in group \<open>k\<close>.\<close>

definition id_collision :: "assertion set \<Rightarrow> group_key \<Rightarrow> bool" where
  "id_collision A k \<longleftrightarrow>
     (\<exists>a\<in>A. \<exists>b\<in>A. a \<noteq> b \<and> a_assertion_id a = a_assertion_id b \<and> group_key_of a = k)"

lemma admitted_input_iff:
  "a \<in> admissible as \<longleftrightarrow> a \<in> set as \<and> is_admitted (a_review_state a)
     \<and> may_establish (a_authority_class a) (a_predicate a) \<and> admits_value (a_predicate a) (a_value a)"
  by (auto simp: admitted_input_def)

definition by_id_inv :: "assertion list \<Rightarrow> id_buckets \<Rightarrow> bool" where
  "by_id_inv xs m \<longleftrightarrow> bt_wf m
     \<and> (\<forall>i. set (bucket_of m i) = {a \<in> set xs. a_assertion_id a = i} \<and> distinct (bucket_of m i))"

lemma keys_bt_insert: "fst ` set (bt_insert k v m) = insert k (fst ` set m)"
  by (simp add: bt_insert_def bt_simps)

lemma fold_bt_insert_keys:
  "fst ` set (fold (\<lambda>e. bt_insert (f e) ()) xs m) = f ` set xs \<union> fst ` set m"
  by (induction xs arbitrary: m) (auto simp: bt_insert_def bt_simps)

lemma note_by_id_inv:
  assumes "by_id_inv xs m"
  shows "by_id_inv (xs @ [a]) (fst (note_by_id a (m, c)))"
proof -
  have wf: "bt_wf m" using assms by (simp add: by_id_inv_def)
  have old: "set (bucket_of m i) = {a \<in> set xs. a_assertion_id a = i}" "distinct (bucket_of m i)" for i
    using assms by (simp_all add: by_id_inv_def)
  show ?thesis
  proof (cases "a \<in> set (bucket_of m (a_assertion_id a))")
    case True
    moreover from True old have "a \<in> set xs" by simp
    ultimately show ?thesis
      using wf old by (auto simp: note_by_id_def by_id_inv_def Let_def)
  next
    case False
    define m' where "m' = bt_upsert (a_assertion_id a) [] (\<lambda>b. b @ [a]) m"
    have "bucket_of m' i = (if i = a_assertion_id a then bucket_of m i @ [a] else bucket_of m i)" for i
      using wf by (simp add: m'_def bucket_of_def bt_simps split: option.split)
    moreover have "bt_wf m'" using wf by (simp add: m'_def bt_simps)
    moreover have "fst (note_by_id a (m, c)) = m'"
      using False by (simp add: note_by_id_def m'_def Let_def)
    ultimately show ?thesis
      using old False by (auto simp: by_id_inv_def)
  qed
qed

lemma id_collision_insert:
  "a \<notin> S \<Longrightarrow> id_collision (insert a S) k \<longleftrightarrow> id_collision S k
     \<or> (\<exists>e\<in>S. a_assertion_id e = a_assertion_id a \<and> (k = group_key_of a \<or> k = group_key_of e))"
  unfolding id_collision_def by (auto simp: eq_commute)

lemma note_by_id_marks:
  assumes inv: "by_id_inv xs m" and c: "fst ` set c = {k. id_collision (set xs) k}"
  shows "fst ` set (snd (note_by_id a (m, c))) = {k. id_collision (set (xs @ [a])) k}"
proof -
  have b: "set (bucket_of m (a_assertion_id a)) = {b \<in> set xs. a_assertion_id b = a_assertion_id a}"
    using inv by (simp add: by_id_inv_def)
  show ?thesis
  proof (cases "a \<in> set xs")
    case True
    then show ?thesis
      using b c by (simp add: note_by_id_def Let_def insert_absorb)
  next
    case False
    show ?thesis
    proof (cases "bucket_of m (a_assertion_id a) = []")
      case True
      with b have "\<forall>b\<in>set xs. a_assertion_id b \<noteq> a_assertion_id a" by auto
      with True False b c show ?thesis
        by (auto simp: note_by_id_def Let_def id_collision_insert)
    next
      case nonempty: False
      have "fst ` set (snd (note_by_id a (m, c))) =
          group_key_of ` insert a {b \<in> set xs. a_assertion_id b = a_assertion_id a} \<union> fst ` set c"
        using nonempty False b
        by (simp add: note_by_id_def Let_def fold_bt_insert_keys keys_bt_insert)
      moreover have "\<exists>b\<in>set xs. a_assertion_id b = a_assertion_id a"
        using nonempty b by (metis (mono_tags, lifting) Collect_empty_eq set_empty)
      ultimately show ?thesis
        using False c by (auto simp: id_collision_insert)
    qed
  qed
qed

lemma collect_by_id_spec:
  "by_id_inv xs (fst (collect_by_id xs))
   \<and> fst ` set (snd (collect_by_id xs)) = {k. id_collision (set xs) k}"
proof (induction xs rule: rev_induct)
  case Nil
  show ?case by (simp add: collect_by_id_def by_id_inv_def bucket_of_def id_collision_def)
next
  case (snoc a xs)
  obtain m c where mc: "collect_by_id xs = (m, c)" by fastforce
  have step: "collect_by_id (xs @ [a]) = note_by_id a (m, c)"
    using mc by (simp add: collect_by_id_def)
  have inv: "by_id_inv xs m" "fst ` set c = {k. id_collision (set xs) k}" using snoc mc by simp_all
  show ?case
    unfolding step using note_by_id_inv [OF inv(1)] note_by_id_marks [OF inv] by blast
qed

lemmas by_id_invariant = collect_by_id_spec [THEN conjunct1]

lemma marked_iff: "marked as k \<longleftrightarrow> id_collision (admissible as) k"
  unfolding marked_def collect_by_id_spec [THEN conjunct2] by simp

lemma bucket_of_mem: "bt_wf m \<Longrightarrow> p \<in> set m \<Longrightarrow> bucket_of m (fst p) = snd p"
  by (cases p) (simp add: bucket_of_def bt_wf_distinct)

lemma by_id_rows:
  assumes "p \<in> set (fst (collect_by_id xs))"
  shows "distinct (snd p)" "set (snd p) = {a \<in> set xs. a_assertion_id a = fst p}"
  using by_id_invariant [of xs] bucket_of_mem [OF _ assms] unfolding by_id_inv_def by metis+

lemma set_by_id_of: "set (by_id_of as) = admissible as"
proof -
  let ?m = "fst (collect_by_id (admitted_input as))"
  have "a \<in> set (by_id_of as)" if a: "a \<in> admissible as" for a
  proof -
    have "a \<in> set (bucket_of ?m (a_assertion_id a))"
      using by_id_invariant [of "admitted_input as"] a unfolding by_id_inv_def by blast
    then obtain b where "map_of ?m (a_assertion_id a) = Some b" "a \<in> set b"
      by (cases "map_of ?m (a_assertion_id a)") (simp_all add: bucket_of_def)
    then show ?thesis
      by (auto simp: by_id_of_def dest!: map_of_SomeD intro!: bexI [of _ "(a_assertion_id a, b)"])
  qed
  moreover have "a \<in> admissible as" if "a \<in> set (by_id_of as)" for a
  proof -
    from that obtain p where "p \<in> set ?m" "a \<in> set (snd p)" by (auto simp: by_id_of_def)
    then show ?thesis using by_id_rows(2) by blast
  qed
  ultimately show ?thesis by blast
qed

text \<open>The collapsed rows come in the order of their identities.\<close>

lemma concat_buckets:
  assumes "bt_wf m" "\<forall>p\<in>set m. distinct (snd p) \<and> (\<forall>a\<in>set (snd p). f a = fst p)"
  shows "sorted (map f (concat (map snd m))) \<and> distinct (concat (map snd m))"
  using assms
proof (induction m)
  case (Cons p m)
  obtain i b where p: "p = (i, b)" by (cases p)
  have b: "distinct b" "\<forall>a\<in>set b. f a = i" using Cons.prems(2) by (simp_all add: p)
  then have rep: "map f b = replicate (length b) i"
    by (simp add: map_replicate_const [symmetric])
  have above: "\<forall>a\<in>set (concat (map snd m)). i < f a"
    using Cons.prems by (force simp: p)
  have ih: "sorted (map f (concat (map snd m)))" "distinct (concat (map snd m))"
    using Cons by (simp_all add: p)
  have "set b \<inter> set (concat (map snd m)) = {}" using above b by fastforce
  then show ?case
    using ih b above by (auto simp: p rep sorted_append less_imp_le)
qed simp

lemma by_id_of_sorted:
  "sorted (map a_assertion_id (by_id_of as)) \<and> distinct (by_id_of as)"
  unfolding by_id_of_def
  using by_id_invariant [of "admitted_input as"] by_id_rows [of _ "admitted_input as"]
  by (intro concat_buckets) (auto simp: by_id_inv_def)

section \<open>The reduction, group by group\<close>

definition rows_of :: "assertion list \<Rightarrow> group_key \<Rightarrow> assertion list" where
  "rows_of as k = filter (\<lambda>a. group_key_of a = k) (by_id_of as)"

definition lineages_of :: "assertion list \<Rightarrow> lineages" where
  "lineages_of rows = fold note_lineage rows []"

lemma set_rows_of [simp]: "set (rows_of as k) = {a \<in> admissible as. group_key_of a = k}"
  by (auto simp: rows_of_def set_by_id_of)

lemma distinct_ids_rows:
  assumes "\<not> id_collision (admissible as) k"
  shows "distinct (map a_assertion_id (rows_of as k))"
  using assms by_id_of_sorted [of as]
  by (auto simp: distinct_map inj_on_def id_collision_def set_rows_of) (simp add: rows_of_def)

lemma sorted_ids_rows: "sorted (map a_assertion_id (rows_of as k))"
  using by_id_of_sorted [of as] by (simp add: rows_of_def sorted_filter)

lemma rows_of_unique:
  assumes "admissible as = admissible bs" "\<not> id_collision (admissible as) k"
  shows "rows_of as k = rows_of bs k"
  using assms by (intro sorted_distinct_key_unique [of a_assertion_id])
    (auto simp: sorted_ids_rows distinct_ids_rows)

lemma fold_pair_lineages:
  "fold (\<lambda>a (s, ls). (s, note_lineage a ls)) rows (s, ls) = (s, fold note_lineage rows ls)"
  by (induction rows arbitrary: ls) simp_all

lemma group_rows_collect:
  "group_rows as = bt.collect group_key_of (\<lambda>a. (a_subject a, [])) (\<lambda>a (s, ls). (s, note_lineage a ls)) as"
  by (simp add: group_rows_def bt.collect_def)

lemma map_of_group_rows:
  "map_of (group_rows as) k =
     (let rows = filter (\<lambda>a. group_key_of a = k) as
      in if rows = [] then None else Some (a_subject (hd rows), lineages_of rows))"
  by (simp add: group_rows_collect bt.lookup_collect fold_pair_lineages lineages_of_def Let_def)

lemma bt_wf_group_rows: "bt_wf (group_rows as)"
  by (simp add: group_rows_collect bt.inv_collect)

lemma filter_key_bt: "bt_wf m \<Longrightarrow>
  filter (\<lambda>p. fst p = k) m = (case map_of m k of None \<Rightarrow> [] | Some v \<Rightarrow> [(k, v)])"
proof (induction m)
  case (Cons p m)
  obtain i v where p: "p = (i, v)" by (cases p)
  have "i = k \<Longrightarrow> map_of m k = None" using Cons.prems by (auto simp: p intro: map_of_None_below)
  then show ?case using Cons by (auto simp: p)
qed simp

lemma reduce_collect:
  "reduce ch as =
     bt.collect fst (\<lambda>(k, g). reduce_group ch (marked as k) k g)
       (\<lambda>(k, g) _. reduce_group ch (marked as k) k g) (group_rows (by_id_of as))"
  by (simp add: reduce_def bt.collect_def by_id_of_def marked_def bt_insert_def case_prod_unfold Let_def)

lemma bt_wf_reduce [simp]: "bt_wf (reduce ch as)"
  by (simp add: reduce_collect bt.inv_collect)

definition reduced_rows :: "chrono \<Rightarrow> bool \<Rightarrow> group_key \<Rightarrow> assertion list \<Rightarrow> reduced_predicate" where
  "reduced_rows ch collided k rows = reduce_group ch collided k (a_subject (hd rows), lineages_of rows)"

lemma map_of_reduce:
  "map_of (reduce ch as) k =
     (if rows_of as k = [] then None
      else Some (reduced_rows ch (id_collision (admissible as) k) k (rows_of as k)))"
  by (simp add: reduce_collect bt.lookup_collect filter_key_bt bt_wf_group_rows map_of_group_rows
      rows_of_def reduced_rows_def marked_iff Let_def)

section \<open>One group\<close>

text \<open>The row of a lineage that nothing in its lineage is newer than.\<close>

definition newest :: "chrono \<Rightarrow> assertion set \<Rightarrow> assertion \<Rightarrow> bool" where
  "newest ch R a \<longleftrightarrow> a \<in> R \<and>
     (\<forall>b\<in>R. lineage_key_of b = lineage_key_of a \<longrightarrow> assertion_order_key ch b \<le> assertion_order_key ch a)"

lemma lineages_collect: "lineages_of rows = bt.collect lineage_key_of (\<lambda>_. []) (\<lambda>a l. l @ [a]) rows"
  by (simp add: lineages_of_def note_lineage_def [abs_def] bt.collect_def)

lemma fold_snoc: "fold (\<lambda>a l. l @ [a]) xs ys = ys @ xs"
  by (induction xs arbitrary: ys) simp_all

lemma map_of_lineages:
  "map_of (lineages_of rows) lk =
     (let l = filter (\<lambda>a. lineage_key_of a = lk) rows in if l = [] then None else Some l)"
  by (simp add: lineages_collect bt.lookup_collect fold_snoc Let_def)

lemma bt_wf_lineages: "bt_wf (lineages_of rows)"
  by (simp add: lineages_collect bt.inv_collect)

lemma lineages_mem:
  "p \<in> set (lineages_of rows) \<longleftrightarrow>
     snd p \<noteq> [] \<and> snd p = filter (\<lambda>a. lineage_key_of a = fst p) rows"
proof -
  have "p \<in> set (lineages_of rows) \<longleftrightarrow> map_of (lineages_of rows) (fst p) = Some (snd p)"
    by (metis bt_wf_distinct bt_wf_lineages map_of_SomeD map_of_is_SomeI prod.collapse)
  then show ?thesis by (auto simp: map_of_lineages Let_def)
qed

definition lineage_head :: "chrono \<Rightarrow> assertion list \<Rightarrow> assertion" where
  "lineage_head ch rows = last (sort_key (assertion_order_key ch) rows)"

definition lineage_older :: "chrono \<Rightarrow> assertion list \<Rightarrow> assertion list" where
  "lineage_older ch rows = butlast (sort_key (assertion_order_key ch) rows)"

definition bad_lineage :: "chrono \<Rightarrow> assertion list \<Rightarrow> bool" where
  "bad_lineage ch rows \<longleftrightarrow> contradicting_edge ch rows
     \<or> same_revision_clash (lineage_older ch rows) (lineage_head ch rows)"

lemma contradicting_edge_set:
  "contradicting_edge ch rows \<longleftrightarrow> (\<exists>a\<in>set rows. \<exists>b\<in>set rows.
     a_supersedes_assertion_id a = Some (a_assertion_id b)
     \<and> assertion_order_key ch b > assertion_order_key ch a)"
  by (fastforce simp: contradicting_edge_def list_ex_iff split: option.splits)

lemma sort_key_Nil_iff [simp]: "sort_key f xs = [] \<longleftrightarrow> xs = []"
  by (metis length_0_conv length_sort)

lemma reduce_lineage_eq:
  "rows \<noteq> [] \<Longrightarrow> reduce_lineage ch rows (cur, sups, vals, m) =
     (cur @ [head_of (lineage_head ch rows)], sups @ map head_of (lineage_older ch rows),
      add_value (a_value (lineage_head ch rows)) vals, m \<or> bad_lineage ch rows)"
  by (simp add: reduce_lineage_def lineage_head_def lineage_older_def bad_lineage_def
      contradicting_edge_set Let_def)

lemma fold_reduce_lineage:
  "\<forall>rows\<in>set ls. rows \<noteq> [] \<Longrightarrow>
   fold (reduce_lineage ch) ls (cur, sups, vals, m) =
     (cur @ map (head_of \<circ> lineage_head ch) ls, sups @ concat (map (map head_of \<circ> lineage_older ch) ls),
      fold add_value (map (a_value \<circ> lineage_head ch) ls) vals, m \<or> list_ex (bad_lineage ch) ls)"
  by (induction ls arbitrary: cur sups vals m) (simp_all add: reduce_lineage_eq)

lemma add_value_inv:
  "distinct (map canonical_value vs) \<Longrightarrow>
   distinct (map canonical_value (add_value v vs))
   \<and> set (map canonical_value (add_value v vs)) = insert (canonical_value v) (set (map canonical_value vs))
   \<and> set (add_value v vs) \<subseteq> insert v (set vs)"
  by (auto simp: add_value_def values_agree_def list_ex_iff image_iff) (metis image_iff)+

lemma fold_add_value:
  "distinct (map canonical_value vs) \<Longrightarrow>
   distinct (map canonical_value (fold add_value xs vs))
   \<and> canonical_value ` set (fold add_value xs vs) = canonical_value ` (set xs \<union> set vs)
   \<and> set (fold add_value xs vs) \<subseteq> set xs \<union> set vs"
proof (induction xs arbitrary: vs)
  case (Cons x xs)
  note step = add_value_inv [OF Cons.prems, of x]
  then show ?case
    using Cons.IH [of "add_value x vs"] by (auto simp: image_Un)
qed simp

definition lineage_of :: "assertion list \<Rightarrow> assertion \<Rightarrow> assertion list" where
  "lineage_of rows a = filter (\<lambda>b. lineage_key_of b = lineage_key_of a) rows"

lemma set_lineage_of [simp]:
  "set (lineage_of rows a) = {b \<in> set rows. lineage_key_of b = lineage_key_of a}"
  by (auto simp: lineage_of_def)

lemma lineages_set: "snd ` set (lineages_of rows) = lineage_of rows ` set rows"
proof (intro equalityI subsetI)
  fix l assume "l \<in> snd ` set (lineages_of rows)"
  then obtain lk where l: "l \<noteq> []" "l = filter (\<lambda>a. lineage_key_of a = lk) rows"
    by (auto simp: lineages_mem)
  then obtain a where "a \<in> set rows" "lineage_key_of a = lk"
    by (metis (mono_tags, lifting) filter_False)
  with l show "l \<in> lineage_of rows ` set rows" by (auto simp: lineage_of_def)
next
  fix l assume "l \<in> lineage_of rows ` set rows"
  then obtain a where a: "a \<in> set rows" "l = lineage_of rows a" by blast
  then have "l \<noteq> []" by (auto simp: lineage_of_def filter_empty_conv)
  with a have "(lineage_key_of a, l) \<in> set (lineages_of rows)"
    by (simp add: lineages_mem lineage_of_def)
  then show "l \<in> snd ` set (lineages_of rows)" by force
qed

lemma lineage_split:
  assumes "l \<noteq> []"
  obtains "sort_key (assertion_order_key ch) l = lineage_older ch l @ [lineage_head ch l]"
  using assms by (simp add: lineage_older_def lineage_head_def)

lemma lineage_head_newest:
  assumes "l \<noteq> []"
  shows "lineage_head ch l \<in> set l"
    and "b \<in> set l \<Longrightarrow> assertion_order_key ch b \<le> assertion_order_key ch (lineage_head ch l)"
proof -
  obtain eq: "sort_key (assertion_order_key ch) l = lineage_older ch l @ [lineage_head ch l]"
    using assms by (rule lineage_split)
  have set: "set l = set (lineage_older ch l @ [lineage_head ch l])"
    unfolding eq [symmetric] by simp
  have "sorted (map (assertion_order_key ch) (lineage_older ch l @ [lineage_head ch l]))"
    unfolding eq [symmetric] by simp
  then show "lineage_head ch l \<in> set l"
    and "b \<in> set l \<Longrightarrow> assertion_order_key ch b \<le> assertion_order_key ch (lineage_head ch l)"
    using set by (auto simp: sorted_append)
qed

lemma set_lineage_older:
  assumes "distinct l" "l \<noteq> []"
  shows "set (lineage_older ch l) = set l - {lineage_head ch l}"
proof -
  obtain eq: "sort_key (assertion_order_key ch) l = lineage_older ch l @ [lineage_head ch l]"
    using assms(2) by (rule lineage_split)
  have "set l = set (lineage_older ch l @ [lineage_head ch l])"
    "distinct (lineage_older ch l @ [lineage_head ch l])"
    unfolding eq [symmetric] using assms(1) by simp_all
  then show ?thesis by auto
qed

lemma order_key_inject:
  "assertion_order_key ch a = assertion_order_key ch b \<Longrightarrow> a_assertion_id a = a_assertion_id b"
  by (simp add: assertion_order_key_def)

lemma newest_lineage_head:
  assumes "distinct (map a_assertion_id rows)" "a \<in> set rows"
  shows "newest ch (set rows) a \<longleftrightarrow> lineage_head ch (lineage_of rows a) = a"
proof -
  let ?h = "lineage_head ch (lineage_of rows a)"
  have ne: "lineage_of rows a \<noteq> []" using assms(2) by (auto simp: lineage_of_def filter_empty_conv)
  note h = lineage_head_newest [OF ne, where ch = ch]
  have hR: "?h \<in> set rows" "lineage_key_of ?h = lineage_key_of a" using h(1) by simp_all
  show ?thesis
  proof
    assume "newest ch (set rows) a"
    then have "assertion_order_key ch ?h \<le> assertion_order_key ch a"
      using hR by (simp add: newest_def)
    moreover have "assertion_order_key ch a \<le> assertion_order_key ch ?h"
      using h(2) [of a] assms(2) by simp
    ultimately have "a_assertion_id ?h = a_assertion_id a"
      by (intro order_key_inject [of ch] antisym)
    then show "?h = a" using assms hR(1) by (simp add: distinct_map inj_onD [of a_assertion_id "set rows"])
  next
    assume eq: "?h = a"
    then show "newest ch (set rows) a" using h(2) assms(2) by (simp add: newest_def)
  qed
qed

text \<open>
  The exact law of one group whose rows have distinct identities: what makes it
  conflicted, which heads it keeps, and the single value it holds otherwise.
\<close>

definition edge_contradiction :: "chrono \<Rightarrow> assertion set \<Rightarrow> bool" where
  "edge_contradiction ch R \<longleftrightarrow> (\<exists>a\<in>R. \<exists>b\<in>R. lineage_key_of a = lineage_key_of b
     \<and> a_supersedes_assertion_id a = Some (a_assertion_id b)
     \<and> assertion_order_key ch a < assertion_order_key ch b)"

definition revision_contradiction :: "chrono \<Rightarrow> assertion set \<Rightarrow> bool" where
  "revision_contradiction ch R \<longleftrightarrow> (\<exists>a\<in>R. \<exists>h\<in>R. newest ch R h
     \<and> lineage_key_of a = lineage_key_of h
     \<and> sr_revision (a_source_ref a) = sr_revision (a_source_ref h)
     \<and> \<not> values_agree (a_value a) (a_value h))"

definition lineage_disagreement :: "chrono \<Rightarrow> assertion set \<Rightarrow> bool" where
  "lineage_disagreement ch R \<longleftrightarrow> (\<exists>g\<in>R. \<exists>h\<in>R. newest ch R g \<and> newest ch R h
     \<and> \<not> values_agree (a_value g) (a_value h))"

lemma heads_of_lineages:
  assumes "distinct (map a_assertion_id rows)"
  shows "lineage_head ch ` lineage_of rows ` set rows = {a. newest ch (set rows) a}"
proof (intro equalityI subsetI)
  fix h assume "h \<in> lineage_head ch ` lineage_of rows ` set rows"
  then obtain a where a: "a \<in> set rows" "h = lineage_head ch (lineage_of rows a)" by blast
  then have "lineage_of rows a \<noteq> []" by (auto simp: lineage_of_def filter_empty_conv)
  then have "h \<in> set (lineage_of rows a)" using a lineage_head_newest(1) by blast
  then have h: "h \<in> set rows" "lineage_of rows h = lineage_of rows a" by (auto simp: lineage_of_def)
  then show "h \<in> {a. newest ch (set rows) a}"
    using newest_lineage_head [OF assms h(1)] a(2) by simp
next
  fix a assume "a \<in> {a. newest ch (set rows) a}"
  then have "newest ch (set rows) a" "a \<in> set rows" by (simp_all add: newest_def)
  then show "a \<in> lineage_head ch ` lineage_of rows ` set rows"
    using newest_lineage_head [OF assms] by (metis imageI)
qed

lemma bad_lineages:
  assumes "distinct (map a_assertion_id rows)"
  shows "(\<exists>a\<in>set rows. bad_lineage ch (lineage_of rows a)) \<longleftrightarrow>
    edge_contradiction ch (set rows) \<or> revision_contradiction ch (set rows)"
proof -
  have edge: "(\<exists>a\<in>set rows. contradicting_edge ch (lineage_of rows a)) \<longleftrightarrow> edge_contradiction ch (set rows)"
    by (auto simp: contradicting_edge_set edge_contradiction_def) metis+
  have clash: "same_revision_clash (lineage_older ch (lineage_of rows a)) (lineage_head ch (lineage_of rows a))
      \<longleftrightarrow> (\<exists>b\<in>set rows. lineage_key_of b = lineage_key_of a
            \<and> sr_revision (a_source_ref b) = sr_revision (a_source_ref (lineage_head ch (lineage_of rows a)))
            \<and> \<not> values_agree (a_value b) (a_value (lineage_head ch (lineage_of rows a))))"
    if a: "a \<in> set rows" for a
  proof -
    have "lineage_of rows a \<noteq> []" using a by (auto simp: lineage_of_def filter_empty_conv)
    moreover have "distinct (lineage_of rows a)" using assms by (simp add: lineage_of_def distinct_map)
    ultimately show ?thesis
      by (auto simp: same_revision_clash_def list_ex_iff set_lineage_older values_agree_def)
  qed
  have "(\<exists>a\<in>set rows. same_revision_clash (lineage_older ch (lineage_of rows a))
      (lineage_head ch (lineage_of rows a))) \<longleftrightarrow> revision_contradiction ch (set rows)" (is "?l \<longleftrightarrow> ?r")
  proof
    assume ?l
    then obtain a b where a: "a \<in> set rows" and b: "b \<in> set rows" "lineage_key_of b = lineage_key_of a"
      "sr_revision (a_source_ref b) = sr_revision (a_source_ref (lineage_head ch (lineage_of rows a)))"
      "\<not> values_agree (a_value b) (a_value (lineage_head ch (lineage_of rows a)))"
      using clash by blast
    have ne: "lineage_of rows a \<noteq> []" using a by (auto simp: lineage_of_def filter_empty_conv)
    let ?h = "lineage_head ch (lineage_of rows a)"
    have "?h \<in> set (lineage_of rows a)" by (rule lineage_head_newest(1) [OF ne])
    then have "?h \<in> set rows" "lineage_key_of ?h = lineage_key_of a" by simp_all
    moreover have "newest ch (set rows) ?h" using heads_of_lineages [OF assms, of ch] a by blast
    ultimately show ?r using b unfolding revision_contradiction_def by metis
  next
    assume ?r
    then obtain b h where h: "h \<in> set rows" "newest ch (set rows) h" and b: "b \<in> set rows"
      "lineage_key_of b = lineage_key_of h" "sr_revision (a_source_ref b) = sr_revision (a_source_ref h)"
      "\<not> values_agree (a_value b) (a_value h)"
      unfolding revision_contradiction_def by blast
    then have "lineage_head ch (lineage_of rows h) = h" using newest_lineage_head [OF assms] by blast
    then show ?l using clash [OF h(1)] h(1) b by (intro bexI [of _ h]) auto
  qed
  then show ?thesis unfolding bad_lineage_def using edge by blast
qed

lemma lineages_nonempty: "\<forall>l\<in>set (map snd (lineages_of rows)). l \<noteq> []"
  by (auto simp: lineages_mem)

lemma set_map_lineages: "set (map (f \<circ> snd) (lineages_of rows)) = f ` lineage_of rows ` set rows"
  unfolding lineages_set [symmetric] by (simp add: image_comp)

lemma fold_group:
  "fold (reduce_lineage ch \<circ> snd) (lineages_of rows) ([], [], [], m) =
     (map (head_of \<circ> lineage_head ch) (map snd (lineages_of rows)),
      concat (map (map head_of \<circ> lineage_older ch) (map snd (lineages_of rows))),
      fold add_value (map (a_value \<circ> lineage_head ch) (map snd (lineages_of rows))) [],
      m \<or> list_ex (bad_lineage ch) (map snd (lineages_of rows)))"
proof -
  have "fold (reduce_lineage ch \<circ> snd) (lineages_of rows) ([], [], [], m) =
      fold (reduce_lineage ch) (map snd (lineages_of rows)) ([], [], [], m)"
    by (simp add: fold_map comp_def)
  then show ?thesis using fold_reduce_lineage [OF lineages_nonempty] by simp
qed

lemma set_sort_heads [simp]: "set (sort_heads ch hs) = set hs"
  by (simp add: sort_heads_def)

lemma reduced_rows_collided:
  "r_status (reduced_rows ch True k rows) = Conflicted" "r_values (reduced_rows ch True k rows) = []"
  by (simp_all add: reduced_rows_def reduce_group_def fold_group Let_def)

lemma reduced_rows_heads:
  assumes "distinct (map a_assertion_id rows)"
  shows "set (r_current_heads (reduced_rows ch c k rows)) = head_of ` {a. newest ch (set rows) a}"
    and "set (r_superseded_heads (reduced_rows ch c k rows)) =
      head_of ` {a \<in> set rows. \<not> newest ch (set rows) a}"
proof -
  have "set (r_current_heads (reduced_rows ch c k rows)) =
      head_of ` lineage_head ch ` lineage_of rows ` set rows"
    using set_map_lineages [of "head_of \<circ> lineage_head ch" rows]
    by (simp add: reduced_rows_def reduce_group_def fold_group Let_def image_comp)
  then show "set (r_current_heads (reduced_rows ch c k rows)) = head_of ` {a. newest ch (set rows) a}"
    by (simp add: heads_of_lineages [OF assms])
  have older: "set (lineage_older ch (lineage_of rows a)) =
      {b \<in> set rows. lineage_key_of b = lineage_key_of a \<and> \<not> newest ch (set rows) b}"
    if a: "a \<in> set rows" for a
  proof -
    have "lineage_of rows a \<noteq> []" using a by (auto simp: lineage_of_def filter_empty_conv)
    moreover have "distinct (lineage_of rows a)" using assms by (simp add: lineage_of_def distinct_map)
    moreover have "newest ch (set rows) b \<longleftrightarrow> b = lineage_head ch (lineage_of rows a)"
      if b: "b \<in> set rows" "lineage_key_of b = lineage_key_of a" for b
    proof -
      have "lineage_of rows b = lineage_of rows a" using b by (simp add: lineage_of_def)
      then show ?thesis using newest_lineage_head [OF assms b(1)] by auto
    qed
    ultimately show ?thesis by (auto simp: set_lineage_older)
  qed
  have "set (r_superseded_heads (reduced_rows ch c k rows)) =
      (\<Union>a\<in>set rows. head_of ` set (lineage_older ch (lineage_of rows a)))"
    using lineages_set [of rows]
    by (simp add: reduced_rows_def reduce_group_def fold_group Let_def image_comp)
       (metis (no_types, lifting) image_image SUP_cong image_comp)
  then show "set (r_superseded_heads (reduced_rows ch c k rows)) =
      head_of ` {a \<in> set rows. \<not> newest ch (set rows) a}"
    using older by fastforce
qed

lemma canonical_image_single:
  assumes "distinct (map f vs)" "f ` set vs = f ` S" "S \<noteq> {}"
  shows "length vs > 1 \<longleftrightarrow> (\<exists>a\<in>S. \<exists>b\<in>S. f a \<noteq> f b)"
proof -
  have len: "length vs = card (f ` S)"
    using assms(1,2) by (metis distinct_card length_map list.set_map)
  have fin: "finite (f ` S)" using assms(2) by (metis List.finite_set finite_imageI)
  have "card (f ` S) > 1 \<longleftrightarrow> (\<exists>x\<in>f ` S. \<exists>y\<in>f ` S. x \<noteq> y)"
    using fin assms(3) by (metis One_nat_def card_le_Suc0_iff_eq linorder_not_less)
  then show ?thesis unfolding len by auto
qed

lemma reduced_rows_status:
  assumes "rows \<noteq> []" "distinct (map a_assertion_id rows)"
  shows "r_status (reduced_rows ch False k rows) =
      (if edge_contradiction ch (set rows) \<or> revision_contradiction ch (set rows)
          \<or> lineage_disagreement ch (set rows) then Conflicted else Current)"
    and "r_status (reduced_rows ch c k rows) = Current \<Longrightarrow>
      \<exists>a. newest ch (set rows) a \<and> r_values (reduced_rows ch c k rows) = [a_value a]"
proof -
  define vals where "vals = fold add_value (map (a_value \<circ> lineage_head ch) (map snd (lineages_of rows))) []"
  define H where "H = a_value ` {a. newest ch (set rows) a}"
  have H: "set (map (a_value \<circ> lineage_head ch) (map snd (lineages_of rows))) = H"
    using set_map_lineages [of "a_value \<circ> lineage_head ch" rows]
    by (simp add: H_def heads_of_lineages [OF assms(2), symmetric] image_comp)
  have vals: "distinct (map canonical_value vals)" "canonical_value ` set vals = canonical_value ` H"
    "set vals \<subseteq> H"
    using fold_add_value [of "[]" "map (a_value \<circ> lineage_head ch) (map snd (lineages_of rows))"]
    unfolding vals_def H by simp_all
  obtain a where "a \<in> set rows" using assms(1) by (cases rows) auto
  then have "H \<noteq> {}" using heads_of_lineages [OF assms(2), of ch] by (auto simp: H_def)
  have "lineage_disagreement ch (set rows) \<longleftrightarrow> (\<exists>v\<in>H. \<exists>w\<in>H. canonical_value v \<noteq> canonical_value w)"
    by (auto simp: lineage_disagreement_def values_agree_def H_def newest_def)
  then have dis: "length vals > 1 \<longleftrightarrow> lineage_disagreement ch (set rows)"
    using canonical_image_single [OF vals(1,2) \<open>H \<noteq> {}\<close>] by simp
  have "list_ex (bad_lineage ch) (map snd (lineages_of rows)) \<longleftrightarrow>
      (\<exists>a\<in>set rows. bad_lineage ch (lineage_of rows a))"
    using lineages_set [of rows] by (simp add: list_ex_iff)
  then have bad: "list_ex (bad_lineage ch) (map snd (lineages_of rows)) \<longleftrightarrow>
      edge_contradiction ch (set rows) \<or> revision_contradiction ch (set rows)"
    using bad_lineages [OF assms(2)] by simp
  have fg: "fold (reduce_lineage ch \<circ> snd) (lineages_of rows) ([], [], [], m) =
     (map (head_of \<circ> lineage_head ch) (map snd (lineages_of rows)),
      concat (map (map head_of \<circ> lineage_older ch) (map snd (lineages_of rows))), vals,
      m \<or> edge_contradiction ch (set rows) \<or> revision_contradiction ch (set rows))" for m
    unfolding fold_group bad vals_def [symmetric] ..
  show "r_status (reduced_rows ch False k rows) =
      (if edge_contradiction ch (set rows) \<or> revision_contradiction ch (set rows)
          \<or> lineage_disagreement ch (set rows) then Conflicted else Current)"
    by (simp add: reduced_rows_def reduce_group_def fg Let_def dis [symmetric])
  assume "r_status (reduced_rows ch c k rows) = Current"
  then have v: "r_values (reduced_rows ch c k rows) = vals" "\<not> length vals > 1"
    by (auto simp: reduced_rows_def reduce_group_def fg Let_def split: if_splits)
  have "vals \<noteq> []" using vals(2) \<open>H \<noteq> {}\<close> by auto
  then obtain x where x: "vals = [x]" using v(2) by (cases vals) (auto simp: not_less)
  then have "x \<in> H" using vals(3) by simp
  then show "\<exists>a. newest ch (set rows) a \<and> r_values (reduced_rows ch c k rows) = [a_value a]"
    using v(1) x by (auto simp: H_def)
qed

section \<open>Laws of the reduction\<close>

definition group_of :: "assertion list \<Rightarrow> group_key \<Rightarrow> assertion set" where
  "group_of as k = {a \<in> admissible as. group_key_of a = k}"

definition ids_consistent :: "assertion set \<Rightarrow> bool" where
  "ids_consistent A \<longleftrightarrow> (\<forall>a\<in>A. \<forall>b\<in>A. a_assertion_id a = a_assertion_id b \<longrightarrow> a = b)"

lemma ids_consistent_no_collision: "ids_consistent A \<Longrightarrow> \<not> id_collision A k"
  by (auto simp: ids_consistent_def id_collision_def)

lemma rows_of_empty: "rows_of as k = [] \<longleftrightarrow> group_of as k = {}"
  by (metis set_rows_of group_of_def set_empty)

lemma reduce_at_same:
  assumes "admissible as = admissible bs" "\<not> id_collision (admissible as) k"
  shows "map_of (reduce ch as) k = map_of (reduce ch bs) k"
  using rows_of_unique [OF assms] assms by (simp add: map_of_reduce)

lemma reduce_eqI:
  assumes "admissible as = admissible bs" "ids_consistent (admissible as)"
  shows "reduce ch as = reduce ch bs"
proof (rule bt_ext)
  show "map_of (reduce ch as) k = map_of (reduce ch bs) k" for k
    by (rule reduce_at_same [OF assms(1) ids_consistent_no_collision [OF assms(2)]])
qed simp_all

definition verdicts :: "reduction \<Rightarrow> (group_key \<times> reduction_status \<times> assertion_value list) list" where
  "verdicts red = map (\<lambda>(k, r). (k, r_status r, r_values r)) red"

lemma map_of_verdicts: "map_of (verdicts red) k = map_option (\<lambda>r. (r_status r, r_values r)) (map_of red k)"
  unfolding verdicts_def by (induction red) auto

lemma bt_wf_verdicts [simp]: "bt_wf red \<Longrightarrow> bt_wf (verdicts red)"
  by (simp add: verdicts_def bt_wf_def comp_def case_prod_unfold)

lemma verdicts_eqI:
  assumes "admissible as = admissible bs"
  shows "verdicts (reduce ch as) = verdicts (reduce ch bs)"
proof (rule bt_ext)
  fix k
  show "map_of (verdicts (reduce ch as)) k = map_of (verdicts (reduce ch bs)) k"
  proof (cases "id_collision (admissible as) k")
    case True
    moreover have "rows_of as k = [] \<longleftrightarrow> rows_of bs k = []"
      unfolding rows_of_empty group_of_def assms ..
    ultimately show ?thesis
      using assms by (simp add: map_of_verdicts map_of_reduce reduced_rows_collided)
  next
    case False
    then show ?thesis using reduce_at_same [OF assms] by (simp add: map_of_verdicts)
  qed
qed simp_all

lemma reduce_Some:
  assumes "map_of (reduce ch as) k = Some r"
  shows "rows_of as k \<noteq> []" "r = reduced_rows ch (id_collision (admissible as) k) k (rows_of as k)"
  using assms by (simp_all add: map_of_reduce split: if_splits)

lemma set_rows_group: "set (rows_of as k) = group_of as k"
  by (simp add: group_of_def)

lemma reduce_status:
  assumes "map_of (reduce ch as) k = Some r"
  shows "r_status r = (if id_collision (admissible as) k \<or> edge_contradiction ch (group_of as k)
      \<or> revision_contradiction ch (group_of as k) \<or> lineage_disagreement ch (group_of as k)
      then Conflicted else Current)"
proof (cases "id_collision (admissible as) k")
  case True
  with reduce_Some [OF assms] show ?thesis by (simp add: reduced_rows_collided)
next
  case False
  with reduce_Some [OF assms] reduced_rows_status(1) [OF _ distinct_ids_rows [OF False], of ch k]
  show ?thesis by (simp add: set_rows_group del: set_rows_of)
qed

lemma reduce_values:
  assumes "map_of (reduce ch as) k = Some r"
  shows "r_status r = Current \<Longrightarrow> \<exists>a. newest ch (group_of as k) a \<and> r_values r = [a_value a]"
    and "r_status r \<noteq> Current \<Longrightarrow> r_values r = []"
proof -
  assume cur: "r_status r = Current"
  have no: "\<not> id_collision (admissible as) k"
    using reduce_status [OF assms] cur by (auto split: if_splits)
  show "\<exists>a. newest ch (group_of as k) a \<and> r_values r = [a_value a]"
    using reduced_rows_status(2) [OF reduce_Some(1) [OF assms] distinct_ids_rows [OF no]] cur
      reduce_Some(2) [OF assms]
    by (simp add: set_rows_group del: set_rows_of)
next
  assume "r_status r \<noteq> Current"
  then show "r_values r = []"
    unfolding reduce_Some(2) [OF assms]
    by (auto simp: reduced_rows_def reduce_group_def Let_def split: prod.splits if_splits)
qed

lemma reduce_heads:
  assumes "map_of (reduce ch as) k = Some r" "\<not> id_collision (admissible as) k"
  shows "set (r_current_heads r) = head_of ` {a. newest ch (group_of as k) a}"
    and "set (r_superseded_heads r) = head_of ` {a \<in> group_of as k. \<not> newest ch (group_of as k) a}"
  using reduced_rows_heads [OF distinct_ids_rows [OF assms(2)], of ch _ k] reduce_Some(2) [OF assms(1)]
  by (simp_all add: set_rows_group del: set_rows_of)

lemma get_reduce_status:
  "r_status (reduction_get (reduce ch as) s p) = Unknown \<longleftrightarrow> group_of as (as_token s, p) = {}"
  "r_status (reduction_get (reduce ch as) s p) \<noteq> Superseded"
  using reduce_status [of ch as "(as_token s, p)"]
  by (auto simp: reduction_get_def unknown_reduced_def map_of_reduce rows_of_empty split: option.splits if_splits)

lemma assertion_status_alt:
  "assertion_status red a = (case map_of red (group_key_of a) of
     None \<Rightarrow> Unknown
   | Some r \<Rightarrow>
       if r_status r \<in> {Current, Conflicted} then
         if a_assertion_id a \<in> h_assertion_id ` set (r_current_heads r) then r_status r
         else if a_assertion_id a \<in> h_assertion_id ` set (r_superseded_heads r) then Superseded
         else Unknown
       else Unknown)"
  by (auto simp: assertion_status_def group_key_of_def list_ex_iff image_iff Let_def
      split: option.split reduction_status.split)

section \<open>Properties of the reduction\<close>

text \<open>Rows the examples share: one issue observed open at \<open>t0\<close>, later closed, and the
  first row again with another rendering of the same instant.\<close>

definition demo_chrono :: chrono where
  "demo_chrono = \<lparr> parse_from_rfc3339 =
     (\<lambda>s. if s = ''t0'' \<or> s = ''t0Z'' then Some 0 else if s = ''t1'' then Some 1 else None), MIN_UTC = -5 \<rparr>"

definition demo_row :: assertion where
  "demo_row = \<lparr> a_assertion_id = ''id1'', a_subject = SubjectRef ''o/r'' (Issue 7),
     a_predicate = IssueOpen, a_value = Unit, a_issuer = ''gh'',
     a_authority_class = GitHubTypedObject,
     a_source_ref = \<lparr> sr_source = ''s'', sr_revision = ''r1'' \<rparr>, a_observed_at = ''t0'',
     a_effective_at = ''t0'', a_supersedes_assertion_id = None, a_evidence_refs = [],
     a_review_state = Observed, a_visibility = Public \<rparr>"

definition demo_row_rendered :: assertion where
  "demo_row_rendered = demo_row\<lparr> a_observed_at := ''t0Z'' \<rparr>"

definition demo_row_later :: assertion where
  "demo_row_later = demo_row\<lparr> a_assertion_id := ''id2'', a_observed_at := ''t1'',
     a_source_ref := \<lparr> sr_source = ''s'', sr_revision = ''r2'' \<rparr> \<rparr>"

definition demo_key :: group_key where
  "demo_key = (''o/r#issue:7'', IssueOpen)"

text \<open>
  C1: The reduction is a function of the set of admitted rows: two inputs whose admitted
  rows are the same set, whatever their order, repetitions and non-admitted rows, reduce
  to the same map, provided no two different admitted rows claim the same identity.
\<close>

theorem reduce_order_free:
  assumes "set (admitted_input as) = set (admitted_input bs)"
    and "ids_consistent (set (admitted_input as))"
  shows "reduce ch as = reduce ch bs"
  using assms by (rule reduce_eqI)

theorem reduce_order_free_witness:
  "reduce demo_chrono [demo_row, demo_row_later, demo_row] = reduce demo_chrono [demo_row_later, demo_row]"
  by (rule reduce_order_free) code_simp+

text \<open>
  Without any condition on identities, the statuses and values of every group depend
  on the set of admitted rows only, and a group that no identity collision touches is
  reduced to the same record, heads included.
\<close>

lemma reduce_verdicts_order_free:
  assumes "set (admitted_input as) = set (admitted_input bs)"
  shows "verdicts (reduce ch as) = verdicts (reduce ch bs)
    \<and> filter (\<lambda>(k, r). \<not> id_collision (set (admitted_input as)) k) (reduce ch as)
      = filter (\<lambda>(k, r). \<not> id_collision (set (admitted_input as)) k) (reduce ch bs)"
proof
  let ?P = "\<lambda>k. \<not> id_collision (set (admitted_input as)) k"
  have filt: "map_of (filter (\<lambda>(k, r). ?P k) m) k = (if ?P k then map_of m k else None)"
    "bt_wf m \<Longrightarrow> bt_wf (filter (\<lambda>(k, r). ?P k) m)" for m :: reduction and k
    by (induction m) auto
  show "filter (\<lambda>(k, r). ?P k) (reduce ch as) = filter (\<lambda>(k, r). ?P k) (reduce ch bs)"
  proof (rule bt_ext)
    show "map_of (filter (\<lambda>(k, r). ?P k) (reduce ch as)) k = map_of (filter (\<lambda>(k, r). ?P k) (reduce ch bs)) k" for k
      using reduce_at_same [OF assms, of k ch] by (simp add: filt(1))
  qed (simp_all add: filt(2))
qed (rule verdicts_eqI [OF assms])

lemma reduce_verdicts_order_free_witness:
  "verdicts (reduce demo_chrono [demo_row, demo_row_rendered])
     = verdicts (reduce demo_chrono [demo_row_rendered, demo_row])"
  by (rule reduce_verdicts_order_free [THEN conjunct1]) code_simp

text \<open>
  The evidence heads of a group with an identity collision do depend on the arrival
  order: two admitted rows that differ only in how they write the same instant, given in
  the two orders, reduce to different maps. So the order independence the documentation
  of \<open>reduce\<close> promises for every set of assertions does not hold of full equality.
\<close>

lemma reduce_heads_depend_on_arrival:
  "set (admitted_input [demo_row, demo_row_rendered]) = set (admitted_input [demo_row_rendered, demo_row])
   \<and> reduce demo_chrono [demo_row, demo_row_rendered] \<noteq> reduce demo_chrono [demo_row_rendered, demo_row]"
  by code_simp

text \<open>
  C2: The exact status law. A group has no entry iff it has no admitted row. Otherwise it
  is conflicted exactly if an identity collision touches it, or a row of a lineage claims
  to supersede a newer row of that lineage, or a lineage contradicts its newest row at the
  same revision, or the newest rows of two lineages disagree; else it is current.
\<close>

theorem reduce_status_law:
  "map_option r_status (map_of (reduce ch as) k) =
     (if group_of as k = {} then None
      else if id_collision (set (admitted_input as)) k \<or> edge_contradiction ch (group_of as k)
           \<or> revision_contradiction ch (group_of as k) \<or> lineage_disagreement ch (group_of as k)
      then Some Conflicted else Some Current)"
proof (cases "map_of (reduce ch as) k")
  case None
  then show ?thesis by (simp add: map_of_reduce rows_of_empty split: if_splits)
next
  case (Some r)
  then have "group_of as k \<noteq> {}" using reduce_Some(1) rows_of_empty by blast
  then show ?thesis using Some reduce_status [OF Some] by simp
qed

text \<open>
  C3: A group no identity collision touches keeps as its current heads exactly the newest
  rows of its lineages and as its superseded heads exactly its other rows: supersession
  never crosses a lineage and no row is lost.
\<close>

theorem reduce_heads_law:
  assumes "\<not> id_collision (set (admitted_input as)) k"
  shows "case map_of (reduce ch as) k of
      None \<Rightarrow> group_of as k = {}
    | Some r \<Rightarrow>
        set (r_current_heads r) = head_of ` {a \<in> group_of as k. newest ch (group_of as k) a}
      \<and> set (r_superseded_heads r) = head_of ` {a \<in> group_of as k. \<not> newest ch (group_of as k) a}"
proof (cases "map_of (reduce ch as) k")
  case None
  then show ?thesis by (simp add: map_of_reduce rows_of_empty split: if_splits)
next
  case (Some r)
  have "{a. newest ch (group_of as k) a} = {a \<in> group_of as k. newest ch (group_of as k) a}"
    by (auto simp: newest_def)
  with Some reduce_heads [OF Some assms] show ?thesis by simp
qed

theorem reduce_heads_law_witness:
  "case map_of (reduce demo_chrono [demo_row_later, demo_row]) demo_key of
      None \<Rightarrow> group_of [demo_row_later, demo_row] demo_key = {}
    | Some r \<Rightarrow>
        set (r_current_heads r) = head_of ` {a \<in> group_of [demo_row_later, demo_row] demo_key.
          newest demo_chrono (group_of [demo_row_later, demo_row] demo_key) a}
      \<and> set (r_superseded_heads r) = head_of ` {a \<in> group_of [demo_row_later, demo_row] demo_key.
          \<not> newest demo_chrono (group_of [demo_row_later, demo_row] demo_key) a}"
  by (rule reduce_heads_law) (simp add: id_collision_def admitted_input_def demo_row_later_def
      demo_row_def is_admitted_def is_source_predicate_def)

text \<open>
  What a lookup answers: \<open>Unknown\<close> without heads or values for a group without
  admitted rows, exactly one value when current, the value of a newest row of the group,
  no value when conflicted, and never \<open>Superseded\<close>.
\<close>

lemma reduction_get_law:
  "let r = reduction_get (reduce ch as) s p; G = group_of as (as_token s, p)
   in case r_status r of
        Unknown \<Rightarrow> G = {} \<and> r = unknown_reduced s p
      | Current \<Rightarrow> (\<exists>a. newest ch G a \<and> r_values r = [a_value a])
      | Conflicted \<Rightarrow> G \<noteq> {} \<and> r_values r = []
      | Superseded \<Rightarrow> False"
proof (cases "map_of (reduce ch as) (as_token s, p)")
  case None
  then show ?thesis
    by (simp add: reduction_get_def unknown_reduced_def map_of_reduce rows_of_empty split: if_splits)
next
  case (Some r)
  have "group_of as (as_token s, p) \<noteq> {}" using reduce_Some(1) [OF Some] rows_of_empty by blast
  then show ?thesis
    using Some reduce_status [OF Some] reduce_values [OF Some]
    by (auto simp: reduction_get_def Let_def split: if_splits)
qed

text \<open>
  Classifying one admitted row against the reduction, when identities are consistent:
  a newest row of its lineage has its group's status (current or conflicted), every older
  row of a lineage is superseded, also in a conflicted group.
\<close>

lemma assertion_status_law:
  assumes "ids_consistent (set (admitted_input as))" "a \<in> set (admitted_input as)"
  shows "assertion_status (reduce ch as) a =
    (if newest ch (group_of as (group_key_of a)) a
     then r_status (reduction_get (reduce ch as) (a_subject a) (a_predicate a)) else Superseded)"
proof -
  let ?k = "group_key_of a" let ?G = "group_of as (group_key_of a)"
  have a: "a \<in> ?G" using assms(2) by (simp add: group_of_def)
  then have "map_of (reduce ch as) ?k \<noteq> None"
    by (auto simp: map_of_reduce rows_of_empty)
  then obtain r where r: "map_of (reduce ch as) ?k = Some r" by blast
  note heads = reduce_heads [OF r ids_consistent_no_collision [OF assms(1)]]
  have same: "b = a" if "b \<in> ?G" "a_assertion_id b = a_assertion_id a" for b
    using that assms by (auto simp: group_of_def ids_consistent_def)
  have new: "a_assertion_id a \<in> h_assertion_id ` set (r_current_heads r) \<longleftrightarrow> newest ch ?G a"
  proof
    assume "a_assertion_id a \<in> h_assertion_id ` set (r_current_heads r)"
    then obtain b where b: "newest ch ?G b" "a_assertion_id b = a_assertion_id a"
      unfolding heads(1) by auto
    moreover from b have "b \<in> ?G" by (simp add: newest_def)
    ultimately show "newest ch ?G a" using same by blast
  qed (use heads(1) in \<open>force simp: image_iff\<close>)
  have old: "a_assertion_id a \<in> h_assertion_id ` set (r_superseded_heads r) \<longleftrightarrow> \<not> newest ch ?G a"
  proof
    assume "a_assertion_id a \<in> h_assertion_id ` set (r_superseded_heads r)"
    then obtain b where "b \<in> ?G" "\<not> newest ch ?G b" "a_assertion_id b = a_assertion_id a"
      unfolding heads(2) by auto
    then show "\<not> newest ch ?G a" using same by blast
  qed (use heads(2) a in \<open>force simp: image_iff\<close>)
  have st: "r_status r \<in> {Current, Conflicted}" using reduce_status [OF r] by simp
  show ?thesis
    using r st new old
    by (simp add: assertion_status_alt reduction_get_def group_key_of_def)
qed

lemma assertion_status_law_witness:
  "assertion_status (reduce demo_chrono [demo_row_later, demo_row]) demo_row = Superseded"
proof -
  have "\<not> newest demo_chrono (group_of [demo_row_later, demo_row] (group_key_of demo_row)) demo_row"
    by code_simp
  moreover have "ids_consistent (set (admitted_input [demo_row_later, demo_row]))"
    "demo_row \<in> set (admitted_input [demo_row_later, demo_row])" by code_simp+
  ultimately show ?thesis
    using assertion_status_law [of "[demo_row_later, demo_row]" demo_row demo_chrono] by simp
qed

end
