(* ===== verification/Truth_Lifecycle.thy ===== *)
theory Truth_Lifecycle
  imports Truth_Reducer
begin

text \<open>
  The views the reduction derives for one subject, the second half of
  \<open>crates/tachi-params/src/current_truth/reducer.rs\<close>: the issue and pull-request
  lifecycles resolved from their families of mutually exclusive predicates, the linked
  pull requests, the presence of an implementation and the conflict scan of an issue's
  chain. The lemmas give the family resolution as a maximum over the heads' keys.
\<close>

section \<open>Family resolution\<close>

datatype issue_lifecycle_view = IssueUnknown | IssueViewOpen | IssueViewReopened | IssueViewClosed | IssueViewConflicted

datatype pr_lifecycle_view = PrUnknown | PrViewOpen | PrViewMerged | PrViewClosedUnmerged | PrViewMergeReverted | PrViewConflicted

record resolved_family =
  rf_newest :: "predicate option"
  rf_conflicted :: bool

type_synonym tie_key = "int \<times> string"

definition tie_of :: "chrono \<Rightarrow> evidence_head \<Rightarrow> tie_key" where
  "tie_of ch h = (fst (head_order_key ch h), fst (snd (head_order_key ch h)))"

text \<open>One head of member \<open>p\<close> against the best key so far and the members that own it.\<close>

definition family_step :: "predicate \<Rightarrow> tie_key \<Rightarrow> (tie_key \<times> predicate list) option \<Rightarrow> (tie_key \<times> predicate list) option" where
  "family_step p tie w = (case w of
       None \<Rightarrow> Some (tie, [p])
     | Some (best, owners) \<Rightarrow>
         if tie > best then Some (tie, [p])
         else if tie = best \<and> p \<notin> set owners then Some (best, owners @ [p])
         else Some (best, owners))"

definition live :: "reduced_predicate \<Rightarrow> bool" where
  "live r \<longleftrightarrow> (case r_status r of Current \<Rightarrow> True | Conflicted \<Rightarrow> True | Superseded \<Rightarrow> False | Unknown \<Rightarrow> False)"

definition family_winner ::
  "chrono \<Rightarrow> reduction \<Rightarrow> subject_ref \<Rightarrow> predicate list \<Rightarrow> (tie_key \<times> predicate list) option" where
  "family_winner ch red s family =
     fold (\<lambda>p w. let r = reduction_get red s p
                  in if live r then fold (\<lambda>h. family_step p (tie_of ch h)) (r_current_heads r) w else w)
       family None"

definition resolve_family :: "chrono \<Rightarrow> reduction \<Rightarrow> subject_ref \<Rightarrow> predicate list \<Rightarrow> resolved_family" where
  "resolve_family ch red s family =
     (case family_winner ch red s family of
        None \<Rightarrow> \<lparr> rf_newest = None, rf_conflicted = False \<rparr>
      | Some (_, owners) \<Rightarrow>
          \<lparr> rf_newest = (case owners of [] \<Rightarrow> None | p # _ \<Rightarrow> Some p),
            rf_conflicted = (length owners > 1
              \<or> list_ex (\<lambda>p. r_status (reduction_get red s p) = Conflicted) owners) \<rparr>)"

definition issue_family :: "predicate list" where
  "issue_family = [IssueOpen, IssueClosed, IssueReopened]"

definition pr_family :: "predicate list" where
  "pr_family = [PrOpen, PrMerged, PrClosedUnmerged, MergeReverted]"

definition issue_lifecycle :: "chrono \<Rightarrow> reduction \<Rightarrow> subject_ref \<Rightarrow> issue_lifecycle_view" where
  "issue_lifecycle ch red s =
     (let family = resolve_family ch red s issue_family
      in if rf_conflicted family then IssueViewConflicted
         else case rf_newest family of
                Some IssueClosed \<Rightarrow> IssueViewClosed
              | Some IssueReopened \<Rightarrow> IssueViewReopened
              | Some IssueOpen \<Rightarrow> IssueViewOpen
              | _ \<Rightarrow> IssueUnknown)"

definition pr_lifecycle :: "chrono \<Rightarrow> reduction \<Rightarrow> subject_ref \<Rightarrow> pr_lifecycle_view" where
  "pr_lifecycle ch red s =
     (let family = resolve_family ch red s pr_family
      in if rf_conflicted family then PrViewConflicted
         else case rf_newest family of
                Some PrOpen \<Rightarrow> PrViewOpen
              | Some PrMerged \<Rightarrow> PrViewMerged
              | Some PrClosedUnmerged \<Rightarrow> PrViewClosedUnmerged
              | Some MergeReverted \<Rightarrow> PrViewMergeReverted
              | _ \<Rightarrow> PrUnknown)"

section \<open>Links, implementation, acceptance, conflicts\<close>

definition pr_subject :: "subject_ref \<Rightarrow> github_object_ref \<Rightarrow> subject_ref" where
  "pr_subject issue object = SubjectRef (s_repo issue) object"

fun value_objects :: "assertion_value \<Rightarrow> github_object_ref list" where
  "value_objects (ObjectRefs objects) = objects"
| "value_objects (ObjectRef object) = [object]"
| "value_objects Unit = []"
| "value_objects (CommitSha _) = []"
| "value_objects (HandoffId _) = []"
| "value_objects (Action _) = []"

definition linked_prs :: "reduction \<Rightarrow> subject_ref \<Rightarrow> github_object_ref list" where
  "linked_prs red issue =
     remdups_adj (sort (concat (map value_objects (r_values (reduction_get red issue ImplementationPrLinked)))))"

fun is_commit_sha :: "assertion_value \<Rightarrow> bool" where
  "is_commit_sha (CommitSha _) = True"
| "is_commit_sha _ = False"

definition linked_merged_prs :: "chrono \<Rightarrow> reduction \<Rightarrow> subject_ref \<Rightarrow> github_object_ref list" where
  "linked_merged_prs ch red issue =
     filter (\<lambda>object. let pr = pr_subject issue object
                       in pr_lifecycle ch red pr = PrViewMerged
                          \<and> list_ex is_commit_sha (r_values (reduction_get red pr PrMerged)))
       (linked_prs red issue)"

definition implementation_present :: "chrono \<Rightarrow> reduction \<Rightarrow> subject_ref \<Rightarrow> bool" where
  "implementation_present ch red issue =
     (let explicit = reduction_get red issue ImplementationPresent;
          explicit_evidenced =
            (r_status explicit = Current \<and> list_ex is_commit_sha (r_values explicit));
          newest_impl = iter_max (map (head_order_key ch) (r_current_heads explicit));
          reverted_newer = list_ex (\<lambda>object.
            let revert = reduction_get red (pr_subject issue object) MergeReverted
            in r_status revert = Current
               \<and> (case (iter_max (map (head_order_key ch) (r_current_heads revert)), newest_impl) of
                    (Some revert_key, Some impl_key) \<Rightarrow> revert_key > impl_key
                  | _ \<Rightarrow> True)) (linked_prs red issue)
      in explicit_evidenced \<and> \<not> reverted_newer \<or> linked_merged_prs ch red issue \<noteq> [])"

definition owner_acceptance_present :: "reduction \<Rightarrow> subject_ref \<Rightarrow> bool" where
  "owner_acceptance_present red issue \<longleftrightarrow>
     r_status (reduction_get red issue OwnerAcceptancePresent) = Current"

definition is_lifecycle_family_predicate :: "predicate \<Rightarrow> bool" where
  "is_lifecycle_family_predicate p \<longleftrightarrow>
     p \<in> {IssueOpen, IssueClosed, IssueReopened, PrOpen, PrMerged, PrClosedUnmerged, MergeReverted}"

definition chain_conflicted :: "reduction \<Rightarrow> subject_ref \<Rightarrow> bool" where
  "chain_conflicted red issue =
     (let chain = as_token issue # map (\<lambda>object. as_token (pr_subject issue object)) (linked_prs red issue)
      in list_ex (\<lambda>r. as_token (r_subject r) \<in> set chain \<and> r_status r = Conflicted
                      \<and> \<not> is_lifecycle_family_predicate (r_predicate r)) (map snd red))"

section \<open>The resolution as a maximum\<close>

text \<open>The keys of the live members, paired with the member that owns them.\<close>

definition family_ties :: "chrono \<Rightarrow> reduction \<Rightarrow> subject_ref \<Rightarrow> predicate list \<Rightarrow> (predicate \<times> tie_key) list" where
  "family_ties ch red s family =
     concat (map (\<lambda>p. if live (reduction_get red s p)
                       then map (\<lambda>h. (p, tie_of ch h)) (r_current_heads (reduction_get red s p)) else []) family)"

definition family_owners :: "(predicate \<times> tie_key) set \<Rightarrow> predicate set" where
  "family_owners T = {p. \<exists>k. (p, k) \<in> T \<and> (\<forall>(q, j)\<in>T. j \<le> k)}"

lemma family_winner_ties:
  "family_winner ch red s family = fold (\<lambda>(p, k). family_step p k) (family_ties ch red s family) None"
proof -
  have "fold (\<lambda>p w. let r = reduction_get red s p
                  in if live r then fold (\<lambda>h. family_step p (tie_of ch h)) (r_current_heads r) w else w)
       family w = fold (\<lambda>(p, k). family_step p k) (family_ties ch red s family) w" for w
    by (induction family arbitrary: w) (simp_all add: family_ties_def Let_def fold_map comp_def)
  then show ?thesis by (simp add: family_winner_def)
qed

definition winner_of :: "(predicate \<times> tie_key) list \<Rightarrow> tie_key \<Rightarrow> predicate list \<Rightarrow> bool" where
  "winner_of xs k owners \<longleftrightarrow> k \<in> snd ` set xs \<and> (\<forall>(q, j)\<in>set xs. j \<le> k)
     \<and> distinct owners \<and> set owners = {p. (p, k) \<in> set xs}"

lemma winner_of_step:
  assumes "winner_of xs k owners"
  shows "\<exists>k' owners'. family_step p j (Some (k, owners)) = Some (k', owners') \<and> winner_of (xs @ [(p, j)]) k' owners'"
proof (cases "j > k")
  case True
  have le: "i \<le> k" if "(q, i) \<in> set xs" for q i using assms that by (auto simp: winner_of_def)
  have no: "(q, j) \<notin> set xs" for q using le True leD by blast
  have "i \<le> j" if "(q, i) \<in> set xs" for q i using le [OF that] True by (rule order.strict_implies_order [OF le_less_trans])
  then have "winner_of (xs @ [(p, j)]) j [p]"
    using no by (auto simp: winner_of_def)
  then show ?thesis using True by (auto simp: family_step_def)
next
  case False
  show ?thesis
  proof (cases "j = k \<and> p \<notin> set owners")
    case True
    then have "winner_of (xs @ [(p, j)]) k (owners @ [p])"
      using assms by (fastforce simp: winner_of_def)
    then show ?thesis using True by (auto simp: family_step_def)
  next
    case other: False
    then have "winner_of (xs @ [(p, j)]) k owners"
      using assms False by (fastforce simp: winner_of_def)
    then show ?thesis using False other by (cases k) (auto simp: family_step_def)
  qed
qed

lemma fold_family_step:
  "xs \<noteq> [] \<Longrightarrow> \<exists>k owners. fold (\<lambda>(p, k). family_step p k) xs None = Some (k, owners) \<and> winner_of xs k owners"
proof (induction xs rule: rev_induct)
  case (snoc x xs)
  obtain p j where x: "x = (p, j)" by (cases x)
  show ?case
  proof (cases "xs = []")
    case True
    then show ?thesis by (auto simp: x family_step_def winner_of_def)
  next
    case False
    with snoc.IH obtain k owners where "fold (\<lambda>(p, k). family_step p k) xs None = Some (k, owners)"
      "winner_of xs k owners" by blast
    then show ?thesis using winner_of_step [of xs k owners p j] by (simp add: x)
  qed
qed simp

lemma winner_owners:
  assumes "winner_of xs k owners"
  shows "set owners = family_owners (set xs)" "owners \<noteq> []"
proof -
  have ge: "j \<le> k" if "(q, j) \<in> set xs" for q j using assms that by (auto simp: winner_of_def)
  have k: "k \<in> snd ` set xs" using assms by (simp add: winner_of_def)
  obtain q where q: "(q, k) \<in> set xs" using k by auto
  show "set owners = family_owners (set xs)"
  proof (intro equalityI subsetI)
    fix p assume "p \<in> set owners"
    then have "(p, k) \<in> set xs" using assms by (simp add: winner_of_def)
    then show "p \<in> family_owners (set xs)" using ge by (auto simp: family_owners_def simp del: split_paired_Ex)
  next
    fix p assume "p \<in> family_owners (set xs)"
    then obtain j where j: "(p, j) \<in> set xs" "\<forall>(q, i)\<in>set xs. i \<le> j"
      by (auto simp: family_owners_def simp del: split_paired_Ex)
    then have "j = k" using ge [OF j(1)] q by (intro antisym) auto
    then show "p \<in> set owners" using j assms by (simp add: winner_of_def)
  qed
  have "set owners \<noteq> {}" using assms q by (auto simp: winner_of_def)
  then show "owners \<noteq> []" by auto
qed

lemma resolve_family_cases:
  fixes ch red s family T defines "T \<equiv> set (family_ties ch red s family)"
  shows "T = {} \<Longrightarrow> resolve_family ch red s family = \<lparr> rf_newest = None, rf_conflicted = False \<rparr>"
    and "T \<noteq> {} \<Longrightarrow> \<exists>p\<in>family_owners T. rf_newest (resolve_family ch red s family) = Some p
      \<and> (\<not> rf_conflicted (resolve_family ch red s family) \<longrightarrow> family_owners T = {p})"
    and "rf_conflicted (resolve_family ch red s family) \<longleftrightarrow>
      (\<exists>p\<in>family_owners T. \<exists>q\<in>family_owners T. p \<noteq> q)
      \<or> (\<exists>p\<in>family_owners T. r_status (reduction_get red s p) = Conflicted)"
proof -
  let ?xs = "family_ties ch red s family"
  show empty: "T = {} \<Longrightarrow> resolve_family ch red s family = \<lparr> rf_newest = None, rf_conflicted = False \<rparr>"
    by (simp add: T_def resolve_family_def family_winner_ties)
  have full: "\<exists>owners. distinct owners \<and> set owners = family_owners T \<and> owners \<noteq> []
      \<and> resolve_family ch red s family = \<lparr> rf_newest = Some (hd owners),
         rf_conflicted = (length owners > 1 \<or> list_ex (\<lambda>p. r_status (reduction_get red s p) = Conflicted) owners) \<rparr>"
    if ne: "T \<noteq> {}"
  proof -
    have "?xs \<noteq> []" using ne by (auto simp: T_def)
    then obtain k owners where w: "fold (\<lambda>(p, k). family_step p k) ?xs None = Some (k, owners)"
      "winner_of ?xs k owners" using fold_family_step by blast
    have "distinct owners" using w(2) by (simp add: winner_of_def)
    moreover note winner_owners [OF w(2)]
    ultimately show ?thesis
      using w(1) unfolding T_def
      by (intro exI [of _ owners]) (simp add: resolve_family_def family_winner_ties split: list.split)
  qed
  have two: "length owners > 1 \<longleftrightarrow> (\<exists>p\<in>set owners. \<exists>q\<in>set owners. p \<noteq> q)"
    if "distinct owners" for owners :: "predicate list"
    using that by (cases owners rule: remdups_adj.cases) auto
  show "\<exists>p\<in>family_owners T. rf_newest (resolve_family ch red s family) = Some p
      \<and> (\<not> rf_conflicted (resolve_family ch red s family) \<longrightarrow> family_owners T = {p})" if ne: "T \<noteq> {}"
  proof -
    from full [OF ne] obtain owners where o: "distinct owners" "set owners = family_owners T" "owners \<noteq> []"
      "resolve_family ch red s family = \<lparr> rf_newest = Some (hd owners),
         rf_conflicted = (length owners > 1 \<or> list_ex (\<lambda>p. r_status (reduction_get red s p) = Conflicted) owners) \<rparr>"
      by blast
    have "\<not> length owners > 1 \<Longrightarrow> set owners = {hd owners}"
      using o(3) by (cases owners) auto
    moreover have "hd owners \<in> family_owners T" using o(2,3) hd_in_set by blast
    ultimately show ?thesis unfolding o(4) using o(2) by auto
  qed
  show "rf_conflicted (resolve_family ch red s family) \<longleftrightarrow>
      (\<exists>p\<in>family_owners T. \<exists>q\<in>family_owners T. p \<noteq> q)
      \<or> (\<exists>p\<in>family_owners T. r_status (reduction_get red s p) = Conflicted)"
  proof (cases "T = {}")
    case True
    then show ?thesis using empty by (simp add: family_owners_def)
  next
    case False
    from full [OF False] obtain owners where o: "distinct owners" "set owners = family_owners T"
      "resolve_family ch red s family = \<lparr> rf_newest = Some (hd owners),
         rf_conflicted = (length owners > 1 \<or> list_ex (\<lambda>p. r_status (reduction_get red s p) = Conflicted) owners) \<rparr>"
      by blast
    show ?thesis unfolding o(3) using two [OF o(1)] o(2) by (simp add: list_ex_iff)
  qed
qed

lemma family_owners_family: "p \<in> family_owners (set (family_ties ch red s family)) \<Longrightarrow> p \<in> set family"
  by (auto simp: family_owners_def family_ties_def split: if_splits)

text \<open>The view of the one member that owns the newest key.\<close>

lemma issue_lifecycle_owner:
  fixes ch red s T defines "T \<equiv> set (family_ties ch red s issue_family)"
  shows "issue_lifecycle ch red s = IssueUnknown \<longleftrightarrow> T = {}"
    and "issue_lifecycle ch red s = IssueViewConflicted \<longleftrightarrow>
      (\<exists>p\<in>family_owners T. \<exists>q\<in>family_owners T. p \<noteq> q)
      \<or> (\<exists>p\<in>family_owners T. r_status (reduction_get red s p) = Conflicted)"
    and "family_owners T = {p} \<Longrightarrow> r_status (reduction_get red s p) \<noteq> Conflicted \<Longrightarrow>
      issue_lifecycle ch red s = (if p = IssueClosed then IssueViewClosed
        else if p = IssueReopened then IssueViewReopened else IssueViewOpen)"
proof -
  note rf = resolve_family_cases [of ch red s issue_family, folded T_def]
  have fam: "p \<in> family_owners T \<Longrightarrow> p = IssueOpen \<or> p = IssueClosed \<or> p = IssueReopened" for p
    using family_owners_family [of p ch red s issue_family] by (auto simp: T_def issue_family_def)
  show "issue_lifecycle ch red s = IssueUnknown \<longleftrightarrow> T = {}"
  proof (cases "T = {}")
    case True
    then show ?thesis using rf(1) by (simp add: issue_lifecycle_def Let_def)
  next
    case False
    then obtain p where p: "p \<in> family_owners T" "rf_newest (resolve_family ch red s issue_family) = Some p"
      using rf(2) by blast
    from fam [OF p(1)] show ?thesis
      using False by (elim disjE) (simp_all add: issue_lifecycle_def Let_def p(2))
  qed
  have "T \<noteq> {}" if "rf_conflicted (resolve_family ch red s issue_family)"
    using that rf(1) by auto
  then show "issue_lifecycle ch red s = IssueViewConflicted \<longleftrightarrow>
      (\<exists>p\<in>family_owners T. \<exists>q\<in>family_owners T. p \<noteq> q)
      \<or> (\<exists>p\<in>family_owners T. r_status (reduction_get red s p) = Conflicted)"
    unfolding rf(3) [symmetric]
    by (auto simp: issue_lifecycle_def Let_def split: option.splits predicate.splits)
  assume one: "family_owners T = {p}" and nc: "r_status (reduction_get red s p) \<noteq> Conflicted"
  have "\<not> rf_conflicted (resolve_family ch red s issue_family)" unfolding rf(3) one using nc by auto
  moreover have "T \<noteq> {}" using one by (auto simp: family_owners_def)
  ultimately have new: "rf_newest (resolve_family ch red s issue_family) = Some p"
    using rf(2) one by simp
  have nf: "\<not> rf_conflicted (resolve_family ch red s issue_family)" by fact
  have "p = IssueOpen \<or> p = IssueClosed \<or> p = IssueReopened" using fam one by blast
  then show "issue_lifecycle ch red s = (if p = IssueClosed then IssueViewClosed
        else if p = IssueReopened then IssueViewReopened else IssueViewOpen)"
    by (elim disjE) (simp_all add: issue_lifecycle_def Let_def new nf)
qed

section \<open>The lifecycle of reduced rows\<close>

definition tie_row :: "chrono \<Rightarrow> assertion \<Rightarrow> tie_key" where
  "tie_row ch a = (ordering_instant ch (a_observed_at a), sr_revision (a_source_ref a))"

lemma tie_of_head [simp]: "tie_of ch (head_of a) = tie_row ch a"
  by (simp add: tie_of_def tie_row_def assertion_order_key_def)

lemma order_key_tie:
  "assertion_order_key ch a \<le> assertion_order_key ch b \<Longrightarrow> tie_row ch a \<le> tie_row ch b"
  "tie_row ch a < tie_row ch b \<Longrightarrow> assertion_order_key ch a < assertion_order_key ch b"
  by (auto simp: assertion_order_key_def tie_row_def)

lemma family_ties_reduce:
  assumes "\<And>p. p \<in> set family \<Longrightarrow> \<not> id_collision (admissible as) (as_token s, p)"
  shows "set (family_ties ch (reduce ch as) s family) =
    {(p, tie_row ch a) | p a. p \<in> set family \<and> newest ch (group_of as (as_token s, p)) a}"
proof -
  have "(if live (reduction_get (reduce ch as) s p)
         then (\<lambda>h. (p, tie_of ch h)) ` set (r_current_heads (reduction_get (reduce ch as) s p)) else {})
      = {(p, tie_row ch a) | a. newest ch (group_of as (as_token s, p)) a}"
    if p: "p \<in> set family" for p
  proof (cases "map_of (reduce ch as) (as_token s, p)")
    case None
    then have "group_of as (as_token s, p) = {}" by (simp add: map_of_reduce rows_of_empty split: if_splits)
    then show ?thesis using None by (simp add: reduction_get_def unknown_reduced_def live_def newest_def)
  next
    case (Some r)
    have "live r" using reduce_status [OF Some] by (simp add: live_def)
    then show ?thesis
      using reduce_heads(1) [OF Some assms [OF p]] Some
      by (simp add: reduction_get_def image_image) blast
  qed
  moreover have "set (family_ties ch (reduce ch as) s family) =
      (\<Union>p\<in>set family. if live (reduction_get (reduce ch as) s p)
         then (\<lambda>h. (p, tie_of ch h)) ` set (r_current_heads (reduction_get (reduce ch as) s p)) else {})"
    unfolding family_ties_def set_concat set_map image_image
    by (intro SUP_cong refl) simp
  ultimately have "set (family_ties ch (reduce ch as) s family) =
      (\<Union>p\<in>set family. {(p, tie_row ch a) | a. newest ch (group_of as (as_token s, p)) a})"
    by (simp only: cong: SUP_cong)
  then show ?thesis by blast
qed

lemma newest_exists:
  assumes "finite R" "a \<in> R"
  obtains b where "newest ch R b" "lineage_key_of b = lineage_key_of a"
    "assertion_order_key ch a \<le> assertion_order_key ch b"
proof -
  let ?L = "{b \<in> R. lineage_key_of b = lineage_key_of a}"
  have "finite ?L" "?L \<noteq> {}" using assms by auto
  then have "Max (assertion_order_key ch ` ?L) \<in> assertion_order_key ch ` ?L" by (intro Max_in) auto
  then obtain b where b: "b \<in> ?L" "Max (assertion_order_key ch ` ?L) = assertion_order_key ch b" by blast
  have "\<forall>c\<in>?L. assertion_order_key ch c \<le> assertion_order_key ch b"
    unfolding b(2) [symmetric] using \<open>finite ?L\<close> by (intro ballI Max_ge) auto
  then show thesis using that [of b] assms(2) b(1) by (auto simp: newest_def)
qed

lemma finite_group_of [simp]: "finite (group_of as k)"
  by (simp add: group_of_def)

lemma unit_predicates_agree:
  assumes "a \<in> admissible as" "a_predicate a \<in> {IssueOpen, IssueClosed, IssueReopened, PrOpen, PrClosedUnmerged, OwnerAcceptancePresent}"
  shows "a_value a = Unit"
  using assms by (auto simp: admitted_input_iff)

text \<open>A group of a unit-valued predicate is conflicted by identities or edges only.\<close>

lemma unit_group_status:
  assumes "p \<in> {IssueOpen, IssueClosed, IssueReopened, PrOpen, PrClosedUnmerged, OwnerAcceptancePresent}"
    and "\<not> id_collision (admissible as) (t, p)" "\<not> edge_contradiction ch (group_of as (t, p))"
    and "as_token s = t"
  shows "r_status (reduction_get (reduce ch as) s p) \<noteq> Conflicted"
proof -
  have "a_value a = Unit" if "a \<in> group_of as (t, p)" for a
    using that assms(1) unit_predicates_agree [of a as] by (auto simp: group_of_def group_key_of_def)
  then have "\<not> revision_contradiction ch (group_of as (t, p))" "\<not> lineage_disagreement ch (group_of as (t, p))"
    by (auto simp: revision_contradiction_def lineage_disagreement_def values_agree_def)
  then show ?thesis
    using assms reduce_status [of ch as "(t, p)"]
    by (auto simp: reduction_get_def unknown_reduced_def split: option.split)
qed

definition lifecycle_view_of :: "predicate \<Rightarrow> issue_lifecycle_view" where
  "lifecycle_view_of p = (if p = IssueClosed then IssueViewClosed
     else if p = IssueReopened then IssueViewReopened else IssueViewOpen)"

lemma newest_observation_wins:
  assumes cons: "ids_consistent (admissible as)"
    and a: "a \<in> admissible as" "a_predicate a \<in> set issue_family" "a_subject a = s"
    and late: "\<And>b. b \<in> admissible as \<Longrightarrow> as_token (a_subject b) = as_token s \<Longrightarrow>
        a_predicate b \<in> set issue_family \<Longrightarrow> b \<noteq> a \<Longrightarrow> tie_row ch b < tie_row ch a"
    and edge: "\<not> edge_contradiction ch (group_of as (group_key_of a))"
  shows "issue_lifecycle ch (reduce ch as) s = lifecycle_view_of (a_predicate a)"
proof -
  let ?p = "a_predicate a"
  let ?T = "set (family_ties ch (reduce ch as) s issue_family)"
  note coll = ids_consistent_no_collision [OF cons]
  have T: "?T = {(p, tie_row ch b) | p b. p \<in> set issue_family \<and> newest ch (group_of as (as_token s, p)) b}"
    by (rule family_ties_reduce) (rule coll)
  have mine: "a \<in> group_of as (as_token s, ?p)" using a by (simp add: group_of_def group_key_of_def)
  have "newest ch (group_of as (as_token s, ?p)) a"
    using mine late a order_key_tie(2)
    by (auto simp: newest_def group_of_def group_key_of_def) (metis order.refl less_imp_le)
  then have aT: "(?p, tie_row ch a) \<in> ?T" unfolding T using a by blast
  have others: "k < tie_row ch a" if "(q, k) \<in> ?T" "(q, k) \<noteq> (?p, tie_row ch a)" for q k
  proof -
    obtain b where b: "q \<in> set issue_family" "newest ch (group_of as (as_token s, q)) b" "k = tie_row ch b"
      using \<open>(q, k) \<in> ?T\<close> unfolding T by blast
    then have "b \<in> admissible as" "as_token (a_subject b) = as_token s" "a_predicate b = q"
      by (auto simp: newest_def group_of_def group_key_of_def)
    then show ?thesis using late [of b] b that(2) by auto
  qed
  have own: "family_owners ?T = {?p}"
  proof (intro equalityI subsetI)
    fix q assume "q \<in> family_owners ?T"
    then obtain k where k: "(q, k) \<in> ?T" "\<forall>(p, j)\<in>?T. j \<le> k"
      by (auto simp: family_owners_def simp del: split_paired_Ex)
    then have "tie_row ch a \<le> k" using aT by auto
    then show "q \<in> {?p}" using others [OF k(1)] by (metis leD insertI1 prod.inject)
  next
    fix q assume "q \<in> {?p}"
    moreover have "\<forall>(p, j)\<in>?T. j \<le> tie_row ch a" using others by (force intro: less_imp_le)
    ultimately show "q \<in> family_owners ?T" using aT unfolding family_owners_def by blast
  qed
  have "r_status (reduction_get (reduce ch as) s ?p) \<noteq> Conflicted"
    using a edge coll by (intro unit_group_status) (auto simp: issue_family_def group_key_of_def)
  then show ?thesis
    using issue_lifecycle_owner(3) [OF own] by (simp add: lifecycle_view_of_def)
qed

lemma get_values_origin:
  assumes "v \<in> set (r_values (reduction_get (reduce ch as) s p))"
  shows "r_status (reduction_get (reduce ch as) s p) = Current
    \<and> (\<exists>a\<in>group_of as (as_token s, p). a_value a = v)"
proof (cases "map_of (reduce ch as) (as_token s, p)")
  case None
  then show ?thesis using assms by (simp add: reduction_get_def unknown_reduced_def)
next
  case (Some r)
  have cur: "r_status r = Current" using assms Some reduce_values(2) [OF Some]
    by (cases "r_status r = Current") (auto simp: reduction_get_def)
  then show ?thesis
    using reduce_values(1) [OF Some cur] assms Some by (auto simp: reduction_get_def newest_def)
qed

lemma commit_value_nonempty:
  assumes "a \<in> admissible as" "a_value a = CommitSha sha"
  shows "sha \<noteq> []"
  using assms by (cases "a_predicate a") (auto simp: admitted_input_iff)

lemma commit_evidence:
  assumes "list_ex is_commit_sha (r_values (reduction_get (reduce ch as) s p))"
  shows "\<exists>a\<in>group_of as (as_token s, p). \<exists>sha. a_value a = CommitSha sha \<and> sha \<noteq> []"
proof -
  obtain v where v: "v \<in> set (r_values (reduction_get (reduce ch as) s p))" "is_commit_sha v"
    using assms by (auto simp: list_ex_iff)
  then obtain a where a: "a \<in> group_of as (as_token s, p)" "a_value a = v"
    using get_values_origin by blast
  then obtain sha where "v = CommitSha sha" using v(2) by (cases v) auto
  then show ?thesis using a commit_value_nonempty [of a as sha] by (auto simp: group_of_def)
qed

section \<open>Properties of the views\<close>

text \<open>
  The lifecycle of an issue is decided by the newest key \<open>(instant, revision)\<close> among
  the current heads of its three predicates: unknown iff there is no head, conflicted iff
  two predicates own the newest key or the owner is itself conflicted, and otherwise the
  view of the one owner, whatever the older heads say.
\<close>

lemma issue_lifecycle_law:
  "let T = set (family_ties ch red s issue_family); owners = family_owners T
   in (issue_lifecycle ch red s = IssueUnknown \<longleftrightarrow> T = {})
    \<and> (issue_lifecycle ch red s = IssueViewConflicted \<longleftrightarrow>
        (\<exists>p\<in>owners. \<exists>q\<in>owners. p \<noteq> q) \<or> (\<exists>p\<in>owners. r_status (reduction_get red s p) = Conflicted))
    \<and> (issue_lifecycle ch red s \<in> {IssueUnknown, IssueViewConflicted}
       \<or> (\<exists>p. owners = {p} \<and> issue_lifecycle ch red s = lifecycle_view_of p))"
proof -
  let ?T = "set (family_ties ch red s issue_family)"
  note own = issue_lifecycle_owner [of ch red s]
  have "issue_lifecycle ch red s \<in> {IssueUnknown, IssueViewConflicted}
       \<or> (\<exists>p. family_owners ?T = {p} \<and> issue_lifecycle ch red s = lifecycle_view_of p)"
  proof (cases "issue_lifecycle ch red s \<in> {IssueUnknown, IssueViewConflicted}")
    case False
    then have ne: "?T \<noteq> {}" and nc: "\<not> rf_conflicted (resolve_family ch red s issue_family)"
      using own(1,2) resolve_family_cases(3) [of ch red s issue_family] by auto
    from resolve_family_cases(2) [OF ne] nc obtain p where p: "family_owners ?T = {p}" by blast
    then have "r_status (reduction_get red s p) \<noteq> Conflicted" using False own(2) by auto
    then show ?thesis using own(3) [OF p] p by (simp add: lifecycle_view_of_def)
  qed simp
  then show ?thesis using own(1,2) unfolding Let_def by blast
qed

text \<open>
  The newest observation wins: if an admitted lifecycle row of an issue is strictly
  newer, by instant and source revision, than every other admitted lifecycle row of that
  issue, identities are consistent and no supersession edge of its group points forward,
  then the issue's lifecycle is what that row says.
\<close>

lemma newest_observation_decides:
  assumes "ids_consistent (set (admitted_input as))"
    and "a \<in> set (admitted_input as)" "a_predicate a \<in> {IssueOpen, IssueClosed, IssueReopened}"
    and "\<forall>b\<in>set (admitted_input as). as_token (a_subject b) = as_token (a_subject a)
           \<and> a_predicate b \<in> {IssueOpen, IssueClosed, IssueReopened} \<and> b \<noteq> a
           \<longrightarrow> tie_row ch b < tie_row ch a"
    and "\<not> edge_contradiction ch (group_of as (group_key_of a))"
  shows "issue_lifecycle ch (reduce ch as) (a_subject a) = lifecycle_view_of (a_predicate a)"
  using assms by (intro newest_observation_wins) (auto simp: issue_family_def)

definition demo_closed :: assertion where
  "demo_closed = demo_row_later\<lparr> a_predicate := IssueClosed \<rparr>"

lemma newest_observation_decides_witness:
  "issue_lifecycle demo_chrono (reduce demo_chrono [demo_closed, demo_row]) (SubjectRef ''o/r'' (Issue 7)) = IssueViewClosed"
proof -
  have "issue_lifecycle demo_chrono (reduce demo_chrono [demo_closed, demo_row]) (a_subject demo_closed)
      = lifecycle_view_of (a_predicate demo_closed)"
    by (rule newest_observation_decides) code_simp+
  then show ?thesis
    by (simp add: demo_closed_def demo_row_later_def demo_row_def lifecycle_view_of_def)
qed

text \<open>
  No implementation without evidence: an issue reads as implemented only if an
  admitted row carries a non-empty commit SHA, either as the issue's implementation or as
  the merge of a pull request currently linked to it whose lifecycle is merged.
\<close>

lemma implementation_needs_evidence:
  assumes "implementation_present ch (reduce ch as) issue"
  shows "\<exists>a\<in>set (admitted_input as). \<exists>sha. a_value a = CommitSha sha \<and> sha \<noteq> []
    \<and> (group_key_of a = (as_token issue, ImplementationPresent)
     \<or> (\<exists>object\<in>set (linked_prs (reduce ch as) issue).
          group_key_of a = (as_token (pr_subject issue object), PrMerged)
          \<and> pr_lifecycle ch (reduce ch as) (pr_subject issue object) = PrViewMerged))"
proof -
  let ?red = "reduce ch as"
  consider "list_ex is_commit_sha (r_values (reduction_get ?red issue ImplementationPresent))"
    | "linked_merged_prs ch ?red issue \<noteq> []"
    using assms by (auto simp: implementation_present_def Let_def)
  then show ?thesis
  proof cases
    case 1
    from commit_evidence [OF this] show ?thesis by (auto simp: group_of_def)
  next
    case 2
    then obtain object where o: "object \<in> set (linked_prs ?red issue)"
      "pr_lifecycle ch ?red (pr_subject issue object) = PrViewMerged"
      "list_ex is_commit_sha (r_values (reduction_get ?red (pr_subject issue object) PrMerged))"
      by (auto simp: linked_merged_prs_def filter_empty_conv Let_def)
    from commit_evidence [OF o(3)] o(1,2) show ?thesis by (auto simp: group_of_def)
  qed
qed

definition demo_implemented :: assertion where
  "demo_implemented = demo_row\<lparr> a_predicate := ImplementationPresent, a_value := CommitSha ''abc'' \<rparr>"

lemma implementation_needs_evidence_witness:
  "implementation_present demo_chrono (reduce demo_chrono [demo_implemented]) (SubjectRef ''o/r'' (Issue 7))
   \<and> (\<exists>a\<in>set (admitted_input [demo_implemented]). \<exists>sha. a_value a = CommitSha sha \<and> sha \<noteq> [])"
proof -
  have present: "implementation_present demo_chrono (reduce demo_chrono [demo_implemented]) (SubjectRef ''o/r'' (Issue 7))"
    by code_simp
  from implementation_needs_evidence [OF this] present show ?thesis by blast
qed

end
