(* ===== verification/Truth_Handoff.thy ===== *)
theory Truth_Handoff
  imports Truth_Lifecycle
begin

text \<open>
  Stale handoff claims, \<open>crates/tachi-params/src/current_truth/handoff.rs\<close>: a claim is
  classified against the current heads of its predicate, or of its whole family when the
  predicate belongs to a lifecycle. The lemmas compare the family classification with the
  reducer's own family resolution. Field \<open>f\<close> of \<open>HandoffClaimBindingV1\<close> is \<open>b_f\<close>, of
  \<open>HandoffPacketV1\<close> is \<open>hp_f\<close>, of \<open>HandoffClaimStalenessV1\<close> is \<open>st_f\<close>.
\<close>

section \<open>Claims and their classification\<close>

record claim_binding =
  b_subject :: subject_ref
  b_predicate :: predicate
  b_head :: evidence_head

record handoff_packet =
  hp_handoff_id :: string
  hp_generated_at :: string
  hp_repo :: string
  hp_claim_bindings :: "claim_binding list"

datatype stale_reason = SupersededByNewerHead | NowConflicted | NoCurrentHead

record claim_staleness =
  st_binding :: claim_binding
  st_stale :: bool
  st_reason :: "stale_reason option"
  st_replacement_head :: "evidence_head option"

record staleness_report =
  sr_handoff_id :: string
  sr_claims :: "claim_staleness list"

definition stale_claim_count :: "staleness_report \<Rightarrow> nat" where
  "stale_claim_count report = length (filter st_stale (sr_claims report))"

type_synonym verdict = "bool \<times> stale_reason option \<times> evidence_head option"

definition classify_claim :: "chrono \<Rightarrow> claim_binding \<Rightarrow> reduced_predicate \<Rightarrow> verdict" where
  "classify_claim ch binding r =
     (case r_status r of
        Conflicted \<Rightarrow> (True, Some NowConflicted, None)
      | Current \<Rightarrow>
          (case max_by_key (head_order_key ch) (r_current_heads r) of
             None \<Rightarrow> (True, Some NoCurrentHead, None)
           | Some head \<Rightarrow>
               if tie_of ch head = tie_of ch (b_head binding) then (False, None, None)
               else (True, Some SupersededByNewerHead, Some head))
      | _ \<Rightarrow> (True, Some NoCurrentHead, None))"

definition lifecycle_family :: "predicate \<Rightarrow> predicate list option" where
  "lifecycle_family p =
     (if p \<in> set issue_family then Some issue_family
      else if p \<in> set pr_family then Some pr_family else None)"

text \<open>
  The accumulators of the family scan: the newest full key and its head, the newest
  \<open>(instant, revision)\<close> with its owners, and whether some member is current.
\<close>

record family_scan =
  fs_newest :: "order_key option"
  fs_newest_head :: "evidence_head option"
  fs_newest_tie :: "tie_key option"
  fs_owners :: "predicate list"
  fs_any_current :: bool

definition scan_head :: "chrono \<Rightarrow> predicate \<Rightarrow> evidence_head \<Rightarrow> family_scan \<Rightarrow> family_scan" where
  "scan_head ch p h s =
    (let key = head_order_key ch h; tie = tie_of ch h;
         s = (if (case fs_newest s of None \<Rightarrow> True | Some best \<Rightarrow> key > best)
              then s\<lparr> fs_newest := Some key, fs_newest_head := Some h \<rparr> else s)
     in case fs_newest_tie s of
          None \<Rightarrow> s\<lparr> fs_newest_tie := Some tie, fs_owners := [p] \<rparr>
        | Some best \<Rightarrow>
            if tie > best then s\<lparr> fs_newest_tie := Some tie, fs_owners := [p] \<rparr>
            else if tie = best \<and> p \<notin> set (fs_owners s) then s\<lparr> fs_owners := fs_owners s @ [p] \<rparr>
            else s)"

definition scan_member :: "chrono \<Rightarrow> reduction \<Rightarrow> subject_ref \<Rightarrow> predicate \<Rightarrow> family_scan \<Rightarrow> family_scan" where
  "scan_member ch red subj p s =
    (let r = reduction_get red subj p
     in if live r then
          fold (scan_head ch p) (r_current_heads r)
            (if r_status r = Current then s\<lparr> fs_any_current := True \<rparr> else s)
        else s)"

definition scan_family :: "chrono \<Rightarrow> reduction \<Rightarrow> subject_ref \<Rightarrow> predicate list \<Rightarrow> family_scan" where
  "scan_family ch red subj family = fold (scan_member ch red subj) family
     \<lparr> fs_newest = None, fs_newest_head = None, fs_newest_tie = None, fs_owners = [], fs_any_current = False \<rparr>"

definition classify_lifecycle_claim ::
  "chrono \<Rightarrow> claim_binding \<Rightarrow> reduction \<Rightarrow> predicate list \<Rightarrow> verdict" where
  "classify_lifecycle_claim ch binding red family =
    (let s = scan_family ch red (b_subject binding) family;
         family_conflicted = (length (fs_owners s) > 1
           \<or> list_ex (\<lambda>p. r_status (reduction_get red (b_subject binding) p) = Conflicted) (fs_owners s))
     in if family_conflicted then (True, Some NowConflicted, None)
        else case (fs_newest s, fs_newest_tie s) of
               (None, _) \<Rightarrow> (True, Some NoCurrentHead, None)
             | (Some _, Some tie) \<Rightarrow>
                 if tie = tie_of ch (b_head binding) \<or> \<not> fs_any_current s then (False, None, None)
                 else (True, Some SupersededByNewerHead, fs_newest_head s)
             | (Some _, None) \<Rightarrow> (True, Some SupersededByNewerHead, fs_newest_head s))"

definition evaluate_handoff_staleness :: "chrono \<Rightarrow> handoff_packet \<Rightarrow> reduction \<Rightarrow> staleness_report" where
  "evaluate_handoff_staleness ch packet red =
     \<lparr> sr_handoff_id = hp_handoff_id packet,
       sr_claims = map (\<lambda>binding.
          let (stale, reason, head) =
            (case lifecycle_family (b_predicate binding) of
               Some family \<Rightarrow> classify_lifecycle_claim ch binding red family
             | None \<Rightarrow> classify_claim ch binding (reduction_get red (b_subject binding) (b_predicate binding)))
          in \<lparr> st_binding = binding, st_stale = stale, st_reason = reason, st_replacement_head = head \<rparr>)
        (hp_claim_bindings packet) \<rparr>"

section \<open>Parity with the reducer's resolution\<close>

definition scan_winner :: "family_scan \<Rightarrow> (tie_key \<times> predicate list) option" where
  "scan_winner s = map_option (\<lambda>t. (t, fs_owners s)) (fs_newest_tie s)"

lemma scan_head_winner: "scan_winner (scan_head ch p h s) = family_step p (tie_of ch h) (scan_winner s)"
  by (auto simp: scan_head_def scan_winner_def family_step_def Let_def split: option.splits)

lemma scan_heads_winner:
  "scan_winner (fold (scan_head ch p) hs s) = fold (\<lambda>h. family_step p (tie_of ch h)) hs (scan_winner s)"
  by (induction hs arbitrary: s) (simp_all add: scan_head_winner)

lemma scan_member_winner:
  "scan_winner (scan_member ch red subj p s) =
     (let r = reduction_get red subj p
      in if live r then fold (\<lambda>h. family_step p (tie_of ch h)) (r_current_heads r) (scan_winner s) else scan_winner s)"
  by (simp add: scan_member_def scan_heads_winner Let_def) (simp add: scan_winner_def)

lemma scan_family_winner: "scan_winner (scan_family ch red subj family) = family_winner ch red subj family"
proof -
  have "scan_winner (fold (scan_member ch red subj) fam s) =
     fold (\<lambda>p w. let r = reduction_get red subj p
                  in if live r then fold (\<lambda>h. family_step p (tie_of ch h)) (r_current_heads r) w else w)
       fam (scan_winner s)" for fam s
    by (induction fam arbitrary: s) (simp_all add: scan_member_winner)
  then show ?thesis by (simp add: scan_family_def family_winner_def scan_winner_def)
qed

text \<open>The newest key is the maximum, its head carries it, and it refines the newest tie.\<close>

definition scan_inv :: "chrono \<Rightarrow> (predicate \<times> evidence_head) list \<Rightarrow> family_scan \<Rightarrow> bool" where
  "scan_inv ch xs s \<longleftrightarrow>
     (case fs_newest_head s of
        None \<Rightarrow> fs_newest s = None \<and> fs_newest_tie s = None \<and> fs_owners s = [] \<and> xs = []
      | Some h \<Rightarrow> fs_newest s = Some (head_order_key ch h) \<and> fs_newest_tie s = Some (tie_of ch h)
          \<and> h \<in> snd ` set xs \<and> (\<forall>(p, g)\<in>set xs. head_order_key ch g \<le> head_order_key ch h))"

lemma tie_le: "head_order_key ch g \<le> head_order_key ch h \<Longrightarrow> tie_of ch g \<le> tie_of ch h"
  by (auto simp: tie_of_def head_order_key_def)

lemma tie_less: "tie_of ch g < tie_of ch h \<Longrightarrow> head_order_key ch g < head_order_key ch h"
  using tie_le [of ch h g] by (meson not_le)

lemma scan_head_inv: "scan_inv ch xs s \<Longrightarrow> scan_inv ch (xs @ [(p, h)]) (scan_head ch p h s)"
proof (cases "fs_newest_head s")
  case None
  assume "scan_inv ch xs s"
  then show ?thesis using None by (simp add: scan_inv_def scan_head_def)
next
  case (Some g)
  assume inv: "scan_inv ch xs s"
  then have g: "fs_newest s = Some (head_order_key ch g)" "fs_newest_tie s = Some (tie_of ch g)"
    "g \<in> snd ` set xs" "\<forall>(p, f)\<in>set xs. head_order_key ch f \<le> head_order_key ch g"
    using Some by (simp_all add: scan_inv_def)
  show ?thesis
  proof (cases "head_order_key ch h > head_order_key ch g")
    case True
    then have "tie_of ch g \<le> tie_of ch h" by (intro tie_le less_imp_le)
    then show ?thesis using True g Some
      by (auto simp: scan_inv_def scan_head_def Let_def dest: order.trans [OF _ less_imp_le])
  next
    case False
    then have "\<not> tie_of ch h > tie_of ch g" using tie_less by blast
    then show ?thesis using False g Some
      by (auto simp: scan_inv_def scan_head_def Let_def)
  qed
qed

definition family_heads :: "reduction \<Rightarrow> subject_ref \<Rightarrow> predicate list \<Rightarrow> (predicate \<times> evidence_head) list" where
  "family_heads red subj family =
     concat (map (\<lambda>p. if live (reduction_get red subj p)
                       then map (Pair p) (r_current_heads (reduction_get red subj p)) else []) family)"

lemma family_ties_heads: "family_ties ch red subj family = map (\<lambda>(p, h). (p, tie_of ch h)) (family_heads red subj family)"
  by (induction family) (simp_all add: family_ties_def family_heads_def)

lemma scan_heads_inv:
  "scan_inv ch xs s \<Longrightarrow> scan_inv ch (xs @ map (Pair p) hs) (fold (scan_head ch p) hs s)"
proof (induction hs arbitrary: xs s)
  case (Cons h hs)
  from Cons.IH [OF scan_head_inv [OF Cons.prems, of p h]] show ?case by simp
qed simp

lemma scan_family_inv: "scan_inv ch (family_heads red subj family) (scan_family ch red subj family)"
proof -
  have "scan_inv ch xs s \<Longrightarrow> scan_inv ch (xs @ family_heads red subj fam) (fold (scan_member ch red subj) fam s)" for xs fam s
  proof (induction fam arbitrary: xs s)
    case Nil
    then show ?case by (simp add: family_heads_def)
  next
    case (Cons p fam)
    let ?r = "reduction_get red subj p"
    define s' where "s' = (if r_status ?r = Current then s\<lparr> fs_any_current := True \<rparr> else s)"
    have "scan_inv ch xs s'" using Cons.prems
      by (cases "fs_newest_head s") (simp_all add: s'_def scan_inv_def)
    note heads = scan_heads_inv [OF this, of p "r_current_heads ?r"]
    have "scan_member ch red subj p s = (if live ?r then fold (scan_head ch p) (r_current_heads ?r) s' else s)"
      by (simp add: scan_member_def s'_def Let_def)
    then have "scan_inv ch (xs @ (if live ?r then map (Pair p) (r_current_heads ?r) else [])) (scan_member ch red subj p s)"
      using heads Cons.prems by simp
    from Cons.IH [OF this] show ?case by (simp add: family_heads_def)
  qed
  from this [of "[]"] show ?thesis by (simp add: scan_family_def scan_inv_def)
qed

lemma fold_any_current [simp]: "fs_any_current (fold (scan_head ch p) hs s) = fs_any_current s"
  by (induction hs arbitrary: s) (simp_all add: scan_head_def Let_def split: option.split)

lemma scan_any_current:
  "fs_any_current (scan_family ch red subj family) \<longleftrightarrow> (\<exists>p\<in>set family. r_status (reduction_get red subj p) = Current)"
proof -
  have "fs_any_current (fold (scan_member ch red subj) fam s) \<longleftrightarrow>
      fs_any_current s \<or> (\<exists>p\<in>set fam. r_status (reduction_get red subj p) = Current)" for fam s
    by (induction fam arbitrary: s) (auto simp: scan_member_def live_def Let_def)
  then show ?thesis by (simp add: scan_family_def)
qed

lemma scan_conflict:
  "(length (fs_owners (scan_family ch red subj family)) > 1
     \<or> list_ex (\<lambda>p. r_status (reduction_get red subj p) = Conflicted) (fs_owners (scan_family ch red subj family)))
   \<longleftrightarrow> rf_conflicted (resolve_family ch red subj family)"
proof (cases "fs_newest_tie (scan_family ch red subj family)")
  case None
  then have "fs_owners (scan_family ch red subj family) = []"
    using scan_family_inv [of ch red subj family] by (auto simp: scan_inv_def split: option.splits)
  then show ?thesis
    using None scan_family_winner [of ch red subj family] by (simp add: resolve_family_def scan_winner_def)
next
  case (Some t)
  have "family_winner ch red subj family = Some (t, fs_owners (scan_family ch red subj family))"
    unfolding scan_family_winner [symmetric] using Some by (simp add: scan_winner_def)
  then show ?thesis by (simp add: resolve_family_def)
qed

lemma classify_lifecycle_cases:
  fixes ch binding red family
  defines "v \<equiv> classify_lifecycle_claim ch binding red family"
    and "hs \<equiv> family_heads red (b_subject binding) family"
    and "c \<equiv> rf_conflicted (resolve_family ch red (b_subject binding) family)"
  shows "c \<Longrightarrow> v = (True, Some NowConflicted, None)"
    and "\<not> c \<Longrightarrow> hs = [] \<Longrightarrow> v = (True, Some NoCurrentHead, None)"
    and "\<not> c \<Longrightarrow> hs \<noteq> [] \<Longrightarrow> \<exists>(p, h)\<in>set hs.
        r_status (reduction_get red (b_subject binding) p) = Current
      \<and> head_order_key ch h = Max (head_order_key ch ` snd ` set hs)
      \<and> v = (if tie_of ch h = tie_of ch (b_head binding) then (False, None, None)
             else (True, Some SupersededByNewerHead, Some h))"
proof -
  let ?s = "scan_family ch red (b_subject binding) family"
  note inv = scan_family_inv [of ch red "b_subject binding" family, folded hs_def]
  note conflict = scan_conflict [of ch red "b_subject binding" family, folded c_def]
  show "c \<Longrightarrow> v = (True, Some NowConflicted, None)"
    using conflict by (simp add: v_def classify_lifecycle_claim_def Let_def)
  assume nc: "\<not> c"
  show "hs = [] \<Longrightarrow> v = (True, Some NoCurrentHead, None)"
    using conflict nc inv by (auto simp: v_def classify_lifecycle_claim_def scan_inv_def Let_def split: option.splits)
  assume ne: "hs \<noteq> []"
  then obtain h where h: "fs_newest_head ?s = Some h" "fs_newest ?s = Some (head_order_key ch h)"
    "fs_newest_tie ?s = Some (tie_of ch h)" "h \<in> snd ` set hs" "\<forall>(p, g)\<in>set hs. head_order_key ch g \<le> head_order_key ch h"
    using inv by (auto simp: scan_inv_def split: option.splits)
  from h(4) obtain p where p: "(p, h) \<in> set hs" by force
  have "Max (head_order_key ch ` snd ` set hs) = head_order_key ch h"
    using h(4,5) by (intro Max_eqI) auto
  moreover have live: "p \<in> set family" "live (reduction_get red (b_subject binding) p)"
    using p by (auto simp: hs_def family_heads_def split: if_splits)
  moreover have "p \<in> family_owners (set (family_ties ch red (b_subject binding) family))"
  proof -
    have "(p, tie_of ch h) \<in> set (family_ties ch red (b_subject binding) family)"
      using p by (force simp: family_ties_heads hs_def)
    moreover have "\<forall>(q, j)\<in>set (family_ties ch red (b_subject binding) family). j \<le> tie_of ch h"
      using h(5) by (auto simp: family_ties_heads hs_def intro: tie_le)
    ultimately show ?thesis unfolding family_owners_def by blast
  qed
  then have "r_status (reduction_get red (b_subject binding) p) \<noteq> Conflicted"
    using nc unfolding c_def resolve_family_cases(3) by blast
  then have cur: "r_status (reduction_get red (b_subject binding) p) = Current"
    using live(2) by (auto simp: live_def split: reduction_status.splits)
  then have "fs_any_current ?s" using live(1) by (auto simp: scan_any_current)
  ultimately show "\<exists>(p, h)\<in>set hs.
        r_status (reduction_get red (b_subject binding) p) = Current
      \<and> head_order_key ch h = Max (head_order_key ch ` snd ` set hs)
      \<and> v = (if tie_of ch h = tie_of ch (b_head binding) then (False, None, None)
             else (True, Some SupersededByNewerHead, Some h))"
    using p cur conflict nc h(1-3)
    by (intro bexI [of _ "(p, h)"]) (auto simp: v_def classify_lifecycle_claim_def Let_def)
qed

section \<open>Rows outside a group\<close>

lemma reduce_at_group:
  assumes "group_of as k = group_of bs k" "\<not> id_collision (admissible as) k" "\<not> id_collision (admissible bs) k"
  shows "map_of (reduce ch as) k = map_of (reduce ch bs) k"
proof -
  have "rows_of as k = rows_of bs k"
    using distinct_ids_rows [OF assms(2)] distinct_ids_rows [OF assms(3)] assms(1)
    by (intro sorted_distinct_key_unique [of a_assertion_id])
      (simp_all only: sorted_ids_rows set_rows_group)
  then show ?thesis using assms(2,3) by (simp add: map_of_reduce)
qed

lemma resolve_cong:
  assumes "\<And>p. p \<in> set family \<Longrightarrow> reduction_get red s p = reduction_get red' s p"
  shows "scan_family ch red s family = scan_family ch red' s family"
  unfolding scan_family_def
proof (intro fold_cong refl)
  show "scan_member ch red s p = scan_member ch red' s p" if "p \<in> set family" for p
    unfolding scan_member_def assms [OF that] ..
qed

lemma scan_owners_family: "set (fs_owners (scan_family ch red subj family)) \<subseteq> set family"
proof (cases "fs_newest_tie (scan_family ch red subj family)")
  case None
  then show ?thesis
    using scan_family_inv [of ch red subj family] by (auto simp: scan_inv_def split: option.splits)
next
  case (Some t)
  have w: "fold (\<lambda>(p, k). family_step p k) (family_ties ch red subj family) None
      = Some (t, fs_owners (scan_family ch red subj family))"
    unfolding family_winner_ties [symmetric] scan_family_winner [symmetric] using Some by (simp add: scan_winner_def)
  then have "family_ties ch red subj family \<noteq> []" by auto
  from fold_family_step [OF this] w have "winner_of (family_ties ch red subj family) t (fs_owners (scan_family ch red subj family))"
    by simp
  from winner_owners(1) [OF this] show ?thesis using family_owners_family by blast
qed

lemma classify_lifecycle_cong:
  assumes "\<And>p. p \<in> set family \<Longrightarrow> reduction_get red (b_subject b) p = reduction_get red' (b_subject b) p"
  shows "classify_lifecycle_claim ch b red family = classify_lifecycle_claim ch b red' family"
proof -
  note same = resolve_cong [OF assms, of family ch]
  have "list_ex (\<lambda>p. r_status (reduction_get red (b_subject b) p) = Conflicted) (fs_owners (scan_family ch red' (b_subject b) family))
    \<longleftrightarrow> list_ex (\<lambda>p. r_status (reduction_get red' (b_subject b) p) = Conflicted) (fs_owners (scan_family ch red' (b_subject b) family))"
    unfolding list_ex_iff
  proof (intro bex_cong refl)
    fix p assume "p \<in> set (fs_owners (scan_family ch red' (b_subject b) family))"
    then have "p \<in> set family" using scan_owners_family by blast
    then show "r_status (reduction_get red (b_subject b) p) = Conflicted
        \<longleftrightarrow> r_status (reduction_get red' (b_subject b) p) = Conflicted"
      by (simp only: assms)
  qed
  then show ?thesis by (simp add: classify_lifecycle_claim_def same Let_def)
qed

section \<open>Properties of the handoff contract\<close>

text \<open>
  C5: A claim about a lifecycle predicate is classified in parity with the reducer: it is
  stale as conflicted exactly if the reducer's family resolution is conflicted, stale
  without replacement exactly if the family has no live head, and otherwise compared with
  the maximal head of the family, which belongs to a current predicate; the branch for a
  family without a current member is never taken. At the bound position the claim is fresh.
  A head strictly beyond the bound one supersedes it, which is all the comments of the file
  describe. So does a head strictly before it: the code tests for a different position, not
  for a later one, and names an older head the replacement. That cannot happen while the
  bound head is itself among the heads of the family.
\<close>

theorem handoff_family_law:
  "let v = classify_lifecycle_claim ch binding red family; hs = family_heads red (b_subject binding) family
   in if rf_conflicted (resolve_family ch red (b_subject binding) family) then v = (True, Some NowConflicted, None)
      else if hs = [] then v = (True, Some NoCurrentHead, None)
      else \<exists>(p, h)\<in>set hs. r_status (reduction_get red (b_subject binding) p) = Current
        \<and> head_order_key ch h = Max (head_order_key ch ` snd ` set hs)
        \<and> (tie_of ch h = tie_of ch (b_head binding) \<and> v = (False, None, None)
           \<or> tie_of ch (b_head binding) < tie_of ch h \<and> v = (True, Some SupersededByNewerHead, Some h)
           \<or> tie_of ch h < tie_of ch (b_head binding) \<and> b_head binding \<notin> snd ` set hs
             \<and> v = (True, Some SupersededByNewerHead, Some h))"
proof -
  let ?hs = "family_heads red (b_subject binding) family"
  have newest: "b_head binding \<notin> snd ` set ?hs"
    if max: "head_order_key ch h = Max (head_order_key ch ` snd ` set ?hs)" and older: "tie_of ch h < tie_of ch (b_head binding)" for h
  proof
    assume "b_head binding \<in> snd ` set ?hs"
    then have "head_order_key ch (b_head binding) \<le> head_order_key ch h" unfolding max by (intro Max_ge) auto
    then show False using tie_le older leD by blast
  qed
  show ?thesis
  proof (cases "rf_conflicted (resolve_family ch red (b_subject binding) family) \<or> ?hs = []")
    case True
    then show ?thesis using classify_lifecycle_cases(1,2) [of ch red binding family] by (auto simp: Let_def)
  next
    case False
    then obtain p h where h: "(p, h) \<in> set ?hs" "r_status (reduction_get red (b_subject binding) p) = Current"
      "head_order_key ch h = Max (head_order_key ch ` snd ` set ?hs)"
      "classify_lifecycle_claim ch binding red family = (if tie_of ch h = tie_of ch (b_head binding) then (False, None, None)
         else (True, Some SupersededByNewerHead, Some h))"
      using classify_lifecycle_cases(3) [of ch red binding family] by blast
    then show ?thesis
      using False newest [OF h(3)] unfolding Let_def
      by (cases "tie_of ch h" "tie_of ch (b_head binding)" rule: linorder_cases) (auto intro!: bexI [OF _ h(1)])
  qed
qed

text \<open>
  Staleness is specific to the claim: appending rows whose subject tokens no claim of
  the packet is about leaves the packet's report unchanged, as long as identities stay
  consistent.
\<close>

lemma unrelated_evidence_keeps_report:
  assumes "ids_consistent (set (admitted_input (as @ bs)))"
    and "\<forall>b\<in>set bs. \<forall>c\<in>set (hp_claim_bindings packet). as_token (a_subject b) \<noteq> as_token (b_subject c)"
  shows "evaluate_handoff_staleness ch packet (reduce ch (as @ bs)) = evaluate_handoff_staleness ch packet (reduce ch as)"
proof -
  have get: "reduction_get (reduce ch (as @ bs)) (b_subject c) p = reduction_get (reduce ch as) (b_subject c) p"
    if c: "c \<in> set (hp_claim_bindings packet)" for c p
  proof -
    have "group_of (as @ bs) (as_token (b_subject c), p) = group_of as (as_token (b_subject c), p)"
      using assms(2) c by (auto simp: group_of_def admitted_input_def group_key_of_def)
    moreover have "ids_consistent (admissible as)"
      using assms(1) by (auto simp: ids_consistent_def admitted_input_def)
    ultimately have "map_of (reduce ch (as @ bs)) (as_token (b_subject c), p) = map_of (reduce ch as) (as_token (b_subject c), p)"
      using assms(1) by (intro reduce_at_group ids_consistent_no_collision)
    then show ?thesis by (simp add: reduction_get_def)
  qed
  have "(case lifecycle_family (b_predicate c) of
           Some family \<Rightarrow> classify_lifecycle_claim ch c (reduce ch (as @ bs)) family
         | None \<Rightarrow> classify_claim ch c (reduction_get (reduce ch (as @ bs)) (b_subject c) (b_predicate c)))
      = (case lifecycle_family (b_predicate c) of
           Some family \<Rightarrow> classify_lifecycle_claim ch c (reduce ch as) family
         | None \<Rightarrow> classify_claim ch c (reduction_get (reduce ch as) (b_subject c) (b_predicate c)))"
    if c: "c \<in> set (hp_claim_bindings packet)" for c
    using get [OF c] classify_lifecycle_cong [of _ "reduce ch (as @ bs)" c "reduce ch as" ch]
    by (simp split: option.split)
  then show ?thesis
    unfolding evaluate_handoff_staleness_def by simp
qed

definition demo_packet :: handoff_packet where
  "demo_packet = \<lparr> hp_handoff_id = ''h1'', hp_generated_at = ''t0'', hp_repo = ''o/r'',
     hp_claim_bindings = [\<lparr> b_subject = SubjectRef ''o/r'' (Issue 7), b_predicate = IssueOpen, b_head = head_of demo_row \<rparr>] \<rparr>"

definition demo_other_issue :: assertion where
  "demo_other_issue = demo_row_later\<lparr> a_subject := SubjectRef ''o/r'' (Issue 8) \<rparr>"

lemma unrelated_evidence_keeps_report_witness:
  "evaluate_handoff_staleness demo_chrono demo_packet (reduce demo_chrono ([demo_row] @ [demo_other_issue]))
     = evaluate_handoff_staleness demo_chrono demo_packet (reduce demo_chrono [demo_row])"
  by (rule unrelated_evidence_keeps_report) code_simp+

text \<open>
  The last case is real: evaluated against a reduction of the older of two rows, one that
  does not see the row the claim was bound to, the claim is stale and the older head is
  reported as the newer one that replaces it.
\<close>

definition demo_later_packet :: handoff_packet where
  "demo_later_packet = demo_packet\<lparr> hp_claim_bindings :=
     [\<lparr> b_subject = SubjectRef ''o/r'' (Issue 7), b_predicate = IssueOpen, b_head = head_of demo_row_later \<rparr>] \<rparr>"

lemma older_head_supersedes:
  "map (\<lambda>c. (st_stale c, st_reason c, st_replacement_head c))
       (sr_claims (evaluate_handoff_staleness demo_chrono demo_later_packet (reduce demo_chrono [demo_row])))
     = [(True, Some SupersededByNewerHead, Some (head_of demo_row))]
   \<and> tie_of demo_chrono (head_of demo_row) < tie_of demo_chrono (head_of demo_row_later)"
  by (intro conjI; code_simp)

end
