(* ===== verification/Tachi_Json.thy ===== *)
theory Tachi_Json
  imports Tachi_Prelude
begin

text \<open>
  JSON values and the content digest, \<open>crates/memcore/src/canonical_digest.rs\<close>. A value
  has the constructors of \<open>serde_json::Value\<close>, an object is its entries in iteration
  order. The text a value prints as, the reader of that text and the SHA-256 function are
  third-party: they are the fields of the record \<open>codec\<close>.
\<close>

datatype json_number = PosInt nat | NegInt int | Float nat

datatype json =
    JNull | JBool bool | JNumber json_number | JString string
  | JArray "json list" | JObject "(string \<times> json) list"

record codec =
  to_text :: "json \<Rightarrow> string"
  from_text :: "string \<Rightarrow> json option"
  sha256 :: "string \<Rightarrow> 8 word list"

fun canonical_json :: "json \<Rightarrow> json" where
  "canonical_json (JObject m) =
     JObject (fold (\<lambda>(k, v). bt_insert k v) (map (\<lambda>(k, v). (k, canonical_json v)) m) [])"
| "canonical_json (JArray items) = JArray (map canonical_json items)"
| "canonical_json v = v"

definition hex_digit :: "nat \<Rightarrow> char" where
  "hex_digit d = (if d < 10 then char_of (48 + d) else char_of (87 + d))"

definition hex_byte :: "8 word \<Rightarrow> string" where
  "hex_byte b = [hex_digit (unat b div 16), hex_digit (unat b mod 16)]"

definition canonical_json_digest_hex :: "codec \<Rightarrow> json \<Rightarrow> string" where
  "canonical_json_digest_hex cx v = concat (map hex_byte (sha256 cx (to_text cx (canonical_json v))))"

definition canonical_json_eq :: "json \<Rightarrow> json \<Rightarrow> bool" where
  "canonical_json_eq l r \<longleftrightarrow> canonical_json l = canonical_json r"

section \<open>The canonical form\<close>

text \<open>Two values with the same content: objects up to the order of their entries.\<close>

inductive same_content :: "json \<Rightarrow> json \<Rightarrow> bool" where
  refl: "same_content v v"
| sym: "same_content v w \<Longrightarrow> same_content w v"
| trans: "same_content u v \<Longrightarrow> same_content v w \<Longrightarrow> same_content u w"
| array: "list_all2 same_content xs ys \<Longrightarrow> same_content (JArray xs) (JArray ys)"
| entries: "map fst m = map fst n \<Longrightarrow> list_all2 same_content (map snd m) (map snd n) \<Longrightarrow>
    same_content (JObject m) (JObject n)"
| order: "mset m = mset n \<Longrightarrow> distinct (map fst m) \<Longrightarrow> same_content (JObject m) (JObject n)"

fun json_wf :: "json \<Rightarrow> bool" where
  "json_wf (JObject m) \<longleftrightarrow> distinct (map fst m) \<and> (\<forall>(k, v)\<in>set m. json_wf v)"
| "json_wf (JArray items) \<longleftrightarrow> (\<forall>v\<in>set items. json_wf v)"
| "json_wf v \<longleftrightarrow> True"

definition bt_of_list :: "('k::linorder \<times> 'v) list \<Rightarrow> ('k \<times> 'v) list" where
  "bt_of_list m = fold (\<lambda>(k, v). bt_insert k v) m []"

lemma fold_bt_insert_spec:
  "bt_wf m \<Longrightarrow> bt_wf (fold (\<lambda>(k, v). bt_insert k v) xs m)
     \<and> map_of (fold (\<lambda>(k, v). bt_insert k v) xs m) = map_of m ++ map_of (rev xs)"
proof (induction xs arbitrary: m)
  case (Cons x xs)
  obtain k v where x: "x = (k, v)" by (cases x)
  show ?case using Cons.IH [of "bt_insert k v m"] Cons.prems
    by (simp add: x bt_simps) (auto simp: map_add_def fun_eq_iff split: option.split)
qed simp

lemma bt_of_list_wf [simp]: "bt_wf (bt_of_list m)"
  by (simp add: bt_of_list_def fold_bt_insert_spec)

lemma distinct_map_of_rev: "distinct (map fst m) \<Longrightarrow> map_of (rev m) = map_of m"
  using map_of_inject_set [of "rev m" m] by (simp add: rev_map [symmetric])

lemma map_of_bt_of_list: "distinct (map fst m) \<Longrightarrow> map_of (bt_of_list m) = map_of m"
  by (simp add: bt_of_list_def fold_bt_insert_spec distinct_map_of_rev)

lemma set_bt_of_list: "distinct (map fst m) \<Longrightarrow> set (bt_of_list m) = set m"
  using map_of_bt_of_list [of m] map_of_inject_set [OF bt_wf_distinct [OF bt_of_list_wf [of m]], of m]
  by blast

lemma bt_of_list_perm:
  assumes "mset m = mset n" "distinct (map fst m)"
  shows "bt_of_list m = bt_of_list n"
proof -
  have "mset (map fst m) = mset (map fst n)" using assms(1) by simp
  then have n: "distinct (map fst n)" using assms(2) mset_eq_imp_distinct_iff by blast
  have "set m = set n" using assms(1) by (rule mset_eq_setD)
  then have "map_of m = map_of n" using map_of_inject_set [OF assms(2) n] by blast
  then show ?thesis
    by (intro bt_ext) (simp_all add: map_of_bt_of_list assms(2) n)
qed

lemma mset_bt_of_list:
  assumes "distinct (map fst m)"
  shows "mset (bt_of_list m) = mset m"
proof -
  have "distinct (bt_of_list m)" "distinct m"
    using bt_wf_distinct [OF bt_of_list_wf [of m]] assms by (auto simp: distinct_map)
  then show ?thesis using set_eq_iff_mset_eq_distinct set_bt_of_list [OF assms] by blast
qed

lemma canonical_object: "canonical_json (JObject m) = JObject (bt_of_list (map (\<lambda>(k, v). (k, canonical_json v)) m))"
  by (simp add: bt_of_list_def)

lemma map_fst_canonical [simp]: "map fst (map (\<lambda>(k, v). (k, f v)) m) = map fst m"
  by (simp add: comp_def case_prod_unfold)

lemma same_content_canonical: "same_content v w \<Longrightarrow> canonical_json v = canonical_json w"
proof (induction rule: same_content.induct)
  case (array xs ys)
  then have "map canonical_json xs = map canonical_json ys"
    by (induction rule: list_all2_induct) auto
  then show ?case by simp
next
  case (entries m n)
  have "map (\<lambda>(k, v). (k, canonical_json v)) m = map (\<lambda>(k, v). (k, canonical_json v)) n"
    using entries
  proof (induction m arbitrary: n)
    case (Cons p m)
    then show ?case by (cases n) (auto simp: case_prod_unfold)
  qed simp
  then show ?case by (simp only: canonical_object)
next
  case (order m n)
  then show ?case unfolding canonical_object
    by (intro arg_cong [of _ _ JObject] bt_of_list_perm) (simp_all only: map_fst_canonical mset_map)
qed simp_all

lemma list_all2_refl_map: "(\<And>x. x \<in> set xs \<Longrightarrow> R x (f x)) \<Longrightarrow> list_all2 R xs (map f xs)"
  by (induction xs) auto

lemma canonical_same_content: "json_wf v \<Longrightarrow> same_content v (canonical_json v)"
proof (induction v rule: canonical_json.induct)
  case (1 m)
  let ?n = "map (\<lambda>(k, v). (k, canonical_json v)) m"
  have "list_all2 same_content (map snd m) (map snd ?n)"
    using 1 by (auto simp: list_all2_map1 list_all2_map2 case_prod_unfold list_all2_same)
  then have "same_content (JObject m) (JObject ?n)" by (intro same_content.entries) (simp_all only: map_fst_canonical)
  moreover have "distinct (map fst ?n)" using 1(2) by (simp only: map_fst_canonical json_wf.simps)
  then have "same_content (JObject ?n) (JObject (bt_of_list ?n))"
    by (intro same_content.order) (simp_all only: mset_bt_of_list)
  ultimately show ?case unfolding canonical_object by (rule same_content.trans)
next
  case (2 items)
  then show ?case by (auto intro!: same_content.array list_all2_refl_map)
qed (auto intro: same_content.refl)

text \<open>
  C11: The canonical form forgets the order of object entries, at every depth, and nothing
  else: two values whose objects have distinct keys have the same content exactly if
  their canonical forms are equal, and then they have the same digest.
\<close>

theorem canonical_json_exact:
  assumes "json_wf v" "json_wf w"
  shows "(canonical_json_eq v w \<longleftrightarrow> same_content v w)
    \<and> (same_content v w \<longrightarrow> canonical_json_digest_hex cx v = canonical_json_digest_hex cx w)"
proof -
  have "same_content v w" if "canonical_json v = canonical_json w"
    using canonical_same_content [OF assms(1)] canonical_same_content [OF assms(2)] that
    by (metis same_content.sym same_content.trans)
  then show ?thesis
    using same_content_canonical [of v w] by (auto simp: canonical_json_eq_def canonical_json_digest_hex_def)
qed

theorem canonical_json_exact_witness:
  "same_content (JObject [(''b'', JNull), (''a'', JBool True)]) (JObject [(''a'', JBool True), (''b'', JNull)])"
proof -
  have "canonical_json_eq (JObject [(''b'', JNull), (''a'', JBool True)]) (JObject [(''a'', JBool True), (''b'', JNull)])"
    by code_simp
  with canonical_json_exact [of "JObject [(''b'', JNull), (''a'', JBool True)]" "JObject [(''a'', JBool True), (''b'', JNull)]"]
  show ?thesis by simp
qed

end
