(* ===== verification/Truth_Refresh.thy ===== *)
theory Truth_Refresh
  imports Truth_Lifecycle Tachi_Json
begin

text \<open>
  Minting assertions from a GitHub snapshot,
  \<open>crates/tachi-params/src/current_truth/refresh.rs\<close>. The adapter is a parameter, a
  function from a repository to its outcome. Field \<open>f\<close> of \<open>SnapshotIssueV1\<close> is \<open>i_f\<close>,
  of \<open>SnapshotPrV1\<close> is \<open>pr_f\<close>, of \<open>SnapshotObservationV1\<close> is \<open>ob_f\<close>, of
  \<open>GithubRepositoryStateV1\<close> is \<open>g_f\<close>. The lemmas show that minting is a function of the
  snapshot's pull requests as a multiset and that every minted row is admissible.
\<close>

section \<open>Snapshots\<close>

datatype snapshot_issue_state = SnapIssueOpen | SnapIssueClosed

datatype snapshot_pr_state = SnapPrOpen | SnapPrMerged | SnapPrClosedUnmerged

record snapshot_issue =
  i_number :: nat
  i_state :: snapshot_issue_state
  i_updated_at :: string
  i_snapshot_revision :: string
  i_visibility :: visibility

record snapshot_pr =
  pr_number :: nat
  pr_state :: snapshot_pr_state
  pr_merge_commit_sha :: "string option"
  pr_updated_at :: string
  pr_snapshot_revision :: string
  pr_linked_issues :: "nat list"
  pr_visibility :: visibility

datatype observation_kind =
    ObsIssueReopened nat
  | ObsMergeReverted (obs_number: nat) (obs_revert_sha: string) (obs_original_sha: string)

record snapshot_observation =
  ob_kind :: observation_kind
  ob_observed_at :: string
  ob_revision :: string
  ob_visibility :: visibility

record repository_state =
  g_repo :: string
  g_refresh_revision :: string
  g_refreshed_at :: string
  g_issues :: "snapshot_issue list"
  g_pull_requests :: "snapshot_pr list"
  g_observations :: "snapshot_observation list"

datatype refresh_outcome = Fresh repository_state | Unavailable (un_repo: string) (un_reason: string)

definition issue_subject :: "repository_state \<Rightarrow> nat \<Rightarrow> subject_ref" where
  "issue_subject st number = SubjectRef (g_repo st) (Issue number)"

definition state_pr_subject :: "repository_state \<Rightarrow> nat \<Rightarrow> subject_ref" where
  "state_pr_subject st number = SubjectRef (g_repo st) (PullRequest number)"

definition GITHUB_SNAPSHOT_SOURCE_ID :: string where
  "GITHUB_SNAPSHOT_SOURCE_ID = ''github-snapshot-adapter''"

definition GITHUB_SNAPSHOT_ISSUER :: string where
  "GITHUB_SNAPSHOT_ISSUER = ''github-refresh-v1''"

section \<open>Canonical pull requests\<close>

fun visibility_rank :: "visibility \<Rightarrow> nat" where
  "visibility_rank Public = 0"
| "visibility_rank Private = 1"

fun pr_state_rank :: "snapshot_pr_state \<Rightarrow> nat" where
  "pr_state_rank SnapPrOpen = 0"
| "pr_state_rank SnapPrMerged = 1"
| "pr_state_rank SnapPrClosedUnmerged = 2"

type_synonym pr_rank = "nat \<times> string \<times> string \<times> string \<times> nat \<times> nat list"

definition duplicate_rank :: "snapshot_pr \<Rightarrow> pr_rank" where
  "duplicate_rank pr =
     (visibility_rank (pr_visibility pr), pr_snapshot_revision pr, pr_updated_at pr,
      (case pr_merge_commit_sha pr of None \<Rightarrow> [] | Some sha \<Rightarrow> sha),
      pr_state_rank (pr_state pr), remdups_adj (sort (pr_linked_issues pr)))"

definition pr_le :: "snapshot_pr \<Rightarrow> snapshot_pr \<Rightarrow> bool" where
  "pr_le a b \<longleftrightarrow> pr_number a < pr_number b
     \<or> pr_number a = pr_number b \<and> duplicate_rank b \<le> duplicate_rank a"

definition canonical_prs :: "snapshot_pr list \<Rightarrow> snapshot_pr list" where
  "canonical_prs prs = dedup_by_key pr_number (sort_by pr_le prs)"

section \<open>Minting\<close>

fun visibility_token :: "visibility \<Rightarrow> string" where
  "visibility_token Public = ''public''"
| "visibility_token Private = ''private''"

fun issue_state_json :: "snapshot_issue_state \<Rightarrow> json" where
  "issue_state_json SnapIssueOpen = JString ''open''"
| "issue_state_json SnapIssueClosed = JString ''closed''"

fun pr_state_json :: "snapshot_pr_state \<Rightarrow> json" where
  "pr_state_json SnapPrOpen = JString ''open''"
| "pr_state_json SnapPrMerged = JString ''merged''"
| "pr_state_json SnapPrClosedUnmerged = JString ''closed_unmerged''"

text \<open>The merge commit SHA where it is evidenced: an empty one is no evidence.\<close>

definition evidenced_sha :: "snapshot_pr \<Rightarrow> string option" where
  "evidenced_sha pr = (case pr_merge_commit_sha pr of
     None \<Rightarrow> None | Some sha \<Rightarrow> if sha = [] then None else Some sha)"

definition most_restrictive_visibility :: "visibility \<Rightarrow> visibility list \<Rightarrow> visibility" where
  "most_restrictive_visibility base others =
     (if base = Private \<or> list_ex (\<lambda>v. v = Private) others then Private else Public)"

definition composite_issue_revision :: "codec \<Rightarrow> snapshot_issue \<Rightarrow> snapshot_pr list \<Rightarrow> string" where
  "composite_issue_revision cx issue prs =
     (let pr_json = (\<lambda>pr. JObject
            [(''number'', JNumber (PosInt (pr_number pr))),
             (''snapshot_revision'', JString (pr_snapshot_revision pr)),
             (''state'', pr_state_json (pr_state pr)),
             (''visibility'', JString (visibility_token (pr_visibility pr))),
             (''merge_commit_sha'', case evidenced_sha pr of None \<Rightarrow> JNull | Some sha \<Rightarrow> JString sha)]);
          basis = JObject
            [(''issue_snapshot_revision'', JString (i_snapshot_revision issue)),
             (''issue_state'', issue_state_json (i_state issue)),
             (''issue_visibility'', JString (visibility_token (i_visibility issue))),
             (''linked_prs'', JArray (map pr_json prs))]
      in ''composite-'' @ canonical_json_digest_hex cx basis)"

definition composite_observed_at :: "chrono \<Rightarrow> snapshot_issue \<Rightarrow> snapshot_pr list \<Rightarrow> string" where
  "composite_observed_at ch issue prs =
     (case max_by_key (ordering_instant ch) (i_updated_at issue # map pr_updated_at prs) of
        Some at \<Rightarrow> at | None \<Rightarrow> i_updated_at issue)"

definition base_assertion ::
  "subject_ref \<Rightarrow> predicate \<Rightarrow> assertion_value \<Rightarrow> string \<Rightarrow> string \<Rightarrow> visibility \<Rightarrow> assertion" where
  "base_assertion subj p v revision observed_at vis =
     \<lparr> a_assertion_id = [], a_subject = subj, a_predicate = p, a_value = v,
       a_issuer = GITHUB_SNAPSHOT_ISSUER, a_authority_class = GitHubTypedObject,
       a_source_ref = \<lparr> sr_source = GITHUB_SNAPSHOT_SOURCE_ID, sr_revision = revision \<rparr>,
       a_observed_at = observed_at, a_effective_at = observed_at,
       a_supersedes_assertion_id = None, a_evidence_refs = [], a_review_state = Observed,
       a_visibility = vis \<rparr>"

definition links_issue :: "nat \<Rightarrow> snapshot_pr \<Rightarrow> bool" where
  "links_issue n pr \<longleftrightarrow> n \<in> set (pr_linked_issues pr)"

definition newest_merge :: "chrono \<Rightarrow> snapshot_pr list \<Rightarrow> (int \<times> nat \<times> string) option" where
  "newest_merge ch prs = iter_max
     (concat (map (\<lambda>pr. case evidenced_sha pr of
          Some sha \<Rightarrow> [(ordering_instant ch (pr_updated_at pr), pr_number pr, sha)] | None \<Rightarrow> [])
        (filter (\<lambda>pr. pr_state pr = SnapPrMerged) prs)))"

definition mint_issue :: "chrono \<Rightarrow> codec \<Rightarrow> repository_state \<Rightarrow> snapshot_pr list \<Rightarrow> snapshot_issue \<Rightarrow> assertion list" where
  "mint_issue ch cx st prs issue =
     (let subj = issue_subject st (i_number issue);
          linked = filter (links_issue (i_number issue)) prs;
          revision = composite_issue_revision cx issue linked;
          observed_at = composite_observed_at ch issue linked;
          relation_visibility = most_restrictive_visibility (i_visibility issue) (map pr_visibility linked);
          present = (case newest_merge ch linked of Some (_, _, sha) \<Rightarrow> CommitSha sha | None \<Rightarrow> Unit)
      in [base_assertion subj (case i_state issue of SnapIssueOpen \<Rightarrow> IssueOpen | SnapIssueClosed \<Rightarrow> IssueClosed)
            Unit (i_snapshot_revision issue) (i_updated_at issue) (i_visibility issue),
          base_assertion subj ImplementationPrLinked (ObjectRefs (map (PullRequest \<circ> pr_number) linked))
            revision observed_at relation_visibility,
          base_assertion subj ImplementationPresent present revision observed_at (i_visibility issue)])"

definition mint_pr :: "repository_state \<Rightarrow> snapshot_pr \<Rightarrow> assertion" where
  "mint_pr st pr =
     (let (p, v) = (case pr_state pr of
            SnapPrOpen \<Rightarrow> (PrOpen, Unit)
          | SnapPrMerged \<Rightarrow> (PrMerged, case evidenced_sha pr of Some sha \<Rightarrow> CommitSha sha | None \<Rightarrow> Unit)
          | SnapPrClosedUnmerged \<Rightarrow> (PrClosedUnmerged, Unit))
      in base_assertion (state_pr_subject st (pr_number pr)) p v (pr_snapshot_revision pr)
           (pr_updated_at pr) (pr_visibility pr))"

definition mint_observation :: "repository_state \<Rightarrow> snapshot_observation \<Rightarrow> assertion" where
  "mint_observation st ob = (case ob_kind ob of
     ObsIssueReopened number \<Rightarrow>
       base_assertion (issue_subject st number) IssueReopened Unit (ob_revision ob)
         (ob_observed_at ob) (ob_visibility ob)
   | ObsMergeReverted number revert_sha original_sha \<Rightarrow>
       let a = base_assertion (state_pr_subject st number) MergeReverted
                 (if revert_sha = [] then Unit else CommitSha revert_sha) (ob_revision ob)
                 (ob_observed_at ob) (ob_visibility ob)
       in if original_sha \<noteq> [] then a\<lparr> a_evidence_refs := a_evidence_refs a @ [original_sha] \<rparr> else a)"

text \<open>The serde forms of the value vocabulary (externally tagged, snake case).\<close>

fun object_json :: "github_object_ref \<Rightarrow> json" where
  "object_json (Issue n) = JObject [(''issue'', JNumber (PosInt n))]"
| "object_json (PullRequest n) = JObject [(''pull_request'', JNumber (PosInt n))]"
| "object_json (Commit sha) = JObject [(''commit'', JString sha)]"

fun value_json :: "assertion_value \<Rightarrow> json" where
  "value_json Unit = JString ''unit''"
| "value_json (ObjectRef ob) = JObject [(''object_ref'', object_json ob)]"
| "value_json (ObjectRefs obs) = JObject [(''object_refs'', JArray (map object_json obs))]"
| "value_json (CommitSha sha) = JObject [(''commit_sha'', JString sha)]"
| "value_json (HandoffId i) = JObject [(''handoff_id'', JString i)]"
| "value_json (Action k) = JObject [(''action'', JString (open_action_as_str k))]"

fun authority_debug :: "authority_class \<Rightarrow> string" where
  "authority_debug GitHubTypedObject = ''GitHubTypedObject''"
| "authority_debug OwnerDecision = ''OwnerDecision''"
| "authority_debug ReviewedDisposition = ''ReviewedDisposition''"
| "authority_debug ModelProse = ''ModelProse''"

definition minted_id :: "codec \<Rightarrow> assertion \<Rightarrow> string" where
  "minted_id cx a = ''ct-'' @ as_token (a_subject a) @ ''-'' @ predicate_as_str (a_predicate a) @ ''-''
     @ authority_debug (a_authority_class a) @ ''-'' @ a_issuer a @ ''-'' @ sr_source (a_source_ref a) @ ''-''
     @ sr_revision (a_source_ref a) @ ''-'' @ canonical_json_digest_hex cx (value_json (a_value a))"

definition mint_assertions :: "chrono \<Rightarrow> codec \<Rightarrow> repository_state \<Rightarrow> assertion list" where
  "mint_assertions ch cx st =
     (let prs = canonical_prs (g_pull_requests st);
          out = concat (map (mint_issue ch cx st prs) (g_issues st))
                @ map (mint_pr st) prs @ map (mint_observation st) (g_observations st)
      in map (\<lambda>a. a\<lparr> a_assertion_id := minted_id cx a \<rparr>) out)"

definition reconcile_refresh ::
  "chrono \<Rightarrow> codec \<Rightarrow> (string \<Rightarrow> refresh_outcome) \<Rightarrow> string \<Rightarrow> refresh_outcome \<times> assertion list" where
  "reconcile_refresh ch cx adapter repo = (case adapter repo of
     Fresh st \<Rightarrow> (Fresh st, mint_assertions ch cx st)
   | Unavailable r reason \<Rightarrow> (Unavailable r reason, []))"

section \<open>The canonical selection\<close>

lemma pr_le_total: "pr_le a b \<or> pr_le b a"
  by (auto simp: pr_le_def)

lemma pr_le_trans: "pr_le a b \<Longrightarrow> pr_le b c \<Longrightarrow> pr_le a c"
  by (auto simp: pr_le_def)

lemmas sorted_pr_le = sorted_sort_by [of pr_le, OF pr_le_total pr_le_trans]

lemma canonical_prs_sorted: "sorted_wrt (<) (map pr_number (canonical_prs prs))"
proof -
  have "sorted (map pr_number (sort_by pr_le prs))"
    unfolding sorted_map
    by (rule sorted_wrt_mono_rel [OF _ sorted_pr_le]) (auto simp: pr_le_def)
  then show ?thesis unfolding canonical_prs_def by (rule dedup_strict)
qed

lemma canonical_prs_subset: "set (canonical_prs prs) \<subseteq> set prs"
  using dedup_subset [of pr_number "sort_by pr_le prs"] by (simp add: canonical_prs_def)

lemma canonical_prs_restrictive:
  assumes "pr \<in> set prs" "pr_visibility pr = Private" "c \<in> set (canonical_prs prs)" "pr_number c = pr_number pr"
  shows "pr_visibility c = Private"
proof -
  obtain y where y: "y \<in> set (canonical_prs prs)" "pr_number y = pr_number pr" "y = pr \<or> pr_le y pr"
    using dedup_first [of pr_le "sort_by pr_le prs" pr pr_number] sorted_pr_le assms(1) pr_le_trans
    unfolding canonical_prs_def by auto
  have "distinct (map pr_number (canonical_prs prs))"
    using canonical_prs_sorted [of prs] strict_sorted_iff by blast
  then have "y = c" using y(1,2) assms(3,4) by (metis distinct_map inj_onD)
  then have "duplicate_rank pr \<le> duplicate_rank c" using y(2,3) by (auto simp: pr_le_def)
  then show ?thesis using assms(2) by (cases "pr_visibility c") (auto simp: duplicate_rank_def)
qed

definition pr_key :: "snapshot_pr \<Rightarrow> nat \<times> pr_rank" where
  "pr_key pr = (pr_number pr, duplicate_rank pr)"

definition pr_norm :: "snapshot_pr \<Rightarrow> snapshot_pr" where
  "pr_norm pr = pr\<lparr> pr_merge_commit_sha := evidenced_sha pr,
     pr_linked_issues := remdups_adj (sort (pr_linked_issues pr)) \<rparr>"

lemma visibility_rank_inject: "visibility_rank v = visibility_rank w \<longleftrightarrow> v = w"
  by (cases v; cases w) simp_all

lemma pr_state_rank_inject: "pr_state_rank v = pr_state_rank w \<longleftrightarrow> v = w"
  by (cases v; cases w) simp_all

lemma pr_key_norm: "pr_key a = pr_key b \<Longrightarrow> pr_norm a = pr_norm b"
  by (auto simp: pr_key_def duplicate_rank_def pr_norm_def evidenced_sha_def visibility_rank_inject
      pr_state_rank_inject split: option.splits)

lemma canonical_keys_perm:
  assumes "mset prs = mset prs'"
  shows "map pr_norm (canonical_prs prs) = map pr_norm (canonical_prs prs')"
proof -
  define P where "P = (\<lambda>(n, r) (m, s). n < m \<or> n = m \<and> s \<le> (r :: pr_rank) \<and> n = (n :: nat))"
  have le: "pr_le a b \<longleftrightarrow> P (pr_key a) (pr_key b)" for a b
    by (simp add: pr_le_def P_def pr_key_def)
  have "map pr_key (sort_by pr_le prs) = map pr_key (sort_by pr_le prs')"
  proof (rule sorted_wrt_mset_unique [of P])
    show "sorted_wrt P (map pr_key (sort_by pr_le prs))" "sorted_wrt P (map pr_key (sort_by pr_le prs'))"
      using sorted_pr_le by (simp_all add: sorted_wrt_map le [symmetric])
    show "mset (map pr_key (sort_by pr_le prs)) = mset (map pr_key (sort_by pr_le prs'))"
      using assms by simp
  qed (auto simp: P_def)
  then have "dedup_by_key fst (map pr_key (sort_by pr_le prs)) = dedup_by_key fst (map pr_key (sort_by pr_le prs'))"
    by simp
  moreover have "fst \<circ> pr_key = pr_number" by (auto simp: pr_key_def)
  ultimately have "map pr_key (canonical_prs prs) = map pr_key (canonical_prs prs')"
    unfolding canonical_prs_def by (metis map_dedup)
  then show ?thesis
    by (auto simp: list_eq_iff_nth_eq intro: pr_key_norm)
qed

lemma norm_sel [simp]:
  "pr_number (pr_norm pr) = pr_number pr" "pr_state (pr_norm pr) = pr_state pr"
  "pr_updated_at (pr_norm pr) = pr_updated_at pr" "pr_snapshot_revision (pr_norm pr) = pr_snapshot_revision pr"
  "pr_visibility (pr_norm pr) = pr_visibility pr" "evidenced_sha (pr_norm pr) = evidenced_sha pr"
  "links_issue n (pr_norm pr) = links_issue n pr"
  by (auto simp: pr_norm_def evidenced_sha_def links_issue_def split: option.split)

lemma mint_pr_norm: "mint_pr st (pr_norm pr) = mint_pr st pr"
  by (simp add: mint_pr_def cong: snapshot_pr_state.case_cong)

lemma mint_issue_norm: "mint_issue ch cx st (map pr_norm prs) issue = mint_issue ch cx st prs issue"
proof -
  have "filter (links_issue n) (map pr_norm prs) = map pr_norm (filter (links_issue n) prs)" for n
    by (simp add: filter_map comp_def)
  moreover have "newest_merge ch (map pr_norm ps) = newest_merge ch ps" for ps
    by (simp add: newest_merge_def filter_map comp_def cong: option.case_cong)
  moreover have "composite_issue_revision cx issue (map pr_norm ps) = composite_issue_revision cx issue ps" for ps
    by (simp add: composite_issue_revision_def comp_def)
  moreover have "composite_observed_at ch issue (map pr_norm ps) = composite_observed_at ch issue ps" for ps
    by (simp add: composite_observed_at_def comp_def)
  ultimately show ?thesis by (simp add: mint_issue_def Let_def comp_def)
qed

section \<open>Every minted row\<close>

lemma mint_cases:
  assumes "a \<in> set (mint_assertions ch cx st)"
  obtains b where "a = b\<lparr> a_assertion_id := minted_id cx b \<rparr>"
    "(\<exists>issue\<in>set (g_issues st). b \<in> set (mint_issue ch cx st (canonical_prs (g_pull_requests st)) issue))
     \<or> (\<exists>pr\<in>set (canonical_prs (g_pull_requests st)). b = mint_pr st pr)
     \<or> (\<exists>ob\<in>set (g_observations st). b = mint_observation st ob)"
  using assms by (fastforce simp: mint_assertions_def Let_def)

lemma not_private: "v \<noteq> Private \<longleftrightarrow> v = Public"
  by (cases v) simp_all

definition admissible_row :: "assertion \<Rightarrow> bool" where
  "admissible_row a \<longleftrightarrow> is_admitted (a_review_state a)
     \<and> may_establish (a_authority_class a) (a_predicate a) \<and> admits_value (a_predicate a) (a_value a)"

lemma evidenced_nonempty: "evidenced_sha pr = Some sha \<Longrightarrow> sha \<noteq> []"
  by (auto simp: evidenced_sha_def split: option.splits if_splits)

lemma not_evidenced_Nil [simp]: "evidenced_sha pr \<noteq> Some []" "Some [] \<noteq> evidenced_sha pr"
  using evidenced_nonempty [of pr "[]"] by (auto dest: sym)

lemma newest_merge_evidenced: "newest_merge ch prs = Some (t, n, sha) \<Longrightarrow> sha \<noteq> []"
  by (auto simp: newest_merge_def iter_max_Some_iff split: option.splits dest: evidenced_nonempty)

lemma ascending_linked:
  assumes "sorted_wrt (<) (map pr_number prs)"
  shows "ascending (map (PullRequest \<circ> pr_number) (filter f prs))"
  using assms
  by (auto simp: ascending_iff sorted_wrt_map less_github_object_ref_def intro: sorted_wrt_filter)

lemma mint_issue_admissible:
  assumes "sorted_wrt (<) (map pr_number prs)" "b \<in> set (mint_issue ch cx st prs issue)"
  shows "admissible_row b"
  using assms(2) ascending_linked [OF assms(1)] newest_merge_evidenced
  by (auto simp: mint_issue_def Let_def base_assertion_def admissible_row_def is_admitted_def
      is_source_predicate_def list_all_iff split: snapshot_issue_state.splits option.splits)

lemma mint_pr_admissible: "admissible_row (mint_pr st pr)"
  by (auto simp: mint_pr_def base_assertion_def admissible_row_def is_admitted_def
      is_source_predicate_def split: snapshot_pr_state.splits option.splits dest: evidenced_nonempty)

lemma mint_observation_admissible: "admissible_row (mint_observation st ob)"
  by (auto simp: mint_observation_def base_assertion_def admissible_row_def is_admitted_def
      is_source_predicate_def Let_def split: observation_kind.splits)

section \<open>Properties of minting\<close>

text \<open>
  Every assertion a refresh mints is admitted by the reducer: reducing the minted rows
  drops none of them. In particular every link set names pull requests only, in strictly
  ascending order, and no value carries an empty SHA.
\<close>

lemma mint_admissible:
  "admitted_input (mint_assertions ch cx st) = mint_assertions ch cx st"
proof -
  have "admissible_row a" if "a \<in> set (mint_assertions ch cx st)" for a
  proof -
    from that obtain b where a: "a = b\<lparr> a_assertion_id := minted_id cx b \<rparr>"
      and b: "(\<exists>issue\<in>set (g_issues st). b \<in> set (mint_issue ch cx st (canonical_prs (g_pull_requests st)) issue))
       \<or> (\<exists>pr\<in>set (canonical_prs (g_pull_requests st)). b = mint_pr st pr)
       \<or> (\<exists>ob\<in>set (g_observations st). b = mint_observation st ob)" by (rule mint_cases)
    from b have "admissible_row b"
      using mint_issue_admissible [OF canonical_prs_sorted] mint_pr_admissible mint_observation_admissible by blast
    then show ?thesis by (simp add: a admissible_row_def)
  qed
  then show ?thesis
    by (simp add: admitted_input_def admissible_row_def filter_id_conv)
qed

text \<open>
  The order of a snapshot's pull requests is irrelevant: permuting them, duplicated
  rows included, mints the same assertions.
\<close>

lemma mint_pr_order_free:
  assumes "mset prs = mset prs'"
  shows "mint_assertions ch cx (st\<lparr> g_pull_requests := prs \<rparr>) = mint_assertions ch cx (st\<lparr> g_pull_requests := prs' \<rparr>)"
proof -
  note canon = canonical_keys_perm [OF assms]
  have issue: "mint_issue ch cx (st\<lparr> g_pull_requests := ps \<rparr>) qs i = mint_issue ch cx st qs i"
    and pr: "mint_pr (st\<lparr> g_pull_requests := ps \<rparr>) q = mint_pr st q"
    and ob: "mint_observation (st\<lparr> g_pull_requests := ps \<rparr>) r = mint_observation st r" for ps qs i q r
    by (simp_all add: mint_issue_def mint_pr_def mint_observation_def issue_subject_def state_pr_subject_def Let_def
        cong: observation_kind.case_cong snapshot_pr_state.case_cong)
  have "mint_issue ch cx st (canonical_prs prs) i = mint_issue ch cx st (canonical_prs prs') i" for i
    using canon mint_issue_norm by metis
  then have "mint_issue ch cx st (canonical_prs prs) = mint_issue ch cx st (canonical_prs prs')" by (rule ext)
  moreover have "map (mint_pr st) (canonical_prs prs) = map (mint_pr st) (canonical_prs prs')"
  proof -
    have "map (mint_pr st) ps = map (mint_pr st) (map pr_norm ps)" for ps
      by (simp add: mint_pr_norm)
    then show ?thesis using canon by metis
  qed
  ultimately show ?thesis
    by (simp add: mint_assertions_def Let_def issue [abs_def] pr [abs_def] ob [abs_def] del: map_map)
qed

definition demo_pr :: "nat \<Rightarrow> snapshot_pr_state \<Rightarrow> string option \<Rightarrow> visibility \<Rightarrow> snapshot_pr" where
  "demo_pr n state sha vis = \<lparr> pr_number = n, pr_state = state, pr_merge_commit_sha = sha,
     pr_updated_at = ''t0'', pr_snapshot_revision = ''p1'', pr_linked_issues = [7], pr_visibility = vis \<rparr>"

definition demo_state :: "snapshot_pr list \<Rightarrow> repository_state" where
  "demo_state prs = \<lparr> g_repo = ''o/r'', g_refresh_revision = ''f1'', g_refreshed_at = ''t1'',
     g_issues = [\<lparr> i_number = 7, i_state = SnapIssueOpen, i_updated_at = ''t0'',
       i_snapshot_revision = ''i1'', i_visibility = Public \<rparr>],
     g_pull_requests = prs, g_observations = [] \<rparr>"

definition demo_codec :: codec where
  "demo_codec = \<lparr> to_text = (\<lambda>_. []), from_text = (\<lambda>_. None), sha256 = (\<lambda>_. [1, 2]) \<rparr>"

lemma mint_pr_order_free_witness:
  "mint_assertions demo_chrono demo_codec ((demo_state [])\<lparr> g_pull_requests :=
      [demo_pr 2 SnapPrOpen None Public, demo_pr 1 SnapPrMerged (Some ''abc'') Public] \<rparr>)
   = mint_assertions demo_chrono demo_codec ((demo_state [])\<lparr> g_pull_requests :=
      [demo_pr 1 SnapPrMerged (Some ''abc'') Public, demo_pr 2 SnapPrOpen None Public] \<rparr>)"
  by (rule mint_pr_order_free) simp

text \<open>
  Relation rows fail closed: a link row minted as public belongs to a public issue,
  and every snapshot row of every pull request it names is public, so no duplicate row
  can make a private pull request visible through an issue.
\<close>

lemma link_rows_fail_closed:
  assumes "a \<in> set (mint_assertions ch cx st)" "a_predicate a = ImplementationPrLinked"
    and "a_visibility a = Public" "PullRequest n \<in> set (value_objects (a_value a))"
  shows "(\<exists>issue\<in>set (g_issues st). a_subject a = issue_subject st (i_number issue) \<and> i_visibility issue = Public)
    \<and> list_all (\<lambda>pr. pr_number pr = n \<longrightarrow> pr_visibility pr = Public) (g_pull_requests st)"
proof -
  let ?prs = "canonical_prs (g_pull_requests st)"
  from assms(1) obtain b where a: "a = b\<lparr> a_assertion_id := minted_id cx b \<rparr>"
    and b: "(\<exists>issue\<in>set (g_issues st). b \<in> set (mint_issue ch cx st ?prs issue))
     \<or> (\<exists>pr\<in>set ?prs. b = mint_pr st pr) \<or> (\<exists>ob\<in>set (g_observations st). b = mint_observation st ob)"
    by (rule mint_cases)
  have "a_predicate (mint_pr st pr) \<noteq> ImplementationPrLinked" "a_predicate (mint_observation st ob) \<noteq> ImplementationPrLinked" for pr ob
    by (auto simp: mint_pr_def mint_observation_def base_assertion_def Let_def
        split: snapshot_pr_state.split observation_kind.split)
  then obtain issue where issue: "issue \<in> set (g_issues st)" "b \<in> set (mint_issue ch cx st ?prs issue)"
    using b assms(2) a by auto
  then have row: "a_subject b = issue_subject st (i_number issue)"
      "a_value b = ObjectRefs (map (PullRequest \<circ> pr_number) (filter (links_issue (i_number issue)) ?prs))"
      "most_restrictive_visibility (i_visibility issue) (map pr_visibility (filter (links_issue (i_number issue)) ?prs)) = Public"
    using assms(2,3) a
    by (auto simp: mint_issue_def Let_def base_assertion_def split: snapshot_issue_state.splits)
  from row(3) have "i_visibility issue \<noteq> Private"
      "\<forall>c\<in>set ?prs. links_issue (i_number issue) c \<longrightarrow> pr_visibility c \<noteq> Private"
    by (simp_all add: most_restrictive_visibility_def list_ex_iff image_iff split: if_splits) fastforce
  then have pub: "i_visibility issue = Public"
      "\<forall>c\<in>set ?prs. links_issue (i_number issue) c \<longrightarrow> pr_visibility c = Public"
    by (simp_all add: not_private)
  obtain c where c: "c \<in> set ?prs" "links_issue (i_number issue) c" "pr_number c = n"
    using assms(4) row(2) a by auto
  have "pr_visibility pr = Public" if "pr \<in> set (g_pull_requests st)" "pr_number pr = n" for pr
    using canonical_prs_restrictive [OF that(1) _ c(1)] that(2) c pub(2) by (cases "pr_visibility pr") auto
  then show ?thesis using issue(1) row(1) pub(1) a by (auto simp: list_all_iff)
qed

lemma link_rows_fail_closed_witness:
  "(\<exists>issue\<in>set (g_issues (demo_state [demo_pr 1 SnapPrOpen None Public])). i_visibility issue = Public)
   \<and> list_all (\<lambda>pr. pr_visibility pr = Public) [demo_pr 1 SnapPrOpen None Public]"
proof -
  let ?st = "demo_state [demo_pr 1 SnapPrOpen None Public]"
  let ?a = "mint_assertions demo_chrono demo_codec ?st ! 1"
  have "?a \<in> set (mint_assertions demo_chrono demo_codec ?st)" by code_simp
  moreover have "a_predicate ?a = ImplementationPrLinked" "a_visibility ?a = Public"
    "PullRequest 1 \<in> set (value_objects (a_value ?a))" by code_simp+
  ultimately show ?thesis
    using link_rows_fail_closed [of ?a demo_chrono demo_codec ?st 1]
    by (auto simp: demo_state_def demo_pr_def)
qed

text \<open>
  Only the link row of an issue fails closed: the implementation row keeps the issue's
  own visibility, so the merge SHA of a private pull request is minted in a public row of
  the public issue it is linked to. Readers rely on the subject-level hiding of the
  consumer surface, which the private link row of the same issue triggers.
\<close>

lemma private_merge_sha_public:
  "list_ex (\<lambda>a. a_predicate a = ImplementationPresent \<and> a_value a = CommitSha ''abc'' \<and> a_visibility a = Public)
      (mint_assertions demo_chrono demo_codec (demo_state [demo_pr 1 SnapPrMerged (Some ''abc'') Private]))
   \<and> list_ex (\<lambda>a. a_predicate a = ImplementationPrLinked \<and> a_subject a = SubjectRef ''o/r'' (Issue 7) \<and> a_visibility a = Private)
      (mint_assertions demo_chrono demo_codec (demo_state [demo_pr 1 SnapPrMerged (Some ''abc'') Private]))"
  by code_simp

end
