(* ===== verification/Truth_Store.thy ===== *)
theory Truth_Store
  imports Truth_Refresh
begin

text \<open>
  The append-only assertion store, \<open>crates/tachi-params/src/current_truth/store.rs\<close>. The
  database is the contents of its three tables, lists of rows in insertion order; a SQL
  statement is the list operation it denotes (\<open>COLLATE NOCASE\<close> is
  \<^const>\<open>eq_ignore_ascii_case\<close>, \<open>ORDER BY\<close> a stable sort, a primary key or \<open>UNIQUE\<close>
  clause a check before the insertion), and a transaction is state passing: an error
  returns no new state. Failures of SQLite itself are not modelled. The reader of the two
  JSON columns is third-party: the fields \<open>read_value\<close> and \<open>read_strings\<close> of the codec,
  with the text of their error.

  Column \<open>f\<close> of an assertion row is \<open>c_f\<close>, of a refresh row \<open>f_f\<close>, field \<open>f\<close> of
  \<open>RefreshPostureRowV1\<close> is \<open>pr_f\<close> with the prefix \<open>row\<close>.
\<close>

section \<open>Errors, rows, database\<close>

datatype store_error =
    EmptyAssertionId | MalformedSubject | EmptySourceRevision
  | ProjectionPredicateNotAssertable predicate | PredicateValueNotAdmissible predicate
  | ContradictsExistingRevision ingestion_key | CorruptRow string
  | FreshPostureMissingRevision string | MalformedObservedAt string
  | StaleRefreshRecord string string string

datatype append_outcome = Appended | IdempotentDuplicate

record store_codec = codec +
  read_value :: "string \<Rightarrow> (assertion_value, string) result"
  read_strings :: "string \<Rightarrow> (string list, string) result"

record assertion_row =
  c_assertion_id :: string
  c_subject_repo :: string
  c_subject_kind :: string
  c_subject_id :: string
  c_predicate :: string
  c_value_json :: string
  c_issuer :: string
  c_authority :: string
  c_source_id :: string
  c_source_revision :: string
  c_observed_at :: string
  c_effective_at :: string
  c_supersedes :: "string option"
  c_evidence_json :: string
  c_review_state :: string
  c_visibility :: string
  c_content_digest :: string
  c_recorded_at :: string

record stored_projection =
  sp_repo :: string
  sp_generation :: string
  sp_built_at :: string
  sp_view_json :: string

record posture_row =
  row_fresh :: bool
  row_last_fresh_revision :: "string option"
  row_last_fresh_at :: "string option"
  row_last_attempt_at :: string
  row_unavailable_reason :: "string option"
  row_repository_visibility :: "visibility option"
  row_repository_visibility_at :: "string option"

record refresh_row =
  f_repo :: string
  f_subject_token :: string
  f_posture :: posture_row

record truth_db =
  t_assertions :: "assertion_row list"
  t_projection :: "stored_projection list"
  t_refresh :: "refresh_row list"

definition empty_db :: truth_db where
  "empty_db = \<lparr> t_assertions = [], t_projection = [], t_refresh = [] \<rparr>"

definition REPOSITORY_REFRESH_SCOPE :: string where
  "REPOSITORY_REFRESH_SCOPE = ''__repository__''"

section \<open>Tokens\<close>

fun kind_token :: "github_object_ref \<Rightarrow> string" where
  "kind_token (Issue _) = ''issue''"
| "kind_token (PullRequest _) = ''pull_request''"
| "kind_token (Commit _) = ''commit''"

fun id_token :: "github_object_ref \<Rightarrow> string" where
  "id_token (Issue n) = show_nat n"
| "id_token (PullRequest n) = show_nat n"
| "id_token (Commit sha) = sha"

fun authority_token :: "authority_class \<Rightarrow> string" where
  "authority_token GitHubTypedObject = ''github_typed_object''"
| "authority_token OwnerDecision = ''owner_decision''"
| "authority_token ReviewedDisposition = ''reviewed_disposition''"
| "authority_token ModelProse = ''model_prose''"

fun review_token :: "review_state \<Rightarrow> string" where
  "review_token Observed = ''observed''"
| "review_token Candidate = ''candidate''"
| "review_token Reviewed = ''reviewed''"
| "review_token Rejected = ''rejected''"

definition parse_authority :: "string \<Rightarrow> authority_class" where
  "parse_authority token =
     (if token = ''owner_decision'' then OwnerDecision
      else if token = ''reviewed_disposition'' then ReviewedDisposition
      else if token = ''model_prose'' then ModelProse
      else GitHubTypedObject)"

definition parse_review :: "string \<Rightarrow> review_state" where
  "parse_review token =
     (if token = ''candidate'' then Candidate
      else if token = ''reviewed'' then Reviewed
      else if token = ''rejected'' then Rejected
      else Observed)"

definition parse_visibility :: "string \<Rightarrow> visibility" where
  "parse_visibility token = (if token = ''private'' then Private else Public)"

definition parse_predicate :: "string \<Rightarrow> predicate option" where
  "parse_predicate token = find (\<lambda>p. predicate_as_str p = token)
     [IssueOpen, IssueClosed, ImplementationPrLinked, PrOpen, PrMerged, PrClosedUnmerged,
      MergeReverted, IssueReopened, ImplementationPresent, OwnerAcceptancePresent,
      HandoffCurrent, HandoffStale, OpenAction]"

section \<open>Appending\<close>

definition starts_with :: "char \<Rightarrow> string \<Rightarrow> bool" where
  "starts_with c s \<longleftrightarrow> s \<noteq> [] \<and> hd s = c"

definition ends_with :: "char \<Rightarrow> string \<Rightarrow> bool" where
  "ends_with c s \<longleftrightarrow> s \<noteq> [] \<and> last s = c"

definition validate :: "chrono \<Rightarrow> assertion \<Rightarrow> (unit, store_error) result" where
  "validate ch a =
    (let repo = s_repo (a_subject a) in
     if a_assertion_id a = [] then Err EmptyAssertionId
     else if length (split_on (\<lambda>c. c = CHR ''/'') repo) \<noteq> 2 \<or> starts_with (CHR ''/'') repo \<or> ends_with (CHR ''/'') repo
       then Err MalformedSubject
     else if sr_revision (a_source_ref a) = [] then Err EmptySourceRevision
     else if \<not> is_source_predicate (a_predicate a) then Err (ProjectionPredicateNotAssertable (a_predicate a))
     else if \<not> admits_value (a_predicate a) (a_value a) then Err (PredicateValueNotAdmissible (a_predicate a))
     else if parse_from_rfc3339 ch (a_observed_at a) = None then Err (MalformedObservedAt (a_observed_at a))
     else if a_effective_at a \<noteq> [] \<and> parse_from_rfc3339 ch (a_effective_at a) = None
       then Err (MalformedObservedAt (a_effective_at a))
     else Ok ())"

definition option_json :: "string option \<Rightarrow> json" where
  "option_json s = (case s of None \<Rightarrow> JNull | Some t \<Rightarrow> JString t)"

definition content_digest :: "store_codec \<Rightarrow> assertion \<Rightarrow> string" where
  "content_digest cx a =
    (let value_digest = canonical_json_digest_hex (codec.truncate cx) (value_json (a_value a));
         basis = JObject
           [(''subject_repo'', JString (s_repo (a_subject a))),
            (''subject_kind'', JString (kind_token (s_object (a_subject a)))),
            (''subject_id'', JString (id_token (s_object (a_subject a)))),
            (''predicate'', JString (predicate_as_str (a_predicate a))),
            (''authority'', JString (authority_token (a_authority_class a))),
            (''issuer'', JString (a_issuer a)),
            (''source'', JString (sr_source (a_source_ref a))),
            (''source_revision'', JString (sr_revision (a_source_ref a))),
            (''value_digest'', JString value_digest),
            (''observed_at'', JString (a_observed_at a)),
            (''effective_at'', JString (a_effective_at a)),
            (''supersedes'', option_json (a_supersedes_assertion_id a)),
            (''evidence_refs'', JArray (map JString (a_evidence_refs a))),
            (''review_state'', JString (review_token (a_review_state a))),
            (''visibility'', JString (visibility_token (a_visibility a)))]
     in canonical_json_digest_hex (codec.truncate cx) basis)"

definition row_of :: "store_codec \<Rightarrow> assertion \<Rightarrow> assertion_row" where
  "row_of cx a =
     \<lparr> c_assertion_id = a_assertion_id a, c_subject_repo = s_repo (a_subject a),
       c_subject_kind = kind_token (s_object (a_subject a)),
       c_subject_id = id_token (s_object (a_subject a)),
       c_predicate = predicate_as_str (a_predicate a),
       c_value_json = to_text cx (value_json (a_value a)), c_issuer = a_issuer a,
       c_authority = authority_token (a_authority_class a),
       c_source_id = sr_source (a_source_ref a), c_source_revision = sr_revision (a_source_ref a),
       c_observed_at = a_observed_at a, c_effective_at = a_effective_at a,
       c_supersedes = a_supersedes_assertion_id a,
       c_evidence_json = to_text cx (JArray (map JString (a_evidence_refs a))),
       c_review_state = review_token (a_review_state a),
       c_visibility = visibility_token (a_visibility a),
       c_content_digest = content_digest cx a, c_recorded_at = [] \<rparr>"

text \<open>The columns of the table's \<open>UNIQUE\<close> clause.\<close>

definition unique_key :: "assertion_row \<Rightarrow> string \<times> string \<times> string \<times> string \<times> string \<times> string \<times> string \<times> string" where
  "unique_key r = (c_subject_repo r, c_subject_kind r, c_subject_id r, c_predicate r,
     c_authority r, c_issuer r, c_source_id r, c_source_revision r)"

definition append_in :: "chrono \<Rightarrow> store_codec \<Rightarrow> truth_db \<Rightarrow> assertion \<Rightarrow> (append_outcome \<times> truth_db, store_error) result" where
  "append_in ch cx db a =
     and_then (validate ch a) (\<lambda>_.
       let row = row_of cx a in
       case find (\<lambda>r. c_assertion_id r = a_assertion_id a) (t_assertions db) of
         Some old \<Rightarrow>
           if c_content_digest old = c_content_digest row then Ok (IdempotentDuplicate, db)
           else Err (ContradictsExistingRevision (assertion_ingestion_key a))
       | None \<Rightarrow>
           if list_ex (\<lambda>r. unique_key r = unique_key row) (t_assertions db)
           then Err (ContradictsExistingRevision (assertion_ingestion_key a))
           else Ok (Appended, db\<lparr> t_assertions := t_assertions db @ [row] \<rparr>))"

fun append_loop :: "chrono \<Rightarrow> store_codec \<Rightarrow> truth_db \<Rightarrow> nat \<Rightarrow> assertion list \<Rightarrow> (nat \<times> truth_db, store_error) result" where
  "append_loop ch cx db n [] = Ok (n, db)"
| "append_loop ch cx db n (a # as) =
     and_then (append_in ch cx db a) (\<lambda>(outcome, db').
       append_loop ch cx db' (if outcome = Appended then n + 1 else n) as)"

definition append_all :: "chrono \<Rightarrow> store_codec \<Rightarrow> truth_db \<Rightarrow> assertion list \<Rightarrow> (nat \<times> truth_db, store_error) result" where
  "append_all ch cx db as = append_loop ch cx db 0 as"

section \<open>Reading\<close>

definition decode_object :: "string \<Rightarrow> string \<Rightarrow> (github_object_ref, store_error) result" where
  "decode_object kind ident =
    (case parse_u64 ident of
       Some n \<Rightarrow> if kind = ''issue'' then Ok (Issue n)
                 else if kind = ''pull_request'' then Ok (PullRequest n)
                 else Err (CorruptRow (''subject '' @ kind @ ''/'' @ ident))
     | None \<Rightarrow> if kind = ''commit'' then Ok (Commit ident)
               else Err (CorruptRow (''subject '' @ kind @ ''/'' @ ident)))"

definition quoted :: "string \<Rightarrow> string \<Rightarrow> string" where
  "quoted what s = what @ '' `'' @ s @ ''`''"

definition decode_assertion_row :: "chrono \<Rightarrow> store_codec \<Rightarrow> assertion_row \<Rightarrow> (assertion, store_error) result" where
  "decode_assertion_row ch cx r =
     and_then (decode_object (c_subject_kind r) (c_subject_id r)) (\<lambda>ob.
     case parse_predicate (c_predicate r) of
       None \<Rightarrow> Err (CorruptRow (quoted ''predicate'' (c_predicate r)))
     | Some p \<Rightarrow>
     case read_value cx (c_value_json r) of
       Inl e \<Rightarrow> Err (CorruptRow (''value: '' @ e))
     | Inr v \<Rightarrow>
     if \<not> admits_value p v then
       Err (CorruptRow (quoted ''value not admissible for predicate'' (predicate_as_str p)))
     else case read_strings cx (c_evidence_json r) of
       Inl e \<Rightarrow> Err (CorruptRow (''evidence: '' @ e))
     | Inr evidence \<Rightarrow>
     if c_authority r \<notin> {''github_typed_object'', ''owner_decision'', ''reviewed_disposition'', ''model_prose''}
       then Err (CorruptRow (quoted ''authority'' (c_authority r)))
     else if c_review_state r \<notin> {''observed'', ''candidate'', ''reviewed'', ''rejected''}
       then Err (CorruptRow (quoted ''review_state'' (c_review_state r)))
     else if c_visibility r \<notin> {''public'', ''private''}
       then Err (CorruptRow (quoted ''visibility'' (c_visibility r)))
     else if parse_from_rfc3339 ch (c_observed_at r) = None
       then Err (CorruptRow (quoted ''observed_at'' (c_observed_at r) @ '' is not RFC 3339''))
     else if c_effective_at r \<noteq> [] \<and> parse_from_rfc3339 ch (c_effective_at r) = None
       then Err (CorruptRow (quoted ''effective_at'' (c_effective_at r) @ '' is not RFC 3339''))
     else Ok \<lparr> a_assertion_id = c_assertion_id r, a_subject = SubjectRef (c_subject_repo r) ob,
               a_predicate = p, a_value = v, a_issuer = c_issuer r,
               a_authority_class = parse_authority (c_authority r),
               a_source_ref = \<lparr> sr_source = c_source_id r, sr_revision = c_source_revision r \<rparr>,
               a_observed_at = c_observed_at r, a_effective_at = c_effective_at r,
               a_supersedes_assertion_id = c_supersedes r, a_evidence_refs = evidence,
               a_review_state = parse_review (c_review_state r),
               a_visibility = parse_visibility (c_visibility r) \<rparr>)"

definition lower_repo :: "assertion \<Rightarrow> assertion" where
  "lower_repo a = a\<lparr> a_subject := SubjectRef (to_ascii_lowercase (s_repo (a_subject a))) (s_object (a_subject a)) \<rparr>"

fun collect_decoded_rows :: "chrono \<Rightarrow> store_codec \<Rightarrow> assertion_row list \<Rightarrow> (assertion list, store_error) result" where
  "collect_decoded_rows ch cx [] = Ok []"
| "collect_decoded_rows ch cx (r # rs) =
     and_then (decode_assertion_row ch cx r) (\<lambda>a.
       and_then (collect_decoded_rows ch cx rs) (\<lambda>as. Ok (lower_repo a # as)))"

definition row_order :: "assertion_row \<Rightarrow> string list" where
  "row_order r = [c_subject_repo r, c_subject_kind r, c_subject_id r, c_predicate r, c_authority r,
     c_issuer r, c_source_id r, c_source_revision r, c_assertion_id r]"

definition in_repo :: "string \<Rightarrow> assertion_row \<Rightarrow> bool" where
  "in_repo repo r \<longleftrightarrow> eq_ignore_ascii_case (c_subject_repo r) repo"

definition store_assertions :: "chrono \<Rightarrow> store_codec \<Rightarrow> truth_db \<Rightarrow> (assertion list, store_error) result" where
  "store_assertions ch cx db = collect_decoded_rows ch cx (sort_key row_order (t_assertions db))"

definition assertions_for_repo :: "chrono \<Rightarrow> store_codec \<Rightarrow> truth_db \<Rightarrow> string \<Rightarrow> (assertion list, store_error) result" where
  "assertions_for_repo ch cx db repo =
     collect_decoded_rows ch cx (sort_key row_order (filter (in_repo repo) (t_assertions db)))"

definition public_assertions_for_repo :: "chrono \<Rightarrow> store_codec \<Rightarrow> truth_db \<Rightarrow> string \<Rightarrow> (assertion list, store_error) result" where
  "public_assertions_for_repo ch cx db repo =
     collect_decoded_rows ch cx (sort_key row_order
       (filter (\<lambda>r. in_repo repo r \<and> c_visibility r = ''public'') (t_assertions db)))"

definition row_token :: "assertion_row \<Rightarrow> string" where
  "row_token r = c_subject_repo r @ ''#'' @ c_subject_kind r @ '':'' @ c_subject_id r"

text \<open>The tokens always contain \<open>#\<close>, so \<open>split_once\<close> never fails here.\<close>

definition private_subject_tokens :: "truth_db \<Rightarrow> string \<Rightarrow> string list" where
  "private_subject_tokens db repo =
    (let canonical_repo = to_ascii_lowercase repo;
         rows = filter (\<lambda>r. in_repo repo r \<and> c_visibility r = ''private'') (t_assertions db)
     in remdups_adj (sort (map (\<lambda>token. case split_once ''#'' token of
            Some (_, suffix) \<Rightarrow> canonical_repo @ ''#'' @ suffix | None \<Rightarrow> token)
          (remdups (map row_token rows)))))"

definition assertion_count :: "truth_db \<Rightarrow> string \<Rightarrow> nat" where
  "assertion_count db repo = length (filter (in_repo repo) (t_assertions db))"

definition generation_digest :: "store_codec \<Rightarrow> (assertion \<Rightarrow> string) \<Rightarrow> assertion list \<Rightarrow> string" where
  "generation_digest cx assertion_text as =
    (let pairs = sort (map (\<lambda>a. (a_assertion_id a, assertion_text a)) as);
         basis = JObject [(''assertions'', JArray (map (\<lambda>(i, content).
           JObject [(''id'', JString i), (''content'', JString content)]) pairs))]
     in canonical_json_digest_hex (codec.truncate cx) basis)"

section \<open>The disposable projection\<close>

definition drop_projection :: "truth_db \<Rightarrow> string \<Rightarrow> truth_db" where
  "drop_projection db repo =
     db\<lparr> t_projection := filter (\<lambda>p. \<not> eq_ignore_ascii_case (sp_repo p) repo) (t_projection db) \<rparr>"

definition write_projection :: "truth_db \<Rightarrow> string \<Rightarrow> string \<Rightarrow> string \<Rightarrow> string \<Rightarrow> truth_db" where
  "write_projection db repo generation built_at view_json =
    (let repo = to_ascii_lowercase repo; db = drop_projection db repo
     in db\<lparr> t_projection := t_projection db @
          [\<lparr> sp_repo = repo, sp_generation = generation, sp_built_at = built_at, sp_view_json = view_json \<rparr>] \<rparr>)"

definition read_projection :: "truth_db \<Rightarrow> string \<Rightarrow> (string \<times> string \<times> string) option" where
  "read_projection db repo =
    (case filter (\<lambda>p. eq_ignore_ascii_case (sp_repo p) repo) (t_projection db) of
       [p] \<Rightarrow> Some (sp_generation p, sp_built_at p, sp_view_json p)
     | _ \<Rightarrow> None)"

section \<open>Vocabularies and rows\<close>

interpretation predicate_wire: wire_vocabulary predicate_as_str parse_predicate all_predicates
proof
  show "p \<in> set all_predicates" for p by (cases p) (simp_all add: all_predicates_def)
  show "distinct (map predicate_as_str all_predicates)" by (simp add: all_predicates_def)
  show "parse_predicate s = find (\<lambda>p. predicate_as_str p = s) all_predicates" for s
    by (simp only: parse_predicate_def all_predicates_def)
qed

definition read_token :: "('v \<Rightarrow> string) \<Rightarrow> (string \<Rightarrow> 'v) \<Rightarrow> 'v list \<Rightarrow> string \<Rightarrow> 'v option" where
  "read_token spell parse all s = (if s \<in> set (map spell all) then Some (parse s) else None)"

lemma read_token_find:
  assumes "\<And>v. v \<in> set all \<Longrightarrow> parse (spell v) = v"
  shows "read_token spell parse all s = find (\<lambda>v. spell v = s) all"
  using assms by (induction all) (auto simp: read_token_def)

definition read_authority :: "string \<Rightarrow> authority_class option" where
  "read_authority = read_token authority_token parse_authority [GitHubTypedObject, OwnerDecision, ReviewedDisposition, ModelProse]"

definition read_review :: "string \<Rightarrow> review_state option" where
  "read_review = read_token review_token parse_review [Observed, Candidate, Reviewed, Rejected]"

definition read_visibility :: "string \<Rightarrow> visibility option" where
  "read_visibility = read_token visibility_token parse_visibility [Public, Private]"

lemma parse_authority_token [simp]: "parse_authority (authority_token a) = a"
  by (cases a) (simp_all add: parse_authority_def)

lemma parse_review_token [simp]: "parse_review (review_token r) = r"
  by (cases r) (simp_all add: parse_review_def)

lemma parse_visibility_token [simp]: "parse_visibility (visibility_token v) = v"
  by (cases v) (simp_all add: parse_visibility_def)

interpretation authority_wire: wire_vocabulary authority_token read_authority
    "[GitHubTypedObject, OwnerDecision, ReviewedDisposition, ModelProse]"
proof
  show "a \<in> set [GitHubTypedObject, OwnerDecision, ReviewedDisposition, ModelProse]" for a by (cases a) simp_all
  show "read_authority s = find (\<lambda>v. authority_token v = s) [GitHubTypedObject, OwnerDecision, ReviewedDisposition, ModelProse]" for s
    unfolding read_authority_def by (rule read_token_find) simp
qed simp

interpretation review_wire: wire_vocabulary review_token read_review "[Observed, Candidate, Reviewed, Rejected]"
proof
  show "a \<in> set [Observed, Candidate, Reviewed, Rejected]" for a by (cases a) simp_all
  show "read_review s = find (\<lambda>v. review_token v = s) [Observed, Candidate, Reviewed, Rejected]" for s
    unfolding read_review_def by (rule read_token_find) simp
qed simp

interpretation visibility_wire: wire_vocabulary visibility_token read_visibility "[Public, Private]"
proof
  show "a \<in> set [Public, Private]" for a by (cases a) simp_all
  show "read_visibility s = find (\<lambda>v. visibility_token v = s) [Public, Private]" for s
    unfolding read_visibility_def by (rule read_token_find) simp
qed simp

lemma tokens_known [simp]:
  "authority_token a = ''github_typed_object'' \<or> authority_token a = ''owner_decision''
     \<or> authority_token a = ''reviewed_disposition'' \<or> authority_token a = ''model_prose''"
  "review_token r = ''observed'' \<or> review_token r = ''candidate'' \<or> review_token r = ''reviewed'' \<or> review_token r = ''rejected''"
  "visibility_token v = ''public'' \<or> visibility_token v = ''private''"
proof -
  show "authority_token a = ''github_typed_object'' \<or> authority_token a = ''owner_decision''
     \<or> authority_token a = ''reviewed_disposition'' \<or> authority_token a = ''model_prose''" by (cases a) simp_all
  show "review_token r = ''observed'' \<or> review_token r = ''candidate'' \<or> review_token r = ''reviewed'' \<or> review_token r = ''rejected''"
    by (cases r) simp_all
  show "visibility_token v = ''public'' \<or> visibility_token v = ''private''" by (cases v) simp_all
qed

text \<open>Whether an object's identifier reads back as the same object.\<close>

definition decodable :: "assertion \<Rightarrow> bool" where
  "decodable a \<longleftrightarrow> (case s_object (a_subject a) of
     Commit sha \<Rightarrow> parse_u64 sha = None | Issue n \<Rightarrow> n < 2 ^ 64 | PullRequest n \<Rightarrow> n < 2 ^ 64)"

text \<open>The JSON reader returns what the writer wrote, for the two JSON columns of a row.\<close>

definition reads_back :: "store_codec \<Rightarrow> assertion \<Rightarrow> bool" where
  "reads_back cx a \<longleftrightarrow> read_value cx (to_text cx (value_json (a_value a))) = Inr (a_value a)
     \<and> read_strings cx (to_text cx (JArray (map JString (a_evidence_refs a)))) = Inr (a_evidence_refs a)"

lemma decode_object_tokens:
  "decodable a \<Longrightarrow> decode_object (kind_token (s_object (a_subject a))) (id_token (s_object (a_subject a))) = Inr (s_object (a_subject a))"
  by (cases "s_object (a_subject a)") (auto simp: decodable_def decode_object_def)

lemma decode_row_of:
  assumes "validate ch a = Inr ()" "decodable a" "reads_back cx a"
  shows "decode_assertion_row ch cx (row_of cx a) = Inr a"
proof -
  have v: "admits_value (a_predicate a) (a_value a)" "parse_from_rfc3339 ch (a_observed_at a) \<noteq> None"
    "\<not> (a_effective_at a \<noteq> [] \<and> parse_from_rfc3339 ch (a_effective_at a) = None)"
    using assms(1) by (auto simp: validate_def Let_def split: if_splits)
  have t: "authority_token (a_authority_class a) \<in> {''github_typed_object'', ''owner_decision'', ''reviewed_disposition'', ''model_prose''}"
    "review_token (a_review_state a) \<in> {''observed'', ''candidate'', ''reviewed'', ''rejected''}"
    "visibility_token (a_visibility a) \<in> {''public'', ''private''}"
    by (simp_all only: insert_iff empty_iff tokens_known simp_thms)
  show ?thesis
    using v t assms(3)
    by (simp add: decode_assertion_row_def row_of_def decode_object_tokens [OF assms(2)]
        predicate_wire.parse_spell reads_back_def del: insert_iff)
qed

section \<open>Invariants of the table\<close>

definition rows_ok :: "chrono \<Rightarrow> store_codec \<Rightarrow> assertion_row list \<Rightarrow> bool" where
  "rows_ok ch cx rows \<longleftrightarrow> distinct (map c_assertion_id rows) \<and> distinct (map unique_key rows)
     \<and> (\<forall>r\<in>set rows. \<exists>a. validate ch a = Inr () \<and> r = row_of cx a)"

lemma row_of_id [simp]: "c_assertion_id (row_of cx a) = a_assertion_id a"
  by (simp add: row_of_def)

lemma row_of_digest [simp]: "c_content_digest (row_of cx a) = content_digest cx a"
  by (simp add: row_of_def)

lemma unique_key_row_of: "unique_key (row_of cx a) = (s_repo (a_subject a), kind_token (s_object (a_subject a)),
    id_token (s_object (a_subject a)), predicate_as_str (a_predicate a), authority_token (a_authority_class a),
    a_issuer a, sr_source (a_source_ref a), sr_revision (a_source_ref a))"
  by (simp add: unique_key_def row_of_def)

lemma find_Some_mem: "find P xs = Some x \<Longrightarrow> x \<in> set xs \<and> P x"
  by (induction xs) (auto split: if_splits)

lemma find_id_None: "find (\<lambda>r. c_assertion_id r = i) rows = None \<longleftrightarrow> i \<notin> c_assertion_id ` set rows"
  by (auto simp: find_None_iff)

lemma append_in_cases:
  assumes "append_in ch cx db a = Inr (outcome, db')"
  shows "validate ch a = Inr () \<and>
    (outcome = IdempotentDuplicate \<and> db' = db
       \<and> (\<exists>r\<in>set (t_assertions db). c_assertion_id r = a_assertion_id a \<and> c_content_digest r = content_digest cx a)
     \<or> outcome = Appended \<and> db' = db\<lparr> t_assertions := t_assertions db @ [row_of cx a] \<rparr>
       \<and> a_assertion_id a \<notin> c_assertion_id ` set (t_assertions db)
       \<and> unique_key (row_of cx a) \<notin> unique_key ` set (t_assertions db))"
proof -
  have "validate ch a = Inr ()"
    using assms by (cases "validate ch a") (auto simp: append_in_def)
  moreover have "c_content_digest (row_of cx a) = content_digest cx a" by (simp add: row_of_def)
  ultimately show ?thesis
    using assms
    by (auto simp: append_in_def Let_def list_ex_iff find_id_None image_iff split: option.splits if_splits
        dest!: find_Some_mem)
qed

lemma append_in_new:
  assumes "validate ch a = Inr ()" "a_assertion_id a \<notin> c_assertion_id ` set (t_assertions db)"
    and "unique_key (row_of cx a) \<notin> unique_key ` set (t_assertions db)"
  shows "append_in ch cx db a = Inr (Appended, db\<lparr> t_assertions := t_assertions db @ [row_of cx a] \<rparr>)"
proof -
  have "find (\<lambda>r. c_assertion_id r = a_assertion_id a) (t_assertions db) = None"
    using assms(2) by (simp only: find_id_None not_False_eq_True)
  moreover have "\<not> list_ex (\<lambda>r. unique_key r = unique_key (row_of cx a)) (t_assertions db)"
    using assms(3) by (auto simp: list_ex_iff image_iff)
  ultimately show ?thesis using assms(1) by (simp add: append_in_def Let_def)
qed

lemma append_in_ok:
  assumes "append_in ch cx db a = Inr (outcome, db')" "rows_ok ch cx (t_assertions db)"
  shows "rows_ok ch cx (t_assertions db') \<and> (\<exists>new. t_assertions db' = t_assertions db @ new)
    \<and> t_projection db' = t_projection db \<and> t_refresh db' = t_refresh db"
  using append_in_cases [OF assms(1)] assms(2) by (auto simp: rows_ok_def)

lemma append_loop_ok:
  assumes "append_loop ch cx db n as = Inr (m, db')" "rows_ok ch cx (t_assertions db)"
  shows "rows_ok ch cx (t_assertions db') \<and> (\<exists>new. t_assertions db' = t_assertions db @ new)
    \<and> t_projection db' = t_projection db \<and> t_refresh db' = t_refresh db"
  using assms
proof (induction as arbitrary: db n)
  case (Cons a as)
  then obtain outcome db1 where step: "append_in ch cx db a = Inr (outcome, db1)"
    and rest: "append_loop ch cx db1 (if outcome = Appended then n + 1 else n) as = Inr (m, db')"
    by (auto simp: and_then_Inr_iff)
  note s = append_in_ok [OF step Cons.prems(2)]
  from Cons.IH [OF rest] s show ?case by auto
qed simp

text \<open>After an append, the row with the assertion's identity carries its digest.\<close>

definition recorded :: "store_codec \<Rightarrow> truth_db \<Rightarrow> assertion \<Rightarrow> bool" where
  "recorded cx db a \<longleftrightarrow> (\<exists>r\<in>set (t_assertions db). c_assertion_id r = a_assertion_id a \<and> c_content_digest r = content_digest cx a)"

lemma append_in_recorded: "append_in ch cx db a = Inr (outcome, db') \<Longrightarrow> recorded cx db' a"
  using append_in_cases [of ch cx db a outcome db'] by (auto simp: recorded_def)

lemma append_recorded_again:
  assumes "validate ch a = Inr ()" "recorded cx db a" "distinct (map c_assertion_id (t_assertions db))"
  shows "append_in ch cx db a = Inr (IdempotentDuplicate, db)"
proof -
  obtain r where r: "r \<in> set (t_assertions db)" "c_assertion_id r = a_assertion_id a" "c_content_digest r = content_digest cx a"
    using assms(2) by (auto simp: recorded_def)
  have "find (\<lambda>r. c_assertion_id r = a_assertion_id a) rows = Some r"
    if "r \<in> set rows" "distinct (map c_assertion_id rows)" for rows
    using that r(2) by (induction rows) (auto simp: image_iff)
  then show ?thesis using r assms(1,3) by (simp add: append_in_def row_of_def Let_def)
qed

lemma append_loop_recorded:
  assumes "append_loop ch cx db n as = Inr (m, db')" "rows_ok ch cx (t_assertions db)" "a \<in> set as"
  shows "validate ch a = Inr () \<and> recorded cx db' a"
  using assms
proof (induction as arbitrary: db n)
  case (Cons b as)
  then obtain outcome db1 where step: "append_in ch cx db b = Inr (outcome, db1)"
    and rest: "append_loop ch cx db1 (if outcome = Appended then n + 1 else n) as = Inr (m, db')"
    by (auto simp: and_then_Inr_iff)
  have ok: "rows_ok ch cx (t_assertions db1)" using append_in_ok [OF step Cons.prems(2)] by simp
  show ?case
  proof (cases "a \<in> set as")
    case True
    from Cons.IH [OF rest ok True] show ?thesis .
  next
    case False
    then have "a = b" using Cons.prems(3) by simp
    then have "validate ch a = Inr ()" "recorded cx db1 a"
      using append_in_cases [OF step] append_in_recorded [OF step] by simp_all
    moreover obtain new where "t_assertions db' = t_assertions db1 @ new"
      using append_loop_ok [OF rest ok] by auto
    ultimately show ?thesis by (auto simp: recorded_def)
  qed
qed simp

lemma append_loop_noop:
  "\<forall>a\<in>set as. append_in ch cx db a = Inr (IdempotentDuplicate, db) \<Longrightarrow> append_loop ch cx db n as = Inr (n, db)"
  by (induction as) simp_all

section \<open>Reads depend on the set of rows\<close>

lemma row_order_inj: "distinct (map c_assertion_id rows) \<Longrightarrow> inj_on row_order (set rows)"
  by (auto simp: inj_on_def distinct_map row_order_def dest: inj_onD)

lemma sorted_rows_unique:
  assumes "set rows = set rows'" "distinct (map c_assertion_id rows)" "distinct (map c_assertion_id rows')"
  shows "sort_key row_order (filter P rows) = sort_key row_order (filter P rows')"
proof (rule sort_key_perm)
  have "distinct rows" "distinct rows'" using assms(2,3) by (auto simp: distinct_map)
  then have "mset rows = mset rows'" using assms(1) set_eq_iff_mset_eq_distinct by blast
  then show "mset (filter P rows) = mset (filter P rows')" by simp
  show "inj_on row_order (set (filter P rows))"
    using row_order_inj [OF assms(2)] by (auto simp: inj_on_def)
qed

lemma decode_fields:
  assumes "decode_assertion_row ch cx r = Inr a"
  shows "a_assertion_id a = c_assertion_id r" "s_repo (a_subject a) = c_subject_repo r"
    "decode_object (c_subject_kind r) (c_subject_id r) = Inr (s_object (a_subject a))"
    "a_visibility a = parse_visibility (c_visibility r)" "c_visibility r \<in> {''public'', ''private''}"
proof -
  obtain ob where ob: "decode_object (c_subject_kind r) (c_subject_id r) = Inr ob"
    using assms by (auto simp: decode_assertion_row_def and_then_Inr_iff)
  obtain p where p: "parse_predicate (c_predicate r) = Some p"
    using assms by (cases "parse_predicate (c_predicate r)") (simp_all add: decode_assertion_row_def ob)
  obtain v where v: "read_value cx (c_value_json r) = Inr v"
    using assms by (cases "read_value cx (c_value_json r)") (simp_all add: decode_assertion_row_def ob p)
  obtain e where e: "read_strings cx (c_evidence_json r) = Inr e"
    using assms by (cases "read_strings cx (c_evidence_json r)")
      (simp_all add: decode_assertion_row_def ob p v split: if_split_asm)
  note a = assms [unfolded decode_assertion_row_def ob p v e and_then_simps option.case sum.case guard_Inr sum.inject]
  then show "c_visibility r \<in> {''public'', ''private''}" by blast
  have "a = \<lparr> a_assertion_id = c_assertion_id r, a_subject = SubjectRef (c_subject_repo r) ob,
               a_predicate = p, a_value = v, a_issuer = c_issuer r,
               a_authority_class = parse_authority (c_authority r),
               a_source_ref = \<lparr> sr_source = c_source_id r, sr_revision = c_source_revision r \<rparr>,
               a_observed_at = c_observed_at r, a_effective_at = c_effective_at r,
               a_supersedes_assertion_id = c_supersedes r, a_evidence_refs = e,
               a_review_state = parse_review (c_review_state r),
               a_visibility = parse_visibility (c_visibility r) \<rparr>"
    using a by (elim conjE) (simp only:)
  then show "a_assertion_id a = c_assertion_id r" "s_repo (a_subject a) = c_subject_repo r"
    "decode_object (c_subject_kind r) (c_subject_id r) = Inr (s_object (a_subject a))"
    "a_visibility a = parse_visibility (c_visibility r)"
    by (simp_all add: ob)
qed

lemmas decode_id = decode_fields(1)

lemma lower_repo_id [simp]: "a_assertion_id (lower_repo a) = a_assertion_id a"
  by (simp add: lower_repo_def)

lemma collect_ids: "collect_decoded_rows ch cx rs = Inr as \<Longrightarrow> map a_assertion_id as = map c_assertion_id rs"
  by (induction rs arbitrary: as) (auto simp: and_then_Inr_iff decode_id)

lemma distinct_ids_consistent: "distinct (map a_assertion_id as) \<Longrightarrow> ids_consistent (set as)"
  by (auto simp: ids_consistent_def distinct_map dest: inj_onD)

lemma distinct_filter_sort:
  "distinct (map c_assertion_id rows) \<Longrightarrow> distinct (map c_assertion_id (sort_key row_order (filter P rows)))"
  by (simp add: distinct_map inj_on_def)

section \<open>Histories of appends\<close>

lemma append_loop_rows:
  assumes "append_loop ch cx db n as = Inr (m, db')"
  shows "set (t_assertions db') \<subseteq> set (t_assertions db) \<union> row_of cx ` set as"
  using assms
proof (induction as arbitrary: db n)
  case (Cons a as)
  then obtain outcome db1 where step: "append_in ch cx db a = Inr (outcome, db1)"
    and rest: "append_loop ch cx db1 (if outcome = Appended then n + 1 else n) as = Inr (m, db')"
    by (auto simp: and_then_Inr_iff)
  from Cons.IH [OF rest] append_in_cases [OF step] show ?case by auto
qed simp

definition row_key :: "store_codec \<Rightarrow> assertion \<Rightarrow> string \<times> string \<times> string \<times> string \<times> string \<times> string \<times> string \<times> string" where
  "row_key cx a = unique_key (row_of cx a)"

lemma append_loop_success:
  assumes "t_assertions db = map (row_of cx) done" "distinct done" "\<forall>a\<in>set as. validate ch a = Inr ()"
    and "ids_consistent (set done \<union> set as)" "inj_on (row_key cx) (set done \<union> set as)"
  shows "\<exists>new. append_loop ch cx db n as = Inr (n + length new, db\<lparr> t_assertions := map (row_of cx) (done @ new) \<rparr>)
    \<and> distinct (done @ new) \<and> set (done @ new) = set done \<union> set as"
  using assms
proof (induction as arbitrary: db "done" n)
  case Nil
  then show ?case by (intro exI [of _ "[]"]) (cases db, simp)
next
  case (Cons a as)
  have ids: "distinct (map a_assertion_id done)"
    using Cons.prems(2,4) by (auto simp: distinct_map ids_consistent_def inj_on_def)
  show ?case
  proof (cases "a \<in> set done")
    case True
    then have "recorded cx db a"
      using Cons.prems(1) by (auto simp: recorded_def)
    then have "append_in ch cx db a = Inr (IdempotentDuplicate, db)"
      using Cons.prems(1,3) ids by (intro append_recorded_again) (simp_all add: comp_def)
    then show ?thesis
      using Cons.IH [of db "done" n] Cons.prems True by (simp add: insert_absorb)
  next
    case False
    have new_id: "a_assertion_id a \<notin> a_assertion_id ` set done"
      using Cons.prems(4) False by (auto simp: ids_consistent_def)
    have new_key: "row_key cx a \<notin> row_key cx ` set done"
      using Cons.prems(5) False by (auto dest: inj_onD)
    define db1 where "db1 = db\<lparr> t_assertions := map (row_of cx) (done @ [a]) \<rparr>"
    have step: "append_in ch cx db a = Inr (Appended, db1)"
      using append_in_new [of ch a db cx] Cons.prems(1,3) new_id new_key
      by (simp add: db1_def image_image row_key_def)
    have "t_assertions db1 = map (row_of cx) (done @ [a])" "distinct (done @ [a])"
      "\<forall>a\<in>set as. validate ch a = Inr ()"
      using Cons.prems(2,3) False by (simp_all add: db1_def)
    moreover have "ids_consistent (set (done @ [a]) \<union> set as)" "inj_on (row_key cx) (set (done @ [a]) \<union> set as)"
      using Cons.prems(4,5) by (simp_all add: Un_commute insert_is_Un [symmetric])
    ultimately obtain new where new: "append_loop ch cx db1 (n + 1) as =
        Inr (n + 1 + length new, db1\<lparr> t_assertions := map (row_of cx) ((done @ [a]) @ new) \<rparr>)"
      "distinct ((done @ [a]) @ new)" "set ((done @ [a]) @ new) = set (done @ [a]) \<union> set as"
      using Cons.IH [of db1 "done @ [a]" "n + 1"] by blast
    then show ?thesis
      using step by (intro exI [of _ "a # new"]) (auto simp: db1_def)
  qed
qed

lemma append_history:
  assumes "append_loop ch cx empty_db 0 as = Inr (n, db)" "ids_consistent (set as)"
  shows "\<forall>a\<in>set as. validate ch a = Inr ()" "inj_on (row_key cx) (set as)"
proof -
  have ok0: "rows_ok ch cx (t_assertions empty_db)" by (simp add: rows_ok_def empty_db_def)
  have ok: "rows_ok ch cx (t_assertions db)" using append_loop_ok [OF assms(1) ok0] by simp
  show "\<forall>a\<in>set as. validate ch a = Inr ()" using append_loop_recorded [OF assms(1) ok0] by blast
  have row: "row_of cx a \<in> set (t_assertions db)" if a: "a \<in> set as" for a
  proof -
    have "recorded cx db a" using append_loop_recorded [OF assms(1) ok0 a] by simp
    then obtain r where r: "r \<in> set (t_assertions db)" "c_assertion_id r = a_assertion_id a"
      by (auto simp: recorded_def)
    then obtain b where "b \<in> set as" "r = row_of cx b"
      using append_loop_rows [OF assms(1)] by (auto simp: empty_db_def)
    then show ?thesis using r a assms(2) by (auto simp: ids_consistent_def)
  qed
  show "inj_on (row_key cx) (set as)"
  proof (rule inj_onI)
    fix a b assume ab: "a \<in> set as" "b \<in> set as" "row_key cx a = row_key cx b"
    have "inj_on unique_key (set (t_assertions db))" using ok by (simp add: rows_ok_def distinct_map)
    then have "row_of cx a = row_of cx b" using row [OF ab(1)] row [OF ab(2)] ab(3)
      by (auto simp: row_key_def dest: inj_onD)
    then have "a_assertion_id a = a_assertion_id b" by (metis row_of_id)
    then show "a = b" using ab(1,2) assms(2) by (auto simp: ids_consistent_def)
  qed
qed

section \<open>Properties of the store\<close>

definition demo_store_codec :: store_codec where
  "demo_store_codec = \<lparr> to_text = (\<lambda>_. []), from_text = (\<lambda>_. None), sha256 = (\<lambda>_. [1, 2]),
     read_value = (\<lambda>_. Inr Unit), read_strings = (\<lambda>_. Inr []) \<rparr>"

text \<open>
  C6: Arrival order never matters to the store: if a history of assertions with consistent
  identities is accepted by an empty store, every other order or repetition of the same
  assertions is accepted too, appends as many rows, and every repository reads back the
  same list of assertions.
\<close>

theorem append_order_free:
  assumes "append_all ch cx empty_db as = Inr (n, db)" "ids_consistent (set as)" "set bs = set as"
  shows "\<exists>db'. append_all ch cx empty_db bs = Inr (n, db')
    \<and> assertions_for_repo ch cx db' repo = assertions_for_repo ch cx db repo"
proof -
  note hist = append_history [OF assms(1) [unfolded append_all_def] assms(2)]
  have run: "\<exists>new. append_all ch cx empty_db cs = Inr (length new, empty_db\<lparr> t_assertions := map (row_of cx) new \<rparr>)
      \<and> distinct new \<and> set new = set as" if "set cs = set as" for cs
    using append_loop_success [of empty_db cx "[]" cs ch 0] hist assms(2) that
    by (simp add: append_all_def empty_db_def)
  obtain new where new: "db = empty_db\<lparr> t_assertions := map (row_of cx) new \<rparr>" "n = length new" "distinct new" "set new = set as"
    using run [of as] assms(1) by auto
  obtain new' where new': "append_all ch cx empty_db bs = Inr (length new', empty_db\<lparr> t_assertions := map (row_of cx) new' \<rparr>)"
    "distinct new'" "set new' = set as"
    using run [OF assms(3)] by auto
  have "length new' = n" using new new' by (metis distinct_card)
  moreover have ids: "distinct (map c_assertion_id (map (row_of cx) xs))" if "distinct xs" "set xs = set as" for xs
    using that assms(2) by (auto simp: distinct_map inj_on_def ids_consistent_def)
  have "sort_key row_order (filter (in_repo repo) (map (row_of cx) new)) = sort_key row_order (filter (in_repo repo) (map (row_of cx) new'))"
    using ids [OF new(3,4)] ids [OF new'(2,3)] new(4) new'(3) by (intro sorted_rows_unique) simp_all
  ultimately show ?thesis using new(1) new'(1) by (auto simp: assertions_for_repo_def)
qed

theorem append_order_free_witness:
  "\<exists>db'. append_all demo_chrono demo_store_codec empty_db [demo_row_later, demo_row] = Inr (2, db')"
proof -
  have "ids_consistent (set [demo_row, demo_row_later])" "set [demo_row_later, demo_row] = set [demo_row, demo_row_later]"
    by (code_simp, auto)
  moreover have "validate demo_chrono demo_row = Inr ()" "validate demo_chrono demo_row_later = Inr ()"
    by code_simp+
  then have "append_all demo_chrono demo_store_codec empty_db [demo_row, demo_row_later] =
      Inr (2, empty_db\<lparr> t_assertions := [row_of demo_store_codec demo_row, row_of demo_store_codec demo_row_later] \<rparr>)"
    by (simp add: append_all_def append_in_def empty_db_def unique_key_row_of demo_row_def demo_row_later_def)
  ultimately show ?thesis
    using append_order_free [of demo_chrono demo_store_codec "[demo_row, demo_row_later]" 2] by blast
qed

text \<open>
  Appending is idempotent: appending a batch again to the store it produced succeeds,
  appends nothing and leaves the store as it is.
\<close>

lemma append_all_idempotent:
  assumes "append_all ch cx db as = Inr (n, db')" "rows_ok ch cx (t_assertions db)"
  shows "append_all ch cx db' as = Inr (0, db')"
proof -
  note run = assms(1) [unfolded append_all_def]
  have ids: "distinct (map c_assertion_id (t_assertions db'))"
    using append_loop_ok [OF run assms(2)] by (simp add: rows_ok_def)
  have "append_in ch cx db' a = Inr (IdempotentDuplicate, db')" if "a \<in> set as" for a
    using append_loop_recorded [OF run assms(2) that] ids by (intro append_recorded_again) simp_all
  then show ?thesis by (simp add: append_all_def append_loop_noop)
qed

lemma append_all_idempotent_witness:
  "append_all demo_chrono demo_store_codec (empty_db\<lparr> t_assertions := [row_of demo_store_codec demo_row] \<rparr>) [demo_row, demo_row]
     = Inr (0, empty_db\<lparr> t_assertions := [row_of demo_store_codec demo_row] \<rparr>)"
proof (rule append_all_idempotent)
  have "validate demo_chrono demo_row = Inr ()" by code_simp
  then show "append_all demo_chrono demo_store_codec empty_db [demo_row, demo_row]
      = Inr (1, empty_db\<lparr> t_assertions := [row_of demo_store_codec demo_row] \<rparr>)"
    by (simp add: append_all_def append_in_def empty_db_def)
qed (simp add: rows_ok_def empty_db_def)

text \<open>
  C10: A valid assertion is read back from the row the store wrote for it exactly if the
  identifier of its object reads back: a number below \<open>2^64\<close>, or a SHA that is not itself a
  number. The JSON reader is only asked to invert the writer on the two JSON columns of that
  row. So the round trip holds of every valid assertion but those about a commit whose SHA is
  all digits (with an optional plus sign), which the store accepts and cannot read.
\<close>

theorem stored_row_round_trip:
  assumes "validate ch a = Inr ()" "reads_back cx a"
  shows "decode_assertion_row ch cx (row_of cx a) = Inr a \<longleftrightarrow> decodable a"
proof
  assume "decode_assertion_row ch cx (row_of cx a) = Inr a"
  then have "decode_object (kind_token (s_object (a_subject a))) (id_token (s_object (a_subject a))) = Inr (s_object (a_subject a))"
    using decode_fields(3) [of ch cx "row_of cx a" a] by (simp add: row_of_def)
  then show "decodable a"
    by (cases "s_object (a_subject a)")
      (auto simp: decodable_def decode_object_def parse_u64_def strip_plus_digits digits_show_nat Let_def split: option.splits if_splits)
qed (use decode_row_of assms in blast)

text \<open>
  A writer of JSON for the values the store writes, and a reader that looks a text up among
  the texts of some values and rejects every other text.
\<close>

fun demo_text :: "json \<Rightarrow> string" where
  "demo_text (JString s) = CHR 34 # s @ [CHR 34]"
| "demo_text (JNumber (PosInt n)) = show_nat n"
| "demo_text (JArray js) = ''['' @ concat (map (\<lambda>j. demo_text j @ '','') js) @ '']''"
| "demo_text (JObject kvs) = ''{'' @ concat (map (\<lambda>(k, j). CHR 34 # k @ CHR 34 # CHR '':'' # demo_text j @ '','') kvs) @ ''}''"
| "demo_text _ = []"

definition demo_lookup :: "('v \<Rightarrow> json) \<Rightarrow> 'v list \<Rightarrow> string \<Rightarrow> string + 'v" where
  "demo_lookup to_json vs t = (case find (\<lambda>v. demo_text (to_json v) = t) vs of Some v \<Rightarrow> Inr v | None \<Rightarrow> Inl ''unknown text'')"

definition demo_text_codec :: store_codec where
  "demo_text_codec = demo_store_codec\<lparr> to_text := demo_text,
     read_value := demo_lookup value_json [Unit, CommitSha ''abc'', HandoffId ''h1'', ObjectRef (PullRequest 8),
       ObjectRefs [PullRequest 8, PullRequest 9]],
     read_strings := demo_lookup (\<lambda>es. JArray (map JString es)) [[], [''e1''], [''e1'', ''e2'']] \<rparr>"

definition demo_link :: assertion where
  "demo_link = demo_row\<lparr> a_predicate := ImplementationPrLinked, a_value := ObjectRefs [PullRequest 8, PullRequest 9],
     a_evidence_refs := [''e1'', ''e2''] \<rparr>"

theorem stored_row_round_trip_witness:
  "decode_assertion_row demo_chrono demo_text_codec (row_of demo_text_codec demo_link) = Inr demo_link
   \<and> read_value demo_text_codec (to_text demo_text_codec (JString ''abc'')) = Inl ''unknown text''"
proof
  have "validate demo_chrono demo_link = Inr ()" by code_simp
  moreover have "reads_back demo_text_codec demo_link"
    by (simp add: reads_back_def demo_text_codec_def demo_lookup_def demo_link_def show_nat.simps digit_char_def)
  moreover have "decodable demo_link" by (simp add: decodable_def demo_link_def demo_row_def)
  ultimately show "decode_assertion_row demo_chrono demo_text_codec (row_of demo_text_codec demo_link) = Inr demo_link"
    using stored_row_round_trip by blast
qed (simp add: demo_text_codec_def demo_lookup_def show_nat.simps digit_char_def)

definition numeric_commit :: assertion where
  "numeric_commit = demo_row\<lparr> a_subject := SubjectRef ''o/r'' (Commit ''12345678''), a_predicate := PrOpen \<rparr>"

text \<open>
  A commit whose SHA reads as a number is accepted by \<open>append\<close> and can never be read
  back: the row the store itself wrote is reported as corrupt, and with it every read of
  its repository fails.
\<close>

lemma numeric_commit_unreadable:
  "append_all demo_chrono demo_store_codec empty_db [demo_row_later, numeric_commit]
     = Inr (2, empty_db\<lparr> t_assertions := [row_of demo_store_codec demo_row_later, row_of demo_store_codec numeric_commit] \<rparr>)
   \<and> assertions_for_repo demo_chrono demo_store_codec
      (empty_db\<lparr> t_assertions := [row_of demo_store_codec demo_row_later, row_of demo_store_codec numeric_commit] \<rparr>) ''o/r''
     = Inl (CorruptRow ''subject commit/12345678'')"
proof -
  let ?rows = "[row_of demo_store_codec demo_row_later, row_of demo_store_codec numeric_commit]"
  have valid: "validate demo_chrono demo_row_later = Inr ()" "validate demo_chrono numeric_commit = Inr ()"
    by code_simp+
  have differ: "unique_key (row_of demo_store_codec numeric_commit) \<noteq> unique_key (row_of demo_store_codec demo_row_later)"
    by (simp add: unique_key_row_of numeric_commit_def demo_row_later_def demo_row_def)
  have ids: "a_assertion_id numeric_commit \<noteq> a_assertion_id demo_row_later"
    by (simp add: numeric_commit_def demo_row_later_def demo_row_def)
  have "append_in demo_chrono demo_store_codec empty_db demo_row_later
      = Inr (Appended, empty_db\<lparr> t_assertions := [row_of demo_store_codec demo_row_later] \<rparr>)"
    using append_in_new [OF valid(1), of empty_db] by (simp add: empty_db_def)
  moreover have "append_in demo_chrono demo_store_codec (empty_db\<lparr> t_assertions := [row_of demo_store_codec demo_row_later] \<rparr>) numeric_commit
      = Inr (Appended, empty_db\<lparr> t_assertions := ?rows \<rparr>)"
    using append_in_new [OF valid(2), of "empty_db\<lparr> t_assertions := [row_of demo_store_codec demo_row_later] \<rparr>"] ids differ
    by simp
  ultimately have "append_all demo_chrono demo_store_codec empty_db [demo_row_later, numeric_commit]
     = Inr (2, empty_db\<lparr> t_assertions := ?rows \<rparr>)"
    by (simp add: append_all_def)
  moreover have "decode_object ''commit'' ''12345678'' = Inl (CorruptRow ''subject commit/12345678'')"
    by (simp add: decode_object_def parse_u64_def strip_plus_def decimal_def digit_value_def is_ascii_digit_def)
  then have "decode_assertion_row demo_chrono demo_store_codec (row_of demo_store_codec numeric_commit)
      = Inl (CorruptRow ''subject commit/12345678'')"
    by (simp add: decode_assertion_row_def row_of_def numeric_commit_def)
  moreover have "sort_key row_order (filter (in_repo ''o/r'') ?rows) = [row_of demo_store_codec numeric_commit, row_of demo_store_codec demo_row_later]"
  proof -
    have "in_repo ''o/r'' (row_of demo_store_codec numeric_commit)" "in_repo ''o/r'' (row_of demo_store_codec demo_row_later)"
      by (simp_all add: in_repo_def row_of_def numeric_commit_def demo_row_later_def demo_row_def)
    moreover have "''commit'' < ''issue''" by code_simp
    then have "row_order (row_of demo_store_codec numeric_commit) < row_order (row_of demo_store_codec demo_row_later)"
      by (simp add: row_order_def row_of_def numeric_commit_def demo_row_later_def demo_row_def)
    ultimately show ?thesis by simp
  qed
  ultimately show ?thesis by (simp add: assertions_for_repo_def)
qed

end
