(* ===== verification/Truth_Posture.thy ===== *)
theory Truth_Posture
  imports Truth_Store
begin

text \<open>
  The refresh posture of the store, the second half of
  \<open>crates/tachi-params/src/current_truth/store.rs\<close>: the strictly monotonic refresh records
  per subject slice, the reconciliation of the repository's visibility, the aggregated
  posture of a repository, and the transactions that combine them with appends.
\<close>

section \<open>Recording a refresh\<close>

definition validate_refresh ::
  "chrono \<Rightarrow> string \<Rightarrow> bool \<Rightarrow> string option \<Rightarrow> string option \<Rightarrow> string \<Rightarrow> (unit, store_error) result" where
  "validate_refresh ch repo fresh last_fresh_revision last_fresh_at recorded_at =
    (if parse_from_rfc3339 ch recorded_at = None then Err (MalformedObservedAt recorded_at)
     else if fresh \<and> (last_fresh_revision \<in> {None, Some []} \<or> last_fresh_at \<in> {None, Some []})
       then Err (FreshPostureMissingRevision repo)
     else case last_fresh_at of
       Some at \<Rightarrow> if at \<noteq> [] \<and> parse_from_rfc3339 ch at = None then Err (MalformedObservedAt at) else Ok ()
     | None \<Rightarrow> Ok ())"

definition in_slice :: "string \<Rightarrow> string \<Rightarrow> refresh_row \<Rightarrow> bool" where
  "in_slice repo subject_token r \<longleftrightarrow> eq_ignore_ascii_case (f_repo r) repo
     \<and> eq_ignore_ascii_case (f_subject_token r) subject_token"

definition coalesce :: "'a option \<Rightarrow> 'a option \<Rightarrow> 'a option" where
  "coalesce new old = (case new of Some _ \<Rightarrow> new | None \<Rightarrow> old)"

definition attempt_instant :: "chrono \<Rightarrow> refresh_row \<Rightarrow> int" where
  "attempt_instant ch r = ordering_instant ch (row_last_attempt_at (f_posture r))"

definition record_refresh_in ::
  "chrono \<Rightarrow> truth_db \<Rightarrow> string \<Rightarrow> string \<Rightarrow> bool \<Rightarrow> string option \<Rightarrow> string option \<Rightarrow> string \<Rightarrow> string option
   \<Rightarrow> (truth_db, store_error) result" where
  "record_refresh_in ch db repo subject_token fresh last_fresh_revision last_fresh_at recorded_at unavailable_reason =
    (let existing = filter (in_slice repo subject_token) (t_refresh db) in
     case max_by_key (attempt_instant ch) existing of
       None \<Rightarrow> Ok (db\<lparr> t_refresh := t_refresh db @
         [\<lparr> f_repo = repo, f_subject_token = subject_token,
            f_posture = \<lparr> row_fresh = fresh, row_last_fresh_revision = last_fresh_revision,
              row_last_fresh_at = last_fresh_at, row_last_attempt_at = recorded_at,
              row_unavailable_reason = unavailable_reason, row_repository_visibility = None,
              row_repository_visibility_at = None \<rparr> \<rparr>] \<rparr>)
     | Some latest \<Rightarrow>
         if ordering_instant ch recorded_at \<le> attempt_instant ch latest
         then Err (StaleRefreshRecord repo recorded_at (row_last_attempt_at (f_posture latest)))
         else Ok (db\<lparr> t_refresh := map (\<lambda>r. if in_slice repo subject_token r
            then r\<lparr> f_posture := (f_posture r)\<lparr> row_fresh := fresh,
                row_last_fresh_revision := coalesce last_fresh_revision (row_last_fresh_revision (f_posture r)),
                row_last_fresh_at := coalesce last_fresh_at (row_last_fresh_at (f_posture r)),
                row_last_attempt_at := recorded_at, row_unavailable_reason := unavailable_reason \<rparr> \<rparr>
            else r) (t_refresh db) \<rparr>))"

definition record_subject_refresh ::
  "chrono \<Rightarrow> truth_db \<Rightarrow> string \<Rightarrow> string \<Rightarrow> bool \<Rightarrow> string option \<Rightarrow> string option \<Rightarrow> string \<Rightarrow> string option
   \<Rightarrow> (truth_db, store_error) result" where
  "record_subject_refresh ch db repo subject_token fresh last_fresh_revision last_fresh_at recorded_at unavailable_reason =
     and_then (validate_refresh ch repo fresh last_fresh_revision last_fresh_at recorded_at) (\<lambda>_.
       record_refresh_in ch db repo subject_token fresh last_fresh_revision last_fresh_at recorded_at unavailable_reason)"

definition record_refresh ::
  "chrono \<Rightarrow> truth_db \<Rightarrow> string \<Rightarrow> bool \<Rightarrow> string option \<Rightarrow> string option \<Rightarrow> string \<Rightarrow> string option
   \<Rightarrow> (truth_db, store_error) result" where
  "record_refresh ch db repo fresh last_fresh_revision last_fresh_at recorded_at unavailable_reason =
     record_subject_refresh ch db repo REPOSITORY_REFRESH_SCOPE fresh last_fresh_revision last_fresh_at
       recorded_at unavailable_reason"

section \<open>Repository visibility\<close>

fun private_rank :: "visibility \<Rightarrow> nat" where
  "private_rank Private = 1"
| "private_rank Public = 0"

definition visibility_candidates :: "truth_db \<Rightarrow> string \<Rightarrow> (visibility \<times> string) list" where
  "visibility_candidates db repo =
     concat (map (\<lambda>r. case (row_repository_visibility (f_posture r), row_repository_visibility_at (f_posture r)) of
         (Some v, Some at) \<Rightarrow> [(v, at)] | _ \<Rightarrow> [])
       (filter (\<lambda>r. eq_ignore_ascii_case (f_repo r) repo) (t_refresh db)))"

definition visibility_key :: "chrono \<Rightarrow> visibility \<times> string \<Rightarrow> int \<times> nat" where
  "visibility_key ch c = (ordering_instant ch (snd c), private_rank (fst c))"

definition reconcile_visibility ::
  "chrono \<Rightarrow> (visibility \<times> string) option \<Rightarrow> visibility \<Rightarrow> string \<Rightarrow> visibility \<times> string" where
  "reconcile_visibility ch known v observed_at = (case known of
     None \<Rightarrow> (v, observed_at)
   | Some (current, current_at) \<Rightarrow>
       if ordering_instant ch observed_at > ordering_instant ch current_at then (v, observed_at)
       else if ordering_instant ch observed_at = ordering_instant ch current_at then
         (if current = Private \<or> v = Private then Private else Public, current_at)
       else (current, current_at))"

definition set_visibility :: "string \<Rightarrow> visibility \<times> string \<Rightarrow> refresh_row \<Rightarrow> refresh_row" where
  "set_visibility repo c r =
     (if eq_ignore_ascii_case (f_repo r) repo
      then r\<lparr> f_posture := (f_posture r)\<lparr> row_repository_visibility := Some (fst c),
                row_repository_visibility_at := Some (snd c) \<rparr> \<rparr>
      else r)"

definition record_repository_visibility ::
  "chrono \<Rightarrow> truth_db \<Rightarrow> string \<Rightarrow> visibility \<Rightarrow> string \<Rightarrow> (bool \<times> truth_db, store_error) result" where
  "record_repository_visibility ch db repo v observed_at =
    (if parse_from_rfc3339 ch observed_at = None then Err (MalformedObservedAt observed_at)
     else let known = max_by_key (visibility_key ch) (visibility_candidates db repo);
              c = reconcile_visibility ch known v observed_at
          in Ok (list_ex (\<lambda>r. eq_ignore_ascii_case (f_repo r) repo) (t_refresh db),
                 db\<lparr> t_refresh := map (set_visibility repo c) (t_refresh db) \<rparr>))"

section \<open>Combined transaction\<close>

text \<open>
  The consumer runs inside the transaction: its error, of whatever type, rolls back the
  whole attempt. The store's errors are injected into the caller's error type. It is given
  the store itself, so it may also write: every write of the store but \<open>drop_projection\<close>
  begins a transaction of its own, which SQLite refuses here.
\<close>

definition lift_err :: "(store_error \<Rightarrow> 'e) \<Rightarrow> ('t, store_error) result \<Rightarrow> ('t, 'e) result" where
  "lift_err f r = (case r of Inl e \<Rightarrow> Inl (f e) | Inr t \<Rightarrow> Inr t)"

definition append_subject_refresh_and_consume ::
  "chrono \<Rightarrow> store_codec \<Rightarrow> (store_error \<Rightarrow> 'e) \<Rightarrow> truth_db \<Rightarrow> assertion list \<Rightarrow> string \<Rightarrow> string \<Rightarrow> string
   \<Rightarrow> string \<Rightarrow> string \<Rightarrow> visibility option \<Rightarrow> (truth_db \<Rightarrow> nat \<Rightarrow> ('t \<times> truth_db, 'e) result) \<Rightarrow> ('t \<times> truth_db, 'e) result" where
  "append_subject_refresh_and_consume ch cx from_store db as repo subject_token last_fresh_revision
     last_fresh_at recorded_at repository_visibility consume =
   and_then (lift_err from_store (validate_refresh ch repo True (Some last_fresh_revision) (Some last_fresh_at) recorded_at)) (\<lambda>_.
   and_then (lift_err from_store (append_loop ch cx db 0 as)) (\<lambda>(appended, db1).
   and_then (lift_err from_store (record_refresh_in ch db1 repo subject_token True (Some last_fresh_revision)
       (Some last_fresh_at) recorded_at None)) (\<lambda>db2.
   and_then (case repository_visibility of
       None \<Rightarrow> Ok db2
     | Some v \<Rightarrow> and_then (lift_err from_store (record_repository_visibility ch db2 repo v recorded_at)) (\<lambda>(_, db3). Ok db3)) (\<lambda>db4.
   consume db4 appended))))"

definition append_all_and_record_subject_refresh ::
  "chrono \<Rightarrow> store_codec \<Rightarrow> truth_db \<Rightarrow> assertion list \<Rightarrow> string \<Rightarrow> string \<Rightarrow> string \<Rightarrow> string \<Rightarrow> string
   \<Rightarrow> (nat \<times> truth_db, store_error) result" where
  "append_all_and_record_subject_refresh ch cx db as repo subject_token last_fresh_revision last_fresh_at recorded_at =
     append_subject_refresh_and_consume ch cx id db as repo subject_token last_fresh_revision
       last_fresh_at recorded_at None (\<lambda>db' appended. Ok (appended, db'))"

section \<open>Reading the posture\<close>

text \<open>First the statement's \<open>ORDER BY\<close>, then the stable sort by instant and subject.\<close>

definition sql_posture_le :: "refresh_row \<Rightarrow> refresh_row \<Rightarrow> bool" where
  "sql_posture_le a b \<longleftrightarrow> row_last_attempt_at (f_posture b) < row_last_attempt_at (f_posture a)
     \<or> row_last_attempt_at (f_posture b) = row_last_attempt_at (f_posture a) \<and> f_subject_token a \<le> f_subject_token b"

definition posture_le :: "chrono \<Rightarrow> refresh_row \<Rightarrow> refresh_row \<Rightarrow> bool" where
  "posture_le ch a b \<longleftrightarrow> attempt_instant ch b < attempt_instant ch a
     \<or> attempt_instant ch b = attempt_instant ch a \<and> f_subject_token a \<le> f_subject_token b"

definition repo_postures :: "chrono \<Rightarrow> truth_db \<Rightarrow> string \<Rightarrow> refresh_row list" where
  "repo_postures ch db repo = sort_by (posture_le ch) (sort_by sql_posture_le
     (filter (\<lambda>r. eq_ignore_ascii_case (f_repo r) repo) (t_refresh db)))"

fun somes :: "'a option list \<Rightarrow> 'a list" where
  "somes [] = []"
| "somes (None # xs) = somes xs"
| "somes (Some x # xs) = x # somes xs"

definition refresh_posture_row :: "chrono \<Rightarrow> codec \<Rightarrow> truth_db \<Rightarrow> string \<Rightarrow> posture_row option" where
  "refresh_posture_row ch cx db repo =
    (case repo_postures ch db repo of
       [] \<Rightarrow> None
     | [r] \<Rightarrow> Some (f_posture r)
     | latest # rest \<Rightarrow>
        let rows = latest # rest;
            vis = map (row_repository_visibility \<circ> f_posture) rows;
            revisions = somes (map (\<lambda>r. map_option (Pair (f_subject_token r)) (row_last_fresh_revision (f_posture r))) rows)
        in Some \<lparr>
          row_fresh = list_all (row_fresh \<circ> f_posture) rows,
          row_last_fresh_revision =
            (if revisions = [] then None
             else Some (''subject-set:'' @ canonical_json_digest_hex cx
               (JObject [(''subject_revisions'', JArray (map (\<lambda>(s, rev). JArray [JString s, JString rev]) revisions))]))),
          row_last_fresh_at = max_by_key (ordering_instant ch) (somes (map (row_last_fresh_at \<circ> f_posture) rows)),
          row_last_attempt_at = row_last_attempt_at (f_posture latest),
          row_unavailable_reason =
            (case find (\<lambda>r. \<not> row_fresh (f_posture r)) rows of
               None \<Rightarrow> None | Some r \<Rightarrow> row_unavailable_reason (f_posture r)),
          row_repository_visibility =
            (if Some Private \<in> set vis then Some Private
             else if Some Public \<in> set vis then Some Public else None),
          row_repository_visibility_at =
            max_by_key (ordering_instant ch) (somes (map (row_repository_visibility_at \<circ> f_posture) rows)) \<rparr>)"

definition repository_visibility :: "chrono \<Rightarrow> codec \<Rightarrow> truth_db \<Rightarrow> string \<Rightarrow> visibility option" where
  "repository_visibility ch cx db repo =
     (case refresh_posture_row ch cx db repo of None \<Rightarrow> None | Some r \<Rightarrow> row_repository_visibility r)"

definition refresh_debt_repos :: "truth_db \<Rightarrow> nat" where
  "refresh_debt_repos db =
     length (remdups (map (to_ascii_lowercase \<circ> f_repo) (filter (\<lambda>r. \<not> row_fresh (f_posture r)) (t_refresh db))))"

section \<open>The store as a state machine\<close>

definition callback_writes :: "truth_db \<Rightarrow> truth_db \<Rightarrow> bool" where
  "callback_writes = (\<lambda>db db'. \<exists>repo. db' = drop_projection db repo)\<^sup>*\<^sup>*"

inductive store_step :: "chrono \<Rightarrow> store_codec \<Rightarrow> truth_db \<Rightarrow> truth_db \<Rightarrow> bool" for ch cx where
  step_append: "append_all ch cx db as = Inr (n, db') \<Longrightarrow> store_step ch cx db db'"
| step_refresh: "record_subject_refresh ch db repo tok fresh lrev at rec_at reason = Inr db' \<Longrightarrow> store_step ch cx db db'"
| step_visibility: "record_repository_visibility ch db repo v at = Inr (b, db') \<Longrightarrow> store_step ch cx db db'"
| step_consume: "append_subject_refresh_and_consume ch cx (f :: store_error \<Rightarrow> string) db as repo tok lrev at rec_at vis
      (consume :: truth_db \<Rightarrow> nat \<Rightarrow> (string \<times> truth_db, string) result) = Inr (t, db') \<Longrightarrow>
    (\<And>d n t d'. consume d n = Inr (t, d') \<Longrightarrow> callback_writes d d') \<Longrightarrow> store_step ch cx db db'"
| step_write: "store_step ch cx db (write_projection db repo g b vj)"
| step_drop: "store_step ch cx db (drop_projection db repo)"

inductive store_run :: "chrono \<Rightarrow> store_codec \<Rightarrow> truth_db \<Rightarrow> truth_db \<Rightarrow> bool" for ch cx where
  run_refl: "store_run ch cx db db"
| run_step: "store_run ch cx db1 db2 \<Longrightarrow> store_step ch cx db2 db3 \<Longrightarrow> store_run ch cx db1 db3"

inductive_cases store_stepE: "store_step ch cx db db'"

lemma record_refresh_in_assertions:
  "record_refresh_in ch db repo tok fresh lrev at rec_at reason = Inr db' \<Longrightarrow>
   t_assertions db' = t_assertions db \<and> t_projection db' = t_projection db"
  by (auto simp: record_refresh_in_def Let_def split: option.splits if_splits)

lemma record_visibility_assertions:
  "record_repository_visibility ch db repo v at = Inr (b, db') \<Longrightarrow>
   t_assertions db' = t_assertions db \<and> t_projection db' = t_projection db"
  by (auto simp: record_repository_visibility_def Let_def split: if_splits)

lemma lift_err_Inr [simp]: "lift_err f r = Inr t \<longleftrightarrow> r = Inr t"
  by (cases r) (simp_all add: lift_err_def)

lemma consume_cases:
  assumes "append_subject_refresh_and_consume ch cx f db as repo tok lrev at rec_at vis consume = Inr (t, db')"
  obtains m db1 db2 db3 where "append_loop ch cx db 0 as = Inr (m, db1)"
    "record_refresh_in ch db1 repo tok True (Some lrev) (Some at) rec_at None = Inr db2"
    "vis = None \<and> db3 = db2 \<or> (\<exists>v b. vis = Some v \<and> record_repository_visibility ch db2 repo v rec_at = Inr (b, db3))"
    "consume db3 m = Inr (t, db')"
  using assms unfolding append_subject_refresh_and_consume_def
  by (cases vis) (auto simp: and_then_Inr_iff)

lemma callback_assertions: "callback_writes db db' \<Longrightarrow> t_assertions db' = t_assertions db"
  unfolding callback_writes_def by (induction rule: rtranclp_induct) (auto simp: drop_projection_def)

definition extends :: "chrono \<Rightarrow> store_codec \<Rightarrow> truth_db \<Rightarrow> truth_db \<Rightarrow> bool" where
  "extends ch cx db db' \<longleftrightarrow> rows_ok ch cx (t_assertions db') \<and> (\<exists>new. t_assertions db' = t_assertions db @ new)"

lemma store_step_extends:
  assumes "store_step ch cx db db'" "rows_ok ch cx (t_assertions db)"
  shows "extends ch cx db db'"
  using assms(1)
proof (rule store_stepE)
  fix as n assume "append_all ch cx db as = Inr (n, db')"
  then show ?thesis using append_loop_ok [of ch cx db 0 as n db'] assms(2) by (auto simp: append_all_def extends_def)
next
  fix repo tok fresh lrev at rec_at reason
  assume "record_subject_refresh ch db repo tok fresh lrev at rec_at reason = Inr db'"
  then have "t_assertions db' = t_assertions db"
    using record_refresh_in_assertions by (auto simp: record_subject_refresh_def and_then_Inr_iff)
  then show ?thesis using assms(2) by (simp add: extends_def)
next
  fix repo v at b assume "record_repository_visibility ch db repo v at = Inr (b, db')"
  then show ?thesis using record_visibility_assertions assms(2) by (simp add: extends_def)
next
  fix f as repo tok lrev at rec_at vis consume t
  assume call: "append_subject_refresh_and_consume ch cx f db as repo tok lrev at rec_at vis
      (consume :: truth_db \<Rightarrow> nat \<Rightarrow> (string \<times> truth_db, string) result) = Inr (t, db')"
    and writes: "\<And>d n t d'. consume d n = Inr (t, d') \<Longrightarrow> callback_writes d d'"
  from call obtain m db1 db2 db3 where run: "append_loop ch cx db 0 as = Inr (m, db1)"
    "record_refresh_in ch db1 repo tok True (Some lrev) (Some at) rec_at None = Inr db2"
    "vis = None \<and> db3 = db2 \<or> (\<exists>v b. vis = Some v \<and> record_repository_visibility ch db2 repo v rec_at = Inr (b, db3))"
    "consume db3 m = Inr (t, db')"
    by (rule consume_cases)
  have "t_assertions db3 = t_assertions db1"
    using run(2,3) record_refresh_in_assertions record_visibility_assertions by metis
  moreover have "t_assertions db' = t_assertions db3"
    using writes [OF run(4)] by (rule callback_assertions)
  ultimately have "t_assertions db' = t_assertions db1" by simp
  then show ?thesis using append_loop_ok [OF run(1) assms(2)] by (simp add: extends_def)
qed (use assms(2) in \<open>auto simp: extends_def write_projection_def drop_projection_def Let_def\<close>)

lemma store_run_extends:
  "store_run ch cx db db' \<Longrightarrow> rows_ok ch cx (t_assertions db) \<Longrightarrow> extends ch cx db db'"
proof (induction rule: store_run.induct)
  case (run_step db1 db2 db3)
  then have "extends ch cx db1 db2" by simp
  moreover from this have "extends ch cx db2 db3"
    using store_step_extends [OF run_step.hyps(2)] by (simp add: extends_def)
  ultimately show ?case by (auto simp: extends_def)
qed (simp add: extends_def)

section \<open>Reconciling visibility\<close>

lemma private_rank_facts: "private_rank v \<le> Suc 0" "v \<noteq> Private \<Longrightarrow> private_rank v = 0"
  by (cases v; simp)+

lemma reconcile_key:
  "visibility_key ch (reconcile_visibility ch known v at) =
     (case known of None \<Rightarrow> visibility_key ch (v, at) | Some c \<Rightarrow> max (visibility_key ch c) (visibility_key ch (v, at)))"
  by (cases known) (auto simp: reconcile_visibility_def visibility_key_def max_def private_rank_facts split: prod.splits;
      cases v; auto simp: private_rank_facts)+

definition mine :: "string \<Rightarrow> refresh_row \<Rightarrow> bool" where
  "mine repo r \<longleftrightarrow> eq_ignore_ascii_case (f_repo r) repo"

lemma set_visibility_repo [simp]: "f_repo (set_visibility repo c r) = f_repo r"
  by (simp add: set_visibility_def)

lemma mine_set_visibility [simp]: "mine repo (set_visibility repo' c r) = mine repo r"
  by (simp add: mine_def)

lemma candidates_after:
  "visibility_candidates (db\<lparr> t_refresh := map (set_visibility repo c) (t_refresh db) \<rparr>) repo
     = replicate (length (filter (mine repo) (t_refresh db))) c"
proof -
  have "concat (map (\<lambda>r. case (row_repository_visibility (f_posture r), row_repository_visibility_at (f_posture r)) of
         (Some v, Some at) \<Rightarrow> [(v, at)] | _ \<Rightarrow> []) (filter (mine repo) (map (set_visibility repo c) rows)))
      = replicate (length (filter (mine repo) rows)) c" for rows
    by (induction rows) (auto simp: set_visibility_def mine_def)
  then show ?thesis by (simp add: visibility_candidates_def mine_def [abs_def])
qed

lemma max_by_key_replicate: "0 < n \<Longrightarrow> max_by_key f (replicate n c) = Some c"
proof (induction n)
  case (Suc n)
  then show ?case by (cases n) simp_all
qed simp

definition known_visibility :: "chrono \<Rightarrow> truth_db \<Rightarrow> string \<Rightarrow> (visibility \<times> string) option" where
  "known_visibility ch db repo = max_by_key (visibility_key ch) (visibility_candidates db repo)"

lemma record_visibility_known:
  assumes "record_repository_visibility ch db repo v at = Inr (b, db')" "filter (mine repo) (t_refresh db) \<noteq> []"
  shows "known_visibility ch db' repo = Some (reconcile_visibility ch (known_visibility ch db repo) v at)"
    "t_refresh db' = map (set_visibility repo (reconcile_visibility ch (known_visibility ch db repo) v at)) (t_refresh db)"
proof -
  let ?c = "reconcile_visibility ch (known_visibility ch db repo) v at"
  have db': "db' = db\<lparr> t_refresh := map (set_visibility repo ?c) (t_refresh db) \<rparr>"
    using assms(1) by (auto simp: record_repository_visibility_def known_visibility_def Let_def split: if_splits)
  then show "t_refresh db' = map (set_visibility repo ?c) (t_refresh db)" by simp
  show "known_visibility ch db' repo = Some ?c"
    using assms(2) unfolding known_visibility_def [of ch db'] unfolding db' candidates_after
    by (intro max_by_key_replicate) simp
qed

lemma record_visibility_none:
  assumes "record_repository_visibility ch db repo v at = Inr (b, db')" "filter (mine repo) (t_refresh db) = []"
  shows "t_refresh db' = t_refresh db"
proof -
  have "\<forall>r\<in>set (t_refresh db). \<not> eq_ignore_ascii_case (f_repo r) repo"
    using assms(2) by (simp add: filter_empty_conv mine_def)
  then show ?thesis
    using assms(1) by (auto simp: record_repository_visibility_def Let_def set_visibility_def split: if_splits intro!: map_idI)
qed

text \<open>What a row says of visibility: the value and the instant it was observed at.\<close>

definition visibility_view :: "chrono \<Rightarrow> refresh_row \<Rightarrow> string \<times> string \<times> visibility option \<times> int option" where
  "visibility_view ch r = (f_repo r, f_subject_token r, row_repository_visibility (f_posture r),
     map_option (ordering_instant ch) (row_repository_visibility_at (f_posture r)))"

lemma key_determines: "visibility_key ch c = visibility_key ch d \<Longrightarrow>
    fst c = fst d \<and> ordering_instant ch (snd c) = ordering_instant ch (snd d)"
  by (cases "fst c"; cases "fst d") (auto simp: visibility_key_def)

lemma set_visibility_view:
  "visibility_key ch c = visibility_key ch d \<Longrightarrow>
   map (visibility_view ch) (map (set_visibility repo c) rows) = map (visibility_view ch) (map (set_visibility repo d) rows)"
  by (auto simp: set_visibility_def visibility_view_def dest: key_determines)

lemma set_visibility_twice: "set_visibility repo d \<circ> set_visibility repo c = set_visibility repo d"
  by (auto simp: set_visibility_def)

section \<open>Properties of the store as a whole\<close>

text \<open>
  C9: The assertion table is append-only: along every run of store operations (appends,
  refresh records, visibility reconciliation, combined transactions with a consumer,
  projection writes and drops) the old rows stay a prefix of the new ones, unchanged, and
  identities and immutable keys stay unique.
\<close>

theorem store_append_only:
  assumes "store_run ch cx db db'" "rows_ok ch cx (t_assertions db)"
  shows "rows_ok ch cx (t_assertions db') \<and> take (length (t_assertions db)) (t_assertions db') = t_assertions db"
  using store_run_extends [OF assms] by (auto simp: extends_def)

text \<open>From a store of one row: a second row is appended, the first is sent again, and a projection is written.\<close>

definition demo_one_row :: truth_db where
  "demo_one_row = empty_db\<lparr> t_assertions := [row_of demo_store_codec demo_row] \<rparr>"

definition demo_two_rows :: truth_db where
  "demo_two_rows = empty_db\<lparr> t_assertions := [row_of demo_store_codec demo_row, row_of demo_store_codec demo_row_later] \<rparr>"

theorem store_append_only_witness:
  "let db' = write_projection demo_two_rows ''o/r'' ''g'' ''t0'' ''{}''
   in append_all demo_chrono demo_store_codec demo_one_row [demo_row_later, demo_row] = Inr (1, demo_two_rows)
      \<and> rows_ok demo_chrono demo_store_codec (t_assertions db') \<and> length (t_assertions db') = 2
      \<and> take 1 (t_assertions db') = t_assertions demo_one_row"
proof -
  let ?db = "write_projection demo_two_rows ''o/r'' ''g'' ''t0'' ''{}''"
  have valid: "validate demo_chrono demo_row = Inr ()" "validate demo_chrono demo_row_later = Inr ()" by code_simp+
  have ok: "rows_ok demo_chrono demo_store_codec (t_assertions demo_one_row)"
    using valid by (auto simp: rows_ok_def demo_one_row_def)
  have append: "append_all demo_chrono demo_store_codec demo_one_row [demo_row_later, demo_row] = Inr (1, demo_two_rows)"
    using valid
    by (simp add: append_all_def append_in_def demo_one_row_def demo_two_rows_def empty_db_def unique_key_row_of demo_row_def demo_row_later_def)
  have "store_run demo_chrono demo_store_codec demo_one_row demo_two_rows"
    using append by (intro run_step [OF run_refl] step_append)
  then have "store_run demo_chrono demo_store_codec demo_one_row ?db"
    by (rule run_step [OF _ step_write])
  from store_append_only [OF this ok] append show ?thesis
    by (simp add: demo_one_row_def write_projection_def drop_projection_def demo_two_rows_def Let_def)
qed

text \<open>
  Refresh records are strictly monotonic per subject slice: a valid record is accepted
  exactly if its instant is later than that of every row of the slice, rejected as stale
  otherwise; an accepted one stamps its instant on every row of the slice and leaves every
  other row as it is.
\<close>

lemma refresh_monotonic:
  assumes "validate_refresh ch repo fresh rv fat recorded_at = Inr ()"
  shows "case record_subject_refresh ch db repo tok fresh rv fat recorded_at reason of
      Inl e \<Rightarrow> list_ex (\<lambda>r. in_slice repo tok r \<and> ordering_instant ch recorded_at \<le> attempt_instant ch r) (t_refresh db)
        \<and> (\<exists>t. e = StaleRefreshRecord repo recorded_at t)
    | Inr db' \<Rightarrow> list_all (\<lambda>r. \<not> in_slice repo tok r \<or> attempt_instant ch r < ordering_instant ch recorded_at) (t_refresh db)
        \<and> list_all (\<lambda>r. row_last_attempt_at (f_posture r) = recorded_at) (filter (in_slice repo tok) (t_refresh db'))
        \<and> filter (in_slice repo tok) (t_refresh db') \<noteq> []
        \<and> filter (\<lambda>r. \<not> in_slice repo tok r) (t_refresh db') = filter (\<lambda>r. \<not> in_slice repo tok r) (t_refresh db)"
proof -
  let ?ex = "filter (in_slice repo tok) (t_refresh db)"
  have slice: "in_slice repo tok (r\<lparr> f_posture := x \<rparr>) = in_slice repo tok r" for r x by (simp add: in_slice_def)
  show ?thesis
  proof (cases "max_by_key (attempt_instant ch) ?ex")
    case None
    then have "?ex = []" by simp
    then show ?thesis
      using assms None by (auto simp: record_subject_refresh_def record_refresh_in_def in_slice_def filter_empty_conv list_all_iff Let_def)
  next
    case (Some r)
    then have r: "r \<in> set ?ex" "\<forall>x\<in>set ?ex. attempt_instant ch x \<le> attempt_instant ch r"
      using max_by_key_Some [OF Some] by simp_all
    show ?thesis
    proof (cases "ordering_instant ch recorded_at \<le> attempt_instant ch r")
      case True
      then show ?thesis using assms Some r(1)
        by (auto simp: record_subject_refresh_def record_refresh_in_def list_ex_iff Let_def)
    next
      case False
      define upd where "upd = (\<lambda>r. if in_slice repo tok r
            then r\<lparr> f_posture := (f_posture r)\<lparr> row_fresh := fresh,
                row_last_fresh_revision := coalesce rv (row_last_fresh_revision (f_posture r)),
                row_last_fresh_at := coalesce fat (row_last_fresh_at (f_posture r)),
                row_last_attempt_at := recorded_at, row_unavailable_reason := reason \<rparr> \<rparr>
            else r)"
      have run: "record_subject_refresh ch db repo tok fresh rv fat recorded_at reason = Inr (db\<lparr> t_refresh := map upd (t_refresh db) \<rparr>)"
        using assms Some False by (simp add: record_subject_refresh_def record_refresh_in_def upd_def [symmetric] Let_def)
      have "filter (\<lambda>r. \<not> in_slice repo tok r) (map upd rows) = filter (\<lambda>r. \<not> in_slice repo tok r) rows" for rows
        by (induction rows) (simp_all add: upd_def slice)
      moreover have "filter (in_slice repo tok) (map upd rows) = map upd (filter (in_slice repo tok) rows)" for rows
        by (induction rows) (simp_all add: upd_def slice)
      moreover have "?ex \<noteq> []" using r(1) by (metis empty_iff empty_set)
      ultimately show ?thesis
        using r(2) False unfolding run by (auto simp: list_all_iff upd_def)
    qed
  qed
qed

definition demo_slices :: truth_db where
  "demo_slices = empty_db\<lparr> t_refresh := [\<lparr> f_repo = ''O/r'', f_subject_token = ''s'',
     f_posture = \<lparr> row_fresh = True, row_last_fresh_revision = Some ''r1'', row_last_fresh_at = Some ''t0'',
       row_last_attempt_at = ''t0'', row_unavailable_reason = None, row_repository_visibility = None,
       row_repository_visibility_at = None \<rparr> \<rparr>] \<rparr>"

lemma refresh_monotonic_witness:
  "case record_subject_refresh demo_chrono demo_slices ''o/r'' ''s'' False None None ''t0'' (Some ''down'') of
      Inl e \<Rightarrow> \<exists>t. e = StaleRefreshRecord ''o/r'' ''t0'' t
    | Inr db' \<Rightarrow> False"
proof -
  have v: "validate_refresh demo_chrono ''o/r'' False None None ''t0'' = Inr ()" by code_simp
  have stale: "list_ex (\<lambda>r. in_slice ''o/r'' ''s'' r \<and> ordering_instant demo_chrono ''t0'' \<le> attempt_instant demo_chrono r) (t_refresh demo_slices)"
    by code_simp
  show ?thesis
    using refresh_monotonic [OF v, where db = demo_slices and tok = "''s''" and reason = "Some ''down''"] stale
    by (auto split: sum.splits simp: list_ex_iff list_all_iff)
qed

text \<open>
  The recorded visibility of a repository does not depend on the order in which two
  observations of it arrive: either way every row ends with the same visibility, observed
  at the same instant. Newer observations win and private wins a tie.
\<close>

lemma visibility_order_free:
  assumes "record_repository_visibility ch db repo v at = Inr (b1, db1)"
    and "record_repository_visibility ch db1 repo w at' = Inr (b2, db12)"
    and "record_repository_visibility ch db repo w at' = Inr (c1, db2)"
    and "record_repository_visibility ch db2 repo v at = Inr (c2, db21)"
  shows "map (visibility_view ch) (t_refresh db12) = map (visibility_view ch) (t_refresh db21)"
proof (cases "filter (mine repo) (t_refresh db) = []")
  case True
  from record_visibility_none [OF assms(1) True] record_visibility_none [OF assms(3) True] True
  show ?thesis using record_visibility_none [OF assms(2)] record_visibility_none [OF assms(4)] by simp
next
  case False
  let ?k = "known_visibility ch db repo"
  note one = record_visibility_known [OF assms(1) False] and two = record_visibility_known [OF assms(3) False]
  have ne: "filter (mine repo) (t_refresh db1) \<noteq> []" "filter (mine repo) (t_refresh db2) \<noteq> []"
    using False unfolding one(2) two(2) by (auto simp: filter_map comp_def)
  note three = record_visibility_known [OF assms(2) ne(1)] and four = record_visibility_known [OF assms(4) ne(2)]
  let ?c = "reconcile_visibility ch (known_visibility ch db1 repo) w at'"
  let ?d = "reconcile_visibility ch (known_visibility ch db2 repo) v at"
  have "visibility_key ch ?c = visibility_key ch ?d"
    unfolding one(1) two(1) by (simp add: reconcile_key max.commute max.left_commute split: option.split)
  moreover have "t_refresh db12 = map (set_visibility repo ?c) (t_refresh db)"
    "t_refresh db21 = map (set_visibility repo ?d) (t_refresh db)"
    unfolding three(2) four(2) unfolding one(2) two(2) map_map set_visibility_twice by simp_all
  ultimately show ?thesis using set_visibility_view by metis
qed

lemma visibility_order_free_witness:
  "case (record_repository_visibility demo_chrono demo_slices ''o/r'' Public ''t0'',
         record_repository_visibility demo_chrono demo_slices ''o/r'' Private ''t0Z'') of
     (Inr (_, db1), Inr (_, db2)) \<Rightarrow>
       (case (record_repository_visibility demo_chrono db1 ''o/r'' Private ''t0Z'',
              record_repository_visibility demo_chrono db2 ''o/r'' Public ''t0'') of
          (Inr (_, db12), Inr (_, db21)) \<Rightarrow> map (visibility_view demo_chrono) (t_refresh db12) = map (visibility_view demo_chrono) (t_refresh db21)
        | _ \<Rightarrow> False)
   | _ \<Rightarrow> False"
proof -
  have rfc: "parse_from_rfc3339 demo_chrono ''t0'' \<noteq> None" "parse_from_rfc3339 demo_chrono ''t0Z'' \<noteq> None" by code_simp+
  have ok: "\<exists>b db'. record_repository_visibility demo_chrono db repo v at = Inr (b, db')"
    if "parse_from_rfc3339 demo_chrono at \<noteq> None" for db repo v at
    using that by (simp add: record_repository_visibility_def Let_def)
  obtain b1 db1 where 1: "record_repository_visibility demo_chrono demo_slices ''o/r'' Public ''t0'' = Inr (b1, db1)" using ok [OF rfc(1)] by blast
  obtain c1 db2 where 2: "record_repository_visibility demo_chrono demo_slices ''o/r'' Private ''t0Z'' = Inr (c1, db2)" using ok [OF rfc(2)] by blast
  obtain b2 db12 where 3: "record_repository_visibility demo_chrono db1 ''o/r'' Private ''t0Z'' = Inr (b2, db12)" using ok [OF rfc(2)] by blast
  obtain c2 db21 where 4: "record_repository_visibility demo_chrono db2 ''o/r'' Public ''t0'' = Inr (c2, db21)" using ok [OF rfc(1)] by blast
  show ?thesis unfolding 1 2 using visibility_order_free [OF 1 3 2 4] by (simp add: 3 4)
qed

end
