(* ===== verification/Truth_Projection.thy ===== *)
theory Truth_Projection
  imports Truth_Lifecycle
begin

text \<open>
  The derived open action, \<open>crates/tachi-params/src/current_truth/projection.rs\<close>: the
  priority list of \<open>open_action_for\<close>, its chain of evidence heads and conflict tokens,
  \<open>open_actions\<close> over every issue of a reduction, and the health counts. Field \<open>f\<close>
  of \<open>RefreshPostureV1\<close> is \<open>p_f\<close>, of \<open>OpenActionV1\<close> is \<open>o_f\<close>, of
  \<open>ProjectionHealthV1\<close> is \<open>ph_f\<close>.
\<close>

section \<open>Posture and action\<close>

record refresh_posture =
  p_fresh :: bool
  p_last_fresh_revision :: "string option"
  p_last_fresh_at :: "string option"
  p_evaluated_at :: string
  p_unavailable_reason :: "string option"

definition posture_fresh :: "string \<Rightarrow> string \<Rightarrow> string \<Rightarrow> refresh_posture" where
  "posture_fresh last_fresh_revision last_fresh_at evaluated_at =
     \<lparr> p_fresh = True, p_last_fresh_revision = Some last_fresh_revision,
       p_last_fresh_at = Some last_fresh_at, p_evaluated_at = evaluated_at,
       p_unavailable_reason = None \<rparr>"

definition posture_unavailable ::
  "string \<Rightarrow> string option \<Rightarrow> string option \<Rightarrow> string \<Rightarrow> refresh_posture" where
  "posture_unavailable reason last_fresh_revision last_fresh_at evaluated_at =
     \<lparr> p_fresh = False, p_last_fresh_revision = last_fresh_revision,
       p_last_fresh_at = last_fresh_at, p_evaluated_at = evaluated_at,
       p_unavailable_reason = Some reason \<rparr>"

datatype action_owner_class = OwnerOwner | OwnerEngineeringAuthority | OwnerWorker | OwnerSourceAdapter | OwnerNone

record open_action =
  o_kind :: open_action_kind
  o_subject :: subject_ref
  o_owner_class :: action_owner_class
  o_prerequisite_refs :: "github_object_ref list"
  o_evidence_heads :: "evidence_head list"
  o_blockers :: "string list"

record projection_health =
  ph_conflicted_predicates :: nat
  ph_stale_handoff_claims :: nat
  ph_repos_with_refresh_debt :: nat

definition ALL_SOURCE_PREDICATES :: "predicate list" where
  "ALL_SOURCE_PREDICATES =
     [IssueOpen, IssueClosed, ImplementationPrLinked, PrOpen, PrMerged, PrClosedUnmerged,
      MergeReverted, IssueReopened, ImplementationPresent, OwnerAcceptancePresent]"

section \<open>The priority list\<close>

definition in_chain :: "reduction \<Rightarrow> subject_ref \<Rightarrow> reduced_predicate \<Rightarrow> bool" where
  "in_chain red issue r \<longleftrightarrow> r_subject r = issue
     \<or> s_repo (r_subject r) = s_repo issue \<and> s_object (r_subject r) \<in> set (linked_prs red issue)"

definition chain_heads :: "reduction \<Rightarrow> subject_ref \<Rightarrow> evidence_head list" where
  "chain_heads red issue =
     concat (map (\<lambda>r. if in_chain red issue r then r_current_heads r else []) (reduction_all red))"

definition chain_conflict_tokens :: "reduction \<Rightarrow> subject_ref \<Rightarrow> string list" where
  "chain_conflict_tokens red issue =
     concat (map (\<lambda>r. if r_status r = Conflicted \<and> \<not> is_lifecycle_family_predicate (r_predicate r)
                          \<and> in_chain red issue r
                       then [as_token (r_subject r) @ ''#'' @ predicate_as_str (r_predicate r)] else [])
       (reduction_all red))"

definition lifecycle_conflict_token :: "subject_ref \<Rightarrow> string" where
  "lifecycle_conflict_token s = as_token s @ ''#lifecycle_conflict''"

definition open_action_for :: "chrono \<Rightarrow> reduction \<Rightarrow> refresh_posture \<Rightarrow> subject_ref \<Rightarrow> open_action" where
  "open_action_for ch red posture issue =
    (let lifecycle = issue_lifecycle ch red issue;
         chain_conflict = chain_conflicted red issue;
         linked = linked_prs red issue;
         merged = linked_merged_prs ch red issue;
         implemented = implementation_present ch red issue;
         acceptance = owner_acceptance_present red issue;
         reopened_current = (lifecycle = IssueViewReopened);
         issue_family_conflicted = (lifecycle = IssueViewConflicted);
         conflicted_linked = filter (\<lambda>ob. pr_lifecycle ch red (pr_subject issue ob) = PrViewConflicted) linked;
         reverted_linked = list_ex (\<lambda>ob. pr_lifecycle ch red (pr_subject issue ob) = PrViewMergeReverted) linked;
         has_open_linked_pr = list_ex (\<lambda>ob. pr_lifecycle ch red (pr_subject issue ob) = PrViewOpen) linked;
         heads = chain_heads red issue
     in if chain_conflict \<or> issue_family_conflicted \<or> conflicted_linked \<noteq> [] then
          \<lparr> o_kind = ResolveConflict, o_subject = issue, o_owner_class = OwnerEngineeringAuthority,
            o_prerequisite_refs = linked, o_evidence_heads = heads,
            o_blockers = remdups_adj (sort (chain_conflict_tokens red issue
              @ (if issue_family_conflicted then [lifecycle_conflict_token issue] else [])
              @ map (\<lambda>ob. lifecycle_conflict_token (pr_subject issue ob)) conflicted_linked)) \<rparr>
        else if \<not> p_fresh posture then
          \<lparr> o_kind = RefreshUnavailableSource, o_subject = issue, o_owner_class = OwnerSourceAdapter,
            o_prerequisite_refs = [], o_evidence_heads = [], o_blockers = [''refresh_unavailable''] \<rparr>
        else if reverted_linked \<or> reopened_current then
          \<lparr> o_kind = RepairRevertOrReopen, o_subject = issue, o_owner_class = OwnerWorker,
            o_prerequisite_refs = linked, o_evidence_heads = heads, o_blockers = [] \<rparr>
        else if lifecycle \<in> {IssueViewOpen, IssueViewReopened} \<and> \<not> implemented \<and> \<not> has_open_linked_pr then
          \<lparr> o_kind = AwaitImplementation, o_subject = issue, o_owner_class = OwnerWorker,
            o_prerequisite_refs = [], o_evidence_heads = heads, o_blockers = [] \<rparr>
        else if has_open_linked_pr then
          \<lparr> o_kind = ReviewPr, o_subject = issue, o_owner_class = OwnerWorker,
            o_prerequisite_refs = linked, o_evidence_heads = heads, o_blockers = [] \<rparr>
        else if implemented \<and> lifecycle \<in> {IssueViewOpen, IssueViewReopened} \<and> \<not> acceptance then
          \<lparr> o_kind = RunVerification, o_subject = issue, o_owner_class = OwnerWorker,
            o_prerequisite_refs = merged, o_evidence_heads = heads, o_blockers = [] \<rparr>
        else if implemented \<and> lifecycle = IssueViewClosed \<and> \<not> acceptance then
          \<lparr> o_kind = AwaitOwnerAcceptance, o_subject = issue, o_owner_class = OwnerOwner,
            o_prerequisite_refs = merged, o_evidence_heads = heads, o_blockers = [] \<rparr>
        else
          \<lparr> o_kind = NoOpenAction, o_subject = issue, o_owner_class = OwnerNone,
            o_prerequisite_refs = [], o_evidence_heads = heads, o_blockers = [] \<rparr>)"

fun is_issue :: "github_object_ref \<Rightarrow> bool" where
  "is_issue (Issue _) = True"
| "is_issue _ = False"

definition open_actions :: "chrono \<Rightarrow> reduction \<Rightarrow> refresh_posture \<Rightarrow> open_action list" where
  "open_actions ch red posture =
     map (open_action_for ch red posture) (filter (\<lambda>s. is_issue (s_object s)) (reduction_subjects red))"

definition projection_health :: "reduction \<Rightarrow> nat \<Rightarrow> nat \<Rightarrow> projection_health" where
  "projection_health red stale_handoff_claims repos_with_refresh_debt =
     \<lparr> ph_conflicted_predicates = conflicted_predicates (health_counts red),
       ph_stale_handoff_claims = stale_handoff_claims,
       ph_repos_with_refresh_debt = repos_with_refresh_debt \<rparr>"

section \<open>What decides the action\<close>

definition chain_in_conflict :: "chrono \<Rightarrow> reduction \<Rightarrow> subject_ref \<Rightarrow> bool" where
  "chain_in_conflict ch red issue \<longleftrightarrow> chain_conflicted red issue
     \<or> issue_lifecycle ch red issue = IssueViewConflicted
     \<or> (\<exists>ob\<in>set (linked_prs red issue). pr_lifecycle ch red (pr_subject issue ob) = PrViewConflicted)"

definition linked_in_state :: "chrono \<Rightarrow> reduction \<Rightarrow> subject_ref \<Rightarrow> pr_lifecycle_view \<Rightarrow> bool" where
  "linked_in_state ch red issue v \<longleftrightarrow>
     (\<exists>ob\<in>set (linked_prs red issue). pr_lifecycle ch red (pr_subject issue ob) = v)"

lemma conflicted_linked_iff:
  "filter (\<lambda>ob. pr_lifecycle ch red (pr_subject issue ob) = PrViewConflicted) (linked_prs red issue) \<noteq> []
   \<longleftrightarrow> linked_in_state ch red issue PrViewConflicted"
  by (simp add: linked_in_state_def filter_empty_conv)

lemma action_kind:
  "o_kind (open_action_for ch red posture issue) =
    (let lifecycle = issue_lifecycle ch red issue; implemented = implementation_present ch red issue
     in if chain_in_conflict ch red issue then ResolveConflict
        else if \<not> p_fresh posture then RefreshUnavailableSource
        else if linked_in_state ch red issue PrViewMergeReverted \<or> lifecycle = IssueViewReopened then RepairRevertOrReopen
        else if lifecycle = IssueViewOpen \<and> \<not> implemented \<and> \<not> linked_in_state ch red issue PrViewOpen then AwaitImplementation
        else if linked_in_state ch red issue PrViewOpen then ReviewPr
        else if lifecycle = IssueViewOpen \<and> implemented \<and> \<not> owner_acceptance_present red issue then RunVerification
        else if lifecycle = IssueViewClosed \<and> implemented \<and> \<not> owner_acceptance_present red issue then AwaitOwnerAcceptance
        else NoOpenAction)"
  unfolding open_action_for_def Let_def conflicted_linked_iff
  by (auto simp: chain_in_conflict_def linked_in_state_def list_ex_iff)

lemma action_subject [simp]: "o_subject (open_action_for ch red posture issue) = issue"
  by (simp add: open_action_for_def Let_def)

lemma action_heads:
  "o_evidence_heads (open_action_for ch red posture issue) =
    (if o_kind (open_action_for ch red posture issue) = RefreshUnavailableSource then [] else chain_heads red issue)"
  by (simp add: open_action_for_def Let_def)

lemma subjects_set: "set (reduction_subjects red) = r_subject ` snd ` set red"
  by (simp add: reduction_subjects_def image_comp)

lemma reduce_entry:
  assumes "(k, r) \<in> set (reduce ch as)"
  shows "\<exists>a\<in>group_of as k. r_subject r = a_subject a \<and> r_predicate r = a_predicate a"
proof -
  have "map_of (reduce ch as) k = Some r" using assms bt_wf_distinct [OF bt_wf_reduce] by simp
  from reduce_Some [OF this] have ne: "rows_of as k \<noteq> []"
    and r: "r = reduced_rows ch (id_collision (admissible as) k) k (rows_of as k)" .
  then have "hd (rows_of as k) \<in> group_of as k" by (metis hd_in_set set_rows_group)
  moreover from this have "a_predicate (hd (rows_of as k)) = snd k"
    by (cases k) (auto simp: group_of_def group_key_of_def)
  ultimately show ?thesis
    by (intro bexI [of _ "hd (rows_of as k)"]) (auto simp: r reduced_rows_def reduce_group_def Let_def split: prod.splits)
qed

lemma chain_conflict_tokens_Nil:
  "chain_conflict_tokens red issue = [] \<longleftrightarrow>
    (\<forall>r\<in>snd ` set red. \<not> (r_status r = Conflicted \<and> \<not> is_lifecycle_family_predicate (r_predicate r) \<and> in_chain red issue r))"
  by (auto simp: chain_conflict_tokens_def reduction_all_def)

lemma reduce_entry_key:
  assumes "(k, r) \<in> set (reduce ch as)"
  shows "k = (as_token (r_subject r), r_predicate r)"
  using reduce_entry [OF assms] by (auto simp: group_of_def group_key_of_def)

lemma conflict_in_chain:
  assumes "r_status (reduction_get (reduce ch as) issue p) = Conflicted" "\<not> is_lifecycle_family_predicate p"
  shows "chain_conflicted (reduce ch as) issue"
proof -
  obtain r where r: "map_of (reduce ch as) (as_token issue, p) = Some r" "r_status r = Conflicted"
    using assms(1) by (auto simp: reduction_get_def unknown_reduced_def split: option.splits)
  then have "((as_token issue, p), r) \<in> set (reduce ch as)" by (simp add: map_of_SomeD)
  with reduce_entry_key [OF this] r(2) assms(2) show ?thesis
    by (force simp: chain_conflicted_def list_ex_iff Let_def)
qed

lemma no_acceptance_row:
  assumes "\<not> owner_acceptance_present (reduce ch as) issue" "\<not> chain_conflicted (reduce ch as) issue"
  shows "group_of as (as_token issue, OwnerAcceptancePresent) = {}"
proof -
  let ?st = "r_status (reduction_get (reduce ch as) issue OwnerAcceptancePresent)"
  have "?st \<noteq> Current" using assms(1) by (simp add: owner_acceptance_present_def)
  moreover have "?st \<noteq> Conflicted"
    using conflict_in_chain [of ch as issue OwnerAcceptancePresent] assms(2)
    by (auto simp: is_lifecycle_family_predicate_def)
  moreover have "?st \<noteq> Superseded" by (rule get_reduce_status(2))
  ultimately have "?st = Unknown" by (cases ?st) auto
  then show ?thesis by (simp add: get_reduce_status(1))
qed

lemma implementation_evidence_row:
  assumes "implementation_present ch (reduce ch as) issue"
  shows "\<exists>a\<in>admissible as. \<exists>sha. a_value a = CommitSha sha \<and> sha \<noteq> []"
proof -
  have ev: ?thesis if "list_ex is_commit_sha (r_values (reduction_get (reduce ch as) s p))" for s p
    using commit_evidence [OF that] by (auto simp: group_of_def)
  from assms show ?thesis
    using ev [of issue ImplementationPresent]
    by (auto simp: implementation_present_def linked_merged_prs_def filter_empty_conv Let_def dest!: ev)
qed

section \<open>Properties of the projection\<close>

text \<open>
  C4: Conflicts and stale sources block every success-shaped action: the action is
  \<open>ResolveConflict\<close> exactly if the issue's chain is in conflict, nothing else but
  \<open>RefreshUnavailableSource\<close> is derived while the posture is not fresh, and nothing is
  pending only if no linked pull request is open or reverted and the issue is closed or
  unknown without an unaccepted implementation, or open with an accepted one.
\<close>

theorem open_action_gates:
  "let k = o_kind (open_action_for ch red posture issue)
   in (k = ResolveConflict \<longleftrightarrow> chain_in_conflict ch red issue)
    \<and> (k = RefreshUnavailableSource \<longleftrightarrow> \<not> chain_in_conflict ch red issue \<and> \<not> p_fresh posture)
    \<and> (k = NoOpenAction \<longleftrightarrow> \<not> chain_in_conflict ch red issue \<and> p_fresh posture
        \<and> \<not> linked_in_state ch red issue PrViewMergeReverted \<and> \<not> linked_in_state ch red issue PrViewOpen
        \<and> (case issue_lifecycle ch red issue of
             IssueViewOpen \<Rightarrow> implementation_present ch red issue \<and> owner_acceptance_present red issue
           | IssueViewClosed \<Rightarrow> \<not> (implementation_present ch red issue \<and> \<not> owner_acceptance_present red issue)
           | IssueUnknown \<Rightarrow> True
           | _ \<Rightarrow> False))"
proof -
  have "issue_lifecycle ch red issue = IssueViewConflicted \<Longrightarrow> chain_in_conflict ch red issue"
    by (simp add: chain_in_conflict_def)
  then show ?thesis
    unfolding action_kind Let_def by (cases "issue_lifecycle ch red issue") auto
qed

text \<open>
  Asking for verification or acceptance is sound on reduced rows: the source is fresh,
  the issue is open (verification) or closed (acceptance), some admitted row carries the
  SHA of the implementation, and no admitted row records the owner's acceptance.
\<close>

lemma acceptance_request_sound:
  assumes "o_kind (open_action_for ch (reduce ch as) posture issue) \<in> {RunVerification, AwaitOwnerAcceptance}"
  shows "p_fresh posture
    \<and> issue_lifecycle ch (reduce ch as) issue =
        (if o_kind (open_action_for ch (reduce ch as) posture issue) = RunVerification
         then IssueViewOpen else IssueViewClosed)
    \<and> (\<exists>a\<in>set (admitted_input as). \<exists>sha. a_value a = CommitSha sha \<and> sha \<noteq> [])
    \<and> group_of as (as_token issue, OwnerAcceptancePresent) = {}"
proof -
  let ?red = "reduce ch as"
  have facts: "p_fresh posture" "implementation_present ch ?red issue" "\<not> owner_acceptance_present ?red issue"
    "\<not> chain_in_conflict ch ?red issue"
    "issue_lifecycle ch ?red issue =
        (if o_kind (open_action_for ch ?red posture issue) = RunVerification then IssueViewOpen else IssueViewClosed)"
    using assms unfolding action_kind Let_def by (auto split: if_splits)
  then have "\<not> chain_conflicted ?red issue" by (simp add: chain_in_conflict_def)
  then show ?thesis
    using facts no_acceptance_row implementation_evidence_row by blast
qed

definition demo_posture :: refresh_posture where
  "demo_posture = posture_fresh ''r2'' ''t1'' ''t1''"

lemma acceptance_request_sound_witness:
  "o_kind (open_action_for demo_chrono (reduce demo_chrono [demo_implemented, demo_closed]) demo_posture
      (SubjectRef ''o/r'' (Issue 7))) = AwaitOwnerAcceptance
   \<and> group_of [demo_implemented, demo_closed] (''o/r#issue:7'', OwnerAcceptancePresent) = {}"
proof -
  have kind: "o_kind (open_action_for demo_chrono (reduce demo_chrono [demo_implemented, demo_closed]) demo_posture
      (SubjectRef ''o/r'' (Issue 7))) = AwaitOwnerAcceptance"
    by code_simp
  have token: "as_token (SubjectRef ''o/r'' (Issue 7)) = ''o/r#issue:7''"
    by code_simp
  from acceptance_request_sound [of demo_chrono "[demo_implemented, demo_closed]" demo_posture
      "SubjectRef ''o/r'' (Issue 7)"] kind token
  show ?thesis by simp
qed

text \<open>
  When no repository name contains \<open>#\<close>, a \<open>ResolveConflict\<close> action names what blocks:
  its blockers are a non-empty list of distinct tokens in ascending order.
\<close>

lemma conflict_blockers_named:
  assumes "\<forall>a\<in>set (admitted_input as). CHR ''#'' \<notin> set (s_repo (a_subject a))"
    and "CHR ''#'' \<notin> set (s_repo issue)"
    and "o_kind (open_action_for ch (reduce ch as) posture issue) = ResolveConflict"
  shows "let b = o_blockers (open_action_for ch (reduce ch as) posture issue)
         in b \<noteq> [] \<and> sorted b \<and> distinct b"
proof -
  let ?red = "reduce ch as"
  define toks where "toks = chain_conflict_tokens ?red issue
    @ (if issue_lifecycle ch ?red issue = IssueViewConflicted then [lifecycle_conflict_token issue] else [])
    @ map (\<lambda>ob. lifecycle_conflict_token (pr_subject issue ob))
        (filter (\<lambda>ob. pr_lifecycle ch ?red (pr_subject issue ob) = PrViewConflicted) (linked_prs ?red issue))"
  have conflict: "chain_in_conflict ch ?red issue"
    using assms(3) unfolding action_kind Let_def by (auto split: if_splits)
  then have blockers: "o_blockers (open_action_for ch ?red posture issue) = remdups_adj (sort toks)"
    unfolding open_action_for_def Let_def conflicted_linked_iff toks_def
    by (simp add: chain_in_conflict_def linked_in_state_def)
  have "toks \<noteq> []"
  proof (cases "chain_conflicted ?red issue")
    case False
    then show ?thesis using conflict by (auto simp: chain_in_conflict_def toks_def filter_empty_conv)
  next
    case True
    then obtain k r where r: "(k, r) \<in> set ?red" "r_status r = Conflicted" "\<not> is_lifecycle_family_predicate (r_predicate r)"
      "as_token (r_subject r) \<in> set (as_token issue # map (\<lambda>ob. as_token (pr_subject issue ob)) (linked_prs ?red issue))"
      by (auto simp: chain_conflicted_def list_ex_iff Let_def)
    from reduce_entry [OF r(1)] assms(1) have plain: "CHR ''#'' \<notin> set (s_repo (r_subject r))"
      by (auto simp: group_of_def)
    have "in_chain ?red issue r"
      using r(4) as_token_inject_plain [OF _ plain] assms(2)
      by (auto simp: in_chain_def pr_subject_def dest!: as_token_inject_plain [OF _ plain])
    then have "chain_conflict_tokens ?red issue \<noteq> []"
      unfolding chain_conflict_tokens_Nil using r(1-3) by force
    then show ?thesis by (simp add: toks_def)
  qed
  then show ?thesis by (simp add: blockers distinct_remdups_adj_sorted)
qed

definition demo_disputed :: assertion where
  "demo_disputed = demo_implemented\<lparr> a_assertion_id := ''id9'', a_issuer := ''other'', a_value := CommitSha ''def'' \<rparr>"

lemma conflict_blockers_named_witness:
  "let b = o_blockers (open_action_for demo_chrono (reduce demo_chrono [demo_implemented, demo_disputed])
        demo_posture (SubjectRef ''o/r'' (Issue 7)))
   in b \<noteq> [] \<and> sorted b \<and> distinct b"
  by (rule conflict_blockers_named) code_simp+

definition shadow_commit :: subject_ref where
  "shadow_commit = SubjectRef ''o/r'' (Commit ''x#issue:7'')"

definition shadow_issue :: subject_ref where
  "shadow_issue = SubjectRef ''o/r#commit:x'' (Issue 7)"

definition shadow_rows :: "assertion list" where
  "shadow_rows =
     [demo_implemented\<lparr> a_subject := shadow_commit \<rparr>,
      demo_implemented\<lparr> a_subject := shadow_commit, a_assertion_id := ''id9'', a_issuer := ''other'',
        a_value := CommitSha ''def'' \<rparr>]"

text \<open>
  Subject tokens are not injective when a repository name contains \<open>#\<close>: a conflict
  about a commit makes the action of a different subject, an issue with the same token,
  \<open>ResolveConflict\<close> with no blocker to adjudicate, so the condition on repository names
  in the previous property is needed.
\<close>

lemma conflict_without_blockers:
  "shadow_commit \<noteq> shadow_issue \<and> as_token shadow_commit = as_token shadow_issue
   \<and> o_kind (open_action_for demo_chrono (reduce demo_chrono shadow_rows) demo_posture shadow_issue) = ResolveConflict
   \<and> o_blockers (open_action_for demo_chrono (reduce demo_chrono shadow_rows) demo_posture shadow_issue) = []"
  by code_simp

text \<open>
  Every issue with an admitted row gets exactly one action: when no repository name
  contains \<open>#\<close>, the subjects of the derived actions are, in ascending order and each
  once, the issues the admitted rows are about.
\<close>

lemma one_action_per_issue:
  assumes "\<forall>a\<in>set (admitted_input as). CHR ''#'' \<notin> set (s_repo (a_subject a))"
  shows "map o_subject (open_actions ch (reduce ch as) posture) =
    remdups_adj (sort (filter (\<lambda>s. is_issue (s_object s)) (map a_subject (admitted_input as))))"
proof (rule sorted_distinct_set_unique)
  let ?red = "reduce ch as"
  have subj: "map o_subject (open_actions ch ?red posture) = filter (\<lambda>s. is_issue (s_object s)) (reduction_subjects ?red)"
    by (simp add: open_actions_def comp_def)
  show "sorted (map o_subject (open_actions ch ?red posture))"
    and "distinct (map o_subject (open_actions ch ?red posture))"
    unfolding subj by (simp_all add: reduction_subjects_def sorted_filter [where f = id, simplified] distinct_remdups_adj_sorted)
  have "r_subject ` snd ` set ?red = a_subject ` admissible as"
  proof (intro equalityI subsetI)
    fix s assume "s \<in> r_subject ` snd ` set ?red"
    then obtain k r where "(k, r) \<in> set ?red" "s = r_subject r" by auto
    from reduce_entry [OF this(1)] this(2) show "s \<in> a_subject ` admissible as"
      by (auto simp: group_of_def)
  next
    fix s assume "s \<in> a_subject ` admissible as"
    then obtain a where a: "a \<in> admissible as" "s = a_subject a" by blast
    then have "group_of as (group_key_of a) \<noteq> {}" by (auto simp: group_of_def)
    then obtain r where r: "map_of ?red (group_key_of a) = Some r"
      by (cases "map_of ?red (group_key_of a)") (auto simp: map_of_reduce rows_of_empty split: if_splits)
    from reduce_entry [OF map_of_SomeD [OF r]] obtain b where b: "b \<in> admissible as"
      "as_token (a_subject b) = as_token (a_subject a)" "r_subject r = a_subject b"
      by (auto simp: group_of_def group_key_of_def)
    then have "r_subject r = s" using as_token_inject_plain [OF b(2)] assms a by simp
    then show "s \<in> r_subject ` snd ` set ?red" using map_of_SomeD [OF r] by force
  qed
  then show "set (map o_subject (open_actions ch ?red posture)) =
      set (remdups_adj (sort (filter (\<lambda>s. is_issue (s_object s)) (map a_subject (admitted_input as)))))"
    unfolding subj by (auto simp: subjects_set)
qed (simp_all add: distinct_remdups_adj_sorted)

lemma one_action_per_issue_witness:
  "map o_subject (open_actions demo_chrono (reduce demo_chrono [demo_row, demo_closed]) demo_posture) = [SubjectRef ''o/r'' (Issue 7)]"
proof -
  have "\<forall>a\<in>set (admitted_input [demo_row, demo_closed]). CHR ''#'' \<notin> set (s_repo (a_subject a))"
    by code_simp
  moreover have "remdups_adj (sort (filter (\<lambda>s. is_issue (s_object s)) (map a_subject (admitted_input [demo_row, demo_closed]))))
      = [SubjectRef ''o/r'' (Issue 7)]"
    by code_simp
  ultimately show ?thesis using one_action_per_issue [of "[demo_row, demo_closed]"] by simp
qed

end
