(* ===== verification/Truth_Consumer.thy ===== *)
theory Truth_Consumer
  imports Truth_Posture Truth_Projection
begin

text \<open>
  The consumer read surface, \<open>crates/tachi-params/src/current_truth/consumer.rs\<close>:
  \<open>read_view\<close> over the store, with visibility decided before aggregation. Field \<open>f\<close> of
  \<open>PredicateViewV1\<close> is \<open>v_f\<close>, of \<open>EvidenceHeadViewV1\<close> is \<open>hv_f\<close>, of
  \<open>SubjectTruthViewV1\<close> is \<open>sv_f\<close>, of \<open>CurrentTruthViewV1\<close> is \<open>tv_f\<close>. The lemmas show
  that an unauthorized view is a function of the store without its private subjects.
\<close>

section \<open>Views\<close>

record caller_authorization =
  sees_private :: bool

record head_view =
  hv_assertion_id :: string
  hv_source :: string
  hv_source_revision :: string
  hv_observed_at :: string

record predicate_view =
  v_predicate :: predicate
  v_status :: reduction_status
  v_value_token :: string
  v_evidence_heads :: "head_view list"

record subject_view =
  sv_subject_token :: string
  sv_predicates :: "predicate_view list"
  sv_open_action :: "open_action option"

record truth_view =
  tv_repo :: string
  tv_posture :: posture_row
  tv_subjects :: "subject_view list"
  tv_health :: projection_health

datatype view_error = StoreFailed store_error | NoPosture string

fun join :: "string \<Rightarrow> string list \<Rightarrow> string" where
  "join sep [] = []"
| "join sep [x] = x"
| "join sep (x # xs) = x @ sep @ join sep xs"

fun value_token :: "assertion_value \<Rightarrow> string" where
  "value_token Unit = ''unit''"
| "value_token (ObjectRef ob) = object_as_token ob"
| "value_token (ObjectRefs obs) = join '','' (map object_as_token obs)"
| "value_token (CommitSha sha) = sha"
| "value_token (HandoffId i) = i"
| "value_token (Action k) = open_action_as_str k"

definition head_view_of :: "evidence_head \<Rightarrow> head_view" where
  "head_view_of h = \<lparr> hv_assertion_id = h_assertion_id h, hv_source = h_source h,
     hv_source_revision = h_source_revision h, hv_observed_at = h_observed_at h \<rparr>"

definition predicate_view_of :: "reduction \<Rightarrow> subject_ref \<Rightarrow> predicate \<Rightarrow> predicate_view" where
  "predicate_view_of red subj p =
    (let r = reduction_get red subj p
     in \<lparr> v_predicate = p, v_status = r_status r,
          v_value_token = (case r_values r of [] \<Rightarrow> ''unknown'' | v # _ \<Rightarrow> value_token v),
          v_evidence_heads = map head_view_of (r_current_heads r) \<rparr>)"

definition posture_for_actions :: "posture_row \<Rightarrow> refresh_posture" where
  "posture_for_actions p =
    (let or_empty = (\<lambda>s. case s of None \<Rightarrow> [] | Some t \<Rightarrow> t)
     in if row_fresh p
        then posture_fresh (or_empty (row_last_fresh_revision p)) (or_empty (row_last_fresh_at p)) (row_last_attempt_at p)
        else posture_unavailable (case row_unavailable_reason p of None \<Rightarrow> ''unknown'' | Some t \<Rightarrow> t)
               (row_last_fresh_revision p) (row_last_fresh_at p) (row_last_attempt_at p))"

definition subject_view_of :: "chrono \<Rightarrow> reduction \<Rightarrow> refresh_posture \<Rightarrow> subject_ref \<Rightarrow> subject_view" where
  "subject_view_of ch red posture subj =
     \<lparr> sv_subject_token = as_token subj,
       sv_predicates = map (predicate_view_of red subj) ALL_SOURCE_PREDICATES,
       sv_open_action = (if is_issue (s_object subj) then Some (open_action_for ch red posture subj) else None) \<rparr>"

definition visible_assertions ::
  "chrono \<Rightarrow> store_codec \<Rightarrow> truth_db \<Rightarrow> string \<Rightarrow> caller_authorization \<Rightarrow> posture_row \<Rightarrow> (assertion list, store_error) result" where
  "visible_assertions ch cx db repo auth posture =
    (if \<not> sees_private auth \<and> row_repository_visibility posture = Some Private then Ok []
     else if sees_private auth then assertions_for_repo ch cx db repo
     else let hidden_subjects = private_subject_tokens db repo
          in and_then (public_assertions_for_repo ch cx db repo) (\<lambda>as.
               Ok (filter (\<lambda>a. as_token (a_subject a) \<notin> set hidden_subjects) as)))"

definition view_of :: "chrono \<Rightarrow> string \<Rightarrow> posture_row \<Rightarrow> assertion list \<Rightarrow> truth_view" where
  "view_of ch repo posture visible =
    (let red = reduce ch visible;
         health = projection_health red 0 (if row_fresh posture then 0 else 1);
         views = map (subject_view_of ch red (posture_for_actions posture)) (reduction_subjects red)
     in \<lparr> tv_repo = repo, tv_posture = posture, tv_subjects = sort_key sv_subject_token views, tv_health = health \<rparr>)"

definition read_view ::
  "chrono \<Rightarrow> store_codec \<Rightarrow> truth_db \<Rightarrow> string \<Rightarrow> caller_authorization \<Rightarrow> (truth_view, view_error) result" where
  "read_view ch cx db repo auth =
    (case refresh_posture_row ch (codec.truncate cx) db repo of
       None \<Rightarrow> Err (NoPosture repo)
     | Some posture \<Rightarrow>
         and_then (lift_err StoreFailed (visible_assertions ch cx db repo auth posture)) (\<lambda>visible.
           Ok (view_of ch repo posture visible)))"

section \<open>The store without its private subjects\<close>

definition lower_token :: "assertion_row \<Rightarrow> string" where
  "lower_token r = to_ascii_lowercase (c_subject_repo r) @ ''#'' @ c_subject_kind r @ '':'' @ c_subject_id r"

definition hidden_row :: "truth_db \<Rightarrow> string \<Rightarrow> assertion_row \<Rightarrow> bool" where
  "hidden_row db repo r \<longleftrightarrow> in_repo repo r
     \<and> (\<exists>q\<in>set (t_assertions db). in_repo repo q \<and> c_visibility q = ''private'' \<and> lower_token r = lower_token q)"

definition erase_private_rows :: "truth_db \<Rightarrow> string \<Rightarrow> truth_db" where
  "erase_private_rows db repo = db\<lparr> t_assertions := filter (\<lambda>r. \<not> hidden_row db repo r) (t_assertions db) \<rparr>"

lemma kind_id_token: "kind_token ob @ CHR '':'' # id_token ob = object_as_token ob"
  by (cases ob) simp_all

lemma hash_lower: "CHR ''#'' \<in> set (to_ascii_lowercase s) \<longleftrightarrow> CHR ''#'' \<in> set s"
proof -
  have "lower_ascii c = CHR ''#'' \<longleftrightarrow> c = CHR ''#''" for c
  proof
    assume l: "lower_ascii c = CHR ''#''"
    show "c = CHR ''#''"
    proof (cases "65 \<le> (of_char c :: nat) \<and> (of_char c :: nat) \<le> 90")
      case True
      then have "of_char (lower_ascii c) = (of_char c + 32 :: nat)"
        by (simp add: lower_ascii_def)
      then show ?thesis using l True by simp
    qed (use l in \<open>auto simp: lower_ascii_def\<close>)
  qed (simp add: lower_ascii_def)
  then show ?thesis unfolding to_ascii_lowercase_def set_map image_iff by metis
qed

lemma split_once_hash: "CHR ''#'' \<notin> set s \<Longrightarrow> split_once ''#'' (s @ CHR ''#'' # t) = Some (s, t)"
  by (induction s) auto

lemma in_repo_lower: "in_repo repo r \<Longrightarrow> to_ascii_lowercase (c_subject_repo r) = to_ascii_lowercase repo"
  by (simp add: in_repo_def eq_ignore_ascii_case_def)

lemma private_tokens:
  assumes "CHR ''#'' \<notin> set repo"
  shows "set (private_subject_tokens db repo) =
    lower_token ` {r \<in> set (t_assertions db). in_repo repo r \<and> c_visibility r = ''private''}"
proof -
  have "(case split_once ''#'' (row_token r) of
            Some (_, suffix) \<Rightarrow> to_ascii_lowercase repo @ ''#'' @ suffix | None \<Rightarrow> row_token r) = lower_token r"
    if "in_repo repo r" for r
  proof -
    have "CHR ''#'' \<notin> set (c_subject_repo r)"
      using in_repo_lower [OF that] assms hash_lower by metis
    then show ?thesis
      using in_repo_lower [OF that] by (simp add: row_token_def lower_token_def split_once_hash)
  qed
  then show ?thesis by (auto simp: private_subject_tokens_def Let_def image_image)
qed

lemma decoded_token:
  assumes "decode_assertion_row ch cx (row_of cx a) = Inr b"
  shows "as_token (a_subject (lower_repo b)) = lower_token (row_of cx a)"
proof -
  have "decode_object (kind_token (s_object (a_subject a))) (id_token (s_object (a_subject a))) = Inr (s_object (a_subject b))"
    using decode_fields(3) [OF assms] by (simp add: row_of_def)
  then have "s_object (a_subject b) = s_object (a_subject a)"
    by (cases "s_object (a_subject a)")
      (auto simp: decode_object_def parse_u64_def strip_plus_digits digits_show_nat Let_def split: option.splits if_splits)
  then show ?thesis
    using decode_fields(2) [OF assms]
    by (simp add: as_token_def lower_repo_def lower_token_def row_of_def kind_id_token)
qed

lemma collect_filter:
  assumes "collect_decoded_rows ch cx rs = Inr as"
    and "\<And>r a. r \<in> set rs \<Longrightarrow> decode_assertion_row ch cx r = Inr a \<Longrightarrow> Q (lower_repo a) \<longleftrightarrow> P r"
  shows "collect_decoded_rows ch cx (filter P rs) = Inr (filter Q as)"
  using assms
proof (induction rs arbitrary: as)
  case (Cons r rs)
  then obtain a bs where "decode_assertion_row ch cx r = Inr a" "collect_decoded_rows ch cx rs = Inr bs" "as = lower_repo a # bs"
    by (auto simp: and_then_Inr_iff)
  then show ?case using Cons.IH [of bs] Cons.prems(2) by auto
qed simp

lemma erased_public:
  assumes "rows_ok ch cx (t_assertions db)" "CHR ''#'' \<notin> set repo"
    and "public_assertions_for_repo ch cx db repo = Inr as"
  shows "public_assertions_for_repo ch cx (erase_private_rows db repo) repo
    = Inr (filter (\<lambda>a. as_token (a_subject a) \<notin> set (private_subject_tokens db repo)) as)"
proof -
  let ?rs = "sort_key row_order (filter (\<lambda>r. in_repo repo r \<and> c_visibility r = ''public'') (t_assertions db))"
  have "collect_decoded_rows ch cx (filter (\<lambda>r. \<not> hidden_row db repo r) ?rs)
      = Inr (filter (\<lambda>a. as_token (a_subject a) \<notin> set (private_subject_tokens db repo)) as)"
  proof (rule collect_filter)
    show "collect_decoded_rows ch cx ?rs = Inr as" using assms(3) by (simp add: public_assertions_for_repo_def)
    fix r b assume r: "r \<in> set ?rs" and dec: "decode_assertion_row ch cx r = Inr b"
    then obtain a where "r = row_of cx a" using assms(1) by (auto simp: rows_ok_def)
    then have "as_token (a_subject (lower_repo b)) = lower_token r" using decoded_token dec by blast
    then show "as_token (a_subject (lower_repo b)) \<notin> set (private_subject_tokens db repo) \<longleftrightarrow> \<not> hidden_row db repo r"
      using r by (auto simp: private_tokens [OF assms(2)] hidden_row_def)
  qed
  then show ?thesis
    by (simp add: public_assertions_for_repo_def erase_private_rows_def filter_sort conj_commute)
qed

lemma erased_tokens:
  assumes "CHR ''#'' \<notin> set repo"
  shows "set (private_subject_tokens (erase_private_rows db repo) repo) = {}"
  unfolding private_tokens [OF assms] by (auto simp: erase_private_rows_def hidden_row_def)

lemma erased_posture [simp]: "refresh_posture_row ch cx (erase_private_rows db repo) r = refresh_posture_row ch cx db r"
  by (simp add: refresh_posture_row_def repo_postures_def erase_private_rows_def)

lemma reduce_subject:
  assumes "s \<in> set (reduction_subjects (reduce ch as))"
  shows "\<exists>a\<in>set as. as_token (a_subject a) = as_token s"
proof -
  obtain k r where r: "(k, r) \<in> set (reduce ch as)" "s = r_subject r"
    using assms by (auto simp: subjects_set)
  from reduce_entry [OF r(1)] r(2) show ?thesis
    by (fastforce simp: group_of_def admitted_input_def)
qed

lemma reduce_Nil [simp]: "reduce ch [] = []"
  using reduce_entry [of _ _ ch "[]"] by (cases "reduce ch []") (auto simp: group_of_def admitted_input_def)

lemma view_subject:
  assumes "sv \<in> set (tv_subjects (view_of ch repo posture as))"
  obtains s where "s \<in> set (reduction_subjects (reduce ch as))" "sv_subject_token sv = as_token s"
    "sv_open_action sv = (if is_issue (s_object s)
       then Some (open_action_for ch (reduce ch as) (posture_for_actions posture) s) else None)"
  using assms by (auto simp: view_of_def subject_view_of_def Let_def)

lemma read_view_Inr:
  "read_view ch cx db repo auth = Inr v \<longleftrightarrow>
   (\<exists>posture as. refresh_posture_row ch (codec.truncate cx) db repo = Some posture
      \<and> visible_assertions ch cx db repo auth posture = Inr as \<and> v = view_of ch repo posture as)"
  by (auto simp: read_view_def and_then_Inr_iff split: option.splits)

lemma unauthorized_assertions:
  assumes "rows_ok ch cx (t_assertions db)" "CHR ''#'' \<notin> set repo" "\<not> sees_private auth"
    and "visible_assertions ch cx db repo auth posture = Inr as"
  shows "visible_assertions ch cx (erase_private_rows db repo) repo auth posture = Inr as"
    "\<forall>a\<in>set as. as_token (a_subject a) \<notin> set (private_subject_tokens db repo)"
proof -
  let ?vis = "\<lambda>a. as_token (a_subject a) \<notin> set (private_subject_tokens db repo)"
  have "visible_assertions ch cx (erase_private_rows db repo) repo auth posture = Inr as \<and> (\<forall>a\<in>set as. ?vis a)"
  proof (cases "row_repository_visibility posture = Some Private")
    case True
    then show ?thesis using assms(3,4) by (simp add: visible_assertions_def)
  next
    case False
    then obtain bs where bs: "public_assertions_for_repo ch cx db repo = Inr bs" "as = filter ?vis bs"
      using assms(3,4) by (auto simp: visible_assertions_def and_then_Inr_iff Let_def)
    then show ?thesis
      using False assms(3) erased_public [OF assms(1,2) bs(1)] erased_tokens [OF assms(2), of db]
      by (simp add: visible_assertions_def)
  qed
  then show "visible_assertions ch cx (erase_private_rows db repo) repo auth posture = Inr as" "\<forall>a\<in>set as. ?vis a"
    by simp_all
qed

section \<open>Properties of the read surface\<close>

text \<open>
  C7: The assertions of private subjects are invisible without authorization: on a store whose
  rows the store wrote, and for a repository name without \<open>#\<close>, the view an unauthorized caller
  reads is the view of the store from which every assertion row of a subject with a private row
  was deleted, the counts of heads and conflicts included, and no subject of it is a private one.
  The refresh records stay, those of private subjects too: the posture and the refresh debt are
  aggregated over all of them (lemma \<open>private_refresh_shows\<close>). The condition on the name is
  needed (lemma \<open>hash_repo_leaks_private\<close>).
\<close>

theorem private_subjects_invisible:
  assumes "rows_ok ch cx (t_assertions db)" "CHR ''#'' \<notin> set repo" "\<not> sees_private auth"
    and "read_view ch cx db repo auth = Inr v"
  shows "read_view ch cx (erase_private_rows db repo) repo auth = Inr v
    \<and> sv_subject_token ` set (tv_subjects v) \<inter> set (private_subject_tokens db repo) = {}"
proof -
  obtain posture as where run: "refresh_posture_row ch (codec.truncate cx) db repo = Some posture"
    "visible_assertions ch cx db repo auth posture = Inr as" "v = view_of ch repo posture as"
    using assms(4) by (auto simp: read_view_Inr)
  note vis = unauthorized_assertions [OF assms(1-3) run(2)]
  have "sv_subject_token sv \<notin> set (private_subject_tokens db repo)" if "sv \<in> set (tv_subjects v)" for sv
    using that vis(2) reduce_subject unfolding run(3) by (metis view_subject)
  then show ?thesis using run vis(1) by (auto simp: read_view_Inr)
qed

definition demo_private :: assertion where
  "demo_private = demo_row\<lparr> a_visibility := Private \<rparr>"

definition demo_split_db :: truth_db where
  "demo_split_db = demo_slices\<lparr> t_assertions :=
     [row_of demo_store_codec demo_private, row_of demo_store_codec demo_row_later] \<rparr>"

lemma demo_decoded: "decode_assertion_row demo_chrono demo_store_codec (row_of demo_store_codec demo_row_later) = Inr demo_row_later"
proof (rule decode_row_of)
  show "validate demo_chrono demo_row_later = Inr ()" by code_simp
qed (simp_all add: decodable_def reads_back_def demo_row_later_def demo_row_def demo_store_codec_def)

theorem private_subjects_invisible_witness:
  "case read_view demo_chrono demo_store_codec demo_split_db ''o/r'' \<lparr> sees_private = False \<rparr> of
     Inl _ \<Rightarrow> False
   | Inr v \<Rightarrow> read_view demo_chrono demo_store_codec (erase_private_rows demo_split_db ''o/r'') ''o/r'' \<lparr> sees_private = False \<rparr> = Inr v
       \<and> sv_subject_token ` set (tv_subjects v) \<inter> set (private_subject_tokens demo_split_db ''o/r'') = {}"
proof -
  have "validate demo_chrono demo_private = Inr ()" "validate demo_chrono demo_row_later = Inr ()" by code_simp+
  then have ok: "rows_ok demo_chrono demo_store_codec (t_assertions demo_split_db)"
    by (auto simp: rows_ok_def demo_split_db_def unique_key_row_of demo_private_def demo_row_later_def demo_row_def)
  have in_repo: "in_repo ''o/r'' (row_of demo_store_codec demo_row_later)" "in_repo ''o/r'' (row_of demo_store_codec demo_private)"
    by (simp_all add: in_repo_def row_of_def demo_private_def demo_row_later_def demo_row_def)
  have vis: "c_visibility (row_of demo_store_codec demo_row_later) = ''public''"
    "c_visibility (row_of demo_store_codec demo_private) = ''private''"
    by (simp_all add: row_of_def demo_private_def demo_row_later_def demo_row_def)
  have "public_assertions_for_repo demo_chrono demo_store_codec demo_split_db ''o/r'' = Inr [lower_repo demo_row_later]"
    using in_repo vis by (simp add: public_assertions_for_repo_def demo_split_db_def demo_decoded)
  moreover have "repo_postures demo_chrono demo_split_db ''o/r'' = t_refresh demo_slices"
    by (simp add: repo_postures_def demo_split_db_def demo_slices_def eq_ignore_ascii_case_def sort_by_def) code_simp
  then have "refresh_posture_row demo_chrono (codec.truncate demo_store_codec) demo_split_db ''o/r''
      = Some (f_posture (hd (t_refresh demo_slices)))"
    by (simp add: refresh_posture_row_def demo_slices_def)
  moreover have "row_repository_visibility (f_posture (hd (t_refresh demo_slices))) = None"
    by (simp add: demo_slices_def)
  ultimately obtain v where v: "read_view demo_chrono demo_store_codec demo_split_db ''o/r'' \<lparr> sees_private = False \<rparr> = Inr v"
    by (auto simp: read_view_Inr visible_assertions_def and_then_Inr_iff Let_def)
  have "CHR ''#'' \<notin> set ''o/r''" by simp
  from private_subjects_invisible [OF ok this _ v] show ?thesis by (simp add: v)
qed

text \<open>
  What stays visible of a private subject: one record that its refresh failed turns the posture
  every caller sees to stale and is counted in the health numbers, although the view has no
  subject at all.
\<close>

definition private_refresh_db :: truth_db where
  "private_refresh_db = demo_split_db\<lparr> t_refresh := t_refresh demo_slices @
     [\<lparr> f_repo = ''o/r'', f_subject_token = ''o/r#issue:7'',
        f_posture = \<lparr> row_fresh = False, row_last_fresh_revision = None, row_last_fresh_at = None,
          row_last_attempt_at = ''t1'', row_unavailable_reason = Some ''down'', row_repository_visibility = None,
          row_repository_visibility_at = None \<rparr> \<rparr>] \<rparr>"

lemma split_views:
  fixes rs
  defines "db \<equiv> demo_split_db\<lparr> t_refresh := rs \<rparr>"
  assumes "refresh_posture_row demo_chrono (codec.truncate demo_store_codec) db ''o/r'' = Some posture"
    "row_repository_visibility posture = None"
  shows "private_subject_tokens db ''o/r'' = [''o/r#issue:7'']"
    "read_view demo_chrono demo_store_codec db ''o/r'' \<lparr> sees_private = False \<rparr> = Inr (view_of demo_chrono ''o/r'' posture [])"
proof -
  have cols: "in_repo ''o/r'' (row_of demo_store_codec demo_row_later)" "in_repo ''o/r'' (row_of demo_store_codec demo_private)"
    "c_visibility (row_of demo_store_codec demo_row_later) = ''public''" "c_visibility (row_of demo_store_codec demo_private) = ''private''"
    "row_token (row_of demo_store_codec demo_private) = ''o/r#issue:7''"
    by (simp_all add: in_repo_def row_of_def row_token_def demo_private_def demo_row_later_def demo_row_def) code_simp
  show tok: "private_subject_tokens db ''o/r'' = [''o/r#issue:7'']"
    using cols by (simp add: db_def private_subject_tokens_def demo_split_db_def) code_simp
  have "public_assertions_for_repo demo_chrono demo_store_codec db ''o/r'' = Inr [lower_repo demo_row_later]"
    using cols by (simp add: db_def public_assertions_for_repo_def demo_split_db_def demo_decoded)
  moreover have "as_token (a_subject (lower_repo demo_row_later)) = ''o/r#issue:7''" by code_simp
  ultimately have "visible_assertions demo_chrono demo_store_codec db ''o/r'' \<lparr> sees_private = False \<rparr> posture = Inr []"
    using assms(3) tok by (simp add: visible_assertions_def)
  then show "read_view demo_chrono demo_store_codec db ''o/r'' \<lparr> sees_private = False \<rparr> = Inr (view_of demo_chrono ''o/r'' posture [])"
    using assms(2) by (auto simp: read_view_Inr)
qed

lemma private_refresh_shows:
  "case read_view demo_chrono demo_store_codec private_refresh_db ''o/r'' \<lparr> sees_private = False \<rparr> of
     Inl _ \<Rightarrow> False
   | Inr v \<Rightarrow> tv_subjects v = [] \<and> row_unavailable_reason (tv_posture v) = Some ''down''
       \<and> ph_repos_with_refresh_debt (tv_health v) = 1"
  "case read_view demo_chrono demo_store_codec (private_refresh_db\<lparr> t_refresh := t_refresh demo_slices \<rparr>) ''o/r'' \<lparr> sees_private = False \<rparr> of
     Inl _ \<Rightarrow> False
   | Inr v \<Rightarrow> tv_subjects v = [] \<and> ph_repos_with_refresh_debt (tv_health v) = 0"
  "private_subject_tokens private_refresh_db ''o/r'' = [''o/r#issue:7'']"
proof -
  define fields where "fields p = (row_unavailable_reason p, row_fresh p, row_repository_visibility p)" for p :: posture_row
  have "map_option fields (refresh_posture_row demo_chrono (codec.truncate demo_store_codec) private_refresh_db ''o/r'')
      = Some (Some ''down'', False, None)" unfolding fields_def by code_simp
  then obtain p where p: "refresh_posture_row demo_chrono (codec.truncate demo_store_codec) private_refresh_db ''o/r'' = Some p"
    "fields p = (Some ''down'', False, None)" by auto
  have "map_option fields (refresh_posture_row demo_chrono (codec.truncate demo_store_codec)
      (private_refresh_db\<lparr> t_refresh := t_refresh demo_slices \<rparr>) ''o/r'') = Some (None, True, None)" unfolding fields_def by code_simp
  then obtain q where q: "refresh_posture_row demo_chrono (codec.truncate demo_store_codec)
      (private_refresh_db\<lparr> t_refresh := t_refresh demo_slices \<rparr>) ''o/r'' = Some q" "fields q = (None, True, None)" by auto
  note views = split_views [OF p(1) [unfolded private_refresh_db_def]] split_views [OF q(1) [unfolded private_refresh_db_def, simplified]]
  show "case read_view demo_chrono demo_store_codec private_refresh_db ''o/r'' \<lparr> sees_private = False \<rparr> of
     Inl _ \<Rightarrow> False
   | Inr v \<Rightarrow> tv_subjects v = [] \<and> row_unavailable_reason (tv_posture v) = Some ''down''
       \<and> ph_repos_with_refresh_debt (tv_health v) = 1"
    using p(2) views(2) by (simp add: private_refresh_db_def fields_def view_of_def projection_health_def reduction_subjects_def Let_def)
  show "case read_view demo_chrono demo_store_codec (private_refresh_db\<lparr> t_refresh := t_refresh demo_slices \<rparr>) ''o/r'' \<lparr> sees_private = False \<rparr> of
     Inl _ \<Rightarrow> False
   | Inr v \<Rightarrow> tv_subjects v = [] \<and> ph_repos_with_refresh_debt (tv_health v) = 0"
    using q(2) views(4) by (simp add: private_refresh_db_def fields_def view_of_def projection_health_def reduction_subjects_def Let_def)
  show "private_subject_tokens private_refresh_db ''o/r'' = [''o/r#issue:7'']"
    using p(2) views(1) by (simp add: private_refresh_db_def fields_def)
qed

definition hash_public :: assertion where
  "hash_public = demo_row_later\<lparr> a_subject := SubjectRef ''o/r#x'' (Issue 7) \<rparr>"

definition hash_private :: assertion where
  "hash_private = demo_private\<lparr> a_subject := SubjectRef ''o/r#x'' (Issue 7) \<rparr>"

definition hash_rows :: "assertion_row list" where
  "hash_rows = [row_of demo_store_codec hash_private, row_of demo_store_codec hash_public]"

definition hash_db :: truth_db where
  "hash_db = empty_db\<lparr> t_assertions := hash_rows,
     t_refresh := map (\<lambda>r. r\<lparr> f_repo := ''o/r#x'' \<rparr>) (t_refresh demo_slices) \<rparr>"

text \<open>
  The condition on the repository name is needed: in a repository whose name contains
  \<open>#\<close>, which \<open>append\<close> accepts, a subject with a private row stays visible to unauthorized
  callers, because the hidden token is rebuilt from the first \<open>#\<close> of the stored token.
\<close>

lemma hash_repo_leaks_private:
  "append_all demo_chrono demo_store_codec empty_db [hash_private, hash_public]
     = Inr (2, empty_db\<lparr> t_assertions := hash_rows \<rparr>)
   \<and> a_visibility hash_private = Private \<and> a_subject hash_private = a_subject hash_public
   \<and> (case read_view demo_chrono demo_store_codec hash_db ''o/r#x'' \<lparr> sees_private = False \<rparr> of
        Inl _ \<Rightarrow> False
      | Inr v \<Rightarrow> as_token (a_subject hash_private) \<in> sv_subject_token ` set (tv_subjects v))"
proof (intro conjI)
  have valid: "validate demo_chrono hash_private = Inr ()" "validate demo_chrono hash_public = Inr ()" by code_simp+
  have diff: "a_assertion_id hash_private \<noteq> a_assertion_id hash_public"
    "unique_key (row_of demo_store_codec hash_private) \<noteq> unique_key (row_of demo_store_codec hash_public)"
    by (simp_all add: unique_key_row_of hash_private_def hash_public_def demo_private_def demo_row_later_def demo_row_def)
  show "append_all demo_chrono demo_store_codec empty_db [hash_private, hash_public]
     = Inr (2, empty_db\<lparr> t_assertions := hash_rows \<rparr>)"
    using valid diff by (simp add: append_all_def append_in_new empty_db_def hash_rows_def)
  show "a_visibility hash_private = Private" "a_subject hash_private = a_subject hash_public"
    by (simp_all add: hash_private_def hash_public_def demo_private_def)
  have dec: "decode_assertion_row demo_chrono demo_store_codec (row_of demo_store_codec hash_public) = Inr hash_public"
    using valid(2) by (rule decode_row_of)
      (simp_all add: decodable_def reads_back_def hash_public_def demo_row_later_def demo_row_def demo_store_codec_def)
  have cols: "c_subject_repo (row_of demo_store_codec hash_public) = ''o/r#x''" "c_subject_repo (row_of demo_store_codec hash_private) = ''o/r#x''"
    "c_visibility (row_of demo_store_codec hash_public) = ''public''" "c_visibility (row_of demo_store_codec hash_private) = ''private''"
    "c_subject_kind (row_of demo_store_codec hash_private) = ''issue''" "c_subject_id (row_of demo_store_codec hash_private) = ''7''"
    by (simp_all add: row_of_def hash_public_def hash_private_def demo_private_def demo_row_later_def demo_row_def) code_simp
  have "lower_repo hash_public = hash_public" by code_simp
  then have "public_assertions_for_repo demo_chrono demo_store_codec hash_db ''o/r#x'' = Inr [hash_public]"
    by (simp add: public_assertions_for_repo_def hash_db_def hash_rows_def in_repo_def eq_ignore_ascii_case_def cols dec)
  moreover have "private_subject_tokens hash_db ''o/r#x'' = [''o/r#x#x#issue:7'']"
    by (simp add: private_subject_tokens_def hash_db_def hash_rows_def in_repo_def eq_ignore_ascii_case_def cols row_token_def)
      code_simp
  moreover have "as_token (a_subject hash_public) = ''o/r#x#issue:7''" by code_simp
  moreover have "repo_postures demo_chrono hash_db ''o/r#x'' = t_refresh hash_db"
    by (simp add: repo_postures_def hash_db_def demo_slices_def eq_ignore_ascii_case_def sort_by_def)
  then have "refresh_posture_row demo_chrono (codec.truncate demo_store_codec) hash_db ''o/r#x''
      = Some (f_posture (hd (t_refresh demo_slices)))"
    by (simp add: refresh_posture_row_def hash_db_def demo_slices_def)
  moreover have "row_repository_visibility (f_posture (hd (t_refresh demo_slices))) = None"
    by (simp add: demo_slices_def)
  ultimately have "read_view demo_chrono demo_store_codec hash_db ''o/r#x'' \<lparr> sees_private = False \<rparr>
      = Inr (view_of demo_chrono ''o/r#x'' (f_posture (hd (t_refresh demo_slices))) [hash_public])"
    by (simp add: read_view_Inr visible_assertions_def Let_def)
  moreover have "as_token (a_subject hash_private) \<in> sv_subject_token `
      set (tv_subjects (view_of demo_chrono ''o/r#x'' (f_posture (hd (t_refresh demo_slices))) [hash_public]))"
    by code_simp
  ultimately show "case read_view demo_chrono demo_store_codec hash_db ''o/r#x'' \<lparr> sees_private = False \<rparr> of
        Inl _ \<Rightarrow> False
      | Inr v \<Rightarrow> as_token (a_subject hash_private) \<in> sv_subject_token ` set (tv_subjects v)"
    by simp
qed

text \<open>
  C8: A view never guesses: without a recorded refresh of the repository it is the error
  \<open>NoPosture\<close>; when the posture is not fresh, every derived action is a conflict to resolve
  or a source to refresh, and the refresh debt is counted; an unauthorized caller of a
  private repository gets no subject.
\<close>

theorem view_never_guesses:
  "(read_view ch cx db repo auth = Err (NoPosture repo)
      \<longleftrightarrow> list_all (\<lambda>r. \<not> eq_ignore_ascii_case (f_repo r) repo) (t_refresh db))
   \<and> (case read_view ch cx db repo auth of
        Inl _ \<Rightarrow> True
      | Inr v \<Rightarrow> (row_fresh (tv_posture v)
            \<or> ph_repos_with_refresh_debt (tv_health v) = 1
              \<and> list_all (\<lambda>sv. case sv_open_action sv of None \<Rightarrow> True
                   | Some a \<Rightarrow> o_kind a = ResolveConflict \<or> o_kind a = RefreshUnavailableSource) (tv_subjects v))
         \<and> (sees_private auth \<or> row_repository_visibility (tv_posture v) \<in> {None, Some Public} \<or> tv_subjects v = []))"
proof (intro conjI)
  have "refresh_posture_row ch (codec.truncate cx) db repo = None \<longleftrightarrow> repo_postures ch db repo = []"
    by (simp add: refresh_posture_row_def Let_def split: list.split)
  also have "\<dots> \<longleftrightarrow> set (repo_postures ch db repo) = {}" by simp
  also have "\<dots> \<longleftrightarrow> list_all (\<lambda>r. \<not> eq_ignore_ascii_case (f_repo r) repo) (t_refresh db)"
    by (auto simp del: set_empty simp: repo_postures_def list_all_iff)
  finally have none: "refresh_posture_row ch (codec.truncate cx) db repo = None
      \<longleftrightarrow> list_all (\<lambda>r. \<not> eq_ignore_ascii_case (f_repo r) repo) (t_refresh db)" .
  have "read_view ch cx db repo auth = Err (NoPosture repo)
      \<longleftrightarrow> refresh_posture_row ch (codec.truncate cx) db repo = None"
    by (auto simp: read_view_def and_then_def lift_err_def split: option.splits sum.splits)
  then show "read_view ch cx db repo auth = Err (NoPosture repo)
      \<longleftrightarrow> list_all (\<lambda>r. \<not> eq_ignore_ascii_case (f_repo r) repo) (t_refresh db)"
    by (simp add: none)
next
  let ?safe = "\<lambda>sv. case sv_open_action sv of None \<Rightarrow> True
                   | Some a \<Rightarrow> o_kind a = ResolveConflict \<or> o_kind a = RefreshUnavailableSource"
  show "case read_view ch cx db repo auth of
        Inl _ \<Rightarrow> True
      | Inr v \<Rightarrow> (row_fresh (tv_posture v) \<or> ph_repos_with_refresh_debt (tv_health v) = 1 \<and> list_all ?safe (tv_subjects v))
         \<and> (sees_private auth \<or> row_repository_visibility (tv_posture v) \<in> {None, Some Public} \<or> tv_subjects v = [])"
  proof (cases "read_view ch cx db repo auth")
    case (Inr v)
    then obtain posture as where run: "visible_assertions ch cx db repo auth posture = Inr as" "v = view_of ch repo posture as"
      by (auto simp: read_view_Inr)
    have v: "tv_posture v = posture" "ph_repos_with_refresh_debt (tv_health v) = (if row_fresh posture then 0 else 1)"
      by (simp_all add: run(2) view_of_def projection_health_def Let_def)
    have "?safe sv" if stale: "\<not> row_fresh posture" and sv: "sv \<in> set (tv_subjects v)" for sv
    proof -
      have "\<not> p_fresh (posture_for_actions posture)"
        using stale by (simp add: posture_for_actions_def posture_unavailable_def)
      then show ?thesis
        using sv unfolding run(2) by (rule_tac view_subject) (auto simp: action_kind Let_def)
    qed
    moreover have "tv_subjects v = []" if "\<not> sees_private auth" "row_repository_visibility posture = Some Private"
    proof -
      have "as = []" using that run(1) by (simp add: visible_assertions_def)
      then show ?thesis by (simp add: run(2) view_of_def reduce_Nil reduction_subjects_def Let_def)
    qed
    ultimately show ?thesis
      using v by (simp add: Inr list_all_iff) (metis option.exhaust visibility.exhaust)
  qed simp
qed

end
