(* ===== verification/Broker_Alias.thy ===== *)
theory Broker_Alias
  imports Tachi_Json
begin

text \<open>
  The alias set as a policy, \<open>crates/memcore/src/catalog/alias_policy.rs\<close> over the row types
  of \<open>crates/memcore/src/catalog.rs\<close>: the snapshot a reference is resolved against and its
  content-addressed revision. The lemmas show that both are functions of the active rows as
  sets. JSON text and SHA-256 are the parameter \<open>codec\<close> of \<open>Tachi_Json\<close>. An \<open>i64\<close> that
  is only compared and printed is an \<open>int\<close>.
\<close>

record model_alias =
  al_alias_name :: string
  al_required_capabilities :: string
  al_constraints :: string
  al_status :: string
  al_revision :: int
  al_policy_digest :: "string option"
  al_source_refs :: "string list"
  al_created_at :: string
  al_updated_at :: string

record model_alias_binding =
  bd_alias_name :: string
  bd_deployment_id :: string
  bd_priority :: int
  bd_retired :: bool
  bd_created_at :: string
  bd_updated_at :: string

definition ALIAS_STATUS_ACTIVE :: string where
  "ALIAS_STATUS_ACTIVE = ''active''"

definition ALIAS_POLICY_REVISION_SCHEME :: string where
  "ALIAS_POLICY_REVISION_SCHEME = ''ar1''"

record alias_binding_entry =
  bn_deployment_id :: string
  bn_priority :: int

record alias_entry =
  ae_alias_name :: string
  ae_bindings :: "alias_binding_entry list"

record alias_set_snapshot =
  as_policy_revision :: string
  as_aliases :: "alias_entry list"

definition active_bindings_for :: "string \<Rightarrow> model_alias_binding list \<Rightarrow> alias_binding_entry list" where
  "active_bindings_for alias_name bindings =
     sort_key (\<lambda>b. (bn_priority b, bn_deployment_id b))
       (map (\<lambda>b. \<lparr> bn_deployment_id = bd_deployment_id b, bn_priority = bd_priority b \<rparr>)
         (filter (\<lambda>b. \<not> bd_retired b \<and> bd_alias_name b = alias_name) bindings))"

definition int_json :: "int \<Rightarrow> json" where
  "int_json i = JNumber (if 0 \<le> i then PosInt (nat i) else NegInt i)"

definition parsed_or_literal :: "codec \<Rightarrow> string \<Rightarrow> json" where
  "parsed_or_literal cx raw = (case from_text cx raw of Some v \<Rightarrow> v | None \<Rightarrow> JString raw)"

definition alias_json :: "codec \<Rightarrow> model_alias_binding list \<Rightarrow> model_alias \<Rightarrow> json" where
  "alias_json cx bindings a = JObject
     [(''alias_name'', JString (al_alias_name a)),
      (''required_capabilities'', parsed_or_literal cx (al_required_capabilities a)),
      (''constraints'', parsed_or_literal cx (al_constraints a)),
      (''revision'', int_json (al_revision a)),
      (''bindings'', JArray (map (\<lambda>b. JObject
         [(''deployment_id'', JString (bn_deployment_id b)), (''priority'', int_json (bn_priority b))])
         (active_bindings_for (al_alias_name a) bindings)))]"

text \<open>\<open>rows.sort_by\<close> compares the \<open>alias_name\<close> of the rows, which is the one they were built from.\<close>

definition alias_set_policy_revision :: "codec \<Rightarrow> model_alias list \<Rightarrow> model_alias_binding list \<Rightarrow> string" where
  "alias_set_policy_revision cx aliases bindings =
     ALIAS_POLICY_REVISION_SCHEME @ '':'' @ canonical_json_digest_hex cx
       (JArray (map (alias_json cx bindings)
         (sort_key al_alias_name (filter (\<lambda>a. al_status a = ALIAS_STATUS_ACTIVE) aliases))))"

definition from_rows :: "codec \<Rightarrow> model_alias list \<Rightarrow> model_alias_binding list \<Rightarrow> alias_set_snapshot" where
  "from_rows cx aliases bindings =
     \<lparr> as_policy_revision = alias_set_policy_revision cx aliases bindings,
       as_aliases = sort_key ae_alias_name
         (map (\<lambda>a. \<lparr> ae_alias_name = al_alias_name a, ae_bindings = active_bindings_for (al_alias_name a) bindings \<rparr>)
           (filter (\<lambda>a. al_status a = ALIAS_STATUS_ACTIVE) aliases)) \<rparr>"

definition empty_alias_set :: "codec \<Rightarrow> alias_set_snapshot" where
  "empty_alias_set cx = from_rows cx [] []"

definition alias_get :: "alias_set_snapshot \<Rightarrow> string \<Rightarrow> alias_entry option" where
  "alias_get s alias_name = find (\<lambda>e. ae_alias_name e = alias_name) (as_aliases s)"

lemma active_bindings_perm:
  assumes "mset (filter (\<lambda>b. \<not> bd_retired b) bs) = mset (filter (\<lambda>b. \<not> bd_retired b) bs')"
  shows "active_bindings_for n bs = active_bindings_for n bs'"
proof -
  let ?own = "\<lambda>xs. filter (\<lambda>b. bd_alias_name b = n) (filter (\<lambda>b. \<not> bd_retired b) xs)"
  have eq: "filter (\<lambda>b. \<not> bd_retired b \<and> bd_alias_name b = n) xs = ?own xs" for xs
    by (simp add: conj_commute)
  have "mset (?own bs) = mset (?own bs')" using assms by (simp only: mset_filter)
  then show ?thesis
    unfolding active_bindings_for_def eq
    by (intro sort_key_perm) (simp_all add: inj_on_def)
qed

section \<open>Properties of the alias set\<close>

text \<open>
  The alias set and its revision are functions of the active rows: reordering the rows, and
  adding, removing or changing retired aliases and retired bindings, changes neither.
\<close>

lemma alias_set_active_rows:
  assumes "mset (filter (\<lambda>a. al_status a = ALIAS_STATUS_ACTIVE) aliases)
         = mset (filter (\<lambda>a. al_status a = ALIAS_STATUS_ACTIVE) aliases')"
    and "mset (filter (\<lambda>b. \<not> bd_retired b) bindings) = mset (filter (\<lambda>b. \<not> bd_retired b) bindings')"
    and "inj_on al_alias_name {a \<in> set aliases. al_status a = ALIAS_STATUS_ACTIVE}"
  shows "from_rows cx aliases bindings = from_rows cx aliases' bindings'"
proof -
  let ?act = "filter (\<lambda>a. al_status a = ALIAS_STATUS_ACTIVE)"
  have bind: "active_bindings_for n bindings = active_bindings_for n bindings'" for n
    by (rule active_bindings_perm [OF assms(2)])
  have rows: "sort_key al_alias_name (?act aliases) = sort_key al_alias_name (?act aliases')"
    using assms(1,3) by (intro sort_key_perm) (simp_all add: inj_on_def)
  have "sort_key ae_alias_name (map (\<lambda>a. \<lparr> ae_alias_name = al_alias_name a, ae_bindings = active_bindings_for (al_alias_name a) bindings' \<rparr>) (?act aliases))
      = sort_key ae_alias_name (map (\<lambda>a. \<lparr> ae_alias_name = al_alias_name a, ae_bindings = active_bindings_for (al_alias_name a) bindings' \<rparr>) (?act aliases'))"
    using assms(1,3) by (intro sort_key_perm) (auto simp: inj_on_def)
  then show ?thesis
    by (simp add: from_rows_def alias_set_policy_revision_def alias_json_def [abs_def] bind rows)
qed

definition demo_alias :: "string \<Rightarrow> string \<Rightarrow> model_alias" where
  "demo_alias n status = \<lparr> al_alias_name = n, al_required_capabilities = ''{}'', al_constraints = ''{}'',
     al_status = status, al_revision = 1, al_policy_digest = None, al_source_refs = [],
     al_created_at = ''t0'', al_updated_at = ''t0'' \<rparr>"

definition demo_binding :: "string \<Rightarrow> string \<Rightarrow> bool \<Rightarrow> model_alias_binding" where
  "demo_binding n d retired = \<lparr> bd_alias_name = n, bd_deployment_id = d, bd_priority = 0,
     bd_retired = retired, bd_created_at = ''t0'', bd_updated_at = ''t0'' \<rparr>"

definition demo_alias_codec :: codec where
  "demo_alias_codec = \<lparr> to_text = (\<lambda>_. []), from_text = (\<lambda>_. None), sha256 = (\<lambda>_. [1, 2]) \<rparr>"

lemma alias_set_active_rows_witness:
  "from_rows demo_alias_codec [demo_alias ''a'' ''active'', demo_alias ''b'' ''active'', demo_alias ''c'' ''retired'']
      [demo_binding ''a'' ''d1'' False, demo_binding ''a'' ''d2'' False]
   = from_rows demo_alias_codec [demo_alias ''b'' ''active'', demo_alias ''a'' ''active'']
      [demo_binding ''a'' ''d2'' False, demo_binding ''b'' ''d1'' True, demo_binding ''a'' ''d1'' False]"
  by (rule alias_set_active_rows) (auto simp: demo_alias_def demo_binding_def ALIAS_STATUS_ACTIVE_def inj_on_def)

end
