(* ===== verification/Catalog_Rows.thy ===== *)
theory Catalog_Rows
  imports Broker_Alias
begin

text \<open>
  Rows of the model catalog, \<open>crates/memcore/src/catalog.rs\<close>, with the evidence
  vocabulary of \<open>crates/memcore/src/vault/health.rs\<close> its health row carries. Field \<open>f\<close> of
  \<open>ModelDeployment\<close> is \<open>md_f\<close>, of \<open>NewModelDeployment\<close> \<open>nd_f\<close>, of an event \<open>ev_f\<close>, of
  the caller's half of an event \<open>ne_f\<close>, of \<open>ModelDeploymentHealth\<close> \<open>h_f\<close>. An \<open>i64\<close>
  revision, id or bound is an \<open>int\<close>; a revision starts at 1 and moves by 1 per write. The
  texts of the \<open>InvalidArg\<close> errors are the constructors of \<open>catalog_error\<close>.
\<close>

section \<open>Errors\<close>

datatype catalog_error =
    NotRfc3339 string string
  | SnapshotRewritten string string
  | UnknownProtocolKind string string
  | UnknownCatalogSource string string
  | UnreadableColumn string string
  | SnapshotUnknownSource string string
  | UnreadableJson
  | AliasNotFound string
  | Refused string

section \<open>Closed vocabularies\<close>

definition DEPLOYMENT_STATUS_ACTIVE :: string where
  "DEPLOYMENT_STATUS_ACTIVE = ''active''"

definition DEPLOYMENT_STATUS_RETIRED :: string where
  "DEPLOYMENT_STATUS_RETIRED = ''retired''"

definition ALIAS_STATUS_RETIRED :: string where
  "ALIAS_STATUS_RETIRED = ''retired''"

datatype catalog_source = Env | ProviderApi | Manual

fun source_as_str :: "catalog_source \<Rightarrow> string" where
  "source_as_str Env = ''env''"
| "source_as_str ProviderApi = ''provider_api''"
| "source_as_str Manual = ''manual''"

definition source_parse :: "string \<Rightarrow> catalog_source option" where
  "source_parse raw =
     (if raw = ''env'' then Some Env
      else if raw = ''provider_api'' then Some ProviderApi
      else if raw = ''manual'' then Some Manual else None)"

datatype protocol_kind = OpenAiChatCompletions | VoyageEmbeddings

fun protocol_as_str :: "protocol_kind \<Rightarrow> string" where
  "protocol_as_str OpenAiChatCompletions = ''openai_chat_completions''"
| "protocol_as_str VoyageEmbeddings = ''voyage_embeddings''"

definition protocol_parse :: "string \<Rightarrow> protocol_kind option" where
  "protocol_parse raw =
     (if raw = ''openai_chat_completions'' then Some OpenAiChatCompletions
      else if raw = ''voyage_embeddings'' then Some VoyageEmbeddings else None)"

datatype deployment_event_kind =
  DeploymentImported | DeploymentUpdated | DeploymentRetired
| HealthServed | HealthCooldown | HealthError

fun event_kind_as_str :: "deployment_event_kind \<Rightarrow> string" where
  "event_kind_as_str DeploymentImported = ''deployment_imported''"
| "event_kind_as_str DeploymentUpdated = ''deployment_updated''"
| "event_kind_as_str DeploymentRetired = ''deployment_retired''"
| "event_kind_as_str HealthServed = ''deployment_health_served''"
| "event_kind_as_str HealthCooldown = ''deployment_health_cooldown''"
| "event_kind_as_str HealthError = ''deployment_health_error''"

definition event_kind_parse :: "string \<Rightarrow> deployment_event_kind option" where
  "event_kind_parse raw =
     (if raw = ''deployment_imported'' then Some DeploymentImported
      else if raw = ''deployment_updated'' then Some DeploymentUpdated
      else if raw = ''deployment_retired'' then Some DeploymentRetired
      else if raw = ''deployment_health_served'' then Some HealthServed
      else if raw = ''deployment_health_cooldown'' then Some HealthCooldown
      else if raw = ''deployment_health_error'' then Some HealthError else None)"

definition DEPLOYMENT_HEALTH_STATE_OK :: string where
  "DEPLOYMENT_HEALTH_STATE_OK = ''ok''"

definition DEPLOYMENT_HEALTH_STATE_COOLDOWN :: string where
  "DEPLOYMENT_HEALTH_STATE_COOLDOWN = ''cooldown''"

definition DEPLOYMENT_HEALTH_STATE_ERROR :: string where
  "DEPLOYMENT_HEALTH_STATE_ERROR = ''error''"

fun kind_health_state :: "deployment_event_kind \<Rightarrow> string option" where
  "kind_health_state HealthServed = Some DEPLOYMENT_HEALTH_STATE_OK"
| "kind_health_state HealthCooldown = Some DEPLOYMENT_HEALTH_STATE_COOLDOWN"
| "kind_health_state HealthError = Some DEPLOYMENT_HEALTH_STATE_ERROR"
| "kind_health_state _ = None"

definition is_health :: "deployment_event_kind \<Rightarrow> bool" where
  "is_health k \<longleftrightarrow> kind_health_state k \<noteq> None"

datatype alias_event_kind =
  AliasDeclared | AliasUpdated | AliasRetired | AliasBindingBound | AliasBindingRetired

fun alias_kind_as_str :: "alias_event_kind \<Rightarrow> string" where
  "alias_kind_as_str AliasDeclared = ''alias_declared''"
| "alias_kind_as_str AliasUpdated = ''alias_updated''"
| "alias_kind_as_str AliasRetired = ''alias_retired''"
| "alias_kind_as_str AliasBindingBound = ''alias_binding_bound''"
| "alias_kind_as_str AliasBindingRetired = ''alias_binding_retired''"

definition alias_kind_parse :: "string \<Rightarrow> alias_event_kind option" where
  "alias_kind_parse raw =
     (if raw = ''alias_declared'' then Some AliasDeclared
      else if raw = ''alias_updated'' then Some AliasUpdated
      else if raw = ''alias_retired'' then Some AliasRetired
      else if raw = ''alias_binding_bound'' then Some AliasBindingBound
      else if raw = ''alias_binding_retired'' then Some AliasBindingRetired else None)"

datatype evidence_kind = EvidenceProbed | EvidenceSelfReported

fun evidence_kind_as_str :: "evidence_kind \<Rightarrow> string" where
  "evidence_kind_as_str EvidenceProbed = ''probed''"
| "evidence_kind_as_str EvidenceSelfReported = ''self_reported''"

definition evidence_kind_parse :: "string \<Rightarrow> evidence_kind option" where
  "evidence_kind_parse raw =
     (if raw = ''probed'' then Some EvidenceProbed
      else if raw = ''self_reported'' then Some EvidenceSelfReported else None)"

interpretation source_wire: wire_vocabulary source_as_str source_parse "[Env, ProviderApi, Manual]"
  by unfold_locales (auto simp: source_parse_def intro: catalog_source.exhaust)

interpretation protocol_wire: wire_vocabulary protocol_as_str protocol_parse
    "[OpenAiChatCompletions, VoyageEmbeddings]"
  by unfold_locales (auto simp: protocol_parse_def intro: protocol_kind.exhaust)

interpretation event_kind_wire: wire_vocabulary event_kind_as_str event_kind_parse
    "[DeploymentImported, DeploymentUpdated, DeploymentRetired, HealthServed, HealthCooldown, HealthError]"
  by unfold_locales (auto simp: event_kind_parse_def intro: deployment_event_kind.exhaust)

interpretation alias_kind_wire: wire_vocabulary alias_kind_as_str alias_kind_parse
    "[AliasDeclared, AliasUpdated, AliasRetired, AliasBindingBound, AliasBindingRetired]"
  by unfold_locales (auto simp: alias_kind_parse_def intro: alias_event_kind.exhaust)

interpretation evidence_kind_wire: wire_vocabulary evidence_kind_as_str evidence_kind_parse
    "[EvidenceProbed, EvidenceSelfReported]"
  by unfold_locales (auto simp: evidence_kind_parse_def intro: evidence_kind.exhaust)

section \<open>Deployments\<close>

record embeddings_capability =
  em_dimension :: "32 word"

record catalog_capabilities =
  cc_chat :: bool
  cc_tools :: bool
  cc_streaming :: bool
  cc_structured_output :: bool
  cc_media :: bool
  cc_rerank :: bool
  cc_embeddings :: "embeddings_capability option"

definition capabilities_default :: catalog_capabilities where
  "capabilities_default =
     \<lparr> cc_chat = False, cc_tools = False, cc_streaming = False, cc_structured_output = False,
       cc_media = False, cc_rerank = False, cc_embeddings = None \<rparr>"

record attachment_bounds =
  at_max_attachment_bytes :: "int option"
  at_max_attachment_count :: "32 word option"
  at_accepted_media_types :: "string list"

definition attachment_bounds_default :: attachment_bounds where
  "attachment_bounds_default =
     \<lparr> at_max_attachment_bytes = None, at_max_attachment_count = None, at_accepted_media_types = [] \<rparr>"

record model_deployment =
  md_deployment_id :: string
  md_provider_account_id :: string
  md_endpoint_ref :: "string option"
  md_protocol_kind :: protocol_kind
  md_provider_model_id :: string
  md_effective_version :: "string option"
  md_capabilities :: catalog_capabilities
  md_context_window :: "int option"
  md_max_output :: "int option"
  md_attachment_bounds :: attachment_bounds
  md_region :: "string option"
  md_data_policy :: "string option"
  md_pricing_snapshot_ref :: "string option"
  md_catalog_source :: catalog_source
  md_fetched_at :: string
  md_effective_at :: string
  md_expires_at :: "string option"
  md_status :: string
  md_revision :: int
  md_source_refs :: "string list"
  md_created_at :: string
  md_updated_at :: string

record new_model_deployment =
  nd_deployment_id :: string
  nd_provider_account_id :: string
  nd_endpoint_ref :: "string option"
  nd_protocol_kind :: protocol_kind
  nd_provider_model_id :: string
  nd_effective_version :: "string option"
  nd_capabilities :: catalog_capabilities
  nd_context_window :: "int option"
  nd_max_output :: "int option"
  nd_attachment_bounds :: attachment_bounds
  nd_region :: "string option"
  nd_data_policy :: "string option"
  nd_pricing_snapshot_ref :: "string option"
  nd_catalog_source :: catalog_source
  nd_fetched_at :: string
  nd_effective_at :: string
  nd_expires_at :: "string option"
  nd_status :: string
  nd_source_refs :: "string list"

definition observed_deployment ::
  "string \<Rightarrow> string \<Rightarrow> protocol_kind \<Rightarrow> string \<Rightarrow> catalog_source \<Rightarrow> string \<Rightarrow> new_model_deployment" where
  "observed_deployment i account protocol model source observed_at =
     \<lparr> nd_deployment_id = i, nd_provider_account_id = account, nd_endpoint_ref = None,
       nd_protocol_kind = protocol, nd_provider_model_id = model, nd_effective_version = None,
       nd_capabilities = capabilities_default, nd_context_window = None, nd_max_output = None,
       nd_attachment_bounds = attachment_bounds_default, nd_region = None, nd_data_policy = None,
       nd_pricing_snapshot_ref = None, nd_catalog_source = source, nd_fetched_at = observed_at,
       nd_effective_at = observed_at, nd_expires_at = None, nd_status = DEPLOYMENT_STATUS_ACTIVE,
       nd_source_refs = [] \<rparr>"

definition with_endpoint_ref :: "string \<Rightarrow> new_model_deployment \<Rightarrow> new_model_deployment" where
  "with_endpoint_ref e d = d\<lparr> nd_endpoint_ref := Some e \<rparr>"

definition with_capabilities :: "catalog_capabilities \<Rightarrow> new_model_deployment \<Rightarrow> new_model_deployment" where
  "with_capabilities c d = d\<lparr> nd_capabilities := c \<rparr>"

definition with_source_refs :: "string list \<Rightarrow> new_model_deployment \<Rightarrow> new_model_deployment" where
  "with_source_refs refs d = d\<lparr> nd_source_refs := refs \<rparr>"

definition with_expires_at :: "string \<Rightarrow> new_model_deployment \<Rightarrow> new_model_deployment" where
  "with_expires_at e d = d\<lparr> nd_expires_at := Some e \<rparr>"

text \<open>
  \<open>json!\<close> inserts the entries of an object into a \<open>serde_json::Map\<close>, which is ordered by
  key in this build (the \<open>preserve_order\<close> feature is off).
\<close>

definition json_object :: "(string \<times> json) list \<Rightarrow> json" where
  "json_object entries = JObject (bt_of_list entries)"

definition opt_json :: "('a \<Rightarrow> json) \<Rightarrow> 'a option \<Rightarrow> json" where
  "opt_json f x = (case x of None \<Rightarrow> JNull | Some a \<Rightarrow> f a)"

definition capabilities_json :: "catalog_capabilities \<Rightarrow> json" where
  "capabilities_json c = json_object
     [(''chat'', JBool (cc_chat c)), (''tools'', JBool (cc_tools c)),
      (''streaming'', JBool (cc_streaming c)),
      (''structured_output'', JBool (cc_structured_output c)),
      (''media'', JBool (cc_media c)), (''rerank'', JBool (cc_rerank c)),
      (''embeddings'', opt_json
         (\<lambda>e. json_object [(''dimension'', JNumber (PosInt (unat (em_dimension e))))]) (cc_embeddings c))]"

definition attachment_bounds_json :: "attachment_bounds \<Rightarrow> json" where
  "attachment_bounds_json b = json_object
     [(''max_attachment_bytes'', opt_json int_json (at_max_attachment_bytes b)),
      (''max_attachment_count'', opt_json (\<lambda>n. JNumber (PosInt (unat n))) (at_max_attachment_count b)),
      (''accepted_media_types'', JArray (map JString (at_accepted_media_types b)))]"

definition identity_payload :: "new_model_deployment \<Rightarrow> json" where
  "identity_payload d = json_object
     [(''provider_account_id'', JString (nd_provider_account_id d)),
      (''endpoint_ref'', opt_json JString (nd_endpoint_ref d)),
      (''protocol_kind'', JString (protocol_as_str (nd_protocol_kind d))),
      (''provider_model_id'', JString (nd_provider_model_id d)),
      (''effective_version'', opt_json JString (nd_effective_version d)),
      (''capabilities'', capabilities_json (nd_capabilities d)),
      (''context_window'', opt_json int_json (nd_context_window d)),
      (''max_output'', opt_json int_json (nd_max_output d)),
      (''attachment_bounds'', attachment_bounds_json (nd_attachment_bounds d)),
      (''region'', opt_json JString (nd_region d)),
      (''data_policy'', opt_json JString (nd_data_policy d)),
      (''pricing_snapshot_ref'', opt_json JString (nd_pricing_snapshot_ref d)),
      (''catalog_source'', JString (source_as_str (nd_catalog_source d))),
      (''expires_at'', opt_json JString (nd_expires_at d)),
      (''status'', JString (nd_status d)),
      (''source_refs'', JArray (map JString (nd_source_refs d)))]"

definition new_content_digest :: "codec \<Rightarrow> new_model_deployment \<Rightarrow> string" where
  "new_content_digest cx d = canonical_json_digest_hex cx (identity_payload d)"

definition stored_content_digest :: "codec \<Rightarrow> model_deployment \<Rightarrow> string" where
  "stored_content_digest cx d = canonical_json_digest_hex cx (json_object
     [(''provider_account_id'', JString (md_provider_account_id d)),
      (''endpoint_ref'', opt_json JString (md_endpoint_ref d)),
      (''protocol_kind'', JString (protocol_as_str (md_protocol_kind d))),
      (''provider_model_id'', JString (md_provider_model_id d)),
      (''effective_version'', opt_json JString (md_effective_version d)),
      (''capabilities'', capabilities_json (md_capabilities d)),
      (''context_window'', opt_json int_json (md_context_window d)),
      (''max_output'', opt_json int_json (md_max_output d)),
      (''attachment_bounds'', attachment_bounds_json (md_attachment_bounds d)),
      (''region'', opt_json JString (md_region d)),
      (''data_policy'', opt_json JString (md_data_policy d)),
      (''pricing_snapshot_ref'', opt_json JString (md_pricing_snapshot_ref d)),
      (''catalog_source'', JString (source_as_str (md_catalog_source d))),
      (''expires_at'', opt_json JString (md_expires_at d)),
      (''status'', JString (md_status d)),
      (''source_refs'', JArray (map JString (md_source_refs d)))])"

section \<open>Events\<close>

record model_deployment_event =
  ev_id :: int
  ev_deployment_id :: string
  ev_revision :: int
  ev_event_kind :: string
  ev_plan_digest :: "string option"
  ev_evidence :: string
  ev_created_at :: string

record new_model_deployment_event =
  ne_deployment_id :: string
  ne_revision :: int
  ne_event_kind :: string
  ne_plan_digest :: "string option"
  ne_evidence :: string

definition new_deployment_event :: "string \<Rightarrow> int \<Rightarrow> deployment_event_kind \<Rightarrow> new_model_deployment_event" where
  "new_deployment_event i revision kind =
     \<lparr> ne_deployment_id = i, ne_revision = revision, ne_event_kind = event_kind_as_str kind,
       ne_plan_digest = None, ne_evidence = ''{}'' \<rparr>"

definition with_plan_digest :: "string \<Rightarrow> new_model_deployment_event \<Rightarrow> new_model_deployment_event" where
  "with_plan_digest p e = e\<lparr> ne_plan_digest := Some p \<rparr>"

definition with_evidence :: "string \<Rightarrow> new_model_deployment_event \<Rightarrow> new_model_deployment_event" where
  "with_evidence t e = e\<lparr> ne_evidence := t \<rparr>"

record model_alias_event =
  xv_id :: int
  xv_alias_name :: string
  xv_revision :: int
  xv_event_kind :: string
  xv_plan_digest :: "string option"
  xv_evidence :: string
  xv_created_at :: string

record new_model_alias_event =
  xn_alias_name :: string
  xn_revision :: int
  xn_event_kind :: string
  xn_plan_digest :: "string option"
  xn_evidence :: string

definition new_alias_event :: "string \<Rightarrow> int \<Rightarrow> alias_event_kind \<Rightarrow> new_model_alias_event" where
  "new_alias_event a revision kind =
     \<lparr> xn_alias_name = a, xn_revision = revision, xn_event_kind = alias_kind_as_str kind,
       xn_plan_digest = None, xn_evidence = ''{}'' \<rparr>"

definition alias_with_plan_digest :: "string \<Rightarrow> new_model_alias_event \<Rightarrow> new_model_alias_event" where
  "alias_with_plan_digest p e = e\<lparr> xn_plan_digest := Some p \<rparr>"

definition alias_with_evidence :: "string \<Rightarrow> new_model_alias_event \<Rightarrow> new_model_alias_event" where
  "alias_with_evidence t e = e\<lparr> xn_evidence := t \<rparr>"

section \<open>Pricing snapshots\<close>

record pricing_snapshot =
  ps_snapshot_id :: string
  ps_provider_kind :: string
  ps_pricing_data :: json
  ps_catalog_source :: "catalog_source option"
  ps_fetched_at :: string
  ps_created_at :: string

definition PRICING_SNAPSHOT_SCHEME :: string where
  "PRICING_SNAPSHOT_SCHEME = ''ps1''"

definition compute_snapshot_id :: "codec \<Rightarrow> string \<Rightarrow> json \<Rightarrow> string" where
  "compute_snapshot_id cx provider_kind pricing_data =
     PRICING_SNAPSHOT_SCHEME @ '':'' @ canonical_json_digest_hex cx (json_object
       [(''provider_kind'', JString provider_kind), (''pricing_data'', pricing_data)])"

definition mint_snapshot ::
  "codec \<Rightarrow> string \<Rightarrow> json \<Rightarrow> catalog_source option \<Rightarrow> string \<Rightarrow> pricing_snapshot" where
  "mint_snapshot cx provider_kind pricing_data source observed_at =
     \<lparr> ps_snapshot_id = compute_snapshot_id cx provider_kind pricing_data,
       ps_provider_kind = provider_kind, ps_pricing_data = pricing_data,
       ps_catalog_source = source, ps_fetched_at = observed_at, ps_created_at = observed_at \<rparr>"

definition snapshot_from_stored ::
  "codec \<Rightarrow> string \<Rightarrow> string \<Rightarrow> json \<Rightarrow> catalog_source option \<Rightarrow> string \<Rightarrow> string \<Rightarrow>
     (pricing_snapshot, catalog_error) result" where
  "snapshot_from_stored cx snapshot_id provider_kind pricing_data source fetched_at created_at =
     (let recomputed = compute_snapshot_id cx provider_kind pricing_data in
      if recomputed \<noteq> snapshot_id then Err (SnapshotRewritten snapshot_id recomputed)
      else Ok \<lparr> ps_snapshot_id = snapshot_id, ps_provider_kind = provider_kind,
                ps_pricing_data = pricing_data, ps_catalog_source = source,
                ps_fetched_at = fetched_at, ps_created_at = created_at \<rparr>)"

section \<open>Health rows\<close>

record model_deployment_health =
  h_deployment_id :: string
  h_state :: string
  h_cooldown_until :: "string option"
  h_last_success_at :: "string option"
  h_last_attempt_at :: "string option"
  h_last_error :: "string option"
  h_error_count :: int
  h_evidence_kind :: "evidence_kind option"
  h_observed_at :: string
  h_metadata :: string
  h_updated_at :: string

section \<open>Freshness\<close>

datatype catalog_freshness = Fresh | Stale

datatype not_authoritative =
    NotActive string | Expired string string | UnreadableTimestamp catalog_error

datatype authoritative_deployment = AuthoritativeDeployment (authoritative_row: model_deployment)

definition parse_instant :: "chrono \<Rightarrow> string \<Rightarrow> string \<Rightarrow> (int, catalog_error) result" where
  "parse_instant ch field raw = (case parse_from_rfc3339 ch (trim raw) of
     Some t \<Rightarrow> Ok t | None \<Rightarrow> Err (NotRfc3339 field raw))"

definition freshness_at :: "chrono \<Rightarrow> model_deployment \<Rightarrow> string \<Rightarrow> (catalog_freshness, catalog_error) result" where
  "freshness_at ch d now = (case md_expires_at d of
     None \<Rightarrow> Ok Fresh
   | Some e \<Rightarrow> and_then (parse_instant ch ''expires_at'' e) (\<lambda>expires_at.
       and_then (parse_instant ch ''now'' now) (\<lambda>now_at.
         if now_at \<ge> expires_at then Ok Stale else Ok Fresh)))"

definition into_authoritative_at ::
  "chrono \<Rightarrow> model_deployment \<Rightarrow> string \<Rightarrow> (authoritative_deployment, not_authoritative) result" where
  "into_authoritative_at ch d now =
     (if md_status d \<noteq> DEPLOYMENT_STATUS_ACTIVE then Err (NotActive (md_status d))
      else case freshness_at ch d now of
        Inr Fresh \<Rightarrow> Ok (AuthoritativeDeployment d)
      | Inr Stale \<Rightarrow> Err (Expired (case md_expires_at d of Some e \<Rightarrow> e | None \<Rightarrow> []) now)
      | Inl err \<Rightarrow> Err (UnreadableTimestamp err))"

fun partition_authoritative_at ::
  "chrono \<Rightarrow> model_deployment list \<Rightarrow> string \<Rightarrow>
     authoritative_deployment list \<times> (string \<times> not_authoritative) list" where
  "partition_authoritative_at ch [] now = ([], [])"
| "partition_authoritative_at ch (row # rows) now =
     (let (admitted, excluded) = partition_authoritative_at ch rows now
      in case into_authoritative_at ch row now of
        Inr a \<Rightarrow> (a # admitted, excluded)
      | Inl reason \<Rightarrow> (admitted, (md_deployment_id row, reason) # excluded))"


section \<open>What the gate admits\<close>

definition speaks_at :: "chrono \<Rightarrow> string \<Rightarrow> model_deployment \<Rightarrow> bool" where
  "speaks_at ch now d \<longleftrightarrow> md_status d = ''active'' \<and> (case md_expires_at d of
     None \<Rightarrow> True
   | Some e \<Rightarrow> (case (parse_from_rfc3339 ch (trim e), parse_from_rfc3339 ch (trim now)) of
       (Some expiry, Some n) \<Rightarrow> n < expiry | _ \<Rightarrow> False))"

definition refusal_at :: "chrono \<Rightarrow> string \<Rightarrow> model_deployment \<Rightarrow> not_authoritative" where
  "refusal_at ch now d =
     (if md_status d \<noteq> ''active'' then NotActive (md_status d)
      else case md_expires_at d of Some e \<Rightarrow>
        if parse_from_rfc3339 ch (trim e) = None then UnreadableTimestamp (NotRfc3339 ''expires_at'' e)
        else if parse_from_rfc3339 ch (trim now) = None then UnreadableTimestamp (NotRfc3339 ''now'' now)
        else Expired e now)"

lemma into_authoritative_law:
  "into_authoritative_at ch d now =
     (if speaks_at ch now d then Ok (AuthoritativeDeployment d) else Err (refusal_at ch now d))"
  by (auto simp: into_authoritative_at_def speaks_at_def refusal_at_def freshness_at_def
      parse_instant_def DEPLOYMENT_STATUS_ACTIVE_def split: option.splits)

lemma partition_law:
  "partition_authoritative_at ch rows now =
     (map AuthoritativeDeployment (filter (speaks_at ch now) rows),
      map (\<lambda>d. (md_deployment_id d, refusal_at ch now d)) (filter (\<lambda>d. \<not> speaks_at ch now d) rows))"
  by (induction rows) (auto simp: into_authoritative_law)

text \<open>
  The freshness gate cuts the set of rows exactly: a row is admitted if and only if its
  status is \<open>active\<close> and its expiry, when it has one, is a readable instant strictly after
  the readable instant \<open>now\<close>; every other row is listed with the first reason that
  applies (status, unreadable expiry, unreadable \<open>now\<close>, expired), both halves in row order.
  An unreadable timestamp is never read as fresh.
\<close>

lemma freshness_gate_exact:
  "(let (admitted, excluded) = partition_authoritative_at ch rows now
    in map authoritative_row admitted = filter (speaks_at ch now) rows
     \<and> excluded = map (\<lambda>d. (md_deployment_id d, refusal_at ch now d))
                       (filter (\<lambda>d. \<not> speaks_at ch now d) rows)
     \<and> length admitted + length excluded = length rows)"
  using sum_length_filter_compl [of "speaks_at ch now" rows]
  by (simp add: partition_law comp_def)

section \<open>Price sheets under their id\<close>

lemma snapshot_from_stored_iff:
  "snapshot_from_stored cx i k d src f c = Ok s \<longleftrightarrow>
     i = compute_snapshot_id cx k d
     \<and> s = \<lparr> ps_snapshot_id = i, ps_provider_kind = k, ps_pricing_data = d,
             ps_catalog_source = src, ps_fetched_at = f, ps_created_at = c \<rparr>"
  by (auto simp: snapshot_from_stored_def Let_def)

end
