(* ===== verification/Catalog_Fold.thy ===== *)
theory Catalog_Fold
  imports Catalog_Rows
begin

text \<open>
  The fold of the catalog event log, \<open>crates/memcore/src/catalog/fold.rs\<close>: a projection is
  advanced event by event behind a watermark. Field \<open>f\<close> of \<open>DeploymentFold\<close> is \<open>df_f\<close>, of
  \<open>HealthFold\<close> \<open>hf_f\<close>, of \<open>CatalogProjection\<close> \<open>cp_f\<close>.
\<close>

section \<open>The projection\<close>

record health_fold =
  hf_state :: string
  hf_cooldown_until :: "string option"
  hf_last_event_id :: int
  hf_last_event_kind :: deployment_event_kind
  hf_event_count :: nat

record deployment_fold =
  df_deployment_id :: string
  df_revision :: int
  df_last_event_id :: int
  df_last_event_kind :: "deployment_event_kind option"
  df_event_count :: nat
  df_imported :: bool
  df_retired :: bool
  df_health :: "health_fold option"

datatype apply_outcome = Applied | AlreadyApplied

record catalog_projection =
  cp_deployments :: "(string \<times> deployment_fold) list"
  cp_last_event_id :: int
  cp_unrecognized_event_kinds :: "(string \<times> nat) list"

definition health_fold_json :: "health_fold \<Rightarrow> json" where
  "health_fold_json h = json_object
     [(''state'', JString (hf_state h)),
      (''cooldown_until'', opt_json JString (hf_cooldown_until h)),
      (''last_event_id'', int_json (hf_last_event_id h)),
      (''last_event_kind'', JString (event_kind_as_str (hf_last_event_kind h))),
      (''event_count'', JNumber (PosInt (hf_event_count h)))]"

definition deployment_fold_json :: "deployment_fold \<Rightarrow> json" where
  "deployment_fold_json d = json_object
     [(''deployment_id'', JString (df_deployment_id d)),
      (''revision'', int_json (df_revision d)),
      (''last_event_id'', int_json (df_last_event_id d)),
      (''last_event_kind'', opt_json (\<lambda>k. JString (event_kind_as_str k)) (df_last_event_kind d)),
      (''event_count'', JNumber (PosInt (df_event_count d))),
      (''imported'', JBool (df_imported d)),
      (''retired'', JBool (df_retired d)),
      (''health'', opt_json health_fold_json (df_health d))]"

definition evidence_cooldown_until :: "codec \<Rightarrow> string \<Rightarrow> string option" where
  "evidence_cooldown_until cx evidence = (case from_text cx evidence of
     Some (JObject m) \<Rightarrow> (case map_of m ''cooldown_until'' of Some (JString s) \<Rightarrow> Some s | _ \<Rightarrow> None)
   | _ \<Rightarrow> None)"

definition projection_empty :: catalog_projection where
  "projection_empty =
     \<lparr> cp_deployments = [], cp_last_event_id = 0, cp_unrecognized_event_kinds = [] \<rparr>"

definition fresh_fold :: "string \<Rightarrow> deployment_fold" where
  "fresh_fold i =
     \<lparr> df_deployment_id = i, df_revision = 0, df_last_event_id = 0, df_last_event_kind = None,
       df_event_count = 0, df_imported = False, df_retired = False, df_health = None \<rparr>"

text \<open>What \<open>apply\<close> does to the entry of the event's deployment; the \<open>expect\<close> of the code
  sits on the branch of the health kinds, which all have a health state.\<close>

definition fold_event :: "codec \<Rightarrow> model_deployment_event \<Rightarrow> deployment_fold \<Rightarrow> deployment_fold" where
  "fold_event cx e entry0 =
    (let kind = event_kind_parse (ev_event_kind e);
         entry = entry0\<lparr> df_last_event_id := ev_id e, df_last_event_kind := kind,
                         df_event_count := df_event_count entry0 + 1 \<rparr>
     in case kind of
       Some DeploymentImported \<Rightarrow> entry\<lparr> df_revision := ev_revision e, df_imported := True \<rparr>
     | Some DeploymentRetired \<Rightarrow> entry\<lparr> df_revision := ev_revision e, df_retired := True \<rparr>
     | Some DeploymentUpdated \<Rightarrow> entry\<lparr> df_revision := ev_revision e \<rparr>
     | None \<Rightarrow> entry\<lparr> df_revision := ev_revision e \<rparr>
     | Some health_kind \<Rightarrow> (case kind_health_state health_kind of
         None \<Rightarrow> entry
       | Some state \<Rightarrow> entry\<lparr> df_health := Some
           \<lparr> hf_state = state, hf_cooldown_until = evidence_cooldown_until cx (ev_evidence e),
             hf_last_event_id = ev_id e, hf_last_event_kind = health_kind,
             hf_event_count = (case df_health entry of Some h \<Rightarrow> hf_event_count h | None \<Rightarrow> 0) + 1 \<rparr> \<rparr>))"

definition apply_event ::
  "codec \<Rightarrow> model_deployment_event \<Rightarrow> catalog_projection \<Rightarrow> apply_outcome \<times> catalog_projection" where
  "apply_event cx e p =
    (if ev_id e \<le> cp_last_event_id p then (AlreadyApplied, p)
     else (Applied,
       \<lparr> cp_deployments = bt_upsert (ev_deployment_id e) (fresh_fold (ev_deployment_id e))
           (fold_event cx e) (cp_deployments p),
         cp_last_event_id = ev_id e,
         cp_unrecognized_event_kinds =
           (if event_kind_parse (ev_event_kind e) = None
            then bt_upsert (ev_event_kind e) 0 (\<lambda>n. n + 1) (cp_unrecognized_event_kinds p)
            else cp_unrecognized_event_kinds p) \<rparr>))"

definition extend_projection :: "codec \<Rightarrow> model_deployment_event list \<Rightarrow> catalog_projection \<Rightarrow> catalog_projection" where
  "extend_projection cx events p = fold (\<lambda>e p. snd (apply_event cx e p)) (sort_key ev_id events) p"

definition replay :: "codec \<Rightarrow> model_deployment_event list \<Rightarrow> catalog_projection" where
  "replay cx events =
     fold (\<lambda>e p. snd (apply_event cx e p)) (sort_key ev_id events) projection_empty"

definition projection_get :: "catalog_projection \<Rightarrow> string \<Rightarrow> deployment_fold option" where
  "projection_get p i = map_of (cp_deployments p) i"

definition to_canonical_json :: "catalog_projection \<Rightarrow> json" where
  "to_canonical_json p = json_object
     [(''last_event_id'', int_json (cp_last_event_id p)),
      (''deployments'', JArray (map (\<lambda>(_, d). deployment_fold_json d) (cp_deployments p))),
      (''unrecognized_event_kinds'', json_object
         (map (\<lambda>(kind, count). (kind, JNumber (PosInt count))) (cp_unrecognized_event_kinds p)))]"

definition projection_digest :: "codec \<Rightarrow> catalog_projection \<Rightarrow> string" where
  "projection_digest cx p = canonical_json_digest_hex cx (to_canonical_json p)"

section \<open>Folds behind a watermark\<close>

text \<open>
  A consumer of an append-only log keeps the id of the last event it has taken in and
  ignores anything at or below it. What such a consumer computes is the fold over the new
  events in id order, so however the log is sliced into batches that never run ahead of
  it, the result is the one pass over the whole log.
\<close>

fun downward :: "('e \<Rightarrow> int) \<Rightarrow> 'e set \<Rightarrow> 'e set \<Rightarrow> 'e list list \<Rightarrow> bool" where
  "downward ident L seen [] \<longleftrightarrow> seen = L"
| "downward ident L seen (b # bs) \<longleftrightarrow>
     set b \<subseteq> L \<and> (\<forall>e\<in>set b. \<forall>e'\<in>L. ident e' < ident e \<longrightarrow> e' \<in> seen \<union> set b)
     \<and> downward ident L (seen \<union> set b) bs"

locale watermarked_fold =
  fixes step :: "'e \<Rightarrow> 's \<Rightarrow> 's"
    and ident :: "'e \<Rightarrow> int"
    and mark :: "'s \<Rightarrow> int"
  assumes ignores: "ident e \<le> mark s \<Longrightarrow> step e s = s"
    and advances: "mark s < ident e \<Longrightarrow> mark (step e s) = ident e"
begin

definition take_in :: "'e list \<Rightarrow> 's \<Rightarrow> 's" where
  "take_in es s = fold step (sort_key ident es) s"

lemma mark_mono: "mark s \<le> mark (step e s)"
  by (cases "ident e \<le> mark s") (simp_all add: ignores advances)

text \<open>The strictly ascending list of the events above the mark.\<close>

definition news :: "int \<Rightarrow> 'e list \<Rightarrow> 'e list" where
  "news m es = filter (\<lambda>e. m < ident e) (dedup_by_key ident es)"

lemma fold_ascending:
  "sorted (map ident es) \<Longrightarrow> fold step es s = fold step (news (mark s) es) s"
proof (induction es arbitrary: s rule: length_induct)
  case (1 es)
  show ?case
  proof (cases es rule: remdups_adj.cases)
    case 1
    then show ?thesis by (simp add: news_def)
  next
    case (2 x)
    then show ?thesis by (simp add: news_def ignores)
  next
    case (3 x y xs)
    have srt: "sorted (map ident (x # xs))" "sorted (map ident (y # xs))" using 1(2) 3 by simp_all
    have IH: "fold step (z # xs) t = fold step (news (mark t) (z # xs)) t" if "z = x \<or> z = y" for z t
      using 1(1) [rule_format, of "z # xs" t] 3 srt that by (elim disjE) simp_all
    show ?thesis
    proof (cases "ident x = ident y")
      case True
      have "step y (step x s) = step x s"
        by (cases "mark s < ident x") (simp_all add: True [symmetric] ignores advances)
      then show ?thesis using IH [of x s] True 3 by (simp add: news_def)
    next
      case False
      then have lt: "ident x < ident y" using 1(2) 3 by simp
      show ?thesis
      proof (cases "mark s < ident x")
        case True
        have "\<forall>e\<in>set (dedup_by_key ident (y # xs)). ident x < ident e"
          using dedup_subset [of ident "y # xs"] srt(2) lt by fastforce
        then have "filter (\<lambda>e. m < ident e) (dedup_by_key ident (y # xs)) = dedup_by_key ident (y # xs)"
          if "m \<le> ident x" for m using that by (auto intro!: filter_True)
        then have "news (mark s) (x # y # xs) = x # news (ident x) (y # xs)"
          using False True by (simp add: news_def del: dedup_by_key.simps add: dedup_by_key.simps(1) [of ident x y])
        with IH [of y "step x s"] True 3 show ?thesis by (simp add: advances)
      next
        case no: False
        then show ?thesis using IH [of y s] False 3 by (simp add: ignores news_def)
      qed
    qed
  qed
qed

lemma news_props:
  assumes "sorted (map ident es)"
  shows "sorted_wrt (<) (map ident (news m es))" "set (news m es) \<subseteq> {e \<in> set es. m < ident e}"
proof -
  have "sorted_wrt (<) (map ident (dedup_by_key ident es))"
    using assms by (rule dedup_strict)
  then show "sorted_wrt (<) (map ident (news m es))"
    unfolding news_def by (simp add: sorted_wrt_map sorted_wrt_filter)
  show "set (news m es) \<subseteq> {e \<in> set es. m < ident e}"
    using dedup_subset [of ident es] by (auto simp: news_def)
qed

lemma set_news:
  assumes "sorted (map ident es)" "inj_on ident (set es)"
  shows "set (news m es) = {e \<in> set es. m < ident e}"
proof -
  have "e \<in> set (dedup_by_key ident es)" if "e \<in> set es" for e
  proof -
    have "sorted_wrt (\<lambda>a b. ident a \<le> ident b) es" using assms(1) by (simp add: sorted_wrt_map)
    then have "\<exists>y\<in>set (dedup_by_key ident es). ident y = ident e \<and> (y = e \<or> ident y \<le> ident e)"
      using that by (rule dedup_first) (rule order_trans)
    then obtain y where "y \<in> set (dedup_by_key ident es)" "ident y = ident e" by blast
    then show ?thesis using assms(2) that dedup_subset [of ident es] by (metis inj_onD subsetD)
  qed
  then show ?thesis using dedup_subset [of ident es] by (auto simp: news_def)
qed

text \<open>Two strictly ascending lists with the same elements are the same list.\<close>

lemma strict_unique:
  assumes "sorted_wrt (<) (map ident xs)" "sorted_wrt (<) (map ident ys)" "set xs = set ys"
  shows "xs = ys"
  using assms by (intro sorted_distinct_key_unique [of ident]) (simp_all add: strict_sorted_iff)

lemma take_in_news: "take_in es s = fold step (news (mark s) (sort_key ident es)) s"
  by (simp add: take_in_def fold_ascending)

lemma take_in_cong:
  assumes "set es = set es'" "inj_on ident (set es)"
  shows "take_in es s = take_in es' s"
proof -
  have "news (mark s) (sort_key ident es) = news (mark s) (sort_key ident es')"
    using assms by (intro strict_unique news_props) (simp_all add: set_news)
  then show ?thesis by (simp add: take_in_news)
qed

lemma mark_fold_ascending:
  "sorted_wrt (<) (map ident es) \<Longrightarrow> \<forall>e\<in>set es. mark s < ident e \<Longrightarrow>
     mark (fold step es s) = (if es = [] then mark s else ident (last es))"
  by (induction es arbitrary: s) (auto simp: advances)

lemma mark_fold_start: "mark s \<le> mark (fold step xs s)"
  by (induction xs arbitrary: s) (auto intro: order_trans mark_mono)

lemma mark_take_in_start: "mark s \<le> mark (take_in es s)"
  by (simp add: take_in_def mark_fold_start)

lemma mark_take_in_ge: "e \<in> set es \<Longrightarrow> ident e \<le> mark (take_in es s)"
proof -
  have "\<forall>e\<in>set xs. ident e \<le> mark (fold step xs t)" for xs t
  proof (induction xs arbitrary: t)
    case (Cons x xs)
    have "ident x \<le> mark (step x t)"
      by (cases "mark t < ident x") (simp_all add: advances ignores)
    then show ?case using Cons mark_fold_start [of "step x t" xs] by (auto intro: order_trans)
  qed simp
  then show "e \<in> set es \<Longrightarrow> ident e \<le> mark (take_in es s)"
    by (simp add: take_in_def)
qed

lemma mark_take_in_le:
  "mark (take_in es s) \<le> m" if "mark s \<le> m" "\<forall>e\<in>set es. ident e \<le> m"
proof -
  have "mark t \<le> m \<Longrightarrow> \<forall>e\<in>set xs. ident e \<le> m \<Longrightarrow> mark (fold step xs t) \<le> m" for xs t
  proof (induction xs arbitrary: t)
    case (Cons x xs)
    then have "mark (step x t) \<le> m"
      by (cases "mark t < ident x") (simp_all add: advances ignores)
    with Cons show ?case by simp
  qed simp
  then show ?thesis using that by (simp add: take_in_def)
qed

text \<open>Taking in one more batch that leaves no gap below it continues the one pass.\<close>

lemma take_in_next:
  assumes inj: "inj_on ident (set seen \<union> set b)"
    and down: "\<forall>e\<in>set seen. \<forall>e'\<in>set b. ident e' < ident e \<longrightarrow> e' \<in> set seen"
  shows "take_in b (take_in seen s) = take_in (seen @ b) s"
proof -
  let ?old = "news (mark s) (sort_key ident seen)"
  let ?t = "take_in seen s"
  let ?new = "news (mark ?t) (sort_key ident b)"
  have old: "sorted_wrt (<) (map ident ?old)" "set ?old = {e \<in> set seen. mark s < ident e}"
    using inj by (auto intro: news_props simp: set_news inj_on_Un)
  have new: "sorted_wrt (<) (map ident ?new)" "set ?new = {e \<in> set b. mark ?t < ident e}"
    using inj by (auto intro: news_props simp: set_news inj_on_Un)
  have "mark s \<le> mark ?t" by (rule mark_take_in_start)
  have below: "\<forall>e\<in>set seen. ident e \<le> mark ?t" by (simp add: mark_take_in_ge)
  have "sorted_wrt (<) (map ident (?old @ ?new))"
    using old new below by (fastforce simp: sorted_wrt_append sorted_wrt_map)
  moreover have "set (?old @ ?new) = {e \<in> set (seen @ b). mark s < ident e}"
  proof -
    have "e \<in> set seen" if e: "e \<in> set b" "mark s < ident e" "ident e \<le> mark ?t" for e
    proof (rule ccontr)
      assume no: "e \<notin> set seen"
      have "ident e' < ident e" if "e' \<in> set seen" for e'
      proof -
        have "ident e' \<noteq> ident e" using inj e(1) no that by (auto dest: inj_onD)
        moreover have "\<not> ident e < ident e'" using down e(1) no that by blast
        ultimately show ?thesis by simp
      qed
      then have "mark ?t \<le> ident e - 1" using e(2) by (intro mark_take_in_le) auto
      with e(3) show False by simp
    qed
    then show ?thesis unfolding set_append old(2) new(2) using below \<open>mark s \<le> mark ?t\<close> by force
  qed
  ultimately have "?old @ ?new = news (mark s) (sort_key ident (seen @ b))"
    using inj by (intro strict_unique news_props) (simp_all add: set_news)
  then have "take_in (seen @ b) s = fold step ?new (fold step ?old s)"
    unfolding take_in_news [of "seen @ b"] by (metis comp_apply fold_append)
  then show ?thesis by (simp flip: take_in_news)
qed

lemma take_in_batches:
  assumes "downward ident (set log) (set seen) bs" "inj_on ident (set log)"
    and "set seen \<subseteq> set log" "\<forall>e\<in>set seen. \<forall>e'\<in>set log. ident e' < ident e \<longrightarrow> e' \<in> set seen"
  shows "fold take_in bs (take_in seen s) = take_in log s"
  using assms
proof (induction bs arbitrary: seen)
  case Nil
  then show ?case by (auto intro: take_in_cong)
next
  case (Cons b bs)
  have "inj_on ident (set seen \<union> set b)"
    using Cons.prems by (intro inj_on_subset [OF Cons.prems(2)]) auto
  then have "take_in b (take_in seen s) = take_in (seen @ b) s"
    using Cons.prems by (intro take_in_next) auto
  moreover have "fold take_in bs (take_in (seen @ b) s) = take_in log s"
    using Cons.prems by (intro Cons.IH) auto
  ultimately show ?case by simp
qed

lemma batches_are_one_pass:
  assumes "downward ident (set log) {} bs" "inj_on ident (set log)"
  shows "fold take_in bs s = take_in log s"
  using take_in_batches [of log "[]" bs s] assms by (simp add: take_in_def)

end

interpretation projection: watermarked_fold "\<lambda>e p. snd (apply_event cx e p)" ev_id cp_last_event_id for cx
  by unfold_locales (simp_all add: apply_event_def)

lemma extend_take_in: "extend_projection cx es p = projection.take_in cx es p"
  by (simp add: extend_projection_def projection.take_in_def)

lemma replay_take_in: "replay cx es = projection.take_in cx es projection_empty"
  by (simp add: replay_def projection.take_in_def)

text \<open>
  C40: Replay equivalence. Whatever batches the log is handed over in, as long as every
  batch, together with the ones before it, is closed downwards in the log (no batch runs
  ahead of an event that arrives later), extending the empty projection batch by batch
  gives the replay of the whole log: batches may be unsorted, overlap or repeat events.
\<close>

theorem replay_equivalence:
  assumes "downward ev_id (set log) {} batches" "inj_on ev_id (set log)"
  shows "fold (extend_projection cx) batches projection_empty = replay cx log"
  using projection.batches_are_one_pass [OF assms, of cx projection_empty]
  by (simp add: extend_take_in [abs_def] replay_take_in)

section \<open>What the projection holds\<close>

text \<open>The events a replay takes in: the ids above 0, once each, in id order.\<close>

definition taken :: "model_deployment_event list \<Rightarrow> model_deployment_event list" where
  "taken es = projection.news 0 (sort_key ev_id es)"

lemma taken_props:
  "sorted_wrt (<) (map ev_id (taken es))" "set (taken es) \<subseteq> {e \<in> set es. 0 < ev_id e}"
  using projection.news_props [of "sort_key ev_id es" 0] by (simp_all add: taken_def)

lemma set_taken: "inj_on ev_id (set es) \<Longrightarrow> set (taken es) = {e \<in> set es. 0 < ev_id e}"
  using projection.set_news [of "sort_key ev_id es" 0] by (simp add: taken_def)

lemma taken_filter: "inj_on ev_id (set es) \<Longrightarrow> taken (filter P es) = filter P (taken es)"
proof (rule projection.strict_unique)
  assume inj: "inj_on ev_id (set es)"
  then have "inj_on ev_id (set (filter P es))" by (rule inj_on_subset) auto
  then show "set (taken (filter P es)) = set (filter P (taken es))"
    using inj by (auto simp: set_taken)
  show "sorted_wrt (<) (map ev_id (filter P (taken es)))"
    using taken_props(1) [of es] by (simp add: sorted_wrt_map sorted_wrt_filter)
qed (rule taken_props)

lemma taken_ascending:
  assumes "sorted_wrt (<) (map ev_id es)" "\<forall>e\<in>set es. 0 < ev_id e"
  shows "taken es = es"
proof (rule projection.strict_unique [OF taken_props(1) assms(1)])
  have "inj_on ev_id (set es)" using assms(1) by (simp add: strict_sorted_iff distinct_map)
  then show "set (taken es) = set es" using assms(2) by (auto simp: set_taken)
qed

lemma replay_taken: "replay cx es = fold (\<lambda>e p. snd (apply_event cx e p)) (taken es) projection_empty"
  using projection.take_in_news [of cx es projection_empty]
  by (simp add: replay_take_in taken_def projection_empty_def)

lemma deployments_fold:
  "sorted_wrt (<) (map ev_id es) \<Longrightarrow> \<forall>e\<in>set es. cp_last_event_id p < ev_id e \<Longrightarrow>
    cp_deployments (fold (\<lambda>e p. snd (apply_event cx e p)) es p) =
      fold (\<lambda>e. bt_upsert (ev_deployment_id e) (fresh_fold (ev_deployment_id e)) (fold_event cx e)) es
        (cp_deployments p)"
  by (induction es arbitrary: p) (simp_all add: apply_event_def)

lemma replay_deployments:
  "cp_deployments (replay cx es) =
     bt.collect ev_deployment_id (\<lambda>e. fresh_fold (ev_deployment_id e)) (fold_event cx) (taken es)"
proof -
  have "\<forall>e\<in>set (taken es). cp_last_event_id projection_empty < ev_id e"
    using taken_props(2) [of es] by (auto simp: projection_empty_def)
  then show ?thesis
    using deployments_fold [OF taken_props(1)] by (simp add: replay_taken bt.collect_def projection_empty_def)
qed

definition own :: "string \<Rightarrow> model_deployment_event list \<Rightarrow> model_deployment_event list" where
  "own i es = filter (\<lambda>e. ev_deployment_id e = i) es"

lemma projection_get_replay:
  "projection_get (replay cx es) i =
     (if own i (taken es) = [] then None else Some (fold (fold_event cx) (own i (taken es)) (fresh_fold i)))"
proof -
  have "hd (own i (taken es)) \<in> set (own i (taken es))" if "own i (taken es) \<noteq> []"
    using that by (rule hd_in_set)
  then have "own i (taken es) \<noteq> [] \<Longrightarrow> ev_deployment_id (hd (own i (taken es))) = i"
    by (auto simp: own_def)
  then show ?thesis
    by (simp add: projection_get_def replay_deployments bt.lookup_collect Let_def own_def)
qed

section \<open>Two authorities, one log\<close>

definition health_event :: "model_deployment_event \<Rightarrow> bool" where
  "health_event e \<longleftrightarrow> (case event_kind_parse (ev_event_kind e) of Some k \<Rightarrow> is_health k | None \<Rightarrow> False)"

definition catalog_facts :: "deployment_fold option \<Rightarrow> int \<times> bool \<times> bool" where
  "catalog_facts d = (case d of None \<Rightarrow> (0, False, False)
     | Some f \<Rightarrow> (df_revision f, df_imported f, df_retired f))"

definition health_facts :: "deployment_fold option \<Rightarrow> health_fold option" where
  "health_facts d = (case d of None \<Rightarrow> None | Some f \<Rightarrow> df_health f)"

lemma fold_event_health:
  "health_event e \<Longrightarrow> catalog_facts (Some (fold_event cx e d)) = catalog_facts (Some d)"
  "health_event e \<Longrightarrow> df_health d = df_health d' \<Longrightarrow> df_health (fold_event cx e d) = df_health (fold_event cx e d')"
  by (auto simp: health_event_def fold_event_def catalog_facts_def is_health_def Let_def
      split: option.splits deployment_event_kind.splits)

lemma fold_event_catalog:
  "\<not> health_event e \<Longrightarrow> df_health (fold_event cx e d) = df_health d"
  "catalog_facts (Some d) = catalog_facts (Some d') \<Longrightarrow>
     \<not> health_event e \<Longrightarrow> catalog_facts (Some (fold_event cx e d)) = catalog_facts (Some (fold_event cx e d'))"
  by (auto simp: health_event_def fold_event_def catalog_facts_def is_health_def Let_def
      split: option.splits deployment_event_kind.splits)

lemma fold_catalog_facts:
  "catalog_facts (Some d) = catalog_facts (Some d') \<Longrightarrow>
   catalog_facts (Some (fold (fold_event cx) es d)) =
     catalog_facts (Some (fold (fold_event cx) (filter (\<lambda>e. \<not> health_event e) es) d'))"
proof (induction es arbitrary: d d')
  case (Cons e es)
  show ?case
  proof (cases "health_event e")
    case True
    then show ?thesis using Cons fold_event_health(1) [of e cx d] by simp
  next
    case False
    then show ?thesis using Cons.IH fold_event_catalog(2) [OF Cons.prems False] by simp
  qed
qed simp

lemma fold_health_facts:
  "df_health d = df_health d' \<Longrightarrow>
   df_health (fold (fold_event cx) es d) = df_health (fold (fold_event cx) (filter health_event es) d')"
proof (induction es arbitrary: d d')
  case (Cons e es)
  show ?case
  proof (cases "health_event e")
    case True
    then show ?thesis using Cons.IH fold_event_health(2) [OF True Cons.prems] by simp
  next
    case False
    then show ?thesis using Cons fold_event_catalog(1) [of e cx d] by simp
  qed
qed simp

lemma own_filter: "own i (filter P es) = filter P (own i es)"
  by (auto simp: own_def conj_commute)

lemma catalog_facts_fresh: "catalog_facts (Some (fresh_fold i)) = catalog_facts None"
  "df_health (fresh_fold i) = None"
  by (simp_all add: catalog_facts_def fresh_fold_def)

text \<open>
  The two authorities on the log do not interfere. For a log without two events under
  one id, what the projection says a deployment is (revision, imported, retired) is what
  the log without its health events says, and what it says about the deployment's health
  is what the health events alone say, for every deployment.
\<close>

lemma authorities_separate:
  assumes "inj_on ev_id (set log)"
  shows "catalog_facts (projection_get (replay cx log) i)
      = catalog_facts (projection_get (replay cx (filter (\<lambda>e. \<not> health_event e) log)) i)
    \<and> health_facts (projection_get (replay cx log) i)
      = health_facts (projection_get (replay cx (filter health_event log)) i)"
proof -
  let ?es = "own i (taken log)"
  have "catalog_facts (Some (fold (fold_event cx) ?es (fresh_fold i)))
      = catalog_facts (Some (fold (fold_event cx) (filter (\<lambda>e. \<not> health_event e) ?es) (fresh_fold i)))"
    by (rule fold_catalog_facts) simp
  moreover have "df_health (fold (fold_event cx) ?es (fresh_fold i))
      = df_health (fold (fold_event cx) (filter health_event ?es) (fresh_fold i))"
    by (rule fold_health_facts) simp
  ultimately show ?thesis
    using assms
    by (auto simp: projection_get_replay taken_filter own_filter health_facts_def catalog_facts_fresh
        split: if_splits)
qed

section \<open>Witnesses\<close>

definition demo_event :: "int \<Rightarrow> string \<Rightarrow> int \<Rightarrow> deployment_event_kind \<Rightarrow> model_deployment_event" where
  "demo_event n i revision kind =
     \<lparr> ev_id = n, ev_deployment_id = i, ev_revision = revision, ev_event_kind = event_kind_as_str kind,
       ev_plan_digest = None, ev_evidence = ''{}'', ev_created_at = [] \<rparr>"

definition fold_demo_codec :: codec where
  "fold_demo_codec = \<lparr> to_text = (\<lambda>_. ''{}''), from_text = (\<lambda>_. Some (JObject [])), sha256 = (\<lambda>_. []) \<rparr>"

definition demo_log :: "model_deployment_event list" where
  "demo_log = [demo_event 1 ''d'' 1 DeploymentImported, demo_event 2 ''d'' 1 HealthServed,
     demo_event 3 ''e'' 1 DeploymentImported]"

theorem replay_equivalence_witness:
  "fold (extend_projection fold_demo_codec) [[demo_log ! 1, demo_log ! 0], [], [demo_log ! 2, demo_log ! 0]] projection_empty
     = replay fold_demo_codec demo_log"
proof (rule replay_equivalence)
  show "downward ev_id (set demo_log) {} [[demo_log ! 1, demo_log ! 0], [], [demo_log ! 2, demo_log ! 0]]"
    by (simp add: demo_log_def demo_event_def insert_commute) 
  show "inj_on ev_id (set demo_log)"
    by (auto simp: demo_log_def demo_event_def)
qed

lemma authorities_separate_witness:
  "catalog_facts (projection_get (replay fold_demo_codec demo_log) ''d'')
     = catalog_facts (projection_get (replay fold_demo_codec (filter (\<lambda>e. \<not> health_event e) demo_log)) ''d'')"
  using authorities_separate [of demo_log fold_demo_codec "''d''"] by (simp add: demo_log_def demo_event_def)

text \<open>
  The closure condition of the replay equivalence is needed: a batch that runs ahead of an
  event that arrives later moves the watermark past it, and the late event is lost.
\<close>

lemma batch_order_matters:
  "fold (extend_projection fold_demo_codec) [[demo_log ! 1], [demo_log ! 0]] projection_empty
     \<noteq> replay fold_demo_codec [demo_log ! 0, demo_log ! 1]"
  by code_simp

end
