(* ===== verification/Catalog_Health.thy ===== *)
theory Catalog_Health
  imports Catalog_Rows
begin

text \<open>
  The single writer of the deployment health row, \<open>crates/memcore/src/catalog/health.rs\<close>:
  the \<open>Retry-After\<close> reader, the closed outcome vocabulary and the row transition.

  An instant is its nanoseconds, an \<open>int\<close>. The calendar of the \<open>chrono\<close> crate is the
  record \<open>clock\<close>: the printer of instants with milliseconds, the year of an instant, a
  civil date from its numbers, the weekday of a date counted from Monday, and the instant of
  a date and a time of day in UTC. Adding at most an hour to an instant does not leave
  chrono's range.
\<close>

record clock = chrono +
  to_rfc3339_millis :: "int \<Rightarrow> string"
  year_of :: "int \<Rightarrow> int"
  from_ymd_opt :: "int \<Rightarrow> nat \<Rightarrow> nat \<Rightarrow> int option"
  weekday_from_monday :: "int \<Rightarrow> nat"
  and_hms_opt :: "int \<Rightarrow> nat \<Rightarrow> nat \<Rightarrow> nat \<Rightarrow> int option"

definition DEFAULT_THROTTLE_COOLDOWN_SECS :: nat where
  "DEFAULT_THROTTLE_COOLDOWN_SECS = 60"

definition MIN_COOLDOWN_SECS :: nat where
  "MIN_COOLDOWN_SECS = 1"

definition MAX_COOLDOWN_SECS :: nat where
  "MAX_COOLDOWN_SECS = 3600"

definition clamp :: "nat \<Rightarrow> nat \<Rightarrow> nat \<Rightarrow> nat" where
  "clamp lo hi n = (if n < lo then lo else if hi < n then hi else n)"

section \<open>Retry-After\<close>

datatype retry_header = DeltaSeconds nat | HttpDate int

definition SHORT_DAY_NAMES :: "string list" where
  "SHORT_DAY_NAMES = [''Mon'', ''Tue'', ''Wed'', ''Thu'', ''Fri'', ''Sat'', ''Sun'']"

definition LONG_DAY_NAMES :: "string list" where
  "LONG_DAY_NAMES =
     [''Monday'', ''Tuesday'', ''Wednesday'', ''Thursday'', ''Friday'', ''Saturday'', ''Sunday'']"

definition MONTH_NAMES :: "string list" where
  "MONTH_NAMES = [''Jan'', ''Feb'', ''Mar'', ''Apr'', ''May'', ''Jun'', ''Jul'', ''Aug'', ''Sep'', ''Oct'', ''Nov'', ''Dec'']"

definition slice :: "nat \<Rightarrow> nat \<Rightarrow> string \<Rightarrow> string" where
  "slice a b s = take (b - a) (drop a s)"

fun position :: "'a \<Rightarrow> 'a list \<Rightarrow> nat option" where
  "position x [] = None"
| "position x (y # ys) = (if y = x then Some 0 else map_option Suc (position x ys))"

definition day_name_index :: "string \<Rightarrow> string list \<Rightarrow> nat option" where
  "day_name_index name names = position name names"

definition month_number :: "string \<Rightarrow> nat option" where
  "month_number name = map_option Suc (position name MONTH_NAMES)"

definition digits :: "string \<Rightarrow> nat \<Rightarrow> nat option" where
  "digits text width =
     (if length text \<noteq> width \<or> \<not> list_all is_ascii_digit text then None
      else if text \<noteq> [] \<and> decimal text < 2 ^ 32 then Some (decimal text) else None)"

definition time_of_day :: "string \<Rightarrow> (nat \<times> nat \<times> nat) option" where
  "time_of_day text =
     (if length text \<noteq> 8 \<or> slice 2 3 text \<noteq> '':'' \<or> slice 5 6 text \<noteq> '':'' then None
      else Option.bind (digits (slice 0 2 text) 2) (\<lambda>h.
           Option.bind (digits (slice 3 5 text) 2) (\<lambda>m.
           Option.bind (digits (slice 6 8 text) 2) (\<lambda>s. Some (h, m, s)))))"

definition civil_date_time :: "'a clock_scheme \<Rightarrow> nat \<Rightarrow> int \<Rightarrow> nat \<Rightarrow> nat \<Rightarrow> nat \<times> nat \<times> nat \<Rightarrow> int option" where
  "civil_date_time clk day_name year month day t =
     Option.bind (from_ymd_opt clk year month day) (\<lambda>date.
       if weekday_from_monday clk date \<noteq> day_name then None
       else case t of (h, m, s) \<Rightarrow> and_hms_opt clk date h m s)"

definition rfc850_year :: "'a clock_scheme \<Rightarrow> nat \<Rightarrow> int \<Rightarrow> int" where
  "rfc850_year clk year_of_century received_at =
     (let received_year = year_of clk received_at;
          candidate = received_year div 100 * 100 + int year_of_century
      in if candidate - received_year > 50 then candidate - 100 else candidate)"

definition imf_fixdate :: "'a clock_scheme \<Rightarrow> string \<Rightarrow> int option" where
  "imf_fixdate clk raw =
    (if length raw \<noteq> 29 then None
     else Option.bind (day_name_index (slice 0 3 raw) SHORT_DAY_NAMES) (\<lambda>day_name.
       if slice 3 5 raw \<noteq> '', '' \<or> slice 7 8 raw \<noteq> '' '' \<or> slice 11 12 raw \<noteq> '' '' \<or> slice 16 17 raw \<noteq> '' ''
       then None
       else Option.bind (digits (slice 5 7 raw) 2) (\<lambda>day.
            Option.bind (month_number (slice 8 11 raw)) (\<lambda>month.
            Option.bind (digits (slice 12 16 raw) 4) (\<lambda>year.
            Option.bind (time_of_day (slice 17 25 raw)) (\<lambda>t.
            if slice 25 29 raw \<noteq> '' GMT'' then None
            else civil_date_time clk day_name (int year) month day t))))))"

definition rfc850_date :: "'a clock_scheme \<Rightarrow> string \<Rightarrow> int \<Rightarrow> int option" where
  "rfc850_date clk raw received_at =
     Option.bind (split_once '', '' raw) (\<lambda>(day_name, rest).
     Option.bind (day_name_index day_name LONG_DAY_NAMES) (\<lambda>day_name.
       if length rest \<noteq> 22 then None
       else if slice 2 3 rest \<noteq> ''-'' \<or> slice 6 7 rest \<noteq> ''-'' \<or> slice 9 10 rest \<noteq> '' '' then None
       else Option.bind (digits (slice 0 2 rest) 2) (\<lambda>day.
            Option.bind (month_number (slice 3 6 rest)) (\<lambda>month.
            Option.bind (digits (slice 7 9 rest) 2) (\<lambda>yy.
            Option.bind (time_of_day (slice 10 18 rest)) (\<lambda>t.
            if slice 18 22 rest \<noteq> '' GMT'' then None
            else civil_date_time clk day_name (rfc850_year clk yy received_at) month day t))))))"

definition asctime_date :: "'a clock_scheme \<Rightarrow> string \<Rightarrow> int option" where
  "asctime_date clk raw =
    (if length raw \<noteq> 24 then None
     else Option.bind (day_name_index (slice 0 3 raw) SHORT_DAY_NAMES) (\<lambda>day_name.
       if slice 3 4 raw \<noteq> '' '' \<or> slice 7 8 raw \<noteq> '' '' \<or> slice 10 11 raw \<noteq> '' '' \<or> slice 19 20 raw \<noteq> '' ''
       then None
       else Option.bind (month_number (slice 4 7 raw)) (\<lambda>month.
            Option.bind (if slice 8 9 raw = '' '' then digits (slice 9 10 raw) 1 else digits (slice 8 10 raw) 2) (\<lambda>day.
            Option.bind (time_of_day (slice 11 19 raw)) (\<lambda>t.
            Option.bind (digits (slice 20 24 raw) 4) (\<lambda>year.
            civil_date_time clk day_name (int year) month day t))))))"

definition is_ascii :: "string \<Rightarrow> bool" where
  "is_ascii s \<longleftrightarrow> list_all (\<lambda>c. (of_char c :: nat) < 128) s"

fun or_else :: "'a option \<Rightarrow> 'a option \<Rightarrow> 'a option" where
  "or_else None b = b"
| "or_else (Some a) b = Some a"

definition parse_http_date :: "'a clock_scheme \<Rightarrow> string \<Rightarrow> int \<Rightarrow> int option" where
  "parse_http_date clk raw received_at =
     (if \<not> is_ascii raw then None
      else or_else (or_else (imf_fixdate clk raw) (rfc850_date clk raw received_at)) (asctime_date clk raw))"

definition retry_after_parse :: "'a clock_scheme \<Rightarrow> string \<Rightarrow> int \<Rightarrow> retry_header option" where
  "retry_after_parse clk raw0 received_at =
    (let raw = trim raw0 in
     if raw = [] then None
     else case parse_u64 raw of
       Some seconds \<Rightarrow> Some (DeltaSeconds seconds)
     | None \<Rightarrow> map_option HttpDate (parse_http_date clk raw received_at))"

definition cooldown_secs_from :: "retry_header \<Rightarrow> int \<Rightarrow> nat" where
  "cooldown_secs_from r now =
     clamp MIN_COOLDOWN_SECS MAX_COOLDOWN_SECS (case r of
       DeltaSeconds seconds \<Rightarrow> seconds
     | HttpDate until \<Rightarrow> nat (max (num_seconds (until - now)) 0))"

definition retry_cooldown_until :: "retry_header \<Rightarrow> int \<Rightarrow> int" where
  "retry_cooldown_until r now = now + int (cooldown_secs_from r now) * second"

definition throttle_cooldown_secs :: "retry_header option \<Rightarrow> int \<Rightarrow> nat" where
  "throttle_cooldown_secs retry_after now = (case retry_after of
     Some r \<Rightarrow> cooldown_secs_from r now
   | None \<Rightarrow> clamp MIN_COOLDOWN_SECS MAX_COOLDOWN_SECS DEFAULT_THROTTLE_COOLDOWN_SECS)"

section \<open>Sealed statuses and the outcome vocabulary\<close>

definition AUTH_CLASS_STATUSES :: "16 word list" where
  "AUTH_CLASS_STATUSES = [401, 403]"

definition is_auth_class_status :: "16 word \<Rightarrow> bool" where
  "is_auth_class_status status \<longleftrightarrow> status \<in> set AUTH_CLASS_STATUSES"

datatype server_error_status = ServerErrorStatus (server_status: "16 word")

definition server_error_new :: "16 word \<Rightarrow> server_error_status option" where
  "server_error_new status = (if 500 \<le> status \<and> status < 600 then Some (ServerErrorStatus status) else None)"

datatype unusable_response_status = UnusableResponseStatus (unusable_status: "16 word")

definition unusable_new :: "16 word \<Rightarrow> unusable_response_status option" where
  "unusable_new status = (if \<not> is_auth_class_status status then Some (UnusableResponseStatus status) else None)"

datatype deployment_outcome =
    Served
  | Throttled "retry_header option"
  | Unreachable
  | ServerFailed server_error_status "retry_header option"
  | UnusableResponse "unusable_response_status option"

datatype provider_response_signal = NoResponse | Status "16 word" | UnusableBody

definition classify :: "provider_response_signal \<Rightarrow> retry_header option \<Rightarrow> deployment_outcome option" where
  "classify signal retry_after = (case signal of
     NoResponse \<Rightarrow> Some Unreachable
   | UnusableBody \<Rightarrow> Some (UnusableResponse None)
   | Status status \<Rightarrow>
       if is_auth_class_status status then None
       else if status = 429 \<or> status = 402 then Some (Throttled retry_after)
       else if 500 \<le> status \<and> status < 600
         then map_option (\<lambda>s. ServerFailed s retry_after) (server_error_new status)
       else if 200 \<le> status \<and> status < 300 then Some Served
       else map_option (\<lambda>s. UnusableResponse (Some s)) (unusable_new status))"

fun outcome_as_str :: "deployment_outcome \<Rightarrow> string" where
  "outcome_as_str Served = ''served''"
| "outcome_as_str (Throttled _) = ''throttled''"
| "outcome_as_str Unreachable = ''unreachable''"
| "outcome_as_str (ServerFailed _ _) = ''server_error''"
| "outcome_as_str (UnusableResponse _) = ''unusable_response''"

fun outcome_state :: "deployment_outcome \<Rightarrow> string" where
  "outcome_state Served = DEPLOYMENT_HEALTH_STATE_OK"
| "outcome_state (Throttled _) = DEPLOYMENT_HEALTH_STATE_COOLDOWN"
| "outcome_state _ = DEPLOYMENT_HEALTH_STATE_ERROR"

fun outcome_event_kind :: "deployment_outcome \<Rightarrow> deployment_event_kind" where
  "outcome_event_kind Served = HealthServed"
| "outcome_event_kind (Throttled _) = HealthCooldown"
| "outcome_event_kind _ = HealthError"

fun outcome_status :: "deployment_outcome \<Rightarrow> 16 word option" where
  "outcome_status (ServerFailed s _) = Some (server_status s)"
| "outcome_status (UnusableResponse s) = map_option unusable_status s"
| "outcome_status _ = None"

fun outcome_cooldown_until :: "deployment_outcome \<Rightarrow> int \<Rightarrow> int option" where
  "outcome_cooldown_until (Throttled r) now = Some (now + int (throttle_cooldown_secs r now) * second)"
| "outcome_cooldown_until (ServerFailed _ r) now = map_option (\<lambda>r. retry_cooldown_until r now) r"
| "outcome_cooldown_until _ now = None"

fun generated_error :: "deployment_outcome \<Rightarrow> nat option \<Rightarrow> string option" where
  "generated_error Served secs = None"
| "generated_error (Throttled _) secs = Some (''throttled by the provider; retry after ''
     @ show_nat (case secs of Some n \<Rightarrow> n | None \<Rightarrow> DEFAULT_THROTTLE_COOLDOWN_SECS) @ ''s'')"
| "generated_error Unreachable secs = Some ''no response from the provider''"
| "generated_error (ServerFailed s _) secs = Some (''provider returned HTTP '' @ show_nat (unat (server_status s)))"
| "generated_error (UnusableResponse (Some s)) secs =
     Some (''unusable response (HTTP '' @ show_nat (unat (unusable_status s)) @ '')'')"
| "generated_error (UnusableResponse None) secs = Some ''unusable response''"

section \<open>The writer\<close>

record deployment_outcome_write =
  dw_health :: model_deployment_health
  dw_event :: new_model_deployment_event
  dw_cooldown_until :: "int option"
  dw_clear_cooldown :: bool

definition new_deployment_health :: "string \<Rightarrow> string \<Rightarrow> model_deployment_health" where
  "new_deployment_health i now_iso =
     \<lparr> h_deployment_id = i, h_state = DEPLOYMENT_HEALTH_STATE_OK, h_cooldown_until = None,
       h_last_success_at = None, h_last_attempt_at = None, h_last_error = None, h_error_count = 0,
       h_evidence_kind = None, h_observed_at = now_iso, h_metadata = ''{}'', h_updated_at = now_iso \<rparr>"

definition object_remove :: "string \<Rightarrow> (string \<times> json) list \<Rightarrow> (string \<times> json) list" where
  "object_remove k m = filter (\<lambda>(j, _). j \<noteq> k) m"

definition status_json :: "16 word \<Rightarrow> json" where
  "status_json s = JNumber (PosInt (unat s))"

definition secs_json :: "nat \<Rightarrow> json" where
  "secs_json n = JNumber (PosInt n)"

definition stamp_field :: "string \<Rightarrow> json option \<Rightarrow> (string \<times> json) list \<Rightarrow> (string \<times> json) list" where
  "stamp_field k v m = (case v of Some j \<Rightarrow> bt_insert k j m | None \<Rightarrow> object_remove k m)"

definition stamp_outcome :: "codec \<Rightarrow> string \<Rightarrow> deployment_outcome \<Rightarrow> nat option \<Rightarrow> string" where
  "stamp_outcome cx metadata outcome cooldown_secs =
    (let obj = (case from_text cx metadata of Some (JObject m) \<Rightarrow> m | _ \<Rightarrow> []);
         obj = bt_insert ''outcome'' (JString (outcome_as_str outcome)) obj;
         obj = stamp_field ''status'' (map_option status_json (outcome_status outcome)) obj;
         obj = stamp_field ''cooldown_secs'' (map_option secs_json cooldown_secs) obj
     in to_text cx (JObject obj))"

definition event_evidence ::
  "model_deployment_health \<Rightarrow> deployment_outcome \<Rightarrow> evidence_kind \<Rightarrow> nat option \<Rightarrow> string \<Rightarrow> json" where
  "event_evidence health outcome evidence cooldown_secs now_iso = json_object
     [(''outcome'', JString (outcome_as_str outcome)),
      (''state'', JString (h_state health)),
      (''evidence_kind'', JString (evidence_kind_as_str evidence)),
      (''observed_at'', JString now_iso),
      (''status'', opt_json status_json (outcome_status outcome)),
      (''cooldown_until'', opt_json JString (h_cooldown_until health)),
      (''cooldown_secs'', opt_json secs_json cooldown_secs),
      (''error_count'', int_json (h_error_count health))]"

definition record_deployment_outcome ::
  "'a clock_scheme \<Rightarrow> codec \<Rightarrow> model_deployment_health option \<Rightarrow> string \<Rightarrow> int \<Rightarrow> deployment_outcome \<Rightarrow>
     evidence_kind \<Rightarrow> int \<Rightarrow> deployment_outcome_write" where
  "record_deployment_outcome clk cx existing i catalog_revision outcome evidence now =
    (let now_iso = to_rfc3339_millis clk now;
         health0 = (case existing of
           Some e \<Rightarrow> e\<lparr> h_deployment_id := i \<rparr>
         | None \<Rightarrow> new_deployment_health i now_iso);
         cooldown = outcome_cooldown_until outcome now;
         cooldown_secs = map_option (\<lambda>until. nat (max (num_seconds (until - now)) 0)) cooldown;
         health1 = health0\<lparr> h_state := outcome_state outcome \<rparr>;
         health2 = (if outcome = Served
           then health1\<lparr> h_cooldown_until := None, h_last_success_at := Some now_iso,
                         h_last_error := None, h_error_count := 0 \<rparr>
           else health1\<lparr> h_cooldown_until := (case cooldown of
                           Some until \<Rightarrow> Some (to_rfc3339_millis clk until)
                         | None \<Rightarrow> h_cooldown_until health1),
                         h_last_error := generated_error outcome cooldown_secs,
                         h_error_count := h_error_count health1 + 1 \<rparr>);
         health = health2\<lparr> h_evidence_kind := Some evidence, h_last_attempt_at := Some now_iso,
                           h_observed_at := now_iso, h_updated_at := now_iso,
                           h_metadata := stamp_outcome cx (h_metadata health2) outcome cooldown_secs \<rparr>
     in \<lparr> dw_health = health,
          dw_event = with_evidence
            (to_text cx (event_evidence health outcome evidence cooldown_secs now_iso))
            (new_deployment_event i catalog_revision (outcome_event_kind outcome)),
          dw_cooldown_until = cooldown,
          dw_clear_cooldown = (outcome = Served) \<rparr>)"

definition is_stale_observation :: "'a clock_scheme \<Rightarrow> model_deployment_health \<Rightarrow> int \<Rightarrow> bool" where
  "is_stale_observation clk existing now = (case parse_from_rfc3339 clk (h_observed_at existing) of
     Some recorded \<Rightarrow> now < recorded | None \<Rightarrow> False)"

section \<open>Attribution: auth failures cannot be written down\<close>

lemma is_auth_iff: "is_auth_class_status s \<longleftrightarrow> s = 401 \<or> s = 403"
  by (simp add: is_auth_class_status_def AUTH_CLASS_STATUSES_def)

lemma server_not_success: "500 \<le> s \<Longrightarrow> \<not> s < (300 :: 16 word)"
proof
  assume "500 \<le> s" "s < 300"
  then have "(500 :: 16 word) < 300" by (rule le_less_trans)
  then show False by simp
qed

text \<open>
  C39: The attribution rule, signal by signal. The classifier answers nothing exactly for the
  statuses 401 and 403, so a refused credential is never a deployment's outcome, not even an
  unreachable one; no answer at all is the only \<open>Unreachable\<close>; success is exactly a 2xx, a throttle
  exactly 402 or 429, a server error exactly a 5xx, which it carries; an unusable response is
  exactly an unusable body or one of the remaining statuses, which it carries. No outcome
  carries a 401 or 403.
\<close>

theorem classify_sealed:
  "(classify signal retry_after = None \<longleftrightarrow> signal = Status 401 \<or> signal = Status 403)
   \<and> (classify signal retry_after = Some Unreachable \<longleftrightarrow> signal = NoResponse)
   \<and> (classify signal retry_after = Some Served \<longleftrightarrow> (\<exists>s. signal = Status s \<and> 200 \<le> s \<and> s < 300))
   \<and> (classify signal retry_after = Some (Throttled r) \<longleftrightarrow> r = retry_after \<and> (signal = Status 402 \<or> signal = Status 429))
   \<and> (classify signal retry_after = Some (ServerFailed e r) \<longleftrightarrow>
        r = retry_after \<and> signal = Status (server_status e) \<and> 500 \<le> server_status e \<and> server_status e < 600)
   \<and> (classify signal retry_after = Some (UnusableResponse None) \<longleftrightarrow> signal = UnusableBody)
   \<and> (classify signal retry_after = Some (UnusableResponse (Some u)) \<longleftrightarrow>
        signal = Status (unusable_status u) \<and> unusable_status u \<notin> {401, 402, 403, 429}
        \<and> \<not> (200 \<le> unusable_status u \<and> unusable_status u < 300) \<and> \<not> (500 \<le> unusable_status u \<and> unusable_status u < 600))
   \<and> (case classify signal retry_after of None \<Rightarrow> True
      | Some x \<Rightarrow> outcome_status x \<noteq> Some 401 \<and> outcome_status x \<noteq> Some 403)"
proof (cases signal)
  case (Status s)
  have none: "classify signal retry_after = None \<longleftrightarrow> s = 401 \<or> s = 403"
    by (simp add: Status classify_def is_auth_iff server_error_new_def unusable_new_def)
  have verdict: "classify signal retry_after =
      (if s = 401 \<or> s = 403 then None else if s = 402 \<or> s = 429 then Some (Throttled retry_after)
       else if 500 \<le> s \<and> s < 600 then Some (ServerFailed (ServerErrorStatus s) retry_after)
       else if 200 \<le> s \<and> s < 300 then Some Served
       else Some (UnusableResponse (Some (UnusableResponseStatus s))))"
    by (simp add: Status classify_def is_auth_iff server_error_new_def unusable_new_def disj_commute)
  have apart: "\<not> (500 \<le> s \<and> s < 300)" using server_not_success by blast
  show ?thesis
    unfolding none verdict using apart
    by (cases e; cases u) (auto simp: Status split: if_splits)
qed (auto simp: classify_def)

section \<open>Bounded cooldowns\<close>

lemma clamp_bounds: "lo \<le> hi \<Longrightarrow> lo \<le> clamp lo hi n \<and> clamp lo hi n \<le> hi"
  by (simp add: clamp_def)

lemma cooldown_secs_bounds: "1 \<le> cooldown_secs_from r now \<and> cooldown_secs_from r now \<le> 3600"
  using clamp_bounds [of MIN_COOLDOWN_SECS MAX_COOLDOWN_SECS]
  by (simp add: cooldown_secs_from_def MIN_COOLDOWN_SECS_def MAX_COOLDOWN_SECS_def)

lemma throttle_secs_bounds: "1 \<le> throttle_cooldown_secs r now \<and> throttle_cooldown_secs r now \<le> 3600"
  using cooldown_secs_bounds
  by (auto simp: throttle_cooldown_secs_def clamp_def MIN_COOLDOWN_SECS_def MAX_COOLDOWN_SECS_def
      DEFAULT_THROTTLE_COOLDOWN_SECS_def split: option.split)

lemma outcome_cooldown_bounds:
  "outcome_cooldown_until x now = Some until \<Longrightarrow> now + second \<le> until \<and> until \<le> now + 3600 * second"
  using cooldown_secs_bounds [of _ now] throttle_secs_bounds [of _ now]
  by (cases x) (fastforce simp: retry_cooldown_until_def second_def)+

lemma num_seconds_mult: "0 \<le> n \<Longrightarrow> num_seconds (n * second) = n"
  by (simp add: num_seconds_def second_def)

lemma cooldown_secs_exact:
  "outcome_cooldown_until x now = Some until \<Longrightarrow>
     int (nat (max (num_seconds (until - now)) 0)) * second = until - now"
  by (cases x) (auto simp: retry_cooldown_until_def num_seconds_mult)

section \<open>The HTTP-date forms\<close>

lemma strip_head: "of_char c \<in> {33..<127::nat} \<Longrightarrow> trim_start (c # s) = c # s"
  unfolding trim_start_def
  by (rule strip_stop) (cases "bytes_of (c # s)" rule: ws_head.cases, auto simp: ws1_def ws2_def ws3_def)

lemma ws_last_visible: "of_char c \<in> {33..<127::nat} \<Longrightarrow> ws_last (of_char c # bs) = 0"
  by (cases "(of_char c :: nat) # bs" rule: ws_last.cases) (auto simp: ws1_def ws2_def ws3_def)

lemma strip_last: "of_char c \<in> {33..<127::nat} \<Longrightarrow> trim_end (s @ [c]) = s @ [c]"
  unfolding trim_end_def by (subst strip_stop) (simp_all add: ws_last_visible)

lemma trim_visible:
  "s \<noteq> [] \<Longrightarrow> of_char (hd s) \<in> {33..<127::nat} \<Longrightarrow> of_char (last s) \<in> {33..<127::nat} \<Longrightarrow> trim s = s"
  using strip_head [of "hd s" "tl s"] strip_last [of "last s" "butlast s"] by (simp add: trim_def)

definition two :: "nat \<Rightarrow> string" where
  "two n = [digit_char (n div 10), digit_char (n mod 10)]"

definition four :: "nat \<Rightarrow> string" where
  "four n = two (n div 100) @ two (n mod 100)"

definition hms_text :: "nat \<times> nat \<times> nat \<Rightarrow> string" where
  "hms_text t = (case t of (h, m, s) \<Rightarrow> two h @ '':'' @ two m @ '':'' @ two s)"

definition imf_text :: "nat \<Rightarrow> nat \<Rightarrow> nat \<Rightarrow> nat \<Rightarrow> nat \<times> nat \<times> nat \<Rightarrow> string" where
  "imf_text wd y mo d t =
     SHORT_DAY_NAMES ! wd @ '', '' @ two d @ '' '' @ MONTH_NAMES ! (mo - 1) @ '' '' @ four y @ '' '' @ hms_text t @ '' GMT''"

definition rfc850_text :: "nat \<Rightarrow> nat \<Rightarrow> nat \<Rightarrow> nat \<Rightarrow> nat \<times> nat \<times> nat \<Rightarrow> string" where
  "rfc850_text wd y mo d t =
     LONG_DAY_NAMES ! wd @ '', '' @ two d @ ''-'' @ MONTH_NAMES ! (mo - 1) @ ''-'' @ two (y mod 100) @ '' '' @ hms_text t @ '' GMT''"

definition asctime_text :: "nat \<Rightarrow> nat \<Rightarrow> nat \<Rightarrow> nat \<Rightarrow> nat \<times> nat \<times> nat \<Rightarrow> string" where
  "asctime_text wd y mo d t =
     SHORT_DAY_NAMES ! wd @ '' '' @ MONTH_NAMES ! (mo - 1) @ '' '' @ (if d < 10 then '' '' @ [digit_char d] else two d) @ '' '' @ hms_text t @ '' '' @ four y"

lemma digits_two: "n < 100 \<Longrightarrow> digits (two n) 2 = Some n"
  by (simp add: digits_def two_def decimal_def)

lemma digits_four: "n < 10000 \<Longrightarrow> digits (four n) 4 = Some n"
  by (simp add: digits_def four_def two_def decimal_def) 

lemma digits_one: "n < 10 \<Longrightarrow> digits [digit_char n] 1 = Some n"
  by (simp add: digits_def decimal_def)

lemma time_of_day_text: "fst t < 100 \<Longrightarrow> fst (snd t) < 100 \<Longrightarrow> snd (snd t) < 100 \<Longrightarrow> time_of_day (hms_text t) = Some t"
  using digits_two by (cases t) (simp add: time_of_day_def hms_text_def slice_def two_def)

lemma all_below: "list_all P [0..<n] \<Longrightarrow> i < n \<Longrightarrow> P i"
  by (simp add: list_all_iff)

lemma day_names:
  assumes "wd < 7"
  shows "length (SHORT_DAY_NAMES ! wd) = 3" "is_ascii (SHORT_DAY_NAMES ! wd)"
    "CHR '','' \<notin> set (SHORT_DAY_NAMES ! wd)" "of_char (hd (SHORT_DAY_NAMES ! wd)) \<in> {65..<91::nat}"
    "day_name_index (SHORT_DAY_NAMES ! wd) SHORT_DAY_NAMES = Some wd"
    "day_name_index (SHORT_DAY_NAMES ! wd) LONG_DAY_NAMES = None" "5 < length (LONG_DAY_NAMES ! wd)" "is_ascii (LONG_DAY_NAMES ! wd)"
    "CHR '','' \<notin> set (LONG_DAY_NAMES ! wd)" "of_char (hd (LONG_DAY_NAMES ! wd)) \<in> {65..<91::nat}"
    "day_name_index (LONG_DAY_NAMES ! wd) LONG_DAY_NAMES = Some wd"
proof -
  have "list_all (\<lambda>wd. length (SHORT_DAY_NAMES ! wd) = 3 \<and> is_ascii (SHORT_DAY_NAMES ! wd)
      \<and> CHR '','' \<notin> set (SHORT_DAY_NAMES ! wd)
      \<and> 65 \<le> (of_char (hd (SHORT_DAY_NAMES ! wd)) :: nat) \<and> (of_char (hd (SHORT_DAY_NAMES ! wd)) :: nat) < 91
      \<and> day_name_index (SHORT_DAY_NAMES ! wd) SHORT_DAY_NAMES = Some wd
      \<and> day_name_index (SHORT_DAY_NAMES ! wd) LONG_DAY_NAMES = None
      \<and> 5 < length (LONG_DAY_NAMES ! wd) \<and> is_ascii (LONG_DAY_NAMES ! wd)
      \<and> CHR '','' \<notin> set (LONG_DAY_NAMES ! wd)
      \<and> 65 \<le> (of_char (hd (LONG_DAY_NAMES ! wd)) :: nat) \<and> (of_char (hd (LONG_DAY_NAMES ! wd)) :: nat) < 91
      \<and> day_name_index (LONG_DAY_NAMES ! wd) LONG_DAY_NAMES = Some wd) [0..<7]"
    by code_simp
  from all_below [OF this assms] show "length (SHORT_DAY_NAMES ! wd) = 3" "is_ascii (SHORT_DAY_NAMES ! wd)"
    "CHR '','' \<notin> set (SHORT_DAY_NAMES ! wd)" "of_char (hd (SHORT_DAY_NAMES ! wd)) \<in> {65..<91::nat}"
    "day_name_index (SHORT_DAY_NAMES ! wd) SHORT_DAY_NAMES = Some wd"
    "day_name_index (SHORT_DAY_NAMES ! wd) LONG_DAY_NAMES = None" "5 < length (LONG_DAY_NAMES ! wd)" "is_ascii (LONG_DAY_NAMES ! wd)"
    "CHR '','' \<notin> set (LONG_DAY_NAMES ! wd)" "of_char (hd (LONG_DAY_NAMES ! wd)) \<in> {65..<91::nat}"
    "day_name_index (LONG_DAY_NAMES ! wd) LONG_DAY_NAMES = Some wd" by simp_all
qed

lemma month_names:
  assumes "1 \<le> mo" "mo \<le> 12"
  shows "length (MONTH_NAMES ! (mo - 1)) = 3" "is_ascii (MONTH_NAMES ! (mo - 1))"
    "CHR '','' \<notin> set (MONTH_NAMES ! (mo - 1))" "month_number (MONTH_NAMES ! (mo - 1)) = Some mo"
proof -
  have "list_all (\<lambda>i. length (MONTH_NAMES ! i) = 3 \<and> is_ascii (MONTH_NAMES ! i)
      \<and> CHR '','' \<notin> set (MONTH_NAMES ! i) \<and> month_number (MONTH_NAMES ! i) = Some (Suc i)) [0..<12]"
    by code_simp
  from all_below [OF this, of "mo - 1"] assms
  show "length (MONTH_NAMES ! (mo - 1)) = 3" "is_ascii (MONTH_NAMES ! (mo - 1))"
    "CHR '','' \<notin> set (MONTH_NAMES ! (mo - 1))" "month_number (MONTH_NAMES ! (mo - 1)) = Some mo" by simp_all
qed

lemma length_3: "length s = 3 \<Longrightarrow> \<exists>a b c. s = [a, b, c]"
  by (auto simp: numeral_3_eq_3 length_Suc_conv)

definition in_grammar :: "nat \<Rightarrow> nat \<Rightarrow> nat \<Rightarrow> nat \<Rightarrow> nat \<times> nat \<times> nat \<Rightarrow> bool" where
  "in_grammar wd y mo d t \<longleftrightarrow> wd < 7 \<and> y < 10000 \<and> 1 \<le> mo \<and> mo \<le> 12 \<and> d < 100
     \<and> (case t of (h, m, s) \<Rightarrow> h < 100 \<and> m < 100 \<and> s < 100)"

lemmas text_simps = two_def four_def hms_text_def slice_def

lemma imf_fixdate_text:
  assumes "in_grammar wd y mo d t"
  shows "imf_fixdate clk (imf_text wd y mo d t) = civil_date_time clk wd (int y) mo d t"
proof -
  obtain a b c where wd: "SHORT_DAY_NAMES ! wd = [a, b, c]"
    using length_3 [OF day_names(1) [of wd]] assms unfolding in_grammar_def by blast
  obtain a' b' c' where mo: "MONTH_NAMES ! (mo - 1) = [a', b', c']"
    using length_3 [OF month_names(1) [of mo]] assms unfolding in_grammar_def by blast
  let ?s = "imf_text wd y mo d t"
  have "slice 0 3 ?s = SHORT_DAY_NAMES ! wd" "slice 3 5 ?s = '', ''" "slice 5 7 ?s = two d"
    "slice 7 8 ?s = '' ''" "slice 8 11 ?s = MONTH_NAMES ! (mo - 1)" "slice 11 12 ?s = '' ''"
    "slice 12 16 ?s = four y" "slice 16 17 ?s = '' ''" "slice 17 25 ?s = hms_text t"
    "slice 25 29 ?s = '' GMT''" "length ?s = 29"
    by (cases t; simp add: imf_text_def wd mo text_simps del: One_nat_def)+
  then show ?thesis
    using assms by (cases t) (simp add: imf_fixdate_def day_names month_names digits_two digits_four time_of_day_text in_grammar_def del: One_nat_def)
qed

lemma split_once_found:
  "CHR '','' \<notin> set name \<Longrightarrow> split_once '', '' (name @ '', '' @ rest) = Some (name, rest)"
  by (induction name) auto

lemma split_once_missing: "CHR '','' \<notin> set s \<Longrightarrow> split_once '', '' s = None"
  by (induction s) (auto simp: take_Cons' split: if_splits)

lemma rfc850_date_text:
  assumes "in_grammar wd y mo d t" "rfc850_year clk (y mod 100) received = int y"
  shows "rfc850_date clk (rfc850_text wd y mo d t) received = civil_date_time clk wd (int y) mo d t"
proof -
  obtain a' b' c' where mo: "MONTH_NAMES ! (mo - 1) = [a', b', c']"
    using length_3 [OF month_names(1) [of mo]] assms unfolding in_grammar_def by blast
  let ?r = "two d @ ''-'' @ MONTH_NAMES ! (mo - 1) @ ''-'' @ two (y mod 100) @ '' '' @ hms_text t @ '' GMT''"
  have "split_once '', '' (rfc850_text wd y mo d t) = Some (LONG_DAY_NAMES ! wd, ?r)"
    unfolding rfc850_text_def using assms(1) by (intro split_once_found) (simp add: day_names in_grammar_def)
  moreover have "slice 0 2 ?r = two d" "slice 2 3 ?r = ''-''" "slice 3 6 ?r = MONTH_NAMES ! (mo - 1)"
    "slice 6 7 ?r = ''-''" "slice 7 9 ?r = two (y mod 100)" "slice 9 10 ?r = '' ''"
    "slice 10 18 ?r = hms_text t" "slice 18 22 ?r = '' GMT''" "length ?r = 22"
    by (cases t; simp add: mo text_simps del: One_nat_def)+
  ultimately show ?thesis
    using assms by (cases t) (simp add: rfc850_date_def day_names month_names digits_two time_of_day_text in_grammar_def del: One_nat_def)
qed

lemma div_ten: "n < 100 \<Longrightarrow> n div 10 < (10::nat)"
  by simp

lemma not_blank_digit: "n < 10 \<Longrightarrow> digit_char n \<noteq> CHR '' ''"
  using is_ascii_digit_digit_char [of n] by (auto simp: is_ascii_digit_def)

lemma asctime_date_text:
  assumes "in_grammar wd y mo d t"
  shows "asctime_date clk (asctime_text wd y mo d t) = civil_date_time clk wd (int y) mo d t"
proof -
  obtain a b c where wd: "SHORT_DAY_NAMES ! wd = [a, b, c]"
    using length_3 [OF day_names(1) [of wd]] assms unfolding in_grammar_def by blast
  obtain a' b' c' where mo: "MONTH_NAMES ! (mo - 1) = [a', b', c']"
    using length_3 [OF month_names(1) [of mo]] assms unfolding in_grammar_def by blast
  let ?day = "if d < 10 then '' '' @ [digit_char d] else two d"
  obtain p q where day: "?day = [p, q]" by (cases "d < 10") (auto simp: two_def)
  let ?s = "asctime_text wd y mo d t"
  have "slice 0 3 ?s = SHORT_DAY_NAMES ! wd" "slice 3 4 ?s = '' ''" "slice 4 7 ?s = MONTH_NAMES ! (mo - 1)"
    "slice 7 8 ?s = '' ''" "slice 8 9 ?s = [p]" "slice 9 10 ?s = [q]" "slice 8 10 ?s = [p, q]"
    "slice 10 11 ?s = '' ''" "slice 11 19 ?s = hms_text t" "slice 19 20 ?s = '' ''"
    "slice 20 24 ?s = four y" "length ?s = 24"
    unfolding asctime_text_def wd mo day by (cases t; simp add: text_simps)+
  moreover have "(if [p] = '' '' then digits [q] 1 else digits [p, q] 2) = Some d"
  proof (cases "d < 10")
    case True
    then show ?thesis using day digits_one [OF True] by auto
  next
    case False
    with day have pq: "two d = [p, q]" by simp
    moreover have "p \<noteq> CHR '' ''"
      using pq not_blank_digit [OF div_ten, of d] assms by (auto simp: two_def in_grammar_def)
    moreover have "digits (two d) 2 = Some d" using assms by (intro digits_two) (simp add: in_grammar_def)
    ultimately show ?thesis by simp
  qed
  ultimately show ?thesis
    using assms
    by (cases t, cases "p = CHR '' ''") (simp_all add: asctime_date_def day_names month_names digits_four time_of_day_text in_grammar_def del: One_nat_def)
qed

lemma is_ascii_simps [simp]:
  "is_ascii []"
  "is_ascii (c # s) \<longleftrightarrow> (of_char c :: nat) < 128 \<and> is_ascii s"
  "is_ascii (s @ t) \<longleftrightarrow> is_ascii s \<and> is_ascii t"
  by (simp_all add: is_ascii_def)

lemma digit_char_ascii: "n < 10 \<Longrightarrow> (of_char (digit_char n) :: nat) \<in> {48..<58}"
  by (simp add: digit_char_def)

lemma plain_text:
  "n < 100 \<Longrightarrow> is_ascii (two n) \<and> CHR '','' \<notin> set (two n)"
  "n < 10000 \<Longrightarrow> is_ascii (four n) \<and> CHR '','' \<notin> set (four n)"
proof -
  have digit: "n < 10 \<Longrightarrow> (of_char (digit_char n) :: nat) < 128 \<and> digit_char n \<noteq> CHR '',''" for n
    using digit_char_ascii [of n] by auto
  show two: "n < 100 \<Longrightarrow> is_ascii (two n) \<and> CHR '','' \<notin> set (two n)" for n
    using digit [OF div_ten, of n] digit [of "n mod 10"] by (auto simp: two_def)
  show "n < 10000 \<Longrightarrow> is_ascii (four n) \<and> CHR '','' \<notin> set (four n)"
    using two [of "n div 100"] two [of "n mod 100"] by (simp add: four_def)
qed

lemma date_texts_visible:
  assumes "in_grammar wd y mo d t"
  shows "is_ascii (imf_text wd y mo d t)" "is_ascii (rfc850_text wd y mo d t)" "is_ascii (asctime_text wd y mo d t)"
    "CHR '','' \<notin> set (asctime_text wd y mo d t)"
    "trim (imf_text wd y mo d t) = imf_text wd y mo d t"
    "trim (rfc850_text wd y mo d t) = rfc850_text wd y mo d t"
    "trim (asctime_text wd y mo d t) = asctime_text wd y mo d t"
proof -
  have g: "wd < 7" "y < 10000" "1 \<le> mo" "mo \<le> 12" "d < 100" using assms by (auto simp: in_grammar_def)
  have hms: "is_ascii (hms_text t) \<and> CHR '','' \<notin> set (hms_text t)"
    using assms plain_text(1) by (cases t) (auto simp: hms_text_def in_grammar_def)
  have one: "d < 10 \<Longrightarrow> is_ascii [digit_char d] \<and> CHR '','' \<noteq> digit_char d"
    using digit_char_ascii [of d] by (cases "digit_char d = CHR '',''") auto
  show "is_ascii (imf_text wd y mo d t)" "is_ascii (rfc850_text wd y mo d t)"
    unfolding imf_text_def rfc850_text_def
    using g hms plain_text(1) [of d] plain_text(1) [of "y mod 100"] plain_text(2) [of y] day_names [of wd] month_names [of mo]
    by (simp_all del: One_nat_def)
  show "is_ascii (asctime_text wd y mo d t)" "CHR '','' \<notin> set (asctime_text wd y mo d t)"
    unfolding asctime_text_def
    using g hms one plain_text(1) [of d] plain_text(2) [of y] day_names [of wd] month_names [of mo]
    by (simp_all del: One_nat_def)
  have "SHORT_DAY_NAMES ! wd \<noteq> []" "LONG_DAY_NAMES ! wd \<noteq> []"
    using day_names(1,7) [OF g(1)] by auto
  moreover have "last (four y) = digit_char (y mod 10)"
    by (simp add: four_def two_def mod_mod_cancel)
  ultimately show "trim (imf_text wd y mo d t) = imf_text wd y mo d t"
    "trim (rfc850_text wd y mo d t) = rfc850_text wd y mo d t"
    "trim (asctime_text wd y mo d t) = asctime_text wd y mo d t"
    unfolding imf_text_def rfc850_text_def asctime_text_def
    using day_names(4,10) [OF g(1)] digit_char_ascii [of "y mod 10"]
    by (intro trim_visible; auto simp: four_def two_def)+
qed

lemma letter_first: "of_char (hd s) \<in> {65..<91::nat} \<Longrightarrow> s \<noteq> [] \<Longrightarrow> parse_u64 s = None"
  by (cases s) (auto simp: parse_u64_def strip_plus_def is_ascii_digit_def Let_def split: list.splits)

text \<open>
  One moment, three spellings. The reader of \<open>Retry-After\<close> takes the IMF-fixdate, the
  obsolete RFC 850 and the obsolete asctime spelling of a civil date and time to the same
  instant, the one the calendar gives that date and time, when the day-name is the weekday
  of the date; for the RFC 850 spelling the two-digit year has to resolve to the year. With
  any other day-name all three are refused.
\<close>

lemma http_date_forms_agree:
  assumes "in_grammar wd y mo d t"
    and "rfc850_year clk (y mod 100) received = int y"
    and "from_ymd_opt clk (int y) mo d = Some date"
    and "and_hms_opt clk date (fst t) (fst (snd t)) (snd (snd t)) = Some instant"
  shows "\<forall>w\<in>{imf_text wd y mo d t, rfc850_text wd y mo d t, asctime_text wd y mo d t}.
    retry_after_parse clk w received =
      (if weekday_from_monday clk date = wd then Some (HttpDate instant) else None)"
proof -
  have g: "wd < 7" using assms(1) by (simp add: in_grammar_def)
  have result: "civil_date_time clk wd (int y) mo d t
      = (if weekday_from_monday clk date = wd then Some instant else None)"
    using assms(3,4) by (cases t) (simp add: civil_date_time_def)
  have ne: "SHORT_DAY_NAMES ! wd \<noteq> []" "LONG_DAY_NAMES ! wd \<noteq> []"
    using day_names(1,7) [OF g] by auto
  have head: "of_char (hd w) \<in> {65..<91::nat} \<and> w \<noteq> []"
    if "w \<in> {imf_text wd y mo d t, rfc850_text wd y mo d t, asctime_text wd y mo d t}" for w
    using that ne day_names(4,10) [OF g] by (auto simp: imf_text_def rfc850_text_def asctime_text_def)
  have len: "length (imf_text wd y mo d t) = 29" "length (asctime_text wd y mo d t) = 24"
    "29 < length (rfc850_text wd y mo d t)"
    using day_names(1,7) [OF g] month_names(1) [of mo] assms(1)
    by (cases t; simp add: imf_text_def asctime_text_def rfc850_text_def two_def four_def hms_text_def
        in_grammar_def del: One_nat_def)+
  have "rfc850_date clk (imf_text wd y mo d t) received = None"
    using split_once_found [OF day_names(3) [OF g]] day_names(6) [OF g]
    by (simp add: rfc850_date_def imf_text_def)
  then have "parse_http_date clk (imf_text wd y mo d t) received = civil_date_time clk wd (int y) mo d t"
    using imf_fixdate_text [OF assms(1), of clk] date_texts_visible(1) [OF assms(1)] len(1)
    by (simp add: parse_http_date_def asctime_date_def result)
  moreover have "parse_http_date clk (rfc850_text wd y mo d t) received = civil_date_time clk wd (int y) mo d t"
    using rfc850_date_text [OF assms(1,2)] date_texts_visible(2) [OF assms(1)] len(3)
    by (simp add: parse_http_date_def asctime_date_def imf_fixdate_def result)
  moreover have "parse_http_date clk (asctime_text wd y mo d t) received = civil_date_time clk wd (int y) mo d t"
    using asctime_date_text [OF assms(1), of clk] split_once_missing [OF date_texts_visible(4) [OF assms(1)]]
      date_texts_visible(3) [OF assms(1)] len(2)
    by (simp add: parse_http_date_def rfc850_date_def imf_fixdate_def result)
  ultimately show ?thesis
    using head letter_first date_texts_visible(5-7) [OF assms(1)] by (auto simp: retry_after_parse_def result Let_def)
qed

lemma rfc850_year_law:
  assumes "yy < 100"
  shows "rfc850_year clk yy t mod 100 = int yy \<and> rfc850_year clk yy t \<le> year_of clk t + 50
    \<and> (rfc850_year clk yy t div 100 = year_of clk t div 100
      \<or> rfc850_year clk yy t div 100 = year_of clk t div 100 - 1)"
proof -
  obtain c r where y: "year_of clk t = 100 * c + r" "0 \<le> r" "r < 100"
    using mult_div_mod_eq [of 100 "year_of clk t"] by (metis pos_mod_bound pos_mod_sign zero_less_numeral)
  define k where "k = (if int yy - r > 50 then c - 1 else c)"
  have "rfc850_year clk yy t = 100 * k + int yy"
    using y by (simp add: rfc850_year_def Let_def k_def)
  moreover have "(100 * k + int yy) div 100 = k" "(100 * k + int yy) mod 100 = int yy" "year_of clk t div 100 = c"
    using assms y by simp_all
  moreover have "k = c \<or> k = c - 1" "100 * k + int yy \<le> year_of clk t + 50"
    using y assms by (auto simp: k_def)
  ultimately show ?thesis by presburger
qed

text \<open>
  The two-digit year never resolves to the century after the one of the receipt, however
  close: read in 2098, 01 is 2001, not 2101.
\<close>

lemma rfc850_next_century: "year_of clk t = 2098 \<Longrightarrow> rfc850_year clk 1 t = 2001"
  by (simp add: rfc850_year_def)

text \<open>A sign is accepted before a count of seconds.\<close>

lemma delta_seconds_sign: "retry_after_parse clk ''+120'' t = Some (DeltaSeconds 120)"
proof -
  have "trim ''+120'' = ''+120''" by (rule trim_visible) simp_all
  moreover have "parse_u64 ''+120'' = Some 120"
    by (simp add: parse_u64_def strip_plus_def is_ascii_digit_def decimal_def digit_value_def)
  ultimately show ?thesis by (simp add: retry_after_parse_def Let_def)
qed

section \<open>The row transition\<close>

text \<open>
  What one observation writes, on every branch. The row and the event carry the
  deployment the caller names, whatever row it read, and the event the revision it
  observed; the state is the outcome's and the event kind folds back to it. A served
  request voids the cooldown, the error and the error count; any other outcome counts one
  more error with a generated text, keeps the last success, and leaves a running cooldown
  as it was unless it buys one itself, which then lasts from one second to one hour and is
  the cooldown the row prints.
\<close>

lemma record_outcome_law:
  "(let old = (case existing of Some e \<Rightarrow> e | None \<Rightarrow> new_deployment_health i (to_rfc3339_millis clk now));
        w = record_deployment_outcome clk cx existing i revision x ev now;
        row = dw_health w; e = dw_event w
    in h_deployment_id row = i \<and> ne_deployment_id e = i \<and> ne_revision e = revision
     \<and> h_state row = outcome_state x
     \<and> Option.bind (event_kind_parse (ne_event_kind e)) kind_health_state = Some (h_state row)
     \<and> h_observed_at row = to_rfc3339_millis clk now \<and> h_evidence_kind row = Some ev
     \<and> (if x = Served
        then h_cooldown_until row = None \<and> h_last_error row = None \<and> h_error_count row = 0
          \<and> h_last_success_at row = Some (to_rfc3339_millis clk now) \<and> dw_clear_cooldown w
        else h_last_error row \<noteq> None \<and> h_error_count row = h_error_count old + 1
          \<and> h_last_success_at row = h_last_success_at old \<and> \<not> dw_clear_cooldown w
          \<and> (case dw_cooldown_until w of
               None \<Rightarrow> h_cooldown_until row = h_cooldown_until old
             | Some until \<Rightarrow> h_cooldown_until row = Some (to_rfc3339_millis clk until)
                 \<and> now + second \<le> until \<and> until \<le> now + 3600 * second)))"
proof -
  have kind: "Option.bind (event_kind_parse (event_kind_as_str (outcome_event_kind x))) kind_health_state
      = Some (outcome_state x)"
    by (cases x) (simp_all add: event_kind_wire.parse_spell del: event_kind_as_str.simps)
  have error: "x \<noteq> Served \<Longrightarrow> generated_error x s \<noteq> None" for s
    by (cases "(x, s)" rule: generated_error.cases) auto
  show ?thesis
    using outcome_cooldown_bounds [of x now] kind error
    by (auto simp: record_deployment_outcome_def Let_def new_deployment_event_def with_evidence_def
        new_deployment_health_def split: option.splits)
qed

section \<open>A concrete clock\<close>

text \<open>
  The proleptic Gregorian calendar as day numbers from 1970-01-01, and instants printed as
  their milliseconds in decimal: a clock that satisfies what the properties ask of one.
\<close>

definition days_from_civil :: "int \<Rightarrow> nat \<Rightarrow> nat \<Rightarrow> int" where
  "days_from_civil y m d =
    (let y' = (if m \<le> 2 then y - 1 else y); era = y' div 400; yoe = y' - era * 400;
         doy = (153 * int (if m > 2 then m - 3 else m + 9) + 2) div 5 + int d - 1
     in era * 146097 + (yoe * 365 + yoe div 4 - yoe div 100 + doy) - 719468)"

definition civil_year :: "int \<Rightarrow> int" where
  "civil_year days =
    (let z = days + 719468; era = z div 146097; doe = z - era * 146097;
         yoe = (doe - doe div 1460 + doe div 36524 - doe div 146096) div 365;
         doy = doe - (365 * yoe + yoe div 4 - yoe div 100)
     in yoe + era * 400 + (if (5 * doy + 2) div 153 < 10 then 0 else 1))"

definition month_days :: "int \<Rightarrow> nat \<Rightarrow> nat" where
  "month_days y m = (if m = 2 then (if y mod 4 = 0 \<and> y mod 100 \<noteq> 0 \<or> y mod 400 = 0 then 29 else 28)
     else if m \<in> {4, 6, 9, 11} then 30 else 31)"

definition gregorian_clock :: clock where
  "gregorian_clock =
     \<lparr> parse_from_rfc3339 = (\<lambda>s. map_option (\<lambda>n. int n * 1000000) (parse_u64 s)), MIN_UTC = 0,
       to_rfc3339_millis = (\<lambda>t. show_nat (nat (t div 1000000))),
       year_of = (\<lambda>t. civil_year (t div (86400 * second))),
       from_ymd_opt = (\<lambda>y m d. if 1 \<le> m \<and> m \<le> 12 \<and> 1 \<le> d \<and> d \<le> month_days y m
         then Some (days_from_civil y m d) else None),
       weekday_from_monday = (\<lambda>days. nat ((days + 3) mod 7)),
       and_hms_opt = (\<lambda>days h m s. if h < 24 \<and> m < 60 \<and> s < 60
         then Some ((days * 86400 + int h * 3600 + int m * 60 + int s) * second) else None) \<rparr>"

lemma http_date_forms_agree_witness:
  "map (\<lambda>w. retry_after_parse gregorian_clock w (784000000 * second))
     [''Sun, 06 Nov 1994 08:49:37 GMT'', ''Sunday, 06-Nov-94 08:49:37 GMT'', ''Sun Nov  6 08:49:37 1994'']
   = replicate 3 (Some (HttpDate (784111777 * second)))"
proof -
  have "imf_text 6 1994 11 6 (8, 49, 37) = ''Sun, 06 Nov 1994 08:49:37 GMT''"
    "rfc850_text 6 1994 11 6 (8, 49, 37) = ''Sunday, 06-Nov-94 08:49:37 GMT''"
    "asctime_text 6 1994 11 6 (8, 49, 37) = ''Sun Nov  6 08:49:37 1994''"
    "in_grammar 6 1994 11 6 (8, 49, 37)"
    "rfc850_year gregorian_clock (1994 mod 100) (784000000 * second) = int 1994"
    "from_ymd_opt gregorian_clock (int 1994) 11 6 = Some 9075"
    "and_hms_opt gregorian_clock 9075 8 49 37 = Some (784111777 * second)"
    "weekday_from_monday gregorian_clock 9075 = 6"
    by code_simp+
  then show ?thesis
    using http_date_forms_agree [of 6 1994 11 6 "(8, 49, 37)" gregorian_clock "784000000 * second" 9075 "784111777 * second"]
    by (simp add: numeral_3_eq_3)
qed

end
