(* ===== verification/Tachi_Codec.thy ===== *)
theory Tachi_Codec
  imports Tachi_Json
begin

text \<open>
  A concrete codec for the witnesses. The properties take the JSON printer, its reader and
  the digest function as parameters and ask of them that a printed value reads back; the
  codec here satisfies that for every value, with a tagged, length-prefixed text.
\<close>

definition unary :: "nat \<Rightarrow> string" where
  "unary n = replicate n (CHR ''1'') @ ''0''"

fun read_unary :: "string \<Rightarrow> (nat \<times> string) option" where
  "read_unary [] = None"
| "read_unary (c # s) =
     (if c = CHR ''0'' then Some (0, s) else map_option (\<lambda>(n, r). (Suc n, r)) (read_unary s))"

lemma read_unary [simp]: "read_unary (unary n @ r) = Some (n, r)"
  by (induction n) (simp_all add: unary_def)

definition write_string :: "string \<Rightarrow> string" where
  "write_string s = unary (length s) @ s"

definition read_string :: "string \<Rightarrow> (string \<times> string) option" where
  "read_string t = map_option (\<lambda>(n, r). (take n r, drop n r)) (read_unary t)"

lemma read_string [simp]: "read_string (write_string s @ r) = Some (s, r)"
  by (simp add: read_string_def write_string_def)

fun write_number :: "json_number \<Rightarrow> string" where
  "write_number (PosInt n) = ''p'' @ unary n"
| "write_number (NegInt i) = (if 0 \<le> i then ''q'' @ unary (nat i) else ''m'' @ unary (nat (- i)))"
| "write_number (Float n) = ''d'' @ unary n"

definition read_number :: "string \<Rightarrow> (json_number \<times> string) option" where
  "read_number t = (case t of [] \<Rightarrow> None | c # s \<Rightarrow> map_option (\<lambda>(n, r).
     (if c = CHR ''p'' then PosInt n else if c = CHR ''q'' then NegInt (int n)
      else if c = CHR ''m'' then NegInt (- int n) else Float n, r)) (read_unary s))"

lemma read_number [simp]: "read_number (write_number n @ r) = Some (n, r)"
  by (cases n) (simp_all add: read_number_def)

fun write_json :: "json \<Rightarrow> string" where
  "write_json JNull = ''n''"
| "write_json (JBool b) = (if b then ''t'' else ''f'')"
| "write_json (JNumber n) = ''i'' @ write_number n"
| "write_json (JString s) = ''s'' @ write_string s"
| "write_json (JArray vs) = ''a'' @ unary (length vs) @ concat (map write_json vs)"
| "write_json (JObject m) =
     ''o'' @ unary (length m) @ concat (map (\<lambda>(k, v). write_string k @ write_json v) m)"

fun read_json :: "nat \<Rightarrow> string \<Rightarrow> (json \<times> string) option"
  and read_items :: "nat \<Rightarrow> nat \<Rightarrow> string \<Rightarrow> (json list \<times> string) option"
  and read_entries :: "nat \<Rightarrow> nat \<Rightarrow> string \<Rightarrow> ((string \<times> json) list \<times> string) option" where
  "read_json 0 t = None"
| "read_json (Suc fuel) [] = None"
| "read_json (Suc fuel) (c # t) =
     (if c = CHR ''n'' then Some (JNull, t)
      else if c = CHR ''t'' then Some (JBool True, t)
      else if c = CHR ''f'' then Some (JBool False, t)
      else if c = CHR ''i'' then map_option (\<lambda>(n, r). (JNumber n, r)) (read_number t)
      else if c = CHR ''s'' then map_option (\<lambda>(s, r). (JString s, r)) (read_string t)
      else if c = CHR ''a'' then Option.bind (read_unary t) (\<lambda>(n, r).
        map_option (\<lambda>(vs, r). (JArray vs, r)) (read_items fuel n r))
      else Option.bind (read_unary t) (\<lambda>(n, r).
        map_option (\<lambda>(m, r). (JObject m, r)) (read_entries fuel n r)))"
| "read_items fuel 0 t = Some ([], t)"
| "read_items fuel (Suc n) t = Option.bind (read_json fuel t) (\<lambda>(v, r).
     map_option (\<lambda>(vs, r). (v # vs, r)) (read_items fuel n r))"
| "read_entries fuel 0 t = Some ([], t)"
| "read_entries fuel (Suc n) t = Option.bind (read_string t) (\<lambda>(k, r).
     Option.bind (read_json fuel r) (\<lambda>(v, r).
     map_option (\<lambda>(m, r). ((k, v) # m, r)) (read_entries fuel n r)))"

lemma read_items_write:
  "(\<And>v r. v \<in> set vs \<Longrightarrow> read_json fuel (write_json v @ r) = Some (v, r)) \<Longrightarrow>
     read_items fuel (length vs) (concat (map write_json vs) @ r) = Some (vs, r)"
  by (induction vs) simp_all

lemma read_entries_write:
  "(\<And>p r. p \<in> set m \<Longrightarrow> read_json fuel (write_json (snd p) @ r) = Some (snd p, r)) \<Longrightarrow>
     read_entries fuel (length m) (concat (map (\<lambda>(k, v). write_string k @ write_json v) m) @ r) = Some (m, r)"
  by (induction m) (simp_all add: case_prod_unfold)

lemma length_write_part:
  "v \<in> set vs \<Longrightarrow> length (write_json v) \<le> length (concat (map write_json vs))"
  "(k, v) \<in> set m \<Longrightarrow> length (write_json v) \<le> length (concat (map (\<lambda>(k, v). write_string k @ write_json v) m))"
  by (induction vs) (fastforce, induction m, fastforce+)

lemma read_json_write: "length (write_json v) \<le> fuel \<Longrightarrow> read_json fuel (write_json v @ r) = Some (v, r)"
proof (induction v arbitrary: fuel r)
  case (JArray vs)
  then obtain n where n: "fuel = Suc n" by (cases fuel) auto
  have "read_json n (write_json v @ r) = Some (v, r)" if "v \<in> set vs" for v r
    using JArray that length_write_part(1) [OF that] n by (intro JArray.IH) auto
  then show ?case using n by (simp add: read_items_write)
next
  case (JObject m)
  then obtain n where n: "fuel = Suc n" by (cases fuel) auto
  have "read_json n (write_json v @ r) = Some (v, r)" if "(k, v) \<in> set m" for k v r
    using JObject.prems length_write_part(2) [OF that] n that
    by (intro JObject.IH [of "(k, v)" v]) auto
  then have "read_entries n (length m) (concat (map (\<lambda>(k, v). write_string k @ write_json v) m) @ r) = Some (m, r)"
    by (intro read_entries_write) force
  then show ?case using n by simp
next
  case (JNumber n)
  then show ?case by (cases fuel) simp_all
next
  case (JString s)
  then show ?case by (cases fuel) simp_all
next
  case JNull
  then show ?case by (cases fuel) simp_all
next
  case (JBool b)
  then show ?case by (cases fuel; cases b) auto
qed

definition tagged_read :: "string \<Rightarrow> json option" where
  "tagged_read t = (case read_json (length t) t of Some (v, []) \<Rightarrow> Some v | _ \<Rightarrow> None)"

definition tagged_codec :: codec where
  "tagged_codec = \<lparr> to_text = write_json, from_text = tagged_read, sha256 = map of_char \<rparr>"

text \<open>What the properties ask of a codec.\<close>

definition reads_printed :: "'a codec_scheme \<Rightarrow> bool" where
  "reads_printed cx \<longleftrightarrow> (\<forall>v. from_text cx (to_text cx v) = Some v)"

lemma reads_printed_tagged: "reads_printed tagged_codec"
proof -
  have "tagged_read (write_json v) = Some v" for v
    using read_json_write [of v _ "[]"] by (simp add: tagged_read_def)
  then show ?thesis by (simp add: reads_printed_def tagged_codec_def)
qed

end
