(* ===== verification/Catalog_Store.thy ===== *)
theory Catalog_Store
  imports Catalog_Fold Catalog_Health Tachi_Codec
begin

text \<open>
  The catalog tables and their SQL, \<open>crates/memcore/src/db/model_catalog.rs\<close>. A table keyed
  by a text column is an ordered map from the key to the row, which is the order the
  listings ask for; an \<open>AUTOINCREMENT\<close> log is its rows in id order with the last id handed
  out. Column \<open>f\<close> of a deployment row is \<open>r_f\<close>, of a sheet row \<open>z_f\<close>, of a health row
  \<open>y_f\<close>. Text columns that hold serialized structs stay texts; the derived serializers are
  fields of \<open>row_codec\<close>. Each reading of the wall clock is an argument. A statement of the
  database can fail where the section on transactions says so; elsewhere the statements
  succeed and the errors are those of the code.
\<close>

section \<open>Tables\<close>

record row_codec = codec +
  caps_to_text :: "catalog_capabilities \<Rightarrow> string"
  caps_from_text :: "string \<Rightarrow> catalog_capabilities option"
  bounds_to_text :: "attachment_bounds \<Rightarrow> string"
  bounds_from_text :: "string \<Rightarrow> attachment_bounds option"
  refs_to_text :: "string list \<Rightarrow> string"
  refs_from_text :: "string \<Rightarrow> string list option"

abbreviation base_codec :: "'a row_codec_scheme \<Rightarrow> codec" where
  "base_codec rc \<equiv> codec.truncate rc"

record deployment_row =
  r_deployment_id :: string
  r_provider_account_id :: string
  r_endpoint_ref :: "string option"
  r_protocol_kind :: string
  r_provider_model_id :: string
  r_effective_version :: "string option"
  r_capabilities :: string
  r_context_window :: "int option"
  r_max_output :: "int option"
  r_attachment_bounds :: string
  r_region :: "string option"
  r_data_policy :: "string option"
  r_pricing_snapshot_ref :: "string option"
  r_catalog_source :: string
  r_fetched_at :: string
  r_effective_at :: string
  r_expires_at :: "string option"
  r_status :: string
  r_revision :: int
  r_source_refs :: string
  r_created_at :: string
  r_updated_at :: string

record snapshot_row =
  z_snapshot_id :: string
  z_provider_kind :: string
  z_pricing_data :: string
  z_catalog_source :: "string option"
  z_fetched_at :: string
  z_created_at :: string

record health_row =
  y_deployment_id :: string
  y_state :: string
  y_cooldown_until :: "string option"
  y_last_success_at :: "string option"
  y_last_attempt_at :: "string option"
  y_last_error :: "string option"
  y_error_count :: int
  y_evidence_kind :: "string option"
  y_observed_at :: string
  y_metadata :: string
  y_updated_at :: string

record alias_row =
  w_alias_name :: string
  w_required_capabilities :: string
  w_constraints :: string
  w_status :: string
  w_revision :: int
  w_policy_digest :: "string option"
  w_source_refs :: string
  w_created_at :: string
  w_updated_at :: string

record binding_row =
  b_priority :: int
  b_retired :: int
  b_created_at :: string
  b_updated_at :: string

record catalog_db =
  db_deployments :: "(string \<times> deployment_row) list"
  db_deployment_events :: "model_deployment_event list"
  db_deployment_event_seq :: int
  db_snapshots :: "(string \<times> snapshot_row) list"
  db_health :: "(string \<times> health_row) list"
  db_aliases :: "(string \<times> alias_row) list"
  db_bindings :: "((string \<times> string) \<times> binding_row) list"
  db_alias_events :: "model_alias_event list"
  db_alias_event_seq :: int

definition empty_catalog :: catalog_db where
  "empty_catalog =
     \<lparr> db_deployments = [], db_deployment_events = [], db_deployment_event_seq = 0, db_snapshots = [],
       db_health = [], db_aliases = [], db_bindings = [], db_alias_events = [], db_alias_event_seq = 0 \<rparr>"

section \<open>Deployments\<close>

datatype deployment_write = DCreated int int | DUnchanged int | DAdvanced int int

fun write_revision :: "deployment_write \<Rightarrow> int" where
  "write_revision (DCreated revision event_id) = revision"
| "write_revision (DUnchanged revision) = revision"
| "write_revision (DAdvanced revision event_id) = revision"

fun moved :: "deployment_write \<Rightarrow> bool" where
  "moved (DUnchanged _) \<longleftrightarrow> False"
| "moved _ \<longleftrightarrow> True"

definition row_to_deployment :: "'a row_codec_scheme \<Rightarrow> deployment_row \<Rightarrow> (model_deployment, catalog_error) result" where
  "row_to_deployment rc r = (case protocol_parse (r_protocol_kind r) of
     None \<Rightarrow> Err (UnknownProtocolKind (r_deployment_id r) (r_protocol_kind r))
   | Some protocol \<Rightarrow> (case source_parse (r_catalog_source r) of
     None \<Rightarrow> Err (UnknownCatalogSource (r_deployment_id r) (r_catalog_source r))
   | Some source \<Rightarrow> (case caps_from_text rc (r_capabilities r) of
     None \<Rightarrow> Err (UnreadableColumn (r_deployment_id r) ''capabilities'')
   | Some caps \<Rightarrow> (case bounds_from_text rc (r_attachment_bounds r) of
     None \<Rightarrow> Err (UnreadableColumn (r_deployment_id r) ''attachment_bounds'')
   | Some bounds \<Rightarrow> (case refs_from_text rc (r_source_refs r) of
     None \<Rightarrow> Err (UnreadableColumn (r_deployment_id r) ''source_refs'')
   | Some refs \<Rightarrow> Ok
       \<lparr> md_deployment_id = r_deployment_id r, md_provider_account_id = r_provider_account_id r,
         md_endpoint_ref = r_endpoint_ref r, md_protocol_kind = protocol,
         md_provider_model_id = r_provider_model_id r, md_effective_version = r_effective_version r,
         md_capabilities = caps, md_context_window = r_context_window r, md_max_output = r_max_output r,
         md_attachment_bounds = bounds, md_region = r_region r, md_data_policy = r_data_policy r,
         md_pricing_snapshot_ref = r_pricing_snapshot_ref r, md_catalog_source = source,
         md_fetched_at = r_fetched_at r, md_effective_at = r_effective_at r,
         md_expires_at = r_expires_at r, md_status = r_status r, md_revision = r_revision r,
         md_source_refs = refs, md_created_at = r_created_at r, md_updated_at = r_updated_at r \<rparr>)))))"

definition get_model_deployment ::
  "'a row_codec_scheme \<Rightarrow> catalog_db \<Rightarrow> string \<Rightarrow> (model_deployment option, catalog_error) result" where
  "get_model_deployment rc db i = (case map_of (db_deployments db) i of
     None \<Rightarrow> Ok None
   | Some r \<Rightarrow> and_then (row_to_deployment rc r) (\<lambda>d. Ok (Some d)))"

fun collect_deployments ::
  "'a row_codec_scheme \<Rightarrow> deployment_row list \<Rightarrow> (model_deployment list, catalog_error) result" where
  "collect_deployments rc [] = Ok []"
| "collect_deployments rc (r # rs) = and_then (row_to_deployment rc r) (\<lambda>d.
     and_then (collect_deployments rc rs) (\<lambda>ds. Ok (d # ds)))"

definition list_model_deployments ::
  "'a row_codec_scheme \<Rightarrow> catalog_db \<Rightarrow> (model_deployment list, catalog_error) result" where
  "list_model_deployments rc db = collect_deployments rc (map snd (db_deployments db))"

definition list_model_deployments_by_source ::
  "'a row_codec_scheme \<Rightarrow> catalog_db \<Rightarrow> catalog_source \<Rightarrow> (model_deployment list, catalog_error) result" where
  "list_model_deployments_by_source rc db source =
     collect_deployments rc (filter (\<lambda>r. r_catalog_source r = source_as_str source) (map snd (db_deployments db)))"

definition append_model_deployment_event ::
  "string \<Rightarrow> new_model_deployment_event \<Rightarrow> catalog_db \<Rightarrow> int \<times> catalog_db" where
  "append_model_deployment_event now e db =
    (let i = db_deployment_event_seq db + 1 in
     (i, db\<lparr> db_deployment_event_seq := i,
             db_deployment_events := db_deployment_events db @
               [\<lparr> ev_id = i, ev_deployment_id = ne_deployment_id e, ev_revision = ne_revision e,
                  ev_event_kind = ne_event_kind e, ev_plan_digest = ne_plan_digest e,
                  ev_evidence = ne_evidence e, ev_created_at = now \<rparr>] \<rparr>))"

definition list_model_deployment_events :: "catalog_db \<Rightarrow> string \<Rightarrow> model_deployment_event list" where
  "list_model_deployment_events db i = filter (\<lambda>e. ev_deployment_id e = i) (db_deployment_events db)"

definition list_model_deployment_events_after :: "catalog_db \<Rightarrow> int \<Rightarrow> model_deployment_event list" where
  "list_model_deployment_events_after db n = filter (\<lambda>e. n < ev_id e) (db_deployment_events db)"

definition inserted_row :: "'a row_codec_scheme \<Rightarrow> string \<Rightarrow> new_model_deployment \<Rightarrow> deployment_row" where
  "inserted_row rc now d =
     \<lparr> r_deployment_id = nd_deployment_id d, r_provider_account_id = nd_provider_account_id d,
       r_endpoint_ref = nd_endpoint_ref d, r_protocol_kind = protocol_as_str (nd_protocol_kind d),
       r_provider_model_id = nd_provider_model_id d, r_effective_version = nd_effective_version d,
       r_capabilities = caps_to_text rc (nd_capabilities d), r_context_window = nd_context_window d,
       r_max_output = nd_max_output d, r_attachment_bounds = bounds_to_text rc (nd_attachment_bounds d),
       r_region = nd_region d, r_data_policy = nd_data_policy d,
       r_pricing_snapshot_ref = nd_pricing_snapshot_ref d,
       r_catalog_source = source_as_str (nd_catalog_source d), r_fetched_at = nd_fetched_at d,
       r_effective_at = nd_effective_at d, r_expires_at = nd_expires_at d, r_status = nd_status d,
       r_revision = 1, r_source_refs = refs_to_text rc (nd_source_refs d),
       r_created_at = now, r_updated_at = now \<rparr>"

text \<open>The columns the \<open>UPDATE\<close> sets; the id and \<open>created_at\<close> stay.\<close>

definition updated_row :: "'a row_codec_scheme \<Rightarrow> string \<Rightarrow> int \<Rightarrow> new_model_deployment \<Rightarrow> deployment_row \<Rightarrow> deployment_row" where
  "updated_row rc now revision d r =
     (inserted_row rc now d)\<lparr> r_deployment_id := r_deployment_id r, r_revision := revision,
       r_created_at := r_created_at r \<rparr>"

definition upsert_model_deployment ::
  "'a row_codec_scheme \<Rightarrow> string \<Rightarrow> string \<Rightarrow> new_model_deployment \<Rightarrow> catalog_db \<Rightarrow>
     (deployment_write \<times> catalog_db, catalog_error) result" where
  "upsert_model_deployment rc now event_now d db =
     and_then (get_model_deployment rc db (nd_deployment_id d)) (\<lambda>existing. case existing of
       None \<Rightarrow>
         (let db1 = db\<lparr> db_deployments := bt_insert (nd_deployment_id d) (inserted_row rc now d) (db_deployments db) \<rparr>;
              (event_id, db2) = append_model_deployment_event event_now
                (with_evidence
                  (to_text rc (json_object [(''content_digest'', JString (new_content_digest (base_codec rc) d))]))
                  (new_deployment_event (nd_deployment_id d) 1 DeploymentImported)) db1
          in Ok (DCreated 1 event_id, db2))
     | Some old \<Rightarrow>
         if stored_content_digest (base_codec rc) old = new_content_digest (base_codec rc) d then
           Ok (DUnchanged (md_revision old),
               db\<lparr> db_deployments := update_row (nd_deployment_id d)
                     (\<lambda>r. r\<lparr> r_fetched_at := nd_fetched_at d \<rparr>) (db_deployments db) \<rparr>)
         else
           (let revision = md_revision old + 1;
                db1 = db\<lparr> db_deployments := update_row (nd_deployment_id d)
                            (updated_row rc now revision d) (db_deployments db) \<rparr>;
                (event_id, db2) = append_model_deployment_event event_now
                  (with_evidence
                    (to_text rc (json_object
                      [(''previous_content_digest'', JString (stored_content_digest (base_codec rc) old)),
                       (''content_digest'', JString (new_content_digest (base_codec rc) d))]))
                    (new_deployment_event (nd_deployment_id d) revision DeploymentUpdated)) db1
            in Ok (DAdvanced revision event_id, db2)))"

definition retire_model_deployment ::
  "'a row_codec_scheme \<Rightarrow> string \<Rightarrow> string \<Rightarrow> string \<Rightarrow> catalog_db \<Rightarrow>
     (deployment_write option \<times> catalog_db, catalog_error) result" where
  "retire_model_deployment rc now event_now i db =
     and_then (get_model_deployment rc db i) (\<lambda>existing. case existing of
       None \<Rightarrow> Ok (None, db)
     | Some old \<Rightarrow>
         if md_status old = DEPLOYMENT_STATUS_RETIRED then Ok (Some (DUnchanged (md_revision old)), db)
         else
           (let revision = md_revision old + 1;
                db1 = db\<lparr> db_deployments := update_row i
                  (\<lambda>r. r\<lparr> r_status := DEPLOYMENT_STATUS_RETIRED, r_revision := revision, r_updated_at := now \<rparr>)
                  (db_deployments db) \<rparr>;
                (event_id, db2) = append_model_deployment_event event_now
                  (new_deployment_event i revision DeploymentRetired) db1
            in Ok (Some (DAdvanced revision event_id), db2)))"

section \<open>Price sheets\<close>

datatype pricing_snapshot_write = SnapshotCreated | SnapshotDeduped

definition upsert_pricing_snapshot :: "'a codec_scheme \<Rightarrow> pricing_snapshot \<Rightarrow> catalog_db \<Rightarrow> pricing_snapshot_write \<times> catalog_db" where
  "upsert_pricing_snapshot cx s db =
     (if map_of (db_snapshots db) (ps_snapshot_id s) \<noteq> None then (SnapshotDeduped, db)
      else (SnapshotCreated, db\<lparr> db_snapshots := bt_insert (ps_snapshot_id s)
        \<lparr> z_snapshot_id = ps_snapshot_id s, z_provider_kind = ps_provider_kind s,
          z_pricing_data = to_text cx (ps_pricing_data s),
          z_catalog_source = map_option source_as_str (ps_catalog_source s),
          z_fetched_at = ps_fetched_at s, z_created_at = ps_created_at s \<rparr> (db_snapshots db) \<rparr>))"

definition get_pricing_snapshot :: "'a codec_scheme \<Rightarrow> catalog_db \<Rightarrow> string \<Rightarrow> (pricing_snapshot option, catalog_error) result" where
  "get_pricing_snapshot cx db i = (case map_of (db_snapshots db) i of
     None \<Rightarrow> Ok None
   | Some z \<Rightarrow> (case from_text cx (z_pricing_data z) of
       None \<Rightarrow> Err UnreadableJson
     | Some pricing_data \<Rightarrow>
         and_then (case z_catalog_source z of
             None \<Rightarrow> Ok None
           | Some raw \<Rightarrow> (case source_parse raw of
               Some s \<Rightarrow> Ok (Some s) | None \<Rightarrow> Err (SnapshotUnknownSource (z_snapshot_id z) raw)))
           (\<lambda>source. and_then
             (snapshot_from_stored (codec.truncate cx) (z_snapshot_id z) (z_provider_kind z) pricing_data source
               (z_fetched_at z) (z_created_at z)) (\<lambda>s. Ok (Some s)))))"

section \<open>Health\<close>

record outcome_target =
  tg_deployment_id :: string
  tg_expects :: "(string \<times> string) option"

definition request_target :: "string \<Rightarrow> string \<Rightarrow> string \<Rightarrow> outcome_target" where
  "request_target i endpoint model = \<lparr> tg_deployment_id = i, tg_expects = Some (endpoint, model) \<rparr>"

definition deployment_target :: "string \<Rightarrow> outcome_target" where
  "deployment_target i = \<lparr> tg_deployment_id = i, tg_expects = None \<rparr>"

definition describes :: "outcome_target \<Rightarrow> model_deployment \<Rightarrow> bool" where
  "describes t d = (case tg_expects t of
     None \<Rightarrow> True
   | Some (endpoint, model) \<Rightarrow>
       map_option trim (md_endpoint_ref d) = Some (trim endpoint)
       \<and> trim (md_provider_model_id d) = trim model)"

datatype health_skip = NoSuchDeployment | DescribesADifferentRequest | StaleObservation | AuthClassStatus

datatype health_write = Recorded int string "string option" | Skipped health_skip

definition upsert_model_deployment_health :: "model_deployment_health \<Rightarrow> catalog_db \<Rightarrow> catalog_db" where
  "upsert_model_deployment_health h db = db\<lparr> db_health := bt_insert (h_deployment_id h)
     \<lparr> y_deployment_id = h_deployment_id h, y_state = h_state h, y_cooldown_until = h_cooldown_until h,
       y_last_success_at = h_last_success_at h, y_last_attempt_at = h_last_attempt_at h,
       y_last_error = h_last_error h, y_error_count = h_error_count h,
       y_evidence_kind = map_option evidence_kind_as_str (h_evidence_kind h),
       y_observed_at = h_observed_at h, y_metadata = h_metadata h, y_updated_at = h_updated_at h \<rparr> (db_health db) \<rparr>"

definition get_model_deployment_health :: "catalog_db \<Rightarrow> string \<Rightarrow> model_deployment_health option" where
  "get_model_deployment_health db i = map_option (\<lambda>y.
     \<lparr> h_deployment_id = y_deployment_id y, h_state = y_state y, h_cooldown_until = y_cooldown_until y,
       h_last_success_at = y_last_success_at y, h_last_attempt_at = y_last_attempt_at y,
       h_last_error = y_last_error y, h_error_count = y_error_count y,
       h_evidence_kind = Option.bind (y_evidence_kind y) evidence_kind_parse,
       h_observed_at = y_observed_at y, h_metadata = y_metadata y, h_updated_at = y_updated_at y \<rparr>)
     (map_of (db_health db) i)"

text \<open>The body of the savepoint of \<open>record_model_deployment_outcome\<close>.\<close>

definition outcome_body ::
  "'a clock_scheme \<Rightarrow> 'b row_codec_scheme \<Rightarrow> string \<Rightarrow> outcome_target \<Rightarrow> deployment_outcome \<Rightarrow>
     evidence_kind \<Rightarrow> int \<Rightarrow> catalog_db \<Rightarrow> (health_write \<times> catalog_db, catalog_error) result" where
  "outcome_body clk rc event_now target outcome evidence now db =
    (let i = tg_deployment_id target in
     and_then (get_model_deployment rc db i) (\<lambda>deployment. case deployment of
       None \<Rightarrow> Ok (Skipped NoSuchDeployment, db)
     | Some d \<Rightarrow>
         if \<not> describes target d then Ok (Skipped DescribesADifferentRequest, db)
         else
           (let existing = get_model_deployment_health db i in
            if (case existing of Some e \<Rightarrow> is_stale_observation clk e now | None \<Rightarrow> False)
            then Ok (Skipped StaleObservation, db)
            else
              (let w = record_deployment_outcome clk (base_codec rc) existing i (md_revision d) outcome evidence now;
                   db1 = upsert_model_deployment_health (dw_health w) db;
                   (event_id, db2) = append_model_deployment_event event_now (dw_event w) db1
               in Ok (Recorded event_id (h_state (dw_health w)) (h_cooldown_until (dw_health w)), db2)))))"

section \<open>Reading at the store boundary\<close>

definition list_authoritative_deployments ::
  "'a chrono_scheme \<Rightarrow> 'b row_codec_scheme \<Rightarrow> catalog_db \<Rightarrow> string \<Rightarrow>
     (authoritative_deployment list \<times> (string \<times> not_authoritative) list, catalog_error) result" where
  "list_authoritative_deployments ch rc db now =
     and_then (list_model_deployments rc db) (\<lambda>rows. Ok (partition_authoritative_at (chrono.truncate ch) rows now))"

definition replay_catalog_projection :: "codec \<Rightarrow> catalog_db \<Rightarrow> catalog_projection" where
  "replay_catalog_projection cx db = replay cx (db_deployment_events db)"

definition advance_catalog_projection :: "codec \<Rightarrow> catalog_db \<Rightarrow> catalog_projection \<Rightarrow> catalog_projection" where
  "advance_catalog_projection cx db p =
     extend_projection cx (list_model_deployment_events_after db (cp_last_event_id p)) p"

section \<open>Facts of the operations\<close>

lemma append_event_simps [simp]:
  "fst (append_model_deployment_event now e db) = db_deployment_event_seq db + 1"
  "db_deployments (snd (append_model_deployment_event now e db)) = db_deployments db"
  "db_health (snd (append_model_deployment_event now e db)) = db_health db"
  "db_snapshots (snd (append_model_deployment_event now e db)) = db_snapshots db"
  "db_aliases (snd (append_model_deployment_event now e db)) = db_aliases db"
  "db_bindings (snd (append_model_deployment_event now e db)) = db_bindings db"
  "db_alias_events (snd (append_model_deployment_event now e db)) = db_alias_events db"
  "db_alias_event_seq (snd (append_model_deployment_event now e db)) = db_alias_event_seq db"
  "db_deployment_event_seq (snd (append_model_deployment_event now e db)) = db_deployment_event_seq db + 1"
  by (simp_all add: append_model_deployment_event_def Let_def)

lemma row_to_deployment_revision: "row_to_deployment rc r = Ok d \<Longrightarrow> md_revision d = r_revision r \<and> md_status d = r_status r"
  by (auto simp: row_to_deployment_def split: option.splits)

lemma get_deployment_Some:
  "get_model_deployment rc db i = Ok (Some d) \<longleftrightarrow>
     (\<exists>r. map_of (db_deployments db) i = Some r \<and> row_to_deployment rc r = Ok d)"
  by (auto simp: get_model_deployment_def and_then_Inr_iff split: option.splits)

lemma get_deployment_None:
  "get_model_deployment rc db i = Ok None \<longleftrightarrow> map_of (db_deployments db) i = None"
  by (auto simp: get_model_deployment_def and_then_Inr_iff split: option.splits)

text \<open>The event a write appends, as it is stored.\<close>

definition stored_event :: "int \<Rightarrow> string \<Rightarrow> new_model_deployment_event \<Rightarrow> model_deployment_event" where
  "stored_event i now e =
     \<lparr> ev_id = i, ev_deployment_id = ne_deployment_id e, ev_revision = ne_revision e,
       ev_event_kind = ne_event_kind e, ev_plan_digest = ne_plan_digest e,
       ev_evidence = ne_evidence e, ev_created_at = now \<rparr>"

lemma append_event_events [simp]:
  "db_deployment_events (snd (append_model_deployment_event now e db))
     = db_deployment_events db @ [stored_event (db_deployment_event_seq db + 1) now e]"
  by (simp add: append_model_deployment_event_def stored_event_def Let_def)

text \<open>Each operation, as the table change and the event it makes.\<close>

inductive catalog_step :: "'a clock_scheme \<Rightarrow> 'b row_codec_scheme \<Rightarrow> catalog_db \<Rightarrow> catalog_db \<Rightarrow> bool"
  for clk :: "'a clock_scheme" and rc :: "'b row_codec_scheme" where
  upsert: "upsert_model_deployment rc now event_now d db = Ok (w, db') \<Longrightarrow> catalog_step clk rc db db'"
| retire: "retire_model_deployment rc now event_now i db = Ok (w', db') \<Longrightarrow> catalog_step clk rc db db'"
| outcome: "outcome_body clk rc event_now target x ev t db = Ok (hw, db') \<Longrightarrow> catalog_step clk rc db db'"
| sheet: "upsert_pricing_snapshot rc s db = (sw, db') \<Longrightarrow> catalog_step clk rc db db'"

inductive catalog_reach :: "'a clock_scheme \<Rightarrow> 'b row_codec_scheme \<Rightarrow> catalog_db \<Rightarrow> bool"
  for clk :: "'a clock_scheme" and rc :: "'b row_codec_scheme" where
  start: "catalog_reach clk rc empty_catalog"
| step: "catalog_reach clk rc db \<Longrightarrow> catalog_step clk rc db db' \<Longrightarrow> catalog_reach clk rc db'"

lemma upsert_cases:
  assumes "upsert_model_deployment rc now event_now d db = Ok (w, db')"
  obtains (import') ev where "map_of (db_deployments db) (nd_deployment_id d) = None" "w = DCreated 1 (db_deployment_event_seq db + 1)"
      "db' = snd (append_model_deployment_event event_now (with_evidence ev (new_deployment_event (nd_deployment_id d) 1 DeploymentImported))
          (db\<lparr> db_deployments := bt_insert (nd_deployment_id d) (inserted_row rc now d) (db_deployments db) \<rparr>))"
    | (same) r old where "map_of (db_deployments db) (nd_deployment_id d) = Some r" "row_to_deployment rc r = Ok old"
      "stored_content_digest (base_codec rc) old = new_content_digest (base_codec rc) d"
      "w = DUnchanged (r_revision r)"
      "db' = db\<lparr> db_deployments := update_row (nd_deployment_id d) (\<lambda>r. r\<lparr> r_fetched_at := nd_fetched_at d \<rparr>) (db_deployments db) \<rparr>"
    | (advance) r old ev where "map_of (db_deployments db) (nd_deployment_id d) = Some r" "row_to_deployment rc r = Ok old"
      "stored_content_digest (base_codec rc) old \<noteq> new_content_digest (base_codec rc) d"
      "w = DAdvanced (r_revision r + 1) (db_deployment_event_seq db + 1)"
      "db' = snd (append_model_deployment_event event_now
          (with_evidence ev (new_deployment_event (nd_deployment_id d) (r_revision r + 1) DeploymentUpdated))
          (db\<lparr> db_deployments := update_row (nd_deployment_id d) (updated_row rc now (r_revision r + 1) d) (db_deployments db) \<rparr>))"
proof -
  obtain existing where ex: "get_model_deployment rc db (nd_deployment_id d) = Ok existing"
    using assms by (auto simp: upsert_model_deployment_def and_then_Inr_iff)
  show ?thesis
  proof (cases existing)
    case None
    show ?thesis
      by (rule import') (use assms ex None in \<open>auto simp: upsert_model_deployment_def Let_def case_prod_unfold get_deployment_None\<close>)
  next
    case (Some old)
    then obtain r where r: "map_of (db_deployments db) (nd_deployment_id d) = Some r" "row_to_deployment rc r = Ok old"
      using ex by (auto simp: get_deployment_Some)
    note rev = row_to_deployment_revision [OF r(2)]
    show ?thesis
    proof (cases "stored_content_digest (base_codec rc) old = new_content_digest (base_codec rc) d")
      case True
      show ?thesis by (rule same [OF r True]) (use assms ex Some True rev in \<open>auto simp: upsert_model_deployment_def\<close>)
    next
      case False
      show ?thesis
        by (rule advance [OF r False]) (use assms ex Some False rev in \<open>auto simp: upsert_model_deployment_def Let_def case_prod_unfold\<close>)
    qed
  qed
qed

lemma retire_cases:
  assumes "retire_model_deployment rc now event_now i db = Ok (w, db')"
  obtains (none) "db' = db" "w = None \<or> (\<exists>n. w = Some (DUnchanged n))"
    | (retired) r where "map_of (db_deployments db) i = Some r"
      "w = Some (DAdvanced (r_revision r + 1) (db_deployment_event_seq db + 1))"
      "db' = snd (append_model_deployment_event event_now (new_deployment_event i (r_revision r + 1) DeploymentRetired)
          (db\<lparr> db_deployments := update_row i (\<lambda>r'. r'\<lparr> r_status := DEPLOYMENT_STATUS_RETIRED,
             r_revision := r_revision r + 1, r_updated_at := now \<rparr>) (db_deployments db) \<rparr>))"
proof -
  obtain existing where ex: "get_model_deployment rc db i = Ok existing"
    using assms by (auto simp: retire_model_deployment_def and_then_Inr_iff)
  show ?thesis
  proof (cases existing)
    case None
    show ?thesis by (rule none) (use assms ex None in \<open>auto simp: retire_model_deployment_def\<close>)
  next
    case (Some old)
    then obtain r where r: "map_of (db_deployments db) i = Some r" "row_to_deployment rc r = Ok old"
      using ex by (auto simp: get_deployment_Some)
    note rev = row_to_deployment_revision [OF r(2)]
    show ?thesis
    proof (cases "md_status old = DEPLOYMENT_STATUS_RETIRED")
      case True
      show ?thesis by (rule none) (use assms ex Some True in \<open>auto simp: retire_model_deployment_def\<close>)
    next
      case False
      show ?thesis by (rule retired [OF r(1)])
        (use assms ex Some False rev in \<open>auto simp: retire_model_deployment_def Let_def case_prod_unfold\<close>)
    qed
  qed
qed

definition row_of_health :: "model_deployment_health \<Rightarrow> health_row" where
  "row_of_health h =
     \<lparr> y_deployment_id = h_deployment_id h, y_state = h_state h, y_cooldown_until = h_cooldown_until h,
       y_last_success_at = h_last_success_at h, y_last_attempt_at = h_last_attempt_at h,
       y_last_error = h_last_error h, y_error_count = h_error_count h,
       y_evidence_kind = map_option evidence_kind_as_str (h_evidence_kind h),
       y_observed_at = h_observed_at h, y_metadata = h_metadata h, y_updated_at = h_updated_at h \<rparr>"

lemma upsert_health_eq:
  "upsert_model_deployment_health h db = db\<lparr> db_health := bt_insert (h_deployment_id h) (row_of_health h) (db_health db) \<rparr>"
  by (simp add: upsert_model_deployment_health_def row_of_health_def)

lemma upsert_health_simps [simp]:
  "db_deployment_event_seq (upsert_model_deployment_health h db) = db_deployment_event_seq db"
  "db_deployment_events (upsert_model_deployment_health h db) = db_deployment_events db"
  "db_deployments (upsert_model_deployment_health h db) = db_deployments db"
  "db_health (upsert_model_deployment_health h db) = bt_insert (h_deployment_id h) (row_of_health h) (db_health db)"
  by (simp_all add: upsert_health_eq)

lemma outcome_cases:
  assumes "outcome_body clk rc event_now target x ev now db = Ok (hw, db')"
  obtains (skipped) s where "hw = Skipped s" "db' = db"
    | (recorded) r d w where "map_of (db_deployments db) (tg_deployment_id target) = Some r"
      "row_to_deployment rc r = Ok d" "describes target d"
      "\<forall>e. get_model_deployment_health db (tg_deployment_id target) = Some e \<longrightarrow> \<not> is_stale_observation clk e now"
      "w = record_deployment_outcome clk (base_codec rc) (get_model_deployment_health db (tg_deployment_id target))
             (tg_deployment_id target) (r_revision r) x ev now"
      "hw = Recorded (db_deployment_event_seq db + 1) (h_state (dw_health w)) (h_cooldown_until (dw_health w))"
      "db' = snd (append_model_deployment_event event_now (dw_event w) (upsert_model_deployment_health (dw_health w) db))"
proof -
  let ?i = "tg_deployment_id target"
  obtain existing where ex: "get_model_deployment rc db ?i = Ok existing"
    using assms by (auto simp: outcome_body_def and_then_Inr_iff Let_def)
  show ?thesis
  proof (cases existing)
    case None
    show ?thesis by (rule skipped) (use assms ex None in \<open>auto simp: outcome_body_def\<close>)
  next
    case (Some d)
    then obtain r where r: "map_of (db_deployments db) ?i = Some r" "row_to_deployment rc r = Ok d"
      using ex by (auto simp: get_deployment_Some)
    note rev = row_to_deployment_revision [OF r(2)]
    let ?stale = "case get_model_deployment_health db ?i of Some e \<Rightarrow> is_stale_observation clk e now | None \<Rightarrow> False"
    note body = assms [unfolded outcome_body_def Let_def ex Some]
    show ?thesis
    proof (cases "describes target d \<and> \<not> ?stale")
      case True
      then have "\<forall>e. get_model_deployment_health db ?i = Some e \<longrightarrow> \<not> is_stale_observation clk e now"
        by (auto split: option.splits)
      then show ?thesis
        by (intro recorded [OF r(1) r(2) _ _ HOL.refl]) (use body True rev in \<open>auto simp: case_prod_unfold\<close>)
    next
      case False
      then have "\<exists>s. hw = Skipped s \<and> db' = db" using body by (auto split: if_splits)
      then show ?thesis using skipped by blast
    qed
  qed
qed


section \<open>The log accounts for the tables\<close>

text \<open>What the tables say about a deployment, and what the log says about it.\<close>

type_synonym audit = "int \<times> bool \<times> (string \<times> string option) option"

definition table_view :: "catalog_db \<Rightarrow> string \<Rightarrow> audit option" where
  "table_view db i = map_option (\<lambda>r. (r_revision r, True,
     map_option (\<lambda>y. (y_state y, y_cooldown_until y)) (map_of (db_health db) i))) (map_of (db_deployments db) i)"

definition fold_view :: "deployment_fold \<Rightarrow> audit" where
  "fold_view d = (df_revision d, df_imported d,
     map_option (\<lambda>h. (hf_state h, hf_cooldown_until h)) (df_health d))"

definition log_view :: "catalog_projection \<Rightarrow> string \<Rightarrow> audit option" where
  "log_view p i = map_option fold_view (projection_get p i)"

definition log_ok :: "catalog_db \<Rightarrow> bool" where
  "log_ok db \<longleftrightarrow> sorted_wrt (<) (map ev_id (db_deployment_events db))
     \<and> (\<forall>e\<in>set (db_deployment_events db). 0 < ev_id e \<and> ev_id e \<le> db_deployment_event_seq db)
     \<and> 0 \<le> db_deployment_event_seq db"

definition tables_ok :: "catalog_db \<Rightarrow> bool" where
  "tables_ok db \<longleftrightarrow> bt_wf (db_deployments db) \<and> bt_wf (db_health db) \<and> bt_wf (db_snapshots db)
     \<and> (\<forall>i. map_of (db_health db) i \<noteq> None \<longrightarrow> map_of (db_deployments db) i \<noteq> None)"

lemma log_ok_append: "log_ok db \<Longrightarrow> log_ok (snd (append_model_deployment_event now e db))"
  by (fastforce simp: log_ok_def sorted_wrt_append stored_event_def)

lemma log_view_append:
  assumes "log_ok db"
  shows "log_view (replay cx (db_deployment_events db @ [stored_event (db_deployment_event_seq db + 1) now e])) i =
    (if ne_deployment_id e = i
     then Some (fold_view (fold_event cx (stored_event (db_deployment_event_seq db + 1) now e)
       (case projection_get (replay cx (db_deployment_events db)) i of Some d \<Rightarrow> d | None \<Rightarrow> fresh_fold i)))
     else log_view (replay cx (db_deployment_events db)) i)"
proof -
  let ?e = "stored_event (db_deployment_event_seq db + 1) now e"
  have "taken (db_deployment_events db) = db_deployment_events db"
    using assms by (intro taken_ascending) (auto simp: log_ok_def)
  moreover have "taken (db_deployment_events db @ [?e]) = db_deployment_events db @ [?e]"
    using log_ok_append [OF assms, of now e] by (intro taken_ascending) (auto simp: log_ok_def)
  moreover have "ev_deployment_id ?e = ne_deployment_id e" by (simp add: stored_event_def)
  ultimately show ?thesis
    by (auto simp: log_view_def projection_get_replay own_def)
qed

text \<open>What each event does to the audit view of its deployment.\<close>

lemma fold_view_catalog:
  "fold_view (fold_event cx (stored_event n now (with_evidence ev (new_deployment_event i revision k))) d) =
     (case k of DeploymentImported \<Rightarrow> (revision, True, snd (snd (fold_view d)))
      | _ \<Rightarrow> (revision, df_imported d, snd (snd (fold_view d))))"
  if "\<not> is_health k"
  using that event_kind_wire.parse_spell [of k]
  by (cases k) (simp_all add: fold_view_def fold_event_def stored_event_def with_evidence_def
      new_deployment_event_def is_health_def Let_def del: event_kind_as_str.simps)

lemma fold_view_health:
  "kind_health_state (outcome_event_kind x) = Some s \<Longrightarrow>
   fold_view (fold_event cx (stored_event n now (with_evidence ev (new_deployment_event i revision (outcome_event_kind x)))) d) =
     (df_revision d, df_imported d, Some (s, evidence_cooldown_until cx ev))"
  using event_kind_wire.parse_spell [of "outcome_event_kind x"]
  by (cases "outcome_event_kind x") (simp_all add: fold_view_def fold_event_def stored_event_def with_evidence_def
      new_deployment_event_def Let_def del: event_kind_as_str.simps)

lemma evidence_reads_back:
  assumes "reads_printed cx"
  shows "evidence_cooldown_until cx (to_text cx (event_evidence h x ev secs t)) = h_cooldown_until h"
  using assms
  by (simp add: evidence_cooldown_until_def reads_printed_def event_evidence_def json_object_def map_of_bt_of_list
      opt_json_def split: option.split)

lemma fold_view_fresh [simp]: "fold_view (fresh_fold i) = (0, False, None)"
  by (simp add: fold_view_def fresh_fold_def)

lemma record_parts:
  assumes "w = record_deployment_outcome clk cx existing i revision x ev now"
  shows "h_deployment_id (dw_health w) = i" "h_state (dw_health w) = outcome_state x"
    "dw_event w = with_evidence (to_text cx (event_evidence (dw_health w) x ev
        (map_option (\<lambda>until. nat (max (num_seconds (until - now)) 0)) (outcome_cooldown_until x now))
        (to_rfc3339_millis clk now)))
      (new_deployment_event i revision (outcome_event_kind x))"
  by (auto simp: assms record_deployment_outcome_def Let_def new_deployment_health_def split: option.split)

lemma outcome_kind_state: "kind_health_state (outcome_event_kind x) = Some (outcome_state x)"
  by (cases x) simp_all

definition audit_ok :: "'b row_codec_scheme \<Rightarrow> catalog_db \<Rightarrow> bool" where
  "audit_ok rc db \<longleftrightarrow> tables_ok db \<and> log_ok db
     \<and> (\<forall>i. log_view (replay (base_codec rc) (db_deployment_events db)) i = table_view db i)"

lemma audit_get:
  assumes "audit_ok rc db"
  shows "map_of (db_deployments db) i = None \<Longrightarrow> projection_get (replay (base_codec rc) (db_deployment_events db)) i = None"
    "map_of (db_deployments db) i = Some r \<Longrightarrow>
      \<exists>d. projection_get (replay (base_codec rc) (db_deployment_events db)) i = Some d
        \<and> fold_view d = (r_revision r, True, map_option (\<lambda>y. (y_state y, y_cooldown_until y)) (map_of (db_health db) i))"
proof -
  have "map_option fold_view (projection_get (replay (base_codec rc) (db_deployment_events db)) i) = table_view db i"
    using assms by (simp add: audit_ok_def log_view_def)
  then show "map_of (db_deployments db) i = None \<Longrightarrow> projection_get (replay (base_codec rc) (db_deployment_events db)) i = None"
    "map_of (db_deployments db) i = Some r \<Longrightarrow>
      \<exists>d. projection_get (replay (base_codec rc) (db_deployment_events db)) i = Some d
        \<and> fold_view d = (r_revision r, True, map_option (\<lambda>y. (y_state y, y_cooldown_until y)) (map_of (db_health db) i))"
    by (auto simp: table_view_def)
qed

lemma event_deployment [simp]: "ne_deployment_id (with_evidence ev (new_deployment_event i revision k)) = i"
  by (simp add: with_evidence_def new_deployment_event_def)

lemma audit_ok_append:
  assumes "audit_ok rc db" "tables_ok db1"
    and "db_deployment_events db1 = db_deployment_events db" "db_deployment_event_seq db1 = db_deployment_event_seq db"
    and "\<And>j. j \<noteq> ne_deployment_id e \<Longrightarrow> table_view db1 j = table_view db j"
    and "table_view db1 (ne_deployment_id e) = Some (fold_view (fold_event (base_codec rc)
       (stored_event (db_deployment_event_seq db + 1) now e)
       (case projection_get (replay (base_codec rc) (db_deployment_events db)) (ne_deployment_id e) of
          Some d \<Rightarrow> d | None \<Rightarrow> fresh_fold (ne_deployment_id e))))"
  shows "audit_ok rc (snd (append_model_deployment_event now e db1))"
proof -
  have "log_ok db" "log_ok db1" using assms(1,3,4) by (auto simp: audit_ok_def log_ok_def)
  moreover have "table_view (snd (append_model_deployment_event now e db1)) = table_view db1"
    by (simp add: table_view_def fun_eq_iff)
  moreover have "tables_ok (snd (append_model_deployment_event now e db1))"
    using assms(2) by (simp add: tables_ok_def)
  ultimately show ?thesis
    using assms log_ok_append [of db1 now e] log_view_append [of db "base_codec rc" now e]
    by (auto simp: audit_ok_def)
qed

lemma audit_ok_upsert:
  assumes "audit_ok rc db" "upsert_model_deployment rc now event_now d db = Ok (w, db')"
  shows "audit_ok rc db'"
proof -
  note ok = assms(1) [unfolded audit_ok_def]
  let ?i = "nd_deployment_id d"
  from assms(2) show ?thesis
  proof (cases rule: upsert_cases)
    case (import' ev)
    have "map_of (db_health db) ?i = None" using ok import'(1) by (auto simp: tables_ok_def)
    then show ?thesis unfolding import'(3)
      using ok import'(1) audit_get(1) [OF assms(1) import'(1)]
      by (intro audit_ok_append [OF assms(1)])
        (auto simp: tables_ok_def bt_simps table_view_def inserted_row_def
          fold_view_catalog is_health_def)
  next
    case (same r old)
    then show ?thesis using ok
      by (auto simp: audit_ok_def tables_ok_def table_view_def log_ok_def fun_eq_iff)
  next
    case (advance r old ev)
    obtain f where f: "projection_get (replay (base_codec rc) (db_deployment_events db)) ?i = Some f"
      "fold_view f = (r_revision r, True, map_option (\<lambda>y. (y_state y, y_cooldown_until y)) (map_of (db_health db) ?i))"
      using audit_get(2) [OF assms(1) advance(1)] by blast
    have f': "df_imported f" using f(2) by (simp add: fold_view_def)
    show ?thesis unfolding advance(5)
      using ok advance(1) f f'
      by (intro audit_ok_append [OF assms(1)])
        (auto simp: tables_ok_def table_view_def updated_row_def
          fold_view_catalog is_health_def)
  qed
qed

lemma audit_ok_retire:
  assumes "audit_ok rc db" "retire_model_deployment rc now event_now i db = Ok (w, db')"
  shows "audit_ok rc db'"
proof -
  note ok = assms(1) [unfolded audit_ok_def]
  from assms(2) show ?thesis
  proof (cases rule: retire_cases)
    case none
    then show ?thesis using assms(1) by simp
  next
    case (retired r)
    obtain f where f: "projection_get (replay (base_codec rc) (db_deployment_events db)) i = Some f"
      "fold_view f = (r_revision r, True, map_option (\<lambda>y. (y_state y, y_cooldown_until y)) (map_of (db_health db) i))"
      using audit_get(2) [OF assms(1) retired(1)] by blast
    have f': "df_imported f" using f(2) by (simp add: fold_view_def)
    have plain: "new_deployment_event i n DeploymentRetired = with_evidence ''{}'' (new_deployment_event i n DeploymentRetired)" for n
      by (simp add: new_deployment_event_def with_evidence_def)
    show ?thesis unfolding retired(3)
      using ok retired(1) f f'
      by (subst plain, intro audit_ok_append [OF assms(1)])
        (auto simp: tables_ok_def table_view_def
          fold_view_catalog is_health_def)
  qed
qed

lemma audit_ok_outcome:
  assumes "audit_ok rc db" "reads_printed rc" "outcome_body clk rc event_now target x ev now db = Ok (hw, db')"
  shows "audit_ok rc db'"
  using assms(3)
proof (cases rule: outcome_cases)
  case skipped
  then show ?thesis using assms(1) by simp
next
  case (recorded r d w)
  note ok = assms(1) [unfolded audit_ok_def]
  let ?i = "tg_deployment_id target"
  obtain f where f: "projection_get (replay (base_codec rc) (db_deployment_events db)) ?i = Some f"
    "fold_view f = (r_revision r, True, map_option (\<lambda>y. (y_state y, y_cooldown_until y)) (map_of (db_health db) ?i))"
    using audit_get(2) [OF assms(1) recorded(1)] by blast
  have f': "df_imported f" "df_revision f = r_revision r" using f(2) by (simp_all add: fold_view_def)
  have printed: "reads_printed (base_codec rc)" "to_text (base_codec rc) = to_text rc"
    using assms(2) by (simp_all add: reads_printed_def codec.truncate_def)
  note parts = record_parts [OF recorded(5)]
  have id: "ne_deployment_id (dw_event w) = ?i" by (simp add: parts(3))
  have after: "fold_view (fold_event (base_codec rc) (stored_event n t (dw_event w)) f)
      = (r_revision r, True, Some (h_state (dw_health w), h_cooldown_until (dw_health w)))" for n t
    unfolding parts(3)
    by (simp add: fold_view_health [OF outcome_kind_state] evidence_reads_back [OF printed(1)] f' parts(2))
  show ?thesis unfolding recorded(7)
    using ok recorded(1) f after
    by (intro audit_ok_append [OF assms(1)])
      (auto simp: tables_ok_def bt_simps table_view_def id parts(1) row_of_health_def upsert_health_eq)
qed

lemma audit_ok_sheet:
  "audit_ok rc db \<Longrightarrow> upsert_pricing_snapshot rc s db = (sw, db') \<Longrightarrow> audit_ok rc db'"
  by (auto simp: upsert_pricing_snapshot_def audit_ok_def tables_ok_def table_view_def log_ok_def bt_simps
      split: if_splits)

lemma audit_ok_empty: "audit_ok rc empty_catalog"
  by (simp add: audit_ok_def tables_ok_def log_ok_def table_view_def log_view_def empty_catalog_def
      replay_def projection_empty_def projection_get_def)

lemma audit_ok_step: "audit_ok rc db \<Longrightarrow> reads_printed rc \<Longrightarrow> catalog_step clk rc db db' \<Longrightarrow> audit_ok rc db'"
  by (erule catalog_step.cases) (blast intro: audit_ok_upsert audit_ok_retire audit_ok_outcome audit_ok_sheet)+

lemma audit_ok_reach: "catalog_reach clk rc db \<Longrightarrow> reads_printed rc \<Longrightarrow> audit_ok rc db"
  by (induction rule: catalog_reach.induct) (auto intro: audit_ok_empty audit_ok_step)

lemma step_extends_log:
  assumes "catalog_step clk rc db db'"
  shows "\<exists>new. db_deployment_events db' = db_deployment_events db @ new"
  using assms
proof cases
  case (upsert now event_now d w)
  then show ?thesis by (cases rule: upsert_cases) auto
next
  case (retire now event_now i w)
  then show ?thesis by (cases rule: retire_cases) auto
next
  case (outcome event_now target x ev t hw)
  then show ?thesis by (cases rule: outcome_cases) auto
next
  case (sheet s sw)
  then show ?thesis by (auto simp: upsert_pricing_snapshot_def split: if_splits)
qed

lemma run_extends_log:
  "(catalog_step clk rc)\<^sup>*\<^sup>* db db' \<Longrightarrow> \<exists>new. db_deployment_events db' = db_deployment_events db @ new"
  by (induction rule: rtranclp_induct) (auto dest: step_extends_log)

lemma advance_replay:
  assumes "log_ok db'" "db_deployment_events db' = db_deployment_events db @ new"
  shows "advance_catalog_projection cx db' (replay_catalog_projection cx db) = replay_catalog_projection cx db'"
proof -
  let ?old = "db_deployment_events db" and ?mark = "cp_last_event_id (replay cx (db_deployment_events db))"
  have srt: "sorted_wrt (<) (map ev_id (?old @ new))" and pos: "\<forall>e\<in>set (?old @ new). 0 < ev_id e"
    using assms by (auto simp: log_ok_def)
  have "\<forall>e\<in>set ?old. ev_id e \<le> ?mark"
    by (simp add: replay_take_in projection.mark_take_in_ge)
  moreover have "?mark < ev_id e" if "e \<in> set new" for e
  proof -
    have "?mark \<le> ev_id e - 1" unfolding replay_take_in
      using that srt pos by (intro projection.mark_take_in_le) (fastforce simp: projection_empty_def sorted_wrt_append)+
    then show ?thesis by simp
  qed
  ultimately have "list_model_deployment_events_after db' ?mark = new"
    using assms(2) by (auto simp: list_model_deployment_events_after_def filter_id_conv filter_empty_conv)
  moreover have "projection.take_in cx new (projection.take_in cx ?old projection_empty) = projection.take_in cx (?old @ new) projection_empty"
  proof (rule projection.take_in_next)
    have "inj_on ev_id (set (?old @ new))" using srt by (simp only: strict_sorted_iff distinct_map)
    then show "inj_on ev_id (set ?old \<union> set new)" by simp
    show "\<forall>e\<in>set ?old. \<forall>e'\<in>set new. ev_id e' < ev_id e \<longrightarrow> e' \<in> set ?old"
      using srt by (auto simp: sorted_wrt_append sorted_wrt_map dest: less_asym)
  qed
  ultimately show ?thesis
    by (simp add: advance_catalog_projection_def replay_catalog_projection_def extend_take_in replay_take_in assms(2))
qed

text \<open>
  C15: The log accounts for the tables. In every catalog reached by imports, retirements,
  health outcomes and price sheets, replaying the event log from empty gives back, for every
  deployment, the revision of its row and the state and cooldown of its health row, and
  says of exactly the deployments with a row that they were imported. A reader that advances
  the projection it made earlier in the run gets the projection of the whole log.
\<close>

theorem log_accounts_for_tables:
  assumes "catalog_reach clk rc db" "(catalog_step clk rc)\<^sup>*\<^sup>* db db'" "reads_printed rc"
  shows "log_view (replay_catalog_projection (base_codec rc) db) i = table_view db i
    \<and> advance_catalog_projection (base_codec rc) db' (replay_catalog_projection (base_codec rc) db)
       = replay_catalog_projection (base_codec rc) db'"
proof -
  have "catalog_reach clk rc db'"
    using assms(2,1) by (induction rule: rtranclp_induct) (auto intro: catalog_reach.step)
  then have "log_ok db'" using audit_ok_reach assms(3) by (auto simp: audit_ok_def)
  then show ?thesis
    using audit_ok_reach [OF assms(1,3)] run_extends_log [OF assms(2)] advance_replay
    by (auto simp: audit_ok_def replay_catalog_projection_def)
qed

section \<open>Re-importing\<close>

text \<open>What is asked of the derived serializers: a printed struct reads back.\<close>

definition columns_read_back :: "'a row_codec_scheme \<Rightarrow> bool" where
  "columns_read_back rc \<longleftrightarrow>
     (\<forall>c. caps_from_text rc (caps_to_text rc c) = Some c)
   \<and> (\<forall>b. bounds_from_text rc (bounds_to_text rc b) = Some b)
   \<and> (\<forall>s. refs_from_text rc (refs_to_text rc s) = Some s)"

definition stored_row :: "new_model_deployment \<Rightarrow> int \<Rightarrow> string \<Rightarrow> string \<Rightarrow> model_deployment" where
  "stored_row d revision created updated =
     \<lparr> md_deployment_id = nd_deployment_id d, md_provider_account_id = nd_provider_account_id d,
       md_endpoint_ref = nd_endpoint_ref d, md_protocol_kind = nd_protocol_kind d,
       md_provider_model_id = nd_provider_model_id d, md_effective_version = nd_effective_version d,
       md_capabilities = nd_capabilities d, md_context_window = nd_context_window d,
       md_max_output = nd_max_output d, md_attachment_bounds = nd_attachment_bounds d,
       md_region = nd_region d, md_data_policy = nd_data_policy d,
       md_pricing_snapshot_ref = nd_pricing_snapshot_ref d, md_catalog_source = nd_catalog_source d,
       md_fetched_at = nd_fetched_at d, md_effective_at = nd_effective_at d,
       md_expires_at = nd_expires_at d, md_status = nd_status d, md_revision = revision,
       md_source_refs = nd_source_refs d, md_created_at = created, md_updated_at = updated \<rparr>"

lemma stored_row_digest: "stored_content_digest cx (stored_row d n c u) = new_content_digest cx d"
  by (simp add: stored_content_digest_def new_content_digest_def identity_payload_def stored_row_def)

lemma digest_ignores_fetch:
  "new_content_digest cx (d\<lparr> nd_fetched_at := f \<rparr>) = new_content_digest cx d"
  by (simp add: new_content_digest_def identity_payload_def)

lemma inserted_row_reads_back:
  "columns_read_back rc \<Longrightarrow> row_to_deployment rc (inserted_row rc now d) = Ok (stored_row d 1 now now)"
  by (simp add: row_to_deployment_def inserted_row_def columns_read_back_def stored_row_def
      protocol_wire.parse_spell source_wire.parse_spell)

lemma updated_row_reads_back:
  "columns_read_back rc \<Longrightarrow> r_deployment_id r = nd_deployment_id d \<Longrightarrow>
     row_to_deployment rc (updated_row rc now n d r) = Ok (stored_row d n (r_created_at r) now)"
  by (simp add: row_to_deployment_def updated_row_def inserted_row_def columns_read_back_def stored_row_def
      protocol_wire.parse_spell source_wire.parse_spell)

lemma fetched_row_reads:
  "row_to_deployment rc (r\<lparr> r_fetched_at := f \<rparr>) = and_then (row_to_deployment rc r) (\<lambda>m. Ok (m\<lparr> md_fetched_at := f \<rparr>))"
  by (auto simp: row_to_deployment_def split: option.split)

lemma digest_ignores_fetched_row: "stored_content_digest cx (m\<lparr> md_fetched_at := f \<rparr>) = stored_content_digest cx m"
  by (simp add: stored_content_digest_def)

text \<open>After an import the stored row reads as what was imported.\<close>

lemma upsert_stores:
  assumes "upsert_model_deployment rc now event_now d db = Ok (w, db')" "columns_read_back rc" "bt_wf (db_deployments db)"
    and "\<And>r. map_of (db_deployments db) (nd_deployment_id d) = Some r \<Longrightarrow> r_deployment_id r = nd_deployment_id d"
  shows "\<exists>m. get_model_deployment rc db' (nd_deployment_id d) = Ok (Some m)
     \<and> stored_content_digest (base_codec rc) m = new_content_digest (base_codec rc) d
     \<and> md_revision m = write_revision w \<and> md_fetched_at m = nd_fetched_at d"
  using assms(1)
proof (cases rule: upsert_cases)
  case (import' ev)
  then show ?thesis using inserted_row_reads_back [OF assms(2), of now d] assms(3)
    by (intro exI [of _ "stored_row d 1 now now"])
      (simp add: get_deployment_Some bt_simps stored_row_digest, simp add: stored_row_def)
next
  case (same r old)
  then show ?thesis using row_to_deployment_revision [OF same(2)]
    by (intro exI [of _ "old\<lparr> md_fetched_at := nd_fetched_at d \<rparr>"])
      (simp add: get_deployment_Some fetched_row_reads digest_ignores_fetched_row)
next
  case (advance r old ev)
  then show ?thesis using updated_row_reads_back [OF assms(2) assms(4) [OF advance(1)], of now "r_revision r + 1"]
    by (intro exI [of _ "stored_row d (r_revision r + 1) (r_created_at r) now"])
      (simp add: get_deployment_Some stored_row_digest, simp add: stored_row_def)
qed

text \<open>
  Re-importing what was just imported is a confirmation. After any successful import of
  a description, importing it again, whatever the clock says and however much later it was
  fetched, reports \<open>Unchanged\<close> at the same revision, appends no event and writes nothing but
  the row's \<open>fetched_at\<close>.
\<close>

lemma reimport_confirms:
  assumes "upsert_model_deployment rc now event_now d db = Ok (w, db')" "columns_read_back rc"
    and "tables_ok db" "\<forall>(i, r)\<in>set (db_deployments db). r_deployment_id r = i"
  shows "upsert_model_deployment rc now2 event_now2 (d\<lparr> nd_fetched_at := f \<rparr>) db'
     = Ok (DUnchanged (write_revision w), db'\<lparr> db_deployments :=
         update_row (nd_deployment_id d) (\<lambda>r. r\<lparr> r_fetched_at := f \<rparr>) (db_deployments db') \<rparr>)"
proof -
  have "bt_wf (db_deployments db)" using assms(3) by (simp add: tables_ok_def)
  moreover have "r_deployment_id r = nd_deployment_id d"
    if "map_of (db_deployments db) (nd_deployment_id d) = Some r" for r
    using map_of_SomeD [OF that] assms(4) by auto
  ultimately obtain m where "get_model_deployment rc db' (nd_deployment_id d) = Ok (Some m)"
    "stored_content_digest (base_codec rc) m = new_content_digest (base_codec rc) d" "md_revision m = write_revision w"
    using upsert_stores [OF assms(1,2)] by blast
  then show ?thesis by (simp add: upsert_model_deployment_def digest_ignores_fetch)
qed

section \<open>Price sheets in the store\<close>

lemma sheets_kept:
  assumes "catalog_step clk rc db db'" "map_of (db_snapshots db) i = Some z" "bt_wf (db_snapshots db)"
  shows "map_of (db_snapshots db') i = Some z \<and> bt_wf (db_snapshots db')"
  using assms(1)
proof cases
  case (upsert now event_now d w)
  then show ?thesis using assms by (cases rule: upsert_cases) auto
next
  case (retire now event_now i w)
  then show ?thesis using assms by (cases rule: retire_cases) auto
next
  case (outcome event_now target x ev t hw)
  then show ?thesis using assms by (cases rule: outcome_cases) (auto simp: upsert_health_eq)
next
  case (sheet s sw)
  then show ?thesis using assms(2,3) by (auto simp: upsert_pricing_snapshot_def bt_simps split: if_splits)
qed

lemma sheets_kept_run:
  "(catalog_step clk rc)\<^sup>*\<^sup>* db db' \<Longrightarrow> map_of (db_snapshots db) i = Some z \<Longrightarrow> bt_wf (db_snapshots db) \<Longrightarrow>
     map_of (db_snapshots db') i = Some z"
proof -
  assume run: "(catalog_step clk rc)\<^sup>*\<^sup>* db db'" and z: "map_of (db_snapshots db) i = Some z" "bt_wf (db_snapshots db)"
  from run have "map_of (db_snapshots db') i = Some z \<and> bt_wf (db_snapshots db')"
    by (induction rule: rtranclp_induct) (use z sheets_kept in blast)+
  then show ?thesis by simp
qed

text \<open>
  A price sheet is never rewritten under its id. When a minted sheet is stored for the
  first time, then after any later imports, retirements, health outcomes and sheet writes,
  colliding ones included, it reads back exactly as minted; and whatever a stored row of the
  table holds, reading it back answers a sheet only under the digest of its own prices.
\<close>

lemma price_sheet_immutable:
  assumes "tables_ok db" "reads_printed rc" "map_of (db_snapshots db) (ps_snapshot_id s) = None"
    and "s = mint_snapshot (base_codec rc) k d source t" "upsert_pricing_snapshot rc s db = (w, db1)"
    and "(catalog_step clk rc)\<^sup>*\<^sup>* db1 db2"
  shows "w = SnapshotCreated \<and> get_pricing_snapshot rc db2 (ps_snapshot_id s) = Ok (Some s)
    \<and> (\<forall>i s'. get_pricing_snapshot rc db3 i = Ok (Some s') \<longrightarrow>
         ps_snapshot_id s' = compute_snapshot_id (base_codec rc) (ps_provider_kind s') (ps_pricing_data s'))"
proof -
  let ?z = "\<lparr> z_snapshot_id = ps_snapshot_id s, z_provider_kind = ps_provider_kind s,
      z_pricing_data = to_text rc (ps_pricing_data s), z_catalog_source = map_option source_as_str (ps_catalog_source s),
      z_fetched_at = ps_fetched_at s, z_created_at = ps_created_at s \<rparr>"
  have wf: "bt_wf (db_snapshots db)" using assms(1) by (simp add: tables_ok_def)
  have db1: "w = SnapshotCreated" "db_snapshots db1 = bt_insert (ps_snapshot_id s) ?z (db_snapshots db)"
    using assms(3,5) by (auto simp: upsert_pricing_snapshot_def)
  then have "map_of (db_snapshots db2) (ps_snapshot_id s) = Some ?z"
    using wf by (intro sheets_kept_run [OF assms(6)]) (simp_all add: bt_simps)
  moreover have "(case map_option source_as_str source of None \<Rightarrow> Ok None
     | Some raw \<Rightarrow> (case source_parse raw of Some s \<Rightarrow> Ok (Some s) | None \<Rightarrow> Err (SnapshotUnknownSource i raw))) = Ok source" for i
    by (cases source) (simp_all add: source_wire.parse_spell)
  ultimately have "get_pricing_snapshot rc db2 (ps_snapshot_id s) = Ok (Some s)"
    using assms(2,4)
    by (simp add: get_pricing_snapshot_def reads_printed_def mint_snapshot_def snapshot_from_stored_def)
  then show ?thesis using db1(1)
    by (auto simp: get_pricing_snapshot_def and_then_Inr_iff snapshot_from_stored_iff split: option.splits)
qed

section \<open>Witnesses\<close>

text \<open>A codec with the derived serializers, on the tagged texts.\<close>

fun read_int :: "json \<Rightarrow> int option" where
  "read_int (JNumber (PosInt n)) = Some (int n)"
| "read_int (JNumber (NegInt i)) = Some i"
| "read_int _ = None"

fun read_word :: "json \<Rightarrow> 32 word option" where
  "read_word (JNumber (PosInt n)) = Some (of_nat n)"
| "read_word _ = None"

fun read_str :: "json \<Rightarrow> string option" where
  "read_str (JString s) = Some s"
| "read_str _ = None"

fun read_strs :: "json list \<Rightarrow> string list option" where
  "read_strs [] = Some []"
| "read_strs (v # vs) = Option.bind (read_str v) (\<lambda>s. map_option ((#) s) (read_strs vs))"

fun flag :: "json list \<Rightarrow> nat \<Rightarrow> bool" where
  "flag [] n = False"
| "flag (v # vs) 0 = (v = JBool True)"
| "flag (v # vs) (Suc n) = flag vs n"

definition caps_of_json :: "json \<Rightarrow> catalog_capabilities option" where
  "caps_of_json v = (case v of JArray (x # fs) \<Rightarrow> Some
     \<lparr> cc_chat = flag fs 0, cc_tools = flag fs 1, cc_streaming = flag fs 2, cc_structured_output = flag fs 3,
       cc_media = flag fs 4, cc_rerank = flag fs 5,
       cc_embeddings = map_option (\<lambda>n. \<lparr> em_dimension = n \<rparr>) (read_word x) \<rparr> | _ \<Rightarrow> None)"

definition bounds_of_json :: "json \<Rightarrow> attachment_bounds option" where
  "bounds_of_json v = (case v of JArray (a # b # types) \<Rightarrow> map_option (\<lambda>s.
     \<lparr> at_max_attachment_bytes = read_int a, at_max_attachment_count = read_word b,
       at_accepted_media_types = s \<rparr>) (read_strs types) | _ \<Rightarrow> None)"

fun refs_of_json :: "json \<Rightarrow> string list option" where
  "refs_of_json (JArray vs) = read_strs vs"
| "refs_of_json _ = None"

definition demo_row_codec :: row_codec where
  "demo_row_codec = codec.extend tagged_codec
     \<lparr> caps_to_text = (\<lambda>c. write_json (JArray (opt_json (\<lambda>e. JNumber (PosInt (unat (em_dimension e)))) (cc_embeddings c)
           # map JBool [cc_chat c, cc_tools c, cc_streaming c, cc_structured_output c, cc_media c, cc_rerank c]))),
       caps_from_text = (\<lambda>s. Option.bind (tagged_read s) caps_of_json),
       bounds_to_text = (\<lambda>b. write_json (JArray
           (opt_json int_json (at_max_attachment_bytes b)
            # opt_json (\<lambda>n. JNumber (PosInt (unat n))) (at_max_attachment_count b)
            # map JString (at_accepted_media_types b)))),
       bounds_from_text = (\<lambda>s. Option.bind (tagged_read s) bounds_of_json),
       refs_to_text = (\<lambda>r. write_json (JArray (map JString r))),
       refs_from_text = (\<lambda>s. Option.bind (tagged_read s) refs_of_json) \<rparr>"

lemma tagged_read_write [simp]: "tagged_read (write_json v) = Some v"
  using reads_printed_tagged by (simp add: reads_printed_def tagged_codec_def)

lemma read_strs_map [simp]: "read_strs (map JString s) = Some s"
  by (induction s) simp_all

lemma read_int_opt [simp]: "read_int (opt_json int_json x) = x"
  by (cases x) (simp_all add: opt_json_def int_json_def)

lemma read_word_opt [simp]: "read_word (opt_json (\<lambda>n. JNumber (PosInt (unat (f n)))) x) = map_option f x"
  by (cases x) (simp_all add: opt_json_def)

lemma demo_row_codec_laws: "reads_printed demo_row_codec" "columns_read_back demo_row_codec"
proof -
  show "reads_printed demo_row_codec"
    using reads_printed_tagged by (simp add: reads_printed_def demo_row_codec_def codec.defs)
  have "map_option (\<lambda>e. \<lparr> em_dimension = em_dimension e \<rparr>) x = x" for x :: "embeddings_capability option"
    by (cases x) simp_all
  then show "columns_read_back demo_row_codec"
    by (simp add: columns_read_back_def demo_row_codec_def codec.defs caps_of_json_def bounds_of_json_def
        comp_def option.map_comp option.map_ident numeral_eq_Suc del: write_json.simps)
qed

definition demo_new_deployment :: new_model_deployment where
  "demo_new_deployment = with_expires_at ''2000'' (with_endpoint_ref ''u''
     (observed_deployment ''d'' ''acct'' OpenAiChatCompletions ''m'' Env ''1000''))"

definition demo_catalog :: catalog_db where
  "demo_catalog = snd (projr (upsert_model_deployment demo_row_codec ''1000'' ''1000'' demo_new_deployment empty_catalog))"

lemma demo_import:
  "upsert_model_deployment demo_row_codec ''1000'' ''1000'' demo_new_deployment empty_catalog = Ok (DCreated 1 1, demo_catalog)"
  by (simp add: demo_catalog_def upsert_model_deployment_def get_model_deployment_def empty_catalog_def
      append_model_deployment_event_def Let_def)

lemma reimport_confirms_witness:
  "upsert_model_deployment demo_row_codec ''1001'' ''1001'' (demo_new_deployment\<lparr> nd_fetched_at := ''1001'' \<rparr>) demo_catalog
     = Ok (DUnchanged 1, demo_catalog\<lparr> db_deployments :=
         update_row ''d'' (\<lambda>r. r\<lparr> r_fetched_at := ''1001'' \<rparr>) (db_deployments demo_catalog) \<rparr>)"
proof -
  have "nd_deployment_id demo_new_deployment = ''d''"
    by (simp add: demo_new_deployment_def observed_deployment_def with_endpoint_ref_def with_expires_at_def)
  then show ?thesis
    using reimport_confirms [OF demo_import demo_row_codec_laws(2), of "''1001''" "''1001''" "''1001''"]
    by (simp add: empty_catalog_def tables_ok_def)
qed

text \<open>A throttle without a \<open>Retry-After\<close>, observed after the import.\<close>

definition throttled_catalog :: catalog_db where
  "throttled_catalog = snd (projr (outcome_body gregorian_clock demo_row_codec ''5'' (deployment_target ''d'')
     (Throttled None) EvidenceProbed 5000000000 demo_catalog))"

lemma demo_throttle:
  "\<exists>hw. outcome_body gregorian_clock demo_row_codec ''5'' (deployment_target ''d'')
     (Throttled None) EvidenceProbed 5000000000 demo_catalog = Ok (hw, throttled_catalog)"
proof -
  obtain m where "get_model_deployment demo_row_codec demo_catalog ''d'' = Ok (Some m)"
    using upsert_stores [OF demo_import demo_row_codec_laws(2)]
    by (auto simp: empty_catalog_def demo_new_deployment_def observed_deployment_def with_endpoint_ref_def with_expires_at_def)
  moreover have "get_model_deployment_health demo_catalog i = None" for i
    by (simp add: get_model_deployment_health_def demo_catalog_def upsert_model_deployment_def
        get_model_deployment_def empty_catalog_def append_model_deployment_event_def Let_def)
  ultimately show ?thesis
    by (simp add: throttled_catalog_def outcome_body_def deployment_target_def describes_def Let_def case_prod_unfold)
qed

theorem log_accounts_for_tables_witness:
  "log_view (replay_catalog_projection (base_codec demo_row_codec) demo_catalog) ''d'' = table_view demo_catalog ''d''
   \<and> advance_catalog_projection (base_codec demo_row_codec) throttled_catalog
       (replay_catalog_projection (base_codec demo_row_codec) demo_catalog)
     = replay_catalog_projection (base_codec demo_row_codec) throttled_catalog"
proof (rule log_accounts_for_tables [of gregorian_clock])
  have "catalog_step gregorian_clock demo_row_codec empty_catalog demo_catalog"
    using demo_import by (rule catalog_step.upsert)
  then show "catalog_reach gregorian_clock demo_row_codec demo_catalog"
    by (rule catalog_reach.step [OF catalog_reach.start])
  show "(catalog_step gregorian_clock demo_row_codec)\<^sup>*\<^sup>* demo_catalog throttled_catalog"
    using demo_throttle catalog_step.outcome by blast
  show "reads_printed demo_row_codec" by (rule demo_row_codec_laws)
qed

definition demo_sheet :: pricing_snapshot where
  "demo_sheet = mint_snapshot (base_codec demo_row_codec) ''deepseek'' (JString ''0.14'') (Some Manual) ''1''"

lemma price_sheet_immutable_witness:
  "get_pricing_snapshot demo_row_codec (snd (upsert_pricing_snapshot demo_row_codec demo_sheet demo_catalog))
     (ps_snapshot_id demo_sheet) = Ok (Some demo_sheet)"
proof -
  have "tables_ok demo_catalog"
    using audit_ok_upsert [OF audit_ok_empty demo_import] by (simp add: audit_ok_def)
  moreover have "map_of (db_snapshots demo_catalog) (ps_snapshot_id demo_sheet) = None"
    by (simp add: demo_catalog_def upsert_model_deployment_def get_model_deployment_def empty_catalog_def
        append_model_deployment_event_def Let_def)
  moreover obtain w db1 where "upsert_pricing_snapshot demo_row_codec demo_sheet demo_catalog = (w, db1)"
    by (cases "upsert_pricing_snapshot demo_row_codec demo_sheet demo_catalog")
  ultimately show ?thesis
    using price_sheet_immutable [OF _ demo_row_codec_laws(1) _ demo_sheet_def _ rtranclp.rtrancl_refl, of demo_catalog w db1]
    by simp
qed

end
