(* ===== verification/Broker_Float.thy ===== *)
theory Broker_Float
  imports Complex_Main
begin

text \<open>
  IEEE 754 binary64 as far as the model broker uses it (\<open>f64\<close> in budget ceilings and cost
  estimates): a finite value is the rational it denotes, with the two zeros identified, as
  they compare equal. Products, quotients and conversions are the exact result rounded to
  nearest, ties to even.
\<close>

datatype f64 = NaN | Infinity bool | Finite rat

text \<open>\<open>bit_length n\<close> is the number of binary digits of \<open>n\<close>.\<close>

fun bit_length :: "nat \<Rightarrow> nat" where
  "bit_length n = (if n = 0 then 0 else bit_length (n div 2) + 1)"

declare bit_length.simps [simp del]

definition pow2 :: "int \<Rightarrow> rat" where
  "pow2 e = (if 0 \<le> e then of_int (2 ^ nat e) else 1 / of_int (2 ^ nat (- e)))"

definition round_half_even :: "rat \<Rightarrow> int" where
  "round_half_even q =
     (let f = \<lfloor>q\<rfloor>; d = q - of_int f
      in if d < 1 / 2 then f else if d > 1 / 2 then f + 1 else if even f then f else f + 1)"

text \<open>The exponent \<open>e\<close> with \<open>2 ^ e \<le> q < 2 ^ (e + 1)\<close>, for a positive \<open>q\<close>.\<close>

definition exponent_of :: "rat \<Rightarrow> int" where
  "exponent_of q =
     (let (n, d) = quotient_of q;
          e = int (bit_length (nat n)) - int (bit_length (nat d))
      in if pow2 e \<le> q then e else e - 1)"

definition round_f64 :: "rat \<Rightarrow> f64" where
  "round_f64 q =
     (if q = 0 then Finite 0
      else let unit = pow2 (max (exponent_of \<bar>q\<bar> - 52) (- 1074));
               r = of_int (round_half_even (\<bar>q\<bar> / unit)) * unit
           in if r \<ge> pow2 1024 then Infinity (q > 0) else Finite (if q > 0 then r else - r))"

definition f64_mult :: "rat \<Rightarrow> rat \<Rightarrow> f64" where
  "f64_mult x y = round_f64 (x * y)"

definition f64_div :: "rat \<Rightarrow> rat \<Rightarrow> f64" where
  "f64_div x y = round_f64 (x / y)"

lemma round_half_even_near: "\<bar>of_int (round_half_even q) - q\<bar> \<le> 1 / 2"
proof -
  define f where "f = \<lfloor>q\<rfloor>"
  then have "of_int f \<le> q" "q < of_int f + 1" by linarith+
  then show ?thesis unfolding round_half_even_def Let_def abs_le_iff f_def [symmetric] by auto
qed

lemma round_half_even_int [simp]: "round_half_even (of_int i) = i"
  by (simp add: round_half_even_def)

lemma round_half_even_mono: "0 \<le> q \<Longrightarrow> 0 \<le> round_half_even q"
proof -
  assume "0 \<le> q"
  then have "0 \<le> \<lfloor>q\<rfloor>" by simp
  then show ?thesis by (simp add: round_half_even_def Let_def)
qed

end
