(* ===== verification/Broker_Seam.thy ===== *)
theory Broker_Seam
  imports Tachi_Prelude Broker_Float
begin

text \<open>
  The model broker's seam, \<open>crates/memcore/src/model_broker_seam.rs\<close> and its submodules:
  the closed vocabularies, the values with a validating constructor, the inputs of a
  resolution and its consistent outcome. A type with private fields is a datatype around the
  record of its parts; deserialization runs the same constructor, so the constructor is
  the only way in. The lemmas state what each constructor admits, and that every closed
  vocabulary is read back from its spelling.
\<close>

section \<open>Closed vocabularies\<close>

datatype wire_dialect = OpenAiCompat | Anthropic | Xai | OpenRouter | GenericCompat | Ollama | UnknownDialect

fun wire_dialect_as_str :: "wire_dialect \<Rightarrow> string" where
  "wire_dialect_as_str OpenAiCompat = ''openai_compat''"
| "wire_dialect_as_str Anthropic = ''anthropic''"
| "wire_dialect_as_str Xai = ''xai''"
| "wire_dialect_as_str OpenRouter = ''open_router''"
| "wire_dialect_as_str GenericCompat = ''generic_compat''"
| "wire_dialect_as_str Ollama = ''ollama''"
| "wire_dialect_as_str UnknownDialect = ''unknown''"

definition wire_dialect_parse :: "string \<Rightarrow> wire_dialect option" where
  "wire_dialect_parse = map_of
     [(''openai_compat'', OpenAiCompat), (''anthropic'', Anthropic), (''xai'', Xai),
      (''open_router'', OpenRouter), (''generic_compat'', GenericCompat), (''ollama'', Ollama),
      (''unknown'', UnknownDialect)]"

definition wire_dialect_ALL :: "wire_dialect list" where
  "wire_dialect_ALL = [OpenAiCompat, Anthropic, Xai, OpenRouter, GenericCompat, Ollama, UnknownDialect]"

datatype exclusion_reason =
    CapabilityMismatch | ContextWindowExceeded | MaxOutputExceeded | AttachmentBoundsExceeded
  | EmbeddingDimensionMismatch | RegionBlocked | DataPolicyBlocked | BudgetExceeded
  | HealthCooldown | StaleCatalog | AccountNotAdmitted | DeploymentInactive

fun exclusion_as_str :: "exclusion_reason \<Rightarrow> string" where
  "exclusion_as_str CapabilityMismatch = ''capability_mismatch''"
| "exclusion_as_str ContextWindowExceeded = ''context_window_exceeded''"
| "exclusion_as_str MaxOutputExceeded = ''max_output_exceeded''"
| "exclusion_as_str AttachmentBoundsExceeded = ''attachment_bounds_exceeded''"
| "exclusion_as_str EmbeddingDimensionMismatch = ''embedding_dimension_mismatch''"
| "exclusion_as_str RegionBlocked = ''region_blocked''"
| "exclusion_as_str DataPolicyBlocked = ''data_policy_blocked''"
| "exclusion_as_str BudgetExceeded = ''budget_exceeded''"
| "exclusion_as_str HealthCooldown = ''health_cooldown''"
| "exclusion_as_str StaleCatalog = ''stale_catalog''"
| "exclusion_as_str AccountNotAdmitted = ''account_not_admitted''"
| "exclusion_as_str DeploymentInactive = ''deployment_inactive''"

definition exclusion_parse :: "string \<Rightarrow> exclusion_reason option" where
  "exclusion_parse = map_of
     [(''capability_mismatch'', CapabilityMismatch), (''context_window_exceeded'', ContextWindowExceeded),
      (''max_output_exceeded'', MaxOutputExceeded), (''attachment_bounds_exceeded'', AttachmentBoundsExceeded),
      (''embedding_dimension_mismatch'', EmbeddingDimensionMismatch), (''region_blocked'', RegionBlocked),
      (''data_policy_blocked'', DataPolicyBlocked), (''budget_exceeded'', BudgetExceeded),
      (''health_cooldown'', HealthCooldown), (''stale_catalog'', StaleCatalog),
      (''account_not_admitted'', AccountNotAdmitted), (''deployment_inactive'', DeploymentInactive)]"

definition exclusion_ALL :: "exclusion_reason list" where
  "exclusion_ALL =
     [CapabilityMismatch, ContextWindowExceeded, MaxOutputExceeded, AttachmentBoundsExceeded,
      EmbeddingDimensionMismatch, RegionBlocked, DataPolicyBlocked, BudgetExceeded,
      HealthCooldown, StaleCatalog, AccountNotAdmitted, DeploymentInactive]"

datatype abstain_reason =
    EmptyCandidateSet | NoEligibleCandidate | UnknownAlias | AmbiguousAlias | PolicyRevisionMismatch

fun abstain_as_str :: "abstain_reason \<Rightarrow> string" where
  "abstain_as_str EmptyCandidateSet = ''empty_candidate_set''"
| "abstain_as_str NoEligibleCandidate = ''no_eligible_candidate''"
| "abstain_as_str UnknownAlias = ''unknown_alias''"
| "abstain_as_str AmbiguousAlias = ''ambiguous_alias''"
| "abstain_as_str PolicyRevisionMismatch = ''policy_revision_mismatch''"

definition abstain_parse :: "string \<Rightarrow> abstain_reason option" where
  "abstain_parse = map_of
     [(''empty_candidate_set'', EmptyCandidateSet), (''no_eligible_candidate'', NoEligibleCandidate),
      (''unknown_alias'', UnknownAlias), (''ambiguous_alias'', AmbiguousAlias),
      (''policy_revision_mismatch'', PolicyRevisionMismatch)]"

definition abstain_ALL :: "abstain_reason list" where
  "abstain_ALL = [EmptyCandidateSet, NoEligibleCandidate, UnknownAlias, AmbiguousAlias, PolicyRevisionMismatch]"

datatype observation_evidence = Probed | SelfReported

fun evidence_as_str :: "observation_evidence \<Rightarrow> string" where
  "evidence_as_str Probed = ''probed''"
| "evidence_as_str SelfReported = ''self_reported''"

definition evidence_parse :: "string \<Rightarrow> observation_evidence option" where
  "evidence_parse = map_of [(''probed'', Probed), (''self_reported'', SelfReported)]"

definition evidence_ALL :: "observation_evidence list" where
  "evidence_ALL = [Probed, SelfReported]"

datatype invocation_error = AuthInvalid | RateLimited | Timeout | ServerError | Protocol

fun invocation_error_as_str :: "invocation_error \<Rightarrow> string" where
  "invocation_error_as_str AuthInvalid = ''auth_invalid''"
| "invocation_error_as_str RateLimited = ''rate_limited''"
| "invocation_error_as_str Timeout = ''timeout''"
| "invocation_error_as_str ServerError = ''server_error''"
| "invocation_error_as_str Protocol = ''protocol''"

definition invocation_error_parse :: "string \<Rightarrow> invocation_error option" where
  "invocation_error_parse = map_of
     [(''auth_invalid'', AuthInvalid), (''rate_limited'', RateLimited), (''timeout'', Timeout),
      (''server_error'', ServerError), (''protocol'', Protocol)]"

definition invocation_error_ALL :: "invocation_error list" where
  "invocation_error_ALL = [AuthInvalid, RateLimited, Timeout, ServerError, Protocol]"

definition touches_deployment_health :: "invocation_error \<Rightarrow> bool" where
  "touches_deployment_health c \<longleftrightarrow> c \<noteq> AuthInvalid"

section \<open>Errors and the blank guard\<close>

definition FALLBACK_ORDER_CAP :: nat where
  "FALLBACK_ORDER_CAP = 4"

datatype seam_error =
    EmptyField string
  | FallbackOrderTooLong nat
  | ChosenNotEligible string
  | AccountRefMismatch
  | AbstainCarriesAccountRef
  | AbstainCarriesFallbackOrder
  | AbstainCarriesUnevaluatedCandidates abstain_reason
  | AbstainNoEligibleWithoutCandidates
  | AbstainNoEligibleWithEligibleCandidate string
  | FallbackEntryNotEligible string

definition require_non_empty :: "string \<Rightarrow> string \<Rightarrow> (unit, seam_error) result" where
  "require_non_empty v field = (if trim v = [] then Err (EmptyField field) else Ok ())"

section \<open>Validated values\<close>

record model_ref_parts =
  mr_reference :: string
  mr_policy_revision :: string

datatype model_ref = ModelRef (model_ref_parts: model_ref_parts)

definition model_ref_new :: "string \<Rightarrow> string \<Rightarrow> (model_ref, seam_error) result" where
  "model_ref_new ref policy_revision =
     and_then (require_non_empty ref ''reference'') (\<lambda>_.
     and_then (require_non_empty policy_revision ''policy_revision'') (\<lambda>_.
       Ok (ModelRef \<lparr> mr_reference = ref, mr_policy_revision = policy_revision \<rparr>)))"

definition reference :: "model_ref \<Rightarrow> string" where
  "reference m = mr_reference (model_ref_parts m)"

definition policy_revision :: "model_ref \<Rightarrow> string" where
  "policy_revision m = mr_policy_revision (model_ref_parts m)"

record capabilities =
  cap_chat :: bool
  cap_embeddings :: bool
  cap_tools :: bool
  cap_streaming :: bool
  cap_structured_output :: bool
  cap_media :: bool

record deployment_bounds =
  b_context_window :: "32 word option"
  b_max_output :: "32 word option"
  b_attachment_bytes :: "64 word option"
  b_embedding_dimensions :: "32 word option"

record deployment_parts =
  dp_deployment_id :: string
  dp_wire_dialect :: wire_dialect
  dp_endpoint_ref :: string
  dp_provider_model_id :: string
  dp_capabilities :: capabilities
  dp_bounds :: deployment_bounds
  dp_account_ref :: string
  dp_pricing_snapshot_ref :: "string option"

datatype resolved_deployment = ResolvedDeployment (into_parts: deployment_parts)

definition deployment_new :: "deployment_parts \<Rightarrow> (resolved_deployment, seam_error) result" where
  "deployment_new parts =
     and_then (require_non_empty (dp_deployment_id parts) ''deployment_id'') (\<lambda>_.
     and_then (require_non_empty (dp_endpoint_ref parts) ''endpoint_ref'') (\<lambda>_.
     and_then (require_non_empty (dp_provider_model_id parts) ''provider_model_id'') (\<lambda>_.
     and_then (require_non_empty (dp_account_ref parts) ''account_ref'') (\<lambda>_.
     and_then (case dp_pricing_snapshot_ref parts of
         Some price \<Rightarrow> require_non_empty price ''pricing_snapshot_ref'' | None \<Rightarrow> Ok ()) (\<lambda>_.
       Ok (ResolvedDeployment parts))))))"

definition deployment_id :: "resolved_deployment \<Rightarrow> string" where
  "deployment_id d = dp_deployment_id (into_parts d)"

definition account_ref :: "resolved_deployment \<Rightarrow> string" where
  "account_ref d = dp_account_ref (into_parts d)"

definition pricing_snapshot_ref :: "resolved_deployment \<Rightarrow> string option" where
  "pricing_snapshot_ref d = dp_pricing_snapshot_ref (into_parts d)"

record revision_parts =
  rv_catalog_revision :: string
  rv_health_observed_at :: string
  rv_policy_revision :: string

datatype resolution_revisions = ResolutionRevisions (revision_parts: revision_parts)

definition revisions_new :: "string \<Rightarrow> string \<Rightarrow> string \<Rightarrow> (resolution_revisions, seam_error) result" where
  "revisions_new catalog_revision health_observed_at policy_rev =
     and_then (require_non_empty catalog_revision ''catalog_revision'') (\<lambda>_.
     and_then (require_non_empty health_observed_at ''health_observed_at'') (\<lambda>_.
     and_then (require_non_empty policy_rev ''policy_revision'') (\<lambda>_.
       Ok (ResolutionRevisions \<lparr> rv_catalog_revision = catalog_revision,
         rv_health_observed_at = health_observed_at, rv_policy_revision = policy_rev \<rparr>))))"

datatype retry_after = RetrySeconds "64 word" | RetryAt string

record observation_parts =
  ob_account_ref :: string
  ob_deployment_id :: string
  ob_error_class :: invocation_error
  ob_retry_after :: "retry_after option"
  ob_observed_at :: string
  ob_evidence :: observation_evidence

datatype health_observation = HealthObservation (observation_parts: observation_parts)

definition observation_new ::
  "string \<Rightarrow> string \<Rightarrow> invocation_error \<Rightarrow> retry_after option \<Rightarrow> string \<Rightarrow> observation_evidence
   \<Rightarrow> (health_observation, seam_error) result" where
  "observation_new account deployment class retry observed_at evidence =
     and_then (require_non_empty account ''account_ref'') (\<lambda>_.
     and_then (require_non_empty deployment ''deployment_id'') (\<lambda>_.
     and_then (require_non_empty observed_at ''observed_at'') (\<lambda>_.
       Ok (HealthObservation \<lparr> ob_account_ref = account, ob_deployment_id = deployment,
         ob_error_class = class, ob_retry_after = retry, ob_observed_at = observed_at,
         ob_evidence = evidence \<rparr>))))"

section \<open>Outcomes\<close>

record candidate_evaluation =
  ce_deployment_id :: string
  ce_exclusion :: "exclusion_reason option"

definition eligible_candidate :: "string \<Rightarrow> candidate_evaluation" where
  "eligible_candidate i = \<lparr> ce_deployment_id = i, ce_exclusion = None \<rparr>"

definition excluded_candidate :: "string \<Rightarrow> exclusion_reason \<Rightarrow> candidate_evaluation" where
  "excluded_candidate i reason = \<lparr> ce_deployment_id = i, ce_exclusion = Some reason \<rparr>"

definition is_eligible :: "candidate_evaluation \<Rightarrow> bool" where
  "is_eligible c \<longleftrightarrow> ce_exclusion c = None"

record budget_estimate =
  be_prompt_tokens :: "32 word option"
  be_completion_tokens :: "32 word option"
  be_cost_usd :: "f64 option"
  be_pricing_snapshot_ref :: "string option"

definition budget_estimate_default :: budget_estimate where
  "budget_estimate_default = \<lparr> be_prompt_tokens = None, be_completion_tokens = None,
     be_cost_usd = None, be_pricing_snapshot_ref = None \<rparr>"

datatype selection = Chosen resolved_deployment | Abstain abstain_reason

record outcome_parts =
  op_candidates :: "candidate_evaluation list"
  op_selection :: selection
  op_revisions :: resolution_revisions
  op_account_ref :: "string option"
  op_budget_estimate :: budget_estimate
  op_fallback_order :: "string list"

datatype resolution_outcome = ResolutionOutcome (outcome_parts: outcome_parts)

text \<open>The first loop of the validation: the set of eligible ids, or the first blank id.\<close>

fun collect_eligible :: "candidate_evaluation list \<Rightarrow> string set \<Rightarrow> (string set, seam_error) result" where
  "collect_eligible [] ids = Ok ids"
| "collect_eligible (c # cs) ids =
     and_then (require_non_empty (ce_deployment_id c) ''candidate deployment_id'') (\<lambda>_.
       collect_eligible cs (if is_eligible c then insert (ce_deployment_id c) ids else ids))"

definition validate_outcome_consistency ::
  "candidate_evaluation list \<Rightarrow> selection \<Rightarrow> string option \<Rightarrow> string list \<Rightarrow> (unit, seam_error) result" where
  "validate_outcome_consistency candidates sel account fallback_order =
    (if length fallback_order > FALLBACK_ORDER_CAP then Err (FallbackOrderTooLong (length fallback_order))
     else and_then (collect_eligible candidates {}) (\<lambda>eligible_ids.
       case sel of
         Chosen d \<Rightarrow>
           if deployment_id d \<notin> eligible_ids then Err (ChosenNotEligible (deployment_id d))
           else if account \<noteq> Some (account_ref d) then Err AccountRefMismatch
           else (case find (\<lambda>e. e = deployment_id d \<or> e \<notin> eligible_ids) fallback_order of
               Some e \<Rightarrow> Err (FallbackEntryNotEligible e) | None \<Rightarrow> Ok ())
       | Abstain reason \<Rightarrow>
           if account \<noteq> None then Err AbstainCarriesAccountRef
           else if fallback_order \<noteq> [] then Err AbstainCarriesFallbackOrder
           else (case reason of
               NoEligibleCandidate \<Rightarrow>
                 if candidates = [] then Err AbstainNoEligibleWithoutCandidates
                 else (case find is_eligible candidates of
                     Some c \<Rightarrow> Err (AbstainNoEligibleWithEligibleCandidate (ce_deployment_id c))
                   | None \<Rightarrow> Ok ())
             | _ \<Rightarrow> if candidates \<noteq> [] then Err (AbstainCarriesUnevaluatedCandidates reason) else Ok ())))"

definition outcome_new ::
  "candidate_evaluation list \<Rightarrow> selection \<Rightarrow> resolution_revisions \<Rightarrow> string option \<Rightarrow> budget_estimate \<Rightarrow> string list
   \<Rightarrow> (resolution_outcome, seam_error) result" where
  "outcome_new candidates sel revisions account estimate fallback_order =
     and_then (validate_outcome_consistency candidates sel account fallback_order) (\<lambda>_.
       Ok (ResolutionOutcome \<lparr> op_candidates = candidates, op_selection = sel, op_revisions = revisions,
         op_account_ref = account, op_budget_estimate = estimate, op_fallback_order = fallback_order \<rparr>))"

section \<open>Inputs\<close>

record catalog_snapshot =
  cs_catalog_revision :: string
  cs_stale_deployment_ids :: "string list"

record deployment_cooldown =
  dc_deployment_id :: string
  dc_cooldown_until :: "string option"

record health_snapshot =
  hs_observed_at :: string
  hs_cooldowns :: "deployment_cooldown list"

record account_availability =
  aa_account_ref :: string
  aa_admitted :: bool

record resolver_input =
  ri_model_ref :: model_ref
  ri_admitted_candidates :: "resolved_deployment list"
  ri_catalog :: catalog_snapshot
  ri_health :: health_snapshot
  ri_accounts :: "account_availability list"
  ri_ceiling_usd :: "f64 option"
  ri_pinned_deployment_id :: "string option"
  ri_attempt :: "32 word"
  ri_prior_failures :: "health_observation list"

text \<open>A run of code that may panic.\<close>

datatype 't run = Panic | Return 't

text \<open>\<open>Result::expect\<close>.\<close>

definition expect :: "('t, 'e) result \<Rightarrow> 't run" where
  "expect r = (case r of Inl _ \<Rightarrow> Panic | Inr t \<Rightarrow> Return t)"

lemma expect_simps [simp]: "expect (Inr t) = Return t" "expect (Inl e) = Panic"
  by (simp_all add: expect_def)

section \<open>Spellings\<close>

lemma map_of_find: "map_of (map (\<lambda>v. (spell v, v)) vs) s = find (\<lambda>v. spell v = s) vs"
  by (induction vs) auto

interpretation wire_dialect_wire: wire_vocabulary wire_dialect_as_str wire_dialect_parse wire_dialect_ALL
proof
  show "v \<in> set wire_dialect_ALL" for v by (cases v) (simp_all add: wire_dialect_ALL_def)
  show "wire_dialect_parse s = find (\<lambda>v. wire_dialect_as_str v = s) wire_dialect_ALL" for s
    unfolding map_of_find [symmetric] by (simp add: wire_dialect_parse_def wire_dialect_ALL_def)
qed (simp add: wire_dialect_ALL_def)

interpretation exclusion_wire: wire_vocabulary exclusion_as_str exclusion_parse exclusion_ALL
proof
  show "v \<in> set exclusion_ALL" for v by (cases v) (simp_all add: exclusion_ALL_def)
  show "exclusion_parse s = find (\<lambda>v. exclusion_as_str v = s) exclusion_ALL" for s
    unfolding map_of_find [symmetric] by (simp add: exclusion_parse_def exclusion_ALL_def)
qed (simp add: exclusion_ALL_def)

interpretation abstain_wire: wire_vocabulary abstain_as_str abstain_parse abstain_ALL
proof
  show "v \<in> set abstain_ALL" for v by (cases v) (simp_all add: abstain_ALL_def)
  show "abstain_parse s = find (\<lambda>v. abstain_as_str v = s) abstain_ALL" for s
    unfolding map_of_find [symmetric] by (simp add: abstain_parse_def abstain_ALL_def)
qed (simp add: abstain_ALL_def)

interpretation evidence_wire: wire_vocabulary evidence_as_str evidence_parse evidence_ALL
proof
  show "v \<in> set evidence_ALL" for v by (cases v) (simp_all add: evidence_ALL_def)
  show "evidence_parse s = find (\<lambda>v. evidence_as_str v = s) evidence_ALL" for s
    unfolding map_of_find [symmetric] by (simp add: evidence_parse_def evidence_ALL_def)
qed (simp add: evidence_ALL_def)

interpretation invocation_error_wire: wire_vocabulary invocation_error_as_str invocation_error_parse invocation_error_ALL
proof
  show "v \<in> set invocation_error_ALL" for v by (cases v) (simp_all add: invocation_error_ALL_def)
  show "invocation_error_parse s = find (\<lambda>v. invocation_error_as_str v = s) invocation_error_ALL" for s
    unfolding map_of_find [symmetric] by (simp add: invocation_error_parse_def invocation_error_ALL_def)
qed (simp add: invocation_error_ALL_def)

section \<open>What the constructors admit\<close>

lemma require_non_empty_Ok [simp]: "require_non_empty v f = Inr () \<longleftrightarrow> \<not> blank v"
  by (simp add: require_non_empty_def blank_def)

lemma require_non_empty_unit: "require_non_empty v f = Inr u \<longleftrightarrow> \<not> blank v"
  by (cases u) simp

definition eligible_ids :: "candidate_evaluation list \<Rightarrow> string set" where
  "eligible_ids cs = ce_deployment_id ` {c \<in> set cs. is_eligible c}"

lemma collect_eligible_Ok:
  "collect_eligible cs ids = Inr ids' \<longleftrightarrow> (\<forall>c\<in>set cs. \<not> blank (ce_deployment_id c)) \<and> ids' = ids \<union> eligible_ids cs"
proof (induction cs arbitrary: ids)
  case (Cons c cs)
  have "eligible_ids (c # cs) = (if is_eligible c then {ce_deployment_id c} else {}) \<union> eligible_ids cs"
    by (auto simp: eligible_ids_def)
  then show ?case by (auto simp: and_then_Inr_iff require_non_empty_unit Cons.IH)
qed (auto simp: eligible_ids_def)

text \<open>The consistency set of an outcome, without the order the validation checks it in.\<close>

definition consistent :: "candidate_evaluation list \<Rightarrow> selection \<Rightarrow> string option \<Rightarrow> string list \<Rightarrow> bool" where
  "consistent cs sel account fb \<longleftrightarrow> length fb \<le> 4 \<and> list_all (\<lambda>c. \<not> blank (ce_deployment_id c)) cs
     \<and> (case sel of
          Chosen d \<Rightarrow> deployment_id d \<in> eligible_ids cs \<and> account = Some (account_ref d)
            \<and> set fb \<subseteq> eligible_ids cs - {deployment_id d}
        | Abstain r \<Rightarrow> account = None \<and> fb = []
            \<and> (if r = NoEligibleCandidate then cs \<noteq> [] \<and> eligible_ids cs = {} else cs = []))"

lemma find_eligible_None: "find is_eligible cs = None \<longleftrightarrow> eligible_ids cs = {}"
  by (auto simp: find_None_iff eligible_ids_def)

lemma none_eligible_rule:
  "(case find is_eligible cs of
      Some c \<Rightarrow> Err (AbstainNoEligibleWithEligibleCandidate (ce_deployment_id c)) | None \<Rightarrow> Ok ()) = Inr ()
   \<longleftrightarrow> eligible_ids cs = {}"
  unfolding find_eligible_None [symmetric] by (cases "find is_eligible cs") simp_all

lemma fallback_rule:
  "(case find (\<lambda>e. e = i \<or> e \<notin> ids) fb of Some e \<Rightarrow> Err (FallbackEntryNotEligible e) | None \<Rightarrow> Ok ()) = Inr ()
   \<longleftrightarrow> set fb \<subseteq> ids - {i}"
proof -
  have "find (\<lambda>e. e = i \<or> e \<notin> ids) fb = None \<longleftrightarrow> set fb \<subseteq> ids - {i}" by (auto simp: find_None_iff)
  then show ?thesis by (cases "find (\<lambda>e. e = i \<or> e \<notin> ids) fb") simp_all
qed

lemma validate_iff: "validate_outcome_consistency cs sel account fb = Inr () \<longleftrightarrow> consistent cs sel account fb"
proof (cases sel)
  case (Chosen d)
  show ?thesis
    unfolding Chosen validate_outcome_consistency_def consistent_def FALLBACK_ORDER_CAP_def selection.case
    by (simp add: and_then_Inr_iff collect_eligible_Ok fallback_rule list_all_iff)
next
  case (Abstain r)
  show ?thesis
    unfolding Abstain validate_outcome_consistency_def consistent_def FALLBACK_ORDER_CAP_def selection.case
    by (cases r) (auto simp add: and_then_Inr_iff collect_eligible_Ok none_eligible_rule list_all_iff split: if_splits)
qed

lemma outcome_new_consistent:
  "consistent cs sel account fb \<Longrightarrow> outcome_new cs sel revs account est fb =
     Inr (ResolutionOutcome \<lparr> op_candidates = cs, op_selection = sel, op_revisions = revs,
         op_account_ref = account, op_budget_estimate = est, op_fallback_order = fb \<rparr>)"
  by (simp add: outcome_new_def validate_iff [THEN iffD2])

section \<open>Properties of the seam\<close>

text \<open>
  The constructor of an outcome, which deserialization runs too, admits exactly the
  consistent outcomes and returns them as they were given; an over-long fallback order is
  reported as such whatever else is wrong.
\<close>

lemma outcome_new_exact:
  "outcome_new cs sel revs account est fb =
     (if consistent cs sel account fb
      then Ok (ResolutionOutcome \<lparr> op_candidates = cs, op_selection = sel, op_revisions = revs,
         op_account_ref = account, op_budget_estimate = est, op_fallback_order = fb \<rparr>)
      else Err (projl (validate_outcome_consistency cs sel account fb)))
   \<and> (outcome_new cs sel revs account est fb = Err (FallbackOrderTooLong (length fb)) \<longleftrightarrow> length fb > 4)"
proof (intro conjI)
  show "outcome_new cs sel revs account est fb =
     (if consistent cs sel account fb
      then Ok (ResolutionOutcome \<lparr> op_candidates = cs, op_selection = sel, op_revisions = revs,
         op_account_ref = account, op_budget_estimate = est, op_fallback_order = fb \<rparr>)
      else Err (projl (validate_outcome_consistency cs sel account fb)))"
    using validate_iff [of cs sel account fb]
    by (cases "validate_outcome_consistency cs sel account fb") (auto simp: outcome_new_def)
  have blank: "collect_eligible ds ids = Err (FallbackOrderTooLong n) \<longleftrightarrow> False" for ds ids n
    by (induction ds arbitrary: ids) (auto simp: and_then_def require_non_empty_def)
  show "outcome_new cs sel revs account est fb = Err (FallbackOrderTooLong (length fb)) \<longleftrightarrow> length fb > 4"
    using blank [of cs "{}"]
    by (auto simp: outcome_new_def validate_outcome_consistency_def FALLBACK_ORDER_CAP_def and_then_def
        split: sum.splits selection.splits option.splits abstain_reason.splits if_splits)
qed

text \<open>
  Every closed vocabulary of the seam is read back from its spelling and from nothing else:
  a string parses to a value exactly if it is the spelling of that value.
\<close>

lemma seam_vocabularies_round_trip:
  "(wire_dialect_parse s = Some w \<longleftrightarrow> s = wire_dialect_as_str w)
   \<and> (exclusion_parse s = Some x \<longleftrightarrow> s = exclusion_as_str x)
   \<and> (abstain_parse s = Some a \<longleftrightarrow> s = abstain_as_str a)
   \<and> (evidence_parse s = Some e \<longleftrightarrow> s = evidence_as_str e)
   \<and> (invocation_error_parse s = Some c \<longleftrightarrow> s = invocation_error_as_str c)"
  by (simp add: wire_dialect_wire.parse_iff exclusion_wire.parse_iff abstain_wire.parse_iff
      evidence_wire.parse_iff invocation_error_wire.parse_iff)

end
