(* ===== verification/Broker_Resolver.thy ===== *)
theory Broker_Resolver
  imports Broker_Seam Broker_Alias
begin

text \<open>
  The operational resolver, \<open>crates/memcore/src/catalog/resolver.rs\<close>, and the fixture of
  \<open>crates/memcore/src/model_broker_seam/resolver.rs\<close>: a frozen input is resolved to a chosen
  deployment with a bounded fallback order, or to a typed abstain. Unsigned integers keep
  their width as words; a budget ceiling is an \<open>f64\<close>. The trait
  \<open>OperationalResolver\<close> is a locale, interpreted on both resolvers.
\<close>

section \<open>Facts of the catalog\<close>

record placement =
  pl_deployment_id :: string
  pl_region :: "string option"
  pl_data_policy :: "string option"
  pl_active :: bool

definition unconstrained :: "string \<Rightarrow> placement" where
  "unconstrained i = \<lparr> pl_deployment_id = i, pl_region = None, pl_data_policy = None, pl_active = True \<rparr>"

definition with_region :: "string \<Rightarrow> placement \<Rightarrow> placement" where
  "with_region r p = p\<lparr> pl_region := Some r \<rparr>"

definition with_data_policy :: "string \<Rightarrow> placement \<Rightarrow> placement" where
  "with_data_policy d p = p\<lparr> pl_data_policy := Some d \<rparr>"

definition retired :: "placement \<Rightarrow> placement" where
  "retired p = p\<lparr> pl_active := False \<rparr>"

record snapshot_price =
  sp_pricing_snapshot_ref :: string
  sp_prompt_micros :: "64 word"
  sp_completion_micros :: "64 word"

record request_requirements =
  rq_capabilities :: capabilities
  rq_prompt_tokens :: "32 word option"
  rq_max_output_tokens :: "32 word option"
  rq_attachment_bytes :: "64 word option"
  rq_embedding_dimensions :: "32 word option"
  rq_allowed_regions :: "string list"
  rq_allowed_data_policies :: "string list"

record catalog_resolver =
  cr_aliases :: alias_set_snapshot
  cr_placements :: "placement list"
  cr_prices :: "snapshot_price list"
  cr_requirements :: request_requirements

datatype reference_class = RefAlias | RefDeployment | RefAmbiguous | RefUnknown

datatype resolve_refusal = UnstampableInput string

definition classify_reference :: "catalog_resolver \<Rightarrow> string \<Rightarrow> string list \<Rightarrow> reference_class" where
  "classify_reference R ref known_deployment_ids =
     (let is_alias = alias_get (cr_aliases R) ref \<noteq> None;
          is_deployment = list_ex (\<lambda>p. pl_deployment_id p = ref) (cr_placements R)
            \<or> list_ex (\<lambda>i. i = ref) known_deployment_ids
      in if is_alias then (if is_deployment then RefAmbiguous else RefAlias)
         else if is_deployment then RefDeployment else RefUnknown)"

section \<open>Prices and budget\<close>

definition price_of :: "catalog_resolver \<Rightarrow> resolved_deployment \<Rightarrow> snapshot_price option" where
  "price_of R d = (case pricing_snapshot_ref d of
     None \<Rightarrow> None
   | Some ref \<Rightarrow> find (\<lambda>p. sp_pricing_snapshot_ref p = ref) (cr_prices R))"

fun unwrap_or_zero :: "32 word option \<Rightarrow> 32 word" where
  "unwrap_or_zero None = 0"
| "unwrap_or_zero (Some n) = n"

definition cost_micros :: "catalog_resolver \<Rightarrow> resolved_deployment \<Rightarrow> 128 word option" where
  "cost_micros R d = (case price_of R d of
     None \<Rightarrow> None
   | Some price \<Rightarrow>
       let prompt = ucast (unwrap_or_zero (rq_prompt_tokens (cr_requirements R)));
           completion = ucast (unwrap_or_zero (rq_max_output_tokens (cr_requirements R)));
           prompt_cost = prompt * ucast (sp_prompt_micros price) div 1000000;
           completion_cost = completion * ucast (sp_completion_micros price) div 1000000
       in Some (prompt_cost + completion_cost))"

text \<open>\<open>micros as f64 / 1e6\<close>: the conversion rounds, then the quotient does.\<close>

definition micros_to_usd :: "128 word \<Rightarrow> f64" where
  "micros_to_usd m = (case round_f64 (of_nat (unat m)) of Finite q \<Rightarrow> f64_div q 1000000 | x \<Rightarrow> x)"

definition budget_estimate_for :: "catalog_resolver \<Rightarrow> resolved_deployment \<Rightarrow> budget_estimate" where
  "budget_estimate_for R d =
     \<lparr> be_prompt_tokens = rq_prompt_tokens (cr_requirements R),
       be_completion_tokens = rq_max_output_tokens (cr_requirements R),
       be_cost_usd = map_option micros_to_usd (cost_micros R d),
       be_pricing_snapshot_ref = pricing_snapshot_ref d \<rparr>"

text \<open>The cast \<open>as u128\<close> saturates.\<close>

definition usd_to_micros :: "f64 \<Rightarrow> 128 word" where
  "usd_to_micros usd = (case usd of
     Finite q \<Rightarrow>
       if q \<le> 0 then 0
       else (case f64_mult q 1000000 of
           Finite p \<Rightarrow> word_of_int (min \<lfloor>p\<rfloor> (2 ^ 128 - 1))
         | Infinity pos \<Rightarrow> if pos then - 1 else 0
         | NaN \<Rightarrow> 0)
   | _ \<Rightarrow> 0)"

type_synonym price_key = "bool \<times> 64 word \<times> 64 word"

definition price_rank :: "snapshot_price option \<Rightarrow> price_key" where
  "price_rank p = (case p of
     Some price \<Rightarrow> (False, sp_prompt_micros price, sp_completion_micros price)
   | None \<Rightarrow> (True, - 1, - 1))"

section \<open>The filter axes\<close>

record filter_context =
  fc_stale :: "string set"
  fc_cooling :: "string set"
  fc_unadmitted_accounts :: "string set"
  fc_placements :: "(string \<times> placement) list"
  fc_ceiling_micros :: "128 word option"

definition cooldown_in_force :: "chrono \<Rightarrow> string option \<Rightarrow> string \<Rightarrow> bool" where
  "cooldown_in_force ch cooldown_until observed_at = (case cooldown_until of
     None \<Rightarrow> True
   | Some s \<Rightarrow> (case (parse_from_rfc3339 ch (trim s), parse_from_rfc3339 ch (trim observed_at)) of
       (Some until_at, Some observed) \<Rightarrow> until_at > observed
     | _ \<Rightarrow> True))"

definition filter_context_new :: "chrono \<Rightarrow> resolver_input \<Rightarrow> catalog_resolver \<Rightarrow> filter_context" where
  "filter_context_new ch i R =
     \<lparr> fc_stale = set (cs_stale_deployment_ids (ri_catalog i)),
       fc_cooling = set (map dc_deployment_id
         (filter (\<lambda>c. cooldown_in_force ch (dc_cooldown_until c) (hs_observed_at (ri_health i))) (hs_cooldowns (ri_health i)))),
       fc_unadmitted_accounts = set (map aa_account_ref (filter (\<lambda>a. \<not> aa_admitted a) (ri_accounts i))),
       fc_placements = fold (\<lambda>p. bt_insert (pl_deployment_id p) p) (cr_placements R) [],
       fc_ceiling_micros = map_option usd_to_micros (ri_ceiling_usd i) \<rparr>"

definition capability_shortfall :: "capabilities \<Rightarrow> capabilities \<Rightarrow> bool" where
  "capability_shortfall required offered =
     list_ex (\<lambda>(r, f). r \<and> \<not> f)
       [(cap_chat required, cap_chat offered), (cap_embeddings required, cap_embeddings offered),
        (cap_tools required, cap_tools offered), (cap_streaming required, cap_streaming offered),
        (cap_structured_output required, cap_structured_output offered), (cap_media required, cap_media offered)]"

definition exceeds :: "'a::linorder option \<Rightarrow> 'a option \<Rightarrow> bool" where
  "exceeds need limit = (case (need, limit) of (Some n, Some l) \<Rightarrow> n > l | _ \<Rightarrow> False)"

definition allowed :: "string list \<Rightarrow> string option \<Rightarrow> bool" where
  "allowed allowlist declared =
     (if allowlist = [] then True
      else case declared of None \<Rightarrow> False | Some s \<Rightarrow> list_ex (\<lambda>x. x = s) allowlist)"

definition exclusion_for :: "catalog_resolver \<Rightarrow> filter_context \<Rightarrow> resolved_deployment \<Rightarrow> exclusion_reason option" where
  "exclusion_for R ctx d =
    (let i = deployment_id d;
         place = map_of (fc_placements ctx) i;
         rq = cr_requirements R;
         bounds = dp_bounds (into_parts d)
     in if (case place of Some p \<Rightarrow> \<not> pl_active p | None \<Rightarrow> False) then Some DeploymentInactive
        else if i \<in> fc_stale ctx then Some StaleCatalog
        else if account_ref d \<in> fc_unadmitted_accounts ctx then Some AccountNotAdmitted
        else if capability_shortfall (rq_capabilities rq) (dp_capabilities (into_parts d)) then Some CapabilityMismatch
        else if (case rq_embedding_dimensions rq of None \<Rightarrow> False | Some n \<Rightarrow> b_embedding_dimensions bounds \<noteq> Some n)
          then Some EmbeddingDimensionMismatch
        else if exceeds (rq_prompt_tokens rq) (b_context_window bounds) then Some ContextWindowExceeded
        else if exceeds (rq_max_output_tokens rq) (b_max_output bounds) then Some MaxOutputExceeded
        else if exceeds (rq_attachment_bytes rq) (b_attachment_bytes bounds) then Some AttachmentBoundsExceeded
        else if \<not> allowed (rq_allowed_regions rq) (Option.bind place pl_region) then Some RegionBlocked
        else if \<not> allowed (rq_allowed_data_policies rq) (Option.bind place pl_data_policy) then Some DataPolicyBlocked
        else if i \<in> fc_cooling ctx then Some HealthCooldown
        else (case fc_ceiling_micros ctx of
            None \<Rightarrow> None
          | Some limit \<Rightarrow> (case cost_micros R d of
              None \<Rightarrow> Some BudgetExceeded
            | Some cost \<Rightarrow> if cost > limit then Some BudgetExceeded else None)))"

section \<open>Resolution\<close>

text \<open>The debug assertion of \<open>abstain\<close> is a panic.\<close>

definition abstain :: "resolution_revisions \<Rightarrow> abstain_reason \<Rightarrow> resolution_outcome run" where
  "abstain revisions reason =
     (if reason = NoEligibleCandidate then Panic
      else expect (outcome_new [] (Abstain reason) revisions None budget_estimate_default []))"

fun map_run :: "('a \<Rightarrow> 'b) \<Rightarrow> 'a run \<Rightarrow> 'b run" where
  "map_run f Panic = Panic"
| "map_run f (Return x) = Return (f x)"

text \<open>\<open>filter(|d| seen.insert(d.deployment_id()))\<close>: the first deployment of every id.\<close>

fun first_of_each :: "string set \<Rightarrow> resolved_deployment list \<Rightarrow> resolved_deployment list" where
  "first_of_each seen [] = []"
| "first_of_each seen (d # ds) =
     (if deployment_id d \<in> seen then first_of_each seen ds
      else d # first_of_each (insert (deployment_id d) seen) ds)"

definition evaluate :: "(resolved_deployment \<Rightarrow> exclusion_reason option) \<Rightarrow> resolved_deployment \<Rightarrow> candidate_evaluation" where
  "evaluate excl d = (case excl d of
     Some reason \<Rightarrow> excluded_candidate (deployment_id d) reason
   | None \<Rightarrow> eligible_candidate (deployment_id d))"

definition resolver_key :: "catalog_resolver \<Rightarrow> resolver_input \<Rightarrow> resolved_deployment \<Rightarrow> bool \<times> price_key \<times> string" where
  "resolver_key R i d =
     (ri_pinned_deployment_id i \<noteq> Some (deployment_id d), price_rank (price_of R d), deployment_id d)"

definition resolve_among ::
  "chrono \<Rightarrow> catalog_resolver \<Rightarrow> resolver_input \<Rightarrow> resolution_revisions \<Rightarrow> string set \<Rightarrow> resolution_outcome run" where
  "resolve_among ch R i revisions candidate_ids =
    (let considered = first_of_each {} (filter (\<lambda>d. deployment_id d \<in> candidate_ids) (ri_admitted_candidates i))
     in if considered = [] then abstain revisions EmptyCandidateSet
        else
          let excl = exclusion_for R (filter_context_new ch i R);
              candidates = map (evaluate excl) considered;
              eligible = sort_key (resolver_key R i) (filter (\<lambda>d. excl d = None) considered)
          in case eligible of
               [] \<Rightarrow> expect (outcome_new candidates (Abstain NoEligibleCandidate) revisions None budget_estimate_default [])
             | chosen # rest \<Rightarrow>
                 expect (outcome_new candidates (Chosen chosen) revisions (Some (account_ref chosen))
                   (budget_estimate_for R chosen) (take FALLBACK_ORDER_CAP (map deployment_id rest))))"

definition try_resolve ::
  "chrono \<Rightarrow> catalog_resolver \<Rightarrow> resolver_input \<Rightarrow> (resolution_outcome, resolve_refusal) result run" where
  "try_resolve ch R i =
    (case revisions_new (cs_catalog_revision (ri_catalog i)) (hs_observed_at (ri_health i)) (policy_revision (ri_model_ref i)) of
       Inl e \<Rightarrow> Return (Err (UnstampableInput (case e of EmptyField field \<Rightarrow> field | _ \<Rightarrow> ''revisions'')))
     | Inr revisions \<Rightarrow>
        map_run Ok
         (if policy_revision (ri_model_ref i) \<noteq> as_policy_revision (cr_aliases R)
          then abstain revisions PolicyRevisionMismatch
          else let ref = reference (ri_model_ref i) in
            case classify_reference R ref (map deployment_id (ri_admitted_candidates i)) of
              RefUnknown \<Rightarrow> abstain revisions UnknownAlias
            | RefAmbiguous \<Rightarrow> abstain revisions AmbiguousAlias
            | RefAlias \<Rightarrow> (case alias_get (cr_aliases R) ref of
                None \<Rightarrow> Panic
              | Some entry \<Rightarrow> resolve_among ch R i revisions (set (map bn_deployment_id (ae_bindings entry))))
            | RefDeployment \<Rightarrow> resolve_among ch R i revisions {ref}))"

text \<open>The trait method of the resolver panics on a refusal.\<close>

definition resolve :: "chrono \<Rightarrow> catalog_resolver \<Rightarrow> resolver_input \<Rightarrow> resolution_outcome run" where
  "resolve ch R i = (case try_resolve ch R i of
     Return (Inr out) \<Rightarrow> Return out | _ \<Rightarrow> Panic)"

section \<open>The fixture resolver\<close>

definition fixture_exclusion :: "resolver_input \<Rightarrow> resolved_deployment \<Rightarrow> exclusion_reason option" where
  "fixture_exclusion i d =
     (if deployment_id d \<in> set (cs_stale_deployment_ids (ri_catalog i)) then Some StaleCatalog
      else if deployment_id d \<in> set (map dc_deployment_id (hs_cooldowns (ri_health i))) then Some HealthCooldown
      else if account_ref d \<in> set (map aa_account_ref (filter (\<lambda>a. \<not> aa_admitted a) (ri_accounts i)))
        then Some AccountNotAdmitted
      else None)"

definition fixture_resolve :: "resolver_input \<Rightarrow> resolution_outcome run" where
  "fixture_resolve i =
    (let excl = fixture_exclusion i;
         candidates = map (evaluate excl) (ri_admitted_candidates i);
         eligible = sort_key (\<lambda>d. (ri_pinned_deployment_id i \<noteq> Some (deployment_id d), deployment_id d))
           (filter (\<lambda>d. excl d = None) (ri_admitted_candidates i))
     in case revisions_new (cs_catalog_revision (ri_catalog i)) (hs_observed_at (ri_health i)) (policy_revision (ri_model_ref i)) of
          Inl _ \<Rightarrow> Panic
        | Inr revisions \<Rightarrow> (case eligible of
            chosen # rest \<Rightarrow>
              expect (outcome_new candidates (Chosen chosen) revisions (Some (account_ref chosen))
                (budget_estimate_default\<lparr> be_pricing_snapshot_ref := pricing_snapshot_ref chosen \<rparr>)
                (map deployment_id (take FALLBACK_ORDER_CAP (filter (\<lambda>d. deployment_id d \<noteq> deployment_id chosen) rest))))
          | [] \<Rightarrow>
              expect (outcome_new candidates
                (Abstain (if candidates = [] then EmptyCandidateSet else NoEligibleCandidate)) revisions None
                budget_estimate_default [])))"

section \<open>The trait\<close>

definition valid_deployment :: "resolved_deployment \<Rightarrow> bool" where
  "valid_deployment d \<longleftrightarrow> deployment_new (into_parts d) = Inr d"

definition valid_input :: "resolver_input \<Rightarrow> bool" where
  "valid_input i \<longleftrightarrow> list_all valid_deployment (ri_admitted_candidates i) \<and> \<not> blank (policy_revision (ri_model_ref i))"

definition stamped :: "resolver_input \<Rightarrow> bool" where
  "stamped i \<longleftrightarrow> \<not> blank (cs_catalog_revision (ri_catalog i)) \<and> \<not> blank (hs_observed_at (ri_health i))"

definition stamp :: "resolver_input \<Rightarrow> resolution_revisions" where
  "stamp i = ResolutionRevisions \<lparr> rv_catalog_revision = cs_catalog_revision (ri_catalog i),
     rv_health_observed_at = hs_observed_at (ri_health i), rv_policy_revision = policy_revision (ri_model_ref i) \<rparr>"

abbreviation out :: "(outcome_parts \<Rightarrow> 'a) \<Rightarrow> resolution_outcome \<Rightarrow> 'a" where
  "out f r \<equiv> f (outcome_parts r)"

definition consistent_outcome :: "resolution_outcome \<Rightarrow> bool" where
  "consistent_outcome r \<longleftrightarrow>
     consistent (out op_candidates r) (out op_selection r) (out op_account_ref r) (out op_fallback_order r)"

definition stays_within :: "resolver_input \<Rightarrow> resolution_outcome \<Rightarrow> bool" where
  "stays_within i r \<longleftrightarrow> set (map ce_deployment_id (out op_candidates r)) \<subseteq> deployment_id ` set (ri_admitted_candidates i)
     \<and> (case out op_selection r of Chosen d \<Rightarrow> d \<in> set (ri_admitted_candidates i) | Abstain _ \<Rightarrow> True)"

text \<open>
  The contract of \<open>OperationalResolver\<close>: on a stamped input of validated values it returns a
  consistent outcome stamped with the input's revisions that mentions admitted
  deployments only.
\<close>

locale operational_resolver =
  fixes res :: "resolver_input \<Rightarrow> resolution_outcome run"
  assumes returns: "valid_input i \<Longrightarrow> stamped i \<Longrightarrow>
      \<exists>r. res i = Return r \<and> consistent_outcome r \<and> out op_revisions r = stamp i \<and> stays_within i r"
begin

lemma fallback_admitted:
  assumes "valid_input i" "stamped i" "res i = Return r"
  shows "set (out op_fallback_order r) \<subseteq> deployment_id ` set (ri_admitted_candidates i)"
proof -
  have r: "consistent_outcome r" "stays_within i r" using returns [OF assms(1,2)] assms(3) by auto
  then have "set (out op_fallback_order r) \<subseteq> eligible_ids (out op_candidates r)"
    by (auto simp: consistent_outcome_def consistent_def split: selection.splits)
  also have "\<dots> \<subseteq> set (map ce_deployment_id (out op_candidates r))" by (auto simp: eligible_ids_def)
  finally show ?thesis using r(2) by (auto simp: stays_within_def)
qed

lemma route_bounds:
  assumes "valid_input i" "stamped i" "res i = Return r"
  shows "length (out op_fallback_order r) \<le> 4
    \<and> (case out op_selection r of
         Chosen d \<Rightarrow> d \<in> set (ri_admitted_candidates i) \<and> out op_account_ref r = Some (account_ref d)
           \<and> deployment_id d \<notin> set (out op_fallback_order r)
       | Abstain _ \<Rightarrow> out op_account_ref r = None \<and> out op_fallback_order r = [])"
  using returns [OF assms(1,2)] assms(3)
  by (auto simp: consistent_outcome_def consistent_def stays_within_def split: selection.splits)

end

lemma valid_deployment_id: "valid_deployment d \<Longrightarrow> \<not> blank (deployment_id d)"
  by (auto simp: valid_deployment_def deployment_new_def deployment_id_def and_then_Inr_iff require_non_empty_unit)

lemma revisions_new_stamp:
  "valid_input i \<Longrightarrow> stamped i \<Longrightarrow>
   revisions_new (cs_catalog_revision (ri_catalog i)) (hs_observed_at (ri_health i)) (policy_revision (ri_model_ref i))
     = Inr (stamp i)"
  by (simp add: revisions_new_def valid_input_def stamped_def stamp_def require_non_empty_def blank_def)

lemma evaluate_sel [simp]:
  "ce_deployment_id (evaluate excl d) = deployment_id d"
  "is_eligible (evaluate excl d) \<longleftrightarrow> excl d = None"
  by (simp_all add: evaluate_def excluded_candidate_def eligible_candidate_def is_eligible_def split: option.split)

lemma eligible_ids_evaluate:
  "eligible_ids (map (evaluate excl) ds) = deployment_id ` {d \<in> set ds. excl d = None}"
  by (force simp: eligible_ids_def)

lemma set_first_of_each: "set (first_of_each seen ds) \<subseteq> set ds"
  by (induction ds arbitrary: seen) auto

lemma first_of_each_ids:
  "deployment_id ` set (first_of_each seen ds) = deployment_id ` set ds - seen
   \<and> distinct (map deployment_id (first_of_each seen ds))"
proof (induction ds arbitrary: seen)
  case (Cons d ds)
  then show ?case using Cons.IH [of seen] Cons.IH [of "insert (deployment_id d) seen"] by auto
qed simp

lemma first_of_each_distinct:
  "distinct (map deployment_id ds) \<Longrightarrow> deployment_id ` set ds \<inter> seen = {} \<Longrightarrow> first_of_each seen ds = ds"
proof (induction ds arbitrary: seen)
  case (Cons d ds)
  then show ?case by (auto intro!: Cons.IH)
qed simp

lemma expect_consistent:
  "consistent cs sel account fb \<Longrightarrow> expect (outcome_new cs sel revs account est fb) =
     Return (ResolutionOutcome \<lparr> op_candidates = cs, op_selection = sel, op_revisions = revs,
         op_account_ref = account, op_budget_estimate = est, op_fallback_order = fb \<rparr>)"
  by (simp add: outcome_new_consistent)

lemma abstain_returns:
  "reason \<noteq> NoEligibleCandidate \<Longrightarrow> abstain revs reason =
     Return (ResolutionOutcome \<lparr> op_candidates = [], op_selection = Abstain reason, op_revisions = revs,
       op_account_ref = None, op_budget_estimate = budget_estimate_default, op_fallback_order = [] \<rparr>)"
  by (simp add: abstain_def expect_consistent consistent_def)

section \<open>What a resolution is\<close>

definition considered :: "resolver_input \<Rightarrow> string set \<Rightarrow> resolved_deployment list" where
  "considered i ids = first_of_each {} (filter (\<lambda>d. deployment_id d \<in> ids) (ri_admitted_candidates i))"

definition excluded_by :: "chrono \<Rightarrow> catalog_resolver \<Rightarrow> resolver_input \<Rightarrow> resolved_deployment \<Rightarrow> exclusion_reason option" where
  "excluded_by ch R i = exclusion_for R (filter_context_new ch i R)"

definition ranked :: "chrono \<Rightarrow> catalog_resolver \<Rightarrow> resolver_input \<Rightarrow> string set \<Rightarrow> resolved_deployment list" where
  "ranked ch R i ids = sort_key (resolver_key R i) (filter (\<lambda>d. excluded_by ch R i d = None) (considered i ids))"

definition nothing :: "resolution_revisions \<Rightarrow> candidate_evaluation list \<Rightarrow> abstain_reason \<Rightarrow> resolution_outcome" where
  "nothing revs cs reason = ResolutionOutcome \<lparr> op_candidates = cs, op_selection = Abstain reason, op_revisions = revs,
     op_account_ref = None, op_budget_estimate = budget_estimate_default, op_fallback_order = [] \<rparr>"

definition routed :: "chrono \<Rightarrow> catalog_resolver \<Rightarrow> resolver_input \<Rightarrow> resolution_revisions \<Rightarrow> string set \<Rightarrow> resolution_outcome" where
  "routed ch R i revs ids =
    (let cs = map (evaluate (excluded_by ch R i)) (considered i ids)
     in if cs = [] then nothing revs [] EmptyCandidateSet
        else case ranked ch R i ids of
          [] \<Rightarrow> nothing revs cs NoEligibleCandidate
        | d # ds \<Rightarrow> ResolutionOutcome \<lparr> op_candidates = cs, op_selection = Chosen d, op_revisions = revs,
            op_account_ref = Some (account_ref d), op_budget_estimate = budget_estimate_for R d,
            op_fallback_order = take 4 (map deployment_id ds) \<rparr>)"

lemma considered_set: "set (considered i ids) \<subseteq> {d \<in> set (ri_admitted_candidates i). deployment_id d \<in> ids}"
  using set_first_of_each [of "{}" "filter (\<lambda>d. deployment_id d \<in> ids) (ri_admitted_candidates i)"]
  by (auto simp: considered_def)

lemma considered_distinct: "distinct (map deployment_id (considered i ids))"
  by (simp add: considered_def first_of_each_ids)

lemma ranked_set: "set (ranked ch R i ids) = {d \<in> set (considered i ids). excluded_by ch R i d = None}"
  by (auto simp: ranked_def)

lemma ranked_distinct: "distinct (map deployment_id (ranked ch R i ids))"
  using considered_distinct [of i ids] by (auto simp: ranked_def distinct_map inj_on_def)

lemma routed_consistent:
  assumes "list_all valid_deployment (ri_admitted_candidates i)"
  shows "consistent_outcome (routed ch R i revs ids)" "out op_revisions (routed ch R i revs ids) = revs"
    "stays_within i (routed ch R i revs ids)"
proof -
  let ?r = "ranked ch R i ids" and ?cs = "map (evaluate (excluded_by ch R i)) (considered i ids)"
  have blank: "list_all (\<lambda>c. \<not> blank (ce_deployment_id c)) ?cs"
    using assms considered_set [of i ids] valid_deployment_id by (auto simp: list_all_iff)
  have elig: "eligible_ids ?cs = deployment_id ` set ?r" by (simp add: eligible_ids_evaluate ranked_set)
  show "consistent_outcome (routed ch R i revs ids)"
  proof (cases ?r)
    case Nil
    then show ?thesis using blank elig
      by (auto simp: routed_def nothing_def consistent_outcome_def consistent_def Let_def)
  next
    case (Cons d ds)
    have "set (take 4 (map deployment_id ds)) \<subseteq> set (map deployment_id ds)" by (rule set_take_subset)
    then show ?thesis using blank elig ranked_distinct [of ch R i ids] Cons
      by (auto simp: routed_def nothing_def consistent_outcome_def consistent_def Let_def eligible_ids_def)
  qed
  show "out op_revisions (routed ch R i revs ids) = revs"
    by (simp add: routed_def nothing_def Let_def split: list.split)
  have "set ?r \<subseteq> set (ri_admitted_candidates i)" using ranked_set considered_set by blast
  moreover have "set (map ce_deployment_id ?cs) \<subseteq> deployment_id ` set (ri_admitted_candidates i)"
    using considered_set [of i ids] by auto
  ultimately show "stays_within i (routed ch R i revs ids)"
    by (cases ?r) (auto simp: stays_within_def routed_def nothing_def Let_def)
qed

lemma resolve_among_eq:
  assumes "list_all valid_deployment (ri_admitted_candidates i)"
  shows "resolve_among ch R i revs ids = Return (routed ch R i revs ids)"
proof -
  have c: "consistent_outcome (routed ch R i revs ids)" by (rule routed_consistent [OF assms])
  have fold: "first_of_each {} (filter (\<lambda>d. deployment_id d \<in> ids) (ri_admitted_candidates i)) = considered i ids"
    "exclusion_for R (filter_context_new ch i R) = excluded_by ch R i"
    "sort_key (resolver_key R i) (filter (\<lambda>d. excluded_by ch R i d = None) (considered i ids)) = ranked ch R i ids"
    by (simp_all add: considered_def excluded_by_def ranked_def)
  show ?thesis
  proof (cases "considered i ids = []")
    case True
    then show ?thesis
      by (simp add: resolve_among_def fold Let_def routed_def nothing_def abstain_returns)
  next
    case ne: False
    show ?thesis
    proof (cases "ranked ch R i ids")
      case Nil
      then show ?thesis using c ne
        by (simp add: resolve_among_def fold Let_def routed_def nothing_def consistent_outcome_def expect_consistent)
    next
      case (Cons d ds)
      then show ?thesis using c ne
        by (simp add: resolve_among_def fold Let_def routed_def consistent_outcome_def expect_consistent FALLBACK_ORDER_CAP_def)
    qed
  qed
qed

text \<open>The reference reads as an alias, as a deployment, or the resolution stops with a reason.\<close>

definition reading :: "catalog_resolver \<Rightarrow> resolver_input \<Rightarrow> abstain_reason + string set" where
  "reading R i =
    (let ref = reference (ri_model_ref i);
         alias = alias_get (cr_aliases R) ref;
         known = ref \<in> pl_deployment_id ` set (cr_placements R) \<union> deployment_id ` set (ri_admitted_candidates i)
     in if policy_revision (ri_model_ref i) \<noteq> as_policy_revision (cr_aliases R) then Inl PolicyRevisionMismatch
        else case alias of
          None \<Rightarrow> if known then Inr {ref} else Inl UnknownAlias
        | Some entry \<Rightarrow> if known then Inl AmbiguousAlias else Inr (set (map bn_deployment_id (ae_bindings entry))))"

lemma classify_known:
  "list_ex (\<lambda>p. pl_deployment_id p = ref) (cr_placements R) \<or> list_ex (\<lambda>i. i = ref) (map deployment_id ds)
   \<longleftrightarrow> ref \<in> pl_deployment_id ` set (cr_placements R) \<union> deployment_id ` set ds"
  by (auto simp: list_ex_iff)

lemma try_resolve_eq:
  assumes "list_all valid_deployment (ri_admitted_candidates i)"
  shows "try_resolve ch R i =
    (case revisions_new (cs_catalog_revision (ri_catalog i)) (hs_observed_at (ri_health i)) (policy_revision (ri_model_ref i)) of
       Inl e \<Rightarrow> Return (Err (UnstampableInput (case e of EmptyField field \<Rightarrow> field | _ \<Rightarrow> ''revisions'')))
     | Inr revs \<Rightarrow> (case reading R i of
         Inl reason \<Rightarrow> Return (Ok (nothing revs [] reason)) | Inr ids \<Rightarrow> Return (Ok (routed ch R i revs ids))))"
proof -
  note eq = resolve_among_eq [OF assms]
  have ab: "reason \<noteq> NoEligibleCandidate \<Longrightarrow> abstain revs reason = Return (nothing revs [] reason)" for revs reason
    by (simp add: abstain_returns nothing_def)
  show ?thesis
    unfolding try_resolve_def reading_def classify_reference_def Let_def classify_known
    by (cases "alias_get (cr_aliases R) (reference (ri_model_ref i))") (simp_all add: eq ab split: sum.split)
qed

interpretation catalog: operational_resolver "resolve ch R" for ch R
proof
  fix i assume i: "valid_input i" "stamped i"
  then have valid: "list_all valid_deployment (ri_admitted_candidates i)" by (simp add: valid_input_def)
  show "\<exists>r. resolve ch R i = Return r \<and> consistent_outcome r \<and> out op_revisions r = stamp i \<and> stays_within i r"
  proof (cases "reading R i")
    case (Inl reason)
    then have "resolve ch R i = Return (nothing (stamp i) [] reason)"
      by (simp add: resolve_def try_resolve_eq [OF valid] revisions_new_stamp [OF i])
    moreover have "reason \<noteq> NoEligibleCandidate"
      using Inl by (auto simp: reading_def Let_def split: if_splits option.splits)
    ultimately show ?thesis
      by (simp add: nothing_def consistent_outcome_def consistent_def stays_within_def)
  next
    case (Inr ids)
    then have "resolve ch R i = Return (routed ch R i (stamp i) ids)"
      by (simp add: resolve_def try_resolve_eq [OF valid] revisions_new_stamp [OF i])
    then show ?thesis using routed_consistent [OF valid] by blast
  qed
qed

interpretation fixture: operational_resolver fixture_resolve
proof
  fix i assume i: "valid_input i" "stamped i"
  let ?cs = "map (evaluate (fixture_exclusion i)) (ri_admitted_candidates i)"
  let ?key = "\<lambda>d. (ri_pinned_deployment_id i \<noteq> Some (deployment_id d), deployment_id d)"
  let ?el = "sort_key ?key (filter (\<lambda>d. fixture_exclusion i d = None) (ri_admitted_candidates i))"
  have blank: "list_all (\<lambda>c. \<not> blank (ce_deployment_id c)) ?cs"
    using i(1) valid_deployment_id by (auto simp: list_all_iff valid_input_def)
  have elig: "eligible_ids ?cs = deployment_id ` set ?el" by (simp add: eligible_ids_evaluate)
  show "\<exists>r. fixture_resolve i = Return r \<and> consistent_outcome r \<and> out op_revisions r = stamp i \<and> stays_within i r"
  proof (cases ?el)
    case Nil
    have "consistent ?cs (Abstain (if ?cs = [] then EmptyCandidateSet else NoEligibleCandidate)) None []"
      using blank elig Nil by (simp add: consistent_def)
    then show ?thesis using Nil
      by (auto simp: fixture_resolve_def Let_def revisions_new_stamp [OF i] expect_consistent consistent_outcome_def stays_within_def)
  next
    case (Cons d ds)
    let ?fb = "map deployment_id (take 4 (filter (\<lambda>e. deployment_id e \<noteq> deployment_id d) ds))"
    have "set (take 4 (filter (\<lambda>e. deployment_id e \<noteq> deployment_id d) ds)) \<subseteq> {e \<in> set ds. deployment_id e \<noteq> deployment_id d}"
      using set_take_subset by fastforce
    then have "consistent ?cs (Chosen d) (Some (account_ref d)) ?fb"
      using blank elig Cons by (auto simp: consistent_def)
    moreover have "d \<in> set (ri_admitted_candidates i)"
      using Cons by (metis (no_types, lifting) filter_is_subset list.set_intros(1) set_sort subsetD)
    ultimately show ?thesis using Cons
      by (auto simp: fixture_resolve_def Let_def revisions_new_stamp [OF i] expect_consistent consistent_outcome_def
          stays_within_def FALLBACK_ORDER_CAP_def)
  qed
qed

section \<open>Properties of the resolver\<close>

text \<open>
  C12: A resolution never panics and is refused exactly when it cannot be stamped: on validated
  candidates \<open>try_resolve\<close> returns, either a refusal that names a blank revision of the
  input, or an outcome that satisfies the consistency rules, carries the input's own
  revisions and mentions admitted deployments only.
\<close>

theorem try_resolve_total:
  assumes "list_all valid_deployment (ri_admitted_candidates i)"
  shows "case try_resolve ch R i of
      Panic \<Rightarrow> False
    | Return (Inl (UnstampableInput field)) \<Rightarrow>
        field = ''catalog_revision'' \<and> blank (cs_catalog_revision (ri_catalog i))
      \<or> field = ''health_observed_at'' \<and> blank (hs_observed_at (ri_health i))
      \<or> field = ''policy_revision'' \<and> blank (policy_revision (ri_model_ref i))
    | Return (Inr r) \<Rightarrow> consistent_outcome r \<and> out op_revisions r = stamp i \<and> stays_within i r
        \<and> \<not> blank (cs_catalog_revision (ri_catalog i)) \<and> \<not> blank (hs_observed_at (ri_health i))
        \<and> \<not> blank (policy_revision (ri_model_ref i))"
proof (cases "stamped i \<and> \<not> blank (policy_revision (ri_model_ref i))")
  case True
  then have i: "valid_input i" "stamped i" using assms by (simp_all add: valid_input_def)
  obtain r where r: "resolve ch R i = Return r" "consistent_outcome r" "out op_revisions r = stamp i" "stays_within i r"
    using catalog.returns [OF i] by blast
  then have "try_resolve ch R i = Return (Inr r)"
    by (auto simp: resolve_def split: run.splits sum.splits)
  then show ?thesis using r True by (simp add: stamped_def)
next
  case False
  then show ?thesis
    by (auto simp: try_resolve_def revisions_new_def stamped_def require_non_empty_def blank_def and_then_def)
qed

lemma resolve_cases [consumes 2, case_names stopped evaluated]:
  assumes "list_all valid_deployment (ri_admitted_candidates i)" "try_resolve ch R i = Return (Inr r)"
  obtains (stopped) revs reason where "reading R i = Inl reason" "r = nothing revs [] reason"
    | (evaluated) revs ids where "reading R i = Inr ids" "r = routed ch R i revs ids"
  using assms(2) unfolding try_resolve_eq [OF assms(1)] by (auto split: sum.splits)

lemma reading_reason:
  "reading R i = Inl reason \<longleftrightarrow>
    (let ref = reference (ri_model_ref i);
         known = ref \<in> pl_deployment_id ` set (cr_placements R) \<union> deployment_id ` set (ri_admitted_candidates i);
         drift = policy_revision (ri_model_ref i) \<noteq> as_policy_revision (cr_aliases R);
         bound = alias_get (cr_aliases R) ref \<noteq> None
     in reason = PolicyRevisionMismatch \<and> drift \<or> reason = UnknownAlias \<and> \<not> drift \<and> \<not> bound \<and> \<not> known
      \<or> reason = AmbiguousAlias \<and> \<not> drift \<and> bound \<and> known)"
  by (auto simp: reading_def Let_def split: option.split)

definition demo_deployment :: "string \<Rightarrow> resolved_deployment" where
  "demo_deployment n = ResolvedDeployment \<lparr> dp_deployment_id = n, dp_wire_dialect = OpenAiCompat,
     dp_endpoint_ref = ''e'', dp_provider_model_id = ''m'',
     dp_capabilities = \<lparr> cap_chat = True, cap_embeddings = False, cap_tools = False, cap_streaming = False,
       cap_structured_output = False, cap_media = False \<rparr>,
     dp_bounds = \<lparr> b_context_window = Some 8192, b_max_output = None, b_attachment_bytes = None,
       b_embedding_dimensions = None \<rparr>,
     dp_account_ref = ''acct'', dp_pricing_snapshot_ref = Some (''p-'' @ n) \<rparr>"

definition demo_price :: "string \<Rightarrow> 64 word \<Rightarrow> snapshot_price" where
  "demo_price n c = \<lparr> sp_pricing_snapshot_ref = ''p-'' @ n, sp_prompt_micros = c, sp_completion_micros = c \<rparr>"

definition demo_resolver :: catalog_resolver where
  "demo_resolver = \<lparr> cr_aliases = \<lparr> as_policy_revision = ''ar1:0'',
       as_aliases = [\<lparr> ae_alias_name = ''chat'', ae_bindings = map (\<lambda>n. \<lparr> bn_deployment_id = n, bn_priority = 0 \<rparr>) [''a'', ''b'', ''c''] \<rparr>] \<rparr>,
     cr_placements = [], cr_prices = [demo_price ''a'' 9, demo_price ''b'' 5, demo_price ''c'' 7],
     cr_requirements = \<lparr> rq_capabilities = \<lparr> cap_chat = True, cap_embeddings = False, cap_tools = False,
         cap_streaming = False, cap_structured_output = False, cap_media = False \<rparr>,
       rq_prompt_tokens = Some 100, rq_max_output_tokens = None, rq_attachment_bytes = None,
       rq_embedding_dimensions = None, rq_allowed_regions = [], rq_allowed_data_policies = [] \<rparr> \<rparr>"

definition demo_input :: "string list \<Rightarrow> resolver_input" where
  "demo_input ns = \<lparr> ri_model_ref = ModelRef \<lparr> mr_reference = ''chat'', mr_policy_revision = ''ar1:0'' \<rparr>,
     ri_admitted_candidates = map demo_deployment ns,
     ri_catalog = \<lparr> cs_catalog_revision = ''r1'', cs_stale_deployment_ids = [] \<rparr>,
     ri_health = \<lparr> hs_observed_at = ''t0'', hs_cooldowns = [] \<rparr>, ri_accounts = [], ri_ceiling_usd = None,
     ri_pinned_deployment_id = None, ri_attempt = 0, ri_prior_failures = [] \<rparr>"

definition demo_clock :: chrono where
  "demo_clock = \<lparr> parse_from_rfc3339 = (\<lambda>s. if s = ''t0'' then Some 0 else if s = ''t1'' then Some 1 else None), MIN_UTC = - 1 \<rparr>"

lemma demo_valid: "list_all valid_deployment (ri_admitted_candidates (demo_input [''a'', ''b'', ''c'']))"
  "list_all valid_deployment (ri_admitted_candidates (demo_input [''c'', ''a'', ''b'']))"
  by code_simp+

theorem try_resolve_total_witness:
  "case try_resolve demo_clock demo_resolver (demo_input [''a'', ''b'', ''c'']) of
     Return (Inr r) \<Rightarrow> consistent_outcome r | _ \<Rightarrow> False"
  using try_resolve_total [OF demo_valid(1), of demo_clock demo_resolver]
  by (simp split: run.splits sum.splits resolve_refusal.splits) (auto simp: demo_input_def policy_revision_def; code_simp)

text \<open>
  The route is the least admitted deployment: a chosen deployment is bound by the
  reference, admitted, excluded by no axis, and the eligible deployments in strictly
  ascending order of (not pinned, price, identity) start with it; the fallback order is the
  next four of them.
\<close>

lemma chosen_is_least:
  assumes "list_all valid_deployment (ri_admitted_candidates i)"
    and "try_resolve ch R i = Return (Inr r)" "out op_selection r = Chosen d"
  shows "\<exists>ids ds. reading R i = Inr ids \<and> deployment_id d \<in> ids
    \<and> sorted_wrt (<) (map (resolver_key R i) (d # ds))
    \<and> set (d # ds) = {e \<in> set (considered i ids). excluded_by ch R i e = None}
    \<and> out op_account_ref r = Some (account_ref d) \<and> out op_budget_estimate r = budget_estimate_for R d
    \<and> out op_fallback_order r = take 4 (map deployment_id ds)"
  using assms(1,2)
proof (cases rule: resolve_cases)
  case (stopped revs reason)
  then show ?thesis using assms(3) by (simp add: nothing_def)
next
  case (evaluated revs ids)
  obtain ds where ds: "ranked ch R i ids = d # ds"
    using evaluated(2) assms(3) by (auto simp: routed_def nothing_def Let_def split: if_splits list.splits)
  have "set (ranked ch R i ids) \<noteq> {}" using ds by simp
  then have ne: "considered i ids \<noteq> []" unfolding ranked_set by auto
  have "sorted_wrt (\<le>) (map (resolver_key R i) (d # ds))"
    unfolding ds [symmetric] by (simp add: ranked_def)
  moreover have "distinct (map (resolver_key R i) (d # ds))"
    unfolding ds [symmetric] using ranked_distinct [of ch R i ids]
    by (auto simp: distinct_map inj_on_def resolver_key_def)
  ultimately have "sorted_wrt (<) (map (resolver_key R i) (d # ds))"
    using strict_sorted_iff by blast
  moreover have "set (d # ds) = {e \<in> set (considered i ids). excluded_by ch R i e = None}"
    unfolding ds [symmetric] by (rule ranked_set)
  moreover have "deployment_id d \<in> ids"
    using considered_set ranked_set [of ch R i ids] unfolding ds by auto
  ultimately show ?thesis
    using evaluated ds ne by (intro exI [of _ ids] exI [of _ ds]) (auto simp: routed_def Let_def)
qed

lemma chosen_is_least_witness:
  "case try_resolve demo_clock demo_resolver (demo_input [''a'', ''b'', ''c'']) of
     Return (Inr r) \<Rightarrow> (case out op_selection r of
         Chosen d \<Rightarrow> deployment_id d = ''b'' \<and> out op_account_ref r = Some (account_ref d)
       | Abstain _ \<Rightarrow> False)
   | _ \<Rightarrow> False"
proof -
  obtain r where r: "try_resolve demo_clock demo_resolver (demo_input [''a'', ''b'', ''c'']) = Return (Inr r)"
    "out op_selection r = Chosen (demo_deployment ''b'')"
    by (rule that [of "case try_resolve demo_clock demo_resolver (demo_input [''a'', ''b'', ''c'']) of
        Return (Inr r) \<Rightarrow> r | _ \<Rightarrow> nothing (ResolutionRevisions \<lparr> rv_catalog_revision = [], rv_health_observed_at = [], rv_policy_revision = [] \<rparr>) [] UnknownAlias"];
      code_simp)
  have "deployment_id (demo_deployment ''b'') = ''b''" by code_simp
  then show ?thesis using chosen_is_least [OF demo_valid(1) r] by (auto simp: r)
qed

lemma order_free:
  assumes "mset cs = mset (ri_admitted_candidates i)" "distinct (map deployment_id (ri_admitted_candidates i))"
  defines "j \<equiv> i\<lparr> ri_admitted_candidates := cs \<rparr>"
  shows "reading R j = reading R i" "mset (considered j ids) = mset (considered i ids)"
    "excluded_by ch R j = excluded_by ch R i" "ranked ch R j ids = ranked ch R i ids"
proof -
  have set: "set cs = set (ri_admitted_candidates i)" using assms(1) by (rule mset_eq_setD)
  have "mset (map deployment_id cs) = mset (map deployment_id (ri_admitted_candidates i))" using assms(1) by simp
  then have dist: "distinct (map deployment_id cs)" using assms(2) mset_eq_imp_distinct_iff by blast
  have plain: "considered k ids = filter (\<lambda>d. deployment_id d \<in> ids) (ri_admitted_candidates k)"
    if "distinct (map deployment_id (ri_admitted_candidates k))" for k
    unfolding considered_def using that by (intro first_of_each_distinct) (auto simp: distinct_map inj_on_def)
  show "reading R j = reading R i" by (simp add: reading_def j_def set)
  show excl: "excluded_by ch R j = excluded_by ch R i" by (simp add: excluded_by_def filter_context_new_def j_def)
  show cons: "mset (considered j ids) = mset (considered i ids)"
    using assms(1) dist by (simp add: plain assms(2) j_def)
  show "ranked ch R j ids = ranked ch R i ids"
    unfolding ranked_def excl
  proof -
    have "resolver_key R j = resolver_key R i" by (simp add: resolver_key_def [abs_def] j_def)
    moreover have "inj_on (resolver_key R i) (set (filter (\<lambda>d. excluded_by ch R i d = None) (considered j ids)))"
      using considered_distinct [of j ids] by (auto simp: inj_on_def distinct_map resolver_key_def)
    ultimately show "sort_key (resolver_key R j) (filter (\<lambda>d. excluded_by ch R i d = None) (considered j ids))
       = sort_key (resolver_key R i) (filter (\<lambda>d. excluded_by ch R i d = None) (considered i ids))"
      using cons by (simp add: sort_key_perm)
  qed
qed

text \<open>What a caller acts on: everything of an outcome but the order of its candidate list.\<close>

definition route_of :: "resolution_outcome \<Rightarrow> candidate_evaluation multiset \<times> selection \<times> resolution_revisions \<times> string option \<times> budget_estimate \<times> string list" where
  "route_of r = (mset (out op_candidates r), out op_selection r, out op_revisions r, out op_account_ref r,
     out op_budget_estimate r, out op_fallback_order r)"

lemma routed_order_free:
  assumes "mset cs = mset (ri_admitted_candidates i)" "distinct (map deployment_id (ri_admitted_candidates i))"
  shows "route_of (routed ch R (i\<lparr> ri_admitted_candidates := cs \<rparr>) revs ids) = route_of (routed ch R i revs ids)"
proof -
  note free = order_free [OF assms]
  have "considered (i\<lparr> ri_admitted_candidates := cs \<rparr>) ids = [] \<longleftrightarrow> considered i ids = []"
    using free(2) [of ids] by (metis mset_zero_iff)
  moreover have "mset (map f (considered (i\<lparr> ri_admitted_candidates := cs \<rparr>) ids)) = mset (map f (considered i ids))"
    for f :: "resolved_deployment \<Rightarrow> candidate_evaluation"
    using free(2) by simp
  ultimately show ?thesis
    by (auto simp: routed_def route_of_def nothing_def Let_def free split: list.split)
qed

text \<open>
  C13: Resolution is a function of the admitted set: when the admitted deployments have distinct
  ids, permuting them changes neither the selection, the account, the estimate, the
  fallback order, the revisions, nor the disposition of any candidate.
\<close>

theorem resolution_order_free:
  assumes "list_all valid_deployment (ri_admitted_candidates i)"
    and "distinct (map deployment_id (ri_admitted_candidates i))"
    and "mset cs = mset (ri_admitted_candidates i)"
  shows "map_run (map_sum id route_of) (try_resolve ch R (i\<lparr> ri_admitted_candidates := cs \<rparr>))
       = map_run (map_sum id route_of) (try_resolve ch R i)"
proof -
  have "set cs = set (ri_admitted_candidates i)" using assms(3) by (rule mset_eq_setD)
  then have "list_all valid_deployment (ri_admitted_candidates (i\<lparr> ri_admitted_candidates := cs \<rparr>))"
    using assms(1) by (simp add: list_all_iff)
  from try_resolve_eq [OF this] try_resolve_eq [OF assms(1)] show ?thesis
    by (simp add: order_free [OF assms(3,2)] routed_order_free [OF assms(3,2)] split: sum.split)
qed

theorem resolution_order_free_witness:
  "map_run (map_sum id route_of) (try_resolve demo_clock demo_resolver (demo_input [''c'', ''a'', ''b'']))
   = map_run (map_sum id route_of) (try_resolve demo_clock demo_resolver (demo_input [''a'', ''b'', ''c'']))"
proof -
  have perm: "demo_input [''c'', ''a'', ''b''] =
      (demo_input [''a'', ''b'', ''c''])\<lparr> ri_admitted_candidates := ri_admitted_candidates (demo_input [''c'', ''a'', ''b'']) \<rparr>"
    by (simp add: demo_input_def)
  show ?thesis
    by (subst perm, rule resolution_order_free [OF demo_valid(1)])
      (simp_all add: demo_input_def demo_deployment_def deployment_id_def)
qed

text \<open>
  C14: An abstain says exactly where the resolution stopped: policy drift, an unbound reference
  and an ambiguous one are each reported exactly when they hold and then nothing is
  evaluated; an empty set means that the reference binds no admitted deployment; otherwise
  nothing is eligible exactly when every considered deployment is excluded.
\<close>

theorem abstain_reason_law:
  assumes "list_all valid_deployment (ri_admitted_candidates i)" "try_resolve ch R i = Return (Inr r)"
  shows "case reading R i of
      Inl reason \<Rightarrow> out op_selection r = Abstain reason \<and> out op_candidates r = []
        \<and> reason \<in> {PolicyRevisionMismatch, UnknownAlias, AmbiguousAlias}
    | Inr ids \<Rightarrow> (out op_selection r = Abstain EmptyCandidateSet \<longleftrightarrow> considered i ids = [])
        \<and> (out op_selection r = Abstain NoEligibleCandidate
            \<longleftrightarrow> considered i ids \<noteq> [] \<and> list_all (\<lambda>d. excluded_by ch R i d \<noteq> None) (considered i ids))
        \<and> op_selection (outcome_parts r) \<notin> Abstain ` {PolicyRevisionMismatch, UnknownAlias, AmbiguousAlias}
        \<and> out op_candidates r = map (evaluate (excluded_by ch R i)) (considered i ids)"
  using assms
proof (cases rule: resolve_cases)
  case (stopped revs reason)
  then show ?thesis
    using reading_reason [of R i reason] by (auto simp: nothing_def Let_def)
next
  case (evaluated revs ids)
  have "ranked ch R i ids = [] \<longleftrightarrow> list_all (\<lambda>d. excluded_by ch R i d \<noteq> None) (considered i ids)"
    using ranked_set [of ch R i ids] by (cases "ranked ch R i ids") (auto simp: list_all_iff)
  then show ?thesis
    by (cases "ranked ch R i ids") (auto simp: evaluated routed_def nothing_def Let_def)
qed

theorem abstain_reason_law_witness:
  "case try_resolve demo_clock demo_resolver (demo_input []) of
     Return (Inr r) \<Rightarrow> out op_selection r = Abstain EmptyCandidateSet | _ \<Rightarrow> False"
proof -
  have v: "list_all valid_deployment (ri_admitted_candidates (demo_input []))" by (simp add: demo_input_def)
  have "reading demo_resolver (demo_input []) = Inr {''a'', ''b'', ''c''}" by code_simp
  moreover have "considered (demo_input []) {''a'', ''b'', ''c''} = []" by (simp add: considered_def demo_input_def)
  moreover have i: "valid_input (demo_input [])" "stamped (demo_input [])" by code_simp+
  obtain r where "resolve demo_clock demo_resolver (demo_input []) = Return r"
    using catalog.returns [OF i] by blast
  then have r: "try_resolve demo_clock demo_resolver (demo_input []) = Return (Inr r)"
    by (auto simp: resolve_def split: run.splits sum.splits)
  ultimately show ?thesis
    using abstain_reason_law [OF v r] by (simp add: r)
qed

text \<open>
  No resolver widens its input: whichever of the two resolvers answers a stamped input of
  validated values, the fallback order names at most four admitted deployments, a chosen
  deployment is admitted, its account is the outcome's, it is not its own fallback, and an
  abstain carries neither account nor fallback.
\<close>

lemma resolvers_stay_bounded:
  assumes "valid_input i" "stamped i" "resolve ch R i = Return r \<or> fixture_resolve i = Return r"
  shows "length (out op_fallback_order r) \<le> 4
    \<and> set (out op_fallback_order r) \<subseteq> deployment_id ` set (ri_admitted_candidates i)
    \<and> (case out op_selection r of
         Chosen d \<Rightarrow> d \<in> set (ri_admitted_candidates i) \<and> out op_account_ref r = Some (account_ref d)
           \<and> deployment_id d \<notin> set (out op_fallback_order r)
       | Abstain _ \<Rightarrow> out op_account_ref r = None \<and> out op_fallback_order r = [])"
  using assms(3)
proof
  assume "resolve ch R i = Return r"
  then show ?thesis
    using catalog.route_bounds [OF assms(1,2)] catalog.fallback_admitted [OF assms(1,2)] by blast
next
  assume "fixture_resolve i = Return r"
  then show ?thesis
    using fixture.route_bounds [OF assms(1,2)] fixture.fallback_admitted [OF assms(1,2)] by blast
qed

lemma resolvers_stay_bounded_witness:
  "case fixture_resolve (demo_input [''a'', ''b'', ''c'']) of
     Panic \<Rightarrow> False | Return r \<Rightarrow> length (out op_fallback_order r) \<le> 4"
proof -
  have i: "valid_input (demo_input [''a'', ''b'', ''c''])" "stamped (demo_input [''a'', ''b'', ''c''])"
    by code_simp+
  obtain r where r: "fixture_resolve (demo_input [''a'', ''b'', ''c'']) = Return r"
    using fixture.returns [OF i] by blast
  from resolvers_stay_bounded [OF i, of demo_clock demo_resolver r] show ?thesis by (simp add: r)
qed

text \<open>
  The cost of a request is computed without wrap-around: as a number it is the sum of the
  two truncated quotients of tokens times price by a million.
\<close>

lemma cost_never_wraps:
  "map_option unat (cost_micros R d) = map_option (\<lambda>price.
      unat (unwrap_or_zero (rq_prompt_tokens (cr_requirements R))) * unat (sp_prompt_micros price) div 1000000
    + unat (unwrap_or_zero (rq_max_output_tokens (cr_requirements R))) * unat (sp_completion_micros price) div 1000000)
    (price_of R d)"
proof -
  have ua: "unat a < 2 ^ 32" for a :: "32 word" by (rule order.strict_trans2 [OF unsigned_less]) simp
  have ub: "unat b < 2 ^ 64" for b :: "64 word" by (rule order.strict_trans2 [OF unsigned_less]) simp
  have unat_widen: "unat (ucast a :: 128 word) = unat a" "unat (ucast b :: 128 word) = unat b" for a :: "32 word" and b :: "64 word"
    using ua [of a] ub [of b] by (simp_all add: unsigned_ucast_eq take_bit_nat_eq_self)
  have one: "unat (ucast a * ucast b div 1000000 :: 128 word) = unat a * unat b div 1000000"
    "unat a * unat b div 1000000 < 2 ^ 96" for a :: "32 word" and b :: "64 word"
  proof -
    have "unat a * unat b < 2 ^ 32 * 2 ^ 64"
      using ua [of a] ub [of b] by (intro mult_strict_mono) simp_all
    then have less: "unat a * unat b < 2 ^ 96" by simp
    then have "unat (ucast a * ucast b :: 128 word) = unat a * unat b"
      by (simp add: unat_word_ariths unat_widen)
    then show "unat (ucast a * ucast b div 1000000 :: 128 word) = unat a * unat b div 1000000"
      by (simp add: unat_div)
    show "unat a * unat b div 1000000 < 2 ^ 96" using less by (meson div_le_dividend le_less_trans)
  qed
  have plus: "unat (x + y) = unat x + unat y" if "unat x < 2 ^ 96" "unat y < 2 ^ 96" for x y :: "128 word"
    using that by (simp add: unat_word_ariths)
  show ?thesis
  proof (cases "price_of R d")
    case (Some price)
    show ?thesis
      unfolding cost_micros_def Some Let_def option.case option.map
      by (subst plus) (simp_all add: one less_le_trans [OF one(2)])
  qed (simp add: cost_micros_def)
qed

text \<open>The double nearest to 0.29.\<close>

definition demo_ceiling :: rat where
  "demo_ceiling = 5224175567749775 / 18014398509481984"

lemma bit_lengths:
  "bit_length 5224175567749775 = 53" "bit_length 18014398509481984 = 55"
  "bit_length 81627743246090234375 = 67" "bit_length 281474976710656 = 49"
  by (simp_all add: bit_length.simps)

lemma demo_ceiling_exact: "round_f64 demo_ceiling = Finite demo_ceiling"
proof -
  have "quotient_of demo_ceiling = (5224175567749775, 18014398509481984)" by code_simp
  then have "exponent_of demo_ceiling = - 2"
    by (simp add: exponent_of_def bit_lengths pow2_def) (simp add: demo_ceiling_def)
  moreover have "demo_ceiling / pow2 (- 54) = of_int 5224175567749775" by (simp add: demo_ceiling_def pow2_def)
  moreover have "0 < demo_ceiling" by (simp add: demo_ceiling_def)
  ultimately show ?thesis
    unfolding round_f64_def by (simp add: Let_def) (simp add: demo_ceiling_def pow2_def round_half_even_def)
qed

lemma demo_ceiling_product: "f64_mult demo_ceiling 1000000 = Finite 290000"
proof -
  let ?p = "demo_ceiling * 1000000"
  have "quotient_of ?p = (81627743246090234375, 281474976710656)" by code_simp
  then have "exponent_of ?p = 18"
    by (simp add: exponent_of_def bit_lengths pow2_def) (simp add: demo_ceiling_def)
  moreover have fl: "\<lfloor>81627743246090234375 / 16384 :: rat\<rfloor> = 4982162063359999" by (simp add: floor_eq_iff)
  have "round_half_even (?p / pow2 (- 34)) = 4982162063360000"
    using fl by (simp add: demo_ceiling_def pow2_def round_half_even_def Let_def)
  moreover have "0 < ?p" by (simp add: demo_ceiling_def)
  ultimately show ?thesis
    unfolding f64_mult_def round_f64_def by (simp add: Let_def) (simp add: pow2_def)
qed

text \<open>
  A ceiling can round up: the budget ceiling that is the double nearest to 0.29 is less than
  290000 micro-dollars, and is compared as 290000, because the product is rounded before
  its fraction is dropped.
\<close>

lemma ceiling_rounds_up:
  "round_f64 demo_ceiling = Finite demo_ceiling \<and> demo_ceiling * 1000000 < 290000
   \<and> usd_to_micros (Finite demo_ceiling) = 290000"
proof -
  have "\<not> demo_ceiling \<le> 0" "demo_ceiling * 1000000 < 290000" by (simp_all add: demo_ceiling_def)
  then show ?thesis
    by (simp add: demo_ceiling_exact usd_to_micros_def demo_ceiling_product)
qed

end
