(* ===== verification/Catalog_Outcome.thy ===== *)
theory Catalog_Outcome
  imports Catalog_Store Broker_Resolver
begin

text \<open>
  \<open>record_model_deployment_outcome\<close> of \<open>crates/memcore/src/db/model_catalog.rs\<close> with its
  transaction, and what its rows mean over time: which observation of several wins, and
  when a cooldown ends for the resolver that reads it.

  What the code relies on of SQLite is written out, after its documentation: a connection is
  its database, as the statements on it see it, and the transaction that is open on it, if
  any, with the database to roll back to and the stack of savepoints. What becomes of a
  statement is not ours to say and is a parameter, \<open>fate\<close>: it runs, or is refused and changes
  nothing, or is refused and SQLite rolls the open transaction back on its own, as it may on
  a full disk, an I/O error or an interrupt. When one of the statements of the body is
  refused (the two reads, the upsert, the append), \<open>partial\<close> is the database the statements
  before it left.
\<close>

section \<open>Connections\<close>

record transaction =
  tx_base :: catalog_db
  tx_savepoints :: "(string \<times> catalog_db) list"

record connection =
  cn_db :: catalog_db
  cn_tx :: "transaction option"

datatype sql_statement = SqlBegin | SqlSavepoint | SqlBody | SqlRelease | SqlCommit | SqlUndo

datatype sql_fate = Runs | Refused_only | Rolled_back

definition is_autocommit :: "connection \<Rightarrow> bool" where
  "is_autocommit c \<longleftrightarrow> cn_tx c = None"

definition sql_begin :: "connection \<Rightarrow> (connection, catalog_error) result" where
  "sql_begin c = (case cn_tx c of
     Some _ \<Rightarrow> Err (Refused ''BEGIN'')
   | None \<Rightarrow> Ok (c\<lparr> cn_tx := Some \<lparr> tx_base = cn_db c, tx_savepoints = [] \<rparr> \<rparr>))"

text \<open>Only run inside a transaction here; outside one, SQLite would open one.\<close>

definition sql_savepoint :: "string \<Rightarrow> connection \<Rightarrow> (connection, catalog_error) result" where
  "sql_savepoint name c = (case cn_tx c of
     None \<Rightarrow> Err (Refused ''SAVEPOINT'')
   | Some t \<Rightarrow> Ok (c\<lparr> cn_tx := Some (t\<lparr> tx_savepoints := (name, cn_db c) # tx_savepoints t \<rparr>) \<rparr>))"

definition sql_release :: "string \<Rightarrow> connection \<Rightarrow> (connection, catalog_error) result" where
  "sql_release name c = (case cn_tx c of
     None \<Rightarrow> Err (Refused ''RELEASE'')
   | Some t \<Rightarrow> (case dropWhile (\<lambda>(n, _). n \<noteq> name) (tx_savepoints t) of
       [] \<Rightarrow> Err (Refused ''RELEASE'')
     | _ # rest \<Rightarrow> Ok (c\<lparr> cn_tx := Some (t\<lparr> tx_savepoints := rest \<rparr>) \<rparr>)))"

definition sql_rollback_to :: "string \<Rightarrow> connection \<Rightarrow> (connection, catalog_error) result" where
  "sql_rollback_to name c = (case cn_tx c of
     None \<Rightarrow> Err (Refused ''ROLLBACK TO'')
   | Some t \<Rightarrow> (case dropWhile (\<lambda>(n, _). n \<noteq> name) (tx_savepoints t) of
       [] \<Rightarrow> Err (Refused ''ROLLBACK TO'')
     | (n, saved) # rest \<Rightarrow>
         Ok (c\<lparr> cn_db := saved, cn_tx := Some (t\<lparr> tx_savepoints := (n, saved) # rest \<rparr>) \<rparr>)))"

definition sql_commit :: "connection \<Rightarrow> (connection, catalog_error) result" where
  "sql_commit c = (case cn_tx c of
     None \<Rightarrow> Err (Refused ''COMMIT'') | Some _ \<Rightarrow> Ok (c\<lparr> cn_tx := None \<rparr>))"

definition sql_rollback :: "connection \<Rightarrow> (connection, catalog_error) result" where
  "sql_rollback c = (case cn_tx c of
     None \<Rightarrow> Err (Refused ''ROLLBACK'')
   | Some t \<Rightarrow> Ok (c\<lparr> cn_db := tx_base t, cn_tx := None \<rparr>))"

text \<open>What a connection is after SQLite rolled its transaction back on its own.\<close>

definition rolled_back :: "connection \<Rightarrow> connection" where
  "rolled_back c = (case cn_tx c of None \<Rightarrow> c | Some t \<Rightarrow> c\<lparr> cn_db := tx_base t, cn_tx := None \<rparr>)"

definition exec ::
  "(sql_statement \<Rightarrow> sql_fate) \<Rightarrow> sql_statement \<Rightarrow> (connection \<Rightarrow> (connection, catalog_error) result) \<Rightarrow>
     connection \<Rightarrow> (unit, catalog_error) result \<times> connection" where
  "exec fate st f c = (case fate st of
     Runs \<Rightarrow> (case f c of Inl e \<Rightarrow> (Err e, c) | Inr c' \<Rightarrow> (Ok (), c'))
   | Refused_only \<Rightarrow> (Err (Refused []), c)
   | Rolled_back \<Rightarrow> (Err (Refused []), rolled_back c))"

definition OUTCOME_SAVEPOINT :: string where
  "OUTCOME_SAVEPOINT = ''record_model_deployment_outcome''"

definition commit_outcome_transaction ::
  "(sql_statement \<Rightarrow> sql_fate) \<Rightarrow> bool \<Rightarrow> connection \<Rightarrow> (unit, catalog_error) result \<times> connection" where
  "commit_outcome_transaction fate owns c = (case exec fate SqlRelease (sql_release OUTCOME_SAVEPOINT) c of
     (Inl e, c1) \<Rightarrow> (Err e, c1)
   | (Inr _, c1) \<Rightarrow> if owns then exec fate SqlCommit sql_commit c1 else (Ok (), c1))"

text \<open>\<open>let _ = ...\<close>: the error of an undo is dropped.\<close>

definition unwind_outcome_transaction :: "(sql_statement \<Rightarrow> sql_fate) \<Rightarrow> bool \<Rightarrow> connection \<Rightarrow> connection" where
  "unwind_outcome_transaction fate owns c =
    (let c1 = snd (exec fate SqlUndo (sql_rollback_to OUTCOME_SAVEPOINT) c);
         c2 = snd (exec fate SqlUndo (sql_release OUTCOME_SAVEPOINT) c1)
     in if owns then snd (exec fate SqlUndo sql_rollback c2) else c2)"

definition record_model_deployment_outcome ::
  "(sql_statement \<Rightarrow> sql_fate) \<Rightarrow> catalog_db \<Rightarrow> 'a clock_scheme \<Rightarrow> 'b row_codec_scheme \<Rightarrow> string \<Rightarrow>
     outcome_target \<Rightarrow> deployment_outcome \<Rightarrow> evidence_kind \<Rightarrow> int \<Rightarrow> connection \<Rightarrow>
     (health_write, catalog_error) result \<times> connection" where
  "record_model_deployment_outcome fate partial clk rc event_now target outcome evidence now c =
    (if (case outcome_status outcome of Some s \<Rightarrow> is_auth_class_status s | None \<Rightarrow> False)
     then (Ok (Skipped AuthClassStatus), c)
     else
      (let owns = is_autocommit c in
       case (if owns then exec fate SqlBegin sql_begin c else (Ok (), c)) of
         (Inl e, c1) \<Rightarrow> (Err e, c1)
       | (Inr _, c1) \<Rightarrow>
         (case exec fate SqlSavepoint (sql_savepoint OUTCOME_SAVEPOINT) c1 of
           (Inl e, c2) \<Rightarrow> (Err e, if owns then snd (exec fate SqlUndo sql_rollback c2) else c2)
         | (Inr _, c2) \<Rightarrow>
           (case fate SqlBody of
             Refused_only \<Rightarrow> (Err (Refused ''body''), unwind_outcome_transaction fate owns (c2\<lparr> cn_db := partial \<rparr>))
           | Rolled_back \<Rightarrow> (Err (Refused ''body''), unwind_outcome_transaction fate owns (rolled_back (c2\<lparr> cn_db := partial \<rparr>)))
           | Runs \<Rightarrow> (case outcome_body clk rc event_now target outcome evidence now (cn_db c2) of
               Inl e \<Rightarrow> (Err e, unwind_outcome_transaction fate owns c2)
             | Inr (w, db') \<Rightarrow>
               (case commit_outcome_transaction fate owns (c2\<lparr> cn_db := db' \<rparr>) of
                 (Inr _, c3) \<Rightarrow> (Ok w, c3)
               | (Inl e, c3) \<Rightarrow> (Err e, unwind_outcome_transaction fate owns c3)))))))"

section \<open>The connection comes back as it was lent\<close>

text \<open>The connection inside: the savepoint on top, and the transaction the function opened.\<close>

definition inside :: "connection \<Rightarrow> connection" where
  "inside c = c\<lparr> cn_tx := Some (case cn_tx c of
     None \<Rightarrow> \<lparr> tx_base = cn_db c, tx_savepoints = [(OUTCOME_SAVEPOINT, cn_db c)] \<rparr>
   | Some t \<Rightarrow> t\<lparr> tx_savepoints := (OUTCOME_SAVEPOINT, cn_db c) # tx_savepoints t \<rparr>) \<rparr>"

lemmas sql_simps = sql_begin_def sql_savepoint_def sql_release_def sql_rollback_to_def sql_commit_def
  sql_rollback_def exec_def rolled_back_def

text \<open>
  A failed call leaves the connection as it was lent, or, where SQLite rolled back on its own,
  as that leaves it: the same when the function had opened the transaction itself.
\<close>

definition handed_back :: "(sql_statement \<Rightarrow> sql_fate) \<Rightarrow> connection \<Rightarrow> connection \<Rightarrow> bool" where
  "handed_back fate c c' \<longleftrightarrow> c' = c \<or> Rolled_back \<in> range fate \<and> c' = rolled_back c"

lemma handed_back_owned: "is_autocommit c \<Longrightarrow> handed_back fate c c' \<Longrightarrow> c' = c"
  by (auto simp: handed_back_def is_autocommit_def rolled_back_def)

lemma rolled_backI: "fate st = Rolled_back \<Longrightarrow> Rolled_back \<in> range fate"
  by (metis rangeI)

lemma unwind_inside:
  "fate SqlUndo \<noteq> Refused_only \<Longrightarrow> handed_back fate c (unwind_outcome_transaction fate (is_autocommit c) ((inside c)\<lparr> cn_db := x \<rparr>))"
  by (cases c; cases "cn_tx c"; cases "fate SqlUndo")
    (auto simp: handed_back_def unwind_outcome_transaction_def inside_def sql_simps is_autocommit_def Let_def dest: rolled_backI)

lemma unwind_rolled_back:
  "unwind_outcome_transaction fate owns (rolled_back ((inside c)\<lparr> cn_db := x \<rparr>)) = rolled_back c"
  by (cases c; cases "cn_tx c"; cases "fate SqlUndo")
    (auto simp: unwind_outcome_transaction_def inside_def sql_simps Let_def)

lemma commit_inside:
  assumes "fate SqlUndo \<noteq> Refused_only"
  shows "case commit_outcome_transaction fate (is_autocommit c) ((inside c)\<lparr> cn_db := x \<rparr>) of
     (Inr _, c') \<Rightarrow> c' = c\<lparr> cn_db := x \<rparr>
   | (Inl e, c') \<Rightarrow> handed_back fate c (unwind_outcome_transaction fate (is_autocommit c) c')"
  using assms unwind_inside [of fate c x]
  by (cases c; cases "cn_tx c"; cases "fate SqlRelease"; cases "fate SqlCommit"; cases "fate SqlUndo")
    (auto simp: handed_back_def commit_outcome_transaction_def unwind_outcome_transaction_def inside_def sql_simps
      is_autocommit_def Let_def dest: rolled_backI)

lemma entering:
  assumes "fate SqlUndo \<noteq> Refused_only"
  shows "case (if is_autocommit c then exec fate SqlBegin sql_begin c else (Ok (), c)) of
      (Inl e, c1) \<Rightarrow> c1 = c
    | (Inr _, c1) \<Rightarrow> (case exec fate SqlSavepoint (sql_savepoint OUTCOME_SAVEPOINT) c1 of
        (Inl e, c2) \<Rightarrow> handed_back fate c (if is_autocommit c then snd (exec fate SqlUndo sql_rollback c2) else c2)
      | (Inr _, c2) \<Rightarrow> c2 = inside c)"
  using assms
  by (cases c; cases "cn_tx c"; cases "fate SqlBegin"; cases "fate SqlSavepoint"; cases "fate SqlUndo")
    (auto simp: handed_back_def inside_def sql_simps is_autocommit_def dest: rolled_backI)

text \<open>
  Whichever of its forward statements the database refuses while an outcome is recorded, the
  caller gets its connection back as it lent it. If the function fails, the database and the
  open transaction, with the caller's savepoints, are what they were, a partly written body
  included; only a transaction that was lent may be lost, where SQLite itself rolled it back.
  If the function succeeds, the open transaction is what it was and the database is the one
  the body computes from the one it was lent (or is untouched, for an auth-class status).
  The statements that undo are assumed not to be refused without a rollback.
\<close>

lemma outcome_restores_connection:
  assumes "fate SqlUndo \<noteq> Refused_only"
  shows "case record_model_deployment_outcome fate partial clk rc event_now target x ev now c of
      (Inl e, c') \<Rightarrow> handed_back fate c c'
    | (Inr w, c') \<Rightarrow> cn_tx c' = cn_tx c \<and>
        (if w = Skipped AuthClassStatus then cn_db c' = cn_db c
         else outcome_body clk rc event_now target x ev now (cn_db c) = Ok (w, cn_db c'))"
proof -
  have db: "cn_db (inside c) = cn_db c" by (simp add: inside_def)
  have body: "outcome_body clk rc event_now target x ev now (cn_db c) = Ok (w, db') \<Longrightarrow> w \<noteq> Skipped AuthClassStatus" for w db'
    by (auto simp: outcome_body_def Let_def and_then_Inr_iff case_prod_unfold split: option.splits if_splits)
  have same: "(inside c)\<lparr> cn_db := cn_db c \<rparr> = inside c" by (simp add: inside_def)
  note unwind = unwind_inside [where fate = fate and c = c, OF assms]
  note def = record_model_deployment_outcome_def Let_def
  obtain b c1 where c1: "(if is_autocommit c then exec fate SqlBegin sql_begin c else (Ok (), c)) = (b, c1)" by fastforce
  show ?thesis
  proof (cases b)
    case (Inl e)
    then show ?thesis using entering [where fate = fate and c = c, OF assms] c1 by (auto simp: def handed_back_def)
  next
    case b: (Inr u)
    obtain s c2 where c2: "exec fate SqlSavepoint (sql_savepoint OUTCOME_SAVEPOINT) c1 = (s, c2)" by fastforce
    show ?thesis
    proof (cases s)
      case (Inl e)
      then show ?thesis using entering [where fate = fate and c = c, OF assms] c1 b c2 by (simp add: def)
    next
      case s: (Inr v)
      then have i: "c2 = inside c" using entering [where fate = fate and c = c, OF assms] c1 b c2 by simp
      note defs = def c1 b c2 s i db
      show ?thesis
      proof (cases "fate SqlBody")
        case Refused_only
        then show ?thesis using unwind by (simp add: defs)
      next
        case Rolled_back
        then show ?thesis by (auto simp: defs unwind_rolled_back handed_back_def dest: rolled_backI)
      next
        case Runs
        show ?thesis
        proof (cases "outcome_body clk rc event_now target x ev now (cn_db c)")
          case (Inl e)
          then show ?thesis using unwind [of "cn_db c"] Runs by (simp add: defs same)
        next
          case (Inr r)
          obtain w db' where r: "r = (w, db')" by (cases r)
          have new: "w \<noteq> Skipped AuthClassStatus" using body Inr r by simp
          obtain res c3 where "commit_outcome_transaction fate (is_autocommit c) ((inside c)\<lparr> cn_db := db' \<rparr>) = (res, c3)" by fastforce
          then show ?thesis
            using commit_inside [where fate = fate and c = c and x = db', OF assms] Inr new Runs by (cases res) (simp_all add: defs r)
        qed
      qed
    qed
  qed
qed

section \<open>Observations over time\<close>

text \<open>
  An observation is an outcome, its evidence, the instant it was made and the wall clock
  when its event is written; observations are written in the order of the list, whatever
  their instants. A printed instant keeps its milliseconds.
\<close>

type_synonym observation = "deployment_outcome \<times> evidence_kind \<times> int \<times> string"

abbreviation obs_outcome :: "observation \<Rightarrow> deployment_outcome" where "obs_outcome w \<equiv> fst w"
abbreviation obs_at :: "observation \<Rightarrow> int" where "obs_at w \<equiv> fst (snd (snd w))"

definition observe ::
  "'a clock_scheme \<Rightarrow> 'b row_codec_scheme \<Rightarrow> outcome_target \<Rightarrow> observation \<Rightarrow> catalog_db \<Rightarrow> catalog_db" where
  "observe clk rc target w db = (case w of (x, ev, now, wall) \<Rightarrow>
     (case outcome_body clk rc wall target x ev now db of Inr (_, db') \<Rightarrow> db' | Inl _ \<Rightarrow> db))"

definition millis :: "int \<Rightarrow> int" where
  "millis t = t - t mod 1000000"

definition reads_back_at :: "'a clock_scheme \<Rightarrow> int \<Rightarrow> bool" where
  "reads_back_at clk t \<longleftrightarrow> parse_from_rfc3339 clk (to_rfc3339_millis clk t) = Some (millis t)
     \<and> trim (to_rfc3339_millis clk t) = to_rfc3339_millis clk t"

lemma millis_le: "millis t \<le> t"
  by (simp add: millis_def)

lemma millis_mono: "s \<le> t \<Longrightarrow> millis s \<le> millis t"
proof -
  have "millis x = x div 1000000 * 1000000" for x by (simp add: millis_def minus_mod_eq_div_mult)
  then show "s \<le> t \<Longrightarrow> millis s \<le> millis t" by (simp add: zdiv_mono1)
qed

lemma millis_idem: "millis (millis t) = millis t"
  by (simp add: millis_def)

lemma get_row_of_health:
  "bt_wf (db_health db) \<Longrightarrow> get_model_deployment_health (upsert_model_deployment_health h db) i =
     (if i = h_deployment_id h then Some h else get_model_deployment_health db i)"
proof -
  have "Option.bind (map_option evidence_kind_as_str e) evidence_kind_parse = e" for e
    by (cases e) (simp_all add: evidence_kind_wire.parse_spell del: evidence_kind_as_str.simps)
  then show "bt_wf (db_health db) \<Longrightarrow> ?thesis"
    by (simp add: get_model_deployment_health_def bt_simps row_of_health_def)
qed

definition targeted :: "'a row_codec_scheme \<Rightarrow> outcome_target \<Rightarrow> catalog_db \<Rightarrow> bool" where
  "targeted rc target db \<longleftrightarrow> bt_wf (db_health db)
     \<and> (\<exists>d. get_model_deployment rc db (tg_deployment_id target) = Ok (Some d) \<and> describes target d)"

text \<open>One observation of a deployment the target describes.\<close>

lemma observe_targeted:
  assumes "targeted rc target db"
  shows "targeted rc target (observe clk rc target (x, ev, now, wall) db)"
    and "get_model_deployment_health (observe clk rc target (x, ev, now, wall) db) (tg_deployment_id target) =
      (case get_model_deployment_health db (tg_deployment_id target) of
         Some e \<Rightarrow> Some (if is_stale_observation clk e now then e
           else dw_health (record_deployment_outcome clk (base_codec rc) (Some e) (tg_deployment_id target) n x ev now))
       | None \<Rightarrow> Some (dw_health (record_deployment_outcome clk (base_codec rc) None (tg_deployment_id target) n x ev now)))"
proof -
  let ?i = "tg_deployment_id target"
  obtain d where d: "get_model_deployment rc db ?i = Ok (Some d)" "describes target d" and wf: "bt_wf (db_health db)"
    using assms by (auto simp: targeted_def)
  have same: "dw_health (record_deployment_outcome clk (base_codec rc) e ?i m x ev now)
      = dw_health (record_deployment_outcome clk (base_codec rc) e ?i n x ev now)" for e m
    by (simp add: record_deployment_outcome_def Let_def)
  have get: "get_model_deployment rc (snd (append_model_deployment_event wall e (upsert_model_deployment_health h db))) ?i
      = get_model_deployment rc db ?i" for e h
    by (simp add: get_model_deployment_def)
  have health: "get_model_deployment_health (snd (append_model_deployment_event wall e db')) = get_model_deployment_health db'" for e db'
    by (simp add: get_model_deployment_health_def fun_eq_iff)
  have i: "h_deployment_id (dw_health (record_deployment_outcome clk (base_codec rc) e ?i m x ev now)) = ?i" for e m
    by (rule record_parts(1) [OF HOL.refl])
  note body = observe_def outcome_body_def Let_def case_prod_unfold
  show "targeted rc target (observe clk rc target (x, ev, now, wall) db)"
    using d wf get by (auto simp: targeted_def body bt_simps split: option.splits)
  show "get_model_deployment_health (observe clk rc target (x, ev, now, wall) db) ?i =
      (case get_model_deployment_health db ?i of
         Some e \<Rightarrow> Some (if is_stale_observation clk e now then e
           else dw_health (record_deployment_outcome clk (base_codec rc) (Some e) ?i n x ev now))
       | None \<Rightarrow> Some (dw_health (record_deployment_outcome clk (base_codec rc) None ?i n x ev now)))"
    using d wf same by (auto simp: body health get_row_of_health i split: option.split)
qed

lemma targeted_run: "targeted rc target db \<Longrightarrow> targeted rc target (fold (observe clk rc target) ws db)"
  by (induction ws arbitrary: db) (auto simp: observe_targeted(1))

lemma record_health_parts:
  "h_observed_at (dw_health (record_deployment_outcome clk cx e i n x ev now)) = to_rfc3339_millis clk now"
  "h_cooldown_until (dw_health (record_deployment_outcome clk cx e i n x ev now)) =
     (if x = Served then None else (case outcome_cooldown_until x now of
        Some until \<Rightarrow> Some (to_rfc3339_millis clk until)
      | None \<Rightarrow> Option.bind e h_cooldown_until))"
  by (auto simp: record_deployment_outcome_def Let_def new_deployment_health_def split: option.split)

text \<open>
  The last observation wins, by the instant it was made. However a non-empty list of
  observations of one deployment is ordered when it is written, the row that remains is that
  of an observation no other one is later than, to the millisecond the row keeps.
\<close>

lemma last_observation_wins:
  assumes "targeted rc target db" "get_model_deployment_health db (tg_deployment_id target) = None"
    and "ws \<noteq> []" "\<forall>w\<in>set ws. reads_back_at clk (obs_at w)"
  shows "\<exists>h. get_model_deployment_health (fold (observe clk rc target) ws db) (tg_deployment_id target) = Some h
    \<and> (\<exists>w\<in>set ws. h_state h = outcome_state (obs_outcome w) \<and> h_observed_at h = to_rfc3339_millis clk (obs_at w)
        \<and> (\<forall>v\<in>set ws. millis (obs_at v) \<le> millis (obs_at w)))"
  using assms(3,4)
proof (induction ws rule: rev_induct)
  case (snoc v ws)
  obtain x ev now wall where v: "v = (x, ev, now, wall)" by (cases v)
  let ?db = "fold (observe clk rc target) ws db" and ?i = "tg_deployment_id target"
  note t = targeted_run [OF assms(1), of clk ws]
  note new = observe_targeted(2) [OF t, of clk x ev now wall 0]
  note parts = record_parts(2) [OF HOL.refl] record_health_parts(1)
  show ?case
  proof (cases "ws = []")
    case True
    then show ?thesis using new assms(2) by (simp add: v parts)
  next
    case False
    then obtain h w where h: "get_model_deployment_health ?db ?i = Some h" "w \<in> set ws"
      "h_state h = outcome_state (obs_outcome w)" "h_observed_at h = to_rfc3339_millis clk (obs_at w)"
      "\<forall>u\<in>set ws. millis (obs_at u) \<le> millis (obs_at w)"
      using snoc by auto
    have read: "parse_from_rfc3339 clk (h_observed_at h) = Some (millis (obs_at w))"
      using h(2,4) snoc.prems(2) by (simp add: reads_back_at_def)
    show ?thesis
    proof (cases "now < millis (obs_at w)")
      case True
      then have "millis now \<le> millis (obs_at w)" using millis_le [of now] by simp
      then show ?thesis using new h True read by (auto simp: v is_stale_observation_def)
    next
      case no: False
      then have "millis (obs_at w) \<le> millis now" using millis_mono [of "millis (obs_at w)" now] millis_idem by simp
      then have "\<forall>u\<in>set (ws @ [v]). millis (obs_at u) \<le> millis now" using h(5) by (auto simp: v)
      then show ?thesis using new h(1) no read
        by (intro exI conjI) (auto simp: v is_stale_observation_def parts)
    qed
  qed
qed simp

lemma run_cooldown:
  assumes "targeted rc target db" "get_model_deployment_health db (tg_deployment_id target) = None"
    and "\<forall>w\<in>set ws. 0 \<le> obs_at w \<and> obs_at w \<le> T"
    and "get_model_deployment_health (fold (observe clk rc target) ws db) (tg_deployment_id target) = Some h"
    and "h_cooldown_until h = Some c"
  shows "\<exists>until. c = to_rfc3339_millis clk until \<and> 0 \<le> until \<and> until \<le> T + 3600 * second"
  using assms(3-5)
proof (induction ws arbitrary: h c rule: rev_induct)
  case (snoc v ws)
  obtain x ev now wall where v: "v = (x, ev, now, wall)" by (cases v)
  let ?db = "fold (observe clk rc target) ws db" and ?i = "tg_deployment_id target"
  note new = observe_targeted(2) [OF targeted_run [OF assms(1), of clk ws], of clk x ev now wall 0]
  have bought: "outcome_cooldown_until x now = Some until \<Longrightarrow> 0 \<le> until \<and> until \<le> T + 3600 * second" for until
    using outcome_cooldown_bounds [of x now until] snoc.prems(1) by (auto simp: v second_def)
  show ?case
  proof (cases "get_model_deployment_health ?db ?i")
    case None
    then show ?thesis using new snoc.prems bought
      by (auto simp: v record_health_parts split: if_splits option.splits)
  next
    case (Some e)
    then show ?thesis using new snoc bought
      by (auto simp: v record_health_parts split: if_splits option.splits)
  qed
qed (use assms(2) in simp)

text \<open>
  Every cooldown ends. Whatever outcomes are recorded for a deployment, in whatever order
  and whatever \<open>Retry-After\<close> they carry, one hour after the latest of them the cooldown its
  row shows is not in force for the resolver; and a served observation that is not older
  than the ones recorded ends it at once.
\<close>

lemma every_cooldown_ends:
  assumes "targeted rc target db" "get_model_deployment_health db (tg_deployment_id target) = None"
    and "\<forall>w\<in>set ws. 0 \<le> obs_at w \<and> obs_at w \<le> T"
    and "\<forall>t\<in>{0..T + 3600 * second}. reads_back_at clk t"
    and "parse_from_rfc3339 clk (trim observed_at) = Some n" "T + 3600 * second \<le> n"
    and "db' = fold (observe clk rc target) ws db"
  shows "case get_model_deployment_health db' (tg_deployment_id target) of
      None \<Rightarrow> ws = []
    | Some h \<Rightarrow> (h_cooldown_until h = None \<or> \<not> cooldown_in_force (chrono.truncate clk) (h_cooldown_until h) observed_at)
        \<and> map_option h_cooldown_until (get_model_deployment_health
             (observe clk rc target (Served, ev, T, wall) db') (tg_deployment_id target)) = Some None"
proof (cases "get_model_deployment_health db' (tg_deployment_id target)")
  case None
  have "ws = []"
  proof (rule ccontr)
    assume "ws \<noteq> []"
    moreover have "\<forall>w\<in>set ws. reads_back_at clk (obs_at w)" using assms(3,4) by (force simp: second_def)
    ultimately show False using last_observation_wins [OF assms(1,2)] None assms(7) by fastforce
  qed
  then show ?thesis using None by simp
next
  case (Some h)
  have "h_cooldown_until h = None \<or> \<not> cooldown_in_force (chrono.truncate clk) (h_cooldown_until h) observed_at"
  proof (cases "h_cooldown_until h")
    case c: (Some c)
    then obtain until where u: "c = to_rfc3339_millis clk until" "0 \<le> until" "until \<le> T + 3600 * second"
      using run_cooldown [OF assms(1-3)] Some assms(7) by blast
    then have "reads_back_at clk until" using assms(4) by auto
    then show ?thesis using c u assms(5,6) millis_le [of until]
      by (simp add: cooldown_in_force_def chrono.defs reads_back_at_def)
  qed simp
  moreover have "map_option h_cooldown_until (get_model_deployment_health
      (observe clk rc target (Served, ev, T, wall) db') (tg_deployment_id target)) = Some None"
  proof -
    have "ws \<noteq> []" using assms(2,7) Some by auto
    moreover have printed: "\<forall>w\<in>set ws. reads_back_at clk (obs_at w)" using assms(3,4) by (force simp: second_def)
    ultimately obtain w where w: "w \<in> set ws" "h_observed_at h = to_rfc3339_millis clk (obs_at w)"
      using last_observation_wins [OF assms(1,2)] Some assms(7) by (metis option.inject)
    then have "\<not> is_stale_observation clk h T"
      using printed assms(3) millis_le [of "obs_at w"] by (fastforce simp: is_stale_observation_def reads_back_at_def)
    moreover have "targeted rc target db'" using targeted_run [OF assms(1)] assms(7) by simp
    ultimately show ?thesis
      using observe_targeted(2) [of rc target db' clk Served ev T wall 0] Some by (simp add: record_health_parts)
  qed
  ultimately show ?thesis using Some by simp
qed

section \<open>Witnesses\<close>

lemma show_nat_visible: "c \<in> set (show_nat n) \<Longrightarrow> of_char c \<in> {33..<127::nat}"
  using digits_show_nat [of n] by (auto simp: list_all_iff is_ascii_digit_def)

lemma gregorian_reads_back:
  assumes "0 \<le> t" "t < 1000000000000000"
  shows "reads_back_at gregorian_clock t"
proof -
  let ?n = "nat (t div 1000000)"
  have "?n < 2 ^ 64" using assms by (simp add: nat_less_iff zdiv_int)
  moreover have "int ?n * 1000000 = millis t"
    using assms by (simp add: millis_def minus_mod_eq_div_mult)
  moreover have "trim (show_nat ?n) = show_nat ?n"
    by (intro trim_visible show_nat_visible [of _ ?n]) simp_all
  ultimately show ?thesis by (simp add: reads_back_at_def gregorian_clock_def)
qed

lemma demo_targeted:
  "targeted demo_row_codec (deployment_target ''d'') demo_catalog"
  "get_model_deployment_health demo_catalog i = None"
proof -
  show "get_model_deployment_health demo_catalog i = None"
    by (simp add: get_model_deployment_health_def demo_catalog_def upsert_model_deployment_def
        get_model_deployment_def empty_catalog_def append_model_deployment_event_def Let_def)
  have "bt_wf (db_health demo_catalog)"
    using audit_ok_upsert [OF audit_ok_empty demo_import] by (simp add: audit_ok_def tables_ok_def)
  moreover obtain m where "get_model_deployment demo_row_codec demo_catalog ''d'' = Ok (Some m)"
    using upsert_stores [OF demo_import demo_row_codec_laws(2)]
    by (auto simp: empty_catalog_def demo_new_deployment_def observed_deployment_def with_endpoint_ref_def with_expires_at_def)
  ultimately show "targeted demo_row_codec (deployment_target ''d'') demo_catalog"
    by (simp add: targeted_def deployment_target_def describes_def)
qed

definition demo_connection :: connection where
  "demo_connection = \<lparr> cn_db = demo_catalog, cn_tx = None \<rparr>"

lemma outcome_restores_connection_witness:
  "snd (record_model_deployment_outcome ((\<lambda>_. Runs)(SqlCommit := fate)) empty_catalog gregorian_clock demo_row_codec ''5''
      (deployment_target ''d'') Served EvidenceProbed 5000000000 demo_connection) = demo_connection \<or> fate = Runs"
proof (cases "fate = Runs")
  case False
  let ?fate = "(\<lambda>_. Runs)(SqlCommit := fate)"
  have "?fate SqlUndo \<noteq> Refused_only" by simp
  note law = outcome_restores_connection [where fate = ?fate and partial = empty_catalog
      and clk = gregorian_clock and rc = demo_row_codec and event_now = "''5''" and target = "deployment_target ''d''"
      and x = Served and ev = EvidenceProbed and now = 5000000000 and c = demo_connection, OF this]
  have "is_autocommit demo_connection" by (simp add: demo_connection_def is_autocommit_def)
  note mine = handed_back_owned [OF this]
  show ?thesis
  proof (cases "fst (record_model_deployment_outcome ?fate empty_catalog gregorian_clock demo_row_codec ''5''
      (deployment_target ''d'') Served EvidenceProbed 5000000000 demo_connection)")
    case (Inl e)
    then show ?thesis using law mine by (auto split: prod.splits)
  next
    case (Inr w)
    then show ?thesis using False
      by (cases fate)
        (auto simp: record_model_deployment_outcome_def Let_def demo_connection_def sql_simps is_autocommit_def
          commit_outcome_transaction_def split: sum.splits prod.splits)
  qed
qed simp

text \<open>A throttle observed at second 5 is written after the success observed at second 7.\<close>

definition demo_observations :: "observation list" where
  "demo_observations = [(Served, EvidenceProbed, 7 * second, ''7''), (Throttled None, EvidenceProbed, 5 * second, ''8'')]"

lemma last_observation_wins_witness:
  "\<exists>h. get_model_deployment_health (fold (observe gregorian_clock demo_row_codec (deployment_target ''d''))
      demo_observations demo_catalog) ''d'' = Some h \<and> h_state h = ''ok''"
proof -
  have "\<forall>w\<in>set demo_observations. reads_back_at gregorian_clock (obs_at w)"
    by (auto simp: demo_observations_def second_def intro!: gregorian_reads_back)
  then show ?thesis
    using last_observation_wins [OF demo_targeted(1) demo_targeted(2), of demo_observations gregorian_clock]
    by (auto simp: deployment_target_def demo_observations_def second_def millis_def DEPLOYMENT_HEALTH_STATE_OK_def)
qed

lemma every_cooldown_ends_witness:
  "\<exists>h. get_model_deployment_health (fold (observe gregorian_clock demo_row_codec (deployment_target ''d''))
      demo_observations demo_catalog) ''d'' = Some h
    \<and> (h_cooldown_until h = None \<or> \<not> cooldown_in_force (chrono.truncate gregorian_clock) (h_cooldown_until h) ''3607000'')"
proof -
  have "\<forall>t\<in>{0..7 * second + 3600 * second}. reads_back_at gregorian_clock t"
    by (auto simp: second_def intro!: gregorian_reads_back)
  moreover have "trim ''3607000'' = ''3607000''" by (rule trim_visible) simp_all
  then have "parse_from_rfc3339 gregorian_clock (trim ''3607000'') = Some 3607000000000"
    by (simp add: gregorian_clock_def parse_u64_def strip_plus_def is_ascii_digit_def decimal_def digit_value_def)
  moreover have "\<forall>w\<in>set demo_observations. 0 \<le> obs_at w \<and> obs_at w \<le> 7 * second"
    by (auto simp: demo_observations_def second_def)
  ultimately show ?thesis
    using every_cooldown_ends [OF demo_targeted(1) demo_targeted(2), of demo_observations "7 * second" gregorian_clock
        "''3607000''" 3607000000000 _ EvidenceProbed "[]", OF _ _ _ _ HOL.refl]
    by (auto simp: deployment_target_def second_def demo_observations_def split: option.splits)
qed

end
