(* ===== verification/Catalog_Plan.thy ===== *)
theory Catalog_Plan
  imports Catalog_Store
begin

text \<open>
  The reviewed write path of the aliases: the bound plan of
  \<open>crates/memcore/src/catalog/alias_plan.rs\<close>, the alias accessors of
  \<open>crates/memcore/src/db/model_catalog.rs\<close> and the apply of
  \<open>crates/memcore/src/store/model_alias_plan.rs\<close>. The apply runs in one immediate
  transaction that is dropped on an error, so an error carries no database. \<open>wall i\<close> are
  the two readings of the clock made for the \<open>i\<close>-th action, by the row write and by the
  event.
\<close>

section \<open>The plan\<close>

definition ALIAS_PLAN_DIGEST_SCHEME :: string where
  "ALIAS_PLAN_DIGEST_SCHEME = ''bp1''"

record alias_revision_binding =
  ab_alias_name :: string
  ab_revision :: "int option"

record deployment_revision_binding =
  dp_deployment_id :: string
  dp_revision :: "int option"

record alias_plan_bindings =
  pb_policy_revision :: string
  pb_aliases :: "alias_revision_binding list"
  pb_deployments :: "deployment_revision_binding list"

datatype alias_action =
    DeclareAlias string string string "string list"
  | BindDeployment string string int
  | RetireBinding string string
  | RetireAlias string

record bound_alias_plan =
  pl_bindings :: alias_plan_bindings
  pl_actions :: "alias_action list"

fun action_alias :: "alias_action \<Rightarrow> string" where
  "action_alias (DeclareAlias a _ _ _) = a"
| "action_alias (BindDeployment a _ _) = a"
| "action_alias (RetireBinding a _) = a"
| "action_alias (RetireAlias a) = a"

fun action_deployment :: "alias_action \<Rightarrow> string option" where
  "action_deployment (BindDeployment _ d _) = Some d"
| "action_deployment (RetireBinding _ d) = Some d"
| "action_deployment _ = None"

text \<open>The derived serialization, fields in declaration order, an absent revision skipped.\<close>

definition revision_entry :: "int option \<Rightarrow> (string \<times> json) list" where
  "revision_entry r = (case r of None \<Rightarrow> [] | Some n \<Rightarrow> [(''revision'', int_json n)])"

fun action_json :: "alias_action \<Rightarrow> json" where
  "action_json (DeclareAlias a caps cons refs) = JObject
     [(''action'', JString ''declare_alias''), (''alias_name'', JString a),
      (''required_capabilities'', JString caps), (''constraints'', JString cons),
      (''source_refs'', JArray (map JString refs))]"
| "action_json (BindDeployment a d p) = JObject
     [(''action'', JString ''bind_deployment''), (''alias_name'', JString a),
      (''deployment_id'', JString d), (''priority'', int_json p)]"
| "action_json (RetireBinding a d) = JObject
     [(''action'', JString ''retire_binding''), (''alias_name'', JString a), (''deployment_id'', JString d)]"
| "action_json (RetireAlias a) = JObject [(''action'', JString ''retire_alias''), (''alias_name'', JString a)]"

definition plan_json :: "bound_alias_plan \<Rightarrow> json" where
  "plan_json p = JObject
     [(''bindings'', JObject
        [(''policy_revision'', JString (pb_policy_revision (pl_bindings p))),
         (''aliases'', JArray (map (\<lambda>b. JObject ((''alias_name'', JString (ab_alias_name b))
            # revision_entry (ab_revision b))) (pb_aliases (pl_bindings p)))),
         (''deployments'', JArray (map (\<lambda>b. JObject ((''deployment_id'', JString (dp_deployment_id b))
            # revision_entry (dp_revision b))) (pb_deployments (pl_bindings p))))]),
      (''actions'', JArray (map action_json (pl_actions p)))]"

definition alias_plan_digest :: "'a codec_scheme \<Rightarrow> bound_alias_plan \<Rightarrow> string" where
  "alias_plan_digest cx p =
     ALIAS_PLAN_DIGEST_SCHEME @ '':'' @ concat (map hex_byte (sha256 cx (to_text cx (plan_json p))))"

section \<open>Alias rows\<close>

datatype alias_write = ACreated int | AUnchanged int | AAdvanced int

fun alias_write_revision :: "alias_write \<Rightarrow> int" where
  "alias_write_revision (ACreated n) = n"
| "alias_write_revision (AUnchanged n) = n"
| "alias_write_revision (AAdvanced n) = n"

fun alias_write_changed :: "alias_write \<Rightarrow> bool" where
  "alias_write_changed (AUnchanged _) \<longleftrightarrow> False"
| "alias_write_changed _ \<longleftrightarrow> True"

record alias_declaration =
  de_alias_name :: string
  de_required_capabilities :: string
  de_constraints :: string
  de_source_refs :: "string list"

definition row_to_alias :: "'a row_codec_scheme \<Rightarrow> alias_row \<Rightarrow> model_alias" where
  "row_to_alias rc r =
     \<lparr> al_alias_name = w_alias_name r, al_required_capabilities = w_required_capabilities r,
       al_constraints = w_constraints r, al_status = w_status r, al_revision = w_revision r,
       al_policy_digest = w_policy_digest r,
       al_source_refs = (case refs_from_text rc (w_source_refs r) of Some s \<Rightarrow> s | None \<Rightarrow> []),
       al_created_at = w_created_at r, al_updated_at = w_updated_at r \<rparr>"

definition get_model_alias :: "'a row_codec_scheme \<Rightarrow> catalog_db \<Rightarrow> string \<Rightarrow> model_alias option" where
  "get_model_alias rc db a = map_option (row_to_alias rc) (map_of (db_aliases db) a)"

definition list_model_aliases :: "'a row_codec_scheme \<Rightarrow> catalog_db \<Rightarrow> model_alias list" where
  "list_model_aliases rc db = map (row_to_alias rc \<circ> snd) (db_aliases db)"

definition binding_of :: "(string \<times> string) \<times> binding_row \<Rightarrow> model_alias_binding" where
  "binding_of p = (case p of ((a, d), b) \<Rightarrow>
     \<lparr> bd_alias_name = a, bd_deployment_id = d, bd_priority = b_priority b, bd_retired = (b_retired b \<noteq> 0),
       bd_created_at = b_created_at b, bd_updated_at = b_updated_at b \<rparr>)"

definition list_model_alias_bindings :: "catalog_db \<Rightarrow> model_alias_binding list" where
  "list_model_alias_bindings db =
     sort_key (\<lambda>b. (bd_alias_name b, bd_priority b, bd_deployment_id b)) (map binding_of (db_bindings db))"

definition upsert_model_alias ::
  "'a row_codec_scheme \<Rightarrow> string \<Rightarrow> alias_declaration \<Rightarrow> catalog_db \<Rightarrow> alias_write \<times> catalog_db" where
  "upsert_model_alias rc now d db = (case get_model_alias rc db (de_alias_name d) of
     None \<Rightarrow> (ACreated 1, db\<lparr> db_aliases := bt_insert (de_alias_name d)
       \<lparr> w_alias_name = de_alias_name d, w_required_capabilities = de_required_capabilities d,
         w_constraints = de_constraints d, w_status = ALIAS_STATUS_ACTIVE, w_revision = 1,
         w_policy_digest = None, w_source_refs = refs_to_text rc (de_source_refs d),
         w_created_at = now, w_updated_at = now \<rparr> (db_aliases db) \<rparr>)
   | Some old \<Rightarrow>
       if al_status old = ALIAS_STATUS_ACTIVE \<and> al_required_capabilities old = de_required_capabilities d
          \<and> al_constraints old = de_constraints d \<and> al_source_refs old = de_source_refs d
       then (AUnchanged (al_revision old), db)
       else (AAdvanced (al_revision old + 1), db\<lparr> db_aliases := update_row (de_alias_name d)
         (\<lambda>r. r\<lparr> w_required_capabilities := de_required_capabilities d, w_constraints := de_constraints d,
                w_status := ALIAS_STATUS_ACTIVE, w_revision := al_revision old + 1,
                w_source_refs := refs_to_text rc (de_source_refs d), w_updated_at := now \<rparr>) (db_aliases db) \<rparr>))"

definition retire_model_alias ::
  "'a row_codec_scheme \<Rightarrow> string \<Rightarrow> string \<Rightarrow> catalog_db \<Rightarrow> alias_write option \<times> catalog_db" where
  "retire_model_alias rc now a db = (case get_model_alias rc db a of
     None \<Rightarrow> (None, db)
   | Some old \<Rightarrow>
       if al_status old = ALIAS_STATUS_RETIRED then (Some (AUnchanged (al_revision old)), db)
       else (Some (AAdvanced (al_revision old + 1)), db\<lparr> db_aliases := update_row a
         (\<lambda>r. r\<lparr> w_status := ALIAS_STATUS_RETIRED, w_revision := al_revision old + 1, w_updated_at := now \<rparr>)
         (db_aliases db) \<rparr>))"

definition current_alias_revision :: "catalog_db \<Rightarrow> string \<Rightarrow> (int, catalog_error) result" where
  "current_alias_revision db a = (case map_of (db_aliases db) a of
     Some r \<Rightarrow> Ok (w_revision r) | None \<Rightarrow> Err (AliasNotFound a))"

definition advance_alias_revision :: "catalog_db \<Rightarrow> string \<Rightarrow> string \<Rightarrow> (alias_write \<times> catalog_db, catalog_error) result" where
  "advance_alias_revision db a now = and_then (current_alias_revision db a) (\<lambda>n.
     Ok (AAdvanced (n + 1), db\<lparr> db_aliases := update_row a
       (\<lambda>r. r\<lparr> w_revision := n + 1, w_updated_at := now \<rparr>) (db_aliases db) \<rparr>))"

definition bind_model_alias_deployment ::
  "string \<Rightarrow> string \<Rightarrow> string \<Rightarrow> int \<Rightarrow> catalog_db \<Rightarrow> (alias_write \<times> catalog_db, catalog_error) result" where
  "bind_model_alias_deployment now a d priority db = (case map_of (db_bindings db) (a, d) of
     Some b \<Rightarrow>
       if b_priority b = priority \<and> b_retired b = 0
       then and_then (current_alias_revision db a) (\<lambda>n. Ok (AUnchanged n, db))
       else advance_alias_revision (db\<lparr> db_bindings := update_row (a, d)
              (\<lambda>b. b\<lparr> b_priority := priority, b_retired := 0, b_updated_at := now \<rparr>) (db_bindings db) \<rparr>) a now
   | None \<Rightarrow> advance_alias_revision (db\<lparr> db_bindings := bt_insert (a, d)
       \<lparr> b_priority = priority, b_retired = 0, b_created_at = now, b_updated_at = now \<rparr> (db_bindings db) \<rparr>) a now)"

definition retire_model_alias_binding ::
  "string \<Rightarrow> string \<Rightarrow> string \<Rightarrow> catalog_db \<Rightarrow> (alias_write option \<times> catalog_db, catalog_error) result" where
  "retire_model_alias_binding now a d db = (case map_of (db_bindings db) (a, d) of
     None \<Rightarrow> Ok (None, db)
   | Some b \<Rightarrow>
       if b_retired b \<noteq> 0 then and_then (current_alias_revision db a) (\<lambda>n. Ok (Some (AUnchanged n), db))
       else and_then (advance_alias_revision (db\<lparr> db_bindings := update_row (a, d)
              (\<lambda>b. b\<lparr> b_retired := 1, b_updated_at := now \<rparr>) (db_bindings db) \<rparr>) a now)
            (\<lambda>(w, db'). Ok (Some w, db')))"

definition stamp_alias_policy_digest :: "string \<Rightarrow> string \<Rightarrow> catalog_db \<Rightarrow> catalog_db" where
  "stamp_alias_policy_digest a policy_digest db =
     db\<lparr> db_aliases := update_row a (\<lambda>r. r\<lparr> w_policy_digest := Some policy_digest \<rparr>) (db_aliases db) \<rparr>"

definition append_model_alias_event :: "string \<Rightarrow> new_model_alias_event \<Rightarrow> catalog_db \<Rightarrow> int \<times> catalog_db" where
  "append_model_alias_event now e db =
    (let i = db_alias_event_seq db + 1 in
     (i, db\<lparr> db_alias_event_seq := i,
             db_alias_events := db_alias_events db @
               [\<lparr> xv_id = i, xv_alias_name = xn_alias_name e, xv_revision = xn_revision e,
                  xv_event_kind = xn_event_kind e, xv_plan_digest = xn_plan_digest e,
                  xv_evidence = xn_evidence e, xv_created_at = now \<rparr>] \<rparr>))"

definition list_model_alias_events :: "catalog_db \<Rightarrow> string \<Rightarrow> model_alias_event list" where
  "list_model_alias_events db a = filter (\<lambda>e. xv_alias_name e = a) (db_alias_events db)"

definition current_policy_revision :: "'a row_codec_scheme \<Rightarrow> catalog_db \<Rightarrow> string" where
  "current_policy_revision rc db =
     alias_set_policy_revision (base_codec rc) (list_model_aliases rc db) (list_model_alias_bindings db)"

definition current_alias_bindings :: "catalog_db \<Rightarrow> (string \<times> string list) list" where
  "current_alias_bindings db = fold (\<lambda>b. bt_upsert (bd_alias_name b) [] (\<lambda>ds. ds @ [bd_deployment_id b]))
     (filter (\<lambda>b. \<not> bd_retired b) (list_model_alias_bindings db)) []"

section \<open>Verification\<close>

datatype alias_plan_refusal =
    PlanDigestMismatch | PolicyRevisionDrift | AliasRevisionDrift | DeploymentRevisionDrift
  | UnboundAlias | UnboundDeployment | UnknownDeployment | MalformedPlan

datatype plan_error = PlanRefused alias_plan_refusal | PlanStore catalog_error

text \<open>The loop over the names of a binding list: none is blank, none comes twice.\<close>

fun verify_bound_names :: "string list \<Rightarrow> string list \<Rightarrow> (unit, plan_error) result" where
  "verify_bound_names seen [] = Ok ()"
| "verify_bound_names seen (n # ns) =
     (if blank n then Err (PlanRefused MalformedPlan)
      else if n \<in> set seen then Err (PlanRefused MalformedPlan)
      else verify_bound_names (n # seen) ns)"

definition verify_json_object :: "'a codec_scheme \<Rightarrow> string \<Rightarrow> (unit, plan_error) result" where
  "verify_json_object cx raw = (case from_text cx raw of
     Some (JObject _) \<Rightarrow> Ok () | _ \<Rightarrow> Err (PlanRefused MalformedPlan))"

definition verify_action ::
  "'a codec_scheme \<Rightarrow> string list \<Rightarrow> string list \<Rightarrow> (string \<times> string option) list \<Rightarrow> alias_action \<Rightarrow>
     (unit, plan_error) result" where
  "verify_action cx bound_aliases bound_deployments seen act =
     (if blank (action_alias act) then Err (PlanRefused MalformedPlan)
      else if action_alias act \<notin> set bound_aliases then Err (PlanRefused UnboundAlias)
      else if (action_alias act, action_deployment act) \<in> set seen then Err (PlanRefused MalformedPlan)
      else case act of
          DeclareAlias a caps cons refs \<Rightarrow>
            and_then (verify_json_object cx caps) (\<lambda>_. verify_json_object cx cons)
        | RetireAlias a \<Rightarrow> Ok ()
        | _ \<Rightarrow> (case action_deployment act of
            Some d \<Rightarrow> if blank d then Err (PlanRefused MalformedPlan)
                      else if d \<notin> set bound_deployments then Err (PlanRefused UnboundDeployment) else Ok ()
          | None \<Rightarrow> Ok ()))"

fun verify_actions ::
  "'a codec_scheme \<Rightarrow> string list \<Rightarrow> string list \<Rightarrow> (string \<times> string option) list \<Rightarrow> alias_action list \<Rightarrow>
     (unit, plan_error) result" where
  "verify_actions cx bas bds seen [] = Ok ()"
| "verify_actions cx bas bds seen (a # as) = and_then (verify_action cx bas bds seen a)
     (\<lambda>_. verify_actions cx bas bds ((action_alias a, action_deployment a) # seen) as)"

definition verify_plan_shape :: "'a codec_scheme \<Rightarrow> bound_alias_plan \<Rightarrow> (unit, plan_error) result" where
  "verify_plan_shape cx p =
    (let b = pl_bindings p;
         aliases = map ab_alias_name (pb_aliases b); deployments = map dp_deployment_id (pb_deployments b)
     in if blank (pb_policy_revision b) then Err (PlanRefused MalformedPlan)
        else and_then (verify_bound_names [] aliases) (\<lambda>_.
             and_then (verify_bound_names [] deployments) (\<lambda>_.
             verify_actions cx aliases deployments [] (pl_actions p))))"

definition verify_policy_revision :: "'a row_codec_scheme \<Rightarrow> catalog_db \<Rightarrow> bound_alias_plan \<Rightarrow> (unit, plan_error) result" where
  "verify_policy_revision rc db p =
     (if current_policy_revision rc db \<noteq> pb_policy_revision (pl_bindings p)
      then Err (PlanRefused PolicyRevisionDrift) else Ok ())"

fun verify_alias_bindings :: "'a row_codec_scheme \<Rightarrow> catalog_db \<Rightarrow> alias_revision_binding list \<Rightarrow> (unit, plan_error) result" where
  "verify_alias_bindings rc db [] = Ok ()"
| "verify_alias_bindings rc db (b # bs) =
     (if map_option al_revision (get_model_alias rc db (ab_alias_name b)) \<noteq> ab_revision b
      then Err (PlanRefused AliasRevisionDrift) else verify_alias_bindings rc db bs)"

definition verify_aliases :: "'a row_codec_scheme \<Rightarrow> catalog_db \<Rightarrow> bound_alias_plan \<Rightarrow> (unit, plan_error) result" where
  "verify_aliases rc db p = verify_alias_bindings rc db (pb_aliases (pl_bindings p))"

fun bind_target :: "alias_action \<Rightarrow> string option" where
  "bind_target (BindDeployment _ d _) = Some d"
| "bind_target _ = None"

fun verify_deployment_bindings ::
  "'a row_codec_scheme \<Rightarrow> catalog_db \<Rightarrow> string list \<Rightarrow> deployment_revision_binding list \<Rightarrow> (unit, plan_error) result" where
  "verify_deployment_bindings rc db binds [] = Ok ()"
| "verify_deployment_bindings rc db binds (b # bs) = (case get_model_deployment rc db (dp_deployment_id b) of
     Inl e \<Rightarrow> Err (PlanStore e)
   | Inr row \<Rightarrow>
       if map_option md_revision row \<noteq> dp_revision b then Err (PlanRefused DeploymentRevisionDrift)
       else if row = None \<and> dp_deployment_id b \<in> set binds then Err (PlanRefused UnknownDeployment)
       else verify_deployment_bindings rc db binds bs)"

definition verify_deployments :: "'a row_codec_scheme \<Rightarrow> catalog_db \<Rightarrow> bound_alias_plan \<Rightarrow> (unit, plan_error) result" where
  "verify_deployments rc db p =
     verify_deployment_bindings rc db (List.map_filter bind_target (pl_actions p)) (pb_deployments (pl_bindings p))"

section \<open>Execution\<close>

record alias_apply_report =
  rp_plan_digest :: string
  rp_changed :: bool
  rp_aliases_declared :: "(string \<times> int) list"
  rp_aliases_retired :: "(string \<times> int) list"
  rp_bindings_bound :: "(string \<times> string) list"
  rp_bindings_retired :: "(string \<times> string) list"
  rp_policy_revision :: string

text \<open>\<open>AliasEvent::append\<close>.\<close>

definition alias_event_append ::
  "string \<Rightarrow> string \<Rightarrow> string \<Rightarrow> alias_event_kind \<Rightarrow> string \<Rightarrow> int \<Rightarrow> catalog_db \<Rightarrow> catalog_db" where
  "alias_event_append now plan_digest a kind evidence revision db =
     snd (append_model_alias_event now
       (alias_with_evidence evidence (alias_with_plan_digest plan_digest (new_alias_event a revision kind))) db)"

text \<open>\<open>record\<close>: logs and reports an alias-level write, or does neither.\<close>

definition record_alias_write ::
  "string \<Rightarrow> string \<Rightarrow> alias_write \<Rightarrow> string \<Rightarrow> alias_event_kind \<Rightarrow> catalog_db \<Rightarrow> (string \<times> int) list \<times> catalog_db" where
  "record_alias_write now plan_digest write a kind db =
     (if \<not> alias_write_changed write then ([], db)
      else ([(a, alias_write_revision write)],
            alias_event_append now plan_digest a kind ''{}'' (alias_write_revision write) db))"

definition run_action ::
  "'a row_codec_scheme \<Rightarrow> string \<times> string \<Rightarrow> string \<Rightarrow> alias_action \<Rightarrow> alias_apply_report \<Rightarrow> catalog_db \<Rightarrow>
     (alias_apply_report \<times> catalog_db, plan_error) result" where
  "run_action rc wall plan_digest act report db = (case act of
     DeclareAlias a caps cons refs \<Rightarrow>
       (let (write, db1) = upsert_model_alias rc (fst wall)
              \<lparr> de_alias_name = a, de_required_capabilities = caps, de_constraints = cons, de_source_refs = refs \<rparr> db;
            kind = (case write of ACreated _ \<Rightarrow> AliasDeclared | _ \<Rightarrow> AliasUpdated);
            (entry, db2) = record_alias_write (snd wall) plan_digest write a kind db1
        in Ok (report\<lparr> rp_aliases_declared := rp_aliases_declared report @ entry \<rparr>, db2))
   | RetireAlias a \<Rightarrow> (case retire_model_alias rc (fst wall) a db of
       (None, db1) \<Rightarrow> Ok (report, db1)
     | (Some write, db1) \<Rightarrow>
         (let (entry, db2) = record_alias_write (snd wall) plan_digest write a AliasRetired db1
          in Ok (report\<lparr> rp_aliases_retired := rp_aliases_retired report @ entry \<rparr>, db2)))
   | BindDeployment a d priority \<Rightarrow> (case bind_model_alias_deployment (fst wall) a d priority db of
       Inl e \<Rightarrow> Err (PlanStore e)
     | Inr (write, db1) \<Rightarrow>
         if alias_write_changed write then
           Ok (report\<lparr> rp_bindings_bound := rp_bindings_bound report @ [(a, d)] \<rparr>,
               alias_event_append (snd wall) plan_digest a AliasBindingBound
                 (to_text rc (json_object [(''deployment_id'', JString d), (''priority'', int_json priority)]))
                 (alias_write_revision write) db1)
         else Ok (report, db1))
   | RetireBinding a d \<Rightarrow> (case retire_model_alias_binding (fst wall) a d db of
       Inl e \<Rightarrow> Err (PlanStore e)
     | Inr (None, db1) \<Rightarrow> Ok (report, db1)
     | Inr (Some write, db1) \<Rightarrow>
         if alias_write_changed write then
           Ok (report\<lparr> rp_bindings_retired := rp_bindings_retired report @ [(a, d)] \<rparr>,
               alias_event_append (snd wall) plan_digest a AliasBindingRetired
                 (to_text rc (json_object [(''deployment_id'', JString d)])) (alias_write_revision write) db1)
         else Ok (report, db1)))"

fun run_actions ::
  "'a row_codec_scheme \<Rightarrow> (nat \<Rightarrow> string \<times> string) \<Rightarrow> string \<Rightarrow> nat \<Rightarrow> alias_action list \<Rightarrow> alias_apply_report \<Rightarrow> catalog_db \<Rightarrow>
     (alias_apply_report \<times> catalog_db, plan_error) result" where
  "run_actions rc wall plan_digest i [] report db = Ok (report, db)"
| "run_actions rc wall plan_digest i (a # as) report db =
     and_then (run_action rc (wall i) plan_digest a report db)
       (\<lambda>(report', db'). run_actions rc wall plan_digest (Suc i) as report' db')"

definition stamp_active :: "'a row_codec_scheme \<Rightarrow> string \<Rightarrow> catalog_db \<Rightarrow> catalog_db" where
  "stamp_active rc policy db =
     fold (\<lambda>a db. if al_status a = ALIAS_STATUS_ACTIVE then stamp_alias_policy_digest (al_alias_name a) policy db else db)
       (list_model_aliases rc db) db"

definition apply_model_alias_plan ::
  "'a row_codec_scheme \<Rightarrow> (nat \<Rightarrow> string \<times> string) \<Rightarrow> bound_alias_plan \<Rightarrow> string \<Rightarrow> catalog_db \<Rightarrow>
     (alias_apply_report \<times> catalog_db, plan_error) result" where
  "apply_model_alias_plan rc wall p declared_digest db =
    (let recomputed = alias_plan_digest rc p in
     if recomputed \<noteq> declared_digest then Err (PlanRefused PlanDigestMismatch)
     else and_then (verify_plan_shape rc p) (\<lambda>_.
          and_then (verify_aliases rc db p) (\<lambda>_.
          and_then (verify_deployments rc db p) (\<lambda>_.
          and_then (verify_policy_revision rc db p) (\<lambda>_.
          and_then (run_actions rc wall recomputed 0 (pl_actions p)
              \<lparr> rp_plan_digest = recomputed, rp_changed = False, rp_aliases_declared = [], rp_aliases_retired = [],
                rp_bindings_bound = [], rp_bindings_retired = [],
                rp_policy_revision = pb_policy_revision (pl_bindings p) \<rparr> db) (\<lambda>(report, db1).
            let changed = (rp_aliases_declared report \<noteq> [] \<or> rp_aliases_retired report \<noteq> []
                  \<or> rp_bindings_bound report \<noteq> [] \<or> rp_bindings_retired report \<noteq> [])
            in if changed then
                 (let policy = current_policy_revision rc db1
                  in Ok (report\<lparr> rp_changed := True, rp_policy_revision := policy \<rparr>, stamp_active rc policy db1))
               else Ok (report\<lparr> rp_changed := False \<rparr>, db1)))))))"

section \<open>What an action does\<close>

definition rev_of :: "catalog_db \<Rightarrow> string \<Rightarrow> int option" where
  "rev_of db a = map_option w_revision (map_of (db_aliases db) a)"

definition newest_event :: "catalog_db \<Rightarrow> string \<Rightarrow> int option" where
  "newest_event db a = (case list_model_alias_events db a of [] \<Rightarrow> None | es \<Rightarrow> Some (xv_revision (last es)))"

definition aliases_keyed :: "catalog_db \<Rightarrow> bool" where
  "aliases_keyed db \<longleftrightarrow> bt_wf (db_aliases db) \<and> (\<forall>(a, r)\<in>set (db_aliases db). w_alias_name r = a)"

definition reported :: "alias_apply_report \<Rightarrow> bool" where
  "reported r \<longleftrightarrow> rp_aliases_declared r \<noteq> [] \<or> rp_aliases_retired r \<noteq> [] \<or> rp_bindings_bound r \<noteq> [] \<or> rp_bindings_retired r \<noteq> []"

text \<open>An advance of one alias: its revision moves by one, from nothing to 1, together with
  one event of that revision; the other aliases, the deployments and the keys stay.\<close>

definition advances_alias :: "string \<Rightarrow> catalog_db \<Rightarrow> catalog_db \<Rightarrow> bool" where
  "advances_alias a db db' \<longleftrightarrow>
     (\<exists>n e. rev_of db' a = Some n \<and> (rev_of db a = None \<and> n = 1 \<or> rev_of db a = Some (n - 1))
        \<and> db_alias_events db' = db_alias_events db @ [e] \<and> xv_alias_name e = a \<and> xv_revision e = n)
     \<and> (\<forall>b. b \<noteq> a \<longrightarrow> map_of (db_aliases db') b = map_of (db_aliases db) b)
     \<and> db_deployments db' = db_deployments db
     \<and> (aliases_keyed db \<longrightarrow> aliases_keyed db')"

lemma alias_event_simps [simp]:
  "db_aliases (alias_event_append now pd a k ev n db) = db_aliases db"
  "db_bindings (alias_event_append now pd a k ev n db) = db_bindings db"
  "db_deployments (alias_event_append now pd a k ev n db) = db_deployments db"
  "\<exists>e. db_alias_events (alias_event_append now pd a k ev n db) = db_alias_events db @ [e] \<and> xv_alias_name e = a \<and> xv_revision e = n"
  by (simp_all add: alias_event_append_def append_model_alias_event_def new_alias_event_def
      alias_with_evidence_def alias_with_plan_digest_def Let_def)

lemma keyed_update:
  "aliases_keyed db \<Longrightarrow> (\<And>r. w_alias_name (f r) = w_alias_name r) \<Longrightarrow>
     aliases_keyed (db\<lparr> db_aliases := update_row a f (db_aliases db) \<rparr>)"
  by (auto simp: aliases_keyed_def) (auto simp: update_row_def split: if_splits)

lemma set_bt_insert: "bt_wf m \<Longrightarrow> set (bt_insert k v m) \<subseteq> insert (k, v) (set m)"
proof
  fix p assume "bt_wf m" "p \<in> set (bt_insert k v m)"
  then have "map_of (bt_insert k v m) (fst p) = Some (snd p)"
    using bt_wf_distinct [OF bt_wf_insert, of m k v] by (cases p) simp
  then show "p \<in> insert (k, v) (set m)"
    using \<open>bt_wf m\<close> map_of_SomeD [of m "fst p" "snd p"] by (cases p) (auto simp: bt_simps split: if_splits)
qed

lemma advances_aliasI:
  assumes "map_of (db_aliases db) a = None \<and> n = 1 \<or> (\<exists>r. map_of (db_aliases db) a = Some r \<and> n = w_revision r + 1)"
    and "map_option w_revision (map_of (db_aliases db1) a) = Some n"
    and "\<And>b. b \<noteq> a \<Longrightarrow> map_of (db_aliases db1) b = map_of (db_aliases db) b"
    and "db_alias_events db1 = db_alias_events db" "db_deployments db1 = db_deployments db"
    and "aliases_keyed db \<Longrightarrow> aliases_keyed db1"
  shows "advances_alias a db (alias_event_append now pd a k ev n db1)"
proof -
  obtain e where "db_alias_events (alias_event_append now pd a k ev n db1) = db_alias_events db @ [e]"
    "xv_alias_name e = a" "xv_revision e = n"
    using alias_event_simps(4) [of now pd a k ev n db1] assms(4) by auto
  then show ?thesis
    using assms by (auto simp: advances_alias_def rev_of_def aliases_keyed_def)
qed

lemma advance_revision_effect:
  assumes "advance_alias_revision (db\<lparr> db_bindings := B \<rparr>) a now = Ok (w, db1)"
  shows "alias_write_changed w \<and> advances_alias a db (alias_event_append now' pd a k ev (alias_write_revision w) db1)"
proof -
  obtain r where r: "map_of (db_aliases db) a = Some r" "w = AAdvanced (w_revision r + 1)"
    "db1 = db\<lparr> db_bindings := B, db_aliases := update_row a (\<lambda>r'. r'\<lparr> w_revision := w_revision r + 1, w_updated_at := now \<rparr>) (db_aliases db) \<rparr>"
    using assms by (auto simp: advance_alias_revision_def current_alias_revision_def and_then_Inr_iff split: option.splits)
  have "aliases_keyed db \<Longrightarrow> aliases_keyed db1"
    using keyed_update [of db "\<lambda>r'. r'\<lparr> w_revision := w_revision r + 1, w_updated_at := now \<rparr>" a]
    by (simp add: r(3) aliases_keyed_def)
  then show ?thesis using r by (auto intro!: advances_aliasI)
qed

lemma upsert_alias_effect:
  assumes "upsert_model_alias rc now d db = (w, db1)"
  shows "(\<not> alias_write_changed w \<and> db1 = db)
    \<or> (alias_write_changed w \<and> advances_alias (de_alias_name d) db
         (alias_event_append now' pd (de_alias_name d) k ev (alias_write_revision w) db1))"
proof (cases "map_of (db_aliases db) (de_alias_name d)")
  case None
  then have db1: "w = ACreated 1" "\<exists>r. db1 = db\<lparr> db_aliases := bt_insert (de_alias_name d) r (db_aliases db) \<rparr>
      \<and> w_alias_name r = de_alias_name d \<and> w_revision r = 1"
    using assms by (auto simp: upsert_model_alias_def get_model_alias_def)
  then obtain r where r: "db1 = db\<lparr> db_aliases := bt_insert (de_alias_name d) r (db_aliases db) \<rparr>"
    "w_alias_name r = de_alias_name d" "w_revision r = 1" by blast
  show ?thesis
  proof (cases "bt_wf (db_aliases db)")
    case wf: True
    have "aliases_keyed db \<Longrightarrow> aliases_keyed db1"
      using set_bt_insert [OF wf, of "de_alias_name d" r] r by (auto simp: aliases_keyed_def bt_simps)
    then show ?thesis using None r db1(1) wf by (auto intro!: advances_aliasI simp: bt_simps)
  next
    case False
    have "map_of (bt_upsert k v f m) j = (if j = k then Some (f v) else map_of m j)"
      if "map_of m k = None" for m :: "(string \<times> alias_row) list" and k v f j
      using that by (induction m rule: bt_upsert.induct [of _ k v f]) (auto split: if_splits)
    then have "map_of (db_aliases db1) j = (if j = de_alias_name d then Some r else map_of (db_aliases db) j)" for j
      using None r by (simp add: bt_insert_def)
    then show ?thesis using None r db1(1) False by (auto intro!: advances_aliasI simp: aliases_keyed_def)
  qed
next
  case (Some r)
  then show ?thesis
    using assms keyed_update
    by (auto simp: upsert_model_alias_def get_model_alias_def row_to_alias_def split: if_splits intro!: advances_aliasI)
qed

lemma retire_alias_effect:
  assumes "retire_model_alias rc now a db = (w, db1)"
  shows "(w = None \<and> db1 = db) \<or> (\<exists>v. w = Some v \<and> (\<not> alias_write_changed v \<and> db1 = db
     \<or> alias_write_changed v \<and> advances_alias a db (alias_event_append now' pd a k ev (alias_write_revision v) db1)))"
  using assms keyed_update
  by (auto simp: retire_model_alias_def get_model_alias_def row_to_alias_def split: option.splits if_splits intro!: advances_aliasI)

text \<open>An action either changes nothing, the report included, or advances its alias and is reported.\<close>

lemma action_effect:
  assumes "run_action rc wall pd act report db = Ok (report', db')"
  shows "(report' = report \<and> db' = db) \<or> (reported report' \<and> advances_alias (action_alias act) db db')"
proof (cases act)
  case (DeclareAlias a caps cons refs)
  obtain w db1 where w: "upsert_model_alias rc (fst wall)
      \<lparr> de_alias_name = a, de_required_capabilities = caps, de_constraints = cons, de_source_refs = refs \<rparr> db = (w, db1)"
    by (cases "upsert_model_alias rc (fst wall)
      \<lparr> de_alias_name = a, de_required_capabilities = caps, de_constraints = cons, de_source_refs = refs \<rparr> db")
  show ?thesis
    using assms DeclareAlias w upsert_alias_effect [OF w, of "snd wall" pd _ "''{}''"]
    by (auto simp: run_action_def Let_def record_alias_write_def reported_def split: if_splits)
next
  case (RetireAlias a)
  obtain w db1 where w: "retire_model_alias rc (fst wall) a db = (w, db1)"
    by (cases "retire_model_alias rc (fst wall) a db")
  show ?thesis
    using assms RetireAlias w retire_alias_effect [OF w, of "snd wall" pd AliasRetired "''{}''"]
    by (auto simp: run_action_def Let_def record_alias_write_def reported_def split: if_splits)
next
  case (BindDeployment a d p)
  obtain w db1 where w: "bind_model_alias_deployment (fst wall) a d p db = Ok (w, db1)"
    using assms BindDeployment by (auto simp: run_action_def split: sum.splits)
  show ?thesis
  proof (cases "alias_write_changed w")
    case True
    then obtain B where "advance_alias_revision (db\<lparr> db_bindings := B \<rparr>) a (fst wall) = Ok (w, db1)"
      using w by (auto simp: bind_model_alias_deployment_def and_then_Inr_iff split: option.splits if_splits)
    then show ?thesis
      using advance_revision_effect assms BindDeployment w True by (auto simp: run_action_def reported_def)
  next
    case False
    then have "db1 = db"
      using w by (auto simp: bind_model_alias_deployment_def advance_alias_revision_def and_then_Inr_iff split: option.splits if_splits)
    then show ?thesis using assms BindDeployment w False by (auto simp: run_action_def)
  qed
next
  case (RetireBinding a d)
  obtain w db1 where w: "retire_model_alias_binding (fst wall) a d db = Ok (w, db1)"
    using assms RetireBinding by (auto simp: run_action_def split: sum.splits)
  show ?thesis
  proof (cases "\<exists>v. w = Some v \<and> alias_write_changed v")
    case True
    then obtain v where v: "w = Some v" "alias_write_changed v" by blast
    then obtain B where "advance_alias_revision (db\<lparr> db_bindings := B \<rparr>) a (fst wall) = Ok (v, db1)"
      using w by (auto simp: retire_model_alias_binding_def and_then_Inr_iff split: option.splits if_splits)
    then show ?thesis
      using advance_revision_effect assms RetireBinding w v by (auto simp: run_action_def reported_def)
  next
    case False
    then have "db1 = db"
      using w by (auto simp: retire_model_alias_binding_def advance_alias_revision_def and_then_Inr_iff split: option.splits if_splits)
    then show ?thesis using assms RetireBinding w False by (auto simp: run_action_def split: option.splits)
  qed
qed

lemma advances_alias_frame:
  assumes "advances_alias a db db'"
  shows "rev_of db' b = (if b = a then Some (case rev_of db a of None \<Rightarrow> 1 | Some n \<Rightarrow> n + 1) else rev_of db b)"
    and "db_deployments db' = db_deployments db" and "aliases_keyed db \<Longrightarrow> aliases_keyed db'"
  using assms by (auto simp: advances_alias_def rev_of_def)

text \<open>\<open>moved_on db db'\<close>: no alias revision went back.\<close>

definition moved_on :: "catalog_db \<Rightarrow> catalog_db \<Rightarrow> bool" where
  "moved_on db db' \<longleftrightarrow> (\<forall>a n. rev_of db a = Some n \<longrightarrow> (\<exists>m\<ge>n. rev_of db' a = Some m))"

definition passed :: "string \<Rightarrow> catalog_db \<Rightarrow> catalog_db \<Rightarrow> bool" where
  "passed a db db' \<longleftrightarrow> (\<exists>m. rev_of db' a = Some m \<and> (\<forall>n. rev_of db a = Some n \<longrightarrow> n < m))"

lemma moved_on_refl [simp]: "moved_on db db"
  by (auto simp: moved_on_def)

lemma moved_on_trans: "moved_on db db1 \<Longrightarrow> moved_on db1 db2 \<Longrightarrow> moved_on db db2"
  unfolding moved_on_def by (meson order_trans)

lemma advances_moved_on: "advances_alias a db db' \<Longrightarrow> moved_on db db' \<and> passed a db db'"
  using advances_alias_frame(1) [of a db db'] by (auto simp: moved_on_def passed_def split: option.splits)

lemma passed_on: "passed a db db1 \<Longrightarrow> moved_on db1 db2 \<Longrightarrow> passed a db db2"
  unfolding passed_def moved_on_def by (meson order_less_le_trans)

lemma passed_before: "moved_on db db1 \<Longrightarrow> passed a db1 db2 \<Longrightarrow> passed a db db2"
  unfolding passed_def moved_on_def by (metis order_le_less_trans)

lemma passed_differs: "passed a db db' \<Longrightarrow> rev_of db' a \<noteq> rev_of db a"
  by (auto simp: passed_def)

section \<open>What a run of actions does\<close>

lemma reported_stays:
  assumes "run_action rc wall pd act report db = Ok (report', db')" "reported report"
  shows "reported report'"
  using assms
  by (auto simp: run_action_def reported_def Let_def split: alias_action.splits prod.splits sum.splits option.splits if_splits)

lemma run_reported_stays:
  "run_actions rc wall pd i as report db = Ok (report', db') \<Longrightarrow> reported report \<Longrightarrow> reported report'"
  by (induction as arbitrary: i report db) (auto simp: and_then_Inr_iff dest: reported_stays)

text \<open>A run that reports nothing did nothing; one that reports moved the revision of an alias it names.\<close>

lemma run_effect:
  assumes "run_actions rc wall pd i as report db = Ok (report', db')"
  shows "moved_on db db' \<and> (\<not> reported report' \<longrightarrow> db' = db)
    \<and> (reported report' \<longrightarrow> reported report \<or> (\<exists>act\<in>set as. passed (action_alias act) db db'))"
  using assms
proof (induction as arbitrary: i report db)
  case (Cons act as)
  then obtain report1 db1 where one: "run_action rc (wall i) pd act report db = Ok (report1, db1)"
    and rest: "run_actions rc wall pd (Suc i) as report1 db1 = Ok (report', db')"
    by (auto simp: and_then_Inr_iff)
  note IH = Cons.IH [OF rest]
  from action_effect [OF one] show ?case
  proof
    assume "report1 = report \<and> db1 = db"
    then show ?thesis using IH by auto
  next
    assume "reported report1 \<and> advances_alias (action_alias act) db db1"
    then have *: "reported report'" "moved_on db db1" "passed (action_alias act) db db1"
      using run_reported_stays [OF rest] advances_moved_on by auto
    then show ?thesis using IH moved_on_trans passed_on [OF *(3)] by auto
  qed
qed simp

lemma run_preserves:
  assumes "run_actions rc wall pd i as report db = Ok (report', db')"
    and "P db" and "\<And>a d d'. P d \<Longrightarrow> advances_alias a d d' \<Longrightarrow> P d'"
  shows "P db'"
  using assms(1,2)
proof (induction as arbitrary: i report db)
  case (Cons act as)
  then obtain report1 db1 where one: "run_action rc (wall i) pd act report db = Ok (report1, db1)"
    and rest: "run_actions rc wall pd (Suc i) as report1 db1 = Ok (report', db')"
    by (auto simp: and_then_Inr_iff)
  have "P db1" using action_effect [OF one] Cons.prems(2) assms(3) by auto
  then show ?case using Cons.IH [OF rest] by simp
qed simp

section \<open>What the stamp does\<close>

definition stamp_row :: "string \<Rightarrow> alias_row \<Rightarrow> alias_row" where
  "stamp_row p r = (if w_status r = ALIAS_STATUS_ACTIVE then r\<lparr> w_policy_digest := Some p \<rparr> else r)"

lemma update_row_twice:
  assumes "\<And>r. g (g r) = g r"
  shows "map (\<lambda>(k, r). (k, if k \<in> S then g r else r)) (update_row a g m) = map (\<lambda>(k, r). (k, if k \<in> insert a S then g r else r)) m"
  by (auto simp: update_row_def assms)

definition stamp_names :: "string \<Rightarrow> string set \<Rightarrow> catalog_db \<Rightarrow> catalog_db" where
  "stamp_names p S db = db\<lparr> db_aliases :=
     map (\<lambda>(k, r). (k, if k \<in> S then r\<lparr> w_policy_digest := Some p \<rparr> else r)) (db_aliases db) \<rparr>"

lemma stamp_names_insert: "stamp_names p S (stamp_alias_policy_digest a p db) = stamp_names p (insert a S) db"
  using update_row_twice [where g = "\<lambda>r. r\<lparr> w_policy_digest := Some p \<rparr>" and S = S and a = a and m = "db_aliases db"]
  by (simp add: stamp_names_def stamp_alias_policy_digest_def del: insert_iff)

lemma stamp_fold:
  "fold (\<lambda>a db. if al_status a = ALIAS_STATUS_ACTIVE then stamp_alias_policy_digest (al_alias_name a) p db else db) as db
   = stamp_names p (al_alias_name ` {a \<in> set as. al_status a = ALIAS_STATUS_ACTIVE}) db"
proof (induction as arbitrary: db)
  case Nil
  show ?case by (simp add: stamp_names_def)
next
  case (Cons a as)
  have "al_alias_name ` {x \<in> set (a # as). al_status x = ALIAS_STATUS_ACTIVE}
      = (if al_status a = ALIAS_STATUS_ACTIVE then insert (al_alias_name a) else id)
          (al_alias_name ` {x \<in> set as. al_status x = ALIAS_STATUS_ACTIVE})" by auto
  then show ?case by (simp only: fold_simps Cons.IH stamp_names_insert id_apply split: if_split) simp
qed

lemma stamp_active_eq:
  assumes "aliases_keyed db"
  shows "stamp_active rc p db = db\<lparr> db_aliases := map (\<lambda>(k, r). (k, stamp_row p r)) (db_aliases db) \<rparr>"
proof -
  let ?act = "{a \<in> set (list_model_aliases rc db). al_status a = ALIAS_STATUS_ACTIVE}"
  have "k \<in> al_alias_name ` ?act \<longleftrightarrow> w_status r = ALIAS_STATUS_ACTIVE" if kr: "(k, r) \<in> set (db_aliases db)" for k r
  proof
    assume "k \<in> al_alias_name ` ?act"
    then obtain k' r' where r': "(k', r') \<in> set (db_aliases db)" "w_status r' = ALIAS_STATUS_ACTIVE" "w_alias_name r' = k"
      by (auto simp: list_model_aliases_def row_to_alias_def)
    then have "k' = k" using assms by (auto simp: aliases_keyed_def)
    then have "r' = r"
      using r'(1) kr assms bt_wf_distinct [of "db_aliases db"] eq_key_imp_eq_value [of "db_aliases db" k r' r]
      by (simp add: aliases_keyed_def)
    then show "w_status r = ALIAS_STATUS_ACTIVE" using r' by simp
  next
    assume r: "w_status r = ALIAS_STATUS_ACTIVE"
    have "row_to_alias rc r \<in> ?act" using kr r by (force simp: list_model_aliases_def row_to_alias_def)
    moreover have "al_alias_name (row_to_alias rc r) = k" using kr assms by (auto simp: aliases_keyed_def row_to_alias_def)
    ultimately show "k \<in> al_alias_name ` ?act" by (metis image_eqI)
  qed
  then have "map (\<lambda>(k, r). (k, if k \<in> al_alias_name ` ?act then r\<lparr> w_policy_digest := Some p \<rparr> else r)) (db_aliases db)
      = map (\<lambda>(k, r). (k, stamp_row p r)) (db_aliases db)"
    by (intro map_cong) (auto simp: stamp_row_def)
  then show ?thesis unfolding stamp_active_def stamp_fold stamp_names_def by simp
qed

lemma sort_key_map: "sort_key f (map h xs) = map h (sort_key (f \<circ> h) xs)"
proof -
  have "insort_key f (h x) (map h ys) = map h (insort_key (f \<circ> h) x ys)" for x ys
    by (induction ys) auto
  then show ?thesis by (induction xs) auto
qed

lemma stamp_keeps_policy:
  assumes "aliases_keyed db"
  shows "current_policy_revision rc (stamp_active rc p db) = current_policy_revision rc db"
proof -
  define h :: "model_alias \<Rightarrow> model_alias" where "h = (\<lambda>a. if al_status a = ALIAS_STATUS_ACTIVE then a\<lparr> al_policy_digest := Some p \<rparr> else a)"
  have h: "al_alias_name \<circ> h = al_alias_name" "\<And>a. al_status (h a) = al_status a"
    "\<And>bs a. alias_json (base_codec rc) bs (h a) = alias_json (base_codec rc) bs a"
    by (auto simp: h_def alias_json_def)
  have "list_model_aliases rc (stamp_active rc p db) = map h (list_model_aliases rc db)"
    by (auto simp: stamp_active_eq [OF assms] list_model_aliases_def h_def stamp_row_def row_to_alias_def)
  then have act: "filter (\<lambda>a. al_status a = ALIAS_STATUS_ACTIVE) (list_model_aliases rc (stamp_active rc p db))
      = map h (filter (\<lambda>a. al_status a = ALIAS_STATUS_ACTIVE) (list_model_aliases rc db))"
    by (simp add: filter_map o_def h(2))
  show ?thesis
    unfolding current_policy_revision_def alias_set_policy_revision_def act sort_key_map h(1)
    by (simp add: h(3) list_model_alias_bindings_def stamp_active_eq [OF assms] o_def)
qed

lemma stamp_frame:
  assumes "aliases_keyed db"
  shows "rev_of (stamp_active rc p db) = rev_of db" "list_model_alias_events (stamp_active rc p db) = list_model_alias_events db"
    "db_deployments (stamp_active rc p db) = db_deployments db" "aliases_keyed (stamp_active rc p db)"
proof -
  have "map_option w_revision (map_of (map (\<lambda>(k, r). (k, stamp_row p r)) m) a) = map_option w_revision (map_of m a)" for m :: "(string \<times> alias_row) list" and a
    by (induction m) (auto simp: stamp_row_def)
  then show "rev_of (stamp_active rc p db) = rev_of db"
    by (auto simp: stamp_active_eq [OF assms] rev_of_def)
  show "list_model_alias_events (stamp_active rc p db) = list_model_alias_events db"
    "db_deployments (stamp_active rc p db) = db_deployments db"
    by (auto simp: stamp_active_eq [OF assms] list_model_alias_events_def)
  have "map fst (map (\<lambda>(k, r). (k, stamp_row p r)) m) = map fst m" for m :: "(string \<times> alias_row) list"
    by (induction m) auto
  then have "bt_wf (db_aliases (stamp_active rc p db))"
    using assms by (simp add: stamp_active_eq [OF assms] aliases_keyed_def bt_wf_def del: map_map)
  then show "aliases_keyed (stamp_active rc p db)"
    using assms by (auto simp: stamp_active_eq [OF assms] aliases_keyed_def stamp_row_def)
qed

section \<open>What an accepted plan has passed\<close>

lemma get_alias_revision: "map_option al_revision (get_model_alias rc db a) = rev_of db a"
  by (simp add: get_model_alias_def rev_of_def row_to_alias_def option.map_comp o_def)

lemma verify_aliases_iff:
  "verify_aliases rc db p = (if \<forall>b\<in>set (pb_aliases (pl_bindings p)). rev_of db (ab_alias_name b) = ab_revision b
     then Ok () else Err (PlanRefused AliasRevisionDrift))"
proof -
  have "verify_alias_bindings rc db bs = (if \<forall>b\<in>set bs. rev_of db (ab_alias_name b) = ab_revision b
     then Ok () else Err (PlanRefused AliasRevisionDrift))" for bs
    by (induction bs) (auto simp: get_alias_revision)
  then show ?thesis by (simp add: verify_aliases_def)
qed

lemma verify_deployments_ok:
  assumes "verify_deployments rc db p = Ok u"
  shows "\<forall>b\<in>set (pb_deployments (pl_bindings p)). \<exists>row. get_model_deployment rc db (dp_deployment_id b) = Ok row
      \<and> map_option md_revision row = dp_revision b
      \<and> (row = None \<longrightarrow> dp_deployment_id b \<notin> set (List.map_filter bind_target (pl_actions p)))"
proof -
  have "verify_deployment_bindings rc db binds bs = Ok u \<Longrightarrow>
     \<forall>b\<in>set bs. \<exists>row. get_model_deployment rc db (dp_deployment_id b) = Ok row
       \<and> map_option md_revision row = dp_revision b \<and> (row = None \<longrightarrow> dp_deployment_id b \<notin> set binds)" for binds bs
    by (induction bs) (auto split: sum.splits if_splits)
  then show ?thesis using assms by (simp add: verify_deployments_def)
qed

lemma verify_action_ok:
  assumes "verify_action cx bas bds seen act = Ok u"
  shows "action_alias act \<in> set bas \<and> (\<forall>d. action_deployment act = Some d \<longrightarrow> d \<in> set bds)"
  using assms by (cases act) (auto simp: verify_action_def split: if_splits)

lemma verify_shape_ok:
  assumes "verify_plan_shape cx p = Ok u"
  shows "\<forall>act\<in>set (pl_actions p). action_alias act \<in> ab_alias_name ` set (pb_aliases (pl_bindings p))
     \<and> (\<forall>d. action_deployment act = Some d \<longrightarrow> d \<in> dp_deployment_id ` set (pb_deployments (pl_bindings p)))"
proof -
  have "verify_actions cx bas bds seen as = Ok u \<Longrightarrow>
     \<forall>act\<in>set as. action_alias act \<in> set bas \<and> (\<forall>d. action_deployment act = Some d \<longrightarrow> d \<in> set bds)" for bas bds seen as
    by (induction as arbitrary: seen) (auto simp: and_then_Inr_iff dest: verify_action_ok)
  then show ?thesis
    using assms by (fastforce simp: verify_plan_shape_def Let_def and_then_Inr_iff split: if_splits)
qed

lemma apply_cases:
  assumes "apply_model_alias_plan rc wall p declared db = Ok (report, db')"
  obtains report1 db1 where "alias_plan_digest rc p = declared" "verify_plan_shape rc p = Ok ()"
    "verify_aliases rc db p = Ok ()" "verify_deployments rc db p = Ok ()" "verify_policy_revision rc db p = Ok ()"
    "run_actions rc wall declared 0 (pl_actions p)
       \<lparr> rp_plan_digest = declared, rp_changed = False, rp_aliases_declared = [], rp_aliases_retired = [],
         rp_bindings_bound = [], rp_bindings_retired = [], rp_policy_revision = pb_policy_revision (pl_bindings p) \<rparr> db
     = Ok (report1, db1)"
    "rp_changed report \<longleftrightarrow> reported report1"
    "db' = (if reported report1 then stamp_active rc (current_policy_revision rc db1) db1 else db1)"
    "reported report1 \<longrightarrow> rp_policy_revision report = current_policy_revision rc db1"
proof -
  let ?start = "\<lparr> rp_plan_digest = declared, rp_changed = False, rp_aliases_declared = [], rp_aliases_retired = [],
     rp_bindings_bound = [], rp_bindings_retired = [], rp_policy_revision = pb_policy_revision (pl_bindings p) \<rparr>"
  have d: "alias_plan_digest rc p = declared"
    using assms by (auto simp: apply_model_alias_plan_def Let_def split: if_splits)
  then obtain report1 db1 where run: "run_actions rc wall declared 0 (pl_actions p) ?start db = Ok (report1, db1)"
    and ok: "verify_plan_shape rc p = Ok ()" "verify_aliases rc db p = Ok ()" "verify_deployments rc db p = Ok ()"
      "verify_policy_revision rc db p = Ok ()"
    and out: "(if reported report1
         then Ok (report1\<lparr> rp_changed := True, rp_policy_revision := current_policy_revision rc db1 \<rparr>,
                  stamp_active rc (current_policy_revision rc db1) db1)
         else Ok (report1\<lparr> rp_changed := False \<rparr>, db1)) = (Ok (report, db') :: (_, plan_error) result)"
    using assms unfolding apply_model_alias_plan_def Let_def reported_def by (auto simp only: and_then_Inr_iff if_True if_False split_conv simp_thms split: prod.splits)
  from out that [OF d ok run] show thesis by (auto split: if_splits)
qed

section \<open>The alias tables over runs\<close>

text \<open>A step of the database: one of the deployment catalog, or the commit of an accepted plan.\<close>

inductive alias_step :: "'a clock_scheme \<Rightarrow> 'b row_codec_scheme \<Rightarrow> catalog_db \<Rightarrow> catalog_db \<Rightarrow> bool"
  for clk :: "'a clock_scheme" and rc :: "'b row_codec_scheme" where
  catalog: "catalog_step clk rc db db' \<Longrightarrow> alias_step clk rc db db'"
| applied: "apply_model_alias_plan rc wall p declared db = Ok (report, db') \<Longrightarrow> alias_step clk rc db db'"

definition alias_revisions :: "catalog_db \<Rightarrow> string \<Rightarrow> int list" where
  "alias_revisions db a = map xv_revision (list_model_alias_events db a)"

definition aliases_logged :: "catalog_db \<Rightarrow> bool" where
  "aliases_logged db \<longleftrightarrow> (\<forall>a.
     (rev_of db a = None \<longrightarrow> alias_revisions db a = [])
     \<and> (\<forall>n. rev_of db a = Some n \<longrightarrow> 1 \<le> n \<and> alias_revisions db a = [1..n]))"

definition stamps_current :: "'a row_codec_scheme \<Rightarrow> catalog_db \<Rightarrow> bool" where
  "stamps_current rc db \<longleftrightarrow> (\<forall>(a, r)\<in>set (db_aliases db).
     w_status r = ALIAS_STATUS_ACTIVE \<longrightarrow> w_policy_digest r = Some (current_policy_revision rc db))"

definition same_aliases :: "catalog_db \<Rightarrow> catalog_db \<Rightarrow> bool" where
  "same_aliases db db' \<longleftrightarrow> db_aliases db' = db_aliases db \<and> db_bindings db' = db_bindings db
     \<and> db_alias_events db' = db_alias_events db"

lemma catalog_step_aliases:
  assumes "catalog_step clk rc db db'"
  shows "same_aliases db db'"
  using assms
proof cases
  case (upsert now event_now d w)
  then show ?thesis by (cases rule: upsert_cases) (auto simp: same_aliases_def append_model_deployment_event_def Let_def)
next
  case (retire now event_now i w)
  then show ?thesis by (cases rule: retire_cases) (auto simp: same_aliases_def append_model_deployment_event_def Let_def)
next
  case (outcome event_now target x ev t hw)
  then show ?thesis
    by (cases rule: outcome_cases) (auto simp: same_aliases_def append_model_deployment_event_def Let_def upsert_health_eq)
next
  case (sheet s sw)
  then show ?thesis by (auto simp: upsert_pricing_snapshot_def same_aliases_def split: if_splits)
qed

lemma same_aliases_frame:
  assumes "same_aliases db db'"
  shows "rev_of db' = rev_of db" "alias_revisions db' = alias_revisions db" "aliases_keyed db' = aliases_keyed db"
    "stamps_current rc db' = stamps_current rc db" "moved_on db db'"
  using assms
  by (auto simp: same_aliases_def rev_of_def alias_revisions_def list_model_alias_events_def aliases_keyed_def
      stamps_current_def current_policy_revision_def list_model_aliases_def list_model_alias_bindings_def moved_on_def)

lemma advances_logged:
  assumes "aliases_logged db" "advances_alias a db db'"
  shows "aliases_logged db'"
proof -
  have "(rev_of db' b = None \<longrightarrow> alias_revisions db' b = [])
      \<and> (\<forall>n. rev_of db' b = Some n \<longrightarrow> 1 \<le> n \<and> alias_revisions db' b = [1..n])" for b
  proof (cases "b = a")
    case True
    obtain n e where ne: "rev_of db' a = Some n" "rev_of db a = None \<and> n = 1 \<or> rev_of db a = Some (n - 1)"
      "db_alias_events db' = db_alias_events db @ [e]" "xv_alias_name e = a" "xv_revision e = n"
      using assms(2) by (auto simp: advances_alias_def)
    have "alias_revisions db' a = alias_revisions db a @ [n]"
      using ne by (simp add: alias_revisions_def list_model_alias_events_def)
    moreover have "rev_of db a = None \<Longrightarrow> alias_revisions db a = []"
      "\<And>m. rev_of db a = Some m \<Longrightarrow> 1 \<le> m \<and> alias_revisions db a = [1..m]"
      using assms(1) by (auto simp: aliases_logged_def dest: spec [of _ a])
    ultimately show ?thesis using ne True upto_rec2 [of 1 n] by auto
  next
    case False
    then have "rev_of db' b = rev_of db b" "alias_revisions db' b = alias_revisions db b"
      using assms(2) by (auto simp: advances_alias_def rev_of_def alias_revisions_def list_model_alias_events_def)
    then show ?thesis using assms(1) by (simp add: aliases_logged_def)
  qed
  then show ?thesis by (simp add: aliases_logged_def)
qed

definition alias_tables_ok :: "'a row_codec_scheme \<Rightarrow> catalog_db \<Rightarrow> bool" where
  "alias_tables_ok rc db \<longleftrightarrow> aliases_keyed db \<and> aliases_logged db \<and> stamps_current rc db"

lemma applied_effect:
  assumes "apply_model_alias_plan rc wall p declared db = Ok (report, db')" "aliases_keyed db"
  shows "moved_on db db'" "\<not> rp_changed report \<Longrightarrow> db' = db"
    "rp_changed report \<Longrightarrow> \<exists>act\<in>set (pl_actions p). passed (action_alias act) db db'"
    "aliases_logged db \<Longrightarrow> aliases_logged db'" "stamps_current rc db \<Longrightarrow> stamps_current rc db'" "aliases_keyed db'"
proof -
  from assms(1) obtain report1 db1 where run: "run_actions rc wall declared 0 (pl_actions p)
       \<lparr> rp_plan_digest = declared, rp_changed = False, rp_aliases_declared = [], rp_aliases_retired = [],
         rp_bindings_bound = [], rp_bindings_retired = [], rp_policy_revision = pb_policy_revision (pl_bindings p) \<rparr> db
       = Ok (report1, db1)" and out: "rp_changed report \<longleftrightarrow> reported report1"
      "db' = (if reported report1 then stamp_active rc (current_policy_revision rc db1) db1 else db1)"
    by (rule apply_cases)
  have eff: "moved_on db db1" "\<not> reported report1 \<Longrightarrow> db1 = db"
      "reported report1 \<Longrightarrow> \<exists>act\<in>set (pl_actions p). passed (action_alias act) db db1"
    using run_effect [OF run] by (auto simp: reported_def)
  have keyed: "aliases_keyed db1"
    by (rule run_preserves [OF run, of aliases_keyed]) (use assms(2) advances_alias_frame(3) in auto)
  note frame = stamp_frame [OF keyed]
  have rev: "rev_of db' = rev_of db1" by (simp add: out(2) frame(1))
  then show "moved_on db db'" "rp_changed report \<Longrightarrow> \<exists>act\<in>set (pl_actions p). passed (action_alias act) db db'"
    using eff(1,3) out(1) by (auto simp: moved_on_def passed_def)
  show "\<not> rp_changed report \<Longrightarrow> db' = db" using out eff(2) by simp
  show "aliases_keyed db'" by (simp add: out(2) frame(4) keyed)
  show "aliases_logged db'" if "aliases_logged db"
  proof -
    have "aliases_logged db1" by (rule run_preserves [OF run, of aliases_logged]) (use that advances_logged in auto)
    then show ?thesis by (auto simp: aliases_logged_def alias_revisions_def rev out(2) frame(1,2))
  qed
  show "stamps_current rc db'" if "stamps_current rc db"
  proof (cases "reported report1")
    case True
    then have "current_policy_revision rc db' = current_policy_revision rc db1"
      using out(2) stamp_keeps_policy [OF keyed] by simp
    then show ?thesis
      using out(2) True by (auto simp: stamps_current_def stamp_active_eq [OF keyed] stamp_row_def split: if_splits)
  qed (use that out(2) eff(2) in simp)
qed

lemma alias_step_ok: "alias_tables_ok rc db \<Longrightarrow> alias_step clk rc db db' \<Longrightarrow> alias_tables_ok rc db' \<and> moved_on db db'"
  by (erule alias_step.cases)
     (auto simp: alias_tables_ok_def aliases_logged_def same_aliases_frame [OF catalog_step_aliases] dest: applied_effect
       intro: applied_effect)

lemma alias_run_ok:
  "(alias_step clk rc)\<^sup>*\<^sup>* db db' \<Longrightarrow> alias_tables_ok rc db \<Longrightarrow> alias_tables_ok rc db' \<and> moved_on db db'"
  by (induction rule: rtranclp_induct) (auto dest: alias_step_ok intro: moved_on_trans)

lemma alias_tables_ok_empty: "alias_tables_ok rc empty_catalog"
  by (simp add: alias_tables_ok_def aliases_keyed_def aliases_logged_def stamps_current_def empty_catalog_def
      rev_of_def alias_revisions_def list_model_alias_events_def)

lemmas alias_reach_ok = alias_run_ok [OF _ alias_tables_ok_empty]

lemma spent_plan:
  assumes "apply_model_alias_plan rc wall p declared db = Ok (report, db')" "act \<in> set (pl_actions p)"
    and "passed (action_alias act) db db''"
  shows "apply_model_alias_plan rc wall' p declared db'' = Err (PlanRefused AliasRevisionDrift)"
proof -
  from assms(1) have ok: "alias_plan_digest rc p = declared" "verify_plan_shape rc p = Ok ()" "verify_aliases rc db p = Ok ()"
    by (rule apply_cases; simp)+
  obtain b where b: "b \<in> set (pb_aliases (pl_bindings p))" "ab_alias_name b = action_alias act"
    using verify_shape_ok [OF ok(2)] assms(2) by force
  then have "rev_of db (action_alias act) = ab_revision b"
    using ok(3) by (auto simp: verify_aliases_iff split: if_splits)
  then have "verify_aliases rc db'' p = Err (PlanRefused AliasRevisionDrift)"
    using b passed_differs [OF assms(3)] unfolding verify_aliases_iff by (metis (no_types, lifting))
  then show ?thesis using ok(1,2) by (simp add: apply_model_alias_plan_def)
qed

section \<open>Properties of the alias plan\<close>

text \<open>
  Nothing is written that was not reviewed. A plan that applies was presented under the
  digest of its own content; every alias and every deployment it bound was still at the
  revision it bound, read inside the write lock, and so was the alias set as a whole; every
  action names an alias the plan bound and only deployments it bound; and every deployment it
  binds to an alias is a row of the catalog.
\<close>

lemma apply_is_reviewed:
  assumes "apply_model_alias_plan rc wall p declared db = Ok (report, db')"
  shows "alias_plan_digest rc p = declared \<and> current_policy_revision rc db = pb_policy_revision (pl_bindings p)
    \<and> (\<forall>b\<in>set (pb_aliases (pl_bindings p)). map_option al_revision (get_model_alias rc db (ab_alias_name b)) = ab_revision b)
    \<and> (\<forall>b\<in>set (pb_deployments (pl_bindings p)). \<exists>row. get_model_deployment rc db (dp_deployment_id b) = Ok row
          \<and> map_option md_revision row = dp_revision b)
    \<and> (\<forall>act\<in>set (pl_actions p). action_alias act \<in> ab_alias_name ` set (pb_aliases (pl_bindings p))
          \<and> (\<forall>d. action_deployment act = Some d \<longrightarrow> d \<in> dp_deployment_id ` set (pb_deployments (pl_bindings p)))
          \<and> (\<forall>a d i. act = BindDeployment a d i \<longrightarrow> (\<exists>m. get_model_deployment rc db d = Ok (Some m))))"
proof -
  from assms have ok: "alias_plan_digest rc p = declared" "verify_plan_shape rc p = Ok ()"
      "verify_aliases rc db p = Ok ()" "verify_deployments rc db p = Ok ()" "verify_policy_revision rc db p = Ok ()"
    by (rule apply_cases; simp)+
  note shape = verify_shape_ok [OF ok(2)] and deps = verify_deployments_ok [OF ok(4)]
  have "\<exists>m. get_model_deployment rc db d = Ok (Some m)" if act: "BindDeployment a d i \<in> set (pl_actions p)" for a d i
  proof -
    have "d \<in> set (List.map_filter bind_target (pl_actions p))"
      using act by (force simp: List.map_filter_def)
    moreover obtain b where "b \<in> set (pb_deployments (pl_bindings p))" "dp_deployment_id b = d"
      using shape act by force
    ultimately show ?thesis using deps by (metis not_None_eq)
  qed
  then show ?thesis
    using ok shape deps
    by (auto simp: verify_aliases_iff get_alias_revision verify_policy_revision_def split: if_splits)
qed

text \<open>
  C37: An approved change applies exactly once. After a plan that changed something has
  applied, presenting it again is refused as spent, with the drift of the aliases it bound,
  in that state and in every later one, whatever imports, retirements, outcomes and other
  plans come between. A plan that applies without a change leaves the database as it was.
\<close>

theorem plan_applies_once:
  assumes "(alias_step clk rc)\<^sup>*\<^sup>* empty_catalog db"
    and "apply_model_alias_plan rc wall p declared db = Ok (report, db1)"
    and "(alias_step clk rc)\<^sup>*\<^sup>* db1 db2"
  shows "if rp_changed report then apply_model_alias_plan rc wall' p declared db2 = Err (PlanRefused AliasRevisionDrift)
         else db1 = db"
proof -
  have ok: "alias_tables_ok rc db" using alias_reach_ok assms(1) by blast
  then have "alias_tables_ok rc db1" using alias_step_ok alias_step.applied [OF assms(2)] by blast
  then have later: "moved_on db1 db2" using alias_run_ok assms(3) by blast
  show ?thesis
    using applied_effect(2,3) [OF assms(2)] ok passed_on [OF _ later] spent_plan [OF assms(2)]
    by (auto simp: alias_tables_ok_def)
qed

text \<open>
  C38: Over every run of the catalog and of the plans from the empty database, the events of
  an alias are its revisions from 1 to its present one, each once and in order (none for a
  name without a row), and every active alias carries the revision of the present alias set.
\<close>

theorem alias_log_and_stamps:
  assumes "(alias_step clk rc)\<^sup>*\<^sup>* empty_catalog db"
  shows "(case get_model_alias rc db a of
           None \<Rightarrow> map xv_revision (list_model_alias_events db a) = []
         | Some al \<Rightarrow> 1 \<le> al_revision al \<and> map xv_revision (list_model_alias_events db a) = [1..al_revision al]
             \<and> (al_status al = ALIAS_STATUS_ACTIVE \<longrightarrow> al_policy_digest al = Some (current_policy_revision rc db)))"
proof -
  have ok: "aliases_logged db" "stamps_current rc db"
    using alias_reach_ok [OF assms] by (auto simp: alias_tables_ok_def)
  show ?thesis
  proof (cases "map_of (db_aliases db) a")
    case None
    then show ?thesis using ok(1) by (auto simp: aliases_logged_def get_model_alias_def rev_of_def alias_revisions_def)
  next
    case (Some r)
    then have "(a, r) \<in> set (db_aliases db)" "rev_of db a = Some (w_revision r)"
      by (auto simp: rev_of_def dest: map_of_SomeD)
    then show ?thesis
      using ok Some
      by (auto simp: aliases_logged_def stamps_current_def get_model_alias_def row_to_alias_def alias_revisions_def)
  qed
qed

text \<open>A plan over the imported deployment: it declares an alias and binds the deployment to it.\<close>

definition demo_plan :: bound_alias_plan where
  "demo_plan =
     \<lparr> pl_bindings = \<lparr> pb_policy_revision = current_policy_revision demo_row_codec demo_catalog,
         pb_aliases = [\<lparr> ab_alias_name = ''a'', ab_revision = None \<rparr>],
         pb_deployments = [\<lparr> dp_deployment_id = ''d'', dp_revision = Some 1 \<rparr>] \<rparr>,
       pl_actions = [DeclareAlias ''a'' ''o0'' ''o0'' [], BindDeployment ''a'' ''d'' 0] \<rparr>"

definition demo_digest :: string where
  "demo_digest = alias_plan_digest demo_row_codec demo_plan"

definition demo_wall :: "nat \<Rightarrow> string \<times> string" where
  "demo_wall i = (''2000'', ''2000'')"

lemma demo_deployment_reads:
  "\<exists>m. get_model_deployment demo_row_codec demo_catalog ''d'' = Ok (Some m) \<and> md_revision m = 1"
  using upsert_stores [OF demo_import demo_row_codec_laws(2)]
  by (auto simp: empty_catalog_def demo_new_deployment_def observed_deployment_def with_endpoint_ref_def with_expires_at_def)

lemma demo_tables [simp]:
  "db_aliases demo_catalog = []" "db_bindings demo_catalog = []"
  by (simp_all add: demo_catalog_def upsert_model_deployment_def
        get_model_deployment_def empty_catalog_def append_model_deployment_event_def Let_def)

lemma demo_object: "verify_json_object demo_row_codec ''o0'' = Ok ()"
proof -
  have "to_text demo_row_codec (JObject []) = ''o0''" by (simp add: demo_row_codec_def tagged_codec_def codec.defs unary_def)
  moreover have "from_text demo_row_codec (to_text demo_row_codec (JObject [])) = Some (JObject [])"
    using demo_row_codec_laws(1) by (simp only: reads_printed_def)
  ultimately show ?thesis by (simp add: verify_json_object_def)
qed

lemma demo_policy: "current_policy_revision demo_row_codec demo_catalog = ''ar1:6130''"
proof -
  have "current_policy_revision demo_row_codec demo_catalog = ALIAS_POLICY_REVISION_SCHEME @ '':'' @
      canonical_json_digest_hex (base_codec demo_row_codec) (JArray [])"
    by (simp add: current_policy_revision_def alias_set_policy_revision_def list_model_aliases_def)
  also have "canonical_json_digest_hex (base_codec demo_row_codec) (JArray []) = ''6130''"
    by code_simp
  finally show ?thesis by (simp add: ALIAS_POLICY_REVISION_SCHEME_def)
qed

lemma demo_names: "\<not> blank ''ar1:6130'' \<and> \<not> blank ''a'' \<and> \<not> blank ''d''"
  by code_simp

lemma demo_verified:
  "verify_plan_shape demo_row_codec demo_plan = Ok ()"
  "verify_aliases demo_row_codec demo_catalog demo_plan = Ok ()"
  "verify_deployments demo_row_codec demo_catalog demo_plan = Ok ()"
  "verify_policy_revision demo_row_codec demo_catalog demo_plan = Ok ()"
proof -
  show "verify_plan_shape demo_row_codec demo_plan = Ok ()"
    by (simp add: verify_plan_shape_def demo_plan_def verify_action_def demo_object demo_policy demo_names)
  show "verify_aliases demo_row_codec demo_catalog demo_plan = Ok ()"
    by (simp add: verify_aliases_iff demo_plan_def rev_of_def)
  show "verify_deployments demo_row_codec demo_catalog demo_plan = Ok ()"
    using demo_deployment_reads by (auto simp: verify_deployments_def demo_plan_def)
  show "verify_policy_revision demo_row_codec demo_catalog demo_plan = Ok ()"
    by (simp add: verify_policy_revision_def demo_plan_def)
qed

lemma demo_apply:
  "\<exists>report db. apply_model_alias_plan demo_row_codec demo_wall demo_plan demo_digest demo_catalog = Ok (report, db) \<and> rp_changed report"
  by (simp add: apply_model_alias_plan_def demo_digest_def demo_verified Let_def)
     (simp add: demo_plan_def demo_wall_def run_action_def upsert_model_alias_def get_model_alias_def record_alias_write_def
       alias_event_append_def append_model_alias_event_def bind_model_alias_deployment_def advance_alias_revision_def
       current_alias_revision_def bt_insert_def Let_def)

definition demo_applied :: catalog_db where
  "demo_applied = snd (projr (apply_model_alias_plan demo_row_codec demo_wall demo_plan demo_digest demo_catalog))"

lemma demo_applies:
  "\<exists>report. apply_model_alias_plan demo_row_codec demo_wall demo_plan demo_digest demo_catalog = Ok (report, demo_applied)
     \<and> rp_changed report"
  using demo_apply by (auto simp: demo_applied_def)

lemma demo_reach: "(alias_step gregorian_clock demo_row_codec)\<^sup>*\<^sup>* empty_catalog demo_catalog"
  using catalog_step.upsert [OF demo_import] alias_step.catalog by blast

lemma apply_is_reviewed_witness:
  "(\<exists>m. get_model_deployment demo_row_codec demo_catalog ''d'' = Ok (Some m))
   \<and> get_model_alias demo_row_codec demo_catalog ''a'' = None"
proof -
  obtain report where "apply_model_alias_plan demo_row_codec demo_wall demo_plan demo_digest demo_catalog = Ok (report, demo_applied)"
    using demo_applies by blast
  from apply_is_reviewed [OF this] show ?thesis by (auto simp: demo_plan_def)
qed

theorem plan_applies_once_witness:
  "apply_model_alias_plan demo_row_codec demo_wall demo_plan demo_digest demo_applied = Err (PlanRefused AliasRevisionDrift)"
proof -
  obtain report where r: "apply_model_alias_plan demo_row_codec demo_wall demo_plan demo_digest demo_catalog = Ok (report, demo_applied)"
    "rp_changed report"
    using demo_applies by blast
  from plan_applies_once [OF demo_reach r(1) rtranclp.rtrancl_refl, of demo_wall] r(2) show ?thesis by simp
qed

theorem alias_log_and_stamps_witness:
  "\<exists>al. get_model_alias demo_row_codec demo_applied ''a'' = Some al \<and> 1 \<le> al_revision al
     \<and> map xv_revision (list_model_alias_events demo_applied ''a'') = [1..al_revision al]"
proof -
  obtain report where r: "apply_model_alias_plan demo_row_codec demo_wall demo_plan demo_digest demo_catalog = Ok (report, demo_applied)"
    "rp_changed report"
    using demo_applies by blast
  have "passed ''a'' demo_catalog demo_applied"
    using applied_effect(3) [OF r(1) _ r(2)] by (auto simp: demo_plan_def aliases_keyed_def)
  then obtain al where "get_model_alias demo_row_codec demo_applied ''a'' = Some al"
    by (auto simp: passed_def rev_of_def get_model_alias_def)
  moreover have "(alias_step gregorian_clock demo_row_codec)\<^sup>*\<^sup>* empty_catalog demo_applied"
    using rtranclp.rtrancl_into_rtrancl [OF demo_reach alias_step.applied [OF r(1)]] .
  ultimately show ?thesis using alias_log_and_stamps [of gregorian_clock demo_row_codec demo_applied "''a''"] by simp
qed

end
