(* ===== verification/Catalog_Endpoint.thy ===== *)
theory Catalog_Endpoint
  imports Tachi_Prelude
begin

text \<open>
  The rule that refuses an endpoint URL carrying a credential,
  \<open>crates/memcore/src/catalog/endpoint.rs\<close>, on the bytes of the URL.
\<close>

section \<open>The rule\<close>

definition CREDENTIAL_SHAPED_QUERY_KEYS :: "string list" where
  "CREDENTIAL_SHAPED_QUERY_KEYS =
     [''api_key'', ''apikey'', ''key'', ''token'', ''secret'', ''access_token'', ''bearer'', ''authorization'']"

datatype endpoint_credential_leak_kind = Userinfo | QueryKey string

text \<open>\<open>u8::from_str_radix\<close> on two bytes, base 16: a leading \<open>+\<close> is a sign.\<close>

definition hex_value :: "char \<Rightarrow> nat option" where
  "hex_value c = (let n = of_char c in
     if 48 \<le> n \<and> n \<le> 57 then Some (n - 48)
     else if 65 \<le> n \<and> n \<le> 70 then Some (n - 55)
     else if 97 \<le> n \<and> n \<le> 102 then Some (n - 87) else None)"

definition radix_16 :: "char \<Rightarrow> char \<Rightarrow> nat option" where
  "radix_16 a b =
     (if a = CHR ''+'' then hex_value b
      else Option.bind (hex_value a) (\<lambda>m. map_option (\<lambda>n. 16 * m + n) (hex_value b)))"

fun decode_bytes :: "string \<Rightarrow> string" where
  "decode_bytes [] = []"
| "decode_bytes (c # a # b # s) =
     (if c = CHR 0x25 then (case radix_16 a b of
          Some n \<Rightarrow> char_of n # decode_bytes s
        | None \<Rightarrow> CHR 0x25 # decode_bytes (a # b # s))
      else if c = CHR ''+'' then CHR '' '' # decode_bytes (a # b # s)
      else c # decode_bytes (a # b # s))"
| "decode_bytes [c, a] = (if c = CHR ''+'' then CHR '' '' else c) # decode_bytes [a]"
| "decode_bytes [c] = [if c = CHR ''+'' then CHR '' '' else c]"

text \<open>Well-formed UTF-8, as \<open>str::from_utf8\<close> checks it.\<close>

definition tail_byte :: "nat \<Rightarrow> bool" where
  "tail_byte n \<longleftrightarrow> 128 \<le> n \<and> n \<le> 191"

fun utf8_valid :: "nat list \<Rightarrow> bool" where
  "utf8_valid [] \<longleftrightarrow> True"
| "utf8_valid (a # s) \<longleftrightarrow>
     (if a < 128 then utf8_valid s
      else if 194 \<le> a \<and> a \<le> 223 then (case s of b # s' \<Rightarrow> tail_byte b \<and> utf8_valid s' | _ \<Rightarrow> False)
      else if 224 \<le> a \<and> a \<le> 239 then (case s of b # c # s' \<Rightarrow>
          (if a = 224 then 160 \<le> b \<and> b \<le> 191 else if a = 237 then 128 \<le> b \<and> b \<le> 159 else tail_byte b)
          \<and> tail_byte c \<and> utf8_valid s' | _ \<Rightarrow> False)
      else if 240 \<le> a \<and> a \<le> 244 then (case s of b # c # d # s' \<Rightarrow>
          (if a = 240 then 144 \<le> b \<and> b \<le> 191 else if a = 244 then 128 \<le> b \<and> b \<le> 143 else tail_byte b)
          \<and> tail_byte c \<and> tail_byte d \<and> utf8_valid s' | _ \<Rightarrow> False)
      else False)"

definition percent_decode_key :: "string \<Rightarrow> string" where
  "percent_decode_key raw = (let out = decode_bytes raw in if utf8_valid (bytes_of out) then out else raw)"

definition endpoint_authority :: "string \<Rightarrow> string" where
  "endpoint_authority endpoint =
    (let without_scheme = (case split_once ''://'' endpoint of Some (_, rest) \<Rightarrow> rest | None \<Rightarrow> endpoint)
     in takeWhile (\<lambda>c. c \<notin> {CHR ''/'', CHR ''?'', CHR 0x23}) without_scheme)"

definition query_keys :: "string \<Rightarrow> string list" where
  "query_keys endpoint = (case split_once ''?'' endpoint of
     None \<Rightarrow> []
   | Some (_, after_question) \<Rightarrow>
       (let query = (case split_once [CHR 0x23] after_question of Some (q, _) \<Rightarrow> q | None \<Rightarrow> after_question)
        in map percent_decode_key (filter (\<lambda>k. k \<noteq> [])
             (map (\<lambda>pair. case split_once ''='' pair of Some (k, _) \<Rightarrow> k | None \<Rightarrow> pair)
               (split_on (\<lambda>c. c = CHR ''&'') query)))))"

definition credential_key :: "string \<Rightarrow> bool" where
  "credential_key k \<longleftrightarrow> list_ex (eq_ignore_ascii_case k) CREDENTIAL_SHAPED_QUERY_KEYS"

definition endpoint_credential_leak :: "string \<Rightarrow> endpoint_credential_leak_kind option" where
  "endpoint_credential_leak endpoint =
     (if CHR ''@'' \<in> set (endpoint_authority endpoint) then Some Userinfo
      else map_option QueryKey (find credential_key (query_keys endpoint)))"

section \<open>No spelling of a credential key slips past\<close>

text \<open>\<open>spells w k\<close>: \<open>w\<close> is \<open>k\<close> with any of its characters percent-encoded, in hex digits of either case.\<close>

inductive spells :: "string \<Rightarrow> string \<Rightarrow> bool" where
  nothing: "spells [] []"
| plain: "spells w k \<Longrightarrow> spells (c # w) (c # k)"
| escaped: "spells w k \<Longrightarrow> hex_value a = Some m \<Longrightarrow> hex_value b = Some n \<Longrightarrow> of_char c = 16 * m + n \<Longrightarrow>
    spells (CHR 0x25 # a # b # w) (c # k)"

definition key_char :: "char \<Rightarrow> bool" where
  "key_char c \<longleftrightarrow> c = CHR ''_'' \<or> 65 \<le> (of_char c :: nat) \<and> (of_char c :: nat) \<le> 90
     \<or> 97 \<le> (of_char c :: nat) \<and> (of_char c :: nat) \<le> 122"

lemma hex_value_bounds: "hex_value c = Some n \<Longrightarrow> n < 16"
  by (auto simp: hex_value_def Let_def split: if_splits)

lemma hex_value_not_plus: "hex_value (CHR ''+'') = None"
  by (simp add: hex_value_def)

lemma decode_plain:
  "c \<noteq> CHR 0x25 \<Longrightarrow> c \<noteq> CHR ''+'' \<Longrightarrow> decode_bytes (c # w) = c # decode_bytes w"
  by (cases w; cases "tl w") auto

lemma decode_spelling: "spells w k \<Longrightarrow> list_all key_char k \<Longrightarrow> decode_bytes w = k"
proof (induction rule: spells.induct)
  case (plain w k c)
  then have "c \<noteq> CHR 0x25" "c \<noteq> CHR ''+''" by (auto simp: key_char_def)
  then show ?case using plain by (simp add: decode_plain)
next
  case (escaped w k a m b n c)
  then have "a \<noteq> CHR ''+''" using hex_value_not_plus by auto
  then have "radix_16 a b = Some (of_char c)" using escaped by (simp add: radix_16_def)
  moreover have "char_of (16 * m + n) = c" by (metis char_of_char escaped.hyps(4))
  ultimately show ?case using escaped by simp
qed simp

lemma key_chars_valid: "list_all key_char k \<Longrightarrow> utf8_valid (bytes_of k)"
  by (induction k) (auto simp: key_char_def)

text \<open>The characters a spelling is made of never end a key.\<close>

lemma spelling_chars:
  "spells w k \<Longrightarrow> list_all key_char k \<Longrightarrow> c \<in> set w \<Longrightarrow> c \<notin> {CHR ''&'', CHR ''='', CHR ''?'', CHR 0x23}"
proof (induction rule: spells.induct)
  case (plain w k d)
  then show ?case by (auto simp: key_char_def)
next
  case (escaped w k a m b n d)
  then show ?case by (auto simp: hex_value_def)
qed simp

lemma credential_key_chars: "credential_key k \<Longrightarrow> list_all key_char k"
proof -
  have lower: "key_char (lower_ascii c) \<Longrightarrow> key_char c" for c
    by (auto simp: key_char_def lower_ascii_def split: if_splits)
  assume "credential_key k"
  then obtain n where "n \<in> set CREDENTIAL_SHAPED_QUERY_KEYS" "map lower_ascii k = map lower_ascii n"
    by (auto simp: credential_key_def list_ex_iff eq_ignore_ascii_case_def to_ascii_lowercase_def)
  moreover have "list_all (list_all (\<lambda>c. key_char (lower_ascii c))) CREDENTIAL_SHAPED_QUERY_KEYS"
    by code_simp
  ultimately have "list_all (\<lambda>c. key_char (lower_ascii c)) k"
    by (metis (mono_tags, lifting) list.pred_map comp_def list_all_iff list.pred_cong)
  then show "list_all key_char k" using lower by (simp add: list_all_iff)
qed

lemma split_once_char_found: "c \<notin> set u \<Longrightarrow> split_once [c] (u @ c # v) = Some (u, v)"
  by (induction u) auto

lemma split_once_char_missing: "c \<notin> set u \<Longrightarrow> split_once [c] u = None"
  by (induction u) auto

lemma split_on_append: "p c \<Longrightarrow> split_on p (u @ c # v) = split_on p u @ split_on p v"
  by (induction u) (auto split: list.split)

lemma split_on_free: "\<forall>c\<in>set u. \<not> p c \<Longrightarrow> split_on p u = [u]"
  by (induction u) auto

lemma split_on_prefix: "\<forall>c\<in>set u. \<not> p c \<Longrightarrow> p d \<Longrightarrow> split_on p (u @ d # v) = u # split_on p v"
  by (simp add: split_on_append split_on_free)

lemma split_on_head: "\<forall>c\<in>set u. \<not> p c \<Longrightarrow> \<exists>ws. split_on p (u @ v) = (u @ takeWhile (\<lambda>c. \<not> p c) v) # ws"
proof (induction u)
  case Nil
  then show ?case by (induction v) (auto split: list.split)
qed (auto split: list.split)

lemma split_on_tail: "p d \<Longrightarrow> set (split_on p v) \<subseteq> set (split_on p (u @ d # v))"
  by (simp add: split_on_append)

definition pair_key :: "string \<Rightarrow> string" where
  "pair_key pair = (case split_once ''='' pair of Some (k, _) \<Rightarrow> k | None \<Rightarrow> pair)"

lemma pair_key_head: "CHR ''='' \<notin> set w \<Longrightarrow> v = [] \<or> hd v = CHR ''='' \<Longrightarrow> pair_key (w @ v) = w"
  by (cases v) (auto simp: pair_key_def split_once_char_found split_once_char_missing)

lemma query_key_found:
  assumes w: "\<forall>c\<in>set w. c \<notin> {CHR ''&'', CHR ''='', CHR ''?'', CHR 0x23}" "w \<noteq> []"
    and pre: "pre = [] \<or> last pre = CHR ''&''" "CHR 0x23 \<notin> set pre"
    and post: "post = [] \<or> hd post \<in> {CHR ''='', CHR ''&'', CHR 0x23}"
    and base: "CHR ''?'' \<notin> set base"
  shows "percent_decode_key w \<in> set (query_keys (base @ ''?'' @ pre @ w @ post))"
proof -
  define v where "v = takeWhile (\<lambda>c. c \<noteq> CHR 0x23) post"
  have v: "v = [] \<or> hd v \<in> {CHR ''='', CHR ''&''}" using post by (cases post) (auto simp: v_def)
  let ?after = "pre @ w @ post"
  have query: "(case split_once [CHR 0x23] ?after of Some (q, _) \<Rightarrow> q | None \<Rightarrow> ?after) = pre @ w @ v"
  proof (cases "CHR 0x23 \<in> set post")
    case True
    then obtain u' r where "post = u' @ CHR 0x23 # r" "CHR 0x23 \<notin> set u'" using split_list_first by metis
    then have "v = u'" unfolding v_def by (simp, subst takeWhile_append2) auto
    moreover have "CHR 0x23 \<notin> set (pre @ w @ u')" using w(1) pre(2) \<open>CHR 0x23 \<notin> set u'\<close> by auto
    ultimately show ?thesis
      using split_once_char_found [of "CHR 0x23" "pre @ w @ u'" r] \<open>post = _\<close> by simp
  next
    case False
    then have "v = post" by (auto simp: v_def takeWhile_eq_all_conv)
    moreover have "CHR 0x23 \<notin> set ?after" using w(1) pre(2) False by auto
    ultimately show ?thesis using split_once_char_missing [of "CHR 0x23" ?after] by simp
  qed
  let ?amp = "\<lambda>c. c = CHR ''&''"
  obtain ws where "split_on ?amp (w @ v) = (w @ takeWhile (\<lambda>c. \<not> ?amp c) v) # ws"
    using split_on_head [of w ?amp v] w(1) by auto
  then have "w @ takeWhile (\<lambda>c. \<not> ?amp c) v \<in> set (split_on ?amp (pre @ w @ v))"
  proof (cases "pre = []")
    case False
    then have "pre = butlast pre @ [CHR ''&'']" using pre(1) append_butlast_last_id [of pre] by simp
    then obtain u where "pre = u @ [CHR ''&'']" by blast
    then show ?thesis using \<open>split_on ?amp (w @ v) = _\<close> split_on_tail [of ?amp "CHR ''&''" "w @ v" u] by auto
  qed simp
  moreover have "pair_key (w @ takeWhile (\<lambda>c. \<not> ?amp c) v) = w"
    using v w(1) by (intro pair_key_head) (cases v; auto)+
  ultimately have "w \<in> set (map pair_key (split_on ?amp (pre @ w @ v)))" by force
  then show ?thesis
    using w(2) query split_once_char_found [OF base, of ?after]
    by (simp add: query_keys_def pair_key_def [abs_def] Let_def)
qed

text \<open>
  No spelling of a credential key slips past the rule. A URL whose query carries one of
  the keys, in any mixture of cases and with any of its characters percent-encoded in hex
  digits of either case, as the first parameter or after an \<open>&\<close>, with a value, without one,
  or before a fragment, is refused; and what the refusal names is a key of the list up to
  case, so never the value.
\<close>

lemma no_spelling_slips:
  assumes "credential_key k" "spells w k" "CHR ''?'' \<notin> set base"
    and "pre = [] \<or> last pre = CHR ''&''" "CHR 0x23 \<notin> set pre"
    and "post = [] \<or> hd post \<in> {CHR ''='', CHR ''&'', CHR 0x23}"
  shows "endpoint_credential_leak (base @ ''?'' @ pre @ w @ post) = Some Userinfo
    \<or> (\<exists>j. endpoint_credential_leak (base @ ''?'' @ pre @ w @ post) = Some (QueryKey j) \<and> credential_key j)"
proof -
  have key: "list_all key_char k" by (rule credential_key_chars [OF assms(1)])
  have "w \<noteq> []"
    using assms(1,2) by (auto elim: spells.cases simp: credential_key_def CREDENTIAL_SHAPED_QUERY_KEYS_def
        eq_ignore_ascii_case_def to_ascii_lowercase_def)
  moreover have "\<forall>c\<in>set w. c \<notin> {CHR ''&'', CHR ''='', CHR ''?'', CHR 0x23}"
    using spelling_chars [OF assms(2) key] by blast
  moreover have "percent_decode_key w = k"
    using decode_spelling [OF assms(2) key] key_chars_valid [OF key] by (simp add: percent_decode_key_def)
  ultimately have "k \<in> set (query_keys (base @ ''?'' @ pre @ w @ post))"
    using query_key_found [of w pre post base] assms(3-6) by simp
  then have "find credential_key (query_keys (base @ ''?'' @ pre @ w @ post)) \<noteq> None"
    using assms(1) by (auto simp: find_None_iff)
  then obtain j where "find credential_key (query_keys (base @ ''?'' @ pre @ w @ post)) = Some j" by blast
  moreover from this have "credential_key j" by (auto simp: find_Some_iff)
  ultimately show ?thesis by (simp add: endpoint_credential_leak_def)
qed

lemma no_spelling_slips_witness:
  "endpoint_credential_leak (''https://h/v1?a=1&'' @ [CHR 0x25] @ ''61PI_Key=sk'') \<noteq> None"
proof -
  have "spells ([CHR 0x25] @ ''61PI_Key'') ''aPI_Key''"
    by (simp, rule spells.escaped [of _ _ _ 6 _ 1]) (auto intro!: spells.intros simp: hex_value_def)
  moreover have "credential_key ''aPI_Key''" by code_simp
  ultimately show ?thesis
    using no_spelling_slips [of "''aPI_Key''" "[CHR 0x25] @ ''61PI_Key''" "''https://h/v1''" "''a=1&''" "''=sk''"]
    by auto
qed

text \<open>
  Two malformed keys are not passed through as they are: a sign before the second hex digit
  is read as an escape, and one byte that is not UTF-8 leaves the whole key undecoded.
\<close>

lemma signed_escape_decodes: "percent_decode_key [CHR 0x25, CHR ''+'', CHR ''9''] = [CHR 0x09]"
  by code_simp

lemma one_bad_byte_keeps_all_escapes:
  "percent_decode_key [CHR 0x25, CHR ''6'', CHR ''1'', CHR 0x25, CHR ''f'', CHR ''f'']
     = [CHR 0x25, CHR ''6'', CHR ''1'', CHR 0x25, CHR ''f'', CHR ''f'']"
  by code_simp

end
