(* ===== verification/Delivery_Intents.thy ===== *)
theory Delivery_Intents
  imports Tachi_Json
begin

text \<open>
  The durable delivery spine, \<open>crates/memcore/src/db/delivery_intents.rs\<close>, over its two
  tables \<open>delivery_intents\<close> and \<open>delivery_events\<close> (\<open>db/schema.rs\<close>, whose CHECK and UNIQUE
  constraints are written out). A call takes the database to a result and a database; the
  blocks the code runs in one transaction are \<open>atomically\<close>, which drops the writes of a
  failing block. The clock reading is an argument. Intents are an ordered map from
  \<open>delivery_id\<close>, in whose order the sweeps visit them; events are in insertion order. Column
  \<open>f\<close> of an intent is \<open>di_f\<close>, of an event \<open>ve_f\<close>. The texts of error messages are dropped.
\<close>

section \<open>Vocabulary\<close>

datatype delivery_state = NotReady | Ready | RequesterQueued | Delivered | Blocked | Retrying | Dismissed

fun delivery_state_as_str :: "delivery_state \<Rightarrow> string" where
  "delivery_state_as_str NotReady = ''not_ready''"
| "delivery_state_as_str Ready = ''ready''"
| "delivery_state_as_str RequesterQueued = ''requester_queued''"
| "delivery_state_as_str Delivered = ''delivered''"
| "delivery_state_as_str Blocked = ''blocked''"
| "delivery_state_as_str Retrying = ''retrying''"
| "delivery_state_as_str Dismissed = ''dismissed''"

definition delivery_state_parse :: "string \<Rightarrow> delivery_state option" where
  "delivery_state_parse raw =
     (if raw = ''not_ready'' then Some NotReady else if raw = ''ready'' then Some Ready
      else if raw = ''requester_queued'' then Some RequesterQueued
      else if raw = ''delivered'' then Some Delivered else if raw = ''blocked'' then Some Blocked
      else if raw = ''retrying'' then Some Retrying else if raw = ''dismissed'' then Some Dismissed else None)"

datatype delivery_policy = ReturnToCurrentCall | ResumeRequesterOperation | AnnounceRequesterSession | SilentArtifactOnly

fun delivery_policy_as_str :: "delivery_policy \<Rightarrow> string" where
  "delivery_policy_as_str ReturnToCurrentCall = ''return_to_current_call''"
| "delivery_policy_as_str ResumeRequesterOperation = ''resume_requester_operation''"
| "delivery_policy_as_str AnnounceRequesterSession = ''announce_requester_session''"
| "delivery_policy_as_str SilentArtifactOnly = ''silent_artifact_only''"

definition delivery_policy_parse :: "string \<Rightarrow> delivery_policy option" where
  "delivery_policy_parse raw =
     (if raw = ''return_to_current_call'' then Some ReturnToCurrentCall
      else if raw = ''resume_requester_operation'' then Some ResumeRequesterOperation
      else if raw = ''announce_requester_session'' then Some AnnounceRequesterSession
      else if raw = ''silent_artifact_only'' then Some SilentArtifactOnly else None)"

datatype delivery_execution_source = ManagedDispatch | AttachedSession

fun execution_source_as_str :: "delivery_execution_source \<Rightarrow> string" where
  "execution_source_as_str ManagedDispatch = ''managed_dispatch''"
| "execution_source_as_str AttachedSession = ''attached_session''"

datatype delivery_event_kind =
  IntentCreated | ResultReady | ResultSuperseded | ClaimedEvent | DeliveredEvent | BlockedEvent
| RetryScheduled | DismissedEvent | ClaimExpired | TransitionDebt

fun delivery_event_kind_as_str :: "delivery_event_kind \<Rightarrow> string" where
  "delivery_event_kind_as_str IntentCreated = ''intent_created''"
| "delivery_event_kind_as_str ResultReady = ''result_ready''"
| "delivery_event_kind_as_str ResultSuperseded = ''result_superseded''"
| "delivery_event_kind_as_str ClaimedEvent = ''claimed''"
| "delivery_event_kind_as_str DeliveredEvent = ''delivered''"
| "delivery_event_kind_as_str BlockedEvent = ''blocked''"
| "delivery_event_kind_as_str RetryScheduled = ''retry_scheduled''"
| "delivery_event_kind_as_str DismissedEvent = ''dismissed''"
| "delivery_event_kind_as_str ClaimExpired = ''claim_expired''"
| "delivery_event_kind_as_str TransitionDebt = ''transition_debt''"

datatype delivery_visibility_class = Public | Private

fun visibility_class_as_str :: "delivery_visibility_class \<Rightarrow> string" where
  "visibility_class_as_str Public = ''public''"
| "visibility_class_as_str Private = ''private''"

interpretation delivery_state_wire: wire_vocabulary delivery_state_as_str delivery_state_parse
  "[NotReady, Ready, RequesterQueued, Delivered, Blocked, Retrying, Dismissed]"
proof unfold_locales
  show "v \<in> set [NotReady, Ready, RequesterQueued, Delivered, Blocked, Retrying, Dismissed]" for v
    by (cases v) simp_all
qed (simp_all add: delivery_state_parse_def)

interpretation delivery_policy_wire: wire_vocabulary delivery_policy_as_str delivery_policy_parse
  "[ReturnToCurrentCall, ResumeRequesterOperation, AnnounceRequesterSession, SilentArtifactOnly]"
proof unfold_locales
  show "v \<in> set [ReturnToCurrentCall, ResumeRequesterOperation, AnnounceRequesterSession, SilentArtifactOnly]" for v
    by (cases v) simp_all
qed (simp_all add: delivery_policy_parse_def)

lemmas delivery_spell_inject [simp] = delivery_state_wire.spell_inject delivery_policy_wire.spell_inject

lemma delivery_kind_inject [simp]:
  "delivery_event_kind_as_str k = delivery_event_kind_as_str l \<longleftrightarrow> k = l"
  by (cases k; cases l) simp_all

definition AMBIGUOUS_SEND_OUTCOME :: string where "AMBIGUOUS_SEND_OUTCOME = ''ambiguous_send_outcome''"
definition TRANSPORT_FAILURE :: string where "TRANSPORT_FAILURE = ''transport_failure''"
definition DELIVERY_REVOKED :: string where "DELIVERY_REVOKED = ''delivery_revoked''"
definition REQUESTER_UNAVAILABLE :: string where "REQUESTER_UNAVAILABLE = ''requester_unavailable''"

definition RETRYABLE :: "string list" where
  "RETRYABLE = [TRANSPORT_FAILURE, REQUESTER_UNAVAILABLE]"

section \<open>Rows\<close>

record delivery_requester_binding =
  rq_agent_identity_id :: "string option"
  rq_host_identity :: "string option"
  rq_session_ref :: "string option"

record new_delivery_intent =
  nw_idempotency_key :: string
  nw_execution_source :: delivery_execution_source
  nw_execution_ref :: string
  nw_terminal_receipt_revision :: int
  nw_work_claim_id :: "string option"
  nw_result_ref :: string
  nw_result_revision :: int
  nw_payload_digest :: string
  nw_visibility_class :: delivery_visibility_class
  nw_delivery_policy :: delivery_policy
  nw_protocol_capability :: string
  nw_requester :: delivery_requester_binding
  nw_expires_at :: "string option"
  nw_correction :: bool

record delivery_intent =
  di_delivery_id :: string
  di_idempotency_key :: string
  di_execution_source :: string
  di_execution_ref :: string
  di_terminal_receipt_revision :: int
  di_work_claim_id :: "string option"
  di_result_ref :: string
  di_result_revision :: int
  di_payload_digest :: string
  di_visibility_class :: string
  di_delivery_policy :: string
  di_protocol_capability :: string
  di_requester_agent_identity_id :: "string option"
  di_requester_host_identity :: "string option"
  di_requester_session_ref :: "string option"
  di_delivery_state :: string
  di_blocker_class :: "string option"
  di_active_claim_key :: "string option"
  di_claimed_by :: "string option"
  di_claim_expires_at :: "string option"
  di_attempt_count :: int
  di_next_retry_at :: "string option"
  di_expires_at :: "string option"
  di_created_at :: string
  di_ready_at :: "string option"
  di_delivered_at :: "string option"
  di_dismissed_at :: "string option"
  di_revision :: int
  di_updated_at :: string

record delivery_event =
  ve_delivery_id :: string
  ve_event_id :: string
  ve_kind :: string
  ve_expected_revision :: "int option"
  ve_detail :: "string option"
  ve_payload_digest :: "string option"
  ve_actor :: string
  ve_occurred_at :: string
  ve_recorded_at :: string

record delivery_claim_view =
  vw_delivery_id :: string
  vw_result_ref :: string
  vw_result_revision :: int
  vw_payload_digest :: string
  vw_visibility_class :: string
  vw_delivery_policy :: string
  vw_protocol_capability :: string
  vw_execution_source :: string
  vw_execution_ref :: string
  vw_work_claim_id :: "string option"
  vw_requester_session_ref :: "string option"
  vw_revision :: int
  vw_attempt_count :: int

definition from_intent :: "delivery_intent \<Rightarrow> delivery_claim_view" where
  "from_intent r =
     \<lparr> vw_delivery_id = di_delivery_id r, vw_result_ref = di_result_ref r,
       vw_result_revision = di_result_revision r, vw_payload_digest = di_payload_digest r,
       vw_visibility_class = di_visibility_class r, vw_delivery_policy = di_delivery_policy r,
       vw_protocol_capability = di_protocol_capability r, vw_execution_source = di_execution_source r,
       vw_execution_ref = di_execution_ref r, vw_work_claim_id = di_work_claim_id r,
       vw_requester_session_ref = di_requester_session_ref r, vw_revision = di_revision r,
       vw_attempt_count = di_attempt_count r \<rparr>"

record delivery_caller =
  ca_agent_identity_id :: string
  ca_host_identity :: string

record delivery_claim_request =
  cq_caller :: delivery_caller
  cq_claim_key :: string
  cq_lease_seconds :: int
  cq_only_delivery_id :: "string option"

definition DEFAULT_CLAIM_LEASE_SECONDS :: int where
  "DEFAULT_CLAIM_LEASE_SECONDS = 300"

datatype delivery_claim_outcome = Claimed delivery_claim_view | ReplayedClaim delivery_claim_view | NoneReady

datatype delivery_ack_outcome = Acknowledged int | AlreadyDelivered

text \<open>
  The errors by variant. A refused statement is a \<open>Sqlite\<close> error; \<open>Panicked\<close> is an
  arithmetic panic of \<open>chrono\<close>.
\<close>

datatype sqlite_refusal = CheckFailed | PrimaryKeyTaken | KeyTaken | EventPairTaken | EventIdTaken

datatype delivery_error =
    InvalidArg | NotFound | DeliveryIncompatibleState | DeliveryRevisionConflict
  | DeliveryIdempotencyConflict | Internal | Sqlite sqlite_refusal | Panicked

section \<open>The tables and their constraints\<close>

record delivery_db =
  dd_intents :: "(string \<times> delivery_intent) list"
  dd_events :: "delivery_event list"

text \<open>SQLite's \<open>length\<close> counts characters up to the first NUL and its \<open>trim\<close> removes spaces only.\<close>

definition NUL :: char where "NUL = CHR 0x00"

definition sql_length :: "string \<Rightarrow> nat" where
  "sql_length s = length (filter (\<lambda>c. \<not> (128 \<le> (of_char c :: nat) \<and> (of_char c :: nat) \<le> 191)) (takeWhile (\<lambda>c. c \<noteq> NUL) s))"

definition sql_trim :: "string \<Rightarrow> string" where
  "sql_trim s = rev (dropWhile (\<lambda>c. c = CHR '' '') (rev (dropWhile (\<lambda>c. c = CHR '' '') s)))"

definition text_check :: "nat \<Rightarrow> string \<Rightarrow> bool" where
  "text_check n s \<longleftrightarrow> sql_length s \<le> n \<and> 0 < sql_length (sql_trim s) \<and> NUL \<notin> set s"

definition instant_check :: "string \<Rightarrow> bool" where
  "instant_check s \<longleftrightarrow> sql_length s \<le> 64 \<and> NUL \<notin> set s"

definition is_ascii_alphanumeric :: "char \<Rightarrow> bool" where
  "is_ascii_alphanumeric c = (let n = of_char c :: nat in
     48 \<le> n \<and> n \<le> 57 \<or> 65 \<le> n \<and> n \<le> 90 \<or> 97 \<le> n \<and> n \<le> 122)"

definition digest_char :: "char \<Rightarrow> bool" where
  "digest_char c \<longleftrightarrow> is_ascii_alphanumeric c \<or> c \<in> set ''+=/_:-''"

definition digest_check :: "string \<Rightarrow> bool" where
  "digest_check s \<longleftrightarrow> sql_length s \<le> 128 \<and> 0 < sql_length (sql_trim s) \<and> list_all digest_char s \<and> length s = sql_length s"

definition or_null :: "('a \<Rightarrow> bool) \<Rightarrow> 'a option \<Rightarrow> bool" where
  "or_null P x = (case x of None \<Rightarrow> True | Some a \<Rightarrow> P a)"

definition intent_check :: "delivery_intent \<Rightarrow> bool" where
  "intent_check r \<longleftrightarrow>
     text_check 128 (di_idempotency_key r)
   \<and> di_execution_source r \<in> {''managed_dispatch'', ''attached_session''}
   \<and> text_check 128 (di_execution_ref r)
   \<and> 0 \<le> di_terminal_receipt_revision r
   \<and> or_null (text_check 128) (di_work_claim_id r)
   \<and> text_check 512 (di_result_ref r)
   \<and> 1 \<le> di_result_revision r
   \<and> digest_check (di_payload_digest r)
   \<and> di_visibility_class r \<in> {''public'', ''private''}
   \<and> delivery_policy_parse (di_delivery_policy r) \<noteq> None
   \<and> text_check 128 (di_protocol_capability r)
   \<and> or_null (text_check 128) (di_requester_agent_identity_id r)
   \<and> or_null (text_check 128) (di_requester_host_identity r)
   \<and> or_null (text_check 256) (di_requester_session_ref r)
   \<and> delivery_state_parse (di_delivery_state r) \<noteq> None
   \<and> or_null (text_check 128) (di_blocker_class r)
   \<and> or_null (text_check 128) (di_active_claim_key r)
   \<and> or_null (text_check 128) (di_claimed_by r)
   \<and> or_null instant_check (di_claim_expires_at r)
   \<and> 0 \<le> di_attempt_count r
   \<and> or_null instant_check (di_next_retry_at r)
   \<and> or_null instant_check (di_expires_at r)
   \<and> 1 \<le> di_revision r
   \<and> (di_delivery_state r \<noteq> ''delivered'' \<or> di_delivered_at r \<noteq> None)
   \<and> (di_delivery_state r \<noteq> ''dismissed'' \<or> di_dismissed_at r \<noteq> None)
   \<and> (di_delivery_state r = ''requester_queued''
        \<or> di_active_claim_key r = None \<and> di_claimed_by r = None \<and> di_claim_expires_at r = None)
   \<and> (di_delivery_state r \<noteq> ''requester_queued''
        \<or> di_active_claim_key r \<noteq> None \<and> di_claimed_by r \<noteq> None \<and> di_claim_expires_at r \<noteq> None)
   \<and> (di_delivery_state r \<in> {''blocked'', ''retrying''} \<or> di_blocker_class r = None)"

definition event_check :: "delivery_event \<Rightarrow> bool" where
  "event_check e \<longleftrightarrow>
     text_check 256 (ve_event_id e)
   \<and> or_null (\<lambda>n. 1 \<le> n) (ve_expected_revision e)
   \<and> or_null (\<lambda>d. 0 < sql_length d \<and> sql_length d \<le> 1000 \<and> NUL \<notin> set d) (ve_detail e)
   \<and> or_null digest_check (ve_payload_digest e)
   \<and> 0 < sql_length (sql_trim (ve_actor e))
   \<and> instant_check (ve_occurred_at e)"

text \<open>\<open>INSERT INTO delivery_intents\<close> and \<open>UPDATE delivery_intents SET ... WHERE delivery_id = ... AND guard\<close>.\<close>

definition find_intent_by_id :: "delivery_db \<Rightarrow> string \<Rightarrow> delivery_intent option" where
  "find_intent_by_id db i = map_of (dd_intents db) i"

definition find_intent_by_key :: "delivery_db \<Rightarrow> string \<Rightarrow> delivery_intent option" where
  "find_intent_by_key db k = find (\<lambda>r. di_idempotency_key r = k) (map snd (dd_intents db))"

definition insert_intent :: "delivery_intent \<Rightarrow> delivery_db \<Rightarrow> (delivery_db, delivery_error) result" where
  "insert_intent r db =
     (if \<not> intent_check r then Err (Sqlite CheckFailed)
      else if find_intent_by_id db (di_delivery_id r) \<noteq> None then Err (Sqlite PrimaryKeyTaken)
      else if find_intent_by_key db (di_idempotency_key r) \<noteq> None then Err (Sqlite KeyTaken)
      else Ok (db\<lparr> dd_intents := bt_insert (di_delivery_id r) r (dd_intents db) \<rparr>))"

definition update_intent ::
  "string \<Rightarrow> (delivery_intent \<Rightarrow> bool) \<Rightarrow> (delivery_intent \<Rightarrow> delivery_intent) \<Rightarrow> delivery_db \<Rightarrow>
     (nat \<times> delivery_db, delivery_error) result" where
  "update_intent i guard f db = (case find_intent_by_id db i of
     None \<Rightarrow> Ok (0, db)
   | Some r \<Rightarrow>
       if \<not> guard r then Ok (0, db)
       else if \<not> intent_check (f r) then Err (Sqlite CheckFailed)
       else Ok (1, db\<lparr> dd_intents := update_row i f (dd_intents db) \<rparr>))"

definition validate_detail :: "string option \<Rightarrow> (unit, delivery_error) result" where
  "validate_detail detail = (case detail of
     Some d \<Rightarrow> if d = [] \<or> 1000 < length d \<or> NUL \<in> set d then Err InvalidArg else Ok ()
   | None \<Rightarrow> Ok ())"

definition append_event ::
  "string \<Rightarrow> string \<Rightarrow> delivery_event_kind \<Rightarrow> int option \<Rightarrow> string option \<Rightarrow> string option \<Rightarrow> string \<Rightarrow> string \<Rightarrow>
     delivery_db \<Rightarrow> (delivery_db, delivery_error) result" where
  "append_event i event_id kind expected detail digest actor now db =
     and_then (validate_detail detail) (\<lambda>_.
       let e = \<lparr> ve_delivery_id = i, ve_event_id = event_id, ve_kind = delivery_event_kind_as_str kind,
                 ve_expected_revision = expected, ve_detail = detail, ve_payload_digest = digest,
                 ve_actor = actor, ve_occurred_at = now, ve_recorded_at = now \<rparr>
       in if \<not> event_check e then Err (Sqlite CheckFailed)
          else if list_ex (\<lambda>v. ve_delivery_id v = i \<and> ve_event_id v = event_id) (dd_events db)
            then Err (Sqlite EventPairTaken)
          else if kind \<in> {ClaimedEvent, DeliveredEvent}
                \<and> list_ex (\<lambda>v. ve_event_id v = event_id \<and> ve_kind v = ve_kind e) (dd_events db)
            then Err (Sqlite EventIdTaken)
          else Ok (db\<lparr> dd_events := dd_events db @ [e] \<rparr>))"

section \<open>Calls\<close>

type_synonym 'r delivery_call = "delivery_db \<Rightarrow> ('r, delivery_error) result \<times> delivery_db"

text \<open>\<open>with_composable_write\<close> and the transactions of mint: the writes of a failing block are dropped.\<close>

definition atomically :: "(delivery_db \<Rightarrow> ('r \<times> delivery_db, delivery_error) result) \<Rightarrow> 'r delivery_call" where
  "atomically block db = (case block db of Inl e \<Rightarrow> (Err e, db) | Inr (v, db') \<Rightarrow> (Ok v, db'))"

text \<open>\<open>?\<close> between the parts of a call.\<close>

definition then_call :: "'r delivery_call \<Rightarrow> ('r \<Rightarrow> 's delivery_call) \<Rightarrow> 's delivery_call" where
  "then_call c f db = (case c db of (Inl e, db') \<Rightarrow> (Err e, db') | (Inr v, db') \<Rightarrow> f v db')"

definition fail :: "delivery_error \<Rightarrow> 'r delivery_call" where
  "fail e db = (Err e, db)"

text \<open>
  What the code uses of \<open>chrono\<close> and \<open>sha2\<close>. \<open>checked_add_seconds t s\<close> is \<open>t + Duration::seconds(s)\<close>,
  nothing where either of the two panics.
\<close>

record delivery_lib = chrono +
  to_rfc3339_micros :: "int \<Rightarrow> string"
  checked_add_seconds :: "int \<Rightarrow> int \<Rightarrow> int option"
  digest_bytes :: "string \<Rightarrow> 8 word list"

definition show_i64 :: "int \<Rightarrow> string" where
  "show_i64 n = (if 0 \<le> n then show_nat (nat n) else ''-'' @ show_nat (nat (- n)))"

text \<open>\<open>n + 1\<close> on an \<open>i64\<close>; the release profile wraps.\<close>

definition i64_succ :: "int \<Rightarrow> int" where
  "i64_succ n = (if n = 2 ^ 63 - 1 then - (2 ^ 63) else n + 1)"

definition delivery_id_for_key :: "'a delivery_lib_scheme \<Rightarrow> string \<Rightarrow> string" where
  "delivery_id_for_key lib k = ''di-'' @ take 32 (concat (map hex_byte (digest_bytes lib k)))"

definition lease_expiration :: "'a delivery_lib_scheme \<Rightarrow> string \<Rightarrow> int \<Rightarrow> (string, delivery_error) result" where
  "lease_expiration lib now seconds = (case parse_from_rfc3339 lib now of
     None \<Rightarrow> Err Internal
   | Some t \<Rightarrow> (case checked_add_seconds lib t seconds of
       None \<Rightarrow> Err Panicked
     | Some u \<Rightarrow> Ok (to_rfc3339_micros lib u)))"

definition instant_or_min :: "'a chrono_scheme \<Rightarrow> string \<Rightarrow> int" where
  "instant_or_min ch ts = (case parse_from_rfc3339 ch ts of Some t \<Rightarrow> t | None \<Rightarrow> MIN_UTC ch)"

definition claimable_state :: "'a chrono_scheme \<Rightarrow> delivery_intent \<Rightarrow> string \<Rightarrow> bool" where
  "claimable_state ch r now \<longleftrightarrow>
     di_delivery_state r = ''ready''
   \<or> di_delivery_state r = ''retrying''
     \<and> (case di_next_retry_at r of Some t \<Rightarrow> instant_or_min ch t \<le> instant_or_min ch now | None \<Rightarrow> True)"

definition requester_matches :: "delivery_intent \<Rightarrow> delivery_caller \<Rightarrow> bool" where
  "requester_matches r c \<longleftrightarrow>
     (case di_requester_agent_identity_id r of Some bound \<Rightarrow> bound = ca_agent_identity_id c | None \<Rightarrow> True)
   \<and> (case di_requester_host_identity r of Some bound \<Rightarrow> bound = ca_host_identity c | None \<Rightarrow> True)"

definition bounded_text :: "nat \<Rightarrow> string \<Rightarrow> bool" where
  "bounded_text n s \<longleftrightarrow> \<not> blank s \<and> length s \<le> n"

definition validate_caller :: "delivery_caller \<Rightarrow> (unit, delivery_error) result" where
  "validate_caller c =
     (if bounded_text 128 (ca_agent_identity_id c) \<and> bounded_text 128 (ca_host_identity c) then Ok () else Err InvalidArg)"

definition validate_mint :: "new_delivery_intent \<Rightarrow> (unit, delivery_error) result" where
  "validate_mint n =
     (if bounded_text 128 (nw_idempotency_key n) \<and> bounded_text 128 (nw_execution_ref n)
         \<and> bounded_text 512 (nw_result_ref n) \<and> bounded_text 128 (nw_protocol_capability n)
         \<and> 1 \<le> nw_result_revision n \<and> 0 \<le> nw_terminal_receipt_revision n
         \<and> nw_payload_digest n \<noteq> [] \<and> length (nw_payload_digest n) \<le> 128 \<and> list_all digest_char (nw_payload_digest n)
         \<and> \<not> (nw_visibility_class n = Private \<and> rq_agent_identity_id (nw_requester n) = None)
         \<and> or_null (bounded_text 128) (rq_agent_identity_id (nw_requester n))
         \<and> or_null (bounded_text 128) (rq_host_identity (nw_requester n))
         \<and> or_null (bounded_text 256) (rq_session_ref (nw_requester n))
      then Ok () else Err InvalidArg)"

definition find_or_internal :: "string \<Rightarrow> delivery_intent delivery_call" where
  "find_or_internal i db = (case find_intent_by_id db i of Some r \<Rightarrow> (Ok r, db) | None \<Rightarrow> (Err Internal, db))"

section \<open>Mint\<close>

definition minted_row :: "'a delivery_lib_scheme \<Rightarrow> string \<Rightarrow> new_delivery_intent \<Rightarrow> delivery_intent" where
  "minted_row lib now n =
     \<lparr> di_delivery_id = delivery_id_for_key lib (nw_idempotency_key n), di_idempotency_key = nw_idempotency_key n,
       di_execution_source = execution_source_as_str (nw_execution_source n), di_execution_ref = nw_execution_ref n,
       di_terminal_receipt_revision = nw_terminal_receipt_revision n, di_work_claim_id = nw_work_claim_id n,
       di_result_ref = nw_result_ref n, di_result_revision = nw_result_revision n,
       di_payload_digest = nw_payload_digest n, di_visibility_class = visibility_class_as_str (nw_visibility_class n),
       di_delivery_policy = delivery_policy_as_str (nw_delivery_policy n),
       di_protocol_capability = nw_protocol_capability n,
       di_requester_agent_identity_id = rq_agent_identity_id (nw_requester n),
       di_requester_host_identity = rq_host_identity (nw_requester n),
       di_requester_session_ref = rq_session_ref (nw_requester n),
       di_delivery_state = ''ready'', di_blocker_class = None, di_active_claim_key = None, di_claimed_by = None,
       di_claim_expires_at = None, di_attempt_count = 0, di_next_retry_at = None, di_expires_at = nw_expires_at n,
       di_created_at = now, di_ready_at = Some now, di_delivered_at = None, di_dismissed_at = None,
       di_revision = 1, di_updated_at = now \<rparr>"

definition superseded_row :: "string \<Rightarrow> new_delivery_intent \<Rightarrow> int \<Rightarrow> int \<Rightarrow> delivery_intent \<Rightarrow> delivery_intent" where
  "superseded_row now n next_result next_revision r =
     r\<lparr> di_result_ref := nw_result_ref n, di_result_revision := next_result, di_payload_digest := nw_payload_digest n,
        di_terminal_receipt_revision := nw_terminal_receipt_revision n, di_delivery_state := ''ready'',
        di_ready_at := Some now, di_revision := next_revision, di_updated_at := now,
        di_active_claim_key := None, di_claimed_by := None, di_claim_expires_at := None,
        di_blocker_class := None, di_next_retry_at := None \<rparr>"

definition supersede_intent ::
  "delivery_intent \<Rightarrow> new_delivery_intent \<Rightarrow> int \<Rightarrow> string \<Rightarrow> delivery_intent delivery_call" where
  "supersede_intent existing n next_result now =
    (let i = di_delivery_id existing; reopens = (di_delivery_state existing \<noteq> ''ready'');
         next_revision = di_revision existing + 1
     in then_call
       (atomically (\<lambda>db.
          and_then (update_intent i (\<lambda>r. di_revision r = di_revision existing)
                      (superseded_row now n next_result next_revision) db) (\<lambda>(updated, db1).
          if updated = 0 then Err DeliveryRevisionConflict
          else and_then (append_event i (''superseded:'' @ i @ '':'' @ show_i64 next_result) ResultSuperseded
                  (Some (di_revision existing))
                  (Some (''corrected result revision '' @ show_i64 next_result @ '' replaces ''
                         @ show_i64 (di_result_revision existing)))
                  (Some (nw_payload_digest n)) ''tachi'' now db1) (\<lambda>db2.
               and_then (if reopens then append_event i (''debt:supersede:'' @ i @ '':'' @ now) TransitionDebt
                    (Some (di_revision existing))
                    (Some (''delivery re-armed from '' @ di_delivery_state existing @ '' by a corrected result revision''))
                    None ''tachi'' now db2 else Ok db2) (\<lambda>db3. Ok ((), db3))))))
       (\<lambda>_. find_or_internal i))"

definition reconcile_mint :: "delivery_intent \<Rightarrow> new_delivery_intent \<Rightarrow> string \<Rightarrow> delivery_intent delivery_call" where
  "reconcile_mint existing n now =
    (let same_content = (di_result_ref existing = nw_result_ref n \<and> di_payload_digest existing = nw_payload_digest n)
     in if nw_result_revision n < di_result_revision existing \<and> \<not> nw_correction n then (\<lambda>db. (Ok existing, db))
        else if nw_result_revision n = di_result_revision existing then
          (if same_content then (\<lambda>db. (Ok existing, db))
           else if \<not> nw_correction n then fail DeliveryIdempotencyConflict
           else supersede_intent existing n (i64_succ (di_result_revision existing)) now)
        else if same_content then (\<lambda>db. (Ok existing, db))
        else supersede_intent existing n (max (nw_result_revision n) (i64_succ (di_result_revision existing))) now)"

definition mint_delivery_intent ::
  "'a delivery_lib_scheme \<Rightarrow> string \<Rightarrow> new_delivery_intent \<Rightarrow> delivery_intent delivery_call" where
  "mint_delivery_intent lib now n db = (case validate_mint n of
     Inl e \<Rightarrow> (Err e, db)
   | Inr _ \<Rightarrow> (case find_intent_by_key db (nw_idempotency_key n) of
       Some existing \<Rightarrow> reconcile_mint existing n now db
     | None \<Rightarrow>
         (let i = delivery_id_for_key lib (nw_idempotency_key n)
          in then_call
            (atomically (\<lambda>db.
               and_then (insert_intent (minted_row lib now n) db) (\<lambda>db1.
               and_then (append_event i (''intent_created:'' @ i) IntentCreated None
                 (Some ''durable delivery intent minted from a terminal receipt'')
                 (Some (nw_payload_digest n)) ''tachi'' now db1) (\<lambda>db2.
               and_then (append_event i (''ready:'' @ i @ '':'' @ show_i64 (nw_result_revision n)) ResultReady None
                 (Some ''terminal result ready for requester delivery'')
                 (Some (nw_payload_digest n)) ''tachi'' now db2) (\<lambda>db3. Ok ((), db3))))))
            (\<lambda>_. find_or_internal i) db)))"

section \<open>Claim\<close>

definition released_row :: "string \<Rightarrow> int \<Rightarrow> delivery_intent \<Rightarrow> delivery_intent" where
  "released_row now next_revision r =
     r\<lparr> di_delivery_state := ''ready'', di_ready_at := Some now, di_revision := next_revision, di_updated_at := now,
        di_active_claim_key := None, di_claimed_by := None, di_claim_expires_at := None \<rparr>"

definition release_expired_claim :: "delivery_intent \<Rightarrow> string \<Rightarrow> unit delivery_call" where
  "release_expired_claim intent now =
    (let i = di_delivery_id intent; next_revision = di_revision intent + 1
     in atomically (\<lambda>db.
       and_then (update_intent i
           (\<lambda>r. di_delivery_state r = ''requester_queued'' \<and> di_revision r = di_revision intent)
           (released_row now next_revision) db) (\<lambda>(updated, db1).
       if updated = 0 then Ok ((), db1)
       else and_then (append_event i (''claim_expired:'' @ i @ '':'' @ show_i64 next_revision) ClaimExpired
              (Some (di_revision intent))
              (Some ''claim expired without acknowledgement; the same intent is re-claimable'')
              None ''tachi'' now db1) (\<lambda>db2. Ok ((), db2)))))"

fun each_call :: "('a \<Rightarrow> unit delivery_call) \<Rightarrow> 'a list \<Rightarrow> unit delivery_call" where
  "each_call f [] = (\<lambda>db. (Ok (), db))"
| "each_call f (x # xs) = then_call (f x) (\<lambda>_. each_call f xs)"

text \<open>The binding part of the listings' WHERE clause is the predicate of \<open>requester_matches\<close>.\<close>

definition select_intents :: "delivery_caller \<Rightarrow> string list \<Rightarrow> delivery_db \<Rightarrow> delivery_intent list" where
  "select_intents c states db =
     filter (\<lambda>r. di_delivery_state r \<in> set states \<and> requester_matches r c) (map snd (dd_intents db))"

definition claim_expired :: "'a chrono_scheme \<Rightarrow> string \<Rightarrow> delivery_intent \<Rightarrow> bool" where
  "claim_expired ch now r = (case di_claim_expires_at r of
     Some t \<Rightarrow> instant_or_min ch t < instant_or_min ch now | None \<Rightarrow> False)"

definition release_expired_claims_for_caller ::
  "'a chrono_scheme \<Rightarrow> delivery_caller \<Rightarrow> string \<Rightarrow> unit delivery_call" where
  "release_expired_claims_for_caller ch c now db =
     each_call (\<lambda>r. release_expired_claim r now)
       (filter (claim_expired ch now) (select_intents c [''requester_queued''] db)) db"

definition resolve_claim_key_replay ::
  "delivery_db \<Rightarrow> delivery_claim_request \<Rightarrow> (delivery_claim_outcome option, delivery_error) result" where
  "resolve_claim_key_replay db q =
    (case map_option ve_delivery_id (find (\<lambda>e. ve_event_id e = ''claim:'' @ cq_claim_key q) (dd_events db)) of
       None \<Rightarrow> Ok None
     | Some recorded \<Rightarrow>
         if (case cq_only_delivery_id q of Some pinned \<Rightarrow> pinned \<noteq> recorded | None \<Rightarrow> False)
         then Err DeliveryIdempotencyConflict
         else (case find_intent_by_id db recorded of
             None \<Rightarrow> Err Internal
           | Some r \<Rightarrow>
               if \<not> requester_matches r (cq_caller q) then Ok (Some NoneReady)
               else if di_active_claim_key r = Some (cq_claim_key q) \<and> di_delivery_state r = ''requester_queued''
               then Ok (Some (ReplayedClaim (from_intent r)))
               else Err DeliveryIdempotencyConflict))"

definition claimed_row :: "delivery_claim_request \<Rightarrow> string \<Rightarrow> string \<Rightarrow> int \<Rightarrow> delivery_intent \<Rightarrow> delivery_intent" where
  "claimed_row q now expires next_revision r =
     r\<lparr> di_delivery_state := ''requester_queued'', di_active_claim_key := Some (cq_claim_key q),
        di_claimed_by := Some (ca_host_identity (cq_caller q)), di_claim_expires_at := Some expires,
        di_attempt_count := di_attempt_count r + 1, di_revision := next_revision, di_updated_at := now,
        di_next_retry_at := None, di_blocker_class := None \<rparr>"

text \<open>The uniqueness of a key over all intents reads back as a conflict, every other refusal as itself.\<close>

definition key_conflict :: "(delivery_db, delivery_error) result \<Rightarrow> (delivery_db, delivery_error) result" where
  "key_conflict r = (case r of Inl (Sqlite EventIdTaken) \<Rightarrow> Err DeliveryIdempotencyConflict | _ \<Rightarrow> r)"

definition transition_to_claimed ::
  "delivery_intent \<Rightarrow> delivery_claim_request \<Rightarrow> string \<Rightarrow> string \<Rightarrow> delivery_claim_outcome delivery_call" where
  "transition_to_claimed intent q now expires =
    (let i = di_delivery_id intent; reopen = (di_delivery_state intent = ''retrying'');
         host = ca_host_identity (cq_caller q); expected = Some (di_revision intent)
     in then_call
       (atomically (\<lambda>db.
          and_then (update_intent i (\<lambda>r. di_revision r = di_revision intent)
                      (claimed_row q now expires (di_revision intent + 1)) db) (\<lambda>(updated, db1).
          if updated = 0 then Err DeliveryRevisionConflict
          else and_then (key_conflict (append_event i (''claim:'' @ cq_claim_key q) ClaimedEvent expected
                  (Some (''claimed by '' @ host)) None host now db1)) (\<lambda>db2.
               and_then (if reopen then append_event i (''debt:claim:'' @ cq_claim_key q) TransitionDebt expected
                    (Some ''delivery re-entered requester_queued from retrying (reopen-like transition)'')
                    None host now db2 else Ok db2) (\<lambda>db3. Ok ((), db3))))))
       (\<lambda>_. then_call (find_or_internal i) (\<lambda>r db. (Ok (Claimed (from_intent r)), db))))"

text \<open>Up to the replay check, and the part after the sweep of expired claims.\<close>

definition claim_prelude ::
  "'a delivery_lib_scheme \<Rightarrow> string \<Rightarrow> delivery_claim_request \<Rightarrow> delivery_db \<Rightarrow>
     (string \<times> delivery_claim_outcome option, delivery_error) result" where
  "claim_prelude lib now q db =
     and_then (validate_caller (cq_caller q)) (\<lambda>_.
     and_then (if bounded_text 128 (cq_claim_key q) then Ok () else Err InvalidArg) (\<lambda>_.
     and_then (lease_expiration lib now
         (if 0 < cq_lease_seconds q then cq_lease_seconds q else DEFAULT_CLAIM_LEASE_SECONDS)) (\<lambda>expires.
     and_then (resolve_claim_key_replay db q) (\<lambda>replayed. Ok (expires, replayed)))))"

definition load_claimable_intents :: "'a chrono_scheme \<Rightarrow> delivery_caller \<Rightarrow> string \<Rightarrow> delivery_db \<Rightarrow> delivery_intent list" where
  "load_claimable_intents ch c now db =
     filter (\<lambda>r. claimable_state ch r now) (select_intents c [''ready'', ''retrying''] db)"

definition claim_selected ::
  "'a chrono_scheme \<Rightarrow> string \<Rightarrow> delivery_claim_request \<Rightarrow> string \<Rightarrow> delivery_claim_outcome delivery_call" where
  "claim_selected ch now q expires db = (case cq_only_delivery_id q of
     Some i \<Rightarrow> (case find_intent_by_id db i of
         None \<Rightarrow> (Err NotFound, db)
       | Some r \<Rightarrow>
           if \<not> claimable_state ch r now \<or> \<not> requester_matches r (cq_caller q) then (Ok NoneReady, db)
           else transition_to_claimed r q now expires db)
   | None \<Rightarrow> (case sort_key (\<lambda>r. (di_created_at r, di_delivery_id r)) (load_claimable_intents ch (cq_caller q) now db) of
         [] \<Rightarrow> (Ok NoneReady, db)
       | r # _ \<Rightarrow> transition_to_claimed r q now expires db))"

definition claim_ready_delivery ::
  "'a delivery_lib_scheme \<Rightarrow> string \<Rightarrow> delivery_claim_request \<Rightarrow> delivery_claim_outcome delivery_call" where
  "claim_ready_delivery lib now q db = (case claim_prelude lib now q db of
     Inl e \<Rightarrow> (Err e, db)
   | Inr (expires, replayed) \<Rightarrow> (case replayed of
       Some outcome \<Rightarrow> (Ok outcome, db)
     | None \<Rightarrow>
         then_call (release_expired_claims_for_caller lib (cq_caller q) now) (\<lambda>_. claim_selected lib now q expires) db))"

section \<open>Acknowledge, refuse, resume, dismiss\<close>

definition expects :: "int option \<Rightarrow> delivery_intent \<Rightarrow> bool" where
  "expects expected r = (case expected of Some n \<Rightarrow> di_revision r = n | None \<Rightarrow> True)"

definition acked_row :: "string \<Rightarrow> int \<Rightarrow> delivery_intent \<Rightarrow> delivery_intent" where
  "acked_row now next_revision r =
     r\<lparr> di_delivery_state := ''delivered'', di_delivered_at := Some now, di_revision := next_revision,
        di_active_claim_key := None, di_claimed_by := None, di_claim_expires_at := None,
        di_blocker_class := None, di_next_retry_at := None, di_updated_at := now \<rparr>"

text \<open>The write half, from the row as it was read.\<close>

definition ack_write ::
  "delivery_intent \<Rightarrow> delivery_caller \<Rightarrow> string \<Rightarrow> string \<Rightarrow> delivery_ack_outcome delivery_call" where
  "ack_write intent c ack_key now =
    (let i = di_delivery_id intent; next_revision = di_revision intent + 1
     in atomically (\<lambda>db.
       and_then (update_intent i (\<lambda>r. di_revision r = di_revision intent) (acked_row now next_revision) db) (\<lambda>(updated, db1).
       if updated = 0 then Err DeliveryRevisionConflict
       else and_then (key_conflict (append_event i (''ack:'' @ ack_key) DeliveredEvent (Some (di_revision intent))
              (Some ''requester acknowledged delivery'') None (ca_host_identity c) now db1))
              (\<lambda>db2. Ok (Acknowledged next_revision, db2)))))"

definition ack_delivered ::
  "string \<Rightarrow> string \<Rightarrow> delivery_caller \<Rightarrow> string \<Rightarrow> int option \<Rightarrow> delivery_ack_outcome delivery_call" where
  "ack_delivered now i c ack_key expected db = (case validate_caller c of
     Inl e \<Rightarrow> (Err e, db)
   | Inr _ \<Rightarrow>
       if \<not> bounded_text 128 ack_key then (Err InvalidArg, db)
       else (case find_intent_by_id db i of
           None \<Rightarrow> (Err NotFound, db)
         | Some r \<Rightarrow>
             if \<not> requester_matches r c then (Err NotFound, db)
             else if di_delivery_state r = ''delivered'' then (Ok AlreadyDelivered, db)
             else if di_delivery_state r \<noteq> ''requester_queued'' then (Err DeliveryIncompatibleState, db)
             else if di_claimed_by r \<noteq> Some (ca_host_identity c) then (Err DeliveryIncompatibleState, db)
             else if \<not> expects expected r then (Err DeliveryRevisionConflict, db)
             else if list_ex (\<lambda>e. ve_delivery_id e = i \<and> ve_event_id e = ''ack:'' @ ack_key) (dd_events db)
             then (Ok AlreadyDelivered, db)
             else ack_write r c ack_key now db))"

definition rejected_row ::
  "string \<Rightarrow> string \<Rightarrow> string \<Rightarrow> string option \<Rightarrow> int \<Rightarrow> delivery_intent \<Rightarrow> delivery_intent" where
  "rejected_row now state blocker next_retry next_revision r =
     r\<lparr> di_delivery_state := state, di_blocker_class := Some blocker, di_next_retry_at := next_retry,
        di_revision := next_revision, di_updated_at := now,
        di_active_claim_key := None, di_claimed_by := None, di_claim_expires_at := None \<rparr>"

definition reject_write ::
  "delivery_intent \<Rightarrow> delivery_caller \<Rightarrow> string \<Rightarrow> string option \<Rightarrow> string option \<Rightarrow> string \<Rightarrow> unit delivery_call" where
  "reject_write intent c blocker detail next_retry now =
    (let i = di_delivery_id intent; retryable = (blocker \<in> set RETRYABLE);
         next_state = (if retryable then ''retrying'' else ''blocked'')
     in atomically (\<lambda>db.
       and_then (update_intent i (\<lambda>r. di_revision r = di_revision intent)
           (rejected_row now next_state blocker next_retry (di_revision intent + 1)) db) (\<lambda>(updated, db1).
       if updated = 0 then Err DeliveryRevisionConflict
       else and_then (append_event i (''reject:'' @ next_state @ '':'' @ now)
              (if retryable then RetryScheduled else BlockedEvent) (Some (di_revision intent))
              detail None (ca_host_identity c) now db1) (\<lambda>db2. Ok ((), db2)))))"

definition reject_or_block ::
  "'a delivery_lib_scheme \<Rightarrow> string \<Rightarrow> string \<Rightarrow> delivery_caller \<Rightarrow> string \<Rightarrow> string option \<Rightarrow> int option \<Rightarrow> int option \<Rightarrow>
     delivery_intent delivery_call" where
  "reject_or_block lib now i c blocker detail retry_in expected db =
    (case and_then (validate_caller c) (\<lambda>_.
          and_then (if bounded_text 128 blocker then Ok () else Err InvalidArg) (\<lambda>_. validate_detail detail)) of
       Inl e \<Rightarrow> (Err e, db)
     | Inr _ \<Rightarrow> (case find_intent_by_id db i of
         None \<Rightarrow> (Err NotFound, db)
       | Some r \<Rightarrow>
           if \<not> requester_matches r c then (Err NotFound, db)
           else if di_delivery_state r \<noteq> ''requester_queued'' then (Err DeliveryIncompatibleState, db)
           else if di_claimed_by r \<noteq> Some (ca_host_identity c) then (Err DeliveryIncompatibleState, db)
           else if \<not> expects expected r then (Err DeliveryRevisionConflict, db)
           else (case (if blocker \<in> set RETRYABLE
                  then and_then (lease_expiration lib now (max (case retry_in of Some s \<Rightarrow> s | None \<Rightarrow> 0) 1)) (\<lambda>t. Ok (Some t))
                  else Ok None) of
               Inl e \<Rightarrow> (Err e, db)
             | Inr next_retry \<Rightarrow>
                 then_call (reject_write r c blocker detail next_retry now) (\<lambda>_. find_or_internal i) db)))"

definition rearmed_row :: "string \<Rightarrow> int \<Rightarrow> delivery_intent \<Rightarrow> delivery_intent" where
  "rearmed_row now next_revision r =
     r\<lparr> di_delivery_state := ''ready'', di_ready_at := Some now, di_revision := next_revision, di_updated_at := now,
        di_blocker_class := None, di_next_retry_at := None,
        di_active_claim_key := None, di_claimed_by := None, di_claim_expires_at := None \<rparr>"

definition rearm_blocked_intent :: "delivery_caller \<Rightarrow> string \<Rightarrow> delivery_intent \<Rightarrow> unit delivery_call" where
  "rearm_blocked_intent c now intent =
    (let i = di_delivery_id intent; next_revision = di_revision intent + 1
     in atomically (\<lambda>db.
       and_then (update_intent i (\<lambda>r. di_delivery_state r = ''blocked'' \<and> di_revision r = di_revision intent)
           (rearmed_row now next_revision) db) (\<lambda>(updated, db1).
       if updated = 0 then Ok ((), db1)
       else and_then (append_event i (''rearm:'' @ i @ '':'' @ show_i64 next_revision) TransitionDebt
              (Some (di_revision intent))
              (Some ''requester affirmatively re-armed a blocked delivery after reconnect'')
              None (ca_host_identity c) now db1) (\<lambda>db2. Ok ((), db2)))))"

definition rearm_blocked_intents_for_caller :: "delivery_caller \<Rightarrow> string \<Rightarrow> unit delivery_call" where
  "rearm_blocked_intents_for_caller c now db =
     each_call (rearm_blocked_intent c now) (select_intents c [''blocked''] db) db"

definition resume_requester_operation ::
  "'a chrono_scheme \<Rightarrow> string \<Rightarrow> delivery_caller \<Rightarrow> bool \<Rightarrow> delivery_intent list delivery_call" where
  "resume_requester_operation ch now c rearm db = (case validate_caller c of
     Inl e \<Rightarrow> (Err e, db)
   | Inr _ \<Rightarrow>
       then_call (release_expired_claims_for_caller ch c now) (\<lambda>_.
       then_call (if rearm then rearm_blocked_intents_for_caller c now else (\<lambda>db. (Ok (), db))) (\<lambda>_ db1.
         (Ok (sort_key (\<lambda>r. (di_created_at r, di_delivery_id r))
                (select_intents c [''ready'', ''requester_queued'', ''blocked'', ''retrying''] db1)), db1))) db)"

definition dismissed_row :: "string \<Rightarrow> int \<Rightarrow> delivery_intent \<Rightarrow> delivery_intent" where
  "dismissed_row now next_revision r =
     r\<lparr> di_delivery_state := ''dismissed'', di_dismissed_at := Some now, di_revision := next_revision,
        di_updated_at := now, di_active_claim_key := None, di_claimed_by := None,
        di_claim_expires_at := None, di_blocker_class := None, di_next_retry_at := None \<rparr>"

definition dismiss_write :: "delivery_intent \<Rightarrow> delivery_caller \<Rightarrow> string \<Rightarrow> unit delivery_call" where
  "dismiss_write intent c now =
    (let i = di_delivery_id intent; next_revision = di_revision intent + 1
     in atomically (\<lambda>db.
       and_then (update_intent i (\<lambda>r. di_revision r = di_revision intent) (dismissed_row now next_revision) db) (\<lambda>(updated, db1).
       if updated = 0 then Err DeliveryRevisionConflict
       else and_then (append_event i (''dismissed:'' @ i @ '':'' @ show_i64 next_revision) DismissedEvent
              (Some (di_revision intent))
              (Some ''delivery dismissed; execution evidence and adjudication unchanged'')
              None (ca_agent_identity_id c) now db1) (\<lambda>db2. Ok ((), db2)))))"

definition dismiss_delivery ::
  "string \<Rightarrow> string \<Rightarrow> delivery_caller \<Rightarrow> int option \<Rightarrow> delivery_intent delivery_call" where
  "dismiss_delivery now i c expected db = (case validate_caller c of
     Inl e \<Rightarrow> (Err e, db)
   | Inr _ \<Rightarrow> (case find_intent_by_id db i of
       None \<Rightarrow> (Err NotFound, db)
     | Some r \<Rightarrow>
         if \<not> requester_matches r c then (Err DeliveryIncompatibleState, db)
         else if di_delivery_state r = ''delivered'' then (Err DeliveryIncompatibleState, db)
         else if di_delivery_state r = ''dismissed'' then (Ok r, db)
         else if \<not> expects expected r then (Err DeliveryRevisionConflict, db)
         else then_call (dismiss_write r c now) (\<lambda>_. find_or_internal i) db))"

section \<open>Readers\<close>

definition get_delivery_intent :: "delivery_db \<Rightarrow> string \<Rightarrow> delivery_intent option" where
  "get_delivery_intent db i = find_intent_by_id db i"

definition find_delivery_intent_by_idempotency_key :: "delivery_db \<Rightarrow> string \<Rightarrow> delivery_intent option" where
  "find_delivery_intent_by_idempotency_key db k = find_intent_by_key db k"

definition observe_delivery_for_execution :: "delivery_db \<Rightarrow> string \<Rightarrow> string \<Rightarrow> delivery_intent list" where
  "observe_delivery_for_execution db source ref =
     sort_key (\<lambda>r. (di_created_at r, di_delivery_id r))
       (filter (\<lambda>r. di_execution_source r = source \<and> di_execution_ref r = ref) (map snd (dd_intents db)))"

end
