(* ===== verification/Delivery_Laws.thy ===== *)
theory Delivery_Laws
  imports Delivery_Intents
begin

text \<open>
  The delivery spine call by call. \<open>moves\<close> lists the row writes of the code, each with the
  events it records, over what the store holds of one intent (\<open>intent_view\<close>: its row and the
  kinds and ids of its events), and every call of the seam is a sequence of them
  (\<open>call_refines\<close>). That these writes follow the frozen machine of the module's header, which
  is stated without them, is the matter of \<open>Delivery_Machine\<close>.
\<close>

section \<open>The writes of the code on one intent\<close>

definition stamp :: "delivery_event \<Rightarrow> string \<times> string" where
  "stamp e = (ve_kind e, ve_event_id e)"

type_synonym intent_view = "delivery_intent \<times> (string \<times> string) list"

definition view_of :: "delivery_db \<Rightarrow> string \<Rightarrow> intent_view option" where
  "view_of db i = map_option (\<lambda>r. (r, map stamp (filter (\<lambda>e. ve_delivery_id e = i) (dd_events db)))) (find_intent_by_id db i)"

text \<open>What the calls of a requester \<open>c\<close> do to one intent.\<close>

inductive requester_moves :: "delivery_caller \<Rightarrow> intent_view \<Rightarrow> intent_view \<Rightarrow> bool" for c where
  expire: "requester_matches r c \<Longrightarrow> di_delivery_state r = ''requester_queued'' \<Longrightarrow>
    requester_moves c (r, ks) (released_row now (di_revision r + 1) r,
      ks @ [(''claim_expired'', ''claim_expired:'' @ di_delivery_id r @ '':'' @ show_i64 (di_revision r + 1))])"
| claim: "requester_matches r c \<Longrightarrow> di_delivery_state r \<in> {''ready'', ''retrying''} \<Longrightarrow> cq_caller q = c \<Longrightarrow>
    requester_moves c (r, ks) (claimed_row q now expires (di_revision r + 1) r,
      ks @ (''claimed'', ''claim:'' @ cq_claim_key q) #
        (if di_delivery_state r = ''retrying'' then [(''transition_debt'', ''debt:claim:'' @ cq_claim_key q)] else []))"
| ack: "requester_matches r c \<Longrightarrow> di_delivery_state r = ''requester_queued'' \<Longrightarrow> di_claimed_by r = Some (ca_host_identity c) \<Longrightarrow>
    requester_moves c (r, ks) (acked_row now (di_revision r + 1) r, ks @ [(''delivered'', ''ack:'' @ k)])"
| retry: "requester_matches r c \<Longrightarrow> di_delivery_state r = ''requester_queued'' \<Longrightarrow> di_claimed_by r = Some (ca_host_identity c) \<Longrightarrow>
    blocker \<in> set RETRYABLE \<Longrightarrow>
    requester_moves c (r, ks) (rejected_row now ''retrying'' blocker (Some t) (di_revision r + 1) r,
      ks @ [(''retry_scheduled'', ''reject:'' @ ''retrying'' @ '':'' @ now)])"
| block: "requester_matches r c \<Longrightarrow> di_delivery_state r = ''requester_queued'' \<Longrightarrow> di_claimed_by r = Some (ca_host_identity c) \<Longrightarrow>
    blocker \<notin> set RETRYABLE \<Longrightarrow>
    requester_moves c (r, ks) (rejected_row now ''blocked'' blocker None (di_revision r + 1) r,
      ks @ [(''blocked'', ''reject:'' @ ''blocked'' @ '':'' @ now)])"
| rearm: "requester_matches r c \<Longrightarrow> di_delivery_state r = ''blocked'' \<Longrightarrow>
    requester_moves c (r, ks) (rearmed_row now (di_revision r + 1) r,
      ks @ [(''transition_debt'', ''rearm:'' @ di_delivery_id r @ '':'' @ show_i64 (di_revision r + 1))])"
| dismiss: "requester_matches r c \<Longrightarrow> di_delivery_state r \<notin> {''delivered'', ''dismissed''} \<Longrightarrow>
    requester_moves c (r, ks) (dismissed_row now (di_revision r + 1) r,
      ks @ [(''dismissed'', ''dismissed:'' @ di_delivery_id r @ '':'' @ show_i64 (di_revision r + 1))])"

text \<open>All writes: what any requester does, and what a terminal plane does with a corrected result.\<close>

inductive moves :: "intent_view \<Rightarrow> intent_view \<Rightarrow> bool" where
  requester: "requester_moves c v w \<Longrightarrow> moves v w"
| supersede: "(nw_result_ref n, nw_payload_digest n) \<noteq> (di_result_ref r, di_payload_digest r) \<Longrightarrow>
    next_result \<in> {i64_succ (di_result_revision r), max (nw_result_revision n) (i64_succ (di_result_revision r))} \<Longrightarrow>
    moves (r, ks) (superseded_row now n next_result (di_revision r + 1) r,
      ks @ (''result_superseded'', ''superseded:'' @ di_delivery_id r @ '':'' @ show_i64 next_result) #
        (if di_delivery_state r \<noteq> ''ready'' then [(''transition_debt'', ''debt:supersede:'' @ di_delivery_id r @ '':'' @ now)] else []))"

definition born :: "intent_view \<Rightarrow> bool" where
  "born v \<longleftrightarrow> di_delivery_state (fst v) = ''ready'' \<and> di_revision (fst v) = 1 \<and> di_attempt_count (fst v) = 0
     \<and> di_active_claim_key (fst v) = None \<and> di_claimed_by (fst v) = None \<and> di_claim_expires_at (fst v) = None
     \<and> di_blocker_class (fst v) = None \<and> di_next_retry_at (fst v) = None
     \<and> di_delivered_at (fst v) = None \<and> di_dismissed_at (fst v) = None
     \<and> (di_visibility_class (fst v) = ''private'' \<longrightarrow> di_requester_agent_identity_id (fst v) \<noteq> None)
     \<and> snd v = [(''intent_created'', ''intent_created:'' @ di_delivery_id (fst v)),
                (''result_ready'', ''ready:'' @ di_delivery_id (fst v) @ '':'' @ show_i64 (di_result_revision (fst v)))]"

section \<open>The calls refine it\<close>

text \<open>Ids are \<open>di-\<close> and at most 32 hexadecimal digits.\<close>

definition plain_id :: "string \<Rightarrow> bool" where
  "plain_id i \<longleftrightarrow> length i \<le> 35 \<and> NUL \<notin> set i"

lemma hex_digit_not_NUL: "n < 16 \<Longrightarrow> hex_digit n \<noteq> NUL"
  by (rule notI, drule arg_cong [where f = "of_char :: char \<Rightarrow> nat"]) (simp add: hex_digit_def NUL_def of_char_of split: if_splits)

lemma plain_id_for_key: "plain_id (delivery_id_for_key lib k)"
proof -
  have "unat b div 16 < 16" for b :: "8 word"
    using unsigned_less [of b, where 'a = nat] by simp
  then have "NUL \<notin> set (hex_byte b)" for b
    using hex_digit_not_NUL [of "unat b div 16"] hex_digit_not_NUL [of "unat b mod 16"]
    by (auto simp: hex_byte_def)
  then have "NUL \<notin> set (take 32 (concat (map hex_byte (digest_bytes lib k))))" by (auto dest!: in_set_takeD)
  then show ?thesis by (auto simp: plain_id_def delivery_id_for_key_def NUL_def)
qed

definition spine_ok :: "delivery_db \<Rightarrow> bool" where
  "spine_ok db \<longleftrightarrow> bt_wf (dd_intents db)
     \<and> (\<forall>i r. find_intent_by_id db i = Some r \<longrightarrow> di_delivery_id r = i \<and> plain_id i \<and> intent_check r)
     \<and> (\<forall>e\<in>set (dd_events db). find_intent_by_id db (ve_delivery_id e) \<noteq> None)
     \<and> (\<forall>i j r s. find_intent_by_id db i = Some r \<longrightarrow> find_intent_by_id db j = Some s \<longrightarrow>
          di_idempotency_key r = di_idempotency_key s \<longrightarrow> i = j)"

definition refines :: "(intent_view \<Rightarrow> intent_view \<Rightarrow> bool) \<Rightarrow> delivery_db \<Rightarrow> delivery_db \<Rightarrow> bool" where
  "refines m db db' \<longleftrightarrow> (spine_ok db \<longrightarrow> spine_ok db'
     \<and> (\<forall>i v. view_of db i = Some v \<longrightarrow> (\<exists>v'. view_of db' i = Some v' \<and> m\<^sup>*\<^sup>* v v'))
     \<and> (\<forall>i v'. view_of db i = None \<longrightarrow> view_of db' i = Some v' \<longrightarrow> (\<exists>v. born v \<and> m\<^sup>*\<^sup>* v v')))"

lemma refines_refl [simp, intro]: "refines m db db"
  by (auto simp: refines_def)

lemma refines_trans: "refines m db db1 \<Longrightarrow> refines m db1 db2 \<Longrightarrow> refines m db db2"
proof -
  assume a: "refines m db db1" and b: "refines m db1 db2"
  show ?thesis
    unfolding refines_def
  proof (intro impI conjI allI)
    assume ok: "spine_ok db"
    then have ok1: "spine_ok db1" using a by (simp add: refines_def)
    then show "spine_ok db2" using b by (simp add: refines_def)
    note A = a [unfolded refines_def, rule_format, OF ok] and B = b [unfolded refines_def, rule_format, OF ok1]
    show "\<exists>v'. view_of db2 i = Some v' \<and> m\<^sup>*\<^sup>* v v'" if v: "view_of db i = Some v" for i v
    proof -
      obtain v1 where "view_of db1 i = Some v1" "m\<^sup>*\<^sup>* v v1" using A v by blast
      moreover obtain v2 where "view_of db2 i = Some v2" "m\<^sup>*\<^sup>* v1 v2" using B calculation(1) by blast
      ultimately show ?thesis by (auto intro: rtranclp_trans [of m])
    qed
    show "\<exists>v. born v \<and> m\<^sup>*\<^sup>* v v'" if n: "view_of db i = None" and s: "view_of db2 i = Some v'" for i v'
    proof (cases "view_of db1 i")
      case None
      then show ?thesis using B s by blast
    next
      case (Some w)
      then obtain v where "born v" "m\<^sup>*\<^sup>* v w" using A n by blast
      moreover obtain w' where "view_of db2 i = Some w'" "m\<^sup>*\<^sup>* w w'" using B Some by blast
      then have "m\<^sup>*\<^sup>* w v'" using s by simp
      ultimately show ?thesis by (blast intro: rtranclp_trans [of m])
    qed
  qed
qed

lemma refines_then_call:
  assumes "refines m db (snd (c db))" "\<And>v db1. c db = (Ok v, db1) \<Longrightarrow> refines m db1 (snd (f v db1))"
  shows "refines m db (snd (then_call c f db))"
  using assms by (auto simp: then_call_def split: prod.splits sum.splits intro: refines_trans)

lemma atomically_snd: "snd (atomically block db) = (case block db of Inl e \<Rightarrow> db | Inr (v, db') \<Rightarrow> db')"
  by (auto simp: atomically_def split: sum.splits)

lemma atomically_refines: "(\<And>v db'. block db = Ok (v, db') \<Longrightarrow> refines m db db') \<Longrightarrow> refines m db (snd (atomically block db))"
  by (auto simp: atomically_snd split: sum.splits)

lemma find_or_internal_db [simp]: "snd (find_or_internal i db) = db"
  by (simp add: find_or_internal_def split: option.split)

lemma append_event_Ok:
  "append_event i event_id kind expected detail digest actor now db = Ok db' \<Longrightarrow>
     \<exists>e. db' = db\<lparr> dd_events := dd_events db @ [e] \<rparr> \<and> ve_delivery_id e = i \<and> ve_event_id e = event_id
       \<and> ve_kind e = delivery_event_kind_as_str kind"
  by (auto simp: append_event_def and_then_Inr_iff Let_def split: if_splits)

lemma update_intent_Ok:
  "update_intent i guard f db = Ok (n, db') \<Longrightarrow> n \<noteq> 0 \<Longrightarrow>
     \<exists>r. find_intent_by_id db i = Some r \<and> guard r \<and> intent_check (f r) \<and> db' = db\<lparr> dd_intents := update_row i f (dd_intents db) \<rparr>"
  by (auto simp: update_intent_def split: option.splits if_splits)

text \<open>One write of a row with its events, as one edge of the machine.\<close>

lemma write_refines:
  assumes r: "find_intent_by_id db i = Some r" and check: "intent_check (f r)"
    and es: "\<forall>e\<in>set es. ve_delivery_id e = i"
    and keys: "di_delivery_id (f r) = di_delivery_id r" "di_idempotency_key (f r) = di_idempotency_key r"
    and edge: "\<And>ks. m (r, ks) (f r, ks @ map stamp es)"
  shows "refines m db (db\<lparr> dd_intents := update_row i f (dd_intents db), dd_events := dd_events db @ es \<rparr>)"
proof -
  let ?db = "db\<lparr> dd_intents := update_row i f (dd_intents db), dd_events := dd_events db @ es \<rparr>"
  have find: "find_intent_by_id ?db j = (if j = i then Some (f r) else find_intent_by_id db j)" for j
    using r by (simp add: find_intent_by_id_def)
  have "spine_ok ?db" if ok: "spine_ok db"
    unfolding spine_ok_def find
    using ok r check keys es by (auto simp: spine_ok_def split: if_splits)
  moreover have "\<exists>v'. view_of ?db j = Some v' \<and> m\<^sup>*\<^sup>* v v'" if v: "view_of db j = Some v" for j v
  proof (cases "j = i")
    case True
    have "filter (\<lambda>e. ve_delivery_id e = i) es = es" using es by (simp add: filter_id_conv)
    then have "view_of ?db i = Some (f r, snd v @ map stamp es)" "v = (r, snd v)"
      using v True r find [of i] by (auto simp: view_of_def)
    then show ?thesis using edge [of "snd v"] True by (metis r_into_rtranclp)
  next
    case False
    have "filter (\<lambda>e. ve_delivery_id e = j) es = []" using es False by auto
    then have "view_of ?db j = view_of db j" using False find [of j] by (simp add: view_of_def)
    then show ?thesis using v by auto
  qed
  moreover have "view_of ?db j = None" if "view_of db j = None" for j
    using that r find [of j] by (auto simp: view_of_def split: if_splits)
  ultimately show ?thesis by (auto simp: refines_def)
qed

lemma update_append_refines:
  assumes u: "update_intent i guard f db = Ok (n, db1)" "n \<noteq> 0"
    and keys: "\<And>r. di_delivery_id (f r) = di_delivery_id r \<and> di_idempotency_key (f r) = di_idempotency_key r"
    and es: "db' = db1\<lparr> dd_events := dd_events db1 @ es \<rparr>" "\<forall>e\<in>set es. ve_delivery_id e = i"
    and edge: "\<And>r ks. find_intent_by_id db i = Some r \<Longrightarrow> guard r \<Longrightarrow> m (r, ks) (f r, ks @ map stamp es)"
  shows "refines m db db'"
proof -
  obtain r where r: "find_intent_by_id db i = Some r" "guard r" "intent_check (f r)"
    "db1 = db\<lparr> dd_intents := update_row i f (dd_intents db) \<rparr>"
    using update_intent_Ok [OF u] by blast
  have "db' = db\<lparr> dd_intents := update_row i f (dd_intents db), dd_events := dd_events db @ es \<rparr>"
    using es(1) r(4) by simp
  then show ?thesis using write_refines [where f = f and es = es, OF r(1,3) es(2)] keys edge r by auto
qed

lemma row_keys [simp]:
  "di_delivery_id (released_row now n r) = di_delivery_id r" "di_idempotency_key (released_row now n r) = di_idempotency_key r"
  "di_delivery_id (claimed_row q now t n r) = di_delivery_id r" "di_idempotency_key (claimed_row q now t n r) = di_idempotency_key r"
  "di_delivery_id (acked_row now n r) = di_delivery_id r" "di_idempotency_key (acked_row now n r) = di_idempotency_key r"
  "di_delivery_id (rejected_row now st b x n r) = di_delivery_id r" "di_idempotency_key (rejected_row now st b x n r) = di_idempotency_key r"
  "di_delivery_id (rearmed_row now n r) = di_delivery_id r" "di_idempotency_key (rearmed_row now n r) = di_idempotency_key r"
  "di_delivery_id (dismissed_row now n r) = di_delivery_id r" "di_idempotency_key (dismissed_row now n r) = di_idempotency_key r"
  "di_delivery_id (superseded_row now m k n r) = di_delivery_id r" "di_idempotency_key (superseded_row now m k n r) = di_idempotency_key r"
  by (simp_all add: released_row_def claimed_row_def acked_row_def rejected_row_def rearmed_row_def dismissed_row_def superseded_row_def)

lemma update_intent_zero: "update_intent i guard f db = Ok (0, db1) \<Longrightarrow> db1 = db"
  by (auto simp: update_intent_def split: option.splits if_splits)

lemma append_event_stamps:
  "append_event i event_id kind expected detail digest actor now db = Ok db' \<Longrightarrow>
     \<exists>e. db' = db\<lparr> dd_events := dd_events db @ [e] \<rparr> \<and> ve_delivery_id e = i \<and> stamp e = (delivery_event_kind_as_str kind, event_id)"
  by (drule append_event_Ok) (auto simp: stamp_def)

text \<open>The shape of the seam's writes: the guarded update, the event, perhaps one more.\<close>

lemma block_refines:
  assumes block: "and_then (update_intent i guard f db) (\<lambda>(n, db1). if n = 0 then zero db1 else and_then (first db1) rest_of) = Ok (v, db')"
    and zero: "\<And>db1 w. zero db1 = Ok (v, w) \<Longrightarrow> w = db1"
    and first: "\<And>db1 db2. first db1 = Ok db2 \<Longrightarrow> \<exists>e. db2 = db1\<lparr> dd_events := dd_events db1 @ [e] \<rparr> \<and> ve_delivery_id e = i \<and> stamp e = k"
    and rest_of: "\<And>db2 w. rest_of db2 = Ok (v, w) \<Longrightarrow>
      \<exists>es. w = db2\<lparr> dd_events := dd_events db2 @ es \<rparr> \<and> (\<forall>e\<in>set es. ve_delivery_id e = i) \<and> map stamp es = later"
    and keys: "\<And>r. di_delivery_id (f r) = di_delivery_id r \<and> di_idempotency_key (f r) = di_idempotency_key r"
    and edge: "\<And>r ks. find_intent_by_id db i = Some r \<Longrightarrow> guard r \<Longrightarrow> m (r, ks) (f r, ks @ k # later)"
  shows "refines m db db'"
proof -
  obtain n db1 where u: "update_intent i guard f db = Ok (n, db1)"
    and rest: "(if n = 0 then zero db1 else and_then (first db1) rest_of) = Ok (v, db')"
    using block by (auto simp: and_then_Inr_iff)
  show ?thesis
  proof (cases "n = 0")
    case True
    then have "db1 = db" "db' = db1" using u rest by (auto dest: update_intent_zero zero)
    then show ?thesis by simp
  next
    case False
    then obtain db2 where "first db1 = Ok db2" "rest_of db2 = Ok (v, db')"
      using rest by (auto simp: and_then_Inr_iff)
    then obtain e es where "db' = db1\<lparr> dd_events := dd_events db1 @ (e # es) \<rparr>"
      "\<forall>x\<in>set (e # es). ve_delivery_id x = i" "map stamp (e # es) = k # later"
      using first rest_of by fastforce
    then show ?thesis using edge by (intro update_append_refines [OF u False keys]) auto
  qed
qed

lemma moves_from:
  assumes "di_revision r = n" "di_delivery_id r = i" "requester_matches r c"
  shows
    "di_delivery_state r = ''requester_queued'' \<Longrightarrow>
       requester_moves c (r, ks) (released_row now (n + 1) r, ks @ [(''claim_expired'', ''claim_expired:'' @ i @ '':'' @ show_i64 (n + 1))])"
    "di_delivery_state r = ''requester_queued'' \<Longrightarrow> di_claimed_by r = Some (ca_host_identity c) \<Longrightarrow>
       requester_moves c (r, ks) (acked_row now (n + 1) r, ks @ [(''delivered'', ''ack:'' @ k)])"
    "di_delivery_state r = ''requester_queued'' \<Longrightarrow> di_claimed_by r = Some (ca_host_identity c) \<Longrightarrow> blocker \<in> set RETRYABLE \<Longrightarrow>
       requester_moves c (r, ks) (rejected_row now ''retrying'' blocker (Some t) (n + 1) r, ks @ [(''retry_scheduled'', ''reject:'' @ ''retrying'' @ '':'' @ now)])"
    "di_delivery_state r = ''requester_queued'' \<Longrightarrow> di_claimed_by r = Some (ca_host_identity c) \<Longrightarrow> blocker \<notin> set RETRYABLE \<Longrightarrow>
       requester_moves c (r, ks) (rejected_row now ''blocked'' blocker None (n + 1) r, ks @ [(''blocked'', ''reject:'' @ ''blocked'' @ '':'' @ now)])"
    "di_delivery_state r = ''blocked'' \<Longrightarrow>
       requester_moves c (r, ks) (rearmed_row now (n + 1) r, ks @ [(''transition_debt'', ''rearm:'' @ i @ '':'' @ show_i64 (n + 1))])"
    "di_delivery_state r \<notin> {''delivered'', ''dismissed''} \<Longrightarrow>
       requester_moves c (r, ks) (dismissed_row now (n + 1) r, ks @ [(''dismissed'', ''dismissed:'' @ i @ '':'' @ show_i64 (n + 1))])"
  using assms requester_moves.intros(1,3-7) [of r c] by auto

lemma append_one:
  "and_then (append_event i event_id kind expected detail digest actor now db) (\<lambda>db'. Ok (v, db')) = Ok (v', w) \<Longrightarrow>
     \<exists>e. w = db\<lparr> dd_events := dd_events db @ [e] \<rparr> \<and> ve_delivery_id e = i \<and> stamp e = (delivery_event_kind_as_str kind, event_id)"
  by (auto simp: and_then_Inr_iff dest!: append_event_stamps)

lemma no_more: "Ok (v, db) = Ok (v', w) \<Longrightarrow>
    \<exists>es. w = db\<lparr> dd_events := dd_events db @ es \<rparr> \<and> (\<forall>e\<in>set es. ve_delivery_id e = i) \<and> map stamp es = []"
  by auto

lemma key_conflict_Ok: "key_conflict r = Ok db \<longleftrightarrow> r = Ok db"
  by (auto simp: key_conflict_def split: sum.splits delivery_error.splits sqlite_refusal.splits)

definition admits :: "delivery_caller \<Rightarrow> delivery_db \<Rightarrow> string \<Rightarrow> bool" where
  "admits c db i \<longleftrightarrow> (\<exists>r. find_intent_by_id db i = Some r \<and> di_delivery_id r = i \<and> requester_matches r c)"

lemma release_refines: "admits c db (di_delivery_id intent) \<Longrightarrow> refines (requester_moves c) db (snd (release_expired_claim intent now db))"
  unfolding release_expired_claim_def Let_def
  by (rule atomically_refines, erule block_refines)
     (auto simp: admits_def simp del: append_Cons dest!: append_event_stamps intro: moves_from)

lemma rearm_refines: "admits c db (di_delivery_id intent) \<Longrightarrow> refines (requester_moves c) db (snd (rearm_blocked_intent c now intent db))"
  unfolding rearm_blocked_intent_def Let_def
  by (rule atomically_refines, erule block_refines)
     (auto simp: admits_def simp del: append_Cons dest!: append_event_stamps intro: moves_from)

lemma ack_write_refines:
  "di_delivery_state r = ''requester_queued'' \<Longrightarrow> di_claimed_by r = Some (ca_host_identity c) \<Longrightarrow> requester_matches r c \<Longrightarrow>
     find_intent_by_id db (di_delivery_id r) = Some r \<Longrightarrow> refines (requester_moves c) db (snd (ack_write r c ack_key now db))"
  unfolding ack_write_def Let_def
  by (rule atomically_refines, erule block_refines)
     (auto simp: key_conflict_Ok simp del: append_Cons dest!: append_event_stamps intro: moves_from)

lemma dismiss_write_refines:
  "di_delivery_state r \<notin> {''delivered'', ''dismissed''} \<Longrightarrow> requester_matches r c \<Longrightarrow>
     find_intent_by_id db (di_delivery_id r) = Some r \<Longrightarrow> refines (requester_moves c) db (snd (dismiss_write r c now db))"
  unfolding dismiss_write_def Let_def
  by (rule atomically_refines, erule block_refines)
     (auto simp del: append_Cons dest!: append_event_stamps intro: moves_from)

lemma reject_write_refines:
  assumes "di_delivery_state r = ''requester_queued''" "di_claimed_by r = Some (ca_host_identity c)" "requester_matches r c"
    and "find_intent_by_id db (di_delivery_id r) = Some r"
    and "next_retry \<noteq> None \<longleftrightarrow> blocker \<in> set RETRYABLE"
  shows "refines (requester_moves c) db (snd (reject_write r c blocker detail next_retry now db))"
proof (cases "blocker \<in> set RETRYABLE")
  case True
  then obtain t where "next_retry = Some t" using assms(5) by auto
  then show ?thesis using True assms(1-4) unfolding reject_write_def Let_def
    by (intro atomically_refines, simp, elim block_refines)
       (auto simp del: append_Cons dest!: append_event_stamps intro: moves_from)
next
  case False
  then have "next_retry = None" using assms(5) by auto
  then show ?thesis using False assms(1-4) unfolding reject_write_def Let_def
    by (intro atomically_refines, simp, elim block_refines)
       (auto simp del: append_Cons dest!: append_event_stamps intro: moves_from)
qed

lemma supersede_refines:
  assumes "find_intent_by_id db (di_delivery_id r) = Some r"
    and "(nw_result_ref n, nw_payload_digest n) \<noteq> (di_result_ref r, di_payload_digest r)"
    and "next_result \<in> {i64_succ (di_result_revision r), max (nw_result_revision n) (i64_succ (di_result_revision r))}"
  shows "refines moves db (snd (supersede_intent r n next_result now db))"
  unfolding supersede_intent_def Let_def
proof (rule refines_then_call [OF atomically_refines])
  have edge: "moves (r, ks) (superseded_row now n next_result (di_revision r + 1) r,
      ks @ (''result_superseded'', ''superseded:'' @ di_delivery_id r @ '':'' @ show_i64 next_result) #
      (if di_delivery_state r \<noteq> ''ready'' then [(''transition_debt'', ''debt:supersede:'' @ di_delivery_id r @ '':'' @ now)] else []))" for ks
    using assms(2,3) by (rule moves.supersede)
  show "refines moves db db'" if "and_then (update_intent (di_delivery_id r) (\<lambda>ra. di_revision ra = di_revision r)
          (superseded_row now n next_result (di_revision r + 1)) db) (\<lambda>(updated, db1).
          if updated = 0 then Err DeliveryRevisionConflict
          else and_then (append_event (di_delivery_id r) (''superseded:'' @ di_delivery_id r @ '':'' @ show_i64 next_result) ResultSuperseded
                  (Some (di_revision r))
                  (Some (''corrected result revision '' @ show_i64 next_result @ '' replaces ''
                         @ show_i64 (di_result_revision r)))
                  (Some (nw_payload_digest n)) ''tachi'' now db1) (\<lambda>db2.
               and_then (if di_delivery_state r \<noteq> ''ready'' then append_event (di_delivery_id r) (''debt:supersede:'' @ di_delivery_id r @ '':'' @ now) TransitionDebt
                    (Some (di_revision r))
                    (Some (''delivery re-armed from '' @ di_delivery_state r @ '' by a corrected result revision''))
                    None ''tachi'' now db2 else Ok db2) (\<lambda>db3. Ok ((), db3)))) = Ok (v, db')" for v db'
    using that
    by (rule block_refines [where later = "if di_delivery_state r \<noteq> ''ready'' then [(''transition_debt'', ''debt:supersede:'' @ di_delivery_id r @ '':'' @ now)] else []"])
       (use assms(1) edge in \<open>auto dest!: append_event_stamps append_one split: if_splits\<close>)
qed simp

lemma claim_refines:
  assumes "find_intent_by_id db (di_delivery_id r) = Some r" "di_delivery_state r \<in> {''ready'', ''retrying''}"
    and "requester_matches r c" "cq_caller q = c"
  shows "refines (requester_moves c) db (snd (transition_to_claimed r q now expires db))"
  unfolding transition_to_claimed_def Let_def
proof (rule refines_then_call [OF atomically_refines])
  let ?i = "di_delivery_id r" and ?host = "ca_host_identity (cq_caller q)"
  have edge: "requester_moves c (r, ks) (claimed_row q now expires (di_revision r + 1) r,
      ks @ (''claimed'', ''claim:'' @ cq_claim_key q) #
      (if di_delivery_state r = ''retrying'' then [(''transition_debt'', ''debt:claim:'' @ cq_claim_key q)] else []))" for ks
    using assms(2-4) by (intro requester_moves.claim)
  show "refines (requester_moves c) db db'" if "and_then (update_intent ?i (\<lambda>ra. di_revision ra = di_revision r)
                      (claimed_row q now expires (di_revision r + 1)) db) (\<lambda>(updated, db1).
          if updated = 0 then Err DeliveryRevisionConflict
          else and_then (key_conflict (append_event ?i (''claim:'' @ cq_claim_key q) ClaimedEvent (Some (di_revision r))
                  (Some (''claimed by '' @ ?host)) None ?host now db1)) (\<lambda>db2.
               and_then (if di_delivery_state r = ''retrying'' then append_event ?i (''debt:claim:'' @ cq_claim_key q) TransitionDebt (Some (di_revision r))
                    (Some ''delivery re-entered requester_queued from retrying (reopen-like transition)'')
                    None ?host now db2 else Ok db2) (\<lambda>db3. Ok ((), db3)))) = Ok (v, db')" for v db'
    using that
    by (rule block_refines [where later = "if di_delivery_state r = ''retrying'' then [(''transition_debt'', ''debt:claim:'' @ cq_claim_key q)] else []"])
       (use assms(1) edge in \<open>auto simp: key_conflict_Ok dest!: append_event_stamps append_one split: if_splits\<close>)
qed (auto simp: then_call_def find_or_internal_def split: option.splits)

text \<open>A move of \<open>c\<close> keeps the binding it needed, so a sweep may visit the rows it selected one after another.\<close>

lemma requester_move_binding:
  "requester_moves c v w \<Longrightarrow> requester_matches (fst v) c \<and> (requester_matches (fst w) d \<longleftrightarrow> requester_matches (fst v) d)
     \<and> di_delivery_id (fst w) = di_delivery_id (fst v)"
  by (induction rule: requester_moves.induct)
     (simp_all add: requester_matches_def released_row_def claimed_row_def acked_row_def rejected_row_def rearmed_row_def dismissed_row_def)

lemma requester_run_binding:
  assumes "(requester_moves c)\<^sup>*\<^sup>* v w"
  shows "requester_matches (fst w) d \<longleftrightarrow> requester_matches (fst v) d" "di_delivery_id (fst w) = di_delivery_id (fst v)"
  using assms
proof (induction rule: rtranclp_induct)
  case (step w x)
  { case 1 show ?case using step requester_move_binding [of c w x d] by simp }
  { case 2 show ?case using step requester_move_binding [of c w x d] by simp }
qed simp_all

lemma view_of_Some: "view_of db i = Some v \<longleftrightarrow> find_intent_by_id db i = Some (fst v)
    \<and> snd v = map stamp (filter (\<lambda>e. ve_delivery_id e = i) (dd_events db))"
  by (cases v) (auto simp: view_of_def)

lemma admits_refines:
  assumes "spine_ok db" "admits c db i" "refines (requester_moves d) db db'"
  shows "admits c db' i"
proof -
  obtain r where r: "find_intent_by_id db i = Some r" "di_delivery_id r = i" "requester_matches r c"
    using assms(2) by (auto simp: admits_def)
  then obtain v where v: "view_of db i = Some v" "fst v = r" by (auto simp: view_of_def)
  then obtain w where w: "view_of db' i = Some w" "(requester_moves d)\<^sup>*\<^sup>* v w"
    using assms(1,3) unfolding refines_def by blast
  then show ?thesis using r v requester_run_binding [OF w(2)] by (auto simp: admits_def view_of_Some)
qed

lemma each_call_refines:
  assumes "\<And>x db. x \<in> set xs \<Longrightarrow> admits c db (k x) \<Longrightarrow> refines (requester_moves c) db (snd (f x db))"
    and "spine_ok db" "\<forall>x\<in>set xs. admits c db (k x)"
  shows "refines (requester_moves c) db (snd (each_call f xs db))"
  using assms
proof (induction xs arbitrary: db)
  case (Cons x xs)
  have head: "refines (requester_moves c) db (snd (f x db))" using Cons.prems by simp
  show ?case
  proof (simp, rule refines_then_call [where c = "f x", OF head])
    fix v db1
    assume "f x db = (Ok v, db1)"
    then have r: "refines (requester_moves c) db db1" using head by simp
    then have "spine_ok db1" using Cons.prems(2) by (simp add: refines_def)
    moreover have "\<forall>y\<in>set xs. admits c db1 (k y)" using admits_refines [OF Cons.prems(2) _ r] Cons.prems(3) by auto
    ultimately show "refines (requester_moves c) db1 (snd (each_call f xs db1))"
      using Cons.IH Cons.prems(1) by auto
  qed
qed simp

lemma select_row:
  assumes "spine_ok db" "r \<in> set (select_intents c states db)"
  shows "find_intent_by_id db (di_delivery_id r) = Some r \<and> requester_matches r c \<and> di_delivery_state r \<in> set states"
proof -
  obtain i where "(i, r) \<in> set (dd_intents db)" using assms(2) by (auto simp: select_intents_def)
  then have "find_intent_by_id db i = Some r"
    using assms(1) by (auto simp: spine_ok_def find_intent_by_id_def map_of_is_SomeI bt_wf_distinct)
  then show ?thesis using assms by (auto simp: select_intents_def spine_ok_def)
qed

lemma select_admits: "spine_ok db \<Longrightarrow> r \<in> set (select_intents c states db) \<Longrightarrow> admits c db (di_delivery_id r)"
  using select_row by (auto simp: admits_def)

lemma sweep_refines:
  assumes "spine_ok db"
  shows "refines (requester_moves c) db (snd (release_expired_claims_for_caller ch c now db))"
    and "refines (requester_moves c) db (snd (rearm_blocked_intents_for_caller c now db))"
  unfolding release_expired_claims_for_caller_def rearm_blocked_intents_for_caller_def
  by (rule each_call_refines [where k = di_delivery_id]; use assms in \<open>auto intro: release_refines rearm_refines select_admits\<close>)+

lemma find_key: "find_intent_by_key db k = Some r \<Longrightarrow> \<exists>i. (i, r) \<in> set (dd_intents db) \<and> di_idempotency_key r = k"
  by (auto simp: find_intent_by_key_def find_Some_iff) (metis nth_mem prod.collapse)

lemma find_key_id:
  assumes "spine_ok db" "find_intent_by_key db k = Some r"
  shows "find_intent_by_id db (di_delivery_id r) = Some r \<and> di_idempotency_key r = k"
proof -
  obtain i where "(i, r) \<in> set (dd_intents db)" "di_idempotency_key r = k" using find_key assms(2) by blast
  then have "find_intent_by_id db i = Some r"
    using assms(1) by (simp add: spine_ok_def find_intent_by_id_def map_of_is_SomeI bt_wf_distinct)
  then show ?thesis using assms(1) \<open>di_idempotency_key r = k\<close> by (auto simp: spine_ok_def)
qed

lemma no_key: "find_intent_by_key db k = None \<Longrightarrow> find_intent_by_id db i = Some r \<Longrightarrow> di_idempotency_key r \<noteq> k"
  by (auto simp: find_intent_by_key_def find_None_iff find_intent_by_id_def dest!: map_of_SomeD)

lemma mint_row_refines:
  assumes ins: "insert_intent (minted_row lib now n) db = Ok db1"
    and v: "validate_mint n = Ok ()"
    and es: "db3 = db1\<lparr> dd_events := dd_events db1 @ es \<rparr>" "\<forall>e\<in>set es. ve_delivery_id e = delivery_id_for_key lib (nw_idempotency_key n)"
      "map stamp es = [(''intent_created'', ''intent_created:'' @ delivery_id_for_key lib (nw_idempotency_key n)),
        (''result_ready'', ''ready:'' @ delivery_id_for_key lib (nw_idempotency_key n) @ '':'' @ show_i64 (nw_result_revision n))]"
  shows "refines m db db3"
proof -
  let ?i = "delivery_id_for_key lib (nw_idempotency_key n)" and ?r = "minted_row lib now n"
  let ?ks = "[(''intent_created'', ''intent_created:'' @ ?i), (''result_ready'', ''ready:'' @ ?i @ '':'' @ show_i64 (nw_result_revision n))]"
  have i: "di_delivery_id ?r = ?i" "di_idempotency_key ?r = nw_idempotency_key n" by (simp_all add: minted_row_def)
  have facts: "intent_check ?r" "find_intent_by_id db ?i = None" "find_intent_by_key db (nw_idempotency_key n) = None"
      "db1 = db\<lparr> dd_intents := bt_insert ?i ?r (dd_intents db) \<rparr>"
    using ins i by (auto simp: insert_intent_def split: if_splits)
  have born: "born (?r, ?ks)"
    using v by (auto simp: born_def minted_row_def validate_mint_def split: if_splits delivery_visibility_class.splits)
       (cases "nw_visibility_class n"; auto)
  show ?thesis
    unfolding refines_def
  proof (intro impI conjI allI)
    assume ok: "spine_ok db"
    then have find: "find_intent_by_id db3 j = (if j = ?i then Some ?r else find_intent_by_id db j)" for j
      using facts(4) es(1) by (simp add: find_intent_by_id_def spine_ok_def bt_simps)
    have evs: "dd_events db3 = dd_events db @ es" "bt_wf (dd_intents db3)"
      using facts(4) es(1) ok by (auto simp: spine_ok_def bt_simps)
    have none: "filter (\<lambda>e. ve_delivery_id e = ?i) (dd_events db) = []"
      using ok facts(2) by (auto simp: spine_ok_def filter_empty_conv)
    show "spine_ok db3"
      unfolding spine_ok_def find
      using ok facts(1) i no_key [OF facts(3)] evs es(2) plain_id_for_key [of lib "nw_idempotency_key n"]
      by (simp add: spine_ok_def) (metis UnE)
    show "\<exists>v'. view_of db3 j = Some v' \<and> m\<^sup>*\<^sup>* v v'" if "view_of db j = Some v" for j v
    proof -
      have "j \<noteq> ?i" using that facts(2) by (auto simp: view_of_def)
      moreover have "filter (\<lambda>e. ve_delivery_id e = j) es = []" using es(2) \<open>j \<noteq> ?i\<close> by auto
      ultimately show ?thesis using that find [of j] evs by (auto simp: view_of_def)
    qed
    show "\<exists>v. born v \<and> m\<^sup>*\<^sup>* v v'" if "view_of db j = None" "view_of db3 j = Some v'" for j v'
    proof -
      have "j = ?i" using that find [of j] by (auto simp: view_of_def split: if_splits)
      moreover have "filter (\<lambda>e. ve_delivery_id e = ?i) es = es" using es(2) by (simp add: filter_id_conv)
      ultimately have "v' = (?r, ?ks)"
        using that find [of j] evs none es(3) by (simp add: view_of_def)
      then show ?thesis using born by blast
    qed
  qed
qed

section \<open>The seam\<close>

text \<open>
  A call of an admitted requester, with whatever arguments it comes, and a mint of a terminal
  plane. \<open>ids\<close> are the intents a successful answer names or describes; what an error may tell
  is stated apart, on the answers themselves.
\<close>

fun claim_shows :: "(delivery_claim_outcome, delivery_error) result \<Rightarrow> string list" where
  "claim_shows (Inr (Claimed v)) = [vw_delivery_id v]"
| "claim_shows (Inr (ReplayedClaim v)) = [vw_delivery_id v]"
| "claim_shows _ = []"

definition shows_of :: "('r \<Rightarrow> string list) \<Rightarrow> ('r, delivery_error) result \<Rightarrow> string list" where
  "shows_of ids res = (case res of Inl _ \<Rightarrow> [] | Inr v \<Rightarrow> ids v)"

inductive seam_step :: "'a delivery_lib_scheme \<Rightarrow> delivery_caller \<Rightarrow> delivery_db \<Rightarrow> string list \<Rightarrow> delivery_db \<Rightarrow> bool"
  for lib :: "'a delivery_lib_scheme" and c :: delivery_caller where
  claims: "cq_caller q = c \<Longrightarrow> claim_ready_delivery lib now q db = (res, db') \<Longrightarrow> seam_step lib c db (claim_shows res) db'"
| acks: "ack_delivered now i c k expected db = (res', db') \<Longrightarrow> seam_step lib c db (shows_of (\<lambda>_. [i]) res') db'"
| rejects: "reject_or_block lib now i c blocker detail retry_in expected db = (res'', db') \<Longrightarrow>
    seam_step lib c db (shows_of (\<lambda>r. [di_delivery_id r]) res'') db'"
| resumes: "resume_requester_operation lib now c again db = (res3, db') \<Longrightarrow> seam_step lib c db (shows_of (map di_delivery_id) res3) db'"
| dismisses: "dismiss_delivery now i c expected db = (res'', db') \<Longrightarrow> seam_step lib c db (shows_of (\<lambda>r. [di_delivery_id r]) res'') db'"

inductive delivery_step :: "'a delivery_lib_scheme \<Rightarrow> delivery_db \<Rightarrow> delivery_db \<Rightarrow> bool"
  for lib :: "'a delivery_lib_scheme" where
  mints: "mint_delivery_intent lib now n db = (res, db') \<Longrightarrow> delivery_step lib db db'"
| seam: "seam_step lib c db ids db' \<Longrightarrow> delivery_step lib db db'"

lemma mint_refines:
  assumes "spine_ok db"
  shows "refines moves db (snd (mint_delivery_intent lib now n db))"
proof (cases "find_intent_by_key db (nw_idempotency_key n)")
  case (Some r)
  then have r: "find_intent_by_id db (di_delivery_id r) = Some r" using find_key_id assms by blast
  show ?thesis
    using Some r by (auto simp: mint_delivery_intent_def reconcile_mint_def fail_def Let_def
        intro!: supersede_refines split: sum.split)
next
  case None
  let ?i = "delivery_id_for_key lib (nw_idempotency_key n)"
  let ?block = "\<lambda>db. and_then (insert_intent (minted_row lib now n) db) (\<lambda>db1.
               and_then (append_event ?i (''intent_created:'' @ ?i) IntentCreated None
                 (Some ''durable delivery intent minted from a terminal receipt'')
                 (Some (nw_payload_digest n)) ''tachi'' now db1) (\<lambda>db2.
               and_then (append_event ?i (''ready:'' @ ?i @ '':'' @ show_i64 (nw_result_revision n)) ResultReady None
                 (Some ''terminal result ready for requester delivery'')
                 (Some (nw_payload_digest n)) ''tachi'' now db2) (\<lambda>db3. Ok ((), db3))))"
  show ?thesis
  proof (cases "validate_mint n")
    case v: (Inr u)
    have "refines moves db db'" if b: "?block db = Ok (x, db')" for x db'
    proof -
      obtain db1 e1 e2 where "insert_intent (minted_row lib now n) db = Ok db1"
        "db' = db1\<lparr> dd_events := dd_events db1 @ [e1, e2] \<rparr>" "ve_delivery_id e1 = ?i" "ve_delivery_id e2 = ?i"
        "map stamp [e1, e2] = [(''intent_created'', ''intent_created:'' @ ?i), (''result_ready'', ''ready:'' @ ?i @ '':'' @ show_i64 (nw_result_revision n))]"
        using b by (fastforce simp: and_then_Inr_iff dest!: append_event_stamps)
      then show ?thesis using v by (intro mint_row_refines [of lib now n db db1]) auto
    qed
    then have "refines moves db (snd (then_call (atomically ?block) (\<lambda>_. find_or_internal ?i) db))"
      by (intro refines_then_call atomically_refines) auto
    then show ?thesis using None v by (simp add: mint_delivery_intent_def Let_def)
  qed (simp add: mint_delivery_intent_def)
qed

lemma released_spine: "spine_ok db \<Longrightarrow> spine_ok (snd (release_expired_claims_for_caller ch c now db))"
  using sweep_refines(1) [of db c] by (auto simp: refines_def)

lemma claimable_row:
  assumes "spine_ok db" "sort_key f (load_claimable_intents ch c now db) = r # rs"
  shows "find_intent_by_id db (di_delivery_id r) = Some r \<and> requester_matches r c \<and> claimable_state ch r now"
proof -
  have "r \<in> set (load_claimable_intents ch c now db)" by (metis assms(2) list.set_intros(1) set_sort)
  then show ?thesis using select_row assms(1) by (auto simp: load_claimable_intents_def)
qed

lemma claimable_ready: "claimable_state ch r now \<Longrightarrow> di_delivery_state r \<in> {''ready'', ''retrying''}"
  by (auto simp: claimable_state_def)

lemma claim_selected_refines:
  assumes ok: "spine_ok db"
  shows "refines (requester_moves (cq_caller q)) db (snd (claim_selected ch now q expires db))"
proof (cases "cq_only_delivery_id q")
  case (Some i)
  show ?thesis
  proof (cases "find_intent_by_id db i")
    case (Some r)
    then have "find_intent_by_id db (di_delivery_id r) = Some r" using ok by (auto simp: spine_ok_def)
    then show ?thesis
      using Some \<open>cq_only_delivery_id q = Some i\<close>
      by (auto simp: claim_selected_def intro!: claim_refines dest: claimable_ready)
  qed (use Some in \<open>simp add: claim_selected_def\<close>)
next
  case None
  show ?thesis
  proof (cases "sort_key (\<lambda>r. (di_created_at r, di_delivery_id r)) (load_claimable_intents ch (cq_caller q) now db)")
    case (Cons r rs)
    then show ?thesis using None claimable_row [OF ok Cons]
      by (auto simp: claim_selected_def intro!: claim_refines dest: claimable_ready)
  qed (use None in \<open>simp add: claim_selected_def\<close>)
qed

lemma then_released_refines:
  assumes "spine_ok db" "\<And>db1. spine_ok db1 \<Longrightarrow> refines (requester_moves c) db1 (snd (f db1))"
  shows "refines (requester_moves c) db (snd (then_call (release_expired_claims_for_caller ch c now) (\<lambda>_. f) db))"
  by (rule refines_then_call [where c = "release_expired_claims_for_caller ch c now", OF sweep_refines(1) [OF assms(1)]])
     (use assms(2) released_spine [OF assms(1), of ch c now] in simp)

lemma claim_ready_refines:
  assumes "spine_ok db"
  shows "refines (requester_moves (cq_caller q)) db (snd (claim_ready_delivery lib now q db))"
  using assms
  by (auto simp: claim_ready_delivery_def intro!: then_released_refines claim_selected_refines
      split: sum.split prod.split option.split)

lemma ack_refines: "spine_ok db \<Longrightarrow> refines (requester_moves c) db (snd (ack_delivered now i c k expected db))"
  by (auto simp: ack_delivered_def spine_ok_def intro!: ack_write_refines split: sum.split option.split)

lemma dismiss_refines: "spine_ok db \<Longrightarrow> refines (requester_moves c) db (snd (dismiss_delivery now i c expected db))"
  by (auto simp: dismiss_delivery_def spine_ok_def intro!: refines_then_call dismiss_write_refines split: sum.split option.split)

lemma reject_refines: "spine_ok db \<Longrightarrow> refines (requester_moves c) db (snd (reject_or_block lib now i c blocker detail retry_in expected db))"
  by (auto simp: reject_or_block_def spine_ok_def and_then_Inr_iff
      intro!: refines_then_call reject_write_refines split: sum.split option.split if_splits)

lemma resume_refines: "spine_ok db \<Longrightarrow> refines (requester_moves c) db (snd (resume_requester_operation ch now c again db))"
  using released_spine [of db ch c now]
  by (auto simp: resume_requester_operation_def intro!: then_released_refines refines_then_call sweep_refines split: sum.split)

lemma seam_refines: "spine_ok db \<Longrightarrow> seam_step lib c db ids db' \<Longrightarrow> refines (requester_moves c) db db'"
  by (erule seam_step.cases)
     (metis snd_conv claim_ready_refines ack_refines reject_refines resume_refines dismiss_refines)+

lemma refines_mono:
  assumes "refines m db db'" "\<And>v w. m v w \<Longrightarrow> m' v w"
  shows "refines m' db db'"
proof -
  have "m\<^sup>*\<^sup>* v w \<Longrightarrow> m'\<^sup>*\<^sup>* v w" for v w using assms(2) by (metis mono_rtranclp)
  then show ?thesis using assms(1) unfolding refines_def by meson
qed

lemma call_refines: "spine_ok db \<Longrightarrow> delivery_step lib db db' \<Longrightarrow> refines moves db db'"
  by (erule delivery_step.cases)
     (metis snd_conv mint_refines, metis seam_refines refines_mono moves.requester)

definition empty_spine :: delivery_db where
  "empty_spine = \<lparr> dd_intents = [], dd_events = [] \<rparr>"

lemma spine_ok_empty: "spine_ok empty_spine"
  by (simp add: spine_ok_def empty_spine_def find_intent_by_id_def)

interpretation spine: row_machine "delivery_step lib" spine_ok view_of moves for lib
proof
  fix lib :: "'a delivery_lib_scheme" and db db' i v
  assume "spine_ok db" "delivery_step lib db db'"
  then have "refines moves db db'" by (rule call_refines)
  then show "spine_ok db'" "view_of db i = Some v \<Longrightarrow> \<exists>v'. view_of db' i = Some v' \<and> moves\<^sup>*\<^sup>* v v'"
    using \<open>spine_ok db\<close> unfolding refines_def by blast+
qed

end
