(* ===== verification/Delivery_Machine.thy ===== *)
theory Delivery_Machine
  imports Delivery_Laws
begin

text \<open>
  The frozen delivery-state machine of the module's header, on its own: its states, edges and
  events are spelled out here, with none of the functions by which the code writes a row. A
  \<open>phase\<close> is what the header speaks of; \<open>phase_of\<close> reads it off a row and its ledger. The two
  simulation lemmas say that the writes of the code are edges of this machine.
\<close>

section \<open>The machine\<close>

record phase =
  ph_id :: string
  ph_agent :: "string option"
  ph_host :: "string option"
  ph_visibility :: string
  ph_fixed :: "string list \<times> string option list"
  ph_state :: string
  ph_claim :: "string option \<times> string option \<times> string option"
  ph_blocker :: "string option"
  ph_retry_at :: "string option"
  ph_attempts :: int
  ph_result :: "string \<times> string"
  ph_result_revision :: int
  ph_delivered_at :: "string option"
  ph_dismissed_at :: "string option"
  ph_revision :: int
  ph_log :: "(string \<times> string) list"

text \<open>Every edge frees the claim unless it takes it, counts the revision and records its events.\<close>

definition go :: "string \<Rightarrow> (string \<times> string) list \<Rightarrow> phase \<Rightarrow> phase" where
  "go st es p = p\<lparr> ph_state := st, ph_claim := (None, None, None), ph_revision := ph_revision p + 1, ph_log := ph_log p @ es \<rparr>"

text \<open>An agent on a host is inside the binding; and it is the one that holds the claim.\<close>

definition inside :: "phase \<Rightarrow> string \<Rightarrow> string \<Rightarrow> bool" where
  "inside p agent host \<longleftrightarrow> ph_agent p \<in> {None, Some agent} \<and> ph_host p \<in> {None, Some host}"

definition held_by :: "phase \<Rightarrow> string \<Rightarrow> string \<Rightarrow> bool" where
  "held_by p agent host \<longleftrightarrow> inside p agent host \<and> ph_state p = ''requester_queued''
     \<and> (\<exists>key lease. ph_claim p = (key, Some host, lease))"

inductive frozen :: "phase \<Rightarrow> phase \<Rightarrow> bool" where
  take_up: "inside p agent host \<Longrightarrow> ph_state p = ''ready'' \<Longrightarrow>
    frozen p ((go ''requester_queued'' [(''claimed'', ''claim:'' @ key)] p)
      \<lparr> ph_claim := (Some key, Some host, Some lease), ph_attempts := ph_attempts p + 1, ph_blocker := None, ph_retry_at := None \<rparr>)"
| take_up_again: "inside p agent host \<Longrightarrow> ph_state p = ''retrying'' \<Longrightarrow>
    frozen p ((go ''requester_queued'' [(''claimed'', ''claim:'' @ key), (''transition_debt'', ''debt:claim:'' @ key)] p)
      \<lparr> ph_claim := (Some key, Some host, Some lease), ph_attempts := ph_attempts p + 1, ph_blocker := None, ph_retry_at := None \<rparr>)"
| expire: "inside p agent host \<Longrightarrow> ph_state p = ''requester_queued'' \<Longrightarrow>
    frozen p (go ''ready'' [(''claim_expired'', ''claim_expired:'' @ ph_id p @ '':'' @ show_i64 (ph_revision p + 1))] p)"
| deliver: "held_by p agent host \<Longrightarrow>
    frozen p ((go ''delivered'' [(''delivered'', ''ack:'' @ key)] p)
      \<lparr> ph_delivered_at := Some now, ph_blocker := None, ph_retry_at := None \<rparr>)"
| retry: "held_by p agent host \<Longrightarrow> b \<in> {''transport_failure'', ''requester_unavailable''} \<Longrightarrow>
    frozen p ((go ''retrying'' [(''retry_scheduled'', ''reject:retrying:'' @ now)] p)
      \<lparr> ph_blocker := Some b, ph_retry_at := Some due \<rparr>)"
| block: "held_by p agent host \<Longrightarrow> b \<notin> {''transport_failure'', ''requester_unavailable''} \<Longrightarrow>
    frozen p ((go ''blocked'' [(''blocked'', ''reject:blocked:'' @ now)] p)
      \<lparr> ph_blocker := Some b, ph_retry_at := None \<rparr>)"
| rearm: "inside p agent host \<Longrightarrow> ph_state p = ''blocked'' \<Longrightarrow>
    frozen p ((go ''ready'' [(''transition_debt'', ''rearm:'' @ ph_id p @ '':'' @ show_i64 (ph_revision p + 1))] p)
      \<lparr> ph_blocker := None, ph_retry_at := None \<rparr>)"
| dismiss: "inside p agent host \<Longrightarrow> ph_state p \<notin> {''delivered'', ''dismissed''} \<Longrightarrow>
    frozen p ((go ''dismissed'' [(''dismissed'', ''dismissed:'' @ ph_id p @ '':'' @ show_i64 (ph_revision p + 1))] p)
      \<lparr> ph_dismissed_at := Some now, ph_blocker := None, ph_retry_at := None \<rparr>)"
| correct_ready: "result \<noteq> ph_result p \<Longrightarrow> ph_result_revision p < n \<or> 2 ^ 63 - 1 = ph_result_revision p \<Longrightarrow>
    ph_state p = ''ready'' \<Longrightarrow>
    frozen p ((go ''ready'' [(''result_superseded'', ''superseded:'' @ ph_id p @ '':'' @ show_i64 n)] p)
      \<lparr> ph_result := result, ph_result_revision := n, ph_blocker := None, ph_retry_at := None \<rparr>)"
| correct: "result \<noteq> ph_result p \<Longrightarrow> ph_result_revision p < n \<or> 2 ^ 63 - 1 = ph_result_revision p \<Longrightarrow>
    ph_state p \<noteq> ''ready'' \<Longrightarrow>
    frozen p ((go ''ready'' [(''result_superseded'', ''superseded:'' @ ph_id p @ '':'' @ show_i64 n),
                             (''transition_debt'', ''debt:supersede:'' @ ph_id p @ '':'' @ now)] p)
      \<lparr> ph_result := result, ph_result_revision := n, ph_blocker := None, ph_retry_at := None \<rparr>)"

text \<open>Where every intent begins; a private one is bound to an agent.\<close>

definition new_phase :: "phase \<Rightarrow> bool" where
  "new_phase p \<longleftrightarrow> ph_state p = ''ready'' \<and> ph_claim p = (None, None, None) \<and> ph_blocker p = None \<and> ph_retry_at p = None
     \<and> ph_attempts p = 0 \<and> ph_delivered_at p = None \<and> ph_dismissed_at p = None \<and> ph_revision p = 1
     \<and> (ph_visibility p = ''private'' \<longrightarrow> ph_agent p \<noteq> None)
     \<and> ph_log p = [(''intent_created'', ''intent_created:'' @ ph_id p),
                   (''result_ready'', ''ready:'' @ ph_id p @ '':'' @ show_i64 (ph_result_revision p))]"

section \<open>The code follows it\<close>

text \<open>\<open>ph_fixed\<close> are the columns no call may touch after the birth, where a result is to go among them.\<close>

fun phase_of :: "intent_view \<Rightarrow> phase" where
  "phase_of (r, log) = \<lparr> ph_id = di_delivery_id r, ph_agent = di_requester_agent_identity_id r,
     ph_host = di_requester_host_identity r, ph_visibility = di_visibility_class r,
     ph_fixed = ([di_idempotency_key r, di_execution_source r, di_execution_ref r, di_delivery_policy r,
                  di_protocol_capability r, di_created_at r],
                 [di_work_claim_id r, di_requester_session_ref r, di_expires_at r]),
     ph_state = di_delivery_state r,
     ph_claim = (di_active_claim_key r, di_claimed_by r, di_claim_expires_at r),
     ph_blocker = di_blocker_class r, ph_retry_at = di_next_retry_at r, ph_attempts = di_attempt_count r,
     ph_result = (di_result_ref r, di_payload_digest r), ph_result_revision = di_result_revision r,
     ph_delivered_at = di_delivered_at r, ph_dismissed_at = di_dismissed_at r,
     ph_revision = di_revision r, ph_log = log \<rparr>"

lemma phase_of_inside: "requester_matches r c \<longleftrightarrow> inside (phase_of (r, ks)) (ca_agent_identity_id c) (ca_host_identity c)"
  by (auto simp: requester_matches_def inside_def split: option.splits)

lemma phase_of_held:
  "requester_matches r c \<Longrightarrow> di_delivery_state r = ''requester_queued'' \<Longrightarrow> di_claimed_by r = Some (ca_host_identity c)
    \<Longrightarrow> held_by (phase_of (r, ks)) (ca_agent_identity_id c) (ca_host_identity c)"
  by (auto simp: held_by_def inside_def requester_matches_def split: option.splits)

lemma requester_writes_frozen: "requester_moves c v w \<Longrightarrow> frozen (phase_of v) (phase_of w)"
proof (induction rule: requester_moves.induct)
  case (expire r ks now)
  then show ?case
    using frozen.expire [OF iffD1 [OF phase_of_inside [of r c ks] expire(1)]] by (simp add: go_def released_row_def)
next
  case (claim r q ks now lease)
  then show ?case
    using frozen.take_up [OF iffD1 [OF phase_of_inside [of r c ks] claim(1)], where key = "cq_claim_key q" and lease = lease]
      frozen.take_up_again [OF iffD1 [OF phase_of_inside [of r c ks] claim(1)], where key = "cq_claim_key q" and lease = lease]
    by (auto simp: go_def claimed_row_def)
next
  case (ack r ks now k)
  then show ?case using frozen.deliver [OF phase_of_held [where ks = ks, OF ack(1-3)], where key = k and now = now] by (simp add: go_def acked_row_def)
next
  case (retry r blocker ks now t)
  then show ?case using frozen.retry [OF phase_of_held [where ks = ks, OF retry(1-3)], where b = blocker and now = now and due = t]
    by (simp add: go_def rejected_row_def RETRYABLE_def TRANSPORT_FAILURE_def REQUESTER_UNAVAILABLE_def)
next
  case (block r blocker ks now)
  then show ?case using frozen.block [OF phase_of_held [where ks = ks, OF block(1-3)], where b = blocker and now = now]
    by (simp add: go_def rejected_row_def RETRYABLE_def TRANSPORT_FAILURE_def REQUESTER_UNAVAILABLE_def)
next
  case (rearm r ks now)
  then show ?case
    using frozen.rearm [OF iffD1 [OF phase_of_inside [of r c ks] rearm(1)]] by (simp add: go_def rearmed_row_def)
next
  case (dismiss r ks now)
  then show ?case
    using frozen.dismiss [OF iffD1 [OF phase_of_inside [of r c ks] dismiss(1)], where now = now] by (simp add: go_def dismissed_row_def)
qed

lemma writes_frozen: "moves v w \<Longrightarrow> frozen (phase_of v) (phase_of w)"
proof (induction rule: moves.induct)
  case (supersede n r next_result ks now)
  then have "di_result_revision r < next_result \<or> 2 ^ 63 - 1 = di_result_revision r"
    by (auto simp: i64_succ_def split: if_splits)
  then show ?case
    using supersede(1)
      frozen.correct_ready [of "(nw_result_ref n, nw_payload_digest n)" "phase_of (r, ks)" next_result]
      frozen.correct [of "(nw_result_ref n, nw_payload_digest n)" "phase_of (r, ks)" next_result now]
    by (auto simp: go_def superseded_row_def)
qed (rule requester_writes_frozen)

lemma runs_frozen: "moves\<^sup>*\<^sup>* v w \<Longrightarrow> frozen\<^sup>*\<^sup>* (phase_of v) (phase_of w)"
  by (induction rule: rtranclp_induct) (auto intro: writes_frozen rtranclp.rtrancl_into_rtrancl)

lemma born_new: "born v \<Longrightarrow> new_phase (phase_of v)"
  by (cases v) (simp add: born_def new_phase_def)

end
