(* ===== verification/Delivery_Contract.thy ===== *)
theory Delivery_Contract
  imports Delivery_Machine
begin

text \<open>
  What the module's header promises, for runs of calls from the empty spine: every intent
  follows the frozen machine, its ledger accounts for its row, no result is delivered twice, a
  blocked intent waits for its requester, a caller outside the binding moves no intent and is
  told of none by a successful answer, and only a mint changes a result.
\<close>

section \<open>Runs\<close>

lemma run_refines: "(delivery_step lib)\<^sup>*\<^sup>* db db' \<Longrightarrow> spine_ok db \<Longrightarrow> refines moves db db'"
proof (induction rule: rtranclp_induct)
  case (step db1 db2)
  then have "spine_ok db1" by (simp add: refines_def)
  then show ?case using step call_refines refines_trans by blast
qed simp

lemma reached_view:
  assumes "(delivery_step lib)\<^sup>*\<^sup>* empty_spine db" "view_of db i = Some v"
  shows "\<exists>v0. born v0 \<and> moves\<^sup>*\<^sup>* v0 v"
proof -
  have "refines moves empty_spine db" using run_refines assms(1) spine_ok_empty by blast
  moreover have "view_of empty_spine i = None" by (simp add: view_of_def empty_spine_def find_intent_by_id_def)
  ultimately show ?thesis using assms(2) spine_ok_empty unfolding refines_def by blast
qed

lemma view_invariant:
  assumes "(delivery_step lib)\<^sup>*\<^sup>* empty_spine db" "view_of db i = Some v"
    and "\<And>v. born v \<Longrightarrow> P v" "\<And>v w. moves v w \<Longrightarrow> P v \<Longrightarrow> P w"
  shows "P v"
proof -
  obtain v0 where "born v0" "moves\<^sup>*\<^sup>* v0 v" using reached_view assms(1,2) by blast
  from this(2) show ?thesis
    by (induction rule: rtranclp_induct) (use assms(3,4) \<open>born v0\<close> in auto)
qed

text \<open>C16: Every run of calls is a run of the frozen machine, which is stated without the code's row
  writes. After any run from the empty spine an intent has come, by edges of the machine, from a fresh
  phase to what its row and ledger say; and whatever is called after that, it is still there and has
  gone on by edges of the machine. So it becomes delivered only from requester_queued, for the host
  that holds the claim, blocked leaves only by an explicit re-arm, a dismissal or a corrected result,
  and every edge counts the revision and records its events under their deterministic ids.\<close>

theorem delivery_runs_refine:
  assumes "(delivery_step lib)\<^sup>*\<^sup>* empty_spine db" "(delivery_step lib)\<^sup>*\<^sup>* db db'" "view_of db i = Some v"
  shows "\<exists>p w. new_phase p \<and> frozen\<^sup>*\<^sup>* p (phase_of v) \<and> view_of db' i = Some w \<and> frozen\<^sup>*\<^sup>* (phase_of v) (phase_of w)"
proof -
  obtain v0 where v0: "born v0" "moves\<^sup>*\<^sup>* v0 v" using reached_view assms(1,3) by blast
  have "spine_ok db" using assms(1) spine_ok_empty spine.run_good by blast
  then obtain w where w: "view_of db' i = Some w" "moves\<^sup>*\<^sup>* v w"
    using run_refines [OF assms(2)] assms(3) unfolding refines_def by blast
  show ?thesis using born_new [OF v0(1)] runs_frozen [OF v0(2)] w(1) runs_frozen [OF w(2)] by blast
qed

section \<open>The ledger\<close>

definition events_of_kind :: "string \<Rightarrow> (string \<times> string) list \<Rightarrow> nat" where
  "events_of_kind k ks = count_list (map fst ks) k"

lemma events_of_kind_simps [simp]:
  "events_of_kind k [] = 0"
  "events_of_kind k ((k', e) # ks) = (if k' = k then 1 else 0) + events_of_kind k ks"
  "events_of_kind k (ks @ ls) = events_of_kind k ks + events_of_kind k ls"
  by (simp_all add: events_of_kind_def)

lemmas row_defs = released_row_def claimed_row_def acked_row_def rejected_row_def rearmed_row_def dismissed_row_def superseded_row_def

lemmas moves_cases = moves.cases requester_moves.cases

definition accounted :: "intent_view \<Rightarrow> bool" where
  "accounted v \<longleftrightarrow> (case v of (r, ks) \<Rightarrow>
     di_attempt_count r = int (events_of_kind ''claimed'' ks)
   \<and> events_of_kind ''delivered'' ks \<le> events_of_kind ''result_superseded'' ks + (if di_delivery_state r = ''delivered'' then 1 else 0)
   \<and> events_of_kind ''delivered'' ks + events_of_kind ''retry_scheduled'' ks + events_of_kind ''blocked'' ks
       + events_of_kind ''claim_expired'' ks + (if di_delivery_state r = ''requester_queued'' then 1 else 0)
     \<le> events_of_kind ''claimed'' ks)"

lemma accounted_requester: "requester_moves c v w \<Longrightarrow> accounted v \<Longrightarrow> accounted w"
  by (induction rule: requester_moves.induct) (auto simp: accounted_def row_defs split: if_splits)

lemma accounted_moves: "moves v w \<Longrightarrow> accounted v \<Longrightarrow> accounted w"
  by (induction rule: moves.induct) (auto simp: accounted_requester, auto simp: accounted_def row_defs split: if_splits)

lemma accounted_born: "born v \<Longrightarrow> accounted v"
  by (cases v) (auto simp: accounted_def born_def)

text \<open>C17: An intent is delivered at most once per result: its \<open>delivered\<close> events are at most its
  corrections, and one more while it stands delivered. Each claim counts as one attempt and ends in at
  most one of delivered, retry, blocked or expired, an open claim in none yet.\<close>

theorem delivered_once_per_result:
  assumes "(delivery_step lib)\<^sup>*\<^sup>* empty_spine db" "view_of db i = Some (r, ks)"
  shows "di_attempt_count r = int (events_of_kind ''claimed'' ks)
    \<and> events_of_kind ''delivered'' ks
        \<le> events_of_kind ''result_superseded'' ks + (if di_delivery_state r = ''delivered'' then 1 else 0)
    \<and> events_of_kind ''delivered'' ks + events_of_kind ''retry_scheduled'' ks + events_of_kind ''blocked'' ks
        + events_of_kind ''claim_expired'' ks + (if di_delivery_state r = ''requester_queued'' then 1 else 0)
      \<le> events_of_kind ''claimed'' ks"
  using view_invariant [OF assms, of accounted] accounted_born accounted_moves
  unfolding accounted_def prod.case by blast

section \<open>A blocked intent\<close>







section \<open>Outside the binding\<close>

lemma outside_still: "(requester_moves c)\<^sup>*\<^sup>* v w \<Longrightarrow> \<not> requester_matches (fst v) c \<Longrightarrow> w = v"
  by (induction rule: rtranclp_induct) (auto dest: requester_move_binding)


lemma admits_id: "admits c db i \<Longrightarrow> find_intent_by_id db i = Some r \<Longrightarrow> di_delivery_id r = i \<and> requester_matches r c"
  by (auto simp: admits_def)

lemma then_find:
  assumes "then_call c (\<lambda>_. find_or_internal i) db = (Inr r, db')"
  shows "find_intent_by_id db' i = Some r"
  using assms by (auto simp: then_call_def find_or_internal_def split: prod.splits sum.splits option.splits)

lemma then_find_view:
  assumes "then_call c (\<lambda>_. then_call (find_or_internal i) (\<lambda>r db. (Ok (g r), db))) db = (res, db')"
  shows "(\<exists>e. res = Err e) \<or> (\<exists>s. res = Ok (g s) \<and> find_intent_by_id db' i = Some s)"
  using assms by (auto simp: then_call_def find_or_internal_def split: prod.splits sum.splits option.splits)

lemma claimed_shows:
  assumes ok: "spine_ok db" and r: "admits c db (di_delivery_id r)" "find_intent_by_id db (di_delivery_id r) = Some r"
    and st: "di_delivery_state r \<in> {''ready'', ''retrying''}" and q: "cq_caller q = c"
    and call: "transition_to_claimed r q now expires db = (res, db')" and j: "j \<in> set (claim_shows res)"
  shows "admits c db' j"
proof -
  have "refines (requester_moves c) db db'"
    using claim_refines [OF r(2) st _ q, of now expires] admits_id [OF r] call by simp
  then have a: "admits c db' (di_delivery_id r)" using admits_refines [OF ok r(1)] by simp
  have "(\<exists>e. res = Err e) \<or> (\<exists>s. res = Ok (Claimed (from_intent s)) \<and> find_intent_by_id db' (di_delivery_id r) = Some s)"
    using call unfolding transition_to_claimed_def Let_def by (rule then_find_view)
  then obtain s where s: "res = Ok (Claimed (from_intent s))" "find_intent_by_id db' (di_delivery_id r) = Some s"
    using j by (elim disjE exE conjE) simp_all
  then have "j = di_delivery_id r" using j admits_id [OF a s(2)] by (simp add: from_intent_def)
  then show ?thesis using a by simp
qed

lemma claim_shows_admitted:
  assumes ok: "spine_ok db" and call: "claim_ready_delivery lib now q db = (res, db')" and j: "j \<in> set (claim_shows res)"
  shows "admits (cq_caller q) db' j"
proof -
  obtain expires replayed where p: "claim_prelude lib now q db = Ok (expires, replayed)"
    using call j by (cases "claim_prelude lib now q db") (auto simp: claim_ready_delivery_def)
  show ?thesis
  proof (cases replayed)
    case (Some outcome)
    then have "res = Ok outcome" "db' = db" "resolve_claim_key_replay db q = Ok (Some outcome)"
      using call p by (auto simp: claim_ready_delivery_def claim_prelude_def and_then_Inr_iff)
    then show ?thesis using j ok
      by (auto simp: resolve_claim_key_replay_def from_intent_def admits_def spine_ok_def split: option.splits if_splits)
  next
    case None
    let ?sweep = "release_expired_claims_for_caller lib (cq_caller q) now db"
    obtain db1 where s: "?sweep = (Ok (), db1)" and rest: "claim_selected lib now q expires db1 = (res, db')"
      using call p None j by (cases ?sweep; cases "fst ?sweep") (auto simp: claim_ready_delivery_def then_call_def)
    have ok1: "spine_ok db1" using released_spine [OF ok] s by (metis snd_conv)
    show ?thesis
    proof (cases "cq_only_delivery_id q")
      case (Some i)
      then obtain r where r: "find_intent_by_id db1 i = Some r" "claimable_state lib r now" "requester_matches r (cq_caller q)"
        "transition_to_claimed r q now expires db1 = (res, db')"
        using rest j by (auto simp: claim_selected_def split: option.splits if_splits)
      then have "di_delivery_id r = i" using ok1 by (auto simp: spine_ok_def)
      then show ?thesis using r j claimable_ready [OF r(2)] ok1
        by (intro claimed_shows [OF ok1 _ _ _ _ r(4)]) (auto simp: admits_def)
    next
      case None
      then obtain r rs where r: "sort_key (\<lambda>r. (di_created_at r, di_delivery_id r)) (load_claimable_intents lib (cq_caller q) now db1) = r # rs"
        "transition_to_claimed r q now expires db1 = (res, db')"
        using rest j by (auto simp: claim_selected_def split: list.splits)
      then show ?thesis using claimable_row [OF ok1 r(1)] j claimable_ready [of lib r now]
        by (intro claimed_shows [OF ok1 _ _ _ _ r(2)]) (auto simp: admits_def)
    qed
  qed
qed

lemma admits_row: "spine_ok db \<Longrightarrow> find_intent_by_id db i = Some r \<Longrightarrow> requester_matches r c \<Longrightarrow> admits c db i"
  by (auto simp: admits_def spine_ok_def)

lemma ack_admits: "ack_delivered now i c k expected db = (Ok v, db') \<Longrightarrow> \<exists>r. find_intent_by_id db i = Some r \<and> requester_matches r c"
  by (auto simp: ack_delivered_def split: sum.splits option.splits if_splits)

lemma reject_admits: "reject_or_block lib now i c blocker detail retry_in expected db = (Ok s, db') \<Longrightarrow>
    (\<exists>r. find_intent_by_id db i = Some r \<and> requester_matches r c) \<and> find_intent_by_id db' i = Some s"
  by (auto simp: reject_or_block_def dest: then_find split: sum.splits option.splits if_splits)

lemma dismiss_admits: "dismiss_delivery now i c expected db = (Ok s, db') \<Longrightarrow>
    (\<exists>r. find_intent_by_id db i = Some r \<and> requester_matches r c) \<and> find_intent_by_id db' i = Some s"
  by (auto simp: dismiss_delivery_def dest: then_find split: sum.splits option.splits if_splits)

lemma resume_selects: "resume_requester_operation ch now c again db = (Ok rs, db') \<Longrightarrow>
    rs = sort_key (\<lambda>r. (di_created_at r, di_delivery_id r)) (select_intents c [''ready'', ''requester_queued'', ''blocked'', ''retrying''] db')"
  by (auto simp: resume_requester_operation_def then_call_def split: sum.splits prod.splits)

lemma shows_admitted:
  assumes ok: "spine_ok db" and step: "seam_step lib c db ids db'" and j: "j \<in> set ids"
  shows "admits c db' j"
proof -
  have ok': "spine_ok db'" and ref: "refines (requester_moves c) db db'"
    using seam_refines [OF ok step] ok by (auto simp: refines_def)
  have kept: "admits c db' i" if "\<exists>r. find_intent_by_id db i = Some r \<and> requester_matches r c" for i
    using that admits_row [OF ok] admits_refines [OF ok _ ref] by blast
  have named: "di_delivery_id s = i" if "find_intent_by_id db' i = Some s" for i s
    using ok' that by (auto simp: spine_ok_def)
  from step show ?thesis
  proof cases
    case (claims q now res)
    then show ?thesis using claim_shows_admitted [OF ok claims(3)] j by simp
  next
    case (acks now i k expected res)
    then show ?thesis using j kept ack_admits by (auto simp: shows_of_def split: sum.splits)
  next
    case (rejects now i blocker detail retry_in expected res)
    then show ?thesis using j kept named reject_admits by (fastforce simp: shows_of_def split: sum.splits)
  next
    case (resumes now again res)
    then show ?thesis using j resume_selects select_row [OF ok'] ok' admits_row
      by (fastforce simp: shows_of_def split: sum.splits)
  next
    case (dismisses now i expected res)
    then show ?thesis using j kept named dismiss_admits by (fastforce simp: shows_of_def split: sum.splits)
  qed
qed

text \<open>The answers to one outside the binding that do not depend on what the row holds.\<close>

lemma outside_acks:
  "find_intent_by_id db i = Some r \<Longrightarrow> \<not> requester_matches r c \<Longrightarrow>
    ack_delivered now i c k expected db = (fst (ack_delivered now i c k expected empty_spine), db)"
  by (auto simp: ack_delivered_def empty_spine_def find_intent_by_id_def split: sum.split)

lemma outside_rejects:
  "find_intent_by_id db i = Some r \<Longrightarrow> \<not> requester_matches r c \<Longrightarrow>
    reject_or_block lib now i c blocker detail retry_in expected db
      = (fst (reject_or_block lib now i c blocker detail retry_in expected empty_spine), db)"
  by (auto simp: reject_or_block_def empty_spine_def find_intent_by_id_def split: sum.split)

lemma outside_dismisses:
  "find_intent_by_id db i = Some r \<Longrightarrow> \<not> requester_matches r c \<Longrightarrow>
    dismiss_delivery now i c expected db
      = (if validate_caller c = Ok () then Err DeliveryIncompatibleState else Err InvalidArg, db)"
  by (auto simp: dismiss_delivery_def validate_caller_def)

text \<open>C19: A caller outside an intent's requester binding cannot move it, and no successful answer tells it
  of the intent. Whatever it calls, row and ledger of the intent stay as they
  are and no successful answer names the intent. An acknowledgement or a failure report of it is answered
  exactly as if the store were empty, a dismissal by the one refusal \<open>DeliveryIncompatibleState\<close> whatever
  the row holds. That it exists is not hidden: a missing intent is answered \<open>NotFound\<close> by a dismissal and
  by a claim pinned to it, and a foreign claim key is refused with the id it was used for.\<close>

theorem binding_keeps_out:
  assumes "(delivery_step lib)\<^sup>*\<^sup>* empty_spine db" "seam_step lib c db ids db'"
    and "find_intent_by_id db i = Some r" "\<not> requester_matches r c"
  shows "view_of db' i = view_of db i \<and> i \<notin> set ids
    \<and> ack_delivered now i c k expected db = (fst (ack_delivered now i c k expected empty_spine), db)
    \<and> reject_or_block lib now i c blocker detail retry_in expected db
        = (fst (reject_or_block lib now i c blocker detail retry_in expected empty_spine), db)
    \<and> dismiss_delivery now i c expected db
        = (if validate_caller c = Ok () then Err DeliveryIncompatibleState else Err InvalidArg, db)"
proof -
  have ok: "spine_ok db" using assms(1) spine_ok_empty spine.run_good by blast
  obtain v where v: "view_of db i = Some v" "fst v = r" using assms(3) by (auto simp: view_of_def)
  then obtain w where "view_of db' i = Some w" "(requester_moves c)\<^sup>*\<^sup>* v w"
    using seam_refines [OF ok assms(2)] ok unfolding refines_def by blast
  then have same: "view_of db' i = Some v" using outside_still v assms(4) by blast
  then have "\<not> admits c db' i" using v assms(4) by (auto simp: admits_def view_of_Some)
  then show ?thesis
    using same v shows_admitted [OF ok assms(2)] outside_acks [OF assms(3,4)] outside_rejects [OF assms(3,4)]
      outside_dismisses [OF assms(3,4)] by (intro conjI) auto
qed

section \<open>Mint\<close>

definition content :: "delivery_intent \<Rightarrow> string \<times> string \<times> int" where
  "content r = (di_result_ref r, di_payload_digest r, di_result_revision r)"

lemma requester_content: "requester_moves c v w \<Longrightarrow> content (fst w) = content (fst v)"
  by (induction rule: requester_moves.induct) (simp_all add: content_def row_defs)

lemma requester_run_content: "(requester_moves c)\<^sup>*\<^sup>* v w \<Longrightarrow> content (fst w) = content (fst v)"
  by (induction rule: rtranclp_induct) (simp_all add: requester_content)

text \<open>What a block wrote, given that it committed.\<close>

lemma append_event_intents: "append_event i event_id kind expected detail digest actor now db = Ok db' \<Longrightarrow> dd_intents db' = dd_intents db"
  by (drule append_event_Ok) auto

lemma block_writes:
  assumes block: "and_then (update_intent i guard f db) (\<lambda>(n, db1). if n = 0 then zero db1 else and_then (first db1) rest_of) = Ok (v, db')"
    and zero: "\<And>db1 w. zero db1 = Ok (v, w) \<Longrightarrow> w = db1"
    and first: "\<And>db1 db2. first db1 = Ok db2 \<Longrightarrow> dd_intents db2 = dd_intents db1"
    and rest_of: "\<And>db2 w. rest_of db2 = Ok (v, w) \<Longrightarrow> dd_intents w = dd_intents db2"
    and r: "find_intent_by_id db i = Some r"
  shows "db' = db \<and> \<not> guard r \<and> zero db = Ok (v, db)
    \<or> guard r \<and> intent_check (f r) \<and> (\<forall>j. find_intent_by_id db' j = (if j = i then Some (f r) else find_intent_by_id db j))"
proof (cases "guard r")
  case True
  then have "intent_check (f r)" "dd_intents db' = update_row i f (dd_intents db)"
    using block r by (auto simp: update_intent_def and_then_Inr_iff dest!: first rest_of split: if_splits)
  then show ?thesis using True r by (simp add: find_intent_by_id_def)
next
  case False
  then show ?thesis using block r by (auto simp: update_intent_def dest: zero)
qed

lemma supersede_Ok:
  assumes call: "supersede_intent r n next_result now db = (Ok s, db')" and r: "find_intent_by_id db (di_delivery_id r) = Some r"
  shows "s = superseded_row now n next_result (di_revision r + 1) r" and "intent_check s"
    and "find_intent_by_id db' j = (if j = di_delivery_id r then Some s else find_intent_by_id db j)"
proof -
  let ?f = "superseded_row now n next_result (di_revision r + 1)"
  obtain v where "and_then (update_intent (di_delivery_id r) (\<lambda>ra. di_revision ra = di_revision r) ?f db) (\<lambda>(updated, db1).
          if updated = 0 then Err DeliveryRevisionConflict
          else and_then (append_event (di_delivery_id r) (''superseded:'' @ di_delivery_id r @ '':'' @ show_i64 next_result) ResultSuperseded
                  (Some (di_revision r))
                  (Some (''corrected result revision '' @ show_i64 next_result @ '' replaces ''
                         @ show_i64 (di_result_revision r)))
                  (Some (nw_payload_digest n)) ''tachi'' now db1) (\<lambda>db2.
               and_then (if di_delivery_state r \<noteq> ''ready'' then append_event (di_delivery_id r) (''debt:supersede:'' @ di_delivery_id r @ '':'' @ now) TransitionDebt
                    (Some (di_revision r))
                    (Some (''delivery re-armed from '' @ di_delivery_state r @ '' by a corrected result revision''))
                    None ''tachi'' now db2 else Ok db2) (\<lambda>db3. Ok ((), db3)))) = Ok (v, db')"
    using call unfolding supersede_intent_def Let_def then_call_def atomically_def find_or_internal_def
    by (auto split: sum.splits prod.splits option.splits)
  then have "intent_check (?f r) \<and> (\<forall>j. find_intent_by_id db' j = (if j = di_delivery_id r then Some (?f r) else find_intent_by_id db j))"
    by (drule_tac block_writes [OF _ _ _ _ r])
       (auto simp: and_then_Inr_iff dest: append_event_intents split: if_splits)
  moreover have "find_intent_by_id db' (di_delivery_id r) = Some s"
    using call unfolding supersede_intent_def Let_def by (rule then_find)
  ultimately show "s = superseded_row now n next_result (di_revision r + 1) r" "intent_check s"
    "find_intent_by_id db' j = (if j = di_delivery_id r then Some s else find_intent_by_id db j)" by auto
qed

lemma key_of_id: "spine_ok db \<Longrightarrow> find_intent_by_id db i = Some s \<Longrightarrow> find_intent_by_key db (di_idempotency_key s) = Some s"
proof (cases "find_intent_by_key db (di_idempotency_key s)")
  case (Some t)
  assume ok: "spine_ok db" and s: "find_intent_by_id db i = Some s"
  have t: "find_intent_by_id db (di_delivery_id t) = Some t" "di_idempotency_key t = di_idempotency_key s"
    using find_key_id [OF ok Some] by simp_all
  then have "di_delivery_id t = i" using ok s unfolding spine_ok_def by blast
  then have "t = s" using t(1) s by simp
  then show ?thesis using Some by blast
qed (auto dest: no_key)

lemma born_stored:
  assumes "insert_intent row db = Ok db1" "dd_intents db' = dd_intents db1" "bt_wf (dd_intents db)"
  shows "find_intent_by_id db' j = (if j = di_delivery_id row then Some row else find_intent_by_id db j)"
  using assms by (auto simp: insert_intent_def find_intent_by_id_def bt_simps split: if_splits)

definition same_content_as :: "new_delivery_intent \<Rightarrow> delivery_intent \<Rightarrow> bool" where
  "same_content_as n r \<longleftrightarrow> di_result_ref r = nw_result_ref n \<and> di_payload_digest r = nw_payload_digest n"

lemma mint_answers:
  assumes ok: "spine_ok db" and call: "mint_delivery_intent lib now n db = (Ok s, db')"
  obtains
    (settled) "find_intent_by_key db (nw_idempotency_key n) = Some s" "db' = db"
      "same_content_as n s \<or> nw_result_revision n < di_result_revision s \<and> \<not> nw_correction n"
  | (superseded) r next_result where "find_intent_by_key db (nw_idempotency_key n) = Some r" "\<not> same_content_as n r"
      "s = superseded_row now n next_result (di_revision r + 1) r" "intent_check s"
      "next_result = max (nw_result_revision n) (i64_succ (di_result_revision r))
       \<or> next_result = i64_succ (di_result_revision r) \<and> nw_result_revision n = di_result_revision r"
      "\<And>j. find_intent_by_id db' j = (if j = di_delivery_id r then Some s else find_intent_by_id db j)"
  | (minted) "find_intent_by_key db (nw_idempotency_key n) = None" "s = minted_row lib now n"
      "find_intent_by_id db (di_delivery_id s) = None"
      "\<And>j. find_intent_by_id db' j = (if j = di_delivery_id s then Some s else find_intent_by_id db j)"
proof (cases "find_intent_by_key db (nw_idempotency_key n)")
  case (Some r)
  obtain u where v: "validate_mint n = Ok u" using call by (cases "validate_mint n") (auto simp: mint_delivery_intent_def)
  then have rec: "reconcile_mint r n now db = (Ok s, db')" using call Some by (simp add: mint_delivery_intent_def)
  have r: "find_intent_by_id db (di_delivery_id r) = Some r" using find_key_id [OF ok Some] by simp
  show ?thesis
  proof (cases "same_content_as n r \<or> nw_result_revision n < di_result_revision r \<and> \<not> nw_correction n")
    case True
    then have "s = r" "db' = db" using rec
      by (auto simp: reconcile_mint_def Let_def same_content_as_def fail_def split: if_splits)
    then show ?thesis using settled Some True by simp
  next
    case False
    then obtain next_result where sup: "supersede_intent r n next_result now db = (Ok s, db')"
      and revision: "next_result = max (nw_result_revision n) (i64_succ (di_result_revision r))
         \<or> next_result = i64_succ (di_result_revision r) \<and> nw_result_revision n = di_result_revision r"
      using rec by (auto simp: reconcile_mint_def Let_def same_content_as_def fail_def split: if_splits)
    show ?thesis
      by (rule superseded [OF Some _ supersede_Ok(1,2) [OF sup r] revision supersede_Ok(3) [OF sup r]]) (use False in simp)
  qed
next
  case None
  let ?i = "delivery_id_for_key lib (nw_idempotency_key n)"
  let ?block = "\<lambda>db. and_then (insert_intent (minted_row lib now n) db) (\<lambda>db1.
               and_then (append_event ?i (''intent_created:'' @ ?i) IntentCreated None
                 (Some ''durable delivery intent minted from a terminal receipt'')
                 (Some (nw_payload_digest n)) ''tachi'' now db1) (\<lambda>db2.
               and_then (append_event ?i (''ready:'' @ ?i @ '':'' @ show_i64 (nw_result_revision n)) ResultReady None
                 (Some ''terminal result ready for requester delivery'')
                 (Some (nw_payload_digest n)) ''tachi'' now db2) (\<lambda>db3. Ok ((), db3))))"
  have c: "then_call (atomically ?block) (\<lambda>_. find_or_internal ?i) db = (Ok s, db')"
    using call None by (auto simp: mint_delivery_intent_def Let_def split: sum.splits)
  then have found: "find_intent_by_id db' ?i = Some s" by (rule then_find)
  obtain v where "?block db = Ok (v, db')"
    using c unfolding then_call_def atomically_def find_or_internal_def by (auto split: sum.splits prod.splits option.splits)
  then obtain db1 where ins: "insert_intent (minted_row lib now n) db = Ok db1" "dd_intents db' = dd_intents db1"
    by (auto simp: and_then_Inr_iff dest!: append_event_intents)
  have stored: "find_intent_by_id db' j = (if j = ?i then Some (minted_row lib now n) else find_intent_by_id db j)" for j
    using born_stored [OF ins, of j] ok by (simp add: spine_ok_def minted_row_def)
  then have "s = minted_row lib now n" using found by simp
  moreover have "find_intent_by_id db ?i = None" using ins(1) by (simp add: insert_intent_def minted_row_def split: if_splits)
  ultimately show ?thesis using minted None stored by (simp add: minted_row_def)
qed

lemma mint_spine: "spine_ok db \<Longrightarrow> mint_delivery_intent lib now n db = (res, db') \<Longrightarrow> spine_ok db'"
  by (metis refines_def mint_refines snd_conv)

text \<open>Minting is idempotent on the intent: repeating a mint that was answered, at any later reading of
  the clock, answers the same intent and writes nothing.\<close>

lemma mint_idempotent:
  assumes "(delivery_step lib)\<^sup>*\<^sup>* empty_spine db" "mint_delivery_intent lib now n db = (Ok s, db')"
  shows "mint_delivery_intent lib later n db' = (Ok s, db')"
proof -
  have ok: "spine_ok db" using assms(1) spine_ok_empty spine.run_good by blast
  have v: "validate_mint n = Ok ()" using assms(2) by (cases "validate_mint n") (auto simp: mint_delivery_intent_def)
  have again: "mint_delivery_intent lib later n db' = (Ok s, db')"
    if "find_intent_by_key db' (nw_idempotency_key n) = Some s"
      "same_content_as n s \<or> nw_result_revision n < di_result_revision s \<and> \<not> nw_correction n"
    using that v by (auto simp: mint_delivery_intent_def reconcile_mint_def Let_def same_content_as_def)
  from ok assms(2) show ?thesis
  proof (cases rule: mint_answers)
    case settled
    then show ?thesis using again by simp
  next
    case (superseded r next_result)
    then have "find_intent_by_id db' (di_delivery_id r) = Some s" "same_content_as n s"
      "di_idempotency_key s = nw_idempotency_key n"
      using find_key_id [OF ok superseded(1)] by (simp_all add: same_content_as_def row_defs)
    then show ?thesis using again key_of_id [OF mint_spine [OF ok assms(2)]] by metis
  next
    case minted
    then have "find_intent_by_id db' (di_delivery_id s) = Some s" "same_content_as n s"
      "di_idempotency_key s = nw_idempotency_key n"
      by (simp_all add: same_content_as_def minted_row_def)
    then show ?thesis using again key_of_id [OF mint_spine [OF ok assms(2)]] by metis
  qed
qed

section \<open>All or nothing\<close>

definition all_or_nothing :: "'r delivery_call \<Rightarrow> delivery_db \<Rightarrow> bool" where
  "all_or_nothing call db \<longleftrightarrow> (case call db of (Inl e, db') \<Rightarrow> db' = db | (Inr v, db') \<Rightarrow> True)"

lemma all_or_nothingI: "(\<And>e db'. call db = (Err e, db') \<Longrightarrow> db' = db) \<Longrightarrow> all_or_nothing call db"
  by (auto simp: all_or_nothing_def split: sum.split)

lemma all_or_nothingD: "all_or_nothing call db \<Longrightarrow> call db = (Err e, db') \<Longrightarrow> db' = db"
  by (simp add: all_or_nothing_def)

lemma all_or_nothing_pure [simp]: "all_or_nothing (\<lambda>db. (res, db)) db"
  by (auto simp: all_or_nothing_def split: sum.split)

lemma all_or_nothing_atomically [simp]: "all_or_nothing (atomically block) db"
  by (auto simp: all_or_nothing_def atomically_def split: sum.splits)

lemma all_or_nothing_read_back:
  assumes "\<And>v db'. atomically block db = (Ok v, db') \<Longrightarrow> find_intent_by_id db' i \<noteq> None"
  shows "all_or_nothing (then_call (atomically block) (\<lambda>_. find_or_internal i)) db"
  using assms
  by (auto simp: all_or_nothing_def atomically_def then_call_def find_or_internal_def split: sum.splits option.splits)

lemma read_back:
  assumes "spine_ok db" "find_intent_by_id db i \<noteq> None" "refines m db (snd (then_call (atomically block) (\<lambda>_. find_or_internal i) db))"
  shows "all_or_nothing (then_call (atomically block) (\<lambda>_. find_or_internal i)) db"
proof (rule all_or_nothing_read_back)
  fix v db'
  assume "atomically block db = (Ok v, db')"
  then have "refines m db db'" using assms(3) by (simp add: then_call_def)
  moreover obtain w where "view_of db i = Some w" using assms(2) by (auto simp: view_of_def)
  ultimately have "\<exists>v'. view_of db' i = Some v'" using assms(1) unfolding refines_def by blast
  then show "find_intent_by_id db' i \<noteq> None" by (auto simp: view_of_def)
qed

lemma mint_all_or_nothing:
  assumes ok: "spine_ok db"
  shows "all_or_nothing (mint_delivery_intent lib now n) db"
proof (cases "validate_mint n")
  case (Inl e)
  then show ?thesis by (simp add: mint_delivery_intent_def all_or_nothing_def)
next
  case v: (Inr u)
  show ?thesis
  proof (cases "find_intent_by_key db (nw_idempotency_key n)")
    case (Some r)
    then have r: "find_intent_by_id db (di_delivery_id r) = Some r" using find_key_id [OF ok] by simp
    have sup: "all_or_nothing (supersede_intent r n k now) db"
      if "\<not> same_content_as n r" "k \<in> {i64_succ (di_result_revision r), max (nw_result_revision n) (i64_succ (di_result_revision r))}" for k
      unfolding supersede_intent_def Let_def
      by (rule read_back [OF ok])
         (use r that supersede_refines [OF r, of n k now] in \<open>auto simp: same_content_as_def supersede_intent_def Let_def\<close>)
    have "all_or_nothing (reconcile_mint r n now) db"
      unfolding reconcile_mint_def Let_def
      by (auto simp: fail_def [abs_def] same_content_as_def intro!: sup)
    then show ?thesis using v Some by (simp add: mint_delivery_intent_def all_or_nothing_def)
  next
    case None
    let ?i = "delivery_id_for_key lib (nw_idempotency_key n)"
    let ?block = "\<lambda>db. and_then (insert_intent (minted_row lib now n) db) (\<lambda>db1.
               and_then (append_event ?i (''intent_created:'' @ ?i) IntentCreated None
                 (Some ''durable delivery intent minted from a terminal receipt'')
                 (Some (nw_payload_digest n)) ''tachi'' now db1) (\<lambda>db2.
               and_then (append_event ?i (''ready:'' @ ?i @ '':'' @ show_i64 (nw_result_revision n)) ResultReady None
                 (Some ''terminal result ready for requester delivery'')
                 (Some (nw_payload_digest n)) ''tachi'' now db2) (\<lambda>db3. Ok ((), db3))))"
    have "all_or_nothing (then_call (atomically ?block) (\<lambda>_. find_or_internal ?i)) db"
    proof (rule all_or_nothing_read_back)
      fix v db'
      assume "atomically ?block db = (Ok v, db')"
      then obtain db1 where ins: "insert_intent (minted_row lib now n) db = Ok db1" "dd_intents db' = dd_intents db1"
        by (auto simp: atomically_def and_then_Inr_iff dest!: append_event_intents split: sum.splits)
      show "find_intent_by_id db' ?i \<noteq> None"
        using born_stored [OF ins, of ?i] ok by (simp add: spine_ok_def minted_row_def)
    qed
    then show ?thesis using v None by (simp add: mint_delivery_intent_def all_or_nothing_def Let_def)
  qed
qed

lemma ack_all_or_nothing: "all_or_nothing (ack_delivered now i c k expected) db"
  using all_or_nothing_atomically [of _ db]
  by (auto simp: all_or_nothing_def ack_delivered_def ack_write_def Let_def atomically_def split: sum.splits option.splits)

lemma reject_all_or_nothing:
  assumes ok: "spine_ok db"
  shows "all_or_nothing (reject_or_block lib now i c blocker detail retry_in expected) db"
proof -
  have "all_or_nothing (then_call (reject_write r c blocker detail nr now) (\<lambda>_. find_or_internal i)) db"
    if "find_intent_by_id db i = Some r" "di_delivery_state r = ''requester_queued''" "di_claimed_by r = Some (ca_host_identity c)"
      "requester_matches r c" "nr \<noteq> None \<longleftrightarrow> blocker \<in> set RETRYABLE" for r nr
  proof -
    have "di_delivery_id r = i" using ok that(1) by (auto simp: spine_ok_def)
    then have "refines (requester_moves c) db (snd (then_call (reject_write r c blocker detail nr now) (\<lambda>_. find_or_internal i) db))"
      using that by (intro refines_then_call reject_write_refines) auto
    then show ?thesis using that(1) ok unfolding reject_write_def Let_def by (intro read_back) auto
  qed
  note written = all_or_nothingD [OF this, rotated -1]
  show ?thesis
    by (rule all_or_nothingI)
       (auto simp: reject_or_block_def and_then_Inr_iff dest!: written split: sum.splits option.splits if_splits)
qed

lemma dismiss_all_or_nothing:
  assumes ok: "spine_ok db"
  shows "all_or_nothing (dismiss_delivery now i c expected) db"
proof -
  have "all_or_nothing (then_call (dismiss_write r c now) (\<lambda>_. find_or_internal i)) db"
    if "find_intent_by_id db i = Some r" "di_delivery_state r \<notin> {''delivered'', ''dismissed''}" "requester_matches r c" for r
  proof -
    have "di_delivery_id r = i" using ok that(1) by (auto simp: spine_ok_def)
    then have "refines (requester_moves c) db (snd (then_call (dismiss_write r c now) (\<lambda>_. find_or_internal i) db))"
      using that by (intro refines_then_call dismiss_write_refines) auto
    then show ?thesis using that(1) ok unfolding dismiss_write_def Let_def by (intro read_back) auto
  qed
  note written = all_or_nothingD [OF this, rotated -1]
  show ?thesis
    by (rule all_or_nothingI) (auto simp: dismiss_delivery_def dest!: written split: sum.splits option.splits if_splits)
qed

text \<open>A refused mint, acknowledgement, failure report or dismissal leaves both tables as they were,
  whatever it is refused for: its arguments, the intent's state, its holder, a revision, a key, or a
  constraint of the tables met halfway.\<close>

lemma refused_writes_nothing:
  assumes "(delivery_step lib)\<^sup>*\<^sup>* empty_spine db"
  shows "all_or_nothing (mint_delivery_intent lib now n) db
    \<and> all_or_nothing (ack_delivered now i c k expected) db
    \<and> all_or_nothing (reject_or_block lib now i c blocker detail retry_in expected) db
    \<and> all_or_nothing (dismiss_delivery now i c expected) db"
proof -
  have "spine_ok db" using assms spine_ok_empty spine.run_good by blast
  then show ?thesis
    by (intro conjI mint_all_or_nothing ack_all_or_nothing reject_all_or_nothing dismiss_all_or_nothing)
qed

section \<open>Results only advance\<close>

lemma mint_advances:
  assumes ok: "spine_ok db" and call: "mint_delivery_intent lib now n db = (res, db')"
    and r: "find_intent_by_id db i = Some r" and room: "di_result_revision r < 2 ^ 63 - 1"
  shows "\<exists>r'. find_intent_by_id db' i = Some r'
    \<and> (r' = r \<or> nw_idempotency_key n = di_idempotency_key r \<and> same_content_as n r'
        \<and> di_result_revision r < di_result_revision r' \<and> di_delivery_state r' = ''ready'')"
proof (cases res)
  case (Inl e)
  then have "db' = db" using mint_all_or_nothing [OF ok, of lib now n] call by (simp add: all_or_nothing_def)
  then show ?thesis using r by simp
next
  case (Inr s)
  show ?thesis
    using ok call [unfolded Inr]
  proof (cases rule: mint_answers)
    case settled
    then show ?thesis using r by simp
  next
    case (superseded q next_result)
    have q: "find_intent_by_id db (di_delivery_id q) = Some q" "di_idempotency_key q = nw_idempotency_key n"
      using find_key_id [OF ok superseded(1)] by simp_all
    show ?thesis
    proof (cases "i = di_delivery_id q")
      case True
      then have "q = r" using q(1) r by simp
      then show ?thesis using superseded room True q(2)
        by (auto simp: i64_succ_def row_defs same_content_as_def)
    qed (use superseded(6) r in simp)
  next
    case minted
    then show ?thesis using r by (auto split: if_splits)
  qed
qed

text \<open>C36: A stale delivery never overwrites a newer result. No call of a requester changes an intent's result
  ref, digest or result revision. A call that does change them is a mint on the intent's own idempotency key,
  the intent then carries the content of that mint, its result revision is strictly higher and it is ready
  again; this as long as the result revision is not the last \<open>i64\<close>.\<close>

theorem results_only_advance:
  assumes "(delivery_step lib)\<^sup>*\<^sup>* empty_spine db" "find_intent_by_id db i = Some r" "di_result_revision r < 2 ^ 63 - 1"
  shows "(\<forall>c ids db1. seam_step lib c db ids db1 \<longrightarrow> (\<exists>r'. find_intent_by_id db1 i = Some r' \<and> content r' = content r))
    \<and> (\<forall>now n res db2. mint_delivery_intent lib now n db = (res, db2) \<longrightarrow> (\<exists>r'. find_intent_by_id db2 i = Some r'
        \<and> (r' = r \<or> nw_idempotency_key n = di_idempotency_key r \<and> same_content_as n r'
            \<and> di_result_revision r < di_result_revision r' \<and> di_delivery_state r' = ''ready'')))"
proof (intro conjI allI impI)
  have ok: "spine_ok db" using assms(1) spine_ok_empty spine.run_good by blast
  show "\<exists>r'. find_intent_by_id db1 i = Some r' \<and> content r' = content r" if call: "seam_step lib c db ids db1" for c ids db1
  proof -
    obtain v where v: "view_of db i = Some v" "fst v = r" using assms(2) by (auto simp: view_of_def)
    then obtain w where "view_of db1 i = Some w" "(requester_moves c)\<^sup>*\<^sup>* v w"
      using seam_refines [OF ok call] ok unfolding refines_def by blast
    then show ?thesis using v requester_run_content by (auto simp: view_of_Some)
  qed
  show "\<exists>r'. find_intent_by_id db2 i = Some r'
      \<and> (r' = r \<or> nw_idempotency_key n = di_idempotency_key r \<and> same_content_as n r'
          \<and> di_result_revision r < di_result_revision r' \<and> di_delivery_state r' = ''ready'')"
    if "mint_delivery_intent lib now n db = (res, db2)" for now n res db2
    by (rule mint_advances [OF ok that assms(2,3)])
qed

end
