(* ===== verification/Delivery_Recovery.thy ===== *)
theory Delivery_Recovery
  imports Delivery_Contract
begin

text \<open>
  Recovery: a requester that restarts, or loses its acknowledgement, finds the same intents
  again. \<open>resume_requester_operation\<close> lists exactly its live intents, with the expired claims
  released and, when it affirms, the blocked ones re-armed; a claim left to expire can be
  taken again, which nothing in the tables can refuse.
\<close>

section \<open>Event ids\<close>

lemma show_i64_inject: "0 \<le> m \<Longrightarrow> 0 \<le> n \<Longrightarrow> show_i64 m = show_i64 n \<longleftrightarrow> m = n"
  by (simp add: show_i64_def eq_nat_nat_iff)

lemma show_nat_length: "n < 10 ^ k \<Longrightarrow> 0 < k \<Longrightarrow> length (show_nat n) \<le> k"
proof (induction n arbitrary: k rule: show_nat.induct)
  case (1 n)
  show ?case
  proof (cases "n < 10")
    case True
    then show ?thesis using 1 by (simp add: show_nat.simps [of n])
  next
    case False
    then obtain l where k: "k = Suc l" "0 < l" using 1 by (cases k; cases "k - 1") auto
    then have "n div 10 < 10 ^ l" using 1 by (simp add: less_mult_imp_div_less mult.commute)
    then show ?thesis using 1 False k by (simp add: show_nat.simps [of n])
  qed
qed

lemma sql_length_le: "sql_length s \<le> length s"
  by (simp add: sql_length_def) (meson length_filter_le length_takeWhile_le order_trans)

lemma text_check_Cons:
  assumes "c \<noteq> CHR '' ''" "(of_char c :: nat) < 128" "NUL \<notin> set (c # s)" "length (c # s) \<le> n"
  shows "text_check n (c # s)"
proof -
  have "dropWhile (\<lambda>c. c = CHR '' '') (xs @ [c]) = dropWhile (\<lambda>c. c = CHR '' '') xs @ [c]" for xs
    using assms(1) by (induction xs) auto
  then have "sql_trim (c # s) = c # rev (dropWhile (\<lambda>c. c = CHR '' '') (rev s))" using assms(1) by (simp add: sql_trim_def)
  moreover have "c \<noteq> NUL" using assms(3) by auto
  ultimately have "0 < sql_length (sql_trim (c # s))" using assms(2) by (simp add: sql_length_def)
  then show ?thesis using assms(3,4) sql_length_le [of "c # s"] by (simp add: text_check_def)
qed

lemma release_id_check:
  assumes "plain_id i" "0 < n" "n < 2 ^ 63"
  shows "text_check 256 (''claim_expired:'' @ i @ '':'' @ show_i64 n)"
proof -
  have "nat n < 10 ^ 19" using assms(3) by simp
  then have "length (show_i64 n) \<le> 19" using show_nat_length [of "nat n" 19] assms(2) by (simp add: show_i64_def)
  moreover have "NUL \<notin> set (show_i64 n)"
    using digits_show_nat [of "nat n"] assms(2) by (auto simp: show_i64_def list_all_iff is_ascii_digit_def NUL_def)
  ultimately show ?thesis using assms(1)
    by (simp add: plain_id_def NUL_def text_check_Cons)
qed

definition release_ids_behind :: "intent_view \<Rightarrow> bool" where
  "release_ids_behind v \<longleftrightarrow> (case v of (r, ks) \<Rightarrow> 1 \<le> di_revision r
     \<and> (\<forall>e\<in>set ks. \<forall>n\<ge>1. snd e = ''claim_expired:'' @ di_delivery_id r @ '':'' @ show_i64 n \<longrightarrow> n \<le> di_revision r))"

lemma release_ids_behindD:
  "release_ids_behind v \<Longrightarrow> e \<in> set (snd v) \<Longrightarrow> 1 \<le> n \<Longrightarrow>
     snd e = ''claim_expired:'' @ di_delivery_id (fst v) @ '':'' @ show_i64 n \<Longrightarrow> n \<le> di_revision (fst v)"
  by (cases v) (simp add: release_ids_behind_def del: append_Cons)

lemma release_ids_requester: "requester_moves c v w \<Longrightarrow> release_ids_behind v \<Longrightarrow> release_ids_behind w"
  by (induction rule: requester_moves.induct)
     (fastforce simp: release_ids_behind_def row_defs show_i64_inject split: if_splits)+

lemma release_ids_moves: "moves v w \<Longrightarrow> release_ids_behind v \<Longrightarrow> release_ids_behind w"
  by (induction rule: moves.induct)
     (simp add: release_ids_requester, fastforce simp: release_ids_behind_def row_defs split: if_splits)

lemma release_ids_born: "born v \<Longrightarrow> release_ids_behind v"
  by (cases v) (auto simp: release_ids_behind_def born_def)

section \<open>Sweeps\<close>

text \<open>A sweep that went through wrote every row it visited, and no other.\<close>

lemma sweep_wrote:
  assumes "\<And>x db db'. x \<in> set xs \<Longrightarrow> find_intent_by_id db (di_delivery_id x) = Some x \<Longrightarrow> f x db = (Ok (), db') \<Longrightarrow>
      \<forall>j. find_intent_by_id db' j = (if j = di_delivery_id x then Some (g x) else find_intent_by_id db j)"
    and "distinct (map di_delivery_id xs)" "\<And>x. x \<in> set xs \<Longrightarrow> find_intent_by_id db (di_delivery_id x) = Some x"
    and "each_call f xs db = (Ok (), db')"
  shows "(\<forall>x\<in>set xs. find_intent_by_id db' (di_delivery_id x) = Some (g x))
    \<and> (\<forall>j. j \<notin> di_delivery_id ` set xs \<longrightarrow> find_intent_by_id db' j = find_intent_by_id db j)"
  using assms
proof (induction xs arbitrary: db)
  case (Cons x xs)
  obtain db1 where x: "f x db = (Ok (), db1)" and xs: "each_call f xs db1 = (Ok (), db')"
    using Cons.prems(4) by (auto simp: then_call_def split: prod.splits sum.splits)
  have wrote: "find_intent_by_id db1 j = (if j = di_delivery_id x then Some (g x) else find_intent_by_id db j)" for j
    using Cons.prems(1) [OF _ _ x] Cons.prems(3) by simp
  have rows: "find_intent_by_id db1 (di_delivery_id y) = Some y" if "y \<in> set xs" for y
  proof -
    have "find_intent_by_id db (di_delivery_id y) = Some y" by (intro Cons.prems(3)) (simp add: that)
    moreover have "di_delivery_id y \<noteq> di_delivery_id x" using Cons.prems(2) that by (auto simp: rev_image_eqI)
    ultimately show ?thesis by (simp add: wrote)
  qed
  have writes: "\<forall>j. find_intent_by_id w j = (if j = di_delivery_id y then Some (g y) else find_intent_by_id v j)"
    if "y \<in> set xs" "find_intent_by_id v (di_delivery_id y) = Some y" "f y v = (Ok (), w)" for y v w
    using that(1) by (intro Cons.prems(1) [OF _ that(2,3)]) simp
  have "distinct (map di_delivery_id xs)" using Cons.prems(2) by simp
  from Cons.IH [OF writes this rows xs] have "(\<forall>y\<in>set xs. find_intent_by_id db' (di_delivery_id y) = Some (g y))
    \<and> (\<forall>j. j \<notin> di_delivery_id ` set xs \<longrightarrow> find_intent_by_id db' j = find_intent_by_id db1 j)" by blast
  moreover have "di_delivery_id x \<notin> di_delivery_id ` set xs" using Cons.prems(2) by simp
  ultimately show ?case by (simp add: wrote)
qed simp

lemma release_wrote:
  assumes "find_intent_by_id db (di_delivery_id r) = Some r" "di_delivery_state r = ''requester_queued''"
    and "release_expired_claim r now db = (Ok (), db')"
  shows "\<forall>j. find_intent_by_id db' j = (if j = di_delivery_id r then Some (released_row now (di_revision r + 1) r) else find_intent_by_id db j)"
  using assms
  by (auto simp: release_expired_claim_def Let_def atomically_def update_intent_def and_then_Inr_iff find_intent_by_id_def
      dest!: append_event_intents split: sum.splits if_splits)

lemma rearm_wrote:
  assumes "find_intent_by_id db (di_delivery_id r) = Some r" "di_delivery_state r = ''blocked''"
    and "rearm_blocked_intent c now r db = (Ok (), db')"
  shows "\<forall>j. find_intent_by_id db' j = (if j = di_delivery_id r then Some (rearmed_row now (di_revision r + 1) r) else find_intent_by_id db j)"
  using assms
  by (auto simp: rearm_blocked_intent_def Let_def atomically_def update_intent_def and_then_Inr_iff find_intent_by_id_def
      dest!: append_event_intents split: sum.splits if_splits)

lemma select_iff:
  assumes ok: "spine_ok db"
  shows "r \<in> set (select_intents c states db) \<longleftrightarrow>
    find_intent_by_id db (di_delivery_id r) = Some r \<and> requester_matches r c \<and> di_delivery_state r \<in> set states"
proof
  assume "find_intent_by_id db (di_delivery_id r) = Some r \<and> requester_matches r c \<and> di_delivery_state r \<in> set states"
  moreover then have "(di_delivery_id r, r) \<in> set (dd_intents db)" by (auto simp: find_intent_by_id_def dest: map_of_SomeD)
  ultimately show "r \<in> set (select_intents c states db)" by (force simp: select_intents_def)
qed (rule select_row [OF ok])

lemma select_distinct:
  assumes "spine_ok db"
  shows "distinct (map di_delivery_id (select_intents c states db))"
proof -
  have "map (di_delivery_id \<circ> snd) (dd_intents db) = map fst (dd_intents db)"
    using assms by (auto simp: spine_ok_def find_intent_by_id_def map_of_is_SomeI bt_wf_distinct)
  moreover have "distinct (map fst (dd_intents db))" using assms by (simp add: spine_ok_def bt_wf_distinct)
  ultimately have "distinct (map di_delivery_id (map snd (dd_intents db)))" by (simp only: map_map)
  then show ?thesis unfolding select_intents_def by (rule distinct_map_filter)
qed

lemma selected_wrote:
  assumes ok: "spine_ok db" and xs: "xs = filter P (select_intents c states db)" and call: "each_call f xs db = (Ok (), db')"
    and writes: "\<And>x v w. x \<in> set xs \<Longrightarrow> find_intent_by_id v (di_delivery_id x) = Some x \<Longrightarrow> f x v = (Ok (), w) \<Longrightarrow>
      \<forall>j. find_intent_by_id w j = (if j = di_delivery_id x then Some (g x) else find_intent_by_id v j)"
  shows "find_intent_by_id db' j =
    map_option (\<lambda>r. if di_delivery_state r \<in> set states \<and> requester_matches r c \<and> P r then g r else r) (find_intent_by_id db j)"
proof -
  have iff: "r \<in> set xs \<longleftrightarrow> find_intent_by_id db (di_delivery_id r) = Some r \<and> requester_matches r c \<and> di_delivery_state r \<in> set states \<and> P r" for r
    using select_iff [OF ok] xs by auto
  have "distinct (map di_delivery_id xs)" unfolding xs by (rule distinct_map_filter [OF select_distinct [OF ok]])
  from sweep_wrote [OF writes this _ call] iff
  have w: "\<forall>x\<in>set xs. find_intent_by_id db' (di_delivery_id x) = Some (g x)"
    "\<forall>j. j \<notin> di_delivery_id ` set xs \<longrightarrow> find_intent_by_id db' j = find_intent_by_id db j" by blast+
  show ?thesis
  proof (cases "find_intent_by_id db j")
    case (Some r)
    then have j: "di_delivery_id r = j" using ok by (auto simp: spine_ok_def)
    show ?thesis
    proof (cases "r \<in> set xs")
      case True
      then show ?thesis using w(1) iff [of r] Some j by auto
    next
      case False
      then have "j \<notin> di_delivery_id ` set xs" using iff Some by force
      then show ?thesis using w(2) iff [of r] False Some j by auto
    qed
  next
    case None
    then have "j \<notin> di_delivery_id ` set xs" using iff by force
    then show ?thesis using w None by simp
  qed
qed

lemma row_matches [simp]:
  "requester_matches (released_row now n r) c \<longleftrightarrow> requester_matches r c"
  "requester_matches (rearmed_row now n r) c \<longleftrightarrow> requester_matches r c"
  "requester_matches (claimed_row q now t n r) c \<longleftrightarrow> requester_matches r c"
  by (simp_all add: requester_matches_def row_defs)

lemma row_states [simp]:
  "di_delivery_state (released_row now n r) = ''ready''" "di_delivery_state (rearmed_row now n r) = ''ready''"
  by (simp_all add: row_defs)

lemma released_wrote:
  assumes ok: "spine_ok db" and call: "release_expired_claims_for_caller ch c now db = (Ok (), db')"
  shows "find_intent_by_id db' j = map_option (\<lambda>r. if di_delivery_state r = ''requester_queued'' \<and> requester_matches r c \<and> claim_expired ch now r
    then released_row now (di_revision r + 1) r else r) (find_intent_by_id db j)"
  using selected_wrote [OF ok HOL.refl call [unfolded release_expired_claims_for_caller_def], of "\<lambda>r. released_row now (di_revision r + 1) r" j]
    release_wrote select_iff [OF ok] by simp

lemma rearmed_wrote:
  assumes ok: "spine_ok db" and call: "rearm_blocked_intents_for_caller c now db = (Ok (), db')"
  shows "find_intent_by_id db' j = map_option (\<lambda>r. if di_delivery_state r = ''blocked'' \<and> requester_matches r c
    then rearmed_row now (di_revision r + 1) r else r) (find_intent_by_id db j)"
  using selected_wrote [OF ok, of _ "\<lambda>_. True" c "[''blocked'']" "rearm_blocked_intent c now" db' "\<lambda>r. rearmed_row now (di_revision r + 1) r" j]
    call rearm_wrote select_iff [OF ok] by (simp add: rearm_blocked_intents_for_caller_def)

text \<open>\<open>resume_requester_operation\<close> returns exactly the live intents the caller is bound to, as they now
  stand, in the order they were created, each once; no claim among them has expired, and where the caller
  re-arms, none is blocked.\<close>

lemma resume_lists_live:
  assumes "(delivery_step lib)\<^sup>*\<^sup>* empty_spine db" "resume_requester_operation ch now c again db = (Ok rs, db')"
  shows "(\<forall>r. r \<in> set rs \<longleftrightarrow> find_intent_by_id db' (di_delivery_id r) = Some r \<and> requester_matches r c
            \<and> di_delivery_state r \<in> {''ready'', ''requester_queued'', ''blocked'', ''retrying''})
    \<and> distinct (map di_delivery_id rs)
    \<and> sorted (map (\<lambda>r. (di_created_at r, di_delivery_id r)) rs)
    \<and> (\<forall>r\<in>set rs. \<not> (di_delivery_state r = ''requester_queued'' \<and> claim_expired ch now r)
          \<and> \<not> (again \<and> di_delivery_state r = ''blocked''))"
proof -
  have ok: "spine_ok db" using assms(1) spine_ok_empty spine.run_good by blast
  then have ok': "spine_ok db'" using resume_refines [OF ok, of c ch now again] assms(2) by (simp add: refines_def)
  obtain db1 where sweep: "release_expired_claims_for_caller ch c now db = (Ok (), db1)"
    and rearm: "(if again then rearm_blocked_intents_for_caller c now db1 else (Ok (), db1)) = (Ok (), db')"
    using assms(2) by (auto simp: resume_requester_operation_def then_call_def split: sum.splits prod.splits if_splits)
  have ok1: "spine_ok db1" using released_spine [OF ok, of ch c now] sweep by simp
  note rs = resume_selects [OF assms(2)]
  have settled: "\<not> (di_delivery_state r = ''requester_queued'' \<and> claim_expired ch now r) \<and> \<not> (again \<and> di_delivery_state r = ''blocked'')"
    if r: "find_intent_by_id db' i = Some r" "requester_matches r c" for i r
  proof -
    have free: "\<not> (di_delivery_state s = ''requester_queued'' \<and> claim_expired ch now s)"
      if s: "find_intent_by_id db1 i = Some s" "requester_matches s c" for s
    proof -
      have "map_option (\<lambda>r. if di_delivery_state r = ''requester_queued'' \<and> requester_matches r c \<and> claim_expired ch now r
          then released_row now (di_revision r + 1) r else r) (find_intent_by_id db i) = Some s"
        using s(1) released_wrote [OF ok sweep, of i] by metis
      then obtain t where "(if di_delivery_state t = ''requester_queued'' \<and> requester_matches t c \<and> claim_expired ch now t
          then released_row now (di_revision t + 1) t else t) = s" by auto
      then show ?thesis using s(2) by (auto split: if_splits)
    qed
    show ?thesis
    proof (cases again)
      case True
      then have "map_option (\<lambda>r. if di_delivery_state r = ''blocked'' \<and> requester_matches r c
          then rearmed_row now (di_revision r + 1) r else r) (find_intent_by_id db1 i) = Some r"
        using r(1) rearmed_wrote [OF ok1, of c now db' i] rearm by metis
      then obtain s where "find_intent_by_id db1 i = Some s"
        "(if di_delivery_state s = ''blocked'' \<and> requester_matches s c then rearmed_row now (di_revision s + 1) s else s) = r" by auto
      then show ?thesis using free r(2) by (auto split: if_splits)
    next
      case False
      then show ?thesis using free r rearm by simp
    qed
  qed
  have "distinct (map di_delivery_id rs)"
    using select_distinct [OF ok'] unfolding rs by (simp add: distinct_map)
  moreover have "sorted (map (\<lambda>r. (di_created_at r, di_delivery_id r)) rs)" unfolding rs by (rule sorted_sort_key)
  moreover have members: "r \<in> set rs \<longleftrightarrow> find_intent_by_id db' (di_delivery_id r) = Some r \<and> requester_matches r c
      \<and> di_delivery_state r \<in> {''ready'', ''requester_queued'', ''blocked'', ''retrying''}" for r
    using select_iff [OF ok'] unfolding rs by simp
  moreover have "\<not> (di_delivery_state r = ''requester_queued'' \<and> claim_expired ch now r) \<and> \<not> (again \<and> di_delivery_state r = ''blocked'')"
    if "r \<in> set rs" for r
    using that members settled by blast
  ultimately show ?thesis by blast
qed

section \<open>A lost acknowledgement\<close>

definition releasable :: "string \<Rightarrow> delivery_db \<Rightarrow> delivery_intent \<Rightarrow> bool" where
  "releasable now db r \<longleftrightarrow> find_intent_by_id db (di_delivery_id r) = Some r \<and> di_delivery_state r = ''requester_queued''
     \<and> intent_check r \<and> plain_id (di_delivery_id r) \<and> di_revision r < 2 ^ 63 - 1 \<and> instant_check now
     \<and> (\<forall>e\<in>set (dd_events db). ve_delivery_id e = di_delivery_id r \<longrightarrow>
          ve_event_id e \<noteq> ''claim_expired:'' @ di_delivery_id r @ '':'' @ show_i64 (di_revision r + 1))"

lemma released_check: "intent_check r \<Longrightarrow> di_delivery_state r = ''requester_queued'' \<Longrightarrow> 0 \<le> n \<Longrightarrow> 1 \<le> n \<Longrightarrow> intent_check (released_row now n r)"
  by (simp add: intent_check_def released_row_def delivery_state_parse_def or_null_def split: if_splits)

lemma append_succeeds:
  assumes "text_check 256 event_id" "1 \<le> expected" "d \<noteq> []" "length d \<le> 1000" "NUL \<notin> set d" "0 < sql_length d"
    and "0 < sql_length (sql_trim actor)" "instant_check now"
    and "\<forall>e\<in>set (dd_events db). ve_event_id e = event_id \<longrightarrow> ve_delivery_id e \<noteq> i \<and> kind \<notin> {ClaimedEvent, DeliveredEvent}"
  shows "\<exists>e. append_event i event_id kind (Some expected) (Some d) None actor now db = Ok (db\<lparr> dd_events := dd_events db @ [e] \<rparr>)
    \<and> ve_delivery_id e = i \<and> ve_event_id e = event_id"
proof -
  let ?e = "\<lparr> ve_delivery_id = i, ve_event_id = event_id, ve_kind = delivery_event_kind_as_str kind, ve_expected_revision = Some expected,
     ve_detail = Some d, ve_payload_digest = None, ve_actor = actor, ve_occurred_at = now, ve_recorded_at = now \<rparr>"
  have "sql_length d \<le> 1000" using assms(4) sql_length_le [of d] by simp
  moreover have "\<not> list_ex (\<lambda>v. ve_delivery_id v = i \<and> ve_event_id v = event_id) (dd_events db)"
    using assms(9) by (auto simp: list_ex_iff)
  moreover have "\<not> (kind \<in> {ClaimedEvent, DeliveredEvent} \<and> list_ex (\<lambda>v. ve_event_id v = event_id \<and> ve_kind v = k) (dd_events db))" for k
    using assms(9) by (auto simp: list_ex_iff)
  ultimately have "append_event i event_id kind (Some expected) (Some d) None actor now db = Ok (db\<lparr> dd_events := dd_events db @ [?e] \<rparr>)"
    using assms(1-8) by (simp add: append_event_def validate_detail_def event_check_def or_null_def Let_def)
  then show ?thesis by (intro exI [of _ ?e]) simp
qed

lemma release_succeeds:
  assumes "releasable now db r"
  shows "\<exists>e. release_expired_claim r now db = (Ok (), db\<lparr> dd_intents := update_row (di_delivery_id r) (released_row now (di_revision r + 1)) (dd_intents db),
      dd_events := dd_events db @ [e] \<rparr>) \<and> ve_delivery_id e = di_delivery_id r \<and> (\<exists>t. ve_event_id e = ''claim_expired:'' @ t)"
proof -
  let ?id = "''claim_expired:'' @ di_delivery_id r @ '':'' @ show_i64 (di_revision r + 1)"
  let ?db = "db\<lparr> dd_intents := update_row (di_delivery_id r) (released_row now (di_revision r + 1)) (dd_intents db) \<rparr>"
  let ?d = "''claim expired without acknowledgement; the same intent is re-claimable''"
  have rev: "1 \<le> di_revision r" using assms by (simp add: releasable_def intent_check_def)
  have "text_check 256 ?id"
    using assms rev by (intro release_id_check) (simp_all add: releasable_def)
  moreover have check: "intent_check (released_row now (di_revision r + 1) r)"
    using assms rev by (intro released_check) (simp_all add: releasable_def)
  moreover have "0 < sql_length (sql_trim ''tachi'')" by (simp add: sql_length_def sql_trim_def NUL_def)
  moreover have "0 < sql_length ?d \<and> sql_length ?d \<le> 1000 \<and> NUL \<notin> set ?d \<and> length ?d \<le> 1000"
    by (simp add: sql_length_def NUL_def)
  ultimately obtain e where "append_event (di_delivery_id r) ?id ClaimExpired (Some (di_revision r)) (Some ?d) None ''tachi'' now ?db
      = Ok (?db\<lparr> dd_events := dd_events ?db @ [e] \<rparr>)" "ve_delivery_id e = di_delivery_id r" "ve_event_id e = ?id"
    using append_succeeds [of ?id "di_revision r" ?d "''tachi''" now ?db "di_delivery_id r" ClaimExpired] assms rev
    by (fastforce simp: releasable_def)
  then show ?thesis
    using assms check by (auto simp: release_expired_claim_def Let_def atomically_def update_intent_def releasable_def)
qed

lemma releasable_after:
  assumes "releasable now db s" "di_delivery_id s \<noteq> di_delivery_id r" "ve_delivery_id e = di_delivery_id r"
  shows "releasable now (db\<lparr> dd_intents := update_row (di_delivery_id r) f (dd_intents db), dd_events := dd_events db @ [e] \<rparr>) s"
  using assms by (auto simp: releasable_def find_intent_by_id_def)

lemma sweep_succeeds:
  assumes "\<And>r. r \<in> set rs \<Longrightarrow> releasable now db r" "distinct (map di_delivery_id rs)"
  shows "\<exists>db' es. each_call (\<lambda>r. release_expired_claim r now) rs db = (Ok (), db')
    \<and> dd_events db' = dd_events db @ es \<and> (\<forall>e\<in>set es. \<exists>t. ve_event_id e = ''claim_expired:'' @ t)"
  using assms
proof (induction rs arbitrary: db)
  case (Cons r rs)
  let ?db = "\<lambda>e. db\<lparr> dd_intents := update_row (di_delivery_id r) (released_row now (di_revision r + 1)) (dd_intents db),
      dd_events := dd_events db @ [e] \<rparr>"
  have "releasable now db r" by (rule Cons.prems(1)) simp
  then obtain e t where e: "release_expired_claim r now db = (Ok (), ?db e)" "ve_delivery_id e = di_delivery_id r"
    "ve_event_id e = ''claim_expired:'' @ t"
    using release_succeeds by metis
  have "releasable now (?db e) s" if "s \<in> set rs" for s
  proof (rule releasable_after [OF _ _ e(2)])
    show "releasable now db s" by (rule Cons.prems(1)) (simp add: that)
    show "di_delivery_id s \<noteq> di_delivery_id r" using Cons.prems(2) that by (auto simp: rev_image_eqI)
  qed
  moreover have "distinct (map di_delivery_id rs)" using Cons.prems(2) by simp
  ultimately obtain db' es where "each_call (\<lambda>r. release_expired_claim r now) rs (?db e) = (Ok (), db')"
    "dd_events db' = dd_events (?db e) @ es" "\<forall>e\<in>set es. \<exists>t. ve_event_id e = ''claim_expired:'' @ t"
    using Cons.IH by blast
  then show ?case using e by (intro exI [of _ db'] exI [of _ "e # es"]) (simp add: then_call_def)
qed simp

lemma claim_succeeds:
  assumes r: "find_intent_by_id db (di_delivery_id r) = Some r" "intent_check r" "di_delivery_state r = ''ready''"
    and host: "text_check 128 (ca_host_identity (cq_caller q))" "bounded_text 128 (ca_host_identity (cq_caller q))"
    and key: "text_check 128 (cq_claim_key q)" "bounded_text 128 (cq_claim_key q)" "\<forall>e\<in>set (dd_events db). ve_event_id e \<noteq> ''claim:'' @ cq_claim_key q"
    and clock: "instant_check now" "instant_check expires"
  shows "\<exists>db'. transition_to_claimed r q now expires db = (Ok (Claimed (from_intent (claimed_row q now expires (di_revision r + 1) r))), db')
    \<and> find_intent_by_id db' (di_delivery_id r) = Some (claimed_row q now expires (di_revision r + 1) r)"
proof -
  let ?db = "db\<lparr> dd_intents := update_row (di_delivery_id r) (claimed_row q now expires (di_revision r + 1)) (dd_intents db) \<rparr>"
  let ?r = "claimed_row q now expires (di_revision r + 1) r" and ?host = "ca_host_identity (cq_caller q)"
  have check: "intent_check ?r"
    using r host key clock by (simp add: intent_check_def claimed_row_def delivery_state_parse_def or_null_def)
  have "text_check 256 (CHR ''c'' # (''laim:'' @ cq_claim_key q))"
    by (rule text_check_Cons) (use key in \<open>auto simp: text_check_def bounded_text_def NUL_def\<close>)
  then have id: "text_check 256 (''claim:'' @ cq_claim_key q)" by simp
  have detail: "length (''claimed by '' @ ?host) \<le> 1000" "NUL \<notin> set (''claimed by '' @ ?host)" "0 < sql_length (''claimed by '' @ ?host)"
    using host by (auto simp: text_check_def bounded_text_def sql_length_def NUL_def)
  have "1 \<le> di_revision r" "0 < sql_length (sql_trim ?host)" using r(2) host(1) by (auto simp: intent_check_def text_check_def)
  then obtain e where "append_event (di_delivery_id r) (''claim:'' @ cq_claim_key q) ClaimedEvent (Some (di_revision r))
      (Some (''claimed by '' @ ?host)) None ?host now ?db = Ok (?db\<lparr> dd_events := dd_events ?db @ [e] \<rparr>)"
    using append_succeeds [of "''claim:'' @ cq_claim_key q" "di_revision r" "''claimed by '' @ ?host" ?host now ?db "di_delivery_id r" ClaimedEvent]
      id detail key clock by fastforce
  then show ?thesis
    using check r
    by (simp add: transition_to_claimed_def Let_def then_call_def atomically_def update_intent_def key_conflict_def
        find_or_internal_def find_intent_by_id_def)
qed

lemma reached_releasable:
  assumes reach: "(delivery_step lib)\<^sup>*\<^sup>* empty_spine db" and now: "instant_check now"
    and r: "find_intent_by_id db i = Some r" "di_delivery_state r = ''requester_queued''" "di_revision r < 2 ^ 63 - 1"
  shows "releasable now db r"
proof -
  have "spine_ok db" using reach spine_ok_empty spine.run_good by blast
  then have i: "di_delivery_id r = i" "plain_id i" "intent_check r" using r(1) by (auto simp: spine_ok_def)
  obtain v where v: "view_of db i = Some v" "fst v = r" using r(1) by (auto simp: view_of_def)
  have behind: "release_ids_behind v"
    using view_invariant [OF reach v(1)] release_ids_born release_ids_moves by blast
  have "ve_event_id e \<noteq> ''claim_expired:'' @ i @ '':'' @ show_i64 (di_revision r + 1)"
    if "e \<in> set (dd_events db)" "ve_delivery_id e = i" for e
  proof
    assume id: "ve_event_id e = ''claim_expired:'' @ i @ '':'' @ show_i64 (di_revision r + 1)"
    have "stamp e \<in> set (snd v)" using that v(1) by (auto simp: view_of_Some)
    moreover have "1 \<le> di_revision r" using i(3) by (simp add: intent_check_def)
    ultimately have "di_revision r + 1 \<le> di_revision r"
      using release_ids_behindD [OF behind, of "stamp e" "di_revision r + 1"] v(2) i(1) id by (simp add: stamp_def del: append_Cons)
    then show False by simp
  qed
  then show ?thesis using r i now by (simp add: releasable_def)
qed

text \<open>C35: A lost acknowledgement is recovered: once the claim of an intent has expired, its requester can
  claim the same intent again under a fresh key, as its next attempt, whatever else is in the tables.\<close>

theorem lost_ack_recovered:
  assumes reach: "(delivery_step lib)\<^sup>*\<^sup>* empty_spine db"
    and r: "find_intent_by_id db i = Some r" "di_delivery_state r = ''requester_queued''" "claim_expired lib now r"
    and caller: "validate_caller (cq_caller q) = Ok ()" "requester_matches r (cq_caller q)"
      "text_check 128 (ca_host_identity (cq_caller q))"
    and request: "cq_only_delivery_id q = Some i" "bounded_text 128 (cq_claim_key q)" "text_check 128 (cq_claim_key q)"
    and fresh: "\<forall>e\<in>set (dd_events db). ve_event_id e \<noteq> ''claim:'' @ cq_claim_key q"
    and clock: "instant_check now" "instant_check expires"
      "lease_expiration lib now (if 0 < cq_lease_seconds q then cq_lease_seconds q else DEFAULT_CLAIM_LEASE_SECONDS) = Ok expires"
    and room: "\<forall>(j, s)\<in>set (dd_intents db). di_revision s < 2 ^ 63 - 1"
  shows "\<exists>v db'. claim_ready_delivery lib now q db = (Ok (Claimed v), db') \<and> vw_delivery_id v = i
    \<and> vw_attempt_count v = di_attempt_count r + 1 \<and> vw_result_ref v = di_result_ref r
    \<and> map_option di_claimed_by (find_intent_by_id db' i) = Some (Some (ca_host_identity (cq_caller q)))"
proof -
  have ok: "spine_ok db" using reach spine_ok_empty spine.run_good by blast
  let ?c = "cq_caller q"
  let ?xs = "filter (claim_expired lib now) (select_intents ?c [''requester_queued''] db)"
  let ?r = "released_row now (di_revision r + 1) r"
  have "releasable now db s" if "s \<in> set ?xs" for s
  proof -
    have "find_intent_by_id db (di_delivery_id s) = Some s" "di_delivery_state s = ''requester_queued''"
      using that select_iff [OF ok] by auto
    moreover then have "di_revision s < 2 ^ 63 - 1" using room by (auto simp: find_intent_by_id_def dest!: map_of_SomeD)
    ultimately show ?thesis by (intro reached_releasable [OF reach clock(1)])
  qed
  then obtain db1 es where sweep: "release_expired_claims_for_caller lib ?c now db = (Ok (), db1)"
    "dd_events db1 = dd_events db @ es" "\<forall>e\<in>set es. \<exists>t. ve_event_id e = ''claim_expired:'' @ t"
    using sweep_succeeds [OF _ distinct_map_filter [OF select_distinct [OF ok]]] unfolding release_expired_claims_for_caller_def by metis
  have i: "di_delivery_id r = i" "intent_check r" using ok r(1) by (auto simp: spine_ok_def)
  have found: "find_intent_by_id db1 i = Some ?r"
    using released_wrote [OF ok sweep(1), of i] r caller(2) by simp
  have ok1: "spine_ok db1" using released_spine [OF ok, of lib ?c now] sweep(1) by simp
  have "\<forall>e\<in>set (dd_events db1). ve_event_id e \<noteq> ''claim:'' @ cq_claim_key q" using fresh sweep(2,3) by auto
  moreover have "di_delivery_id ?r = i" "intent_check ?r" "find_intent_by_id db1 (di_delivery_id ?r) = Some ?r"
    using found i ok1 by (auto simp: spine_ok_def)
  moreover have "bounded_text 128 (ca_host_identity ?c)" using caller(1) by (simp add: validate_caller_def split: if_splits)
  ultimately obtain db2 where claim: "transition_to_claimed ?r q now expires db1
      = (Ok (Claimed (from_intent (claimed_row q now expires (di_revision ?r + 1) ?r))), db2)"
    "find_intent_by_id db2 i = Some (claimed_row q now expires (di_revision ?r + 1) ?r)"
    using claim_succeeds [of db1 ?r q now expires] caller(3) request(2,3) clock(1,2) by auto
  have "claim_selected lib now q expires db1 = transition_to_claimed ?r q now expires db1"
    using found request(1) caller(2) by (simp add: claim_selected_def claimable_state_def)
  moreover have "claim_prelude lib now q db = Ok (expires, None)"
  proof -
    have "find (\<lambda>e. ve_event_id e = ''claim:'' @ cq_claim_key q) (dd_events db) = None"
      using fresh by (simp add: find_None_iff)
    then show ?thesis using caller(1) request(2) clock(3)
      by (simp add: claim_prelude_def resolve_claim_key_replay_def del: append_Cons)
  qed
  ultimately have "claim_ready_delivery lib now q db
      = (Ok (Claimed (from_intent (claimed_row q now expires (di_revision ?r + 1) ?r))), db2)"
    using sweep(1) claim(1) by (simp add: claim_ready_delivery_def then_call_def)
  then show ?thesis using claim(2) i by (simp add: from_intent_def row_defs)
qed

section \<open>Where the code and its comments part\<close>

text \<open>A correction keeps the visibility and the binding of the intent it corrects, whatever its own are.\<close>

lemma correction_keeps_binding:
  assumes "spine_ok db" "find_intent_by_key db (nw_idempotency_key n) = Some r" "mint_delivery_intent lib now n db = (Ok s, db')"
  shows "di_visibility_class s = di_visibility_class r \<and> (requester_matches s c \<longleftrightarrow> requester_matches r c)"
  using assms(1,3) by (cases rule: mint_answers) (use assms(2) in \<open>auto simp: row_defs requester_matches_def\<close>)

text \<open>A replayed claim key is answered with the original receipt also after its lease has expired.\<close>

lemma replay_ignores_expiry:
  assumes "find (\<lambda>e. ve_event_id e = ''claim:'' @ cq_claim_key q) (dd_events db) = Some e" "find_intent_by_id db (ve_delivery_id e) = Some r"
    and "requester_matches r (cq_caller q)" "cq_only_delivery_id q = None"
    and "di_active_claim_key r = Some (cq_claim_key q)" "di_delivery_state r = ''requester_queued''"
    and "claim_prelude lib now q db = Ok (expires, replayed)"
  shows "claim_ready_delivery lib now q db = (Ok (ReplayedClaim (from_intent r)), db)"
  using assms by (auto simp: claim_ready_delivery_def claim_prelude_def and_then_Inr_iff resolve_claim_key_replay_def simp del: append_Cons)

text \<open>The expiry of the intent itself gates nothing.\<close>

lemma intent_expiry_unread: "claimable_state ch (r\<lparr> di_expires_at := x \<rparr>) now \<longleftrightarrow> claimable_state ch r now"
  by (simp add: claimable_state_def)

text \<open>An acknowledgement key used once on an intent answers \<open>AlreadyDelivered\<close> also after a correction re-armed it.\<close>

lemma reused_ack_key_answers_delivered:
  assumes "find_intent_by_id db i = Some r" "requester_matches r c" "di_delivery_state r = ''requester_queued''"
    and "di_claimed_by r = Some (ca_host_identity c)" "validate_caller c = Ok u" "bounded_text 128 k"
    and "e \<in> set (dd_events db)" "ve_delivery_id e = i" "ve_event_id e = ''ack:'' @ k"
  shows "ack_delivered now i c k None db = (Ok AlreadyDelivered, db)"
proof -
  have "list_ex (\<lambda>e. ve_delivery_id e = i \<and> ve_event_id e = ''ack:'' @ k) (dd_events db)"
    using assms(7-9) by (auto simp: list_ex_iff)
  then show ?thesis using assms(1-6) by (simp add: ack_delivered_def expects_def del: append_Cons)
qed

text \<open>A dismissal tells a caller outside the binding whether the intent exists.\<close>

lemma dismiss_reveals_existence:
  assumes "validate_caller c = Ok u"
  shows "find_intent_by_id db i = None \<Longrightarrow> dismiss_delivery now i c expected db = (Err NotFound, db)"
    and "find_intent_by_id db i = Some r \<Longrightarrow> \<not> requester_matches r c \<Longrightarrow>
      dismiss_delivery now i c expected db = (Err DeliveryIncompatibleState, db)"
  using assms by (simp_all add: dismiss_delivery_def)

text \<open>So does a claim pinned to an intent: one that exists has nothing ready for a caller outside its binding, a
  missing one is not found.\<close>

lemma pinned_claim_reveals_existence:
  assumes "cq_only_delivery_id q = Some i"
  shows "find_intent_by_id db i = None \<Longrightarrow> claim_selected ch now q expires db = (Err NotFound, db)"
    and "find_intent_by_id db i = Some r \<Longrightarrow> \<not> requester_matches r (cq_caller q) \<Longrightarrow>
      claim_selected ch now q expires db = (Ok NoneReady, db)"
  using assms by (simp_all add: claim_selected_def)

text \<open>A pinned claim under a foreign key is a conflict, which names the foreign intent, before the binding is looked at.\<close>

lemma pinned_claim_reveals_foreign_key:
  assumes "find (\<lambda>e. ve_event_id e = ''claim:'' @ cq_claim_key q) (dd_events db) = Some e"
    and "cq_only_delivery_id q = Some i" "i \<noteq> ve_delivery_id e"
  shows "resolve_claim_key_replay db q = Err DeliveryIdempotencyConflict"
  using assms by (simp add: resolve_claim_key_replay_def del: append_Cons)

text \<open>At the last result revision a correction of lower revision takes the result revision back.\<close>

lemma last_revision_regresses:
  "di_result_revision r = 2 ^ 63 - 1 \<Longrightarrow> 1 \<le> nw_result_revision n \<Longrightarrow> max (nw_result_revision n) (i64_succ (di_result_revision r)) = nw_result_revision n"
  by (simp add: i64_succ_def)

end
