(* ===== verification/Delivery_Examples.thy ===== *)
theory Delivery_Examples
  imports Delivery_Recovery
begin

text \<open>
  The promises of the spine at work, on one private intent of a requester \<open>ann\<close>: minted,
  claimed, then delivered, or blocked by an ambiguous send and re-armed, or left to expire.
\<close>

definition demo_spine_lib :: delivery_lib where
  "demo_spine_lib = \<lparr> parse_from_rfc3339 = (\<lambda>s. Some (int (length s))), MIN_UTC = 0,
     to_rfc3339_micros = (\<lambda>t. replicate (nat t) CHR ''t''), checked_add_seconds = (\<lambda>t s. Some (t + s)),
     digest_bytes = (\<lambda>s. [255, 0]) \<rparr>"

definition demo_result :: new_delivery_intent where
  "demo_result = \<lparr> nw_idempotency_key = ''job'', nw_execution_source = ManagedDispatch, nw_execution_ref = ''exec'',
     nw_terminal_receipt_revision = 0, nw_work_claim_id = None, nw_result_ref = ''ref'', nw_result_revision = 1,
     nw_payload_digest = ''d1'', nw_visibility_class = Private, nw_delivery_policy = SilentArtifactOnly,
     nw_protocol_capability = ''cap'',
     nw_requester = \<lparr> rq_agent_identity_id = Some ''ann'', rq_host_identity = None, rq_session_ref = None \<rparr>,
     nw_expires_at = None, nw_correction = False \<rparr>"

definition ann :: delivery_caller where "ann = \<lparr> ca_agent_identity_id = ''ann'', ca_host_identity = ''host'' \<rparr>"
definition bob :: delivery_caller where "bob = \<lparr> ca_agent_identity_id = ''bob'', ca_host_identity = ''host'' \<rparr>"

definition demo_claim :: "delivery_caller \<Rightarrow> string \<Rightarrow> string option \<Rightarrow> delivery_claim_request" where
  "demo_claim c k only = \<lparr> cq_caller = c, cq_claim_key = k, cq_lease_seconds = 2, cq_only_delivery_id = only \<rparr>"

definition spine_minted :: delivery_db where
  "spine_minted = snd (mint_delivery_intent demo_spine_lib ''a'' demo_result empty_spine)"
definition spine_claimed :: delivery_db where
  "spine_claimed = snd (claim_ready_delivery demo_spine_lib ''aa'' (demo_claim ann ''k1'' None) spine_minted)"
definition spine_delivered :: delivery_db where
  "spine_delivered = snd (ack_delivered ''aaa'' ''di-ff00'' ann ''k2'' None spine_claimed)"
definition spine_blocked :: delivery_db where
  "spine_blocked = snd (reject_or_block demo_spine_lib ''aaa'' ''di-ff00'' ann AMBIGUOUS_SEND_OUTCOME None None None spine_claimed)"

lemma demo_runs:
  "(delivery_step demo_spine_lib)\<^sup>*\<^sup>* empty_spine spine_minted"
  "(delivery_step demo_spine_lib)\<^sup>*\<^sup>* empty_spine spine_claimed"
  "(delivery_step demo_spine_lib)\<^sup>*\<^sup>* empty_spine spine_delivered"
  "(delivery_step demo_spine_lib)\<^sup>*\<^sup>* empty_spine spine_blocked"
proof -
  show m: "(delivery_step demo_spine_lib)\<^sup>*\<^sup>* empty_spine spine_minted"
    unfolding spine_minted_def by (rule r_into_rtranclp) (rule delivery_step.mints [OF prod.collapse [symmetric]])
  show c: "(delivery_step demo_spine_lib)\<^sup>*\<^sup>* empty_spine spine_claimed"
    by (rule rtranclp.rtrancl_into_rtrancl [OF m], unfold spine_claimed_def)
       (rule delivery_step.seam, rule seam_step.claims [where c = ann, OF _ prod.collapse [symmetric]], simp add: demo_claim_def)
  show "(delivery_step demo_spine_lib)\<^sup>*\<^sup>* empty_spine spine_delivered"
    by (rule rtranclp.rtrancl_into_rtrancl [OF c], unfold spine_delivered_def)
       (rule delivery_step.seam, rule seam_step.acks [OF prod.collapse [symmetric]])
  show "(delivery_step demo_spine_lib)\<^sup>*\<^sup>* empty_spine spine_blocked"
    by (rule rtranclp.rtrancl_into_rtrancl [OF c], unfold spine_blocked_def)
       (rule delivery_step.seam, rule seam_step.rejects [OF prod.collapse [symmetric]])
qed

definition seen :: "delivery_db \<Rightarrow> (string \<times> int \<times> int \<times> string list) option" where
  "seen db = map_option (\<lambda>(r, ks). (di_delivery_state r, di_attempt_count r, di_result_revision r, map fst ks)) (view_of db ''di-ff00'')"

lemma demo_minted: "seen spine_minted = Some (''ready'', 0, 1, [''intent_created'', ''result_ready''])"
  by code_simp

lemma demo_claimed: "seen spine_claimed = Some (''requester_queued'', 1, 1, [''intent_created'', ''result_ready'', ''claimed''])"
  by code_simp

lemma demo_delivered: "seen spine_delivered = Some (''delivered'', 1, 1, [''intent_created'', ''result_ready'', ''claimed'', ''delivered''])"
  by code_simp


lemma seen_Some: "seen db = Some (st, n, k, kinds) \<longleftrightarrow> (\<exists>r ks. view_of db ''di-ff00'' = Some (r, ks)
    \<and> st = di_delivery_state r \<and> n = di_attempt_count r \<and> k = di_result_revision r \<and> kinds = map fst ks)"
  by (auto simp: seen_def)

theorem delivery_runs_refine_witness:
  "\<exists>p q w. ph_state q = ''requester_queued'' \<and> ph_state w = ''delivered'' \<and> ph_attempts w = 1
    \<and> map fst (ph_log w) = [''intent_created'', ''result_ready'', ''claimed'', ''delivered'']
    \<and> new_phase p \<and> frozen\<^sup>*\<^sup>* p q \<and> frozen\<^sup>*\<^sup>* q w"
proof -
  obtain r ks where q: "view_of spine_claimed ''di-ff00'' = Some (r, ks)" "di_delivery_state r = ''requester_queued''"
    using demo_claimed unfolding seen_Some by metis
  obtain r' ks' where w: "view_of spine_delivered ''di-ff00'' = Some (r', ks')" "di_delivery_state r' = ''delivered''"
    "di_attempt_count r' = 1" "map fst ks' = [''intent_created'', ''result_ready'', ''claimed'', ''delivered'']"
    using demo_delivered unfolding seen_Some by metis
  have "(delivery_step demo_spine_lib)\<^sup>*\<^sup>* spine_claimed spine_delivered"
    unfolding spine_delivered_def
    by (rule r_into_rtranclp, rule delivery_step.seam, rule seam_step.acks [OF prod.collapse [symmetric]])
  from delivery_runs_refine [OF demo_runs(2) this q(1)] obtain p where
    "new_phase p" "frozen\<^sup>*\<^sup>* p (phase_of (r, ks))" "frozen\<^sup>*\<^sup>* (phase_of (r, ks)) (phase_of (r', ks'))"
    using w(1) by auto
  then show ?thesis using q(2) w(2-4) by (intro exI [of _ p] exI [of _ "phase_of (r, ks)"] exI [of _ "phase_of (r', ks')"]) simp
qed

theorem delivered_once_per_result_witness:
  "\<exists>r ks. view_of spine_delivered ''di-ff00'' = Some (r, ks) \<and> di_attempt_count r = int (events_of_kind ''claimed'' ks)
    \<and> events_of_kind ''delivered'' ks \<le> events_of_kind ''result_superseded'' ks + 1"
proof -
  obtain r ks where v: "view_of spine_delivered ''di-ff00'' = Some (r, ks)" "di_delivery_state r = ''delivered''"
    using demo_delivered unfolding seen_Some by metis
  then show ?thesis using delivered_once_per_result [OF demo_runs(3) v(1)] by auto
qed



theorem binding_keeps_out_witness:
  "let q = demo_claim bob ''k3'' None; call = claim_ready_delivery demo_spine_lib ''aa'' q spine_minted in
     view_of (snd call) ''di-ff00'' = view_of spine_minted ''di-ff00'' \<and> ''di-ff00'' \<notin> set (claim_shows (fst call))
   \<and> fst (ack_delivered ''aa'' ''di-ff00'' bob ''k4'' None spine_minted) = Err NotFound
   \<and> fst (reject_or_block demo_spine_lib ''aa'' ''di-ff00'' bob TRANSPORT_FAILURE None None None spine_minted) = Err NotFound
   \<and> fst (dismiss_delivery ''aa'' ''di-ff00'' bob None spine_minted) = Err DeliveryIncompatibleState"
proof -
  have "map_option (\<lambda>r. requester_matches r bob) (find_intent_by_id spine_minted ''di-ff00'') = Some False" by code_simp
  then obtain r where r: "find_intent_by_id spine_minted ''di-ff00'' = Some r" "\<not> requester_matches r bob" by auto
  have missing: "fst (ack_delivered ''aa'' ''di-ff00'' bob ''k4'' None empty_spine) = Err NotFound"
    "fst (reject_or_block demo_spine_lib ''aa'' ''di-ff00'' bob TRANSPORT_FAILURE None None None empty_spine) = Err NotFound"
    "validate_caller bob = Ok ()" by code_simp+
  have step: "seam_step demo_spine_lib bob spine_minted
      (claim_shows (fst (claim_ready_delivery demo_spine_lib ''aa'' (demo_claim bob ''k3'' None) spine_minted)))
      (snd (claim_ready_delivery demo_spine_lib ''aa'' (demo_claim bob ''k3'' None) spine_minted))"
    by (rule seam_step.claims [OF _ prod.collapse [symmetric]]) (simp add: demo_claim_def)
  show ?thesis
    using binding_keeps_out [OF demo_runs(1) step r, of "''aa''" "''k4''" None TRANSPORT_FAILURE None None] missing
    by (simp add: Let_def)
qed

theorem mint_idempotent_witness:
  "\<exists>s. mint_delivery_intent demo_spine_lib ''a'' demo_result empty_spine = (Ok s, spine_minted)
    \<and> mint_delivery_intent demo_spine_lib ''later'' demo_result spine_minted = (Ok s, spine_minted)"
proof -
  have "\<not> isl (fst (mint_delivery_intent demo_spine_lib ''a'' demo_result empty_spine))" by code_simp
  then obtain s where s: "mint_delivery_intent demo_spine_lib ''a'' demo_result empty_spine = (Ok s, spine_minted)"
    unfolding spine_minted_def by (metis prod.collapse sum.collapse(2))
  then show ?thesis using mint_idempotent [OF _ s] by blast
qed

theorem refused_writes_nothing_witness:
  "all_or_nothing (dismiss_delivery ''aaaa'' ''di-ff00'' ann None) spine_delivered"
  using refused_writes_nothing [OF demo_runs(3)] by blast

theorem results_only_advance_witness:
  "\<exists>r r1 r2. find_intent_by_id spine_claimed ''di-ff00'' = Some r
    \<and> find_intent_by_id spine_delivered ''di-ff00'' = Some r1 \<and> content r1 = content r
    \<and> find_intent_by_id (snd (mint_delivery_intent demo_spine_lib ''aaaa'' (demo_result\<lparr> nw_result_ref := ''better'', nw_correction := True \<rparr>) spine_claimed)) ''di-ff00'' = Some r2
    \<and> di_result_ref r2 = ''better'' \<and> di_result_revision r < di_result_revision r2 \<and> di_delivery_state r2 = ''ready''"
proof -
  let ?n = "demo_result\<lparr> nw_result_ref := ''better'', nw_correction := True \<rparr>"
  have "map_option (\<lambda>r. (di_result_ref r, di_result_revision r)) (find_intent_by_id spine_claimed ''di-ff00'') = Some (''ref'', 1)" by code_simp
  then obtain r where r: "find_intent_by_id spine_claimed ''di-ff00'' = Some r" "di_result_ref r = ''ref''" "di_result_revision r = 1" by auto
  have room: "di_result_revision r < 2 ^ 63 - 1" using r(3) by simp
  have ack: "seam_step demo_spine_lib ann spine_claimed
      (shows_of (\<lambda>_. [''di-ff00'']) (fst (ack_delivered ''aaa'' ''di-ff00'' ann ''k2'' None spine_claimed))) spine_delivered"
    unfolding spine_delivered_def by (rule seam_step.acks [OF prod.collapse [symmetric]])
  have better: "map_option di_result_ref (find_intent_by_id (snd (mint_delivery_intent demo_spine_lib ''aaaa'' ?n spine_claimed)) ''di-ff00'') = Some ''better''"
    by code_simp
  note law = results_only_advance [OF demo_runs(2) r(1) room]
  obtain r1 where r1: "find_intent_by_id spine_delivered ''di-ff00'' = Some r1" "content r1 = content r" using law ack by blast
  define db2 where "db2 = snd (mint_delivery_intent demo_spine_lib ''aaaa'' ?n spine_claimed)"
  have "mint_delivery_intent demo_spine_lib ''aaaa'' ?n spine_claimed = (fst (mint_delivery_intent demo_spine_lib ''aaaa'' ?n spine_claimed), db2)"
    by (simp add: db2_def)
  with law obtain r2 where r2: "find_intent_by_id db2 ''di-ff00'' = Some r2"
    "r2 = r \<or> di_result_revision r < di_result_revision r2 \<and> di_delivery_state r2 = ''ready''" by blast
  then have "di_result_ref r2 = ''better''" using better unfolding db2_def by simp
  then show ?thesis using r r1 r2 unfolding db2_def by (intro exI [of _ r] exI [of _ r1] exI [of _ r2]) auto
qed

theorem resume_lists_live_witness:
  "\<exists>rs db'. resume_requester_operation demo_spine_lib ''aaaa'' ann True spine_blocked = (Ok rs, db')
    \<and> distinct (map di_delivery_id rs) \<and> sorted (map (\<lambda>r. (di_created_at r, di_delivery_id r)) rs)"
proof -
  have "\<not> isl (fst (resume_requester_operation demo_spine_lib ''aaaa'' ann True spine_blocked))" by code_simp
  then obtain rs db' where "resume_requester_operation demo_spine_lib ''aaaa'' ann True spine_blocked = (Ok rs, db')"
    by (metis prod.collapse sum.collapse(2))
  then show ?thesis using resume_lists_live [OF demo_runs(4)] by blast
qed

theorem lost_ack_recovered_witness:
  "\<exists>v db'. claim_ready_delivery demo_spine_lib ''aaaaaa'' (demo_claim ann ''k4'' (Some ''di-ff00'')) spine_claimed = (Ok (Claimed v), db')
    \<and> vw_delivery_id v = ''di-ff00'' \<and> vw_attempt_count v = 2"
proof -
  let ?q = "demo_claim ann ''k4'' (Some ''di-ff00'')"
  have "map_option (\<lambda>r. (di_delivery_state r = ''requester_queued'', claim_expired demo_spine_lib ''aaaaaa'' r, requester_matches r ann, di_attempt_count r))
      (find_intent_by_id spine_claimed ''di-ff00'') = Some (True, True, True, 1)" by code_simp
  then obtain r where r: "find_intent_by_id spine_claimed ''di-ff00'' = Some r" "di_delivery_state r = ''requester_queued''"
    "claim_expired demo_spine_lib ''aaaaaa'' r" "requester_matches r ann" "di_attempt_count r = 1" by auto
  have "list_all (\<lambda>e. ve_event_id e \<noteq> ''claim:k4'') (dd_events spine_claimed)" by code_simp
  then have fresh: "\<forall>e\<in>set (dd_events spine_claimed). ve_event_id e \<noteq> ''claim:'' @ cq_claim_key ?q"
    by (simp add: list_all_iff demo_claim_def)
  have "list_all (\<lambda>(j, s). di_revision s < 100) (dd_intents spine_claimed)" by code_simp
  then have room: "\<forall>(j, s)\<in>set (dd_intents spine_claimed). di_revision s < 2 ^ 63 - 1" by (auto simp: list_all_iff)
  have "validate_caller (cq_caller ?q) = Ok ()" "text_check 128 (ca_host_identity (cq_caller ?q))" "bounded_text 128 (cq_claim_key ?q)"
    "text_check 128 (cq_claim_key ?q)" "instant_check ''aaaaaa''" "instant_check ''tttttttt''" by code_simp+
  moreover have "lease_expiration demo_spine_lib ''aaaaaa'' (if 0 < cq_lease_seconds ?q then cq_lease_seconds ?q else DEFAULT_CLAIM_LEASE_SECONDS) = Ok ''tttttttt''"
    by code_simp
  moreover have "requester_matches r (cq_caller ?q)" "cq_only_delivery_id ?q = Some ''di-ff00''" using r(4) by (simp_all add: demo_claim_def)
  ultimately show ?thesis
    using lost_ack_recovered [OF demo_runs(2) r(1-3) _ _ _ _ _ _ fresh _ _ _ room] r(5) by fastforce
qed

end
