(* ===== verification/Tachi_Strings.thy ===== *)
theory Tachi_Strings
  imports Tachi_Prelude "HOL-Library.Sublist"
begin

text \<open>
  String patterns of Rust's standard library: \<open>str::trim_start_matches\<close>,
  \<open>trim_end_matches\<close> and \<open>strip_prefix\<close> with a string pattern, and \<open>Option::is_some_and\<close>.
\<close>

function trim_start_matches :: "string \<Rightarrow> string \<Rightarrow> string" where
  "trim_start_matches p s = (if p \<noteq> [] \<and> prefix p s then trim_start_matches p (drop (length p) s) else s)"
  by pat_completeness auto

termination
  by (relation "measure (\<lambda>(p, s). length s)") (auto simp: prefix_def)

declare trim_start_matches.simps [simp del]

definition trim_end_matches :: "string \<Rightarrow> string \<Rightarrow> string" where
  "trim_end_matches p s = rev (trim_start_matches (rev p) (rev s))"

definition strip_prefix :: "string \<Rightarrow> string \<Rightarrow> string option" where
  "strip_prefix p s = (if prefix p s then Some (drop (length p) s) else None)"

definition is_some_and :: "('a \<Rightarrow> bool) \<Rightarrow> 'a option \<Rightarrow> bool" where
  "is_some_and P x = (case x of Some a \<Rightarrow> P a | None \<Rightarrow> False)"

lemma strip_prefix_Some: "strip_prefix p s = Some t \<longleftrightarrow> s = p @ t"
  by (auto simp: strip_prefix_def prefix_def)

lemma strip_prefix_None: "strip_prefix p s = None \<longleftrightarrow> \<not> prefix p s"
  by (simp add: strip_prefix_def)

text \<open>Trimming a one-character pattern removes exactly the characters at that end.\<close>

lemma trim_start_matches_char: "trim_start_matches [c] s = dropWhile (\<lambda>x. x = c) s"
proof (induction s)
  case Nil
  show ?case by (simp add: trim_start_matches.simps [of "[c]" "[]"])
next
  case (Cons x s)
  then show ?case by (simp add: trim_start_matches.simps [of "[c]" "x # s"])
qed

lemma trim_end_matches_char: "trim_end_matches [c] s = rev (dropWhile (\<lambda>x. x = c) (rev s))"
  by (simp add: trim_end_matches_def trim_start_matches_char)

text \<open>A string that starts with a visible ASCII character is not blank.\<close>

lemma ws_last_keeps_visible:
  assumes "of_char c \<in> {33..<127::nat}"
  shows "ws_last (bytes_of (s @ [c])) \<le> length s"
proof -
  have "\<not> ws1 (of_char c)" "of_char c < (194::nat)" using assms by (auto simp: ws1_def)
  then show ?thesis
    by (cases "bytes_of (s @ [c])" rule: ws_last.cases; cases s; cases "tl s"; cases "tl (tl s)")
      (auto simp: ws2_def ws3_def)
qed

lemma strip_keeps_visible: "of_char c \<in> {33..<127::nat} \<Longrightarrow> strip ws_last (s @ [c]) \<noteq> []"
proof (induction "length s" arbitrary: s rule: less_induct)
  case less
  let ?n = "ws_last (bytes_of (s @ [c]))"
  show ?case
  proof (cases "?n = 0")
    case True
    then show ?thesis by (simp add: strip_stop)
  next
    case False
    have n: "?n \<le> length s" using less.prems by (rule ws_last_keeps_visible)
    have "strip ws_last (s @ [c]) = strip ws_last (drop ?n s @ [c])"
      using False n by (subst strip.simps) simp
    then show ?thesis using False n less.hyps [OF _ less.prems, of "drop ?n s"] by simp
  qed
qed

lemma not_blank_visible:
  assumes "of_char c \<in> {33..<127::nat}"
  shows "\<not> blank (c # s)"
proof -
  have "ws_head (bytes_of (c # s)) = 0"
    using assms by (cases "bytes_of (c # s)" rule: ws_head.cases) (auto simp: ws1_def ws2_def ws3_def)
  then have "trim_start (c # s) = c # s" by (simp add: trim_start_def strip_stop)
  then show ?thesis using strip_keeps_visible [OF assms, of "rev s"] by (simp add: blank_def trim_def trim_end_def)
qed

end
