(* ===== verification/Work_Claims.thy ===== *)
theory Work_Claims
  imports Tachi_Strings
begin

text \<open>
  Work claims, \<open>crates/memcore/src/db/session_claims.rs\<close>, over the tables \<open>session_claims\<close>,
  \<open>agent_identities\<close>, \<open>identity_admissions\<close> and the holder columns of \<open>exec_envs\<close>
  (\<open>db/schema/ddl.rs\<close>, whose keys and unique indexes are written out). Every write runs in
  one statement or one transaction, so a write that fails leaves the database as it was and
  is an error without a database. Tables are ordered maps from their primary key; columns
  are raw text, and what reads a row decodes it. The clock reading is an argument.
\<close>

section \<open>Vocabulary\<close>

datatype claim_state = ClaimActive | ClaimOrphaned | ClaimReleased

fun claim_state_as_str :: "claim_state \<Rightarrow> string" where
  "claim_state_as_str ClaimActive = ''active''"
| "claim_state_as_str ClaimOrphaned = ''orphaned''"
| "claim_state_as_str ClaimReleased = ''released''"

definition claim_state_parse :: "string \<Rightarrow> claim_state option" where
  "claim_state_parse raw =
     (if raw = ''active'' then Some ClaimActive else if raw = ''orphaned'' then Some ClaimOrphaned
      else if raw = ''released'' then Some ClaimReleased else None)"

datatype work_claim_mode = ReadOnly | Writable

fun work_claim_mode_as_str :: "work_claim_mode \<Rightarrow> string" where
  "work_claim_mode_as_str ReadOnly = ''read_only''"
| "work_claim_mode_as_str Writable = ''writable''"

definition work_claim_mode_parse :: "string \<Rightarrow> work_claim_mode option" where
  "work_claim_mode_parse raw =
     (if raw = ''read_only'' then Some ReadOnly else if raw = ''writable'' then Some Writable else None)"

datatype unverified_admission_state = SelfAsserted | Rejected | AdmissionUnavailable

fun admission_state_as_str :: "unverified_admission_state \<Rightarrow> string" where
  "admission_state_as_str SelfAsserted = ''self_asserted''"
| "admission_state_as_str Rejected = ''rejected''"
| "admission_state_as_str AdmissionUnavailable = ''unavailable''"

interpretation claim_state_wire: wire_vocabulary claim_state_as_str claim_state_parse "[ClaimActive, ClaimOrphaned, ClaimReleased]"
proof unfold_locales
  show "v \<in> set [ClaimActive, ClaimOrphaned, ClaimReleased]" for v by (cases v) simp_all
qed (simp_all add: claim_state_parse_def)

interpretation work_claim_mode_wire: wire_vocabulary work_claim_mode_as_str work_claim_mode_parse "[ReadOnly, Writable]"
proof unfold_locales
  show "v \<in> set [ReadOnly, Writable]" for v by (cases v) simp_all
qed (simp_all add: work_claim_mode_parse_def)

section \<open>Rows\<close>

text \<open>A row of \<open>session_claims\<close>, and the record a reader gets of it.\<close>

record claim_row =
  cl_claim_id :: string
  cl_session_client :: "string option"
  cl_issue_ref :: "string option"
  cl_flow_id :: "string option"
  cl_dispatch_id :: "string option"
  cl_branch :: string
  cl_worktree_path :: "string option"
  cl_declared_file_scope :: "string option"
  cl_agent_identity_id :: "string option"
  cl_role :: "string option"
  cl_mode :: "string option"
  cl_expected_head :: "string option"
  cl_lease_expires_at :: "string option"
  cl_transition_version :: int
  cl_exec_env_id :: "string option"
  cl_orphaned_at :: "string option"
  cl_state :: string
  cl_release_reason :: "string option"
  cl_created_at :: string
  cl_heartbeat_at :: string
  cl_released_at :: "string option"
  cl_canonical_project :: "string option"

record session_claim =
  sc_claim_id :: string
  sc_session_client :: "string option"
  sc_issue_ref :: "string option"
  sc_flow_id :: "string option"
  sc_dispatch_id :: "string option"
  sc_branch :: string
  sc_worktree_path :: "string option"
  sc_declared_file_scope :: "string option"
  sc_agent_identity_id :: "string option"
  sc_role :: "string option"
  sc_mode :: "work_claim_mode option"
  sc_expected_head :: "string option"
  sc_lease_expires_at :: "string option"
  sc_transition_version :: int
  sc_exec_env_id :: "string option"
  sc_orphaned_at :: "string option"
  sc_state :: claim_state
  sc_release_reason :: "string option"
  sc_created_at :: string
  sc_heartbeat_at :: string
  sc_released_at :: "string option"

record new_work_claim =
  nc_claim_id :: string
  nc_agent_identity_id :: string
  nc_session_client :: "string option"
  nc_issue_ref :: "string option"
  nc_flow_id :: "string option"
  nc_dispatch_id :: "string option"
  nc_branch :: string
  nc_worktree_path :: string
  nc_declared_file_scope :: string
  nc_role :: string
  nc_mode :: work_claim_mode
  nc_expected_head :: string
  nc_lease_expires_at :: string
  nc_created_at :: string

record work_claim_handoff_request =
  hr_agent_identity_id :: string
  hr_role :: string
  hr_mode :: work_claim_mode
  hr_worktree_path :: string
  hr_declared_file_scope :: string
  hr_expected_head :: string
  hr_lease_expires_at :: string

record work_claim_heartbeat =
  hb_claim_id :: string
  hb_lease_expires_at :: string
  hb_transition_version :: int

record work_claim_handoff =
  ho_claim_id :: string
  ho_from_agent_identity_id :: string
  ho_to_agent_identity_id :: string
  ho_transition_version :: int

datatype holder_evidence_kind = Clear | NotApplicable | Held | Contradictory | EvidenceUnavailable | Unverifiable

record agent_identity =
  ai_agent_identity_id :: string
  ai_display_name :: "string option"
  ai_seat :: "string option"
  ai_capability_json :: "string option"
  ai_created_at :: string

record identity_admission =
  ia_admission_id :: string
  ia_agent_identity_id :: "string option"
  ia_connection_id :: string
  ia_state :: string
  ia_rejection_evidence :: "string option"
  ia_created_at :: string

record new_session_claim =
  ns_claim_id :: string
  ns_session_client :: "string option"
  ns_issue_ref :: "string option"
  ns_flow_id :: "string option"
  ns_dispatch_id :: "string option"
  ns_branch :: string
  ns_declared_file_scope :: "string option"
  ns_created_at :: string

datatype claim_selector = ByClaimId string | ByDispatchId string

datatype release_outcome = ReleasedNow string | AlreadyReleased string | ClaimNotFound

record session_claims_gc =
  gc_released_pruned :: nat
  gc_active_orphaned :: nat

record claim_requester_binding =
  rb_claim_id :: string
  rb_agent_identity_id :: string
  rb_session_client :: "string option"
  rb_state :: string

text \<open>The columns of \<open>exec_envs\<close> these calls read and write; a fresh environment has neither.\<close>

record exec_env_holder =
  ee_agent_identity_id :: "string option"
  ee_claim_id :: "string option"

record work_db =
  wd_claims :: "(string \<times> claim_row) list"
  wd_identities :: "(string \<times> agent_identity) list"
  wd_admissions :: "(string \<times> identity_admission) list"
  wd_envs :: "(string \<times> exec_env_holder) list"

datatype work_error =
    WorkInvalidArg | WorkNotFound | WorkClaimIncompatibleState | WorkClaimConflict
  | HolderMismatch string string | RowUnreadable | KeyRefused | DurationPanic

type_synonym 'r work_write = "work_db \<Rightarrow> ('r \<times> work_db, work_error) result"

text \<open>
  What the code uses of \<open>chrono\<close>, \<open>serde_json\<close> and SQLite: the relaxed parser of
  \<open>DateTime<Utc>\<close>, the millisecond rendering, \<open>t - Duration::days(n)\<close> (nothing where it
  panics), \<open>julianday\<close> (nothing for NULL) and the reader of a JSON array of strings.
\<close>

record claims_lib = chrono +
  parse_datetime_utc :: "string \<Rightarrow> int option"
  to_rfc3339_ms :: "int \<Rightarrow> string"
  minus_days :: "int \<Rightarrow> int \<Rightarrow> int option"
  julianday :: "string \<Rightarrow> int option"
  read_string_array :: "string \<Rightarrow> string list option"

definition normalize_utc_iso :: "'a claims_lib_scheme \<Rightarrow> string \<Rightarrow> string option" where
  "normalize_utc_iso lib ts =
     (let raw = trim ts
      in if raw = [] then None
         else (case parse_from_rfc3339 lib raw of Some t \<Rightarrow> Some (to_rfc3339_ms lib t)
           | None \<Rightarrow> map_option (to_rfc3339_ms lib) (parse_datetime_utc lib raw)))"

definition normalize_utc_iso_or_now :: "'a claims_lib_scheme \<Rightarrow> string \<Rightarrow> string \<Rightarrow> string" where
  "normalize_utc_iso_or_now lib now ts = (case normalize_utc_iso lib ts of Some s \<Rightarrow> s | None \<Rightarrow> now)"

text \<open>\<open>INSERT INTO session_claims\<close>, under the primary key and the index of legacy presence rows.\<close>

definition or_empty :: "string option \<Rightarrow> string" where
  "or_empty x = (case x of Some s \<Rightarrow> s | None \<Rightarrow> [])"

definition legacy_key :: "claim_row \<Rightarrow> string \<times> string \<times> string" where
  "legacy_key r = (or_empty (cl_session_client r), or_empty (cl_issue_ref r), or_empty (cl_flow_id r))"

definition legacy_active :: "claim_row \<Rightarrow> bool" where
  "legacy_active r \<longleftrightarrow> cl_state r = ''active'' \<and> cl_mode r = None"

definition find_claim :: "work_db \<Rightarrow> string \<Rightarrow> claim_row option" where
  "find_claim db i = map_of (wd_claims db) i"

definition claim_rows :: "work_db \<Rightarrow> claim_row list" where
  "claim_rows db = map snd (wd_claims db)"

definition insert_claim_row :: "claim_row \<Rightarrow> unit work_write" where
  "insert_claim_row r db =
     (if find_claim db (cl_claim_id r) \<noteq> None then Err KeyRefused
      else if legacy_active r \<and> list_ex (\<lambda>q. legacy_active q \<and> legacy_key q = legacy_key r) (claim_rows db) then Err KeyRefused
      else Ok ((), db\<lparr> wd_claims := bt_insert (cl_claim_id r) r (wd_claims db) \<rparr>))"

text \<open>\<open>UPDATE session_claims SET ... WHERE guard\<close>, with the number of rows it changed.\<close>

definition update_claims :: "(claim_row \<Rightarrow> bool) \<Rightarrow> (claim_row \<Rightarrow> claim_row) \<Rightarrow> work_db \<Rightarrow> nat \<times> work_db" where
  "update_claims guard f db =
     (length (filter guard (claim_rows db)),
      db\<lparr> wd_claims := map (\<lambda>(i, r). (i, if guard r then f r else r)) (wd_claims db) \<rparr>)"

section \<open>Identities and admissions\<close>

definition insert_agent_identity :: "'a claims_lib_scheme \<Rightarrow> string \<Rightarrow> agent_identity \<Rightarrow> unit work_write" where
  "insert_agent_identity lib now identity db =
     (if blank (ai_agent_identity_id identity) then Err WorkInvalidArg
      else let created = (if blank (ai_created_at identity) then normalize_utc_iso_or_now lib now []
                          else normalize_utc_iso_or_now lib now (ai_created_at identity)) in
      if map_of (wd_identities db) (ai_agent_identity_id identity) \<noteq> None then Err KeyRefused
      else Ok ((), db\<lparr> wd_identities := bt_insert (ai_agent_identity_id identity)
                        (identity\<lparr> ai_created_at := created \<rparr>) (wd_identities db) \<rparr>))"

definition insert_admission :: "identity_admission \<Rightarrow> unit work_write" where
  "insert_admission a db =
     (if map_of (wd_admissions db) (ia_admission_id a) \<noteq> None then Err KeyRefused
      else if ia_agent_identity_id a \<noteq> None
              \<and> list_ex (\<lambda>b. ia_agent_identity_id b = ia_agent_identity_id a \<and> ia_connection_id b = ia_connection_id a)
                  (map snd (wd_admissions db)) then Err KeyRefused
      else Ok ((), db\<lparr> wd_admissions := bt_insert (ia_admission_id a) a (wd_admissions db) \<rparr>))"

definition record_unverified_admission ::
  "'a claims_lib_scheme \<Rightarrow> string \<Rightarrow> string \<Rightarrow> string \<Rightarrow> string \<Rightarrow> unverified_admission_state \<Rightarrow> unit work_write" where
  "record_unverified_admission lib now admission identity connection state db =
     (if blank admission \<or> blank identity \<or> blank connection then Err WorkInvalidArg
      else insert_admission \<lparr> ia_admission_id = admission, ia_agent_identity_id = Some identity, ia_connection_id = connection,
             ia_state = admission_state_as_str state, ia_rejection_evidence = None,
             ia_created_at = normalize_utc_iso_or_now lib now [] \<rparr> db)"

definition record_rejected_admission ::
  "'a claims_lib_scheme \<Rightarrow> string \<Rightarrow> string \<Rightarrow> string \<Rightarrow> string \<Rightarrow> unit work_write" where
  "record_rejected_admission lib now admission connection evidence db =
     (if blank admission \<or> blank connection \<or> blank evidence then Err WorkInvalidArg
      else insert_admission \<lparr> ia_admission_id = admission, ia_agent_identity_id = None, ia_connection_id = connection,
             ia_state = ''rejected'', ia_rejection_evidence = Some evidence,
             ia_created_at = normalize_utc_iso_or_now lib now [] \<rparr> db)"

section \<open>Reading a row\<close>

definition row_to_claim :: "claim_row \<Rightarrow> (session_claim, work_error) result" where
  "row_to_claim r =
     and_then (case cl_mode r of None \<Rightarrow> Ok None
               | Some raw \<Rightarrow> (case work_claim_mode_parse raw of Some m \<Rightarrow> Ok (Some m) | None \<Rightarrow> Err RowUnreadable)) (\<lambda>mode.
     and_then (case claim_state_parse (cl_state r) of Some s \<Rightarrow> Ok s | None \<Rightarrow> Err RowUnreadable) (\<lambda>state.
       Ok \<lparr> sc_claim_id = cl_claim_id r, sc_session_client = cl_session_client r, sc_issue_ref = cl_issue_ref r,
            sc_flow_id = cl_flow_id r, sc_dispatch_id = cl_dispatch_id r, sc_branch = cl_branch r,
            sc_worktree_path = cl_worktree_path r, sc_declared_file_scope = cl_declared_file_scope r,
            sc_agent_identity_id = cl_agent_identity_id r, sc_role = cl_role r, sc_mode = mode,
            sc_expected_head = cl_expected_head r, sc_lease_expires_at = cl_lease_expires_at r,
            sc_transition_version = cl_transition_version r, sc_exec_env_id = cl_exec_env_id r,
            sc_orphaned_at = cl_orphaned_at r, sc_state = state, sc_release_reason = cl_release_reason r,
            sc_created_at = cl_created_at r, sc_heartbeat_at = cl_heartbeat_at r, sc_released_at = cl_released_at r \<rparr>))"

fun collect_claims :: "claim_row list \<Rightarrow> (session_claim list, work_error) result" where
  "collect_claims [] = Ok []"
| "collect_claims (r # rs) = and_then (row_to_claim r) (\<lambda>c. and_then (collect_claims rs) (\<lambda>cs. Ok (c # cs)))"

section \<open>Overlap\<close>

definition normalize_path :: "string \<Rightarrow> string" where
  "normalize_path path =
     trim_end_matches ''/'' (trim_end_matches ''/*'' (trim_end_matches ''/**'' (trim_start_matches ''./'' (trim path))))"

definition paths_overlap :: "string \<Rightarrow> string \<Rightarrow> bool" where
  "paths_overlap l r =
     (let left = normalize_path l; right = normalize_path r
      in if left = [] \<or> right = [] \<or> CHR ''*'' \<in> set left \<or> CHR ''*'' \<in> set right then True
         else left = right
           \<or> is_some_and (\<lambda>tail. prefix ''/'' tail) (strip_prefix right left)
           \<or> is_some_and (\<lambda>tail. prefix ''/'' tail) (strip_prefix left right))"

definition scope_entries :: "'a claims_lib_scheme \<Rightarrow> string \<Rightarrow> string list" where
  "scope_entries lib scope = (case read_string_array lib scope of Some es \<Rightarrow> es | None \<Rightarrow> [scope])"

definition scopes_overlap :: "'a claims_lib_scheme \<Rightarrow> string \<Rightarrow> string \<Rightarrow> bool" where
  "scopes_overlap lib left right \<longleftrightarrow>
     list_ex (\<lambda>l. list_ex (\<lambda>r. paths_overlap l r) (scope_entries lib right)) (scope_entries lib left)"

definition require_non_empty_declared_scope :: "'a claims_lib_scheme \<Rightarrow> string \<Rightarrow> (unit, work_error) result" where
  "require_non_empty_declared_scope lib scope =
     (if blank scope then Err WorkInvalidArg
      else (case read_string_array lib scope of
          Some entries \<Rightarrow> if entries = [] \<or> list_all blank entries then Err WorkInvalidArg else Ok ()
        | None \<Rightarrow> Ok ()))"

text \<open>Why one protected row refuses an incoming claim.\<close>

definition row_collides :: "'a claims_lib_scheme \<Rightarrow> new_work_claim \<Rightarrow> claim_row \<Rightarrow> bool" where
  "row_collides lib incoming r =
     (let same_issue = (case (nc_issue_ref incoming, cl_issue_ref r) of (Some a, Some b) \<Rightarrow> a = b | _ \<Rightarrow> False)
      in if same_issue \<and> is_some_and (\<lambda>head. head \<noteq> nc_expected_head incoming) (cl_expected_head r) then True
         else if nc_mode incoming \<noteq> Writable \<or> cl_mode r \<noteq> Some ''writable'' then False
         else if paths_overlap (nc_worktree_path incoming) (or_empty (cl_worktree_path r)) then True
         else same_issue \<and> scopes_overlap lib (nc_declared_file_scope incoming) (or_empty (cl_declared_file_scope r)))"

definition protected :: "claim_row \<Rightarrow> bool" where
  "protected r \<longleftrightarrow> cl_state r \<in> {''active'', ''orphaned''}"

definition reject_work_claim_collision :: "'a claims_lib_scheme \<Rightarrow> new_work_claim \<Rightarrow> work_db \<Rightarrow> (unit, work_error) result" where
  "reject_work_claim_collision lib incoming db =
     (if list_ex (row_collides lib incoming) (filter (\<lambda>r. protected r \<and> cl_claim_id r \<noteq> nc_claim_id incoming) (claim_rows db))
      then Err WorkClaimConflict else Ok ())"

section \<open>Work claims\<close>

definition claim_row_of :: "new_work_claim \<Rightarrow> string \<Rightarrow> claim_row" where
  "claim_row_of claim created =
     \<lparr> cl_claim_id = nc_claim_id claim, cl_session_client = Some (''work-claim:'' @ nc_claim_id claim),
       cl_issue_ref = nc_issue_ref claim, cl_flow_id = nc_flow_id claim, cl_dispatch_id = nc_dispatch_id claim,
       cl_branch = nc_branch claim, cl_worktree_path = Some (nc_worktree_path claim),
       cl_declared_file_scope = Some (nc_declared_file_scope claim),
       cl_agent_identity_id = Some (nc_agent_identity_id claim), cl_role = Some (nc_role claim),
       cl_mode = Some (work_claim_mode_as_str (nc_mode claim)), cl_expected_head = Some (nc_expected_head claim),
       cl_lease_expires_at = Some (nc_lease_expires_at claim), cl_transition_version = 0, cl_exec_env_id = None,
       cl_orphaned_at = None, cl_state = ''active'', cl_release_reason = None, cl_created_at = created,
       cl_heartbeat_at = created, cl_released_at = None, cl_canonical_project = None \<rparr>"

definition known_identity :: "work_db \<Rightarrow> string \<Rightarrow> bool" where
  "known_identity db identity \<longleftrightarrow> map_of (wd_identities db) identity \<noteq> None"

definition insert_work_claim :: "'a claims_lib_scheme \<Rightarrow> string \<Rightarrow> new_work_claim \<Rightarrow> unit work_write" where
  "insert_work_claim lib now claim db =
     (if list_ex blank [nc_agent_identity_id claim, nc_role claim, nc_expected_head claim, nc_lease_expires_at claim]
      then Err WorkInvalidArg
      else and_then (require_non_empty_declared_scope lib (nc_declared_file_scope claim)) (\<lambda>_.
      if nc_mode claim = Writable \<and> blank (nc_worktree_path claim) then Err WorkInvalidArg
      else let created = (if blank (nc_created_at claim) then normalize_utc_iso_or_now lib now []
                          else normalize_utc_iso_or_now lib now (nc_created_at claim)) in
      if \<not> known_identity db (nc_agent_identity_id claim) then Err WorkClaimIncompatibleState
      else and_then (reject_work_claim_collision lib claim db) (\<lambda>_.
        insert_claim_row (claim_row_of claim created) db)))"

definition require_local_claim_admission :: "work_db \<Rightarrow> string \<Rightarrow> string \<Rightarrow> (unit, work_error) result" where
  "require_local_claim_admission db identity connection =
     (if list_ex (\<lambda>a. ia_agent_identity_id a = Some identity \<and> ia_connection_id a = connection \<and> ia_state a = ''self_asserted'')
          (map snd (wd_admissions db))
      then Ok () else Err WorkInvalidArg)"

definition insert_local_project_work_claim ::
  "'a claims_lib_scheme \<Rightarrow> string \<Rightarrow> new_work_claim \<Rightarrow> string \<Rightarrow> string \<Rightarrow> unit work_write" where
  "insert_local_project_work_claim lib now claim connection project db =
     (if blank project then Err WorkInvalidArg
      else and_then (require_local_claim_admission db (nc_agent_identity_id claim) connection) (\<lambda>_.
      if (case nc_flow_id claim of Some flow \<Rightarrow>
            list_ex (\<lambda>r. cl_flow_id r = Some flow \<and> is_some_and (\<lambda>p. p \<noteq> project) (cl_canonical_project r)) (claim_rows db)
          | None \<Rightarrow> False)
      then Err WorkInvalidArg
      else and_then (insert_work_claim lib now claim db) (\<lambda>(_, db1).
        Ok ((), snd (update_claims (\<lambda>r. cl_claim_id r = nc_claim_id claim \<and> cl_canonical_project r = None)
                      (\<lambda>r. r\<lparr> cl_canonical_project := Some project \<rparr>) db1)))))"

text \<open>The row of a versioned call, after the checks they share: present, in a state, at the version, held by the caller.\<close>

definition beaten_row :: "string \<Rightarrow> string \<Rightarrow> claim_row \<Rightarrow> claim_row" where
  "beaten_row now lease r =
     r\<lparr> cl_heartbeat_at := now, cl_lease_expires_at := Some lease, cl_transition_version := cl_transition_version r + 1 \<rparr>"

definition heartbeat_work_claim ::
  "'a claims_lib_scheme \<Rightarrow> string \<Rightarrow> string \<Rightarrow> string \<Rightarrow> int \<Rightarrow> string \<Rightarrow> work_claim_heartbeat work_write" where
  "heartbeat_work_claim lib now i caller expected lease db =
     (if blank lease then Err WorkInvalidArg
      else (case find_claim db i of
          None \<Rightarrow> Err WorkNotFound
        | Some r \<Rightarrow>
            if cl_state r \<noteq> ''active'' then Err WorkClaimIncompatibleState
            else if cl_transition_version r \<noteq> expected then Err WorkClaimConflict
            else (case cl_agent_identity_id r of
                None \<Rightarrow> Err WorkClaimIncompatibleState
              | Some holder \<Rightarrow>
                  if holder \<noteq> caller then Err (HolderMismatch holder caller)
                  else (case update_claims (\<lambda>r. cl_claim_id r = i \<and> cl_state r = ''active'' \<and> cl_transition_version r = expected)
                              (beaten_row (normalize_utc_iso_or_now lib now []) lease) db of
                      (changed, db') \<Rightarrow>
                        if changed \<noteq> 1 then Err WorkClaimConflict
                        else Ok (\<lparr> hb_claim_id = i, hb_lease_expires_at = lease, hb_transition_version = expected + 1 \<rparr>, db')))))"

definition validate_work_claim_handoff :: "'a claims_lib_scheme \<Rightarrow> work_claim_handoff_request \<Rightarrow> (unit, work_error) result" where
  "validate_work_claim_handoff lib successor =
     and_then (require_non_empty_declared_scope lib (hr_declared_file_scope successor)) (\<lambda>_.
     if hr_mode successor = Writable \<and> blank (hr_worktree_path successor) then Err WorkInvalidArg else Ok ())"

definition handed_row :: "string \<Rightarrow> work_claim_handoff_request \<Rightarrow> claim_row \<Rightarrow> claim_row" where
  "handed_row now successor r =
     r\<lparr> cl_agent_identity_id := Some (hr_agent_identity_id successor), cl_role := Some (hr_role successor),
        cl_mode := Some (work_claim_mode_as_str (hr_mode successor)), cl_worktree_path := Some (hr_worktree_path successor),
        cl_declared_file_scope := Some (hr_declared_file_scope successor), cl_expected_head := Some (hr_expected_head successor),
        cl_lease_expires_at := Some (hr_lease_expires_at successor), cl_state := ''active'', cl_orphaned_at := None,
        cl_heartbeat_at := now, cl_transition_version := cl_transition_version r + 1 \<rparr>"

definition handoff_candidate :: "claim_row \<Rightarrow> work_claim_handoff_request \<Rightarrow> new_work_claim" where
  "handoff_candidate r successor =
     \<lparr> nc_claim_id = cl_claim_id r, nc_agent_identity_id = hr_agent_identity_id successor,
       nc_session_client = cl_session_client r, nc_issue_ref = cl_issue_ref r, nc_flow_id = cl_flow_id r,
       nc_dispatch_id = cl_dispatch_id r, nc_branch = cl_branch r, nc_worktree_path = hr_worktree_path successor,
       nc_declared_file_scope = hr_declared_file_scope successor, nc_role = hr_role successor, nc_mode = hr_mode successor,
       nc_expected_head = hr_expected_head successor, nc_lease_expires_at = hr_lease_expires_at successor, nc_created_at = [] \<rparr>"

text \<open>The environment bound to the claim follows it to the new holder.\<close>

definition rebind_exec_env :: "string \<Rightarrow> string \<Rightarrow> string \<Rightarrow> string option \<Rightarrow> work_db \<Rightarrow> (work_db, work_error) result" where
  "rebind_exec_env i from_identity to_identity env db = (case env of
     None \<Rightarrow> Ok db
   | Some e \<Rightarrow> (case map_of (wd_envs db) e of
         Some x \<Rightarrow>
           if ee_claim_id x = Some i \<and> ee_agent_identity_id x = Some from_identity
           then Ok (db\<lparr> wd_envs := update_row e (\<lambda>x. x\<lparr> ee_agent_identity_id := Some to_identity \<rparr>) (wd_envs db) \<rparr>)
           else Err WorkClaimConflict
       | None \<Rightarrow> Err WorkClaimConflict))"

definition handoff_work_claim ::
  "'a claims_lib_scheme \<Rightarrow> string \<Rightarrow> string \<Rightarrow> string \<Rightarrow> int \<Rightarrow> work_claim_handoff_request \<Rightarrow> work_claim_handoff work_write" where
  "handoff_work_claim lib now i caller expected successor db =
     and_then (validate_work_claim_handoff lib successor) (\<lambda>_.
     (case find_claim db i of
        None \<Rightarrow> Err WorkNotFound
      | Some r \<Rightarrow> (case cl_agent_identity_id r of
          None \<Rightarrow> Err WorkClaimIncompatibleState
        | Some from_identity \<Rightarrow>
            if cl_state r \<notin> {''active'', ''orphaned''} then Err WorkClaimIncompatibleState
            else if cl_transition_version r \<noteq> expected then Err WorkClaimConflict
            else if hr_agent_identity_id successor \<noteq> caller then Err WorkClaimIncompatibleState
            else if cl_state r = ''active'' \<and> from_identity \<noteq> caller then Err (HolderMismatch from_identity caller)
            else if \<not> known_identity db (hr_agent_identity_id successor) then Err WorkClaimIncompatibleState
            else and_then (reject_work_claim_collision lib (handoff_candidate r successor) db) (\<lambda>_.
                 and_then (rebind_exec_env i from_identity (hr_agent_identity_id successor) (cl_exec_env_id r) db) (\<lambda>db1.
                 (case update_claims (\<lambda>r. cl_claim_id r = i \<and> cl_transition_version r = expected \<and> cl_state r \<in> {''active'', ''orphaned''})
                         (handed_row (normalize_utc_iso_or_now lib now []) successor) db1 of
                    (changed, db2) \<Rightarrow>
                      if changed \<noteq> 1 then Err WorkClaimConflict
                      else Ok (\<lparr> ho_claim_id = i, ho_from_agent_identity_id = from_identity,
                                 ho_to_agent_identity_id = hr_agent_identity_id successor,
                                 ho_transition_version = expected + 1 \<rparr>, db2)))))))"

definition released_claim :: "string \<Rightarrow> string \<Rightarrow> claim_row \<Rightarrow> claim_row" where
  "released_claim now reason r =
     r\<lparr> cl_state := ''released'', cl_released_at := Some now, cl_release_reason := Some reason,
        cl_transition_version := cl_transition_version r + 1 \<rparr>"

definition release_work_claim :: "'a claims_lib_scheme \<Rightarrow> string \<Rightarrow> string \<Rightarrow> string \<Rightarrow> int \<Rightarrow> string \<Rightarrow> int work_write" where
  "release_work_claim lib now i caller expected reason db = (case find_claim db i of
     None \<Rightarrow> Err WorkNotFound
   | Some r \<Rightarrow>
       if cl_state r \<notin> {''active'', ''orphaned''} then Err WorkClaimIncompatibleState
       else if cl_transition_version r \<noteq> expected then Err WorkClaimConflict
       else (case cl_agent_identity_id r of
           None \<Rightarrow> Err WorkClaimIncompatibleState
         | Some holder \<Rightarrow>
             if holder \<noteq> caller then Err (HolderMismatch holder caller)
             else (case update_claims (\<lambda>r. cl_claim_id r = i \<and> cl_transition_version r = expected \<and> cl_state r \<in> {''active'', ''orphaned''})
                         (released_claim (normalize_utc_iso_or_now lib now []) reason) db of
                 (changed, db') \<Rightarrow> if changed \<noteq> 1 then Err WorkClaimConflict else Ok (expected + 1, db'))))"

definition bind_work_claim_exec_env :: "string \<Rightarrow> string \<Rightarrow> int \<Rightarrow> int work_write" where
  "bind_work_claim_exec_env i env expected db =
     (case map_option (\<lambda>r. (r, cl_agent_identity_id r)) (find_claim db i) of
        Some (r, Some identity) \<Rightarrow>
          if cl_state r \<noteq> ''active'' then Err WorkClaimIncompatibleState
          else if cl_transition_version r \<noteq> expected then Err WorkClaimConflict
          else (case map_of (wd_envs db) env of
              None \<Rightarrow> Err WorkNotFound
            | Some x \<Rightarrow>
                if is_some_and (\<lambda>e. e \<noteq> env) (cl_exec_env_id r) \<or> is_some_and (\<lambda>a. a \<noteq> identity) (ee_agent_identity_id x)
                   \<or> is_some_and (\<lambda>c. c \<noteq> i) (ee_claim_id x)
                then Err WorkClaimConflict
                else (case update_claims (\<lambda>r. cl_claim_id r = i \<and> cl_transition_version r = expected \<and> cl_exec_env_id r = None)
                            (\<lambda>r. r\<lparr> cl_exec_env_id := Some env, cl_transition_version := cl_transition_version r + 1 \<rparr>) db of
                    (changed, db1) \<Rightarrow>
                      if changed \<noteq> 1 then Err WorkClaimConflict
                      else if ee_agent_identity_id x \<noteq> None \<or> ee_claim_id x \<noteq> None then Err WorkClaimConflict
                      else Ok (expected + 1, db1\<lparr> wd_envs := update_row env
                             (\<lambda>x. x\<lparr> ee_agent_identity_id := Some identity, ee_claim_id := Some i \<rparr>) (wd_envs db1) \<rparr>)))
      | _ \<Rightarrow> Err WorkClaimIncompatibleState)"

text \<open>The joined rows of the holder query, one of NULLs where no claim joins.\<close>

type_synonym holder_row = "string option \<times> string option \<times> string option \<times> string option \<times> string option \<times> string option"

definition holder_rows :: "work_db \<Rightarrow> string \<Rightarrow> holder_row list" where
  "holder_rows db env = (case map_of (wd_envs db) env of
     None \<Rightarrow> []
   | Some x \<Rightarrow> (case filter (\<lambda>c. ee_claim_id x = Some (cl_claim_id c) \<or> cl_exec_env_id c = Some env) (claim_rows db) of
        [] \<Rightarrow> [(ee_agent_identity_id x, ee_claim_id x, None, None, None, None)]
      | cs \<Rightarrow> map (\<lambda>c. (ee_agent_identity_id x, ee_claim_id x, Some (cl_claim_id c), cl_agent_identity_id c, Some (cl_state c), cl_exec_env_id c)) cs))"

definition holder_evidence :: "work_db \<Rightarrow> string \<Rightarrow> holder_evidence_kind" where
  "holder_evidence db env = (case holder_rows db env of
     [] \<Rightarrow> Unverifiable
   | [(ei, ec, cid, ci, state, ce)] \<Rightarrow>
       if ei = None \<and> ec = None \<and> cid = None \<and> ci = None \<and> state = None \<and> ce = None then NotApplicable
       else if ec \<noteq> None \<and> cid = None \<and> ci = None \<and> state = None \<and> ce = None then Unverifiable
       else (case (ei, ec, cid, ci, state, ce) of
           (Some a, Some b, Some c, Some d, Some st, Some e) \<Rightarrow>
             if a = d \<and> b = c \<and> e = env
             then (if st = ''released'' then Clear else if st \<in> {''active'', ''orphaned''} then Held else EvidenceUnavailable)
             else Contradictory
         | _ \<Rightarrow> Contradictory)
   | _ \<Rightarrow> Contradictory)"

section \<open>Legacy presence\<close>

text \<open>\<open>ORDER BY key DESC\<close>; rows of equal key stay in table order, which SQL leaves open.\<close>

definition sort_desc :: "('a \<Rightarrow> 'k::linorder) \<Rightarrow> 'a list \<Rightarrow> 'a list" where
  "sort_desc f xs = rev (sort_key f (rev xs))"

definition presence_row :: "new_session_claim \<Rightarrow> string \<Rightarrow> claim_row" where
  "presence_row claim created =
     \<lparr> cl_claim_id = ns_claim_id claim, cl_session_client = ns_session_client claim, cl_issue_ref = ns_issue_ref claim,
       cl_flow_id = ns_flow_id claim, cl_dispatch_id = ns_dispatch_id claim, cl_branch = ns_branch claim,
       cl_worktree_path = None, cl_declared_file_scope = ns_declared_file_scope claim, cl_agent_identity_id = None,
       cl_role = None, cl_mode = None, cl_expected_head = None, cl_lease_expires_at = None, cl_transition_version = 0,
       cl_exec_env_id = None, cl_orphaned_at = None, cl_state = ''active'', cl_release_reason = None,
       cl_created_at = created, cl_heartbeat_at = created, cl_released_at = None, cl_canonical_project = None \<rparr>"

definition insert_claim :: "'a claims_lib_scheme \<Rightarrow> string \<Rightarrow> new_session_claim \<Rightarrow> unit work_write" where
  "insert_claim lib now claim db =
     insert_claim_row (presence_row claim (if blank (ns_created_at claim) then normalize_utc_iso_or_now lib now []
                        else normalize_utc_iso_or_now lib now (ns_created_at claim))) db"

text \<open>The conflict with the index of legacy rows is looked at first; every other conflict is an error.\<close>

definition coalesce :: "'a option \<Rightarrow> 'a option \<Rightarrow> 'a option" where
  "coalesce a b = (case a of Some x \<Rightarrow> Some x | None \<Rightarrow> b)"

definition heartbeaten_row :: "claim_row \<Rightarrow> claim_row \<Rightarrow> claim_row" where
  "heartbeaten_row excluded r =
     r\<lparr> cl_heartbeat_at := cl_heartbeat_at excluded, cl_dispatch_id := coalesce (cl_dispatch_id excluded) (cl_dispatch_id r),
        cl_branch := (if cl_branch excluded = [] then cl_branch r else cl_branch excluded),
        cl_declared_file_scope := coalesce (cl_declared_file_scope excluded) (cl_declared_file_scope r) \<rparr>"

definition upsert_or_heartbeat_claim :: "'a claims_lib_scheme \<Rightarrow> string \<Rightarrow> new_session_claim \<Rightarrow> string work_write" where
  "upsert_or_heartbeat_claim lib now claim db =
     (let created = (if blank (ns_created_at claim) then normalize_utc_iso_or_now lib now []
                     else normalize_utc_iso_or_now lib now (ns_created_at claim));
          excluded = presence_row claim created
      in (case find (\<lambda>r. legacy_active r \<and> legacy_key r = legacy_key excluded) (claim_rows db) of
          Some r \<Rightarrow> Ok (cl_claim_id r, db\<lparr> wd_claims := update_row (cl_claim_id r) (heartbeaten_row excluded) (wd_claims db) \<rparr>)
        | None \<Rightarrow> and_then (insert_claim_row excluded db) (\<lambda>(_, db'). Ok (cl_claim_id excluded, db'))))"

definition heartbeat_claim :: "'a claims_lib_scheme \<Rightarrow> string \<Rightarrow> claim_selector \<Rightarrow> unit work_write" where
  "heartbeat_claim lib now selector db =
     (let t = normalize_utc_iso_or_now lib now [] in (case selector of
        ByClaimId i \<Rightarrow> Ok ((), snd (update_claims (\<lambda>r. cl_claim_id r = i \<and> cl_state r = ''active'') (\<lambda>r. r\<lparr> cl_heartbeat_at := t \<rparr>) db))
      | ByDispatchId d \<Rightarrow> Ok ((), snd (update_claims (\<lambda>r. cl_dispatch_id r = Some d \<and> cl_state r = ''active'') (\<lambda>r. r\<lparr> cl_heartbeat_at := t \<rparr>) db))))"

definition select_release_target :: "claim_selector \<Rightarrow> work_db \<Rightarrow> claim_row option" where
  "select_release_target selector db = (case selector of
     ByClaimId i \<Rightarrow> find_claim db i
   | ByDispatchId d \<Rightarrow>
       (case sort_key (\<lambda>r. if cl_state r = ''active'' then 0 else 1 :: nat)
               (sort_desc cl_heartbeat_at (filter (\<lambda>r. cl_dispatch_id r = Some d \<and> cl_mode r = None \<and> cl_agent_identity_id r = None) (claim_rows db))) of
          [] \<Rightarrow> None
        | r # _ \<Rightarrow> Some r))"

definition dropped_row :: "string \<Rightarrow> string option \<Rightarrow> claim_row \<Rightarrow> claim_row" where
  "dropped_row now reason r = r\<lparr> cl_state := ''released'', cl_released_at := Some now, cl_release_reason := reason \<rparr>"

definition release_claim :: "'a claims_lib_scheme \<Rightarrow> string \<Rightarrow> claim_selector \<Rightarrow> string option \<Rightarrow> release_outcome work_write" where
  "release_claim lib now selector reason db = (case select_release_target selector db of
     None \<Rightarrow>
       (case selector of
          ByDispatchId d \<Rightarrow>
            if list_ex (\<lambda>r. cl_dispatch_id r = Some d \<and> (cl_mode r \<noteq> None \<or> cl_agent_identity_id r \<noteq> None)) (claim_rows db)
            then Err WorkClaimIncompatibleState else Ok (ClaimNotFound, db)
        | ByClaimId _ \<Rightarrow> Ok (ClaimNotFound, db))
   | Some r \<Rightarrow>
       if cl_mode r \<noteq> None \<or> cl_agent_identity_id r \<noteq> None then Err WorkClaimIncompatibleState
       else (case claim_state_parse (cl_state r) of
           None \<Rightarrow> Err WorkInvalidArg
         | Some ClaimReleased \<Rightarrow> Ok (AlreadyReleased (cl_claim_id r), db)
         | Some ClaimOrphaned \<Rightarrow> Err WorkClaimIncompatibleState
         | Some ClaimActive \<Rightarrow>
             Ok (ReleasedNow (cl_claim_id r),
                 snd (update_claims (\<lambda>q. cl_claim_id q = cl_claim_id r \<and> cl_state q = ''active'')
                        (dropped_row (normalize_utc_iso_or_now lib now []) reason) db))))"

text \<open>The sweep is two statements without a transaction: a panic between them keeps the first.\<close>

definition orphaned_row :: "string \<Rightarrow> claim_row \<Rightarrow> claim_row" where
  "orphaned_row now r = r\<lparr> cl_state := ''orphaned'', cl_orphaned_at := Some now, cl_release_reason := None \<rparr>"

definition prunable :: "string \<Rightarrow> claim_row \<Rightarrow> bool" where
  "prunable cutoff r \<longleftrightarrow> cl_state r = ''released'' \<and> is_some_and (\<lambda>t. t < cutoff) (cl_released_at r)"

definition gc_session_claims ::
  "'a claims_lib_scheme \<Rightarrow> int \<Rightarrow> int \<Rightarrow> int \<Rightarrow> work_db \<Rightarrow> (session_claims_gc, work_error) result \<times> work_db" where
  "gc_session_claims lib now staleness_days max_age_days db = (case minus_days lib now staleness_days of
     None \<Rightarrow> (Err DurationPanic, db)
   | Some t \<Rightarrow>
       (case update_claims (\<lambda>r. cl_state r = ''active'' \<and> cl_heartbeat_at r < to_rfc3339_ms lib t)
               (orphaned_row (to_rfc3339_ms lib now)) db of
          (orphaned, db1) \<Rightarrow>
            (case minus_days lib now max_age_days of
               None \<Rightarrow> (Err DurationPanic, db1)
             | Some u \<Rightarrow>
                 (Ok \<lparr> gc_released_pruned = length (filter (prunable (to_rfc3339_ms lib u)) (claim_rows db1)), gc_active_orphaned = orphaned \<rparr>,
                  db1\<lparr> wd_claims := filter (\<lambda>(i, r). \<not> prunable (to_rfc3339_ms lib u) r) (wd_claims db1) \<rparr>))))"

section \<open>Reads\<close>

definition try_i64 :: "nat \<Rightarrow> (int, work_error) result" where
  "try_i64 n = (if int n < 2 ^ 63 then Ok (int n) else Err WorkInvalidArg)"

definition work_claim_project :: "work_db \<Rightarrow> string \<Rightarrow> string option" where
  "work_claim_project db i = (case find_claim db i of Some r \<Rightarrow> cl_canonical_project r | None \<Rightarrow> None)"

definition project_rows :: "work_db \<Rightarrow> string \<Rightarrow> claim_row list" where
  "project_rows db project = filter (\<lambda>r. cl_canonical_project r = Some project \<and> cl_mode r \<noteq> None) (claim_rows db)"

definition list_project_work_claims :: "work_db \<Rightarrow> string \<Rightarrow> (session_claim list, work_error) result" where
  "list_project_work_claims db project = collect_claims (project_rows db project)"

definition list_project_work_claims_bounded :: "work_db \<Rightarrow> string \<Rightarrow> nat \<Rightarrow> (session_claim list, work_error) result" where
  "list_project_work_claims_bounded db project limit =
     and_then (try_i64 limit) (\<lambda>n. collect_claims (take (nat n) (project_rows db project)))"

text \<open>A comparison with NULL is not true.\<close>

definition lease_live :: "'a claims_lib_scheme \<Rightarrow> string \<Rightarrow> claim_row \<Rightarrow> bool" where
  "lease_live lib now r = (case cl_lease_expires_at r of
     None \<Rightarrow> False
   | Some lease \<Rightarrow> (case (julianday lib lease, julianday lib now) of (Some a, Some b) \<Rightarrow> b < a | _ \<Rightarrow> False))"

definition list_current_project_work_claims_bounded ::
  "'a claims_lib_scheme \<Rightarrow> work_db \<Rightarrow> string \<Rightarrow> string \<Rightarrow> string option \<Rightarrow> nat \<Rightarrow> (session_claim list, work_error) result" where
  "list_current_project_work_claims_bounded lib db project now flow limit =
     and_then (try_i64 limit) (\<lambda>n.
       collect_claims (take (nat n)
         (filter (\<lambda>r. cl_state r = ''active'' \<and> lease_live lib now r
                    \<and> (case flow of None \<Rightarrow> True | Some f \<Rightarrow> cl_flow_id r = Some f)) (project_rows db project))))"

definition project_flow_claim :: "work_db \<Rightarrow> string \<Rightarrow> string \<Rightarrow> (session_claim, work_error) result" where
  "project_flow_claim db project flow =
     (case take 2 (filter (\<lambda>r. cl_canonical_project r = Some project \<and> cl_flow_id r = Some flow) (claim_rows db)) of
        [] \<Rightarrow> Err WorkInvalidArg
      | r # rs \<Rightarrow> and_then (row_to_claim r) (\<lambda>first.
          and_then (collect_claims rs) (\<lambda>others. if others = [] then Ok first else Err WorkInvalidArg)))"

definition list_unbound_claims :: "work_db \<Rightarrow> claim_state option \<Rightarrow> (session_claim list, work_error) result" where
  "list_unbound_claims db state =
     collect_claims (sort_desc cl_heartbeat_at
       (filter (\<lambda>r. cl_canonical_project r = None
                  \<and> (case state of None \<Rightarrow> True | Some st \<Rightarrow> cl_state r = claim_state_as_str st)) (claim_rows db)))"

definition is_claim_stale :: "'a chrono_scheme \<Rightarrow> session_claim \<Rightarrow> int \<Rightarrow> int \<Rightarrow> bool" where
  "is_claim_stale ch claim now ttl = (case parse_from_rfc3339 ch (sc_heartbeat_at claim) of
     Some t \<Rightarrow> ttl < num_seconds (now - t) | None \<Rightarrow> True)"

definition fresh_at :: "'a chrono_scheme \<Rightarrow> string \<Rightarrow> int \<Rightarrow> session_claim list \<Rightarrow> (session_claim list, work_error) result" where
  "fresh_at ch now_iso ttl rows = (case parse_from_rfc3339 ch now_iso of
     None \<Rightarrow> Err WorkInvalidArg
   | Some now \<Rightarrow> Ok (filter (\<lambda>c. \<not> is_claim_stale ch c now ttl) rows))"

definition list_active_unbound_claims :: "'a chrono_scheme \<Rightarrow> work_db \<Rightarrow> string \<Rightarrow> int \<Rightarrow> (session_claim list, work_error) result" where
  "list_active_unbound_claims ch db now_iso ttl =
     and_then (list_unbound_claims db (Some ClaimActive)) (fresh_at ch now_iso ttl)"

definition get_claim :: "work_db \<Rightarrow> string \<Rightarrow> (session_claim option, work_error) result" where
  "get_claim db i = (case find_claim db i of None \<Rightarrow> Ok None | Some r \<Rightarrow> and_then (row_to_claim r) (\<lambda>c. Ok (Some c)))"

definition get_unbound_claim :: "work_db \<Rightarrow> string \<Rightarrow> (session_claim option, work_error) result" where
  "get_unbound_claim db i = (case find_claim db i of
     None \<Rightarrow> Ok None
   | Some r \<Rightarrow> if cl_canonical_project r \<noteq> None then Ok None else and_then (row_to_claim r) (\<lambda>c. Ok (Some c)))"

definition list_claims :: "work_db \<Rightarrow> claim_state option \<Rightarrow> (session_claim list, work_error) result" where
  "list_claims db state = (case state of
     Some st \<Rightarrow> collect_claims (sort_desc cl_heartbeat_at (filter (\<lambda>r. cl_state r = claim_state_as_str st) (claim_rows db)))
   | None \<Rightarrow> collect_claims (sort_desc cl_heartbeat_at (claim_rows db)))"

definition list_active_claims :: "'a chrono_scheme \<Rightarrow> work_db \<Rightarrow> string \<Rightarrow> int \<Rightarrow> (session_claim list, work_error) result" where
  "list_active_claims ch db now_iso ttl = and_then (list_claims db (Some ClaimActive)) (fresh_at ch now_iso ttl)"

definition with_local_project_admission :: "string \<Rightarrow> string \<Rightarrow> 'r work_write \<Rightarrow> 'r work_write" where
  "with_local_project_admission identity connection operation db =
     and_then (require_local_claim_admission db identity connection) (\<lambda>_. operation db)"

definition has_current_project_claim ::
  "'a claims_lib_scheme \<Rightarrow> work_db \<Rightarrow> string \<Rightarrow> string \<Rightarrow> string \<Rightarrow> string \<Rightarrow> (bool, work_error) result" where
  "has_current_project_claim lib db project identity connection now =
     and_then (require_local_claim_admission db identity connection) (\<lambda>_.
       Ok (list_ex (\<lambda>r. cl_canonical_project r = Some project \<and> cl_agent_identity_id r = Some identity \<and> cl_state r = ''active''
                      \<and> cl_mode r \<in> {Some ''read_only'', Some ''writable''} \<and> lease_live lib now r) (claim_rows db)))"

definition with_local_project_claim_write ::
  "'a chrono_scheme \<Rightarrow> int \<Rightarrow> string \<Rightarrow> string \<Rightarrow> string \<Rightarrow> string \<Rightarrow> string \<Rightarrow> (session_claim \<Rightarrow> 'r work_write) \<Rightarrow> 'r work_write" where
  "with_local_project_claim_write ch now i flow project identity connection operation db =
     and_then (require_local_claim_admission db identity connection) (\<lambda>_.
     if work_claim_project db i \<noteq> Some project then Err WorkInvalidArg
     else and_then (get_claim db i) (\<lambda>found. (case found of
        None \<Rightarrow> Err WorkInvalidArg
      | Some claim \<Rightarrow>
          if sc_flow_id claim \<noteq> Some flow \<or> sc_agent_identity_id claim \<noteq> Some identity
             \<or> sc_state claim \<noteq> ClaimActive \<or> sc_mode claim \<noteq> Some Writable
             \<or> length (filter (\<lambda>r. cl_flow_id r = Some flow) (claim_rows db)) \<noteq> 1
             \<or> \<not> is_some_and (\<lambda>lease. is_some_and (\<lambda>t. now < t) (parse_from_rfc3339 ch lease)) (sc_lease_expires_at claim)
          then Err WorkInvalidArg
          else operation claim db)))"

definition find_claim_requester_for_dispatch :: "work_db \<Rightarrow> string \<Rightarrow> claim_requester_binding option" where
  "find_claim_requester_for_dispatch db dispatch =
     (if blank dispatch then None
      else (case sort_desc cl_created_at (filter (\<lambda>r. cl_dispatch_id r = Some dispatch \<and> cl_agent_identity_id r \<noteq> None) (claim_rows db)) of
          [] \<Rightarrow> None
        | r # _ \<Rightarrow> Some \<lparr> rb_claim_id = cl_claim_id r, rb_agent_identity_id = or_empty (cl_agent_identity_id r),
                          rb_session_client = cl_session_client r, rb_state = cl_state r \<rparr>))"

end
