(* ===== verification/Claims_Laws.thy ===== *)
theory Claims_Laws
  imports Work_Claims
begin

text \<open>
  What protects work: the meaning of the overlap test, and the invariants every write of the
  claims keeps. \<open>work_step\<close> is one call; its invariant \<open>work_ok\<close> says that protected claims
  do not clash, presence rows are unique, an environment follows its claim, and a flow has
  one project.
\<close>

section \<open>Overlap\<close>

text \<open>The paths a declared directory or file covers.\<close>

definition covers :: "string \<Rightarrow> string \<Rightarrow> bool" where
  "covers d p \<longleftrightarrow> p = d \<or> prefix (d @ ''/'') p"

definition catch_all :: "string \<Rightarrow> bool" where
  "catch_all path \<longleftrightarrow> normalize_path path = [] \<or> CHR ''*'' \<in> set (normalize_path path)"

lemma covers_refl [simp]: "covers d d"
  by (simp add: covers_def)

lemma covers_child: "is_some_and (\<lambda>tail. prefix ''/'' tail) (strip_prefix d p) \<longleftrightarrow> prefix (d @ ''/'') p"
  by (auto simp: is_some_and_def strip_prefix_def prefix_def)

lemma covers_meet:
  assumes "covers d p" "covers e p"
  shows "covers d e \<or> covers e d"
proof -
  have "prefix d p" "prefix e p" using assms by (auto simp: covers_def prefix_def)
  then consider "prefix d e" | "prefix e d" using prefix_same_cases by blast
  then show ?thesis
  proof cases
    case 1
    then obtain u where u: "e = d @ u" by (auto simp: prefix_def)
    show ?thesis
    proof (cases u)
      case (Cons c v)
      have "c = CHR ''/''" using assms u Cons by (auto simp: covers_def prefix_def)
      then show ?thesis using u Cons by (simp add: covers_def)
    qed (use u in simp)
  next
    case 2
    then obtain u where u: "d = e @ u" by (auto simp: prefix_def)
    show ?thesis
    proof (cases u)
      case (Cons c v)
      have "c = CHR ''/''" using assms u Cons by (auto simp: covers_def prefix_def)
      then show ?thesis using u Cons by (simp add: covers_def)
    qed (use u in simp)
  qed
qed

lemma overlap_iff: "paths_overlap l r \<longleftrightarrow>
  catch_all l \<or> catch_all r \<or> covers (normalize_path l) (normalize_path r) \<or> covers (normalize_path r) (normalize_path l)"
  unfolding paths_overlap_def Let_def covers_child by (auto simp: catch_all_def covers_def)

text \<open>Two declared paths overlap exactly when one of them stands for everything (it is empty or has a
  wildcard after its ends are trimmed) or some path lies in both; the string test of the code decides it.\<close>

lemma overlap_is_shared_path:
  "paths_overlap l r \<longleftrightarrow> catch_all l \<or> catch_all r \<or> (\<exists>p. covers (normalize_path l) p \<and> covers (normalize_path r) p)"
  unfolding overlap_iff using covers_meet covers_refl by blast

lemma paths_overlap_sym: "paths_overlap l r \<longleftrightarrow> paths_overlap r l"
  unfolding overlap_iff by auto

lemma scopes_overlap_sym: "scopes_overlap lib l r \<longleftrightarrow> scopes_overlap lib r l"
  unfolding scopes_overlap_def list_ex_iff using paths_overlap_sym by blast

section \<open>Clashes\<close>

definition same_issue :: "claim_row \<Rightarrow> claim_row \<Rightarrow> bool" where
  "same_issue a b \<longleftrightarrow> cl_issue_ref a \<noteq> None \<and> cl_issue_ref a = cl_issue_ref b"

definition clash :: "'a claims_lib_scheme \<Rightarrow> claim_row \<Rightarrow> claim_row \<Rightarrow> bool" where
  "clash lib a b \<longleftrightarrow>
     same_issue a b \<and> cl_expected_head a \<noteq> None \<and> cl_expected_head b \<noteq> None \<and> cl_expected_head a \<noteq> cl_expected_head b
   \<or> cl_mode a = Some ''writable'' \<and> cl_mode b = Some ''writable''
     \<and> (paths_overlap (or_empty (cl_worktree_path a)) (or_empty (cl_worktree_path b))
        \<or> same_issue a b \<and> scopes_overlap lib (or_empty (cl_declared_file_scope a)) (or_empty (cl_declared_file_scope b)))"

lemma clash_sym: "clash lib a b \<longleftrightarrow> clash lib b a"
  unfolding clash_def same_issue_def using paths_overlap_sym scopes_overlap_sym by metis

lemma mode_as_str_writable [simp]: "work_claim_mode_as_str m = ''writable'' \<longleftrightarrow> m = Writable"
  by (cases m) simp_all

lemma row_collides_clash:
  "row_collides lib claim r \<longleftrightarrow> clash lib (claim_row_of claim created) r"
  "row_collides lib (handoff_candidate q successor) r \<longleftrightarrow> clash lib (handed_row now successor q) r"
  by (cases "cl_expected_head r"; cases "cl_issue_ref r"; cases "nc_issue_ref claim"; cases "cl_issue_ref q";
      auto simp: row_collides_def clash_def same_issue_def Let_def is_some_and_def claim_row_of_def handoff_candidate_def handed_row_def or_empty_def)+

section \<open>The machine of one claim\<close>

text \<open>
  What a call does to the row under one id, which may be absent: at most one edge. An id is
  free again after the sweep has pruned its released row.
\<close>

inductive claim_moves :: "claim_row option \<Rightarrow> claim_row option \<Rightarrow> bool" where
  admit: "cl_state r = ''active'' \<Longrightarrow> cl_transition_version r = 0 \<Longrightarrow> claim_moves None (Some r)"
| beat: "cl_state r = ''active'' \<Longrightarrow> cl_agent_identity_id r = Some c \<Longrightarrow> claim_moves (Some r) (Some (beaten_row now lease r))"
| hand: "cl_state r \<in> {''active'', ''orphaned''} \<Longrightarrow> cl_agent_identity_id r = Some h \<Longrightarrow>
    cl_state r = ''active'' \<longrightarrow> hr_agent_identity_id s = h \<Longrightarrow> claim_moves (Some r) (Some (handed_row now s r))"
| release: "cl_state r \<in> {''active'', ''orphaned''} \<Longrightarrow> cl_agent_identity_id r = Some h \<Longrightarrow>
    claim_moves (Some r) (Some (released_claim now reason r))"
| bind: "cl_state r = ''active'' \<Longrightarrow> cl_agent_identity_id r = Some h \<Longrightarrow> cl_exec_env_id r = None \<Longrightarrow>
    claim_moves (Some r) (Some (r\<lparr> cl_exec_env_id := Some e, cl_transition_version := cl_transition_version r + 1 \<rparr>))"
| presence: "legacy_active r \<Longrightarrow> claim_moves (Some r) (Some (heartbeaten_row x r))"
| pulse: "cl_state r = ''active'' \<Longrightarrow> claim_moves (Some r) (Some (r\<lparr> cl_heartbeat_at := t \<rparr>))"
| drop: "legacy_active r \<Longrightarrow> claim_moves (Some r) (Some (dropped_row now reason' r))"
| orphan: "cl_state r = ''active'' \<Longrightarrow> claim_moves (Some r) (Some (orphaned_row now r))"
| prune: "cl_state r = ''released'' \<Longrightarrow> claim_moves (Some r) None"

text \<open>A new environment has neither holder column.\<close>

definition add_exec_env :: "string \<Rightarrow> work_db \<Rightarrow> work_db" where
  "add_exec_env e db = db\<lparr> wd_envs := bt_insert e \<lparr> ee_agent_identity_id = None, ee_claim_id = None \<rparr> (wd_envs db) \<rparr>"

text \<open>One call: every write of the file, and the creation of an environment by its owner.\<close>

inductive work_step :: "'a claims_lib_scheme \<Rightarrow> work_db \<Rightarrow> work_db \<Rightarrow> bool" for lib where
  "insert_agent_identity lib now ai db = Ok ((), db') \<Longrightarrow> work_step lib db db'"
| "record_unverified_admission lib now a identity c st db = Ok ((), db') \<Longrightarrow> work_step lib db db'"
| "record_rejected_admission lib now a c evidence db = Ok ((), db') \<Longrightarrow> work_step lib db db'"
| "insert_work_claim lib now claim db = Ok ((), db') \<Longrightarrow> work_step lib db db'"
| "insert_local_project_work_claim lib now claim c project db = Ok ((), db') \<Longrightarrow> work_step lib db db'"
| "heartbeat_work_claim lib now i caller v lease db = Ok (hb, db') \<Longrightarrow> work_step lib db db'"
| "handoff_work_claim lib now i caller v s db = Ok (ho, db') \<Longrightarrow> work_step lib db db'"
| "release_work_claim lib now i caller v reason db = Ok (w, db') \<Longrightarrow> work_step lib db db'"
| "bind_work_claim_exec_env i e v db = Ok (w, db') \<Longrightarrow> work_step lib db db'"
| "insert_claim lib now p db = Ok ((), db') \<Longrightarrow> work_step lib db db'"
| "upsert_or_heartbeat_claim lib now p db = Ok (j, db') \<Longrightarrow> work_step lib db db'"
| "heartbeat_claim lib now selector db = Ok ((), db') \<Longrightarrow> work_step lib db db'"
| "release_claim lib now selector why db = Ok (out, db') \<Longrightarrow> work_step lib db db'"
| "gc_session_claims lib t days max_days db = (res, db') \<Longrightarrow> work_step lib db db'"
| "map_of (wd_envs db) e = None \<Longrightarrow> work_step lib db (add_exec_env e db)"

section \<open>What the writes do to the tables\<close>

lemma find_update [simp]:
  "find_claim (snd (update_claims g f db)) i = map_option (\<lambda>r. if g r then f r else r) (find_claim db i)"
proof -
  have "map_of (map (\<lambda>(i, r). (i, if g r then f r else r)) m) i = map_option (\<lambda>r. if g r then f r else r) (map_of m i)" for m
    by (induction m) auto
  then show ?thesis by (simp add: find_claim_def update_claims_def)
qed

lemma update_claims_frame [simp]:
  "wd_identities (snd (update_claims g f db)) = wd_identities db"
  "wd_admissions (snd (update_claims g f db)) = wd_admissions db"
  "wd_envs (snd (update_claims g f db)) = wd_envs db"
  "bt_wf (wd_claims (snd (update_claims g f db))) \<longleftrightarrow> bt_wf (wd_claims db)"
  by (simp_all add: update_claims_def bt_wf_def comp_def case_prod_unfold)

lemma fst_update: "fst (update_claims g f db) = length (filter g (claim_rows db))"
  by (simp add: update_claims_def)

lemma update_pair: "update_claims g f db = (n, db') \<longleftrightarrow> n = length (filter g (claim_rows db)) \<and> db' = snd (update_claims g f db)"
  by (auto simp: update_claims_def)

lemma in_claim_rows: "bt_wf (wd_claims db) \<Longrightarrow> r \<in> set (claim_rows db) \<longleftrightarrow> (\<exists>i. find_claim db i = Some r)"
  by (force simp: claim_rows_def find_claim_def bt_wf_distinct)

lemma find_in_claim_rows: "find_claim db i = Some r \<Longrightarrow> r \<in> set (claim_rows db)"
  by (force simp: claim_rows_def find_claim_def dest: map_of_SomeD)

lemma insert_claim_row_Ok:
  assumes "insert_claim_row r db = Ok (u, db')"
  shows "find_claim db (cl_claim_id r) = None"
    "legacy_active r \<Longrightarrow> q \<in> set (claim_rows db) \<Longrightarrow> \<not> (legacy_active q \<and> legacy_key q = legacy_key r)"
    "db' = db\<lparr> wd_claims := bt_insert (cl_claim_id r) r (wd_claims db) \<rparr>"
  using assms by (auto simp: insert_claim_row_def list_ex_iff split: if_splits)

section \<open>The invariant\<close>

definition row_ok :: "string \<Rightarrow> claim_row \<Rightarrow> bool" where
  "row_ok i r \<longleftrightarrow> cl_claim_id r = i \<and> cl_state r \<in> {''active'', ''orphaned'', ''released''} \<and> 0 \<le> cl_transition_version r
     \<and> cl_mode r \<in> {None, Some ''read_only'', Some ''writable''}
     \<and> (cl_mode r = None \<longrightarrow> cl_agent_identity_id r = None \<and> cl_expected_head r = None \<and> cl_exec_env_id r = None
          \<and> cl_canonical_project r = None)
     \<and> (cl_mode r \<noteq> None \<longrightarrow> cl_agent_identity_id r \<noteq> None \<and> cl_expected_head r \<noteq> None)"

definition exclusive :: "'a claims_lib_scheme \<Rightarrow> work_db \<Rightarrow> bool" where
  "exclusive lib db \<longleftrightarrow> (\<forall>i j r s. i \<noteq> j \<longrightarrow> find_claim db i = Some r \<longrightarrow> find_claim db j = Some s \<longrightarrow>
     protected r \<longrightarrow> protected s \<longrightarrow> \<not> clash lib r s)"

definition presence_unique :: "work_db \<Rightarrow> bool" where
  "presence_unique db \<longleftrightarrow> (\<forall>i j r s. find_claim db i = Some r \<longrightarrow> find_claim db j = Some s \<longrightarrow>
     legacy_active r \<longrightarrow> legacy_active s \<longrightarrow> legacy_key r = legacy_key s \<longrightarrow> i = j)"

definition flows_apart :: "work_db \<Rightarrow> bool" where
  "flows_apart db \<longleftrightarrow> (\<forall>i j r s p q. find_claim db i = Some r \<longrightarrow> find_claim db j = Some s \<longrightarrow>
     cl_flow_id r \<noteq> None \<longrightarrow> cl_flow_id r = cl_flow_id s \<longrightarrow>
     cl_canonical_project r = Some p \<longrightarrow> cl_canonical_project s = Some q \<longrightarrow> p = q)"

definition envs_paired :: "work_db \<Rightarrow> bool" where
  "envs_paired db \<longleftrightarrow> (\<forall>e x. map_of (wd_envs db) e = Some x \<longrightarrow> (ee_agent_identity_id x = None \<longleftrightarrow> ee_claim_id x = None))"

definition envs_follow :: "work_db \<Rightarrow> bool" where
  "envs_follow db \<longleftrightarrow> bt_wf (wd_envs db) \<and> envs_paired db \<and> (\<forall>i r e. find_claim db i = Some r \<longrightarrow> cl_exec_env_id r = Some e \<longrightarrow>
     map_of (wd_envs db) e = Some \<lparr> ee_agent_identity_id = cl_agent_identity_id r, ee_claim_id = Some i \<rparr>)"

definition rows_ok :: "work_db \<Rightarrow> bool" where
  "rows_ok db \<longleftrightarrow> bt_wf (wd_claims db) \<and> (\<forall>i r. find_claim db i = Some r \<longrightarrow> row_ok i r)"

definition work_ok :: "'a claims_lib_scheme \<Rightarrow> work_db \<Rightarrow> bool" where
  "work_ok lib db \<longleftrightarrow> rows_ok db \<and> exclusive lib db \<and> presence_unique db \<and> flows_apart db \<and> envs_follow db"

lemma in_rows: "rows_ok db \<Longrightarrow> r \<in> set (claim_rows db) \<longleftrightarrow> (\<exists>i. find_claim db i = Some r)"
  by (simp add: rows_ok_def in_claim_rows)

lemma row_okD: "rows_ok db \<Longrightarrow> find_claim db i = Some r \<Longrightarrow> row_ok i r"
  by (simp add: rows_ok_def)

lemma row_id: "rows_ok db \<Longrightarrow> find_claim db i = Some r \<Longrightarrow> cl_claim_id r = i"
  by (simp add: rows_ok_def row_ok_def)

text \<open>A calm change keeps what clashes are made of and protects nothing anew; a calm call makes no other.\<close>

definition calm :: "claim_row \<Rightarrow> claim_row \<Rightarrow> bool" where
  "calm r r' \<longleftrightarrow> cl_claim_id r' = cl_claim_id r \<and> legacy_key r' = legacy_key r \<and> cl_issue_ref r' = cl_issue_ref r
     \<and> cl_flow_id r' = cl_flow_id r \<and> cl_canonical_project r' = cl_canonical_project r
     \<and> cl_mode r' = cl_mode r \<and> cl_expected_head r' = cl_expected_head r
     \<and> (cl_mode r \<noteq> None \<longrightarrow> cl_worktree_path r' = cl_worktree_path r \<and> cl_declared_file_scope r' = cl_declared_file_scope r)
     \<and> (protected r' \<longrightarrow> protected r) \<and> (legacy_active r' \<longrightarrow> legacy_active r)"

lemma calm_refl [simp, intro]: "calm r r"
  by (simp add: calm_def)

lemma calm_clash: "calm a a' \<Longrightarrow> calm b b' \<Longrightarrow> clash lib a' b' = clash lib a b"
  unfolding calm_def clash_def same_issue_def by (cases "cl_mode a"; cases "cl_mode b"; simp)

definition settles :: "work_db \<Rightarrow> work_db \<Rightarrow> bool" where
  "settles db db' \<longleftrightarrow> (\<forall>i r'. find_claim db' i = Some r' \<longrightarrow> (\<exists>r. find_claim db i = Some r \<and> calm r r'))"

lemma settles_keeps:
  assumes "settles db db'"
  shows "exclusive lib db \<Longrightarrow> exclusive lib db'" "presence_unique db \<Longrightarrow> presence_unique db'" "flows_apart db \<Longrightarrow> flows_apart db'"
proof -
  have old: "\<exists>r. find_claim db i = Some r \<and> calm r r'" if "find_claim db' i = Some r'" for i r'
    using assms that by (simp add: settles_def)
  show "exclusive lib db'" if ex: "exclusive lib db"
    unfolding exclusive_def
  proof (intro allI impI)
    fix i j r' s' assume i: "i \<noteq> j" "find_claim db' i = Some r'" "find_claim db' j = Some s'" "protected r'" "protected s'"
    obtain r s where "find_claim db i = Some r" "calm r r'" "find_claim db j = Some s" "calm s s'" using old i by blast
    moreover from this have "protected r" "protected s" using i by (auto simp: calm_def)
    ultimately show "\<not> clash lib r' s'" using ex i(1) by (simp add: exclusive_def calm_clash)
  qed
  show "presence_unique db'" if u: "presence_unique db"
    unfolding presence_unique_def
  proof (intro allI impI)
    fix i j r' s'
    assume i: "find_claim db' i = Some r'" "find_claim db' j = Some s'" "legacy_active r'" "legacy_active s'"
      "legacy_key r' = legacy_key s'"
    obtain r s where "find_claim db i = Some r" "calm r r'" "find_claim db j = Some s" "calm s s'" using old i by blast
    then show "i = j" using u i by (simp add: presence_unique_def calm_def)
  qed
  show "flows_apart db'" if f: "flows_apart db"
    unfolding flows_apart_def
  proof (intro allI impI)
    fix i j r' s' p q
    assume i: "find_claim db' i = Some r'" "find_claim db' j = Some s'" "cl_flow_id r' \<noteq> None" "cl_flow_id r' = cl_flow_id s'"
      "cl_canonical_project r' = Some p" "cl_canonical_project s' = Some q"
    obtain r s where "find_claim db i = Some r" "calm r r'" "find_claim db j = Some s" "calm s s'" using old i by blast
    then show "p = q" using f i unfolding flows_apart_def calm_def by metis
  qed
qed

text \<open>Calls that change rows calmly and leave holder and environment of each row.\<close>

lemma calm_call:
  assumes "work_ok lib db" "settles db db'" "bt_wf (wd_claims db')" "wd_envs db' = wd_envs db"
    and "\<And>i r r'. find_claim db i = Some r \<Longrightarrow> find_claim db' i = Some r' \<Longrightarrow>
      row_ok i r' \<and> cl_agent_identity_id r' = cl_agent_identity_id r \<and> cl_exec_env_id r' = cl_exec_env_id r"
  shows "work_ok lib db'"
proof -
  have old: "\<exists>r. find_claim db i = Some r" if "find_claim db' i = Some r'" for i r'
    using assms(2) that by (auto simp: settles_def)
  have "rows_ok db'" using assms(3,5) old unfolding rows_ok_def by blast
  moreover have "envs_paired db' = envs_paired db" by (simp add: envs_paired_def assms(4))
  then have "envs_follow db'" using assms(1,4,5) old unfolding work_ok_def envs_follow_def by metis
  ultimately show ?thesis using assms(1) settles_keeps [OF assms(2)] unfolding work_ok_def by blast
qed

lemma update_ok:
  assumes "work_ok lib db"
    and "\<And>i r. find_claim db i = Some r \<Longrightarrow> row_ok i r \<Longrightarrow> g r \<Longrightarrow>
      calm r (f r) \<and> row_ok i (f r) \<and> cl_agent_identity_id (f r) = cl_agent_identity_id r \<and> cl_exec_env_id (f r) = cl_exec_env_id r"
  shows "work_ok lib (snd (update_claims g f db))"
proof (rule calm_call [OF assms(1)])
  have ok: "row_ok i r" if "find_claim db i = Some r" for i r
    using assms(1) that by (simp add: work_ok_def rows_ok_def)
  show "settles db (snd (update_claims g f db))"
    unfolding settles_def using assms(2) ok by (auto simp: split: if_splits)
  fix i r r' assume "find_claim db i = Some r" "find_claim (snd (update_claims g f db)) i = Some r'"
  then show "row_ok i r' \<and> cl_agent_identity_id r' = cl_agent_identity_id r \<and> cl_exec_env_id r' = cl_exec_env_id r"
    using assms(2) ok by (auto split: if_splits)
qed (use assms(1) in \<open>auto simp: work_ok_def rows_ok_def\<close>)

text \<open>Calls that put one row in place.\<close>

lemma place_row:
  assumes ok: "work_ok lib db" and f: "find_claim db' = (find_claim db)(i \<mapsto> r')" and wf: "bt_wf (wd_claims db')" "row_ok i r'"
    and "\<And>j s. j \<noteq> i \<Longrightarrow> find_claim db j = Some s \<Longrightarrow> protected s \<Longrightarrow> protected r' \<Longrightarrow> \<not> clash lib r' s"
    and "\<And>j s. j \<noteq> i \<Longrightarrow> find_claim db j = Some s \<Longrightarrow> legacy_active s \<Longrightarrow> legacy_active r' \<Longrightarrow> legacy_key r' \<noteq> legacy_key s"
    and "\<And>j s p q. j \<noteq> i \<Longrightarrow> find_claim db j = Some s \<Longrightarrow> cl_flow_id r' \<noteq> None \<Longrightarrow> cl_flow_id r' = cl_flow_id s \<Longrightarrow>
      cl_canonical_project r' = Some p \<Longrightarrow> cl_canonical_project s = Some q \<Longrightarrow> p = q"
    and "envs_follow db'"
  shows "work_ok lib db'"
proof -
  have "rows_ok db'" using ok f wf by (auto simp: work_ok_def rows_ok_def)
  moreover have "exclusive lib db'"
    unfolding exclusive_def
  proof (intro allI impI)
    fix j k r s assume a: "j \<noteq> k" "find_claim db' j = Some r" "find_claim db' k = Some s" "protected r" "protected s"
    show "\<not> clash lib r s"
    proof (cases "j = i \<or> k = i")
      case True
      then show ?thesis using a assms(5) [of j r] assms(5) [of k s] clash_sym [of lib r s] by (auto simp: f)
    next
      case False
      then show ?thesis using a ok unfolding work_ok_def exclusive_def f by (metis fun_upd_other)
    qed
  qed
  moreover have "presence_unique db'"
    unfolding presence_unique_def
  proof (intro allI impI)
    fix j k r s
    assume a: "find_claim db' j = Some r" "find_claim db' k = Some s" "legacy_active r" "legacy_active s" "legacy_key r = legacy_key s"
    have u: "find_claim db j = Some r \<Longrightarrow> find_claim db k = Some s \<Longrightarrow> j = k"
      using ok a(3-5) unfolding work_ok_def presence_unique_def by blast
    show "j = k"
    proof (cases "j = i"; cases "k = i")
      assume "j = i" "k \<noteq> i" then show ?thesis using a assms(6) [of k s] by (simp add: f)
    next
      assume "j \<noteq> i" "k = i" then show ?thesis using a assms(6) [of j r] by (simp add: f)
    next
      assume "j \<noteq> i" "k \<noteq> i" then show ?thesis using a u by (simp add: f)
    qed simp
  qed
  moreover have "flows_apart db'"
    unfolding flows_apart_def
  proof (intro allI impI)
    fix j k r s p q
    assume a: "find_claim db' j = Some r" "find_claim db' k = Some s" "cl_flow_id r \<noteq> None" "cl_flow_id r = cl_flow_id s"
      "cl_canonical_project r = Some p" "cl_canonical_project s = Some q"
    have u: "find_claim db j = Some r \<Longrightarrow> find_claim db k = Some s \<Longrightarrow> p = q"
      using ok a(3-6) unfolding work_ok_def flows_apart_def by blast
    show "p = q"
    proof (cases "j = i"; cases "k = i")
      assume "j = i" "k = i" then show ?thesis using a by (simp add: f)
    next
      assume "j = i" "k \<noteq> i" then show ?thesis using a assms(7) [of k s p q] by (simp add: f)
    next
      assume "j \<noteq> i" "k = i" then show ?thesis using a assms(7) [of j r q p] by (simp add: f)
    next
      assume "j \<noteq> i" "k \<noteq> i" then show ?thesis using a u by (simp add: f)
    qed
  qed
  ultimately show ?thesis using assms(8) by (simp add: work_ok_def)
qed

lemma envs_keep:
  assumes "envs_follow db" "wd_envs db' = wd_envs db" "find_claim db' = (find_claim db)(i \<mapsto> r')"
    and "cl_exec_env_id r' = None \<or> (\<exists>r. find_claim db i = Some r \<and> cl_exec_env_id r' = cl_exec_env_id r
      \<and> cl_agent_identity_id r' = cl_agent_identity_id r)"
  shows "envs_follow db'"
  using assms by (auto simp: envs_follow_def envs_paired_def)

section \<open>Each call keeps it and follows the machine\<close>

definition conforms :: "'a claims_lib_scheme \<Rightarrow> work_db \<Rightarrow> work_db \<Rightarrow> bool" where
  "conforms lib db db' \<longleftrightarrow> work_ok lib db' \<and> (\<forall>i. claim_moves\<^sup>=\<^sup>= (find_claim db i) (find_claim db' i))"

lemma update_conforms:
  assumes "work_ok lib db"
    and "\<And>i r. find_claim db i = Some r \<Longrightarrow> row_ok i r \<Longrightarrow> g r \<Longrightarrow>
      calm r (f r) \<and> row_ok i (f r) \<and> cl_agent_identity_id (f r) = cl_agent_identity_id r \<and> cl_exec_env_id (f r) = cl_exec_env_id r"
    and "\<And>i r. find_claim db i = Some r \<Longrightarrow> row_ok i r \<Longrightarrow> g r \<Longrightarrow> claim_moves (Some r) (Some (f r))"
  shows "conforms lib db (snd (update_claims g f db))"
proof -
  have "row_ok i r" if "find_claim db i = Some r" for i r
    using assms(1) that by (simp add: work_ok_def rows_ok_def)
  then have "claim_moves\<^sup>=\<^sup>= (find_claim db i) (find_claim (snd (update_claims g f db)) i)" for i
    using assms(3) by (cases "find_claim db i") auto
  then show ?thesis using update_ok [OF assms(1,2)] by (simp add: conforms_def)
qed

lemma own_update:
  assumes "rows_ok db" "find_claim db i = Some r" "P r"
  shows "find_claim (snd (update_claims (\<lambda>r. cl_claim_id r = i \<and> P r) f db)) = (find_claim db)(i \<mapsto> f r)"
    "length (filter (\<lambda>r. cl_claim_id r = i \<and> P r) (claim_rows db)) = 1"
proof -
  show "find_claim (snd (update_claims (\<lambda>r. cl_claim_id r = i \<and> P r) f db)) = (find_claim db)(i \<mapsto> f r)"
  proof
    fix j show "find_claim (snd (update_claims (\<lambda>r. cl_claim_id r = i \<and> P r) f db)) j = ((find_claim db)(i \<mapsto> f r)) j"
      using assms row_id [OF assms(1)] by (cases "find_claim db j") auto
  qed
  have d: "distinct (claim_rows db)" "inj_on cl_claim_id (set (claim_rows db))"
  proof -
    have ids: "map cl_claim_id (claim_rows db) = map fst (wd_claims db)"
      using assms(1) by (auto simp: claim_rows_def rows_ok_def row_ok_def find_claim_def bt_wf_distinct)
    then have "distinct (map cl_claim_id (claim_rows db))" using assms(1) by (simp add: rows_ok_def bt_wf_distinct)
    then show "distinct (claim_rows db)" "inj_on cl_claim_id (set (claim_rows db))" by (auto simp: distinct_map)
  qed
  have "set (filter (\<lambda>r. cl_claim_id r = i \<and> P r) (claim_rows db)) = {r}"
    using d(2) assms row_id [OF assms(1,2)] find_in_claim_rows [OF assms(2)] by (auto simp: inj_on_def)
  then show "length (filter (\<lambda>r. cl_claim_id r = i \<and> P r) (claim_rows db)) = 1"
    using distinct_card [OF distinct_filter [OF d(1)], of "\<lambda>r. cl_claim_id r = i \<and> P r"] by simp
qed

lemma other_tables:
  assumes "work_ok lib db" "wd_claims db' = wd_claims db" "wd_envs db' = wd_envs db"
  shows "conforms lib db db'"
proof -
  have f: "find_claim db' = find_claim db" using assms(2) by (auto simp: find_claim_def)
  then have "rows_ok db' = rows_ok db" "exclusive lib db' = exclusive lib db" "presence_unique db' = presence_unique db"
    "flows_apart db' = flows_apart db" "envs_follow db' = envs_follow db"
    unfolding rows_ok_def exclusive_def presence_unique_def flows_apart_def envs_follow_def envs_paired_def assms(2,3) f by simp_all
  then show ?thesis using assms(1) f by (simp add: conforms_def work_ok_def)
qed

lemma insert_agent_identity_conforms:
  "work_ok lib db \<Longrightarrow> insert_agent_identity lib now ai db = Ok (u, db') \<Longrightarrow> conforms lib db db'"
  by (rule other_tables) (auto simp: insert_agent_identity_def Let_def split: if_splits)

lemma insert_admission_tables: "insert_admission a db = Ok (u, db') \<Longrightarrow> wd_claims db' = wd_claims db \<and> wd_envs db' = wd_envs db"
  by (auto simp: insert_admission_def split: if_splits)

lemma admissions_conform:
  "work_ok lib db \<Longrightarrow> record_unverified_admission lib now a identity c st db = Ok (u, db') \<Longrightarrow> conforms lib db db'"
  "work_ok lib db \<Longrightarrow> record_rejected_admission lib now a c evidence db = Ok (u, db') \<Longrightarrow> conforms lib db db'"
  by (rule other_tables; auto simp: record_unverified_admission_def record_rejected_admission_def
      dest!: insert_admission_tables split: if_splits)+

lemma insert_claim_row_find:
  "rows_ok db \<Longrightarrow> insert_claim_row r db = Ok (u, db') \<Longrightarrow>
     find_claim db (cl_claim_id r) = None \<and> find_claim db' = (find_claim db)(cl_claim_id r \<mapsto> r) \<and> bt_wf (wd_claims db')
     \<and> wd_envs db' = wd_envs db"
  using insert_claim_row_Ok(1,3) [of r db u db'] by (auto simp: find_claim_def rows_ok_def bt_simps intro!: ext)

lemma presence_row_simps [simp]:
  "cl_claim_id (presence_row p t) = ns_claim_id p" "cl_mode (presence_row p t) = None" "cl_state (presence_row p t) = ''active''"
  "cl_agent_identity_id (presence_row p t) = None" "cl_expected_head (presence_row p t) = None"
  "cl_canonical_project (presence_row p t) = None" "cl_exec_env_id (presence_row p t) = None"
  "cl_transition_version (presence_row p t) = 0" "cl_heartbeat_at (presence_row p t) = t"
  by (simp_all add: presence_row_def)

lemma place_conforms:
  assumes "work_ok lib db'" "find_claim db' = (find_claim db)(i \<mapsto> r')" "claim_moves\<^sup>=\<^sup>= (find_claim db i) (Some r')"
  shows "conforms lib db db'"
  using assms by (simp add: conforms_def)

lemma no_head_no_clash: "cl_expected_head r = None \<Longrightarrow> cl_mode r = None \<Longrightarrow> \<not> clash lib r s"
  by (simp add: clash_def)

lemma insert_presence_conforms:
  assumes "work_ok lib db" "insert_claim_row (presence_row p t) db = Ok (u, db')"
  shows "conforms lib db db'"
proof -
  let ?r = "presence_row p t"
  have rows: "rows_ok db" using assms(1) by (simp add: work_ok_def)
  note w = insert_claim_row_find [OF rows assms(2)] and k = insert_claim_row_Ok(2) [OF assms(2)]
  have "work_ok lib db'"
  proof (rule place_row [OF assms(1), of db' "ns_claim_id p" ?r])
    show "find_claim db' = (find_claim db)(ns_claim_id p \<mapsto> ?r)" "bt_wf (wd_claims db')" using w by simp_all
    show "row_ok (ns_claim_id p) ?r" by (simp add: row_ok_def)
    show "\<And>j s. \<not> clash lib ?r s" by (simp add: no_head_no_clash)
    show "legacy_key ?r \<noteq> legacy_key s" if "find_claim db j = Some s" "legacy_active s" for j s
      using k [of s] that find_in_claim_rows by (fastforce simp: legacy_active_def)
    show "envs_follow db'"
      using assms(1) w by (auto simp: work_ok_def intro: envs_keep [of db db' "ns_claim_id p" ?r])
  qed simp
  moreover have "claim_moves (find_claim db (ns_claim_id p)) (Some ?r)" using w by (simp add: claim_moves.admit)
  ultimately show ?thesis using w by (intro place_conforms [of lib db' db "ns_claim_id p" ?r]) auto
qed

lemma insert_claim_conforms: "work_ok lib db \<Longrightarrow> insert_claim lib now p db = Ok (u, db') \<Longrightarrow> conforms lib db db'"
  by (simp add: insert_claim_def insert_presence_conforms)

text \<open>The state, claim, version and holder checks of a call that found a row.\<close>

lemma claim_row_of_simps [simp]:
  "cl_claim_id (claim_row_of c t) = nc_claim_id c" "cl_state (claim_row_of c t) = ''active''"
  "cl_mode (claim_row_of c t) = Some (work_claim_mode_as_str (nc_mode c))"
  "cl_agent_identity_id (claim_row_of c t) = Some (nc_agent_identity_id c)"
  "cl_expected_head (claim_row_of c t) = Some (nc_expected_head c)" "cl_canonical_project (claim_row_of c t) = None"
  "cl_exec_env_id (claim_row_of c t) = None" "cl_transition_version (claim_row_of c t) = 0"
  "cl_flow_id (claim_row_of c t) = nc_flow_id c" "cl_issue_ref (claim_row_of c t) = nc_issue_ref c"
  by (simp_all add: claim_row_of_def)

lemma mode_as_str_in [simp]: "work_claim_mode_as_str m = ''read_only'' \<or> m = Writable"
  by (cases m) simp_all

lemma no_collision:
  assumes "rows_ok db" "reject_work_claim_collision lib claim db = Ok u" "find_claim db j = Some s" "j \<noteq> nc_claim_id claim" "protected s"
  shows "\<not> row_collides lib claim s"
  using assms row_id [OF assms(1,3)] find_in_claim_rows [OF assms(3)]
  by (auto simp: reject_work_claim_collision_def list_ex_iff split: if_splits)

lemma insert_work_claim_Ok:
  assumes "insert_work_claim lib now claim db = Ok (u, db')"
  obtains t where "known_identity db (nc_agent_identity_id claim)" "reject_work_claim_collision lib claim db = Ok ()"
    "insert_claim_row (claim_row_of claim t) db = Ok (u, db')"
  using assms by (auto simp: insert_work_claim_def and_then_Inr_iff Let_def split: if_splits)

lemma insert_work_claim_conforms:
  assumes "work_ok lib db" "insert_work_claim lib now claim db = Ok (u, db')"
  shows "conforms lib db db'" "\<exists>t. find_claim db' = (find_claim db)(nc_claim_id claim \<mapsto> claim_row_of claim t)"
    "find_claim db (nc_claim_id claim) = None" "wd_envs db' = wd_envs db"
proof -
  obtain t where c: "reject_work_claim_collision lib claim db = Ok ()" and i: "insert_claim_row (claim_row_of claim t) db = Ok (u, db')"
    using insert_work_claim_Ok [OF assms(2)] by metis
  let ?r = "claim_row_of claim t"
  have rows: "rows_ok db" using assms(1) by (simp add: work_ok_def)
  note w = insert_claim_row_find [OF rows i]
  show "\<exists>t. find_claim db' = (find_claim db)(nc_claim_id claim \<mapsto> claim_row_of claim t)" "find_claim db (nc_claim_id claim) = None"
    "wd_envs db' = wd_envs db" using w by auto
  have "work_ok lib db'"
  proof (rule place_row [OF assms(1), of db' "nc_claim_id claim" ?r])
    show "find_claim db' = (find_claim db)(nc_claim_id claim \<mapsto> ?r)" "bt_wf (wd_claims db')" using w by simp_all
    show "row_ok (nc_claim_id claim) ?r" by (simp add: row_ok_def)
    show "\<not> clash lib ?r s" if "j \<noteq> nc_claim_id claim" "find_claim db j = Some s" "protected s" for j s
      using no_collision [OF rows c that(2,1,3)] unfolding row_collides_clash(1) [of lib claim s t] .
    show "envs_follow db'"
      using assms(1) w by (auto simp: work_ok_def intro: envs_keep [of db db' "nc_claim_id claim" ?r])
  qed (simp_all add: legacy_active_def)
  moreover have "claim_moves (find_claim db (nc_claim_id claim)) (Some ?r)" using w by (simp add: claim_moves.admit)
  ultimately show "conforms lib db db'" using w by (intro place_conforms [of lib db' db "nc_claim_id claim" ?r]) auto
qed

lemma insert_local_conforms:
  assumes ok: "work_ok lib db" and call: "insert_local_project_work_claim lib now claim c project db = Ok (u, db')"
  shows "conforms lib db db'"
proof -
  let ?g = "\<lambda>r. cl_claim_id r = nc_claim_id claim \<and> cl_canonical_project r = None"
  let ?f = "\<lambda>r. r\<lparr> cl_canonical_project := Some project \<rparr>"
  obtain db1 where i: "insert_work_claim lib now claim db = Ok ((), db1)" and db': "db' = snd (update_claims ?g ?f db1)"
    and flow: "\<And>r p. nc_flow_id claim \<noteq> None \<Longrightarrow> r \<in> set (claim_rows db) \<Longrightarrow> cl_flow_id r = nc_flow_id claim \<Longrightarrow>
      cl_canonical_project r = Some p \<Longrightarrow> p = project"
    using call by (auto simp: insert_local_project_work_claim_def and_then_Inr_iff list_ex_iff is_some_and_def split: if_splits option.splits)
  note one = insert_work_claim_conforms [OF ok i]
  obtain t where f1: "find_claim db1 = (find_claim db)(nc_claim_id claim \<mapsto> claim_row_of claim t)" using one(2) by blast
  let ?r = "claim_row_of claim t"
  have ok1: "work_ok lib db1" using one(1) by (simp add: conforms_def)
  have rows1: "rows_ok db1" using ok1 by (simp add: work_ok_def)
  have at: "find_claim db1 (nc_claim_id claim) = Some ?r" by (simp add: f1)
  have f: "find_claim db' = (find_claim db1)(nc_claim_id claim \<mapsto> ?f ?r)"
    unfolding db' by (rule own_update(1) [OF rows1 at]) simp
  have same: "protected (?f r) = protected r" "clash lib (?f r) s = clash lib r s" for r s
    by (simp_all add: protected_def clash_def same_issue_def)
  have "work_ok lib db'"
  proof (rule place_row [OF ok1 f])
    show "bt_wf (wd_claims db')" using rows1 by (simp add: db' rows_ok_def)
    show "row_ok (nc_claim_id claim) (?f ?r)" by (simp add: row_ok_def)
    show "\<not> clash lib (?f ?r) s"
      if "j \<noteq> nc_claim_id claim" "find_claim db1 j = Some s" "protected s" "protected (?f ?r)" for j s
      using ok1 at that(1,2,3) that(4)[unfolded same] unfolding same work_ok_def exclusive_def by metis
    show "p = q" if "j \<noteq> nc_claim_id claim" "find_claim db1 j = Some s" "cl_flow_id (?f ?r) \<noteq> None"
      "cl_flow_id (?f ?r) = cl_flow_id s" "cl_canonical_project (?f ?r) = Some p" "cl_canonical_project s = Some q" for j s p q
    proof -
      have "s \<in> set (claim_rows db)" using that(1,2) find_in_claim_rows [of db j s] by (simp add: f1)
      moreover have "cl_flow_id s = nc_flow_id claim" using that(4) by simp
      moreover have "nc_flow_id claim \<noteq> None" using that(3) by simp
      ultimately have "q = project" using flow that(6) by blast
      then show "p = q" using that(5) by simp
    qed
    show "envs_follow db'"
      using ok1 at f by (intro envs_keep [of db1 db' "nc_claim_id claim" "?f ?r"]) (auto simp: db' work_ok_def)
  qed (simp_all add: legacy_active_def)
  moreover have "find_claim db' = (find_claim db)(nc_claim_id claim \<mapsto> ?f ?r)" by (simp add: f f1)
  ultimately show ?thesis using one(3) by (intro place_conforms) (auto intro!: claim_moves.admit)
qed

text \<open>A versioned call that answers met its row at the version, and moved it alone.\<close>

lemma heartbeat_work_claim_Ok:
  assumes "rows_ok db" "heartbeat_work_claim lib now i caller v lease db = Ok (hb, db')"
  obtains r t where "find_claim db i = Some r" "cl_state r = ''active''" "cl_transition_version r = v"
    "cl_agent_identity_id r = Some caller" "find_claim db' = (find_claim db)(i \<mapsto> beaten_row t lease r)"
    "wd_envs db' = wd_envs db" "bt_wf (wd_claims db')" "hb = \<lparr> hb_claim_id = i, hb_lease_expires_at = lease, hb_transition_version = v + 1 \<rparr>"
proof -
  let ?t = "normalize_utc_iso_or_now lib now []"
  let ?P = "\<lambda>r. cl_state r = ''active'' \<and> cl_transition_version r = v"
  obtain r where r: "find_claim db i = Some r" "?P r" "cl_agent_identity_id r = Some caller"
    and db': "db' = snd (update_claims (\<lambda>r. cl_claim_id r = i \<and> ?P r) (beaten_row ?t lease) db)"
    and hb: "hb = \<lparr> hb_claim_id = i, hb_lease_expires_at = lease, hb_transition_version = v + 1 \<rparr>"
    using assms(2) by (auto simp: heartbeat_work_claim_def split: if_splits option.splits prod.splits)
  show ?thesis
    using that [OF r(1) _ _ r(3) _ _ _ hb, of ?t] own_update(1) [OF assms(1) r(1), of ?P] r(2) assms(1)
    by (simp add: db' rows_ok_def)
qed

lemma release_work_claim_Ok:
  assumes "rows_ok db" "release_work_claim lib now i caller v reason db = Ok (w, db')"
  obtains r t where "find_claim db i = Some r" "cl_state r \<in> {''active'', ''orphaned''}" "cl_transition_version r = v"
    "cl_agent_identity_id r = Some caller" "find_claim db' = (find_claim db)(i \<mapsto> released_claim t reason r)"
    "wd_envs db' = wd_envs db" "bt_wf (wd_claims db')" "w = v + 1"
proof -
  let ?t = "normalize_utc_iso_or_now lib now []"
  let ?P = "\<lambda>r. cl_transition_version r = v \<and> cl_state r \<in> {''active'', ''orphaned''}"
  obtain r where r: "find_claim db i = Some r" "?P r" "cl_agent_identity_id r = Some caller"
    and db': "db' = snd (update_claims (\<lambda>r. cl_claim_id r = i \<and> ?P r) (released_claim ?t reason) db)" and w: "w = v + 1"
    using assms(2) by (auto simp: release_work_claim_def split: if_splits option.splits prod.splits)
  show ?thesis
    using that [OF r(1) _ _ r(3) _ _ _ w, of ?t] own_update(1) [OF assms(1) r(1), of ?P] r(2) assms(1)
    by (simp add: db' rows_ok_def)
qed

lemma bind_work_claim_Ok:
  assumes "rows_ok db" "bind_work_claim_exec_env i e v db = Ok (w, db')"
  obtains r h where "find_claim db i = Some r" "cl_state r = ''active''" "cl_transition_version r = v" "cl_agent_identity_id r = Some h"
    "cl_exec_env_id r = None" "map_of (wd_envs db) e = Some \<lparr> ee_agent_identity_id = None, ee_claim_id = None \<rparr>"
    "find_claim db' = (find_claim db)(i \<mapsto> r\<lparr> cl_exec_env_id := Some e, cl_transition_version := cl_transition_version r + 1 \<rparr>)"
    "wd_envs db' = update_row e (\<lambda>x. x\<lparr> ee_agent_identity_id := Some h, ee_claim_id := Some i \<rparr>) (wd_envs db)"
    "bt_wf (wd_claims db')" "w = v + 1"
proof -
  let ?f = "\<lambda>r. r\<lparr> cl_exec_env_id := Some e, cl_transition_version := cl_transition_version r + 1 \<rparr>"
  let ?P = "\<lambda>r. cl_transition_version r = v \<and> cl_exec_env_id r = None"
  let ?g = "\<lambda>r. cl_claim_id r = i \<and> ?P r"
  obtain r h where r: "find_claim db i = Some r" "cl_state r = ''active''" "cl_transition_version r = v" "cl_agent_identity_id r = Some h"
    and x: "map_of (wd_envs db) e = Some \<lparr> ee_agent_identity_id = None, ee_claim_id = None \<rparr>"
    and one: "length (filter ?g (claim_rows db)) = 1"
    and db': "db' = (snd (update_claims ?g ?f db))\<lparr> wd_envs := update_row e
        (\<lambda>x. x\<lparr> ee_agent_identity_id := Some h, ee_claim_id := Some i \<rparr>) (wd_envs (snd (update_claims ?g ?f db))) \<rparr>" and w: "w = v + 1"
    using assms(2)
    by (auto simp: bind_work_claim_exec_env_def update_pair split: if_splits option.splits prod.splits)
  have P: "?P r"
  proof -
    have "filter ?g (claim_rows db) \<noteq> []" using one by (intro notI) (simp only: list.size; simp)
    then obtain q where "q \<in> set (claim_rows db)" "?g q" by (auto simp: filter_empty_conv)
    then show ?thesis using in_rows [OF assms(1), of q] row_id [OF assms(1), of _ q] r(1) by auto
  qed
  have same: "find_claim db' = find_claim (snd (update_claims ?g ?f db))" by (auto simp: db' find_claim_def)
  show ?thesis
  proof (rule that [OF r _ x])
    show "find_claim db' = (find_claim db)(i \<mapsto> ?f r)" using own_update(1) [OF assms(1) r(1), of ?P ?f] P unfolding same by blast
  qed (use P w assms(1) in \<open>simp_all add: db' rows_ok_def\<close>)
qed

text \<open>A call that moves one row calmly and keeps its holder and environment.\<close>

lemma own_conforms:
  assumes "work_ok lib db" "find_claim db i = Some r" "find_claim db' = (find_claim db)(i \<mapsto> r')" "bt_wf (wd_claims db')"
    "wd_envs db' = wd_envs db" "calm r r'" "row_ok i r \<Longrightarrow> row_ok i r'" "cl_agent_identity_id r' = cl_agent_identity_id r"
    "cl_exec_env_id r' = cl_exec_env_id r" "claim_moves (Some r) (Some r')"
  shows "conforms lib db db'"
proof (rule place_conforms [OF _ assms(3)])
  have "row_ok i r" using assms(1,2) by (simp add: work_ok_def rows_ok_def)
  then show "work_ok lib db'"
    using assms row_okD [of db] by (intro calm_call [of lib db db']) (auto simp: settles_def work_ok_def split: if_splits)
  show "claim_moves\<^sup>=\<^sup>= (find_claim db i) (Some r')" using assms(2,10) by auto
qed

lemma beaten_simps [simp]:
  "row_ok i r \<Longrightarrow> row_ok i (beaten_row t lease r)" "calm r (beaten_row t lease r)"
  "cl_agent_identity_id (beaten_row t lease r) = cl_agent_identity_id r" "cl_exec_env_id (beaten_row t lease r) = cl_exec_env_id r"
  by (simp_all add: beaten_row_def row_ok_def calm_def legacy_key_def legacy_active_def protected_def)

lemma released_simps [simp]:
  "row_ok i r \<Longrightarrow> row_ok i (released_claim t why r)" "calm r (released_claim t why r)"
  "cl_agent_identity_id (released_claim t why r) = cl_agent_identity_id r" "cl_exec_env_id (released_claim t why r) = cl_exec_env_id r"
  by (simp_all add: released_claim_def row_ok_def calm_def legacy_key_def legacy_active_def protected_def)

lemma work_rows: "work_ok lib db \<Longrightarrow> rows_ok db"
  by (simp add: work_ok_def)

lemma heartbeat_work_claim_conforms:
  assumes "work_ok lib db" "heartbeat_work_claim lib now i caller v lease db = Ok (hb, db')"
  shows "conforms lib db db'"
  by (rule heartbeat_work_claim_Ok [OF work_rows [OF assms(1)] assms(2)], rule own_conforms [OF assms(1)], assumption, assumption)
     (auto intro: claim_moves.beat)

lemma release_work_claim_conforms:
  assumes "work_ok lib db" "release_work_claim lib now i caller v reason db = Ok (w, db')"
  shows "conforms lib db db'"
  by (rule release_work_claim_Ok [OF work_rows [OF assms(1)] assms(2)], rule own_conforms [OF assms(1)], assumption, assumption)
     (auto intro: claim_moves.release)

lemma bind_conforms:
  assumes ok: "work_ok lib db" and call: "bind_work_claim_exec_env i e v db = Ok (w, db')"
  shows "conforms lib db db'"
proof -
  obtain r h where r: "find_claim db i = Some r" "cl_state r = ''active''" "cl_agent_identity_id r = Some h" "cl_exec_env_id r = None"
    and x: "map_of (wd_envs db) e = Some \<lparr> ee_agent_identity_id = None, ee_claim_id = None \<rparr>"
    and f: "find_claim db' = (find_claim db)(i \<mapsto> r\<lparr> cl_exec_env_id := Some e, cl_transition_version := cl_transition_version r + 1 \<rparr>)"
      (is "_ = (find_claim db)(i \<mapsto> ?r)")
    and e: "wd_envs db' = update_row e (\<lambda>x. x\<lparr> ee_agent_identity_id := Some h, ee_claim_id := Some i \<rparr>) (wd_envs db)"
    and wf: "bt_wf (wd_claims db')"
    using bind_work_claim_Ok [OF work_rows [OF ok] call] by metis
  have env: "envs_follow db" using ok by (simp add: work_ok_def)
  have ri: "row_ok i r" using row_okD [OF work_rows [OF ok] r(1)] .
  then have mode: "cl_mode r \<noteq> None" using r(3) by (auto simp: row_ok_def)
  have ri': "row_ok i ?r" using ri mode by (auto simp: row_ok_def)
  have "settles db db'" using r(1) by (auto simp: settles_def f calm_def legacy_key_def legacy_active_def protected_def)
  moreover have "rows_ok db'" using work_rows [OF ok] wf ri' by (auto simp: rows_ok_def f)
  moreover have "envs_follow db'"
    unfolding envs_follow_def
  proof (intro conjI allI impI)
    show "bt_wf (wd_envs db')" "envs_paired db'" using env by (auto simp: envs_follow_def envs_paired_def e)
    fix j s d assume s: "find_claim db' j = Some s" "cl_exec_env_id s = Some d"
    show "map_of (wd_envs db') d = Some \<lparr> ee_agent_identity_id = cl_agent_identity_id s, ee_claim_id = Some j \<rparr>"
    proof (cases "j = i")
      case True
      then show ?thesis using s r x by (auto simp: e f)
    next
      case False
      then have "map_of (wd_envs db) d = Some \<lparr> ee_agent_identity_id = cl_agent_identity_id s, ee_claim_id = Some j \<rparr>"
        using env s by (simp add: envs_follow_def f)
      then show ?thesis using x by (auto simp: e)
    qed
  qed
  ultimately have "work_ok lib db'" using ok settles_keeps unfolding work_ok_def by blast
  moreover have "claim_moves (Some r) (Some ?r)" using r by (intro claim_moves.bind) auto
  ultimately show ?thesis using f r(1) by (intro place_conforms [OF _ f]) auto
qed

lemma rebind_Ok:
  assumes "rebind_exec_env i a b env db = Ok db1"
  shows "wd_claims db1 = wd_claims db" "wd_identities db1 = wd_identities db" "env = None \<Longrightarrow> db1 = db"
    "env = Some e \<Longrightarrow> wd_envs db1 = update_row e (\<lambda>x. x\<lparr> ee_agent_identity_id := Some b \<rparr>) (wd_envs db)"
    "env = Some e \<Longrightarrow> map_of (wd_envs db) e = Some \<lparr> ee_agent_identity_id = Some a, ee_claim_id = Some i \<rparr>"
  using assms by (auto simp: rebind_exec_env_def split: option.splits if_splits)

lemma handoff_work_claim_Ok:
  assumes "rows_ok db" "handoff_work_claim lib now i caller v s db = Ok (ho, db')"
  obtains r t from_identity db1 where "find_claim db i = Some r" "cl_state r \<in> {''active'', ''orphaned''}" "cl_transition_version r = v"
    "cl_agent_identity_id r = Some from_identity" "cl_state r = ''active'' \<longrightarrow> from_identity = caller" "hr_agent_identity_id s = caller"
    "known_identity db caller" "reject_work_claim_collision lib (handoff_candidate r s) db = Ok ()"
    "rebind_exec_env i from_identity caller (cl_exec_env_id r) db = Ok db1" "wd_envs db' = wd_envs db1"
    "find_claim db' = (find_claim db)(i \<mapsto> handed_row t s r)" "bt_wf (wd_claims db')"
    "ho = \<lparr> ho_claim_id = i, ho_from_agent_identity_id = from_identity, ho_to_agent_identity_id = caller, ho_transition_version = v + 1 \<rparr>"
proof -
  let ?t = "normalize_utc_iso_or_now lib now []"
  let ?P = "\<lambda>r. cl_transition_version r = v \<and> cl_state r \<in> {''active'', ''orphaned''}"
  obtain r from_identity db1 where r: "find_claim db i = Some r" "?P r" "cl_agent_identity_id r = Some from_identity"
    and h: "cl_state r = ''active'' \<longrightarrow> from_identity = caller" "hr_agent_identity_id s = caller" "known_identity db caller"
      "reject_work_claim_collision lib (handoff_candidate r s) db = Ok ()"
    and b: "rebind_exec_env i from_identity caller (cl_exec_env_id r) db = Ok db1"
    and db': "db' = snd (update_claims (\<lambda>r. cl_claim_id r = i \<and> ?P r) (handed_row ?t s) db1)"
    and ho: "ho = \<lparr> ho_claim_id = i, ho_from_agent_identity_id = from_identity, ho_to_agent_identity_id = caller,
      ho_transition_version = v + 1 \<rparr>"
    using assms(2)
    by (fastforce simp: handoff_work_claim_def and_then_Inr_iff update_claims_def split: if_splits option.splits)
  have f1: "find_claim db1 = find_claim db" using rebind_Ok(1) [OF b] by (auto simp: find_claim_def)
  have rows1: "rows_ok db1" using assms(1) rebind_Ok(1) [OF b] f1 by (simp add: rows_ok_def)
  show ?thesis
  proof (rule that [OF r(1) _ _ r(3) h b])
    show "find_claim db' = (find_claim db)(i \<mapsto> handed_row ?t s r)"
      using own_update(1) [OF rows1, of i r ?P "handed_row ?t s"] r(1,2) unfolding db' f1 by blast
  qed (use r(2) ho rows1 in \<open>auto simp: db' rows_ok_def\<close>)
qed

lemma handed_simps [simp]:
  "cl_claim_id (handed_row t s r) = cl_claim_id r" "cl_state (handed_row t s r) = ''active''"
  "cl_agent_identity_id (handed_row t s r) = Some (hr_agent_identity_id s)"
  "cl_mode (handed_row t s r) = Some (work_claim_mode_as_str (hr_mode s))"
  "cl_expected_head (handed_row t s r) = Some (hr_expected_head s)" "cl_exec_env_id (handed_row t s r) = cl_exec_env_id r"
  "cl_transition_version (handed_row t s r) = cl_transition_version r + 1"
  "cl_flow_id (handed_row t s r) = cl_flow_id r" "cl_canonical_project (handed_row t s r) = cl_canonical_project r"
  "cl_issue_ref (handed_row t s r) = cl_issue_ref r"
  by (simp_all add: handed_row_def)

lemma handoff_conforms:
  assumes ok: "work_ok lib db" and call: "handoff_work_claim lib now i caller v s db = Ok (ho, db')"
  shows "conforms lib db db'"
proof -
  have rows: "rows_ok db" using ok by (rule work_rows)
  obtain r t from_identity db1 where r: "find_claim db i = Some r" "cl_state r \<in> {''active'', ''orphaned''}"
      "cl_agent_identity_id r = Some from_identity" "cl_state r = ''active'' \<longrightarrow> from_identity = caller"
    and to: "hr_agent_identity_id s = caller"
    and c: "reject_work_claim_collision lib (handoff_candidate r s) db = Ok ()"
    and b: "rebind_exec_env i from_identity caller (cl_exec_env_id r) db = Ok db1" and e: "wd_envs db' = wd_envs db1"
    and f: "find_claim db' = (find_claim db)(i \<mapsto> handed_row t s r)" and wf: "bt_wf (wd_claims db')"
    using handoff_work_claim_Ok [OF rows call] by metis
  let ?r = "handed_row t s r"
  have ri: "row_ok i r" using row_okD [OF rows r(1)] .
  have id: "cl_claim_id r = i" using row_id [OF rows r(1)] .
  have cand: "nc_claim_id (handoff_candidate r s) = i" by (simp add: handoff_candidate_def id)
  have env: "envs_follow db" using ok by (simp add: work_ok_def)
  have "work_ok lib db'"
  proof (rule place_row [OF ok f wf])
    show "row_ok i ?r" using ri by (simp add: row_ok_def)
    show "\<not> clash lib ?r q" if "j \<noteq> i" "find_claim db j = Some q" "protected q" for j q
      using no_collision [OF rows c that(2) _ that(3)] that(1) unfolding cand row_collides_clash(2) [of lib r s q t] by blast
    show "p' = q'" if "find_claim db j = Some q" "cl_flow_id ?r \<noteq> None" "cl_flow_id ?r = cl_flow_id q"
      "cl_canonical_project ?r = Some p'" "cl_canonical_project q = Some q'" for j q p' q'
      using ok r(1) that unfolding work_ok_def flows_apart_def handed_simps by blast
    show "envs_follow db'"
      unfolding envs_follow_def
    proof (intro conjI allI impI)
      show "bt_wf (wd_envs db')" "envs_paired db'"
        using env rebind_Ok(3-5) [OF b] e by (cases "cl_exec_env_id r"; auto simp: envs_follow_def envs_paired_def)+
      fix j q d assume q: "find_claim db' j = Some q" "cl_exec_env_id q = Some d"
      show "map_of (wd_envs db') d = Some \<lparr> ee_agent_identity_id = cl_agent_identity_id q, ee_claim_id = Some j \<rparr>"
      proof (cases "j = i")
        case True
        then have "cl_exec_env_id r = Some d" using q by (auto simp: f)
        then show ?thesis using True q rebind_Ok(4,5) [OF b] by (auto simp: e f to)
      next
        case False
        then have old: "map_of (wd_envs db) d = Some \<lparr> ee_agent_identity_id = cl_agent_identity_id q, ee_claim_id = Some j \<rparr>"
          using env q by (simp add: envs_follow_def f)
        then show ?thesis using False rebind_Ok(3-5) [OF b] by (cases "cl_exec_env_id r") (auto simp: e)
      qed
    qed
  qed (simp_all add: legacy_active_def)
  moreover have "claim_moves (Some r) (Some ?r)" using r to by (intro claim_moves.hand) auto
  ultimately show ?thesis using r(1) by (intro place_conforms [OF _ f]) auto
qed

lemma presence_find:
  assumes "rows_ok db" "find (\<lambda>r. legacy_active r \<and> legacy_key r = k) (claim_rows db) = Some r"
  shows "find_claim db (cl_claim_id r) = Some r" "legacy_active r" "legacy_key r = k"
proof -
  have "r \<in> set (claim_rows db)" "legacy_active r \<and> legacy_key r = k" using assms(2) by (auto simp: find_Some_iff in_set_conv_nth)
  then show "find_claim db (cl_claim_id r) = Some r" "legacy_active r" "legacy_key r = k"
    using in_rows [OF assms(1), of r] row_id [OF assms(1)] by auto
qed

lemma heartbeaten_simps [simp]:
  "row_ok i r \<Longrightarrow> row_ok i (heartbeaten_row x r)" "legacy_active r \<Longrightarrow> calm r (heartbeaten_row x r)"
  "cl_agent_identity_id (heartbeaten_row x r) = cl_agent_identity_id r" "cl_exec_env_id (heartbeaten_row x r) = cl_exec_env_id r"
  "cl_claim_id (heartbeaten_row x r) = cl_claim_id r" "cl_heartbeat_at (heartbeaten_row x r) = cl_heartbeat_at x"
  "legacy_active (heartbeaten_row x r) = legacy_active r" "legacy_key (heartbeaten_row x r) = legacy_key r"
  by (simp_all add: heartbeaten_row_def row_ok_def calm_def legacy_key_def legacy_active_def protected_def)

definition upsert_row :: "'a claims_lib_scheme \<Rightarrow> string \<Rightarrow> new_session_claim \<Rightarrow> claim_row" where
  "upsert_row lib now p = presence_row p (if blank (ns_created_at p) then normalize_utc_iso_or_now lib now []
     else normalize_utc_iso_or_now lib now (ns_created_at p))"

lemma upsert_unfold: "upsert_or_heartbeat_claim lib now p db =
  (case find (\<lambda>r. legacy_active r \<and> legacy_key r = legacy_key (upsert_row lib now p)) (claim_rows db) of
     Some r \<Rightarrow> Ok (cl_claim_id r, db\<lparr> wd_claims := update_row (cl_claim_id r) (heartbeaten_row (upsert_row lib now p)) (wd_claims db) \<rparr>)
   | None \<Rightarrow> and_then (insert_claim_row (upsert_row lib now p) db) (\<lambda>(_, db'). Ok (ns_claim_id p, db')))"
  unfolding upsert_or_heartbeat_claim_def upsert_row_def Let_def presence_row_simps ..

lemma presence_upsert_cases:
  assumes "rows_ok db" "upsert_or_heartbeat_claim lib now p db = Ok (j, db')"
  obtains
    (known) r where "find_claim db j = Some r" "legacy_active r" "legacy_key r = legacy_key (upsert_row lib now p)"
      "find_claim db' = (find_claim db)(j \<mapsto> heartbeaten_row (upsert_row lib now p) r)" "wd_envs db' = wd_envs db" "bt_wf (wd_claims db')"
  | (fresh) "\<And>r. r \<in> set (claim_rows db) \<Longrightarrow> \<not> (legacy_active r \<and> legacy_key r = legacy_key (upsert_row lib now p))"
      "j = ns_claim_id p" "insert_claim_row (upsert_row lib now p) db = Ok ((), db')"
proof (cases "find (\<lambda>r. legacy_active r \<and> legacy_key r = legacy_key (upsert_row lib now p)) (claim_rows db)")
  case None
  then have "r \<in> set (claim_rows db) \<Longrightarrow> \<not> (legacy_active r \<and> legacy_key r = legacy_key (upsert_row lib now p))" for r
    by (auto simp: find_None_iff)
  moreover have "j = ns_claim_id p \<and> insert_claim_row (upsert_row lib now p) db = Ok ((), db')"
    using assms(2) unfolding upsert_unfold None by (auto simp: and_then_Inr_iff)
  ultimately show ?thesis using fresh by blast
next
  case (Some r)
  note k = presence_find [OF assms(1) Some]
  have u: "j = cl_claim_id r"
    "db' = db\<lparr> wd_claims := update_row (cl_claim_id r) (heartbeaten_row (upsert_row lib now p)) (wd_claims db) \<rparr>"
    using assms(2) Some by (auto simp: upsert_unfold)
  have "find_claim db' = (find_claim db)(j \<mapsto> heartbeaten_row (upsert_row lib now p) r)"
    using k(1) by (auto simp: u find_claim_def)
  moreover have "bt_wf (wd_claims db')" using assms(1) by (simp add: u rows_ok_def)
  ultimately show ?thesis using known k u by simp
qed

lemma upsert_conforms:
  assumes "work_ok lib db" "upsert_or_heartbeat_claim lib now p db = Ok (j, db')"
  shows "conforms lib db db'"
  using work_rows [OF assms(1)] assms(2)
proof (cases rule: presence_upsert_cases)
  case (known r)
  then show ?thesis by (intro own_conforms [OF assms(1) known(1,4)]) (auto intro: claim_moves.presence)
next
  case fresh
  then show ?thesis using insert_presence_conforms assms(1) by (auto simp: upsert_row_def)
qed

lemma heartbeat_claim_conforms: "work_ok lib db \<Longrightarrow> heartbeat_claim lib now selector db = Ok (u, db') \<Longrightarrow> conforms lib db db'"
  by (auto simp: heartbeat_claim_def Let_def calm_def row_ok_def legacy_key_def legacy_active_def protected_def
      intro!: update_conforms claim_moves.pulse split: claim_selector.splits)

lemma release_claim_conforms:
  assumes "work_ok lib db" "release_claim lib now selector why db = Ok (out, db')"
  shows "conforms lib db db'"
proof (cases "db' = db")
  case True
  then show ?thesis using assms(1) by (simp add: conforms_def)
next
  case False
  then obtain r where r: "select_release_target selector db = Some r" "cl_mode r = None" "cl_state r = ''active''"
    and db': "db' = snd (update_claims (\<lambda>q. cl_claim_id q = cl_claim_id r \<and> cl_state q = ''active'')
                    (dropped_row (normalize_utc_iso_or_now lib now []) why) db)"
    using assms(2)
    by (auto simp: release_claim_def claim_state_parse_def split: option.splits if_splits claim_state.splits claim_selector.splits)
  have rows: "rows_ok db" using assms(1) by (rule work_rows)
  have "r \<in> set (claim_rows db)"
  proof (cases selector)
    case (ByDispatchId d)
    then show ?thesis using r(1)
      by (auto simp: select_release_target_def sort_desc_def split: list.splits dest!: arg_cong [where f = set])
  qed (use r(1) in \<open>auto simp: select_release_target_def intro: find_in_claim_rows\<close>)
  then have at: "find_claim db (cl_claim_id r) = Some r" using in_rows [OF rows, of r] row_id [OF rows] by auto
  show ?thesis
    unfolding db'
  proof (rule update_conforms [OF assms(1)])
    fix i q assume q: "find_claim db i = Some q" "row_ok i q" "cl_claim_id q = cl_claim_id r \<and> cl_state q = ''active''"
    then have "q = r" using at by (auto simp: row_ok_def)
    then show "calm q (dropped_row (normalize_utc_iso_or_now lib now []) why q) \<and> row_ok i (dropped_row (normalize_utc_iso_or_now lib now []) why q)
        \<and> cl_agent_identity_id (dropped_row (normalize_utc_iso_or_now lib now []) why q) = cl_agent_identity_id q
        \<and> cl_exec_env_id (dropped_row (normalize_utc_iso_or_now lib now []) why q) = cl_exec_env_id q"
      "claim_moves (Some q) (Some (dropped_row (normalize_utc_iso_or_now lib now []) why q))"
      using q r by (auto simp: dropped_row_def calm_def row_ok_def legacy_key_def legacy_active_def protected_def
        intro!: claim_moves.drop [unfolded dropped_row_def])
  qed
qed

lemma filter_find:
  assumes "rows_ok db"
  shows "find_claim (db\<lparr> wd_claims := filter (\<lambda>(i, r). P r) (wd_claims db) \<rparr>) i =
    (case find_claim db i of Some r \<Rightarrow> if P r then Some r else None | None \<Rightarrow> None)"
proof -
  have "distinct (map fst m) \<Longrightarrow> map_of (filter (\<lambda>(i, r). P r) m) i =
    (case map_of m i of Some r \<Rightarrow> if P r then Some r else None | None \<Rightarrow> None)" for m
    by (induction m) (auto simp: map_of_eq_None_iff split: option.splits)
  then show ?thesis using assms by (simp add: find_claim_def rows_ok_def bt_wf_distinct)
qed

lemma wf_filter: "bt_wf m \<Longrightarrow> bt_wf (filter P m)"
  by (induction m) auto

lemma prune_ok:
  assumes "work_ok lib db"
  shows "work_ok lib (db\<lparr> wd_claims := filter (\<lambda>(i, r). \<not> prunable cutoff r) (wd_claims db) \<rparr>)" (is "work_ok lib ?db")
proof -
  have rows: "rows_ok db" using assms by (rule work_rows)
  note f = filter_find [OF rows, of "\<lambda>r. \<not> prunable cutoff r"]
  have "settles db ?db" by (auto simp: settles_def f split: option.splits if_splits)
  then show ?thesis
    using rows row_okD [OF rows] by (intro calm_call [OF assms]) (auto simp: f rows_ok_def wf_filter split: if_splits)
qed

lemma orphan_conforms:
  "work_ok lib db \<Longrightarrow> conforms lib db (snd (update_claims (\<lambda>r. cl_state r = ''active'' \<and> cl_heartbeat_at r < cutoff) (orphaned_row now) db))"
  by (rule update_conforms)
     (auto simp: orphaned_row_def calm_def row_ok_def legacy_key_def legacy_active_def protected_def
       intro: claim_moves.orphan [unfolded orphaned_row_def])

lemma gc_row:
  assumes "rows_ok db" "minus_days lib now days = Some t" "minus_days lib now max_days = Some u"
    "gc_session_claims lib now days max_days db = (res, db')"
  shows "find_claim db' i = (case find_claim db i of
     None \<Rightarrow> None
   | Some r \<Rightarrow> if cl_state r = ''active'' \<and> cl_heartbeat_at r < to_rfc3339_ms lib t then Some (orphaned_row (to_rfc3339_ms lib now) r)
       else if prunable (to_rfc3339_ms lib u) r then None else Some r)"
proof -
  let ?db = "snd (update_claims (\<lambda>r. cl_state r = ''active'' \<and> cl_heartbeat_at r < to_rfc3339_ms lib t) (orphaned_row (to_rfc3339_ms lib now)) db)"
  have "row_ok j r \<Longrightarrow> row_ok j (orphaned_row n r)" for j r n by (simp add: row_ok_def orphaned_row_def)
  then have "rows_ok ?db" using assms(1) by (auto simp: rows_ok_def split: if_splits)
  moreover have db': "db' = ?db\<lparr> wd_claims := filter (\<lambda>(i, r). \<not> prunable (to_rfc3339_ms lib u) r) (wd_claims ?db) \<rparr>"
    using assms(2-4) by (auto simp: gc_session_claims_def update_pair split: prod.splits)
  have "\<not> prunable c (orphaned_row n r)" for c n r by (simp add: prunable_def orphaned_row_def)
  then show ?thesis
    unfolding db' filter_find [OF calculation] find_update by (cases "find_claim db i") simp_all
qed

lemma gc_conforms:
  assumes "work_ok lib db" "gc_session_claims lib now days max_days db = (res, db')"
  shows "conforms lib db db'"
proof (cases "minus_days lib now days")
  case None
  then show ?thesis using assms by (simp add: gc_session_claims_def conforms_def)
next
  case (Some t)
  note o = orphan_conforms [OF assms(1), of "to_rfc3339_ms lib t" "to_rfc3339_ms lib now"]
  show ?thesis
  proof (cases "minus_days lib now max_days")
    case None
    then show ?thesis using assms(2) o Some by (auto simp: gc_session_claims_def update_pair split: prod.splits)
  next
    case (Some u)
    have "work_ok lib db'"
      using assms(2) Some \<open>minus_days lib now days = Some t\<close> prune_ok o
      by (auto simp: gc_session_claims_def update_pair conforms_def split: prod.splits)
    moreover have "claim_moves\<^sup>=\<^sup>= (find_claim db i) (find_claim db' i)" for i
      unfolding gc_row [OF work_rows [OF assms(1)] \<open>minus_days lib now days = Some t\<close> Some assms(2)]
      by (auto simp: prunable_def intro: claim_moves.orphan claim_moves.prune split: option.splits)
    ultimately show ?thesis by (simp add: conforms_def)
  qed
qed

lemma add_env_conforms:
  assumes "work_ok lib db" "map_of (wd_envs db) e = None"
  shows "conforms lib db (add_exec_env e db)"
proof -
  have f: "find_claim (add_exec_env e db) = find_claim db" by (auto simp: add_exec_env_def find_claim_def)
  have c: "wd_claims (add_exec_env e db) = wd_claims db" by (simp add: add_exec_env_def)
  have env: "envs_follow db" using assms(1) by (simp add: work_ok_def)
  have "envs_follow (add_exec_env e db)"
    unfolding envs_follow_def f
  proof (intro conjI allI impI)
    show "bt_wf (wd_envs (add_exec_env e db))" "envs_paired (add_exec_env e db)"
      using env by (auto simp: envs_follow_def envs_paired_def add_exec_env_def bt_simps)
    fix i r d assume r: "find_claim db i = Some r" "cl_exec_env_id r = Some d"
    then have m: "map_of (wd_envs db) d = Some \<lparr> ee_agent_identity_id = cl_agent_identity_id r, ee_claim_id = Some i \<rparr>"
      using env by (simp add: envs_follow_def)
    then show "map_of (wd_envs (add_exec_env e db)) d = Some \<lparr> ee_agent_identity_id = cl_agent_identity_id r, ee_claim_id = Some i \<rparr>"
      using env assms(2) by (auto simp: envs_follow_def add_exec_env_def bt_simps)
  qed
  moreover have "rows_ok (add_exec_env e db)" using work_rows [OF assms(1)] unfolding rows_ok_def f c .
  moreover have "settles db (add_exec_env e db)" by (simp add: settles_def f)
  ultimately have "work_ok lib (add_exec_env e db)" using assms(1) settles_keeps unfolding work_ok_def by blast
  then show ?thesis by (simp add: conforms_def f)
qed

lemma step_conforms: "work_ok lib db \<Longrightarrow> work_step lib db db' \<Longrightarrow> conforms lib db db'"
  by (erule work_step.cases)
     (auto intro: insert_agent_identity_conforms admissions_conform insert_work_claim_conforms insert_local_conforms
       heartbeat_work_claim_conforms handoff_conforms release_work_claim_conforms bind_conforms insert_claim_conforms
       upsert_conforms heartbeat_claim_conforms release_claim_conforms gc_conforms add_env_conforms)

interpretation work: row_machine "work_step lib" "work_ok lib" "\<lambda>db i. Some (find_claim db i)" claim_moves for lib
proof unfold_locales
  fix db db' i and r :: "claim_row option" assume "work_ok lib db" "work_step lib db db'" "Some (find_claim db i) = Some r"
  then have "claim_moves\<^sup>=\<^sup>= r (find_claim db' i)" using step_conforms [of lib db db'] by (auto simp: conforms_def)
  then show "\<exists>r'. Some (find_claim db' i) = Some r' \<and> claim_moves\<^sup>*\<^sup>* r r'" by auto
qed (use step_conforms in \<open>auto simp: conforms_def\<close>)

definition empty_work :: work_db where
  "empty_work = \<lparr> wd_claims = [], wd_identities = [], wd_admissions = [], wd_envs = [] \<rparr>"

lemma work_ok_empty: "work_ok lib empty_work"
  by (simp add: work_ok_def rows_ok_def exclusive_def presence_unique_def flows_apart_def envs_follow_def envs_paired_def empty_work_def find_claim_def)

lemma work_run_ok: "(work_step lib)\<^sup>*\<^sup>* empty_work db \<Longrightarrow> work_ok lib db"
  using work.run_good work_ok_empty by blast

end
