(* ===== verification/Claims_Contract.thy ===== *)
theory Claims_Contract
  imports Claims_Laws
begin

text \<open>
  What the work claims promise their callers, in every database the calls can reach: writable
  work is exclusive, a holder keeps an active claim, versions fence writers against each
  other, an environment's evidence follows its claim, presence is unique, and the project
  gate runs nothing for anyone but the holder.
\<close>

abbreviation work_reached :: "'a claims_lib_scheme \<Rightarrow> work_db \<Rightarrow> bool" where
  "work_reached lib db \<equiv> (work_step lib)\<^sup>*\<^sup>* empty_work db"

lemma reached_rows: "work_reached lib db \<Longrightarrow> rows_ok db"
  using work_run_ok work_rows by blast

section \<open>Exclusion\<close>

text \<open>C20: In every reachable database two different protected writable claims share no path and neither claims
  everything; and where they work on one issue they expect the same head and no entry of the one scope shares a path
  with an entry of the other.\<close>

theorem writable_work_is_exclusive:
  assumes "work_reached lib db" "find_claim db i = Some a" "find_claim db j = Some b" "i \<noteq> j" "protected a" "protected b"
    "cl_mode a = Some ''writable''" "cl_mode b = Some ''writable''"
  shows "\<not> (covers (normalize_path (or_empty (cl_worktree_path a))) p \<and> covers (normalize_path (or_empty (cl_worktree_path b))) p)
    \<and> \<not> catch_all (or_empty (cl_worktree_path a))
    \<and> (\<not> same_issue a b \<or> cl_expected_head a = cl_expected_head b
        \<and> \<not> (e \<in> set (scope_entries lib (or_empty (cl_declared_file_scope a)))
            \<and> f \<in> set (scope_entries lib (or_empty (cl_declared_file_scope b)))
            \<and> covers (normalize_path e) p \<and> covers (normalize_path f) p))"
proof -
  have ok: "work_ok lib db" using assms(1) by (rule work_run_ok)
  then have c: "\<not> clash lib a b" using assms(2-6) unfolding work_ok_def exclusive_def by blast
  then have paths: "\<not> paths_overlap (or_empty (cl_worktree_path a)) (or_empty (cl_worktree_path b))"
    using assms(7,8) by (simp add: clash_def)
  have heads: "cl_expected_head a \<noteq> None" "cl_expected_head b \<noteq> None"
    using row_okD [OF work_rows [OF ok] assms(2)] row_okD [OF work_rows [OF ok] assms(3)] assms(7,8) by (auto simp: row_ok_def)
  have "\<not> scopes_overlap lib (or_empty (cl_declared_file_scope a)) (or_empty (cl_declared_file_scope b))" if "same_issue a b"
    using c that assms(7,8) by (simp add: clash_def)
  moreover have "cl_expected_head a = cl_expected_head b" if "same_issue a b" using c that heads by (auto simp: clash_def)
  ultimately show ?thesis
    using paths unfolding overlap_is_shared_path scopes_overlap_def list_ex_iff by blast
qed

section \<open>Holders\<close>

lemma step_moves: "work_reached lib db \<Longrightarrow> work_step lib db db' \<Longrightarrow> claim_moves\<^sup>=\<^sup>= (find_claim db i) (find_claim db' i)"
  using step_conforms [of lib db db'] work_run_ok [of lib db] unfolding conforms_def by blast

lemma move_holder:
  assumes "claim_moves\<^sup>=\<^sup>= (Some r) x"
  shows "cl_state r \<noteq> ''released'' \<Longrightarrow> \<exists>r'. x = Some r'"
    "cl_state r = ''released'' \<Longrightarrow> x = Some r \<or> x = None"
    "x = Some r' \<Longrightarrow> cl_agent_identity_id r' \<noteq> cl_agent_identity_id r \<Longrightarrow>
       cl_state r = ''orphaned'' \<and> cl_state r' = ''active'' \<and> cl_transition_version r' = cl_transition_version r + 1"
    "x = Some r' \<Longrightarrow> cl_exec_env_id r' = cl_exec_env_id r
       \<or> cl_state r = ''active'' \<and> cl_exec_env_id r = None \<and> cl_agent_identity_id r' = cl_agent_identity_id r"
  using assms
  by (auto elim!: claim_moves.cases simp: legacy_active_def beaten_row_def handed_row_def released_claim_def heartbeaten_row_def
      dropped_row_def orphaned_row_def)

text \<open>C21: One call never takes a claim from its holder while it is active: the row stays until it is released, its
  holder changes only from an orphaned claim to an active one under the next version, its environment is set once, and
  a released row is never written again.\<close>

theorem holder_keeps_active_claim:
  assumes "work_reached lib db" "work_step lib db db'" "find_claim db i = Some r"
  shows "(if cl_state r = ''released'' then find_claim db' i \<in> {Some r, None}
     else (case find_claim db' i of
         None \<Rightarrow> False
       | Some r' \<Rightarrow>
           (cl_agent_identity_id r' = cl_agent_identity_id r
             \<or> cl_state r = ''orphaned'' \<and> cl_state r' = ''active'' \<and> cl_transition_version r' = cl_transition_version r + 1)
           \<and> (cl_exec_env_id r' = cl_exec_env_id r \<or> cl_state r = ''active'' \<and> cl_exec_env_id r = None)))"
proof -
  have m: "claim_moves\<^sup>=\<^sup>= (Some r) (find_claim db' i)" using step_moves [OF assms(1,2), of i] unfolding assms(3) .
  show ?thesis
  proof (cases "cl_state r = ''released''")
    case True
    then show ?thesis using move_holder(2) [OF m] by simp
  next
    case False
    then obtain r' where r': "find_claim db' i = Some r'" using move_holder(1) [OF m] by blast
    show ?thesis using False move_holder(3,4) [OF m r'] unfolding r' by simp blast
  qed
qed

section \<open>Versions\<close>

text \<open>
  The contract of a fenced write: when it answers it met its row at the version the caller
  expected, and left it at the next one.
\<close>

locale fenced_write =
  fixes put :: "string \<Rightarrow> int \<Rightarrow> work_db \<Rightarrow> work_db \<Rightarrow> bool"
  assumes fence: "rows_ok db \<Longrightarrow> put i v db db' \<Longrightarrow>
    \<exists>r r'. find_claim db i = Some r \<and> cl_transition_version r = v \<and> find_claim db' i = Some r' \<and> cl_transition_version r' = v + 1"

interpretation beat_fence: fenced_write "\<lambda>i v db db'. \<exists>lib now caller lease hb. heartbeat_work_claim lib now i caller v lease db = Ok (hb, db')"
  by unfold_locales (auto elim!: heartbeat_work_claim_Ok simp: beaten_row_def)

interpretation hand_fence: fenced_write "\<lambda>i v db db'. \<exists>lib now caller s ho. handoff_work_claim lib now i caller v s db = Ok (ho, db')"
  by unfold_locales (auto elim!: handoff_work_claim_Ok)

interpretation release_fence: fenced_write "\<lambda>i v db db'. \<exists>lib now caller why w. release_work_claim lib now i caller v why db = Ok (w, db')"
  by unfold_locales (auto elim!: release_work_claim_Ok simp: released_claim_def)

interpretation bind_fence: fenced_write "\<lambda>i v db db'. \<exists>e w. bind_work_claim_exec_env i e v db = Ok (w, db')"
  by unfold_locales (auto elim!: bind_work_claim_Ok)

text \<open>A write of claim \<open>i\<close> that expects version \<open>v\<close>, and the calls while the row of \<open>i\<close> stays.\<close>

inductive versioned_write :: "'a claims_lib_scheme \<Rightarrow> string \<Rightarrow> int \<Rightarrow> work_db \<Rightarrow> work_db \<Rightarrow> bool" for lib i v where
  "heartbeat_work_claim lib now i caller v lease db = Ok (hb, db') \<Longrightarrow> versioned_write lib i v db db'"
| "handoff_work_claim lib now i caller v s db = Ok (ho, db') \<Longrightarrow> versioned_write lib i v db db'"
| "release_work_claim lib now i caller v reason db = Ok (w, db') \<Longrightarrow> versioned_write lib i v db db'"
| "bind_work_claim_exec_env i e v db = Ok (w, db') \<Longrightarrow> versioned_write lib i v db db'"

interpretation fence: fenced_write "versioned_write lib" for lib
proof unfold_locales
  fix db db' :: work_db and i v
  assume "rows_ok db" "versioned_write lib i v db db'"
  then show "\<exists>r r'. find_claim db i = Some r \<and> cl_transition_version r = v \<and> find_claim db' i = Some r' \<and> cl_transition_version r' = v + 1"
    by (elim versioned_write.cases) (rule beat_fence.fence hand_fence.fence release_fence.fence bind_fence.fence; blast)+
qed

definition keeping_step :: "'a claims_lib_scheme \<Rightarrow> string \<Rightarrow> work_db \<Rightarrow> work_db \<Rightarrow> bool" where
  "keeping_step lib i db db' \<longleftrightarrow> work_step lib db db' \<and> find_claim db' i \<noteq> None"

lemma move_version: "claim_moves\<^sup>=\<^sup>= (Some r) (Some r') \<Longrightarrow> cl_transition_version r \<le> cl_transition_version r'"
  by (auto elim!: claim_moves.cases simp: beaten_row_def handed_row_def released_claim_def heartbeaten_row_def dropped_row_def orphaned_row_def)

lemma keeping_version:
  assumes "(keeping_step lib i)\<^sup>*\<^sup>* db db'" "work_ok lib db" "find_claim db i = Some r"
  shows "work_ok lib db' \<and> (\<exists>r'. find_claim db' i = Some r' \<and> cl_transition_version r \<le> cl_transition_version r')"
  using assms
proof (induction rule: rtranclp_induct)
  case (step db1 db2)
  then obtain r1 where r1: "find_claim db1 i = Some r1" "cl_transition_version r \<le> cl_transition_version r1" and ok: "work_ok lib db1" by blast
  obtain r2 where r2: "find_claim db2 i = Some r2" and s: "work_step lib db1 db2" using step(2) by (auto simp: keeping_step_def)
  have c: "conforms lib db1 db2" using step_conforms [OF ok s] .
  then have "claim_moves\<^sup>=\<^sup>= (Some r1) (Some r2)" using r1(1) r2 unfolding conforms_def by metis
  then show ?case using move_version r1(2) r2 c by (fastforce simp: conforms_def)
qed auto

lemma versioned_write_step: "versioned_write lib i v db db' \<Longrightarrow> work_step lib db db'"
  by (auto elim!: versioned_write.cases intro: work_step.intros)

text \<open>C22: Of the heartbeats, handoffs, releases and bindings of a claim at most one goes through per version: after one
  that expected version \<open>v\<close>, and whatever is called while the row stays, only a write that expects a later
  version is let through.\<close>

theorem versions_fence:
  assumes "work_reached lib db" "versioned_write lib i v db db1" "(keeping_step lib i)\<^sup>*\<^sup>* db1 db2" "versioned_write lib i w db2 db3"
  shows "v < w"
proof -
  have ok: "work_ok lib db" using assms(1) by (rule work_run_ok)
  obtain r1 where r1: "find_claim db1 i = Some r1" "cl_transition_version r1 = v + 1"
    using fence.fence [OF work_rows [OF ok] assms(2)] by blast
  have "work_ok lib db1" using step_conforms [OF ok versioned_write_step [OF assms(2)]] by (simp add: conforms_def)
  then obtain r2 where "work_ok lib db2" "find_claim db2 i = Some r2" "v + 1 \<le> cl_transition_version r2"
    using keeping_version [OF assms(3)] r1 by metis
  moreover have "cl_transition_version r2 = w"
    using fence.fence [OF work_rows assms(4)] calculation(1,2) by fastforce
  ultimately show ?thesis by linarith
qed

section \<open>Environments\<close>

lemma one_row_filter:
  assumes "rows_ok db" "find_claim db i = Some r" "Q r" "\<And>j s. find_claim db j = Some s \<Longrightarrow> Q s \<Longrightarrow> j = i"
  shows "filter Q (claim_rows db) = [r]"
proof -
  have e: "filter Q (claim_rows db) = filter (\<lambda>s. cl_claim_id s = i \<and> Q s) (claim_rows db)"
  proof (rule filter_cong)
    fix s assume "s \<in> set (claim_rows db)"
    then obtain j where j: "find_claim db j = Some s" using in_rows [OF assms(1)] by blast
    then show "Q s \<longleftrightarrow> cl_claim_id s = i \<and> Q s" using assms(4) [OF j] row_id [OF assms(1) j] by auto
  qed simp
  have "length (filter (\<lambda>s. cl_claim_id s = i \<and> Q s) (claim_rows db)) = 1" using own_update(2) [OF assms(1,2)] assms(3) .
  then obtain q where q: "filter Q (claim_rows db) = [q]" unfolding e [symmetric] by (auto simp: length_Suc_conv)
  moreover have "r \<in> set (filter Q (claim_rows db))" using assms(3) find_in_claim_rows [OF assms(2)] by simp
  ultimately show ?thesis by simp
qed

lemma no_row_filter: "rows_ok db \<Longrightarrow> (\<And>j s. find_claim db j = Some s \<Longrightarrow> \<not> Q s) \<Longrightarrow> filter Q (claim_rows db) = []"
  using in_rows by (auto simp: filter_empty_conv)

text \<open>The evidence about the holder of an environment, in every reachable database: clear only when the claim it is
  bound to is released, held while that claim is active or orphaned, not applicable exactly when nothing was ever bound
  to it, unverifiable when the environment or its claim is gone, and contradictory only when the claim id has been used
  again for another claim.\<close>

lemma holder_evidence_law:
  assumes "work_reached lib db"
  shows "holder_evidence db e = (case map_of (wd_envs db) e of
     None \<Rightarrow> Unverifiable
   | Some x \<Rightarrow> (case ee_claim_id x of
       None \<Rightarrow> NotApplicable
     | Some i \<Rightarrow> (case find_claim db i of
         None \<Rightarrow> Unverifiable
       | Some r \<Rightarrow> if cl_exec_env_id r \<noteq> Some e then Contradictory
           else if cl_state r = ''released'' then Clear else Held)))"
proof -
  have ok: "work_ok lib db" using assms by (rule work_run_ok)
  have rows: "rows_ok db" using ok by (rule work_rows)
  have env: "map_of (wd_envs db) d = Some \<lparr> ee_agent_identity_id = cl_agent_identity_id r, ee_claim_id = Some i \<rparr>"
    if "find_claim db i = Some r" "cl_exec_env_id r = Some d" for i r d
    using ok that by (simp add: work_ok_def envs_follow_def)
  show ?thesis
  proof (cases "map_of (wd_envs db) e")
    case None
    then show ?thesis by (simp add: holder_evidence_def holder_rows_def)
  next
    case (Some x)
    have pair: "ee_agent_identity_id x = None \<longleftrightarrow> ee_claim_id x = None"
      using ok Some unfolding work_ok_def envs_follow_def envs_paired_def by blast
    let ?Q = "\<lambda>c. ee_claim_id x = Some (cl_claim_id c) \<or> cl_exec_env_id c = Some e"
    have only: "ee_claim_id x = Some j" if "find_claim db j = Some s" "?Q s" for j s
      using that env [of j s e] Some row_id [OF rows, of j s] by auto
    show ?thesis
    proof (cases "ee_claim_id x")
      case None
      then have "filter ?Q (claim_rows db) = []" using only by (intro no_row_filter [OF rows]) fastforce
      then show ?thesis using None Some pair by (simp add: holder_evidence_def holder_rows_def)
    next
      case (Some i)
      then obtain h where h: "ee_agent_identity_id x = Some h" using pair by auto
      show ?thesis
      proof (cases "find_claim db i")
        case None
        then have "filter ?Q (claim_rows db) = []" using only Some by (intro no_row_filter [OF rows]) fastforce
        then show ?thesis using None Some h \<open>map_of (wd_envs db) e = Some x\<close> by (simp add: holder_evidence_def holder_rows_def)
      next
        case r: (Some r)
        have "?Q r" using row_id [OF rows r] Some by simp
        then have "filter ?Q (claim_rows db) = [r]" using only Some by (intro one_row_filter [OF rows r]) fastforce+
        then have one: "holder_rows db e =
            [(Some h, Some i, Some i, cl_agent_identity_id r, Some (cl_state r), cl_exec_env_id r)]"
          using r Some h \<open>map_of (wd_envs db) e = Some x\<close> row_id [OF rows r] by (simp add: holder_rows_def)
        have "cl_exec_env_id r = Some e \<Longrightarrow> cl_agent_identity_id r = Some h"
          using env [OF r] \<open>map_of (wd_envs db) e = Some x\<close> h by auto
        moreover have "cl_state r \<in> {''active'', ''orphaned'', ''released''}" using row_okD [OF rows r] by (simp add: row_ok_def)
        ultimately show ?thesis
          using r Some \<open>map_of (wd_envs db) e = Some x\<close> unfolding holder_evidence_def one
          by (cases "cl_exec_env_id r"; cases "cl_agent_identity_id r") auto
      qed
    qed
  qed
qed

section \<open>Sweeps\<close>

text \<open>What the sweep does to each row: an active row with a heartbeat before the staleness cutoff becomes orphaned, a
  released row released before the retention cutoff is deleted, every other row stays as it is; so no protected row is
  released or deleted, and the counts are those of the rows it changed.\<close>

lemma sweep_law:
  assumes "work_reached lib db" "minus_days lib now days = Some t" "minus_days lib now max_days = Some u"
    "gc_session_claims lib now days max_days db = (res, db')"
  shows "find_claim db' i = (case find_claim db i of
       None \<Rightarrow> None
     | Some r \<Rightarrow>
         if cl_state r = ''active'' \<and> cl_heartbeat_at r < to_rfc3339_ms lib t then Some (orphaned_row (to_rfc3339_ms lib now) r)
         else if prunable (to_rfc3339_ms lib u) r then None else Some r)
    \<and> res = Ok \<lparr> gc_released_pruned = length (filter (prunable (to_rfc3339_ms lib u)) (claim_rows db)),
          gc_active_orphaned = length (filter (\<lambda>r. cl_state r = ''active'' \<and> cl_heartbeat_at r < to_rfc3339_ms lib t) (claim_rows db)) \<rparr>
    \<and> wd_envs db' = wd_envs db \<and> wd_identities db' = wd_identities db"
proof -
  let ?g = "\<lambda>r. cl_state r = ''active'' \<and> cl_heartbeat_at r < to_rfc3339_ms lib t"
  let ?f = "orphaned_row (to_rfc3339_ms lib now)"
  have "prunable c (if ?g r then ?f r else r) = prunable c r" for c r by (simp add: prunable_def orphaned_row_def)
  moreover have "claim_rows (snd (update_claims ?g ?f db)) = map (\<lambda>r. if ?g r then ?f r else r) (claim_rows db)"
    by (simp add: claim_rows_def update_claims_def case_prod_unfold comp_def)
  ultimately have "length (filter (prunable c) (claim_rows (snd (update_claims ?g ?f db)))) = length (filter (prunable c) (claim_rows db))" for c
    by (simp add: filter_map comp_def)
  then show ?thesis
    using gc_row [OF reached_rows [OF assms(1)] assms(2-4)] assms(2-4)
    by (auto simp: gc_session_claims_def update_pair split: prod.splits)
qed

section \<open>Presence\<close>

lemma presence_at:
  assumes "work_ok lib db" "find_claim db j = Some r" "legacy_active r" "legacy_key r = k"
  shows "find (\<lambda>r. legacy_active r \<and> legacy_key r = k) (claim_rows db) = Some r"
proof (cases "find (\<lambda>r. legacy_active r \<and> legacy_key r = k) (claim_rows db)")
  case None
  then show ?thesis using assms(3,4) find_in_claim_rows [OF assms(2)] by (auto simp: find_None_iff)
next
  case (Some q)
  note q = presence_find [OF work_rows [OF assms(1)] Some]
  have "cl_claim_id q = j" using assms q unfolding work_ok_def presence_unique_def by metis
  then show ?thesis using q(1) assms(2) Some by simp
qed

lemma upsert_row_simps [simp]:
  "legacy_active (upsert_row lib now p)" "cl_claim_id (upsert_row lib now p) = ns_claim_id p"
  "legacy_key (upsert_row lib now p) = (or_empty (ns_session_client p), or_empty (ns_issue_ref p), or_empty (ns_flow_id p))"
  by (simp_all add: upsert_row_def legacy_active_def legacy_key_def presence_row_def)

text \<open>After a presence upsert the row it names is the one active presence row of that client, issue and flow, with the
  heartbeat of the upsert; no other row changed; and repeating the upsert, under whatever claim id and at whatever time,
  answers the same claim.\<close>

lemma presence_upsert_law:
  assumes "work_reached lib db" "upsert_or_heartbeat_claim lib now p db = Ok (j, db')"
  shows "(case find_claim db' j of
       None \<Rightarrow> False
     | Some r \<Rightarrow> legacy_active r \<and> legacy_key r = legacy_key (upsert_row lib now p)
         \<and> cl_heartbeat_at r = cl_heartbeat_at (upsert_row lib now p)
         \<and> find_claim db' = (find_claim db)(j \<mapsto> r))
    \<and> filter (\<lambda>r. legacy_active r \<and> legacy_key r = legacy_key (upsert_row lib now p)) (claim_rows db') = [the (find_claim db' j)]
    \<and> (\<exists>db''. upsert_or_heartbeat_claim lib now' (p\<lparr> ns_claim_id := i, ns_created_at := t \<rparr>) db' = Ok (j, db''))"
proof -
  have ok: "work_ok lib db" using assms(1) by (rule work_run_ok)
  have ok': "work_ok lib db'" using upsert_conforms [OF ok assms(2)] by (simp add: conforms_def)
  let ?P = "\<lambda>r. legacy_active r \<and> legacy_key r = legacy_key (upsert_row lib now p)"
  obtain r where r: "find_claim db' j = Some r" "?P r" "cl_heartbeat_at r = cl_heartbeat_at (upsert_row lib now p)"
    "find_claim db' = (find_claim db)(j \<mapsto> r)"
    using work_rows [OF ok] assms(2)
  proof (cases rule: presence_upsert_cases)
    case (known q)
    then show ?thesis using that [of "heartbeaten_row (upsert_row lib now p) q"] by simp
  next
    case fresh
    then show ?thesis using that [of "upsert_row lib now p"] insert_claim_row_find [OF work_rows [OF ok] fresh(3)] by simp
  qed
  have "filter ?P (claim_rows db') = [r]"
    using ok' r(1,2) by (intro one_row_filter [OF work_rows [OF ok'] r(1)]) (auto simp: work_ok_def presence_unique_def)
  moreover have "find ?P (claim_rows db') = Some r" using presence_at [OF ok' r(1)] r(2) by blast
  then have "\<exists>db''. upsert_or_heartbeat_claim lib now' (p\<lparr> ns_claim_id := i, ns_created_at := t \<rparr>) db' = Ok (j, db'')"
    using row_id [OF work_rows [OF ok'] r(1)] by (simp add: upsert_unfold)
  ultimately show ?thesis using r by simp
qed

section \<open>Taking over\<close>

abbreviation answered :: "('e, 'r) result \<Rightarrow> bool" where
  "answered x \<equiv> \<not> isl x"

lemma rebind_succeeds:
  assumes "work_ok lib db" "find_claim db i = Some r" "cl_agent_identity_id r = Some a"
  shows "\<exists>db1. rebind_exec_env i a b (cl_exec_env_id r) db = Ok db1"
  using assms by (auto simp: rebind_exec_env_def work_ok_def envs_follow_def split: option.splits)

text \<open>C24: A handoff goes through exactly when the successor's scope and path are declared, the claim is active or
  orphaned at the expected version, the caller is the successor, known, and the holder unless the claim is orphaned, and
  the successor's terms collide with no other protected claim; the environment of the claim can never refuse it.\<close>

theorem handoff_law:
  assumes "work_reached lib db"
  shows "answered (handoff_work_claim lib now i caller v s db) \<longleftrightarrow>
    answered (validate_work_claim_handoff lib s)
    \<and> is_some_and (\<lambda>r. protected r \<and> cl_transition_version r = v \<and> cl_mode r \<noteq> None
         \<and> (cl_state r = ''orphaned'' \<or> cl_agent_identity_id r = Some caller)
         \<and> answered (reject_work_claim_collision lib (handoff_candidate r s) db)) (find_claim db i)
    \<and> hr_agent_identity_id s = caller \<and> known_identity db caller"
proof -
  have ok: "work_ok lib db" using assms by (rule work_run_ok)
  have rows: "rows_ok db" using ok by (rule work_rows)
  show ?thesis
  proof (cases "find_claim db i")
    case None
    then show ?thesis
      by (cases "validate_work_claim_handoff lib s") (simp_all add: handoff_work_claim_def is_some_and_def)
  next
    case (Some r)
    note own = own_update(2) [where P = "\<lambda>r. cl_transition_version r = v \<and> cl_state r \<in> {''active'', ''orphaned''}"]
    have one: "fst (update_claims (\<lambda>r. cl_claim_id r = i \<and> cl_transition_version r = v \<and> cl_state r \<in> {''active'', ''orphaned''}) f db1) = 1"
      if "rebind_exec_env i a b env db = Ok db1" "cl_transition_version r = v" "cl_state r \<in> {''active'', ''orphaned''}" for db1 a b env f
    proof -
      have "claim_rows db1 = claim_rows db" using rebind_Ok(1) [OF that(1)] by (simp add: claim_rows_def)
      then show ?thesis unfolding fst_update using own [OF rows Some conjI [OF that(2,3)]] by simp
    qed
    have agent: "cl_mode r \<noteq> None \<longleftrightarrow> cl_agent_identity_id r \<noteq> None" using row_okD [OF rows Some] by (auto simp: row_ok_def)
    show ?thesis
    proof (cases "cl_agent_identity_id r")
      case None
      then show ?thesis using Some agent
        by (cases "validate_work_claim_handoff lib s") (simp_all add: handoff_work_claim_def is_some_and_def)
    next
      case a: (Some a)
      obtain db1 where db1: "rebind_exec_env i a (hr_agent_identity_id s) (cl_exec_env_id r) db = Ok db1"
        using rebind_succeeds [OF ok Some a] by blast
      show ?thesis
        using Some a db1 agent one [OF db1]
        by (cases "validate_work_claim_handoff lib s"; cases "reject_work_claim_collision lib (handoff_candidate r s) db")
           (auto simp: handoff_work_claim_def is_some_and_def protected_def case_prod_unfold)
    qed
  qed
qed

section \<open>The project gate\<close>

lemma row_to_claim_Ok:
  assumes "row_to_claim r = Ok c"
  shows "sc_flow_id c = cl_flow_id r" "sc_agent_identity_id c = cl_agent_identity_id r" "sc_lease_expires_at c = cl_lease_expires_at r"
    "sc_state c = ClaimActive \<longleftrightarrow> cl_state r = ''active''" "sc_mode c = Some Writable \<longleftrightarrow> cl_mode r = Some ''writable''"
    "cl_mode r = None \<or> cl_mode r \<in> {Some ''read_only'', Some ''writable''}"
  using assms by (auto simp: row_to_claim_def and_then_Inr_iff claim_state_parse_def work_claim_mode_parse_def split: option.splits if_splits)

lemma row_readable: "row_ok i r \<Longrightarrow> \<exists>c. row_to_claim r = Ok c"
  by (auto simp: row_ok_def row_to_claim_def claim_state_parse_def work_claim_mode_parse_def)

text \<open>C23: A gated write answers exactly when the connection asserted the identity, the claim is that identity's own active
  writable claim of this flow in this project with a lease in the future, no other row has the flow, and the operation
  run on that very claim answers; in every other case it is refused and nothing runs.\<close>

theorem project_gate_law:
  assumes "work_reached lib db"
  shows "with_local_project_claim_write ch now i flow project identity connection operation db = Ok x \<longleftrightarrow>
    require_local_claim_admission db identity connection = Ok ()
    \<and> is_some_and (\<lambda>r. cl_canonical_project r = Some project \<and> cl_flow_id r = Some flow
        \<and> cl_agent_identity_id r = Some identity \<and> cl_state r = ''active'' \<and> cl_mode r = Some ''writable''
        \<and> is_some_and (\<lambda>lease. is_some_and (\<lambda>t. now < t) (parse_from_rfc3339 ch lease)) (cl_lease_expires_at r)
        \<and> filter (\<lambda>q. cl_flow_id q = Some flow) (claim_rows db) = [r]
        \<and> and_then (row_to_claim r) (\<lambda>c. operation c db) = Ok x) (find_claim db i)"
proof (cases "find_claim db i")
  case None
  then show ?thesis
    by (simp add: with_local_project_claim_write_def is_some_and_def and_then_Inr_iff work_claim_project_def)
next
  case (Some r)
  have rows: "rows_ok db" using assms by (rule reached_rows)
  obtain c where c: "row_to_claim r = Ok c" using row_readable row_okD [OF rows Some] by blast
  have one: "filter (\<lambda>q. cl_flow_id q = Some flow) (claim_rows db) = [r] \<longleftrightarrow>
      length (filter (\<lambda>q. cl_flow_id q = Some flow) (claim_rows db)) = 1" if "cl_flow_id r = Some flow"
  proof
    assume "length (filter (\<lambda>q. cl_flow_id q = Some flow) (claim_rows db)) = 1"
    then obtain q where "filter (\<lambda>q. cl_flow_id q = Some flow) (claim_rows db) = [q]" by (auto simp: length_Suc_conv)
    moreover have "r \<in> set (filter (\<lambda>q. cl_flow_id q = Some flow) (claim_rows db))"
      using that find_in_claim_rows [OF Some] by simp
    ultimately show "filter (\<lambda>q. cl_flow_id q = Some flow) (claim_rows db) = [r]" by simp
  qed simp
  show ?thesis
    using Some c one row_to_claim_Ok [OF c]
    by (cases "require_local_claim_admission db identity connection")
       (auto simp: with_local_project_claim_write_def is_some_and_def work_claim_project_def get_claim_def)
qed

end
