(* ===== verification/Claims_Examples.thy ===== *)
theory Claims_Examples
  imports Claims_Contract
begin

text \<open>
  The promises of the work claims at work, on a claim of \<open>ann\<close> and one of \<open>bob\<close> for one
  issue, and their limits: presence rows nothing releases, versions that start again with a
  reused id, paths the overlap test takes for different, and terms only a handoff accepts.
\<close>

section \<open>A small database\<close>

definition demo_lib :: claims_lib where
  "demo_lib = \<lparr> parse_from_rfc3339 = (\<lambda>s. Some (int (length s))), MIN_UTC = 0, parse_datetime_utc = (\<lambda>_. None),
     to_rfc3339_ms = (\<lambda>t. replicate (nat t) CHR ''t''), minus_days = (\<lambda>t n. Some (t - n)), julianday = (\<lambda>s. Some (int (length s))),
     read_string_array = (\<lambda>_. None) \<rparr>"

definition after_call :: "'r work_write \<Rightarrow> work_db \<Rightarrow> work_db" where
  "after_call c db = (case c db of Ok (_, db') \<Rightarrow> db' | Err _ \<Rightarrow> db)"

lemma after_call_Ok: "answered (c db) \<Longrightarrow> \<exists>x. c db = Ok (x, after_call c db)"
  by (cases "c db") (auto simp: after_call_def)

definition demo_identity :: "string \<Rightarrow> agent_identity" where
  "demo_identity a = \<lparr> ai_agent_identity_id = a, ai_display_name = None, ai_seat = None, ai_capability_json = None, ai_created_at = [] \<rparr>"

definition demo_work :: "string \<Rightarrow> string \<Rightarrow> string \<Rightarrow> new_work_claim" where
  "demo_work i a path = \<lparr> nc_claim_id = i, nc_agent_identity_id = a, nc_session_client = None, nc_issue_ref = Some ''#1'',
     nc_flow_id = Some i, nc_dispatch_id = None, nc_branch = [], nc_worktree_path = path, nc_declared_file_scope = path,
     nc_role = ''lead'', nc_mode = Writable, nc_expected_head = ''h1'', nc_lease_expires_at = ''ttttttttt'', nc_created_at = ''t'' \<rparr>"

definition demo_row :: "string \<Rightarrow> string \<Rightarrow> string \<Rightarrow> claim_row" where
  "demo_row i a path = claim_row_of (demo_work i a path) ''t''"

definition demo_presence :: new_session_claim where
  "demo_presence = \<lparr> ns_claim_id = ''p1'', ns_session_client = Some ''cli'', ns_issue_ref = None, ns_flow_id = None,
     ns_dispatch_id = None, ns_branch = [], ns_declared_file_scope = None, ns_created_at = ''t'' \<rparr>"

definition work_known :: work_db where
  "work_known = \<lparr> wd_claims = [], wd_identities = [(''ann'', (demo_identity ''ann'')\<lparr> ai_created_at := ''t'' \<rparr>),
       (''bob'', (demo_identity ''bob'')\<lparr> ai_created_at := ''t'' \<rparr>)],
     wd_admissions = [(''a1'', \<lparr> ia_admission_id = ''a1'', ia_agent_identity_id = Some ''ann'', ia_connection_id = ''conn'',
       ia_state = ''self_asserted'', ia_rejection_evidence = None, ia_created_at = ''t'' \<rparr>)], wd_envs = [] \<rparr>"
definition work_taken :: work_db where
  "work_taken = work_known\<lparr> wd_claims := [(''c1'', (demo_row ''c1'' ''ann'' ''src/a'')\<lparr> cl_canonical_project := Some ''proj'' \<rparr>)] \<rparr>"
definition work_shared :: work_db where
  "work_shared = work_known\<lparr> wd_claims := wd_claims work_taken @ [(''c2'', demo_row ''c2'' ''bob'' ''src/b'')] \<rparr>"
definition work_bound :: work_db where
  "work_bound = work_shared\<lparr>
     wd_claims := update_row ''c1'' (\<lambda>r. r\<lparr> cl_exec_env_id := Some ''e1'', cl_transition_version := 1 \<rparr>) (wd_claims work_shared),
     wd_envs := [(''e1'', \<lparr> ee_agent_identity_id = Some ''ann'', ee_claim_id = Some ''c1'' \<rparr>)] \<rparr>"
definition work_present :: work_db where
  "work_present = work_bound\<lparr> wd_claims := wd_claims work_bound @ [(''p1'', presence_row demo_presence ''t'')] \<rparr>"
definition work_swept :: work_db where
  "work_swept = snd (gc_session_claims demo_lib 9 5 5 work_present)"

lemma work_run_trans: "work_reached lib db \<Longrightarrow> work_step lib db db' \<Longrightarrow> work_reached lib db'"
  by (rule rtranclp.rtrancl_into_rtrancl)

lemma demo_calls:
  "after_call (record_unverified_admission demo_lib ''t'' ''a1'' ''ann'' ''conn'' SelfAsserted)
     (after_call (insert_agent_identity demo_lib ''t'' (demo_identity ''bob''))
       (after_call (insert_agent_identity demo_lib ''t'' (demo_identity ''ann'')) empty_work)) = work_known"
  "insert_local_project_work_claim demo_lib ''t'' (demo_work ''c1'' ''ann'' ''src/a'') ''conn'' ''proj'' work_known = Ok ((), work_taken)"
  by code_simp+

lemma demo_apart: "\<not> paths_overlap ''src/b'' ''src/a''"
  by code_simp

lemma demo_no_collision: "reject_work_claim_collision demo_lib (demo_work ''c2'' ''bob'' ''src/b'') work_taken = Ok ()"
  by (simp add: reject_work_claim_collision_def work_taken_def work_known_def claim_rows_def row_collides_def demo_row_def
      claim_row_of_def demo_work_def is_some_and_def or_empty_def demo_apart scopes_overlap_def scope_entries_def demo_lib_def)

lemma demo_calls2:
  "insert_work_claim demo_lib ''t'' (demo_work ''c2'' ''bob'' ''src/b'') work_taken = Ok ((), work_shared)"
proof -
  have "require_non_empty_declared_scope demo_lib (nc_declared_file_scope (demo_work ''c2'' ''bob'' ''src/b'')) = Ok ()"
    "\<not> list_ex blank [''bob'', ''lead'', ''h1'', ''ttttttttt'', ''t'', ''src/b'']" "normalize_utc_iso_or_now demo_lib ''t'' ''t'' = ''t''"
    "insert_claim_row (demo_row ''c2'' ''bob'' ''src/b'') work_taken = Ok ((), work_shared)"
    by code_simp+
  moreover have "known_identity work_taken ''bob''" by (simp add: known_identity_def work_taken_def work_known_def)
  ultimately show ?thesis using demo_no_collision by (simp add: insert_work_claim_def demo_work_def demo_row_def)
qed

lemma demo_calls3:
  "map_of (wd_envs work_shared) ''e1'' = None"
  "bind_work_claim_exec_env ''c1'' ''e1'' 0 (add_exec_env ''e1'' work_shared) = Ok (1, work_bound)"
  "upsert_or_heartbeat_claim demo_lib ''t'' demo_presence work_bound = Ok (''p1'', work_present)"
  by code_simp+
lemma work_reached_demo:
  "work_reached demo_lib work_known" "work_reached demo_lib work_taken" "work_reached demo_lib work_shared"
  "work_reached demo_lib work_bound" "work_reached demo_lib work_present" "work_reached demo_lib work_swept"
proof -
  let ?ann = "insert_agent_identity demo_lib ''t'' (demo_identity ''ann'')"
  let ?bob = "insert_agent_identity demo_lib ''t'' (demo_identity ''bob'')"
  let ?adm = "record_unverified_admission demo_lib ''t'' ''a1'' ''ann'' ''conn'' SelfAsserted"
  have call: "work_reached demo_lib (after_call c db)"
    if "work_reached demo_lib db" "\<And>x db'. c db = Ok (x, db') \<Longrightarrow> work_step demo_lib db db'" for db and c :: "unit work_write"
    using that work_run_trans by (cases "c db") (fastforce simp: after_call_def)+
  have "work_reached demo_lib (after_call ?ann empty_work)" by (rule call) (auto intro: work_step.intros(1))
  then have "work_reached demo_lib (after_call ?bob (after_call ?ann empty_work))" by (rule call) (auto intro: work_step.intros(1))
  then have "work_reached demo_lib (after_call ?adm (after_call ?bob (after_call ?ann empty_work)))"
    by (rule call) (auto intro: work_step.intros(2))
  then show 1: "work_reached demo_lib work_known" unfolding demo_calls(1) .
  show 2: "work_reached demo_lib work_taken" by (rule work_run_trans [OF 1 work_step.intros(5) [OF demo_calls(2)]])
  show 3: "work_reached demo_lib work_shared" by (rule work_run_trans [OF 2 work_step.intros(4) [OF demo_calls2]])
  have "work_reached demo_lib (add_exec_env ''e1'' work_shared)" by (rule work_run_trans [OF 3 work_step.intros(15) [OF demo_calls3(1)]])
  then show 4: "work_reached demo_lib work_bound" by (rule work_run_trans [OF _ work_step.intros(9) [OF demo_calls3(2)]])
  show 5: "work_reached demo_lib work_present" by (rule work_run_trans [OF 4 work_step.intros(11) [OF demo_calls3(3)]])
  show "work_reached demo_lib work_swept"
    unfolding work_swept_def by (rule work_run_trans [OF 5 work_step.intros(14)]) (rule prod.collapse [symmetric])
qed

section \<open>The promises at work\<close>

definition row_c1 :: claim_row where
  "row_c1 = (demo_row ''c1'' ''ann'' ''src/a'')\<lparr> cl_canonical_project := Some ''proj'' \<rparr>"

lemma find_demo:
  "find_claim work_shared ''c1'' = Some row_c1" "find_claim work_shared ''c2'' = Some (demo_row ''c2'' ''bob'' ''src/b'')"
  "find_claim work_bound ''c1'' = Some (row_c1\<lparr> cl_exec_env_id := Some ''e1'', cl_transition_version := 1 \<rparr>)"
  "map_of (wd_envs work_bound) ''e1'' = Some \<lparr> ee_agent_identity_id = Some ''ann'', ee_claim_id = Some ''c1'' \<rparr>"
  by (simp_all add: find_claim_def work_bound_def work_shared_def work_taken_def work_known_def row_c1_def update_row_def)

lemma demo_row_simps [simp]:
  "cl_state (demo_row i a path) = ''active''" "cl_mode (demo_row i a path) = Some ''writable''"
  "cl_worktree_path (demo_row i a path) = Some path" "cl_agent_identity_id (demo_row i a path) = Some a"
  "cl_state row_c1 = ''active''" "cl_mode row_c1 = Some ''writable''" "cl_worktree_path row_c1 = Some ''src/a''"
  "cl_agent_identity_id row_c1 = Some ''ann''" "cl_flow_id row_c1 = Some ''c1''" "cl_canonical_project row_c1 = Some ''proj''"
  "cl_lease_expires_at row_c1 = Some ''ttttttttt''" "cl_transition_version row_c1 = 0" "cl_exec_env_id row_c1 = None"
  by (simp_all add: demo_row_def row_c1_def claim_row_of_def demo_work_def)

theorem writable_work_is_exclusive_witness:
  "\<not> (covers (normalize_path ''src/a'') ''src/a/x'' \<and> covers (normalize_path ''src/b'') ''src/a/x'')"
  using writable_work_is_exclusive [OF work_reached_demo(3) find_demo(1,2)] by (simp add: protected_def or_empty_def)

theorem holder_keeps_active_claim_witness:
  "(case find_claim work_present ''c1'' of None \<Rightarrow> False | Some r \<Rightarrow> cl_agent_identity_id r = Some ''ann'')"
  using holder_keeps_active_claim [OF work_reached_demo(4) work_step.intros(11) [OF demo_calls3(3)] find_demo(3)]
  by (simp split: option.splits)

theorem versions_fence_witness:
  "\<not> answered (bind_work_claim_exec_env ''c1'' ''e1'' 0 work_bound)
   \<and> \<not> answered (heartbeat_work_claim demo_lib ''t'' ''c1'' ''ann'' 0 ''tt'' work_bound)"
proof -
  have "\<not> versioned_write demo_lib ''c1'' 0 work_bound db" for db
  proof
    assume w: "versioned_write demo_lib ''c1'' 0 work_bound db"
    have "work_reached demo_lib (add_exec_env ''e1'' work_shared)"
      by (rule work_run_trans [OF work_reached_demo(3) work_step.intros(15) [OF demo_calls3(1)]])
    then have "(0::int) < 0" by (rule versions_fence [OF _ versioned_write.intros(4) [OF demo_calls3(2)] rtranclp.rtrancl_refl w])
    then show False by simp
  qed
  moreover have "\<not> answered (c work_bound)" if "\<And>x db. c work_bound = Ok (x, db) \<Longrightarrow> False" for c :: "'r work_write"
    using that by (cases "c work_bound") auto
  ultimately show ?thesis using versioned_write.intros(1,4) by meson
qed

theorem holder_evidence_law_witness: "holder_evidence work_bound ''e1'' = Held"
  using holder_evidence_law [OF work_reached_demo(4), of "''e1''"] by (simp add: find_demo)

lemma find_present:
  "find_claim work_present ''c1'' = Some (row_c1\<lparr> cl_exec_env_id := Some ''e1'', cl_transition_version := 1 \<rparr>)"
  "find_claim work_present ''p1'' = Some (presence_row demo_presence ''t'')"
  by (simp_all add: find_claim_def work_present_def work_bound_def work_shared_def work_taken_def work_known_def row_c1_def update_row_def)

lemma row_c1_heartbeat [simp]: "cl_heartbeat_at row_c1 = ''t''"
  by (simp add: row_c1_def demo_row_def claim_row_of_def)

theorem sweep_law_witness:
  "find_claim (snd (gc_session_claims demo_lib 9 5 5 work_present)) ''c1'' =
     Some (orphaned_row ''ttttttttt'' (row_c1\<lparr> cl_exec_env_id := Some ''e1'', cl_transition_version := 1 \<rparr>))"
proof -
  have "minus_days demo_lib 9 5 = Some 4" "to_rfc3339_ms demo_lib 4 = ''tttt''" "to_rfc3339_ms demo_lib 9 = ''ttttttttt''"
    "''t'' < ''tttt''" by (simp_all add: demo_lib_def numeral_eq_Suc)
  then show ?thesis
    using sweep_law [OF work_reached_demo(5) _ _ prod.collapse [symmetric], of 9 5 4 5 4 "''c1''"] by (simp add: find_present)
qed

theorem presence_upsert_law_witness:
  "\<exists>db. upsert_or_heartbeat_claim demo_lib ''tt'' (demo_presence\<lparr> ns_claim_id := ''p9'', ns_created_at := [] \<rparr>) work_present = Ok (''p1'', db)"
  using presence_upsert_law [OF work_reached_demo(4) demo_calls3(3), of "''tt''" "[]" "''p9''"] by simp

definition demo_successor :: "string \<Rightarrow> work_claim_handoff_request" where
  "demo_successor a = \<lparr> hr_agent_identity_id = a, hr_role = [], hr_mode = Writable, hr_worktree_path = ''src/a'',
     hr_declared_file_scope = ''src/a'', hr_expected_head = [], hr_lease_expires_at = [] \<rparr>"

theorem handoff_law_witness:
  "\<not> answered (handoff_work_claim demo_lib ''t'' ''c1'' ''bob'' 1 (demo_successor ''bob'') work_bound)"
  using handoff_law [OF work_reached_demo(4), of "''t''" "''c1''" "''bob''" 1 "demo_successor ''bob''"]
  by (simp add: find_demo is_some_and_def)

theorem project_gate_law_witness:
  "with_local_project_claim_write demo_lib 0 ''c1'' ''c1'' ''proj'' ''ann'' ''conn'' (\<lambda>c db. Ok (sc_claim_id c, db)) work_shared
     = Ok (''c1'', work_shared)"
proof -
  have "require_local_claim_admission work_shared ''ann'' ''conn'' = Ok ()"
    by (simp add: require_local_claim_admission_def work_shared_def work_known_def)
  moreover have "filter (\<lambda>q. cl_flow_id q = Some ''c1'') (claim_rows work_shared) = [row_c1]"
    by (simp add: claim_rows_def work_shared_def work_taken_def work_known_def row_c1_def demo_row_def claim_row_of_def demo_work_def)
  moreover have "and_then (row_to_claim row_c1) (\<lambda>c. Ok (sc_claim_id c, work_shared)) = Ok (''c1'', work_shared)"
    by (simp add: row_to_claim_def work_claim_mode_parse_def claim_state_parse_def row_c1_def demo_row_def claim_row_of_def demo_work_def)
  ultimately show ?thesis
    using find_demo(1) unfolding project_gate_law [OF work_reached_demo(3)] by (simp add: is_some_and_def demo_lib_def)
qed

section \<open>Limits\<close>

text \<open>An orphaned presence row stays for ever: no call releases, hands off, deletes or changes it.\<close>

lemma orphaned_presence_is_stuck:
  assumes "work_reached lib db" "find_claim db i = Some r" "cl_state r = ''orphaned''" "cl_mode r = None"
    "(work_step lib)\<^sup>*\<^sup>* db db'"
  shows "find_claim db' i = Some r"
  using assms(5)
proof (induction rule: rtranclp_induct)
  case (step db1 db2)
  have "work_reached lib db1" using assms(1) step(1) by (rule rtranclp_trans)
  then have "claim_moves\<^sup>=\<^sup>= (Some r) (find_claim db2 i)" using step_moves [OF _ step(2), of i] step(3) by simp
  moreover have "cl_agent_identity_id r = None" using row_okD [OF reached_rows [OF assms(1)] assms(2)] assms(4) by (simp add: row_ok_def)
  ultimately show ?case using assms(3) by (auto elim!: claim_moves.cases simp: legacy_active_def)
qed (use assms(2) in simp)

lemma orphaned_presence_refused:
  assumes "find_claim db i = Some r" "cl_state r = ''orphaned''" "cl_mode r = None" "cl_agent_identity_id r = None"
  shows "release_claim lib now (ByClaimId i) why db = Err WorkClaimIncompatibleState"
    "release_work_claim lib now i caller v reason db \<in> {Err WorkClaimIncompatibleState, Err WorkClaimConflict}"
  using assms by (auto simp: release_claim_def select_release_target_def claim_state_parse_def release_work_claim_def)

text \<open>The overlap test reads paths as they are spelled: one directory under two spellings does not overlap.\<close>

lemma spellings_slip:
  "\<not> paths_overlap ''src/./a'' ''src/a''" "\<not> paths_overlap ''src//a'' ''src/a''" "\<not> paths_overlap ''.'' ''src/a''"
  "paths_overlap ''./'' ''src/a''"
  by code_simp+

text \<open>A claim may be handed on with no role, no expected head and no lease, which no insertion accepts.\<close>

lemma handoff_takes_blank_terms:
  "answered (handoff_work_claim demo_lib ''t'' ''c1'' ''ann'' 0 (demo_successor ''ann'') work_taken)"
  "insert_work_claim demo_lib ''t'' (handoff_candidate row_c1 (demo_successor ''ann'')) work_known = Err WorkInvalidArg"
  by code_simp+

text \<open>A pruned id starts again at version 0, so a late call of its earlier holder goes through.\<close>

definition work_reused :: work_db where
  "work_reused = after_call (insert_work_claim demo_lib ''t'' (demo_work ''c1'' ''ann'' ''src/z''))
     (snd (gc_session_claims demo_lib 9 1 1 (after_call (release_work_claim demo_lib ''t'' ''c1'' ''ann'' 0 ''end'') work_taken)))"

lemma reused_id_restarts:
  "map_option cl_transition_version (find_claim work_taken ''c1'') = Some 0"
  "answered (release_work_claim demo_lib ''t'' ''c1'' ''ann'' 0 ''old call'' work_reused)"
  by code_simp+

end
