(* ===== verification/Path_Router.thy ===== *)
theory Path_Router
  imports Tachi_Strings
begin

text \<open>
  Categories and paths of memories: the vocabularies of \<open>crates/memcore/src/types/entry.rs\<close>
  and the routing rules of \<open>path_router.rs\<close>. \<open>str::to_lowercase\<close>, which follows the Unicode
  tables, is an argument; paths are bytes.
\<close>

section \<open>Vocabularies\<close>

datatype memory_category =
    Fact | Decision | Experience | Preference | Entity | OtherCategory
  | Kanban | Handoff | Ghost | Wiki | Guide | Eval | Sticky

fun memory_category_as_str :: "memory_category \<Rightarrow> string" where
  "memory_category_as_str Fact = ''fact''"
| "memory_category_as_str Decision = ''decision''"
| "memory_category_as_str Experience = ''experience''"
| "memory_category_as_str Preference = ''preference''"
| "memory_category_as_str Entity = ''entity''"
| "memory_category_as_str OtherCategory = ''other''"
| "memory_category_as_str Kanban = ''kanban''"
| "memory_category_as_str Handoff = ''handoff''"
| "memory_category_as_str Ghost = ''ghost''"
| "memory_category_as_str Wiki = ''wiki''"
| "memory_category_as_str Guide = ''guide''"
| "memory_category_as_str Eval = ''eval''"
| "memory_category_as_str Sticky = ''sticky''"

definition memory_category_from_str :: "string option \<Rightarrow> memory_category" where
  "memory_category_from_str s =
     (let raw = to_ascii_lowercase (trim (case s of Some t \<Rightarrow> t | None \<Rightarrow> []))
      in if raw = ''fact'' then Fact else if raw = ''decision'' then Decision
         else if raw = ''experience'' then Experience else if raw = ''preference'' then Preference
         else if raw = ''entity'' then Entity else if raw = ''other'' then OtherCategory
         else if raw = ''kanban'' then Kanban else if raw = ''handoff'' then Handoff
         else if raw = ''ghost'' then Ghost else if raw = ''wiki'' then Wiki
         else if raw = ''guide'' then Guide else if raw = ''eval'' then Eval
         else if raw = ''sticky'' then Sticky else OtherCategory)"

definition memory_category_normalize :: "string \<Rightarrow> string" where
  "memory_category_normalize s = memory_category_as_str (memory_category_from_str (Some s))"

datatype memory_scope = UserScope | ProjectScope | GeneralScope

fun memory_scope_as_str :: "memory_scope \<Rightarrow> string" where
  "memory_scope_as_str UserScope = ''user''"
| "memory_scope_as_str ProjectScope = ''project''"
| "memory_scope_as_str GeneralScope = ''general''"

definition memory_scope_from_str :: "string option \<Rightarrow> memory_scope" where
  "memory_scope_from_str s =
     (let raw = to_ascii_lowercase (trim (case s of Some t \<Rightarrow> t | None \<Rightarrow> []))
      in if raw = ''user'' then UserScope else if raw = ''project'' then ProjectScope else GeneralScope)"

definition memory_scope_normalize :: "string \<Rightarrow> string" where
  "memory_scope_normalize s = memory_scope_as_str (memory_scope_from_str (Some s))"

definition default_retention_for :: "string \<Rightarrow> string \<Rightarrow> string option" where
  "default_retention_for path source =
     (if prefix ''/handoff'' path \<or> prefix ''/kanban'' path then Some ''pinned''
      else if prefix ''/wiki'' path \<or> prefix ''/guide'' path \<or> source = ''foundry_distill'' then Some ''permanent''
      else None)"

section \<open>Normal form of a path\<close>

fun collapse_slashes :: "bool \<Rightarrow> string \<Rightarrow> string" where
  "collapse_slashes last_was_slash [] = []"
| "collapse_slashes last_was_slash (c # cs) =
     (if c = CHR ''/'' then (if last_was_slash then [] else [c]) @ collapse_slashes True cs
      else c # collapse_slashes False cs)"

definition lower_first_segment :: "(string \<Rightarrow> string) \<Rightarrow> string \<Rightarrow> string" where
  "lower_first_segment to_lowercase rest =
     to_lowercase (takeWhile (\<lambda>c. c \<noteq> CHR ''/'') rest) @ dropWhile (\<lambda>c. c \<noteq> CHR ''/'') rest"

definition normalize_memory_path :: "(string \<Rightarrow> string) \<Rightarrow> string \<Rightarrow> string" where
  "normalize_memory_path to_lowercase p =
     (let trimmed = trim p
      in if trimmed = [] then ''/''
         else let with_lead = (if prefix ''/'' trimmed then trimmed else ''/'' @ trimmed);
                  collapsed = collapse_slashes False with_lead;
                  stripped = (if 1 < length collapsed then trim_end_matches ''/'' collapsed else collapsed)
              in if stripped = [] then ''/''
                 else (case strip_prefix ''/'' stripped of
                     None \<Rightarrow> stripped
                   | Some rest \<Rightarrow> if rest = [] then ''/'' else ''/'' @ lower_first_segment to_lowercase rest))"

section \<open>Routing\<close>

datatype path_routing = ProjectRouting | WikiOnly | AnyRouting

datatype path_routing_error =
    RetiredStickyPath string | RetiredStickyCategory string | WikiPathInNonWikiDb string string

definition WIKI_CORPUS_DB_LABEL :: string where "WIKI_CORPUS_DB_LABEL = ''wiki''"
definition UNKNOWN_DB_LABEL :: string where "UNKNOWN_DB_LABEL = ''unknown''"

text \<open>A namespace and what is below it.\<close>

definition at_or_below :: "string \<Rightarrow> string \<Rightarrow> bool" where
  "at_or_below root n \<longleftrightarrow> n = root \<or> prefix (root @ ''/'') n"

definition classify_path :: "(string \<Rightarrow> string) \<Rightarrow> string \<Rightarrow> path_routing" where
  "classify_path to_lowercase p =
     (let n = normalize_memory_path to_lowercase p
      in if at_or_below ''/wiki'' n then WikiOnly
         else if at_or_below ''/handoff'' n then ProjectRouting
         else if at_or_below ''/agents'' n then ProjectRouting
         else if at_or_below ''/kanban'' n then ProjectRouting
         else if prefix ''/domain/'' n then AnyRouting
         else ProjectRouting)"

definition db_label_is_wiki_corpus :: "string \<Rightarrow> bool" where
  "db_label_is_wiki_corpus db_label \<longleftrightarrow> db_label = WIKI_CORPUS_DB_LABEL"

definition validate_path_for_db ::
  "(string \<Rightarrow> string) \<Rightarrow> string \<Rightarrow> string \<Rightarrow> bool \<Rightarrow> (unit, path_routing_error) result" where
  "validate_path_for_db to_lowercase path db_label allow_cross_project =
     (let normalized = normalize_memory_path to_lowercase path
      in if at_or_below ''/sticky'' normalized then Err (RetiredStickyPath normalized)
         else if allow_cross_project then Ok ()
         else (case classify_path to_lowercase normalized of
             WikiOnly \<Rightarrow> if \<not> db_label_is_wiki_corpus db_label then Err (WikiPathInNonWikiDb normalized db_label) else Ok ()
           | _ \<Rightarrow> Ok ()))"

definition validate_retired_sticky_write ::
  "(string \<Rightarrow> string) \<Rightarrow> string \<Rightarrow> string \<Rightarrow> (unit, path_routing_error) result" where
  "validate_retired_sticky_write to_lowercase path category =
     (let normalized_category = memory_category_normalize category
      in if normalized_category = ''sticky'' then Err (RetiredStickyCategory normalized_category)
         else let normalized_path = normalize_memory_path to_lowercase path
              in if at_or_below ''/sticky'' normalized_path then Err (RetiredStickyPath normalized_path) else Ok ())"

definition validate_memory_write_for_db ::
  "(string \<Rightarrow> string) \<Rightarrow> string \<Rightarrow> string \<Rightarrow> string \<Rightarrow> bool \<Rightarrow> (unit, path_routing_error) result" where
  "validate_memory_write_for_db to_lowercase path category db_label allow_cross_project =
     and_then (validate_retired_sticky_write to_lowercase path category) (\<lambda>_.
       validate_path_for_db to_lowercase path db_label allow_cross_project)"

end
