(* ===== verification/Outbox_Queue.thy ===== *)
theory Outbox_Queue
  imports Path_Router Tachi_Json
begin

text \<open>
  The durable outbox: its rows and state machine, \<open>crates/memcore/src/db/outbox.rs\<close>, and the
  commit of a memory with its event, \<open>store/outbox.rs\<close>. A stored row is held decoded, since
  the table's CHECK admits only the six states; the \<open>memories\<close> table is what \<open>fetch_by_ids\<close>
  reads of it, and the two writers of \<open>db/memory_crud.rs\<close> the module calls are arguments,
  about which nothing is assumed. A call that fails rolls its transaction back and is an
  error without a database.
\<close>

section \<open>States\<close>

datatype outbox_state = Pending | InFlight | Acknowledged | OutboxRejected | Conflicted | Quarantined

fun outbox_state_as_str :: "outbox_state \<Rightarrow> string" where
  "outbox_state_as_str Pending = ''pending''"
| "outbox_state_as_str InFlight = ''in_flight''"
| "outbox_state_as_str Acknowledged = ''acknowledged''"
| "outbox_state_as_str OutboxRejected = ''rejected''"
| "outbox_state_as_str Conflicted = ''conflicted''"
| "outbox_state_as_str Quarantined = ''quarantined''"

definition outbox_state_parse :: "string \<Rightarrow> outbox_state option" where
  "outbox_state_parse raw =
     (if raw = ''pending'' then Some Pending else if raw = ''in_flight'' then Some InFlight
      else if raw = ''acknowledged'' then Some Acknowledged else if raw = ''rejected'' then Some OutboxRejected
      else if raw = ''conflicted'' then Some Conflicted else if raw = ''quarantined'' then Some Quarantined else None)"

interpretation outbox_state_wire: wire_vocabulary outbox_state_as_str outbox_state_parse
  "[Pending, InFlight, Acknowledged, OutboxRejected, Conflicted, Quarantined]"
proof unfold_locales
  show "v \<in> set [Pending, InFlight, Acknowledged, OutboxRejected, Conflicted, Quarantined]" for v by (cases v) simp_all
qed (simp_all add: outbox_state_parse_def)

fun can_transition_to :: "outbox_state \<Rightarrow> outbox_state \<Rightarrow> bool" where
  "can_transition_to _ Quarantined = True"
| "can_transition_to Pending InFlight = True"
| "can_transition_to InFlight Acknowledged = True"
| "can_transition_to InFlight OutboxRejected = True"
| "can_transition_to InFlight Conflicted = True"
| "can_transition_to _ _ = False"

fun is_failure :: "outbox_state \<Rightarrow> bool" where
  "is_failure OutboxRejected = True"
| "is_failure Conflicted = True"
| "is_failure Quarantined = True"
| "is_failure _ = False"

definition MAX_OUTBOX_CLASS_BYTES :: nat where "MAX_OUTBOX_CLASS_BYTES = 64"
definition OUTBOX_PAYLOAD_DIGEST_HEX_LEN :: nat where "OUTBOX_PAYLOAD_DIGEST_HEX_LEN = 64"
definition DEFAULT_OUTBOX_HEALTH_STALE_AFTER :: nat where "DEFAULT_OUTBOX_HEALTH_STALE_AFTER = 300 * 10 ^ 9"
definition OUTBOX_RESERVED_SUCCESSOR_SUFFIX :: string where "OUTBOX_RESERVED_SUCCESSOR_SUFFIX = ''::local-wins''"
definition OUTBOX_RESERVED_RESOLVED_CLASS_PREFIX :: string where "OUTBOX_RESERVED_RESOLVED_CLASS_PREFIX = ''conflict_resolved_''"

section \<open>Rows\<close>

record outbox_event_row =
  oe_event_id :: string
  oe_object_id :: string
  oe_object_class :: string
  oe_authority_class :: string
  oe_source_store :: string
  oe_source_partition :: string
  oe_source_revision :: int
  oe_payload_digest :: string
  oe_state :: outbox_state
  oe_last_error_class :: "string option"
  oe_created_at :: string
  oe_state_changed_at :: string

record new_outbox_event =
  no_event_id :: string
  no_object_id :: string
  no_object_class :: string
  no_authority_class :: string
  no_source_store :: string
  no_source_partition :: string
  no_payload_digest :: string

record destination_receipt_row =
  dr_event_id :: string
  dr_object_id :: string
  dr_source_store :: string
  dr_source_partition :: string
  dr_source_revision :: int
  dr_source_payload_digest :: string
  dr_destination_store :: string
  dr_destination_partition :: string
  dr_destination_object_revision :: int
  dr_destination_payload_digest :: string
  dr_application :: string

text \<open>The columns of a memory the payload digest covers; an \<open>f64\<close> is its bits.\<close>

record memory_entry =
  me_archived :: bool
  me_category :: string
  me_domain :: "string option"
  me_entities :: "string list"
  me_id :: string
  me_importance :: nat
  me_keywords :: "string list"
  me_metadata :: json
  me_path :: string
  me_retention_policy :: "string option"
  me_revision :: int
  me_scope :: string
  me_source :: string
  me_summary :: string
  me_text :: string
  me_tier :: string
  me_timestamp :: string
  me_topic :: string
  me_valid_from :: string
  me_valid_until :: "string option"

record outbox_db =
  ob_memories :: "(string \<times> memory_entry) list"
  ob_events :: "(string \<times> outbox_event_row) list"
  ob_receipts :: "(string \<times> destination_receipt_row) list"
  ob_role :: "string option"
  ob_partition :: "string option"

datatype outbox_refusal = NeverClaimed | Withdrawn | OutcomeAlreadyDiffers | NotConflicted

datatype outbox_error =
    OutboxInvalidArg | OutboxNotFound | OutboxDuplicate | OutboxInternal | MemoryRefused
  | IllegalTransition string outbox_state outbox_state
  | OutcomeRefused outbox_refusal string outbox_state

type_synonym 'r outbox_write = "outbox_db \<Rightarrow> ('r \<times> outbox_db, outbox_error) result"

text \<open>
  What is used of \<open>chrono\<close> (the parser of instants in nanoseconds, the millisecond rendering,
  the conversion of a \<open>Duration\<close> and the checked subtraction), \<open>serde_json\<close> and \<open>sha2\<close>, and
  \<open>str::to_lowercase\<close>.
\<close>

record outbox_lib = chrono +
  render_ms :: "int \<Rightarrow> string"
  duration_from_std :: "nat \<Rightarrow> int option"
  checked_sub_signed :: "int \<Rightarrow> int \<Rightarrow> int option"
  json_to_vec :: "json \<Rightarrow> string"
  sha256_digest :: "string \<Rightarrow> 8 word list"
  to_lowercase :: "string \<Rightarrow> string"

section \<open>Refusals\<close>

definition refuse_blank :: "string \<Rightarrow> (unit, outbox_error) result" where
  "refuse_blank v = (if blank v then Err OutboxInvalidArg else Ok ())"

definition is_outbox_class_token_byte :: "char \<Rightarrow> bool" where
  "is_outbox_class_token_byte c \<longleftrightarrow>
     97 \<le> (of_char c :: nat) \<and> (of_char c :: nat) \<le> 122 \<or> is_ascii_digit c \<or> c \<in> {CHR ''_'', CHR ''.'', CHR ''-''}"

definition refuse_invalid_class :: "string \<Rightarrow> (unit, outbox_error) result" where
  "refuse_invalid_class v =
     and_then (refuse_blank v) (\<lambda>_.
       if MAX_OUTBOX_CLASS_BYTES < length v then Err OutboxInvalidArg
       else if \<not> list_all is_outbox_class_token_byte v then Err OutboxInvalidArg else Ok ())"

definition refuse_reserved_successor_suffix :: "string \<Rightarrow> (unit, outbox_error) result" where
  "refuse_reserved_successor_suffix v =
     (if suffix OUTBOX_RESERVED_SUCCESSOR_SUFFIX v then Err OutboxInvalidArg else Ok ())"

definition refuse_reserved_resolved_class :: "string \<Rightarrow> (unit, outbox_error) result" where
  "refuse_reserved_resolved_class v =
     (if prefix OUTBOX_RESERVED_RESOLVED_CLASS_PREFIX v then Err OutboxInvalidArg else Ok ())"

definition refuse_non_canonical_digest :: "string \<Rightarrow> (unit, outbox_error) result" where
  "refuse_non_canonical_digest v =
     (if length v \<noteq> OUTBOX_PAYLOAD_DIGEST_HEX_LEN
         \<or> \<not> list_all (\<lambda>c. is_ascii_digit c \<or> 97 \<le> (of_char c :: nat) \<and> (of_char c :: nat) \<le> 102) v
      then Err OutboxInvalidArg else Ok ())"

definition validate_destination_event_binding :: "outbox_event_row \<Rightarrow> (unit, outbox_error) result" where
  "validate_destination_event_binding e =
     and_then (refuse_blank (oe_event_id e)) (\<lambda>_.
     and_then (refuse_reserved_successor_suffix (oe_event_id e)) (\<lambda>_.
     and_then (refuse_blank (oe_object_id e)) (\<lambda>_.
     and_then (refuse_blank (oe_source_store e)) (\<lambda>_.
     and_then (refuse_blank (oe_source_partition e)) (\<lambda>_.
     and_then (refuse_invalid_class (oe_object_class e)) (\<lambda>_.
     and_then (refuse_invalid_class (oe_authority_class e)) (\<lambda>_.
     and_then (refuse_reserved_resolved_class (oe_object_class e)) (\<lambda>_.
     and_then (refuse_reserved_resolved_class (oe_authority_class e)) (\<lambda>_.
     and_then (refuse_non_canonical_digest (oe_payload_digest e)) (\<lambda>_.
       if oe_source_revision e < 1 then Err OutboxInvalidArg else Ok ()))))))))))"

section \<open>Reading and inserting\<close>

definition read_outbox_event :: "outbox_db \<Rightarrow> string \<Rightarrow> outbox_event_row option" where
  "read_outbox_event db i = map_of (ob_events db) i"

definition outbox_event_exists :: "outbox_db \<Rightarrow> string \<Rightarrow> bool" where
  "outbox_event_exists db i \<longleftrightarrow> read_outbox_event db i \<noteq> None"

definition event_rows :: "outbox_db \<Rightarrow> outbox_event_row list" where
  "event_rows db = map snd (ob_events db)"

definition read_object_revision :: "outbox_db \<Rightarrow> string \<Rightarrow> (int, outbox_error) result" where
  "read_object_revision db i = (case map_of (ob_memories db) i of Some m \<Rightarrow> Ok (me_revision m) | None \<Rightarrow> Err OutboxNotFound)"

definition pending_row :: "string \<Rightarrow> new_outbox_event \<Rightarrow> int \<Rightarrow> outbox_event_row" where
  "pending_row now e revision =
     \<lparr> oe_event_id = no_event_id e, oe_object_id = no_object_id e, oe_object_class = no_object_class e,
       oe_authority_class = no_authority_class e, oe_source_store = no_source_store e,
       oe_source_partition = no_source_partition e, oe_source_revision = revision,
       oe_payload_digest = no_payload_digest e, oe_state = Pending, oe_last_error_class = None,
       oe_created_at = now, oe_state_changed_at = now \<rparr>"

definition insert_outbox_event_impl :: "string \<Rightarrow> new_outbox_event \<Rightarrow> outbox_event_row outbox_write" where
  "insert_outbox_event_impl now e db =
     and_then (refuse_blank (no_event_id e)) (\<lambda>_.
     and_then (refuse_blank (no_object_id e)) (\<lambda>_.
     and_then (refuse_blank (no_source_store e)) (\<lambda>_.
     and_then (refuse_blank (no_source_partition e)) (\<lambda>_.
     and_then (refuse_invalid_class (no_object_class e)) (\<lambda>_.
     and_then (refuse_invalid_class (no_authority_class e)) (\<lambda>_.
     and_then (refuse_non_canonical_digest (no_payload_digest e)) (\<lambda>_.
     if outbox_event_exists db (no_event_id e) then Err OutboxDuplicate
     else and_then (read_object_revision db (no_object_id e)) (\<lambda>revision.
       let row = pending_row now e revision
       in Ok (row, db\<lparr> ob_events := bt_insert (no_event_id e) row (ob_events db) \<rparr>)))))))))"

definition insert_outbox_event :: "string \<Rightarrow> new_outbox_event \<Rightarrow> outbox_event_row outbox_write" where
  "insert_outbox_event now e db =
     and_then (refuse_reserved_successor_suffix (no_event_id e)) (\<lambda>_.
     and_then (refuse_reserved_resolved_class (no_object_class e)) (\<lambda>_.
     and_then (refuse_reserved_resolved_class (no_authority_class e)) (\<lambda>_.
       insert_outbox_event_impl now e db)))"

definition insert_resolution_successor_event :: "string \<Rightarrow> new_outbox_event \<Rightarrow> outbox_event_row outbox_write" where
  "insert_resolution_successor_event now e db = insert_outbox_event_impl now e db"

section \<open>Transitions\<close>

definition moved_row :: "string \<Rightarrow> outbox_state \<Rightarrow> string option \<Rightarrow> outbox_event_row \<Rightarrow> outbox_event_row" where
  "moved_row now st class r = r\<lparr> oe_state := st, oe_last_error_class := class, oe_state_changed_at := now \<rparr>"

definition stored_error_class :: "outbox_state \<Rightarrow> string option \<Rightarrow> bool \<Rightarrow> (string option, outbox_error) result" where
  "stored_error_class st error_class allow_reserved = (case (is_failure st, error_class) of
     (True, Some class) \<Rightarrow>
       and_then (refuse_invalid_class class) (\<lambda>_.
       and_then (if allow_reserved then Ok () else refuse_reserved_resolved_class class) (\<lambda>_. Ok (Some class)))
   | (True, None) \<Rightarrow> Err OutboxInvalidArg
   | (False, Some _) \<Rightarrow> Err OutboxInvalidArg
   | (False, None) \<Rightarrow> Ok None)"

definition transition_outbox_event_impl ::
  "string \<Rightarrow> string \<Rightarrow> outbox_state \<Rightarrow> string option \<Rightarrow> bool \<Rightarrow> outbox_event_row outbox_write" where
  "transition_outbox_event_impl now i st error_class allow_reserved db = (case read_outbox_event db i of
     None \<Rightarrow> Err OutboxNotFound
   | Some current \<Rightarrow>
       if \<not> can_transition_to (oe_state current) st then Err (IllegalTransition i (oe_state current) st)
       else and_then (stored_error_class st error_class allow_reserved) (\<lambda>class.
         let row = moved_row now st class current
         in Ok (row, db\<lparr> ob_events := update_row i (\<lambda>_. row) (ob_events db) \<rparr>)))"

definition transition_outbox_event :: "string \<Rightarrow> string \<Rightarrow> outbox_state \<Rightarrow> string option \<Rightarrow> outbox_event_row outbox_write" where
  "transition_outbox_event now i st error_class db = transition_outbox_event_impl now i st error_class False db"

definition transition_outbox_resolved_conflict :: "string \<Rightarrow> string \<Rightarrow> string \<Rightarrow> outbox_event_row outbox_write" where
  "transition_outbox_resolved_conflict now i resolved_class db =
     (if \<not> prefix OUTBOX_RESERVED_RESOLVED_CLASS_PREFIX resolved_class then Err OutboxInvalidArg
      else transition_outbox_event_impl now i Quarantined (Some resolved_class) True db)"

section \<open>Ordered reads and claims\<close>

definition parse_outbox_timestamp :: "'a chrono_scheme \<Rightarrow> string \<Rightarrow> (int, outbox_error) result" where
  "parse_outbox_timestamp ch v = (case parse_from_rfc3339 ch (trim v) of Some t \<Rightarrow> Ok t | None \<Rightarrow> Err OutboxInvalidArg)"

definition canonical_outbox_timestamp :: "'a outbox_lib_scheme \<Rightarrow> string \<Rightarrow> (string, outbox_error) result" where
  "canonical_outbox_timestamp lib v = and_then (parse_outbox_timestamp lib v) (\<lambda>t. Ok (render_ms lib t))"

fun keyed_by_created :: "'a chrono_scheme \<Rightarrow> outbox_event_row list \<Rightarrow> ((int \<times> outbox_event_row) list, outbox_error) result" where
  "keyed_by_created ch [] = Ok []"
| "keyed_by_created ch (r # rs) =
     and_then (parse_outbox_timestamp ch (oe_created_at r)) (\<lambda>t.
     and_then (keyed_by_created ch rs) (\<lambda>ks. Ok ((t, r) # ks)))"

definition sort_outbox_rows_by_created_at :: "'a chrono_scheme \<Rightarrow> outbox_event_row list \<Rightarrow> (outbox_event_row list, outbox_error) result" where
  "sort_outbox_rows_by_created_at ch rows =
     and_then (keyed_by_created ch rows) (\<lambda>keyed. Ok (map snd (sort_key (\<lambda>(t, r). (t, oe_event_id r)) keyed)))"

definition list_outbox_events_by_state :: "'a chrono_scheme \<Rightarrow> outbox_db \<Rightarrow> outbox_state \<Rightarrow> nat \<Rightarrow> (outbox_event_row list, outbox_error) result" where
  "list_outbox_events_by_state ch db st limit =
     (if limit = 0 then Ok []
      else and_then (sort_outbox_rows_by_created_at ch (filter (\<lambda>r. oe_state r = st) (event_rows db))) (\<lambda>rows.
        Ok (take limit rows)))"

record claimed_outbox_row =
  co_event :: outbox_event_row
  co_previous_state :: outbox_state
  co_previous_state_changed_at :: string

definition renew_outbox_claim :: "string \<Rightarrow> outbox_event_row \<Rightarrow> outbox_event_row outbox_write" where
  "renew_outbox_claim now observed db =
     (let i = oe_event_id observed
      in (case read_outbox_event db i of
          Some r \<Rightarrow>
            if oe_state r = InFlight \<and> oe_state_changed_at r = oe_state_changed_at observed
            then let row = r\<lparr> oe_state_changed_at := now \<rparr>
                 in Ok (row, db\<lparr> ob_events := update_row i (\<lambda>_. row) (ob_events db) \<rparr>)
            else Err OutboxInternal
        | None \<Rightarrow> Err OutboxInternal))"

fun drainable :: "'a chrono_scheme \<Rightarrow> int option \<Rightarrow> outbox_event_row list \<Rightarrow> (outbox_event_row list, outbox_error) result" where
  "drainable ch cutoff [] = Ok []"
| "drainable ch cutoff (r # rs) = (case oe_state r of
     Pending \<Rightarrow> and_then (drainable ch cutoff rs) (\<lambda>ds. Ok (r # ds))
   | InFlight \<Rightarrow>
       (case cutoff of
          None \<Rightarrow> drainable ch cutoff rs
        | Some c \<Rightarrow> and_then (parse_outbox_timestamp ch (oe_state_changed_at r)) (\<lambda>t.
            and_then (drainable ch cutoff rs) (\<lambda>ds. Ok (if t \<le> c then r # ds else ds))))
   | _ \<Rightarrow> drainable ch cutoff rs)"

text \<open>\<open>clock k\<close> is the reading for the \<open>k\<close>-th row of the batch.\<close>

fun claim_each :: "(nat \<Rightarrow> string) \<Rightarrow> nat \<Rightarrow> outbox_event_row list \<Rightarrow> claimed_outbox_row list outbox_write" where
  "claim_each clock k [] db = Ok ([], db)"
| "claim_each clock k (r # rs) db =
     and_then (case oe_state r of
         Pending \<Rightarrow> transition_outbox_event (clock k) (oe_event_id r) InFlight None db
       | InFlight \<Rightarrow> renew_outbox_claim (clock k) r db
       | _ \<Rightarrow> Err OutboxInternal) (\<lambda>(event, db1).
     and_then (claim_each clock (Suc k) rs db1) (\<lambda>(claimed, db2).
       Ok (\<lparr> co_event = event, co_previous_state = oe_state r, co_previous_state_changed_at = oe_state_changed_at r \<rparr> # claimed, db2)))"

definition claim_outbox_events_within_tx ::
  "'a chrono_scheme \<Rightarrow> (nat \<Rightarrow> string) \<Rightarrow> nat \<Rightarrow> string option \<Rightarrow> claimed_outbox_row list outbox_write" where
  "claim_outbox_events_within_tx ch clock limit stamped_at_or_before db =
     (if limit = 0 then Ok ([], db)
      else and_then (case stamped_at_or_before of
          None \<Rightarrow> Ok None
        | Some v \<Rightarrow> and_then (parse_outbox_timestamp ch v) (\<lambda>t. Ok (Some t))) (\<lambda>cutoff.
      and_then (sort_outbox_rows_by_created_at ch (filter (\<lambda>r. oe_state r \<in> {Pending, InFlight}) (event_rows db))) (\<lambda>candidates.
      and_then (drainable ch cutoff candidates) (\<lambda>ds. claim_each clock 0 (take limit ds) db))))"

section \<open>Health\<close>

datatype local_store_status = Healthy | QuarantinedStore nat
datatype remote_sync_status = Unconfigured | Idle | RemoteInFlight nat | Backlogged nat | Failing nat nat | Drained

record outbox_health =
  oh_local_store_status :: local_store_status
  oh_remote_sync_status :: remote_sync_status
  oh_pending_count :: nat
  oh_in_flight_count :: nat
  oh_acknowledged_count :: nat
  oh_rejected_count :: nat
  oh_conflicted_count :: nat
  oh_quarantined_count :: nat
  oh_oldest_pending_at :: "string option"
  oh_oldest_in_flight_at :: "string option"
  oh_last_successful_sync :: "string option"
  oh_last_error_class :: "string option"
  oh_resolved_count :: nat
  oh_stale_lease_count :: nat

text \<open>The accumulators of the loop over the rows.\<close>

record health_acc =
  ha_pending :: nat
  ha_in_flight :: nat
  ha_acknowledged :: nat
  ha_rejected :: nat
  ha_conflicted :: nat
  ha_quarantined :: nat
  ha_resolved :: nat
  ha_stale :: nat
  ha_oldest_pending :: "(int \<times> string) option"
  ha_oldest_in_flight :: "(int \<times> string) option"
  ha_last_error :: "(int \<times> string \<times> string) option"

definition no_health :: health_acc where
  "no_health = \<lparr> ha_pending = 0, ha_in_flight = 0, ha_acknowledged = 0, ha_rejected = 0, ha_conflicted = 0, ha_quarantined = 0,
     ha_resolved = 0, ha_stale = 0, ha_oldest_pending = None, ha_oldest_in_flight = None, ha_last_error = None \<rparr>"

definition older_of :: "(int \<times> string) option \<Rightarrow> int \<times> string \<Rightarrow> (int \<times> string) option" where
  "older_of oldest candidate = (case oldest of
     None \<Rightarrow> Some candidate
   | Some old \<Rightarrow> if fst candidate < fst old then Some candidate else Some old)"

definition later_error :: "(int \<times> string \<times> string) option \<Rightarrow> int \<times> string \<times> string \<Rightarrow> (int \<times> string \<times> string) option" where
  "later_error latest candidate = (case (latest, candidate) of
     (None, _) \<Rightarrow> Some candidate
   | (Some (t, i, c), (t', i', c')) \<Rightarrow> if t < t' \<or> t' = t \<and> i < i' then Some candidate else latest)"

definition is_resolved_class :: "string option \<Rightarrow> bool" where
  "is_resolved_class c = is_some_and (prefix OUTBOX_RESERVED_RESOLVED_CLASS_PREFIX) c"

definition count_row :: "'a outbox_lib_scheme \<Rightarrow> int \<Rightarrow> outbox_event_row \<Rightarrow> int \<Rightarrow> int \<Rightarrow> health_acc \<Rightarrow> health_acc" where
  "count_row lib stale_cutoff r created_at state_changed_at a = (case oe_state r of
     Pending \<Rightarrow> a\<lparr> ha_pending := ha_pending a + 1,
                 ha_oldest_pending := older_of (ha_oldest_pending a) (created_at, render_ms lib created_at) \<rparr>
   | InFlight \<Rightarrow> a\<lparr> ha_in_flight := ha_in_flight a + 1,
                  ha_stale := ha_stale a + (if state_changed_at \<le> stale_cutoff then 1 else 0),
                  ha_oldest_in_flight := older_of (ha_oldest_in_flight a) (state_changed_at, render_ms lib state_changed_at) \<rparr>
   | Acknowledged \<Rightarrow> a\<lparr> ha_acknowledged := ha_acknowledged a + 1 \<rparr>
   | OutboxRejected \<Rightarrow> a\<lparr> ha_rejected := ha_rejected a + 1 \<rparr>
   | Conflicted \<Rightarrow> a\<lparr> ha_conflicted := ha_conflicted a + 1 \<rparr>
   | Quarantined \<Rightarrow> a\<lparr> ha_quarantined := ha_quarantined a + 1,
                     ha_resolved := ha_resolved a + (if is_resolved_class (oe_last_error_class r) then 1 else 0) \<rparr>)"

fun count_rows :: "'a outbox_lib_scheme \<Rightarrow> int \<Rightarrow> outbox_event_row list \<Rightarrow> health_acc \<Rightarrow> (health_acc, outbox_error) result" where
  "count_rows lib stale_cutoff [] a = Ok a"
| "count_rows lib stale_cutoff (r # rs) a =
     and_then (parse_outbox_timestamp lib (oe_created_at r)) (\<lambda>created_at.
     and_then (parse_outbox_timestamp lib (oe_state_changed_at r)) (\<lambda>state_changed_at.
       let b = count_row lib stale_cutoff r created_at state_changed_at a
       in count_rows lib stale_cutoff rs (case oe_last_error_class r of
            None \<Rightarrow> b
          | Some class \<Rightarrow> b\<lparr> ha_last_error := later_error (ha_last_error b) (state_changed_at, oe_event_id r, class) \<rparr>)))"

definition read_outbox_health :: "'a outbox_lib_scheme \<Rightarrow> int \<Rightarrow> nat \<Rightarrow> outbox_db \<Rightarrow> (outbox_health, outbox_error) result" where
  "read_outbox_health lib now stale_after db = (case duration_from_std lib stale_after of
     None \<Rightarrow> Err OutboxInvalidArg
   | Some d \<Rightarrow> (case checked_sub_signed lib now d of
       None \<Rightarrow> Err OutboxInvalidArg
     | Some stale_cutoff \<Rightarrow> and_then (count_rows lib stale_cutoff (event_rows db) no_health) (\<lambda>a.
         let unresolved = ha_quarantined a - ha_resolved a
         in Ok \<lparr> oh_local_store_status = (if unresolved = 0 then Healthy else QuarantinedStore unresolved),
                 oh_remote_sync_status = Unconfigured, oh_pending_count = ha_pending a, oh_in_flight_count = ha_in_flight a,
                 oh_acknowledged_count = ha_acknowledged a, oh_rejected_count = ha_rejected a,
                 oh_conflicted_count = ha_conflicted a, oh_quarantined_count = ha_quarantined a,
                 oh_oldest_pending_at = map_option snd (ha_oldest_pending a),
                 oh_oldest_in_flight_at = map_option snd (ha_oldest_in_flight a), oh_last_successful_sync = None,
                 oh_last_error_class = map_option (\<lambda>(_, _, class). class) (ha_last_error a),
                 oh_resolved_count = ha_resolved a, oh_stale_lease_count = ha_stale a \<rparr>)))"

section \<open>Commit\<close>

record outbox_event_meta =
  om_event_id :: string
  om_object_class :: string
  om_authority_class :: string
  om_source_store :: string
  om_source_partition :: string

record outbox_commit_receipt =
  oc_event :: outbox_event_row
  oc_object_revision :: int

definition i64_json :: "int \<Rightarrow> json" where
  "i64_json i = JNumber (if 0 \<le> i then PosInt (nat i) else NegInt i)"

text \<open>\<open>serde_json\<close> writes a number that is not finite as \<open>null\<close>.\<close>

definition f64_json :: "nat \<Rightarrow> json" where
  "f64_json bits = (if bits div 2 ^ 52 mod 2048 = 2047 then JNull else JNumber (Float bits))"

definition opt_json :: "string option \<Rightarrow> json" where
  "opt_json s = (case s of Some t \<Rightarrow> JString t | None \<Rightarrow> JNull)"

definition outbox_payload :: "memory_entry \<Rightarrow> json" where
  "outbox_payload m = JObject
     [(''archived'', JBool (me_archived m)), (''category'', JString (me_category m)), (''domain'', opt_json (me_domain m)),
      (''entities'', JArray (map JString (me_entities m))), (''id'', JString (me_id m)), (''importance'', f64_json (me_importance m)),
      (''keywords'', JArray (map JString (me_keywords m))), (''metadata'', me_metadata m), (''path'', JString (me_path m)),
      (''retention_policy'', opt_json (me_retention_policy m)), (''revision'', i64_json (me_revision m)),
      (''scope'', JString (me_scope m)), (''source'', JString (me_source m)), (''summary'', JString (me_summary m)),
      (''text'', JString (me_text m)), (''tier'', JString (me_tier m)), (''timestamp'', JString (me_timestamp m)),
      (''topic'', JString (me_topic m)), (''valid_from'', JString (me_valid_from m)), (''valid_until'', opt_json (me_valid_until m))]"

definition outbox_payload_digest :: "'a outbox_lib_scheme \<Rightarrow> memory_entry \<Rightarrow> string" where
  "outbox_payload_digest lib m = concat (map hex_byte (sha256_digest lib (json_to_vec lib (outbox_payload m))))"

definition read_object :: "outbox_db \<Rightarrow> string \<Rightarrow> (memory_entry, outbox_error) result" where
  "read_object db i = (case map_of (ob_memories db) i of Some m \<Rightarrow> Ok m | None \<Rightarrow> Err OutboxNotFound)"

definition build_new_outbox_event ::
  "'a outbox_lib_scheme \<Rightarrow> outbox_db \<Rightarrow> string \<Rightarrow> outbox_event_meta \<Rightarrow> (new_outbox_event, outbox_error) result" where
  "build_new_outbox_event lib db object event =
     and_then (read_object db object) (\<lambda>stored.
       Ok \<lparr> no_event_id = om_event_id event, no_object_id = object, no_object_class = om_object_class event,
            no_authority_class = om_authority_class event, no_source_store = om_source_store event,
            no_source_partition = om_source_partition event, no_payload_digest = outbox_payload_digest lib stored \<rparr>)"

definition enqueue_outbox_event :: "'a outbox_lib_scheme \<Rightarrow> string \<Rightarrow> string \<Rightarrow> outbox_event_meta \<Rightarrow> outbox_event_row outbox_write" where
  "enqueue_outbox_event lib now object event db =
     and_then (build_new_outbox_event lib db object event) (\<lambda>e. insert_outbox_event now e db)"

definition enqueue_outbox_resolution_successor_event ::
  "'a outbox_lib_scheme \<Rightarrow> string \<Rightarrow> string \<Rightarrow> outbox_event_meta \<Rightarrow> outbox_event_row outbox_write" where
  "enqueue_outbox_resolution_successor_event lib now object event db =
     and_then (build_new_outbox_event lib db object event) (\<lambda>e. insert_resolution_successor_event now e db)"

definition build_commit_receipt :: "'a outbox_lib_scheme \<Rightarrow> outbox_db \<Rightarrow> string \<Rightarrow> string \<Rightarrow> (outbox_commit_receipt, outbox_error) result" where
  "build_commit_receipt lib db object i = (case read_outbox_event db i of
     None \<Rightarrow> Err OutboxInternal
   | Some event \<Rightarrow>
       if oe_state event \<noteq> Pending then Err OutboxInternal
       else if oe_object_id event \<noteq> object then Err OutboxInternal
       else and_then (read_object db object) (\<lambda>stored.
         if outbox_payload_digest lib stored \<noteq> oe_payload_digest event then Err OutboxInternal
         else if me_revision stored \<noteq> oe_source_revision event then Err OutboxInternal
         else Ok \<lparr> oc_event = event, oc_object_revision = me_revision stored \<rparr>))"

datatype insert_memory_result = Inserted | Existing

text \<open>The store handle, and what it calls of \<open>db/memory_crud.rs\<close> and the reference-write guard.\<close>

record store_handle =
  st_db_label :: string
  st_path_validation :: bool
  st_escape_hatch :: bool

type_synonym memories = "(string \<times> memory_entry) list"

record memory_ops =
  authorize_reserved_reference_write :: "(unit, outbox_error) result"
  upsert_within_tx :: "memory_entry \<Rightarrow> memories \<Rightarrow> (memories, outbox_error) result"
  insert_if_absent_within_tx :: "memory_entry \<Rightarrow> memories \<Rightarrow> (insert_memory_result \<times> memories, outbox_error) result"

definition json_flag :: "string \<Rightarrow> json \<Rightarrow> bool" where
  "json_flag key v = (case v of JObject m \<Rightarrow> map_of m key = Some (JBool True) | _ \<Rightarrow> False)"

definition as_invalid :: "(unit, path_routing_error) result \<Rightarrow> (unit, outbox_error) result" where
  "as_invalid r = (case r of Err _ \<Rightarrow> Err OutboxInvalidArg | Ok u \<Rightarrow> Ok u)"

definition validate_write_path :: "'a outbox_lib_scheme \<Rightarrow> store_handle \<Rightarrow> memory_entry \<Rightarrow> (unit, outbox_error) result" where
  "validate_write_path lib st entry =
     and_then (as_invalid (validate_retired_sticky_write (to_lowercase lib) (me_path entry) (me_category entry))) (\<lambda>_.
       if st_path_validation st \<and> \<not> st_escape_hatch st
       then as_invalid (validate_memory_write_for_db (to_lowercase lib) (me_path entry) (me_category entry) (st_db_label st)
              (json_flag ''allow_cross_project'' (me_metadata entry)))
       else Ok ())"

definition commit_with_outbox_event ::
  "'a outbox_lib_scheme \<Rightarrow> memory_ops \<Rightarrow> store_handle \<Rightarrow> string \<Rightarrow> memory_entry \<Rightarrow> outbox_event_meta \<Rightarrow> outbox_commit_receipt outbox_write" where
  "commit_with_outbox_event lib ops st now entry event db =
     and_then (validate_write_path lib st entry) (\<lambda>_.
     and_then (authorize_reserved_reference_write ops) (\<lambda>_.
     and_then (upsert_within_tx ops entry (ob_memories db)) (\<lambda>m.
     and_then (enqueue_outbox_event lib now (me_id entry) event (db\<lparr> ob_memories := m \<rparr>)) (\<lambda>(_, db1).
     and_then (build_commit_receipt lib db1 (me_id entry) (om_event_id event)) (\<lambda>receipt.
       Ok (receipt, db1))))))"

end
