(* ===== verification/Outbox_Protocol.thy ===== *)
theory Outbox_Protocol
  imports Outbox_Queue
begin

text \<open>
  The reconciliation protocol over the outbox, \<open>crates/memcore/src/store/outbox_protocol.rs\<close>,
  and the destination's apply, \<open>store/outbox_destination_apply.rs\<close>. Each call is one immediate
  transaction; the drain maps its rows to receipts after the commit, so it is a result and a
  database. A refused envelope drops its transaction and is an answer on the old database.
\<close>

section \<open>Drains\<close>

record outbox_claim_request =
  cr_limit :: nat
  cr_reclaim_stale_after :: "nat option"

datatype outbox_claim_kind = First | Reclaimed string string

record claimed_outbox_event =
  ce_event :: outbox_event_row
  ce_claim :: outbox_claim_kind

definition CANONICAL_UTC_ISO_LEN :: nat where "CANONICAL_UTC_ISO_LEN = 24"

definition stale_claim_cutoff :: "'a outbox_lib_scheme \<Rightarrow> int \<Rightarrow> nat \<Rightarrow> (string, outbox_error) result" where
  "stale_claim_cutoff lib now stale_after = (case duration_from_std lib stale_after of
     None \<Rightarrow> Err OutboxInvalidArg
   | Some d \<Rightarrow> (case checked_sub_signed lib now d of
       None \<Rightarrow> Err OutboxInvalidArg
     | Some cutoff \<Rightarrow>
         let rendered = render_ms lib cutoff
         in if length rendered \<noteq> CANONICAL_UTC_ISO_LEN then Err OutboxInvalidArg else Ok rendered))"

definition claimed_event :: "string option \<Rightarrow> claimed_outbox_row \<Rightarrow> (claimed_outbox_event, outbox_error) result" where
  "claimed_event cutoff row = (case co_previous_state row of
     Pending \<Rightarrow> Ok \<lparr> ce_event = co_event row, ce_claim = First \<rparr>
   | InFlight \<Rightarrow> (case cutoff of
       None \<Rightarrow> Err OutboxInternal
     | Some c \<Rightarrow> Ok \<lparr> ce_event = co_event row, ce_claim = Reclaimed (co_previous_state_changed_at row) c \<rparr>)
   | _ \<Rightarrow> Err OutboxInternal)"

fun collect_claimed :: "string option \<Rightarrow> claimed_outbox_row list \<Rightarrow> (claimed_outbox_event list, outbox_error) result" where
  "collect_claimed cutoff [] = Ok []"
| "collect_claimed cutoff (r # rs) =
     and_then (claimed_event cutoff r) (\<lambda>e. and_then (collect_claimed cutoff rs) (\<lambda>es. Ok (e # es)))"

definition claim_outbox_events ::
  "'a outbox_lib_scheme \<Rightarrow> int \<Rightarrow> (nat \<Rightarrow> string) \<Rightarrow> outbox_claim_request \<Rightarrow> outbox_db
     \<Rightarrow> (claimed_outbox_event list, outbox_error) result \<times> outbox_db" where
  "claim_outbox_events lib now clock request db =
     (case (case cr_reclaim_stale_after request of
              None \<Rightarrow> Ok None
            | Some stale_after \<Rightarrow> and_then (stale_claim_cutoff lib now stale_after) (\<lambda>c. Ok (Some c))) of
        Err e \<Rightarrow> (Err e, db)
      | Ok cutoff \<Rightarrow>
          (case claim_outbox_events_within_tx lib clock (cr_limit request) cutoff db of
             Err e \<Rightarrow> (Err e, db)
           | Ok (rows, db') \<Rightarrow> (collect_claimed cutoff rows, db')))"

section \<open>Outcomes\<close>

datatype outbox_outcome = AcknowledgedOutcome | RejectedOutcome string | ConflictedOutcome string

fun target_state :: "outbox_outcome \<Rightarrow> outbox_state" where
  "target_state AcknowledgedOutcome = Acknowledged"
| "target_state (RejectedOutcome _) = OutboxRejected"
| "target_state (ConflictedOutcome _) = Conflicted"

fun outcome_error_class :: "outbox_outcome \<Rightarrow> string option" where
  "outcome_error_class AcknowledgedOutcome = None"
| "outcome_error_class (RejectedOutcome c) = Some c"
| "outcome_error_class (ConflictedOutcome c) = Some c"

definition validate_outcome :: "outbox_outcome \<Rightarrow> (unit, outbox_error) result" where
  "validate_outcome outcome = (case outcome_error_class outcome of
     Some class \<Rightarrow> and_then (refuse_invalid_class class) (\<lambda>_. refuse_reserved_resolved_class class)
   | None \<Rightarrow> Ok ())"

record outbox_outcome_evidence =
  ev_reported_by :: string
  ev_peer_revision :: "int option"
  ev_peer_payload_digest :: "string option"

definition validate_evidence :: "outbox_outcome_evidence \<Rightarrow> (unit, outbox_error) result" where
  "validate_evidence e =
     and_then (refuse_invalid_class (ev_reported_by e)) (\<lambda>_. (case ev_peer_payload_digest e of
       Some digest \<Rightarrow> refuse_non_canonical_digest digest | None \<Rightarrow> Ok ()))"

datatype outbox_outcome_application = Applied | AlreadyApplied

record outbox_outcome_receipt =
  or_event :: outbox_event_row
  or_prior_state :: outbox_state
  or_application :: outbox_outcome_application
  or_evidence :: outbox_outcome_evidence

definition apply_outbox_outcome ::
  "string \<Rightarrow> string \<Rightarrow> outbox_outcome \<Rightarrow> outbox_outcome_evidence \<Rightarrow> outbox_outcome_receipt outbox_write" where
  "apply_outbox_outcome now i outcome evidence db =
     and_then (validate_outcome outcome) (\<lambda>_.
     and_then (validate_evidence evidence) (\<lambda>_.
     (case read_outbox_event db i of
        None \<Rightarrow> Err OutboxNotFound
      | Some current \<Rightarrow> (case oe_state current of
          InFlight \<Rightarrow>
            and_then (transition_outbox_event now i (target_state outcome) (outcome_error_class outcome) db) (\<lambda>(event, db').
              Ok (\<lparr> or_event = event, or_prior_state = InFlight, or_application = Applied, or_evidence = evidence \<rparr>, db'))
        | Pending \<Rightarrow> Err (OutcomeRefused NeverClaimed i Pending)
        | Quarantined \<Rightarrow> Err (OutcomeRefused Withdrawn i Quarantined)
        | terminal \<Rightarrow>
            if \<not> (terminal = target_state outcome \<and> oe_last_error_class current = outcome_error_class outcome)
            then Err (OutcomeRefused OutcomeAlreadyDiffers i terminal)
            else Ok (\<lparr> or_event = current, or_prior_state = terminal, or_application = AlreadyApplied, or_evidence = evidence \<rparr>, db)))))"

section \<open>Conflict resolution\<close>

datatype outbox_conflict_resolution = LocalWins | RemoteWins string | Deferred

definition OUTBOX_LOCAL_WINS_SUCCESSOR_SUFFIX :: string where
  "OUTBOX_LOCAL_WINS_SUCCESSOR_SUFFIX = ''::local-wins''"
definition OUTBOX_LOCAL_WINS_RESOLVED_CLASS :: string where
  "OUTBOX_LOCAL_WINS_RESOLVED_CLASS = ''conflict_resolved_local_wins''"
definition OUTBOX_REMOTE_WINS_RESOLVED_CLASS_PREFIX :: string where
  "OUTBOX_REMOTE_WINS_RESOLVED_CLASS_PREFIX = ''conflict_resolved_remote_wins''"

definition outbox_remote_wins_resolved_class :: "string \<Rightarrow> string" where
  "outbox_remote_wins_resolved_class class = OUTBOX_REMOTE_WINS_RESOLVED_CLASS_PREFIX @ ''.'' @ class"

definition outbox_local_wins_successor_id :: "string \<Rightarrow> string" where
  "outbox_local_wins_successor_id i = i @ OUTBOX_LOCAL_WINS_SUCCESSOR_SUFFIX"

datatype outbox_conflict_resolution_receipt =
    LocalWinsReceipt outbox_event_row outbox_event_row
  | RemoteWinsReceipt outbox_event_row
  | DeferredReceipt outbox_event_row

definition validate_resolution :: "outbox_conflict_resolution \<Rightarrow> (unit, outbox_error) result" where
  "validate_resolution resolution = (case resolution of
     RemoteWins class \<Rightarrow>
       and_then (refuse_invalid_class class) (\<lambda>_.
       and_then (refuse_reserved_resolved_class class) (\<lambda>_.
         if MAX_OUTBOX_CLASS_BYTES < length (outbox_remote_wins_resolved_class class) then Err OutboxInvalidArg else Ok ()))
   | _ \<Rightarrow> Ok ())"

definition resolve_outbox_conflict ::
  "'a outbox_lib_scheme \<Rightarrow> (nat \<Rightarrow> string) \<Rightarrow> string \<Rightarrow> outbox_conflict_resolution \<Rightarrow> outbox_conflict_resolution_receipt outbox_write" where
  "resolve_outbox_conflict lib clock i resolution db =
     and_then (validate_resolution resolution) (\<lambda>_.
     (case read_outbox_event db i of
        None \<Rightarrow> Err OutboxNotFound
      | Some current \<Rightarrow>
          if oe_state current \<noteq> Conflicted then Err (OutcomeRefused NotConflicted i (oe_state current))
          else (case resolution of
              Deferred \<Rightarrow> Ok (DeferredReceipt current, db)
            | RemoteWins class \<Rightarrow>
                and_then (transition_outbox_resolved_conflict (clock 0) i (outbox_remote_wins_resolved_class class) db) (\<lambda>(row, db').
                  Ok (RemoteWinsReceipt row, db'))
            | LocalWins \<Rightarrow>
                and_then (enqueue_outbox_resolution_successor_event lib (clock 0) (oe_object_id current)
                  \<lparr> om_event_id = outbox_local_wins_successor_id i, om_object_class = oe_object_class current,
                    om_authority_class = oe_authority_class current, om_source_store = oe_source_store current,
                    om_source_partition = oe_source_partition current \<rparr> db) (\<lambda>(successor, db1).
                and_then (transition_outbox_resolved_conflict (clock 1) i OUTBOX_LOCAL_WINS_RESOLVED_CLASS db1) (\<lambda>(resolved, db2).
                  Ok (LocalWinsReceipt resolved successor, db2))))))"

section \<open>Applying at a destination\<close>

record outbox_destination_identity =
  di_store :: string
  di_partition :: string

record outbox_destination_apply_envelope =
  en_claimed :: claimed_outbox_event
  en_payload :: memory_entry
  en_destination :: outbox_destination_identity

datatype destination_application = DestinationApplied | DestinationDuplicate
datatype destination_conflict_reason = EventReplayMismatch | ExistingObjectDiverges

record outbox_destination_apply_receipt =
  ap_event_id :: string
  ap_object_id :: string
  ap_source_store :: string
  ap_source_partition :: string
  ap_source_revision :: int
  ap_source_payload_digest :: string
  ap_destination_store :: string
  ap_destination_partition :: string
  ap_destination_object_revision :: int
  ap_destination_payload_digest :: string
  ap_application :: destination_application

record outbox_destination_conflict_receipt =
  cf_event_id :: string
  cf_object_id :: string
  cf_source_store :: string
  cf_source_partition :: string
  cf_source_revision :: int
  cf_source_payload_digest :: string
  cf_destination_store :: string
  cf_destination_partition :: string
  cf_destination_object_revision :: int
  cf_destination_payload_digest :: string
  cf_reason :: destination_conflict_reason

datatype outbox_destination_apply_result =
    AppliedResult outbox_destination_apply_receipt
  | DuplicateResult outbox_destination_apply_receipt
  | ConflictResult outbox_destination_conflict_receipt

text \<open>\<open>char::is_control\<close> over UTF-8 bytes: U+0000 to U+001F, U+007F and U+0080 to U+009F.\<close>

fun has_control :: "nat list \<Rightarrow> bool" where
  "has_control [] = False"
| "has_control (b # bs) \<longleftrightarrow>
     b < 32 \<or> b = 127 \<or> (b = 194 \<and> (case bs of c # _ \<Rightarrow> 128 \<le> c \<and> c \<le> 159 | [] \<Rightarrow> False)) \<or> has_control bs"

definition validate_identity :: "string \<Rightarrow> (unit, outbox_error) result" where
  "validate_identity v = (if blank v then Err OutboxInvalidArg else if has_control (bytes_of v) then Err OutboxInvalidArg else Ok ())"

definition require :: "bool \<Rightarrow> 'e \<Rightarrow> (unit, 'e) result" where
  "require b e = (if b then Ok () else Err e)"

definition validate_envelope :: "'a outbox_lib_scheme \<Rightarrow> outbox_destination_apply_envelope \<Rightarrow> (unit, outbox_error) result" where
  "validate_envelope lib envelope =
     (let event = ce_event (en_claimed envelope); payload = en_payload envelope; destination = en_destination envelope in
      and_then (require (oe_state event = InFlight) OutboxInvalidArg) (\<lambda>_.
      and_then (validate_destination_event_binding event) (\<lambda>_.
      and_then (validate_identity (di_store destination)) (\<lambda>_.
      and_then (validate_identity (di_partition destination)) (\<lambda>_.
      and_then (require (di_store destination \<noteq> UNKNOWN_DB_LABEL) OutboxInvalidArg) (\<lambda>_.
      and_then (require (\<not> blank (me_id payload)) OutboxInvalidArg) (\<lambda>_.
      and_then (require (\<not> me_revision payload < 1) OutboxInvalidArg) (\<lambda>_.
      and_then (require (me_id payload = oe_object_id event) OutboxInvalidArg) (\<lambda>_.
      and_then (require (me_revision payload = oe_source_revision event) OutboxInvalidArg) (\<lambda>_.
      and_then (require (outbox_payload_digest lib payload = oe_payload_digest event) OutboxInvalidArg) (\<lambda>_.
        as_invalid (validate_retired_sticky_write (to_lowercase lib) (me_path payload) (me_category payload)))))))))))))"

definition read_destination_receipt :: "outbox_db \<Rightarrow> string \<Rightarrow> destination_receipt_row option" where
  "read_destination_receipt db i = map_of (ob_receipts db) i"

definition insert_destination_receipt :: "destination_receipt_row \<Rightarrow> destination_receipt_row outbox_write" where
  "insert_destination_receipt r db =
     and_then (refuse_blank (dr_event_id r)) (\<lambda>_.
     and_then (refuse_blank (dr_object_id r)) (\<lambda>_.
     and_then (refuse_blank (dr_source_store r)) (\<lambda>_.
     and_then (refuse_blank (dr_source_partition r)) (\<lambda>_.
     and_then (refuse_blank (dr_destination_store r)) (\<lambda>_.
     and_then (refuse_blank (dr_destination_partition r)) (\<lambda>_.
     and_then (require (\<not> (dr_source_revision r < 1 \<or> dr_destination_object_revision r < 1)) OutboxInvalidArg) (\<lambda>_.
     and_then (refuse_non_canonical_digest (dr_source_payload_digest r)) (\<lambda>_.
     and_then (refuse_non_canonical_digest (dr_destination_payload_digest r)) (\<lambda>_.
     and_then (require (dr_application r = ''applied'') OutboxInvalidArg) (\<lambda>_.
       if read_destination_receipt db (dr_event_id r) \<noteq> None then Err OutboxDuplicate
       else Ok (r, db\<lparr> ob_receipts := bt_insert (dr_event_id r) r (ob_receipts db) \<rparr>)))))))))))"

definition require_object_readback ::
  "'a outbox_lib_scheme \<Rightarrow> outbox_db \<Rightarrow> string \<Rightarrow> int \<Rightarrow> string \<Rightarrow> (memory_entry, outbox_error) result" where
  "require_object_readback lib db object revision digest = (case map_of (ob_memories db) object of
     None \<Rightarrow> Err OutboxInternal
   | Some stored \<Rightarrow>
       if me_id stored \<noteq> object \<or> me_revision stored \<noteq> revision \<or> outbox_payload_digest lib stored \<noteq> digest
       then Err OutboxInternal else Ok stored)"

definition validate_stored_receipt :: "destination_receipt_row \<Rightarrow> (unit, outbox_error) result" where
  "validate_stored_receipt r =
     and_then (require (dr_application r = ''applied'') OutboxInvalidArg) (\<lambda>_.
     and_then (validate_identity (dr_source_store r)) (\<lambda>_.
     and_then (validate_identity (dr_source_partition r)) (\<lambda>_.
     and_then (validate_identity (dr_destination_store r)) (\<lambda>_.
     and_then (validate_identity (dr_destination_partition r)) (\<lambda>_.
     and_then (require (\<not> (dr_source_revision r < 1 \<or> dr_destination_object_revision r < 1)) OutboxInvalidArg) (\<lambda>_.
     and_then (refuse_non_canonical_digest (dr_source_payload_digest r)) (\<lambda>_.
       refuse_non_canonical_digest (dr_destination_payload_digest r))))))))"

definition receipt_matches_envelope :: "destination_receipt_row \<Rightarrow> outbox_destination_apply_envelope \<Rightarrow> bool" where
  "receipt_matches_envelope r envelope \<longleftrightarrow>
     (let event = ce_event (en_claimed envelope) in
      dr_event_id r = oe_event_id event \<and> dr_object_id r = oe_object_id event
      \<and> dr_source_store r = oe_source_store event \<and> dr_source_partition r = oe_source_partition event
      \<and> dr_source_revision r = oe_source_revision event \<and> dr_source_payload_digest r = oe_payload_digest event
      \<and> dr_destination_store r = di_store (en_destination envelope)
      \<and> dr_destination_partition r = di_partition (en_destination envelope))"

definition conflict_with :: "outbox_destination_apply_envelope \<Rightarrow> int \<Rightarrow> string \<Rightarrow> destination_conflict_reason \<Rightarrow> outbox_destination_conflict_receipt" where
  "conflict_with envelope revision digest reason =
     (let event = ce_event (en_claimed envelope) in
      \<lparr> cf_event_id = oe_event_id event, cf_object_id = oe_object_id event, cf_source_store = oe_source_store event,
        cf_source_partition = oe_source_partition event, cf_source_revision = oe_source_revision event,
        cf_source_payload_digest = oe_payload_digest event, cf_destination_store = di_store (en_destination envelope),
        cf_destination_partition = di_partition (en_destination envelope), cf_destination_object_revision = revision,
        cf_destination_payload_digest = digest, cf_reason = reason \<rparr>)"

definition conflict_from_receipt :: "outbox_destination_apply_envelope \<Rightarrow> destination_receipt_row \<Rightarrow> outbox_destination_conflict_receipt" where
  "conflict_from_receipt envelope r =
     conflict_with envelope (dr_destination_object_revision r) (dr_destination_payload_digest r) EventReplayMismatch"

definition conflict_from_object ::
  "'a outbox_lib_scheme \<Rightarrow> outbox_destination_apply_envelope \<Rightarrow> memory_entry \<Rightarrow> outbox_destination_conflict_receipt" where
  "conflict_from_object lib envelope stored =
     conflict_with envelope (me_revision stored) (outbox_payload_digest lib stored) ExistingObjectDiverges"

definition receipt_from_row :: "destination_receipt_row \<Rightarrow> destination_application \<Rightarrow> outbox_destination_apply_receipt" where
  "receipt_from_row r application =
     \<lparr> ap_event_id = dr_event_id r, ap_object_id = dr_object_id r, ap_source_store = dr_source_store r,
       ap_source_partition = dr_source_partition r, ap_source_revision = dr_source_revision r,
       ap_source_payload_digest = dr_source_payload_digest r, ap_destination_store = dr_destination_store r,
       ap_destination_partition = dr_destination_partition r, ap_destination_object_revision = dr_destination_object_revision r,
       ap_destination_payload_digest = dr_destination_payload_digest r, ap_application = application \<rparr>"

definition receipt_row :: "outbox_destination_apply_envelope \<Rightarrow> int \<Rightarrow> string \<Rightarrow> destination_receipt_row" where
  "receipt_row envelope revision digest =
     (let event = ce_event (en_claimed envelope) in
      \<lparr> dr_event_id = oe_event_id event, dr_object_id = oe_object_id event, dr_source_store = oe_source_store event,
        dr_source_partition = oe_source_partition event, dr_source_revision = oe_source_revision event,
        dr_source_payload_digest = oe_payload_digest event, dr_destination_store = di_store (en_destination envelope),
        dr_destination_partition = di_partition (en_destination envelope), dr_destination_object_revision = revision,
        dr_destination_payload_digest = digest, dr_application = ''applied'' \<rparr>)"

text \<open>The identity of the destination: its role stamp, and its partition, which the first apply stamps.\<close>

definition stamp_destination :: "outbox_destination_identity \<Rightarrow> outbox_db \<Rightarrow> (outbox_db, outbox_error) result" where
  "stamp_destination destination db = (case ob_role db of
     None \<Rightarrow> Err OutboxInvalidArg
   | Some stamped_store \<Rightarrow>
       if stamped_store = UNKNOWN_DB_LABEL \<or> stamped_store \<noteq> di_store destination then Err OutboxInvalidArg
       else (case ob_partition db of
           Some stamped \<Rightarrow> if stamped \<noteq> di_partition destination then Err OutboxInvalidArg else Ok db
         | None \<Rightarrow> Ok (db\<lparr> ob_partition := Some (di_partition destination) \<rparr>)))"

text \<open>The object the envelope is about, inserted when absent.\<close>

definition destination_object ::
  "'a outbox_lib_scheme \<Rightarrow> memory_ops \<Rightarrow> outbox_destination_apply_envelope \<Rightarrow> memory_entry outbox_write" where
  "destination_object lib ops envelope db =
     (let event = ce_event (en_claimed envelope) in
      (case map_of (ob_memories db) (oe_object_id event) of
         Some existing \<Rightarrow> Ok (existing, db)
       | None \<Rightarrow>
           and_then (insert_if_absent_within_tx ops (en_payload envelope) (ob_memories db)) (\<lambda>(inserted, m).
           let db1 = db\<lparr> ob_memories := m \<rparr> in
           and_then (case inserted of
               Inserted \<Rightarrow> require_object_readback lib db1 (oe_object_id event) (oe_source_revision event) (oe_payload_digest event)
             | Existing \<Rightarrow> (case map_of m (oe_object_id event) of Some e \<Rightarrow> Ok e | None \<Rightarrow> Err OutboxInternal)) (\<lambda>stored.
             Ok (stored, db1)))))"

definition apply_outbox_destination ::
  "'a outbox_lib_scheme \<Rightarrow> memory_ops \<Rightarrow> outbox_destination_apply_envelope \<Rightarrow> outbox_destination_apply_result outbox_write" where
  "apply_outbox_destination lib ops envelope db =
     and_then (validate_envelope lib envelope) (\<lambda>_.
     and_then (authorize_reserved_reference_write ops) (\<lambda>_.
     and_then (stamp_destination (en_destination envelope) db) (\<lambda>db1.
     let event = ce_event (en_claimed envelope) in
     (case read_destination_receipt db1 (oe_event_id event) of
        Some r \<Rightarrow>
          and_then (case validate_stored_receipt r of Err _ \<Rightarrow> Err OutboxInternal | Ok u \<Rightarrow> Ok u) (\<lambda>_.
          and_then (require_object_readback lib db1 (dr_object_id r) (dr_destination_object_revision r) (dr_destination_payload_digest r)) (\<lambda>_.
            if receipt_matches_envelope r envelope
            then Ok (DuplicateResult (receipt_from_row r DestinationDuplicate), db1)
            else Ok (ConflictResult (conflict_from_receipt envelope r), db)))
      | None \<Rightarrow>
          and_then (destination_object lib ops envelope db1) (\<lambda>(stored, db2).
          if me_id stored \<noteq> oe_object_id event \<or> me_revision stored \<noteq> oe_source_revision event
             \<or> outbox_payload_digest lib stored \<noteq> oe_payload_digest event
          then Ok (ConflictResult (conflict_from_object lib envelope stored), db)
          else and_then (insert_destination_receipt (receipt_row envelope (me_revision stored) (outbox_payload_digest lib stored)) db2) (\<lambda>(row, db3).
            Ok (AppliedResult (receipt_from_row row DestinationApplied), db3)))))))"

end
