(* ===== verification/Outbox_Laws.thy ===== *)
theory Outbox_Laws
  imports Outbox_Protocol
begin

text \<open>
  The laws of the outbox: what each call that answers found and wrote, the invariant of its
  tables, the edges an event moves along, and every call as a step along them.
\<close>

lemmas outbox_writes = insert_outbox_event_def insert_resolution_successor_event_def enqueue_outbox_event_def
  enqueue_outbox_resolution_successor_event_def transition_outbox_event_def transition_outbox_resolved_conflict_def

section \<open>Refusals\<close>

definition digest_ok :: "string \<Rightarrow> bool" where
  "digest_ok d \<longleftrightarrow> refuse_non_canonical_digest d = Ok ()"

definition class_ok :: "string \<Rightarrow> bool" where
  "class_ok c \<longleftrightarrow> refuse_invalid_class c = Ok ()"

definition reserved_class :: "string \<Rightarrow> bool" where
  "reserved_class c \<longleftrightarrow> prefix OUTBOX_RESERVED_RESOLVED_CLASS_PREFIX c"

lemma class_ok_iff: "class_ok c \<longleftrightarrow> \<not> blank c \<and> length c \<le> 64 \<and> list_all is_outbox_class_token_byte c"
  by (auto simp: class_ok_def refuse_invalid_class_def refuse_blank_def MAX_OUTBOX_CLASS_BYTES_def)

lemma reserved_refused [simp]:
  "refuse_reserved_resolved_class c = Inr () \<longleftrightarrow> \<not> reserved_class c"
  "refuse_reserved_successor_suffix i = Inr () \<longleftrightarrow> \<not> suffix OUTBOX_RESERVED_SUCCESSOR_SUFFIX i"
  by (simp_all add: refuse_reserved_resolved_class_def refuse_reserved_successor_suffix_def reserved_class_def)

lemma resolved_class_iff: "is_resolved_class c \<longleftrightarrow> (\<exists>d. c = Some d \<and> reserved_class d)"
  by (cases c) (simp_all add: is_resolved_class_def is_some_and_def reserved_class_def)

lemma stored_error_class_Ok:
  "stored_error_class st c allow = Ok d \<longleftrightarrow>
     d = c \<and> (if is_failure st then \<exists>e. c = Some e \<and> class_ok e \<and> (allow \<or> \<not> reserved_class e) else c = None)"
  by (cases c) (auto simp: stored_error_class_def and_then_Inr_iff class_ok_def)

lemma target_fails: "is_failure (target_state oc) \<longleftrightarrow> outcome_error_class oc \<noteq> None"
  by (cases oc) simp_all

lemma can_move_iff: "can_transition_to s t \<longleftrightarrow> t = Quarantined \<or> s = Pending \<and> t = InFlight
    \<or> s = InFlight \<and> t \<in> {Acknowledged, OutboxRejected, Conflicted}"
  by (cases s; cases t) simp_all

section \<open>Reads after writes\<close>

lemma event_read [simp]:
  "read_outbox_event (db\<lparr> ob_memories := m \<rparr>) i = read_outbox_event db i"
  "read_outbox_event (db\<lparr> ob_receipts := rs \<rparr>) i = read_outbox_event db i"
  "read_outbox_event (db\<lparr> ob_partition := p \<rparr>) i = read_outbox_event db i"
  "read_outbox_event (db\<lparr> ob_events := es \<rparr>) i = map_of es i"
  by (simp_all add: read_outbox_event_def)

lemma receipt_read [simp]:
  "read_destination_receipt (db\<lparr> ob_memories := m \<rparr>) i = read_destination_receipt db i"
  "read_destination_receipt (db\<lparr> ob_events := es \<rparr>) i = read_destination_receipt db i"
  "read_destination_receipt (db\<lparr> ob_partition := p \<rparr>) i = read_destination_receipt db i"
  "read_destination_receipt (db\<lparr> ob_receipts := rs \<rparr>) i = map_of rs i"
  by (simp_all add: read_destination_receipt_def)

lemma fold_reads [simp]:
  "map_of (ob_events db) i = read_outbox_event db i"
  "map_of (ob_receipts db) i = read_destination_receipt db i"
  by (simp_all add: read_outbox_event_def read_destination_receipt_def)

section \<open>What the writes answer\<close>

lemma insert_impl_Ok:
  assumes "insert_outbox_event_impl now e db = Ok (row, db')"
  obtains m where "map_of (ob_memories db) (no_object_id e) = Some m" "row = pending_row now e (me_revision m)"
    "read_outbox_event db (no_event_id e) = None" "db' = db\<lparr> ob_events := bt_insert (no_event_id e) row (ob_events db) \<rparr>"
    "digest_ok (no_payload_digest e)" "class_ok (no_object_class e)" "class_ok (no_authority_class e)"
  using assms
  by (auto simp: insert_outbox_event_impl_def and_then_Inr_iff read_object_revision_def outbox_event_exists_def Let_def
      digest_ok_def class_ok_def split: option.splits if_splits)

lemma build_new_Ok:
  assumes "build_new_outbox_event lib db object event = Ok e"
  obtains m where "map_of (ob_memories db) object = Some m"
    "e = \<lparr> no_event_id = om_event_id event, no_object_id = object, no_object_class = om_object_class event,
           no_authority_class = om_authority_class event, no_source_store = om_source_store event,
           no_source_partition = om_source_partition event, no_payload_digest = outbox_payload_digest lib m \<rparr>"
  using assms by (auto simp: build_new_outbox_event_def read_object_def and_then_Inr_iff split: option.splits)

text \<open>The row a commit or a successor is born as: pending, at the object's revision and digest.\<close>

definition born_row :: "'a outbox_lib_scheme \<Rightarrow> string \<Rightarrow> memory_entry \<Rightarrow> string \<Rightarrow> outbox_event_meta \<Rightarrow> outbox_event_row" where
  "born_row lib now m object event =
     \<lparr> oe_event_id = om_event_id event, oe_object_id = object, oe_object_class = om_object_class event,
       oe_authority_class = om_authority_class event, oe_source_store = om_source_store event,
       oe_source_partition = om_source_partition event, oe_source_revision = me_revision m,
       oe_payload_digest = outbox_payload_digest lib m, oe_state = Pending, oe_last_error_class = None,
       oe_created_at = now, oe_state_changed_at = now \<rparr>"

lemma born_row_simps [simp]:
  "oe_event_id (born_row lib now m object event) = om_event_id event"
  "oe_object_id (born_row lib now m object event) = object"
  "oe_state (born_row lib now m object event) = Pending"
  "oe_last_error_class (born_row lib now m object event) = None"
  "oe_payload_digest (born_row lib now m object event) = outbox_payload_digest lib m"
  "oe_source_revision (born_row lib now m object event) = me_revision m"
  "oe_object_class (born_row lib now m object event) = om_object_class event"
  "oe_authority_class (born_row lib now m object event) = om_authority_class event"
  by (simp_all add: born_row_def)

lemma successor_event_Ok:
  assumes "enqueue_outbox_resolution_successor_event lib now object event db = Ok (row, db')"
  obtains m where "map_of (ob_memories db) object = Some m" "row = born_row lib now m object event"
    "read_outbox_event db (om_event_id event) = None" "db' = db\<lparr> ob_events := bt_insert (om_event_id event) row (ob_events db) \<rparr>"
    "digest_ok (outbox_payload_digest lib m)" "class_ok (om_object_class event)" "class_ok (om_authority_class event)"
  using assms unfolding outbox_writes and_then_Inr_iff
  by (elim exE conjE) (erule build_new_Ok, erule insert_impl_Ok, simp add: pending_row_def born_row_def)

lemma enqueue_event_Ok:
  assumes "enqueue_outbox_event lib now object event db = Ok (row, db')"
  obtains m where "map_of (ob_memories db) object = Some m" "row = born_row lib now m object event"
    "read_outbox_event db (om_event_id event) = None" "db' = db\<lparr> ob_events := bt_insert (om_event_id event) row (ob_events db) \<rparr>"
    "digest_ok (outbox_payload_digest lib m)" "class_ok (om_object_class event)" "class_ok (om_authority_class event)"
    "\<not> suffix OUTBOX_RESERVED_SUCCESSOR_SUFFIX (om_event_id event)" "\<not> reserved_class (om_object_class event)"
    "\<not> reserved_class (om_authority_class event)"
  using assms unfolding outbox_writes and_then_Inr_iff
  by (elim exE conjE) (erule build_new_Ok, erule insert_impl_Ok, simp add: pending_row_def born_row_def)

lemma transition_impl_Ok:
  assumes "transition_outbox_event_impl now i st c allow db = Ok (row, db')"
  obtains r where "read_outbox_event db i = Some r" "can_transition_to (oe_state r) st" "stored_error_class st c allow = Ok c"
    "row = moved_row now st c r" "db' = db\<lparr> ob_events := update_row i (\<lambda>_. row) (ob_events db) \<rparr>"
  using assms
  by (auto simp: transition_outbox_event_impl_def and_then_Inr_iff Let_def stored_error_class_Ok split: option.splits if_splits)

lemma resolved_transition_Ok:
  assumes "transition_outbox_resolved_conflict now i c db = Ok (row, db')"
  obtains r where "read_outbox_event db i = Some r" "class_ok c" "reserved_class c"
    "row = moved_row now Quarantined (Some c) r" "db' = db\<lparr> ob_events := update_row i (\<lambda>_. row) (ob_events db) \<rparr>"
  using assms unfolding transition_outbox_resolved_conflict_def
  by (auto simp: reserved_class_def stored_error_class_Ok split: if_splits elim: transition_impl_Ok)

section \<open>The drain\<close>

definition instant_of :: "'a chrono_scheme \<Rightarrow> string \<Rightarrow> int" where
  "instant_of ch v = (case parse_from_rfc3339 ch (trim v) of Some t \<Rightarrow> t | None \<Rightarrow> 0)"

definition stamp_ok :: "'a chrono_scheme \<Rightarrow> string \<Rightarrow> bool" where
  "stamp_ok ch v \<longleftrightarrow> parse_from_rfc3339 ch (trim v) \<noteq> None"

lemma parse_stamp_Ok: "parse_outbox_timestamp ch v = Ok t \<longleftrightarrow> stamp_ok ch v \<and> t = instant_of ch v"
  by (auto simp: parse_outbox_timestamp_def stamp_ok_def instant_of_def split: option.splits)

text \<open>The order of a drain, and the rows it may take: pending ones, and leases stamped at or before the cutoff.\<close>

definition queue_key :: "'a chrono_scheme \<Rightarrow> outbox_event_row \<Rightarrow> int \<times> string" where
  "queue_key ch r = (instant_of ch (oe_created_at r), oe_event_id r)"

definition may_drain :: "'a chrono_scheme \<Rightarrow> int option \<Rightarrow> outbox_event_row \<Rightarrow> bool" where
  "may_drain ch cutoff r \<longleftrightarrow> oe_state r = Pending
     \<or> oe_state r = InFlight \<and> (case cutoff of None \<Rightarrow> False | Some c \<Rightarrow> instant_of ch (oe_state_changed_at r) \<le> c)"

lemma keyed_Ok:
  "keyed_by_created ch rs = Ok ks \<longleftrightarrow>
     (\<forall>r\<in>set rs. stamp_ok ch (oe_created_at r)) \<and> ks = map (\<lambda>r. (instant_of ch (oe_created_at r), r)) rs"
  by (induction rs arbitrary: ks) (auto simp: and_then_Inr_iff parse_stamp_Ok)

lemma map_insort_key: "map f (insort_key (\<lambda>a. g (f a)) x xs) = insort_key g (f x) (map f xs)"
  by (induction xs) simp_all

lemma map_sort_key: "map f (sort_key (\<lambda>a. g (f a)) xs) = sort_key g (map f xs)"
  by (induction xs) (simp_all add: map_insort_key)

lemma sort_rows_Ok:
  "sort_outbox_rows_by_created_at ch rows = Ok rs \<longleftrightarrow>
     (\<forall>r\<in>set rows. stamp_ok ch (oe_created_at r)) \<and> rs = sort_key (queue_key ch) rows"
proof -
  let ?pair = "\<lambda>r. (instant_of ch (oe_created_at r), r)"
  have "map snd (map ?pair (sort_key (queue_key ch) rows)) = map snd (sort_key (\<lambda>(t, r). (t, oe_event_id r)) (map ?pair rows))"
    unfolding map_sort_key [symmetric] by (simp add: queue_key_def [abs_def])
  then show ?thesis by (auto simp: sort_outbox_rows_by_created_at_def and_then_Inr_iff keyed_Ok comp_def)
qed

lemma drainable_Ok:
  assumes "\<forall>r\<in>set rs. oe_state r \<in> {Pending, InFlight}"
  shows "drainable ch cutoff rs = Ok ds \<longleftrightarrow>
     ds = filter (may_drain ch cutoff) rs
     \<and> (\<forall>r\<in>set rs. oe_state r = InFlight \<and> cutoff \<noteq> None \<longrightarrow> stamp_ok ch (oe_state_changed_at r))"
  using assms
proof (induction rs arbitrary: ds)
  case (Cons r rs)
  then show ?case
    by (cases "oe_state r"; cases cutoff) (auto simp: and_then_Inr_iff parse_stamp_Ok may_drain_def)
qed auto

text \<open>The row a drain leaves of one it takes, and its answers, the \<open>k\<close>-th at \<open>clock k\<close>.\<close>

definition leased :: "string \<Rightarrow> outbox_event_row \<Rightarrow> outbox_event_row" where
  "leased now r = r\<lparr> oe_state := InFlight, oe_state_changed_at := now \<rparr>"

lemma leased_simps [simp]:
  "oe_event_id (leased now r) = oe_event_id r" "oe_state (leased now r) = InFlight" "oe_state_changed_at (leased now r) = now"
  "oe_last_error_class (leased now r) = oe_last_error_class r" "oe_payload_digest (leased now r) = oe_payload_digest r"
  "oe_object_id (leased now r) = oe_object_id r" "oe_source_revision (leased now r) = oe_source_revision r"
  "oe_object_class (leased now r) = oe_object_class r" "oe_authority_class (leased now r) = oe_authority_class r"
  by (simp_all add: leased_def)

lemma pending_leased: "oe_state r = Pending \<Longrightarrow> oe_last_error_class r = None \<Longrightarrow> moved_row now InFlight None r = leased now r"
  by (cases r) (simp add: moved_row_def leased_def)

lemma renewed_leased: "oe_state r = InFlight \<Longrightarrow> r\<lparr> oe_state_changed_at := now \<rparr> = leased now r"
  by (cases r) (simp add: leased_def)

fun claimed_rows :: "(nat \<Rightarrow> string) \<Rightarrow> nat \<Rightarrow> outbox_event_row list \<Rightarrow> claimed_outbox_row list" where
  "claimed_rows clock k [] = []"
| "claimed_rows clock k (r # rs) =
     \<lparr> co_event = leased (clock k) r, co_previous_state = oe_state r, co_previous_state_changed_at = oe_state_changed_at r \<rparr>
     # claimed_rows clock (Suc k) rs"

fun leased_events :: "(nat \<Rightarrow> string) \<Rightarrow> nat \<Rightarrow> outbox_event_row list \<Rightarrow> (string \<times> outbox_event_row) list \<Rightarrow> (string \<times> outbox_event_row) list" where
  "leased_events clock k [] m = m"
| "leased_events clock k (r # rs) m = leased_events clock (Suc k) rs (update_row (oe_event_id r) (\<lambda>_. leased (clock k) r) m)"

text \<open>A batch of distinct rows of the table is claimed, whatever the clock reads.\<close>

lemma claim_one:
  assumes "read_outbox_event db (oe_event_id r) = Some r" "oe_state r \<in> {Pending, InFlight}" "oe_last_error_class r = None"
  shows "(case oe_state r of
         Pending \<Rightarrow> transition_outbox_event now (oe_event_id r) InFlight None db
       | InFlight \<Rightarrow> renew_outbox_claim now r db
       | _ \<Rightarrow> Err OutboxInternal)
     = Ok (leased now r, db\<lparr> ob_events := update_row (oe_event_id r) (\<lambda>_. leased now r) (ob_events db) \<rparr>)"
  using assms
  by (cases "oe_state r") (simp_all add: transition_outbox_event_def transition_outbox_event_impl_def stored_error_class_def
      pending_leased renew_outbox_claim_def renewed_leased Let_def)

lemma claim_each_total:
  assumes "\<forall>r\<in>set rs. read_outbox_event db (oe_event_id r) = Some r \<and> oe_state r \<in> {Pending, InFlight} \<and> oe_last_error_class r = None"
    and "distinct (map oe_event_id rs)"
  shows "claim_each clock k rs db = Ok (claimed_rows clock k rs, db\<lparr> ob_events := leased_events clock k rs (ob_events db) \<rparr>)"
  using assms
proof (induction rs arbitrary: db k)
  case (Cons r rs)
  let ?db = "db\<lparr> ob_events := update_row (oe_event_id r) (\<lambda>_. leased (clock k) r) (ob_events db) \<rparr>"
  have one: "(case oe_state r of
         Pending \<Rightarrow> transition_outbox_event (clock k) (oe_event_id r) InFlight None db
       | InFlight \<Rightarrow> renew_outbox_claim (clock k) r db
       | _ \<Rightarrow> Err OutboxInternal) = Ok (leased (clock k) r, ?db)"
    using Cons.prems by (intro claim_one) auto
  have "claim_each clock (Suc k) rs ?db = Ok (claimed_rows clock (Suc k) rs, ?db\<lparr> ob_events := leased_events clock (Suc k) rs (ob_events ?db) \<rparr>)"
  proof (rule Cons.IH)
    have "oe_event_id x \<noteq> oe_event_id r" if "x \<in> set rs" for x using Cons.prems(2) that by (auto simp: rev_image_eqI)
    with Cons.prems(1) show "\<forall>x\<in>set rs. read_outbox_event ?db (oe_event_id x) = Some x \<and> oe_state x \<in> {Pending, InFlight}
        \<and> oe_last_error_class x = None" by simp
  qed (use Cons.prems(2) in simp)
  then show ?case unfolding claim_each.simps(2) one and_then_simps split_conv by simp
qed simp

section \<open>The invariant\<close>

text \<open>
  A row is failed exactly when it carries a class; the classes the kernel reserves for
  resolved conflicts are on quarantined rows only, and never on the object's columns. A
  receipt is filed under its event, at equal digests and revisions.
\<close>

definition event_ok :: "outbox_event_row \<Rightarrow> bool" where
  "event_ok r \<longleftrightarrow> (is_failure (oe_state r) \<longleftrightarrow> oe_last_error_class r \<noteq> None)
     \<and> (\<forall>c. oe_last_error_class r = Some c \<longrightarrow> class_ok c \<and> (reserved_class c \<longrightarrow> oe_state r = Quarantined))
     \<and> digest_ok (oe_payload_digest r) \<and> class_ok (oe_object_class r) \<and> class_ok (oe_authority_class r)
     \<and> \<not> reserved_class (oe_object_class r) \<and> \<not> reserved_class (oe_authority_class r)"

definition receipt_ok :: "destination_receipt_row \<Rightarrow> bool" where
  "receipt_ok r \<longleftrightarrow> dr_application r = ''applied'' \<and> dr_destination_payload_digest r = dr_source_payload_digest r
     \<and> dr_destination_object_revision r = dr_source_revision r \<and> digest_ok (dr_source_payload_digest r) \<and> 1 \<le> dr_source_revision r
     \<and> validate_identity (dr_destination_store r) = Ok () \<and> validate_identity (dr_destination_partition r) = Ok ()"

definition tables_ok :: "outbox_db \<Rightarrow> bool" where
  "tables_ok db \<longleftrightarrow> bt_wf (ob_events db) \<and> bt_wf (ob_receipts db)
     \<and> (\<forall>i r. read_outbox_event db i = Some r \<longrightarrow> oe_event_id r = i \<and> event_ok r)
     \<and> (\<forall>i r. read_destination_receipt db i = Some r \<longrightarrow> dr_event_id r = i \<and> receipt_ok r)"

text \<open>A successor stands for a withdrawn event of the same object, class and source.\<close>

definition succeeds :: "outbox_event_row \<Rightarrow> outbox_event_row \<Rightarrow> bool" where
  "succeeds s p \<longleftrightarrow> oe_state p = Quarantined \<and> oe_object_id s = oe_object_id p \<and> oe_object_class s = oe_object_class p
     \<and> oe_authority_class s = oe_authority_class p \<and> oe_source_store s = oe_source_store p
     \<and> oe_source_partition s = oe_source_partition p"

definition lineage_ok :: "outbox_db \<Rightarrow> bool" where
  "lineage_ok db \<longleftrightarrow> (\<forall>i s. read_outbox_event db (outbox_local_wins_successor_id i) = Some s \<longrightarrow>
     (\<exists>p. read_outbox_event db i = Some p \<and> succeeds s p))"

definition outbox_ok :: "outbox_db \<Rightarrow> bool" where
  "outbox_ok db \<longleftrightarrow> tables_ok db \<and> lineage_ok db"

lemma tables_eventD:
  "tables_ok db \<Longrightarrow> read_outbox_event db i = Some r \<Longrightarrow> oe_event_id r = i"
  "tables_ok db \<Longrightarrow> read_outbox_event db i = Some r \<Longrightarrow> event_ok r"
  by (simp_all add: tables_ok_def)

lemma tables_receiptD:
  "tables_ok db \<Longrightarrow> read_destination_receipt db i = Some r \<Longrightarrow> dr_event_id r = i"
  "tables_ok db \<Longrightarrow> read_destination_receipt db i = Some r \<Longrightarrow> receipt_ok r"
  by (simp_all add: tables_ok_def)

lemma open_classless: "event_ok r \<Longrightarrow> oe_state r \<in> {Pending, InFlight} \<Longrightarrow> oe_last_error_class r = None"
  by (auto simp: event_ok_def)

lemma tables_frame:
  "tables_ok (db\<lparr> ob_memories := m \<rparr>) \<longleftrightarrow> tables_ok db"
  "tables_ok (db\<lparr> ob_partition := p \<rparr>) \<longleftrightarrow> tables_ok db"
  by (simp_all add: tables_ok_def)

lemma lineage_frame:
  "lineage_ok (db\<lparr> ob_memories := m \<rparr>) \<longleftrightarrow> lineage_ok db"
  "lineage_ok (db\<lparr> ob_partition := p \<rparr>) \<longleftrightarrow> lineage_ok db"
  "lineage_ok (db\<lparr> ob_receipts := rs \<rparr>) \<longleftrightarrow> lineage_ok db"
  by (simp_all add: lineage_ok_def)

lemma tables_insert:
  assumes "tables_ok db" "oe_event_id row = i" "event_ok row"
  shows "tables_ok (db\<lparr> ob_events := bt_insert i row (ob_events db) \<rparr>)"
  using assms by (auto simp: tables_ok_def bt_simps)

lemma tables_update:
  assumes "tables_ok db" "oe_event_id row = i" "event_ok row"
  shows "tables_ok (db\<lparr> ob_events := update_row i (\<lambda>_. row) (ob_events db) \<rparr>)"
  using assms by (auto simp: tables_ok_def)

lemma tables_receipt:
  assumes "tables_ok db" "dr_event_id row = i" "receipt_ok row"
  shows "tables_ok (db\<lparr> ob_receipts := bt_insert i row (ob_receipts db) \<rparr>)"
  using assms by (auto simp: tables_ok_def bt_simps)

lemma tables_wf: "tables_ok db \<Longrightarrow> bt_wf (ob_events db)" "tables_ok db \<Longrightarrow> bt_wf (ob_receipts db)"
  by (simp_all add: tables_ok_def)

lemma read_inserted:
  "tables_ok db \<Longrightarrow> read_outbox_event (db\<lparr> ob_events := bt_insert i row (ob_events db) \<rparr>) j =
     (if j = i then Some row else read_outbox_event db j)"
  by (simp add: bt_simps tables_wf)

lemma event_member: "tables_ok db \<Longrightarrow> (i, r) \<in> set (ob_events db) \<longleftrightarrow> read_outbox_event db i = Some r"
  unfolding read_outbox_event_def using tables_wf(1) bt_wf_distinct map_of_eq_Some_iff by metis

lemma event_key: "tables_ok db \<Longrightarrow> x \<in> set (ob_events db) \<Longrightarrow> oe_event_id (snd x) = fst x"
  using event_member [of db "fst x" "snd x"] tables_eventD(1) by simp

lemma event_rows_iff: "tables_ok db \<Longrightarrow> r \<in> set (event_rows db) \<longleftrightarrow> read_outbox_event db (oe_event_id r) = Some r"
  unfolding event_rows_def event_member [symmetric] by (force dest: event_key)

lemma event_rows_distinct: "tables_ok db \<Longrightarrow> distinct (map oe_event_id (event_rows db))"
proof -
  assume t: "tables_ok db"
  then have "map oe_event_id (event_rows db) = map fst (ob_events db)" by (simp add: event_rows_def event_key)
  with t show ?thesis by (simp add: bt_wf_distinct tables_wf)
qed

section \<open>What a drain takes\<close>

definition drained :: "'a chrono_scheme \<Rightarrow> nat \<Rightarrow> int option \<Rightarrow> outbox_db \<Rightarrow> outbox_event_row list" where
  "drained ch limit cutoff db = take limit (sort_key (queue_key ch) (filter (may_drain ch cutoff) (event_rows db)))"

lemma drained_rows: "r \<in> set (drained ch limit cutoff db) \<Longrightarrow> r \<in> set (event_rows db) \<and> may_drain ch cutoff r"
  unfolding drained_def by (auto dest: in_set_takeD)

lemma distinct_sort_key: "distinct (map g xs) \<Longrightarrow> distinct (map g (sort_key f xs))"
  by (metis distinct_map mset_map mset_sort set_sort sort_key_const distinct_sort)

lemma drained_distinct: "tables_ok db \<Longrightarrow> distinct (map oe_event_id (drained ch limit cutoff db))"
  unfolding drained_def take_map [symmetric]
  by (intro distinct_take distinct_sort_key) (simp add: event_rows_distinct distinct_map_filter)

lemma leased_events_other: "i \<notin> oe_event_id ` set rs \<Longrightarrow> map_of (leased_events clock k rs m) i = map_of m i"
  by (induction rs arbitrary: k m) auto

lemma leased_events_nth:
  "distinct (map oe_event_id rs) \<Longrightarrow> \<forall>r\<in>set rs. map_of m (oe_event_id r) \<noteq> None \<Longrightarrow> n < length rs \<Longrightarrow>
     map_of (leased_events clock k rs m) (oe_event_id (rs ! n)) = Some (leased (clock (k + n)) (rs ! n))"
proof (induction rs arbitrary: k m n)
  case (Cons r rs)
  show ?case
  proof (cases n)
    case 0
    have "map_of (leased_events clock (Suc k) rs (update_row (oe_event_id r) (\<lambda>_. leased (clock k) r) m)) (oe_event_id r)
        = map_of (update_row (oe_event_id r) (\<lambda>_. leased (clock k) r) m) (oe_event_id r)"
      using Cons.prems(1) by (intro leased_events_other) auto
    then show ?thesis using 0 Cons.prems(2) by simp
  next
    case (Suc j)
    then show ?thesis using Cons.IH [of _ j "Suc k"] Cons.prems by auto
  qed
qed simp

lemma bt_wf_leased [simp]: "bt_wf (leased_events clock k rs m) \<longleftrightarrow> bt_wf m"
  by (induction rs arbitrary: k m) simp_all

text \<open>When every stamp reads as an instant, and a cutoff too, a drain takes its batch; a drain that answers took it.\<close>

definition stamps_ok :: "'a chrono_scheme \<Rightarrow> outbox_db \<Rightarrow> bool" where
  "stamps_ok ch db \<longleftrightarrow> (\<forall>r\<in>set (event_rows db). stamp_ok ch (oe_created_at r) \<and> stamp_ok ch (oe_state_changed_at r))"

lemma drained_filter:
  "sort_key (queue_key ch) (filter (\<lambda>r. oe_state r \<in> {Pending, InFlight}) rows) = cs \<Longrightarrow>
     filter (may_drain ch cutoff) cs = sort_key (queue_key ch) (filter (may_drain ch cutoff) rows)"
  by (auto simp: filter_sort may_drain_def intro!: arg_cong [of _ _ "sort_key (queue_key ch)"] filter_cong)

lemma claim_drained:
  assumes "tables_ok db"
  shows "claim_each clock 0 (drained ch limit cutoff db) db
     = Ok (claimed_rows clock 0 (drained ch limit cutoff db),
           db\<lparr> ob_events := leased_events clock 0 (drained ch limit cutoff db) (ob_events db) \<rparr>)"
proof (rule claim_each_total)
  show "\<forall>r\<in>set (drained ch limit cutoff db). read_outbox_event db (oe_event_id r) = Some r
      \<and> oe_state r \<in> {Pending, InFlight} \<and> oe_last_error_class r = None"
  proof
    fix r assume "r \<in> set (drained ch limit cutoff db)"
    then have r: "read_outbox_event db (oe_event_id r) = Some r" "oe_state r \<in> {Pending, InFlight}"
      using drained_rows event_rows_iff [OF assms] by (fastforce simp: may_drain_def)+
    with open_classless tables_eventD(2) [OF assms] show "read_outbox_event db (oe_event_id r) = Some r
      \<and> oe_state r \<in> {Pending, InFlight} \<and> oe_last_error_class r = None" by blast
  qed
qed (rule drained_distinct [OF assms])

lemma cutoff_Ok:
  "(case s of None \<Rightarrow> Ok None | Some v \<Rightarrow> and_then (parse_outbox_timestamp ch v) (\<lambda>t. Ok (Some t))) = Ok c \<longleftrightarrow>
     c = map_option (instant_of ch) s \<and> (\<forall>v. s = Some v \<longrightarrow> stamp_ok ch v)"
  by (cases s) (auto simp: and_then_Inr_iff parse_stamp_Ok)

lemma claim_tx_Ok:
  assumes "tables_ok db" "claim_outbox_events_within_tx ch clock limit s db = Ok (claimed, db')"
  shows "claimed = claimed_rows clock 0 (drained ch limit (map_option (instant_of ch) s) db)
    \<and> db' = db\<lparr> ob_events := leased_events clock 0 (drained ch limit (map_option (instant_of ch) s) db) (ob_events db) \<rparr>"
proof (cases "limit = 0")
  case True
  then show ?thesis using assms(2) by (simp add: claim_outbox_events_within_tx_def drained_def)
next
  case False
  with assms(2) obtain cs ds where
    "sort_outbox_rows_by_created_at ch (filter (\<lambda>r. oe_state r \<in> {Pending, InFlight}) (event_rows db)) = Ok cs"
    and ds: "drainable ch (map_option (instant_of ch) s) cs = Ok ds" and c: "claim_each clock 0 (take limit ds) db = Ok (claimed, db')"
    unfolding claim_outbox_events_within_tx_def and_then_Inr_iff guard_Inr if_not_P [OF False] cutoff_Ok by blast
  then have cs: "cs = sort_key (queue_key ch) (filter (\<lambda>r. oe_state r \<in> {Pending, InFlight}) (event_rows db))"
    by (simp add: sort_rows_Ok)
  then have "ds = filter (may_drain ch (map_option (instant_of ch) s)) cs" using ds by (subst (asm) drainable_Ok) auto
  then have "take limit ds = drained ch limit (map_option (instant_of ch) s) db"
    unfolding drained_def using drained_filter [OF cs [symmetric]] by simp
  then show ?thesis using c by (simp add: claim_drained [OF assms(1)])
qed

lemma claim_tx_total:
  assumes "tables_ok db" "stamps_ok ch db" "\<forall>v. s = Some v \<longrightarrow> stamp_ok ch v"
  shows "\<exists>claimed db'. claim_outbox_events_within_tx ch clock limit s db = Ok (claimed, db')"
proof (cases "limit = 0")
  case False
  let ?c = "map_option (instant_of ch) s" and ?rows = "filter (\<lambda>r. oe_state r \<in> {Pending, InFlight}) (event_rows db)"
  have cs: "sort_outbox_rows_by_created_at ch ?rows = Ok (sort_key (queue_key ch) ?rows)"
    using assms(2) by (auto simp: sort_rows_Ok stamps_ok_def)
  have ds: "drainable ch ?c (sort_key (queue_key ch) ?rows) = Ok (filter (may_drain ch ?c) (sort_key (queue_key ch) ?rows))"
    using assms(2) by (subst drainable_Ok) (auto simp: stamps_ok_def)
  have "take limit (filter (may_drain ch ?c) (sort_key (queue_key ch) ?rows)) = drained ch limit ?c db"
    unfolding drained_def by (simp only: drained_filter [OF HOL.refl])
  then show ?thesis
    unfolding claim_outbox_events_within_tx_def cutoff_Ok [THEN iffD2, OF conjI [OF HOL.refl assms(3)]] and_then_simps cs ds
    by (simp add: claim_drained [OF assms(1)])
qed (simp add: claim_outbox_events_within_tx_def)

text \<open>The rows of a drain map to receipts whatever it was asked: nothing committed is withheld.\<close>

definition claim_receipt :: "string option \<Rightarrow> claimed_outbox_row \<Rightarrow> claimed_outbox_event" where
  "claim_receipt cutoff row = \<lparr> ce_event = co_event row,
     ce_claim = (case co_previous_state row of
       InFlight \<Rightarrow> Reclaimed (co_previous_state_changed_at row) (case cutoff of Some c \<Rightarrow> c | None \<Rightarrow> []) | _ \<Rightarrow> First) \<rparr>"

lemma collect_claimed_total:
  "\<forall>r\<in>set rs. may_drain ch (map_option (instant_of ch) s) r \<Longrightarrow>
     collect_claimed s (claimed_rows clock k rs) = Ok (map (claim_receipt s) (claimed_rows clock k rs))"
proof (induction rs arbitrary: k)
  case (Cons r rs)
  then show ?case
    by (cases "oe_state r"; cases s) (simp_all add: claimed_event_def claim_receipt_def may_drain_def)
qed simp

definition cutoff_of :: "'a outbox_lib_scheme \<Rightarrow> int \<Rightarrow> outbox_claim_request \<Rightarrow> (string option, outbox_error) result" where
  "cutoff_of lib now request = (case cr_reclaim_stale_after request of
     None \<Rightarrow> Ok None | Some stale_after \<Rightarrow> and_then (stale_claim_cutoff lib now stale_after) (\<lambda>c. Ok (Some c)))"

lemma claim_events_cases:
  assumes "tables_ok db"
  obtains (refused) e where "claim_outbox_events lib now clock request db = (Err e, db)"
  | (claimed) s batch where "cutoff_of lib now request = Ok s"
      "batch = drained lib (cr_limit request) (map_option (instant_of lib) s) db"
      "claim_outbox_events lib now clock request db
         = (Ok (map (claim_receipt s) (claimed_rows clock 0 batch)), db\<lparr> ob_events := leased_events clock 0 batch (ob_events db) \<rparr>)"
proof (cases "cutoff_of lib now request")
  case (Inl e)
  then show thesis using that(1) [of e] by (simp add: claim_outbox_events_def cutoff_of_def)
next
  case (Inr s)
  then have c: "claim_outbox_events lib now clock request db = (case claim_outbox_events_within_tx lib clock (cr_limit request) s db of
      Err e \<Rightarrow> (Err e, db) | Ok (rows, db') \<Rightarrow> (collect_claimed s rows, db'))"
    unfolding claim_outbox_events_def cutoff_of_def by simp
  show thesis
  proof (cases "claim_outbox_events_within_tx lib clock (cr_limit request) s db")
    case (Inl e)
    then show thesis using that(1) [of e] c by simp
  next
    case ok: (Inr x)
    obtain rows db' where x: "x = (rows, db')" by (cases x)
    note tx = claim_tx_Ok [OF assms ok [unfolded x]]
    have "\<forall>r\<in>set (drained lib (cr_limit request) (map_option (instant_of lib) s) db). may_drain lib (map_option (instant_of lib) s) r"
      by (auto dest: drained_rows)
    from collect_claimed_total [OF this] show thesis
      using that(2) [OF Inr HOL.refl] c ok tx x by simp
  qed
qed

section \<open>What the protocol answers\<close>

lemma moved_row_simps [simp]:
  "oe_event_id (moved_row now st c r) = oe_event_id r" "oe_state (moved_row now st c r) = st"
  "oe_last_error_class (moved_row now st c r) = c" "oe_payload_digest (moved_row now st c r) = oe_payload_digest r"
  "oe_object_id (moved_row now st c r) = oe_object_id r" "oe_object_class (moved_row now st c r) = oe_object_class r"
  "oe_authority_class (moved_row now st c r) = oe_authority_class r" "oe_source_revision (moved_row now st c r) = oe_source_revision r"
  "oe_source_store (moved_row now st c r) = oe_source_store r" "oe_source_partition (moved_row now st c r) = oe_source_partition r"
  by (simp_all add: moved_row_def)

lemma outcome_Ok:
  assumes "apply_outbox_outcome now i outcome evidence db = Ok (rc, db')"
  obtains (recorded) r where "read_outbox_event db i = Some r" "oe_state r = InFlight"
      "stored_error_class (target_state outcome) (outcome_error_class outcome) False = Ok (outcome_error_class outcome)"
      "or_event rc = moved_row now (target_state outcome) (outcome_error_class outcome) r" "or_prior_state rc = InFlight"
      "or_application rc = Applied" "or_evidence rc = evidence"
      "db' = db\<lparr> ob_events := update_row i (\<lambda>_. or_event rc) (ob_events db) \<rparr>"
  | (replayed) r where "read_outbox_event db i = Some r" "oe_state r = target_state outcome"
      "oe_last_error_class r = outcome_error_class outcome" "or_event rc = r" "or_prior_state rc = oe_state r"
      "or_application rc = AlreadyApplied" "or_evidence rc = evidence" "db' = db"
proof -
  obtain r where r: "read_outbox_event db i = Some r"
    using assms by (auto simp: apply_outbox_outcome_def and_then_Inr_iff split: option.splits)
  show thesis
  proof (cases "oe_state r")
    case InFlight
    then obtain e where t: "transition_outbox_event_impl now i (target_state outcome) (outcome_error_class outcome) False db = Ok (e, db')"
      and rc: "rc = \<lparr> or_event = e, or_prior_state = InFlight, or_application = Applied, or_evidence = evidence \<rparr>"
      using assms r by (auto simp: apply_outbox_outcome_def and_then_Inr_iff transition_outbox_event_def)
    show thesis using t
    proof (cases rule: transition_impl_Ok)
      case (1 q)
      show thesis by (rule recorded [of r]) (use 1 r rc InFlight in simp_all)
    qed
  qed (use assms r that(2) [of r] in \<open>auto simp: apply_outbox_outcome_def and_then_Inr_iff split: if_splits\<close>)
qed

lemma outcome_valid:
  "apply_outbox_outcome now i outcome evidence db = Ok (rc, db') \<Longrightarrow>
     validate_outcome outcome = Ok () \<and> validate_evidence evidence = Ok ()"
  by (auto simp: apply_outbox_outcome_def and_then_Inr_iff)

definition resolved_class_of :: "outbox_conflict_resolution \<Rightarrow> string" where
  "resolved_class_of resolution = (case resolution of
     RemoteWins cls \<Rightarrow> outbox_remote_wins_resolved_class cls | _ \<Rightarrow> OUTBOX_LOCAL_WINS_RESOLVED_CLASS)"

definition successor_meta :: "outbox_event_row \<Rightarrow> outbox_event_meta" where
  "successor_meta r = \<lparr> om_event_id = outbox_local_wins_successor_id (oe_event_id r), om_object_class = oe_object_class r,
     om_authority_class = oe_authority_class r, om_source_store = oe_source_store r, om_source_partition = oe_source_partition r \<rparr>"

lemma successor_meta_simps [simp]:
  "om_event_id (successor_meta r) = outbox_local_wins_successor_id (oe_event_id r)"
  "om_object_class (successor_meta r) = oe_object_class r" "om_authority_class (successor_meta r) = oe_authority_class r"
  "om_source_store (successor_meta r) = oe_source_store r" "om_source_partition (successor_meta r) = oe_source_partition r"
  by (simp_all add: successor_meta_def)

lemma successor_id_neq [simp]: "outbox_local_wins_successor_id i \<noteq> i" "i \<noteq> outbox_local_wins_successor_id i"
  by (simp_all add: outbox_local_wins_successor_id_def OUTBOX_LOCAL_WINS_SUCCESSOR_SUFFIX_def)

lemma successor_id_inj [simp]: "outbox_local_wins_successor_id i = outbox_local_wins_successor_id j \<longleftrightarrow> i = j"
  by (simp add: outbox_local_wins_successor_id_def)

lemma successor_suffix [simp]: "suffix OUTBOX_RESERVED_SUCCESSOR_SUFFIX (outbox_local_wins_successor_id i)"
  by (simp add: suffix_def outbox_local_wins_successor_id_def OUTBOX_LOCAL_WINS_SUCCESSOR_SUFFIX_def OUTBOX_RESERVED_SUCCESSOR_SUFFIX_def)

text \<open>The three ways a conflict ends, or does not.\<close>

lemma resolve_Ok:
  assumes "tables_ok db" "resolve_outbox_conflict lib clock i resolution db = Ok (rc, db')"
  obtains (deferred) r where "read_outbox_event db i = Some r" "oe_state r = Conflicted" "resolution = Deferred"
      "rc = DeferredReceipt r" "db' = db"
  | (remote_won) r cls where "read_outbox_event db i = Some r" "oe_state r = Conflicted" "resolution = RemoteWins cls"
      "class_ok (resolved_class_of resolution)" "reserved_class (resolved_class_of resolution)"
      "rc = RemoteWinsReceipt (moved_row (clock 0) Quarantined (Some (resolved_class_of resolution)) r)"
      "db' = db\<lparr> ob_events := update_row i (\<lambda>_. moved_row (clock 0) Quarantined (Some (resolved_class_of resolution)) r) (ob_events db) \<rparr>"
  | (local_won) r m s where "read_outbox_event db i = Some r" "oe_state r = Conflicted" "resolution = LocalWins"
      "class_ok (resolved_class_of resolution)" "reserved_class (resolved_class_of resolution)"
      "map_of (ob_memories db) (oe_object_id r) = Some m" "s = born_row lib (clock 0) m (oe_object_id r) (successor_meta r)"
      "read_outbox_event db (outbox_local_wins_successor_id i) = None" "digest_ok (outbox_payload_digest lib m)"
      "rc = LocalWinsReceipt (moved_row (clock 1) Quarantined (Some (resolved_class_of resolution)) r) s"
      "db' = db\<lparr> ob_events := update_row i (\<lambda>_. moved_row (clock 1) Quarantined (Some (resolved_class_of resolution)) r)
         (bt_insert (outbox_local_wins_successor_id i) s (ob_events db)) \<rparr>"
proof -
  obtain r where r: "read_outbox_event db i = Some r" "oe_state r = Conflicted"
    using assms(2) by (auto simp: resolve_outbox_conflict_def and_then_Inr_iff split: option.splits if_splits)
  have id: "oe_event_id r = i" using tables_eventD(1) assms(1) r(1) .
  show thesis
  proof (cases resolution)
    case Deferred
    with assms(2) r have "rc = DeferredReceipt r \<and> db' = db" by (simp add: resolve_outbox_conflict_def and_then_Inr_iff)
    with deferred [OF r Deferred] show thesis by simp
  next
    case (RemoteWins cls)
    then obtain row where t: "transition_outbox_resolved_conflict (clock 0) i (resolved_class_of resolution) db = Ok (row, db')"
      and rc: "rc = RemoteWinsReceipt row"
      using assms(2) r by (auto simp: resolve_outbox_conflict_def and_then_Inr_iff resolved_class_of_def)
    from t show thesis
    proof (cases rule: resolved_transition_Ok)
      case (1 q)
      then have "q = r" using r by simp
      then show thesis using remote_won [OF r RemoteWins 1(2,3)] 1(4,5) rc by simp
    qed
  next
    case LocalWins
    then obtain s db1 row where s: "enqueue_outbox_resolution_successor_event lib (clock 0) (oe_object_id r) (successor_meta r) db = Ok (s, db1)"
      and t: "transition_outbox_resolved_conflict (clock 1) i (resolved_class_of resolution) db1 = Ok (row, db')"
      and rc: "rc = LocalWinsReceipt row s"
      using assms(2) r id by (auto simp: resolve_outbox_conflict_def and_then_Inr_iff resolved_class_of_def successor_meta_def)
    from s obtain m where m: "map_of (ob_memories db) (oe_object_id r) = Some m" "s = born_row lib (clock 0) m (oe_object_id r) (successor_meta r)"
      "read_outbox_event db (outbox_local_wins_successor_id i) = None" "digest_ok (outbox_payload_digest lib m)"
      and db1: "db1 = db\<lparr> ob_events := bt_insert (outbox_local_wins_successor_id i) s (ob_events db) \<rparr>"
      by (rule successor_event_Ok) (auto simp: id)
    from t show thesis
    proof (cases rule: resolved_transition_Ok)
      case (1 q)
      then have "q = r" using r by (simp add: db1 read_inserted [OF assms(1)] del: event_read)
      then show thesis using local_won [OF r LocalWins 1(2,3) m] 1(4,5) rc db1 by simp
    qed
  qed
qed

lemma validate_resolution_fits:
  assumes "validate_resolution (RemoteWins cls) = Ok ()"
  shows "class_ok (resolved_class_of (RemoteWins cls)) \<and> reserved_class (resolved_class_of (RemoteWins cls))"
proof -
  have "\<not> blank (outbox_remote_wins_resolved_class cls)"
    by (simp add: outbox_remote_wins_resolved_class_def OUTBOX_REMOTE_WINS_RESOLVED_CLASS_PREFIX_def not_blank_visible)
  moreover have "list_all is_outbox_class_token_byte cls" "length (outbox_remote_wins_resolved_class cls) \<le> 64"
    using assms by (auto simp: validate_resolution_def and_then_Inr_iff class_ok_def [symmetric] class_ok_iff MAX_OUTBOX_CLASS_BYTES_def
        simp del: length_append split: if_splits)
  ultimately show ?thesis
    unfolding class_ok_iff resolved_class_of_def
    by (simp add: outbox_remote_wins_resolved_class_def OUTBOX_REMOTE_WINS_RESOLVED_CLASS_PREFIX_def is_outbox_class_token_byte_def
        is_ascii_digit_def reserved_class_def OUTBOX_RESERVED_RESOLVED_CLASS_PREFIX_def)
qed

lemma map_of_inserted: "map_of (bt_insert k v m) k = Some v"
  unfolding bt_insert_def by (induction m) auto

lemma commit_Ok:
  assumes "commit_with_outbox_event lib ops st now entry event db = Ok (rc, db')"
  obtains ms m where "upsert_within_tx ops entry (ob_memories db) = Ok ms" "map_of ms (me_id entry) = Some m"
    "oc_event rc = born_row lib now m (me_id entry) event" "oc_object_revision rc = me_revision m"
    "read_outbox_event db (om_event_id event) = None"
    "db' = db\<lparr> ob_memories := ms, ob_events := bt_insert (om_event_id event) (oc_event rc) (ob_events db) \<rparr>"
    "enqueue_outbox_event lib now (me_id entry) event (db\<lparr> ob_memories := ms \<rparr>) = Ok (oc_event rc, db')"
    "validate_write_path lib st entry = Ok ()" "authorize_reserved_reference_write ops = Ok ()"
proof -
  obtain ms row where ms: "upsert_within_tx ops entry (ob_memories db) = Ok ms" "validate_write_path lib st entry = Ok ()"
      "authorize_reserved_reference_write ops = Ok ()"
    and e: "enqueue_outbox_event lib now (me_id entry) event (db\<lparr> ob_memories := ms \<rparr>) = Ok (row, db')"
    and rc: "build_commit_receipt lib db' (me_id entry) (om_event_id event) = Ok rc"
    using assms by (auto simp: commit_with_outbox_event_def and_then_Inr_iff)
  from e show thesis
  proof (cases rule: enqueue_event_Ok)
    case (1 m)
    obtain r where r: "read_outbox_event db' (om_event_id event) = Some r" "oc_event rc = r" "oc_object_revision rc = me_revision m"
      using rc 1(1,4) by (auto simp: build_commit_receipt_def read_object_def and_then_Inr_iff Let_def split: option.splits if_splits)
    have "map_of (bt_insert (om_event_id event) row (ob_events db)) (om_event_id event) = Some row" by (rule map_of_inserted)
    then have "r = row" using r(1) 1(4) by simp
    moreover have "map_of ms (me_id entry) = Some m" using 1(1) by simp
    ultimately show thesis using that [OF ms(1)] 1 r ms e by simp
  qed
qed

text \<open>What an answer of the destination's apply says of the table before and after.\<close>

definition event_of :: "outbox_destination_apply_envelope \<Rightarrow> outbox_event_row" where
  "event_of envelope = ce_event (en_claimed envelope)"

definition object_matches :: "'a outbox_lib_scheme \<Rightarrow> outbox_event_row \<Rightarrow> memory_entry \<Rightarrow> bool" where
  "object_matches lib e m \<longleftrightarrow> me_id m = oe_object_id e \<and> me_revision m = oe_source_revision e
     \<and> outbox_payload_digest lib m = oe_payload_digest e"

lemma stamp_Ok:
  "stamp_destination d db = Ok db1 \<longleftrightarrow> ob_role db = Some (di_store d) \<and> di_store d \<noteq> UNKNOWN_DB_LABEL
     \<and> (ob_partition db = None \<or> ob_partition db = Some (di_partition d)) \<and> db1 = db\<lparr> ob_partition := Some (di_partition d) \<rparr>"
  by (cases db) (auto simp: stamp_destination_def split: option.splits if_splits)

lemma readback_Ok:
  "require_object_readback lib db i n d = Ok m \<longleftrightarrow>
     map_of (ob_memories db) i = Some m \<and> me_id m = i \<and> me_revision m = n \<and> outbox_payload_digest lib m = d"
  by (auto simp: require_object_readback_def split: option.splits if_splits)

lemma destination_object_Ok:
  assumes "destination_object lib ops envelope db = Ok (stored, db')"
  obtains ms where "db' = db\<lparr> ob_memories := ms \<rparr>" "map_of ms (oe_object_id (event_of envelope)) = Some stored"
    "map_of (ob_memories db) (oe_object_id (event_of envelope)) = None \<or> ms = ob_memories db"
proof (cases "map_of (ob_memories db) (oe_object_id (event_of envelope))")
  case None
  note a = assms [unfolded destination_object_def Let_def event_of_def [symmetric] None option.case]
  then obtain w ms where "db' = db\<lparr> ob_memories := ms \<rparr>"
    and d: "(case w of
        Inserted \<Rightarrow> require_object_readback lib (db\<lparr> ob_memories := ms \<rparr>) (oe_object_id (event_of envelope))
          (oe_source_revision (event_of envelope)) (oe_payload_digest (event_of envelope))
      | Existing \<Rightarrow> (case map_of ms (oe_object_id (event_of envelope)) of Some e \<Rightarrow> Ok e | None \<Rightarrow> Err OutboxInternal)) = Ok stored"
    by (auto simp: and_then_Inr_iff)
  moreover have "map_of ms (oe_object_id (event_of envelope)) = Some stored"
    using d by (cases w) (auto simp: readback_Ok split: option.splits)
  ultimately have "db' = db\<lparr> ob_memories := ms \<rparr>" "map_of ms (oe_object_id (event_of envelope)) = Some stored" by simp_all
  then show thesis using that None by blast
next
  case (Some m)
  then show thesis using assms that [of "ob_memories db"] by (auto simp: destination_object_def Let_def event_of_def)
qed

lemma insert_receipt_Ok:
  assumes "insert_destination_receipt r db = Ok (row, db')"
  shows "row = r \<and> db' = db\<lparr> ob_receipts := bt_insert (dr_event_id r) r (ob_receipts db) \<rparr> \<and> read_destination_receipt db (dr_event_id r) = None
    \<and> digest_ok (dr_source_payload_digest r) \<and> digest_ok (dr_destination_payload_digest r)
    \<and> \<not> dr_source_revision r < 1 \<and> \<not> dr_destination_object_revision r < 1"
  using assms by (auto simp: insert_destination_receipt_def and_then_Inr_iff require_def digest_ok_def split: if_splits)

lemma apply_Ok:
  assumes "apply_outbox_destination lib ops envelope db = Ok (res, db')"
  obtains (conflict) c where "res = ConflictResult c" "db' = db"
  | (duplicate) r where "res = DuplicateResult (receipt_from_row r DestinationDuplicate)"
      "read_destination_receipt db (oe_event_id (event_of envelope)) = Some r" "receipt_matches_envelope r envelope"
      "db' = db\<lparr> ob_partition := Some (di_partition (en_destination envelope)) \<rparr>"
      "validate_envelope lib envelope = Ok ()" "stamp_destination (en_destination envelope) db = Ok db'"
  | (applied) ms m where
      "res = AppliedResult (receipt_from_row (receipt_row envelope (oe_source_revision (event_of envelope)) (oe_payload_digest (event_of envelope))) DestinationApplied)"
      "read_destination_receipt db (oe_event_id (event_of envelope)) = None"
      "map_of ms (oe_object_id (event_of envelope)) = Some m" "object_matches lib (event_of envelope) m"
      "map_of (ob_memories db) (oe_object_id (event_of envelope)) = None \<or> ms = ob_memories db"
      "db' = db\<lparr> ob_partition := Some (di_partition (en_destination envelope)), ob_memories := ms,
         ob_receipts := bt_insert (oe_event_id (event_of envelope))
           (receipt_row envelope (oe_source_revision (event_of envelope)) (oe_payload_digest (event_of envelope))) (ob_receipts db) \<rparr>"
      "validate_envelope lib envelope = Ok ()" "digest_ok (oe_payload_digest (event_of envelope))" "1 \<le> oe_source_revision (event_of envelope)"
      "ob_role db = Some (di_store (en_destination envelope))"
proof -
  let ?e = "event_of envelope"
  obtain db1 where v: "validate_envelope lib envelope = Ok ()" and st: "stamp_destination (en_destination envelope) db = Ok db1"
    using assms by (auto simp: apply_outbox_destination_def and_then_Inr_iff)
  have ro: "ob_role db = Some (di_store (en_destination envelope))"
    and db1: "db1 = db\<lparr> ob_partition := Some (di_partition (en_destination envelope)) \<rparr>" using st by (simp_all add: stamp_Ok)
  have rd: "read_destination_receipt db1 i = read_destination_receipt db i" for i by (simp add: db1)
  note a = assms [unfolded apply_outbox_destination_def v st and_then_simps Let_def event_of_def [symmetric] rd and_then_Inr_iff]
  show thesis
  proof (cases "read_destination_receipt db (oe_event_id ?e)")
    case (Some r)
    show thesis
    proof (cases "receipt_matches_envelope r envelope")
      case True
      then have "res = DuplicateResult (receipt_from_row r DestinationDuplicate)" "db' = db1"
        using a Some by (auto simp: and_then_Inr_iff split: sum.splits)
      then show thesis using duplicate [OF _ Some True] v st db1 by simp
    next
      case False
      then show thesis using a Some conflict by (auto simp: and_then_Inr_iff split: sum.splits)
    qed
  next
    case None
    then obtain stored db2 where o: "destination_object lib ops envelope db1 = Ok (stored, db2)"
      and t: "(if me_id stored \<noteq> oe_object_id ?e \<or> me_revision stored \<noteq> oe_source_revision ?e
             \<or> outbox_payload_digest lib stored \<noteq> oe_payload_digest ?e
          then Ok (ConflictResult (conflict_from_object lib envelope stored), db)
          else and_then (insert_destination_receipt (receipt_row envelope (me_revision stored) (outbox_payload_digest lib stored)) db2) (\<lambda>(row, db3).
            Ok (AppliedResult (receipt_from_row row DestinationApplied), db3))) = Ok (res, db')"
      using a by (auto simp: and_then_Inr_iff)
    show thesis
    proof (cases "object_matches lib ?e stored")
      case False
      then show thesis using t conflict by (auto simp: object_matches_def)
    next
      case True
      from o obtain ms where ms: "db2 = db1\<lparr> ob_memories := ms \<rparr>" "map_of ms (oe_object_id ?e) = Some stored"
        "map_of (ob_memories db1) (oe_object_id ?e) = None \<or> ms = ob_memories db1" by (rule destination_object_Ok)
      let ?r = "receipt_row envelope (oe_source_revision ?e) (oe_payload_digest ?e)"
      obtain row where i: "insert_destination_receipt ?r db2 = Ok (row, db')" "res = AppliedResult (receipt_from_row row DestinationApplied)"
        using t True by (auto simp: object_matches_def and_then_Inr_iff)
      have k: "dr_event_id ?r = oe_event_id ?e" "dr_source_payload_digest ?r = oe_payload_digest ?e" "dr_source_revision ?r = oe_source_revision ?e"
        by (simp_all add: receipt_row_def event_of_def Let_def)
      note ins = insert_receipt_Ok [OF i(1), unfolded k]
      show thesis by (rule applied [OF _ None ms(2) True]) (use ins i(2) ms db1 v ro in auto)
    qed
  qed
qed

section \<open>Calls as steps along the edges of the machine\<close>

text \<open>
  The edges of one event: a transition the matrix allows, under a class callers may use; a
  renewed lease; the resolution of a conflict, under a class the kernel reserves.
\<close>

inductive event_moves :: "outbox_event_row \<Rightarrow> outbox_event_row \<Rightarrow> bool" where
  transition: "can_transition_to (oe_state r) st \<Longrightarrow> stored_error_class st c False = Ok c \<Longrightarrow> event_moves r (moved_row now st c r)"
| takeover: "oe_state r \<in> {Pending, InFlight} \<Longrightarrow> event_moves r (leased now r)"
| resolution: "oe_state r = Conflicted \<Longrightarrow> class_ok c \<Longrightarrow> reserved_class c \<Longrightarrow> event_moves r (moved_row now Quarantined (Some c) r)"

definition same_event :: "outbox_event_row \<Rightarrow> outbox_event_row \<Rightarrow> bool" where
  "same_event r r' \<longleftrightarrow> oe_event_id r' = oe_event_id r \<and> oe_object_id r' = oe_object_id r \<and> oe_object_class r' = oe_object_class r
     \<and> oe_authority_class r' = oe_authority_class r \<and> oe_source_store r' = oe_source_store r
     \<and> oe_source_partition r' = oe_source_partition r \<and> oe_source_revision r' = oe_source_revision r
     \<and> oe_payload_digest r' = oe_payload_digest r \<and> oe_created_at r' = oe_created_at r"

lemma moves_same: "event_moves r r' \<Longrightarrow> same_event r r'"
  by (auto elim!: event_moves.cases simp: same_event_def moved_row_def leased_def)

lemma same_event_refl [simp]: "same_event r r"
  by (simp add: same_event_def)

lemma same_event_trans: "same_event a b \<Longrightarrow> same_event b c \<Longrightarrow> same_event a c"
  by (simp add: same_event_def)

lemma moves_star_same: "event_moves\<^sup>*\<^sup>* r r' \<Longrightarrow> same_event r r'"
  by (induction rule: rtranclp_induct) (auto intro: same_event_trans moves_same)

lemma moves_ok: "event_moves r r' \<Longrightarrow> event_ok r \<Longrightarrow> event_ok r'"
  by (auto elim!: event_moves.cases simp: event_ok_def stored_error_class_Ok can_move_iff split: if_splits)

lemma moves_quarantined: "event_moves r r' \<Longrightarrow> oe_state r = Quarantined \<Longrightarrow> oe_state r' = Quarantined"
  by (auto elim!: event_moves.cases simp: can_move_iff)

lemma moves_succeeds: "succeeds s p \<Longrightarrow> event_moves\<^sup>=\<^sup>= s s' \<Longrightarrow> event_moves\<^sup>=\<^sup>= p p' \<Longrightarrow> succeeds s' p'"
  using moves_same [of s s'] moves_same [of p p'] moves_quarantined [of p p'] by (auto simp: succeeds_def same_event_def)

text \<open>What one call may do to the tables.\<close>

definition conforms :: "outbox_db \<Rightarrow> outbox_db \<Rightarrow> bool" where
  "conforms db db' \<longleftrightarrow> outbox_ok db'
     \<and> (\<forall>i r. read_outbox_event db i = Some r \<longrightarrow> (\<exists>r'. read_outbox_event db' i = Some r' \<and> event_moves\<^sup>=\<^sup>= r r'))
     \<and> (\<forall>i r. read_outbox_event db i = None \<and> read_outbox_event db' i = Some r \<longrightarrow> oe_state r = Pending)
     \<and> (\<forall>i r. read_destination_receipt db i = Some r \<longrightarrow> read_destination_receipt db' i = Some r)
     \<and> ob_role db' = ob_role db \<and> (ob_partition db \<noteq> None \<longrightarrow> ob_partition db' = ob_partition db)"

inductive outbox_step :: "'a outbox_lib_scheme \<Rightarrow> outbox_db \<Rightarrow> outbox_db \<Rightarrow> bool" for lib where
  memories: "outbox_step lib db (db\<lparr> ob_memories := ms \<rparr>)"
| commit: "commit_with_outbox_event lib ops st now entry event db = Ok (rc, db') \<Longrightarrow> outbox_step lib db db'"
| enqueue: "enqueue_outbox_event lib now object event (db\<lparr> ob_memories := ms \<rparr>) = Ok (row, db') \<Longrightarrow> outbox_step lib db db'"
| transition: "transition_outbox_event now i st c db = Ok (row, db') \<Longrightarrow> outbox_step lib db db'"
| claim: "claim_outbox_events lib t clock request db = (answer, db') \<Longrightarrow> outbox_step lib db db'"
| outcome: "apply_outbox_outcome now i outcome evidence db = Ok (orc, db') \<Longrightarrow> outbox_step lib db db'"
| resolve: "resolve_outbox_conflict lib clock i resolution db = Ok (rrc, db') \<Longrightarrow> outbox_step lib db db'"
| destination: "apply_outbox_destination lib ops envelope db = Ok (res, db') \<Longrightarrow> outbox_step lib db db'"

lemma lineage_step:
  assumes "lineage_ok db"
    and "\<And>i r. read_outbox_event db i = Some r \<Longrightarrow> \<exists>r'. read_outbox_event db' i = Some r' \<and> event_moves\<^sup>=\<^sup>= r r'"
    and "\<And>i s. read_outbox_event db (outbox_local_wins_successor_id i) = None \<Longrightarrow> read_outbox_event db' (outbox_local_wins_successor_id i) = Some s
      \<Longrightarrow> \<exists>p. read_outbox_event db' i = Some p \<and> succeeds s p"
  shows "lineage_ok db'"
  unfolding lineage_ok_def
proof (intro allI impI)
  fix i s assume s: "read_outbox_event db' (outbox_local_wins_successor_id i) = Some s"
  show "\<exists>p. read_outbox_event db' i = Some p \<and> succeeds s p"
  proof (cases "read_outbox_event db (outbox_local_wins_successor_id i)")
    case None
    then show ?thesis using s assms(3) by blast
  next
    case (Some s0)
    then obtain p0 where p0: "read_outbox_event db i = Some p0" "succeeds s0 p0" using assms(1) by (auto simp: lineage_ok_def)
    obtain p where p: "read_outbox_event db' i = Some p" "event_moves\<^sup>=\<^sup>= p0 p" using assms(2) p0(1) by blast
    have "event_moves\<^sup>=\<^sup>= s0 s" using assms(2) [OF Some] s by auto
    then show ?thesis using moves_succeeds [OF p0(2) _ p(2)] p(1) by blast
  qed
qed

text \<open>An event moved in place, an event born, and a batch leased.\<close>

lemma conforms_moved:
  assumes "outbox_ok db" "read_outbox_event db i = Some r" "event_moves r row"
  shows "conforms db (db\<lparr> ob_events := update_row i (\<lambda>_. row) (ob_events db) \<rparr>)"
proof -
  have t: "tables_ok db" "lineage_ok db" using assms(1) by (simp_all add: outbox_ok_def)
  have row: "oe_event_id row = i" "event_ok row"
    using tables_eventD [OF t(1) assms(2)] moves_same [OF assms(3)] moves_ok [OF assms(3)] by (simp_all add: same_event_def)
  let ?db = "db\<lparr> ob_events := update_row i (\<lambda>_. row) (ob_events db) \<rparr>"
  have rd: "read_outbox_event ?db j = (if j = i then Some row else read_outbox_event db j)" for j using assms(2) by simp
  have m: "\<exists>r'. read_outbox_event ?db j = Some r' \<and> event_moves\<^sup>=\<^sup>= q r'" if "read_outbox_event db j = Some q" for j q
    using that assms(2,3) unfolding rd by (cases "j = i") auto
  have n: "read_outbox_event ?db j = None \<longleftrightarrow> read_outbox_event db j = None" for j using assms(2) unfolding rd by simp
  have old: "read_outbox_event ?db j \<noteq> Some q" if "read_outbox_event db j = None" for j q
    using n [of j] that by (metis option.distinct(1))
  have "lineage_ok ?db" by (rule lineage_step [OF t(2)]) (use m n in \<open>metis option.distinct(1)\<close>)+
  then show ?thesis
    unfolding conforms_def outbox_ok_def using tables_update [OF t(1) row] m old by (auto simp del: event_read)
qed

lemma born_ok:
  "digest_ok (outbox_payload_digest lib m) \<Longrightarrow> class_ok (om_object_class event) \<Longrightarrow> class_ok (om_authority_class event)
    \<Longrightarrow> \<not> reserved_class (om_object_class event) \<Longrightarrow> \<not> reserved_class (om_authority_class event)
    \<Longrightarrow> event_ok (born_row lib now m object event)"
  by (simp add: event_ok_def)

lemma conforms_born:
  assumes "outbox_ok db" "read_outbox_event db i = None" "oe_event_id row = i" "event_ok row" "oe_state row = Pending"
    "\<not> suffix OUTBOX_RESERVED_SUCCESSOR_SUFFIX i"
  shows "conforms db (db\<lparr> ob_events := bt_insert i row (ob_events db) \<rparr>)"
proof -
  have t: "tables_ok db" "lineage_ok db" using assms(1) by (simp_all add: outbox_ok_def)
  let ?db = "db\<lparr> ob_events := bt_insert i row (ob_events db) \<rparr>"
  note rd = read_inserted [OF t(1), of i row]
  have m: "\<exists>r'. read_outbox_event ?db j = Some r' \<and> event_moves\<^sup>=\<^sup>= q r'" if "read_outbox_event db j = Some q" for j q
    using that assms(2) by (simp add: rd del: event_read) auto
  have ne: "outbox_local_wins_successor_id j \<noteq> i" for j using assms(6) by auto
  have "lineage_ok ?db" by (rule lineage_step [OF t(2) m]) (use ne in \<open>auto simp add: rd simp del: event_read\<close>)
  then show ?thesis
    unfolding conforms_def outbox_ok_def using tables_insert [OF t(1) assms(3,4)] m assms(5) by (auto simp: rd simp del: event_read)
qed

lemma conforms_frame: "outbox_ok db \<Longrightarrow> conforms db (db\<lparr> ob_memories := ms \<rparr>)"
  by (auto simp: conforms_def outbox_ok_def tables_frame lineage_frame)

lemma conforms_refl: "outbox_ok db \<Longrightarrow> conforms db db"
  by (auto simp: conforms_def)

lemma conforms_born_frame: "conforms (db\<lparr> ob_memories := ms \<rparr>) db' \<Longrightarrow> conforms db db'"
  by (simp add: conforms_def)

lemma conforms_enqueued:
  assumes "outbox_ok db" "enqueue_outbox_event lib now object event (db\<lparr> ob_memories := ms \<rparr>) = Ok (row, db')"
  shows "conforms db db'"
  using assms(2)
proof (cases rule: enqueue_event_Ok)
  case (1 m)
  have "outbox_ok (db\<lparr> ob_memories := ms \<rparr>)" using assms(1) by (simp add: outbox_ok_def tables_frame lineage_frame)
  then have "conforms (db\<lparr> ob_memories := ms \<rparr>) db'"
    unfolding 1(4) by (rule conforms_born) (use 1 in \<open>simp_all add: born_ok\<close>)
  then show ?thesis by (rule conforms_born_frame)
qed

lemma conforms_claimed:
  assumes "outbox_ok db" "batch = drained ch limit cutoff db"
  shows "conforms db (db\<lparr> ob_events := leased_events clock 0 batch (ob_events db) \<rparr>)"
proof -
  have t: "tables_ok db" "lineage_ok db" using assms(1) by (simp_all add: outbox_ok_def)
  let ?db = "db\<lparr> ob_events := leased_events clock 0 batch (ob_events db) \<rparr>"
  have b: "read_outbox_event db (oe_event_id r) = Some r \<and> oe_state r \<in> {Pending, InFlight}" if "r \<in> set batch" for r
    using drained_rows [OF that [unfolded assms(2)]] event_rows_iff [OF t(1)] by (auto simp: may_drain_def)
  have rd: "(\<exists>r now. r \<in> set batch \<and> oe_event_id r = i \<and> read_outbox_event ?db i = Some (leased now r)) \<or>
      i \<notin> oe_event_id ` set batch \<and> read_outbox_event ?db i = read_outbox_event db i" for i
  proof (cases "i \<in> oe_event_id ` set batch")
    case True
    then obtain n where n: "n < length batch" "oe_event_id (batch ! n) = i" by (auto simp: in_set_conv_nth)
    have "map_of (leased_events clock 0 batch (ob_events db)) (oe_event_id (batch ! n)) = Some (leased (clock (0 + n)) (batch ! n))"
      using drained_distinct [OF t(1)] b n assms(2) by (intro leased_events_nth) auto
    then have "batch ! n \<in> set batch \<and> oe_event_id (batch ! n) = i \<and> read_outbox_event ?db i = Some (leased (clock n) (batch ! n))"
      using n by simp
    then show ?thesis by blast
  next
    case False
    then show ?thesis by (simp add: leased_events_other)
  qed
  have m: "\<exists>r'. read_outbox_event ?db i = Some r' \<and> event_moves\<^sup>=\<^sup>= r r'" if "read_outbox_event db i = Some r" for i r
    using rd [of i] that b takeover by (elim disjE exE conjE) (fastforce simp del: event_read)+
  have n: "read_outbox_event ?db i = None \<longleftrightarrow> read_outbox_event db i = None" for i
    using rd [of i] b by (auto simp del: event_read)
  have "oe_event_id r' = i \<and> event_ok r'" if r': "read_outbox_event ?db i = Some r'" for i r'
  proof -
    obtain r where r: "read_outbox_event db i = Some r" using r' n [of i] by (auto simp del: event_read)
    then have "event_moves\<^sup>=\<^sup>= r r'" using m [OF r] r' by (auto simp del: event_read)
    then show ?thesis using tables_eventD [OF t(1) r] moves_ok moves_same by (auto simp: same_event_def)
  qed
  then have "tables_ok ?db" using t(1) by (simp add: tables_ok_def del: event_read)
  moreover have old: "read_outbox_event ?db j \<noteq> Some q" if "read_outbox_event db j = None" for j q
    using n [of j] that by (metis option.distinct(1))
  moreover have "lineage_ok ?db" by (rule lineage_step [OF t(2)]) (use m n in \<open>metis option.distinct(1)\<close>)+
  ultimately show ?thesis unfolding conforms_def outbox_ok_def using m by (auto simp del: event_read)
qed

text \<open>A conflict won by the local side: its successor is born as it is withdrawn.\<close>

lemma conforms_local_wins:
  assumes ok: "outbox_ok db" and r: "read_outbox_event db i = Some r" "oe_state r = Conflicted"
    and c: "class_ok c" "reserved_class c" and s: "s = born_row lib now m (oe_object_id r) (successor_meta r)"
    and none: "read_outbox_event db (outbox_local_wins_successor_id i) = None" and dig: "digest_ok (outbox_payload_digest lib m)"
  shows "conforms db (db\<lparr> ob_events := update_row i (\<lambda>_. moved_row later Quarantined (Some c) r)
    (bt_insert (outbox_local_wins_successor_id i) s (ob_events db)) \<rparr>)" (is "conforms db ?db")
proof -
  have t: "tables_ok db" "lineage_ok db" using ok by (simp_all add: outbox_ok_def)
  note rok = tables_eventD [OF t(1) r(1)]
  let ?row = "moved_row later Quarantined (Some c) r" and ?si = "outbox_local_wins_successor_id i"
  have mv: "event_moves r ?row" using r(2) c by (rule resolution)
  have s': "oe_event_id s = ?si" "event_ok s" "succeeds s ?row" "oe_state s = Pending"
    using rok dig by (simp_all add: s event_ok_def succeeds_def born_row_def)
  have rd: "read_outbox_event ?db j = (if j = i then Some ?row else if j = ?si then Some s else read_outbox_event db j)" for j
    using r(1) by (simp add: bt_simps tables_wf [OF t(1)])
  have m: "\<exists>r'. read_outbox_event ?db j = Some r' \<and> event_moves\<^sup>=\<^sup>= q r'" if "read_outbox_event db j = Some q" for j q
    using that r(1) none mv unfolding rd by auto
  have "bt_wf (bt_insert ?si s (ob_events db))" by (simp add: bt_simps tables_wf [OF t(1)])
  then have "tables_ok ?db"
    using t(1) rok(1) s'(1,2) moves_ok [OF mv rok(2)] by (simp add: tables_ok_def rd del: event_read)
  moreover have "lineage_ok ?db"
  proof (rule lineage_step [OF t(2) m])
    fix j q assume "read_outbox_event db (outbox_local_wins_successor_id j) = None"
      and "read_outbox_event ?db (outbox_local_wins_successor_id j) = Some q"
    then have "j = i \<and> q = s" using r(1) unfolding rd by (auto split: if_splits)
    then show "\<exists>p. read_outbox_event ?db j = Some p \<and> succeeds q p" using s'(3) unfolding rd by simp
  qed
  ultimately show ?thesis
    unfolding conforms_def outbox_ok_def using m s'(4) r(1) by (auto simp: rd simp del: event_read split: if_splits)
qed

lemma conforms_resolved:
  assumes "outbox_ok db" "resolve_outbox_conflict lib clock i resolution db = Ok (rc, db')"
  shows "conforms db db'"
proof -
  have t: "tables_ok db" using assms(1) by (simp add: outbox_ok_def)
  from t assms(2) show ?thesis
  proof (cases rule: resolve_Ok)
    case (deferred r)
    then show ?thesis using conforms_refl [OF assms(1)] by simp
  next
    case (remote_won r cls)
    then show ?thesis using conforms_moved [OF assms(1)] event_moves.resolution by simp
  next
    case (local_won r m s)
    show ?thesis unfolding local_won(11) by (rule conforms_local_wins [OF assms(1) local_won(1,2,4,5,7-9)])
  qed
qed

lemma receipt_row_simps [simp]:
  "dr_event_id (receipt_row envelope n d) = oe_event_id (event_of envelope)"
  "dr_source_revision (receipt_row envelope n d) = oe_source_revision (event_of envelope)"
  "dr_source_payload_digest (receipt_row envelope n d) = oe_payload_digest (event_of envelope)"
  "dr_destination_object_revision (receipt_row envelope n d) = n" "dr_destination_payload_digest (receipt_row envelope n d) = d"
  "dr_application (receipt_row envelope n d) = ''applied''" "dr_object_id (receipt_row envelope n d) = oe_object_id (event_of envelope)"
  "dr_source_store (receipt_row envelope n d) = oe_source_store (event_of envelope)"
  "dr_source_partition (receipt_row envelope n d) = oe_source_partition (event_of envelope)"
  "dr_destination_store (receipt_row envelope n d) = di_store (en_destination envelope)"
  "dr_destination_partition (receipt_row envelope n d) = di_partition (en_destination envelope)"
  by (simp_all add: receipt_row_def Let_def event_of_def)

lemma envelope_valid:
  assumes "validate_envelope lib envelope = Ok ()"
  shows "oe_state (event_of envelope) = InFlight" "validate_identity (di_store (en_destination envelope)) = Ok ()"
    "validate_identity (di_partition (en_destination envelope)) = Ok ()" "\<not> suffix OUTBOX_RESERVED_SUCCESSOR_SUFFIX (oe_event_id (event_of envelope))"
    "object_matches lib (event_of envelope) (en_payload envelope)"
    "\<not> blank (oe_source_store (event_of envelope))" "\<not> blank (oe_source_partition (event_of envelope))"
  using assms
  by (auto simp: validate_envelope_def and_then_Inr_iff Let_def require_def event_of_def [symmetric] object_matches_def
      validate_destination_event_binding_def refuse_blank_def split: if_splits)

lemma conforms_destination:
  assumes "outbox_ok db" "apply_outbox_destination lib ops envelope db = Ok (res, db')"
  shows "conforms db db'"
  using assms(2)
proof (cases rule: apply_Ok)
  case (conflict c)
  then show ?thesis using conforms_refl [OF assms(1)] by simp
next
  case (duplicate r)
  then show ?thesis using assms(1) by (auto simp: conforms_def outbox_ok_def tables_frame lineage_frame stamp_Ok)
next
  case (applied ms m)
  let ?e = "event_of envelope"
  let ?r = "receipt_row envelope (oe_source_revision ?e) (oe_payload_digest ?e)"
  have t: "tables_ok db" using assms(1) by (simp add: outbox_ok_def)
  have st: "ob_partition db = None \<or> ob_partition db = Some (di_partition (en_destination envelope))"
    using assms(2) by (auto simp: apply_outbox_destination_def and_then_Inr_iff stamp_Ok)
  have "receipt_ok ?r" using applied(8,9) envelope_valid(2,3) [OF applied(7)] by (simp add: receipt_ok_def)
  then have "tables_ok (db\<lparr> ob_receipts := bt_insert (oe_event_id ?e) ?r (ob_receipts db) \<rparr>)" by (intro tables_receipt t) simp_all
  then have "outbox_ok db'"
    using assms(1) unfolding applied(6) outbox_ok_def by (simp add: tables_ok_def lineage_ok_def)
  moreover have "read_destination_receipt db' i = Some r" if "read_destination_receipt db i = Some r" for i r
    using that applied(2) tables_wf(2) [OF t] unfolding applied(6) by (auto simp: bt_simps)
  moreover have "read_outbox_event db' i = read_outbox_event db i" for i unfolding applied(6) by simp
  moreover have "ob_role db' = ob_role db" "ob_partition db \<noteq> None \<longrightarrow> ob_partition db' = ob_partition db"
    using st unfolding applied(6) by auto
  ultimately show ?thesis unfolding conforms_def by auto
qed

lemma outbox_step_conforms:
  assumes "outbox_ok db" "outbox_step lib db db'"
  shows "conforms db db'"
  using assms(2)
proof cases
  case (memories ms)
  then show ?thesis using conforms_frame [OF assms(1)] by simp
next
  case (commit ops st now entry event rc)
  from commit show ?thesis
    by (cases rule: commit_Ok) (erule conforms_enqueued [OF assms(1)])
next
  case (enqueue now object event ms row)
  then show ?thesis by (rule conforms_enqueued [OF assms(1)])
next
  case (transition now i st c row)
  from this [unfolded transition_outbox_event_def] show ?thesis
    by (cases rule: transition_impl_Ok) (auto intro!: conforms_moved [OF assms(1)] event_moves.transition)
next
  case (claim t clock request answer)
  have "tables_ok db" using assms(1) by (simp add: outbox_ok_def)
  then show ?thesis
  proof (cases rule: claim_events_cases [where lib = lib and now = t and request = request and clock = clock])
    case (refused e)
    then show ?thesis using claim conforms_refl [OF assms(1)] by simp
  next
    case (claimed s batch)
    then show ?thesis using claim by (simp add: conforms_claimed [OF assms(1) HOL.refl])
  qed
next
  case (outcome now i oc evidence orc)
  from this(1) show ?thesis
  proof (cases rule: outcome_Ok)
    case (recorded r)
    have "event_moves r (or_event orc)" unfolding recorded(4) using recorded(2,3) by (intro event_moves.transition) (cases oc; simp)+
    then show ?thesis unfolding recorded(8) by (rule conforms_moved [OF assms(1) recorded(1)])
  next
    case (replayed r)
    then show ?thesis using conforms_refl [OF assms(1)] by simp
  qed
next
  case (resolve clock i resolution rrc)
  then show ?thesis by (rule conforms_resolved [OF assms(1)])
next
  case (destination ops envelope res)
  then show ?thesis by (rule conforms_destination [OF assms(1)])
qed

lemma conformsD:
  assumes "conforms db db'"
  shows "outbox_ok db'" "read_outbox_event db i = Some r \<Longrightarrow> \<exists>r'. read_outbox_event db' i = Some r' \<and> event_moves\<^sup>=\<^sup>= r r'"
    "read_destination_receipt db i = Some d \<Longrightarrow> read_destination_receipt db' i = Some d"
    "ob_role db' = ob_role db" "ob_partition db = Some p \<Longrightarrow> ob_partition db' = Some p"
  using assms by (simp_all add: conforms_def)

interpretation outbox: row_machine "outbox_step lib" outbox_ok read_outbox_event event_moves for lib
proof unfold_locales
  fix db db' i r
  assume ok: "outbox_ok db" and st: "outbox_step lib db db'"
  note c = outbox_step_conforms [OF ok st]
  show "outbox_ok db'" using c by (rule conformsD)
  show "\<exists>r'. read_outbox_event db' i = Some r' \<and> event_moves\<^sup>*\<^sup>* r r'" if "read_outbox_event db i = Some r"
    using conformsD(2) [OF c that] by (metis r_into_rtranclp rtranclp.rtrancl_refl sup2E)
qed

text \<open>The receipts of a destination are a machine without edges.\<close>

interpretation receipts: row_machine "outbox_step lib" outbox_ok read_destination_receipt "\<lambda>_ _. False" for lib
proof unfold_locales
  fix db db' i r
  assume ok: "outbox_ok db" and st: "outbox_step lib db db'"
  note c = outbox_step_conforms [OF ok st]
  show "outbox_ok db'" using c by (rule conformsD)
  show "\<exists>r'. read_destination_receipt db' i = Some r' \<and> (\<lambda>_ _. False)\<^sup>*\<^sup>* r r'" if "read_destination_receipt db i = Some r"
    using conformsD(3) [OF c that] by blast
qed

end
