(* ===== verification/Outbox_Contract.thy ===== *)
theory Outbox_Contract
  imports Outbox_Laws
begin

text \<open>
  What the outbox promises the two sides of a reconciliation, in every database its calls and
  any other writer of the \<open>memories\<close> table can reach: an event binds the memory it commits
  with, a drain hands out what it says, an outcome stands, a conflict ends once, a reserved
  class is the mark of a resolution, health counts the rows, and a destination applies an
  event at most once.
\<close>

definition new_outbox :: "string option \<Rightarrow> memories \<Rightarrow> outbox_db" where
  "new_outbox role ms = \<lparr> ob_memories = ms, ob_events = [], ob_receipts = [], ob_role = role, ob_partition = None \<rparr>"

definition outbox_reached :: "'a outbox_lib_scheme \<Rightarrow> outbox_db \<Rightarrow> bool" where
  "outbox_reached lib db \<longleftrightarrow> (\<exists>role ms. (outbox_step lib)\<^sup>*\<^sup>* (new_outbox role ms) db)"

lemma new_outbox_ok: "outbox_ok (new_outbox role ms)"
  by (simp add: new_outbox_def outbox_ok_def tables_ok_def lineage_ok_def read_outbox_event_def read_destination_receipt_def del: fold_reads)

lemma reached_ok: "outbox_reached lib db \<Longrightarrow> outbox_ok db"
  unfolding outbox_reached_def using outbox.run_good new_outbox_ok by blast

lemma reached_tables: "outbox_reached lib db \<Longrightarrow> tables_ok db"
  using reached_ok by (auto simp: outbox_ok_def)

lemma reached_new [intro]: "outbox_reached lib (new_outbox role ms)"
  unfolding outbox_reached_def by blast

lemma reached_step: "outbox_reached lib db \<Longrightarrow> outbox_step lib db db' \<Longrightarrow> outbox_reached lib db'"
  unfolding outbox_reached_def by (meson rtranclp.rtrancl_into_rtrancl)

section \<open>Commits\<close>

text \<open>A commit that answers left the memory and its event together: the event is pending, under an id no event had,
  at the digest and the revision of the memory as it is stored now, whatever the write made of the entry; no other event
  changed.\<close>

lemma commit_binds_event:
  assumes "outbox_reached lib db" "commit_with_outbox_event lib ops st now entry event db = Ok (rc, db')"
  shows "\<exists>m. map_of (ob_memories db') (me_id entry) = Some m \<and> oc_object_revision rc = me_revision m
    \<and> read_outbox_event db (om_event_id event) = None \<and> read_outbox_event db' (om_event_id event) = Some (oc_event rc)
    \<and> oe_state (oc_event rc) = Pending \<and> oe_object_id (oc_event rc) = me_id entry
    \<and> oe_payload_digest (oc_event rc) = outbox_payload_digest lib m \<and> oe_source_revision (oc_event rc) = me_revision m
    \<and> (\<forall>i. i \<noteq> om_event_id event \<longrightarrow> read_outbox_event db' i = read_outbox_event db i)"
  using assms(2)
proof (cases rule: commit_Ok)
  case (1 ms m)
  then show ?thesis using tables_wf(1) [OF reached_tables [OF assms(1)]] by (simp add: bt_simps)
qed

section \<open>Drains\<close>

lemma claimed_rows_map: "map (oe_event_id \<circ> co_event) (claimed_rows clock k rs) = map oe_event_id rs"
  by (induction rs arbitrary: k) simp_all

lemma length_claimed_rows [simp]: "length (claimed_rows clock k rs) = length rs"
  by (induction rs arbitrary: k) simp_all

lemma claimed_rows_nth: "n < length rs \<Longrightarrow> claimed_rows clock k rs ! n =
    \<lparr> co_event = leased (clock (k + n)) (rs ! n), co_previous_state = oe_state (rs ! n),
      co_previous_state_changed_at = oe_state_changed_at (rs ! n) \<rparr>"
proof (induction rs arbitrary: k n)
  case (Cons r rs)
  then show ?case by (cases n) simp_all
qed simp

lemma drain_answer:
  assumes t: "tables_ok db" and a: "claim_outbox_events lib now clock request db = (Ok batch, db')"
  obtains s rows where "cutoff_of lib now request = Ok s" "rows = drained lib (cr_limit request) (map_option (instant_of lib) s) db"
    "length batch = length rows"
    "\<And>n. n < length rows \<Longrightarrow> ce_event (batch ! n) = leased (clock n) (rows ! n)
        \<and> read_outbox_event db' (oe_event_id (rows ! n)) = Some (ce_event (batch ! n))
        \<and> (ce_claim (batch ! n) = First \<longleftrightarrow> oe_state (rows ! n) = Pending)"
    "\<And>i. i \<notin> oe_event_id ` set rows \<Longrightarrow> read_outbox_event db' i = read_outbox_event db i"
  using t
proof (cases rule: claim_events_cases [where lib = lib and now = now and request = request and clock = clock])
  case (refused e)
  then show ?thesis using a by simp
next
  case (claimed s rows)
  have dis: "distinct (map oe_event_id rows)" using drained_distinct [OF t] claimed(2) by simp
  have in_db: "\<forall>r\<in>set rows. map_of (ob_events db) (oe_event_id r) \<noteq> None \<and> oe_state r \<in> {Pending, InFlight}"
    using drained_rows claimed(2) event_rows_iff [OF t] by (fastforce simp: may_drain_def)
  have b: "batch = map (claim_receipt s) (claimed_rows clock 0 rows)" "db' = db\<lparr> ob_events := leased_events clock 0 rows (ob_events db) \<rparr>"
    using a claimed(3) by simp_all
  show ?thesis
  proof (rule that [OF claimed(1,2)])
    fix n assume n: "n < length rows"
    then have "oe_state (rows ! n) = Pending \<or> oe_state (rows ! n) = InFlight" using in_db nth_mem by blast
    then show "ce_event (batch ! n) = leased (clock n) (rows ! n)
        \<and> read_outbox_event db' (oe_event_id (rows ! n)) = Some (ce_event (batch ! n))
        \<and> (ce_claim (batch ! n) = First \<longleftrightarrow> oe_state (rows ! n) = Pending)"
      using leased_events_nth [OF dis _ n, of "ob_events db" clock 0] in_db n
      by (auto simp: b claimed_rows_nth claim_receipt_def)
  qed (simp_all add: b leased_events_other)
qed

text \<open>C27: A drain either refuses and writes nothing or answers the first of the rows it may take, in the order of
  their creation instants and ids, each as the table now holds it, leased at its own reading of the clock, marked as a
  first delivery exactly when it was pending; no other row changed. When every stamp and the cutoff read as instants it
  does answer: nothing it committed is withheld.\<close>

theorem drain_law:
  assumes "outbox_reached lib db"
  shows "case claim_outbox_events lib now clock request db of
      (Err _, db') \<Rightarrow> db' = db \<and> \<not> (stamps_ok lib db \<and> (\<exists>s. cutoff_of lib now request = Ok s \<and> (\<forall>v. s = Some v \<longrightarrow> stamp_ok lib v)))
    | (Ok batch, db') \<Rightarrow> (\<exists>s. cutoff_of lib now request = Ok s
        \<and> (let rows = take (cr_limit request) (sort_key (queue_key lib) (filter (may_drain lib (map_option (instant_of lib) s)) (event_rows db)))
           in length batch = length rows
              \<and> (\<forall>n<length rows. ce_event (batch ! n) = leased (clock n) (rows ! n)
                  \<and> read_outbox_event db' (oe_event_id (rows ! n)) = Some (ce_event (batch ! n))
                  \<and> (ce_claim (batch ! n) = First \<longleftrightarrow> oe_state (rows ! n) = Pending))
              \<and> (\<forall>i. i \<notin> oe_event_id ` set rows \<longrightarrow> read_outbox_event db' i = read_outbox_event db i)))"
proof -
  have t: "tables_ok db" using assms by (rule reached_tables)
  from t show ?thesis
  proof (cases rule: claim_events_cases [where lib = lib and now = now and request = request and clock = clock])
    case (refused e)
    have False if c: "stamps_ok lib db" "cutoff_of lib now request = Ok s" "\<forall>v. s = Some v \<longrightarrow> stamp_ok lib v" for s
    proof -
      obtain cs db' where cs: "claim_outbox_events_within_tx lib clock (cr_limit request) s db = Ok (cs, db')"
        using claim_tx_total [OF t c(1,3)] by blast
      have "cs = claimed_rows clock 0 (drained lib (cr_limit request) (map_option (instant_of lib) s) db)"
        using claim_tx_Ok [OF t cs] by simp
      moreover have "\<forall>r\<in>set (drained lib (cr_limit request) (map_option (instant_of lib) s) db). may_drain lib (map_option (instant_of lib) s) r"
        by (auto dest: drained_rows)
      ultimately have "collect_claimed s cs = Ok (map (claim_receipt s) cs)" by (simp add: collect_claimed_total)
      then show False using refused cs c(2) unfolding claim_outbox_events_def cutoff_of_def by simp
    qed
    then show ?thesis using refused by auto
  next
    case (claimed s rows)
    from t claimed(3) show ?thesis
    proof (rule drain_answer)
      fix s' rows'
      let ?map = "map (claim_receipt s) (claimed_rows clock 0 rows)" and ?db = "db\<lparr> ob_events := leased_events clock 0 rows (ob_events db) \<rparr>"
      assume a: "cutoff_of lib now request = Ok s'" "rows' = drained lib (cr_limit request) (map_option (instant_of lib) s') db"
        "length ?map = length rows'"
        "\<And>n. n < length rows' \<Longrightarrow> ce_event (?map ! n) = leased (clock n) (rows' ! n)
          \<and> read_outbox_event ?db (oe_event_id (rows' ! n)) = Some (ce_event (?map ! n))
          \<and> (ce_claim (?map ! n) = First \<longleftrightarrow> oe_state (rows' ! n) = Pending)"
        "\<And>i. i \<notin> oe_event_id ` set rows' \<Longrightarrow> read_outbox_event ?db i = read_outbox_event db i"
      show ?thesis
        unfolding claimed(3) split_conv sum.case Let_def drained_def [symmetric]
        by (rule exI [of _ s'], unfold a(2) [symmetric]) (intro conjI allI impI a(1,3) a(4) [THEN conjunct1]
            a(4) [THEN conjunct2, THEN conjunct1] a(4) [THEN conjunct2, THEN conjunct2] a(5); assumption)
    qed
  qed
qed

text \<open>Two drains in a row never hand out one event twice, unless the second may take over leases as young as those
  the first one stamped.\<close>

lemma drains_disjoint:
  assumes "outbox_reached lib db" "claim_outbox_events lib t1 clock1 request1 db = (Ok batch1, db1)"
    "claim_outbox_events lib t2 clock2 request2 db1 = (Ok batch2, db2)"
    "\<And>v n. cutoff_of lib t2 request2 = Ok (Some v) \<Longrightarrow> n < length batch1 \<Longrightarrow> instant_of lib v < instant_of lib (clock1 n)"
  shows "(oe_event_id \<circ> ce_event) ` set batch1 \<inter> (oe_event_id \<circ> ce_event) ` set batch2 = {}"
proof -
  have t: "tables_ok db" and t1: "tables_ok db1"
    using assms(1) reached_step [OF assms(1) outbox_step.claim [OF assms(2)]] by (simp_all add: reached_tables)
  from t assms(2) show ?thesis
  proof (rule drain_answer)
    fix s rows
    assume l1: "length batch1 = length rows" and r1: "\<And>n. n < length rows \<Longrightarrow> ce_event (batch1 ! n) = leased (clock1 n) (rows ! n)
        \<and> read_outbox_event db1 (oe_event_id (rows ! n)) = Some (ce_event (batch1 ! n)) \<and> (ce_claim (batch1 ! n) = First \<longleftrightarrow> oe_state (rows ! n) = Pending)"
    from t1 assms(3) show ?thesis
    proof (rule drain_answer)
      fix s2 rows2
      assume s2: "cutoff_of lib t2 request2 = Ok s2" "rows2 = drained lib (cr_limit request2) (map_option (instant_of lib) s2) db1"
        "length batch2 = length rows2" and r2: "\<And>n. n < length rows2 \<Longrightarrow> ce_event (batch2 ! n) = leased (clock2 n) (rows2 ! n)
        \<and> read_outbox_event db2 (oe_event_id (rows2 ! n)) = Some (ce_event (batch2 ! n)) \<and> (ce_claim (batch2 ! n) = First \<longleftrightarrow> oe_state (rows2 ! n) = Pending)"
      have False if n: "n < length batch1" and k: "k < length batch2" and e: "oe_event_id (ce_event (batch1 ! n)) = oe_event_id (ce_event (batch2 ! k))" for n k
      proof -
        have "rows2 ! k \<in> set rows2" using k s2(3) by simp
        then have "read_outbox_event db1 (oe_event_id (rows2 ! k)) = Some (rows2 ! k)" and m: "may_drain lib (map_option (instant_of lib) s2) (rows2 ! k)"
          using drained_rows event_rows_iff [OF t1] unfolding s2(2) by blast+
        moreover have "oe_event_id (rows2 ! k) = oe_event_id (rows ! n)" using e r1 [of n] r2 [of k] n k l1 s2(3) by simp
        ultimately have "rows2 ! k = leased (clock1 n) (rows ! n)" using r1 [of n] n l1 by simp
        then show False using m assms(4) [of _ n] s2(1) n by (cases s2) (fastforce simp: may_drain_def)+
      qed
      then show ?thesis by (fastforce simp: in_set_conv_nth)
    qed
  qed
qed

section \<open>Outcomes\<close>

lemma terminal_stays:
  assumes "event_moves r r'" "oe_state r \<in> {Acknowledged, OutboxRejected, Conflicted}"
  shows "oe_state r' = Quarantined"
  using assms by (auto elim!: event_moves.cases simp: can_move_iff)

lemma run_terminal:
  assumes "(outbox_step lib)\<^sup>*\<^sup>* db db'" "outbox_ok db" "read_outbox_event db i = Some r"
    "oe_state r \<in> {Acknowledged, OutboxRejected, Conflicted, Quarantined}"
  shows "\<exists>r'. read_outbox_event db' i = Some r' \<and> (r' = r \<or> oe_state r' = Quarantined)"
proof (rule outbox.run_keeps [OF assms(1-3)])
  fix q q' assume "q = r \<or> oe_state q = Quarantined" "event_moves q q'"
  then show "q' = r \<or> oe_state q' = Quarantined"
    using assms(4) terminal_stays [of q q'] moves_quarantined [of q q'] by auto
qed simp

lemma outcome_row:
  assumes "apply_outbox_outcome now i outcome evidence db = Ok (rc, db')"
  shows "read_outbox_event db' i = Some (or_event rc) \<and> oe_state (or_event rc) = target_state outcome
    \<and> oe_last_error_class (or_event rc) = outcome_error_class outcome \<and> ob_memories db' = ob_memories db"
  using assms by (cases rule: outcome_Ok) simp_all

lemma target_terminal: "target_state oc \<in> {Acknowledged, OutboxRejected, Conflicted}"
  by (cases oc) simp_all

text \<open>C25: A recorded outcome stands: whatever is called after it, no report of another outcome or class for the event is
  taken, and a repeated report writes nothing and answers that it was applied before, on the row as it was recorded.\<close>

theorem outcome_stands:
  assumes "outbox_reached lib db" "apply_outbox_outcome now i outcome evidence db = Ok (rc, db1)"
    "(outbox_step lib)\<^sup>*\<^sup>* db1 db2" "apply_outbox_outcome later i report evidence' db2 = Ok (rc2, db3)"
  shows "report = outcome \<and> db3 = db2 \<and> or_event rc2 = or_event rc \<and> or_application rc2 = AlreadyApplied"
proof -
  have ok: "outbox_ok db1" using reached_ok [OF reached_step [OF assms(1) outbox_step.outcome [OF assms(2)]]] .
  note row = outcome_row [OF assms(2)]
  obtain r where r: "read_outbox_event db2 i = Some r" "r = or_event rc \<or> oe_state r = Quarantined"
    using run_terminal [OF assms(3) ok, of i "or_event rc"] row target_terminal [of outcome] by auto
  from assms(4) show ?thesis
  proof (cases rule: outcome_Ok)
    case (recorded q)
    then show ?thesis using r row target_terminal [of outcome] by auto
  next
    case (replayed q)
    then have "q = or_event rc" using r target_terminal [of report] by auto
    moreover from this have "report = outcome" using replayed(2,3) row by (cases outcome; cases report) simp_all
    ultimately show ?thesis using replayed by simp
  qed
qed

section \<open>Conflicts\<close>

text \<open>A conflict ends once: after a decision for either side the event is withdrawn for good, so no later decision is
  taken; no decision writes a memory, and one for the local side leaves exactly one successor, pending, for the same object at
  its present revision and digest.\<close>

lemma conflict_ends_once:
  assumes "outbox_reached lib db" "resolve_outbox_conflict lib clock i resolution db = Ok (rc, db1)" "resolution \<noteq> Deferred"
    "(outbox_step lib)\<^sup>*\<^sup>* db1 db2"
  shows "ob_memories db1 = ob_memories db \<and> (\<exists>e. resolve_outbox_conflict lib clock' i again db2 = Err e)
    \<and> (\<exists>r'. read_outbox_event db2 i = Some r' \<and> oe_state r' = Quarantined)
    \<and> (resolution = LocalWins \<longrightarrow> (\<exists>r m s. read_outbox_event db i = Some r \<and> map_of (ob_memories db) (oe_object_id r) = Some m
        \<and> read_outbox_event db (outbox_local_wins_successor_id i) = None
        \<and> read_outbox_event db1 (outbox_local_wins_successor_id i) = Some s \<and> oe_state s = Pending \<and> oe_object_id s = oe_object_id r
        \<and> oe_payload_digest s = outbox_payload_digest lib m \<and> oe_source_revision s = me_revision m))"
proof -
  have t: "tables_ok db" using assms(1) by (rule reached_tables)
  have ok: "outbox_ok db1" using reached_ok [OF reached_step [OF assms(1) outbox_step.resolve [OF assms(2)]]] .
  have a: "ob_memories db1 = ob_memories db \<and> (\<exists>r'. read_outbox_event db1 i = Some r' \<and> oe_state r' = Quarantined)"
    using t assms(2) by (cases rule: resolve_Ok) (use assms(3) in \<open>simp_all add: bt_simps tables_wf [OF t]\<close>)
  have l: "\<exists>r m s. read_outbox_event db i = Some r \<and> map_of (ob_memories db) (oe_object_id r) = Some m
        \<and> read_outbox_event db (outbox_local_wins_successor_id i) = None
        \<and> read_outbox_event db1 (outbox_local_wins_successor_id i) = Some s \<and> oe_state s = Pending \<and> oe_object_id s = oe_object_id r
        \<and> oe_payload_digest s = outbox_payload_digest lib m \<and> oe_source_revision s = me_revision m" if "resolution = LocalWins"
    using t assms(2) by (cases rule: resolve_Ok) (use that in \<open>simp_all add: bt_simps tables_wf [OF t]\<close>)
  obtain r1 where "read_outbox_event db1 i = Some r1" "oe_state r1 = Quarantined" using a by blast
  then obtain r2 where r2: "read_outbox_event db2 i = Some r2" "oe_state r2 = Quarantined"
    using run_terminal [OF assms(4) ok, of i r1] by auto
  have "tables_ok db2" using outbox.run_good [OF assms(4) ok] by (simp add: outbox_ok_def)
  then have "resolve_outbox_conflict lib clock' i again db2 \<noteq> Ok x" for x
    using resolve_Ok [of db2 lib clock' i again "fst x" "snd x"] r2 by fastforce
  then obtain e where "resolve_outbox_conflict lib clock' i again db2 = Err e" by (cases "resolve_outbox_conflict lib clock' i again db2") auto
  then show ?thesis using a l r2 by simp
qed

text \<open>Only the resolution of a conflict puts a reserved class on an event: a call after which an event carries one,
  and before which it did not, decided the conflict of that event.\<close>

lemma reserved_class_marks_resolution:
  assumes "outbox_reached lib db" "outbox_step lib db db'" "read_outbox_event db' i = Some r'" "is_resolved_class (oe_last_error_class r')"
    "\<And>r. read_outbox_event db i = Some r \<Longrightarrow> \<not> is_resolved_class (oe_last_error_class r)"
  shows "\<exists>clock resolution rc r. resolve_outbox_conflict lib clock i resolution db = Ok (rc, db') \<and> resolution \<noteq> Deferred
    \<and> read_outbox_event db i = Some r \<and> oe_state r = Conflicted"
proof -
  have ok: "outbox_ok db" using assms(1) by (rule reached_ok)
  then have t: "tables_ok db" by (simp add: outbox_ok_def)
  note c = outbox_step_conforms [OF ok assms(2)]
  obtain r where r: "read_outbox_event db i = Some r"
  proof (cases "read_outbox_event db i")
    case None
    then have "oe_state r' = Pending" using c assms(3) by (auto simp: conforms_def)
    moreover have "event_ok r'" using conformsD(1) [OF c] assms(3) by (auto simp: outbox_ok_def tables_eventD)
    ultimately show ?thesis using assms(4) by (auto simp: event_ok_def resolved_class_iff)
  qed
  have nr: "\<not> is_resolved_class (oe_last_error_class r)" using assms(5) r by blast
  from assms(2) show ?thesis
  proof cases
    case (resolve clock j resolution rc)
    from t resolve show ?thesis
    proof (cases rule: resolve_Ok)
      case (deferred q)
      then show ?thesis using assms(3,4) r nr by simp
    next
      case (remote_won q cls)
      then show ?thesis using assms(3,4) r nr resolve by (cases "j = i") auto
    next
      case (local_won q m s)
      have "is_resolved_class (oe_last_error_class r') \<Longrightarrow> j = i"
        using assms(3) r nr local_won(7,8) unfolding local_won(11) by (auto simp: bt_simps tables_wf [OF t] split: if_splits)
      then show ?thesis using assms(4) r resolve local_won by auto
    qed
  next
    case (claim tt clock request answer)
    from t show ?thesis
    proof (cases rule: claim_events_cases [where lib = lib and now = tt and request = request and clock = clock])
      case (refused e)
      then show ?thesis using claim assms(3,4) r nr by simp
    next
      case (claimed s batch)
      have "answer = Ok (map (claim_receipt s) (claimed_rows clock 0 batch))" using claim claimed by simp
      from t claim [unfolded this] show ?thesis
      proof (rule drain_answer)
        fix s' rows
        assume d: "rows = drained lib (cr_limit request) (map_option (instant_of lib) s') db"
          and n: "\<And>n. n < length rows \<Longrightarrow> ce_event (map (claim_receipt s) (claimed_rows clock 0 batch) ! n) = leased (clock n) (rows ! n)
            \<and> read_outbox_event db' (oe_event_id (rows ! n)) = Some (ce_event (map (claim_receipt s) (claimed_rows clock 0 batch) ! n))
            \<and> (ce_claim (map (claim_receipt s) (claimed_rows clock 0 batch) ! n) = First \<longleftrightarrow> oe_state (rows ! n) = Pending)"
          and o: "\<And>j. j \<notin> oe_event_id ` set rows \<Longrightarrow> read_outbox_event db' j = read_outbox_event db j"
        show ?thesis
        proof (cases "i \<in> oe_event_id ` set rows")
          case True
          then obtain k where k: "k < length rows" "oe_event_id (rows ! k) = i" by (auto simp: in_set_conv_nth)
          have "rows ! k \<in> set (event_rows db)" using nth_mem [OF k(1)] unfolding d by (rule drained_rows [THEN conjunct1])
          then have "rows ! k = r" using r k(2) event_rows_iff [OF t, of "rows ! k"] by simp
          then show ?thesis using n [OF k(1)] k(2) assms(3,4) nr by auto
        qed (use o assms(3,4) r nr in auto)
      qed
    qed
  next
    case (outcome now j oc evidence orc)
    have "\<not> is_resolved_class (outcome_error_class oc)"
      using outcome_valid [OF outcome] by (auto simp: validate_outcome_def resolved_class_iff and_then_Inr_iff split: option.splits)
    moreover have "i \<noteq> j \<Longrightarrow> read_outbox_event db' i = read_outbox_event db i"
      by (cases rule: outcome_Ok [OF outcome]) simp_all
    ultimately show ?thesis using outcome_row [OF outcome] assms(3,4) r nr by (cases "i = j") auto
  next
    case (transition now j st cl row)
    show ?thesis
      by (rule transition_impl_Ok [OF transition [unfolded transition_outbox_event_def]])
        (use assms(3,4) r nr in \<open>auto simp: stored_error_class_Ok resolved_class_iff split: if_splits\<close>)
  next
    case (commit ops st now entry event rc)
    show ?thesis by (rule commit_Ok [OF commit]) (use assms(3,4) r nr in \<open>auto simp: bt_simps tables_wf [OF t] split: if_splits\<close>)
  next
    case (enqueue now object event ms row)
    show ?thesis by (rule enqueue_event_Ok [OF enqueue]) (use assms(3,4) r nr in \<open>auto simp: bt_simps tables_wf [OF t] split: if_splits\<close>)
  next
    case (destination ops envelope res)
    show ?thesis by (rule apply_Ok [OF destination]) (use assms(3,4) r nr in auto)
  qed (use assms(3,4) r nr in auto)
qed

section \<open>Destinations\<close>

text \<open>A destination that answers Applied stores, under the event's object, a memory of the event's revision and
  digest, keeps an object it already had as it was, and files a receipt of exactly this event; any other answer but a
  refusal leaves memories and receipts as they were.\<close>

lemma destination_apply_faithful:
  assumes "outbox_reached lib db" "apply_outbox_destination lib ops envelope db = Ok (res, db')"
  shows "case res of
      AppliedResult rc \<Rightarrow> ap_event_id rc = oe_event_id (event_of envelope) \<and> ap_application rc = DestinationApplied
        \<and> (\<exists>m. map_of (ob_memories db') (oe_object_id (event_of envelope)) = Some m \<and> object_matches lib (event_of envelope) m)
        \<and> (map_of (ob_memories db) (oe_object_id (event_of envelope)) = None \<or> ob_memories db' = ob_memories db)
        \<and> (\<exists>r. read_destination_receipt db' (oe_event_id (event_of envelope)) = Some r \<and> receipt_matches_envelope r envelope
              \<and> rc = receipt_from_row r DestinationApplied)
        \<and> (\<forall>i. i \<noteq> oe_event_id (event_of envelope) \<longrightarrow> read_destination_receipt db' i = read_destination_receipt db i)
    | DuplicateResult rc \<Rightarrow> (\<exists>r. read_destination_receipt db (oe_event_id (event_of envelope)) = Some r \<and> receipt_matches_envelope r envelope
              \<and> rc = receipt_from_row r DestinationDuplicate) \<and> ob_memories db' = ob_memories db \<and> ob_receipts db' = ob_receipts db
    | ConflictResult _ \<Rightarrow> db' = db"
  using assms(2)
proof (cases rule: apply_Ok)
  case (applied ms m)
  then show ?thesis using tables_wf(2) [OF reached_tables [OF assms(1)]]
    by (simp add: bt_simps receipt_from_row_def) (simp add: receipt_matches_envelope_def event_of_def [symmetric] Let_def)
qed auto

lemma applied_then:
  assumes "outbox_reached lib db" "apply_outbox_destination lib ops envelope db = Ok (AppliedResult rc, db1)"
    "(outbox_step lib)\<^sup>*\<^sup>* db1 db2"
  obtains r where "read_destination_receipt db2 (oe_event_id (event_of envelope)) = Some r"
    "r = receipt_row envelope (oe_source_revision (event_of envelope)) (oe_payload_digest (event_of envelope))"
    "rc = receipt_from_row r DestinationApplied" "outbox_ok db2" "ob_role db2 = Some (di_store (en_destination envelope))"
    "ob_partition db2 = Some (di_partition (en_destination envelope))" "validate_envelope lib envelope = Ok ()"
    "di_store (en_destination envelope) \<noteq> UNKNOWN_DB_LABEL"
proof -
  have ok1: "outbox_ok db1" using reached_ok [OF reached_step [OF assms(1) outbox_step.destination [OF assms(2)]]] .
  have store: "di_store (en_destination envelope) \<noteq> UNKNOWN_DB_LABEL"
    using assms(2) by (auto simp: apply_outbox_destination_def and_then_Inr_iff stamp_Ok)
  from assms(2) show thesis
  proof (cases rule: apply_Ok)
    case (applied ms m)
    let ?r = "receipt_row envelope (oe_source_revision (event_of envelope)) (oe_payload_digest (event_of envelope))"
    have one: "read_destination_receipt db1 (oe_event_id (event_of envelope)) = Some ?r" "rc = receipt_from_row ?r DestinationApplied"
      "ob_role db1 = Some (di_store (en_destination envelope))" "ob_partition db1 = Some (di_partition (en_destination envelope))"
      using applied tables_wf(2) [OF reached_tables [OF assms(1)]] by (simp_all add: bt_simps)
    have same: "ob_role db2 = ob_role db1 \<and> ob_partition db2 = ob_partition db1 \<and> outbox_ok db2"
      using assms(3)
    proof (induction rule: rtranclp_induct)
      case (step y z)
      then show ?case using outbox_step_conforms [of y lib z] one(4) by (auto simp: conforms_def)
    qed (use ok1 in simp)
    obtain r2 where "read_destination_receipt db2 (oe_event_id (event_of envelope)) = Some r2" "r2 = ?r"
      using receipts.run_keeps [OF assms(3) ok1 one(1), of "\<lambda>q. q = ?r"] by auto
    then show thesis using that [of ?r] one same applied(7) store by simp
  qed auto
qed

text \<open>C26: A destination applies an event at most once: after an answer Applied, whatever is called, an envelope of the same
  event is answered as a duplicate with the first receipt, or as a conflict, or refused, and writes nothing.\<close>

theorem destination_applies_once:
  assumes "outbox_reached lib db" "apply_outbox_destination lib ops envelope db = Ok (AppliedResult rc, db1)"
    "(outbox_step lib)\<^sup>*\<^sup>* db1 db2" "oe_event_id (event_of envelope') = oe_event_id (event_of envelope)"
    "apply_outbox_destination lib ops' envelope' db2 = Ok (res, db3)"
  shows "db3 = db2 \<and> (res = DuplicateResult (rc\<lparr> ap_application := DestinationDuplicate \<rparr>) \<or> (\<exists>c. res = ConflictResult c))"
  using assms(1-3)
proof (rule applied_then)
  fix r
  assume r: "read_destination_receipt db2 (oe_event_id (event_of envelope)) = Some r" "rc = receipt_from_row r DestinationApplied"
    "ob_partition db2 = Some (di_partition (en_destination envelope))"
    and row: "r = receipt_row envelope (oe_source_revision (event_of envelope)) (oe_payload_digest (event_of envelope))"
  from assms(5) show ?thesis
  proof (cases rule: apply_Ok)
    case (duplicate q)
    then have "q = r" "di_partition (en_destination envelope') = di_partition (en_destination envelope)"
      using r(1) assms(4) row by (auto simp: receipt_matches_envelope_def Let_def)
    moreover have "db2\<lparr> ob_partition := Some (di_partition (en_destination envelope)) \<rparr> = db2" using r(3) by (cases db2) simp
    ultimately show ?thesis using duplicate(1,4) r(2) by (simp add: receipt_from_row_def)
  qed (use r(1) assms(4) in auto)
qed

text \<open>A retry of an applied envelope is answered, and with the receipt of the first time, for as long as the object it
  stored is there unchanged, provided the source identity it carries has no control character.\<close>

lemma destination_apply_replays:
  assumes "outbox_reached lib db" "apply_outbox_destination lib ops envelope db = Ok (AppliedResult rc, db1)"
    "(outbox_step lib)\<^sup>*\<^sup>* db1 db2" "authorize_reserved_reference_write ops' = Ok ()"
    "map_of (ob_memories db2) (oe_object_id (event_of envelope)) = map_of (ob_memories db1) (oe_object_id (event_of envelope))"
    "\<not> has_control (bytes_of (oe_source_store (event_of envelope)))" "\<not> has_control (bytes_of (oe_source_partition (event_of envelope)))"
  shows "apply_outbox_destination lib ops' envelope db2 = Ok (DuplicateResult (rc\<lparr> ap_application := DestinationDuplicate \<rparr>), db2)"
  using assms(1-3)
proof (rule applied_then)
  fix r
  let ?e = "event_of envelope"
  assume r: "read_destination_receipt db2 (oe_event_id ?e) = Some r" "rc = receipt_from_row r DestinationApplied" "outbox_ok db2"
    and row: "r = receipt_row envelope (oe_source_revision ?e) (oe_payload_digest ?e)"
    and role: "ob_role db2 = Some (di_store (en_destination envelope))" "ob_partition db2 = Some (di_partition (en_destination envelope))"
      "validate_envelope lib envelope = Ok ()" "di_store (en_destination envelope) \<noteq> UNKNOWN_DB_LABEL"
  have db2: "db2\<lparr> ob_partition := Some (di_partition (en_destination envelope)) \<rparr> = db2" using role(2) by (cases db2) simp
  then have st: "stamp_destination (en_destination envelope) db2 = Ok db2" using role by (auto simp: stamp_Ok)
  have rok: "receipt_ok r" using tables_receiptD(2) r(1,3) by (auto simp: outbox_ok_def)
  have src: "validate_identity (oe_source_store ?e) = Ok ()" "validate_identity (oe_source_partition ?e) = Ok ()"
    using envelope_valid(6,7) [OF role(3)] assms(6,7) by (simp_all add: validate_identity_def)
  have "validate_stored_receipt r = Ok ()"
    unfolding validate_stored_receipt_def and_then_Inr_iff using rok src
    by (auto simp: row receipt_ok_def require_def digest_ok_def)
  moreover obtain m where m: "map_of (ob_memories db1) (oe_object_id ?e) = Some m" "object_matches lib ?e m"
    by (rule apply_Ok [OF assms(2)]) auto
  then have "require_object_readback lib db2 (dr_object_id r) (dr_destination_object_revision r) (dr_destination_payload_digest r) = Ok m"
    using assms(5) by (simp add: readback_Ok row object_matches_def)
  moreover have "receipt_matches_envelope r envelope" by (simp add: row receipt_matches_envelope_def Let_def event_of_def [symmetric])
  ultimately show ?thesis
    using r(1) unfolding apply_outbox_destination_def role(3) assms(4) st and_then_simps Let_def event_of_def [symmetric]
    by (simp add: r(2) receipt_from_row_def)
qed

text \<open>What a destination accepts it may refuse to recognise: an envelope whose source identity holds a control
  character is applied, but every retry of it is refused as a corrupt receipt.\<close>

lemma control_source_never_replays:
  assumes "outbox_reached lib db" "apply_outbox_destination lib ops envelope db = Ok (AppliedResult rc, db1)"
    "(outbox_step lib)\<^sup>*\<^sup>* db1 db2" "authorize_reserved_reference_write ops' = Ok ()"
    "has_control (bytes_of (oe_source_store (event_of envelope))) \<or> has_control (bytes_of (oe_source_partition (event_of envelope)))"
  shows "apply_outbox_destination lib ops' envelope db2 = Err OutboxInternal"
  using assms(1-3)
proof (rule applied_then)
  fix r
  let ?e = "event_of envelope"
  assume r: "read_destination_receipt db2 (oe_event_id ?e) = Some r"
    and row: "r = receipt_row envelope (oe_source_revision ?e) (oe_payload_digest ?e)"
    and role: "ob_role db2 = Some (di_store (en_destination envelope))" "ob_partition db2 = Some (di_partition (en_destination envelope))"
      "validate_envelope lib envelope = Ok ()" "di_store (en_destination envelope) \<noteq> UNKNOWN_DB_LABEL"
  have "db2\<lparr> ob_partition := Some (di_partition (en_destination envelope)) \<rparr> = db2" using role(2) by (cases db2) simp
  then have st: "stamp_destination (en_destination envelope) db2 = Ok db2" using role by (auto simp: stamp_Ok)
  have "validate_stored_receipt r \<noteq> Ok ()"
    using assms(5) by (auto simp: validate_stored_receipt_def and_then_Inr_iff row validate_identity_def split: if_splits)
  then obtain e where "validate_stored_receipt r = Err e" by (cases "validate_stored_receipt r") auto
  then show ?thesis
    using r unfolding apply_outbox_destination_def role(3) assms(4) st and_then_simps Let_def event_of_def [symmetric] by simp
qed

text \<open>C28: The successor that carries a local decision forward is under an id every destination refuses: no envelope of it
  is ever applied.\<close>

theorem local_successor_undeliverable:
  assumes "outbox_reached lib db" "resolve_outbox_conflict lib clock i LocalWins db = Ok (LocalWinsReceipt resolved successor, db')"
    "oe_event_id (event_of envelope) = oe_event_id successor"
  shows "apply_outbox_destination lib ops envelope destination_db = Err OutboxInvalidArg"
proof -
  have "suffix OUTBOX_RESERVED_SUCCESSOR_SUFFIX (oe_event_id (event_of envelope))"
    using reached_tables [OF assms(1)] assms(2)
    by (cases rule: resolve_Ok) (use assms(3) tables_eventD(1) [OF reached_tables [OF assms(1)]] in auto)
  then have "validate_destination_event_binding (event_of envelope) = Err OutboxInvalidArg"
    by (simp add: validate_destination_event_binding_def refuse_blank_def refuse_reserved_successor_suffix_def)
  then show ?thesis
    by (simp add: apply_outbox_destination_def validate_envelope_def Let_def event_of_def require_def)
qed

section \<open>From one store to another\<close>

lemma born_binding:
  assumes "enqueue_outbox_event lib now object event db = Ok (row, db')" "1 \<le> oe_source_revision row"
  shows "validate_destination_event_binding row = Ok ()"
proof -
  have "no_event_id e = om_event_id event \<and> no_object_id e = object \<and> no_object_class e = om_object_class event
      \<and> no_authority_class e = om_authority_class event \<and> no_source_store e = om_source_store event
      \<and> no_source_partition e = om_source_partition event"
    if "build_new_outbox_event lib db object event = Ok e" for e
    using that by (auto simp: build_new_outbox_event_def and_then_Inr_iff)
  then obtain e where "insert_outbox_event now e db = Ok (row, db')"
    using assms(1) by (auto simp: enqueue_outbox_event_def and_then_Inr_iff)
  then show ?thesis
    using assms(2)
    by (auto simp: insert_outbox_event_def insert_outbox_event_impl_def and_then_Inr_iff Let_def pending_row_def
        validate_destination_event_binding_def split: if_splits)
qed

lemma leased_binding [simp]: "validate_destination_event_binding (leased now r) = validate_destination_event_binding r"
  by (simp add: validate_destination_event_binding_def leased_def)

lemma claimed_row:
  assumes "tables_ok db" "claim_outbox_events lib t clock request db = (Ok batch, db')" "c \<in> set batch"
    "oe_event_id (ce_event c) = i" "read_outbox_event db i = Some r"
  shows "(\<exists>now. ce_event c = leased now r) \<and> read_outbox_event db' i = Some (ce_event c)"
  using assms(1,2)
proof (rule drain_answer)
  fix s rows
  assume d: "rows = drained lib (cr_limit request) (map_option (instant_of lib) s) db" "length batch = length rows"
    and n: "\<And>n. n < length rows \<Longrightarrow> ce_event (batch ! n) = leased (clock n) (rows ! n)
        \<and> read_outbox_event db' (oe_event_id (rows ! n)) = Some (ce_event (batch ! n)) \<and> (ce_claim (batch ! n) = First \<longleftrightarrow> oe_state (rows ! n) = Pending)"
  obtain k where k: "k < length rows" "batch ! k = c" using assms(3) d(2) by (auto simp: in_set_conv_nth)
  have "rows ! k \<in> set (event_rows db)" using nth_mem [OF k(1)] unfolding d(1) by (rule drained_rows [THEN conjunct1])
  moreover have "oe_event_id (rows ! k) = i" using n [OF k(1)] k(2) assms(4) by simp
  ultimately show ?thesis using n [OF k(1)] k(2) assms(5) event_rows_iff [OF assms(1), of "rows ! k"] by auto
qed

text \<open>No path a destination's guard reads as the retired namespace gets through, whatever it was committed as: the
  commit tests the path of the entry, and the row it leaves may be spelled otherwise (\<open>Path_Laws\<close> has an example,
  \<open>/sticky /\<close>, whose normal form the guard refuses).\<close>

lemma retired_payload_undeliverable:
  assumes "as_invalid (validate_retired_sticky_write (to_lowercase lib) (me_path (en_payload envelope)) (me_category (en_payload envelope)))
      = Err OutboxInvalidArg"
  shows "\<exists>e. apply_outbox_destination lib ops envelope db = Err e"
proof -
  have "\<exists>e. validate_envelope lib envelope = Err e"
    unfolding validate_envelope_def Let_def assms by (auto simp: and_then_def split: sum.splits)
  then show ?thesis by (auto simp: apply_outbox_destination_def)
qed

text \<open>The way through: a committed memory whose event a drain handed out is applied at a fresh destination, and its
  acknowledgement is then recorded at the source, provided the row the commit left passes the destination's guard and
  the destination's insert, which is a parameter here, stores it as it was handed over.\<close>

lemma committed_memory_is_delivered:
  assumes "outbox_reached lib src" "commit_with_outbox_event lib ops st now entry event src = Ok (rc, src1)"
    and "claim_outbox_events lib t clock request src1 = (Ok batch, src2)" "c \<in> set batch" "oe_event_id (ce_event c) = om_event_id event"
    and "map_of (ob_memories src1) (me_id entry) = Some m" "me_id m = me_id entry" "1 \<le> me_revision m"
      "validate_retired_sticky_write (to_lowercase lib) (me_path m) (me_category m) = Ok ()"
    and "outbox_reached lib dst" "ob_role dst = Some store" "store \<noteq> UNKNOWN_DB_LABEL" "ob_partition dst = None \<or> ob_partition dst = Some part"
      "validate_identity store = Ok ()" "validate_identity part = Ok ()"
      "read_destination_receipt dst (om_event_id event) = None" "map_of (ob_memories dst) (me_id entry) = None"
    and "authorize_reserved_reference_write ops' = Ok ()" "insert_if_absent_within_tx ops' m (ob_memories dst) = Ok (Inserted, ms)"
      "map_of ms (me_id entry) = Some m" "validate_evidence evidence = Ok ()"
  shows "\<exists>rp dst' orc src3.
      apply_outbox_destination lib ops' \<lparr> en_claimed = c, en_payload = m, en_destination = \<lparr> di_store = store, di_partition = part \<rparr> \<rparr> dst
        = Ok (AppliedResult rp, dst') \<and> map_of (ob_memories dst') (me_id entry) = Some m
    \<and> apply_outbox_outcome later (om_event_id event) AcknowledgedOutcome evidence src2 = Ok (orc, src3)
    \<and> read_outbox_event src3 (om_event_id event) = Some (or_event orc) \<and> oe_state (or_event orc) = Acknowledged"
proof -
  let ?env = "\<lparr> en_claimed = c, en_payload = m, en_destination = \<lparr> di_store = store, di_partition = part \<rparr> \<rparr>"
  have t1: "tables_ok src1" using reached_tables [OF reached_step [OF assms(1) outbox_step.commit [OF assms(2)]]] .
  obtain ms0 where q: "oc_event rc = born_row lib now m (me_id entry) event"
    and enq: "enqueue_outbox_event lib now (me_id entry) event (src\<lparr> ob_memories := ms0 \<rparr>) = Ok (oc_event rc, src1)"
    by (rule commit_Ok [OF assms(2)]) (use assms(6) in auto)
  have rd: "read_outbox_event src1 (om_event_id event) = Some (born_row lib now m (me_id entry) event)"
    by (rule commit_Ok [OF assms(2)]) (use q tables_wf(1) [OF reached_tables [OF assms(1)]] in \<open>simp add: bt_simps\<close>)
  then obtain lt where ev: "ce_event c = leased lt (born_row lib now m (me_id entry) event)"
    and rd2: "read_outbox_event src2 (om_event_id event) = Some (ce_event c)"
    using claimed_row [OF t1 assms(3-5)] by blast
  have bind: "validate_destination_event_binding (ce_event c) = Ok ()"
    using born_binding [OF enq] assms(8) by (simp add: ev q)
  have nb: "\<not> blank (om_event_id event)" "\<not> blank (me_id entry)" "\<not> blank (oe_source_store (ce_event c))"
      "\<not> blank (oe_source_partition (ce_event c))" "digest_ok (outbox_payload_digest lib m)"
    using bind by (auto simp: ev validate_destination_event_binding_def and_then_Inr_iff refuse_blank_def digest_ok_def split: if_splits)
  have env: "validate_envelope lib ?env = Ok ()"
    unfolding validate_envelope_def Let_def using bind assms(7-9,12,14,15) nb
    by (simp add: require_def ev as_invalid_def)
  let ?d = "dst\<lparr> ob_partition := Some part \<rparr>"
  have st: "stamp_destination \<lparr> di_store = store, di_partition = part \<rparr> dst = Ok ?d"
    using assms(11-13) by (simp add: stamp_Ok)
  have obj: "destination_object lib ops' ?env ?d = Ok (m, ?d\<lparr> ob_memories := ms \<rparr>)"
    using assms(7,17,19,20) by (simp add: destination_object_def ev readback_Ok require_object_readback_def)
  have ins: "insert_destination_receipt (receipt_row ?env (me_revision m) (outbox_payload_digest lib m)) (?d\<lparr> ob_memories := ms \<rparr>)
      = Ok (receipt_row ?env (me_revision m) (outbox_payload_digest lib m),
            ?d\<lparr> ob_memories := ms, ob_receipts := bt_insert (om_event_id event) (receipt_row ?env (me_revision m) (outbox_payload_digest lib m)) (ob_receipts dst) \<rparr>)"
    using nb assms(8,14-16)
    by (simp add: insert_destination_receipt_def refuse_blank_def require_def event_of_def ev validate_identity_def digest_ok_def split: if_splits)
  obtain rp where app: "apply_outbox_destination lib ops' ?env dst = Ok (AppliedResult rp,
      ?d\<lparr> ob_memories := ms, ob_receipts := bt_insert (om_event_id event) (receipt_row ?env (me_revision m) (outbox_payload_digest lib m)) (ob_receipts dst) \<rparr>)"
    unfolding apply_outbox_destination_def env assms(18) and_then_simps
    using st obj ins assms(7,16) by (simp add: ev)
  have out: "\<exists>orc src3. apply_outbox_outcome later (om_event_id event) AcknowledgedOutcome evidence src2 = Ok (orc, src3)"
    using rd2 assms(21)
    by (simp add: apply_outbox_outcome_def validate_outcome_def ev transition_outbox_event_def transition_outbox_event_impl_def
        stored_error_class_def Let_def)
  then obtain orc src3 where o: "apply_outbox_outcome later (om_event_id event) AcknowledgedOutcome evidence src2 = Ok (orc, src3)" by blast
  show ?thesis
    by (intro exI conjI, rule app, simp add: assms(20), rule o) (use outcome_row [OF o] in simp_all)
qed

end
