(* ===== verification/Outbox_Health.thy ===== *)
theory Outbox_Health
  imports Outbox_Laws
begin

text \<open>
  The health read model of the outbox: its one pass over the rows is the inventory the
  receipt claims to be.
\<close>

definition rows_in :: "outbox_state \<Rightarrow> outbox_event_row list \<Rightarrow> outbox_event_row list" where
  "rows_in st rs = filter (\<lambda>r. oe_state r = st) rs"

definition resolved_row :: "outbox_event_row \<Rightarrow> bool" where
  "resolved_row r \<longleftrightarrow> oe_state r = Quarantined \<and> is_resolved_class (oe_last_error_class r)"

definition failed_rows :: "outbox_event_row list \<Rightarrow> outbox_event_row list" where
  "failed_rows rs = filter (\<lambda>r. oe_last_error_class r \<noteq> None) rs"

definition error_key :: "'a chrono_scheme \<Rightarrow> outbox_event_row \<Rightarrow> int \<times> string \<times> string" where
  "error_key ch r = (instant_of ch (oe_state_changed_at r), oe_event_id r, the (oe_last_error_class r))"

section \<open>Extrema of a pass\<close>

text \<open>A pass that keeps the better of two values ends with a best one.\<close>

lemma fold_pick_Some:
  assumes "\<And>x z. g (Some x) z = Some (if P z x then z else x)"
    and "\<And>x z. P z x \<Longrightarrow> le z x" "\<And>x z. \<not> P z x \<Longrightarrow> le x z" "\<And>a b c. le a b \<Longrightarrow> le b c \<Longrightarrow> le a c" "\<And>a. le a a"
  shows "\<exists>y. foldl g (Some x) xs = Some y \<and> y \<in> insert x (set xs) \<and> (\<forall>z\<in>insert x (set xs). le y z)"
proof (induction xs arbitrary: x)
  case Nil
  show ?case by (simp add: assms(5))
next
  case (Cons z xs)
  define w where "w = (if P z x then z else x)"
  have w: "w \<in> {x, z}" "le w x" "le w z" using assms(2,3,5) by (auto simp: w_def)
  obtain y where y: "foldl g (Some w) xs = Some y" "y \<in> insert w (set xs)" "\<forall>v\<in>insert w (set xs). le y v" using Cons.IH by blast
  then have "le y x" "le y z" using w assms(4) by blast+
  then show ?case using y w(1) by (auto simp: assms(1) w_def [symmetric])
qed

lemma fold_pick:
  assumes "\<And>x z. g (Some x) z = Some (if P z x then z else x)" "\<And>z. g None z = Some z"
    and "\<And>x z. P z x \<Longrightarrow> le z x" "\<And>x z. \<not> P z x \<Longrightarrow> le x z" "\<And>a b c. le a b \<Longrightarrow> le b c \<Longrightarrow> le a c" "\<And>a. le a a"
  shows "case foldl g None xs of None \<Rightarrow> xs = [] | Some y \<Rightarrow> y \<in> set xs \<and> (\<forall>z\<in>set xs. le y z)"
proof (cases xs)
  case (Cons x ys)
  obtain y where "foldl g (Some x) ys = Some y" "y \<in> insert x (set ys) \<and> (\<forall>z\<in>insert x (set ys). le y z)"
    using fold_pick_Some [where g = g and P = P and le = le and x = x and xs = ys] assms(1,3-6) by blast
  then show ?thesis by (simp add: Cons assms(2))
qed simp

lemma fold_older_None:
  "case foldl older_of None xs of None \<Rightarrow> xs = [] | Some y \<Rightarrow> y \<in> set xs \<and> (\<forall>z\<in>set xs. fst y \<le> fst z)"
  by (rule fold_pick [where P = "\<lambda>z x. fst z < fst x"]) (auto simp: older_of_def)

lemma fold_later_None:
  "case foldl later_error None xs of None \<Rightarrow> xs = []
   | Some y \<Rightarrow> y \<in> set xs \<and> (\<forall>z\<in>set xs. (fst z, fst (snd z)) \<le> (fst y, fst (snd y)))"
proof (rule fold_pick [where P = "\<lambda>z x. (fst x, fst (snd x)) < (fst z, fst (snd z))" and le = "\<lambda>y z. (fst z, fst (snd z)) \<le> (fst y, fst (snd y))"])
  show "later_error (Some x) z = Some (if (fst x, fst (snd x)) < (fst z, fst (snd z)) then z else x)" for x z
    by (cases x; cases z) (auto simp: later_error_def)
  show "later_error None z = Some z" for z by (cases z) (simp add: later_error_def)
qed (fastforce simp: less_eq_prod_def less_prod_def)+

section \<open>The pass\<close>

lemma count_rows_Ok:
  "count_rows lib cutoff rs a = Ok b \<Longrightarrow>
     ha_pending b = ha_pending a + length (rows_in Pending rs)
   \<and> ha_in_flight b = ha_in_flight a + length (rows_in InFlight rs)
   \<and> ha_acknowledged b = ha_acknowledged a + length (rows_in Acknowledged rs)
   \<and> ha_rejected b = ha_rejected a + length (rows_in OutboxRejected rs)
   \<and> ha_conflicted b = ha_conflicted a + length (rows_in Conflicted rs)
   \<and> ha_quarantined b = ha_quarantined a + length (rows_in Quarantined rs)
   \<and> ha_resolved b = ha_resolved a + length (filter resolved_row rs)
   \<and> ha_stale b = ha_stale a + length (filter (\<lambda>r. instant_of lib (oe_state_changed_at r) \<le> cutoff) (rows_in InFlight rs))"
proof (induction rs arbitrary: a)
  case (Cons r rs)
  then obtain a' where a': "count_rows lib cutoff rs a' = Ok b"
    "a' = (let c = count_row lib cutoff r (instant_of lib (oe_created_at r)) (instant_of lib (oe_state_changed_at r)) a
      in case oe_last_error_class r of None \<Rightarrow> c
         | Some cl \<Rightarrow> c\<lparr> ha_last_error := later_error (ha_last_error c) (instant_of lib (oe_state_changed_at r), oe_event_id r, cl) \<rparr>)"
    by (auto simp: and_then_Inr_iff parse_stamp_Ok Let_def)
  note IH = Cons.IH [OF a'(1)]
  show ?case
    by (cases "oe_state r"; cases "oe_last_error_class r")
      (use IH in \<open>simp_all add: a'(2) count_row_def rows_in_def resolved_row_def Let_def is_resolved_class_def is_some_and_def\<close>)
qed (simp add: rows_in_def)

lemma count_rows_extrema:
  "count_rows lib cutoff rs a = Ok b \<Longrightarrow>
     ha_oldest_pending b = foldl older_of (ha_oldest_pending a)
       (map (\<lambda>r. (instant_of lib (oe_created_at r), render_ms lib (instant_of lib (oe_created_at r)))) (rows_in Pending rs))
   \<and> ha_oldest_in_flight b = foldl older_of (ha_oldest_in_flight a)
       (map (\<lambda>r. (instant_of lib (oe_state_changed_at r), render_ms lib (instant_of lib (oe_state_changed_at r)))) (rows_in InFlight rs))
   \<and> ha_last_error b = foldl later_error (ha_last_error a) (map (error_key lib) (failed_rows rs))"
proof (induction rs arbitrary: a)
  case (Cons r rs)
  then obtain a' where a': "count_rows lib cutoff rs a' = Ok b"
    "a' = (let c = count_row lib cutoff r (instant_of lib (oe_created_at r)) (instant_of lib (oe_state_changed_at r)) a
      in case oe_last_error_class r of None \<Rightarrow> c
         | Some cl \<Rightarrow> c\<lparr> ha_last_error := later_error (ha_last_error c) (instant_of lib (oe_state_changed_at r), oe_event_id r, cl) \<rparr>)"
    by (auto simp: and_then_Inr_iff parse_stamp_Ok Let_def)
  note IH = Cons.IH [OF a'(1)]
  show ?case
    by (cases "oe_state r"; cases "oe_last_error_class r")
      (use IH in \<open>simp_all add: a'(2) count_row_def rows_in_def failed_rows_def error_key_def Let_def\<close>)
qed (simp add: rows_in_def failed_rows_def)

lemma resolved_of_quarantined: "filter resolved_row rs = filter (\<lambda>r. is_resolved_class (oe_last_error_class r)) (rows_in Quarantined rs)"
  by (simp add: rows_in_def resolved_row_def [abs_def] conj_commute)

lemma unresolved_zero:
  "length (rows_in Quarantined rs) - length (filter resolved_row rs) = 0 \<longleftrightarrow> (\<forall>r\<in>set rs. oe_state r = Quarantined \<longrightarrow> resolved_row r)"
proof -
  have "length (rows_in Quarantined rs) - length (filter resolved_row rs)
      = length (filter (\<lambda>r. \<not> is_resolved_class (oe_last_error_class r)) (rows_in Quarantined rs))"
    unfolding resolved_of_quarantined
    using sum_length_filter_compl [of "\<lambda>r. is_resolved_class (oe_last_error_class r)" "rows_in Quarantined rs"] by simp
  then show ?thesis by (auto simp: filter_empty_conv rows_in_def resolved_row_def)
qed

text \<open>A health receipt is the inventory of the table: every count is the number of its rows, the resolved and the stale
  ones included, and the six states account for all of them; the store is healthy exactly when every quarantined event is a
  resolved conflict.\<close>

lemma health_is_inventory:
  assumes "read_outbox_health lib now stale_after db = Ok h"
  shows "oh_pending_count h = length (rows_in Pending (event_rows db)) \<and> oh_in_flight_count h = length (rows_in InFlight (event_rows db))
    \<and> oh_acknowledged_count h = length (rows_in Acknowledged (event_rows db))
    \<and> oh_rejected_count h = length (rows_in OutboxRejected (event_rows db))
    \<and> oh_conflicted_count h = length (rows_in Conflicted (event_rows db))
    \<and> oh_quarantined_count h = length (rows_in Quarantined (event_rows db))
    \<and> oh_pending_count h + oh_in_flight_count h + oh_acknowledged_count h + oh_rejected_count h + oh_conflicted_count h
        + oh_quarantined_count h = length (ob_events db)
    \<and> oh_resolved_count h = length (filter resolved_row (event_rows db))
    \<and> (oh_local_store_status h = Healthy \<longleftrightarrow> (\<forall>r\<in>set (event_rows db). oe_state r = Quarantined \<longrightarrow> resolved_row r))
    \<and> (\<exists>d cutoff. duration_from_std lib stale_after = Some d \<and> checked_sub_signed lib now d = Some cutoff
        \<and> oh_stale_lease_count h = length (filter (\<lambda>r. instant_of lib (oe_state_changed_at r) \<le> cutoff) (rows_in InFlight (event_rows db))))"
proof -
  obtain d cutoff b where c: "duration_from_std lib stale_after = Some d" "checked_sub_signed lib now d = Some cutoff"
    "count_rows lib cutoff (event_rows db) no_health = Ok b"
    and h: "oh_pending_count h = ha_pending b" "oh_in_flight_count h = ha_in_flight b" "oh_acknowledged_count h = ha_acknowledged b"
      "oh_rejected_count h = ha_rejected b" "oh_conflicted_count h = ha_conflicted b" "oh_quarantined_count h = ha_quarantined b"
      "oh_resolved_count h = ha_resolved b" "oh_stale_lease_count h = ha_stale b"
      "oh_local_store_status h = Healthy \<longleftrightarrow> ha_quarantined b - ha_resolved b = 0"
    using assms by (auto simp: read_outbox_health_def and_then_Inr_iff Let_def split: option.splits)
  have all: "length (rows_in Pending rs) + length (rows_in InFlight rs) + length (rows_in Acknowledged rs) + length (rows_in OutboxRejected rs)
      + length (rows_in Conflicted rs) + length (rows_in Quarantined rs) = length rs" for rs
  proof (induction rs)
    case (Cons r rs)
    then show ?case by (cases "oe_state r") (simp_all add: rows_in_def)
  qed (simp add: rows_in_def)
  have len: "length (event_rows db) = length (ob_events db)" by (simp add: event_rows_def)
  note n = count_rows_Ok [OF c(3), simplified no_health_def, simplified]
  show ?thesis
    unfolding h using n c(1,2) all [of "event_rows db"] len unresolved_zero [of "event_rows db"] by simp
qed

text \<open>The instants and the class a health receipt names are those of extreme rows: the oldest pending event, the
  oldest lease, and the failure stamped last; it names none exactly when the table has no such row.\<close>

lemma health_names_extremes:
  assumes "read_outbox_health lib now stale_after db = Ok h"
  shows "(case oh_oldest_pending_at h of None \<Rightarrow> rows_in Pending (event_rows db) = []
      | Some s \<Rightarrow> \<exists>r\<in>set (rows_in Pending (event_rows db)). s = render_ms lib (instant_of lib (oe_created_at r))
          \<and> (\<forall>q\<in>set (rows_in Pending (event_rows db)). instant_of lib (oe_created_at r) \<le> instant_of lib (oe_created_at q)))
    \<and> (case oh_oldest_in_flight_at h of None \<Rightarrow> rows_in InFlight (event_rows db) = []
      | Some s \<Rightarrow> \<exists>r\<in>set (rows_in InFlight (event_rows db)). s = render_ms lib (instant_of lib (oe_state_changed_at r))
          \<and> (\<forall>q\<in>set (rows_in InFlight (event_rows db)). instant_of lib (oe_state_changed_at r) \<le> instant_of lib (oe_state_changed_at q)))
    \<and> (case oh_last_error_class h of None \<Rightarrow> failed_rows (event_rows db) = []
      | Some c \<Rightarrow> \<exists>r\<in>set (failed_rows (event_rows db)). oe_last_error_class r = Some c
          \<and> (\<forall>q\<in>set (failed_rows (event_rows db)). (instant_of lib (oe_state_changed_at q), oe_event_id q)
               \<le> (instant_of lib (oe_state_changed_at r), oe_event_id r)))"
proof -
  obtain cutoff b where c: "count_rows lib cutoff (event_rows db) no_health = Ok b"
    and h: "oh_oldest_pending_at h = map_option snd (ha_oldest_pending b)" "oh_oldest_in_flight_at h = map_option snd (ha_oldest_in_flight b)"
      "oh_last_error_class h = map_option (\<lambda>(_, _, cl). cl) (ha_last_error b)"
    using assms by (auto simp: read_outbox_health_def and_then_Inr_iff Let_def split: option.splits)
  note n = count_rows_extrema [OF c, simplified no_health_def, simplified]
  have cl: "oe_last_error_class r = Some (the (oe_last_error_class r))" if "r \<in> set (failed_rows rs)" for r rs
    using that by (auto simp: failed_rows_def)
  show ?thesis
  proof (intro conjI)
    show "case oh_oldest_pending_at h of None \<Rightarrow> rows_in Pending (event_rows db) = []
      | Some s \<Rightarrow> \<exists>r\<in>set (rows_in Pending (event_rows db)). s = render_ms lib (instant_of lib (oe_created_at r))
          \<and> (\<forall>q\<in>set (rows_in Pending (event_rows db)). instant_of lib (oe_created_at r) \<le> instant_of lib (oe_created_at q))"
      using n fold_older_None [of "map (\<lambda>r. (instant_of lib (oe_created_at r), render_ms lib (instant_of lib (oe_created_at r)))) (rows_in Pending (event_rows db))"]
      by (auto simp: h split: option.splits)
    show "case oh_oldest_in_flight_at h of None \<Rightarrow> rows_in InFlight (event_rows db) = []
      | Some s \<Rightarrow> \<exists>r\<in>set (rows_in InFlight (event_rows db)). s = render_ms lib (instant_of lib (oe_state_changed_at r))
          \<and> (\<forall>q\<in>set (rows_in InFlight (event_rows db)). instant_of lib (oe_state_changed_at r) \<le> instant_of lib (oe_state_changed_at q))"
      using n fold_older_None [of "map (\<lambda>r. (instant_of lib (oe_state_changed_at r), render_ms lib (instant_of lib (oe_state_changed_at r)))) (rows_in InFlight (event_rows db))"]
      by (auto simp: h split: option.splits)
    show "case oh_last_error_class h of None \<Rightarrow> failed_rows (event_rows db) = []
      | Some c \<Rightarrow> \<exists>r\<in>set (failed_rows (event_rows db)). oe_last_error_class r = Some c
          \<and> (\<forall>q\<in>set (failed_rows (event_rows db)). (instant_of lib (oe_state_changed_at q), oe_event_id q)
               \<le> (instant_of lib (oe_state_changed_at r), oe_event_id r))"
      using n fold_later_None [of "map (error_key lib) (failed_rows (event_rows db))"] cl
      by (auto simp: h error_key_def split: option.splits)
  qed
qed

end
