(* ===== verification/Path_Laws.thy ===== *)
theory Path_Laws
  imports Path_Router
begin

text \<open>
  The shape of a normalized path, what the write guard lets through, and where both fall short.
\<close>

definition no_double_slash :: "string \<Rightarrow> bool" where
  "no_double_slash s \<longleftrightarrow> successively (\<lambda>a b. \<not> (a = CHR ''/'' \<and> b = CHR ''/'')) s"

lemma collapse_hd: "collapse_slashes True s \<noteq> [] \<Longrightarrow> hd (collapse_slashes True s) \<noteq> CHR ''/''"
  by (induction s) auto

lemma collapse_no_double: "no_double_slash (collapse_slashes b s)"
proof (induction s arbitrary: b)
  case (Cons c s)
  show ?case using Cons.IH [of True] Cons.IH [of False] collapse_hd [of s]
    by (cases b; cases "collapse_slashes True s"; cases "collapse_slashes False s")
      (auto simp: no_double_slash_def successively_Cons)
qed (simp add: no_double_slash_def)

lemma trim_slash: "trim_end_matches ''/'' s = rev (dropWhile (\<lambda>c. c = CHR ''/'') (rev s))"
  by (rule trim_end_matches_char)

lemma trim_slash_append: "\<exists>t. s = trim_end_matches ''/'' s @ t"
  unfolding trim_slash by (metis rev_append rev_rev_ident takeWhile_dropWhile_id)

lemma trim_slash_last: "trim_end_matches ''/'' s \<noteq> [] \<Longrightarrow> last (trim_end_matches ''/'' s) \<noteq> CHR ''/''"
  unfolding trim_slash using hd_dropWhile [of "\<lambda>c. c = CHR ''/''" "rev s"] by (simp add: last_rev)

lemma no_double_prefix: "no_double_slash (s @ t) \<Longrightarrow> no_double_slash s"
  by (simp add: no_double_slash_def successively_append_iff)

lemma no_double_plain: "CHR ''/'' \<notin> set s \<Longrightarrow> no_double_slash (s @ t) \<longleftrightarrow> no_double_slash t"
  by (induction s) (auto simp: no_double_slash_def successively_Cons hd_append)

lemma trimmed_path:
  assumes "c = CHR ''/'' # c'" "no_double_slash c" "s = (if 1 < length c then trim_end_matches ''/'' c else c)" "s \<noteq> []"
  shows "\<exists>r. s = CHR ''/'' # r \<and> no_double_slash s \<and> (r \<noteq> [] \<longrightarrow> last r \<noteq> CHR ''/'')"
proof -
  have "\<exists>u. c = s @ u" using trim_slash_append [of c] unfolding assms(3) by (cases "1 < length c") auto
  then obtain r where r: "s = CHR ''/'' # r" "no_double_slash s" using assms(1,2,4) no_double_prefix by (cases s) auto
  have "last r \<noteq> CHR ''/''" if rn: "r \<noteq> []"
  proof (cases "1 < length c")
    case True
    then show ?thesis using trim_slash_last [of c] assms(4) r(1) rn by (simp add: assms(3))
  next
    case False
    then show ?thesis using r(1) rn assms(1) by (auto simp: assms(3))
  qed
  with r show ?thesis by blast
qed

lemma lower_first_segment_shape:
  assumes "\<And>s. CHR ''/'' \<notin> set s \<Longrightarrow> CHR ''/'' \<notin> set (lower s)" "\<And>s. s \<noteq> [] \<Longrightarrow> lower s \<noteq> []"
    and r: "no_double_slash (CHR ''/'' # r)" "r \<noteq> []" "last r \<noteq> CHR ''/''"
  shows "no_double_slash (CHR ''/'' # lower_first_segment lower r) \<and> last (lower_first_segment lower r) \<noteq> CHR ''/''"
proof -
  let ?seg = "takeWhile (\<lambda>c. c \<noteq> CHR ''/'') r" and ?tail = "dropWhile (\<lambda>c. c \<noteq> CHR ''/'') r"
  have "hd r \<noteq> CHR ''/''" using r by (simp add: no_double_slash_def successively_Cons)
  then have seg: "?seg \<noteq> []" "CHR ''/'' \<notin> set ?seg" using r(2) by (cases r; auto dest: set_takeWhileD)+
  have low: "lower ?seg \<noteq> []" "CHR ''/'' \<notin> set (lower ?seg)" using seg assms by blast+
  have "no_double_slash r" using r by (simp add: no_double_slash_def successively_Cons)
  then have nt: "no_double_slash ?tail" using no_double_plain [OF seg(2), of ?tail] by simp
  have "no_double_slash (CHR ''/'' # lower ?seg @ ?tail)"
    using nt no_double_plain [OF low(2), of ?tail] low by (cases "lower ?seg") (auto simp: no_double_slash_def successively_Cons)
  moreover have "last (lower ?seg @ ?tail) \<noteq> CHR ''/''"
  proof (cases "?tail = []")
    case True
    then have "last (lower ?seg @ ?tail) \<in> set (lower ?seg)" using last_in_set [OF low(1)] by (simp only: append_Nil2)
    then show ?thesis using low(2) by metis
  next
    case False
    then have "last (lower ?seg @ ?tail) = last (?seg @ ?tail)" by (metis last_appendR)
    also have "\<dots> = last r" by (simp only: takeWhile_dropWhile_id)
    finally show ?thesis using r(3) by (simp only: not_False_eq_True)
  qed
  ultimately show ?thesis by (simp add: lower_first_segment_def)
qed

text \<open>C34: A normalized path starts with a slash, has no empty segment, and ends in none unless it is the root, provided
  lower-casing a segment keeps it a segment.\<close>

theorem normal_path_shape:
  assumes "\<And>s. CHR ''/'' \<notin> set s \<Longrightarrow> CHR ''/'' \<notin> set (lower s)" "\<And>s. s \<noteq> [] \<Longrightarrow> lower s \<noteq> []"
  shows "\<exists>rest. normalize_memory_path lower p = CHR ''/'' # rest \<and> no_double_slash (normalize_memory_path lower p)
    \<and> (rest \<noteq> [] \<longrightarrow> last rest \<noteq> CHR ''/'')"
proof (cases "trim p = []")
  case True
  then show ?thesis by (simp add: normalize_memory_path_def no_double_slash_def)
next
  case False
  define t where "t = (if prefix ''/'' (trim p) then trim p else ''/'' @ trim p)"
  define c where "c = collapse_slashes False t"
  define s where "s = (if 1 < length c then trim_end_matches ''/'' c else c)"
  have n: "normalize_memory_path lower p = (if s = [] then ''/'' else (case strip_prefix ''/'' s of None \<Rightarrow> s
      | Some rest \<Rightarrow> if rest = [] then ''/'' else ''/'' @ lower_first_segment lower rest))"
    by (simp only: normalize_memory_path_def Let_def False if_False t_def [symmetric] c_def [symmetric] s_def [symmetric])
  have "\<exists>t'. t = CHR ''/'' # t'" unfolding t_def by (cases "prefix ''/'' (trim p)") (auto simp: prefix_def)
  then obtain t' where "t = CHR ''/'' # t'" by blast
  then obtain c' where c': "c = CHR ''/'' # c'" by (simp add: c_def)
  have "no_double_slash c" unfolding c_def by (rule collapse_no_double)
  then consider "s = []" | r where "s = CHR ''/'' # r" "no_double_slash s" "r \<noteq> [] \<longrightarrow> last r \<noteq> CHR ''/''"
    using trimmed_path [OF c' _ s_def] by blast
  then show ?thesis
  proof cases
    case 1
    then show ?thesis by (simp add: n no_double_slash_def)
  next
    case 2
    then have "r \<noteq> [] \<Longrightarrow> no_double_slash (CHR ''/'' # lower_first_segment lower r) \<and> last (lower_first_segment lower r) \<noteq> CHR ''/''"
      using lower_first_segment_shape [of lower r] assms by blast
    then show ?thesis using 2(1) by (cases "r = []") (simp_all add: n strip_prefix_def no_double_slash_def)
  qed
qed

text \<open>What the write guard lets into a store: no path that normalizes to the retired namespace or below it, no retired
  category, and a path classified as wiki only into the wiki corpus or under an explicit allowance.\<close>

lemma guard_lets_through:
  assumes "validate_memory_write_for_db lower path category label allow = Ok ()"
  shows "\<not> at_or_below ''/sticky'' (normalize_memory_path lower path) \<and> memory_category_from_str (Some category) \<noteq> Sticky
    \<and> (allow \<or> label = ''wiki'' \<or> \<not> at_or_below ''/wiki'' (normalize_memory_path lower (normalize_memory_path lower path)))"
proof -
  have "memory_category_as_str c = ''sticky'' \<longleftrightarrow> c = Sticky" for c by (cases c) simp_all
  then show ?thesis
    using assms
    by (auto simp: validate_memory_write_for_db_def and_then_Inr_iff validate_retired_sticky_write_def validate_path_for_db_def
        classify_path_def Let_def memory_category_normalize_def db_label_is_wiki_corpus_def WIKI_CORPUS_DB_LABEL_def split: if_splits)
qed

text \<open>The normal form is not stable: a segment of spaces before a trailing slash takes two passes to go, so a path that
  reads as the retired namespace the second time passes the guard.\<close>

lemma normal_form_unstable:
  "normalize_memory_path to_ascii_lowercase ''/a/ /'' = ''/a/ ''"
  "normalize_memory_path to_ascii_lowercase ''/a/ '' = ''/a''"
  by code_simp+

lemma retired_namespace_spelled:
  "validate_retired_sticky_write to_ascii_lowercase ''/sticky /'' ''fact'' = Ok ()"
  "normalize_memory_path to_ascii_lowercase ''/sticky /'' = ''/sticky ''"
  "validate_retired_sticky_write to_ascii_lowercase ''/sticky '' ''fact'' = Err (RetiredStickyPath ''/sticky'')"
  "normalize_memory_path to_ascii_lowercase (normalize_memory_path to_ascii_lowercase ''/sticky /'') = ''/sticky''"
  by code_simp+

end
