(* ===== verification/Outbox_Examples.thy ===== *)
theory Outbox_Examples
  imports Outbox_Contract Outbox_Health Path_Laws
begin

text \<open>
  One memory followed from the store that commits it to the store that takes it, and what the
  properties of the outbox say along the way. Instants are the digits 1 to 5 and every
  digest is zero.
\<close>

definition demo_instant :: "string \<Rightarrow> int option" where
  "demo_instant s = (if s = ''1'' then Some 1 else if s = ''2'' then Some 2 else if s = ''3'' then Some 3 else if s = ''4'' then Some 4
     else if s = ''5'' then Some 5 else None)"

definition demo_outbox_lib :: outbox_lib where
  "demo_outbox_lib = \<lparr> parse_from_rfc3339 = demo_instant, MIN_UTC = 0, render_ms = (\<lambda>t. if t = 4 then ''4'' else []),
     duration_from_std = (\<lambda>n. Some (int n)), checked_sub_signed = (\<lambda>a b. Some (a - b)), json_to_vec = (\<lambda>_. []),
     sha256_digest = (\<lambda>_. replicate 32 0), to_lowercase = to_ascii_lowercase \<rparr>"

definition demo_memory_ops :: memory_ops where
  "demo_memory_ops = \<lparr> authorize_reserved_reference_write = Ok (),
     upsert_within_tx = (\<lambda>e ms. Ok (bt_insert (me_id e) e ms)),
     insert_if_absent_within_tx = (\<lambda>e ms. case map_of ms (me_id e) of
       None \<Rightarrow> Ok (Inserted, bt_insert (me_id e) e ms) | Some _ \<Rightarrow> Ok (Existing, ms)) \<rparr>"

definition demo_handle :: store_handle where
  "demo_handle = \<lparr> st_db_label = ''project'', st_path_validation = True, st_escape_hatch = False \<rparr>"

definition demo_note :: memory_entry where
  "demo_note = \<lparr> me_archived = False, me_category = ''fact'', me_domain = None, me_entities = [], me_id = ''m'', me_importance = 0,
     me_keywords = [], me_metadata = JObject [], me_path = ''/notes'', me_retention_policy = None, me_revision = 1, me_scope = ''user'',
     me_source = ''s'', me_summary = [], me_text = ''hello'', me_tier = ''t'', me_timestamp = ''1'', me_topic = [], me_valid_from = ''1'',
     me_valid_until = None \<rparr>"

definition demo_event :: outbox_event_meta where
  "demo_event = \<lparr> om_event_id = ''e'', om_object_class = ''memory'', om_authority_class = ''local'', om_source_store = ''src'',
     om_source_partition = ''p'' \<rparr>"

definition demo_digest :: string where
  "demo_digest = replicate 64 (CHR ''0'')"

definition demo_event_row :: "string \<Rightarrow> outbox_state \<Rightarrow> string option \<Rightarrow> string \<Rightarrow> string \<Rightarrow> outbox_event_row" where
  "demo_event_row i st c created changed = \<lparr> oe_event_id = i, oe_object_id = ''m'', oe_object_class = ''memory'', oe_authority_class = ''local'',
     oe_source_store = ''src'', oe_source_partition = ''p'', oe_source_revision = 1, oe_payload_digest = demo_digest, oe_state = st,
     oe_last_error_class = c, oe_created_at = created, oe_state_changed_at = changed \<rparr>"

definition demo_outbox :: "outbox_event_row list \<Rightarrow> outbox_db" where
  "demo_outbox rows = \<lparr> ob_memories = [(''m'', demo_note)], ob_events = map (\<lambda>r. (oe_event_id r, r)) rows, ob_receipts = [],
     ob_role = Some ''src'', ob_partition = None \<rparr>"

abbreviation demo_source :: outbox_db where "demo_source \<equiv> new_outbox (Some ''src'') []"
abbreviation demo_target :: outbox_db where "demo_target \<equiv> new_outbox (Some ''dst'') []"

definition demo_drain :: outbox_claim_request where
  "demo_drain = \<lparr> cr_limit = 10, cr_reclaim_stale_after = None \<rparr>"

definition demo_claimed :: claimed_outbox_event where
  "demo_claimed = \<lparr> ce_event = demo_event_row ''e'' InFlight None ''1'' ''2'', ce_claim = First \<rparr>"

definition demo_envelope :: outbox_destination_apply_envelope where
  "demo_envelope = \<lparr> en_claimed = demo_claimed, en_payload = demo_note, en_destination = \<lparr> di_store = ''dst'', di_partition = ''q'' \<rparr> \<rparr>"

definition demo_evidence :: outbox_outcome_evidence where
  "demo_evidence = \<lparr> ev_reported_by = ''peer'', ev_peer_revision = None, ev_peer_payload_digest = None \<rparr>"

definition demo_receipt :: outbox_destination_apply_receipt where
  "demo_receipt = receipt_from_row (receipt_row demo_envelope 1 demo_digest) DestinationApplied"

definition demo_applied :: outbox_db where
  "demo_applied = \<lparr> ob_memories = [(''m'', demo_note)], ob_events = [], ob_receipts = [(''e'', receipt_row demo_envelope 1 demo_digest)],
     ob_role = Some ''dst'', ob_partition = Some ''q'' \<rparr>"

section \<open>The calls\<close>

lemma demo_lib [simp]:
  "to_lowercase demo_outbox_lib = to_ascii_lowercase" "parse_from_rfc3339 demo_outbox_lib = demo_instant"
  "authorize_reserved_reference_write demo_memory_ops = Ok ()" "upsert_within_tx demo_memory_ops e ms = Ok (bt_insert (me_id e) e ms)"
  "insert_if_absent_within_tx demo_memory_ops e [] = Ok (Inserted, [(me_id e, e)])"
  by (simp_all add: demo_outbox_lib_def demo_memory_ops_def bt_insert_def)

lemma demo_digest_eq [simp]: "outbox_payload_digest demo_outbox_lib m = demo_digest"
  unfolding outbox_payload_digest_def demo_outbox_lib_def outbox_lib.simps by code_simp

lemma demo_refusals [simp]:
  "refuse_non_canonical_digest demo_digest = Ok ()" "refuse_invalid_class ''memory'' = Ok ()" "refuse_invalid_class ''local'' = Ok ()"
  "refuse_blank ''e'' = Ok ()" "refuse_blank ''m'' = Ok ()" "refuse_blank ''src'' = Ok ()" "refuse_blank ''p'' = Ok ()"
  "refuse_blank ''dst'' = Ok ()" "refuse_blank ''q'' = Ok ()" "refuse_blank ''e::local-wins'' = Ok ()"
  "refuse_reserved_successor_suffix ''e'' = Ok ()" "refuse_reserved_resolved_class ''memory'' = Ok ()"
  "refuse_reserved_resolved_class ''local'' = Ok ()" "blank ''m'' = False"
  "validate_identity ''src'' = Ok ()" "validate_identity ''p'' = Ok ()" "validate_identity ''dst'' = Ok ()" "validate_identity ''q'' = Ok ()"
  by code_simp+

lemma demo_guard [simp]: "validate_write_path demo_outbox_lib demo_handle demo_note = Ok ()"
  unfolding validate_write_path_def demo_lib by code_simp

lemma demo_sticky [simp]: "validate_retired_sticky_write to_ascii_lowercase ''/notes'' ''fact'' = Ok ()"
  by code_simp

lemma demo_columns [simp]:
  "me_id demo_note = ''m''" "me_revision demo_note = 1" "me_path demo_note = ''/notes''" "me_category demo_note = ''fact''"
  "om_event_id demo_event = ''e''" "om_object_class demo_event = ''memory''" "om_authority_class demo_event = ''local''"
  "om_source_store demo_event = ''src''" "om_source_partition demo_event = ''p''"
  by (simp_all add: demo_note_def demo_event_def)

lemma demo_commit: "commit_with_outbox_event demo_outbox_lib demo_memory_ops demo_handle ''1'' demo_note demo_event demo_source
    = Ok (\<lparr> oc_event = demo_event_row ''e'' Pending None ''1'' ''1'', oc_object_revision = 1 \<rparr>, demo_outbox [demo_event_row ''e'' Pending None ''1'' ''1''])"
  by (simp add: commit_with_outbox_event_def enqueue_outbox_event_def build_new_outbox_event_def read_object_def insert_outbox_event_def
      insert_outbox_event_impl_def outbox_event_exists_def read_outbox_event_def read_object_revision_def pending_row_def Let_def new_outbox_def
      build_commit_receipt_def bt_insert_def demo_outbox_def demo_event_row_def del: fold_reads)

lemma demo_claim: "claim_outbox_events demo_outbox_lib 2 (\<lambda>_. ''2'') demo_drain (demo_outbox [demo_event_row ''e'' Pending None ''1'' ''1''])
    = (Ok [demo_claimed], demo_outbox [demo_event_row ''e'' InFlight None ''1'' ''2''])"
  by code_simp

lemma demo_outcome: "apply_outbox_outcome ''3'' ''e'' (ConflictedOutcome ''diverged'') demo_evidence (demo_outbox [demo_event_row ''e'' InFlight None ''1'' ''2''])
    = Ok (\<lparr> or_event = demo_event_row ''e'' Conflicted (Some ''diverged'') ''1'' ''3'', or_prior_state = InFlight, or_application = Applied,
            or_evidence = demo_evidence \<rparr>, demo_outbox [demo_event_row ''e'' Conflicted (Some ''diverged'') ''1'' ''3''])"
  by code_simp

definition demo_resolved :: outbox_event_row where
  "demo_resolved = demo_event_row ''e'' Quarantined (Some ''conflict_resolved_local_wins'') ''1'' ''5''"

definition demo_successor :: outbox_event_row where
  "demo_successor = demo_event_row ''e::local-wins'' Pending None ''4'' ''4''"

lemma demo_resolve: "resolve_outbox_conflict demo_outbox_lib (\<lambda>k. if k = 0 then ''4'' else ''5'') ''e'' LocalWins
      (demo_outbox [demo_event_row ''e'' Conflicted (Some ''diverged'') ''1'' ''3''])
    = Ok (LocalWinsReceipt demo_resolved demo_successor, demo_outbox [demo_resolved, demo_successor])"
proof -
  have t: "transition_outbox_resolved_conflict ''5'' ''e'' ''conflict_resolved_local_wins''
        (demo_outbox [demo_event_row ''e'' Conflicted (Some ''diverged'') ''1'' ''3'', demo_successor])
      = Ok (demo_resolved, demo_outbox [demo_resolved, demo_successor])"
    by code_simp
  have "enqueue_outbox_resolution_successor_event demo_outbox_lib ''4'' ''m''
      \<lparr> om_event_id = ''e::local-wins'', om_object_class = ''memory'', om_authority_class = ''local'', om_source_store = ''src'', om_source_partition = ''p'' \<rparr>
      (demo_outbox [demo_event_row ''e'' Conflicted (Some ''diverged'') ''1'' ''3''])
    = Ok (demo_successor, demo_outbox [demo_event_row ''e'' Conflicted (Some ''diverged'') ''1'' ''3'', demo_successor])"
    by (simp add: enqueue_outbox_resolution_successor_event_def build_new_outbox_event_def read_object_def insert_resolution_successor_event_def
      insert_outbox_event_impl_def outbox_event_exists_def read_outbox_event_def read_object_revision_def pending_row_def Let_def
      bt_insert_def demo_outbox_def demo_event_row_def demo_successor_def del: fold_reads)
  then show ?thesis
    using t by (simp add: resolve_outbox_conflict_def validate_resolution_def read_outbox_event_def outbox_local_wins_successor_id_def
      OUTBOX_LOCAL_WINS_SUCCESSOR_SUFFIX_def OUTBOX_LOCAL_WINS_RESOLVED_CLASS_def demo_outbox_def demo_event_row_def del: fold_reads)
qed

lemma demo_delivery: "apply_outbox_destination demo_outbox_lib demo_memory_ops demo_envelope demo_target = Ok (AppliedResult demo_receipt, demo_applied)"
  by (simp add: apply_outbox_destination_def validate_envelope_def validate_destination_event_binding_def demo_envelope_def demo_claimed_def
      demo_event_row_def require_def Let_def as_invalid_def UNKNOWN_DB_LABEL_def stamp_destination_def new_outbox_def read_destination_receipt_def
      destination_object_def require_object_readback_def insert_destination_receipt_def receipt_row_def bt_insert_def demo_receipt_def demo_applied_def
      del: fold_reads)

lemma demo_health: "read_outbox_health demo_outbox_lib 9 5 (demo_outbox [demo_resolved, demo_successor])
    = Ok \<lparr> oh_local_store_status = Healthy, oh_remote_sync_status = Unconfigured, oh_pending_count = 1, oh_in_flight_count = 0,
           oh_acknowledged_count = 0, oh_rejected_count = 0, oh_conflicted_count = 0, oh_quarantined_count = 1, oh_oldest_pending_at = Some ''4'',
           oh_oldest_in_flight_at = None, oh_last_successful_sync = None, oh_last_error_class = Some ''conflict_resolved_local_wins'',
           oh_resolved_count = 1, oh_stale_lease_count = 0 \<rparr>"
  by code_simp

section \<open>The states they reach\<close>

lemma demo_reached_committed: "outbox_reached demo_outbox_lib (demo_outbox [demo_event_row ''e'' Pending None ''1'' ''1''])"
  by (rule reached_step [OF reached_new outbox_step.commit [OF demo_commit]])

lemma demo_reached_claimed: "outbox_reached demo_outbox_lib (demo_outbox [demo_event_row ''e'' InFlight None ''1'' ''2''])"
  by (rule reached_step [OF demo_reached_committed outbox_step.claim [OF demo_claim]])

lemma demo_reached_conflicted: "outbox_reached demo_outbox_lib (demo_outbox [demo_event_row ''e'' Conflicted (Some ''diverged'') ''1'' ''3''])"
  by (rule reached_step [OF demo_reached_claimed outbox_step.outcome [OF demo_outcome]])

section \<open>Witnesses\<close>

theorem commit_binds_event_witness:
  "\<exists>m. map_of (ob_memories (demo_outbox [demo_event_row ''e'' Pending None ''1'' ''1''])) ''m'' = Some m \<and> me_revision m = 1"
  using commit_binds_event [OF reached_new demo_commit] by (auto simp: demo_note_def)

theorem drain_law_witness:
  "\<exists>s. cutoff_of demo_outbox_lib 2 demo_drain = Ok s
    \<and> length [demo_claimed] = length (take 10 (sort_key (queue_key demo_outbox_lib) (filter (may_drain demo_outbox_lib (map_option (instant_of demo_outbox_lib) s))
        (event_rows (demo_outbox [demo_event_row ''e'' Pending None ''1'' ''1''])))))"
  using drain_law [OF demo_reached_committed, where now = 2 and clock = "\<lambda>_. ''2''" and request = demo_drain] unfolding demo_claim
  by (auto simp: Let_def demo_drain_def)

text \<open>Two events, drained one at a time.\<close>

lemma demo_second: "enqueue_outbox_event demo_outbox_lib ''2'' ''m'' (demo_event\<lparr> om_event_id := ''f'' \<rparr>)
      ((demo_outbox [demo_event_row ''e'' Pending None ''1'' ''1''])\<lparr> ob_memories := [(''m'', demo_note)] \<rparr>)
    = Ok (demo_event_row ''f'' Pending None ''2'' ''2'',
          demo_outbox [demo_event_row ''e'' Pending None ''1'' ''1'', demo_event_row ''f'' Pending None ''2'' ''2''])"
proof -
  have f: "refuse_blank ''f'' = Ok ()" "refuse_reserved_successor_suffix ''f'' = Ok ()" "\<not> CHR ''f'' < CHR ''e''" by code_simp+
  show ?thesis
    by (simp add: f enqueue_outbox_event_def build_new_outbox_event_def read_object_def insert_outbox_event_def
      insert_outbox_event_impl_def outbox_event_exists_def read_outbox_event_def read_object_revision_def pending_row_def Let_def
      bt_insert_def demo_outbox_def demo_event_row_def del: fold_reads)
qed

definition demo_one :: outbox_claim_request where
  "demo_one = \<lparr> cr_limit = 1, cr_reclaim_stale_after = None \<rparr>"

lemma demo_drain_one: "claim_outbox_events demo_outbox_lib 3 (\<lambda>_. ''3'') demo_one
      (demo_outbox [demo_event_row ''e'' Pending None ''1'' ''1'', demo_event_row ''f'' Pending None ''2'' ''2''])
    = (Ok [\<lparr> ce_event = demo_event_row ''e'' InFlight None ''1'' ''3'', ce_claim = First \<rparr>],
       demo_outbox [demo_event_row ''e'' InFlight None ''1'' ''3'', demo_event_row ''f'' Pending None ''2'' ''2''])"
  by code_simp

lemma demo_drain_two: "claim_outbox_events demo_outbox_lib 4 (\<lambda>_. ''4'') demo_one
      (demo_outbox [demo_event_row ''e'' InFlight None ''1'' ''3'', demo_event_row ''f'' Pending None ''2'' ''2''])
    = (Ok [\<lparr> ce_event = demo_event_row ''f'' InFlight None ''2'' ''4'', ce_claim = First \<rparr>],
       demo_outbox [demo_event_row ''e'' InFlight None ''1'' ''3'', demo_event_row ''f'' InFlight None ''2'' ''4''])"
  by code_simp

lemma drains_disjoint_witness:
  "(oe_event_id \<circ> ce_event) ` set [\<lparr> ce_event = demo_event_row ''e'' InFlight None ''1'' ''3'', ce_claim = First \<rparr>]
    \<inter> (oe_event_id \<circ> ce_event) ` set [\<lparr> ce_event = demo_event_row ''f'' InFlight None ''2'' ''4'', ce_claim = First \<rparr>] = {}"
  by (rule drains_disjoint [OF reached_step [OF demo_reached_committed outbox_step.enqueue [OF demo_second]] demo_drain_one demo_drain_two])
    (simp add: cutoff_of_def demo_one_def)

theorem outcome_stands_witness:
  "\<nexists>rc db. apply_outbox_outcome ''4'' ''e'' AcknowledgedOutcome demo_evidence
     (demo_outbox [demo_event_row ''e'' Conflicted (Some ''diverged'') ''1'' ''3'']) = Ok (rc, db)"
  using outcome_stands [OF demo_reached_claimed demo_outcome rtranclp.rtrancl_refl, of "''4''" AcknowledgedOutcome demo_evidence] by blast

theorem conflict_ends_once_witness:
  "\<exists>e. resolve_outbox_conflict demo_outbox_lib (\<lambda>_. ''9'') ''e'' LocalWins (demo_outbox [demo_resolved, demo_successor]) = Err e"
  using conflict_ends_once [OF demo_reached_conflicted demo_resolve _ rtranclp.rtrancl_refl, of "\<lambda>_. ''9''" LocalWins] by simp

theorem reserved_class_marks_resolution_witness:
  "\<exists>clock resolution rc r. resolve_outbox_conflict demo_outbox_lib clock ''e'' resolution (demo_outbox [demo_event_row ''e'' Conflicted (Some ''diverged'') ''1'' ''3''])
      = Ok (rc, demo_outbox [demo_resolved, demo_successor]) \<and> resolution \<noteq> Deferred
    \<and> read_outbox_event (demo_outbox [demo_event_row ''e'' Conflicted (Some ''diverged'') ''1'' ''3'']) ''e'' = Some r \<and> oe_state r = Conflicted"
proof (rule reserved_class_marks_resolution [OF demo_reached_conflicted outbox_step.resolve [OF demo_resolve]])
  show "read_outbox_event (demo_outbox [demo_resolved, demo_successor]) ''e'' = Some demo_resolved" by code_simp
  show "is_resolved_class (oe_last_error_class demo_resolved)" by code_simp
  show "\<not> is_resolved_class (oe_last_error_class r)"
    if "read_outbox_event (demo_outbox [demo_event_row ''e'' Conflicted (Some ''diverged'') ''1'' ''3'']) ''e'' = Some r" for r
    using that by (auto simp: demo_outbox_def demo_event_row_def read_outbox_event_def is_resolved_class_def is_some_and_def
        OUTBOX_RESERVED_RESOLVED_CLASS_PREFIX_def simp del: fold_reads)
qed

theorem health_is_inventory_witness:
  "length (filter resolved_row (event_rows (demo_outbox [demo_resolved, demo_successor]))) = 1
    \<and> length (rows_in Pending (event_rows (demo_outbox [demo_resolved, demo_successor]))) = 1"
  using health_is_inventory [OF demo_health] by simp

lemma health_names_extremes_witness:
  "\<exists>r\<in>set (rows_in Pending (event_rows (demo_outbox [demo_resolved, demo_successor]))).
     ''4'' = render_ms demo_outbox_lib (instant_of demo_outbox_lib (oe_created_at r))"
  using health_names_extremes [OF demo_health] by auto

lemma destination_apply_faithful_witness:
  "ap_event_id demo_receipt = ''e'' \<and> (\<exists>m. map_of (ob_memories demo_applied) ''m'' = Some m \<and> object_matches demo_outbox_lib (event_of demo_envelope) m)"
  using destination_apply_faithful [OF reached_new demo_delivery]
  by (simp add: event_of_def demo_envelope_def demo_claimed_def demo_event_row_def)

lemma destination_apply_replays_witness: "apply_outbox_destination demo_outbox_lib demo_memory_ops demo_envelope demo_applied
    = Ok (DuplicateResult (demo_receipt\<lparr> ap_application := DestinationDuplicate \<rparr>), demo_applied)"
  by (rule destination_apply_replays [OF reached_new demo_delivery rtranclp.rtrancl_refl])
    (simp_all add: event_of_def demo_envelope_def demo_claimed_def demo_event_row_def)

text \<open>A source store with a line feed in its name.\<close>

definition demo_bad_event :: outbox_event_row where
  "demo_bad_event = (demo_event_row ''e'' InFlight None ''1'' ''2'')\<lparr> oe_source_store := [CHR ''s'', CHR 0x0A, CHR ''t''] \<rparr>"

definition demo_bad_envelope :: outbox_destination_apply_envelope where
  "demo_bad_envelope = demo_envelope\<lparr> en_claimed := \<lparr> ce_event = demo_bad_event, ce_claim = First \<rparr> \<rparr>"

lemma demo_bad_store [simp]: "refuse_blank [CHR ''s'', CHR 0x0A, CHR ''t''] = Ok ()"
  by code_simp

lemma demo_bad_apply: "apply_outbox_destination demo_outbox_lib demo_memory_ops demo_bad_envelope demo_target
    = Ok (AppliedResult (receipt_from_row (receipt_row demo_bad_envelope 1 demo_digest) DestinationApplied),
          demo_applied\<lparr> ob_receipts := [(''e'', receipt_row demo_bad_envelope 1 demo_digest)] \<rparr>)"
  by (simp add: apply_outbox_destination_def validate_envelope_def validate_destination_event_binding_def demo_bad_envelope_def demo_bad_event_def
      demo_envelope_def demo_event_row_def require_def Let_def as_invalid_def UNKNOWN_DB_LABEL_def stamp_destination_def new_outbox_def
      read_destination_receipt_def destination_object_def require_object_readback_def insert_destination_receipt_def receipt_row_def bt_insert_def
      demo_applied_def del: fold_reads)

theorem control_source_never_replays_witness:
  "apply_outbox_destination demo_outbox_lib demo_memory_ops demo_bad_envelope
     (demo_applied\<lparr> ob_receipts := [(''e'', receipt_row demo_bad_envelope 1 demo_digest)] \<rparr>) = Err OutboxInternal"
  by (rule control_source_never_replays [OF reached_new demo_bad_apply rtranclp.rtrancl_refl])
    (simp_all add: event_of_def demo_bad_envelope_def demo_bad_event_def)

theorem destination_applies_once_witness:
  "\<nexists>rc db. apply_outbox_destination demo_outbox_lib demo_memory_ops demo_bad_envelope demo_applied = Ok (AppliedResult rc, db)"
proof -
  have "oe_event_id (event_of demo_bad_envelope) = oe_event_id (event_of demo_envelope)"
    by (simp add: event_of_def demo_bad_envelope_def demo_bad_event_def demo_envelope_def demo_claimed_def demo_event_row_def)
  then show ?thesis using destination_applies_once [OF reached_new demo_delivery rtranclp.rtrancl_refl] by blast
qed

theorem local_successor_undeliverable_witness:
  "apply_outbox_destination demo_outbox_lib demo_memory_ops
     (demo_envelope\<lparr> en_claimed := \<lparr> ce_event = demo_successor\<lparr> oe_state := InFlight \<rparr>, ce_claim = First \<rparr> \<rparr>) demo_target = Err OutboxInvalidArg"
  by (rule local_successor_undeliverable [OF demo_reached_conflicted demo_resolve]) (simp add: event_of_def)

lemma committed_memory_is_delivered_witness:
  "\<exists>rp dst' orc src3.
      apply_outbox_destination demo_outbox_lib demo_memory_ops \<lparr> en_claimed = demo_claimed, en_payload = demo_note, en_destination = \<lparr> di_store = ''dst'', di_partition = ''q'' \<rparr> \<rparr> demo_target
        = Ok (AppliedResult rp, dst') \<and> map_of (ob_memories dst') (me_id demo_note) = Some demo_note
    \<and> apply_outbox_outcome ''3'' (om_event_id demo_event) AcknowledgedOutcome demo_evidence (demo_outbox [demo_event_row ''e'' InFlight None ''1'' ''2'']) = Ok (orc, src3)
    \<and> read_outbox_event src3 (om_event_id demo_event) = Some (or_event orc) \<and> oe_state (or_event orc) = Acknowledged"
proof (rule committed_memory_is_delivered [OF reached_new demo_commit demo_claim])
  show "validate_evidence demo_evidence = Ok ()" by code_simp
  show "outbox_reached demo_outbox_lib demo_target" by (rule reached_new)
qed (auto simp: demo_claimed_def demo_event_row_def demo_outbox_def new_outbox_def UNKNOWN_DB_LABEL_def read_destination_receipt_def reached_new
    simp del: fold_reads)

theorem normal_path_shape_witness:
  "\<exists>rest. normalize_memory_path (\<lambda>s. s) ''x//y/'' = CHR ''/'' # rest \<and> no_double_slash (normalize_memory_path (\<lambda>s. s) ''x//y/'')"
  using normal_path_shape [of "\<lambda>s. s" "''x//y/''"] by blast

lemma guard_lets_through_witness: "\<not> at_or_below ''/sticky'' (normalize_memory_path to_ascii_lowercase ''/notes'')"
proof -
  have "validate_memory_write_for_db to_ascii_lowercase ''/notes'' ''fact'' ''project'' False = Ok ()" by code_simp
  from guard_lets_through [OF this] show ?thesis by simp
qed

end
