(* ===== verification/A2a_Mailbox.thy ===== *)
theory A2a_Mailbox
  imports Claims_Laws Tachi_Json
begin

text \<open>
  The same-host mailbox between agents, \<open>crates/memcore/src/db/a2a.rs\<close>, over the tables
  \<open>a2a_envelopes\<close> and \<open>a2a_delivery_receipts\<close> (\<open>A2A_MAILBOX_V32_SQL\<close> in
  \<open>db/schema/ddl.rs\<close>, whose keys, checks and references are written out), with the body
  scrub of the maintenance sweep (\<open>db/operator_maintenance.rs\<close>). The identities and
  admissions it reads are those of the work claims. Every call runs in one transaction: a
  call that fails is an error without a database. Clock readings are arguments.
\<close>

section \<open>Vocabulary\<close>

definition A2A_TURN_RESPONSE_KIND :: string where "A2A_TURN_RESPONSE_KIND = ''turn_response/v1''"
definition A2A_SAME_HOST_TRUST_DOMAIN :: string where "A2A_SAME_HOST_TRUST_DOMAIN = ''same_host''"
definition MAX_A2A_STORAGE_BATCH :: nat where "MAX_A2A_STORAGE_BATCH = 100"
definition MAX_A2A_TURN_RESPONSE_BYTES :: nat where "MAX_A2A_TURN_RESPONSE_BYTES = 4096"
definition A2A_BODY_SCRUB_BATCH :: nat where "A2A_BODY_SCRUB_BATCH = 100"

record a2a_recipient_eligibility =
  el_agent_identity_id :: string
  el_admission_id :: string
  el_connection_id :: string
  el_identity_assurance :: string
  el_trust_domain :: string
  el_trust_basis :: string

record a2a_transition_actor =
  ta_agent_identity_id :: string
  ta_connection_id :: string

record new_a2a_envelope =
  na_envelope_id :: string
  na_issuer_agent_identity_id :: string
  na_issuer_connection_id :: string
  na_recipient_agent_identity_id :: string
  na_subject_ref :: string
  na_body :: string
  na_idempotency_key :: string
  na_created_at :: string
  na_expires_at :: string

record a2a_envelope =
  en_envelope_id :: string
  en_kind :: string
  en_issuer_agent_identity_id :: string
  en_issuer_admission_id :: string
  en_recipient_agent_identity_id :: string
  en_recipient_admission_id :: string
  en_subject_ref :: string
  en_body :: "string option"
  en_body_digest :: string
  en_issuer_identity_assurance :: string
  en_recipient_identity_assurance :: string
  en_issuer_trust_domain :: string
  en_recipient_trust_domain :: string
  en_issuer_trust_basis :: string
  en_recipient_trust_basis :: string
  en_idempotency_key :: string
  en_created_at :: string
  en_expires_at :: string
  en_current_state :: string
  en_state_version :: int

record a2a_delivery_receipt =
  dr_receipt_id :: string
  dr_envelope_id :: string
  dr_envelope_version :: int
  dr_state :: string
  dr_actor_agent_identity_id :: string
  dr_actor_admission_id :: string
  dr_identity_assurance :: string
  dr_trust_domain :: string
  dr_trust_basis :: string
  dr_occurred_at :: string

datatype a2a_insert_outcome =
    A2aCreated a2a_envelope a2a_delivery_receipt
  | A2aReplay a2a_envelope a2a_delivery_receipt

record a2a_status_row =
  sr_envelope_id :: string
  sr_kind :: string
  sr_issuer_agent_identity_id :: string
  sr_issuer_admission_id :: string
  sr_recipient_agent_identity_id :: string
  sr_recipient_admission_id :: string
  sr_subject_ref :: string
  sr_body_digest :: string
  sr_created_at :: string
  sr_expires_at :: string
  sr_current_state :: string
  sr_state_version :: int
  sr_issuer_identity_assurance :: string
  sr_recipient_identity_assurance :: string
  sr_issuer_trust_basis :: string
  sr_recipient_trust_basis :: string
  sr_receipts :: "a2a_delivery_receipt list"

record a2a_db =
  ad_work :: work_db
  ad_envelopes :: "(string \<times> a2a_envelope) list"
  ad_receipts :: "(string \<times> a2a_delivery_receipt) list"

datatype a2a_error = A2aInvalidArg | A2aDuplicate string string | A2aInternal string | A2aRowMissing | A2aConstraint

type_synonym 'r a2a_write = "a2a_db \<Rightarrow> ('r \<times> a2a_db, a2a_error) result"

text \<open>
  What the code uses beyond the clock library of the work claims: SHA-256 and SQLite's
  \<open>unixepoch(t, '+n days')\<close>, nothing for text that is not a time.
\<close>

record a2a_lib = claims_lib +
  sha256_bytes :: "string \<Rightarrow> 8 word list"
  unixepoch :: "string \<Rightarrow> int \<Rightarrow> int option"

section \<open>Arguments\<close>

definition a2a_refuse_blank :: "string \<Rightarrow> (unit, a2a_error) result" where
  "a2a_refuse_blank v = (if blank v then Err A2aInvalidArg else Ok ())"

fun a2a_refuse_blanks :: "string list \<Rightarrow> (unit, a2a_error) result" where
  "a2a_refuse_blanks [] = Ok ()"
| "a2a_refuse_blanks (v # vs) = and_then (a2a_refuse_blank v) (\<lambda>_. a2a_refuse_blanks vs)"

definition validate_subject_ref :: "string \<Rightarrow> (unit, a2a_error) result" where
  "validate_subject_ref subject =
     (if list_ex (\<lambda>p. is_some_and (\<lambda>i. \<not> blank i) (strip_prefix p subject)) [''peer_publication:'', ''a2a_envelope:'']
      then Ok () else Err A2aInvalidArg)"

definition validate_limit :: "nat \<Rightarrow> (nat, a2a_error) result" where
  "validate_limit limit = (if 1 \<le> limit \<and> limit \<le> MAX_A2A_STORAGE_BATCH then Ok limit else Err A2aInvalidArg)"

definition a2a_normalize :: "'a a2a_lib_scheme \<Rightarrow> string \<Rightarrow> (string, a2a_error) result" where
  "a2a_normalize lib ts = (case normalize_utc_iso lib ts of Some s \<Rightarrow> Ok s | None \<Rightarrow> Err A2aInvalidArg)"

section \<open>Admissions\<close>

text \<open>The join of an identity with its \<open>self_asserted\<close> admissions, newest first.\<close>

definition local_admissions :: "work_db \<Rightarrow> string \<Rightarrow> (identity_admission \<Rightarrow> bool) \<Rightarrow> identity_admission list" where
  "local_admissions w agent guard =
     (if map_of (wd_identities w) agent = None then []
      else sort_desc (\<lambda>a. (ia_created_at a, ia_admission_id a))
             (filter (\<lambda>a. ia_agent_identity_id a = Some agent \<and> guard a \<and> ia_state a = ''self_asserted'') (map snd (wd_admissions w))))"

definition eligible_as :: "string \<Rightarrow> string \<Rightarrow> identity_admission \<Rightarrow> a2a_recipient_eligibility" where
  "eligible_as agent basis a =
     \<lparr> el_agent_identity_id = agent, el_admission_id = ia_admission_id a, el_connection_id = ia_connection_id a,
       el_identity_assurance = ia_state a, el_trust_domain = A2A_SAME_HOST_TRUST_DOMAIN, el_trust_basis = basis \<rparr>"

definition resolve_a2a_recipient_eligibility :: "string \<Rightarrow> a2a_db \<Rightarrow> (a2a_recipient_eligibility option, a2a_error) result" where
  "resolve_a2a_recipient_eligibility agent db =
     and_then (a2a_refuse_blank agent) (\<lambda>_.
       Ok (case local_admissions (ad_work db) agent (\<lambda>_. True) of
             [] \<Rightarrow> None | a # _ \<Rightarrow> Some (eligible_as agent ''historical_local_admission'' a)))"

definition resolve_current_local_admission :: "string \<Rightarrow> string \<Rightarrow> a2a_db \<Rightarrow> a2a_recipient_eligibility option" where
  "resolve_current_local_admission agent connection db =
     (case local_admissions (ad_work db) agent (\<lambda>a. ia_connection_id a = connection) of
        [] \<Rightarrow> None | a # _ \<Rightarrow> Some (eligible_as agent ''current_local_connection'' a))"

section \<open>The tables\<close>

definition find_envelope :: "a2a_db \<Rightarrow> string \<Rightarrow> a2a_envelope option" where
  "find_envelope db i = map_of (ad_envelopes db) i"

definition a2a_envelopes :: "a2a_db \<Rightarrow> a2a_envelope list" where
  "a2a_envelopes db = map snd (ad_envelopes db)"

definition a2a_receipts :: "a2a_db \<Rightarrow> a2a_delivery_receipt list" where
  "a2a_receipts db = map snd (ad_receipts db)"

definition A2A_STATES :: "string list" where
  "A2A_STATES = [''received'', ''accepted'', ''consumed'', ''expired'']"

definition is_lower_hex :: "char \<Rightarrow> bool" where
  "is_lower_hex c \<longleftrightarrow> is_ascii_digit c \<or> 97 \<le> (of_char c :: nat) \<and> (of_char c :: nat) \<le> 102"

definition body_digest_check :: "string \<Rightarrow> bool" where
  "body_digest_check d \<longleftrightarrow> length d = 64 \<and> d = to_ascii_lowercase d \<and> list_all is_lower_hex d"

definition envelope_checks :: "a2a_envelope \<Rightarrow> bool" where
  "envelope_checks e \<longleftrightarrow>
     en_kind e = ''turn_response/v1'' \<and> body_digest_check (en_body_digest e)
   \<and> en_issuer_identity_assurance e = ''self_asserted'' \<and> en_recipient_identity_assurance e = ''self_asserted''
   \<and> en_issuer_trust_domain e = ''same_host'' \<and> en_recipient_trust_domain e = ''same_host''
   \<and> en_issuer_trust_basis e = ''current_local_connection'' \<and> en_recipient_trust_basis e = ''historical_local_admission''
   \<and> en_current_state e \<in> set A2A_STATES \<and> 0 < en_state_version e
   \<and> list_ex (\<lambda>c. c \<noteq> CHR '' '') (en_subject_ref e)
   \<and> (case en_body e of None \<Rightarrow> True | Some b \<Rightarrow> 1 \<le> length b \<and> length b \<le> 4096)
   \<and> en_created_at e < en_expires_at e"

definition known_admission :: "work_db \<Rightarrow> string \<Rightarrow> bool" where
  "known_admission w i \<longleftrightarrow> map_of (wd_admissions w) i \<noteq> None"

definition insert_envelope_row :: "a2a_envelope \<Rightarrow> unit a2a_write" where
  "insert_envelope_row e db =
     (if find_envelope db (en_envelope_id e) \<noteq> None
        \<or> list_ex (\<lambda>x. en_issuer_agent_identity_id x = en_issuer_agent_identity_id e
                     \<and> en_idempotency_key x = en_idempotency_key e) (a2a_envelopes db)
        \<or> \<not> envelope_checks e
        \<or> \<not> known_identity (ad_work db) (en_issuer_agent_identity_id e) \<or> \<not> known_admission (ad_work db) (en_issuer_admission_id e)
        \<or> \<not> known_identity (ad_work db) (en_recipient_agent_identity_id e) \<or> \<not> known_admission (ad_work db) (en_recipient_admission_id e)
      then Err A2aConstraint
      else Ok ((), db\<lparr> ad_envelopes := bt_insert (en_envelope_id e) e (ad_envelopes db) \<rparr>))"

definition receipt_checks :: "a2a_delivery_receipt \<Rightarrow> bool" where
  "receipt_checks r \<longleftrightarrow>
     0 < dr_envelope_version r \<and> dr_state r \<in> set A2A_STATES \<and> dr_identity_assurance r = ''self_asserted''
   \<and> dr_trust_domain r = ''same_host'' \<and> dr_trust_basis r \<in> {''current_local_connection'', ''historical_local_admission''}"

definition insert_receipt_row :: "a2a_delivery_receipt \<Rightarrow> unit a2a_write" where
  "insert_receipt_row r db =
     (if map_of (ad_receipts db) (dr_receipt_id r) \<noteq> None
        \<or> list_ex (\<lambda>x. dr_envelope_id x = dr_envelope_id r
                     \<and> (dr_envelope_version x = dr_envelope_version r \<or> dr_state x = dr_state r)) (a2a_receipts db)
        \<or> \<not> receipt_checks r
        \<or> find_envelope db (dr_envelope_id r) = None
        \<or> \<not> known_identity (ad_work db) (dr_actor_agent_identity_id r) \<or> \<not> known_admission (ad_work db) (dr_actor_admission_id r)
      then Err A2aConstraint
      else Ok ((), db\<lparr> ad_receipts := bt_insert (dr_receipt_id r) r (ad_receipts db) \<rparr>))"

text \<open>\<open>UPDATE a2a_envelopes SET ... WHERE envelope_id = i AND guard\<close>, with the rows changed.\<close>

definition update_envelope :: "string \<Rightarrow> (a2a_envelope \<Rightarrow> bool) \<Rightarrow> (a2a_envelope \<Rightarrow> a2a_envelope) \<Rightarrow> a2a_db \<Rightarrow> nat \<times> a2a_db" where
  "update_envelope i guard f db =
     (if is_some_and guard (find_envelope db i)
      then (1, db\<lparr> ad_envelopes := update_row i f (ad_envelopes db) \<rparr>) else (0, db))"

definition read_envelope_by_id :: "string \<Rightarrow> a2a_db \<Rightarrow> (a2a_envelope, a2a_error) result" where
  "read_envelope_by_id i db = (case find_envelope db i of Some e \<Rightarrow> Ok e | None \<Rightarrow> Err A2aRowMissing)"

definition read_received_receipt :: "string \<Rightarrow> a2a_db \<Rightarrow> (a2a_delivery_receipt, a2a_error) result" where
  "read_received_receipt i db =
     (case filter (\<lambda>r. dr_envelope_id r = i \<and> dr_state r = ''received'') (a2a_receipts db) of
        r # _ \<Rightarrow> Ok r | [] \<Rightarrow> Err A2aRowMissing)"

text \<open>\<open>{id}:{state}:{version}\<close>; versions are positive.\<close>

definition receipt_id_of :: "string \<Rightarrow> string \<Rightarrow> int \<Rightarrow> string" where
  "receipt_id_of i state version = i @ '':'' @ state @ '':'' @ show_nat (nat version)"

section \<open>Inserting\<close>

definition ttl_matches :: "'a a2a_lib_scheme \<Rightarrow> a2a_envelope \<Rightarrow> string \<Rightarrow> string \<Rightarrow> bool" where
  "ttl_matches lib e created expires =
     (case (parse_from_rfc3339 lib (en_created_at e), parse_from_rfc3339 lib (en_expires_at e),
            parse_from_rfc3339 lib created, parse_from_rfc3339 lib expires) of
        (Some ec, Some ee, Some rc, Some re) \<Rightarrow> ee - ec = re - rc
      | _ \<Rightarrow> False)"

definition payload_matches :: "'a a2a_lib_scheme \<Rightarrow> a2a_envelope \<Rightarrow> new_a2a_envelope \<Rightarrow> string \<Rightarrow> string \<Rightarrow> string \<Rightarrow> bool" where
  "payload_matches lib e request digest created expires \<longleftrightarrow>
     en_kind e = A2A_TURN_RESPONSE_KIND
   \<and> en_issuer_agent_identity_id e = na_issuer_agent_identity_id request
   \<and> en_recipient_agent_identity_id e = na_recipient_agent_identity_id request
   \<and> en_subject_ref e = na_subject_ref request
   \<and> (case en_body e of None \<Rightarrow> True | Some b \<Rightarrow> b = na_body request)
   \<and> en_body_digest e = digest
   \<and> en_issuer_trust_domain e = A2A_SAME_HOST_TRUST_DOMAIN
   \<and> en_recipient_trust_domain e = A2A_SAME_HOST_TRUST_DOMAIN
   \<and> ttl_matches lib e created expires"

definition a2a_body_digest :: "'a a2a_lib_scheme \<Rightarrow> string \<Rightarrow> string" where
  "a2a_body_digest lib body = concat (map hex_byte (sha256_bytes lib body))"

definition envelope_of ::
  "new_a2a_envelope \<Rightarrow> a2a_recipient_eligibility \<Rightarrow> a2a_recipient_eligibility \<Rightarrow> string \<Rightarrow> string \<Rightarrow> string \<Rightarrow> a2a_envelope" where
  "envelope_of request issuer recipient digest created expires =
     \<lparr> en_envelope_id = na_envelope_id request, en_kind = ''turn_response/v1'',
       en_issuer_agent_identity_id = na_issuer_agent_identity_id request, en_issuer_admission_id = el_admission_id issuer,
       en_recipient_agent_identity_id = na_recipient_agent_identity_id request, en_recipient_admission_id = el_admission_id recipient,
       en_subject_ref = na_subject_ref request, en_body = Some (na_body request), en_body_digest = digest,
       en_issuer_identity_assurance = el_identity_assurance issuer, en_recipient_identity_assurance = el_identity_assurance recipient,
       en_issuer_trust_domain = el_trust_domain issuer, en_recipient_trust_domain = el_trust_domain recipient,
       en_issuer_trust_basis = el_trust_basis issuer, en_recipient_trust_basis = el_trust_basis recipient,
       en_idempotency_key = na_idempotency_key request, en_created_at = created, en_expires_at = expires,
       en_current_state = ''received'', en_state_version = 1 \<rparr>"

definition received_receipt :: "new_a2a_envelope \<Rightarrow> a2a_recipient_eligibility \<Rightarrow> string \<Rightarrow> a2a_delivery_receipt" where
  "received_receipt request issuer created =
     \<lparr> dr_receipt_id = receipt_id_of (na_envelope_id request) ''received'' 1, dr_envelope_id = na_envelope_id request,
       dr_envelope_version = 1, dr_state = ''received'', dr_actor_agent_identity_id = na_issuer_agent_identity_id request,
       dr_actor_admission_id = el_admission_id issuer, dr_identity_assurance = el_identity_assurance issuer,
       dr_trust_domain = el_trust_domain issuer, dr_trust_basis = el_trust_basis issuer, dr_occurred_at = created \<rparr>"

definition keyed_envelope :: "string \<Rightarrow> string \<Rightarrow> a2a_db \<Rightarrow> a2a_envelope option" where
  "keyed_envelope issuer key db =
     find (\<lambda>e. en_issuer_agent_identity_id e = issuer \<and> en_idempotency_key e = key) (a2a_envelopes db)"

definition or_invalid :: "'t option \<Rightarrow> ('t, a2a_error) result" where
  "or_invalid x = (case x of Some t \<Rightarrow> Ok t | None \<Rightarrow> Err A2aInvalidArg)"

text \<open>The request once its arguments are accepted: normalised instants, digest, both parties.\<close>

definition admit_request ::
  "'a a2a_lib_scheme \<Rightarrow> new_a2a_envelope \<Rightarrow> a2a_db \<Rightarrow>
     (string \<times> string \<times> string \<times> a2a_recipient_eligibility \<times> a2a_recipient_eligibility, a2a_error) result" where
  "admit_request lib request db =
     (if MAX_A2A_TURN_RESPONSE_BYTES < length (na_body request) then Err A2aInvalidArg
      else and_then (a2a_refuse_blanks [na_envelope_id request, na_issuer_agent_identity_id request, na_issuer_connection_id request,
             na_recipient_agent_identity_id request, na_body request, na_idempotency_key request]) (\<lambda>_.
           and_then (validate_subject_ref (na_subject_ref request)) (\<lambda>_.
           and_then (a2a_normalize lib (na_created_at request)) (\<lambda>created.
           and_then (a2a_normalize lib (na_expires_at request)) (\<lambda>expires.
           if expires \<le> created then Err A2aInvalidArg
           else let digest = a2a_body_digest lib (na_body request) in
           and_then (or_invalid (resolve_current_local_admission (na_issuer_agent_identity_id request) (na_issuer_connection_id request) db)) (\<lambda>issuer.
           and_then (resolve_a2a_recipient_eligibility (na_recipient_agent_identity_id request) db) (\<lambda>found.
           and_then (or_invalid found) (\<lambda>recipient.
             Ok (created, expires, digest, issuer, recipient)))))))))"

definition insert_a2a_envelope :: "'a a2a_lib_scheme \<Rightarrow> new_a2a_envelope \<Rightarrow> a2a_insert_outcome a2a_write" where
  "insert_a2a_envelope lib request db =
     and_then (admit_request lib request db) (\<lambda>(created, expires, digest, issuer, recipient).
       case keyed_envelope (na_issuer_agent_identity_id request) (na_idempotency_key request) db of
         Some existing \<Rightarrow>
           (if \<not> payload_matches lib existing request digest created expires
            then Err (A2aDuplicate (na_issuer_agent_identity_id request) (na_idempotency_key request))
            else and_then (read_received_receipt (en_envelope_id existing) db) (\<lambda>receipt. Ok (A2aReplay existing receipt, db)))
       | None \<Rightarrow>
           and_then (insert_envelope_row (envelope_of request issuer recipient digest created expires) db) (\<lambda>(_, db1).
           and_then (insert_receipt_row (received_receipt request issuer created) db1) (\<lambda>(_, db2).
           and_then (read_envelope_by_id (na_envelope_id request) db2) (\<lambda>envelope.
           and_then (read_received_receipt (na_envelope_id request) db2) (\<lambda>receipt.
             Ok (A2aCreated envelope receipt, db2))))))"

section \<open>Status\<close>

definition receipts_of :: "a2a_db \<Rightarrow> string \<Rightarrow> a2a_delivery_receipt list" where
  "receipts_of db i = sort_key dr_envelope_version (filter (\<lambda>r. dr_envelope_id r = i) (a2a_receipts db))"

definition status_row :: "a2a_db \<Rightarrow> a2a_envelope \<Rightarrow> a2a_status_row" where
  "status_row db e =
     \<lparr> sr_envelope_id = en_envelope_id e, sr_kind = en_kind e, sr_issuer_agent_identity_id = en_issuer_agent_identity_id e,
       sr_issuer_admission_id = en_issuer_admission_id e, sr_recipient_agent_identity_id = en_recipient_agent_identity_id e,
       sr_recipient_admission_id = en_recipient_admission_id e, sr_subject_ref = en_subject_ref e, sr_body_digest = en_body_digest e,
       sr_created_at = en_created_at e, sr_expires_at = en_expires_at e, sr_current_state = en_current_state e,
       sr_state_version = en_state_version e, sr_issuer_identity_assurance = en_issuer_identity_assurance e,
       sr_recipient_identity_assurance = en_recipient_identity_assurance e, sr_issuer_trust_basis = en_issuer_trust_basis e,
       sr_recipient_trust_basis = en_recipient_trust_basis e, sr_receipts = receipts_of db (en_envelope_id e) \<rparr>"

definition list_a2a_status :: "string \<Rightarrow> nat \<Rightarrow> a2a_db \<Rightarrow> (a2a_status_row list, a2a_error) result" where
  "list_a2a_status agent limit db =
     and_then (a2a_refuse_blank agent) (\<lambda>_. and_then (validate_limit limit) (\<lambda>n.
       Ok (map (status_row db) (take n (sort_desc (\<lambda>e. (en_created_at e, en_envelope_id e))
             (filter (\<lambda>e. en_issuer_agent_identity_id e = agent \<or> en_recipient_agent_identity_id e = agent) (a2a_envelopes db)))))))"

section \<open>Transitions\<close>

definition transition_receipt :: "a2a_envelope \<Rightarrow> a2a_recipient_eligibility \<Rightarrow> int \<Rightarrow> string \<Rightarrow> string \<Rightarrow> a2a_delivery_receipt" where
  "transition_receipt e actor version state occurred =
     \<lparr> dr_receipt_id = receipt_id_of (en_envelope_id e) state version, dr_envelope_id = en_envelope_id e,
       dr_envelope_version = version, dr_state = state, dr_actor_agent_identity_id = el_agent_identity_id actor,
       dr_actor_admission_id = el_admission_id actor, dr_identity_assurance = el_identity_assurance actor,
       dr_trust_domain = el_trust_domain actor, dr_trust_basis = el_trust_basis actor, dr_occurred_at = occurred \<rparr>"

definition append_transition_receipt :: "a2a_envelope \<Rightarrow> a2a_recipient_eligibility \<Rightarrow> int \<Rightarrow> string \<Rightarrow> string \<Rightarrow> unit a2a_write" where
  "append_transition_receipt e actor version state occurred db = insert_receipt_row (transition_receipt e actor version state occurred) db"

definition due_envelopes :: "string \<Rightarrow> nat \<Rightarrow> string \<Rightarrow> a2a_db \<Rightarrow> a2a_envelope list" where
  "due_envelopes agent limit now db =
     take limit (sort_key (\<lambda>e. (en_expires_at e, en_envelope_id e))
       (filter (\<lambda>e. en_recipient_agent_identity_id e = agent \<and> en_current_state e \<in> {''received'', ''accepted''} \<and> en_expires_at e \<le> now)
         (a2a_envelopes db)))"

fun expire_each :: "a2a_recipient_eligibility \<Rightarrow> string \<Rightarrow> a2a_envelope list \<Rightarrow> unit a2a_write" where
  "expire_each actor now [] db = Ok ((), db)"
| "expire_each actor now (e # es) db =
     (let next_version = en_state_version e + 1;
          (changed, db1) = update_envelope (en_envelope_id e)
             (\<lambda>r. en_current_state r = en_current_state e \<and> en_state_version r = en_state_version e)
             (\<lambda>r. r\<lparr> en_current_state := ''expired'', en_state_version := next_version \<rparr>) db
      in if changed \<noteq> 1 then Err (A2aInternal (en_envelope_id e))
         else and_then (append_transition_receipt e actor next_version ''expired'' now db1) (\<lambda>(_, db2). expire_each actor now es db2))"

definition expire_a2a_for_recipient_in_tx :: "a2a_recipient_eligibility \<Rightarrow> nat \<Rightarrow> string \<Rightarrow> nat a2a_write" where
  "expire_a2a_for_recipient_in_tx actor limit now db =
     (let es = due_envelopes (el_agent_identity_id actor) limit now db
      in and_then (expire_each actor now es db) (\<lambda>(_, db'). Ok (length es, db')))"

text \<open>What both recipient calls check first.\<close>

definition admit_actor ::
  "'a a2a_lib_scheme \<Rightarrow> a2a_transition_actor \<Rightarrow> nat \<Rightarrow> string \<Rightarrow> a2a_db \<Rightarrow> (nat \<times> string \<times> a2a_recipient_eligibility, a2a_error) result" where
  "admit_actor lib actor limit now db =
     and_then (a2a_refuse_blank (ta_agent_identity_id actor)) (\<lambda>_.
     and_then (a2a_refuse_blank (ta_connection_id actor)) (\<lambda>_.
     and_then (validate_limit limit) (\<lambda>n.
     and_then (a2a_normalize lib now) (\<lambda>t.
     and_then (or_invalid (resolve_current_local_admission (ta_agent_identity_id actor) (ta_connection_id actor) db)) (\<lambda>recipient.
       Ok (n, t, recipient))))))"

definition expire_a2a_for_recipient :: "'a a2a_lib_scheme \<Rightarrow> a2a_transition_actor \<Rightarrow> nat \<Rightarrow> string \<Rightarrow> nat a2a_write" where
  "expire_a2a_for_recipient lib actor limit now db =
     and_then (admit_actor lib actor limit now db) (\<lambda>(n, t, recipient). expire_a2a_for_recipient_in_tx recipient n t db)"

definition ready_envelopes :: "string \<Rightarrow> nat \<Rightarrow> string \<Rightarrow> a2a_db \<Rightarrow> a2a_envelope list" where
  "ready_envelopes agent limit now db =
     take limit (sort_key (\<lambda>e. (en_created_at e, en_envelope_id e))
       (filter (\<lambda>e. en_recipient_agent_identity_id e = agent \<and> en_current_state e = ''received'' \<and> now < en_expires_at e)
         (a2a_envelopes db)))"

definition consume_move :: "a2a_recipient_eligibility \<Rightarrow> string \<Rightarrow> a2a_envelope \<Rightarrow> string \<Rightarrow> int \<Rightarrow> string \<Rightarrow> unit a2a_write" where
  "consume_move recipient now e state_now version_now state_next db =
     (let (changed, db1) = update_envelope (en_envelope_id e)
            (\<lambda>r. en_recipient_agent_identity_id r = el_agent_identity_id recipient \<and> en_current_state r = state_now \<and> en_state_version r = version_now)
            (\<lambda>r. r\<lparr> en_current_state := state_next, en_state_version := version_now + 1 \<rparr>) db
      in if changed \<noteq> 1 then Err (A2aInternal (en_envelope_id e))
         else append_transition_receipt e recipient (version_now + 1) state_next now db1)"

fun consume_each :: "a2a_recipient_eligibility \<Rightarrow> string \<Rightarrow> a2a_envelope list \<Rightarrow> a2a_envelope list a2a_write" where
  "consume_each recipient now [] db = Ok ([], db)"
| "consume_each recipient now (e # es) db =
     (if en_body e = None then Err (A2aInternal (en_envelope_id e))
      else and_then (consume_move recipient now e ''received'' (en_state_version e) ''accepted'' db) (\<lambda>(_, db1).
           and_then (consume_move recipient now e ''accepted'' (en_state_version e + 1) ''consumed'' db1) (\<lambda>(_, db2).
           and_then (read_envelope_by_id (en_envelope_id e) db2) (\<lambda>done.
           and_then (consume_each recipient now es db2) (\<lambda>(rest, db3). Ok (done # rest, db3))))))"

definition consume_a2a_for_recipient :: "'a a2a_lib_scheme \<Rightarrow> a2a_transition_actor \<Rightarrow> nat \<Rightarrow> string \<Rightarrow> a2a_envelope list a2a_write" where
  "consume_a2a_for_recipient lib actor limit now db =
     and_then (admit_actor lib actor limit now db) (\<lambda>(n, t, recipient).
     and_then (expire_a2a_for_recipient_in_tx recipient n t db) (\<lambda>(_, db1).
       consume_each recipient t (ready_envelopes (el_agent_identity_id recipient) n t db1) db1))"

section \<open>Retention\<close>

text \<open>
  The maintenance sweep drops the body of terminal envelopes ninety days after the receipt of
  their state, oldest first, a batch at a time.
\<close>

definition state_receipts :: "a2a_db \<Rightarrow> a2a_envelope \<Rightarrow> a2a_delivery_receipt list" where
  "state_receipts db e =
     filter (\<lambda>r. dr_envelope_id r = en_envelope_id e \<and> dr_state r = en_current_state e \<and> dr_envelope_version r = en_state_version e)
       (a2a_receipts db)"

definition at_or_before :: "int option \<Rightarrow> int option \<Rightarrow> bool" where
  "at_or_before x y = (case (x, y) of (Some a, Some b) \<Rightarrow> a \<le> b | _ \<Rightarrow> False)"

definition scrub_candidates :: "'a a2a_lib_scheme \<Rightarrow> string \<Rightarrow> a2a_db \<Rightarrow> string list" where
  "scrub_candidates lib as_of db =
     map snd (take A2A_BODY_SCRUB_BATCH (sort_key (\<lambda>p. p)
       [(dr_occurred_at r, en_envelope_id e). e \<leftarrow> a2a_envelopes db, en_body e \<noteq> None,
          en_current_state e \<in> {''consumed'', ''expired''}, r \<leftarrow> state_receipts db e,
          at_or_before (unixepoch lib (dr_occurred_at r) 90) (unixepoch lib as_of 0)]))"

definition scrub_body :: "string \<Rightarrow> a2a_db \<Rightarrow> a2a_db" where
  "scrub_body i db = snd (update_envelope i (\<lambda>_. True) (\<lambda>r. r\<lparr> en_body := None \<rparr>) db)"

definition scrub_a2a_bodies :: "'a a2a_lib_scheme \<Rightarrow> string \<Rightarrow> a2a_db \<Rightarrow> a2a_db" where
  "scrub_a2a_bodies lib as_of db = fold scrub_body (scrub_candidates lib as_of db) db"

end
