(* ===== verification/A2a_Laws.thy ===== *)
theory A2a_Laws
  imports A2a_Mailbox
begin

text \<open>
  The laws of the mailbox. The invariant \<open>mail_wf\<close> ties every envelope to the receipts of
  its states; one transition of one envelope (\<open>advance\<close>) succeeds on it and keeps it, and the
  calls are sequences of transitions, so that no call fails half way and each refines the
  state machine \<open>mail_moves\<close> of a single envelope.
\<close>

section \<open>The parties\<close>

text \<open>What the work claims promise the mailbox: identities and admissions are only ever added.\<close>

definition parties_ok :: "work_db \<Rightarrow> bool" where
  "parties_ok w \<longleftrightarrow> bt_wf (wd_identities w) \<and> bt_wf (wd_admissions w)
     \<and> (\<forall>k a. map_of (wd_admissions w) k = Some a \<longrightarrow> ia_admission_id a = k)"

definition parties_grow :: "work_db \<Rightarrow> work_db \<Rightarrow> bool" where
  "parties_grow w w' \<longleftrightarrow> map_of (wd_identities w) \<subseteq>\<^sub>m map_of (wd_identities w') \<and> map_of (wd_admissions w) \<subseteq>\<^sub>m map_of (wd_admissions w')"

definition same_parties :: "work_db \<Rightarrow> work_db \<Rightarrow> bool" where
  "same_parties w w' \<longleftrightarrow> wd_identities w' = wd_identities w \<and> wd_admissions w' = wd_admissions w"

lemma same_parties_keep: "parties_ok w \<Longrightarrow> same_parties w w' \<Longrightarrow> parties_ok w' \<and> parties_grow w w'"
  by (auto simp: parties_ok_def parties_grow_def same_parties_def)

lemma add_identity_parties:
  assumes "parties_ok w" "insert_agent_identity lib now ai w = Ok (u, w')"
  shows "parties_ok w' \<and> parties_grow w w'"
  using assms by (auto simp: insert_agent_identity_def Let_def parties_ok_def parties_grow_def map_le_def bt_simps split: if_splits)

lemma add_admission_parties:
  assumes "parties_ok w" "insert_admission a w = Ok (u, w')"
  shows "parties_ok w' \<and> parties_grow w w'"
  using assms by (auto simp: insert_admission_def parties_ok_def parties_grow_def map_le_def bt_simps split: if_splits)

lemma claim_calls_keep_parties:
  "insert_claim_row r w = Ok (u, w') \<Longrightarrow> same_parties w w'"
  "rebind_exec_env i a b env w = Ok w' \<Longrightarrow> same_parties w w'"
  by (auto simp: same_parties_def insert_claim_row_def rebind_exec_env_def split: if_splits option.splits)

lemma insert_work_claim_parties: "insert_work_claim lib now claim w = Ok (u, w') \<Longrightarrow> same_parties w w'"
  by (auto simp: insert_work_claim_def Let_def and_then_Inr_iff dest: claim_calls_keep_parties split: if_splits)

lemma versioned_calls_keep_parties:
  "insert_local_project_work_claim lib now claim c project w = Ok (u, w') \<Longrightarrow> same_parties w w'"
  "heartbeat_work_claim lib now i caller v lease w = Ok (hb, w') \<Longrightarrow> same_parties w w'"
  "release_work_claim lib now i caller v reason w = Ok (x, w') \<Longrightarrow> same_parties w w'"
  "bind_work_claim_exec_env i e v w = Ok (y, w') \<Longrightarrow> same_parties w w'"
  by (auto simp: same_parties_def insert_local_project_work_claim_def heartbeat_work_claim_def release_work_claim_def
      bind_work_claim_exec_env_def and_then_Inr_iff update_pair dest!: insert_work_claim_parties
      split: if_splits option.splits prod.splits)

lemma handoff_parties: "handoff_work_claim lib now i caller v s w = Ok (ho, w') \<Longrightarrow> same_parties w w'"
  by (auto simp: same_parties_def handoff_work_claim_def and_then_Inr_iff update_pair dest!: claim_calls_keep_parties(2)
      split: if_splits option.splits prod.splits)

lemma presence_calls_keep_parties:
  "insert_claim lib now p w = Ok (u, w') \<Longrightarrow> same_parties w w'"
  "upsert_or_heartbeat_claim lib now p w = Ok (j, w') \<Longrightarrow> same_parties w w'"
  "heartbeat_claim lib now sel w = Ok (u, w') \<Longrightarrow> same_parties w w'"
  "release_claim lib now sel why w = Ok (out, w') \<Longrightarrow> same_parties w w'"
  by (auto simp: same_parties_def insert_claim_def upsert_or_heartbeat_claim_def heartbeat_claim_def release_claim_def
      and_then_Inr_iff Let_def dest!: claim_calls_keep_parties(1)
      split: if_splits option.splits claim_selector.splits claim_state.splits)

lemma gc_parties: "gc_session_claims lib t d m w = (res, w') \<Longrightarrow> same_parties w w'"
  by (auto simp: same_parties_def gc_session_claims_def update_pair split: option.splits prod.splits)

lemmas parties_frames = insert_work_claim_parties versioned_calls_keep_parties handoff_parties presence_calls_keep_parties gc_parties

lemma work_step_parties:
  assumes "parties_ok w" "work_step lib w w'"
  shows "parties_ok w' \<and> parties_grow w w'"
  using assms(2)
proof cases
  case 1 then show ?thesis by (rule add_identity_parties [OF assms(1)])
next
  case 2 then show ?thesis using add_admission_parties [OF assms(1)] by (auto simp: record_unverified_admission_def split: if_splits)
next
  case 3 then show ?thesis using add_admission_parties [OF assms(1)] by (auto simp: record_rejected_admission_def split: if_splits)
next
  case (15 e) then show ?thesis by (intro same_parties_keep [OF assms(1)]) (simp add: same_parties_def add_exec_env_def)
qed (rule same_parties_keep [OF assms(1)], erule parties_frames)+

text \<open>An identity's \<open>self_asserted\<close> admission, once recorded, stays.\<close>

definition local_party :: "work_db \<Rightarrow> string \<Rightarrow> string \<Rightarrow> bool" where
  "local_party w agent admission \<longleftrightarrow> map_of (wd_identities w) agent \<noteq> None
     \<and> (\<exists>a. map_of (wd_admissions w) admission = Some a \<and> ia_agent_identity_id a = Some agent \<and> ia_state a = ''self_asserted'')"

lemma local_party_grow: "parties_grow w w' \<Longrightarrow> local_party w agent admission \<Longrightarrow> local_party w' agent admission"
  unfolding local_party_def parties_grow_def by (metis (no_types, lifting) domIff map_le_def map_le_implies_dom_le subsetD option.distinct(1))

lemma set_sort_desc [simp]: "set (sort_desc f xs) = set xs"
  by (simp add: sort_desc_def)

lemma local_admissions_party:
  assumes "parties_ok w" "local_admissions w agent guard = a # as"
  shows "local_party w agent (ia_admission_id a)" "ia_state a = ''self_asserted''"
proof -
  have "map_of (wd_identities w) agent \<noteq> None" "a \<in> set (local_admissions w agent guard)"
    using assms(2) by (auto simp: local_admissions_def split: if_splits)
  then have a: "a \<in> snd ` set (wd_admissions w)" "ia_agent_identity_id a = Some agent" "ia_state a = ''self_asserted''"
    "map_of (wd_identities w) agent \<noteq> None" by (auto simp: local_admissions_def)
  then obtain k where "map_of (wd_admissions w) k = Some a" using assms(1) by (auto simp: parties_ok_def bt_wf_distinct)
  then show "local_party w agent (ia_admission_id a)" "ia_state a = ''self_asserted''"
    using a assms(1) by (auto simp: local_party_def parties_ok_def)
qed

text \<open>The actor of a transition.\<close>

definition local_actor :: "work_db \<Rightarrow> string \<Rightarrow> a2a_recipient_eligibility \<Rightarrow> bool" where
  "local_actor w agent actor \<longleftrightarrow> el_agent_identity_id actor = agent \<and> local_party w agent (el_admission_id actor)
     \<and> el_identity_assurance actor = ''self_asserted'' \<and> el_trust_domain actor = ''same_host''"

lemma resolve_current:
  assumes "parties_ok (ad_work db)" "resolve_current_local_admission agent c db = Some actor"
  shows "local_actor (ad_work db) agent actor" "el_trust_basis actor = ''current_local_connection''"
  using assms local_admissions_party [OF assms(1)]
  by (auto simp: resolve_current_local_admission_def local_actor_def eligible_as_def A2A_SAME_HOST_TRUST_DOMAIN_def split: list.splits)

lemma resolve_recipient:
  assumes "parties_ok (ad_work db)" "resolve_a2a_recipient_eligibility agent db = Ok (Some actor)"
  shows "local_actor (ad_work db) agent actor" "el_trust_basis actor = ''historical_local_admission''"
  using assms local_admissions_party [OF assms(1)]
  by (auto simp: resolve_a2a_recipient_eligibility_def local_actor_def eligible_as_def A2A_SAME_HOST_TRUST_DOMAIN_def and_then_Inr_iff split: list.splits)

section \<open>The invariant\<close>

text \<open>The states an envelope has gone through, and where the code moves it next.\<close>

definition history_of :: "string \<Rightarrow> (string \<times> int) list" where
  "history_of state =
     (if state = ''received'' then [(''received'', 1)]
      else if state = ''accepted'' then [(''received'', 1), (''accepted'', 2)]
      else if state = ''consumed'' then [(''received'', 1), (''accepted'', 2), (''consumed'', 3)]
      else if state = ''expired'' then [(''received'', 1), (''expired'', 2)] else [])"

definition advances :: "string \<Rightarrow> string \<Rightarrow> bool" where
  "advances a b \<longleftrightarrow> (a, b) \<in> {(''received'', ''accepted''), (''accepted'', ''consumed''), (''received'', ''expired'')}"

lemma history_simps [simp]:
  "history_of ''received'' = [(''received'', 1)]"
  "history_of ''accepted'' = [(''received'', 1), (''accepted'', 2)]"
  "history_of ''consumed'' = [(''received'', 1), (''accepted'', 2), (''consumed'', 3)]"
  "history_of ''expired'' = [(''received'', 1), (''expired'', 2)]"
  by (simp_all add: history_of_def)

lemma advances_cases:
  assumes "advances a b"
  obtains "a = ''received''" "b = ''accepted''" | "a = ''accepted''" "b = ''consumed''" | "a = ''received''" "b = ''expired''"
  using assms by (auto simp: advances_def)

lemma advances_history: "advances a b \<Longrightarrow> history_of b = history_of a @ [(b, int (length (history_of a)) + 1)]"
  by (erule advances_cases) simp_all

lemma advances_new: "advances a b \<Longrightarrow> (s, v) \<in> set (history_of a) \<Longrightarrow> s \<noteq> b \<and> v \<noteq> int (length (history_of a)) + 1"
  by (erule advances_cases; hypsubst; simp; elim disjE conjE; hypsubst; simp)

lemma history_states: "(s, v) \<in> set (history_of a) \<Longrightarrow> s \<in> set A2A_STATES \<and> 0 < v"
  by (auto simp: history_of_def A2A_STATES_def split: if_splits)

lemma states_no_colon: "s \<in> set A2A_STATES \<Longrightarrow> CHR '':'' \<notin> set s"
  by (auto simp: A2A_STATES_def)

text \<open>When each state may be entered.\<close>

definition timely :: "a2a_envelope \<Rightarrow> string \<Rightarrow> string \<Rightarrow> bool" where
  "timely e state t \<longleftrightarrow>
     (if state = ''received'' then t = en_created_at e else if state = ''expired'' then en_expires_at e \<le> t else t < en_expires_at e)"

definition party_in :: "a2a_envelope \<Rightarrow> string \<Rightarrow> string" where
  "party_in e state = (if state = ''received'' then en_issuer_agent_identity_id e else en_recipient_agent_identity_id e)"

definition envelope_ok :: "'a a2a_lib_scheme \<Rightarrow> a2a_db \<Rightarrow> string \<Rightarrow> a2a_envelope \<Rightarrow> bool" where
  "envelope_ok lib db i e \<longleftrightarrow> en_envelope_id e = i \<and> envelope_checks e
     \<and> en_state_version e = int (length (history_of (en_current_state e)))
     \<and> (case en_body e of None \<Rightarrow> en_current_state e \<in> {''consumed'', ''expired''} | Some b \<Rightarrow> en_body_digest e = a2a_body_digest lib b)
     \<and> local_party (ad_work db) (en_issuer_agent_identity_id e) (en_issuer_admission_id e)
     \<and> local_party (ad_work db) (en_recipient_agent_identity_id e) (en_recipient_admission_id e)"

definition receipt_ok :: "a2a_db \<Rightarrow> string \<Rightarrow> a2a_delivery_receipt \<Rightarrow> bool" where
  "receipt_ok db k r \<longleftrightarrow> k = receipt_id_of (dr_envelope_id r) (dr_state r) (dr_envelope_version r) \<and> dr_receipt_id r = k \<and> receipt_checks r
     \<and> (\<exists>e. find_envelope db (dr_envelope_id r) = Some e
          \<and> (dr_state r, dr_envelope_version r) \<in> set (history_of (en_current_state e))
          \<and> dr_actor_agent_identity_id r = party_in e (dr_state r) \<and> timely e (dr_state r) (dr_occurred_at r))
     \<and> local_party (ad_work db) (dr_actor_agent_identity_id r) (dr_actor_admission_id r)"

definition complete_history :: "a2a_db \<Rightarrow> bool" where
  "complete_history db \<longleftrightarrow> (\<forall>i e s v. find_envelope db i = Some e \<longrightarrow> (s, v) \<in> set (history_of (en_current_state e))
     \<longrightarrow> map_of (ad_receipts db) (receipt_id_of i s v) \<noteq> None)"

definition keys_apart :: "a2a_db \<Rightarrow> bool" where
  "keys_apart db \<longleftrightarrow> (\<forall>i j e f. find_envelope db i = Some e \<longrightarrow> find_envelope db j = Some f
     \<longrightarrow> en_issuer_agent_identity_id e = en_issuer_agent_identity_id f \<longrightarrow> en_idempotency_key e = en_idempotency_key f \<longrightarrow> i = j)"

definition mail_wf :: "'a a2a_lib_scheme \<Rightarrow> a2a_db \<Rightarrow> bool" where
  "mail_wf lib db \<longleftrightarrow> parties_ok (ad_work db) \<and> bt_wf (ad_envelopes db) \<and> bt_wf (ad_receipts db)
     \<and> (\<forall>i e. find_envelope db i = Some e \<longrightarrow> envelope_ok lib db i e)
     \<and> (\<forall>k r. map_of (ad_receipts db) k = Some r \<longrightarrow> receipt_ok db k r)
     \<and> complete_history db \<and> keys_apart db"

lemma mail_wfD:
  assumes "mail_wf lib db"
  shows "parties_ok (ad_work db)" "bt_wf (ad_envelopes db)" "bt_wf (ad_receipts db)"
    "find_envelope db i = Some e \<Longrightarrow> envelope_ok lib db i e"
    "map_of (ad_receipts db) k = Some r \<Longrightarrow> receipt_ok db k r"
    "complete_history db" "keys_apart db"
  using assms by (auto simp: mail_wf_def)

lemma in_envelopes: "bt_wf (ad_envelopes db) \<Longrightarrow> e \<in> set (a2a_envelopes db) \<longleftrightarrow> (\<exists>i. find_envelope db i = Some e)"
  by (force simp: a2a_envelopes_def find_envelope_def bt_wf_distinct)

lemma in_receipts: "bt_wf (ad_receipts db) \<Longrightarrow> r \<in> set (a2a_receipts db) \<longleftrightarrow> (\<exists>k. map_of (ad_receipts db) k = Some r)"
  by (force simp: a2a_receipts_def bt_wf_distinct)

text \<open>Receipt ids are injective: versions are digits, states have no colon.\<close>

lemma colon_split:
  assumes "a @ CHR '':'' # x = b @ CHR '':'' # y" "CHR '':'' \<notin> set x" "CHR '':'' \<notin> set y"
  shows "a = b \<and> x = y"
proof -
  have "rev x @ CHR '':'' # rev a = rev y @ CHR '':'' # rev b" using arg_cong [OF assms(1), of rev] by simp
  moreover have "takeWhile (\<lambda>c. c \<noteq> CHR '':'') (rev x @ CHR '':'' # rev a) = rev x"
    "takeWhile (\<lambda>c. c \<noteq> CHR '':'') (rev y @ CHR '':'' # rev b) = rev y"
    using assms(2,3) by (auto simp: takeWhile_append)
  ultimately show ?thesis by simp
qed

lemma no_colon_digits: "CHR '':'' \<notin> set (show_nat n)"
  using digits_show_nat [of n] by (auto simp: list_all_iff is_ascii_digit_def)

lemma receipt_id_inject:
  assumes "receipt_id_of i s v = receipt_id_of j t w" "CHR '':'' \<notin> set s" "CHR '':'' \<notin> set t" "0 < v" "0 < w"
  shows "i = j \<and> s = t \<and> v = w"
proof -
  have "(i @ '':'' @ s) @ CHR '':'' # show_nat (nat v) = (j @ '':'' @ t) @ CHR '':'' # show_nat (nat w)"
    using assms(1) by (simp add: receipt_id_of_def)
  from colon_split [OF this no_colon_digits no_colon_digits] have "i @ CHR '':'' # s = j @ CHR '':'' # t" "nat v = nat w" by simp_all
  then show ?thesis using colon_split [OF _ assms(2,3)] assms(4,5) by auto
qed

text \<open>The receipts of an envelope are those of its history.\<close>

lemma receipt_iff:
  assumes "mail_wf lib db" "find_envelope db i = Some e" "s \<in> set A2A_STATES" "0 < v"
  shows "map_of (ad_receipts db) (receipt_id_of i s v) \<noteq> None \<longleftrightarrow> (s, v) \<in> set (history_of (en_current_state e))"
proof
  assume "map_of (ad_receipts db) (receipt_id_of i s v) \<noteq> None"
  then obtain r where "map_of (ad_receipts db) (receipt_id_of i s v) = Some r" by blast
  then have "receipt_ok db (receipt_id_of i s v) r" using mail_wfD(5) [OF assms(1)] by blast
  then obtain f where f: "receipt_id_of i s v = receipt_id_of (dr_envelope_id r) (dr_state r) (dr_envelope_version r)"
    "find_envelope db (dr_envelope_id r) = Some f" "(dr_state r, dr_envelope_version r) \<in> set (history_of (en_current_state f))"
    by (auto simp: receipt_ok_def)
  have "i = dr_envelope_id r \<and> s = dr_state r \<and> v = dr_envelope_version r"
    using receipt_id_inject [OF f(1)] history_states [OF f(3)] states_no_colon assms(3,4) by blast
  then show "(s, v) \<in> set (history_of (en_current_state e))" using assms(2) f(2,3) by simp
next
  assume "(s, v) \<in> set (history_of (en_current_state e))"
  then show "map_of (ad_receipts db) (receipt_id_of i s v) \<noteq> None"
    using mail_wfD(6) [OF assms(1)] assms(2) unfolding complete_history_def by blast
qed

section \<open>One transition\<close>

definition moved_row :: "string \<Rightarrow> a2a_envelope \<Rightarrow> a2a_envelope" where
  "moved_row b e = e\<lparr> en_current_state := b, en_state_version := en_state_version e + 1 \<rparr>"

definition moved :: "a2a_envelope \<Rightarrow> a2a_recipient_eligibility \<Rightarrow> string \<Rightarrow> string \<Rightarrow> a2a_db \<Rightarrow> a2a_db" where
  "moved e actor b t db =
     db\<lparr> ad_envelopes := update_row (en_envelope_id e) (\<lambda>_. moved_row b e) (ad_envelopes db),
         ad_receipts := bt_insert (receipt_id_of (en_envelope_id e) b (en_state_version e + 1))
                          (transition_receipt e actor (en_state_version e + 1) b t) (ad_receipts db) \<rparr>"

lemma mail_row_simps [simp]:
  "en_envelope_id (moved_row b e) = en_envelope_id e" "en_current_state (moved_row b e) = b"
  "en_state_version (moved_row b e) = en_state_version e + 1" "en_body (moved_row b e) = en_body e"
  "en_issuer_agent_identity_id (moved_row b e) = en_issuer_agent_identity_id e"
  "en_issuer_admission_id (moved_row b e) = en_issuer_admission_id e"
  "en_recipient_agent_identity_id (moved_row b e) = en_recipient_agent_identity_id e"
  "en_recipient_admission_id (moved_row b e) = en_recipient_admission_id e"
  "en_body_digest (moved_row b e) = en_body_digest e" "en_idempotency_key (moved_row b e) = en_idempotency_key e"
  "en_created_at (moved_row b e) = en_created_at e" "en_expires_at (moved_row b e) = en_expires_at e"
  by (simp_all add: moved_row_def)

lemma transition_receipt_simps [simp]:
  "dr_receipt_id (transition_receipt e actor v b t) = receipt_id_of (en_envelope_id e) b v"
  "dr_envelope_id (transition_receipt e actor v b t) = en_envelope_id e"
  "dr_envelope_version (transition_receipt e actor v b t) = v" "dr_state (transition_receipt e actor v b t) = b"
  "dr_actor_agent_identity_id (transition_receipt e actor v b t) = el_agent_identity_id actor"
  "dr_actor_admission_id (transition_receipt e actor v b t) = el_admission_id actor"
  "dr_identity_assurance (transition_receipt e actor v b t) = el_identity_assurance actor"
  "dr_trust_domain (transition_receipt e actor v b t) = el_trust_domain actor"
  "dr_trust_basis (transition_receipt e actor v b t) = el_trust_basis actor"
  "dr_occurred_at (transition_receipt e actor v b t) = t"
  by (simp_all add: transition_receipt_def)

lemma moved_tables [simp]:
  "ad_work (moved e actor b t db) = ad_work db"
  "find_envelope (moved e actor b t db) j =
     (if j = en_envelope_id e then map_option (\<lambda>_. moved_row b e) (find_envelope db j) else find_envelope db j)"
  by (simp_all add: moved_def find_envelope_def)

lemma moved_receipts:
  "bt_wf (ad_receipts db) \<Longrightarrow> map_of (ad_receipts (moved e actor b t db)) =
     (map_of (ad_receipts db))(receipt_id_of (en_envelope_id e) b (en_state_version e + 1) \<mapsto> transition_receipt e actor (en_state_version e + 1) b t)"
  by (simp add: moved_def bt_simps)

text \<open>The conditions under which the calls move an envelope.\<close>

definition may_move :: "a2a_db \<Rightarrow> a2a_envelope \<Rightarrow> a2a_recipient_eligibility \<Rightarrow> string \<Rightarrow> string \<Rightarrow> bool" where
  "may_move db e actor b t \<longleftrightarrow> find_envelope db (en_envelope_id e) = Some e \<and> advances (en_current_state e) b
     \<and> local_actor (ad_work db) (en_recipient_agent_identity_id e) actor \<and> el_trust_basis actor = ''current_local_connection'' \<and> timely e b t"

lemma advances_to: "advances a b \<Longrightarrow> b \<in> set A2A_STATES \<and> b \<noteq> ''received'' \<and> a \<notin> {''consumed'', ''expired''} \<and> a \<in> set A2A_STATES"
  by (erule advances_cases) (simp_all add: A2A_STATES_def)

lemma receipt_of_history:
  assumes "mail_wf lib db" "find_envelope db i = Some e" "map_of (ad_receipts db) k = Some x" "dr_envelope_id x = i"
  shows "(dr_state x, dr_envelope_version x) \<in> set (history_of (en_current_state e))"
  using mail_wfD(5) [OF assms(1,3)] assms(2,4) by (auto simp: receipt_ok_def)

lemma receipt_id_fresh:
  assumes "mail_wf lib db" "may_move db e actor b t"
  shows "map_of (ad_receipts db) (receipt_id_of (en_envelope_id e) b (en_state_version e + 1)) = None"
proof -
  have e: "find_envelope db (en_envelope_id e) = Some e" "advances (en_current_state e) b" using assms(2) by (auto simp: may_move_def)
  have v: "en_state_version e = int (length (history_of (en_current_state e)))" using mail_wfD(4) [OF assms(1) e(1)] by (simp add: envelope_ok_def)
  then have "(b, en_state_version e + 1) \<notin> set (history_of (en_current_state e))" using advances_new [OF e(2)] by fastforce
  then show ?thesis using receipt_iff [OF assms(1) e(1), of b "en_state_version e + 1"] advances_to [OF e(2)] v by auto
qed

lemma append_moves:
  assumes "mail_wf lib db" "may_move db e actor b t" "en_envelope_id e0 = en_envelope_id e" "v = en_state_version e + 1"
  shows "append_transition_receipt e0 actor v b t (db\<lparr> ad_envelopes := update_row (en_envelope_id e) (\<lambda>_. moved_row b e) (ad_envelopes db) \<rparr>)
     = Ok ((), moved e actor b t db)"
proof -
  let ?db = "db\<lparr> ad_envelopes := update_row (en_envelope_id e) (\<lambda>_. moved_row b e) (ad_envelopes db) \<rparr>"
  have r: "transition_receipt e0 actor v b t = transition_receipt e actor v b t" using assms(3) by (simp add: transition_receipt_def)
  have e: "find_envelope db (en_envelope_id e) = Some e" "advances (en_current_state e) b"
    "local_actor (ad_work db) (en_recipient_agent_identity_id e) actor" "el_trust_basis actor = ''current_local_connection''"
    using assms(2) by (auto simp: may_move_def)
  have ver: "en_state_version e = int (length (history_of (en_current_state e)))" using mail_wfD(4) [OF assms(1) e(1)] by (simp add: envelope_ok_def)
  have "\<not> (dr_envelope_version x = v \<or> dr_state x = b)" if x: "x \<in> set (a2a_receipts db)" "dr_envelope_id x = en_envelope_id e" for x
  proof -
    obtain k where "map_of (ad_receipts db) k = Some x" using x(1) in_receipts [OF mail_wfD(3) [OF assms(1)]] by auto
    from advances_new [OF e(2) receipt_of_history [OF assms(1) e(1) this x(2)]] show ?thesis by (simp add: assms(4) ver)
  qed
  then have "\<not> list_ex (\<lambda>x. dr_envelope_id x = en_envelope_id e \<and> (dr_envelope_version x = v \<or> dr_state x = b)) (a2a_receipts ?db)"
    by (auto simp: list_ex_iff a2a_receipts_def)
  moreover have "receipt_checks (transition_receipt e actor v b t)"
    using e(3,4) advances_to [OF e(2)] ver by (simp add: receipt_checks_def local_actor_def assms(4))
  moreover have "find_envelope ?db (en_envelope_id e) \<noteq> None" using e(1) by (simp add: find_envelope_def)
  moreover have "known_identity (ad_work ?db) (el_agent_identity_id actor)" "known_admission (ad_work ?db) (el_admission_id actor)"
    using e(3) by (auto simp: local_actor_def local_party_def known_identity_def known_admission_def)
  ultimately show ?thesis
    using receipt_id_fresh [OF assms(1,2)]
    unfolding append_transition_receipt_def r insert_receipt_row_def moved_def by (simp add: assms(4))
qed

lemma moved_wf:
  assumes "mail_wf lib db" "may_move db e actor b t"
  shows "mail_wf lib (moved e actor b t db)"
proof -
  let ?i = "en_envelope_id e" and ?v = "en_state_version e + 1" and ?db = "moved e actor b t db"
  have e: "find_envelope db ?i = Some e" "advances (en_current_state e) b" "timely e b t"
    "local_actor (ad_work db) (en_recipient_agent_identity_id e) actor" "el_trust_basis actor = ''current_local_connection''"
    using assms(2) by (auto simp: may_move_def)
  note to = advances_to [OF e(2)]
  have ok: "envelope_ok lib db ?i e" using mail_wfD(4) [OF assms(1) e(1)] .
  then have v: "en_state_version e = int (length (history_of (en_current_state e)))" by (simp add: envelope_ok_def)
  have h: "history_of b = history_of (en_current_state e) @ [(b, ?v)]" using advances_history [OF e(2)] v by simp
  have checks: "envelope_checks (moved_row b e)" using ok to unfolding envelope_ok_def envelope_checks_def by (simp add: moved_row_def)
  have party: "party_in (moved_row b e) = party_in e" "timely (moved_row b e) = timely e"
    by (auto simp: party_in_def timely_def fun_eq_iff)
  have rs: "map_of (ad_receipts ?db) = (map_of (ad_receipts db))(receipt_id_of ?i b ?v \<mapsto> transition_receipt e actor ?v b t)"
    using moved_receipts [OF mail_wfD(3) [OF assms(1)]] .
  have "envelope_ok lib ?db j f" if f: "find_envelope ?db j = Some f" for j f
  proof (cases "j = ?i")
    case True
    then have "f = moved_row b e" using f e(1) by simp
    then show ?thesis using True ok checks to h v by (auto simp: envelope_ok_def split: option.splits)
  next
    case False
    then have "envelope_ok lib db j f" using f mail_wfD(4) [OF assms(1)] by simp
    then show ?thesis by (simp add: envelope_ok_def)
  qed
  moreover have "receipt_ok ?db k r" if r: "map_of (ad_receipts ?db) k = Some r" for k r
  proof (cases "k = receipt_id_of ?i b ?v")
    case True
    then have "r = transition_receipt e actor ?v b t" using r rs by simp
    then show ?thesis
      using True e to h party v by (auto simp: receipt_ok_def receipt_checks_def local_actor_def party_in_def)
  next
    case False
    then have old: "receipt_ok db k r" using r rs mail_wfD(5) [OF assms(1)] by simp
    then obtain f where f: "find_envelope db (dr_envelope_id r) = Some f"
      "(dr_state r, dr_envelope_version r) \<in> set (history_of (en_current_state f))"
      "dr_actor_agent_identity_id r = party_in f (dr_state r)" "timely f (dr_state r) (dr_occurred_at r)" by (auto simp: receipt_ok_def)
    have "\<exists>f'. find_envelope ?db (dr_envelope_id r) = Some f' \<and> (dr_state r, dr_envelope_version r) \<in> set (history_of (en_current_state f'))
        \<and> dr_actor_agent_identity_id r = party_in f' (dr_state r) \<and> timely f' (dr_state r) (dr_occurred_at r)"
      using f e(1) h party by (cases "dr_envelope_id r = ?i") auto
    then show ?thesis using old by (simp add: receipt_ok_def)
  qed
  moreover have "complete_history ?db"
    unfolding complete_history_def
  proof (intro allI impI)
    fix j f s w assume f: "find_envelope ?db j = Some f" "(s, w) \<in> set (history_of (en_current_state f))"
    have "map_of (ad_receipts db) (receipt_id_of j s w) \<noteq> None \<or> j = ?i \<and> s = b \<and> w = ?v"
    proof (cases "j = ?i")
      case True
      then have "(s, w) \<in> set (history_of (en_current_state e)) \<or> s = b \<and> w = ?v" using f h e(1) by auto
      then show ?thesis using True e(1) mail_wfD(6) [OF assms(1)] unfolding complete_history_def by blast
    next
      case False
      then show ?thesis using f mail_wfD(6) [OF assms(1)] unfolding complete_history_def by auto
    qed
    then show "map_of (ad_receipts ?db) (receipt_id_of j s w) \<noteq> None" unfolding rs by auto
  qed
  moreover have "keys_apart ?db"
    using mail_wfD(7) [OF assms(1)] e(1) unfolding keys_apart_def by (auto split: if_splits)
  moreover have "bt_wf (ad_envelopes ?db)" "bt_wf (ad_receipts ?db)"
    using mail_wfD(2,3) [OF assms(1)] by (simp_all add: moved_def bt_simps)
  ultimately show ?thesis using mail_wfD(1) [OF assms(1)] by (simp add: mail_wf_def)
qed

section \<open>Sequences of transitions\<close>

lemma update_row_const:
  assumes "bt_wf m" "map_of m i = Some e" "f e = c"
  shows "update_row i f m = update_row i (\<lambda>_. c) m"
  unfolding update_row_def
proof (rule map_cong)
  fix p assume "p \<in> set m"
  then have "fst p = i \<Longrightarrow> snd p = e" using assms(1,2) by (metis bt_wf_distinct map_of_is_SomeI option.inject prod.collapse)
  then show "(case p of (j, r) \<Rightarrow> (j, if j = i then f r else r)) = (case p of (j, r) \<Rightarrow> (j, if j = i then c else r))"
    using assms(3) by (auto split: prod.splits)
qed simp

lemma update_moves:
  assumes "mail_wf lib db" "find_envelope db (en_envelope_id e) = Some e" "guard e" "f e = moved_row b e"
  shows "update_envelope (en_envelope_id e) guard f db
     = (1, db\<lparr> ad_envelopes := update_row (en_envelope_id e) (\<lambda>_. moved_row b e) (ad_envelopes db) \<rparr>)"
  using assms update_row_const [OF mail_wfD(2) [OF assms(1)], of "en_envelope_id e" e f "moved_row b e"]
  by (simp add: update_envelope_def is_some_and_def find_envelope_def)

lemma consume_move_moves:
  assumes "mail_wf lib db" "may_move db e actor b t" "en_envelope_id e0 = en_envelope_id e" "s = en_current_state e" "v = en_state_version e"
  shows "consume_move actor t e0 s v b db = Ok ((), moved e actor b t db)"
proof -
  have e: "find_envelope db (en_envelope_id e) = Some e" "el_agent_identity_id actor = en_recipient_agent_identity_id e"
    using assms(2) by (auto simp: may_move_def local_actor_def)
  have "update_envelope (en_envelope_id e)
      (\<lambda>r. en_recipient_agent_identity_id r = el_agent_identity_id actor \<and> en_current_state r = en_current_state e \<and> en_state_version r = en_state_version e)
      (\<lambda>r. r\<lparr> en_current_state := b, en_state_version := en_state_version e + 1 \<rparr>) db
     = (1, db\<lparr> ad_envelopes := update_row (en_envelope_id e) (\<lambda>_. moved_row b e) (ad_envelopes db) \<rparr>)"
    by (rule update_moves [OF assms(1) e(1)]) (simp_all add: e moved_row_def)
  then show ?thesis
    unfolding consume_move_def assms(3-5)
    using append_moves [OF assms(1,2,3) HOL.refl] by simp
qed

lemma may_move_other: "may_move db f actor b t \<Longrightarrow> en_envelope_id f \<noteq> en_envelope_id e \<Longrightarrow> may_move (moved e actor' b' t' db) f actor b t"
  by (simp add: may_move_def)

lemma may_move_again:
  "may_move db e actor ''accepted'' t \<Longrightarrow> may_move (moved e actor ''accepted'' t db) (moved_row ''accepted'' e) actor ''consumed'' t"
  by (simp add: may_move_def advances_def timely_def)

definition expired_all :: "a2a_recipient_eligibility \<Rightarrow> string \<Rightarrow> a2a_envelope list \<Rightarrow> a2a_db \<Rightarrow> a2a_db" where
  "expired_all actor t es db = fold (\<lambda>e. moved e actor ''expired'' t) es db"

definition consumed_row :: "a2a_envelope \<Rightarrow> a2a_envelope" where
  "consumed_row e = moved_row ''consumed'' (moved_row ''accepted'' e)"

definition consumed_one :: "a2a_recipient_eligibility \<Rightarrow> string \<Rightarrow> a2a_envelope \<Rightarrow> a2a_db \<Rightarrow> a2a_db" where
  "consumed_one actor t e db = moved (moved_row ''accepted'' e) actor ''consumed'' t (moved e actor ''accepted'' t db)"

definition consumed_all :: "a2a_recipient_eligibility \<Rightarrow> string \<Rightarrow> a2a_envelope list \<Rightarrow> a2a_db \<Rightarrow> a2a_db" where
  "consumed_all actor t es db = fold (consumed_one actor t) es db"

text \<open>No transition of a call is lost to another one, and none violates a constraint.\<close>

lemma distinct_head: "distinct (map f (x # xs)) \<Longrightarrow> y \<in> set xs \<Longrightarrow> f y \<noteq> f x"
  by (induction xs) auto

lemma expire_each_total:
  assumes "mail_wf lib db" "distinct (map en_envelope_id es)" "\<forall>e\<in>set es. may_move db e actor ''expired'' t"
  shows "expire_each actor t es db = Ok ((), expired_all actor t es db) \<and> mail_wf lib (expired_all actor t es db)"
  using assms
proof (induction es arbitrary: db)
  case (Cons e es)
  have e: "may_move db e actor ''expired'' t" "find_envelope db (en_envelope_id e) = Some e" using Cons.prems(3) by (auto simp: may_move_def)
  let ?db = "moved e actor ''expired'' t db"
  have IH: "expire_each actor t es ?db = Ok ((), expired_all actor t es ?db) \<and> mail_wf lib (expired_all actor t es ?db)"
  proof (rule Cons.IH)
    show "mail_wf lib ?db" by (rule moved_wf [OF Cons.prems(1) e(1)])
    show "distinct (map en_envelope_id es)" using Cons.prems(2) by simp
    show "\<forall>f\<in>set es. may_move ?db f actor ''expired'' t"
    proof
      fix f assume "f \<in> set es"
      then have "en_envelope_id f \<noteq> en_envelope_id e \<and> may_move db f actor ''expired'' t" using Cons.prems(3) distinct_head [OF Cons.prems(2)] by simp
      then show "may_move ?db f actor ''expired'' t" using may_move_other by blast
    qed
  qed
  have "expire_each actor t (e # es) db = expire_each actor t es ?db"
    using update_moves [OF Cons.prems(1) e(2)] append_moves [OF Cons.prems(1) e(1) HOL.refl HOL.refl]
    by (simp add: moved_row_def)
  then show ?case using IH by (simp add: expired_all_def)
qed (simp add: expired_all_def)

lemma consumed_one_tables [simp]:
  "ad_work (consumed_one actor t e db) = ad_work db"
  "find_envelope (consumed_one actor t e db) j =
     (if j = en_envelope_id e then map_option (\<lambda>_. consumed_row e) (find_envelope db j) else find_envelope db j)"
  by (simp_all add: consumed_one_def consumed_row_def option.map_comp comp_def)

lemma consumed_one_wf:
  assumes "mail_wf lib db" "may_move db e actor ''accepted'' t"
  shows "mail_wf lib (consumed_one actor t e db)"
  unfolding consumed_one_def by (rule moved_wf [OF moved_wf [OF assms] may_move_again [OF assms(2)]])

lemma consume_each_total:
  assumes "mail_wf lib db" "distinct (map en_envelope_id es)" "\<forall>e\<in>set es. may_move db e actor ''accepted'' t \<and> en_current_state e = ''received''"
  shows "consume_each actor t es db = Ok (map consumed_row es, consumed_all actor t es db) \<and> mail_wf lib (consumed_all actor t es db)"
  using assms
proof (induction es arbitrary: db)
  case (Cons e es)
  have e: "may_move db e actor ''accepted'' t" "find_envelope db (en_envelope_id e) = Some e" "en_current_state e = ''received''"
    using Cons.prems(3) by (auto simp: may_move_def)
  let ?db = "consumed_one actor t e db"
  have IH: "consume_each actor t es ?db = Ok (map consumed_row es, consumed_all actor t es ?db) \<and> mail_wf lib (consumed_all actor t es ?db)"
  proof (rule Cons.IH)
    show "mail_wf lib ?db" by (rule consumed_one_wf [OF Cons.prems(1) e(1)])
    show "distinct (map en_envelope_id es)" using Cons.prems(2) by simp
    show "\<forall>f\<in>set es. may_move ?db f actor ''accepted'' t \<and> en_current_state f = ''received''"
    proof
      fix f assume "f \<in> set es"
      then have "en_envelope_id f \<noteq> en_envelope_id e \<and> may_move db f actor ''accepted'' t \<and> en_current_state f = ''received''"
        using Cons.prems(3) distinct_head [OF Cons.prems(2)] by simp
      then show "may_move ?db f actor ''accepted'' t \<and> en_current_state f = ''received''"
        using may_move_other unfolding consumed_one_def by simp
    qed
  qed
  have body: "en_body e \<noteq> None" using mail_wfD(4) [OF Cons.prems(1) e(2)] e(3) by (auto simp: envelope_ok_def split: option.splits)
  have first: "consume_move actor t e ''received'' (en_state_version e) ''accepted'' db = Ok ((), moved e actor ''accepted'' t db)"
    by (rule consume_move_moves [OF Cons.prems(1) e(1)]) (simp_all add: e(3))
  have second: "consume_move actor t e ''accepted'' (en_state_version e + 1) ''consumed'' (moved e actor ''accepted'' t db) = Ok ((), ?db)"
    unfolding consumed_one_def
    by (rule consume_move_moves [OF moved_wf [OF Cons.prems(1) e(1)] may_move_again [OF e(1)]]) simp_all
  have third: "read_envelope_by_id (en_envelope_id e) ?db = Ok (consumed_row e)" using e(2) by (simp add: read_envelope_by_id_def)
  have "consume_each actor t (e # es) db = Ok (map consumed_row (e # es), consumed_all actor t (e # es) db)"
    unfolding consume_each.simps first second third and_then_simps prod.case using body IH by (simp add: consumed_all_def second third)
  then show ?case using IH by (simp add: consumed_all_def)
qed (simp add: consumed_all_def)

section \<open>What the recipient calls do\<close>

text \<open>Between calls no envelope rests in \<open>accepted\<close>.\<close>

definition mail_ok :: "'a a2a_lib_scheme \<Rightarrow> a2a_db \<Rightarrow> bool" where
  "mail_ok lib db \<longleftrightarrow> mail_wf lib db \<and> (\<forall>i e. find_envelope db i = Some e \<longrightarrow> en_current_state e \<noteq> ''accepted'')"

lemma mail_okD:
  assumes "mail_ok lib db"
  shows "mail_wf lib db" "find_envelope db i = Some e \<Longrightarrow> en_current_state e \<noteq> ''accepted''"
    "find_envelope db i = Some e \<Longrightarrow> envelope_ok lib db i e" "parties_ok (ad_work db)"
  using assms mail_wfD by (auto simp: mail_ok_def)

lemma listed_envelopes:
  assumes "mail_wf lib db"
  shows "distinct (map en_envelope_id (a2a_envelopes db))"
    "e \<in> set (a2a_envelopes db) \<longleftrightarrow> find_envelope db (en_envelope_id e) = Some e"
proof -
  have "map en_envelope_id (a2a_envelopes db) = map fst (ad_envelopes db)"
    using mail_wfD(4) [OF assms] mail_wfD(2) [OF assms]
    by (auto simp: a2a_envelopes_def find_envelope_def envelope_ok_def bt_wf_distinct)
  then show "distinct (map en_envelope_id (a2a_envelopes db))" using bt_wf_distinct [OF mail_wfD(2) [OF assms]] by simp
  show "e \<in> set (a2a_envelopes db) \<longleftrightarrow> find_envelope db (en_envelope_id e) = Some e"
    using in_envelopes [OF mail_wfD(2) [OF assms]] mail_wfD(4) [OF assms] by (auto simp: envelope_ok_def)
qed

lemma distinct_selected: "distinct (map f xs) \<Longrightarrow> distinct (map f (take n (sort_key g (filter P xs))))"
  using set_take_subset [of n "sort_key g (filter P xs)"]
  by (auto simp: distinct_map intro: inj_on_subset)

lemma in_due: "e \<in> set (due_envelopes agent n t db) \<Longrightarrow> e \<in> set (a2a_envelopes db) \<and> en_recipient_agent_identity_id e = agent
    \<and> en_current_state e \<in> {''received'', ''accepted''} \<and> en_expires_at e \<le> t"
  unfolding due_envelopes_def by (drule in_set_takeD) simp

lemma in_ready: "e \<in> set (ready_envelopes agent n t db) \<Longrightarrow> e \<in> set (a2a_envelopes db) \<and> en_recipient_agent_identity_id e = agent
    \<and> en_current_state e = ''received'' \<and> t < en_expires_at e"
  unfolding ready_envelopes_def by (drule in_set_takeD) simp

lemma due_moves:
  assumes "mail_ok lib db" "local_actor (ad_work db) agent actor" "el_trust_basis actor = ''current_local_connection''"
  shows "distinct (map en_envelope_id (due_envelopes agent n t db))" "\<forall>e\<in>set (due_envelopes agent n t db). may_move db e actor ''expired'' t"
proof -
  show "distinct (map en_envelope_id (due_envelopes agent n t db))"
    unfolding due_envelopes_def by (rule distinct_selected [OF listed_envelopes(1) [OF mail_okD(1) [OF assms(1)]]])
  show "\<forall>e\<in>set (due_envelopes agent n t db). may_move db e actor ''expired'' t"
  proof
    fix e assume "e \<in> set (due_envelopes agent n t db)"
    then have e: "find_envelope db (en_envelope_id e) = Some e" "en_recipient_agent_identity_id e = agent"
      "en_current_state e \<in> {''received'', ''accepted''}" "en_expires_at e \<le> t"
      using in_due listed_envelopes(2) [OF mail_okD(1) [OF assms(1)]] by blast+
    then have "en_current_state e = ''received''" using mail_okD(2) [OF assms(1)] by blast
    then show "may_move db e actor ''expired'' t" using e assms(2,3) by (simp add: may_move_def advances_def timely_def)
  qed
qed

lemma ready_moves:
  assumes "mail_wf lib db" "local_actor (ad_work db) agent actor" "el_trust_basis actor = ''current_local_connection''"
  shows "distinct (map en_envelope_id (ready_envelopes agent n t db))"
    "\<forall>e\<in>set (ready_envelopes agent n t db). may_move db e actor ''accepted'' t \<and> en_current_state e = ''received''"
proof -
  show "distinct (map en_envelope_id (ready_envelopes agent n t db))"
    unfolding ready_envelopes_def by (rule distinct_selected [OF listed_envelopes(1) [OF assms(1)]])
  show "\<forall>e\<in>set (ready_envelopes agent n t db). may_move db e actor ''accepted'' t \<and> en_current_state e = ''received''"
  proof
    fix e assume "e \<in> set (ready_envelopes agent n t db)"
    then have e: "find_envelope db (en_envelope_id e) = Some e" "en_recipient_agent_identity_id e = agent"
      "en_current_state e = ''received''" "t < en_expires_at e"
      using in_ready listed_envelopes(2) [OF assms(1)] by blast+
    then show "may_move db e actor ''accepted'' t \<and> en_current_state e = ''received''"
      using assms(2,3) by (simp add: may_move_def advances_def timely_def)
  qed
qed

text \<open>Expiring leaves the ready envelopes as they are.\<close>

lemma filter_update_row:
  assumes "\<forall>p\<in>set m. fst p = i \<longrightarrow> \<not> P (snd p)" "\<not> P c"
  shows "filter P (map snd (update_row i (\<lambda>_. c) m)) = filter P (map snd m)"
  using assms by (induction m) (auto simp: update_row_def split: if_splits)

lemma ready_moved:
  assumes "mail_wf lib db" "may_move db e actor ''expired'' t"
  shows "ready_envelopes agent n t (moved e actor ''expired'' t db) = ready_envelopes agent n t db"
proof -
  have e: "find_envelope db (en_envelope_id e) = Some e" "\<not> t < en_expires_at e" using assms(2) by (auto simp: may_move_def timely_def)
  have "\<forall>p\<in>set (ad_envelopes db). fst p = en_envelope_id e \<longrightarrow> snd p = e"
    using e(1) bt_wf_distinct [OF mail_wfD(2) [OF assms(1)]]
    by (metis find_envelope_def map_of_is_SomeI option.inject prod.collapse)
  then have "filter (\<lambda>x. en_recipient_agent_identity_id x = agent \<and> en_current_state x = ''received'' \<and> t < en_expires_at x)
      (map snd (update_row (en_envelope_id e) (\<lambda>_. moved_row ''expired'' e) (ad_envelopes db)))
    = filter (\<lambda>x. en_recipient_agent_identity_id x = agent \<and> en_current_state x = ''received'' \<and> t < en_expires_at x) (map snd (ad_envelopes db))"
    using e(2) by (intro filter_update_row) auto
  then show ?thesis by (simp add: ready_envelopes_def a2a_envelopes_def moved_def)
qed

lemma expired_all_facts:
  assumes "mail_wf lib db" "distinct (map en_envelope_id es)" "\<forall>e\<in>set es. may_move db e actor ''expired'' t"
  shows "ready_envelopes agent n t (expired_all actor t es db) = ready_envelopes agent n t db \<and> ad_work (expired_all actor t es db) = ad_work db"
  using assms
proof (induction es arbitrary: db)
  case (Cons e es)
  let ?db = "moved e actor ''expired'' t db"
  have e: "may_move db e actor ''expired'' t" using Cons.prems(3) by simp
  have "\<forall>f\<in>set es. may_move ?db f actor ''expired'' t"
    using Cons.prems(3) may_move_other distinct_head [OF Cons.prems(2)] by simp
  then show ?case
    using Cons.IH [OF moved_wf [OF Cons.prems(1) e]] ready_moved [OF Cons.prems(1) e] Cons.prems(2)
    by (simp add: expired_all_def)
qed (simp add: expired_all_def)

lemma admit_actor_Ok:
  assumes "mail_ok lib db" "admit_actor lib actor limit now db = Ok (n, t, rc)"
  shows "n = limit" "1 \<le> n" "n \<le> MAX_A2A_STORAGE_BATCH" "normalize_utc_iso lib now = Some t"
    "local_actor (ad_work db) (ta_agent_identity_id actor) rc" "el_trust_basis rc = ''current_local_connection''"
    "el_agent_identity_id rc = ta_agent_identity_id actor"
  using assms(2) resolve_current [OF mail_okD(4) [OF assms(1)]]
  by (auto simp: admit_actor_def and_then_Inr_iff validate_limit_def a2a_normalize_def or_invalid_def local_actor_def
      split: if_splits option.splits)

text \<open>An admitted recipient call always succeeds, with this answer and this mailbox.\<close>

lemma expire_answer:
  assumes "mail_ok lib db" "admit_actor lib actor limit now db = Ok (n, t, rc)"
  shows "expire_a2a_for_recipient lib actor limit now db
       = Ok (length (due_envelopes (ta_agent_identity_id actor) n t db), expired_all rc t (due_envelopes (ta_agent_identity_id actor) n t db) db)"
    "mail_wf lib (expired_all rc t (due_envelopes (ta_agent_identity_id actor) n t db) db)"
proof -
  note rc = admit_actor_Ok [OF assms]
  note due = due_moves [OF assms(1) rc(5,6), of n t]
  note total = expire_each_total [OF mail_okD(1) [OF assms(1)] due]
  show "expire_a2a_for_recipient lib actor limit now db
       = Ok (length (due_envelopes (ta_agent_identity_id actor) n t db), expired_all rc t (due_envelopes (ta_agent_identity_id actor) n t db) db)"
    using total by (simp add: expire_a2a_for_recipient_def expire_a2a_for_recipient_in_tx_def Let_def rc(7) assms(2))
  show "mail_wf lib (expired_all rc t (due_envelopes (ta_agent_identity_id actor) n t db) db)" using total by blast
qed

definition after_consume :: "a2a_recipient_eligibility \<Rightarrow> string \<Rightarrow> nat \<Rightarrow> a2a_db \<Rightarrow> a2a_db" where
  "after_consume rc t n db =
     consumed_all rc t (ready_envelopes (el_agent_identity_id rc) n t db) (expired_all rc t (due_envelopes (el_agent_identity_id rc) n t db) db)"

lemma consume_answer:
  assumes "mail_ok lib db" "admit_actor lib actor limit now db = Ok (n, t, rc)"
  shows "consume_a2a_for_recipient lib actor limit now db
       = Ok (map consumed_row (ready_envelopes (ta_agent_identity_id actor) n t db), after_consume rc t n db)"
    "mail_wf lib (after_consume rc t n db)"
proof -
  note rc = admit_actor_Ok [OF assms]
  let ?agent = "ta_agent_identity_id actor"
  let ?es = "due_envelopes ?agent n t db"
  let ?db = "expired_all rc t ?es db"
  note due = due_moves [OF assms(1) rc(5,6), of n t]
  note wf = mail_okD(1) [OF assms(1)]
  note total = expire_each_total [OF wf due]
  have facts: "ready_envelopes a m t ?db = ready_envelopes a m t db" "ad_work ?db = ad_work db" for a m
    using expired_all_facts [OF wf due] by blast+
  have actor: "local_actor (ad_work ?db) ?agent rc" using rc(5) by (simp add: facts(2))
  have each: "consume_each rc t (ready_envelopes ?agent n t ?db) ?db
      = Ok (map consumed_row (ready_envelopes ?agent n t ?db), consumed_all rc t (ready_envelopes ?agent n t ?db) ?db)
      \<and> mail_wf lib (consumed_all rc t (ready_envelopes ?agent n t ?db) ?db)"
    using total ready_moves [OF _ actor rc(6)] by (intro consume_each_total) blast+
  then show "consume_a2a_for_recipient lib actor limit now db = Ok (map consumed_row (ready_envelopes ?agent n t db), after_consume rc t n db)"
    using total
    by (simp add: consume_a2a_for_recipient_def expire_a2a_for_recipient_in_tx_def Let_def rc(7) assms(2) facts(1) after_consume_def)
  show "mail_wf lib (after_consume rc t n db)" using each by (simp add: after_consume_def rc(7) facts(1))
qed

end
