(* ===== verification/A2a_Machine.thy ===== *)
theory A2a_Machine
  imports A2a_Laws
begin

text \<open>
  The mailbox as a machine on single envelopes: what a status read shows of an envelope
  (\<open>mail_view\<close>: the row and its receipts in the order of their versions), the moves of that
  view (\<open>mail_moves\<close>), and for every call the exact views it leaves, down to the arguments it
  refuses. Every step of the system refines the moves, as an instance of \<open>row_machine\<close>.
\<close>

section \<open>Views\<close>

definition mail_view :: "a2a_db \<Rightarrow> string \<Rightarrow> (a2a_envelope \<times> a2a_delivery_receipt list) option" where
  "mail_view db i = map_option (\<lambda>e. (e, receipts_of db i)) (find_envelope db i)"

lemma receipts_of_wf:
  assumes "mail_wf lib db"
  shows "sorted (map dr_envelope_version (receipts_of db i))" "distinct (map dr_envelope_version (receipts_of db i))"
    "set (receipts_of db i) = {r. dr_envelope_id r = i \<and> map_of (ad_receipts db) (dr_receipt_id r) = Some r}"
proof -
  have iff: "r \<in> set (a2a_receipts db) \<longleftrightarrow> map_of (ad_receipts db) (dr_receipt_id r) = Some r" for r
    using in_receipts [OF mail_wfD(3) [OF assms]] mail_wfD(5) [OF assms] by (auto simp: receipt_ok_def)
  then show set: "set (receipts_of db i) = {r. dr_envelope_id r = i \<and> map_of (ad_receipts db) (dr_receipt_id r) = Some r}"
    by (auto simp: receipts_of_def)
  show "sorted (map dr_envelope_version (receipts_of db i))" by (simp add: receipts_of_def)
  have "map dr_receipt_id (a2a_receipts db) = map fst (ad_receipts db)"
    using mail_wfD(5) [OF assms] mail_wfD(3) [OF assms] by (auto simp: a2a_receipts_def receipt_ok_def bt_wf_distinct)
  then have "distinct (map dr_receipt_id (a2a_receipts db))" using bt_wf_distinct [OF mail_wfD(3) [OF assms]] by simp
  then have "distinct (receipts_of db i)" by (simp add: receipts_of_def distinct_map)
  moreover have "inj_on dr_envelope_version (set (receipts_of db i))"
  proof (rule inj_onI)
    fix x y assume x: "x \<in> set (receipts_of db i)" and y: "y \<in> set (receipts_of db i)" and v: "dr_envelope_version x = dr_envelope_version y"
    have xy: "receipt_ok db (dr_receipt_id x) x" "receipt_ok db (dr_receipt_id y) y" "dr_envelope_id x = i" "dr_envelope_id y = i"
      using x y set mail_wfD(5) [OF assms] by blast+
    then obtain e where e: "find_envelope db i = Some e" unfolding receipt_ok_def by blast
    have "(dr_state r, dr_envelope_version r) \<in> set (history_of (en_current_state e))" if "r \<in> set (receipts_of db i)" for r
      using receipt_of_history [OF assms e] that set by auto
    from this [OF x] this [OF y] v have "dr_state x = dr_state y" by (auto simp: history_of_def split: if_splits)
    then have "dr_receipt_id x = dr_receipt_id y" using xy v by (simp add: receipt_ok_def)
    then show "x = y" using x y set by auto
  qed
  ultimately show "distinct (map dr_envelope_version (receipts_of db i))" by (simp add: distinct_map)
qed

lemma receipts_of_unique:
  assumes "mail_wf lib db" "sorted (map dr_envelope_version rs)" "distinct (map dr_envelope_version rs)"
    "\<And>r. r \<in> set rs \<longleftrightarrow> dr_envelope_id r = i \<and> map_of (ad_receipts db) (dr_receipt_id r) = Some r"
  shows "receipts_of db i = rs"
  using receipts_of_wf [OF assms(1), of i] assms(2-4) by (intro sorted_distinct_key_unique [of dr_envelope_version]) auto

lemma receipts_history:
  assumes "mail_wf lib db" "find_envelope db i = Some e"
  shows "map (\<lambda>r. (dr_state r, dr_envelope_version r)) (receipts_of db i) = history_of (en_current_state e)"
proof -
  note wf = receipts_of_wf [OF assms(1), of i]
  let ?f = "\<lambda>r. (dr_state r, dr_envelope_version r)"
  have "?f r \<in> set (history_of (en_current_state e))" if "r \<in> set (receipts_of db i)" for r
    using receipt_of_history [OF assms] that wf(3) by auto
  moreover have "p \<in> ?f ` set (receipts_of db i)" if p: "p \<in> set (history_of (en_current_state e))" for p
  proof -
    obtain s v where sv: "p = (s, v)" by (cases p)
    then obtain r where r: "map_of (ad_receipts db) (receipt_id_of i s v) = Some r"
      using p assms(2) mail_wfD(6) [OF assms(1)] unfolding complete_history_def by blast
    then have ok: "receipt_ok db (receipt_id_of i s v) r" using mail_wfD(5) [OF assms(1)] by blast
    then have "receipt_id_of i s v = receipt_id_of (dr_envelope_id r) (dr_state r) (dr_envelope_version r)"
      "dr_state r \<in> set A2A_STATES" "0 < dr_envelope_version r" by (auto simp: receipt_ok_def receipt_checks_def)
    from receipt_id_inject [OF this(1)] this(2,3) have "i = dr_envelope_id r \<and> s = dr_state r \<and> v = dr_envelope_version r"
      using states_no_colon history_states p sv by blast
    then have "?f r = p" "dr_envelope_id r = i \<and> map_of (ad_receipts db) (dr_receipt_id r) = Some r"
      using r ok sv by (simp_all add: receipt_ok_def)
    then show ?thesis using wf(3) by blast
  qed
  ultimately have "set (map ?f (receipts_of db i)) = set (history_of (en_current_state e))" by auto
  moreover have "sorted (map snd (map ?f (receipts_of db i)))" "distinct (map snd (map ?f (receipts_of db i)))"
    using wf(1,2) by (simp_all add: comp_def)
  moreover have "sorted (map snd (history_of (en_current_state e)))" "distinct (map snd (history_of (en_current_state e)))"
    by (auto simp: history_of_def)
  ultimately show ?thesis by (intro sorted_distinct_key_unique [of snd]) auto
qed

lemma view_moved:
  assumes "mail_wf lib db" "may_move db e actor b t"
  shows "mail_view (moved e actor b t db) j =
     (if j = en_envelope_id e then Some (moved_row b e, receipts_of db j @ [transition_receipt e actor (en_state_version e + 1) b t])
      else mail_view db j)"
proof -
  let ?r = "transition_receipt e actor (en_state_version e + 1) b t" and ?db = "moved e actor b t db"
  note wf = moved_wf [OF assms]
  have e: "find_envelope db (en_envelope_id e) = Some e" using assms(2) by (simp add: may_move_def)
  have rs: "map_of (ad_receipts ?db) = (map_of (ad_receipts db))(dr_receipt_id ?r \<mapsto> ?r)"
    using moved_receipts [OF mail_wfD(3) [OF assms(1)]] by simp
  have fresh: "map_of (ad_receipts db) (dr_receipt_id ?r) = None" using receipt_id_fresh [OF assms] by simp
  note old = receipts_of_wf [OF assms(1), of j]
  show ?thesis
  proof (cases "j = en_envelope_id e")
    case True
    have v: "en_state_version e = int (length (history_of (en_current_state e)))" using mail_wfD(4) [OF assms(1) e] by (simp add: envelope_ok_def)
    have below: "dr_envelope_version r < dr_envelope_version ?r" if "r \<in> set (receipts_of db j)" for r
    proof -
      have "(dr_state r, dr_envelope_version r) \<in> set (history_of (en_current_state e))"
        using receipt_of_history [OF assms(1) e] that old(3) True by auto
      then show ?thesis using v by (auto simp: history_of_def split: if_splits)
    qed
    have "receipts_of ?db j = receipts_of db j @ [?r]"
    proof (rule receipts_of_unique [OF wf])
      show "sorted (map dr_envelope_version (receipts_of db j @ [?r]))" using old(1) below by (force simp: sorted_append)
      show "distinct (map dr_envelope_version (receipts_of db j @ [?r]))" using old(2) below by (force simp: distinct_map)
      show "r \<in> set (receipts_of db j @ [?r]) \<longleftrightarrow> dr_envelope_id r = j \<and> map_of (ad_receipts ?db) (dr_receipt_id r) = Some r" for r
        using old(3) True fresh unfolding rs by (cases "r = ?r"; cases "dr_receipt_id r = dr_receipt_id ?r") simp_all
    qed
    then show ?thesis using True e by (simp add: mail_view_def)
  next
    case False
    have "receipts_of ?db j = receipts_of db j"
    proof (rule receipts_of_unique [OF wf old(1,2)])
      show "r \<in> set (receipts_of db j) \<longleftrightarrow> dr_envelope_id r = j \<and> map_of (ad_receipts ?db) (dr_receipt_id r) = Some r" for r
        using old(3) False fresh unfolding rs by auto
    qed
    then show ?thesis using False by (simp add: mail_view_def)
  qed
qed

definition expired_view ::
  "a2a_recipient_eligibility \<Rightarrow> string \<Rightarrow> a2a_envelope \<times> a2a_delivery_receipt list \<Rightarrow> a2a_envelope \<times> a2a_delivery_receipt list" where
  "expired_view actor t v = (case v of (e, rs) \<Rightarrow>
     (moved_row ''expired'' e, rs @ [transition_receipt e actor (en_state_version e + 1) ''expired'' t]))"

definition consumed_view ::
  "a2a_recipient_eligibility \<Rightarrow> string \<Rightarrow> a2a_envelope \<times> a2a_delivery_receipt list \<Rightarrow> a2a_envelope \<times> a2a_delivery_receipt list" where
  "consumed_view actor t v = (case v of (e, rs) \<Rightarrow>
     (consumed_row e, rs @ [transition_receipt e actor (en_state_version e + 1) ''accepted'' t,
                            transition_receipt e actor (en_state_version e + 2) ''consumed'' t]))"

lemma transition_receipt_moved [simp]: "transition_receipt (moved_row b e) actor v s t = transition_receipt e actor v s t"
  by (simp add: transition_receipt_def)

lemma view_expired_all:
  assumes "mail_wf lib db" "distinct (map en_envelope_id es)" "\<forall>e\<in>set es. may_move db e actor ''expired'' t"
  shows "mail_view (expired_all actor t es db) j =
     (if j \<in> en_envelope_id ` set es then map_option (expired_view actor t) (mail_view db j) else mail_view db j)"
  using assms
proof (induction es arbitrary: db)
  case (Cons e es)
  let ?db = "moved e actor ''expired'' t db"
  have e: "may_move db e actor ''expired'' t" "find_envelope db (en_envelope_id e) = Some e" using Cons.prems(3) by (auto simp: may_move_def)
  have later: "\<forall>f\<in>set es. may_move ?db f actor ''expired'' t"
    using Cons.prems(3) may_move_other distinct_head [OF Cons.prems(2)] by simp
  have "en_envelope_id e \<notin> en_envelope_id ` set es" using Cons.prems(2) by simp
  moreover have "mail_view ?db j = (if j = en_envelope_id e then map_option (expired_view actor t) (mail_view db j) else mail_view db j)"
    unfolding view_moved [OF Cons.prems(1) e(1)] using e(2) by (simp add: mail_view_def expired_view_def)
  ultimately show ?case
    using Cons.IH [OF moved_wf [OF Cons.prems(1) e(1)] _ later] Cons.prems(2) by (cases "j = en_envelope_id e") (simp_all add: expired_all_def)
qed (simp add: expired_all_def)

lemma view_consumed_one:
  assumes "mail_wf lib db" "may_move db e actor ''accepted'' t"
  shows "mail_view (consumed_one actor t e db) j =
     (if j = en_envelope_id e then map_option (consumed_view actor t) (mail_view db j) else mail_view db j)"
proof -
  let ?db = "moved e actor ''accepted'' t db"
  have e: "find_envelope db (en_envelope_id e) = Some e" using assms(2) by (simp add: may_move_def)
  have "receipts_of ?db (en_envelope_id e) = receipts_of db (en_envelope_id e) @ [transition_receipt e actor (en_state_version e + 1) ''accepted'' t]"
    using view_moved [OF assms, of "en_envelope_id e"] e by (simp add: mail_view_def)
  then show ?thesis
    using view_moved [OF moved_wf [OF assms] may_move_again [OF assms(2)], of j] view_moved [OF assms, of j] e
    by (auto simp: consumed_one_def consumed_row_def mail_view_def consumed_view_def add.commute)
qed

lemma view_consumed_all:
  assumes "mail_wf lib db" "distinct (map en_envelope_id es)" "\<forall>e\<in>set es. may_move db e actor ''accepted'' t"
  shows "mail_view (consumed_all actor t es db) j =
     (if j \<in> en_envelope_id ` set es then map_option (consumed_view actor t) (mail_view db j) else mail_view db j)"
  using assms
proof (induction es arbitrary: db)
  case (Cons e es)
  let ?db = "consumed_one actor t e db"
  have e: "may_move db e actor ''accepted'' t" using Cons.prems(3) by simp
  have later: "\<forall>f\<in>set es. may_move ?db f actor ''accepted'' t"
    using Cons.prems(3) may_move_other distinct_head [OF Cons.prems(2)] unfolding consumed_one_def by simp
  have "en_envelope_id e \<notin> en_envelope_id ` set es" using Cons.prems(2) by simp
  then show ?case
    using Cons.IH [OF consumed_one_wf [OF Cons.prems(1) e] _ later] view_consumed_one [OF Cons.prems(1) e] Cons.prems(2)
    by (auto simp: consumed_all_def)
qed (simp add: consumed_all_def)

text \<open>A consumption, seen envelope by envelope.\<close>

lemma view_after_consume:
  assumes "mail_ok lib db" "local_actor (ad_work db) agent rc" "el_trust_basis rc = ''current_local_connection''"
  shows "mail_view (after_consume rc t n db) j =
     (if j \<in> en_envelope_id ` set (ready_envelopes agent n t db) then map_option (consumed_view rc t) (mail_view db j)
      else if j \<in> en_envelope_id ` set (due_envelopes agent n t db) then map_option (expired_view rc t) (mail_view db j)
      else mail_view db j)"
proof -
  let ?es = "due_envelopes agent n t db"
  let ?db = "expired_all rc t ?es db"
  note due = due_moves [OF assms, of n t]
  note wf = mail_okD(1) [OF assms(1)]
  have facts: "ready_envelopes a m t ?db = ready_envelopes a m t db" "ad_work ?db = ad_work db" for a m
    using expired_all_facts [OF wf due] by blast+
  have agent: "el_agent_identity_id rc = agent" using assms(2) by (simp add: local_actor_def)
  have wf1: "mail_wf lib ?db" using expire_each_total [OF wf due] by blast
  have ready: "distinct (map en_envelope_id (ready_envelopes agent n t db))"
    "\<forall>e\<in>set (ready_envelopes agent n t db). may_move ?db e rc ''accepted'' t"
    using ready_moves [OF wf1 _ assms(3), of agent n t] assms(2) by (simp_all add: facts)
  have "e = f" if "e \<in> set ?es" "f \<in> set (ready_envelopes agent n t db)" "en_envelope_id e = en_envelope_id f" for e f
    using in_due [OF that(1)] in_ready [OF that(2)] that(3) listed_envelopes(2) [OF wf] by (metis option.inject)
  then have apart: "e \<in> set ?es \<Longrightarrow> en_envelope_id e \<notin> en_envelope_id ` set (ready_envelopes agent n t db)" for e
    using in_due [of e] in_ready by (metis imageE leD)
  show ?thesis
    unfolding after_consume_def agent facts(1)
    using view_consumed_all [OF wf1 ready, of j] view_expired_all [OF wf due, of j] apart by auto
qed

section \<open>Inserting\<close>

lemma hex_byte_lower: "length (hex_byte b) = 2 \<and> list_all is_lower_hex (hex_byte b) \<and> to_ascii_lowercase (hex_byte b) = hex_byte b"
proof -
  have d: "is_lower_hex (hex_digit n) \<and> lower_ascii (hex_digit n) = hex_digit n" if "n < 16" for n
    using that by (auto simp: hex_digit_def is_lower_hex_def is_ascii_digit_def lower_ascii_def)
  have "unat b < 256" using unsigned_less [of b, where 'a = nat] by simp
  then have "unat b div 16 < 16" "unat b mod 16 < 16" by (auto simp: less_mult_imp_div_less)
  then show ?thesis using d by (simp add: hex_byte_def to_ascii_lowercase_def)
qed

lemma digest_check: "body_digest_check (concat (map hex_byte bs)) \<longleftrightarrow> length bs = 32"
proof -
  have "length (concat (map hex_byte bs)) = 2 * length bs \<and> list_all is_lower_hex (concat (map hex_byte bs))
      \<and> to_ascii_lowercase (concat (map hex_byte bs)) = concat (map hex_byte bs)"
    using hex_byte_lower by (induction bs) (auto simp: to_ascii_lowercase_def)
  then show ?thesis by (auto simp: body_digest_check_def)
qed

lemma admit_request_Ok:
  assumes "mail_ok lib db" "admit_request lib request db = Ok (created, expires, digest, issuer, recipient)"
  shows "length (na_body request) \<le> 4096" "na_body request \<noteq> []" "list_ex (\<lambda>c. c \<noteq> CHR '' '') (na_subject_ref request)"
    "normalize_utc_iso lib (na_created_at request) = Some created" "normalize_utc_iso lib (na_expires_at request) = Some expires"
    "created < expires" "digest = a2a_body_digest lib (na_body request)"
    "local_actor (ad_work db) (na_issuer_agent_identity_id request) issuer" "el_trust_basis issuer = ''current_local_connection''"
    "local_actor (ad_work db) (na_recipient_agent_identity_id request) recipient" "el_trust_basis recipient = ''historical_local_admission''"
proof -
  note u = assms(2) [unfolded admit_request_def Let_def]
  show "length (na_body request) \<le> 4096" "created < expires" "digest = a2a_body_digest lib (na_body request)"
    using u by (auto simp: and_then_Inr_iff MAX_A2A_TURN_RESPONSE_BYTES_def split: if_splits)
  show "na_body request \<noteq> []" using u by (auto simp: and_then_Inr_iff a2a_refuse_blank_def split: if_splits)
  have "validate_subject_ref (na_subject_ref request) = Ok ()" using u by (auto simp: and_then_Inr_iff split: if_splits)
  then have "prefix ''peer_publication:'' (na_subject_ref request) \<or> prefix ''a2a_envelope:'' (na_subject_ref request)"
    by (auto simp: validate_subject_ref_def is_some_and_def strip_prefix_def split: if_splits option.splits)
  then show "list_ex (\<lambda>c. c \<noteq> CHR '' '') (na_subject_ref request)" by (auto simp: prefix_def)
  show "normalize_utc_iso lib (na_created_at request) = Some created" "normalize_utc_iso lib (na_expires_at request) = Some expires"
    using u by (auto simp: and_then_Inr_iff a2a_normalize_def split: if_splits option.splits)
  have "resolve_current_local_admission (na_issuer_agent_identity_id request) (na_issuer_connection_id request) db = Some issuer"
    "resolve_a2a_recipient_eligibility (na_recipient_agent_identity_id request) db = Ok (Some recipient)"
    using u by (auto simp: and_then_Inr_iff or_invalid_def split: if_splits option.splits)
  then show "local_actor (ad_work db) (na_issuer_agent_identity_id request) issuer" "el_trust_basis issuer = ''current_local_connection''"
    "local_actor (ad_work db) (na_recipient_agent_identity_id request) recipient" "el_trust_basis recipient = ''historical_local_admission''"
    using resolve_current resolve_recipient mail_okD(4) [OF assms(1)] by blast+
qed

lemma received_first: "(''received'', v) \<in> set (history_of s) \<Longrightarrow> v = 1"
  by (auto simp: history_of_def split: if_splits)

text \<open>The first receipt of an envelope, which a replay reads again.\<close>

lemma read_received:
  assumes "mail_wf lib db" "find_envelope db i = Some e"
  shows "\<exists>r rs. receipts_of db i = r # rs \<and> dr_state r = ''received'' \<and> read_received_receipt i db = Ok r"
proof -
  obtain r rs where r: "receipts_of db i = r # rs" "dr_state r = ''received''"
    using receipts_history [OF assms] mail_wfD(4) [OF assms]
    by (cases "receipts_of db i") (auto simp: envelope_ok_def envelope_checks_def A2A_STATES_def)
  let ?xs = "filter (\<lambda>r. dr_envelope_id r = i \<and> dr_state r = ''received'') (a2a_receipts db)"
  have "x = r" if "x \<in> set ?xs" for x
  proof -
    have x: "x \<in> set (receipts_of db i)" "dr_state x = ''received''" using that by (auto simp: receipts_of_def)
    have "(dr_state y, dr_envelope_version y) \<in> set (history_of (en_current_state e))" if "y \<in> set (receipts_of db i)" for y
      using receipt_of_history [OF assms] receipts_of_wf(3) [OF assms(1)] that by auto
    from this [OF x(1)] this [of r] have "dr_envelope_version x = 1 \<and> dr_envelope_version r = 1"
      unfolding x(2) r by (intro conjI received_first) simp_all
    moreover have "r \<in> set (receipts_of db i)" using r(1) by simp
    ultimately show ?thesis using receipts_of_wf(2) [OF assms(1), of i] x(1) unfolding distinct_map inj_on_def by simp
  qed
  moreover have "r \<in> set ?xs"
  proof -
    have "r \<in> set (receipts_of db i)" using r(1) by simp
    then show ?thesis using r(2) by (auto simp: receipts_of_def)
  qed
  ultimately have "\<exists>ys. ?xs = r # ys" by (cases ?xs) (simp, metis list.set_intros(1))
  then have "read_received_receipt i db = Ok r" unfolding read_received_receipt_def by (elim exE) (simp only: list.case)
  then show ?thesis using r by blast
qed

definition sent :: "a2a_envelope \<Rightarrow> a2a_delivery_receipt \<Rightarrow> a2a_db \<Rightarrow> a2a_db" where
  "sent e r db = db\<lparr> ad_envelopes := bt_insert (en_envelope_id e) e (ad_envelopes db), ad_receipts := bt_insert (dr_receipt_id r) r (ad_receipts db) \<rparr>"

lemma sent_tables:
  assumes "mail_wf lib db"
  shows "find_envelope (sent e r db) = (find_envelope db)(en_envelope_id e \<mapsto> e)"
    "map_of (ad_receipts (sent e r db)) = (map_of (ad_receipts db))(dr_receipt_id r \<mapsto> r)" "ad_work (sent e r db) = ad_work db"
  using mail_wfD(2,3) [OF assms] by (auto simp: sent_def find_envelope_def fun_eq_iff bt_simps)

lemma unsent_receipts:
  assumes "mail_wf lib db" "find_envelope db i = None" "map_of (ad_receipts db) k = Some x"
  shows "dr_envelope_id x \<noteq> i" "k \<noteq> receipt_id_of i ''received'' 1"
proof -
  have ok: "receipt_ok db k x" using mail_wfD(5) [OF assms(1,3)] .
  then show other: "dr_envelope_id x \<noteq> i" using assms(2) by (auto simp: receipt_ok_def)
  have k: "k = receipt_id_of (dr_envelope_id x) (dr_state x) (dr_envelope_version x)" "CHR '':'' \<notin> set (dr_state x)" "0 < dr_envelope_version x"
    using ok states_no_colon by (auto simp: receipt_ok_def receipt_checks_def)
  then show "k \<noteq> receipt_id_of i ''received'' 1"
    using receipt_id_inject [of "dr_envelope_id x" "dr_state x" "dr_envelope_version x" i "''received''" 1] other by auto
qed

text \<open>A new envelope with its first receipt.\<close>

definition new_mail :: "'a a2a_lib_scheme \<Rightarrow> a2a_db \<Rightarrow> a2a_envelope \<Rightarrow> a2a_delivery_receipt \<Rightarrow> bool" where
  "new_mail lib db e r \<longleftrightarrow> find_envelope db (en_envelope_id e) = None
     \<and> (\<forall>x\<in>set (a2a_envelopes db). en_issuer_agent_identity_id x = en_issuer_agent_identity_id e \<longrightarrow> en_idempotency_key x \<noteq> en_idempotency_key e)
     \<and> envelope_ok lib db (en_envelope_id e) e \<and> en_current_state e = ''received''
     \<and> dr_receipt_id r = receipt_id_of (en_envelope_id e) ''received'' 1 \<and> dr_envelope_id r = en_envelope_id e
     \<and> dr_envelope_version r = 1 \<and> dr_state r = ''received'' \<and> dr_actor_agent_identity_id r = en_issuer_agent_identity_id e
     \<and> dr_occurred_at r = en_created_at e \<and> receipt_checks r \<and> local_party (ad_work db) (en_issuer_agent_identity_id e) (dr_actor_admission_id r)"

lemma sent_ok:
  assumes "mail_ok lib db" "new_mail lib db e r"
  shows "mail_ok lib (sent e r db)"
proof -
  let ?i = "en_envelope_id e" and ?db = "sent e r db"
  note wf = mail_okD(1) [OF assms(1)]
  note tab = sent_tables [OF wf]
  have n: "find_envelope db ?i = None" "envelope_ok lib db ?i e" "en_current_state e = ''received''"
    using assms(2) by (simp_all add: new_mail_def)
  have "envelope_ok lib ?db j f" if "find_envelope ?db j = Some f" for j f
    using that n(2) mail_wfD(4) [OF wf, of j f] by (auto simp: tab envelope_ok_def split: if_splits)
  moreover have "receipt_ok ?db k x" if "map_of (ad_receipts ?db) k = Some x" for k x
  proof (cases "k = dr_receipt_id r")
    case True
    then have "x = r" using that by (simp add: tab)
    then show ?thesis using True assms(2) by (simp add: receipt_ok_def new_mail_def tab party_in_def timely_def)
  next
    case False
    then have x: "map_of (ad_receipts db) k = Some x" using that by (simp add: tab)
    from mail_wfD(5) [OF wf x] unsent_receipts(1) [OF wf n(1) x] show ?thesis by (simp add: receipt_ok_def tab)
  qed
  moreover have "complete_history ?db"
    unfolding complete_history_def
  proof (intro allI impI)
    fix j f s v assume f: "find_envelope ?db j = Some f" "(s, v) \<in> set (history_of (en_current_state f))"
    show "map_of (ad_receipts ?db) (receipt_id_of j s v) \<noteq> None"
    proof (cases "j = ?i")
      case True
      then have "s = ''received'' \<and> v = 1" using f n(3) by (simp add: tab)
      then show ?thesis using True assms(2) by (simp add: new_mail_def tab)
    next
      case False
      then show ?thesis using f mail_wfD(6) [OF wf] unfolding complete_history_def by (simp add: tab)
    qed
  qed
  moreover have "keys_apart ?db"
    unfolding keys_apart_def
  proof (intro allI impI)
    fix i j f g assume fg: "find_envelope ?db i = Some f" "find_envelope ?db j = Some g"
      "en_issuer_agent_identity_id f = en_issuer_agent_identity_id g" "en_idempotency_key f = en_idempotency_key g"
    have "\<not> (en_issuer_agent_identity_id x = en_issuer_agent_identity_id e \<and> en_idempotency_key x = en_idempotency_key e)"
      if "find_envelope db l = Some x" for l x
      using that assms(2) in_envelopes [OF mail_wfD(2) [OF wf]] by (auto simp: new_mail_def)
    then show "i = j" using fg mail_wfD(7) [OF wf] unfolding keys_apart_def tab by (metis fun_upd_apply option.inject)
  qed
  moreover have "bt_wf (ad_envelopes ?db)" "bt_wf (ad_receipts ?db)" using mail_wfD(2,3) [OF wf] by (simp_all add: sent_def bt_simps)
  ultimately show ?thesis using assms(1) n(3) by (auto simp: mail_ok_def mail_wf_def tab split: if_splits)
qed

lemma view_sent:
  assumes "mail_ok lib db" "new_mail lib db e r"
  shows "mail_view (sent e r db) j = (if j = en_envelope_id e then Some (e, [r]) else mail_view db j)"
proof -
  note wf = mail_okD(1) [OF assms(1)]
  note wf' = mail_okD(1) [OF sent_ok [OF assms]]
  note tab = sent_tables [OF wf]
  have n: "find_envelope db (en_envelope_id e) = None" "dr_envelope_id r = en_envelope_id e" "dr_receipt_id r = receipt_id_of (en_envelope_id e) ''received'' 1"
    using assms(2) by (simp_all add: new_mail_def)
  note fresh = unsent_receipts [OF wf n(1)]
  show ?thesis
  proof (cases "j = en_envelope_id e")
    case True
    have "receipts_of (sent e r db) j = [r]"
      by (rule receipts_of_unique [OF wf']) (use fresh n True in \<open>auto simp: tab\<close>)
    then show ?thesis using True by (simp add: mail_view_def tab)
  next
    case False
    have "receipts_of (sent e r db) j = receipts_of db j"
      by (rule receipts_of_unique [OF wf' receipts_of_wf(1,2) [OF wf]]) (use fresh n False receipts_of_wf(3) [OF wf, of j] in \<open>auto simp: tab\<close>)
    then show ?thesis using False by (simp add: mail_view_def tab)
  qed
qed

lemma keyed_None: "keyed_envelope a k db = None \<longleftrightarrow>
    (\<forall>x\<in>set (a2a_envelopes db). en_issuer_agent_identity_id x = a \<longrightarrow> en_idempotency_key x \<noteq> k)"
  by (auto simp: keyed_envelope_def find_None_iff)

lemma keyed_Some:
  assumes "mail_wf lib db"
  shows "keyed_envelope a k db = Some e \<longleftrightarrow>
     find_envelope db (en_envelope_id e) = Some e \<and> en_issuer_agent_identity_id e = a \<and> en_idempotency_key e = k"
proof
  assume "keyed_envelope a k db = Some e"
  then show "find_envelope db (en_envelope_id e) = Some e \<and> en_issuer_agent_identity_id e = a \<and> en_idempotency_key e = k"
    using listed_envelopes(2) [OF assms, of e] unfolding keyed_envelope_def by (auto simp: find_Some_iff)
next
  assume e: "find_envelope db (en_envelope_id e) = Some e \<and> en_issuer_agent_identity_id e = a \<and> en_idempotency_key e = k"
  then have "e \<in> set (a2a_envelopes db)" using listed_envelopes(2) [OF assms] by blast
  then obtain f where f: "keyed_envelope a k db = Some f" using e keyed_None by fastforce
  then have "find_envelope db (en_envelope_id f) = Some f" "en_issuer_agent_identity_id f = a" "en_idempotency_key f = k"
    using listed_envelopes(2) [OF assms, of f] unfolding keyed_envelope_def by (auto simp: find_Some_iff)
  then have "en_envelope_id f = en_envelope_id e" using e mail_wfD(7) [OF assms] unfolding keys_apart_def by metis
  then show "keyed_envelope a k db = Some e" using f e \<open>find_envelope db (en_envelope_id f) = Some f\<close> by simp
qed

text \<open>The two inserts accept a new mail, and the reads that follow find it.\<close>

lemma new_mail_rows:
  assumes "mail_ok lib db" "new_mail lib db e r"
  shows "insert_envelope_row e db = Ok ((), db\<lparr> ad_envelopes := bt_insert (en_envelope_id e) e (ad_envelopes db) \<rparr>)"
    "insert_receipt_row r (db\<lparr> ad_envelopes := bt_insert (en_envelope_id e) e (ad_envelopes db) \<rparr>) = Ok ((), sent e r db)"
    "read_envelope_by_id (en_envelope_id e) (sent e r db) = Ok e" "read_received_receipt (en_envelope_id e) (sent e r db) = Ok r"
proof -
  let ?db = "db\<lparr> ad_envelopes := bt_insert (en_envelope_id e) e (ad_envelopes db) \<rparr>"
  note wf = mail_okD(1) [OF assms(1)]
  note n = assms(2) [unfolded new_mail_def envelope_ok_def]
  have parties: "known_identity (ad_work db) i \<and> known_admission (ad_work db) a" if "local_party (ad_work db) i a" for i a
    using that by (auto simp: local_party_def known_identity_def known_admission_def)
  show "insert_envelope_row e db = Ok ((), ?db)"
    using n parties by (auto simp: insert_envelope_row_def list_ex_iff)
  have none: "find_envelope db (en_envelope_id e) = None" using n by simp
  note fresh = unsent_receipts [OF wf none]
  have "map_of (ad_receipts db) (dr_receipt_id r) = None" using fresh(2) n by (metis option.exhaust)
  moreover have "x \<in> set (a2a_receipts db) \<Longrightarrow> dr_envelope_id x \<noteq> dr_envelope_id r" for x
    using fresh(1) n in_receipts [OF mail_wfD(3) [OF wf]] by metis
  moreover have "find_envelope ?db (dr_envelope_id r) \<noteq> None"
    using n mail_wfD(2) [OF wf] by (simp add: find_envelope_def bt_simps)
  ultimately show "insert_receipt_row r ?db = Ok ((), sent e r db)"
    using n parties by (auto simp: insert_receipt_row_def sent_def a2a_receipts_def list_ex_iff)
  have found: "find_envelope (sent e r db) (en_envelope_id e) = Some e" by (simp add: sent_tables(1) [OF wf])
  then show "read_envelope_by_id (en_envelope_id e) (sent e r db) = Ok e" by (simp add: read_envelope_by_id_def)
  have "receipts_of (sent e r db) (en_envelope_id e) = [r]" using view_sent [OF assms, of "en_envelope_id e"] by (auto simp: mail_view_def)
  then show "read_received_receipt (en_envelope_id e) (sent e r db) = Ok r"
    using read_received [OF mail_okD(1) [OF sent_ok [OF assms]] found] by auto
qed

text \<open>
  What an admitted request gets: a replay of what its key stands for, a conflict, a refusal of
  a taken id, or a new envelope. (A digest is not 32 bytes long only in a wrong library.)
\<close>

lemma insert_answer:
  assumes "mail_ok lib db" "admit_request lib request db = Ok (created, expires, digest, issuer, recipient)"
    and e: "e = envelope_of request issuer recipient digest created expires" and r: "r = received_receipt request issuer created"
  shows "insert_a2a_envelope lib request db =
     (case keyed_envelope (na_issuer_agent_identity_id request) (na_idempotency_key request) db of
        Some ex \<Rightarrow> (if payload_matches lib ex request digest created expires
           then Ok (A2aReplay ex (hd (receipts_of db (en_envelope_id ex))), db)
           else Err (A2aDuplicate (na_issuer_agent_identity_id request) (na_idempotency_key request)))
      | None \<Rightarrow> (if find_envelope db (na_envelope_id request) \<noteq> None \<or> length (sha256_bytes lib (na_body request)) \<noteq> 32
           then Err A2aConstraint else Ok (A2aCreated e r, sent e r db)))" (is ?answer)
    and "keyed_envelope (na_issuer_agent_identity_id request) (na_idempotency_key request) db = None
      \<Longrightarrow> find_envelope db (na_envelope_id request) = None \<Longrightarrow> length (sha256_bytes lib (na_body request)) = 32 \<Longrightarrow> new_mail lib db e r"
proof -
  note wf = mail_okD(1) [OF assms(1)]
  note a = admit_request_Ok [OF assms(1,2)]
  have parties: "known_identity (ad_work db) (en_issuer_agent_identity_id e)" "known_admission (ad_work db) (en_issuer_admission_id e)"
    "known_identity (ad_work db) (en_recipient_agent_identity_id e)" "known_admission (ad_work db) (en_recipient_admission_id e)"
    using a(8,10) by (auto simp: e envelope_of_def local_actor_def local_party_def known_identity_def known_admission_def)
  have checks: "envelope_checks e \<longleftrightarrow> length (sha256_bytes lib (na_body request)) = 32"
    using a(1,2,3,6,8-11) digest_check [of "sha256_bytes lib (na_body request)"]
    by (auto simp: e envelope_of_def envelope_checks_def local_actor_def A2A_STATES_def a(7) a2a_body_digest_def Suc_le_eq)
  have rc: "receipt_checks r" using a(8,9) by (simp add: r received_receipt_def receipt_checks_def local_actor_def A2A_STATES_def)
  show new: "new_mail lib db e r"
    if "keyed_envelope (na_issuer_agent_identity_id request) (na_idempotency_key request) db = None"
      "find_envelope db (na_envelope_id request) = None" "length (sha256_bytes lib (na_body request)) = 32"
    using that checks rc a(7,8,10)
    by (auto simp: new_mail_def keyed_None envelope_ok_def e r envelope_of_def received_receipt_def local_actor_def)
  show ?answer
  proof (cases "keyed_envelope (na_issuer_agent_identity_id request) (na_idempotency_key request) db")
    case (Some ex)
    then have "find_envelope db (en_envelope_id ex) = Some ex" using keyed_Some [OF wf] by blast
    from read_received [OF wf this] Some show ?thesis by (auto simp: insert_a2a_envelope_def assms(2))
  next
    case None
    let ?bad = "find_envelope db (na_envelope_id request) \<noteq> None \<or> length (sha256_bytes lib (na_body request)) \<noteq> 32"
    have id: "en_envelope_id e = na_envelope_id request" "en_issuer_agent_identity_id e = na_issuer_agent_identity_id request"
      "en_idempotency_key e = na_idempotency_key request" by (simp_all add: e envelope_of_def)
    have no_key: "\<not> list_ex (\<lambda>x. en_issuer_agent_identity_id x = en_issuer_agent_identity_id e \<and> en_idempotency_key x = en_idempotency_key e) (a2a_envelopes db)"
      using None by (auto simp: id keyed_None list_ex_iff)
    show ?thesis
    proof (cases ?bad)
      case True
      then have "insert_envelope_row e db = Err A2aConstraint" using checks by (auto simp: insert_envelope_row_def id(1))
      then show ?thesis using None True by (simp add: insert_a2a_envelope_def assms(2) e)
    next
      case False
      then have nm: "new_mail lib db e r" using new None by simp
      show ?thesis
        using None False new_mail_rows [OF assms(1) nm]
        by (simp add: insert_a2a_envelope_def assms(2) e [symmetric] r [symmetric] id(1))
    qed
  qed
qed

section \<open>Retention\<close>

definition scrubbed_view :: "a2a_envelope \<times> a2a_delivery_receipt list \<Rightarrow> a2a_envelope \<times> a2a_delivery_receipt list" where
  "scrubbed_view v = (case v of (e, rs) \<Rightarrow> (e\<lparr> en_body := None \<rparr>, rs))"

lemma scrubbed_view_twice [simp]: "scrubbed_view (scrubbed_view v) = scrubbed_view v"
  by (simp add: scrubbed_view_def split: prod.splits)

definition terminal_at :: "a2a_db \<Rightarrow> string \<Rightarrow> bool" where
  "terminal_at db i \<longleftrightarrow> is_some_and (\<lambda>e. en_current_state e \<in> {''consumed'', ''expired''}) (find_envelope db i)"

lemma find_scrub_body: "find_envelope (scrub_body i db) j =
    (if j = i then map_option (\<lambda>e. e\<lparr> en_body := None \<rparr>) (find_envelope db i) else find_envelope db j)"
  by (auto simp: scrub_body_def update_envelope_def find_envelope_def is_some_and_def split: option.splits)

lemma scrub_body_frame:
  "ad_receipts (scrub_body i db) = ad_receipts db" "ad_work (scrub_body i db) = ad_work db"
  "receipts_of (scrub_body i db) = receipts_of db" "bt_wf (ad_envelopes (scrub_body i db)) = bt_wf (ad_envelopes db)"
  by (auto simp: scrub_body_def update_envelope_def receipts_of_def a2a_receipts_def fun_eq_iff)

lemma view_scrub_body: "mail_view (scrub_body i db) j = (if j = i then map_option scrubbed_view (mail_view db j) else mail_view db j)"
  by (simp add: mail_view_def find_scrub_body scrub_body_frame scrubbed_view_def option.map_comp comp_def)

lemma scrub_body_ok:
  assumes "mail_ok lib db" "terminal_at db i"
  shows "mail_ok lib (scrub_body i db)"
proof -
  let ?db = "scrub_body i db"
  note wf = mail_okD(1) [OF assms(1)]
  obtain e where e: "find_envelope db i = Some e" "en_current_state e \<in> {''consumed'', ''expired''}"
    using assms(2) by (auto simp: terminal_at_def is_some_and_def split: option.splits)
  let ?e = "e\<lparr> en_body := None \<rparr>"
  have find: "find_envelope ?db = (find_envelope db)(i \<mapsto> ?e)" using e(1) by (simp add: find_scrub_body fun_eq_iff)
  have "envelope_ok lib ?db j f" if "find_envelope ?db j = Some f" for j f
  proof (cases "j = i")
    case True
    then have "f = ?e" using that by (simp add: find)
    then show ?thesis using True e(2) mail_wfD(4) [OF wf e(1)] by (auto simp: envelope_ok_def envelope_checks_def scrub_body_frame)
  next
    case False
    then show ?thesis using that mail_wfD(4) [OF wf, of j f] by (simp add: find envelope_ok_def scrub_body_frame)
  qed
  moreover have "receipt_ok ?db k x" if "map_of (ad_receipts ?db) k = Some x" for k x
  proof -
    have "party_in ?e = party_in e" "timely ?e = timely e" by (auto simp: party_in_def timely_def fun_eq_iff)
    then show ?thesis
      using that mail_wfD(5) [OF wf, of k x] e(1) by (cases "dr_envelope_id x = i") (auto simp: receipt_ok_def find scrub_body_frame)
  qed
  moreover have "complete_history ?db"
    using mail_wfD(6) [OF wf] e(1) unfolding complete_history_def find scrub_body_frame by (auto split: if_splits)
  moreover have "keys_apart ?db"
    using mail_wfD(7) [OF wf] e(1) unfolding keys_apart_def find by (auto split: if_splits)
  ultimately show ?thesis
    using mail_wfD(1-3) [OF wf] mail_okD(2) [OF assms(1)] e by (auto simp: mail_ok_def mail_wf_def scrub_body_frame find split: if_splits)
qed

lemma terminal_scrub_body: "terminal_at (scrub_body i db) j = terminal_at db j"
  by (auto simp: terminal_at_def is_some_and_def find_scrub_body split: option.splits)

lemma scrub_fold:
  assumes "mail_ok lib db" "\<forall>i\<in>set is. terminal_at db i"
  shows "mail_ok lib (fold scrub_body is db)
    \<and> mail_view (fold scrub_body is db) j = (if j \<in> set is then map_option scrubbed_view (mail_view db j) else mail_view db j)"
  using assms
proof (induction "is" arbitrary: db)
  case (Cons i "is")
  then have "mail_ok lib (scrub_body i db)" "\<forall>k\<in>set is. terminal_at (scrub_body i db) k"
    using scrub_body_ok by (auto simp: terminal_scrub_body)
  from Cons.IH [OF this] show ?case by (auto simp: view_scrub_body option.map_comp comp_def)
qed simp

lemma in_candidates:
  assumes "mail_ok lib db" "i \<in> set (scrub_candidates lib as_of db)"
  obtains e r where "find_envelope db i = Some e" "en_current_state e \<in> {''consumed'', ''expired''}" "en_body e \<noteq> None"
    "r \<in> set (receipts_of db i)" "dr_state r = en_current_state e" "at_or_before (unixepoch lib (dr_occurred_at r) 90) (unixepoch lib as_of 0)"
proof -
  from assms(2) obtain e r where e: "e \<in> set (a2a_envelopes db)" "en_envelope_id e = i" "en_body e \<noteq> None"
    "en_current_state e \<in> {''consumed'', ''expired''}" "r \<in> set (state_receipts db e)"
    "at_or_before (unixepoch lib (dr_occurred_at r) 90) (unixepoch lib as_of 0)"
    by (auto simp: scrub_candidates_def dest!: in_set_takeD split: if_splits)
  have "find_envelope db i = Some e" using e(1,2) listed_envelopes(2) [OF mail_okD(1) [OF assms(1)]] by blast
  moreover have "r \<in> set (receipts_of db i)" "dr_state r = en_current_state e" using e(2,5) by (auto simp: state_receipts_def receipts_of_def)
  ultimately show ?thesis using that e(3,4,6) by blast
qed

lemma scrub_answer:
  assumes "mail_ok lib db"
  shows "mail_ok lib (scrub_a2a_bodies lib as_of db)"
    "mail_view (scrub_a2a_bodies lib as_of db) j =
       (if j \<in> set (scrub_candidates lib as_of db) then map_option scrubbed_view (mail_view db j) else mail_view db j)"
proof -
  have "\<forall>i\<in>set (scrub_candidates lib as_of db). terminal_at db i"
    using in_candidates [OF assms] by (auto simp: terminal_at_def is_some_and_def elim!: in_candidates [OF assms])
  from scrub_fold [OF assms this]
  show "mail_ok lib (scrub_a2a_bodies lib as_of db)"
    "mail_view (scrub_a2a_bodies lib as_of db) j =
       (if j \<in> set (scrub_candidates lib as_of db) then map_option scrubbed_view (mail_view db j) else mail_view db j)"
    unfolding scrub_a2a_bodies_def by blast+
qed

section \<open>The machine\<close>

inductive mail_moves :: "(a2a_envelope \<times> a2a_delivery_receipt list) option \<Rightarrow> (a2a_envelope \<times> a2a_delivery_receipt list) option \<Rightarrow> bool" where
  mail_sent: "en_current_state e = ''received'' \<Longrightarrow> en_state_version e = 1 \<Longrightarrow> en_body e \<noteq> None \<Longrightarrow> dr_state r = ''received'' \<Longrightarrow>
     dr_envelope_version r = 1 \<Longrightarrow> mail_moves None (Some (e, [r]))"
| mail_expired: "en_current_state e = ''received'' \<Longrightarrow> el_agent_identity_id actor = en_recipient_agent_identity_id e \<Longrightarrow> en_expires_at e \<le> t \<Longrightarrow>
     mail_moves (Some (e, rs)) (Some (expired_view actor t (e, rs)))"
| mail_consumed: "en_current_state e = ''received'' \<Longrightarrow> el_agent_identity_id actor = en_recipient_agent_identity_id e \<Longrightarrow> t < en_expires_at e \<Longrightarrow>
     en_body e \<noteq> None \<Longrightarrow> mail_moves (Some (e, rs)) (Some (consumed_view actor t (e, rs)))"
| mail_scrubbed: "en_current_state e \<in> {''consumed'', ''expired''} \<Longrightarrow> mail_moves (Some (e, rs)) (Some (scrubbed_view (e, rs)))"

inductive mail_step :: "'a a2a_lib_scheme \<Rightarrow> a2a_db \<Rightarrow> a2a_db \<Rightarrow> bool" for lib where
  mail_insert: "insert_a2a_envelope lib request db = Ok (out, db') \<Longrightarrow> mail_step lib db db'"
| mail_expire: "expire_a2a_for_recipient lib actor limit now db = Ok (n, db') \<Longrightarrow> mail_step lib db db'"
| mail_consume: "consume_a2a_for_recipient lib actor limit now db = Ok (es, db') \<Longrightarrow> mail_step lib db db'"
| mail_scrub: "mail_step lib db (scrub_a2a_bodies lib as_of db)"
| mail_work: "work_step lib (ad_work db) w \<Longrightarrow> mail_step lib db (db\<lparr> ad_work := w \<rparr>)"

definition mail_conforms :: "'a a2a_lib_scheme \<Rightarrow> a2a_db \<Rightarrow> a2a_db \<Rightarrow> bool" where
  "mail_conforms lib db db' \<longleftrightarrow> mail_ok lib db' \<and> (\<forall>i. mail_moves\<^sup>=\<^sup>= (mail_view db i) (mail_view db' i))"

lemma conforms_same:
  assumes "mail_ok lib db" "mail_ok lib db'" "ad_envelopes db' = ad_envelopes db" "ad_receipts db' = ad_receipts db"
  shows "mail_conforms lib db db'"
proof -
  have "mail_view db' = mail_view db"
    using assms(3,4) by (simp add: mail_view_def find_envelope_def receipts_of_def a2a_receipts_def fun_eq_iff)
  then show ?thesis using assms(2) by (simp add: mail_conforms_def)
qed

lemma view_Some: "mail_view db i = Some (e, rs) \<longleftrightarrow> find_envelope db i = Some e \<and> rs = receipts_of db i"
  by (auto simp: mail_view_def)

lemma received_of_due:
  assumes "mail_ok lib db" "j \<in> en_envelope_id ` set (due_envelopes agent n t db)"
  shows "\<exists>e. mail_view db j = Some (e, receipts_of db j) \<and> en_recipient_agent_identity_id e = agent \<and> en_current_state e = ''received'' \<and> en_expires_at e \<le> t"
proof -
  obtain e where e: "e \<in> set (due_envelopes agent n t db)" "j = en_envelope_id e" using assms(2) by blast
  then have "find_envelope db j = Some e" using in_due [OF e(1)] listed_envelopes(2) [OF mail_okD(1) [OF assms(1)]] by blast
  then show ?thesis using in_due [OF e(1)] mail_okD(2) [OF assms(1)] view_Some by blast
qed

lemma received_of_ready:
  assumes "mail_ok lib db" "j \<in> en_envelope_id ` set (ready_envelopes agent n t db)"
  shows "\<exists>e. mail_view db j = Some (e, receipts_of db j) \<and> en_recipient_agent_identity_id e = agent \<and> en_current_state e = ''received''
    \<and> t < en_expires_at e \<and> en_body e \<noteq> None"
proof -
  obtain e where e: "e \<in> set (ready_envelopes agent n t db)" "j = en_envelope_id e" using assms(2) by blast
  then have f: "find_envelope db j = Some e" using in_ready [OF e(1)] listed_envelopes(2) [OF mail_okD(1) [OF assms(1)]] by blast
  then have "envelope_ok lib db j e" using mail_okD(3) [OF assms(1)] by blast
  then have "en_body e \<noteq> None" using in_ready [OF e(1)] by (auto simp: envelope_ok_def split: option.splits)
  then show ?thesis using in_ready [OF e(1)] f view_Some by blast
qed

lemma due_view:
  assumes "mail_ok lib db" "j \<in> en_envelope_id ` set (due_envelopes agent n t db)" "el_agent_identity_id rc = agent"
  shows "\<exists>v. mail_view db j = Some v \<and> mail_moves (Some v) (Some (expired_view rc t v))"
  using received_of_due [OF assms(1,2)] mail_expired [of _ rc t] assms(3) by metis

lemma ready_view:
  assumes "mail_ok lib db" "j \<in> en_envelope_id ` set (ready_envelopes agent n t db)" "el_agent_identity_id rc = agent"
  shows "\<exists>v. mail_view db j = Some v \<and> mail_moves (Some v) (Some (consumed_view rc t v))"
  using received_of_ready [OF assms(1,2)] mail_consumed [of _ rc t] assms(3) by metis

text \<open>The three things a recipient call can do to an envelope.\<close>

definition call_moves ::
  "(a2a_envelope \<times> a2a_delivery_receipt list) option \<Rightarrow> (a2a_envelope \<times> a2a_delivery_receipt list) option \<Rightarrow> bool" where
  "call_moves x y \<longleftrightarrow> y = x \<or> (\<exists>v rc t. x = Some v \<and> mail_moves x y \<and> (y = Some (expired_view rc t v) \<or> y = Some (consumed_view rc t v)))"

lemma call_moves_conform:
  assumes "mail_ok lib db" "mail_wf lib db'" "\<And>i. call_moves (mail_view db i) (mail_view db' i)"
  shows "mail_conforms lib db db'"
proof -
  have "en_current_state e \<noteq> ''accepted''" if e: "find_envelope db' i = Some e" for i e
  proof -
    have v: "mail_view db' i = Some (e, receipts_of db' i)" using e by (simp add: view_Some)
    from assms(3) [of i, unfolded call_moves_def] show ?thesis
    proof (elim disjE exE conjE)
      assume "mail_view db' i = mail_view db i"
      then have "find_envelope db i = Some e" using v view_Some by metis
      then show ?thesis using mail_okD(2) [OF assms(1)] by blast
    qed (use v in \<open>auto simp: expired_view_def consumed_view_def consumed_row_def split: prod.splits\<close>)
  qed
  then have "mail_ok lib db'" using assms(2) by (simp add: mail_ok_def)
  moreover have "mail_moves\<^sup>=\<^sup>= (mail_view db i) (mail_view db' i)" for i
    using assms(3) [of i] unfolding call_moves_def by (elim disjE exE conjE) auto
  ultimately show ?thesis by (simp add: mail_conforms_def)
qed

lemma expire_views:
  assumes "mail_ok lib db" "expire_a2a_for_recipient lib actor limit now db = Ok (m, db')"
  shows "mail_wf lib db'" "call_moves (mail_view db i) (mail_view db' i)"
proof -
  obtain n t rc where a: "admit_actor lib actor limit now db = Ok (n, t, rc)"
    using assms(2) by (auto simp: expire_a2a_for_recipient_def and_then_Inr_iff)
  note rc = admit_actor_Ok [OF assms(1) a]
  let ?es = "due_envelopes (ta_agent_identity_id actor) n t db"
  have db': "db' = expired_all rc t ?es db" using expire_answer(1) [OF assms(1) a] assms(2) by simp
  note views = view_expired_all [OF mail_okD(1) [OF assms(1)] due_moves [OF assms(1) rc(5,6), of n t], of i, folded db']
  show "mail_wf lib db'" using expire_answer(2) [OF assms(1) a] by (simp only: db')
  show "call_moves (mail_view db i) (mail_view db' i)"
  proof (cases "i \<in> en_envelope_id ` set ?es")
    case True
    then show ?thesis using due_view [OF assms(1) True rc(7)] views unfolding call_moves_def by (elim exE conjE) (simp, blast)
  qed (simp add: views call_moves_def)
qed

lemma consume_views:
  assumes "mail_ok lib db" "consume_a2a_for_recipient lib actor limit now db = Ok (es, db')"
  shows "mail_wf lib db'" "call_moves (mail_view db i) (mail_view db' i)"
proof -
  obtain n t rc where a: "admit_actor lib actor limit now db = Ok (n, t, rc)"
    using assms(2) by (auto simp: consume_a2a_for_recipient_def and_then_Inr_iff)
  note rc = admit_actor_Ok [OF assms(1) a]
  let ?agent = "ta_agent_identity_id actor"
  have db': "db' = after_consume rc t n db" using consume_answer(1) [OF assms(1) a] assms(2) by simp
  note views = view_after_consume [OF assms(1) rc(5,6), of t n i, folded db']
  show "mail_wf lib db'" using consume_answer(2) [OF assms(1) a] by (simp only: db')
  consider "i \<in> en_envelope_id ` set (ready_envelopes ?agent n t db)"
    | "i \<notin> en_envelope_id ` set (ready_envelopes ?agent n t db)" "i \<in> en_envelope_id ` set (due_envelopes ?agent n t db)"
    | "mail_view db' i = mail_view db i" using views by argo
  then show "call_moves (mail_view db i) (mail_view db' i)"
  proof cases
    case 1
    then show ?thesis using ready_view [OF assms(1) 1 rc(7)] views unfolding call_moves_def by (elim exE conjE) (simp, blast)
  next
    case 2
    then show ?thesis using due_view [OF assms(1) 2(2) rc(7)] views unfolding call_moves_def by (elim exE conjE) (simp, blast)
  qed (simp add: call_moves_def)
qed

lemma insert_views:
  assumes "mail_ok lib db" "insert_a2a_envelope lib request db = Ok (out, db')"
  shows "mail_ok lib db' \<and> (mail_view db' i = mail_view db i \<or> mail_view db i = None \<and> mail_moves None (mail_view db' i))"
proof -
  obtain c x d issuer rc where a: "admit_request lib request db = Ok (c, x, d, issuer, rc)"
    using assms(2) by (auto simp: insert_a2a_envelope_def and_then_Inr_iff)
  define e r where er: "e = envelope_of request issuer rc d c x" "r = received_receipt request issuer c"
  note answer = insert_answer [OF assms(1) a er]
  show ?thesis
  proof (cases "keyed_envelope (na_issuer_agent_identity_id request) (na_idempotency_key request) db")
    case (Some ex)
    then have "db' = db" using answer(1) assms(2) by (simp split: if_splits)
    then show ?thesis using assms(1) by simp
  next
    case None
    then have db': "db' = sent e r db" and new: "new_mail lib db e r" using answer assms(2) by (simp_all split: if_splits)
    show ?thesis
    proof (cases "i = en_envelope_id e")
      case True
      then have "mail_view db i = None" using new by (simp add: new_mail_def mail_view_def)
      moreover have "mail_moves None (Some (e, [r]))"
        using new by (intro mail_sent) (auto simp: new_mail_def envelope_ok_def split: option.splits)
      ultimately show ?thesis using view_sent [OF assms(1) new] sent_ok [OF assms(1) new] True by (simp add: db')
    qed (simp add: db' view_sent [OF assms(1) new] sent_ok [OF assms(1) new])
  qed
qed

lemma scrub_step:
  assumes "mail_ok lib db"
  shows "mail_conforms lib db (scrub_a2a_bodies lib as_of db)"
proof -
  have "mail_moves\<^sup>=\<^sup>= (mail_view db i) (mail_view (scrub_a2a_bodies lib as_of db) i)" for i
  proof (cases "i \<in> set (scrub_candidates lib as_of db)")
    case True
    then obtain e where "find_envelope db i = Some e" "en_current_state e \<in> {''consumed'', ''expired''}" using in_candidates [OF assms] by metis
    then have "mail_view db i = Some (e, receipts_of db i)" "mail_moves (Some (e, receipts_of db i)) (Some (scrubbed_view (e, receipts_of db i)))"
      by (simp add: view_Some, intro mail_scrubbed)
    then show ?thesis using True by (simp add: scrub_answer(2) [OF assms])
  qed (simp add: scrub_answer(2) [OF assms])
  then show ?thesis using scrub_answer(1) [OF assms] by (simp add: mail_conforms_def)
qed

lemma work_step_mail:
  assumes "mail_ok lib db" "work_step lib (ad_work db) w"
  shows "mail_conforms lib db (db\<lparr> ad_work := w \<rparr>)"
proof (rule conforms_same [OF assms(1)])
  note grow = work_step_parties [OF mail_okD(4) [OF assms(1)] assms(2)]
  have "find_envelope (db\<lparr> ad_work := w \<rparr>) = find_envelope db" by (simp add: find_envelope_def fun_eq_iff)
  then show "mail_ok lib (db\<lparr> ad_work := w \<rparr>)"
    using assms(1) grow local_party_grow [of "ad_work db" w]
    unfolding mail_ok_def mail_wf_def envelope_ok_def receipt_ok_def complete_history_def keys_apart_def by simp
qed simp_all

lemma mail_step_conforms:
  assumes "mail_ok lib db" "mail_step lib db db'"
  shows "mail_conforms lib db db'"
  using assms(2)
proof cases
  case (mail_insert request out)
  note views = insert_views [OF assms(1) mail_insert]
  have "mail_moves\<^sup>=\<^sup>= (mail_view db i) (mail_view db' i)" for i using views [of i] by auto
  then show ?thesis using views by (simp add: mail_conforms_def)
next
  case (mail_expire actor limit now n)
  show ?thesis by (rule call_moves_conform [OF assms(1) expire_views [OF assms(1) mail_expire]])
next
  case (mail_consume actor limit now es)
  show ?thesis by (rule call_moves_conform [OF assms(1) consume_views [OF assms(1) mail_consume]])
qed (use assms(1) scrub_step work_step_mail in auto)

interpretation mailbox: row_machine "mail_step lib" "mail_ok lib" "\<lambda>db i. Some (mail_view db i)" mail_moves for lib
proof unfold_locales
  fix db db' i and v :: "(a2a_envelope \<times> a2a_delivery_receipt list) option"
  assume "mail_ok lib db" "mail_step lib db db'" "Some (mail_view db i) = Some v"
  then have "mail_moves\<^sup>=\<^sup>= v (mail_view db' i)" using mail_step_conforms [of lib db db'] by (auto simp: mail_conforms_def)
  then show "\<exists>v'. Some (mail_view db' i) = Some v' \<and> mail_moves\<^sup>*\<^sup>* v v'" by auto
qed (use mail_step_conforms in \<open>auto simp: mail_conforms_def\<close>)

definition empty_mailbox :: a2a_db where
  "empty_mailbox = \<lparr> ad_work = empty_work, ad_envelopes = [], ad_receipts = [] \<rparr>"

lemma mail_ok_empty: "mail_ok lib empty_mailbox"
  by (simp add: mail_ok_def mail_wf_def parties_ok_def empty_mailbox_def empty_work_def find_envelope_def complete_history_def keys_apart_def)

end
