(* ===== verification/A2a_Contract.thy ===== *)
theory A2a_Contract
  imports A2a_Machine
begin

text \<open>
  What the mailbox promises, in every state its calls and the work claims' calls can reach:
  the receipts tell the whole history, a recipient call is total and does exactly what it says,
  mail is delivered at most once and in order, and sending is idempotent for as long as the
  envelope exists.
\<close>

abbreviation mail_reached :: "'a a2a_lib_scheme \<Rightarrow> a2a_db \<Rightarrow> bool" where
  "mail_reached lib db \<equiv> (mail_step lib)\<^sup>*\<^sup>* empty_mailbox db"

lemma mail_reached_ok: "mail_reached lib db \<Longrightarrow> mail_ok lib db"
  using mailbox.run_good mail_ok_empty by blast

section \<open>Receipts\<close>

text \<open>C29: In every reachable mailbox the receipts of an envelope, by version, are exactly the states it went
  through: received, then accepted and consumed, or expired. Its own state and version are those of its last receipt,
  it never rests in accepted, the sender wrote the first receipt at the time of creation and the recipient every other,
  each as a party with a recorded local admission, reading strictly before the expiry and expiring not before it.\<close>

theorem mailbox_trail:
  assumes "mail_reached lib db" "find_envelope db i = Some e"
  shows "map (\<lambda>r. (dr_state r, dr_envelope_version r)) (receipts_of db i) = history_of (en_current_state e)
    \<and> en_current_state e \<in> {''received'', ''consumed'', ''expired''} \<and> en_state_version e = int (length (receipts_of db i))
    \<and> (\<forall>r\<in>set (receipts_of db i). dr_envelope_id r = i
         \<and> dr_actor_agent_identity_id r = (if dr_state r = ''received'' then en_issuer_agent_identity_id e else en_recipient_agent_identity_id e)
         \<and> local_party (ad_work db) (dr_actor_agent_identity_id r) (dr_actor_admission_id r)
         \<and> (if dr_state r = ''received'' then dr_occurred_at r = en_created_at e
            else if dr_state r = ''expired'' then en_expires_at e \<le> dr_occurred_at r else dr_occurred_at r < en_expires_at e))"
proof -
  have ok: "mail_ok lib db" using assms(1) by (rule mail_reached_ok)
  note wf = mail_okD(1) [OF ok]
  have h: "map (\<lambda>r. (dr_state r, dr_envelope_version r)) (receipts_of db i) = history_of (en_current_state e)"
    by (rule receipts_history [OF wf assms(2)])
  have e: "envelope_ok lib db i e" by (rule mail_okD(3) [OF ok assms(2)])
  have "en_current_state e \<in> {''received'', ''consumed'', ''expired''}"
    using mail_okD(2) [OF ok assms(2)] e by (auto simp: envelope_ok_def envelope_checks_def A2A_STATES_def)
  moreover have "en_state_version e = int (length (receipts_of db i))" using e h by (metis envelope_ok_def length_map)
  moreover have "dr_envelope_id r = i \<and> dr_actor_agent_identity_id r = party_in e (dr_state r)
      \<and> local_party (ad_work db) (dr_actor_agent_identity_id r) (dr_actor_admission_id r) \<and> timely e (dr_state r) (dr_occurred_at r)"
    if r: "r \<in> set (receipts_of db i)" for r
  proof -
    have "receipt_ok db (dr_receipt_id r) r" "dr_envelope_id r = i" using r receipts_of_wf(3) [OF wf] mail_wfD(5) [OF wf] by auto
    then show ?thesis using assms(2) unfolding receipt_ok_def by force
  qed
  ultimately show ?thesis using h unfolding party_in_def timely_def by blast
qed

section \<open>Reading\<close>

text \<open>The mail an agent can still read at a time, oldest first.\<close>

definition live_mail :: "string \<Rightarrow> string \<Rightarrow> a2a_db \<Rightarrow> a2a_envelope list" where
  "live_mail agent t db = sort_key (\<lambda>e. (en_created_at e, en_envelope_id e))
     (filter (\<lambda>e. en_recipient_agent_identity_id e = agent \<and> en_current_state e = ''received'' \<and> t < en_expires_at e) (a2a_envelopes db))"

lemma ready_live: "ready_envelopes agent n t db = take n (live_mail agent t db)"
  by (simp add: ready_envelopes_def live_mail_def)

lemma in_live:
  assumes "mail_wf lib db"
  shows "e \<in> set (live_mail agent t db) \<longleftrightarrow> find_envelope db (en_envelope_id e) = Some e \<and> en_recipient_agent_identity_id e = agent
     \<and> en_current_state e = ''received'' \<and> t < en_expires_at e"
  using listed_envelopes(2) [OF assms] by (auto simp: live_mail_def)

lemma distinct_live:
  assumes "mail_wf lib db"
  shows "distinct (map (\<lambda>e. (en_created_at e, en_envelope_id e)) (live_mail agent t db))" "distinct (map en_envelope_id (live_mail agent t db))"
    "sorted (map (\<lambda>e. (en_created_at e, en_envelope_id e)) (live_mail agent t db))"
proof -
  show ids: "distinct (map en_envelope_id (live_mail agent t db))"
    using listed_envelopes(1) [OF assms] by (auto simp: live_mail_def distinct_map intro: inj_on_subset)
  then show "distinct (map (\<lambda>e. (en_created_at e, en_envelope_id e)) (live_mail agent t db))"
    by (auto simp: distinct_map inj_on_def)
  show "sorted (map (\<lambda>e. (en_created_at e, en_envelope_id e)) (live_mail agent t db))" by (simp add: live_mail_def)
qed

text \<open>What is live after a set of envelopes has moved on.\<close>

lemma live_rest:
  assumes "mail_wf lib db" "mail_wf lib db'"
    "\<And>e. e \<in> set (live_mail agent t db') \<longleftrightarrow> e \<in> set (live_mail agent t db) \<and> e \<notin> set (take n (live_mail agent t db))"
  shows "live_mail agent t db' = drop n (live_mail agent t db)"
proof (rule sorted_distinct_key_unique [of "\<lambda>e. (en_created_at e, en_envelope_id e)"])
  let ?k = "\<lambda>e. (en_created_at e, en_envelope_id e)" and ?xs = "live_mail agent t db"
  show "sorted (map ?k (live_mail agent t db'))" "distinct (map ?k (live_mail agent t db'))" using distinct_live [OF assms(2)] by auto
  show "sorted (map ?k (drop n ?xs))" "distinct (map ?k (drop n ?xs))"
    using distinct_live [OF assms(1)] by (simp_all add: drop_map [symmetric] sorted_wrt_drop)
  have "distinct (take n ?xs @ drop n ?xs)" using distinct_live(1) [OF assms(1)] by (simp add: distinct_map)
  then have "set (take n ?xs) \<inter> set (drop n ?xs) = {}" by (simp only: distinct_append)
  moreover have "set ?xs = set (take n ?xs) \<union> set (drop n ?xs)" by (simp only: set_append [symmetric] append_take_drop_id)
  ultimately have "e \<in> set ?xs \<and> e \<notin> set (take n ?xs) \<longleftrightarrow> e \<in> set (drop n ?xs)" for e by blast
  then show "set (live_mail agent t db') = set (drop n ?xs)" using assms(3) by blast
qed

lemma live_after_consume:
  assumes ok: "mail_ok lib db" and rc: "local_actor (ad_work db) agent rc" "el_trust_basis rc = ''current_local_connection''"
    and wf': "mail_wf lib (after_consume rc t n db)"
  shows "live_mail agent t (after_consume rc t n db) = drop n (live_mail agent t db)"
proof (rule live_rest [OF mail_okD(1) [OF ok] wf'])
    fix e :: a2a_envelope
    let ?i = "en_envelope_id e" and ?db = "after_consume rc t n db"
    note wf = mail_okD(1) [OF ok]
    note views = view_after_consume [OF ok rc, of t n, unfolded ready_live]
    have moved: "find_envelope ?db ?i \<noteq> Some e \<or> en_current_state e \<noteq> ''received''"
      if "mail_view ?db ?i = map_option (consumed_view rc t) (mail_view db ?i) \<or> mail_view ?db ?i = map_option (expired_view rc t) (mail_view db ?i)"
    proof -
      have "find_envelope ?db ?i = Some e \<Longrightarrow> mail_view ?db ?i = Some (e, receipts_of ?db ?i)" by (simp add: view_Some)
      then show ?thesis using that
        by (cases "mail_view db ?i") (auto simp: consumed_view_def expired_view_def consumed_row_def)
    qed
    have same: "find_envelope ?db ?i = find_envelope db ?i" if "mail_view ?db ?i = mail_view db ?i"
      using that by (cases "find_envelope ?db ?i"; cases "find_envelope db ?i") (auto simp: mail_view_def)
    have fresh: "f = e" if "f \<in> set (live_mail agent t db)" "e \<in> set (live_mail agent t db)" "en_envelope_id f = ?i" for f
      using that in_live [OF wf] by (metis option.inject)
    have not_due: "?i \<notin> en_envelope_id ` set (due_envelopes agent n t db)" if "e \<in> set (live_mail agent t db)"
    proof
      assume "?i \<in> en_envelope_id ` set (due_envelopes agent n t db)"
      then obtain f where f: "f \<in> set (due_envelopes agent n t db)" "?i = en_envelope_id f" by blast
      then have "find_envelope db ?i = Some f" "en_expires_at f \<le> t" using in_due [OF f(1)] listed_envelopes(2) [OF wf, of f] by simp_all
      then show False using that in_live [OF wf, of e] by auto
    qed
    have taken: "?i \<in> en_envelope_id ` set (take n (live_mail agent t db)) \<longleftrightarrow> e \<in> set (take n (live_mail agent t db))"
      if "e \<in> set (live_mail agent t db)" 
    proof
      assume "?i \<in> en_envelope_id ` set (take n (live_mail agent t db))"
      then obtain f where f: "f \<in> set (take n (live_mail agent t db))" "en_envelope_id f = ?i" by force
      then have "f = e" using fresh that in_set_takeD by fast
      then show "e \<in> set (take n (live_mail agent t db))" using f(1) by simp
    qed (rule imageI)
    show "e \<in> set (live_mail agent t ?db) \<longleftrightarrow> e \<in> set (live_mail agent t db) \<and> e \<notin> set (take n (live_mail agent t db))"
    proof
      assume "e \<in> set (live_mail agent t ?db)"
      then have l: "find_envelope ?db ?i = Some e" "en_recipient_agent_identity_id e = agent" "en_current_state e = ''received''" "t < en_expires_at e"
        using in_live [OF wf'] by blast+
      then have out: "?i \<notin> en_envelope_id ` set (take n (live_mail agent t db))" and "mail_view ?db ?i = mail_view db ?i"
        using moved views [of ?i] by presburger+
      then have "e \<in> set (live_mail agent t db)" using l same in_live [OF wf] by simp
      then show "e \<in> set (live_mail agent t db) \<and> e \<notin> set (take n (live_mail agent t db))" using out by blast
    next
      assume r: "e \<in> set (live_mail agent t db) \<and> e \<notin> set (take n (live_mail agent t db))"
      then have "mail_view ?db ?i = mail_view db ?i" using views [of ?i] taken not_due by presburger
      then show "e \<in> set (live_mail agent t ?db)" using r same in_live [OF wf] in_live [OF wf'] by simp
    qed
qed

text \<open>C30: An admitted consume always succeeds. It answers with the first messages of the recipient's live mail, oldest
  first and up to the limit, each consumed with its two receipts; it expires up to the same number of overdue messages;
  it touches no other envelope; and what is live afterwards is exactly the rest, so repeating the call drains the
  mailbox.\<close>

theorem consume_law:
  assumes "mail_reached lib db" "admit_actor lib actor limit now db = Ok (n, t, rc)"
  shows "\<exists>db'. consume_a2a_for_recipient lib actor limit now db = Ok (map consumed_row (take n (live_mail (ta_agent_identity_id actor) t db)), db')
    \<and> live_mail (ta_agent_identity_id actor) t db' = drop n (live_mail (ta_agent_identity_id actor) t db)
    \<and> (\<forall>i. mail_view db' i =
         (if i \<in> en_envelope_id ` set (take n (live_mail (ta_agent_identity_id actor) t db)) then map_option (consumed_view rc t) (mail_view db i)
          else if i \<in> en_envelope_id ` set (due_envelopes (ta_agent_identity_id actor) n t db) then map_option (expired_view rc t) (mail_view db i)
          else mail_view db i))"
proof (intro exI conjI allI)
  let ?agent = "ta_agent_identity_id actor" and ?db = "after_consume rc t n db"
  have ok: "mail_ok lib db" using assms(1) by (rule mail_reached_ok)
  note rc = admit_actor_Ok [OF ok assms(2)]
  note answer = consume_answer [OF ok assms(2)]
  show "consume_a2a_for_recipient lib actor limit now db = Ok (map consumed_row (take n (live_mail ?agent t db)), ?db)"
    using answer(1) by (simp add: ready_live)
  show views: "mail_view ?db i = (if i \<in> en_envelope_id ` set (take n (live_mail ?agent t db)) then map_option (consumed_view rc t) (mail_view db i)
      else if i \<in> en_envelope_id ` set (due_envelopes ?agent n t db) then map_option (expired_view rc t) (mail_view db i) else mail_view db i)" for i
    using view_after_consume [OF ok rc(5,6), of t n i] by (simp add: ready_live)
  show "live_mail ?agent t ?db = drop n (live_mail ?agent t db)" by (rule live_after_consume [OF ok rc(5,6) answer(2)])
qed

text \<open>C31: No envelope is delivered twice: what one consume returned, no later consume of any agent returns, whatever
  happened in between.\<close>

theorem delivered_at_most_once:
  assumes "mail_reached lib db" "consume_a2a_for_recipient lib actor limit now db = Ok (es, db')" "(mail_step lib)\<^sup>*\<^sup>* db' later"
    "consume_a2a_for_recipient lib reader limit' now' later = Ok (fs, later')"
  shows "en_envelope_id ` set es \<inter> en_envelope_id ` set fs = {}"
proof -
  have ok: "mail_ok lib db" using assms(1) by (rule mail_reached_ok)
  have run: "mail_reached lib later" using assms(1,3) mail_consume [OF assms(2)] by (meson rtranclp.rtrancl_into_rtrancl rtranclp_trans)
  obtain n t rc where a: "admit_actor lib actor limit now db = Ok (n, t, rc)"
    using assms(2) by (auto simp: consume_a2a_for_recipient_def and_then_Inr_iff)
  obtain n' t' rc' where b: "admit_actor lib reader limit' now' later = Ok (n', t', rc')"
    using assms(4) by (auto simp: consume_a2a_for_recipient_def and_then_Inr_iff)
  let ?xs = "take n (live_mail (ta_agent_identity_id actor) t db)" and ?ys = "take n' (live_mail (ta_agent_identity_id reader) t' later)"
  have es: "es = map consumed_row ?xs" and fs: "fs = map consumed_row ?ys"
    using consume_law [OF assms(1) a] consume_law [OF run b] assms(2,4) by auto
  have ids: "en_envelope_id (consumed_row e) = en_envelope_id e" for e by (simp add: consumed_row_def)
  have "en_envelope_id x \<noteq> en_envelope_id y" if x: "x \<in> set ?xs" and y: "y \<in> set ?ys" for x y
  proof -
    have "find_envelope db (en_envelope_id x) = Some x" using x in_live [OF mail_okD(1) [OF ok]] in_set_takeD by metis
    then have "mail_view db' (en_envelope_id x) = Some (consumed_view rc t (x, receipts_of db (en_envelope_id x)))"
      using consume_law [OF assms(1) a] assms(2) x by (auto simp: mail_view_def)
    moreover have "mail_ok lib db'" using mail_step_conforms [OF ok mail_consume [OF assms(2)]] by (simp add: mail_conforms_def)
    ultimately have "\<exists>v. Some (mail_view later (en_envelope_id x)) = Some v \<and> (\<exists>e rs. v = Some (e, rs) \<and> en_current_state e = ''consumed'')"
      by (intro mailbox.run_keeps [OF assms(3)])
        (auto simp: consumed_view_def consumed_row_def expired_view_def scrubbed_view_def elim!: mail_moves.cases)
    then have "\<exists>e. find_envelope later (en_envelope_id x) = Some e \<and> en_current_state e = ''consumed''" by (auto simp: view_Some)
    moreover have "find_envelope later (en_envelope_id y) = Some y" "en_current_state y = ''received''"
      using y in_live [OF mail_okD(1) [OF mail_reached_ok [OF run]]] in_set_takeD by metis+
    ultimately show ?thesis by auto
  qed
  then show ?thesis by (auto simp: es fs ids)
qed

section \<open>Sending\<close>

text \<open>What the moves never change of an envelope, but for its state, version and scrubbed body.\<close>

definition same_letter :: "a2a_envelope \<Rightarrow> a2a_envelope \<Rightarrow> bool" where
  "same_letter e f \<longleftrightarrow> (\<exists>state version body. f = e\<lparr> en_current_state := state, en_state_version := version, en_body := body \<rparr>
     \<and> (body = en_body e \<or> body = None))"

lemma same_letter_refl [simp]: "same_letter e e"
  unfolding same_letter_def by (rule exI [of _ "en_current_state e"], rule exI [of _ "en_state_version e"], rule exI [of _ "en_body e"]) simp

lemma same_letter_fields:
  assumes "same_letter e f"
  shows "en_envelope_id f = en_envelope_id e" "en_kind f = en_kind e" "en_issuer_agent_identity_id f = en_issuer_agent_identity_id e"
    "en_recipient_agent_identity_id f = en_recipient_agent_identity_id e" "en_subject_ref f = en_subject_ref e"
    "en_body_digest f = en_body_digest e" "en_issuer_trust_domain f = en_issuer_trust_domain e"
    "en_recipient_trust_domain f = en_recipient_trust_domain e" "en_idempotency_key f = en_idempotency_key e"
    "en_created_at f = en_created_at e" "en_expires_at f = en_expires_at e"
  using assms by (auto simp: same_letter_def)

lemma same_letter_moves:
  assumes "same_letter e f"
  shows "same_letter e (moved_row b f)" "same_letter e (f\<lparr> en_body := None \<rparr>)"
proof -
  obtain s v body where f: "f = e\<lparr> en_current_state := s, en_state_version := v, en_body := body \<rparr>" "body = en_body e \<or> body = None"
    using assms by (auto simp: same_letter_def)
  have "moved_row b f = e\<lparr> en_current_state := b, en_state_version := v + 1, en_body := body \<rparr>"
    "f\<lparr> en_body := None \<rparr> = e\<lparr> en_current_state := s, en_state_version := v, en_body := None \<rparr>" by (simp_all add: f(1) moved_row_def)
  then show "same_letter e (moved_row b f)" "same_letter e (f\<lparr> en_body := None \<rparr>)" using f(2) unfolding same_letter_def by blast+
qed

lemma moves_same_letter:
  assumes "mail_moves v v'" "\<exists>f rs. v = Some (f, r # rs) \<and> same_letter e f"
  shows "\<exists>f rs. v' = Some (f, r # rs) \<and> same_letter e f"
  using assms
  by (auto simp: expired_view_def consumed_view_def consumed_row_def scrubbed_view_def same_letter_moves elim!: mail_moves.cases)

text \<open>C32: Sending is idempotent. Whatever has happened to an envelope since it was created (even its consumption
  and the loss of its body), a later request of the same issuer under the same key never makes another: it gets that
  envelope and its first receipt back if it names the same recipient, subject, lifetime and body (by its digest, once
  the body is gone), it is a conflict otherwise, and it changes nothing.\<close>

theorem sending_is_idempotent:
  assumes "mail_reached lib db" "insert_a2a_envelope lib request db = Ok (A2aCreated e r, db')" "(mail_step lib)\<^sup>*\<^sup>* db' later"
    "admit_request lib again later = Ok (created, expires, digest, issuer, recipient)"
    "na_issuer_agent_identity_id again = na_issuer_agent_identity_id request" "na_idempotency_key again = na_idempotency_key request"
  shows "\<exists>f. find_envelope later (na_envelope_id request) = Some f \<and> same_letter e f
    \<and> insert_a2a_envelope lib again later =
        (if na_recipient_agent_identity_id again = na_recipient_agent_identity_id request \<and> na_subject_ref again = na_subject_ref request
           \<and> ttl_matches lib e created expires
           \<and> (if en_body f = None then a2a_body_digest lib (na_body again) = a2a_body_digest lib (na_body request) else na_body again = na_body request)
         then Ok (A2aReplay f r, later) else Err (A2aDuplicate (na_issuer_agent_identity_id request) (na_idempotency_key request)))"
proof -
  have ok: "mail_ok lib db" using assms(1) by (rule mail_reached_ok)
  have run: "mail_reached lib later" using assms(1,3) mail_insert [OF assms(2)] by (meson rtranclp.rtrancl_into_rtrancl rtranclp_trans)
  have ok': "mail_ok lib later" using run by (rule mail_reached_ok)
  obtain c x d iss rc where a: "admit_request lib request db = Ok (c, x, d, iss, rc)"
    using assms(2) by (auto simp: insert_a2a_envelope_def and_then_Inr_iff)
  note answer = insert_answer [OF ok a HOL.refl HOL.refl]
  have er: "e = envelope_of request iss rc d c x" "r = received_receipt request iss c" "db' = sent e r db" and new: "new_mail lib db e r"
    using assms(2) answer by (auto split: option.splits if_splits)
  have "mail_view db' (na_envelope_id request) = Some (e, [r])"
    using view_sent [OF ok new, of "na_envelope_id request"] er by (simp add: envelope_of_def)
  moreover have "mail_ok lib db'" using insert_views [OF ok assms(2)] by blast
  ultimately have "\<exists>v. Some (mail_view later (na_envelope_id request)) = Some v \<and> (\<exists>f rs. v = Some (f, r # rs) \<and> same_letter e f)"
    by (intro mailbox.run_keeps [OF assms(3)]) (blast intro: same_letter_refl moves_same_letter)+
  then obtain f rs where f: "find_envelope later (na_envelope_id request) = Some f" "receipts_of later (na_envelope_id request) = r # rs" "same_letter e f"
    by (metis option.inject view_Some)
  note fields = same_letter_fields [OF f(3)]
  have key: "keyed_envelope (na_issuer_agent_identity_id request) (na_idempotency_key request) later = Some f"
    using keyed_Some [OF mail_okD(1) [OF ok']] f(1) fields er(1) by (simp add: envelope_of_def)
  have body: "en_body f = None \<or> en_body f = Some (na_body request)" using f(3) er(1) by (auto simp: same_letter_def envelope_of_def)
  have local: "en_issuer_trust_domain f = ''same_host''" "en_recipient_trust_domain f = ''same_host''"
    using mail_okD(3) [OF ok' f(1)] by (simp_all add: envelope_ok_def envelope_checks_def)
  have ttl: "ttl_matches lib f created expires = ttl_matches lib e created expires" unfolding ttl_matches_def fields ..
  have "payload_matches lib f again digest created expires \<longleftrightarrow>
      na_recipient_agent_identity_id again = na_recipient_agent_identity_id request \<and> na_subject_ref again = na_subject_ref request
      \<and> ttl_matches lib e created expires
      \<and> (if en_body f = None then a2a_body_digest lib (na_body again) = a2a_body_digest lib (na_body request) else na_body again = na_body request)"
    using body admit_request_Ok(7) [OF ok a] admit_request_Ok(7) [OF ok' assms(4)]
    by (auto simp: payload_matches_def ttl local fields er(1) envelope_of_def A2A_TURN_RESPONSE_KIND_def A2A_SAME_HOST_TRUST_DOMAIN_def assms(5))
  then show ?thesis
    using insert_answer(1) [OF ok' assms(4) HOL.refl HOL.refl] f key fields(1) er(1)
    by (simp add: assms(5,6) envelope_of_def)
qed

text \<open>Why an admitted request is refused, with a library whose digests are 32 bytes.\<close>

lemma insert_refusals:
  assumes "mail_reached lib db" "admit_request lib request db = Ok (created, expires, digest, issuer, recipient)"
    "length (sha256_bytes lib (na_body request)) = 32" "insert_a2a_envelope lib request db = Err err"
  shows "(\<exists>e. find_envelope db (en_envelope_id e) = Some e \<and> en_issuer_agent_identity_id e = na_issuer_agent_identity_id request
            \<and> en_idempotency_key e = na_idempotency_key request \<and> \<not> payload_matches lib e request digest created expires
            \<and> err = A2aDuplicate (na_issuer_agent_identity_id request) (na_idempotency_key request))
     \<or> find_envelope db (na_envelope_id request) \<noteq> None \<and> err = A2aConstraint"
  using insert_answer(1) [OF mail_reached_ok [OF assms(1)] assms(2) HOL.refl HOL.refl] assms(3,4)
    keyed_Some [OF mail_okD(1) [OF mail_reached_ok [OF assms(1)]]]
  by (auto split: option.splits if_splits)

section \<open>Retention\<close>

lemma call_moves_body: "call_moves (Some (e, rs)) (Some (f, qs)) \<Longrightarrow> en_body f = en_body e"
  by (auto simp: call_moves_def expired_view_def consumed_view_def consumed_row_def)

text \<open>C33: A body leaves the store in one way only. A call that takes it away is a maintenance sweep, the envelope was
  consumed or expired, and the receipt of that state is at least ninety days old at the time of the sweep; the digest
  and the receipts stay.\<close>

theorem bodies_outlive_delivery:
  assumes "mail_reached lib db" "mail_step lib db db'" "find_envelope db i = Some e" "en_body e \<noteq> None" "find_envelope db' i = Some f" "en_body f = None"
  shows "\<exists>as_of r. db' = scrub_a2a_bodies lib as_of db \<and> en_current_state e \<in> {''consumed'', ''expired''} \<and> r \<in> set (receipts_of db i)
    \<and> dr_state r = en_current_state e \<and> at_or_before (unixepoch lib (dr_occurred_at r) 90) (unixepoch lib as_of 0)
    \<and> f = e\<lparr> en_body := None \<rparr> \<and> receipts_of db' i = receipts_of db i"
proof -
  have ok: "mail_ok lib db" using assms(1) by (rule mail_reached_ok)
  have conf: "mail_conforms lib db db'" using mail_step_conforms [OF ok assms(2)] .
  have v: "mail_view db i = Some (e, receipts_of db i)" "mail_view db' i = Some (f, receipts_of db' i)" using assms(3,5) by (simp_all add: view_Some)
  have keeps: "x = scrubbed_view (e, receipts_of db i)" if "mail_moves (mail_view db i) (Some x)" "en_body (fst x) = None" for x
    using that assms(4) v(1) by (auto simp: expired_view_def consumed_view_def consumed_row_def elim!: mail_moves.cases)
  have changed: "mail_view db' i \<noteq> mail_view db i" using v assms(4,6) by auto
  then have "mail_moves (mail_view db i) (Some (f, receipts_of db' i))" using conf v(2) unfolding mail_conforms_def by (metis sup2E)
  then have same: "f = e\<lparr> en_body := None \<rparr>" "receipts_of db' i = receipts_of db i" using keeps [of "(f, receipts_of db' i)"] assms(6) by (auto simp: scrubbed_view_def)
  show ?thesis
    using assms(2)
  proof cases
    case (mail_scrub as_of)
    have "i \<in> set (scrub_candidates lib as_of db)" using changed unfolding mail_scrub scrub_answer(2) [OF ok] by presburger
    from in_candidates [OF ok this] obtain g r where "find_envelope db i = Some g" "en_current_state g \<in> {''consumed'', ''expired''}"
      "r \<in> set (receipts_of db i)" "dr_state r = en_current_state g" "at_or_before (unixepoch lib (dr_occurred_at r) 90) (unixepoch lib as_of 0)"
      by blast
    then show ?thesis using mail_scrub same assms(3) by auto
  next
    case (mail_insert request out)
    then show ?thesis using insert_views [OF ok mail_insert, of i] changed v(1) by simp
  next
    case (mail_expire actor limit now n)
    show ?thesis using call_moves_body [OF expire_views(2) [OF ok mail_expire, of i, unfolded v]] assms(4,6) by simp
  next
    case (mail_consume actor limit now es)
    show ?thesis using call_moves_body [OF consume_views(2) [OF ok mail_consume, of i, unfolded v]] assms(4,6) by simp
  next
    case (mail_work w)
    then show ?thesis using changed by (simp add: mail_view_def find_envelope_def receipts_of_def a2a_receipts_def)
  qed
qed

section \<open>Admission\<close>

lemma grow_refl [simp]: "parties_grow w w"
  by (simp add: parties_grow_def)

lemma grow_lookup:
  assumes "parties_grow w w'"
  shows "map_of (wd_identities w) k \<noteq> None \<Longrightarrow> map_of (wd_identities w') k \<noteq> None"
    "map_of (wd_admissions w) k = Some a \<Longrightarrow> map_of (wd_admissions w') k = Some a"
  using assms by (auto simp: parties_grow_def map_le_def dom_def)

lemma consumed_all_work: "ad_work (consumed_all actor t es db) = ad_work db"
  by (induction es arbitrary: db) (simp_all add: consumed_all_def)

lemma expired_all_work: "ad_work (expired_all actor t es db) = ad_work db"
  by (induction es arbitrary: db) (simp_all add: expired_all_def)

lemma scrub_fold_work: "ad_work (fold scrub_body is db) = ad_work db"
  by (induction "is" arbitrary: db) (simp_all add: scrub_body_frame)

lemma mail_step_grows:
  assumes "mail_ok lib db" "mail_step lib db db'"
  shows "parties_grow (ad_work db) (ad_work db')"
  using assms(2)
proof cases
  case (mail_insert request out)
  then obtain c x d issuer rc where a: "admit_request lib request db = Ok (c, x, d, issuer, rc)"
    by (auto simp: insert_a2a_envelope_def and_then_Inr_iff)
  have "db' = db \<or> (\<exists>e r. db' = sent e r db)"
    using insert_answer(1) [OF assms(1) a HOL.refl HOL.refl] mail_insert by (auto split: option.splits if_splits)
  then show ?thesis by (auto simp: sent_def)
next
  case (mail_expire actor limit now n)
  then obtain m t rc where a: "admit_actor lib actor limit now db = Ok (m, t, rc)" by (auto simp: expire_a2a_for_recipient_def and_then_Inr_iff)
  then show ?thesis using expire_answer(1) [OF assms(1) a] mail_expire by (auto simp: expired_all_work)
next
  case (mail_consume actor limit now es)
  then obtain m t rc where a: "admit_actor lib actor limit now db = Ok (m, t, rc)" by (auto simp: consume_a2a_for_recipient_def and_then_Inr_iff)
  then show ?thesis using consume_answer(1) [OF assms(1) a] mail_consume by (auto simp: after_consume_def expired_all_work consumed_all_work)
next
  case (mail_scrub as_of)
  then show ?thesis by (simp add: scrub_a2a_bodies_def scrub_fold_work)
next
  case (mail_work w)
  then show ?thesis using work_step_parties [OF mail_okD(4) [OF assms(1)] mail_work(2)] by simp
qed

lemma resolve_current_iff:
  assumes "parties_ok (ad_work db)"
  shows "resolve_current_local_admission agent c db \<noteq> None \<longleftrightarrow> map_of (wd_identities (ad_work db)) agent \<noteq> None
     \<and> (\<exists>k a. map_of (wd_admissions (ad_work db)) k = Some a \<and> ia_agent_identity_id a = Some agent \<and> ia_connection_id a = c
          \<and> ia_state a = ''self_asserted'')"
proof -
  let ?P = "\<lambda>a. ia_agent_identity_id a = Some agent \<and> ia_connection_id a = c \<and> ia_state a = ''self_asserted''"
  have mem: "x \<in> set (map snd (wd_admissions (ad_work db))) \<longleftrightarrow> (\<exists>k. map_of (wd_admissions (ad_work db)) k = Some x)" for x
    using assms by (force simp: parties_ok_def bt_wf_distinct)
  have nil: "sort_desc f xs = [] \<longleftrightarrow> xs = []" for f :: "identity_admission \<Rightarrow> string \<times> string" and xs
    using set_sort_desc [of f xs] by (metis set_empty)
  have "resolve_current_local_admission agent c db \<noteq> None \<longleftrightarrow> local_admissions (ad_work db) agent (\<lambda>a. ia_connection_id a = c) \<noteq> []"
    by (simp add: resolve_current_local_admission_def split: list.splits)
  also have "\<dots> \<longleftrightarrow> map_of (wd_identities (ad_work db)) agent \<noteq> None \<and> (\<exists>x. x \<in> set (map snd (wd_admissions (ad_work db))) \<and> ?P x)"
    by (auto simp: local_admissions_def filter_empty_conv nil)
  finally show ?thesis unfolding mem by blast
qed

text \<open>An agent admitted once through a connection is admitted through it for ever: nothing the storage records ends
  an admission, so the pair that \<open>current_local_connection\<close> names need not be connected any more.\<close>

lemma admission_never_lapses:
  assumes "mail_reached lib db" "(mail_step lib)\<^sup>*\<^sup>* db later" "admit_actor lib actor limit now db = Ok (n, t, rc)"
  shows "\<exists>rc'. admit_actor lib actor limit now later = Ok (n, t, rc')"
proof -
  have run: "mail_ok lib x \<and> parties_grow (ad_work db) (ad_work x)" if "(mail_step lib)\<^sup>*\<^sup>* db x" for x
    using that
  proof (induction rule: rtranclp_induct)
    case (step x y)
    then have "mail_ok lib y" "parties_grow (ad_work x) (ad_work y)"
      using mail_step_conforms [of lib x y] mail_step_grows [of lib x y] by (auto simp: mail_conforms_def)
    then show ?case using step.IH by (auto simp: parties_grow_def intro: map_le_trans)
  qed (simp add: mail_reached_ok [OF assms(1)])
  have some: "resolve_current_local_admission (ta_agent_identity_id actor) (ta_connection_id actor) db \<noteq> None"
    using assms(3) by (auto simp: admit_actor_def and_then_Inr_iff or_invalid_def split: option.splits)
  have "resolve_current_local_admission (ta_agent_identity_id actor) (ta_connection_id actor) later \<noteq> None"
    using some grow_lookup [OF conjunct2 [OF run [OF assms(2)]]]
    unfolding resolve_current_iff [OF mail_okD(4) [OF mail_reached_ok [OF assms(1)]]]
      resolve_current_iff [OF mail_okD(4) [OF conjunct1 [OF run [OF assms(2)]]]] by blast
  then show ?thesis using assms(3) by (auto simp: admit_actor_def and_then_Inr_iff or_invalid_def split: option.splits)
qed

end
