(* ===== verification/A2a_Examples.thy ===== *)
theory A2a_Examples
  imports A2a_Contract
begin

text \<open>
  The promises of the mailbox at work: \<open>ann\<close> sends \<open>bob\<close> a message, \<open>bob\<close> reads it once, a retry
  of the request gets the first receipt back, and the body goes ninety days after the reading.
\<close>

section \<open>A small mailbox\<close>

definition mail_lib :: a2a_lib where
  "mail_lib = \<lparr> parse_from_rfc3339 = (\<lambda>s. Some (int (length s))), MIN_UTC = 0, parse_datetime_utc = (\<lambda>_. None),
     to_rfc3339_ms = (\<lambda>t. replicate (nat t) CHR ''t''), minus_days = (\<lambda>t n. Some (t - n)), julianday = (\<lambda>s. Some (int (length s))),
     read_string_array = (\<lambda>_. None), sha256_bytes = (\<lambda>_. replicate 32 0), unixepoch = (\<lambda>s n. Some (int (length s) + n)) \<rparr>"

definition mail_party :: "string \<Rightarrow> agent_identity" where
  "mail_party a = \<lparr> ai_agent_identity_id = a, ai_display_name = None, ai_seat = None, ai_capability_json = None, ai_created_at = ''t'' \<rparr>"

definition mail_admission :: "string \<Rightarrow> string \<Rightarrow> string \<Rightarrow> identity_admission" where
  "mail_admission i a c = \<lparr> ia_admission_id = i, ia_agent_identity_id = Some a, ia_connection_id = c, ia_state = ''self_asserted'',
     ia_rejection_evidence = None, ia_created_at = ''t'' \<rparr>"

definition mail_request :: new_a2a_envelope where
  "mail_request = \<lparr> na_envelope_id = ''m1'', na_issuer_agent_identity_id = ''ann'', na_issuer_connection_id = ''c1'',
     na_recipient_agent_identity_id = ''bob'', na_subject_ref = ''a2a_envelope:p'', na_body = ''hi'', na_idempotency_key = ''k'',
     na_created_at = ''t'', na_expires_at = ''tttt'' \<rparr>"

definition mail_digest :: string where
  "mail_digest = replicate 64 CHR ''0''"

definition mail_letter :: "string option \<Rightarrow> string \<Rightarrow> int \<Rightarrow> a2a_envelope" where
  "mail_letter body state version = \<lparr> en_envelope_id = ''m1'', en_kind = ''turn_response/v1'', en_issuer_agent_identity_id = ''ann'',
     en_issuer_admission_id = ''a1'', en_recipient_agent_identity_id = ''bob'', en_recipient_admission_id = ''b1'',
     en_subject_ref = ''a2a_envelope:p'', en_body = body, en_body_digest = mail_digest, en_issuer_identity_assurance = ''self_asserted'',
     en_recipient_identity_assurance = ''self_asserted'', en_issuer_trust_domain = ''same_host'', en_recipient_trust_domain = ''same_host'',
     en_issuer_trust_basis = ''current_local_connection'', en_recipient_trust_basis = ''historical_local_admission'',
     en_idempotency_key = ''k'', en_created_at = ''t'', en_expires_at = ''tttt'', en_current_state = state, en_state_version = version \<rparr>"

definition mail_receipt :: "string \<Rightarrow> int \<Rightarrow> string \<Rightarrow> string \<Rightarrow> string \<Rightarrow> string \<Rightarrow> a2a_delivery_receipt" where
  "mail_receipt k version state agent admission t = \<lparr> dr_receipt_id = k, dr_envelope_id = ''m1'', dr_envelope_version = version, dr_state = state,
     dr_actor_agent_identity_id = agent, dr_actor_admission_id = admission, dr_identity_assurance = ''self_asserted'',
     dr_trust_domain = ''same_host'', dr_trust_basis = ''current_local_connection'', dr_occurred_at = t \<rparr>"

definition mail_parties :: work_db where
  "mail_parties = \<lparr> wd_claims = [], wd_identities = [(''ann'', mail_party ''ann''), (''bob'', mail_party ''bob'')],
     wd_admissions = [(''a1'', mail_admission ''a1'' ''ann'' ''c1''), (''b1'', mail_admission ''b1'' ''bob'' ''c2'')], wd_envs = [] \<rparr>"

definition mail_first :: a2a_delivery_receipt where
  "mail_first = mail_receipt ''m1:received:1'' 1 ''received'' ''ann'' ''a1'' ''t''"

definition mail_known :: a2a_db where
  "mail_known = \<lparr> ad_work = mail_parties, ad_envelopes = [], ad_receipts = [] \<rparr>"

definition mail_sent_db :: a2a_db where
  "mail_sent_db = \<lparr> ad_work = mail_parties, ad_envelopes = [(''m1'', mail_letter (Some ''hi'') ''received'' 1)],
     ad_receipts = [(''m1:received:1'', mail_first)] \<rparr>"

definition mail_read_db :: a2a_db where
  "mail_read_db = \<lparr> ad_work = mail_parties, ad_envelopes = [(''m1'', mail_letter (Some ''hi'') ''consumed'' 3)],
     ad_receipts = [(''m1:accepted:2'', mail_receipt ''m1:accepted:2'' 2 ''accepted'' ''bob'' ''b1'' ''ttt''),
       (''m1:consumed:3'', mail_receipt ''m1:consumed:3'' 3 ''consumed'' ''bob'' ''b1'' ''ttt''), (''m1:received:1'', mail_first)] \<rparr>"

definition mail_scrubbed_db :: a2a_db where
  "mail_scrubbed_db = mail_read_db\<lparr> ad_envelopes := [(''m1'', mail_letter None ''consumed'' 3)] \<rparr>"

definition mail_reader :: a2a_transition_actor where
  "mail_reader = \<lparr> ta_agent_identity_id = ''bob'', ta_connection_id = ''c2'' \<rparr>"

definition mail_bob :: a2a_recipient_eligibility where
  "mail_bob = \<lparr> el_agent_identity_id = ''bob'', el_admission_id = ''b1'', el_connection_id = ''c2'', el_identity_assurance = ''self_asserted'',
     el_trust_domain = ''same_host'', el_trust_basis = ''current_local_connection'' \<rparr>"

definition mail_later :: string where
  "mail_later = replicate 100 CHR ''t''"

lemma mail_admit: "admit_actor mail_lib mail_reader 5 ''ttt'' mail_sent_db = Ok (5, ''ttt'', mail_bob)"
  by code_simp

lemma mail_consume_answer: "consume_a2a_for_recipient mail_lib mail_reader 5 ''ttt'' mail_sent_db = Ok ([mail_letter (Some ''hi'') ''consumed'' 3], mail_read_db)"
  by code_simp

lemma mail_insert_answer: "insert_a2a_envelope mail_lib mail_request mail_known = Ok (A2aCreated (mail_letter (Some ''hi'') ''received'' 1) mail_first, mail_sent_db)"
  by code_simp

lemma mail_scrub_answer: "scrub_a2a_bodies mail_lib mail_later mail_read_db = mail_scrubbed_db"
  by code_simp

lemma mail_parties_steps:
  "insert_agent_identity mail_lib ''t'' (mail_party ''ann'') empty_work = Ok ((), empty_work\<lparr> wd_identities := [(''ann'', mail_party ''ann'')] \<rparr>)"
  "insert_agent_identity mail_lib ''t'' (mail_party ''bob'') (empty_work\<lparr> wd_identities := [(''ann'', mail_party ''ann'')] \<rparr>)
     = Ok ((), empty_work\<lparr> wd_identities := wd_identities mail_parties \<rparr>)"
  "record_unverified_admission mail_lib ''t'' ''a1'' ''ann'' ''c1'' SelfAsserted (empty_work\<lparr> wd_identities := wd_identities mail_parties \<rparr>)
     = Ok ((), empty_work\<lparr> wd_identities := wd_identities mail_parties, wd_admissions := [(''a1'', mail_admission ''a1'' ''ann'' ''c1'')] \<rparr>)"
  "record_unverified_admission mail_lib ''t'' ''b1'' ''bob'' ''c2'' SelfAsserted
     (empty_work\<lparr> wd_identities := wd_identities mail_parties, wd_admissions := [(''a1'', mail_admission ''a1'' ''ann'' ''c1'')] \<rparr>) = Ok ((), mail_parties)"
  by code_simp+

text \<open>A second message, after the first was read.\<close>

definition mail_request_2 :: new_a2a_envelope where
  "mail_request_2 = mail_request\<lparr> na_envelope_id := ''m2'', na_idempotency_key := ''k2'' \<rparr>"

definition mail_letter_2 :: "string \<Rightarrow> int \<Rightarrow> a2a_envelope" where
  "mail_letter_2 state version = (mail_letter (Some ''hi'') state version)\<lparr> en_envelope_id := ''m2'', en_idempotency_key := ''k2'' \<rparr>"

definition mail_first_2 :: a2a_delivery_receipt where
  "mail_first_2 = (mail_receipt ''m2:received:1'' 1 ''received'' ''ann'' ''a1'' ''t'')\<lparr> dr_envelope_id := ''m2'' \<rparr>"

definition mail_more_db :: a2a_db where
  "mail_more_db = \<lparr> ad_work = mail_parties, ad_envelopes = ad_envelopes mail_read_db @ [(''m2'', mail_letter_2 ''received'' 1)],
     ad_receipts = ad_receipts mail_read_db @ [(''m2:received:1'', mail_first_2)] \<rparr>"

lemma mail_insert_2: "insert_a2a_envelope mail_lib mail_request_2 mail_read_db = Ok (A2aCreated (mail_letter_2 ''received'' 1) mail_first_2, mail_more_db)"
  by code_simp

lemma mail_consume_2: "\<exists>db'. consume_a2a_for_recipient mail_lib mail_reader 5 ''ttt'' mail_more_db = Ok ([mail_letter_2 ''consumed'' 3], db')"
proof -
  have "(case consume_a2a_for_recipient mail_lib mail_reader 5 ''ttt'' mail_more_db of Ok (es, db') \<Rightarrow> es = [mail_letter_2 ''consumed'' 3] | Err _ \<Rightarrow> False)"
    by code_simp
  then show ?thesis by (auto split: sum.splits)
qed

lemma mail_retry: "admit_request mail_lib mail_request mail_scrubbed_db = Ok (''t'', ''tttt'', mail_digest,
    \<lparr> el_agent_identity_id = ''ann'', el_admission_id = ''a1'', el_connection_id = ''c1'', el_identity_assurance = ''self_asserted'',
       el_trust_domain = ''same_host'', el_trust_basis = ''current_local_connection'' \<rparr>,
    mail_bob\<lparr> el_trust_basis := ''historical_local_admission'' \<rparr>)"
  by code_simp

section \<open>The states they reach\<close>

lemma mail_run_step: "mail_reached lib db \<Longrightarrow> mail_step lib db db' \<Longrightarrow> mail_reached lib db'"
  by (rule rtranclp.rtrancl_into_rtrancl)

lemma mail_reached_parties: "mail_reached mail_lib mail_known"
proof -
  have work: "mail_reached lib (empty_mailbox\<lparr> ad_work := w' \<rparr>)" if "mail_reached lib (empty_mailbox\<lparr> ad_work := w \<rparr>)" "work_step lib w w'" for lib :: a2a_lib and w w'
    using mail_run_step [OF that(1) mail_work [of lib "empty_mailbox\<lparr> ad_work := w \<rparr>" w']] that(2) by simp
  have "mail_reached mail_lib (empty_mailbox\<lparr> ad_work := empty_work \<rparr>)" by (simp add: empty_mailbox_def)
  note 1 = work [OF this work_step.intros(1) [OF mail_parties_steps(1)]]
  note 2 = work [OF 1 work_step.intros(1) [OF mail_parties_steps(2)]]
  note 3 = work [OF 2 work_step.intros(2) [OF mail_parties_steps(3)]]
  note 4 = work [OF 3 work_step.intros(2) [OF mail_parties_steps(4)]]
  show ?thesis using 4 by (simp add: empty_mailbox_def mail_known_def)
qed

lemma mail_reached_sent: "mail_reached mail_lib mail_sent_db"
  by (rule mail_run_step [OF mail_reached_parties mail_insert [OF mail_insert_answer]])

lemma mail_reached_read: "mail_reached mail_lib mail_read_db"
  by (rule mail_run_step [OF mail_reached_sent mail_consume [OF mail_consume_answer]])

lemma mail_scrub_run: "mail_step mail_lib mail_read_db mail_scrubbed_db"
  using mail_scrub [of mail_lib mail_read_db mail_later] by (simp add: mail_scrub_answer)

lemma mail_find:
  "find_envelope mail_read_db ''m1'' = Some (mail_letter (Some ''hi'') ''consumed'' 3)"
  "find_envelope mail_scrubbed_db ''m1'' = Some (mail_letter None ''consumed'' 3)"
  by (simp_all add: find_envelope_def mail_read_db_def mail_scrubbed_db_def)

theorem mailbox_trail_witness:
  "map (\<lambda>r. (dr_state r, dr_envelope_version r)) (receipts_of mail_read_db ''m1'') = [(''received'', 1), (''accepted'', 2), (''consumed'', 3)]"
  using mailbox_trail [OF mail_reached_read mail_find(1)] by (simp add: mail_letter_def)

theorem consume_law_witness:
  "\<exists>db'. consume_a2a_for_recipient mail_lib mail_reader 5 ''ttt'' mail_sent_db = Ok (map consumed_row (take 5 (live_mail ''bob'' ''ttt'' mail_sent_db)), db')
     \<and> live_mail ''bob'' ''ttt'' db' = drop 5 (live_mail ''bob'' ''ttt'' mail_sent_db)"
  using consume_law [OF mail_reached_sent mail_admit] by (auto simp: mail_reader_def)

theorem delivered_at_most_once_witness:
  "en_envelope_id ` set [mail_letter (Some ''hi'') ''consumed'' 3] \<inter> en_envelope_id ` set [mail_letter_2 ''consumed'' 3] = {}"
proof -
  obtain db' where "consume_a2a_for_recipient mail_lib mail_reader 5 ''ttt'' mail_more_db = Ok ([mail_letter_2 ''consumed'' 3], db')"
    using mail_consume_2 by blast
  from delivered_at_most_once [OF mail_reached_sent mail_consume_answer r_into_rtranclp [of "mail_step mail_lib", OF mail_insert [OF mail_insert_2]] this] show ?thesis .
qed

theorem sending_is_idempotent_witness:
  "insert_a2a_envelope mail_lib mail_request mail_scrubbed_db = Ok (A2aReplay (mail_letter None ''consumed'' 3) mail_first, mail_scrubbed_db)"
proof -
  have run: "(mail_step mail_lib)\<^sup>*\<^sup>* mail_sent_db mail_scrubbed_db"
    by (rule rtranclp.rtrancl_into_rtrancl [OF r_into_rtranclp [of "mail_step mail_lib", OF mail_consume [OF mail_consume_answer]] mail_scrub_run])
  have ttl: "ttl_matches mail_lib (mail_letter (Some ''hi'') ''received'' 1) ''t'' ''tttt''" by code_simp
  show ?thesis
    using sending_is_idempotent [OF mail_reached_parties mail_insert_answer run mail_retry HOL.refl HOL.refl] ttl mail_find(2)
    by (simp add: mail_request_def mail_letter_def)
qed

theorem bodies_outlive_delivery_witness:
  "\<exists>as_of r. mail_scrubbed_db = scrub_a2a_bodies mail_lib as_of mail_read_db \<and> r \<in> set (receipts_of mail_read_db ''m1'')
     \<and> dr_state r = ''consumed'' \<and> at_or_before (unixepoch mail_lib (dr_occurred_at r) 90) (unixepoch mail_lib as_of 0)"
  using bodies_outlive_delivery [OF mail_reached_read mail_scrub_run mail_find(1) _ mail_find(2)] by (auto simp: mail_letter_def)

end
