(* ===== verification/Spec2Isabelle.thy ===== *)
theory Spec2Isabelle
  imports Truth_Handoff Truth_Refresh Truth_Consumer Catalog_Outcome Catalog_Plan Catalog_Endpoint
    Delivery_Examples Claims_Examples Outbox_Examples A2a_Examples
begin

text \<open>
  Tachi keeps an authoritative record of a project's state, routes model calls over a
  reviewed catalog, leases work to agents, carries their messages and delivers the results of
  executions to their requesters. This library models these subsystems, each from its data types to its SQLite
  tables, and proves the theorems that make them correct.

  \<^bold>\<open>CurrentTruth\<close> (\<open>crates/tachi-params/src/current_truth\<close>). Assertions about issues,
  pull requests, commits and handoffs arrive in any order and are appended to a store; a
  reducer groups them and derives, per subject and predicate, one status with its values
  and evidence heads; projections over the reduction decide the open actions of an issue
  and whether a handoff is stale; a refresh adapter mints assertions from a GitHub
  snapshot; a consumer surface answers authorised and public reads.
    \<^item> \<open>Truth_Types\<close> is \<open>types.rs\<close>: identities, subjects, predicates, values, admission.
    \<^item> \<open>Truth_Reducer\<close> and \<open>Truth_Lifecycle\<close> are \<open>reducer.rs\<close>: \<open>reduce\<close>, its lookups, the
      family resolution and the per-issue views. \<open>reduce_order_free\<close>, \<open>reduce_status_law\<close>,
      \<open>reduce_heads_law\<close> and \<open>reduction_get_law\<close> say what the reduction is, without the loop.
    \<^item> \<open>Truth_Projection\<close> is \<open>projection.rs\<close> (one action per issue, gated by posture and
      conflicts), \<open>Truth_Handoff\<close> is \<open>handoff.rs\<close> with its family specification.
    \<^item> \<open>Truth_Refresh\<close> is \<open>refresh.rs\<close>; \<open>Truth_Store\<close> and \<open>Truth_Posture\<close> are \<open>store.rs\<close>, with
      the three tables as lists of rows and their constraints written out.
    \<^item> \<open>Truth_Consumer\<close> is \<open>consumer.rs\<close>: what an unauthorised caller can see, and when a
      view refuses to answer.

  \<^bold>\<open>Model broker and catalog\<close> (\<open>crates/memcore/src\<close>). A reference to a model is resolved
  through reviewed aliases to a deployment of the catalog, under its health and its budget.
  Observed outcomes of requests feed the deployment's health row and an append-only event
  log; a fold of that log can stand in for the tables. Aliases change only through plans
  that bind every revision they were reviewed against.
    \<^item> \<open>Broker_Seam\<close> is \<open>model_broker_seam.rs\<close> and its directory (vocabularies, validated
      constructors, the fixture resolver), \<open>Broker_Alias\<close> is \<open>catalog/alias_policy.rs\<close>,
      \<open>Broker_Float\<close> is the binary64 rounding and \<open>Broker_Resolver\<close> is \<open>catalog/resolver.rs\<close>.
    \<^item> \<open>Catalog_Rows\<close> is \<open>catalog.rs\<close>: the row types, their vocabularies and digests, price
      sheets and the freshness gate.
    \<^item> \<open>Catalog_Fold\<close> is \<open>catalog/fold.rs\<close>. The locale \<open>watermarked_fold\<close> is the contract of
      a fold that skips what its watermark covers; interpreted on \<open>apply_event\<close> it gives
      the replay equivalence.
    \<^item> \<open>Catalog_Health\<close> is \<open>catalog/health.rs\<close>: the \<open>Retry-After\<close> reader, the classification
      of a response and the row transition.
    \<^item> \<open>Catalog_Store\<close> is \<open>db/model_catalog.rs\<close> without the aliases; \<open>catalog_step\<close> is one
      write of it and \<open>log_accounts_for_tables\<close> the refinement between tables and log.
    \<^item> \<open>Catalog_Outcome\<close> is the transaction around an outcome, over a connection with its
      savepoint stack where a statement may be refused, with or without a rollback by SQLite
      itself, and the effect of many outcomes.
    \<^item> \<open>Catalog_Plan\<close> is \<open>catalog/alias_plan.rs\<close>, the alias accessors of
      \<open>db/model_catalog.rs\<close> and \<open>store/model_alias_plan.rs\<close>; \<open>alias_step\<close> is a catalog write
      or the commit of a plan.
    \<^item> \<open>Catalog_Endpoint\<close> is \<open>catalog/endpoint.rs\<close>: the gate that refuses an endpoint
      carrying a credential.

  \<^bold>\<open>Delivery spine\<close> (\<open>crates/memcore/src/db/delivery_intents.rs\<close>). The result of an execution
  becomes a durable intent, which an admitted requester claims under a lease and then
  acknowledges, refuses or dismisses; every change appends to a ledger of events.
    \<^item> \<open>Delivery_Intents\<close> is the module over its two tables with the constraints of
      \<open>db/schema.rs\<close>; a call takes the database to a result and a database.
    \<^item> \<open>Delivery_Laws\<close> lists the row writes of the calls on one intent (\<open>requester_moves\<close>,
      \<open>moves\<close>) and shows that every call is a sequence of them, as an instance of
      \<open>row_machine\<close>. \<open>Delivery_Machine\<close> states the frozen state machine of the module's
      header (\<open>frozen\<close>, \<open>new_phase\<close>) with its states, fields and events spelled out and none
      of the code's row functions, and simulates the writes in it.
    \<^item> \<open>Delivery_Contract\<close> and \<open>Delivery_Recovery\<close> draw the promises of the module:
      refinement of the machine, exactly-once ledger, blocked intents that wait, privacy and
      its limits, idempotent mints, results that only advance, atomic refusals, recovery of a
      lost acknowledgement; \<open>Delivery_Examples\<close> runs them on one intent.

  \<^bold>\<open>Work claims\<close> (\<open>crates/memcore/src/db/session_claims.rs\<close>). Agents claim work on an issue,
  a worktree and a scope; a claim is active, orphaned when its heartbeat stops, or released,
  and is handed on under its version. Presence rows of the older protocol share the table.
    \<^item> \<open>Work_Claims\<close> is the module over its four tables; a call that fails writes nothing.
    \<^item> \<open>Claims_Laws\<close> gives the overlap test its meaning, the machine of one claim
      (\<open>claim_moves\<close>) and the invariant \<open>work_ok\<close> of the database, which every call keeps.
    \<^item> \<open>Claims_Contract\<close> draws the promises: exclusion, holders, versions as fences (locale
      \<open>fenced_write\<close>, one interpretation per versioned call), evidence about environments,
      presence, takeover and the project gate; \<open>Claims_Examples\<close> runs them and shows limits.

  \<^bold>\<open>Durable outbox\<close> (\<open>crates/memcore/src\<close>). A memory commits together with an event that
  announces it; a drain leases events to a consumer, which applies them at a destination store
  and reports an outcome; conflicts end by an explicit decision.
    \<^item> \<open>Path_Router\<close> is \<open>path_router.rs\<close> and the vocabularies of \<open>types/entry.rs\<close>, which guard
      every write; \<open>Path_Laws\<close> says what its normal form is and is not.
    \<^item> \<open>Outbox_Queue\<close> is \<open>db/outbox.rs\<close> and \<open>store/outbox.rs\<close>; \<open>Outbox_Protocol\<close> is
      \<open>store/outbox_protocol.rs\<close> and \<open>store/outbox_destination_apply.rs\<close>. The writers of the
      \<open>memories\<close> table, \<open>db/memory_crud.rs\<close>, are not modelled: the two the outbox calls are
      arguments (\<open>memory_ops\<close>), and a step may replace that table by any. The real insert
      normalizes the path, scrubs the text and strips reserved metadata; no property assumes
      that it stores a row as it was handed over.
    \<^item> \<open>Outbox_Laws\<close> inverts every call, states the edges of an event (\<open>event_moves\<close>) and the
      invariant \<open>outbox_ok\<close>, and interprets \<open>row_machine\<close> on events and on receipts.
    \<^item> \<open>Outbox_Contract\<close> and \<open>Outbox_Health\<close> draw the promises: commits, drains, outcomes,
      conflicts, destinations, health as an inventory; \<open>Outbox_Examples\<close>
      follows one memory through them.

  \<^bold>\<open>A2A mailbox\<close> (\<open>crates/memcore/src/db/a2a.rs\<close>). Agents of one host send each other
  messages that expire, are read once and lose their body ninety days later, each transition
  with its receipt.
    \<^item> \<open>A2a_Mailbox\<close> is the file, over the tables of the work claims for identities and
      admissions, with the body scrub of \<open>db/operator_maintenance.rs\<close>.
    \<^item> \<open>A2a_Laws\<close> states the invariant \<open>mail_wf\<close>, shows that one transition (\<open>moved\<close>)
      succeeds on it and keeps it, and so that no recipient call fails half way;
      \<open>A2a_Machine\<close> gives the exact views every call leaves and interprets \<open>row_machine\<close>.
    \<^item> \<open>A2a_Contract\<close> draws the promises: receipts as history, total and ordered reading,
      delivery at most once, idempotent sending, retention; \<open>A2a_Examples\<close> sends one message.

  \<^bold>\<open>Shared.\<close> \<open>Tachi_Prelude\<close> holds the result type, the string operations of the standard
  library (bytes as characters, UTF-8 white space), ordered maps \<open>bt_\<close> and stable sorting;
  \<open>Tachi_Strings\<close> its string patterns;
  \<open>Tachi_Json\<close> the JSON values and the canonical digest of \<open>canonical_digest.rs\<close>;
  \<open>Tachi_Codec\<close> a concrete codec for the witnesses. Names of definitions are those of the
  code; record fields carry a short prefix of their struct.

  \<^bold>\<open>Parameters.\<close> Code outside the repository is an argument: \<open>codec\<close> holds \<open>serde_json\<close>'s
  printer and reader and SHA-256, \<open>row_codec\<close> also the derived serializers of three
  columns, \<open>chrono\<close> and \<open>clock\<close> the date and time functions of \<open>chrono\<close>. What a theorem
  needs of them is its hypothesis (a printed value reads back, a rendered instant reads
  back to the millisecond) and is met by the codec and the clock of its witness. Readings
  of the wall clock are arguments. Machine integers whose arithmetic can wrap are words or
  carry their bound; an \<open>i64\<close> that is only compared, printed or counted up by one per
  database write (\<open>di_revision\<close>, \<open>md_revision\<close>, \<open>al_revision\<close>) is an \<open>int\<close>, so what is proved of it
  holds as long as a row is written fewer than \<open>2 ^ 63 - 1\<close> times; \<open>di_result_revision\<close>, which a
  caller may set, keeps its bound. A JSON float is its bit pattern: the model tells \<open>-0.0\<close> from
  \<open>0.0\<close>, which the \<open>==\<close> of the source equates and its printer writes differently.

  \<^bold>\<open>Termination.\<close> Every function is total. The recursions that are not structural have
  their measures (\<open>strip\<close>, \<open>split_on\<close>, the resolver's candidate loop); fuel occurs only in
  the reader of the demonstration codec, where the length of the text bounds it.

  \<^bold>\<open>Not modelled.\<close> Prose of error messages and \<open>Display\<close>; serde derives beyond the
  vocabularies; opening databases, migrations and SQLite itself: tables are ordered maps
  with the constraints of the schema, and a transaction is what SQLite documents (a failing
  block is undone; \<open>Catalog_Outcome\<close> spells out savepoints and automatic rollback); concurrency, which the code serialises with
  \<open>BEGIN IMMEDIATE\<close>; and the other crates: the server and its runtime, hybrid search and
  embeddings, the vault, the dispatch and capture pipelines, bindings and tools.
\<close>

end
